(* ===== verification/MPD_Prelude.thy ===== *)
theory MPD_Prelude
  imports Main "HOL-Library.Multiset" "HOL-Library.Word"
begin

text \<open>
  Shared vocabulary of the development: the two shapes of counting loops the C++ code uses,
  element exchange in an array, the draws of a random engine, and the generic facts about
  array updates on which the component theories rest.  The two collections
  \<open>queue_defs\<close> and \<open>array_simps\<close> gather the defining equations and the array rewrite rules.
\<close>

named_theorems array_simps \<open>rewrite rules for arrays that are updated in loops\<close>
named_theorems queue_defs \<open>defining equations of the queue operations\<close>

section \<open>Counting loops\<close>

text \<open>\<open>for (i = lo; i < hi; i++) body\<close> and \<open>for (i = hi - 1; i >= lo; i--) body\<close>.\<close>

abbreviation for_up :: "nat \<Rightarrow> nat \<Rightarrow> (nat \<Rightarrow> 's \<Rightarrow> 's) \<Rightarrow> 's \<Rightarrow> 's" where
  "for_up lo hi body s \<equiv> fold body [lo..<hi] s"

abbreviation for_down :: "nat \<Rightarrow> nat \<Rightarrow> (nat \<Rightarrow> 's \<Rightarrow> 's) \<Rightarrow> 's \<Rightarrow> 's" where
  "for_down lo hi body s \<equiv> fold body (rev [lo..<hi]) s"

lemma fold_upt_Suc: "lo \<le> hi \<Longrightarrow> for_up lo (Suc hi) body s = body hi (for_up lo hi body s)"
  by simp

lemma fold_invariant:
  assumes "P s" and "\<And>x s. x \<in> set xs \<Longrightarrow> P s \<Longrightarrow> P (f x s)"
  shows "P (fold f xs s)"
  using assms by (induction xs arbitrary: s) auto

section \<open>Arrays\<close>

text \<open>\<open>std::swap(a[i], a[j])\<close>.\<close>

definition array_swap :: "'a list \<Rightarrow> nat \<Rightarrow> nat \<Rightarrow> 'a list" where
  "array_swap xs i j = xs[i := xs ! j, j := xs ! i]"

lemma length_array_swap [simp, array_simps]: "length (array_swap xs i j) = length xs"
  by (simp add: array_swap_def)

lemma nth_array_swap [array_simps]:
  "i < length xs \<Longrightarrow> j < length xs \<Longrightarrow> k < length xs \<Longrightarrow>
   array_swap xs i j ! k = (if k = i then xs ! j else if k = j then xs ! i else xs ! k)"
  by (auto simp: array_swap_def nth_list_update)

lemma array_swap_same [simp]: "array_swap xs i i = xs"
  by (simp add: array_swap_def)

lemma mset_array_swap:
  assumes "i < length xs" "j < length xs"
  shows "mset (array_swap xs i j) = mset xs"
  using mset_swap[OF assms(2,1)] by (simp add: array_swap_def)

lemma array_swap_take:
  "i < n \<Longrightarrow> j < n \<Longrightarrow> n \<le> length xs \<Longrightarrow> take n (array_swap xs i j) = array_swap (take n xs) i j"
  by (simp add: array_swap_def take_update_swap)

lemma array_swap_drop:
  "i < n \<Longrightarrow> j < n \<Longrightarrow> drop n (array_swap xs i j) = drop n xs"
  by (simp add: array_swap_def)

text \<open>The loop \<open>for (i = lo; i < hi; i++) a[i] = a[i + 1]\<close> removes the element at \<open>lo\<close>.\<close>

lemma shift_down_loop:
  assumes "lo \<le> hi" "hi < length xs"
  shows "for_up lo hi (\<lambda>i ys. ys[i := ys ! (i + 1)]) xs =
    take lo xs @ take (hi - lo) (drop (Suc lo) xs) @ drop hi xs"
proof (rule nth_equalityI)
  let ?L = "\<lambda>h. for_up lo h (\<lambda>i ys. ys[i := ys ! (i + 1)]) xs"
  have loop: "length (?L h) = length xs \<and>
      (\<forall>k < length xs. ?L h ! k = (if lo \<le> k \<and> k < h then xs ! Suc k else xs ! k))"
    if "lo \<le> h" "h < length xs" for h
    using that
  proof (induction h rule: dec_induct)
    case base
    then show ?case by auto
  next
    case (step h)
    then show ?case by (auto simp: nth_list_update less_Suc_eq)
  qed
  from loop[OF assms] show "length (?L hi) =
      length (take lo xs @ take (hi - lo) (drop (Suc lo) xs) @ drop hi xs)"
    using assms by simp
  fix k assume "k < length (?L hi)"
  then have "k < length xs" using loop[OF assms] by simp
  then show "?L hi ! k = (take lo xs @ take (hi - lo) (drop (Suc lo) xs) @ drop hi xs) ! k"
    using loop[OF assms] assms by (auto simp: nth_append)
qed

text \<open>The loop \<open>for (i = hi; i > lo; --i) a[i] = a[i - 1]\<close>.\<close>

lemma shift_up_loop:
  assumes "lo \<le> hi" "hi < length xs" "k < length xs"
  shows "for_down (Suc lo) (Suc hi) (\<lambda>i ys. ys[i := ys ! (i - 1)]) xs ! k =
    (if lo < k \<and> k \<le> hi then xs ! (k - 1) else xs ! k)"
  using assms
proof (induction "hi - lo" arbitrary: hi xs)
  case 0
  then have "hi = lo" by simp
  then show ?case by auto
next
  case (Suc n)
  then obtain h where h: "hi = Suc h" "lo \<le> h" by (cases hi) auto
  then show ?case
    using Suc.hyps(1)[of h "xs[Suc h := xs ! h]"] Suc.hyps(2) Suc.prems
    by (auto simp: nth_list_update)
qed

lemma length_fold_update [simp]:
  "length (fold (\<lambda>i ys. ys[f i := g i ys]) is xs) = length xs"
  by (induction "is" arbitrary: xs) auto

section \<open>Maps\<close>

text \<open>Entering a list of bindings with distinct keys, one after the other.\<close>

lemma fold_upd_map_add:
  assumes "distinct (map fst ws)"
  shows "fold (\<lambda>(i, p) m. m(i \<mapsto> p)) ws m = m ++ map_of ws"
  using assms
proof (induction ws arbitrary: m)
  case (Cons w ws)
  obtain i p where w: "w = (i, p)" by (cases w)
  have "map_of ws i = None" using Cons.prems w by (simp add: map_of_eq_None_iff)
  then have eq: "m(i \<mapsto> p) ++ map_of ws = m ++ map_of (w # ws)"
    by (auto simp: w fun_eq_iff map_add_def split: option.splits)
  have "fold (\<lambda>(i, p) m. m(i \<mapsto> p)) (w # ws) m = fold (\<lambda>(i, p) m. m(i \<mapsto> p)) ws (m(i \<mapsto> p))"
    unfolding w by simp
  also have "\<dots> = m(i \<mapsto> p) ++ map_of ws" using Cons.prems by (intro Cons.IH) simp
  finally show ?case using eq by (rule trans)
qed simp
section \<open>Permutations of an initial segment\<close>

definition is_perm :: "nat \<Rightarrow> nat list \<Rightarrow> bool" where
  "is_perm n os \<longleftrightarrow> length os = n \<and> distinct os \<and> set os = {..<n}"

lemma is_permD:
  assumes "is_perm n os"
  shows "length os = n" "distinct os" "set os = {..<n}" "i < n \<Longrightarrow> os ! i < n"
  using assms by (auto simp: is_perm_def dest: nth_mem)

lemma is_perm_upt [simp]: "is_perm n [0..<n]"
  by (auto simp: is_perm_def)

lemma is_perm_mset: "is_perm n os \<longleftrightarrow> mset os = mset [0..<n]"
proof (rule iffI)
  assume p: "is_perm n os"
  then have "set os = set [0..<n]" by (simp only: is_perm_def set_upt atLeast0LessThan)
  then show "mset os = mset [0..<n]"
    using p set_eq_iff_mset_eq_distinct[of os "[0..<n]"] distinct_upt[of 0 n]
    unfolding is_perm_def by metis
next
  assume m: "mset os = mset [0..<n]"
  have "length os = n" using mset_eq_length[OF m] by simp
  moreover have "set os = {..<n}" using mset_eq_setD[OF m] by (simp only: set_upt atLeast0LessThan)
  moreover have "distinct os" using mset_eq_imp_distinct_iff[OF m] by simp
  ultimately show "is_perm n os" by (simp add: is_perm_def)
qed

lemma is_perm_bij:
  assumes "is_perm n os" "bij_betw f {..<n} {..<n}"
  shows "is_perm n (map f os)"
  using assms by (auto simp: is_perm_def bij_betw_def distinct_map)

lemma is_perm_swap:
  assumes "is_perm n os" "i < n" "j < n"
  shows "is_perm n (array_swap os i j)"
proof -
  have "mset (array_swap os i j) = mset os"
    using assms by (intro mset_array_swap) (simp_all add: is_permD(1))
  then show ?thesis using assms(1) unfolding is_perm_mset by simp
qed

section \<open>Random draws\<close>

text \<open>
  The random engine (\<open>std::mt19937\<close>, seeded from the system's entropy) is a finite supply of
  numbers; every sequence of results the engine can give is one such supply, so a fact proved
  for every supply holds for every run.  \<open>uniform_draw rs lo hi\<close> is
  \<open>std::uniform_int_distribution(lo, hi)(rand)\<close>, \<open>std_shuffle\<close> is \<open>std::shuffle\<close> on the
  subrange from \<open>start\<close> up to, but not including, \<open>fin\<close>.
\<close>

definition uniform_draw :: "nat list \<Rightarrow> nat \<Rightarrow> nat \<Rightarrow> nat \<times> nat list" where
  "uniform_draw rs lo hi = (case rs of [] \<Rightarrow> (lo, []) | r # rs' \<Rightarrow> (lo + r mod (hi - lo + 1), rs'))"

definition std_shuffle :: "nat \<Rightarrow> nat \<Rightarrow> nat list \<Rightarrow> 'a list \<Rightarrow> 'a list \<times> nat list" where
  "std_shuffle start fin rs xs =
     for_up (start + 1) fin
       (\<lambda>i (ys, rs). let (k, rs') = uniform_draw rs 0 (i - start)
                     in (array_swap ys i (start + k), rs')) (xs, rs)"

lemma uniform_draw_range:
  "uniform_draw rs lo hi = (k, rs') \<Longrightarrow> lo \<le> hi \<Longrightarrow> lo \<le> k \<and> k \<le> hi"
proof (cases rs)
  case (Cons r rs0)
  assume "uniform_draw rs lo hi = (k, rs')" "lo \<le> hi"
  moreover have "r mod Suc (hi - lo) < Suc (hi - lo)" by (rule mod_less_divisor) simp
  ultimately have "k = lo + r mod Suc (hi - lo)" "r mod Suc (hi - lo) \<le> hi - lo"
    using Cons by (simp_all add: uniform_draw_def)
  then show ?thesis using \<open>lo \<le> hi\<close> by linarith
qed (simp add: uniform_draw_def)

text \<open>Every element of the range can be drawn: no outcome is excluded by the model.\<close>

lemma uniform_draw_covers: "lo \<le> k \<Longrightarrow> k \<le> hi \<Longrightarrow> uniform_draw ((k - lo) # rs) lo hi = (k, rs)"
  by (simp add: uniform_draw_def)

definition same_outside :: "nat \<Rightarrow> nat \<Rightarrow> 'a list \<Rightarrow> 'a list \<Rightarrow> bool" where
  "same_outside start fin xs ys \<longleftrightarrow> length ys = length xs \<and> take start ys = take start xs \<and>
     drop fin ys = drop fin xs \<and> mset ys = mset xs"

lemma same_outside_refl [simp]: "same_outside s f xs xs"
  by (simp add: same_outside_def)

lemma same_outside_trans: "same_outside s f xs ys \<Longrightarrow> same_outside s f ys zs \<Longrightarrow> same_outside s f xs zs"
  by (simp add: same_outside_def)

lemma same_outside_swap:
  assumes "s \<le> i" "i < f" "s \<le> j" "j < f" "f \<le> length xs"
  shows "same_outside s f xs (array_swap xs i j)"
  using assms mset_array_swap[of i xs j] by (simp add: same_outside_def array_swap_def)

lemma std_shuffle_outside:
  fixes xs ys :: "'a list"
  assumes "fin \<le> length xs" "std_shuffle start fin rs xs = (ys, rs')"
  shows "same_outside start fin xs ys"
proof -
  let ?f = "\<lambda>i (ys :: 'a list, rs :: nat list). let (k, rs') = uniform_draw rs 0 (i - start) in (array_swap ys i (start + k), rs')"
  have "same_outside start fin xs (fst (fold ?f [start + 1..<fin] (xs, rs)))"
  proof (rule fold_invariant[where P = "\<lambda>p. same_outside start fin xs (fst p)"])
    fix i and p :: "'a list \<times> nat list" assume i: "i \<in> set [start + 1..<fin]" and P: "same_outside start fin xs (fst p)"
    obtain ys :: "'a list" and qs :: "nat list" where p: "p = (ys, qs)" by (cases p)
    obtain k qs' where d: "uniform_draw qs 0 (i - start) = (k, qs')" by (cases "uniform_draw qs 0 (i - start)")
    have k: "k \<le> i - start" using uniform_draw_range[OF d] by simp
    have "same_outside start fin ys (array_swap ys i (start + k))"
      using i k P p assms(1) by (intro same_outside_swap) (auto simp: same_outside_def)
    then show "same_outside start fin xs (fst (?f i p))"
      using P p d by (auto intro: same_outside_trans)
  qed simp
  then show ?thesis using assms(2) by (simp add: std_shuffle_def)
qed

text \<open>Rewriting the middle of an array by a permutation of that middle.\<close>

lemma same_outside_mid:
  assumes "s \<le> f" "f \<le> length xs" "mset zs = mset (take (f - s) (drop s xs))"
  shows "same_outside s f xs (take s xs @ zs @ drop f xs)"
proof -
  have len: "length zs = f - s" using mset_eq_length[OF assms(3)] assms(1,2) by simp
  have xs: "take s xs @ take (f - s) (drop s xs) @ drop f xs = xs"
    using assms(1) by (metis append_take_drop_id drop_drop le_add_diff_inverse2)
  have "mset (take s xs @ zs @ drop f xs) = mset (take s xs @ take (f - s) (drop s xs) @ drop f xs)"
    using assms(3) by simp
  then show ?thesis using len assms(1,2) xs by (simp add: same_outside_def)
qed

lemma same_outside_middle:
  assumes "same_outside s f xs ys" "s \<le> f" "f \<le> length xs"
  shows "mset (take (f - s) (drop s ys)) = mset (take (f - s) (drop s xs))"
proof -
  have split: "zs = take s zs @ take (f - s) (drop s zs) @ drop f zs" for zs :: "'a list"
    using assms(2) by (metis append_take_drop_id drop_drop le_add_diff_inverse2)
  have "mset (take s ys) + mset (take (f - s) (drop s ys)) + mset (drop f ys) =
        mset (take s xs) + mset (take (f - s) (drop s xs)) + mset (drop f xs)"
    using assms(1) split[of ys] split[of xs]
    by (metis same_outside_def mset_append add.assoc)
  then show ?thesis using assms(1) by (simp add: same_outside_def)
qed

end
