(* ===== verification/Id_Table.thy ===== *)
theory Id_Table
  imports MPD_Prelude
begin

text \<open>
  \<open>IdTable\<close> (src/src/IdTable.hxx): the table that maps song ids to queue positions, an array
  of signed numbers in which a negative entry is a free id, with a rotating cursor \<open>next\<close> from
  which new ids are taken.  The search loop of \<open>GenerateId\<close> never ends on a full table, so it
  is a partial function; \<open>GenerateId_returns\<close> shows that one free id is enough for it to return.
\<close>

record id_table =
  it_size :: nat
  it_next :: nat
  it_data :: "int list"

definition new_IdTable :: "nat \<Rightarrow> id_table" where
  "new_IdTable n = \<lparr>it_size = n, it_next = 1, it_data = replicate n (-1)\<rparr>"

definition IdTable_IdToPosition :: "id_table \<Rightarrow> nat \<Rightarrow> int" where
  "IdTable_IdToPosition t i = (if i < it_size t then it_data t ! i else -1)"

partial_function (option) GenerateId :: "id_table \<Rightarrow> (nat \<times> id_table) option" where
  "GenerateId t =
     (let i = it_next t;
          n = i + 1;
          t' = t\<lparr>it_next := (if n = it_size t then 1 else n)\<rparr>
      in if it_data t ! i < 0 then Some (i, t') else GenerateId t')"

definition IdTable_Insert :: "id_table \<Rightarrow> nat \<Rightarrow> (nat \<times> id_table) option" where
  "IdTable_Insert t position =
     (case GenerateId t of None \<Rightarrow> None
      | Some (i, t') \<Rightarrow> Some (i, t'\<lparr>it_data := (it_data t')[i := int position]\<rparr>))"

definition IdTable_Move :: "id_table \<Rightarrow> nat \<Rightarrow> nat \<Rightarrow> id_table" where
  "IdTable_Move t i position = t\<lparr>it_data := (it_data t)[i := int position]\<rparr>"

definition IdTable_Erase :: "id_table \<Rightarrow> nat \<Rightarrow> id_table" where
  "IdTable_Erase t i = t\<lparr>it_data := (it_data t)[i := -1]\<rparr>"

text \<open>The table's own invariant: the cursor stays inside the table and never on id 0.\<close>

definition it_inv :: "id_table \<Rightarrow> bool" where
  "it_inv t \<longleftrightarrow> length (it_data t) = it_size t \<and> 0 < it_next t \<and> it_next t < it_size t"

definition it_free :: "id_table \<Rightarrow> nat \<Rightarrow> bool" where
  "it_free t i \<longleftrightarrow> 0 < i \<and> i < it_size t \<and> it_data t ! i < 0"

lemma it_inv_new: "1 < n \<Longrightarrow> it_inv (new_IdTable n)"
  by (simp add: it_inv_def new_IdTable_def)

lemma it_inv_Move [simp]: "it_inv (IdTable_Move t i p) = it_inv t"
  by (simp add: it_inv_def IdTable_Move_def)

lemma it_inv_Erase [simp]: "it_inv (IdTable_Erase t i) = it_inv t"
  by (simp add: it_inv_def IdTable_Erase_def)

text \<open>One probe of the search: the cursor steps forward, wrapping from the last id to 1.\<close>

definition probe :: "id_table \<Rightarrow> id_table" where
  "probe t = t\<lparr>it_next := (if it_next t + 1 = it_size t then 1 else it_next t + 1)\<rparr>"

lemma GenerateId_step:
  "GenerateId t = (if it_data t ! it_next t < 0 then Some (it_next t, probe t) else GenerateId (probe t))"
  by (subst GenerateId.simps) (simp add: probe_def Let_def)

lemma probe_simps [simp]:
  "it_size (probe t) = it_size t" "it_data (probe t) = it_data t"
  by (simp_all add: probe_def)

lemma it_inv_probe: "it_inv t \<Longrightarrow> it_inv (probe t)"
  by (auto simp: it_inv_def probe_def)

text \<open>
  The number of probes until the cursor reaches \<open>i\<close>: the measure that bounds the search.
\<close>

definition probe_dist :: "id_table \<Rightarrow> nat \<Rightarrow> nat" where
  "probe_dist t i = (if it_next t \<le> i then i - it_next t else i + (it_size t - 1) - it_next t)"

lemma probe_dist_step:
  "it_inv t \<Longrightarrow> 0 < i \<Longrightarrow> i < it_size t \<Longrightarrow> it_next t \<noteq> i \<Longrightarrow>
   probe_dist (probe t) i < probe_dist t i"
  by (auto simp: it_inv_def probe_dist_def probe_def split: if_splits)

lemma GenerateId_returns:
  assumes "it_inv t" "it_free t i"
  obtains j t' where "GenerateId t = Some (j, t')" "it_free t j" "it_inv t'"
    "it_size t' = it_size t" "it_data t' = it_data t"
  using assms
proof (induction "probe_dist t i" arbitrary: t thesis rule: less_induct)
  case less
  note inv = \<open>it_inv t\<close> and free = \<open>it_free t i\<close>
  show ?case
  proof (cases "it_data t ! it_next t < 0")
    case True
    moreover have "it_free t (it_next t)" using inv True by (simp add: it_inv_def it_free_def)
    ultimately show ?thesis
      using less.prems(1)[of "it_next t" "probe t"] inv by (simp add: GenerateId_step[of t] it_inv_probe)
  next
    case False
    then have "it_next t \<noteq> i" using free by (auto simp: it_free_def)
    then have "probe_dist (probe t) i < probe_dist t i"
      using inv free by (intro probe_dist_step) (simp_all add: it_free_def)
    from less.hyps[OF this _ it_inv_probe[OF inv]] free
    obtain j t' where "GenerateId (probe t) = Some (j, t')" "it_free t j" "it_inv t'"
      "it_size t' = it_size t" "it_data t' = it_data t"
      by (auto simp: it_free_def)
    then show ?thesis using less.prems(1)[of j t'] False by (simp add: GenerateId_step[of t])
  qed
qed

section \<open>The interface: a partial map from ids to positions\<close>

text \<open>
  What the queue relies on: a table is a partial map from ids to positions; inserting takes a
  fresh id, moving overwrites a live one, erasing frees it, nothing else changes.
\<close>

locale id_map =
  fixes lookup :: "'t \<Rightarrow> nat \<Rightarrow> nat option"
    and insert :: "'t \<Rightarrow> nat \<Rightarrow> (nat \<times> 't) option"
    and move :: "'t \<Rightarrow> nat \<Rightarrow> nat \<Rightarrow> 't"
    and erase :: "'t \<Rightarrow> nat \<Rightarrow> 't"
    and capacity :: "'t \<Rightarrow> nat"
    and invar :: "'t \<Rightarrow> bool"
  assumes lookup_move: "invar t \<Longrightarrow> lookup t i \<noteq> None \<Longrightarrow> lookup (move t i p) = (lookup t)(i \<mapsto> p)"
    and lookup_erase: "invar t \<Longrightarrow> lookup (erase t i) = (lookup t)(i := None)"
    and insert_fresh: "invar t \<Longrightarrow> insert t p = Some (i, t') \<Longrightarrow>
          lookup t i = None \<and> lookup t' = (lookup t)(i \<mapsto> p) \<and> invar t' \<and> capacity t' = capacity t"
    and insert_returns: "invar t \<Longrightarrow> card (dom (lookup t)) < capacity t \<Longrightarrow> insert t p \<noteq> None"
    and invar_move: "invar t \<Longrightarrow> lookup t i \<noteq> None \<Longrightarrow> invar (move t i p) \<and> capacity (move t i p) = capacity t"
    and invar_erase: "invar t \<Longrightarrow> invar (erase t i) \<and> capacity (erase t i) = capacity t"
begin

text \<open>Placing a list of distinct live ids at new positions.\<close>

definition place_ids :: "(nat \<times> nat) list \<Rightarrow> 't \<Rightarrow> 't" where
  "place_ids ws t = fold (\<lambda>(i, p) t. move t i p) ws t"

lemma place_ids_lookup:
  assumes "invar t" "\<And>i p. (i, p) \<in> set ws \<Longrightarrow> lookup t i \<noteq> None"
  shows "invar (place_ids ws t) \<and> capacity (place_ids ws t) = capacity t \<and>
    lookup (place_ids ws t) = fold (\<lambda>(i, p) m. m(i \<mapsto> p)) ws (lookup t)"
  using assms
proof (induction ws arbitrary: t)
  case Nil
  then show ?case by (simp add: place_ids_def)
next
  case (Cons w ws)
  obtain i p where w: "w = (i, p)" by (cases w)
  have live: "lookup t i \<noteq> None" using Cons.prems(2)[of i p] w by simp
  have "lookup (move t i p) j \<noteq> None" if "(j, q) \<in> set ws" for j q
    using Cons.prems(2)[of j q] that by (simp add: lookup_move[OF Cons.prems(1) live])
  from Cons.IH[OF _ this] show ?case
    using w live Cons.prems(1) invar_move[OF Cons.prems(1) live] lookup_move[OF Cons.prems(1) live]
    by (simp add: place_ids_def)
qed

lemma lookup_insert_other:
  "invar t \<Longrightarrow> insert t p = Some (i, t') \<Longrightarrow> j \<noteq> i \<Longrightarrow> lookup t' j = lookup t j"
  using insert_fresh by fastforce

lemma lookup_insert_same: "invar t \<Longrightarrow> insert t p = Some (i, t') \<Longrightarrow> lookup t' i = Some p"
  using insert_fresh by fastforce

end

text \<open>The table as a partial map, and the number of ids it can hold (id 0 is never used).\<close>

definition id_lookup :: "id_table \<Rightarrow> nat \<Rightarrow> nat option" where
  "id_lookup t i = (if 0 \<le> IdTable_IdToPosition t i then Some (nat (IdTable_IdToPosition t i)) else None)"

definition id_ok :: "id_table \<Rightarrow> bool" where
  "id_ok t \<longleftrightarrow> it_inv t \<and> it_data t ! 0 < 0"

definition id_capacity :: "id_table \<Rightarrow> nat" where
  "id_capacity t = it_size t - 1"

lemma id_lookup_Some_iff:
  "id_lookup t i = Some p \<longleftrightarrow> i < it_size t \<and> it_data t ! i = int p"
  by (auto simp: id_lookup_def IdTable_IdToPosition_def)

lemma id_lookup_None_iff:
  "id_lookup t i = None \<longleftrightarrow> (i < it_size t \<longrightarrow> it_data t ! i < 0)"
  by (auto simp: id_lookup_def IdTable_IdToPosition_def)

lemma IdToPosition_lookup:
  "IdTable_IdToPosition t i < 0 \<longleftrightarrow> id_lookup t i = None"
  "id_lookup t i = Some p \<Longrightarrow> IdTable_IdToPosition t i = int p"
  by (auto simp: id_lookup_def split: if_splits)

lemma id_lookup_update:
  assumes "it_inv t" "i < it_size t"
  shows "id_lookup (t\<lparr>it_data := (it_data t)[i := x]\<rparr>) =
    (id_lookup t)(i := (if 0 \<le> x then Some (nat x) else None))"
  using assms by (auto simp: fun_eq_iff id_lookup_def IdTable_IdToPosition_def it_inv_def nth_list_update)

lemma id_lookup_Erase:
  assumes "it_inv t" shows "id_lookup (IdTable_Erase t i) = (id_lookup t)(i := None)"
proof (cases "i < it_size t")
  case True
  then show ?thesis using id_lookup_update[OF assms, of i "-1"] by (simp add: IdTable_Erase_def)
next
  case False
  then show ?thesis using assms
    by (auto simp: fun_eq_iff IdTable_Erase_def id_lookup_def IdTable_IdToPosition_def it_inv_def)
qed

lemma free_id_exists:
  assumes "id_ok t" "card (dom (id_lookup t)) < id_capacity t"
  obtains i where "it_free t i"
proof -
  have "\<not> {1..<it_size t} \<subseteq> dom (id_lookup t)"
  proof
    assume sub: "{1..<it_size t} \<subseteq> dom (id_lookup t)"
    have "finite (dom (id_lookup t))"
      by (rule finite_subset[of _ "{..<it_size t}"]) (auto simp: id_lookup_Some_iff dom_def)
    from card_mono[OF this sub] assms(2) show False by (simp add: id_capacity_def)
  qed
  then obtain i where "i \<in> {1..<it_size t}" "i \<notin> dom (id_lookup t)" by blast
  then have "it_free t i" by (simp add: it_free_def domIff id_lookup_None_iff)
  then show thesis by (rule that)
qed

lemma GenerateId_sound:
  assumes "it_inv t" "GenerateId t = Some (i, t')"
  shows "it_free t i \<and> it_inv t' \<and> it_size t' = it_size t \<and> it_data t' = it_data t"
proof -
  have "it_inv t \<longrightarrow> it_free t (fst r) \<and> it_inv (snd r) \<and> it_size (snd r) = it_size t \<and>
      it_data (snd r) = it_data t" if "GenerateId t = Some r" for r
  proof (rule GenerateId.raw_induct[where P = "\<lambda>t r. it_inv t \<longrightarrow> it_free t (fst r) \<and>
        it_inv (snd r) \<and> it_size (snd r) = it_size t \<and> it_data (snd r) = it_data t", OF _ that])
    fix g t r
    assume IH: "\<And>t r. g t = Some r \<Longrightarrow> it_inv t \<longrightarrow> it_free t (fst r) \<and> it_inv (snd r) \<and>
        it_size (snd r) = it_size t \<and> it_data (snd r) = it_data t"
      and eq: "(let i = it_next t; n = i + 1;
            t' = t\<lparr>it_next := if n = it_size t then 1 else n\<rparr>
        in if it_data t ! i < 0 then Some (i, t') else g t') = Some r"
    from eq have eq': "(if it_data t ! it_next t < 0 then Some (it_next t, probe t) else g (probe t)) = Some r"
      by (simp only: probe_def Let_def)
    show "it_inv t \<longrightarrow> it_free t (fst r) \<and> it_inv (snd r) \<and> it_size (snd r) = it_size t \<and>
        it_data (snd r) = it_data t"
      using eq' IH[of "probe t" r] it_inv_probe[of t]
      by (auto simp: it_free_def it_inv_def split: if_splits)
  qed
  from this[OF assms(2)] assms(1) show ?thesis by simp
qed

lemma Insert_sound:
  assumes "id_ok t" "IdTable_Insert t p = Some (i, t')"
  shows "id_lookup t i = None \<and> id_lookup t' = (id_lookup t)(i \<mapsto> p) \<and> id_ok t' \<and>
    id_capacity t' = id_capacity t"
proof -
  have inv: "it_inv t" using assms(1) by (simp add: id_ok_def)
  obtain u where g: "GenerateId t = Some (i, u)" and t': "t' = u\<lparr>it_data := (it_data u)[i := int p]\<rparr>"
    using assms(2) by (auto simp: IdTable_Insert_def split: option.splits)
  note u = GenerateId_sound[OF inv g]
  have "id_lookup u = id_lookup t"
    using u by (simp add: fun_eq_iff id_lookup_def IdTable_IdToPosition_def)
  then have "id_lookup t' = (id_lookup t)(i \<mapsto> p)"
    using id_lookup_update[of u i "int p"] u by (simp add: t' it_free_def)
  moreover have "id_lookup t i = None" using u by (simp add: it_free_def id_lookup_None_iff)
  moreover have "id_ok t'" using u assms(1) by (auto simp: t' id_ok_def it_inv_def it_free_def)
  ultimately show ?thesis using u by (simp add: t' id_capacity_def)
qed

lemma Insert_returns:
  assumes "id_ok t" "card (dom (id_lookup t)) < id_capacity t"
  shows "IdTable_Insert t p \<noteq> None"
proof -
  obtain i where "it_free t i" using free_id_exists[OF assms] .
  then obtain j t' where "GenerateId t = Some (j, t')"
    using GenerateId_returns[of t i] assms(1) unfolding id_ok_def by blast
  then show ?thesis by (simp add: IdTable_Insert_def)
qed

interpretation ids: id_map id_lookup IdTable_Insert IdTable_Move IdTable_Erase id_capacity id_ok
proof unfold_locales
  fix t i p assume "id_ok t" and live: "id_lookup t i \<noteq> None"
  then have inv: "it_inv t" and i: "i < it_size t" and "i \<noteq> 0"
    by (cases "i = 0"; auto simp: id_ok_def id_lookup_None_iff)+
  then show "id_lookup (IdTable_Move t i p) = (id_lookup t)(i \<mapsto> p)"
    using id_lookup_update[OF inv i, of "int p"] by (simp add: IdTable_Move_def)
  show "id_ok (IdTable_Move t i p) \<and> id_capacity (IdTable_Move t i p) = id_capacity t"
    using \<open>id_ok t\<close> \<open>i \<noteq> 0\<close> by (simp add: id_ok_def IdTable_Move_def id_capacity_def it_inv_def)
next
  fix t i assume "id_ok t"
  then have inv: "it_inv t" and zero: "it_data t ! 0 < 0" by (simp_all add: id_ok_def)
  show "id_lookup (IdTable_Erase t i) = (id_lookup t)(i := None)" by (rule id_lookup_Erase[OF inv])
  have "0 < length (it_data t)" using inv by (auto simp: it_inv_def)
  then show "id_ok (IdTable_Erase t i) \<and> id_capacity (IdTable_Erase t i) = id_capacity t"
    using inv zero by (cases "i = 0") (auto simp: id_ok_def IdTable_Erase_def id_capacity_def it_inv_def)
next
  fix t p i t' assume "id_ok t" "IdTable_Insert t p = Some (i, t')"
  then show "id_lookup t i = None \<and> id_lookup t' = (id_lookup t)(i \<mapsto> p) \<and> id_ok t' \<and>
      id_capacity t' = id_capacity t" by (rule Insert_sound)
next
  fix t p assume "id_ok t" "card (dom (id_lookup t)) < id_capacity t"
  then show "IdTable_Insert t p \<noteq> None" by (rule Insert_returns)
qed

text \<open>A new table is empty.\<close>

lemma id_ok_new: "1 < n \<Longrightarrow> id_ok (new_IdTable n)"
  by (simp add: id_ok_def it_inv_new) (simp add: new_IdTable_def)

lemma id_lookup_new [simp]: "id_lookup (new_IdTable n) = Map.empty"
  by (auto simp: fun_eq_iff id_lookup_def IdTable_IdToPosition_def new_IdTable_def)

lemma id_capacity_new [simp]: "id_capacity (new_IdTable n) = n - 1"
  by (simp add: id_capacity_def new_IdTable_def)

end
