(* ===== verification/Song_Model.thy ===== *)
theory Song_Model
  imports MPD_Prelude
begin

text \<open>
  Songs and their identity (src/src/Song.hxx, src/src/Song.cxx).  A directory is
  represented by what the code looks at: whether it is the global \<open>detached_root\<close>, and its
  path; a directory without parent (\<open>IsRoot\<close>) is one with the empty path, which the root of
  the database and \<open>detached_root\<close> both have.  \<open>parent == nullptr\<close> (a song outside the
  database) is \<open>None\<close>.
\<close>

datatype directory = DetachedRoot | Directory string

fun directory_path :: "directory \<Rightarrow> string" where
  "directory_path DetachedRoot = []"
| "directory_path (Directory p) = p"

definition directory_IsRoot :: "directory \<Rightarrow> bool" where
  "directory_IsRoot d \<longleftrightarrow> directory_path d = []"

record tag =
  tag_time :: int
  tag_has_playlist :: bool
  tag_items :: "(nat \<times> string) list"

record song =
  song_tag :: "tag option"
  song_parent :: "directory option"
  song_mtime :: int
  song_start_ms :: "32 word"
  song_end_ms :: "32 word"
  song_uri :: string

definition song_alloc :: "string \<Rightarrow> directory option \<Rightarrow> song" where
  "song_alloc uri parent = \<lparr>song_tag = None, song_parent = parent, song_mtime = 0,
     song_start_ms = 0, song_end_ms = 0, song_uri = uri\<rparr>"

definition NewRemote :: "string \<Rightarrow> song" where
  "NewRemote uri = song_alloc uri None"

definition NewFile :: "string \<Rightarrow> directory option \<Rightarrow> song" where
  "NewFile path parent = song_alloc path parent"

definition ReplaceURI :: "song \<Rightarrow> string \<Rightarrow> song" where
  "ReplaceURI s new_uri = (song_alloc new_uri (song_parent s))
     \<lparr>song_tag := song_tag s, song_mtime := song_mtime s,
      song_start_ms := song_start_ms s, song_end_ms := song_end_ms s\<rparr>"

definition NewDetached :: "string \<Rightarrow> song" where
  "NewDetached uri = song_alloc uri (Some DetachedRoot)"

definition IsInDatabase :: "song \<Rightarrow> bool" where
  "IsInDatabase s \<longleftrightarrow> song_parent s \<noteq> None"

definition IsFile :: "song \<Rightarrow> bool" where
  "IsFile s \<longleftrightarrow> IsInDatabase s \<or> (song_uri s \<noteq> [] \<and> hd (song_uri s) = CHR ''/'')"

definition IsDetached :: "song \<Rightarrow> bool" where
  "IsDetached s \<longleftrightarrow> song_parent s = Some DetachedRoot"

definition GetURI :: "song \<Rightarrow> string" where
  "GetURI s = (case song_parent s of
       None \<Rightarrow> song_uri s
     | Some d \<Rightarrow> if directory_IsRoot d then song_uri s
                 else directory_path d @ [CHR ''/''] @ song_uri s)"

definition DupDetached :: "song \<Rightarrow> song" where
  "DupDetached s =
     (if IsInDatabase s then NewDetached (GetURI s) else song_alloc (song_uri s) None)
       \<lparr>song_tag := song_tag s, song_mtime := song_mtime s,
        song_start_ms := song_start_ms s, song_end_ms := song_end_ms s\<rparr>"

definition ReplaceTag :: "song \<Rightarrow> tag \<Rightarrow> song" where
  "ReplaceTag s t = s\<lparr>song_tag := Some t\<rparr>"

definition directory_equals :: "directory \<Rightarrow> directory \<Rightarrow> bool" where
  "directory_equals a b \<longleftrightarrow> directory_path a = directory_path b"

definition directory_is_same :: "directory option \<Rightarrow> directory option \<Rightarrow> bool" where
  "directory_is_same a b \<longleftrightarrow> a = b \<or>
     (case (a, b) of (Some x, Some y) \<Rightarrow> directory_equals x y | _ \<Rightarrow> False)"

definition SongEquals :: "song \<Rightarrow> song \<Rightarrow> bool" where
  "SongEquals a b =
     (case (song_parent a, song_parent b) of
        (Some pa, Some pb) \<Rightarrow>
          if \<not> directory_equals pa pb \<and> (pa = DetachedRoot \<or> pb = DetachedRoot)
          then GetURI a = GetURI b
          else directory_is_same (Some pa) (Some pb) \<and> song_uri a = song_uri b
      | (pa, pb) \<Rightarrow> directory_is_same pa pb \<and> song_uri a = song_uri b)"

lemmas song_ctor_defs = song_alloc_def NewRemote_def NewFile_def NewDetached_def

text \<open>A copy keeps everything but the place it hangs in.\<close>

lemma DupDetached_simps [simp]:
  "song_tag (DupDetached s) = song_tag s"
  "song_mtime (DupDetached s) = song_mtime s"
  "song_start_ms (DupDetached s) = song_start_ms s"
  "song_end_ms (DupDetached s) = song_end_ms s"
  "GetURI (DupDetached s) = GetURI s"
  "IsInDatabase (DupDetached s) = IsInDatabase s"
  by (auto simp: DupDetached_def song_ctor_defs IsInDatabase_def GetURI_def directory_IsRoot_def)

lemma DupDetached_idem [simp]: "DupDetached (DupDetached s) = DupDetached s"
  by (auto simp: DupDetached_def song_ctor_defs IsInDatabase_def GetURI_def directory_IsRoot_def)

lemma SongEquals_refl [simp]: "SongEquals s s"
  by (auto simp: SongEquals_def directory_is_same_def directory_equals_def split: option.splits)

lemma SongEquals_sym: "SongEquals a b \<Longrightarrow> SongEquals b a"
  by (auto simp: SongEquals_def directory_is_same_def directory_equals_def split: option.splits if_splits)

text \<open>
  A detached copy is compared by its whole URI: for songs whose own name has no slash (as
  every song in a directory of the database has), equality of a copy with any other song is
  equality of URIs, within or outside the database.
\<close>

lemma GetURI_Dup_uri: "IsInDatabase s \<Longrightarrow> song_uri (DupDetached s) = GetURI s"
  by (simp add: DupDetached_def song_ctor_defs)

lemma SongEquals_copy:
  assumes "IsInDatabase a"
  shows "SongEquals (DupDetached a) b \<longleftrightarrow> IsInDatabase b \<and> GetURI a = GetURI b"
proof (cases "song_parent b")
  case None
  then show ?thesis using assms
    by (simp add: SongEquals_def DupDetached_def song_ctor_defs directory_is_same_def IsInDatabase_def)
next
  case (Some d)
  have p: "song_parent (DupDetached a) = Some DetachedRoot"
    using assms by (simp add: DupDetached_def song_ctor_defs)
  have u: "song_uri (DupDetached a) = GetURI a" by (rule GetURI_Dup_uri[OF assms])
  have g: "GetURI (DupDetached a) = GetURI a" by simp
  show ?thesis
    using Some p u g
    by (auto simp: SongEquals_def directory_is_same_def directory_equals_def IsInDatabase_def
        GetURI_def[of b] directory_IsRoot_def)
qed

lemma SongEquals_copies:
  "SongEquals (DupDetached a) (DupDetached b) \<longleftrightarrow>
     IsInDatabase a = IsInDatabase b \<and> GetURI a = GetURI b"
proof (cases "IsInDatabase a")
  case True
  then show ?thesis by (simp add: SongEquals_copy)
next
  case False
  then show ?thesis
    by (auto simp: SongEquals_def DupDetached_def song_ctor_defs IsInDatabase_def GetURI_def
        directory_is_same_def split: option.splits)
qed

end
