(* ===== verification/Play_Queue.thy ===== *)
theory Play_Queue
  imports Id_Table Song_Model
begin

text \<open>
  The play queue (src/src/Queue.hxx, src/src/Queue.cxx): its data, its accessors and the
  operations that add, move, swap and remove entries.  The C arrays \<open>items\<close> and \<open>order\<close> are
  lists of the fixed length \<open>max_length\<close> of which the first \<open>length\<close> elements are in use.  A
  \<open>Song *\<close> held by an entry is owned by that entry, so the entry's unique id stands for the
  pointer's identity.  Versions are 32-bit and priorities 8-bit machine words.
\<close>

section \<open>Data\<close>

record queue_item =
  item_song :: song
  item_id :: nat
  item_version :: "32 word"
  item_priority :: "8 word"

record queue =
  q_max_length :: nat
  q_length :: nat
  q_version :: "32 word"
  q_items :: "queue_item list"
  q_order :: "nat list"
  q_ids :: id_table
  q_repeat :: bool
  q_single :: bool
  q_consume :: bool
  q_random :: bool
  q_rand :: "nat list"

definition HASH_MULT :: nat where
  "HASH_MULT = 4"

text \<open>The content of storage that has been allocated but not yet assigned.\<close>

definition fresh_item :: queue_item where
  "fresh_item = \<lparr>item_song = song_alloc [] None, item_id = 0, item_version = 0, item_priority = 0\<rparr>"

definition new_Queue :: "nat \<Rightarrow> nat list \<Rightarrow> queue" where
  "new_Queue m rs = \<lparr>q_max_length = m, q_length = 0, q_version = 1,
     q_items = replicate m fresh_item, q_order = replicate m 0,
     q_ids = new_IdTable (m * HASH_MULT),
     q_repeat = False, q_single = False, q_consume = False, q_random = False, q_rand = rs\<rparr>"

section \<open>Accessors\<close>

definition IsEmpty :: "queue \<Rightarrow> bool" where
  "IsEmpty q \<longleftrightarrow> q_length q = 0"

definition IsFull :: "queue \<Rightarrow> bool" where
  "IsFull q \<longleftrightarrow> q_length q \<ge> q_max_length q"

definition IsValidPosition :: "queue \<Rightarrow> nat \<Rightarrow> bool" where
  "IsValidPosition q position \<longleftrightarrow> position < q_length q"

definition IsValidOrder :: "queue \<Rightarrow> nat \<Rightarrow> bool" where
  "IsValidOrder q ord \<longleftrightarrow> ord < q_length q"

definition IdToPosition :: "queue \<Rightarrow> nat \<Rightarrow> int" where
  "IdToPosition q i = IdTable_IdToPosition (q_ids q) i"

definition PositionToId :: "queue \<Rightarrow> nat \<Rightarrow> nat" where
  "PositionToId q position = item_id (q_items q ! position)"

definition OrderToPosition :: "queue \<Rightarrow> nat \<Rightarrow> nat" where
  "OrderToPosition q ord = q_order q ! ord"

text \<open>
  The search loop of \<open>PositionToOrder\<close>, from index \<open>i\<close>; the code asserts that it finds the
  position before the end of the used part, where this function stops at the end.
\<close>

function PositionToOrder_from :: "queue \<Rightarrow> nat \<Rightarrow> nat \<Rightarrow> nat" where
  "PositionToOrder_from q position i =
     (if i < q_length q \<and> q_order q ! i \<noteq> position then PositionToOrder_from q position (Suc i) else i)"
  by pat_completeness auto
termination
  by (relation "measure (\<lambda>(q, _, i). q_length q - i)") auto

declare PositionToOrder_from.simps [simp del]

definition PositionToOrder :: "queue \<Rightarrow> nat \<Rightarrow> nat" where
  "PositionToOrder q position = PositionToOrder_from q position 0"

definition GetPriorityAtPosition :: "queue \<Rightarrow> nat \<Rightarrow> 8 word" where
  "GetPriorityAtPosition q position = item_priority (q_items q ! position)"

definition GetOrderItem :: "queue \<Rightarrow> nat \<Rightarrow> queue_item" where
  "GetOrderItem q i = q_items q ! OrderToPosition q i"

definition GetOrderPriority :: "queue \<Rightarrow> nat \<Rightarrow> 8 word" where
  "GetOrderPriority q i = item_priority (GetOrderItem q i)"

definition Get :: "queue \<Rightarrow> nat \<Rightarrow> song" where
  "Get q position = item_song (q_items q ! position)"

definition GetOrder :: "queue \<Rightarrow> nat \<Rightarrow> song" where
  "GetOrder q ord = Get q (OrderToPosition q ord)"

definition IsNewerAtPosition :: "queue \<Rightarrow> nat \<Rightarrow> 32 word \<Rightarrow> bool" where
  "IsNewerAtPosition q position v \<longleftrightarrow>
     v > q_version q \<or> item_version (q_items q ! position) \<ge> v \<or> item_version (q_items q ! position) = 0"

definition GetNextOrder :: "queue \<Rightarrow> nat \<Rightarrow> int" where
  "GetNextOrder q ord =
     (if q_single q \<and> q_repeat q \<and> \<not> q_consume q then int ord
      else if ord + 1 < q_length q then int (ord + 1)
      else if q_repeat q \<and> (ord > 0 \<or> \<not> q_consume q) then 0
      else -1)"

section \<open>Versions\<close>

definition max_version :: "32 word" where
  "max_version = push_bit 31 1 - 1"

definition IncrementVersion :: "queue \<Rightarrow> queue" where
  "IncrementVersion q =
     (let q = q\<lparr>q_version := q_version q + 1\<rparr>
      in if q_version q \<ge> max_version
         then (for_up 0 (q_length q)
                 (\<lambda>i q. q\<lparr>q_items := (q_items q)[i := (q_items q ! i)\<lparr>item_version := 0\<rparr>]\<rparr>) q)
              \<lparr>q_version := 1\<rparr>
         else q)"

definition ModifyAtPosition :: "queue \<Rightarrow> nat \<Rightarrow> queue" where
  "ModifyAtPosition q position =
     q\<lparr>q_items := (q_items q)[position := (q_items q ! position)\<lparr>item_version := q_version q\<rparr>]\<rparr>"

definition ModifyAtOrder :: "queue \<Rightarrow> nat \<Rightarrow> queue" where
  "ModifyAtOrder q ord = ModifyAtPosition q (q_order q ! ord)"

section \<open>Editing\<close>

definition Append :: "queue \<Rightarrow> song \<Rightarrow> 8 word \<Rightarrow> (nat \<times> queue) option" where
  "Append q song priority =
     (let position = q_length q
      in case IdTable_Insert (q_ids q) position of
           None \<Rightarrow> None
         | Some (i, t) \<Rightarrow> Some (i, q
             \<lparr>q_length := position + 1,
              q_ids := t,
              q_items := (q_items q)[position :=
                \<lparr>item_song = DupDetached song, item_id = i, item_version = q_version q,
                 item_priority = priority\<rparr>],
              q_order := (q_order q)[position := position]\<rparr>))"

definition SwapPositions :: "queue \<Rightarrow> nat \<Rightarrow> nat \<Rightarrow> queue" where
  "SwapPositions q p1 p2 =
     (let id1 = item_id (q_items q ! p1); id2 = item_id (q_items q ! p2);
          its = array_swap (q_items q) p1 p2;
          its = its[p1 := (its ! p1)\<lparr>item_version := q_version q\<rparr>];
          its = its[p2 := (its ! p2)\<lparr>item_version := q_version q\<rparr>]
      in q\<lparr>q_items := its, q_ids := IdTable_Move (IdTable_Move (q_ids q) id1 p2) id2 p1\<rparr>)"

definition SwapOrders :: "queue \<Rightarrow> nat \<Rightarrow> nat \<Rightarrow> queue" where
  "SwapOrders q o1 o2 = q\<lparr>q_order := array_swap (q_order q) o1 o2\<rparr>"

definition MoveItemTo :: "nat \<Rightarrow> nat \<Rightarrow> queue \<Rightarrow> queue" where
  "MoveItemTo from to q =
     (let from_id = item_id (q_items q ! from)
      in q\<lparr>q_items := (q_items q)[to := (q_items q ! from)\<lparr>item_version := q_version q\<rparr>],
           q_ids := IdTable_Move (q_ids q) from_id to\<rparr>)"

text \<open>The statements that put a saved copy of an entry at its new place.\<close>

definition PutItem :: "nat \<Rightarrow> queue_item \<Rightarrow> queue \<Rightarrow> queue" where
  "PutItem to tmp q =
     q\<lparr>q_ids := IdTable_Move (q_ids q) (item_id tmp) to,
       q_items := (q_items q)[to := tmp\<lparr>item_version := q_version q\<rparr>]\<rparr>"

definition MovePostion_order :: "nat \<Rightarrow> nat \<Rightarrow> nat \<Rightarrow> nat" where
  "MovePostion_order from to p =
     (if p > from \<and> p \<le> to then p - 1
      else if p < from \<and> p \<ge> to then p + 1
      else if from = p then to else p)"

definition MovePostion :: "queue \<Rightarrow> nat \<Rightarrow> nat \<Rightarrow> queue" where
  "MovePostion q from to =
     (let tmp = q_items q ! from;
          q = for_up from to (\<lambda>i. MoveItemTo (i + 1) i) q;
          q = for_down (to + 1) (from + 1) (\<lambda>i. MoveItemTo (i - 1) i) q;
          q = PutItem to tmp q
      in if q_random q
         then for_up 0 (q_length q)
                (\<lambda>i q. q\<lparr>q_order := (q_order q)[i := MovePostion_order from to (q_order q ! i)]\<rparr>) q
         else q)"

definition MoveRange_order :: "nat \<Rightarrow> nat \<Rightarrow> nat \<Rightarrow> nat \<Rightarrow> nat" where
  "MoveRange_order start fin to p =
     (if p \<ge> fin \<and> p < to + fin - start then p - (fin - start)
      else if p < start \<and> p \<ge> to then p + (fin - start)
      else if start \<le> p \<and> p < fin then p + to - start
      else p)"

definition MoveRange :: "queue \<Rightarrow> nat \<Rightarrow> nat \<Rightarrow> nat \<Rightarrow> queue" where
  "MoveRange q start fin to =
     (let tmp = map (\<lambda>i. q_items q ! i) [start..<fin];
          q = for_up fin (fin + to - start) (\<lambda>i. MoveItemTo i (start + i - fin)) q;
          q = for_down to start (\<lambda>i. MoveItemTo i (i + fin - start)) q;
          q = for_up start fin (\<lambda>i. PutItem (to + i - start) (tmp ! (i - start))) q
      in if q_random q
         then for_up 0 (q_length q)
                (\<lambda>i q. q\<lparr>q_order := (q_order q)[i := MoveRange_order start fin to (q_order q ! i)]\<rparr>) q
         else q)"

definition MoveOrder :: "queue \<Rightarrow> nat \<Rightarrow> nat \<Rightarrow> queue" where
  "MoveOrder q from_order to_order =
     (let from_position = OrderToPosition q from_order;
          os = (if from_order < to_order
                then for_up from_order to_order (\<lambda>i os. os[i := os ! (i + 1)]) (q_order q)
                else for_down (to_order + 1) (from_order + 1) (\<lambda>i os. os[i := os ! (i - 1)]) (q_order q))
      in q\<lparr>q_order := os[to_order := from_position]\<rparr>)"

definition DeletePosition :: "queue \<Rightarrow> nat \<Rightarrow> queue" where
  "DeletePosition q position =
     (let i = PositionToId q position;
          ord = PositionToOrder q position;
          q = q\<lparr>q_length := q_length q - 1\<rparr>;
          q = q\<lparr>q_ids := IdTable_Erase (q_ids q) i\<rparr>;
          q = for_up position (q_length q) (\<lambda>i. MoveItemTo (i + 1) i) q;
          q = for_up ord (q_length q) (\<lambda>i q. q\<lparr>q_order := (q_order q)[i := q_order q ! (i + 1)]\<rparr>) q
      in for_up 0 (q_length q)
           (\<lambda>i q. if q_order q ! i > position
                  then q\<lparr>q_order := (q_order q)[i := q_order q ! i - 1]\<rparr> else q) q)"

definition Clear :: "queue \<Rightarrow> queue" where
  "Clear q =
     (for_up 0 (q_length q)
        (\<lambda>i q. q\<lparr>q_ids := IdTable_Erase (q_ids q) (item_id (q_items q ! i))\<rparr>) q)\<lparr>q_length := 0\<rparr>"

definition RestoreOrder :: "queue \<Rightarrow> queue" where
  "RestoreOrder q = for_up 0 (q_length q) (\<lambda>i q. q\<lparr>q_order := (q_order q)[i := i]\<rparr>) q"

lemmas accessor_defs [queue_defs] =
  IsEmpty_def IsFull_def IsValidPosition_def IsValidOrder_def IdToPosition_def PositionToId_def
  OrderToPosition_def GetPriorityAtPosition_def GetOrderItem_def GetOrderPriority_def
  Get_def GetOrder_def

end
