(* ===== verification/Queue_Refine.thy ===== *)
theory Queue_Refine
  imports Play_Queue
begin

text \<open>
  The editing operations of the play queue against their specification on lists.  The
  abstract queue is the list of the keys (song, id, priority) of its entries in position
  order (\<open>keys\<close>), and the list of their ids in playing order (\<open>play_ids\<close>).  The invariant
  \<open>queue_inv\<close> says that the order array is a permutation of the positions (the identity when
  random mode is off) and that the id table maps exactly the ids of the entries, each to its
  position.  Every operation keeps it, and moves, swaps and deletions are what they should be
  on both lists.  All moving operations are first shown to be a list of placements
  (\<open>place\<close>); one lemma, \<open>place_match\<close>, then keeps the id table right for all of them.
\<close>

section \<open>Abstraction and invariant\<close>

definition item_key :: "queue_item \<Rightarrow> song \<times> nat \<times> 8 word" where
  "item_key it = (item_song it, item_id it, item_priority it)"

definition keys :: "queue \<Rightarrow> (song \<times> nat \<times> 8 word) list" where
  "keys q = map item_key (take (q_length q) (q_items q))"

definition orders :: "queue \<Rightarrow> nat list" where
  "orders q = take (q_length q) (q_order q)"

definition play_ids :: "queue \<Rightarrow> nat list" where
  "play_ids q = map (\<lambda>p. item_id (q_items q ! p)) (orders q)"

definition ids_match :: "nat set \<Rightarrow> queue \<Rightarrow> bool" where
  "ids_match P q \<longleftrightarrow> id_ok (q_ids q) \<and> id_capacity (q_ids q) = q_max_length q * HASH_MULT - 1 \<and>
     (\<forall>i p. id_lookup (q_ids q) i = Some p \<longleftrightarrow> p \<in> P \<and> item_id (q_items q ! p) = i)"

definition queue_inv :: "queue \<Rightarrow> bool" where
  "queue_inv q \<longleftrightarrow> 0 < q_max_length q \<and> q_length q \<le> q_max_length q \<and>
     length (q_items q) = q_max_length q \<and> length (q_order q) = q_max_length q \<and>
     is_perm (q_length q) (orders q) \<and>
     (\<not> q_random q \<longrightarrow> orders q = [0..<q_length q]) \<and>
     ids_match {..<q_length q} q"

lemma item_key_version [simp]: "item_key (it\<lparr>item_version := v\<rparr>) = item_key it"
  by (simp add: item_key_def)

lemma length_keys [simp]: "queue_inv q \<Longrightarrow> length (keys q) = q_length q"
  by (simp add: keys_def queue_inv_def)

lemma nth_keys: "queue_inv q \<Longrightarrow> p < q_length q \<Longrightarrow> keys q ! p = item_key (q_items q ! p)"
  by (simp add: keys_def queue_inv_def)

lemma nth_orders: "i < q_length q \<Longrightarrow> orders q ! i = q_order q ! i"
  by (simp add: orders_def)

lemma order_bound: "queue_inv q \<Longrightarrow> i < q_length q \<Longrightarrow> q_order q ! i < q_length q"
  using is_permD(4)[of "q_length q" "orders q" i] by (simp add: queue_inv_def nth_orders)

lemma length_orders [simp]: "queue_inv q \<Longrightarrow> length (orders q) = q_length q"
  by (simp add: queue_inv_def is_permD(1))

lemma ids_match_inj:
  "ids_match P q \<Longrightarrow> p \<in> P \<Longrightarrow> r \<in> P \<Longrightarrow> item_id (q_items q ! p) = item_id (q_items q ! r) \<Longrightarrow> p = r"
  unfolding ids_match_def by (metis option.inject)

lemma ids_match_lookup:
  "ids_match P q \<Longrightarrow> p \<in> P \<Longrightarrow> id_lookup (q_ids q) (item_id (q_items q ! p)) = Some p"
  by (simp add: ids_match_def)

text \<open>The searching loop of \<open>PositionToOrder\<close> inverts the order array.\<close>

lemma PositionToOrder_from_spec:
  assumes "is_perm (q_length q) (orders q)" "j < q_length q" "i \<le> j"
    and "\<forall>k. i \<le> k \<and> k < j \<longrightarrow> q_order q ! k \<noteq> q_order q ! j"
  shows "PositionToOrder_from q (q_order q ! j) i = j"
  using assms(2-4)
proof (induction q "q_order q ! j" i rule: PositionToOrder_from.induct)
  case (1 q i)
  show ?case
  proof (cases "i = j")
    case True
    then show ?thesis by (subst PositionToOrder_from.simps) simp
  next
    case False
    then have "i < j" using 1 by simp
    then have "i < q_length q \<and> q_order q ! i \<noteq> q_order q ! j" using 1 by auto
    then show ?thesis using 1 \<open>i < j\<close> by (subst PositionToOrder_from.simps) simp
  qed
qed

lemma PositionToOrder_order:
  assumes "queue_inv q" "i < q_length q"
  shows "PositionToOrder q (q_order q ! i) = i"
proof -
  have p: "is_perm (q_length q) (orders q)" using assms(1) by (simp add: queue_inv_def)
  have "q_order q ! k \<noteq> q_order q ! i" if "k < i" for k
    using nth_eq_iff_index_eq[OF is_permD(2)[OF p], of k i] that assms(2) is_permD(1)[OF p]
    by (simp add: nth_orders)
  then show ?thesis
    unfolding PositionToOrder_def using assms(2) p by (intro PositionToOrder_from_spec) auto
qed

lemma order_of_position:
  assumes "queue_inv q" "p < q_length q"
  shows "PositionToOrder q p < q_length q \<and> q_order q ! PositionToOrder q p = p"
proof -
  have "p \<in> set (orders q)" using assms by (auto simp: queue_inv_def is_perm_def)
  then obtain i where "i < q_length q" "q_order q ! i = p"
    using assms(1) by (auto simp: in_set_conv_nth nth_orders)
  then show ?thesis using PositionToOrder_order[OF assms(1)] by auto
qed

section \<open>Placements\<close>

definition place :: "(nat \<times> queue_item) list \<Rightarrow> queue \<Rightarrow> queue" where
  "place ws q = fold (\<lambda>(p, it). PutItem p it) ws q"

lemma place_simps [simp]:
  "place [] q = q" "place ((p, it) # ws) q = place ws (PutItem p it q)"
  "place (ws @ vs) q = place vs (place ws q)"
  by (simp_all add: place_def)

lemma PutItem_frame [simp]:
  "q_max_length (PutItem p it q) = q_max_length q" "q_length (PutItem p it q) = q_length q"
  "q_version (PutItem p it q) = q_version q" "q_order (PutItem p it q) = q_order q"
  "q_repeat (PutItem p it q) = q_repeat q" "q_single (PutItem p it q) = q_single q"
  "q_consume (PutItem p it q) = q_consume q" "q_random (PutItem p it q) = q_random q"
  "q_rand (PutItem p it q) = q_rand q"
  "length (q_items (PutItem p it q)) = length (q_items q)"
  by (simp_all add: PutItem_def)

lemma place_frame [simp]:
  "q_max_length (place ws q) = q_max_length q" "q_length (place ws q) = q_length q"
  "q_version (place ws q) = q_version q" "q_order (place ws q) = q_order q"
  "q_repeat (place ws q) = q_repeat q" "q_single (place ws q) = q_single q"
  "q_consume (place ws q) = q_consume q" "q_random (place ws q) = q_random q"
  "q_rand (place ws q) = q_rand q"
  "length (q_items (place ws q)) = length (q_items q)"
  by (induction ws arbitrary: q) auto

lemma orders_place [simp]: "orders (place ws q) = orders q"
  by (simp add: orders_def)

lemma MoveItemTo_PutItem: "MoveItemTo from to q = PutItem to (q_items q ! from) q"
  by (simp add: MoveItemTo_def PutItem_def Let_def)

text \<open>A moving loop that never reads an entry it has overwritten is a list of placements.\<close>

lemma move_loop:
  assumes "sorted_wrt (\<lambda>i k. src k \<noteq> dst i) is"
  shows "fold (\<lambda>i. MoveItemTo (src i) (dst i)) is q = place (map (\<lambda>i. (dst i, q_items q ! src i)) is) q"
  using assms
proof (induction "is" arbitrary: q)
  case Nil
  then show ?case by simp
next
  case (Cons i "is")
  have "map (\<lambda>k. (dst k, q_items (PutItem (dst i) (q_items q ! src i) q) ! src k)) is =
        map (\<lambda>k. (dst k, q_items q ! src k)) is"
    using Cons.prems by (auto simp: PutItem_def)
  then show ?case using Cons by (simp add: MoveItemTo_PutItem cong: map_cong)
qed

lemma place_loop: "fold (\<lambda>i. PutItem (dst i) (f i)) is q = place (map (\<lambda>i. (dst i, f i)) is) q"
  by (induction "is" arbitrary: q) simp_all

lemma nth_place:
  assumes "distinct (map fst ws)" "\<forall>p \<in> fst ` set ws. p < length (q_items q)"
  shows "q_items (place ws q) ! k =
    (case map_of ws k of Some it \<Rightarrow> it\<lparr>item_version := q_version q\<rparr> | None \<Rightarrow> q_items q ! k)"
  using assms
proof (induction ws arbitrary: q)
  case Nil
  then show ?case by simp
next
  case (Cons w ws)
  obtain p it where w: "w = (p, it)" by (cases w)
  have "map_of ws p = None" using Cons.prems(1) w by (simp add: map_of_eq_None_iff)
  then show ?case using Cons w by (auto simp: PutItem_def nth_list_update split: option.splits)
qed

lemma q_ids_place: "q_ids (place ws q) = ids.place_ids (map (\<lambda>(p, it). (item_id it, p)) ws) (q_ids q)"
  by (induction ws arbitrary: q) (auto simp: ids.place_ids_def PutItem_def)

text \<open>
  The main lemma: placing the entries of the positions \<open>ps\<close> at their images under an injective
  map \<open>f\<close> that fixes all other positions keeps the id table right.
\<close>

lemma place_match:
  fixes f :: "nat \<Rightarrow> nat"
  defines "ws ps q \<equiv> map (\<lambda>p. (f p, q_items q ! p)) ps"
  assumes match: "ids_match P q" and inj: "inj_on f P" and ps: "distinct ps" "set ps \<subseteq> P"
    and fx: "\<forall>p \<in> P - set ps. f p = p" and bound: "\<forall>p \<in> P. f p < length (q_items q)"
  shows "\<And>p. p \<in> P \<Longrightarrow> item_key (q_items (place (ws ps q) q) ! f p) = item_key (q_items q ! p)"
    and "ids_match (f ` P) (place (ws ps q) q)"
proof -
  let ?q = "place (ws ps q) q"
  have fixd: "f p = p" if "p \<in> P" "p \<notin> set ps" for p using fx that by simp
  have dist: "distinct (map fst (ws ps q))"
    using inj ps by (auto simp: ws_def distinct_map comp_def intro: inj_on_subset)
  have mo: "map_of (ws ps q) (f p) = (if p \<in> set ps then Some (q_items q ! p) else None)" if "p \<in> P" for p
  proof (cases "p \<in> set ps")
    case True
    then have "(f p, q_items q ! p) \<in> set (ws ps q)" by (auto simp: ws_def)
    then show ?thesis using True dist by simp
  next
    case False
    then have "f p \<notin> f ` set ps" using that ps(2) inj by (auto simp: inj_on_def)
    then show ?thesis using False by (auto simp: map_of_eq_None_iff ws_def image_image)
  qed
  have range: "\<forall>p \<in> fst ` set (ws ps q). p < length (q_items q)"
    using bound ps(2) by (auto simp: ws_def)
  have nth: "q_items ?q ! f p = (if p \<in> set ps then (q_items q ! p)\<lparr>item_version := q_version q\<rparr> else q_items q ! p)"
    if "p \<in> P" for p
    using nth_place[OF dist range, of "f p"] mo[OF that] fixd[of p] that by simp
  then show key: "item_key (q_items ?q ! f p) = item_key (q_items q ! p)" if "p \<in> P" for p
    using that by simp
  have idkey: "item_id (q_items ?q ! f p) = item_id (q_items q ! p)" if "p \<in> P" for p
    using key[OF that] by (simp add: item_key_def)
  let ?is = "map (\<lambda>(p, it). (item_id it, p)) (ws ps q)"
  have is_eq: "?is = map (\<lambda>p. (item_id (q_items q ! p), f p)) ps" by (simp add: ws_def)
  have "inj_on (\<lambda>p. item_id (q_items q ! p)) (set ps)"
    using ids_match_inj[OF match] ps(2) by (auto simp: inj_on_def)
  then have disti: "distinct (map fst ?is)" using ps(1) by (simp add: is_eq distinct_map comp_def)
  have ok: "id_ok (q_ids q)" using match by (simp add: ids_match_def)
  have live: "id_lookup (q_ids q) i \<noteq> None" if mem: "(i, p) \<in> set ?is" for i p
  proof -
    obtain r where "r \<in> set ps" "i = item_id (q_items q ! r)" using mem unfolding is_eq by auto
    then show ?thesis using ids_match_lookup[OF match, of r] ps(2) by auto
  qed
  note placed = ids.place_ids_lookup[OF ok live, of ?is]
  have lk: "id_lookup (q_ids ?q) = id_lookup (q_ids q) ++ map_of ?is"
    using placed by (simp add: q_ids_place fold_upd_map_add[OF disti])
  have in_is: "map_of ?is (item_id (q_items q ! p)) = (if p \<in> set ps then Some (f p) else None)" if "p \<in> P" for p
  proof (cases "p \<in> set ps")
    case True
    then have "(item_id (q_items q ! p), f p) \<in> set ?is" by (auto simp: is_eq)
    then show ?thesis using True disti by simp
  next
    case False
    then have "item_id (q_items q ! p) \<notin> (\<lambda>p. item_id (q_items q ! p)) ` set ps"
      using ids_match_inj[OF match] ps(2) that by auto
    then show ?thesis using False by (simp add: map_of_eq_None_iff is_eq image_image)
  qed
  have "id_lookup (q_ids ?q) i = Some r \<longleftrightarrow> r \<in> f ` P \<and> item_id (q_items ?q ! r) = i" for i r
  proof
    assume l: "id_lookup (q_ids ?q) i = Some r"
    have "\<exists>p \<in> P. i = item_id (q_items q ! p)"
    proof (cases "map_of ?is i")
      case None
      then have "id_lookup (q_ids q) i = Some r" using l lk by (simp add: map_add_def)
      then show ?thesis using match by (auto simp: ids_match_def)
    next
      case (Some s)
      then have "(i, s) \<in> set ?is" by (rule map_of_SomeD)
      then show ?thesis using is_eq ps(2) by auto
    qed
    then obtain p where p: "p \<in> P" "i = item_id (q_items q ! p)" by blast
    have "r = f p"
      using l lk in_is[OF p(1)] p ids_match_lookup[OF match p(1)] fixd[of p]
      by (auto simp: map_add_def split: if_splits)
    then show "r \<in> f ` P \<and> item_id (q_items ?q ! r) = i" using p idkey by simp
  next
    assume r: "r \<in> f ` P \<and> item_id (q_items ?q ! r) = i"
    then obtain p where p: "p \<in> P" "r = f p" by blast
    then have i: "i = item_id (q_items q ! p)" using r idkey by simp
    show "id_lookup (q_ids ?q) i = Some r"
      using lk in_is[OF p(1)] i p ids_match_lookup[OF match p(1)] fixd[of p]
      by (auto simp: map_add_def)
  qed
  then show "ids_match (f ` P) ?q"
    using placed match by (simp add: ids_match_def q_ids_place)
qed

end
