(* ===== verification/Queue_Edit.thy ===== *)
theory Queue_Edit
  imports Queue_Refine
begin

text \<open>
  The editing operations of the play queue are correct: each keeps \<open>queue_inv\<close> and is the
  intended operation on the lists \<open>keys\<close> (by position) and \<open>play_ids\<close> (by playing order).
\<close>

section \<open>Moving\<close>

lemma order_update_loop:
  assumes "n \<le> length (q_order q)"
  shows "for_up 0 n (\<lambda>i q. q\<lparr>q_order := (q_order q)[i := g (q_order q ! i)]\<rparr>) q =
    q\<lparr>q_order := map g (take n (q_order q)) @ drop n (q_order q)\<rparr>"
  using assms
proof (induction n)
  case (Suc n)
  then show ?case
    by (simp add: list_update_append take_Suc_conv_app_nth Cons_nth_drop_Suc[symmetric] nth_append)
qed simp

text \<open>
  A queue after a move: the entries of \<open>ps\<close> placed at their images under \<open>f\<close>, and the order
  array relabelled by \<open>f\<close> if random mode is on.
\<close>

definition moved :: "(nat \<Rightarrow> nat) \<Rightarrow> nat list \<Rightarrow> queue \<Rightarrow> queue" where
  "moved f ps q =
     (let q' = place (map (\<lambda>p. (f p, q_items q ! p)) ps) q
      in if q_random q
         then q'\<lparr>q_order := map f (orders q) @ drop (q_length q) (q_order q)\<rparr> else q')"

lemma moved_frame [simp]:
  "q_max_length (moved f ps q) = q_max_length q" "q_length (moved f ps q) = q_length q"
  "q_version (moved f ps q) = q_version q" "q_random (moved f ps q) = q_random q"
  "q_repeat (moved f ps q) = q_repeat q" "q_single (moved f ps q) = q_single q"
  "q_consume (moved f ps q) = q_consume q" "q_rand (moved f ps q) = q_rand q"
  "length (q_items (moved f ps q)) = length (q_items q)"
  by (simp_all add: moved_def Let_def)

lemma orders_moved:
  "queue_inv q \<Longrightarrow> orders (moved f ps q) = (if q_random q then map f (orders q) else orders q)"
  by (auto simp: moved_def orders_def queue_inv_def)

lemma moved_correct:
  assumes inv: "queue_inv q" and f: "bij_betw f {..<q_length q} {..<q_length q}"
    and ps: "distinct ps" "set ps \<subseteq> {..<q_length q}"
    and fixd: "\<forall>p < q_length q. p \<notin> set ps \<longrightarrow> f p = p"
  shows "queue_inv (moved f ps q)"
    and "\<And>p. p < q_length q \<Longrightarrow> keys (moved f ps q) ! f p = keys q ! p"
    and "q_random q \<Longrightarrow> play_ids (moved f ps q) = play_ids q"
proof -
  let ?P = "{..<q_length q}"
  let ?pl = "place (map (\<lambda>p. (f p, q_items q ! p)) ps) q"
  have inj: "inj_on f ?P" and im: "f ` ?P = ?P" using f by (simp_all add: bij_betw_def)
  have match: "ids_match ?P q" using inv by (simp add: queue_inv_def)
  have bound: "\<forall>p \<in> ?P. f p < length (q_items q)"
    using inv im unfolding queue_inv_def by (metis imageI lessThan_iff order_less_le_trans)
  have fx: "\<forall>p \<in> ?P - set ps. f p = p" using fixd by simp
  note pm = place_match[OF match inj ps fx bound]
  have its: "q_items (moved f ps q) = q_items ?pl" "q_ids (moved f ps q) = q_ids ?pl"
    by (simp_all add: moved_def Let_def)
  have key: "item_key (q_items (moved f ps q) ! f p) = item_key (q_items q ! p)" if "p < q_length q" for p
    using pm(1)[of p] that by (simp add: its)
  have m: "ids_match ?P (moved f ps q)"
    using pm(2) im by (simp add: ids_match_def its)
  show inv': "queue_inv (moved f ps q)"
    using inv m orders_moved[OF inv, of f ps] is_perm_bij[OF _ f, of "orders q"]
    by (auto simp: queue_inv_def moved_def Let_def)
  show "keys (moved f ps q) ! f p = keys q ! p" if "p < q_length q" for p
  proof -
    have "f p < q_length q" using im that by auto
    then show ?thesis using that key[OF that] by (simp add: nth_keys[OF inv'] nth_keys[OF inv])
  qed
  show "play_ids (moved f ps q) = play_ids q" if "q_random q"
  proof -
    have "item_id (q_items (moved f ps q) ! f p) = item_id (q_items q ! p)" if "p \<in> set (orders q)" for p
      using key[of p] that inv by (auto simp: item_key_def queue_inv_def is_perm_def)
    then show ?thesis using that by (simp add: play_ids_def orders_moved[OF inv])
  qed
qed

subsection \<open>Moving a block\<close>

text \<open>
  The specification: take the block out, and put it back so that it starts at \<open>to\<close>.
\<close>

definition move_block :: "nat \<Rightarrow> nat \<Rightarrow> nat \<Rightarrow> 'a list \<Rightarrow> 'a list" where
  "move_block start fin to xs =
     (let block = take (fin - start) (drop start xs); rest = take start xs @ drop fin xs
      in take to rest @ block @ drop to rest)"

lemma length_move_block [simp]:
  "start \<le> fin \<Longrightarrow> fin \<le> length xs \<Longrightarrow> length (move_block start fin to xs) = length xs"
  by (simp add: move_block_def Let_def)

lemma MoveRange_order_inverse:
  "MoveRange_order to (to + l) start (MoveRange_order start (start + l) to p) = p"
proof -
  consider "p < start" "p < to" | "p < start" "to \<le> p" | "start \<le> p" "p < start + l"
    | "start + l \<le> p" "p < to + l" | "start + l \<le> p" "to + l \<le> p" by linarith
  then show ?thesis
  proof cases
    case 3
    then obtain k where "p = start + k" using le_Suc_ex by blast
    then show ?thesis using 3 by (simp add: MoveRange_order_def)
  next
    case 4
    then obtain k where "p = start + l + k" using le_Suc_ex by blast
    then show ?thesis using 4 by (simp add: MoveRange_order_def)
  qed (simp_all add: MoveRange_order_def)
qed

lemma MoveRange_order_bij:
  assumes "start + l \<le> n" "to + l \<le> n"
  shows "bij_betw (MoveRange_order start (start + l) to) {..<n} {..<n}"
proof (rule bij_betw_byWitness[where f' = "MoveRange_order to (to + l) start"])
  show "\<forall>a\<in>{..<n}. MoveRange_order to (to + l) start (MoveRange_order start (start + l) to a) = a"
    by (simp add: MoveRange_order_inverse)
  show "\<forall>a\<in>{..<n}. MoveRange_order start (start + l) to (MoveRange_order to (to + l) start a) = a"
    by (simp add: MoveRange_order_inverse)
qed (use assms in \<open>auto simp: MoveRange_order_def\<close>)

lemma move_block_up:
  "start \<le> to \<Longrightarrow> start \<le> length xs \<Longrightarrow> move_block start fin to xs = 
    take start xs @ take (to - start) (drop fin xs) @ take (fin - start) (drop start xs) @ drop (to - start + fin) xs"
  by (simp add: move_block_def Let_def)
lemma move_block_down:
  "to \<le> start \<Longrightarrow> start \<le> length xs \<Longrightarrow> move_block start fin to xs = 
    take to xs @ take (fin - start) (drop start xs) @ take (start - to) (drop to xs) @ drop fin xs"
  by (simp add: move_block_def Let_def min_def drop_take)
lemma nth_move_block:
  assumes "start + l \<le> length xs" "to + l \<le> length xs" "p < length xs"
  shows "move_block start (start + l) to xs ! MoveRange_order start (start + l) to p = xs ! p"
proof (cases "start \<le> to")
  case True
  then obtain d where d: "to = start + d" using le_Suc_ex by blast
  consider "p < start" | "start \<le> p" "p < start + l"
    | "start + l \<le> p" "p < start + l + d" | "start + l + d \<le> p" by linarith
  then show ?thesis
  proof cases
    case 1
    then show ?thesis using assms by (simp add: d move_block_up MoveRange_order_def nth_append)
  next
    case 2
    then obtain k where "p = start + k" using le_Suc_ex by blast
    then show ?thesis using 2 assms by (simp add: d move_block_up MoveRange_order_def nth_append)
  next
    case 3
    then obtain k where "p = start + l + k" using le_Suc_ex by blast
    then show ?thesis using 3 assms by (simp add: d move_block_up MoveRange_order_def nth_append)
  next
    case 4
    then obtain k where "p = start + l + d + k" using le_Suc_ex by blast
    then show ?thesis using assms by (simp add: add_ac d move_block_up MoveRange_order_def nth_append)
  qed
next
  case False
  then obtain d where d: "start = to + d" using le_Suc_ex[of to start] by auto
  consider "p < to" | "to \<le> p" "p < start" | "start \<le> p" "p < start + l" | "start + l \<le> p" by linarith
  then show ?thesis
  proof cases
    case 1
    then show ?thesis using assms by (simp add: d move_block_down MoveRange_order_def nth_append)
  next
    case 2
    then obtain k where "p = to + k" using le_Suc_ex by blast
    then show ?thesis using 2 assms by (simp add: d move_block_down MoveRange_order_def nth_append)
  next
    case 3
    then obtain k where "p = to + d + k" using le_Suc_ex d by blast
    then show ?thesis using 3 assms by (simp add: d move_block_down MoveRange_order_def nth_append)
  next
    case 4
    then obtain k where "p = to + d + l + k" using le_Suc_ex d by blast
    then show ?thesis using assms by (simp add: d move_block_down MoveRange_order_def nth_append)
  qed
qed
lemma MovePostion_is_MoveRange_order:
  "MovePostion_order from to p = MoveRange_order from (Suc from) to p"
  by (auto simp: MovePostion_order_def MoveRange_order_def)

text \<open>The loops of \<open>MoveRange\<close> place the entries between block and target, then the block.\<close>

definition MoveRange_moves :: "nat \<Rightarrow> nat \<Rightarrow> nat \<Rightarrow> nat list" where
  "MoveRange_moves start fin to =
     [fin..<fin + to - start] @ rev [to..<start] @ [start..<fin]"

lemma sorted_wrt_upt_mono:
  assumes "\<And>i k. lo \<le> i \<Longrightarrow> i < k \<Longrightarrow> k < hi \<Longrightarrow> R i k"
  shows "sorted_wrt R [lo..<hi]"
  using assms by (auto simp: sorted_wrt_iff_nth_less)

lemma sorted_wrt_rev_upt_mono:
  assumes "\<And>i k. lo \<le> i \<Longrightarrow> i < k \<Longrightarrow> k < hi \<Longrightarrow> R k i"
  shows "sorted_wrt R (rev [lo..<hi])"
  unfolding sorted_wrt_rev using assms by (intro sorted_wrt_upt_mono)

lemma MoveRange_places:
  "(let tmp = map (\<lambda>i. q_items q ! i) [start..<start + l];
        q = for_up (start + l) (start + l + to - start) (\<lambda>i. MoveItemTo i (start + i - (start + l))) q;
        q = for_down to start (\<lambda>i. MoveItemTo i (i + (start + l) - start)) q
    in for_up start (start + l) (\<lambda>i. PutItem (to + i - start) (tmp ! (i - start))) q) =
   place (map (\<lambda>p. (MoveRange_order start (start + l) to p, q_items q ! p))
     (MoveRange_moves start (start + l) to)) q"
proof -
  let ?f = "MoveRange_order start (start + l) to"
  have up: "for_up (start + l) (start + l + to - start) (\<lambda>i. MoveItemTo i (start + i - (start + l))) q =
      place (map (\<lambda>p. (?f p, q_items q ! p)) [start + l..<start + l + to - start]) q" for q
    by (subst move_loop[where src = "\<lambda>i. i"])
      (auto intro!: sorted_wrt_upt_mono arg_cong[where f = "\<lambda>ws. place ws q"] simp: MoveRange_order_def)
  have down: "for_down to start (\<lambda>i. MoveItemTo i (i + (start + l) - start)) q =
      place (map (\<lambda>p. (?f p, q_items q ! p)) (rev [to..<start])) q" for q
    by (subst move_loop[where src = "\<lambda>i. i"])
      (auto intro!: sorted_wrt_rev_upt_mono arg_cong[where f = "\<lambda>ws. place ws q"]
        simp: MoveRange_order_def rev_map[symmetric])
  have block: "for_up start (start + l) (\<lambda>i. PutItem (to + i - start)
        (map (\<lambda>i. its ! i) [start..<start + l] ! (i - start))) q =
      place (map (\<lambda>p. (?f p, its ! p)) [start..<start + l]) q" for q its
    by (subst place_loop)
      (auto intro!: arg_cong[where f = "\<lambda>ws. place ws q"] simp: MoveRange_order_def add.commute)
  show ?thesis
  proof (cases "start \<le> to")
    case True
    then show ?thesis by (simp only: Let_def up block) (simp add: MoveRange_moves_def)
  next
    case False
    then have "[start + l..<start + l + to - start] = []"
      "MoveRange_moves start (start + l) to = rev [to..<start] @ [start..<start + l]"
      by (simp_all add: MoveRange_moves_def)
    then show ?thesis by (simp only: Let_def down block fold_Nil id_apply) simp
  qed
qed

lemma MoveRange_moved:
  assumes "queue_inv q"
  shows "MoveRange q start (start + l) to =
    moved (MoveRange_order start (start + l) to) (MoveRange_moves start (start + l) to) q"
proof -
  let ?f = "MoveRange_order start (start + l) to"
  let ?pl = "place (map (\<lambda>p. (?f p, q_items q ! p)) (MoveRange_moves start (start + l) to)) q"
  have "q_length ?pl \<le> length (q_order ?pl)" using assms by (simp add: queue_inv_def)
  note loop = order_update_loop[OF this, of ?f]
  have "MoveRange q start (start + l) to =
      (if q_random ?pl then for_up 0 (q_length ?pl)
          (\<lambda>i q. q\<lparr>q_order := (q_order q)[i := ?f (q_order q ! i)]\<rparr>) ?pl else ?pl)"
    unfolding MoveRange_places[symmetric] MoveRange_def by (simp only: Let_def)
  also have "\<dots> = moved ?f (MoveRange_moves start (start + l) to) q"
    unfolding loop by (simp add: moved_def Let_def orders_def)
  finally show ?thesis .
qed

lemma MoveRange_moves_ok:
  assumes "start + l \<le> n" "to + l \<le> n"
  shows "distinct (MoveRange_moves start (start + l) to)"
    "set (MoveRange_moves start (start + l) to) \<subseteq> {..<n}"
    "\<forall>p < n. p \<notin> set (MoveRange_moves start (start + l) to) \<longrightarrow> MoveRange_order start (start + l) to p = p"
  using assms by (auto simp: MoveRange_moves_def MoveRange_order_def)

lemma MoveRange_correct:
  assumes inv: "queue_inv q" and r: "start + l \<le> q_length q" "to + l \<le> q_length q"
  shows "queue_inv (MoveRange q start (start + l) to)"
    and "keys (MoveRange q start (start + l) to) = move_block start (start + l) to (keys q)"
    and "q_random q \<Longrightarrow> play_ids (MoveRange q start (start + l) to) = play_ids q"
proof -
  let ?f = "MoveRange_order start (start + l) to"
  note ok = moved_correct[OF inv MoveRange_order_bij[OF r] MoveRange_moves_ok[OF r]]
  note eq = MoveRange_moved[OF inv, of start l to]
  show inv': "queue_inv (MoveRange q start (start + l) to)" using ok(1) by (simp only: eq)
  show "q_random q \<Longrightarrow> play_ids (MoveRange q start (start + l) to) = play_ids q"
    using ok(3) by (simp only: eq)
  have len: "length (keys (MoveRange q start (start + l) to)) = q_length q"
    using inv' by (simp add: eq)
  show "keys (MoveRange q start (start + l) to) = move_block start (start + l) to (keys q)"
  proof (rule nth_equalityI)
    show "length (keys (MoveRange q start (start + l) to)) = length (move_block start (start + l) to (keys q))"
      using r inv len by simp
    fix k assume "k < length (keys (MoveRange q start (start + l) to))"
    then have "k \<in> ?f ` {..<q_length q}"
      using len MoveRange_order_bij[OF r] by (simp add: bij_betw_def)
    then obtain p where p: "p < q_length q" "k = ?f p" by auto
    show "keys (MoveRange q start (start + l) to) ! k = move_block start (start + l) to (keys q) ! k"
      using ok(2)[OF p(1)] nth_move_block[of start l "keys q" to p] p r inv by (simp only: eq length_keys)
  qed
qed

lemma MoveRange_frame:
  assumes "queue_inv q"
  shows "q_length (MoveRange q start (start + l) to) = q_length q"
    "q_random (MoveRange q start (start + l) to) = q_random q"
    "q_max_length (MoveRange q start (start + l) to) = q_max_length q"
    "q_version (MoveRange q start (start + l) to) = q_version q"
  by (simp_all add: MoveRange_moved[OF assms])

end
