(* ===== verification/Queue_AddRemove.thy ===== *)
theory Queue_AddRemove
  imports Queue_Edit
begin

text \<open>
  Appending, removing, swapping and clearing entries of the play queue, and restoring the
  normal playing order: each keeps \<open>queue_inv\<close> and is the intended list operation.
\<close>

definition remove_nth :: "nat \<Rightarrow> 'a list \<Rightarrow> 'a list" where
  "remove_nth k xs = take k xs @ drop (Suc k) xs"

lemma length_remove_nth [simp]: "k < length xs \<Longrightarrow> length (remove_nth k xs) = length xs - 1"
  by (simp add: remove_nth_def)

lemma nth_remove_nth:
  "k < length xs \<Longrightarrow> i < length xs - 1 \<Longrightarrow> remove_nth k xs ! i = (if i < k then xs ! i else xs ! Suc i)"
  by (simp add: remove_nth_def nth_append)

lemma map_remove_nth: "map f (remove_nth k xs) = remove_nth k (map f xs)"
  by (simp add: remove_nth_def take_map drop_map)

lemma set_remove_nth_distinct:
  "distinct xs \<Longrightarrow> k < length xs \<Longrightarrow> set (remove_nth k xs) = set xs - {xs ! k} \<and> distinct (remove_nth k xs)"
proof -
  assume d: "distinct xs" and k: "k < length xs"
  have xs: "xs = take k xs @ xs ! k # drop (Suc k) xs" using k by (rule id_take_nth_drop)
  have "distinct (take k xs @ xs ! k # drop (Suc k) xs)" using d xs by simp
  moreover have "set xs = set (take k xs) \<union> {xs ! k} \<union> set (drop (Suc k) xs)"
    by (subst xs) auto
  ultimately show ?thesis by (auto simp: remove_nth_def)
qed

lemma move_block_single:
  "p < length xs \<Longrightarrow> to < length xs \<Longrightarrow>
   move_block p (Suc p) to xs = (let r = remove_nth p xs in take to r @ [xs ! p] @ drop to r)"
  by (simp add: move_block_def remove_nth_def Let_def take_Suc_conv_app_nth hd_drop_conv_nth take_Suc)

section \<open>Moving one entry\<close>

lemma fold_MovePostion:
  "queue_inv q \<Longrightarrow> MovePostion q from to = MoveRange q from (from + 1) to"
proof -
  have put: "for_up from (from + 1) (\<lambda>i. PutItem (to + i - from) (map (\<lambda>i. its ! i) [from..<from + 1] ! (i - from))) q =
      PutItem to (its ! from) q" for its q by simp
  have up: "for_up from to (\<lambda>i. MoveItemTo (i + 1) i) q =
      for_up (from + 1) (from + 1 + to - from) (\<lambda>i. MoveItemTo i (from + i - (from + 1))) q" for q
  proof -
    have "[from + 1..<from + 1 + to - from] = map Suc [from..<to]"
      by (simp add: map_Suc_upt)
    then show ?thesis by (simp add: fold_map comp_def)
  qed
  have down: "for_down (to + 1) (from + 1) (\<lambda>i. MoveItemTo (i - 1) i) q =
      for_down to from (\<lambda>i. MoveItemTo i (i + (from + 1) - from)) q" for q
  proof -
    have "rev [to + 1..<from + 1] = map Suc (rev [to..<from])"
      by (simp add: rev_map[symmetric] map_Suc_upt)
    then show ?thesis by (simp add: fold_map comp_def)
  qed
  have ord: "MovePostion_order from to = MoveRange_order from (from + 1) to"
    by (rule ext) (simp add: MovePostion_is_MoveRange_order)
  show ?thesis
    unfolding MovePostion_def MoveRange_def Let_def put up down ord ..
qed

lemma MovePostion_correct:
  assumes inv: "queue_inv q" and r: "from < q_length q" "to < q_length q"
  shows "queue_inv (MovePostion q from to)"
    and "keys (MovePostion q from to) = move_block from (Suc from) to (keys q)"
    and "q_random q \<Longrightarrow> play_ids (MovePostion q from to) = play_ids q"
  using MoveRange_correct[OF inv, of "from" 1 to] r fold_MovePostion[OF inv] by simp_all

section \<open>Swapping\<close>

lemma place_correct:
  assumes inv: "queue_inv q" and f: "bij_betw f {..<q_length q} {..<q_length q}"
    and ps: "distinct ps" "set ps \<subseteq> {..<q_length q}"
    and fixd: "\<forall>p < q_length q. p \<notin> set ps \<longrightarrow> f p = p"
  defines "q' \<equiv> place (map (\<lambda>p. (f p, q_items q ! p)) ps) q"
  shows "queue_inv q'" and "\<And>p. p < q_length q \<Longrightarrow> keys q' ! f p = keys q ! p"
proof -
  let ?P = "{..<q_length q}"
  have inj: "inj_on f ?P" and im: "f ` ?P = ?P" using f by (simp_all add: bij_betw_def)
  have match: "ids_match ?P q" using inv by (simp add: queue_inv_def)
  have bound: "\<forall>p \<in> ?P. f p < length (q_items q)"
    using inv im unfolding queue_inv_def by (metis imageI lessThan_iff order_less_le_trans)
  have fx: "\<forall>p \<in> ?P - set ps. f p = p" using fixd by simp
  note pm = place_match[OF match inj ps fx bound, folded q'_def]
  have fr: "q_length q' = q_length q" "orders q' = orders q" "q_random q' = q_random q"
    by (simp_all add: q'_def)
  show inv': "queue_inv q'"
    using inv pm(2) im by (simp add: queue_inv_def q'_def)
  show "keys q' ! f p = keys q ! p" if "p < q_length q" for p
  proof -
    have "f p < q_length q" using im that by auto
    then show ?thesis using that pm(1)[of p] by (simp add: nth_keys[OF inv'] nth_keys[OF inv] fr)
  qed
qed

definition swap_pos :: "nat \<Rightarrow> nat \<Rightarrow> nat \<Rightarrow> nat" where
  "swap_pos a b p = (if p = a then b else if p = b then a else p)"

lemma swap_pos_bij: "a < n \<Longrightarrow> b < n \<Longrightarrow> bij_betw (swap_pos a b) {..<n} {..<n}"
  by (rule bij_betw_byWitness[where f' = "swap_pos a b"]) (auto simp: swap_pos_def)

lemma SwapPositions_place:
  assumes "a < length (q_items q)" "b < length (q_items q)"
  shows "SwapPositions q a b =
    place (map (\<lambda>p. (swap_pos a b p, q_items q ! p)) (if a = b then [a] else [a, b])) q"
proof (cases "a = b")
  case True
  then show ?thesis using assms
    by (simp add: SwapPositions_def PutItem_def Let_def swap_pos_def IdTable_Move_def array_swap_def)
next
  case False
  then show ?thesis using assms
    by (simp add: SwapPositions_def PutItem_def Let_def swap_pos_def array_swap_def nth_list_update
        list_update_swap[of a b])
qed

lemma SwapPositions_correct:
  assumes inv: "queue_inv q" and r: "a < q_length q" "b < q_length q"
  shows "queue_inv (SwapPositions q a b)" "keys (SwapPositions q a b) = array_swap (keys q) a b"
    "orders (SwapPositions q a b) = orders q" "q_length (SwapPositions q a b) = q_length q"
    "q_random (SwapPositions q a b) = q_random q" "q_version (SwapPositions q a b) = q_version q"
    "q_max_length (SwapPositions q a b) = q_max_length q"
proof -
  have l: "a < length (q_items q)" "b < length (q_items q)"
    using inv r by (auto simp: queue_inv_def)
  note eq = SwapPositions_place[OF l]
  let ?ps = "if a = b then [a] else [a, b]"
  have ps: "distinct ?ps" "set ?ps \<subseteq> {..<q_length q}"
    "\<forall>p < q_length q. p \<notin> set ?ps \<longrightarrow> swap_pos a b p = p"
    using r by (auto simp: swap_pos_def)
  note ok = place_correct[OF inv swap_pos_bij[OF r] ps, folded eq]
  show inv': "queue_inv (SwapPositions q a b)" by (rule ok(1))
  show fr: "orders (SwapPositions q a b) = orders q" "q_length (SwapPositions q a b) = q_length q"
    "q_random (SwapPositions q a b) = q_random q" "q_version (SwapPositions q a b) = q_version q"
    "q_max_length (SwapPositions q a b) = q_max_length q"
    by (simp_all add: eq del: map_map list.map)
  show "keys (SwapPositions q a b) = array_swap (keys q) a b"
  proof (rule nth_equalityI)
    show "length (keys (SwapPositions q a b)) = length (array_swap (keys q) a b)"
      using inv inv' fr by simp
    fix k assume "k < length (keys (SwapPositions q a b))"
    then have k: "k < q_length q" using inv' fr by simp
    then have "swap_pos a b k < q_length q" "swap_pos a b (swap_pos a b k) = k"
      using r by (auto simp: swap_pos_def)
    then show "keys (SwapPositions q a b) ! k = array_swap (keys q) a b ! k"
      using ok(2)[of "swap_pos a b k"] inv r k by (auto simp: nth_array_swap swap_pos_def)
  qed
qed

lemma SwapOrders_correct:
  assumes inv: "queue_inv q" and rnd: "q_random q" and r: "a < q_length q" "b < q_length q"
  shows "queue_inv (SwapOrders q a b)" "keys (SwapOrders q a b) = keys q"
    "orders (SwapOrders q a b) = array_swap (orders q) a b"
    "play_ids (SwapOrders q a b) = array_swap (play_ids q) a b"
proof -
  have n: "q_length q \<le> length (q_order q)" using inv by (simp add: queue_inv_def)
  show os: "orders (SwapOrders q a b) = array_swap (orders q) a b"
    using r n by (simp add: SwapOrders_def orders_def array_swap_take)
  show ks: "keys (SwapOrders q a b) = keys q" by (simp add: SwapOrders_def keys_def)
  have "play_ids (SwapOrders q a b) = map (\<lambda>p. item_id (q_items q ! p)) (array_swap (orders q) a b)"
    using os by (simp add: play_ids_def) (simp add: SwapOrders_def)
  also have "\<dots> = array_swap (play_ids q) a b"
    using r inv by (simp add: play_ids_def array_swap_def map_update)
  finally show "play_ids (SwapOrders q a b) = array_swap (play_ids q) a b" .
  show "queue_inv (SwapOrders q a b)"
    using inv rnd r os is_perm_swap[of "q_length q" "orders q" a b]
    by (simp add: queue_inv_def ids_match_def) (simp add: SwapOrders_def)
qed

section \<open>Removing\<close>

lemma erase_match:
  assumes m: "ids_match P q" and p: "p \<in> P"
  shows "ids_match (P - {p}) (q\<lparr>q_ids := IdTable_Erase (q_ids q) (item_id (q_items q ! p))\<rparr>)"
proof -
  have ok: "id_ok (q_ids q)" using m by (simp add: ids_match_def)
  have "id_lookup (IdTable_Erase (q_ids q) (item_id (q_items q ! p))) i = Some r \<longleftrightarrow>
      r \<in> P - {p} \<and> item_id (q_items q ! r) = i" for i r
    using m ids_match_inj[OF m, of p r] p by (auto simp: ids.lookup_erase[OF ok] ids_match_def)
  then show ?thesis using ids.invar_erase[OF ok] m by (simp add: ids_match_def)
qed

definition close_gap :: "nat \<Rightarrow> nat \<Rightarrow> nat" where
  "close_gap position p = (if p > position then p - 1 else p)"

text \<open>The state in which the entry's id is erased and the length is reduced.\<close>

definition erased :: "nat \<Rightarrow> queue \<Rightarrow> queue" where
  "erased position q = q\<lparr>q_length := q_length q - 1, q_ids := IdTable_Erase (q_ids q) (PositionToId q position)\<rparr>"

lemma shift_orders_loop:
  "for_up lo hi (\<lambda>i q. q\<lparr>q_order := (q_order q)[i := q_order q ! (i + 1)]\<rparr>) q =
   q\<lparr>q_order := for_up lo hi (\<lambda>i ys. ys[i := ys ! (i + 1)]) (q_order q)\<rparr>"
  by (induction hi) (auto simp: upt_Suc)

lemma close_gap_loop:
  assumes "n \<le> length (q_order q)"
  shows "for_up 0 n (\<lambda>i q. if q_order q ! i > position
           then q\<lparr>q_order := (q_order q)[i := q_order q ! i - 1]\<rparr> else q) q =
    q\<lparr>q_order := map (close_gap position) (take n (q_order q)) @ drop n (q_order q)\<rparr>"
proof -
  have eq: "(\<lambda>i q. if q_order q ! i > position
           then q\<lparr>q_order := (q_order q)[i := q_order q ! i - 1]\<rparr> else q) =
        (\<lambda>i q. q\<lparr>q_order := (q_order q)[i := close_gap position (q_order q ! i)]\<rparr>)"
    by (auto simp: fun_eq_iff close_gap_def)
  show ?thesis unfolding eq by (rule order_update_loop[OF assms])
qed

lemma DeletePosition_eq:
  assumes inv: "queue_inv q" and pos: "position < q_length q"
  shows "DeletePosition q position =
    (place (map (\<lambda>p. (close_gap position p, q_items q ! p)) [Suc position..<q_length q]) (erased position q))
      \<lparr>q_order := map (close_gap position) (remove_nth (PositionToOrder q position) (orders q)) @
        drop (q_length q - 1) (q_order q)\<rparr>"
proof -
  let ?o = "PositionToOrder q position" and ?n = "q_length q - 1"
  have o: "?o < q_length q" using order_of_position[OF inv pos] by simp
  have len: "length (q_order q) = q_max_length q" "q_length q \<le> q_max_length q"
    using inv by (simp_all add: queue_inv_def)
  have mv: "for_up position ?n (\<lambda>i. MoveItemTo (i + 1) i) (erased position q) =
      place (map (\<lambda>p. (close_gap position p, q_items q ! p)) [Suc position..<q_length q]) (erased position q)"
  proof -
    have "[Suc position..<q_length q] = map Suc [position..<?n]"
      using pos by (simp add: map_Suc_upt)
    then have "map (\<lambda>p. (close_gap position p, q_items q ! p)) [Suc position..<q_length q] =
        map (\<lambda>i. (i, q_items (erased position q) ! (i + 1))) [position..<?n]"
      by (simp add: close_gap_def erased_def)
    then show ?thesis
      by (simp only:) (rule move_loop, rule sorted_wrt_upt_mono, simp)
  qed
  have os: "for_up ?o ?n (\<lambda>i ys. ys[i := ys ! (i + 1)]) (q_order q) =
      remove_nth ?o (orders q) @ drop ?n (q_order q)"
  proof -
    have "?o \<le> ?n" "?n < length (q_order q)" using o len pos by auto
    from shift_down_loop[OF this] have "for_up ?o ?n (\<lambda>i ys. ys[i := ys ! (i + 1)]) (q_order q) =
        take ?o (q_order q) @ take (?n - ?o) (drop (Suc ?o) (q_order q)) @ drop ?n (q_order q)" .
    moreover have "take (?n - ?o) (drop (Suc ?o) (q_order q)) = drop (Suc ?o) (orders q)"
      using o by (simp add: orders_def drop_take)
    moreover have "take ?o (q_order q) = take ?o (orders q)" using o by (simp add: orders_def)
    ultimately show ?thesis by (simp add: remove_nth_def)
  qed
  let ?pl = "place (map (\<lambda>p. (close_gap position p, q_items q ! p)) [Suc position..<q_length q]) (erased position q)"
  have lpl: "q_length ?pl = ?n" "q_order ?pl = q_order q" by (simp_all add: erased_def)
  have lr: "length (remove_nth ?o (orders q)) = ?n" using o inv by simp
  let ?q2 = "?pl\<lparr>q_order := remove_nth ?o (orders q) @ drop ?n (q_order q)\<rparr>"
  have e: "(q\<lparr>q_length := ?n\<rparr>)\<lparr>q_ids := IdTable_Erase (q_ids (q\<lparr>q_length := ?n\<rparr>)) (PositionToId q position)\<rparr>
      = erased position q" by (simp add: erased_def)
  have n: "q_length (erased position q) = ?n" by (simp add: erased_def)
  have "for_up ?o (q_length ?pl) (\<lambda>i q. q\<lparr>q_order := (q_order q)[i := q_order q ! (i + 1)]\<rparr>) ?pl = ?q2"
    unfolding shift_orders_loop lpl os ..
  then have "DeletePosition q position = for_up 0 (q_length ?q2) (\<lambda>i q. if q_order q ! i > position
           then q\<lparr>q_order := (q_order q)[i := q_order q ! i - 1]\<rparr> else q) ?q2"
    by (simp only: DeletePosition_def Let_def e n mv)
  also have "\<dots> = ?pl\<lparr>q_order := map (close_gap position) (remove_nth ?o (orders q)) @ drop ?n (q_order q)\<rparr>"
    using close_gap_loop[of "q_length ?q2" ?q2 position] lpl lr by (simp add: erased_def)
  finally show ?thesis .
qed

lemma close_gap_bij: "pos < n \<Longrightarrow> inj_on (close_gap pos) ({..<n} - {pos}) \<and>
    close_gap pos ` ({..<n} - {pos}) = {..<n - 1}"
proof (intro conjI)
  assume "pos < n"
  show "inj_on (close_gap pos) ({..<n} - {pos})" by (auto simp: inj_on_def close_gap_def split: if_splits)
  show "close_gap pos ` ({..<n} - {pos}) = {..<n - 1}"
  proof (intro equalityI subsetI)
    fix k assume "k \<in> {..<n - 1}"
    then have "k = close_gap pos (if k < pos then k else Suc k)" "(if k < pos then k else Suc k) \<in> {..<n} - {pos}"
      by (auto simp: close_gap_def)
    then show "k \<in> close_gap pos ` ({..<n} - {pos})" by blast
  qed (use \<open>pos < n\<close> in \<open>auto simp: close_gap_def\<close>)
qed

lemma DeletePosition_correct:
  assumes inv: "queue_inv q" and pos: "pos < q_length q"
  defines "q' \<equiv> DeletePosition q pos"
  shows "queue_inv q'" "keys q' = remove_nth pos (keys q)"
    "orders q' = map (close_gap pos) (remove_nth (PositionToOrder q pos) (orders q))"
    "play_ids q' = remove_nth (PositionToOrder q pos) (play_ids q)"
    "q_length q' = q_length q - 1" "q_random q' = q_random q" "q_version q' = q_version q"
    "q_max_length q' = q_max_length q"
proof -
  let ?o = "PositionToOrder q pos" and ?n = "q_length q" and ?P = "{..<q_length q} - {pos}"
  let ?ps = "[Suc pos..<?n]"
  let ?pl = "place (map (\<lambda>p. (close_gap pos p, q_items q ! p)) ?ps) (erased pos q)"
  note eq = DeletePosition_eq[OF inv pos, folded q'_def]
  have o: "?o < ?n" "q_order q ! ?o = pos" using order_of_position[OF inv pos] by simp_all
  have ln: "?n \<le> q_max_length q" "length (q_items q) = q_max_length q" "length (q_order q) = q_max_length q"
    using inv by (simp_all add: queue_inv_def)
  have match: "ids_match {..<?n} q" using inv by (simp add: queue_inv_def)
  then have ok: "id_ok (q_ids q)" by (simp add: ids_match_def)
  have e_fr: "q_items (erased pos q) = q_items q" "q_max_length (erased pos q) = q_max_length q"
    by (simp_all add: erased_def)
  have m0: "ids_match ?P (erased pos q)"
    using erase_match[OF match, of pos] pos by (simp add: erased_def PositionToId_def ids_match_def)
  have bound: "\<forall>p \<in> ?P. close_gap pos p < length (q_items (erased pos q))"
    using ln by (auto simp: close_gap_def e_fr)
  have fx: "\<forall>p \<in> ?P - set ?ps. close_gap pos p = p" by (auto simp: close_gap_def)
  have inj: "inj_on (close_gap pos) ?P" and im: "close_gap pos ` ?P = {..<?n - 1}"
    using close_gap_bij[OF pos] by auto
  have sub: "set ?ps \<subseteq> ?P" by auto
  note pm = place_match[OF m0 inj distinct_upt sub fx bound, unfolded e_fr]
  have key: "item_key (q_items ?pl ! close_gap pos p) = item_key (q_items q ! p)" if "p \<in> ?P" for p
    using pm(1)[OF that] by simp
  have m1: "ids_match {..<?n - 1} ?pl"
    using pm(2) im by simp
  have fr: "q_items q' = q_items ?pl" "q_ids q' = q_ids ?pl" "q_length q' = ?n - 1"
      "q_random q' = q_random q" "q_version q' = q_version q" "q_max_length q' = q_max_length q"
    by (simp_all add: eq erased_def)
  then show "q_length q' = ?n - 1" "q_random q' = q_random q" "q_version q' = q_version q"
    "q_max_length q' = q_max_length q" by simp_all
  have lr: "length (remove_nth ?o (orders q)) = ?n - 1" using o inv by simp
  show os: "orders q' = map (close_gap pos) (remove_nth ?o (orders q))"
    using lr by (simp add: orders_def fr(3)) (simp add: eq orders_def)
  have perm: "is_perm ?n (orders q)" using inv by (simp add: queue_inv_def)
  have nth_o: "orders q ! ?o = pos" using o by (simp add: nth_orders)
  have rm: "set (remove_nth ?o (orders q)) = ?P" "distinct (remove_nth ?o (orders q))"
    using set_remove_nth_distinct[of "orders q" ?o] perm o nth_o by (auto simp: is_perm_def)
  have perm': "is_perm (?n - 1) (orders q')"
    using rm lr inj im by (simp add: os is_perm_def distinct_map)
  have ident: "orders q' = [0..<?n - 1]" if nr: "\<not> q_random q"
  proof -
    have id: "orders q = [0..<?n]" using inv nr by (simp add: queue_inv_def)
    then have "?o = pos" using nth_o o by simp
    then show ?thesis using pos id
      by (intro nth_equalityI) (auto simp: os nth_remove_nth close_gap_def)
  qed
  have ln': "length (q_items q') = q_max_length q" "length (q_order q') = q_max_length q"
    using ln lr pos by (simp_all add: fr(1) e_fr) (simp add: eq)
  have m': "ids_match {..<?n - 1} q'" using m1 by (simp add: ids_match_def fr e_fr)
  show inv': "queue_inv q'"
    using inv perm' ident m' ln' ln pos by (simp add: queue_inv_def fr(3-6))
  have key': "item_key (q_items q' ! close_gap pos p) = item_key (q_items q ! p)" if "p \<in> ?P" for p
    using key[OF that] by (simp add: fr)
  show "keys q' = remove_nth pos (keys q)"
  proof (rule nth_equalityI)
    show "length (keys q') = length (remove_nth pos (keys q))" using inv inv' pos fr by simp
    fix k assume "k < length (keys q')"
    then have k: "k < ?n - 1" using inv' fr by simp
    let ?p = "if k < pos then k else Suc k"
    have p: "?p \<in> ?P" "close_gap pos ?p = k" using k by (auto simp: close_gap_def)
    show "keys q' ! k = remove_nth pos (keys q) ! k"
      using key'[OF p(1)] p k pos inv inv' fr
      by (auto simp: nth_keys nth_remove_nth split: if_splits)
  qed
  have "item_id (q_items q' ! close_gap pos p) = item_id (q_items q ! p)" if "p \<in> ?P" for p
    using key'[OF that] by (simp add: item_key_def)
  then have "map (\<lambda>p. item_id (q_items q' ! close_gap pos p)) (remove_nth ?o (orders q)) =
      map (\<lambda>p. item_id (q_items q ! p)) (remove_nth ?o (orders q))" using rm(1) by simp
  then show "play_ids q' = remove_nth ?o (play_ids q)"
    by (simp add: play_ids_def os comp_def map_remove_nth)
qed

section \<open>Appending\<close>

lemma card_ids:
  assumes "ids_match {..<n} q"
  shows "card (dom (id_lookup (q_ids q))) \<le> n"
proof -
  have "dom (id_lookup (q_ids q)) \<subseteq> (\<lambda>p. item_id (q_items q ! p)) ` {..<n}"
    using assms by (auto simp: ids_match_def)
  then have "card (dom (id_lookup (q_ids q))) \<le> card ((\<lambda>p. item_id (q_items q ! p)) ` {..<n})"
    by (intro card_mono) simp_all
  also have "\<dots> \<le> n" using card_image_le[of "{..<n}" "\<lambda>p. item_id (q_items q ! p)"] by simp
  finally show ?thesis .
qed

lemma Append_correct:
  assumes inv: "queue_inv q" and full: "\<not> IsFull q"
  obtains i q' where "Append q s pr = Some (i, q')" "queue_inv q'"
    "keys q' = keys q @ [(DupDetached s, i, pr)]" "play_ids q' = play_ids q @ [i]"
    "orders q' = orders q @ [q_length q]"
    "i \<notin> set (play_ids q)" "q_length q' = Suc (q_length q)" "q_random q' = q_random q"
    "q_version q' = q_version q" "q_max_length q' = q_max_length q"
proof -
  let ?n = "q_length q"
  have match: "ids_match {..<?n} q" using inv by (simp add: queue_inv_def)
  have ok: "id_ok (q_ids q)" using match by (simp add: ids_match_def)
  have lt: "?n < q_max_length q" using full by (simp add: IsFull_def)
  have "card (dom (id_lookup (q_ids q))) < id_capacity (q_ids q)"
    using card_ids[OF match] match lt by (simp add: ids_match_def HASH_MULT_def)
  from ids.insert_returns[OF ok this, of ?n]
  obtain i t where ins: "IdTable_Insert (q_ids q) ?n = Some (i, t)" by auto
  define q' where "q' = q\<lparr>q_length := ?n + 1, q_ids := t,
      q_items := (q_items q)[?n := \<lparr>item_song = DupDetached s, item_id = i,
         item_version = q_version q, item_priority = pr\<rparr>],
      q_order := (q_order q)[?n := ?n]\<rparr>"
  have app: "Append q s pr = Some (i, q')" by (simp add: Append_def ins q'_def Let_def)
  have fresh: "id_lookup (q_ids q) i = None" and lk: "id_lookup t = (id_lookup (q_ids q))(i \<mapsto> ?n)"
    and okt: "id_ok t" "id_capacity t = id_capacity (q_ids q)"
    using ids.insert_fresh[OF ok ins] by simp_all
  have li: "length (q_items q) = q_max_length q" "length (q_order q) = q_max_length q"
    using inv by (simp_all add: queue_inv_def)
  have os: "orders q' = orders q @ [?n]"
    using lt li by (simp add: orders_def q'_def take_Suc_conv_app_nth)
  have perm: "is_perm ?n (orders q)" using inv by (simp add: queue_inv_def)
  have perm': "is_perm (Suc ?n) (orders q')"
    using perm by (simp add: os is_perm_def lessThan_Suc)
  have it: "q_items q' ! p = (if p = ?n then \<lparr>item_song = DupDetached s, item_id = i,
         item_version = q_version q, item_priority = pr\<rparr> else q_items q ! p)" for p
    using lt li by (simp add: q'_def nth_list_update)
  have fr: "q_length q' = Suc ?n" "q_random q' = q_random q" "q_version q' = q_version q"
      "q_max_length q' = q_max_length q" "q_ids q' = t"
    by (simp_all add: q'_def)
  have nofresh: "item_id (q_items q ! p) \<noteq> i" if "p < ?n" for p
    using ids_match_lookup[OF match, of p] that fresh by auto
  have m: "ids_match {..<Suc ?n} q'"
    unfolding ids_match_def
  proof (intro conjI allI)
    show "id_ok (q_ids q')" "id_capacity (q_ids q') = q_max_length q' * HASH_MULT - 1"
      using okt match by (simp_all add: fr ids_match_def)
    fix j p
    show "id_lookup (q_ids q') j = Some p \<longleftrightarrow> p \<in> {..<Suc ?n} \<and> item_id (q_items q' ! p) = j"
      using match fresh nofresh[of p] by (auto simp: fr lk it ids_match_def less_Suc_eq)
  qed
  have inv': "queue_inv q'"
    using inv m perm' os lt li by (simp add: queue_inv_def fr) (simp add: q'_def)
  have ks: "keys q' = keys q @ [(DupDetached s, i, pr)]"
    using lt li by (simp add: keys_def q'_def take_Suc_conv_app_nth item_key_def)
  have so: "set (orders q) = {..<?n}" using perm by (simp add: is_perm_def)
  have pi: "play_ids q' = play_ids q @ [i]"
    using so by (auto simp: play_ids_def os it)
  have "i \<notin> set (play_ids q)"
    using nofresh so by (auto simp: play_ids_def)
  from that[OF app inv' ks pi os this] fr show thesis by simp
qed

section \<open>Clearing\<close>

lemma Clear_correct:
  assumes inv: "queue_inv q"
  shows "queue_inv (Clear q)" "keys (Clear q) = []" "play_ids (Clear q) = []"
    "q_length (Clear q) = 0" "q_random (Clear q) = q_random q" "q_version (Clear q) = q_version q"
    "q_max_length (Clear q) = q_max_length q"
proof -
  let ?e = "\<lambda>i q. q\<lparr>q_ids := IdTable_Erase (q_ids q) (item_id (q_items q ! i))\<rparr>"
  let ?L = "\<lambda>k. for_up 0 k ?e q"
  have loop: "k \<le> q_length q \<Longrightarrow> ids_match {k..<q_length q} (?L k) \<and> q_items (?L k) = q_items q \<and>
      (\<exists>t. ?L k = q\<lparr>q_ids := t\<rparr>)" for k
  proof (induction k)
    case 0
    have "\<exists>t. q = q\<lparr>q_ids := t\<rparr>" by (rule exI[of _ "q_ids q"]) simp
    then show ?case using inv by (simp add: queue_inv_def atLeast0LessThan)
  next
    case (Suc k)
    then have m: "ids_match {k..<q_length q} (?L k)" and it: "q_items (?L k) = q_items q"
      and ex: "\<exists>t. ?L k = q\<lparr>q_ids := t\<rparr>" by simp_all
    have "ids_match ({k..<q_length q} - {k}) (?e k (?L k))"
      using erase_match[OF m, of k] Suc.prems by simp
    moreover have "{k..<q_length q} - {k} = {Suc k..<q_length q}" by auto
    ultimately have "ids_match {Suc k..<q_length q} (?e k (?L k))" by simp
    then show ?case using it ex by auto
  qed
  obtain t where t: "?L (q_length q) = q\<lparr>q_ids := t\<rparr>" and m: "ids_match {} (?L (q_length q))"
    using loop[of "q_length q"] by auto
  have eq: "Clear q = q\<lparr>q_ids := t, q_length := 0\<rparr>" by (simp add: Clear_def t)
  have m': "ids_match {} (Clear q)" using m by (simp add: ids_match_def t eq)
  show "queue_inv (Clear q)"
    using inv m' by (simp add: queue_inv_def orders_def is_perm_def) (simp add: eq)
  show "keys (Clear q) = []" "play_ids (Clear q) = []"
    "q_length (Clear q) = 0" "q_random (Clear q) = q_random q" "q_version (Clear q) = q_version q"
    "q_max_length (Clear q) = q_max_length q"
    by (simp_all add: eq keys_def play_ids_def orders_def)
qed

section \<open>Normal order\<close>

lemma RestoreOrder_correct:
  assumes inv: "queue_inv (q\<lparr>q_random := r\<rparr>)"
  shows "queue_inv (RestoreOrder q)" "orders (RestoreOrder q) = [0..<q_length q]"
    "keys (RestoreOrder q) = keys q" "q_length (RestoreOrder q) = q_length q"
    "q_random (RestoreOrder q) = q_random q" "q_items (RestoreOrder q) = q_items q"
    "q_version (RestoreOrder q) = q_version q" "q_ids (RestoreOrder q) = q_ids q"
    "q_max_length (RestoreOrder q) = q_max_length q"
proof -
  have n: "q_length q \<le> length (q_order q)" using inv by (simp add: queue_inv_def)
  have loop: "k \<le> length (q_order q) \<Longrightarrow> for_up 0 k (\<lambda>i q. q\<lparr>q_order := (q_order q)[i := i]\<rparr>) q =
      q\<lparr>q_order := [0..<k] @ drop k (q_order q)\<rparr>" for k
  proof (induction k)
    case (Suc k)
    then show ?case by (simp add: list_update_append Cons_nth_drop_Suc[symmetric])
  qed simp
  have eq: "RestoreOrder q = q\<lparr>q_order := [0..<q_length q] @ drop (q_length q) (q_order q)\<rparr>"
    using loop[OF n] by (simp add: RestoreOrder_def)
  show os: "orders (RestoreOrder q) = [0..<q_length q]" by (simp add: orders_def eq)
  show fr: "keys (RestoreOrder q) = keys q" "q_length (RestoreOrder q) = q_length q"
    "q_random (RestoreOrder q) = q_random q" "q_items (RestoreOrder q) = q_items q"
    "q_version (RestoreOrder q) = q_version q" "q_ids (RestoreOrder q) = q_ids q"
    "q_max_length (RestoreOrder q) = q_max_length q"
    by (simp_all add: eq keys_def)
  show "queue_inv (RestoreOrder q)"
    using inv n os fr by (simp add: queue_inv_def ids_match_def) (simp add: eq)
qed

section \<open>A new queue\<close>

lemma new_Queue_correct:
  assumes "0 < m"
  shows "queue_inv (new_Queue m rs)" "keys (new_Queue m rs) = []" "play_ids (new_Queue m rs) = []"
proof -
  have "1 < m * HASH_MULT" using assms by (simp add: HASH_MULT_def)
  then have "ids_match {} (new_Queue m rs)"
    by (simp add: ids_match_def new_Queue_def id_ok_new)
  then show "queue_inv (new_Queue m rs)"
    using assms by (simp add: queue_inv_def orders_def is_perm_def) (simp add: new_Queue_def)
  show "keys (new_Queue m rs) = []" "play_ids (new_Queue m rs) = []"
    by (simp_all add: keys_def play_ids_def orders_def new_Queue_def)
qed

end
