(* ===== verification/Queue_Random.thy ===== *)
theory Queue_Random
  imports Queue_AddRemove
begin

text \<open>
  Random mode and priorities (src/src/Queue.cxx): shuffling the playing order, physically
  shuffling a range of positions, and changing priorities.  The random engine of the queue is
  the supply \<open>q_rand\<close> of \<open>MPD_Prelude\<close>.  \<open>std::stable_sort\<close> with the comparison "has the
  higher priority" is the stable \<open>sort_key\<close> of the library on the negated priority.
\<close>

section \<open>The operations\<close>

definition order_key :: "queue \<Rightarrow> nat \<Rightarrow> int" where
  "order_key q p = - uint (item_priority (q_items q ! p))"

definition queue_sort_order_by_priority :: "queue \<Rightarrow> nat \<Rightarrow> nat \<Rightarrow> queue" where
  "queue_sort_order_by_priority q start fin =
     q\<lparr>q_order := take start (q_order q) @
         sort_key (order_key q) (take (fin - start) (drop start (q_order q))) @
         drop fin (q_order q)\<rparr>"

definition ShuffleOrderRange :: "queue \<Rightarrow> nat \<Rightarrow> nat \<Rightarrow> queue" where
  "ShuffleOrderRange q start fin =
     (let (os, rs) = std_shuffle start fin (q_rand q) (q_order q) in q\<lparr>q_order := os, q_rand := rs\<rparr>)"

text \<open>One round of the loop over the sorted range; the state is the queue with the start and
  the priority of the current group.\<close>

definition shuffle_group_step :: "nat \<Rightarrow> queue \<times> nat \<times> 8 word \<Rightarrow> queue \<times> nat \<times> 8 word" where
  "shuffle_group_step i s =
     (let (q, group_start, group_priority) = s; priority = GetOrderPriority q i
      in if priority \<noteq> group_priority then (ShuffleOrderRange q group_start i, i, priority)
         else (q, group_start, group_priority))"

definition ShuffleOrderRangeWithPriority :: "queue \<Rightarrow> nat \<Rightarrow> nat \<Rightarrow> queue" where
  "ShuffleOrderRangeWithPriority q start fin =
     (if start = fin then q
      else let q = queue_sort_order_by_priority q start fin;
               (q, group_start, _) =
                 for_up (start + 1) fin shuffle_group_step (q, start, GetOrderPriority q start)
           in ShuffleOrderRange q group_start fin)"

definition ShuffleOrder :: "queue \<Rightarrow> queue" where
  "ShuffleOrder q = ShuffleOrderRangeWithPriority q 0 (q_length q)"

definition ShuffleOrderFirst :: "queue \<Rightarrow> nat \<Rightarrow> nat \<Rightarrow> queue" where
  "ShuffleOrderFirst q start fin =
     (let (k, rs) = uniform_draw (q_rand q) start (fin - 1)
      in SwapOrders (q\<lparr>q_rand := rs\<rparr>) start k)"

definition ShuffleOrderLast :: "queue \<Rightarrow> nat \<Rightarrow> nat \<Rightarrow> queue" where
  "ShuffleOrderLast q start fin =
     (let (k, rs) = uniform_draw (q_rand q) start (fin - 1)
      in SwapOrders (q\<lparr>q_rand := rs\<rparr>) (fin - 1) k)"

definition ShuffleRange :: "queue \<Rightarrow> nat \<Rightarrow> nat \<Rightarrow> queue" where
  "ShuffleRange q start fin =
     for_up start fin
       (\<lambda>i q. let (ri, rs) = uniform_draw (q_rand q) start (fin - 1)
              in SwapPositions (q\<lparr>q_rand := rs\<rparr>) i ri) q"

function FindPriorityOrder :: "queue \<Rightarrow> nat \<Rightarrow> 8 word \<Rightarrow> nat \<Rightarrow> nat" where
  "FindPriorityOrder q i priority exclude_order =
     (if i < q_length q
      then if item_priority (q_items q ! OrderToPosition q i) \<le> priority \<and> i \<noteq> exclude_order then i
           else FindPriorityOrder q (Suc i) priority exclude_order
      else q_length q)"
  by pat_completeness auto
termination
  by (relation "measure (\<lambda>(q, i, _). q_length q - i)") auto

declare FindPriorityOrder.simps [simp del]

function CountSamePriority_from :: "queue \<Rightarrow> nat \<Rightarrow> nat \<Rightarrow> 8 word \<Rightarrow> nat" where
  "CountSamePriority_from q start_order i priority =
     (if i < q_length q
      then if item_priority (q_items q ! OrderToPosition q i) \<noteq> priority then i - start_order
           else CountSamePriority_from q start_order (Suc i) priority
      else q_length q - start_order)"
  by pat_completeness auto
termination
  by (relation "measure (\<lambda>(q, _, i, _). q_length q - i)") auto

declare CountSamePriority_from.simps [simp del]

definition CountSamePriority :: "queue \<Rightarrow> nat \<Rightarrow> 8 word \<Rightarrow> nat" where
  "CountSamePriority q start_order priority = CountSamePriority_from q start_order start_order priority"

definition SetPriority :: "queue \<Rightarrow> nat \<Rightarrow> 8 word \<Rightarrow> int \<Rightarrow> bool \<times> queue" where
  "SetPriority q position priority after_order =
     (let item = q_items q ! position; old_priority = item_priority item
      in if old_priority = priority then (False, q)
         else let q = q\<lparr>q_items := (q_items q)[position :=
                          item\<lparr>item_version := q_version q, item_priority := priority\<rparr>]\<rparr>
         in if \<not> q_random q then (True, q)
         else let ord = PositionToOrder q position;
                  after_item = q_items q ! OrderToPosition q (nat after_order)
         in if after_order \<ge> 0 \<and> (ord = nat after_order \<or>
                ord < nat after_order \<and>
                (old_priority > item_priority after_item \<or> priority \<le> item_priority after_item))
            then (True, q)
         else let before_order = FindPriorityOrder q (nat (after_order + 1)) priority ord;
                  new_order = (if before_order > ord then before_order - 1 else before_order);
                  q = MoveOrder q ord new_order;
                  priority_count = CountSamePriority q new_order priority
              in (True, ShuffleOrderFirst q new_order (new_order + priority_count)))"

definition SetPriorityRange :: "queue \<Rightarrow> nat \<Rightarrow> nat \<Rightarrow> 8 word \<Rightarrow> int \<Rightarrow> bool \<times> queue" where
  "SetPriorityRange q start_position end_position priority after_order =
     (let after_position = (if after_order \<ge> 0 then int (OrderToPosition q (nat after_order)) else -1)
      in for_up start_position end_position
           (\<lambda>i (modified, q).
              let after_order = (if after_position \<ge> 0 then int (PositionToOrder q (nat after_position)) else -1);
                  (m, q) = SetPriority q i priority after_order
              in (modified \<or> m, q)) (False, q))"

section \<open>Reordering\<close>

text \<open>
  What all the order-shuffling operations have in common: only the order array (between two
  bounds) and the random engine change, and the array is permuted.
\<close>

definition reordered :: "nat \<Rightarrow> nat \<Rightarrow> queue \<Rightarrow> queue \<Rightarrow> bool" where
  "reordered start fin q q' \<longleftrightarrow> q' = q\<lparr>q_order := q_order q', q_rand := q_rand q'\<rparr> \<and>
     same_outside start fin (q_order q) (q_order q')"

lemma reordered_refl [simp]: "reordered s f q q"
  by (simp add: reordered_def)

lemma reordered_trans [trans]:
  "reordered s f q q' \<Longrightarrow> reordered s f q' q'' \<Longrightarrow> reordered s f q q''"
proof -
  assume a: "reordered s f q q'" "reordered s f q' q''"
  have e'': "q'' = q'\<lparr>q_order := q_order q'', q_rand := q_rand q''\<rparr>"
    and e': "q' = q\<lparr>q_order := q_order q', q_rand := q_rand q'\<rparr>" using a by (simp_all only: reordered_def)
  have "q'\<lparr>q_order := x, q_rand := y\<rparr> = q\<lparr>q_order := x, q_rand := y\<rparr>" for x y
    by (subst e') simp
  then have "q'' = q\<lparr>q_order := q_order q'', q_rand := q_rand q''\<rparr>" using e'' by metis
  then show ?thesis using a by (auto simp: reordered_def intro: same_outside_trans)
qed

lemma reordered_fields:
  assumes "reordered s f q q'"
  shows "q_items q' = q_items q" "q_length q' = q_length q" "q_ids q' = q_ids q"
    "q_random q' = q_random q" "q_max_length q' = q_max_length q" "q_version q' = q_version q"
    "q_repeat q' = q_repeat q" "q_single q' = q_single q" "q_consume q' = q_consume q"
    "keys q' = keys q" "length (q_order q') = length (q_order q)"
proof -
  have e: "q' = q\<lparr>q_order := q_order q', q_rand := q_rand q'\<rparr>" and o: "length (q_order q') = length (q_order q)"
    using assms by (simp_all add: reordered_def same_outside_def)
  show "q_items q' = q_items q" "q_length q' = q_length q" "q_ids q' = q_ids q"
    "q_random q' = q_random q" "q_max_length q' = q_max_length q" "q_version q' = q_version q"
    "q_repeat q' = q_repeat q" "q_single q' = q_single q" "q_consume q' = q_consume q"
    "keys q' = keys q"
    by (subst e, simp add: keys_def)+
  show "length (q_order q') = length (q_order q)" by (rule o)
qed

lemma same_outside_take:
  assumes "same_outside s f xs ys" "f \<le> n" "n \<le> length xs"
  shows "same_outside s f (take n xs) (take n ys)"
proof -
  have d: "drop n ys = drop n xs"
    using assms by (metis drop_drop le_add_diff_inverse2 same_outside_def)
  have "mset (take n ys) + mset (drop n ys) = mset (take n xs) + mset (drop n xs)"
    using assms(1) by (metis append_take_drop_id mset_append same_outside_def)
  then have m: "mset (take n ys) = mset (take n xs)" using d by simp
  have "drop f (take n ys) = drop f (take n xs)" "take s (take n ys) = take s (take n xs)"
    using assms(1) by (simp_all add: drop_take same_outside_def min.commute flip: take_take)
      (metis same_outside_def take_take min.commute)
  then show ?thesis using assms(1) m by (simp add: same_outside_def)
qed

lemma reordered_correct:
  assumes inv: "queue_inv q" and rnd: "q_random q" and r: "reordered s f q q'" and f: "f \<le> q_length q"
  shows "queue_inv q'" "same_outside s f (orders q) (orders q')"
    "same_outside s f (play_ids q) (play_ids q')"
proof -
  note fs = reordered_fields[OF r]
  have n: "q_length q \<le> length (q_order q)" using inv by (simp add: queue_inv_def)
  show so: "same_outside s f (orders q) (orders q')"
    using same_outside_take[OF _ f n] r by (simp add: orders_def fs reordered_def)
  then have "mset (orders q') = mset (orders q)" by (simp add: same_outside_def)
  then have "is_perm (q_length q) (orders q')"
    using inv by (simp add: queue_inv_def is_perm_mset)
  then show "queue_inv q'"
    using inv rnd by (simp add: queue_inv_def fs ids_match_def)
  show "same_outside s f (play_ids q) (play_ids q')"
    using so by (simp add: play_ids_def fs same_outside_def take_map drop_map)
qed

lemma ShuffleOrderRange_reordered:
  assumes "fin \<le> length (q_order q)"
  shows "reordered start fin q (ShuffleOrderRange q start fin)"
proof -
  obtain os rs where s: "std_shuffle start fin (q_rand q) (q_order q) = (os, rs)" by fastforce
  show ?thesis using std_shuffle_outside[OF assms s] s by (simp add: ShuffleOrderRange_def reordered_def)
qed

lemma sort_reordered:
  assumes "start \<le> fin" "fin \<le> length (q_order q)"
  shows "reordered start fin q (queue_sort_order_by_priority q start fin)"
  unfolding queue_sort_order_by_priority_def reordered_def
  using same_outside_mid[OF assms, of "sort_key (order_key q) (take (fin - start) (drop start (q_order q)))"]
  by simp

lemma SwapOrders_reordered:
  assumes "s \<le> i" "i < f" "s \<le> j" "j < f" "f \<le> length (q_order q)"
  shows "reordered s f q (SwapOrders (q\<lparr>q_rand := rs\<rparr>) i j)"
  using same_outside_swap[OF assms] by (simp add: SwapOrders_def reordered_def)

lemma ShuffleOrderFirst_reordered:
  assumes "start < fin" "fin \<le> length (q_order q)"
  shows "reordered start fin q (ShuffleOrderFirst q start fin)"
proof -
  obtain k rs where d: "uniform_draw (q_rand q) start (fin - 1) = (k, rs)" by fastforce
  have "start \<le> k \<and> k \<le> fin - 1" using uniform_draw_range[OF d] assms by simp
  then show ?thesis unfolding ShuffleOrderFirst_def d Let_def prod.case using assms
    by (intro SwapOrders_reordered) auto
qed

lemma ShuffleOrderLast_reordered:
  assumes "start < fin" "fin \<le> length (q_order q)"
  shows "reordered start fin q (ShuffleOrderLast q start fin)"
proof -
  obtain k rs where d: "uniform_draw (q_rand q) start (fin - 1) = (k, rs)" by fastforce
  have "start \<le> k \<and> k \<le> fin - 1" using uniform_draw_range[OF d] assms by simp
  then show ?thesis unfolding ShuffleOrderLast_def d Let_def prod.case using assms
    by (intro SwapOrders_reordered) auto
qed

section \<open>Shuffling by priority\<close>

definition prio_seq :: "queue \<Rightarrow> 8 word list" where
  "prio_seq q = map (\<lambda>p. item_priority (q_items q ! p)) (q_order q)"

definition descending :: "8 word list \<Rightarrow> bool" where
  "descending = sorted_wrt (\<lambda>a b. b \<le> a)"

definition window :: "nat \<Rightarrow> nat \<Rightarrow> 'a list \<Rightarrow> 'a list" where
  "window start fin xs = take (fin - start) (drop start xs)"

lemma window_map: "window s f (map g xs) = map g (window s f xs)"
  by (simp add: window_def take_map drop_map)

lemma nth_window_set: "f \<le> length xs \<Longrightarrow> (\<forall>x \<in> set (window s f xs). R x) \<longleftrightarrow> (\<forall>k. s \<le> k \<and> k < f \<longrightarrow> R (xs ! k))"
proof (intro iffI ballI allI impI)
  assume f: "f \<le> length xs" and w: "\<forall>x \<in> set (window s f xs). R x"
  fix k assume k: "s \<le> k \<and> k < f"
  then have "window s f xs ! (k - s) = xs ! k" "k - s < length (window s f xs)"
    using f by (auto simp: window_def)
  then show "R (xs ! k)" using w by (metis nth_mem)
next
  fix x assume f: "f \<le> length xs" and all: "\<forall>k. s \<le> k \<and> k < f \<longrightarrow> R (xs ! k)"
    and "x \<in> set (window s f xs)"
  then obtain j where "j < length (window s f xs)" "x = window s f xs ! j" by (metis in_set_conv_nth)
  then show "R x" using f all by (auto simp: window_def)
qed

lemma same_outside_mono:
  assumes "same_outside s' f' xs ys" "s \<le> s'" "f' \<le> f"
  shows "same_outside s f xs ys"
proof -
  have "take s ys = take s xs"
    using assms(1,2) by (metis min.absorb1 same_outside_def take_take)
  moreover have "drop f ys = drop f xs"
    using assms(1,3) by (metis drop_drop le_add_diff_inverse2 same_outside_def)
  ultimately show ?thesis using assms(1) by (simp add: same_outside_def)
qed

lemma reordered_mono: "reordered s' f' q q' \<Longrightarrow> s \<le> s' \<Longrightarrow> f' \<le> f \<Longrightarrow> reordered s f q q'"
  unfolding reordered_def using same_outside_mono by blast

lemma same_outside_const:
  assumes so: "same_outside s f xs ys" and le: "s \<le> f" "f \<le> length xs"
    and const: "\<forall>x \<in> set (window s f xs). P x = c"
  shows "map P ys = map P xs"
proof -
  have split: "zs = take s zs @ window s f zs @ drop f zs" for zs :: "'a list"
    using le(1) by (simp add: window_def) (metis append_take_drop_id drop_drop le_add_diff_inverse2)
  have m: "mset (window s f ys) = mset (window s f xs)"
    unfolding window_def by (rule same_outside_middle[OF so le])
  have rep: "map P zs = replicate (length zs) c" if "\<forall>x \<in> set zs. P x = c" for zs
    using that by (induction zs) auto
  have "map P (window s f ys) = map P (window s f xs)"
    using rep[OF const] rep[of "window s f ys"] const mset_eq_setD[OF m] mset_eq_length[OF m] by simp
  then have "map P (take s ys @ window s f ys @ drop f ys) = map P (take s xs @ window s f xs @ drop f xs)"
    using so by (simp add: same_outside_def)
  then show ?thesis using split[of xs] split[of ys] by simp
qed

lemma reordered_const_prio:
  assumes r: "reordered s f q q'" and le: "s \<le> f" "f \<le> length (q_order q)"
    and const: "\<forall>k. s \<le> k \<and> k < f \<longrightarrow> prio_seq q ! k = c"
  shows "prio_seq q' = prio_seq q"
proof -
  have "\<forall>k. s \<le> k \<and> k < f \<longrightarrow> item_priority (q_items q ! (q_order q ! k)) = c"
    using const le by (auto simp: prio_seq_def)
  then have "\<forall>p \<in> set (window s f (q_order q)). item_priority (q_items q ! p) = c"
    by (subst nth_window_set[OF le(2)])
  from same_outside_const[OF _ le this] have "map (\<lambda>p. item_priority (q_items q ! p)) (q_order q') =
      map (\<lambda>p. item_priority (q_items q ! p)) (q_order q)"
    using r by (simp only: reordered_def)
  then show ?thesis by (simp add: prio_seq_def reordered_fields[OF r])
qed

lemma GetOrderPriority_seq: "i < length (q_order q) \<Longrightarrow> GetOrderPriority q i = prio_seq q ! i"
  by (simp add: prio_seq_def queue_defs)

lemma sorted_key_descending:
  "sorted (map (order_key q) xs) \<Longrightarrow> descending (map (\<lambda>p. item_priority (q_items q ! p)) xs)"
  by (simp add: descending_def sorted_wrt_map order_key_def word_le_def)

lemma sort_window:
  assumes "start \<le> fin" "fin \<le> length (q_order q)"
  shows "descending (window start fin (prio_seq (queue_sort_order_by_priority q start fin)))"
proof -
  let ?s = "sort_key (order_key q) (window start fin (q_order q))"
  have len: "length ?s = fin - start" using assms by (simp add: window_def)
  have "window start fin (q_order (queue_sort_order_by_priority q start fin)) = ?s"
    using assms len by (simp add: queue_sort_order_by_priority_def window_def)
  then have "window start fin (prio_seq (queue_sort_order_by_priority q start fin)) =
      map (\<lambda>p. item_priority (q_items q ! p)) ?s"
    by (simp add: prio_seq_def window_map) (simp add: queue_sort_order_by_priority_def)
  then show ?thesis using sorted_key_descending[of q ?s] by simp
qed

definition group_inv :: "nat \<Rightarrow> nat \<Rightarrow> queue \<Rightarrow> nat \<Rightarrow> queue \<times> nat \<times> 8 word \<Rightarrow> bool" where
  "group_inv start fin q m s = (case s of (q', group_start, group_priority) \<Rightarrow>
     reordered start fin q q' \<and> prio_seq q' = prio_seq q \<and> start \<le> group_start \<and> group_start < m \<and>
     (\<forall>k. group_start \<le> k \<and> k < m \<longrightarrow> prio_seq q' ! k = group_priority))"

lemma shuffle_group_step_inv:
  assumes inv: "group_inv start fin q m s" and m: "m < fin" "fin \<le> length (q_order q)"
  shows "group_inv start fin q (Suc m) (shuffle_group_step m s)"
proof -
  obtain q' gs gp where s: "s = (q', gs, gp)" by (cases s)
  have r: "reordered start fin q q'" and ps: "prio_seq q' = prio_seq q" and gs: "start \<le> gs" "gs < m"
    and const: "\<forall>k. gs \<le> k \<and> k < m \<longrightarrow> prio_seq q' ! k = gp"
    using inv unfolding s group_inv_def prod.case by blast+
  have len: "length (q_order q') = length (q_order q)" by (simp add: reordered_fields[OF r])
  have pr: "GetOrderPriority q' m = prio_seq q' ! m" using m len by (simp add: GetOrderPriority_seq)
  have sh: "reordered gs m q' (ShuffleOrderRange q' gs m)"
    using m len by (intro ShuffleOrderRange_reordered) simp
  have "prio_seq (ShuffleOrderRange q' gs m) = prio_seq q'"
    using reordered_const_prio[OF sh _ _ const] gs m len by simp
  moreover have "reordered start fin q (ShuffleOrderRange q' gs m)"
    using reordered_trans[OF r] reordered_mono[OF sh gs(1)] m by simp
  ultimately show ?thesis
    using r ps gs const pr by (auto simp: s group_inv_def shuffle_group_step_def Let_def less_Suc_eq)
qed

lemma ShuffleOrderRangeWithPriority_correct:
  assumes le: "start \<le> fin" "fin \<le> length (q_order q)"
  defines "q' \<equiv> ShuffleOrderRangeWithPriority q start fin"
  shows "reordered start fin q q'" "descending (window start fin (prio_seq q'))"
proof -
  have "reordered start fin q q' \<and> descending (window start fin (prio_seq q'))"
  proof (cases "start = fin")
    case True
    then show ?thesis by (simp add: q'_def ShuffleOrderRangeWithPriority_def descending_def window_def)
  next
    case False
    let ?q1 = "queue_sort_order_by_priority q start fin"
    let ?L = "\<lambda>m. for_up (start + 1) m shuffle_group_step (?q1, start, GetOrderPriority ?q1 start)"
    have r1: "reordered start fin q ?q1" by (rule sort_reordered[OF le])
    have len: "length (q_order ?q1) = length (q_order q)" by (simp add: reordered_fields[OF r1])
    have loop: "Suc start \<le> m \<Longrightarrow> m \<le> fin \<Longrightarrow> group_inv start fin ?q1 m (?L m)" for m
    proof (induction m rule: dec_induct)
      case base
      have "k = start" if "start \<le> k \<and> k < Suc start" for k using that by linarith
      then have "\<forall>k. start \<le> k \<and> k < Suc start \<longrightarrow> prio_seq ?q1 ! k = prio_seq ?q1 ! start"
        by blast
      moreover have "GetOrderPriority ?q1 start = prio_seq ?q1 ! start"
        using False le len by (simp add: GetOrderPriority_seq)
      ultimately have "group_inv start fin ?q1 (Suc start) (?q1, start, GetOrderPriority ?q1 start)"
        unfolding group_inv_def prod.case by (metis lessI order_refl reordered_refl)
      then show ?case by simp
    next
      case (step m)
      then have "group_inv start fin ?q1 (Suc m) (shuffle_group_step m (?L m))"
        using le len by (intro shuffle_group_step_inv) simp_all
      then show ?case using step by simp
    qed
    obtain q2 gs gp where l: "?L fin = (q2, gs, gp)" by (metis prod_cases3)
    have inv: "group_inv start fin ?q1 fin (q2, gs, gp)" using loop[of fin] False le l by simp
    then have r2: "reordered start fin ?q1 q2" and ps: "prio_seq q2 = prio_seq ?q1"
      and gs: "start \<le> gs" "gs < fin" and const: "\<forall>k. gs \<le> k \<and> k < fin \<longrightarrow> prio_seq q2 ! k = gp"
      unfolding group_inv_def prod.case by blast+
    have len2: "length (q_order q2) = length (q_order q)" by (simp add: reordered_fields[OF r2] len)
    have q': "q' = ShuffleOrderRange q2 gs fin"
      using False l by (simp add: q'_def ShuffleOrderRangeWithPriority_def Let_def)
    have sh: "reordered gs fin q2 q'" unfolding q' using le len2 by (intro ShuffleOrderRange_reordered) simp
    have "prio_seq q' = prio_seq ?q1"
      using reordered_const_prio[OF sh _ _ const] gs le len2 ps by simp
    moreover have "reordered start fin q q'"
      using reordered_trans[OF reordered_trans[OF r1 r2] reordered_mono[OF sh gs(1)]] by simp
    ultimately show ?thesis using sort_window[OF le] by simp
  qed
  then show "reordered start fin q q'" "descending (window start fin (prio_seq q'))" by simp_all
qed

lemma ShuffleOrder_correct:
  assumes inv: "queue_inv q" and rnd: "q_random q"
  shows "queue_inv (ShuffleOrder q)" "mset (play_ids (ShuffleOrder q)) = mset (play_ids q)"
    "reordered 0 (q_length q) q (ShuffleOrder q)"
    "descending (map (\<lambda>p. item_priority (q_items q ! p)) (orders (ShuffleOrder q)))"
proof -
  have le: "q_length q \<le> length (q_order q)" using inv by (simp add: queue_inv_def)
  note ok = ShuffleOrderRangeWithPriority_correct[OF le0 le, folded ShuffleOrder_def]
  show "reordered 0 (q_length q) q (ShuffleOrder q)" by (rule ok(1))
  note c = reordered_correct[OF inv rnd ok(1) order_refl]
  show "queue_inv (ShuffleOrder q)" by (rule c(1))
  show "mset (play_ids (ShuffleOrder q)) = mset (play_ids q)" using c(3) by (simp add: same_outside_def)
  show "descending (map (\<lambda>p. item_priority (q_items q ! p)) (orders (ShuffleOrder q)))"
    using ok(2) by (simp add: window_def prio_seq_def orders_def reordered_fields[OF ok(1)] take_map)
qed

end
