(* ===== verification/Queue_Priority.thy ===== *)
theory Queue_Priority
  imports Queue_Random
begin

text \<open>
  Changing priorities in random mode (\<open>SetPriority\<close>, \<open>SetPriorityRange\<close> of
  src/src/Queue.cxx): the songs that are still to be played stay sorted by priority, and the
  current song stays current.
\<close>

section \<open>Moving one element of the order list\<close>

definition insert_at :: "nat \<Rightarrow> 'a \<Rightarrow> 'a list \<Rightarrow> 'a list" where
  "insert_at k x xs = take k xs @ [x] @ drop k xs"

lemma nth_insert_at:
  "k \<le> length xs \<Longrightarrow> i \<le> length xs \<Longrightarrow>
   insert_at k x xs ! i = (if i < k then xs ! i else if i = k then x else xs ! (i - 1))"
  by (cases "k < i") (auto simp: insert_at_def nth_append nth_Cons' less_imp_diff_less)

lemma length_insert_at [simp]: "length (insert_at k x xs) = Suc (length xs)"
  by (simp add: insert_at_def)

lemma mset_insert_at: "mset (insert_at k x xs) = add_mset x (mset xs)"
proof -
  have "mset (take k xs) + mset (drop k xs) = mset xs" by (metis append_take_drop_id mset_append)
  then show ?thesis by (simp add: insert_at_def)
qed

lemma mset_remove_nth: "k < length xs \<Longrightarrow> add_mset (xs ! k) (mset (remove_nth k xs)) = mset xs"
proof -
  assume "k < length xs"
  then have "xs = take k xs @ xs ! k # drop (Suc k) xs" by (rule id_take_nth_drop)
  then have "mset xs = mset (take k xs @ xs ! k # drop (Suc k) xs)" by simp
  then show ?thesis by (simp add: remove_nth_def)
qed

lemma map_insert_at: "map f (insert_at k x xs) = insert_at k (f x) (map f xs)"
  by (simp add: insert_at_def take_map drop_map)

lemma drop_insert_at: "s \<le> k \<Longrightarrow> k \<le> length xs \<Longrightarrow> drop s (insert_at k x xs) = insert_at (k - s) x (drop s xs)"
  by (simp add: insert_at_def drop_take)

lemma MoveOrder_fields [simp]:
  "q_length (MoveOrder q a b) = q_length q" "q_items (MoveOrder q a b) = q_items q"
  "q_ids (MoveOrder q a b) = q_ids q" "q_random (MoveOrder q a b) = q_random q"
  "q_max_length (MoveOrder q a b) = q_max_length q" "q_version (MoveOrder q a b) = q_version q"
  "keys (MoveOrder q a b) = keys q" "length (q_order (MoveOrder q a b)) = length (q_order q)"
  by (simp_all add: MoveOrder_def Let_def keys_def)

lemma MoveOrder_orders:
  assumes inv: "queue_inv q" and r: "from < q_length q" "to < q_length q"
  shows "orders (MoveOrder q from to) = insert_at to (orders q ! from) (remove_nth from (orders q))"
proof (rule nth_equalityI)
  let ?n = "q_length q" and ?os = "q_order q"
  have ln: "?n \<le> length ?os" using inv by (simp add: queue_inv_def)
  have lo: "length (orders q) = ?n" "length (remove_nth from (orders q)) = ?n - 1" using inv r by simp_all
  show "length (orders (MoveOrder q from to)) =
      length (insert_at to (orders q ! from) (remove_nth from (orders q)))"
    using ln lo r by (simp add: orders_def)
  fix k assume "k < length (orders (MoveOrder q from to))"
  then have k: "k < ?n" by (simp add: orders_def)
  have rhs: "insert_at to (orders q ! from) (remove_nth from (orders q)) ! k =
      (if k < to then (if k < from then ?os ! k else ?os ! Suc k) else if k = to then ?os ! from
       else (if k - 1 < from then ?os ! (k - 1) else ?os ! k))"
    using k r lo ln by (auto simp: nth_insert_at nth_remove_nth nth_orders)
  show "orders (MoveOrder q from to) ! k = insert_at to (orders q ! from) (remove_nth from (orders q)) ! k"
  proof (cases "from < to")
    case True
    have "from \<le> to" "to < length ?os" using True r ln by simp_all
    note sd = shift_down_loop[OF this]
    have "MoveOrder q from to = q\<lparr>q_order :=
        (take from ?os @ take (to - from) (drop (Suc from) ?os) @ drop to ?os)[to := ?os ! from]\<rparr>"
      by (simp only: MoveOrder_def Let_def True if_True sd OrderToPosition_def)
    then have "orders (MoveOrder q from to) ! k = (if k = to then ?os ! from else
        (take from ?os @ take (to - from) (drop (Suc from) ?os) @ drop to ?os) ! k)"
      using True k ln r by (simp add: nth_orders nth_list_update)
    also have "\<dots> = (if k = to then ?os ! from else if k < from then ?os ! k
        else if k < to then ?os ! Suc k else ?os ! k)"
      using True k ln r by (auto simp: nth_append)
    finally show ?thesis using rhs True by auto
  next
    case False
    have "to \<le> from" "from < length ?os" "k < length ?os" using False r ln k by simp_all
    note su = shift_up_loop[OF this]
    have "orders (MoveOrder q from to) ! k = (if k = to then ?os ! from
        else if to < k \<and> k \<le> from then ?os ! (k - 1) else ?os ! k)"
      using False k ln r su
      by (simp add: nth_orders MoveOrder_def Let_def OrderToPosition_def nth_list_update)
    then show ?thesis using rhs False by auto
  qed
qed

lemma MoveOrder_correct:
  assumes inv: "queue_inv q" and rnd: "q_random q" and r: "from < q_length q" "to < q_length q"
  shows "queue_inv (MoveOrder q from to)" "mset (play_ids (MoveOrder q from to)) = mset (play_ids q)"
proof -
  have "mset (orders (MoveOrder q from to)) = mset (orders q)"
    using r inv by (simp add: MoveOrder_orders[OF inv r] mset_insert_at mset_remove_nth)
  then show "mset (play_ids (MoveOrder q from to)) = mset (play_ids q)"
    unfolding play_ids_def mset_map by simp
  have "is_perm (q_length q) (orders (MoveOrder q from to))"
    using inv \<open>mset (orders _) = _\<close> by (simp add: queue_inv_def is_perm_mset)
  then show "queue_inv (MoveOrder q from to)" using inv rnd by (simp add: queue_inv_def ids_match_def)
qed

section \<open>The two searches\<close>

lemma FindPriorityOrder_spec:
  fixes q i pr ex
  assumes "i \<le> q_length q"
  defines "b \<equiv> FindPriorityOrder q i pr ex"
  shows "i \<le> b \<and> b \<le> q_length q \<and>
    (b < q_length q \<longrightarrow> GetOrderPriority q b \<le> pr \<and> b \<noteq> ex) \<and>
    (\<forall>k. i \<le> k \<and> k < b \<longrightarrow> \<not> GetOrderPriority q k \<le> pr \<or> k = ex)"
  using assms(1) unfolding b_def
proof (induction q i pr ex rule: FindPriorityOrder.induct)
  case (1 q i pr ex)
  show ?case
  proof (cases "i < q_length q \<and> \<not> (GetOrderPriority q i \<le> pr \<and> i \<noteq> ex)")
    case True
    then have "FindPriorityOrder q i pr ex = FindPriorityOrder q (Suc i) pr ex"
      by (subst FindPriorityOrder.simps) (auto simp: queue_defs)
    moreover have IH: "Suc i \<le> FindPriorityOrder q (Suc i) pr ex \<and> FindPriorityOrder q (Suc i) pr ex \<le> q_length q \<and>
        (FindPriorityOrder q (Suc i) pr ex < q_length q \<longrightarrow>
          GetOrderPriority q (FindPriorityOrder q (Suc i) pr ex) \<le> pr \<and> FindPriorityOrder q (Suc i) pr ex \<noteq> ex) \<and>
        (\<forall>k. Suc i \<le> k \<and> k < FindPriorityOrder q (Suc i) pr ex \<longrightarrow> \<not> GetOrderPriority q k \<le> pr \<or> k = ex)"
      using 1(1) True by (simp add: queue_defs)
    moreover have "\<not> GetOrderPriority q k \<le> pr \<or> k = ex"
      if "i \<le> k" "k < FindPriorityOrder q (Suc i) pr ex" for k
      using IH True that by (cases "k = i") auto
    ultimately show ?thesis by simp
  next
    case False
    then have "FindPriorityOrder q i pr ex = i"
      using 1 by (subst FindPriorityOrder.simps) (auto simp: queue_defs)
    then show ?thesis using 1 False by auto
  qed
qed

lemma CountSamePriority_spec:
  fixes q s pr
  assumes "s \<le> q_length q"
  defines "c \<equiv> CountSamePriority q s pr"
  shows "s + c \<le> q_length q \<and> (\<forall>k. s \<le> k \<and> k < s + c \<longrightarrow> GetOrderPriority q k = pr) \<and>
    (s + c < q_length q \<longrightarrow> GetOrderPriority q (s + c) \<noteq> pr)"
proof -
  have "s \<le> i \<Longrightarrow> i \<le> q_length q \<Longrightarrow> (\<forall>k. s \<le> k \<and> k < i \<longrightarrow> GetOrderPriority q k = pr) \<Longrightarrow>
     s + CountSamePriority_from q s i pr \<le> q_length q \<and>
     (\<forall>k. s \<le> k \<and> k < s + CountSamePriority_from q s i pr \<longrightarrow> GetOrderPriority q k = pr) \<and>
     (s + CountSamePriority_from q s i pr < q_length q \<longrightarrow>
        GetOrderPriority q (s + CountSamePriority_from q s i pr) \<noteq> pr)" for i
  proof (induction q s i pr rule: CountSamePriority_from.induct)
    case (1 q s i pr)
    show ?case
    proof (cases "i < q_length q \<and> GetOrderPriority q i = pr")
      case True
      then have e: "CountSamePriority_from q s i pr = CountSamePriority_from q s (Suc i) pr"
        by (subst CountSamePriority_from.simps) (simp add: queue_defs)
      have "\<forall>k. s \<le> k \<and> k < Suc i \<longrightarrow> GetOrderPriority q k = pr"
        using 1(4) True by (metis less_Suc_eq)
      then show ?thesis using 1 True unfolding e by (simp add: queue_defs)
    next
      case False
      then have "CountSamePriority_from q s i pr = i - s"
        using 1(2,3) by (subst CountSamePriority_from.simps) (auto simp: queue_defs)
      then show ?thesis using 1(2-4) False by auto
    qed
  qed
  from this[of s] show ?thesis using assms(1) unfolding c_def CountSamePriority_def by force
qed

section \<open>Inserting into a descending list\<close>

lemma descending_insert_at:
  assumes "descending xs" "k \<le> length xs" "\<forall>i < k. \<not> xs ! i \<le> p" "k < length xs \<longrightarrow> xs ! k \<le> p"
  shows "descending (insert_at k p xs)"
  unfolding descending_def sorted_wrt_iff_nth_less
proof (intro allI impI)
  have mono: "xs ! j \<le> xs ! i" if "i \<le> j" "j < length xs" for i j
    using assms(1) that by (cases "i = j") (auto simp: descending_def sorted_wrt_iff_nth_less)
  fix i j assume ij: "i < j" "j < length (insert_at k p xs)"
  have low: "xs ! m \<le> p" if "k \<le> m" "m < length xs" for m
    using mono[of k m] assms(4) that by (meson le_less_trans order_trans)
  consider "j < k" | "j = k" | "i < k" "k < j" | "i = k" "k < j" | "k < i" using ij by linarith
  then show "insert_at k p xs ! j \<le> insert_at k p xs ! i"
  proof cases
    case 1
    then show ?thesis using ij assms(2) mono[of i j] by (simp add: nth_insert_at)
  next
    case 2
    then have "p \<le> xs ! i" using ij assms(3) by (metis linear)
    then show ?thesis using 2 ij assms(2) by (simp add: nth_insert_at)
  next
    case 3
    then show ?thesis using ij assms(2) mono[of i "j - 1"] by (simp add: nth_insert_at)
  next
    case 4
    then show ?thesis using ij assms(2) low[of "j - 1"] by (simp add: nth_insert_at)
  next
    case 5
    then show ?thesis using ij assms(2) mono[of "i - 1" "j - 1"] by (simp add: nth_insert_at)
  qed
qed

lemma descending_remove_nth:
  assumes "descending xs" shows "descending (remove_nth k xs)"
proof -
  have "sorted_wrt (\<lambda>a b. b \<le> a) (take k xs @ drop k xs)" using assms by (simp add: descending_def)
  moreover have "set (drop (Suc k) xs) \<subseteq> set (drop k xs)" by (rule set_drop_subset_set_drop) simp
  moreover have "sorted_wrt (\<lambda>a b. b \<le> a) (drop (Suc k) xs)"
    using assms unfolding descending_def by (rule sorted_wrt_drop)
  ultimately show ?thesis unfolding descending_def remove_nth_def sorted_wrt_append by blast
qed

section \<open>Changing one priority\<close>

definition order_prios :: "queue \<Rightarrow> 8 word list" where
  "order_prios q = map (\<lambda>p. item_priority (q_items q ! p)) (orders q)"

lemma nth_order_prios:
  "queue_inv q \<Longrightarrow> k < q_length q \<Longrightarrow> order_prios q ! k = GetOrderPriority q k"
  by (simp add: order_prios_def nth_orders queue_defs)

lemma length_order_prios [simp]: "queue_inv q \<Longrightarrow> length (order_prios q) = q_length q"
  by (simp add: order_prios_def)

text \<open>
  The reordering part of \<open>SetPriority\<close>: the element at order \<open>o\<close> (not the current one, which
  is the last of the first \<open>s\<close>) goes to the front of its priority group among the songs from
  order \<open>s\<close> on, and is then exchanged with a random member of that group.
\<close>

definition requeue :: "queue \<Rightarrow> nat \<Rightarrow> nat \<Rightarrow> 8 word \<Rightarrow> queue" where
  "requeue q s ord pr =
     (let b = FindPriorityOrder q s pr ord;
          new_order = (if b > ord then b - 1 else b);
          q = MoveOrder q ord new_order;
          c = CountSamePriority q new_order pr
      in ShuffleOrderFirst q new_order (new_order + c))"

lemma requeue_correct:
  assumes inv: "queue_inv q" and rnd: "q_random q" and ord: "ord < q_length q" and s: "s \<le> q_length q"
    and notcur: "Suc ord \<noteq> s"
  defines "rm \<equiv> remove_nth ord (orders q)" and "st \<equiv> if ord < s then s - 1 else s"
    and "pr \<equiv> order_prios q ! ord"
  defines "q' \<equiv> requeue q s ord pr"
  shows "queue_inv q'" "mset (play_ids q') = mset (play_ids q)"
    "q_items q' = q_items q" "q_length q' = q_length q" "q_random q' = True" "keys q' = keys q"
    "q_max_length q' = q_max_length q" "q_version q' = q_version q" "q_ids q' = q_ids q"
    "take st (orders q') = take st rm"
    "descending (drop st (map (\<lambda>p. item_priority (q_items q ! p)) rm)) \<longrightarrow>
     descending (drop st (order_prios q'))"
proof -
  let ?P = "\<lambda>p. item_priority (q_items q ! p)" and ?n = "q_length q" and ?os = "orders q"
  define b where "b = FindPriorityOrder q s pr ord"
  define new where "new = (if b > ord then b - 1 else b)"
  define q2 where "q2 = MoveOrder q ord new"
  define c where "c = CountSamePriority q2 new pr"
  have q': "q' = ShuffleOrderFirst q2 new (new + c)"
    by (simp add: q'_def requeue_def Let_def b_def new_def q2_def c_def)
  have lo: "length ?os = ?n" using inv by simp
  have lrm: "length rm = ?n - 1" using ord lo by (simp add: rm_def)
  have gp: "GetOrderPriority q k = ?P (?os ! k)" if "k < ?n" for k
    using that by (simp add: nth_orders queue_defs)
  note b = FindPriorityOrder_spec[OF s, of pr ord, folded b_def]
  have bo: "b \<noteq> ord" using b ord by auto
  have new: "new < ?n" "st \<le> new" using b bo ord s notcur by (auto simp: new_def st_def)
  have rm_nth: "rm ! i = (if i < ord then ?os ! i else ?os ! Suc i)" if "i < ?n - 1" for i
    using that ord lo by (simp add: rm_def nth_remove_nth)
  have above: "\<not> ?P (rm ! i) \<le> pr" if i: "st \<le> i" "i < new" for i
  proof -
    let ?k = "if i < ord then i else Suc i"
    have k: "s \<le> ?k \<and> ?k < b \<and> ?k \<noteq> ord \<and> ?k < ?n"
      using i bo b new notcur by (auto simp: new_def st_def split: if_splits)
    then have "\<not> GetOrderPriority q ?k \<le> pr" using b by blast
    then show ?thesis using gp[of ?k] k rm_nth[of i] i new by (auto split: if_splits)
  qed
  have below: "?P (rm ! new) \<le> pr" if "new < ?n - 1"
  proof -
    let ?k = "if new < ord then new else Suc new"
    have k: "?k = b \<and> b < ?n" using that bo b ord by (auto simp: new_def split: if_splits)
    then have "GetOrderPriority q ?k \<le> pr" using b by simp
    then show ?thesis using gp[of ?k] k rm_nth[OF that] by (auto split: if_splits)
  qed
  have os2: "orders q2 = insert_at new (?os ! ord) rm"
    unfolding q2_def rm_def by (rule MoveOrder_orders[OF inv ord new(1)])
  have inv2: "queue_inv q2" "mset (play_ids q2) = mset (play_ids q)"
    unfolding q2_def using MoveOrder_correct[OF inv rnd ord new(1)] by simp_all
  have f2: "q_items q2 = q_items q" "q_length q2 = ?n" "q_random q2 = q_random q" "keys q2 = keys q"
    "q_max_length q2 = q_max_length q" "q_version q2 = q_version q" "q_ids q2 = q_ids q"
    "length (q_order q2) = length (q_order q)"
    by (simp_all add: q2_def)
  have pr: "pr = ?P (?os ! ord)" using ord lo by (simp add: pr_def order_prios_def)
  have op2: "order_prios q2 = insert_at new pr (map ?P rm)"
    by (simp add: order_prios_def os2 f2 map_insert_at pr)
  have d2: "descending (drop st (order_prios q2))" if desc: "descending (drop st (map ?P rm))"
    unfolding op2 using new lrm
    by (subst drop_insert_at)
      (auto intro!: descending_insert_at simp: desc[unfolded drop_map] drop_map above below)
  have at_new: "GetOrderPriority q2 new = pr"
  proof -
    have "order_prios q2 ! new = pr" using new lrm by (simp add: op2 nth_insert_at)
    then show ?thesis using nth_order_prios[OF inv2(1), of new] new f2 by simp
  qed
  have "new \<le> q_length q2" using new f2 by simp
  note c = CountSamePriority_spec[OF this, of pr, folded c_def]
  have c1: "0 < c" using c at_new new f2 by (cases c) auto
  have len2: "?n \<le> length (q_order q2)" using inv f2 by (simp add: queue_inv_def)
  have r: "reordered new (new + c) q2 q'"
    unfolding q' using c1 c f2 len2 by (intro ShuffleOrderFirst_reordered) simp_all
  have le: "new + c \<le> q_length q2" using c by simp
  have rnd2: "q_random q2" using rnd f2 by simp
  note rc = reordered_correct[OF inv2(1) rnd2 r le] and rf = reordered_fields[OF r]
  show "queue_inv q'" by (rule rc(1))
  show "mset (play_ids q') = mset (play_ids q)" using rc(3) inv2 by (simp add: same_outside_def)
  show "q_items q' = q_items q" "q_length q' = ?n" "q_random q' = True" "keys q' = keys q"
    "q_max_length q' = q_max_length q" "q_version q' = q_version q" "q_ids q' = q_ids q"
    using rf f2 rnd by simp_all
  have "\<forall>k. new \<le> k \<and> k < new + c \<longrightarrow> prio_seq q2 ! k = pr"
    using c f2 len2 GetOrderPriority_seq[of _ q2] by auto
  from reordered_const_prio[OF r _ _ this] have "prio_seq q' = prio_seq q2"
    using le f2 len2 by simp
  then have "order_prios q' = order_prios q2"
    using rf by (simp add: order_prios_def orders_def prio_seq_def flip: take_map)
  then show "descending (drop st (map ?P rm)) \<longrightarrow> descending (drop st (order_prios q'))" using d2 by simp
  have "take new (orders q') = take new (orders q2)" using rc(2) by (simp add: same_outside_def)
  then have "take st (orders q') = take st (orders q2)"
    using new(2) by (metis min.absorb1 take_take)
  also have "\<dots> = take st rm"
  proof -
    have "new \<le> length rm" using new lrm by simp
    then show ?thesis using new(2) by (simp add: os2 insert_at_def min_absorb1 min_absorb2)
  qed
  finally show "take st (orders q') = take st rm" .
qed

text \<open>Writing the new priority into the entry.\<close>

definition set_item_priority :: "queue \<Rightarrow> nat \<Rightarrow> 8 word \<Rightarrow> queue" where
  "set_item_priority q p pr = q\<lparr>q_items := (q_items q)[p :=
     (q_items q ! p)\<lparr>item_version := q_version q, item_priority := pr\<rparr>]\<rparr>"

lemma set_item_priority_fields [simp]:
  "q_length (set_item_priority q p pr) = q_length q" "q_order (set_item_priority q p pr) = q_order q"
  "q_random (set_item_priority q p pr) = q_random q" "q_version (set_item_priority q p pr) = q_version q"
  "q_max_length (set_item_priority q p pr) = q_max_length q" "q_ids (set_item_priority q p pr) = q_ids q"
  "orders (set_item_priority q p pr) = orders q"
  "OrderToPosition (set_item_priority q p pr) k = OrderToPosition q k"
  by (simp_all add: set_item_priority_def orders_def OrderToPosition_def)

lemma set_item_priority_id:
  "queue_inv q \<Longrightarrow> p < q_length q \<Longrightarrow>
   item_id (q_items (set_item_priority q p pr) ! k) = item_id (q_items q ! k)"
  by (simp add: set_item_priority_def nth_list_update queue_inv_def)

lemma set_item_priority_item:
  "queue_inv q \<Longrightarrow> p < q_length q \<Longrightarrow>
   item_priority (q_items (set_item_priority q p pr) ! k) = (if k = p then pr else item_priority (q_items q ! k))"
  by (auto simp: set_item_priority_def nth_list_update queue_inv_def)

lemma set_item_priority_correct:
  assumes inv: "queue_inv q" and p: "p < q_length q"
  shows "queue_inv (set_item_priority q p pr)"
    "keys (set_item_priority q p pr) = (keys q)[p := (fst (keys q ! p), fst (snd (keys q ! p)), pr)]"
    "play_ids (set_item_priority q p pr) = play_ids q"
    "order_prios (set_item_priority q p pr) = (order_prios q)[PositionToOrder q p := pr]"
proof -
  have len: "length (q_items (set_item_priority q p pr)) = length (q_items q)"
    by (simp add: set_item_priority_def)
  show inv': "queue_inv (set_item_priority q p pr)"
    using inv len by (simp add: queue_inv_def ids_match_def set_item_priority_id[OF inv p])
  show "play_ids (set_item_priority q p pr) = play_ids q"
    by (simp add: play_ids_def set_item_priority_id[OF inv p])
  show "keys (set_item_priority q p pr) = (keys q)[p := (fst (keys q ! p), fst (snd (keys q ! p)), pr)]"
    using p inv by (simp add: keys_def set_item_priority_def take_update_swap map_update item_key_def queue_inv_def)
  show "order_prios (set_item_priority q p pr) = (order_prios q)[PositionToOrder q p := pr]"
  proof (rule nth_equalityI)
    fix k assume "k < length (order_prios (set_item_priority q p pr))"
    then have k: "k < q_length q" using inv' by simp
    have "q_order q ! k = p \<longleftrightarrow> k = PositionToOrder q p"
      using PositionToOrder_order[OF inv k] order_of_position[OF inv p] by auto
    then show "order_prios (set_item_priority q p pr) ! k = (order_prios q)[PositionToOrder q p := pr] ! k"
      using k inv p by (auto simp: order_prios_def nth_list_update nth_orders set_item_priority_item)
  qed (simp add: order_prios_def)
qed

definition upcoming_sorted :: "queue \<Rightarrow> int \<Rightarrow> bool" where
  "upcoming_sorted q a \<longleftrightarrow> descending (drop (nat (a + 1)) (order_prios q))"

text \<open>Where the song at position \<open>cp\<close> (-1 for no song) is in the playing order.\<close>

definition order_of :: "queue \<Rightarrow> int \<Rightarrow> int" where
  "order_of q cp = (if cp \<ge> 0 then int (PositionToOrder q (nat cp)) else -1)"

definition position_of :: "queue \<Rightarrow> int \<Rightarrow> int" where
  "position_of q a = (if a \<ge> 0 then int (OrderToPosition q (nat a)) else -1)"

lemma order_of_position_of:
  "queue_inv q \<Longrightarrow> -1 \<le> a \<Longrightarrow> a < int (q_length q) \<Longrightarrow> order_of q (position_of q a) = a"
  by (simp add: order_of_def position_of_def OrderToPosition_def PositionToOrder_order)

lemma drop_remove_nth:
  "k < length xs \<Longrightarrow> drop (if k < s then s - 1 else s) (remove_nth k xs) =
     (if k < s then drop s xs else remove_nth (k - s) (drop s xs))"
  by (auto simp: remove_nth_def drop_take Suc_diff_le)

lemma remove_nth_update [simp]: "remove_nth k (xs[k := x]) = remove_nth k xs"
  by (simp add: remove_nth_def)

lemma SetPriority_unfold:
  "SetPriority q p pr a =
    (let o' = PositionToOrder (set_item_priority q p pr) p; old = item_priority (q_items q ! p);
         after = item_priority (q_items (set_item_priority q p pr) ! OrderToPosition q (nat a))
     in if old = pr then (False, q)
        else if \<not> q_random q \<or> a \<ge> 0 \<and> (o' = nat a \<or> o' < nat a \<and> (old > after \<or> pr \<le> after))
        then (True, set_item_priority q p pr)
        else (True, requeue (set_item_priority q p pr) (nat (a + 1)) o' pr))"
  unfolding SetPriority_def Let_def set_item_priority_def[symmetric] requeue_def
  by auto

lemma PositionToOrder_cong:
  "q_order q' = q_order q \<Longrightarrow> q_length q' = q_length q \<Longrightarrow> PositionToOrder q' p = PositionToOrder q p"
proof -
  assume e: "q_order q' = q_order q" "q_length q' = q_length q"
  have "PositionToOrder_from q' p i = PositionToOrder_from q p i" for i
    using e
    by (induction q p i rule: PositionToOrder_from.induct)
      (subst PositionToOrder_from.simps, subst (2) PositionToOrder_from.simps, simp)
  then show ?thesis by (simp add: PositionToOrder_def)
qed

lemma SetPriority_correct:
  assumes inv: "queue_inv q" and p: "p < q_length q"
    and a: "-1 \<le> a" "a < int (q_length q)" and eq: "SetPriority q p pr a = (m, q')"
  shows "queue_inv q'" "q_random q' = q_random q" "q_length q' = q_length q" "q_max_length q' = q_max_length q"
    "q_version q' = q_version q" "mset (play_ids q') = mset (play_ids q)"
    "keys q' = (keys q)[p := (fst (keys q ! p), fst (snd (keys q ! p)), pr)]"
    "q_random q \<and> upcoming_sorted q a \<longrightarrow> upcoming_sorted q' (order_of q' (position_of q a))"
proof -
  let ?q1 = "set_item_priority q p pr" and ?n = "q_length q"
  let ?o = "PositionToOrder q p" and ?s = "nat (a + 1)"
  let ?goal = "\<lambda>q'. queue_inv q' \<and> q_random q' = q_random q \<and> q_length q' = ?n \<and> q_max_length q' = q_max_length q \<and>
    q_version q' = q_version q \<and> mset (play_ids q') = mset (play_ids q) \<and>
    keys q' = (keys q)[p := (fst (keys q ! p), fst (snd (keys q ! p)), pr)] \<and>
    (q_random q \<and> upcoming_sorted q a \<longrightarrow> upcoming_sorted q' (order_of q' (position_of q a)))"
  have o1: "PositionToOrder ?q1 p = ?o" by (rule PositionToOrder_cong) simp_all
  have o: "?o < ?n" "q_order q ! ?o = p" using order_of_position[OF inv p] by simp_all
  note c1 = set_item_priority_correct[OF inv p, of pr]
  have pos: "position_of ?q1 a = position_of q a" by (simp add: position_of_def OrderToPosition_def)
  have lop: "length (order_prios q) = ?n" using inv by simp
  have "?goal q'"
  proof (cases "item_priority (q_items q ! p) = pr")
    case True
    have "keys q ! p = (item_song (q_items q ! p), item_id (q_items q ! p), pr)"
      using True p inv by (simp add: nth_keys item_key_def)
    then have "(keys q)[p := (fst (keys q ! p), fst (snd (keys q ! p)), pr)] = keys q"
      by (metis fst_conv list_update_id snd_conv)
    moreover have "q' = q" using eq True by (simp add: SetPriority_unfold Let_def)
    ultimately show ?thesis using inv order_of_position_of[OF inv a] by simp
  next
    case False
    note changed = this
    show ?thesis
    proof (cases "q_random q")
      case True
      note rnd = this
      show ?thesis
    proof (cases "a \<ge> 0 \<and> ?o \<le> nat a \<and> q' = ?q1")
      case True
      have "?o < ?s" using True by linarith
      then have "drop ?s (order_prios ?q1) = drop ?s (order_prios q)"
        by (simp add: c1(4) drop_update_cancel)
      moreover have "order_of ?q1 (position_of q a) = a"
        using order_of_position_of[OF c1(1), of a] a pos by simp
      ultimately show ?thesis using True c1 rnd by (simp add: upcoming_sorted_def)
    next
      case nc: False
      then have q': "q' = requeue ?q1 ?s ?o pr" and ne: "Suc ?o \<noteq> ?s"
        using eq changed rnd a by (auto simp: SetPriority_unfold o1 Let_def split: if_splits)
      have s: "?s \<le> q_length ?q1" and ol: "?o < q_length ?q1" and r1: "q_random ?q1"
        using a o rnd by simp_all
      let ?st = "if ?o < ?s then ?s - 1 else ?s" and ?rm = "remove_nth ?o (orders q)"
      have at_o: "order_prios ?q1 ! ?o = pr" using o lop by (simp add: c1(4))
      have "map (\<lambda>p. item_priority (q_items ?q1 ! p)) ?rm = remove_nth ?o (order_prios q)"
        using c1(4) by (simp add: map_remove_nth order_prios_def flip: map_map)
      then have "drop ?st (map (\<lambda>p. item_priority (q_items ?q1 ! p)) ?rm) =
          (if ?o < ?s then drop ?s (order_prios q) else remove_nth (?o - ?s) (drop ?s (order_prios q)))"
        using drop_remove_nth[of ?o "order_prios q" ?s] o lop by simp
      then have desc: "upcoming_sorted q a \<longrightarrow>
          descending (drop ?st (map (\<lambda>p. item_priority (q_items ?q1 ! p)) (remove_nth ?o (orders ?q1))))"
        using descending_remove_nth by (auto simp: upcoming_sorted_def)
      note rq = requeue_correct[OF c1(1) r1 ol s ne, unfolded at_o, folded q']
      have "order_of q' (position_of q a) + 1 = int ?st"
      proof (cases "a \<ge> 0")
        case True
        then have st: "0 < ?st" using ne by auto
        have lo: "length (orders q) = ?n" using inv by simp
        have "?st \<le> ?n - 1" using ne a o True by (auto split: if_splits)
        then have "orders q' ! (?st - 1) = ?rm ! (?st - 1)"
          using rq(10) st by (metis One_nat_def Suc_pred lessI nth_take set_item_priority_fields(7))
        also have "\<dots> = orders q ! nat a"
          using ne True lo o a st by (subst nth_remove_nth) (auto simp: nat_add_distrib split: if_splits)
        finally have e: "orders q' ! (?st - 1) = orders q ! nat a" .
        have i: "?st - 1 < q_length q'" "nat a < q_length q"
          using \<open>?st \<le> ?n - 1\<close> st a rq(4) True o(1) by (simp_all only: set_item_priority_fields) linarith+
        from e have "q_order q' ! (?st - 1) = q_order q ! nat a"
          unfolding nth_orders[OF i(1)] nth_orders[OF i(2)] .
        then have "PositionToOrder q' (q_order q ! nat a) = ?st - 1"
          using PositionToOrder_order[OF rq(1) i(1)] by (simp only:)
        then show ?thesis using True st by (simp add: order_of_def position_of_def OrderToPosition_def)
      next
        case False
        then show ?thesis using a by (simp add: order_of_def position_of_def)
      qed
      then have "upcoming_sorted q a \<longrightarrow> upcoming_sorted q' (order_of q' (position_of q a))"
        using rq(11) desc by (simp add: upcoming_sorted_def)
      then show ?thesis using rq c1 rnd by simp
    qed
    next
      case False
      then have "q' = ?q1" using eq changed by (simp add: SetPriority_unfold Let_def)
      then show ?thesis using False c1 by simp
    qed
  qed
  then show "queue_inv q'" "q_random q' = q_random q" "q_length q' = q_length q" "q_max_length q' = q_max_length q"
    "q_version q' = q_version q" "mset (play_ids q') = mset (play_ids q)"
    "keys q' = (keys q)[p := (fst (keys q ! p), fst (snd (keys q ! p)), pr)]"
    "q_random q \<and> upcoming_sorted q a \<longrightarrow> upcoming_sorted q' (order_of q' (position_of q a))" by blast+
qed

end
