(* ===== verification/Queue_Version.thy ===== *)
theory Queue_Version
  imports Queue_Priority
begin

text \<open>
  Version numbers of the play queue, by which clients ask for what has changed
  (\<open>IncrementVersion\<close>, \<open>IsNewerAtPosition\<close>): every editing operation stamps the entries it
  changes, so the entries a client is not told about are the ones it already knows.  The
  theory also holds the two remaining operations that loop over a range of positions.
\<close>

section \<open>Incrementing\<close>

definition clear_versions :: "nat \<Rightarrow> queue_item list \<Rightarrow> queue_item list" where
  "clear_versions n its = map (\<lambda>it. it\<lparr>item_version := 0\<rparr>) (take n its) @ drop n its"

lemma clear_versions_loop:
  "n \<le> length (q_items q) \<Longrightarrow>
   for_up 0 n (\<lambda>i q. q\<lparr>q_items := (q_items q)[i := (q_items q ! i)\<lparr>item_version := 0\<rparr>]\<rparr>) q =
   q\<lparr>q_items := clear_versions n (q_items q)\<rparr>"
proof (induction n)
  case (Suc n)
  then show ?case
    by (simp add: clear_versions_def list_update_append take_Suc_conv_app_nth
        Cons_nth_drop_Suc[symmetric] nth_append)
qed (simp add: clear_versions_def)

lemma IncrementVersion_eq:
  "queue_inv q \<Longrightarrow> IncrementVersion q =
    (if q_version q + 1 \<ge> max_version
     then q\<lparr>q_version := 1, q_items := clear_versions (q_length q) (q_items q)\<rparr>
     else q\<lparr>q_version := q_version q + 1\<rparr>)"
  using clear_versions_loop[of "q_length q" "q\<lparr>q_version := q_version q + 1\<rparr>"]
  by (simp add: IncrementVersion_def Let_def queue_inv_def)

lemma nth_clear_versions:
  "k < length its \<Longrightarrow> clear_versions n its ! k = (if k < n then (its ! k)\<lparr>item_version := 0\<rparr> else its ! k)"
  by (auto simp: clear_versions_def nth_append)

lemma length_clear_versions [simp]: "length (clear_versions n its) = length its"
  by (simp add: clear_versions_def)

lemma IncrementVersion_correct:
  assumes inv: "queue_inv q"
  shows "queue_inv (IncrementVersion q)" "keys (IncrementVersion q) = keys q"
    "play_ids (IncrementVersion q) = play_ids q" "orders (IncrementVersion q) = orders q"
    "q_length (IncrementVersion q) = q_length q" "q_random (IncrementVersion q) = q_random q"
    "q_max_length (IncrementVersion q) = q_max_length q"
    "order_prios (IncrementVersion q) = order_prios q"
proof -
  let ?q = "IncrementVersion q"
  have len: "q_length q \<le> length (q_items q)" using inv by (simp add: queue_inv_def)
  have fr: "orders ?q = orders q" "q_length ?q = q_length q" "q_random ?q = q_random q"
    "q_max_length ?q = q_max_length q" "q_ids ?q = q_ids q"
    "length (q_items ?q) = length (q_items q)" "length (q_order ?q) = length (q_order q)"
    by (simp_all add: IncrementVersion_eq[OF inv] orders_def)
  then show "orders ?q = orders q" "q_length ?q = q_length q" "q_random ?q = q_random q"
    "q_max_length ?q = q_max_length q" by simp_all
  have it: "item_key (q_items ?q ! k) = item_key (q_items q ! k)" if "k < q_length q" for k
    using that len by (simp add: IncrementVersion_eq[OF inv] nth_clear_versions)
  then have idn: "item_id (q_items ?q ! k) = item_id (q_items q ! k)"
    and prn: "item_priority (q_items ?q ! k) = item_priority (q_items q ! k)" if "k < q_length q" for k
    using that by (simp_all add: item_key_def)
  have "ids_match {..<q_length q} ?q"
    using inv idn by (auto simp: queue_inv_def ids_match_def fr)
  then show inv': "queue_inv ?q" using inv by (simp add: queue_inv_def fr)
  show "keys ?q = keys q"
    using inv inv' it fr by (intro nth_equalityI) (simp_all add: nth_keys)
  have ob: "p < q_length q" if "p \<in> set (orders q)" for p
    using inv that by (auto simp: queue_inv_def is_perm_def)
  show "play_ids ?q = play_ids q" using idn ob by (simp add: play_ids_def fr)
  show "order_prios ?q = order_prios q" using prn ob by (simp add: order_prios_def fr)
qed

section \<open>Stamped edits\<close>

definition stamped :: "queue \<Rightarrow> queue \<Rightarrow> bool" where
  "stamped q q' \<longleftrightarrow> q_version q' = q_version q \<and>
     (\<forall>k < q_length q'. k < q_length q \<and> q_items q' ! k = q_items q ! k \<or>
        item_version (q_items q' ! k) = q_version q)"

lemma stamped_refl [simp]: "stamped q q"
  by (simp add: stamped_def)

lemma stamped_trans: "stamped q q' \<Longrightarrow> stamped q' q'' \<Longrightarrow> stamped q q''"
  unfolding stamped_def by metis

lemma place_stamped:
  assumes "distinct (map fst ws)" "\<forall>p \<in> fst ` set ws. p < length (q_items q)"
  shows "q_items (place ws q) ! k = q_items q ! k \<or> item_version (q_items (place ws q) ! k) = q_version q"
  using nth_place[OF assms, of k] by (auto split: option.splits)

lemma place_bij_stamped:
  assumes "inj_on f P" "distinct ps" "set ps \<subseteq> P" "\<forall>p \<in> P. f p < length (q_items q)"
  shows "q_items (place (map (\<lambda>p. (f p, its ! p)) ps) q) ! k = q_items q ! k \<or>
    item_version (q_items (place (map (\<lambda>p. (f p, its ! p)) ps) q) ! k) = q_version q"
  using assms by (intro place_stamped) (auto simp: distinct_map comp_def intro: inj_on_subset)

lemma MoveRange_stamped:
  assumes inv: "queue_inv q" and r: "start + l \<le> q_length q" "to + l \<le> q_length q"
  shows "stamped q (MoveRange q start (start + l) to)"
proof -
  let ?f = "MoveRange_order start (start + l) to"
  have b: "inj_on ?f {..<q_length q}" "?f ` {..<q_length q} = {..<q_length q}"
    using MoveRange_order_bij[OF r] by (simp_all add: bij_betw_def)
  have "\<forall>p \<in> {..<q_length q}. ?f p < length (q_items q)"
    using b(2) inv unfolding queue_inv_def by (metis imageI lessThan_iff order_less_le_trans)
  from place_bij_stamped[OF b(1) MoveRange_moves_ok(1,2)[OF r] this, of "q_items q"]
  show ?thesis by (simp add: stamped_def MoveRange_moved[OF inv]) (simp add: moved_def Let_def)
qed

lemma SwapPositions_stamped:
  assumes inv: "queue_inv q" and r: "a < q_length q" "b < q_length q"
  shows "stamped q (SwapPositions q a b)"
proof -
  have l: "a < length (q_items q)" "b < length (q_items q)" "q_length q \<le> length (q_items q)"
    using inv r by (auto simp: queue_inv_def)
  show ?thesis
    using l by (auto simp: stamped_def SwapPositions_def Let_def nth_list_update nth_array_swap)
qed

lemma DeletePosition_stamped:
  assumes inv: "queue_inv q" and pos: "pos < q_length q"
  shows "stamped q (DeletePosition q pos)"
proof -
  have len: "length (q_items q) \<ge> q_length q" using inv by (simp add: queue_inv_def)
  have b: "inj_on (close_gap pos) ({..<q_length q} - {pos})" using close_gap_bij[OF pos] by simp
  have "\<forall>p \<in> {..<q_length q} - {pos}. close_gap pos p < length (q_items (erased pos q))"
    using len by (auto simp: close_gap_def erased_def)
  from place_bij_stamped[OF b _ _ this, of "[Suc pos..<q_length q]" "q_items q"]
  show ?thesis
    by (auto simp: stamped_def DeletePosition_eq[OF inv pos] erased_def subset_eq)
qed

lemma Append_stamped:
  assumes "queue_inv q" "\<not> IsFull q" "Append q s pr = Some (i, q')"
  shows "stamped q q'"
proof -
  have "q_length q < length (q_items q)" using assms(1,2) by (simp add: IsFull_def queue_inv_def)
  then show ?thesis using assms(3)
    by (auto simp: Append_def Let_def stamped_def nth_list_update less_Suc_eq split: option.splits)
qed

lemma set_item_priority_stamped:
  "queue_inv q \<Longrightarrow> p < q_length q \<Longrightarrow> stamped q (set_item_priority q p pr)"
  by (auto simp: stamped_def set_item_priority_def nth_list_update queue_inv_def)

lemma reordered_stamped: "reordered s f q q' \<Longrightarrow> stamped q q'"
  by (simp add: stamped_def reordered_fields)

lemma ModifyAtOrder_stamped:
  "queue_inv q \<Longrightarrow> o' < q_length q \<Longrightarrow> stamped q (ModifyAtOrder q o')"
  using order_bound[of q o']
  by (auto simp: stamped_def ModifyAtOrder_def ModifyAtPosition_def nth_list_update queue_inv_def)

text \<open>
  A history of edits since a client has last asked, none of which makes the counter start
  again.
\<close>

inductive edits :: "queue \<Rightarrow> queue \<Rightarrow> bool" where
  edits_none: "edits q q"
| edits_step: "edits q q1 \<Longrightarrow> stamped q1 q2 \<Longrightarrow> queue_inv q2 \<Longrightarrow>
    uint (q_version q1) + 1 < uint max_version \<Longrightarrow> edits q (IncrementVersion q2)"

lemma version_Suc:
  assumes "uint v + 1 < uint max_version"
  shows "uint (v + 1) = uint v + 1" "\<not> max_version \<le> v + 1"
proof -
  have m: "uint max_version = 2147483647" by (simp add: max_version_def)
  show e: "uint (v + 1) = uint v + 1"
    using assms uint_ge_0[of v] by (simp add: uint_word_ariths m)
  show "\<not> max_version \<le> v + 1" using assms e by (simp add: word_le_def)
qed

lemma edits_known:
  assumes "edits q q'"
  shows "uint (q_version q) \<le> uint (q_version q') \<and>
    (\<forall>p < q_length q'. p < q_length q \<and> q_items q' ! p = q_items q ! p \<or>
       q_version q \<le> item_version (q_items q' ! p))"
  using assms
proof (induction rule: edits.induct)
  case (edits_none q)
  then show ?case by simp
next
  case (edits_step q q1 q2)
  have v2: "q_version q2 = q_version q1" using edits_step.hyps(2) by (simp add: stamped_def)
  have inc: "IncrementVersion q2 = q2\<lparr>q_version := q_version q2 + 1\<rparr>"
    using version_Suc(2)[OF edits_step.hyps(4)] IncrementVersion_eq[OF edits_step.hyps(3)] by (simp add: v2)
  have le: "q_version q \<le> q_version q1" using edits_step.IH by (simp add: word_le_def)
  have "p < q_length q \<and> q_items q2 ! p = q_items q ! p \<or> q_version q \<le> item_version (q_items q2 ! p)"
    if p: "p < q_length q2" for p
  proof (cases "p < q_length q1 \<and> q_items q2 ! p = q_items q1 ! p")
    case True
    then show ?thesis using edits_step.IH by auto
  next
    case False
    then have "item_version (q_items q2 ! p) = q_version q1"
      using edits_step.hyps(2) p by (auto simp: stamped_def)
    then show ?thesis using le by simp
  qed
  moreover have "uint (q_version q) \<le> uint (q_version q2 + 1)"
    using edits_step.IH version_Suc(1)[OF edits_step.hyps(4)] by (simp add: v2)
  ultimately show ?case by (simp add: inc)
qed

lemma changes_complete:
  assumes "edits q q'" "p < q_length q'" "\<not> IsNewerAtPosition q' p (q_version q)"
  shows "p < q_length q \<and> q_items q' ! p = q_items q ! p"
  using edits_known[OF assms(1)] assms(2,3) by (auto simp: IsNewerAtPosition_def)

lemma wrapped_all_newer:
  assumes "queue_inv q" "max_version \<le> q_version q + 1" "p < q_length q"
  shows "IsNewerAtPosition (IncrementVersion q) p v"
  using assms
  by (simp add: IncrementVersion_eq IsNewerAtPosition_def nth_clear_versions queue_inv_def)

section \<open>Loops over a range of positions\<close>

lemma uniform_draw_rand:
  "queue_inv (q\<lparr>q_rand := rs\<rparr>) = queue_inv q" "keys (q\<lparr>q_rand := rs\<rparr>) = keys q"
  "orders (q\<lparr>q_rand := rs\<rparr>) = orders q" "play_ids (q\<lparr>q_rand := rs\<rparr>) = play_ids q"
  "stamped q (q\<lparr>q_rand := rs\<rparr>)"
  by (simp_all add: queue_inv_def orders_def ids_match_def keys_def play_ids_def stamped_def)

lemma ShuffleRange_correct:
  fixes start :: nat
  assumes inv: "queue_inv q" and r: "fin \<le> q_length q"
  defines "q' \<equiv> ShuffleRange q start fin"
  shows "queue_inv q'" "same_outside start fin (keys q) (keys q')" "orders q' = orders q"
    "q_length q' = q_length q" "q_random q' = q_random q" "stamped q q'"
    "q_max_length q' = q_max_length q"
proof -
  let ?f = "\<lambda>i q. let (ri, rs) = uniform_draw (q_rand q) start (fin - 1)
              in SwapPositions (q\<lparr>q_rand := rs\<rparr>) i ri"
  let ?I = "\<lambda>p. queue_inv p \<and> same_outside start fin (keys q) (keys p) \<and> orders p = orders q \<and>
    q_length p = q_length q \<and> q_random p = q_random q \<and> stamped q p \<and> q_max_length p = q_max_length q"
  have "?I (fold ?f [start..<fin] q)"
  proof (rule fold_invariant[where P = ?I])
    fix i p assume i: "i \<in> set [start..<fin]" and I: "?I p"
    obtain ri rs where d: "uniform_draw (q_rand p) start (fin - 1) = (ri, rs)" by fastforce
    have ne: "start < fin" using i by auto
    then have "start \<le> ri \<and> ri \<le> fin - 1" by (intro uniform_draw_range[OF d]) linarith
    then have ri: "start \<le> ri" "ri < fin" using ne by linarith+
    have inv': "queue_inv (p\<lparr>q_rand := rs\<rparr>)" using I by (simp add: uniform_draw_rand)
    have b: "i < q_length (p\<lparr>q_rand := rs\<rparr>)" "ri < q_length (p\<lparr>q_rand := rs\<rparr>)" using i ri r I by auto
    note c = SwapPositions_correct[OF inv' b]
    note d' = d[unfolded One_nat_def]
    have "same_outside start fin (keys p) (array_swap (keys p) i ri)"
      using i ri r I by (intro same_outside_swap) auto
    then show "?I (?f i p)"
      using I c stamped_trans[OF stamped_trans[OF _ uniform_draw_rand(5)] SwapPositions_stamped[OF inv' b], of q]
      by (auto simp: d' uniform_draw_rand intro: same_outside_trans)
  qed (use inv in simp)
  then show "queue_inv q'" "same_outside start fin (keys q) (keys q')" "orders q' = orders q"
    "q_length q' = q_length q" "q_random q' = q_random q" "stamped q q'"
    "q_max_length q' = q_max_length q"
    by (simp_all add: q'_def ShuffleRange_def)
qed

lemma SetPriority_stamped:
  assumes inv: "queue_inv q" and p: "p < q_length q"
    and a: "-1 \<le> a" "a < int (q_length q)" and eq: "SetPriority q p pr a = (m, q')"
  shows "stamped q q'" 
proof -
  let ?q1 = "set_item_priority q p pr"
  have "q' = q \<or> q' = ?q1 \<or> (\<exists>s o' pr. q' = requeue ?q1 s o' pr)"
    using eq unfolding SetPriority_unfold Let_def by (simp split: if_splits) blast
  then show ?thesis
  proof (elim disjE exE conjE)
    fix s o' pr' assume r: "q' = requeue ?q1 s o' pr'"
    have "q_items q' = q_items ?q1 \<and> q_length q' = q_length ?q1 \<and> q_version q' = q_version ?q1"
      by (simp add: r requeue_def Let_def ShuffleOrderFirst_def SwapOrders_def split: prod.split)
    then have "stamped ?q1 q'" by (simp add: stamped_def)
    then show ?thesis using stamped_trans[OF set_item_priority_stamped[OF inv p]] by blast
  qed (use set_item_priority_stamped[OF inv p] in auto)
qed

lemma SetPriorityRange_correct:
  assumes inv: "queue_inv q" and r: "fin \<le> q_length q"
    and a: "-1 \<le> a" "a < int (q_length q)"
    and eq: "SetPriorityRange q start fin pr a = (m, q')"
  shows "queue_inv q'" "q_random q' = q_random q" "q_length q' = q_length q" "mset (play_ids q') = mset (play_ids q)"
    "q_random q \<and> upcoming_sorted q a \<longrightarrow> upcoming_sorted q' (order_of q' (position_of q a))" "stamped q q'"
    "map fst (keys q') = map fst (keys q)" "\<forall>p. start \<le> p \<and> p < fin \<longrightarrow> snd (snd (keys q' ! p)) = pr"
    "map (\<lambda>k. fst (snd k)) (keys q') = map (\<lambda>k. fst (snd k)) (keys q)" "q_max_length q' = q_max_length q"
proof -
  let ?cp = "position_of q a"
  let ?f = "\<lambda>i (modified, q).
      let after_order = (if ?cp \<ge> 0 then int (PositionToOrder q (nat ?cp)) else -1);
          (m, q) = SetPriority q i pr after_order in (modified \<or> m, q)"
  have cp: "?cp = -1 \<or> 0 \<le> ?cp \<and> ?cp < int (q_length q)"
    using order_bound[OF inv, of "nat a"] a by (auto simp: position_of_def OrderToPosition_def)
  let ?I = "\<lambda>k s. queue_inv (snd s) \<and> q_random (snd s) = q_random q \<and> q_length (snd s) = q_length q \<and>
    mset (play_ids (snd s)) = mset (play_ids q) \<and>
    (q_random q \<and> upcoming_sorted q a \<longrightarrow> upcoming_sorted (snd s) (order_of (snd s) ?cp)) \<and>
    stamped q (snd s) \<and> map fst (keys (snd s)) = map fst (keys q) \<and>
    (\<forall>p. start \<le> p \<and> p < k \<longrightarrow> snd (snd (keys (snd s) ! p)) = pr) \<and>
    map (\<lambda>k. fst (snd k)) (keys (snd s)) = map (\<lambda>k. fst (snd k)) (keys q) \<and> q_max_length (snd s) = q_max_length q"
  have loop: "k \<le> fin \<Longrightarrow> start \<le> k \<Longrightarrow> ?I k (fold ?f [start..<k] (False, q))" for k
  proof (induction k)
    case 0
    then show ?case using inv order_of_position_of[OF inv a] by simp
  next
    case (Suc k)
    show ?case
    proof (cases "start = Suc k")
      case True
      then show ?thesis using inv order_of_position_of[OF inv a] by auto
    next
      case False
      obtain md p where s: "fold ?f [start..<k] (False, q) = (md, p)" by fastforce
      have I: "?I k (md, p)" using Suc False s by simp
      let ?a = "order_of p ?cp"
      obtain m' p' where sp: "SetPriority p k pr ?a = (m', p')" by fastforce
      have step: "fold ?f [start..<Suc k] (False, q) = (md \<or> m', p')"
        using False Suc.prems s sp by (simp add: order_of_def)
      have ip: "queue_inv p" "k < q_length p" using I Suc.prems r by simp_all
      have cpp: "?cp = -1 \<or> 0 \<le> ?cp \<and> nat ?cp < q_length p" using cp I by auto
      have ra: "-1 \<le> ?a" "?a < int (q_length p)"
        using cpp order_of_position[OF ip(1), of "nat ?cp"] by (auto simp: order_of_def)
      have pa: "position_of p ?a = ?cp"
        using cpp order_of_position[OF ip(1), of "nat ?cp"]
        by (auto simp: order_of_def position_of_def OrderToPosition_def)
      have up': "q_random q \<and> upcoming_sorted q a \<longrightarrow> upcoming_sorted p ?a" using I by simp
      note c = SetPriority_correct[OF ip ra sp, unfolded pa]
      have lk: "length (keys p) = q_length q" using ip I by simp
      have kk: "k < length (keys p)" using lk ip I by simp
      have "map fst (keys p') = (map fst (keys p))[k := fst (keys p ! k)]"
        "map (\<lambda>k. fst (snd k)) (keys p') = (map (\<lambda>k. fst (snd k)) (keys p))[k := fst (snd (keys p ! k))]"
        by (simp_all add: c(7) map_update)
      then have keys: "map fst (keys p') = map fst (keys p)"
        "map (\<lambda>k. fst (snd k)) (keys p') = map (\<lambda>k. fst (snd k)) (keys p)"
        using kk by (simp_all add: list_update_same_conv)
      have old: "\<forall>j. start \<le> j \<and> j < k \<longrightarrow> snd (snd (keys p ! j)) = pr" using I by simp
      have "k < length (keys p)" using lk ip I by simp
      then have "\<forall>j. start \<le> j \<and> j < Suc k \<longrightarrow> snd (snd (keys p' ! j)) = pr"
        using old unfolding c(7) less_Suc_eq by (metis nth_list_update snd_conv)
      moreover have "stamped q p'"
        using stamped_trans[OF _ SetPriority_stamped[OF ip ra sp], of q] I by simp
      moreover have "queue_inv p'" "q_random p' = q_random q" "q_length p' = q_length q"
        "mset (play_ids p') = mset (play_ids q)" "q_max_length p' = q_max_length q"
        using I c(1-6) by simp_all
      ultimately show ?thesis
        unfolding step snd_conv using I c(2,8) up' keys by simp
    qed
  qed
  have res: "fold ?f [start..<fin] (False, q) = (m, q')"
    using eq unfolding SetPriorityRange_def position_of_def Let_def .
  have "?I fin (m, q')"
  proof (cases "start \<le> fin")
    case True
    then show ?thesis using loop[of fin] res by simp
  next
    case False
    then have "q' = q" using res by simp
    then show ?thesis using False inv order_of_position_of[OF inv a] by auto
  qed
  then show "queue_inv q'" "q_random q' = q_random q" "q_length q' = q_length q" "mset (play_ids q') = mset (play_ids q)"
    "q_random q \<and> upcoming_sorted q a \<longrightarrow> upcoming_sorted q' (order_of q' (position_of q a))" "stamped q q'"
    "map fst (keys q') = map fst (keys q)" "\<forall>p. start \<le> p \<and> p < fin \<longrightarrow> snd (snd (keys q' ! p)) = pr"
    "map (\<lambda>k. fst (snd k)) (keys q') = map (\<lambda>k. fst (snd k)) (keys q)" "q_max_length q' = q_max_length q"
    by simp_all
qed

end
