(* ===== verification/Queue_Properties.thy ===== *)
theory Queue_Properties
  imports Queue_Version
begin

text \<open>
  The properties of the play queue, with a small queue on which they are tried.
\<close>

section \<open>A queue of three songs\<close>

definition append_new :: "string \<Rightarrow> queue \<Rightarrow> queue" where
  "append_new uri q = (case Append q (NewRemote uri) 0 of None \<Rightarrow> q | Some (_, q') \<Rightarrow> q')"

definition demo :: "bool \<Rightarrow> queue" where
  "demo rnd = append_new ''c'' (append_new ''b'' (append_new ''a'' ((new_Queue 4 [2, 0, 1])\<lparr>q_random := rnd\<rparr>)))"

lemma append_new_inv:
  assumes "queue_inv q" "\<not> IsFull q"
  shows "queue_inv (append_new u q)" "q_length (append_new u q) = Suc (q_length q)"
    "q_max_length (append_new u q) = q_max_length q" "q_random (append_new u q) = q_random q"
    "q_version (append_new u q) = q_version q"
  using assms by (auto elim!: Append_correct[of q "NewRemote u" 0] simp: append_new_def)

lemma new_Queue_random_inv: "0 < m \<Longrightarrow> queue_inv ((new_Queue m rs)\<lparr>q_random := r\<rparr>)"
  using new_Queue_correct(1)[of m rs] by (auto simp: queue_inv_def new_Queue_def orders_def ids_match_def)

lemma demo_inv: "queue_inv (demo r)" "q_length (demo r) = 3" "q_random (demo r) = r" "\<not> IsFull (demo r)"
proof -
  let ?n = "(new_Queue 4 [2, 0, 1])\<lparr>q_random := r\<rparr>"
  have n: "queue_inv ?n" "q_length ?n = 0" "q_max_length ?n = 4" "q_random ?n = r"
    using new_Queue_random_inv[where m = 4 and rs = "[2, 0, 1]" and r = r] by (simp_all add: new_Queue_def)
  let ?a = "append_new ''a'' ?n"
  have a: "queue_inv ?a" "q_length ?a = 1" "q_max_length ?a = 4" "q_random ?a = r"
    using append_new_inv[of ?n "''a''"] n by (simp_all add: IsFull_def)
  let ?b = "append_new ''b'' ?a"
  have b: "queue_inv ?b" "q_length ?b = 2" "q_max_length ?b = 4" "q_random ?b = r"
    using append_new_inv[of ?a "''b''"] a by (simp_all add: IsFull_def)
  show "queue_inv (demo r)" "q_length (demo r) = 3" "q_random (demo r) = r" "\<not> IsFull (demo r)"
    using append_new_inv[of ?b "''c''"] b by (simp_all add: IsFull_def demo_def)
qed

text \<open>The same queue, computed.\<close>

definition demo_item :: "string \<Rightarrow> nat \<Rightarrow> queue_item" where
  "demo_item u i = \<lparr>item_song = NewRemote u, item_id = i, item_version = 1, item_priority = 0\<rparr>"

lemma demo_eq: "demo r = \<lparr>q_max_length = 4, q_length = 3, q_version = 1,
   q_items = [demo_item ''a'' 1, demo_item ''b'' 2, demo_item ''c'' 3, fresh_item], q_order = [0, 1, 2, 0],
   q_ids = \<lparr>it_size = 16, it_next = 4, it_data = [-1, 0, 1, 2, -1, -1, -1, -1, -1, -1, -1, -1, -1, -1, -1, -1]\<rparr>,
   q_repeat = False, q_single = False, q_consume = False, q_random = r, q_rand = [2, 0, 1]\<rparr>"
  by (simp add: demo_def append_new_def Append_def IdTable_Insert_def new_Queue_def new_IdTable_def HASH_MULT_def
      GenerateId.simps Let_def numeral_eq_Suc DupDetached_def song_ctor_defs IsInDatabase_def demo_item_def)

section \<open>Ids and places\<close>

text \<open>C40: an id is generated after finitely many probes whenever an id is free, and it is a free one.\<close>

theorem GenerateId_total:
  assumes "id_ok t" "card (dom (id_lookup t)) < id_capacity t"
  shows "\<exists>i t'. GenerateId t = Some (i, t') \<and> i \<notin> dom (id_lookup t) \<and> 0 < i \<and> i < it_size t \<and>
    id_ok t' \<and> id_lookup t' = id_lookup t"
proof -
  obtain k where k: "it_free t k" by (rule free_id_exists[OF assms])
  have inv: "it_inv t" using assms(1) by (simp add: id_ok_def)
  obtain j t' where g: "GenerateId t = Some (j, t')" "it_free t j" "it_inv t'"
    "it_size t' = it_size t" "it_data t' = it_data t"
    by (rule GenerateId_returns[OF inv k])
  have "id_lookup t' = id_lookup t" using g by (simp add: fun_eq_iff id_lookup_def IdTable_IdToPosition_def)
  moreover have "id_ok t'" using g assms(1) by (simp add: id_ok_def)
  moreover have "j \<notin> dom (id_lookup t)" using g(2) by (simp add: domIff id_lookup_None_iff it_free_def)
  ultimately show ?thesis using g by (auto simp: it_free_def)
qed

theorem GenerateId_total_witness:
  "\<exists>i t'. GenerateId (new_IdTable 8) = Some (i, t') \<and> i \<notin> dom (id_lookup (new_IdTable 8)) \<and> 0 < i \<and>
    i < it_size (new_IdTable 8) \<and> id_ok t' \<and> id_lookup t' = id_lookup (new_IdTable 8)"
  by (rule GenerateId_total) (simp_all add: id_ok_new)

text \<open>
  Positions, unique ids and orders translate into each other without loss: an entry is found
  again by its id, and the order of a position is the inverse of the position of an order.
\<close>

theorem id_position_roundtrip:
  assumes "queue_inv q" "p < q_length q"
  shows "IdToPosition q (PositionToId q p) = int p \<and> OrderToPosition q (PositionToOrder q p) = p \<and>
    PositionToOrder q (OrderToPosition q p) = p"
proof -
  have "ids_match {..<q_length q} q" using assms(1) by (simp add: queue_inv_def)
  from ids_match_lookup[OF this] assms(2)
  have "id_lookup (q_ids q) (PositionToId q p) = Some p" by (simp add: PositionToId_def)
  then have "IdToPosition q (PositionToId q p) = int p"
    by (auto simp: IdToPosition_def id_lookup_def split: if_splits)
  then show ?thesis
    using order_of_position[OF assms] PositionToOrder_order[OF assms] by (simp add: OrderToPosition_def)
qed

theorem id_position_roundtrip_witness:
  "IdToPosition (demo True) (PositionToId (demo True) 2) = 2 \<and> OrderToPosition (demo True) (PositionToOrder (demo True) 2) = 2 \<and>
    PositionToOrder (demo True) (OrderToPosition (demo True) 2) = 2"
  using id_position_roundtrip[OF demo_inv(1), of 2 True] demo_inv(2) by simp

section \<open>Editing\<close>

text \<open>
  A song is appended at the end of both the positions and the playing order, under an
  id that no other entry has.
\<close>

theorem Append_fresh:
  assumes "queue_inv q" "\<not> IsFull q"
  shows "\<exists>i q'. Append q s pr = Some (i, q') \<and> queue_inv q' \<and> keys q' = keys q @ [(DupDetached s, i, pr)] \<and>
    play_ids q' = play_ids q @ [i] \<and> i \<notin> set (play_ids q)"
  by (rule Append_correct[OF assms, of s pr]) blast

theorem Append_fresh_witness:
  "\<exists>i q'. Append (demo True) (NewRemote ''d'') 7 = Some (i, q') \<and> queue_inv q' \<and>
    keys q' = keys (demo True) @ [(DupDetached (NewRemote ''d''), i, 7)] \<and>
    play_ids q' = play_ids (demo True) @ [i] \<and> i \<notin> set (play_ids (demo True))"
  by (rule Append_fresh) (rule demo_inv)+

text \<open>
  C37: the loops and index corrections of \<open>MoveRange\<close> cut a block out of the list of songs and
  insert it at its new place; in random mode the playing order of the songs does not change.
\<close>

theorem MoveRange_refines:
  assumes "queue_inv q" "start + l \<le> q_length q" "to + l \<le> q_length q"
  shows "queue_inv (MoveRange q start (start + l) to) \<and>
    keys (MoveRange q start (start + l) to) = move_block start (start + l) to (keys q) \<and>
    (q_random q \<longrightarrow> play_ids (MoveRange q start (start + l) to) = play_ids q)"
  using MoveRange_correct[OF assms] by blast

theorem MoveRange_refines_witness:
  "queue_inv (MoveRange (demo True) 0 (0 + 2) 1) \<and>
    keys (MoveRange (demo True) 0 (0 + 2) 1) = move_block 0 (0 + 2) 1 (keys (demo True)) \<and>
    play_ids (MoveRange (demo True) 0 (0 + 2) 1) = play_ids (demo True)"
  using MoveRange_refines[OF demo_inv(1), of 0 2 True 1] demo_inv(2,3) by simp

text \<open>
  Deleting a position removes just that entry, from the positions and from the playing order,
  and closes the gap in both.
\<close>

theorem DeletePosition_removes:
  assumes "queue_inv q" "p < q_length q"
  shows "queue_inv (DeletePosition q p) \<and> keys (DeletePosition q p) = remove_nth p (keys q) \<and>
    play_ids (DeletePosition q p) = remove_nth (PositionToOrder q p) (play_ids q)"
  using DeletePosition_correct[OF assms] by blast

theorem DeletePosition_removes_witness:
  "queue_inv (DeletePosition (demo True) 1) \<and> keys (DeletePosition (demo True) 1) = remove_nth 1 (keys (demo True)) \<and>
    play_ids (DeletePosition (demo True) 1) = remove_nth (PositionToOrder (demo True) 1) (play_ids (demo True))"
  by (rule DeletePosition_removes) (simp_all add: demo_inv)

section \<open>Random mode and priorities\<close>

text \<open>
  Shuffling the order keeps every song exactly once and puts songs of a higher priority
  before those of a lower one.
\<close>

theorem ShuffleOrder_permutes:
  assumes "queue_inv q" "q_random q"
  shows "queue_inv (ShuffleOrder q) \<and> mset (play_ids (ShuffleOrder q)) = mset (play_ids q) \<and>
    keys (ShuffleOrder q) = keys q \<and>
    descending (map (\<lambda>p. item_priority (q_items q ! p)) (orders (ShuffleOrder q)))"
  using ShuffleOrder_correct[OF assms] reordered_fields(10) by blast

theorem ShuffleOrder_permutes_witness:
  "queue_inv (ShuffleOrder (demo True)) \<and> mset (play_ids (ShuffleOrder (demo True))) = mset (play_ids (demo True)) \<and>
    keys (ShuffleOrder (demo True)) = keys (demo True) \<and>
    descending (map (\<lambda>p. item_priority (q_items (demo True) ! p)) (orders (ShuffleOrder (demo True))))"
  by (rule ShuffleOrder_permutes) (simp_all add: demo_inv)

text \<open>
  C39: \<open>SetPriorityRange\<close> gives the songs of the range the priority and changes nothing else; in
  random mode, when the songs after the current one are sorted by priority, they are afterwards.
\<close>

theorem SetPriorityRange_sorted:
  assumes "queue_inv q" "fin \<le> q_length q" "-1 \<le> a" "a < int (q_length q)" "SetPriorityRange q start fin pr a = (m, q')"
  shows "queue_inv q' \<and> mset (play_ids q') = mset (play_ids q) \<and> map fst (keys q') = map fst (keys q) \<and>
    (\<forall>p. start \<le> p \<and> p < fin \<longrightarrow> snd (snd (keys q' ! p)) = pr) \<and>
    (q_random q \<and> upcoming_sorted q a \<longrightarrow> upcoming_sorted q' (order_of q' (position_of q a)))"
  using SetPriorityRange_correct[OF assms] by blast

theorem SetPriorityRange_sorted_witness:
  "let q = demo True; q' = snd (SetPriorityRange q 1 3 5 0)
   in queue_inv q' \<and> mset (play_ids q') = mset (play_ids q) \<and> map fst (keys q') = map fst (keys q) \<and>
    snd (snd (keys q' ! 1)) = 5 \<and> snd (snd (keys q' ! 2)) = 5 \<and> upcoming_sorted q' (order_of q' (position_of q 0))"
proof -
  let ?q = "demo True"
  have s: "upcoming_sorted ?q 0"
    by (simp add: upcoming_sorted_def order_prios_def descending_def demo_eq demo_item_def orders_def numeral_2_eq_2 numeral_3_eq_3)
  have "SetPriorityRange ?q 1 3 5 0 = (fst (SetPriorityRange ?q 1 3 5 0), snd (SetPriorityRange ?q 1 3 5 0))" by simp
  from SetPriorityRange_sorted[OF demo_inv(1) _ _ _ this] s demo_inv(2,3)[of True] show ?thesis
    by (simp add: Let_def)
qed

section \<open>Versions\<close>







text \<open>
  When the version number wraps around, every position counts as changed for every client,
  whatever version it knows.
\<close>

theorem version_wraps:
  assumes "queue_inv q" "max_version \<le> q_version q + 1" "p < q_length q"
  shows "IsNewerAtPosition (IncrementVersion q) p v"
  using assms by (rule wrapped_all_newer)

theorem version_wraps_witness:
  "IsNewerAtPosition (IncrementVersion ((demo True)\<lparr>q_version := max_version\<rparr>)) 2 77"
proof (rule version_wraps)
  show "queue_inv ((demo True)\<lparr>q_version := max_version\<rparr>)"
    using demo_inv(1)[of True] by (simp add: queue_inv_def orders_def ids_match_def)
qed (simp_all add: demo_inv max_version_def)

section \<open>Songs\<close>

text \<open>
  Two detached copies are the same song just when their full URIs agree and both come from
  the database or both do not, wherever in the tree they came from.
\<close>

theorem SongEquals_by_uri:
  "SongEquals (DupDetached a) (DupDetached b) \<longleftrightarrow> IsInDatabase a = IsInDatabase b \<and> GetURI a = GetURI b"
  by (rule SongEquals_copies)

end
