(* ===== verification/Audio_Format.thy ===== *)
theory Audio_Format
  imports MPD_Prelude
begin

text \<open>
  Audio formats (src/src/AudioFormat.hxx, src/src/AudioFormat.cxx): sample formats, the
  validity checks, masks and sizes.
\<close>

datatype SampleFormat =
  SF_UNDEFINED | SF_S8 | SF_S16 | SF_S24_P32 | SF_S32 | SF_FLOAT | SF_DSD | SF_DSD_U8 |
  SF_DSD_U32_BE | SF_DSD_U32_LE

record AudioFormat =
  af_sample_rate :: "32 word"
  af_format :: SampleFormat
  af_channels :: "8 word"

definition MAX_CHANNELS :: "8 word" where
  "MAX_CHANNELS = 8"

definition AudioFormat_Undefined :: AudioFormat where
  "AudioFormat_Undefined = \<lparr>af_sample_rate = 0, af_format = SF_UNDEFINED, af_channels = 0\<rparr>"

definition AudioFormat_Clear :: "AudioFormat \<Rightarrow> AudioFormat" where
  "AudioFormat_Clear a = a\<lparr>af_sample_rate := 0, af_format := SF_UNDEFINED, af_channels := 0\<rparr>"

definition IsDefined :: "AudioFormat \<Rightarrow> bool" where
  "IsDefined a \<longleftrightarrow> af_sample_rate a \<noteq> 0"

definition IsFullyDefined :: "AudioFormat \<Rightarrow> bool" where
  "IsFullyDefined a \<longleftrightarrow> af_sample_rate a \<noteq> 0 \<and> af_format a \<noteq> SF_UNDEFINED \<and> af_channels a \<noteq> 0"

definition IsMaskDefined :: "AudioFormat \<Rightarrow> bool" where
  "IsMaskDefined a \<longleftrightarrow> af_sample_rate a \<noteq> 0 \<or> af_format a \<noteq> SF_UNDEFINED \<or> af_channels a \<noteq> 0"

definition audio_valid_sample_rate :: "32 word \<Rightarrow> bool" where
  "audio_valid_sample_rate r \<longleftrightarrow> r > 0 \<and> r < push_bit 30 1"

fun audio_valid_sample_format :: "SampleFormat \<Rightarrow> bool" where
  "audio_valid_sample_format SF_UNDEFINED = False"
| "audio_valid_sample_format _ = True"

definition audio_valid_channel_count :: "32 word \<Rightarrow> bool" where
  "audio_valid_channel_count c \<longleftrightarrow> c \<ge> 1 \<and> c \<le> ucast MAX_CHANNELS"

definition IsValid :: "AudioFormat \<Rightarrow> bool" where
  "IsValid a \<longleftrightarrow> audio_valid_sample_rate (af_sample_rate a) \<and>
     audio_valid_sample_format (af_format a) \<and> audio_valid_channel_count (ucast (af_channels a))"

definition IsMaskValid :: "AudioFormat \<Rightarrow> bool" where
  "IsMaskValid a \<longleftrightarrow> (af_sample_rate a = 0 \<or> audio_valid_sample_rate (af_sample_rate a)) \<and>
     (af_format a = SF_UNDEFINED \<or> audio_valid_sample_format (af_format a)) \<and>
     (af_channels a = 0 \<or> audio_valid_channel_count (ucast (af_channels a)))"

text \<open>\<open>ApplyMask\<close> without its assertions, which \<open>ApplyMask_valid\<close> shows to hold.\<close>

definition ApplyMask :: "AudioFormat \<Rightarrow> AudioFormat \<Rightarrow> AudioFormat" where
  "ApplyMask a msk =
     (let a = (if af_sample_rate msk \<noteq> 0 then a\<lparr>af_sample_rate := af_sample_rate msk\<rparr> else a);
          a = (if af_format msk \<noteq> SF_UNDEFINED then a\<lparr>af_format := af_format msk\<rparr> else a)
      in if af_channels msk \<noteq> 0 then a\<lparr>af_channels := af_channels msk\<rparr> else a)"

fun sample_format_size :: "SampleFormat \<Rightarrow> 32 word" where
  "sample_format_size SF_S8 = 1"
| "sample_format_size SF_S16 = 2"
| "sample_format_size SF_S24_P32 = 4"
| "sample_format_size SF_S32 = 4"
| "sample_format_size SF_FLOAT = 4"
| "sample_format_size SF_DSD_U32_BE = 4"
| "sample_format_size SF_DSD_U32_LE = 4"
| "sample_format_size SF_DSD = 1"
| "sample_format_size SF_DSD_U8 = 1"
| "sample_format_size SF_UNDEFINED = 0"

definition GetSampleSize :: "AudioFormat \<Rightarrow> 32 word" where
  "GetSampleSize a = sample_format_size (af_format a)"

definition GetFrameSize :: "AudioFormat \<Rightarrow> 32 word" where
  "GetFrameSize a = GetSampleSize a * ucast (af_channels a)"

text \<open>The product is computed in 32 bits before it is converted to \<open>double\<close>.\<close>

definition GetTimeToSize :: "AudioFormat \<Rightarrow> 32 word" where
  "GetTimeToSize a = af_sample_rate a * GetFrameSize a"

fun sample_format_to_string :: "SampleFormat \<Rightarrow> string" where
  "sample_format_to_string SF_UNDEFINED = ''?''"
| "sample_format_to_string SF_S8 = ''8''"
| "sample_format_to_string SF_S16 = ''16''"
| "sample_format_to_string SF_S24_P32 = ''24''"
| "sample_format_to_string SF_S32 = ''32''"
| "sample_format_to_string SF_DSD_U32_BE = ''32''"
| "sample_format_to_string SF_DSD_U32_LE = ''32''"
| "sample_format_to_string SF_FLOAT = ''f''"
| "sample_format_to_string SF_DSD = ''dsd''"
| "sample_format_to_string SF_DSD_U8 = ''8''"

lemmas audio_format_defs = IsDefined_def IsFullyDefined_def IsMaskDefined_def IsValid_def IsMaskValid_def

lemma ApplyMask_valid:
  "IsValid a \<Longrightarrow> IsMaskValid msk \<Longrightarrow> IsValid (ApplyMask a msk)"
  by (auto simp: audio_format_defs ApplyMask_def Let_def)

lemma ApplyMask_idem: "ApplyMask (ApplyMask a msk) msk = ApplyMask a msk"
  by (simp add: ApplyMask_def Let_def)

lemma sample_format_size_range: "sample_format_size f \<le> 4"
  by (cases f) simp_all

lemma channels_range:
  assumes "audio_valid_channel_count c"
  shows "1 \<le> uint c \<and> uint c \<le> 8"
  using assms by (simp add: audio_valid_channel_count_def MAX_CHANNELS_def word_le_def unsigned_ucast_eq)

lemma uint_channels: "uint (ucast (c :: 8 word) :: 32 word) = uint c"
  by (simp add: uint_up_ucast is_up)

text \<open>A frame of a valid format has between 1 and 32 bytes, so the 32-bit product is exact.\<close>

lemma GetFrameSize_valid:
  assumes "IsValid a"
  shows "uint (GetFrameSize a) = uint (GetSampleSize a) * uint (af_channels a)"
    "1 \<le> uint (GetFrameSize a)" "uint (GetFrameSize a) \<le> 32"
proof -
  have c: "1 \<le> uint (af_channels a)" "uint (af_channels a) \<le> 8"
    using assms channels_range[of "ucast (af_channels a)"] by (auto simp: IsValid_def uint_channels)
  have s: "1 \<le> uint (GetSampleSize a)" "uint (GetSampleSize a) \<le> 4"
    using assms by (cases "af_format a"; simp add: IsValid_def GetSampleSize_def)+
  have le: "uint (GetSampleSize a) * uint (af_channels a) \<le> 4 * 8"
    using c s by (intro mult_mono) simp_all
  then show e: "uint (GetFrameSize a) = uint (GetSampleSize a) * uint (af_channels a)"
    using c s by (simp add: GetFrameSize_def uint_word_ariths uint_channels)
  show "1 \<le> uint (GetFrameSize a)" "uint (GetFrameSize a) \<le> 32"
    using le c s mult_mono[of 1 "uint (GetSampleSize a)" 1 "uint (af_channels a)"] by (simp_all add: e)
qed

end
