(* ===== verification/Player_Control.thy ===== *)
theory Player_Control
  imports Song_Model Audio_Format Complex_Main "HOL-Library.Monad_Syntax"
begin

text \<open>
  The interface between the main thread and the player thread (src/src/PlayerControl.hxx,
  src/src/PlayerControl.cxx), with the idle flags (src/src/Idle.cxx) by which both tell the
  clients what has changed.

  The operations are those of the main thread.  What the player thread does is a parameter,
  a \<open>player_env\<close>: \<open>thread_runs\<close> is what it has done when the main thread takes the lock, and
  \<open>thread_answers\<close> what it has done when a command is finished (None if it never is).  The
  thread's own variables are the record extension of \<open>player_control\<close>, so an answer depends
  on everything the thread knows, and on any schedule and any behaviour of decoders and
  outputs.  The locale \<open>player_thread\<close> states the contract of the thread.  A failing assertion
  is \<open>None\<close>.  A time is a real number; rounding of floating point values is not modelled.
\<close>

section \<open>Assertions\<close>

definition ensure :: "bool \<Rightarrow> unit option" where
  "ensure b = (if b then Some () else None)"

lemma ensure_simps [simp]: "ensure True = Some ()" "ensure b = Some x \<longleftrightarrow> b"
  by (simp_all add: ensure_def)

section \<open>Idle flags\<close>

definition IDLE_PLAYLIST :: "32 word" where "IDLE_PLAYLIST = 0x4"
definition IDLE_PLAYER :: "32 word" where "IDLE_PLAYER = 0x8"
definition IDLE_MIXER :: "32 word" where "IDLE_MIXER = 0x10"
definition IDLE_OPTIONS :: "32 word" where "IDLE_OPTIONS = 0x40"

record idle_state =
  idle_flags :: "32 word"
  idle_emitted :: bool

definition idle_add :: "32 word \<Rightarrow> idle_state \<Rightarrow> idle_state" where
  "idle_add flags s =
     (let old_flags = idle_flags s; s = s\<lparr>idle_flags := or old_flags flags\<rparr>
      in if and old_flags flags \<noteq> flags then s\<lparr>idle_emitted := True\<rparr> else s)"

definition idle_get :: "idle_state \<Rightarrow> 32 word \<times> idle_state" where
  "idle_get s = (idle_flags s, s\<lparr>idle_flags := 0\<rparr>)"

section \<open>The control structure\<close>

datatype PlayerState = PS_STOP | PS_PAUSE | PS_PLAY

datatype PlayerCommand =
  PC_NONE | PC_EXIT | PC_STOP | PC_PAUSE | PC_SEEK | PC_CLOSE_AUDIO | PC_UPDATE_AUDIO | PC_QUEUE |
  PC_CANCEL | PC_REFRESH

datatype PlayerError = PE_NONE | PE_DECODER | PE_OUTPUT

record cross_fade_settings =
  cf_duration :: real
  cf_mixramp_db :: real
  cf_mixramp_delay :: real

record player_control =
  pc_command :: PlayerCommand
  pc_state :: PlayerState
  pc_error_type :: PlayerError
  pc_error :: string
  pc_tagged_song :: "song option"
  pc_bit_rate :: "16 word"
  pc_audio_format :: AudioFormat
  pc_total_time :: real
  pc_elapsed_time :: real
  pc_next_song :: "song option"
  pc_seek_where :: real
  pc_cross_fade :: cross_fade_settings
  pc_total_play_time :: real
  pc_border_pause :: bool

record player_status =
  st_state :: PlayerState
  st_bit_rate :: "16 word"
  st_audio_format :: AudioFormat
  st_total_time :: real
  st_elapsed_time :: real

record 'e player_env =
  thread_runs :: "'e player_control_scheme \<Rightarrow> 'e player_control_scheme"
  thread_answers :: "'e player_control_scheme \<Rightarrow> 'e player_control_scheme option"

section \<open>Operations of the main thread\<close>

definition Lock :: "'e player_env \<Rightarrow> 'e player_control_scheme \<Rightarrow> 'e player_control_scheme" where
  "Lock env pc = thread_runs env pc"

definition SynchronousCommand ::
    "'e player_env \<Rightarrow> PlayerCommand \<Rightarrow> 'e player_control_scheme \<Rightarrow> 'e player_control_scheme option" where
  "SynchronousCommand env cmd pc =
     do { ensure (pc_command pc = PC_NONE); thread_answers env (pc\<lparr>pc_command := cmd\<rparr>) }"

definition LockSynchronousCommand ::
    "'e player_env \<Rightarrow> PlayerCommand \<Rightarrow> 'e player_control_scheme \<Rightarrow> 'e player_control_scheme option" where
  "LockSynchronousCommand env cmd pc = SynchronousCommand env cmd (Lock env pc)"

definition EnqueueSongLocked ::
    "'e player_env \<Rightarrow> song \<Rightarrow> 'e player_control_scheme \<Rightarrow> 'e player_control_scheme option" where
  "EnqueueSongLocked env s pc =
     do { ensure (pc_next_song pc = None);
          SynchronousCommand env PC_QUEUE (pc\<lparr>pc_next_song := Some s\<rparr>) }"

definition pc_Play ::
    "'e player_env \<Rightarrow> song \<Rightarrow> 'e player_control_scheme \<Rightarrow> 'e player_control_scheme option" where
  "pc_Play env s pc =
     do { let pc = Lock env pc;
          pc \<leftarrow> (if pc_state pc \<noteq> PS_STOP then SynchronousCommand env PC_STOP pc else Some pc);
          ensure (pc_next_song pc = None);
          pc \<leftarrow> EnqueueSongLocked env s pc;
          ensure (pc_next_song pc = None);
          Some pc }"

definition pc_Cancel :: "'e player_env \<Rightarrow> 'e player_control_scheme \<Rightarrow> 'e player_control_scheme option" where
  "pc_Cancel env pc =
     do { pc \<leftarrow> LockSynchronousCommand env PC_CANCEL pc; ensure (pc_next_song pc = None); Some pc }"

definition pc_Stop ::
    "'e player_env \<Rightarrow> 'e player_control_scheme \<times> idle_state \<Rightarrow> ('e player_control_scheme \<times> idle_state) option" where
  "pc_Stop env = (\<lambda>(pc, idle).
     do { pc \<leftarrow> LockSynchronousCommand env PC_CLOSE_AUDIO pc;
          ensure (pc_next_song pc = None);
          Some (pc, idle_add IDLE_PLAYER idle) })"

definition pc_UpdateAudio :: "'e player_env \<Rightarrow> 'e player_control_scheme \<Rightarrow> 'e player_control_scheme option" where
  "pc_UpdateAudio env pc = LockSynchronousCommand env PC_UPDATE_AUDIO pc"

definition pc_PauseLocked ::
    "'e player_env \<Rightarrow> 'e player_control_scheme \<times> idle_state \<Rightarrow> ('e player_control_scheme \<times> idle_state) option" where
  "pc_PauseLocked env = (\<lambda>(pc, idle).
     if pc_state pc \<noteq> PS_STOP
     then do { pc \<leftarrow> SynchronousCommand env PC_PAUSE pc; Some (pc, idle_add IDLE_PLAYER idle) }
     else Some (pc, idle))"

definition pc_Pause ::
    "'e player_env \<Rightarrow> 'e player_control_scheme \<times> idle_state \<Rightarrow> ('e player_control_scheme \<times> idle_state) option" where
  "pc_Pause env = (\<lambda>(pc, idle). pc_PauseLocked env (Lock env pc, idle))"

definition pc_SetPause ::
    "'e player_env \<Rightarrow> bool \<Rightarrow> 'e player_control_scheme \<times> idle_state \<Rightarrow> ('e player_control_scheme \<times> idle_state) option" where
  "pc_SetPause env pause_flag = (\<lambda>(pc, idle).
     let pc = Lock env pc
     in case pc_state pc of
          PS_STOP \<Rightarrow> Some (pc, idle)
        | PS_PLAY \<Rightarrow> (if pause_flag then pc_PauseLocked env (pc, idle) else Some (pc, idle))
        | PS_PAUSE \<Rightarrow> (if \<not> pause_flag then pc_PauseLocked env (pc, idle) else Some (pc, idle)))"

definition pc_SetBorderPause :: "'e player_env \<Rightarrow> bool \<Rightarrow> 'e player_control_scheme \<Rightarrow> 'e player_control_scheme" where
  "pc_SetBorderPause env b pc = (Lock env pc)\<lparr>pc_border_pause := b\<rparr>"

text \<open>The fields of the result that the code leaves unset when the player is stopped are zero here.\<close>

definition pc_GetStatus ::
    "'e player_env \<Rightarrow> 'e player_control_scheme \<Rightarrow> (player_status \<times> 'e player_control_scheme) option" where
  "pc_GetStatus env pc =
     do { pc \<leftarrow> SynchronousCommand env PC_REFRESH (Lock env pc);
          Some (if pc_state pc \<noteq> PS_STOP
                then \<lparr>st_state = pc_state pc, st_bit_rate = pc_bit_rate pc, st_audio_format = pc_audio_format pc,
                      st_total_time = pc_total_time pc, st_elapsed_time = pc_elapsed_time pc\<rparr>
                else \<lparr>st_state = pc_state pc, st_bit_rate = 0, st_audio_format = AudioFormat_Undefined,
                      st_total_time = 0, st_elapsed_time = 0\<rparr>, pc) }"

definition pc_SetError :: "PlayerError \<Rightarrow> string \<Rightarrow> 'e player_control_scheme \<Rightarrow> 'e player_control_scheme" where
  "pc_SetError type err pc = pc\<lparr>pc_error_type := type, pc_error := err\<rparr>"

definition pc_ClearError :: "'e player_env \<Rightarrow> 'e player_control_scheme \<Rightarrow> 'e player_control_scheme" where
  "pc_ClearError env pc =
     (let pc = Lock env pc
      in if pc_error_type pc \<noteq> PE_NONE then pc\<lparr>pc_error_type := PE_NONE, pc_error := []\<rparr> else pc)"

definition pc_GetError :: "'e player_control_scheme \<Rightarrow> string option" where
  "pc_GetError pc = (if pc_error_type pc \<noteq> PE_NONE then Some (pc_error pc) else None)"

definition pc_SetTaggedSong :: "song \<Rightarrow> 'e player_control_scheme \<Rightarrow> 'e player_control_scheme" where
  "pc_SetTaggedSong s pc = pc\<lparr>pc_tagged_song := Some (DupDetached s)\<rparr>"

definition pc_ClearTaggedSong :: "'e player_control_scheme \<Rightarrow> 'e player_control_scheme" where
  "pc_ClearTaggedSong pc = pc\<lparr>pc_tagged_song := None\<rparr>"

definition pc_LockReadTaggedSong ::
    "'e player_env \<Rightarrow> 'e player_control_scheme \<Rightarrow> song option \<times> 'e player_control_scheme" where
  "pc_LockReadTaggedSong env pc =
     (let pc = Lock env pc in (pc_tagged_song pc, pc\<lparr>pc_tagged_song := None\<rparr>))"

definition pc_EnqueueSong ::
    "'e player_env \<Rightarrow> song \<Rightarrow> 'e player_control_scheme \<Rightarrow> 'e player_control_scheme option" where
  "pc_EnqueueSong env s pc = EnqueueSongLocked env s (Lock env pc)"

definition pc_Seek ::
    "'e player_env \<Rightarrow> song \<Rightarrow> real \<Rightarrow> 'e player_control_scheme \<times> idle_state
     \<Rightarrow> (bool \<times> 'e player_control_scheme \<times> idle_state) option" where
  "pc_Seek env s seek_time = (\<lambda>(pc, idle).
     do { let pc = Lock env pc;
          pc \<leftarrow> SynchronousCommand env PC_SEEK (pc\<lparr>pc_next_song := Some s, pc_seek_where := seek_time\<rparr>);
          ensure (pc_next_song pc = None);
          Some (True, pc, idle_add IDLE_PLAYER idle) })"

definition pc_SetCrossFade ::
    "real \<Rightarrow> 'e player_control_scheme \<times> idle_state \<Rightarrow> 'e player_control_scheme \<times> idle_state" where
  "pc_SetCrossFade seconds = (\<lambda>(pc, idle).
     let seconds = (if seconds < 0 then 0 else seconds)
     in (pc\<lparr>pc_cross_fade := (pc_cross_fade pc)\<lparr>cf_duration := seconds\<rparr>\<rparr>, idle_add IDLE_OPTIONS idle))"

definition pc_SetMixRampDb ::
    "real \<Rightarrow> 'e player_control_scheme \<times> idle_state \<Rightarrow> 'e player_control_scheme \<times> idle_state" where
  "pc_SetMixRampDb db = (\<lambda>(pc, idle).
     (pc\<lparr>pc_cross_fade := (pc_cross_fade pc)\<lparr>cf_mixramp_db := db\<rparr>\<rparr>, idle_add IDLE_OPTIONS idle))"

definition pc_SetMixRampDelay ::
    "real \<Rightarrow> 'e player_control_scheme \<times> idle_state \<Rightarrow> 'e player_control_scheme \<times> idle_state" where
  "pc_SetMixRampDelay seconds = (\<lambda>(pc, idle).
     (pc\<lparr>pc_cross_fade := (pc_cross_fade pc)\<lparr>cf_mixramp_delay := seconds\<rparr>\<rparr>, idle_add IDLE_OPTIONS idle))"

section \<open>Conversion of numbers\<close>

text \<open>\<open>(int)f\<close> of a floating point number rounds towards zero.\<close>

definition trunc :: "real \<Rightarrow> int" where
  "trunc r = (if r \<ge> 0 then \<lfloor>r\<rfloor> else - \<lfloor>- r\<rfloor>)"

section \<open>The contract of the player thread\<close>

text \<open>
  SEEK is the one command whose answer is not promised: an assertion of the decoder control
  can fail while it is served, see \<open>Player_Thread\<close>.
  What the main thread can rely on when it is given the lock back: the border-pause flag is
  its own, a stopped player stays stopped, and the song it has queued is either still there
  or has been taken.
\<close>

definition quiet :: "'e player_control_scheme \<Rightarrow> 'e player_control_scheme \<Rightarrow> bool" where
  "quiet pc pc' \<longleftrightarrow> pc_border_pause pc' = pc_border_pause pc \<and>
     (pc_next_song pc' = pc_next_song pc \<or> pc_next_song pc' = None) \<and>
     (pc_state pc = PS_STOP \<longrightarrow> pc_state pc' = PS_STOP \<and> pc_error_type pc' = pc_error_type pc)"

lemma quiet_refl [simp]: "quiet pc pc"
  by (simp add: quiet_def)

lemma quiet_trans: "quiet pc pc1 \<Longrightarrow> quiet pc1 pc2 \<Longrightarrow> quiet pc pc2"
  by (auto simp: quiet_def)

definition plain_commands :: "PlayerCommand set" where
  "plain_commands = {PC_STOP, PC_PAUSE, PC_CLOSE_AUDIO, PC_UPDATE_AUDIO, PC_CANCEL, PC_REFRESH}"

locale player_thread =
  fixes env :: "'e player_env" and ok :: "'e player_control_scheme \<Rightarrow> bool"
  assumes ok_idle: "ok pc \<Longrightarrow> pc_command pc = PC_NONE"
    and ok_stopped: "ok pc \<Longrightarrow> pc_state pc = PS_STOP \<Longrightarrow> pc_next_song pc = None"
    and ok_border: "ok pc \<Longrightarrow> ok (pc\<lparr>pc_border_pause := b\<rparr>)"
    and ok_error: "ok pc \<Longrightarrow> ok (pc\<lparr>pc_error_type := PE_NONE, pc_error := []\<rparr>)"
    and ok_tagged: "ok pc \<Longrightarrow> ok (pc\<lparr>pc_tagged_song := None\<rparr>)"
    and runs: "ok pc \<Longrightarrow> ok (thread_runs env pc) \<and> quiet pc (thread_runs env pc)"
    and plain: "ok pc \<Longrightarrow> c \<in> plain_commands \<Longrightarrow>
      \<exists>pc'. thread_answers env (pc\<lparr>pc_command := c\<rparr>) = Some pc' \<and> ok pc' \<and> quiet pc pc' \<and>
        (c = PC_STOP \<or> c = PC_CLOSE_AUDIO \<longrightarrow> pc_state pc' = PS_STOP) \<and>
        (c = PC_CANCEL \<longrightarrow> pc_next_song pc' = None)"
    and queue: "ok pc \<Longrightarrow> pc_next_song pc = None \<Longrightarrow>
      \<exists>pc'. thread_answers env (pc\<lparr>pc_next_song := Some s, pc_command := PC_QUEUE\<rparr>) = Some pc' \<and> ok pc' \<and>
        (pc_next_song pc' = None \<or> pc_next_song pc' = Some s \<and> pc_state pc \<noteq> PS_STOP) \<and>
        pc_border_pause pc' = pc_border_pause pc"
    and seek: "ok pc \<Longrightarrow>
      thread_answers env (pc\<lparr>pc_next_song := Some s, pc_seek_where := t, pc_command := PC_SEEK\<rparr>) = Some pc' \<Longrightarrow>
        ok pc' \<and> pc_next_song pc' = None \<and> pc_border_pause pc' = pc_border_pause pc"
begin

lemma Lock_ok: "ok pc \<Longrightarrow> ok (Lock env pc)" "ok pc \<Longrightarrow> quiet pc (Lock env pc)"
  using runs by (simp_all add: Lock_def)

lemma command_ok:
  assumes "ok pc" "c \<in> plain_commands"
  obtains pc' where "SynchronousCommand env c pc = Some pc'" "ok pc'" "quiet pc pc'"
    "c = PC_STOP \<or> c = PC_CLOSE_AUDIO \<Longrightarrow> pc_state pc' = PS_STOP"
    "c = PC_CANCEL \<Longrightarrow> pc_next_song pc' = None"
  using plain[OF assms] ok_idle[OF assms(1)] by (auto simp: SynchronousCommand_def)

lemma lock_command_ok:
  assumes "ok pc" "c \<in> plain_commands"
  obtains pc' where "LockSynchronousCommand env c pc = Some pc'" "ok pc'" "quiet pc pc'"
    "c = PC_STOP \<or> c = PC_CLOSE_AUDIO \<Longrightarrow> pc_state pc' = PS_STOP"
    "c = PC_CANCEL \<Longrightarrow> pc_next_song pc' = None"
  using command_ok[OF Lock_ok(1)[OF assms(1)] assms(2)] Lock_ok(2)[OF assms(1)]
  unfolding LockSynchronousCommand_def by (metis quiet_trans)

lemma Cancel_ok:
  assumes "ok pc"
  shows "\<exists>pc'. pc_Cancel env pc = Some pc' \<and> ok pc' \<and> quiet pc pc' \<and> pc_next_song pc' = None"
  by (rule lock_command_ok[OF assms, of PC_CANCEL]) (auto simp: plain_commands_def pc_Cancel_def)

lemma Stop_ok:
  assumes "ok pc"
  shows "\<exists>pc'. pc_Stop env (pc, idle) = Some (pc', idle_add IDLE_PLAYER idle) \<and> ok pc' \<and>
    quiet pc pc' \<and> pc_state pc' = PS_STOP \<and> pc_next_song pc' = None"
  by (rule lock_command_ok[OF assms, of PC_CLOSE_AUDIO])
    (auto simp: plain_commands_def pc_Stop_def ok_stopped)

lemma EnqueueSongLocked_ok:
  assumes "ok pc" "pc_next_song pc = None"
  shows "\<exists>pc'. EnqueueSongLocked env s pc = Some pc' \<and> ok pc' \<and>
    (pc_next_song pc' = None \<or> pc_next_song pc' = Some s \<and> pc_state pc \<noteq> PS_STOP) \<and>
    pc_border_pause pc' = pc_border_pause pc"
  using queue[OF assms, of s] assms ok_idle[OF assms(1)]
  by (auto simp: EnqueueSongLocked_def SynchronousCommand_def)

lemma EnqueueSong_ok:
  assumes "ok pc" "pc_next_song pc = None"
  shows "\<exists>pc'. pc_EnqueueSong env s pc = Some pc' \<and> ok pc' \<and>
    (pc_next_song pc' = None \<or> pc_next_song pc' = Some s) \<and> pc_border_pause pc' = pc_border_pause pc"
proof -
  have "pc_next_song (Lock env pc) = None" using Lock_ok(2)[OF assms(1)] assms(2) by (auto simp: quiet_def)
  from EnqueueSongLocked_ok[OF Lock_ok(1)[OF assms(1)] this, of s] Lock_ok(2)[OF assms(1)]
  show ?thesis by (auto simp: pc_EnqueueSong_def quiet_def)
qed

lemma Play_ok:
  assumes "ok pc"
  shows "\<exists>pc'. pc_Play env s pc = Some pc' \<and> ok pc' \<and> pc_next_song pc' = None \<and>
    pc_border_pause pc' = pc_border_pause pc"
proof -
  let ?p = "Lock env pc"
  obtain p1 where p1: "(if pc_state ?p \<noteq> PS_STOP then SynchronousCommand env PC_STOP ?p else Some ?p) = Some p1"
    "ok p1" "pc_state p1 = PS_STOP" "pc_border_pause p1 = pc_border_pause pc"
  proof (cases "pc_state ?p = PS_STOP")
    case True
    then show thesis using Lock_ok[OF assms] by (intro that[of ?p]) (simp_all add: quiet_def)
  next
    case False
    show thesis
      by (rule command_ok[OF Lock_ok(1)[OF assms], of PC_STOP])
        (use False Lock_ok(2)[OF assms] that in \<open>auto simp: plain_commands_def quiet_def\<close>)
  qed
  have n: "pc_next_song p1 = None" using p1 ok_stopped by blast
  from EnqueueSongLocked_ok[OF p1(2) n, of s] p1 n show ?thesis
    by (auto simp: pc_Play_def)
qed

lemma PauseLocked_ok:
  assumes "ok pc"
  shows "\<exists>pc' idle'. pc_PauseLocked env (pc, idle) = Some (pc', idle') \<and> ok pc' \<and> quiet pc pc'"
proof (cases "pc_state pc = PS_STOP")
  case True
  then show ?thesis using assms by (simp add: pc_PauseLocked_def)
next
  case False
  show ?thesis
    by (rule command_ok[OF assms, of PC_PAUSE]) (use False in \<open>auto simp: plain_commands_def pc_PauseLocked_def\<close>)
qed

lemma SetPause_ok:
  assumes "ok pc"
  shows "\<exists>pc' idle'. pc_SetPause env b (pc, idle) = Some (pc', idle') \<and> ok pc' \<and> quiet pc pc'"
proof -
  note l = Lock_ok[OF assms]
  show ?thesis
    using PauseLocked_ok[OF l(1), of idle] l quiet_trans[OF l(2)]
    unfolding pc_SetPause_def Let_def prod.case by (cases "pc_state (Lock env pc)"; cases b; fastforce)
qed

lemma ClearError_ok:
  assumes "ok pc"
  shows "ok (pc_ClearError env pc)" "quiet (pc\<lparr>pc_error_type := PE_NONE\<rparr>) ((pc_ClearError env pc)\<lparr>pc_error_type := PE_NONE\<rparr>)"
    "pc_error_type (pc_ClearError env pc) = PE_NONE"
  using Lock_ok[OF assms] ok_error by (auto simp: pc_ClearError_def Let_def quiet_def)

lemma SetBorderPause_ok:
  assumes "ok pc"
  shows "ok (pc_SetBorderPause env b pc)" "quiet pc ((pc_SetBorderPause env b pc)\<lparr>pc_border_pause := pc_border_pause pc\<rparr>)"
  using Lock_ok[OF assms] ok_border by (auto simp: pc_SetBorderPause_def quiet_def)

lemma GetStatus_ok:
  assumes "ok pc"
  shows "\<exists>st pc'. pc_GetStatus env pc = Some (st, pc') \<and> ok pc' \<and> quiet pc pc' \<and> st_state st = pc_state pc'"
  by (rule command_ok[OF Lock_ok(1)[OF assms], of PC_REFRESH])
    (use quiet_trans[OF Lock_ok(2)[OF assms]] in \<open>auto simp: plain_commands_def pc_GetStatus_def\<close>)

lemma Seek_ok:
  assumes "ok pc" "pc_Seek env s t (pc, idle) = Some (b, pc', idle')"
  shows "b \<and> idle' = idle_add IDLE_PLAYER idle \<and> ok pc' \<and> pc_next_song pc' = None \<and>
    pc_border_pause pc' = pc_border_pause pc"
  using seek[OF Lock_ok(1)[OF assms(1)], where s = s and t = t] Lock_ok(2)[OF assms(1)] assms(2)
  by (auto simp: pc_Seek_def SynchronousCommand_def quiet_def bind_eq_Some_conv Let_def)

end

end
