(* ===== verification/Cross_Fade.thy ===== *)
theory Cross_Fade
  imports Player_Control
begin

text \<open>
  How many chunks two songs overlap (src/src/CrossFade.cxx), the MixRamp profiles it reads
  (src/src/MixRampInfo.hxx), and the duration of a song (src/src/Song.cxx,
  src/src/PlayerThread.cxx).  Floating point values are real numbers.  \<open>ParseFloat\<close>
  (src/src/util/NumberParser.hxx) is \<open>strtod\<close> in the C locale on decimal numbers; hexadecimal
  ones, \<open>inf\<close> and \<open>nan\<close> are not modelled.
\<close>

section \<open>Parsing numbers\<close>

definition is_space :: "char \<Rightarrow> bool" where
  "is_space c \<longleftrightarrow> of_char c = (32::nat) \<or> 9 \<le> (of_char c :: nat) \<and> of_char c \<le> (13::nat)"

definition is_digit :: "char \<Rightarrow> bool" where
  "is_digit c \<longleftrightarrow> 48 \<le> (of_char c :: nat) \<and> of_char c \<le> (57::nat)"

definition digits :: "string \<Rightarrow> nat \<times> nat \<times> string" where
  "digits s = (foldl (\<lambda>v c. 10 * v + (of_char c - 48)) 0 (takeWhile is_digit s),
     length (takeWhile is_digit s), dropWhile is_digit s)"

fun sign :: "string \<Rightarrow> bool \<times> string" where
  "sign [] = (False, [])"
| "sign (c # cs) = (if c = CHR ''-'' then (True, cs) else if c = CHR ''+'' then (False, cs) else (False, c # cs))"

fun exponent :: "string \<Rightarrow> int \<times> string" where
  "exponent [] = (0, [])"
| "exponent (c # cs) =
     (if c = CHR ''e'' \<or> c = CHR ''E''
      then let (neg, t) = sign cs; (v, n, rest) = digits t
           in if n = 0 then (0, c # cs) else (if neg then - int v else int v, rest)
      else (0, c # cs))"

definition scale10 :: "int \<Rightarrow> real" where
  "scale10 e = (if 0 \<le> e then 10 ^ nat e else 1 / 10 ^ nat (- e))"

definition ParseFloat :: "string \<Rightarrow> real \<times> string" where
  "ParseFloat s =
     (let (neg, t) = sign (dropWhile is_space s);
          (ip, n, t) = digits t;
          (fp, m, t) = (if t \<noteq> [] \<and> hd t = CHR ''.'' then digits (tl t) else (0, 0, t))
      in if n + m = 0 then (0, s)
         else let (e, t) = exponent t; v = (real ip + real fp / 10 ^ m) * scale10 e
              in (if neg then - v else v, t))"

lemma digits_length: "length (snd (snd (digits s))) \<le> length s"
  by (simp add: digits_def length_dropWhile_le)

lemma sign_length: "length (snd (sign s)) \<le> length s"
  by (cases s) auto

lemma exponent_length: "length (snd (exponent s)) \<le> length s"
proof (cases s)
  case (Cons c cs)
  have "length (snd (snd (digits (snd (sign cs))))) \<le> length cs"
    using digits_length[of "snd (sign cs)"] sign_length[of cs] by simp
  then show ?thesis
    by (auto simp: Cons Let_def split: prod.splits)
qed simp

lemma ParseFloat_length: "length (snd (ParseFloat s)) \<le> length s"
proof -
  obtain neg t where 1: "sign (dropWhile is_space s) = (neg, t)" by fastforce
  obtain ip n u where 2: "digits t = (ip, n, u)" by (metis prod_cases3)
  obtain fp m v where 3: "(if u \<noteq> [] \<and> hd u = CHR ''.'' then digits (tl u) else (0, 0, u)) = (fp, m, v)"
    by (metis prod_cases3)
  obtain e w where 4: "exponent v = (e, w)" by fastforce
  have "length t \<le> length s"
    using sign_length[of "dropWhile is_space s"] length_dropWhile_le[of is_space s] 1 by simp
  moreover have "length u \<le> length t" using digits_length[of t] 2 by simp
  moreover have "length v \<le> length u" using digits_length[of "tl u"] 3 by (auto split: if_splits)
  moreover have "length w \<le> length v" using exponent_length[of v] 4 by simp
  ultimately show ?thesis by (simp add: ParseFloat_def 1 2 3 4) (simp add: Let_def)
qed

lemma ParseFloat_rest: "(x, r) = ParseFloat s \<Longrightarrow> length r \<le> length s"
  using ParseFloat_length[of s] by (metis snd_conv)

section \<open>MixRamp\<close>

record mix_ramp_info =
  mr_start :: string
  mr_end :: string

definition MixRamp_Clear :: mix_ramp_info where
  "MixRamp_Clear = \<lparr>mr_start = [], mr_end = []\<rparr>"

definition GetStart :: "mix_ramp_info \<Rightarrow> string option" where
  "GetStart m = (if mr_start m = [] then None else Some (mr_start m))"

definition GetEnd :: "mix_ramp_info \<Rightarrow> string option" where
  "GetEnd m = (if mr_end m = [] then None else Some (mr_end m))"

text \<open>
  One pass of the loop: \<open>prev\<close> is the last pair that was too quiet.  A string is the
  characters before the terminating zero, so \<open>*endptr == 0\<close> is the end of the list.
\<close>

function mixramp_loop :: "(real \<times> real) option \<Rightarrow> string \<Rightarrow> real \<Rightarrow> real" where
  "mixramp_loop prev ramp_list required_db =
     (let (db, endptr) = ParseFloat ramp_list
      in if endptr = ramp_list \<or> endptr = [] \<or> hd endptr \<noteq> CHR '' '' then - 1
         else let ramp_list = tl endptr; (secs, endptr) = ParseFloat ramp_list
              in if endptr = ramp_list \<or> (endptr \<noteq> [] \<and> hd endptr \<noteq> CHR '';'') then - 1
                 else let ramp_list = (if endptr \<noteq> [] then tl endptr else endptr)
                      in if db = required_db then secs
                         else if db < required_db then mixramp_loop (Some (db, secs)) ramp_list required_db
                         else case prev of
                                None \<Rightarrow> secs
                              | Some (last_db, last_secs) \<Rightarrow>
                                  last_secs + (required_db - last_db) * (secs - last_secs) / (db - last_db))"
  by pat_completeness auto

termination
proof (relation "measure (\<lambda>(prev, ramp_list, required_db). length ramp_list)", goal_cases)
  case 1
  show ?case by simp
next
  case (2 prev ramp_list required_db x xa y xb xc xd ya xe)
  have "length y \<le> length ramp_list" "length ya \<le> length xb" "length xe \<le> length ya"
    using 2 ParseFloat_rest[of xa y ramp_list] ParseFloat_rest[of xd ya xb] by auto
  moreover have "length xb < length y" using 2 by (cases y) auto
  ultimately show ?case by simp
qed

declare mixramp_loop.simps [simp del]

definition mixramp_interpolate :: "string \<Rightarrow> real \<Rightarrow> real" where
  "mixramp_interpolate ramp_list required_db = mixramp_loop None ramp_list required_db"

section \<open>The number of chunks\<close>

definition CHUNK_SIZE :: nat where
  "CHUNK_SIZE = 4096"

definition Calculate ::
    "cross_fade_settings \<Rightarrow> real \<Rightarrow> real \<Rightarrow> real \<Rightarrow> string option \<Rightarrow> string option \<Rightarrow> AudioFormat \<Rightarrow> AudioFormat \<Rightarrow> nat
     \<Rightarrow> nat option" where
  "Calculate s total_time replay_gain_db replay_gain_prev_db mixramp_start mixramp_prev_end af old_format max_chunks =
     (if cf_duration s < 0 \<or> cf_duration s \<ge> total_time \<or> af \<noteq> old_format then Some 0
      else do {
        ensure (IsValid af);
        let chunks_f = real (unat (GetTimeToSize af)) / real CHUNK_SIZE;
        let chunks =
          (case (mixramp_start, mixramp_prev_end) of
             (Some m_start, Some m_prev_end) \<Rightarrow>
               if cf_mixramp_delay s \<le> 0 then nat \<lfloor>chunks_f * cf_duration s + 1 / 2\<rfloor>
               else let overlap_current = mixramp_interpolate m_start (cf_mixramp_db s - replay_gain_db);
                        overlap_prev = mixramp_interpolate m_prev_end (cf_mixramp_db s - replay_gain_prev_db);
                        overlap = overlap_current + overlap_prev
                    in if overlap_current \<ge> 0 \<and> overlap_prev \<ge> 0 \<and> cf_mixramp_delay s \<le> overlap
                       then nat \<lfloor>chunks_f * (overlap - cf_mixramp_delay s)\<rfloor> else 0
           | _ \<Rightarrow> nat \<lfloor>chunks_f * cf_duration s + 1 / 2\<rfloor>);
        Some (if chunks > max_chunks then max_chunks else chunks) })"

lemma Calculate_total:
  assumes "af = old_format \<Longrightarrow> IsValid af"
  shows "\<exists>n. Calculate s tt rg rgp ms mp af old_format max_chunks = Some n \<and> n \<le> max_chunks \<and>
    (af \<noteq> old_format \<longrightarrow> n = 0)"
  using assms by (auto simp: Calculate_def Let_def)

section \<open>Durations and tags\<close>

definition GetDuration :: "song \<Rightarrow> real" where
  "GetDuration s =
     (if song_end_ms s > 0 then real (unat (song_end_ms s - song_start_ms s)) / 1000
      else case song_tag s of
        None \<Rightarrow> 0
      | Some t \<Rightarrow> real_of_int (tag_time t) - real (unat (song_start_ms s)) / 1000)"

definition real_song_duration :: "song \<Rightarrow> real \<Rightarrow> real" where
  "real_song_duration s decoder_duration =
     (if decoder_duration \<le> 0 then GetDuration s
      else if song_end_ms s > 0 \<and> real (unat (song_end_ms s)) / 1000 < decoder_duration
      then real (unat (song_end_ms s - song_start_ms s)) / 1000
      else decoder_duration - real (unat (song_start_ms s)) / 1000)"

text \<open>\<open>Tag::Merge\<close> and \<open>Tag::MergeReplace\<close> (src/src/tag/Tag.cxx).  A new tag has no playlist.\<close>

definition HasType :: "tag \<Rightarrow> nat \<Rightarrow> bool" where
  "HasType t type \<longleftrightarrow> type \<in> set (map fst (tag_items t))"

definition Tag_Merge :: "tag \<Rightarrow> tag \<Rightarrow> tag" where
  "Tag_Merge base add =
     \<lparr>tag_time = (if tag_time add > 0 then tag_time add else tag_time base), tag_has_playlist = False,
      tag_items = tag_items add @ filter (\<lambda>i. \<not> HasType add (fst i)) (tag_items base)\<rparr>"

fun MergeReplace :: "tag option \<Rightarrow> tag option \<Rightarrow> tag option" where
  "MergeReplace base None = base"
| "MergeReplace None (Some add) = Some add"
| "MergeReplace (Some base) (Some add) = Some (Tag_Merge base add)"

lemma real_song_duration_nonneg:
  assumes "0 < d" "real (unat (song_start_ms s)) / 1000 \<le> d"
  shows "0 \<le> real_song_duration s d"
  using assms by (simp add: real_song_duration_def del: of_nat_unat)

lemma HasType_Merge: "HasType (Tag_Merge base add) ty \<longleftrightarrow> HasType base ty \<or> HasType add ty"
  by (auto simp: HasType_def Tag_Merge_def)

end
