(* ===== verification/Decoder_Control.thy ===== *)
theory Decoder_Control
  imports Cross_Fade
begin

text \<open>
  Music chunks and pipes (src/src/MusicChunk.hxx, src/src/MusicPipe.cxx), the control
  structure of the decoder thread (src/src/DecoderControl.hxx, src/src/DecoderControl.cxx) and
  the state of the player thread, of which the decoder is a part.

  A pipe is an address in a store, because the player and the decoder compare and free
  pipes by their address; an access to a pipe that has been freed is a failing assertion.

  What the environment does is read from a tape of inputs: one input for each place where
  another thread may run or an output is asked for something.  It says what the decoder
  thread does meanwhile, a list of the events by which that thread changes the shared state
  (src/src/DecoderAPI.cxx, src/src/DecoderThread.cxx; an event that is not possible in the
  state of the decoder is skipped), and how an output or the decoder answers.  A tape is any
  list; when it is used up the decoder ends the song it is at and every output succeeds.
  The commands of the player to the decoder are synchronous, so the player never sees
  \<open>command\<close> other than NONE, and the field is left out.
\<close>

section \<open>Chunks\<close>

datatype music_chunk = music_chunk
  (ck_length: nat) (ck_bit_rate: "16 word") (ck_times: real) (ck_tag: "tag option")
  (ck_mix_ratio: real) (ck_other: "music_chunk option")

definition ck_IsEmpty :: "music_chunk \<Rightarrow> bool" where
  "ck_IsEmpty c \<longleftrightarrow> ck_length c = 0 \<and> ck_tag c = None"

definition ck_set_tag :: "tag option \<Rightarrow> music_chunk \<Rightarrow> music_chunk" where
  "ck_set_tag t c = music_chunk (ck_length c) (ck_bit_rate c) (ck_times c) t (ck_mix_ratio c) (ck_other c)"

definition ck_set_mix :: "real \<Rightarrow> music_chunk option \<Rightarrow> music_chunk \<Rightarrow> music_chunk" where
  "ck_set_mix r oth c = music_chunk (ck_length c) (ck_bit_rate c) (ck_times c) (ck_tag c) r oth"

text \<open>What the decoder puts into a pipe: a chunk with data or a tag, and not mixed yet.\<close>

definition fresh_chunk :: "music_chunk \<Rightarrow> bool" where
  "fresh_chunk c \<longleftrightarrow> \<not> ck_IsEmpty c \<and> ck_other c = None"

section \<open>State\<close>

datatype DecoderState = DS_STOP | DS_START | DS_DECODE | DS_ERROR

record decoder_control =
  dc_state :: DecoderState
  dc_error :: string
  dc_seek_error :: bool
  dc_seekable :: bool
  dc_seek_where :: real
  dc_in_audio_format :: AudioFormat
  dc_out_audio_format :: AudioFormat
  dc_song :: "song option"
  dc_start_ms :: "32 word"
  dc_end_ms :: "32 word"
  dc_total_time :: real
  dc_pipe :: "nat option"
  dc_replay_gain_db :: real
  dc_replay_gain_prev_db :: real
  dc_mix_ramp :: mix_ramp_info
  dc_previous_mix_ramp :: mix_ramp_info

datatype decoder_event =
  DE_initialized AudioFormat AudioFormat bool real
| DE_chunk music_chunk
| DE_replay_gain real
| DE_mixramp mix_ramp_info
| DE_finished string

record input =
  in_events :: "decoder_event list"
  in_ok :: bool
  in_count :: nat
  in_time :: real
  in_error :: string

datatype CrossFadeState = XF_DISABLED | XF_UNKNOWN | XF_ENABLED

text \<open>The class \<open>Player\<close>: the state of the thread while it plays.\<close>

record player =
  py_pipe :: nat
  py_buffering :: bool
  py_decoder_starting :: bool
  py_decoder_woken :: bool
  py_paused :: bool
  py_queued :: bool
  py_output_open :: bool
  py_song :: "song option"
  py_xfade_state :: CrossFadeState
  py_cross_fading :: bool
  py_cross_fade_chunks :: nat
  py_cross_fade_tag :: "tag option"
  py_play_audio_format :: AudioFormat
  py_elapsed_time :: real

datatype output_call =
  OC_open bool | OC_play music_chunk | OC_pause | OC_cancel | OC_drain | OC_release | OC_song_border |
  OC_enable_disable | OC_close

datatype global_event = GE_PLAYLIST | GE_TAG

record thread = player_control +
  th_dc :: decoder_control
  th_player :: "player option"
  th_pipes :: "nat \<rightharpoonup> music_chunk list"
  th_next_pipe :: nat
  th_buffered_before_play :: nat
  th_buffer_size :: nat
  th_stack_format :: AudioFormat
  th_calls :: "output_call list"
  th_events :: "global_event list"
  th_idle :: idle_state
  th_tape :: "input list"
  th_schedule :: "nat list"
  th_failed :: bool

abbreviation set_dc :: "decoder_control \<Rightarrow> thread \<Rightarrow> thread" where
  "set_dc d t \<equiv> t\<lparr>th_dc := d\<rparr>"

section \<open>Pipes\<close>

definition pipe_new :: "thread \<Rightarrow> nat \<times> thread" where
  "pipe_new t = (th_next_pipe t, t\<lparr>th_pipes := (th_pipes t)(th_next_pipe t \<mapsto> []), th_next_pipe := Suc (th_next_pipe t)\<rparr>)"

text \<open>The destructor asserts that the pipe is empty.\<close>

definition pipe_delete :: "nat \<Rightarrow> thread \<Rightarrow> thread option" where
  "pipe_delete p t = do { ensure (th_pipes t p = Some []); Some (t\<lparr>th_pipes := (th_pipes t)(p := None)\<rparr>) }"

definition pipe_GetSize :: "nat \<Rightarrow> thread \<Rightarrow> nat option" where
  "pipe_GetSize p t = map_option length (th_pipes t p)"

definition pipe_Push :: "nat \<Rightarrow> music_chunk \<Rightarrow> thread \<Rightarrow> thread option" where
  "pipe_Push p c t =
     do { ensure (\<not> ck_IsEmpty c); cs \<leftarrow> th_pipes t p; Some (t\<lparr>th_pipes := (th_pipes t)(p \<mapsto> cs @ [c])\<rparr>) }"

definition pipe_Shift :: "nat \<Rightarrow> thread \<Rightarrow> (music_chunk option \<times> thread) option" where
  "pipe_Shift p t =
     do { cs \<leftarrow> th_pipes t p;
          case cs of
            [] \<Rightarrow> Some (None, t)
          | c # cs \<Rightarrow> do { ensure (\<not> ck_IsEmpty c); Some (Some c, t\<lparr>th_pipes := (th_pipes t)(p \<mapsto> cs)\<rparr>) } }"

text \<open>\<open>Clear\<close> shifts until the pipe is empty; each chunk goes back to the buffer.\<close>

fun pipe_Clear_loop :: "nat \<Rightarrow> nat \<Rightarrow> thread \<Rightarrow> thread option" where
  "pipe_Clear_loop 0 p t = None"
| "pipe_Clear_loop (Suc n) p t =
     do { (chunk, t) \<leftarrow> pipe_Shift p t; if chunk = None then Some t else pipe_Clear_loop n p t }"

definition pipe_Clear :: "nat \<Rightarrow> thread \<Rightarrow> thread option" where
  "pipe_Clear p t = do { n \<leftarrow> pipe_GetSize p t; pipe_Clear_loop (Suc n) p t }"

section \<open>What the decoder thread does\<close>

definition dc_IsIdle :: "decoder_control \<Rightarrow> bool" where
  "dc_IsIdle d \<longleftrightarrow> dc_state d = DS_STOP \<or> dc_state d = DS_ERROR"

definition dc_IsStarting :: "decoder_control \<Rightarrow> bool" where
  "dc_IsStarting d \<longleftrightarrow> dc_state d = DS_START"

definition dc_ClearError :: "decoder_control \<Rightarrow> decoder_control" where
  "dc_ClearError d = (if dc_state d = DS_ERROR then d\<lparr>dc_error := [], dc_state := DS_STOP\<rparr> else d)"

definition dc_GetError :: "decoder_control \<Rightarrow> string option" where
  "dc_GetError d = (if dc_state d = DS_ERROR then Some (dc_error d) else None)"

definition CycleMixRamp :: "decoder_control \<Rightarrow> decoder_control" where
  "CycleMixRamp d = d\<lparr>dc_previous_mix_ramp := dc_mix_ramp d, dc_mix_ramp := MixRamp_Clear\<rparr>"

definition decoder_initialized ::
    "AudioFormat \<Rightarrow> AudioFormat \<Rightarrow> bool \<Rightarrow> real \<Rightarrow> decoder_control \<Rightarrow> decoder_control" where
  "decoder_initialized audio_format out_format seekable total_time d =
     d\<lparr>dc_in_audio_format := audio_format, dc_out_audio_format := out_format, dc_seekable := seekable,
       dc_total_time := total_time, dc_state := DS_DECODE\<rparr>"

text \<open>The end of \<open>decoder_run_song\<close>, where \<open>ret\<close> is whether a plugin has taken the song.\<close>

definition decoder_song_finished :: "bool \<Rightarrow> string \<Rightarrow> decoder_control \<Rightarrow> decoder_control" where
  "decoder_song_finished ret err d =
     (if ret then d\<lparr>dc_state := DS_STOP\<rparr> else d\<lparr>dc_state := DS_ERROR, dc_error := err\<rparr>)"

text \<open>\<open>decoder_run\<close>: the song cannot be mapped to a file, or the decoder starts.\<close>

definition decoder_run :: "input \<Rightarrow> decoder_control \<Rightarrow> decoder_control" where
  "decoder_run i d =
     (let d = dc_ClearError d
      in if in_ok i then d\<lparr>dc_state := DS_START\<rparr> else d\<lparr>dc_state := DS_ERROR, dc_error := in_error i\<rparr>)"

fun decoder_step :: "decoder_event \<Rightarrow> thread \<Rightarrow> thread" where
  "decoder_step (DE_initialized af out seekable total_time) t =
     (if dc_state (th_dc t) = DS_START \<and> IsValid af \<and> IsValid out
      then set_dc (decoder_initialized af out seekable total_time (th_dc t)) t else t)"
| "decoder_step (DE_chunk c) t =
     (if dc_state (th_dc t) = DS_DECODE \<and> fresh_chunk c
      then case Option.bind (dc_pipe (th_dc t)) (\<lambda>p. pipe_Push p c t) of None \<Rightarrow> t | Some t' \<Rightarrow> t' else t)"
| "decoder_step (DE_replay_gain db) t =
     (if dc_IsIdle (th_dc t) then t else set_dc ((th_dc t)\<lparr>dc_replay_gain_db := db\<rparr>) t)"
| "decoder_step (DE_mixramp m) t =
     (if dc_IsIdle (th_dc t) then t else set_dc ((th_dc t)\<lparr>dc_mix_ramp := m\<rparr>) t)"
| "decoder_step (DE_finished err) t =
     (if dc_IsIdle (th_dc t) then t
      else set_dc (decoder_song_finished (dc_state (th_dc t) \<noteq> DS_START) err (th_dc t)) t)"

section \<open>Inputs\<close>

definition last_input :: input where
  "last_input = \<lparr>in_events = [DE_finished []], in_ok = True, in_count = 0, in_time = 0, in_error = []\<rparr>"

text \<open>The player thread gives others a chance to run and takes the next input.\<close>

definition yield :: "thread \<Rightarrow> input \<times> thread" where
  "yield t =
     (case th_tape t of
        [] \<Rightarrow> (last_input, fold decoder_step (in_events last_input) t)
      | i # tape \<Rightarrow> (i, fold decoder_step (in_events i) (t\<lparr>th_tape := tape\<rparr>)))"

text \<open>\<open>pc.Lock()\<close> and \<open>dc.WaitForDecoder()\<close>: the decoder may have changed the shared state.\<close>

definition lock :: "thread \<Rightarrow> thread" where
  "lock t = snd (yield t)"

text \<open>\<open>GlobalEvents::Emit\<close> and \<open>idle_add\<close>, as the player thread calls them.\<close>

definition emit :: "global_event \<Rightarrow> thread \<Rightarrow> thread" where
  "emit e t = t\<lparr>th_events := e # th_events t\<rparr>"

definition add_idle :: "32 word \<Rightarrow> thread \<Rightarrow> thread" where
  "add_idle f t = t\<lparr>th_idle := idle_add f (th_idle t)\<rparr>"

text \<open>A call of an output function (src/src/OutputAll.cxx) that has no result.\<close>

definition output_call :: "output_call \<Rightarrow> thread \<Rightarrow> thread" where
  "output_call c t = (let t = lock t in t\<lparr>th_calls := c # th_calls t\<rparr>)"

section \<open>Commands to the decoder\<close>

definition dc_IsCurrentSong :: "decoder_control \<Rightarrow> song \<Rightarrow> bool option" where
  "dc_IsCurrentSong d s =
     (case dc_state d of
        DS_STOP \<Rightarrow> Some False
      | DS_ERROR \<Rightarrow> Some False
      | _ \<Rightarrow> map_option (\<lambda>dsong. SongEquals dsong s) (dc_song d))"

definition dc_Start :: "song \<Rightarrow> 32 word \<Rightarrow> 32 word \<Rightarrow> nat \<Rightarrow> thread \<Rightarrow> thread option" where
  "dc_Start s start_ms end_ms p t =
     do { ensure (th_pipes t p = Some []);
          let t = set_dc ((th_dc t)\<lparr>dc_song := Some s, dc_start_ms := start_ms, dc_end_ms := end_ms,
                            dc_pipe := Some p\<rparr>) t;
          let (i, t) = yield t;
          let d = CycleMixRamp (dc_ClearError (th_dc t));
          let d = d\<lparr>dc_replay_gain_prev_db := dc_replay_gain_db d, dc_replay_gain_db := 0\<rparr>;
          Some (set_dc (decoder_run i d) t) }"

text \<open>
  A decoder that is told to stop before it is initialised may count that as success (a
  stream) or as a failure (a file); the input says which.
\<close>

definition dc_Stop :: "thread \<Rightarrow> thread" where
  "dc_Stop t =
     (if dc_state (th_dc t) \<noteq> DS_STOP \<and> dc_state (th_dc t) \<noteq> DS_ERROR
      then let (i, t) = yield t
           in if dc_IsIdle (th_dc t) then t
              else set_dc (decoder_song_finished (dc_state (th_dc t) \<noteq> DS_START \<or> in_ok i) (in_error i) (th_dc t)) t
      else t)"

text \<open>
  The decoder may have ended the song when it sees the command: then it clears the pipe and
  starts again.  Otherwise the plugin seeks and clears the pipe, or reports an error.
\<close>

definition dc_Seek :: "real \<Rightarrow> thread \<Rightarrow> (bool \<times> thread) option" where
  "dc_Seek whr t =
     do { ensure (dc_state (th_dc t) \<noteq> DS_START);
          ensure (whr \<ge> 0);
          if dc_state (th_dc t) = DS_STOP \<or> dc_state (th_dc t) = DS_ERROR \<or> \<not> dc_seekable (th_dc t)
          then Some (False, t)
          else do {
            let t = set_dc (dc_ClearError ((th_dc t)\<lparr>dc_seek_where := whr, dc_seek_error := False\<rparr>)) t;
            let (i, t) = yield t;
            p \<leftarrow> dc_pipe (th_dc t);
            t \<leftarrow> (if dc_IsIdle (th_dc t)
                 then do { t \<leftarrow> pipe_Clear p t; Some (set_dc (decoder_run i (th_dc t)) t) }
                 else if in_ok i then pipe_Clear p t
                 else Some (set_dc ((th_dc t)\<lparr>dc_seek_error := True\<rparr>) t));
            Some (\<not> dc_seek_error (th_dc t), t) } }"

end
