(* ===== verification/Player_Thread.thy ===== *)
theory Player_Thread
  imports Decoder_Control
begin

text \<open>
  The player thread (src/src/PlayerThread.cxx).  One function per method of the class
  \<open>Player\<close>; the loop of \<open>Run\<close> is its beginning \<open>Run_start\<close>, one pass \<open>Run_body\<close>, and its end
  \<open>Run_finish\<close>.  The outer loop \<open>player_task\<close> is \<open>player_task_command\<close>.

  The main thread is given the lock at the heads of the two loops: \<open>thread_env\<close> lets the
  thread run a number of whole passes before it answers \<open>Lock\<close>, and serves a command at the
  head of a loop.  A command that arrives in the middle of a pass is not covered, except for
  the theorems that say what it does there.
\<close>

section \<open>Helpers\<close>

abbreviation on_player :: "(player \<Rightarrow> player) \<Rightarrow> thread \<Rightarrow> thread" where
  "on_player f t \<equiv> t\<lparr>th_player := map_option f (th_player t)\<rparr>"

definition pc_CommandFinished :: "thread \<Rightarrow> thread option" where
  "pc_CommandFinished t = do { ensure (pc_command t \<noteq> PC_NONE); Some (t\<lparr>pc_command := PC_NONE\<rparr>) }"

definition IsDecoderAtCurrentSong :: "player \<Rightarrow> thread \<Rightarrow> bool" where
  "IsDecoderAtCurrentSong py t \<longleftrightarrow> dc_pipe (th_dc t) = Some (py_pipe py)"

definition IsDecoderAtNextSong :: "player \<Rightarrow> thread \<Rightarrow> bool" where
  "IsDecoderAtNextSong py t \<longleftrightarrow> dc_pipe (th_dc t) \<noteq> None \<and> \<not> IsDecoderAtCurrentSong py t"

definition ClearAndDeletePipe :: "thread \<Rightarrow> thread option" where
  "ClearAndDeletePipe t =
     do { py \<leftarrow> th_player t; t \<leftarrow> pipe_Clear (py_pipe py) t; pipe_delete (py_pipe py) t }"

definition ClearAndReplacePipe :: "nat \<Rightarrow> thread \<Rightarrow> thread option" where
  "ClearAndReplacePipe p t = do { t \<leftarrow> ClearAndDeletePipe t; Some (on_player (py_pipe_update (\<lambda>_. p)) t) }"

definition ReplacePipe :: "nat \<Rightarrow> thread \<Rightarrow> thread option" where
  "ReplacePipe p t =
     do { py \<leftarrow> th_player t; t \<leftarrow> pipe_delete (py_pipe py) t; Some (on_player (py_pipe_update (\<lambda>_. p)) t) }"

section \<open>Starting and stopping the decoder\<close>

definition StartDecoder :: "nat \<Rightarrow> thread \<Rightarrow> thread option" where
  "StartDecoder p t =
     do { py \<leftarrow> th_player t;
          ensure (py_queued py \<or> pc_command t = PC_SEEK);
          s \<leftarrow> pc_next_song t;
          let start_ms = song_start_ms s +
            (if pc_command t = PC_SEEK then word_of_int (trunc (pc_seek_where t * 1000)) else 0);
          dc_Start (DupDetached s) start_ms (song_end_ms s) p t }"

definition StopDecoder :: "thread \<Rightarrow> thread option" where
  "StopDecoder t =
     do { py \<leftarrow> th_player t;
          let t = dc_Stop t;
          case dc_pipe (th_dc t) of
            None \<Rightarrow> Some t
          | Some q \<Rightarrow> do {
              t \<leftarrow> pipe_Clear q t;
              t \<leftarrow> (if q \<noteq> py_pipe py then pipe_delete q t else Some t);
              Some (set_dc ((th_dc t)\<lparr>dc_pipe := None\<rparr>) t) } }"

definition WaitForDecoder :: "thread \<Rightarrow> (bool \<times> thread) option" where
  "WaitForDecoder t =
     do { py \<leftarrow> th_player t;
          ensure (py_queued py \<or> pc_command t = PC_SEEK);
          s \<leftarrow> pc_next_song t;
          let t = lock (on_player (py_queued_update (\<lambda>_. False)) t);
          Some (case dc_GetError (th_dc t) of
            Some err \<Rightarrow> (False, (pc_SetError PE_DECODER err t)\<lparr>pc_next_song := None\<rparr>)
          | None \<Rightarrow>
              let t = pc_ClearTaggedSong t;
                  t = on_player (\<lambda>py. py\<lparr>py_song := Some s, py_elapsed_time := 0, py_decoder_starting := True\<rparr>) t;
                  t = t\<lparr>pc_total_time := GetDuration s, pc_bit_rate := 0,
                        pc_audio_format := AudioFormat_Clear (pc_audio_format t), pc_next_song := None\<rparr>
              in (True, emit GE_PLAYLIST t)) }"

definition OpenOutput :: "thread \<Rightarrow> (bool \<times> thread) option" where
  "OpenOutput t =
     do { py \<leftarrow> th_player t;
          ensure (IsDefined (py_play_audio_format py));
          ensure (pc_state t = PS_PLAY \<or> pc_state t = PS_PAUSE);
          let (i, t) = yield t;
          let t = t\<lparr>th_calls := OC_open (in_ok i) # th_calls t\<rparr>;
          Some (if in_ok i
            then let t = lock (on_player (\<lambda>py. py\<lparr>py_output_open := True, py_paused := False\<rparr>) t)
                 in (True, add_idle IDLE_PLAYER (t\<lparr>pc_state := PS_PLAY\<rparr>))
            else let t = lock (on_player (\<lambda>py. py\<lparr>py_output_open := False, py_paused := True\<rparr>) t)
                 in (False, add_idle IDLE_PLAYER ((pc_SetError PE_OUTPUT (in_error i) t)\<lparr>pc_state := PS_PAUSE\<rparr>))) }"

definition CheckDecoderStartup :: "thread \<Rightarrow> (bool \<times> thread) option" where
  "CheckDecoderStartup t =
     do { py \<leftarrow> th_player t;
          ensure (py_decoder_starting py);
          let t = lock t;
          case dc_GetError (th_dc t) of
            Some err \<Rightarrow> Some (False, pc_SetError PE_DECODER err t)
          | None \<Rightarrow>
              if dc_IsStarting (th_dc t) then Some (True, lock t)
              else let (waiting, t) = (if py_output_open py then let (i, t) = yield t in (\<not> in_ok i, t) else (False, t))
                   in if waiting then Some (True, t)
                   else do {
                     let t = lock t;
                     s \<leftarrow> dc_song (th_dc t);
                     let t = t\<lparr>pc_total_time := real_song_duration s (dc_total_time (th_dc t)),
                               pc_audio_format := dc_in_audio_format (th_dc t)\<rparr>;
                     let t = add_idle IDLE_PLAYER t;
                     let t = on_player (\<lambda>py. py\<lparr>py_play_audio_format := dc_out_audio_format (th_dc t),
                                                py_decoder_starting := False\<rparr>) t;
                     if \<not> py_paused py then do { (ok, t) \<leftarrow> OpenOutput t; Some (True, t) } else Some (True, t) } }"

text \<open>
  The buffer may be exhausted; the frame size divides, so it must not be zero.  What the
  code leaves unset in a chunk of silence is zero here.
\<close>

definition SendSilence :: "thread \<Rightarrow> (bool \<times> thread) option" where
  "SendSilence t =
     do { py \<leftarrow> th_player t;
          ensure (py_output_open py);
          ensure (IsDefined (py_play_audio_format py));
          let (i, t) = yield t;
          if \<not> in_ok i then Some (False, t)
          else do {
            let frame_size = unat (GetFrameSize (py_play_audio_format py));
            ensure (frame_size \<noteq> 0);
            let num_frames = CHUNK_SIZE div frame_size;
            let chunk = music_chunk (num_frames * frame_size) 0 (- 1) None 0 None;
            let (i, t) = yield t;
            Some (in_ok i, t\<lparr>th_calls := OC_play chunk # th_calls t\<rparr>) } }"

section \<open>Commands\<close>

text \<open>\<open>while (decoder_starting)\<close>, with fuel; the result says whether the decoder is up.\<close>

fun wait_startup :: "nat \<Rightarrow> thread \<Rightarrow> (bool \<times> thread) option" where
  "wait_startup 0 t = None"
| "wait_startup (Suc fuel) t =
     do { py \<leftarrow> th_player t;
          if \<not> py_decoder_starting py then Some (True, t)
          else do { (ok, t) \<leftarrow> CheckDecoderStartup t;
                    if \<not> ok then Some (False, t) else wait_startup fuel t } }"

definition startup_fuel :: "thread \<Rightarrow> nat" where
  "startup_fuel t = Suc (Suc (length (th_tape t)))"

text \<open>The three parts of \<open>SeekDecoder\<close>: which decoder is to seek, its start, and the seek itself.\<close>

definition seek_prepare :: "song \<Rightarrow> thread \<Rightarrow> (bool \<times> thread) option" where
  "seek_prepare s t =
     do { py \<leftarrow> th_player t;
          let t = lock t;
          same \<leftarrow> dc_IsCurrentSong (th_dc t) s;
          if \<not> same
          then do { t \<leftarrow> StopDecoder t;
                    t \<leftarrow> pipe_Clear (py_pipe py) t;
                    t \<leftarrow> StartDecoder (py_pipe py) t;
                    WaitForDecoder t }
          else do { t \<leftarrow> (if \<not> IsDecoderAtCurrentSong py t
                         then do { q \<leftarrow> dc_pipe (th_dc t); ClearAndReplacePipe q t } else Some t);
                    Some (True, on_player (py_queued_update (\<lambda>_. False)) (t\<lparr>pc_next_song := None\<rparr>)) } }"

definition seek_send :: "32 word \<Rightarrow> thread \<Rightarrow> (bool \<times> thread) option" where
  "seek_send start_ms t =
     do { let whr = pc_seek_where t;
          let whr = (if whr > pc_total_time t then pc_total_time t - 1 / 10 else whr);
          let whr = (if whr < 0 then 0 else whr);
          (ok, t) \<leftarrow> dc_Seek (whr + real (unat start_ms) / 1000) t;
          if \<not> ok then do { t \<leftarrow> pc_CommandFinished (lock t); Some (False, t) }
          else do {
            t \<leftarrow> pc_CommandFinished (lock (on_player (py_elapsed_time_update (\<lambda>_. whr)) t));
            let t = on_player (\<lambda>py. py\<lparr>py_xfade_state := XF_UNKNOWN, py_buffering := True\<rparr>) t;
            Some (True, output_call OC_cancel t) } }"

definition SeekDecoder :: "thread \<Rightarrow> (bool \<times> thread) option" where
  "SeekDecoder t =
     do { s \<leftarrow> pc_next_song t;
          (ok, t) \<leftarrow> seek_prepare s t;
          (ok, t) \<leftarrow> (if ok then wait_startup (startup_fuel t) t else Some (False, t));
          if \<not> ok then do { t \<leftarrow> pc_CommandFinished (lock t); Some (False, t) }
          else seek_send (song_start_ms s) t }"

definition ProcessCommand :: "thread \<Rightarrow> thread option" where
  "ProcessCommand t =
     do { py \<leftarrow> th_player t;
          case pc_command t of
            PC_NONE \<Rightarrow> Some t
          | PC_STOP \<Rightarrow> Some t
          | PC_EXIT \<Rightarrow> Some t
          | PC_CLOSE_AUDIO \<Rightarrow> Some t
          | PC_UPDATE_AUDIO \<Rightarrow> pc_CommandFinished (lock (output_call OC_enable_disable t))
          | PC_QUEUE \<Rightarrow> do {
              ensure (pc_next_song t \<noteq> None);
              ensure (\<not> py_queued py);
              ensure (\<not> IsDecoderAtNextSong py t);
              pc_CommandFinished (on_player (py_queued_update (\<lambda>_. True)) t) }
          | PC_PAUSE \<Rightarrow> do {
              let paused = (\<not> py_paused py);
              let t = on_player (py_paused_update (\<lambda>_. paused)) t;
              t \<leftarrow> (if paused then Some ((lock (output_call OC_pause t))\<lparr>pc_state := PS_PAUSE\<rparr>)
                   else if \<not> IsDefined (py_play_audio_format py) then Some ((lock t)\<lparr>pc_state := PS_PLAY\<rparr>)
                   else do { (ok, t) \<leftarrow> OpenOutput t; Some (lock t) });
              pc_CommandFinished t }
          | PC_SEEK \<Rightarrow> do { (ok, t) \<leftarrow> SeekDecoder t; Some (lock t) }
          | PC_CANCEL \<Rightarrow>
              if pc_next_song t = None then Some (t\<lparr>pc_command := PC_STOP\<rparr>)
              else do {
                t \<leftarrow> (if IsDecoderAtNextSong py t then do { t \<leftarrow> StopDecoder t; Some (lock t) } else Some t);
                pc_CommandFinished (on_player (py_queued_update (\<lambda>_. False)) (t\<lparr>pc_next_song := None\<rparr>)) }
          | PC_REFRESH \<Rightarrow> do {
              let t = (if py_output_open py \<and> \<not> py_paused py then lock (lock t) else t);
              let (i, t) = yield t;
              pc_CommandFinished (t\<lparr>pc_elapsed_time := (if in_time i < 0 then py_elapsed_time py else in_time i)\<rparr>) } }"

section \<open>Playing chunks\<close>

definition update_song_tag :: "tag \<Rightarrow> thread \<Rightarrow> thread option" where
  "update_song_tag new_tag t =
     do { py \<leftarrow> th_player t;
          s \<leftarrow> py_song py;
          if IsFile s then Some t
          else do {
            let s = s\<lparr>song_tag := Some new_tag\<rparr>;
            let t = lock (on_player (py_song_update (\<lambda>_. Some s)) t);
            Some (add_idle IDLE_PLAYER (emit GE_TAG (pc_SetTaggedSong s t))) } }"

definition play_chunk :: "music_chunk \<Rightarrow> AudioFormat \<Rightarrow> thread \<Rightarrow> (string option \<times> thread) option" where
  "play_chunk chunk format t =
     do { t \<leftarrow> (case ck_tag chunk of None \<Rightarrow> Some t | Some tg \<Rightarrow> update_song_tag tg t);
          if ck_IsEmpty chunk then Some (None, t)
          else do {
            let t = (lock t)\<lparr>pc_bit_rate := ck_bit_rate chunk\<rparr>;
            let (i, t) = yield t;
            let t = t\<lparr>th_calls := OC_play chunk # th_calls t\<rparr>;
            Some (if \<not> in_ok i then (Some (in_error i), t)
              else (None, t\<lparr>pc_total_play_time :=
                pc_total_play_time t + real (ck_length chunk) / real (unat (GetTimeToSize format))\<rparr>)) } }"

text \<open>
  The cross-fading part of \<open>PlayNextChunk\<close>: the outer None is the early return, the inner one
  means that no chunk has been taken from the pipe yet.
\<close>

definition cross_fade_chunk :: "thread \<Rightarrow> (music_chunk option option \<times> thread) option" where
  "cross_fade_chunk t =
     do { py \<leftarrow> th_player t;
          position \<leftarrow> pipe_GetSize (py_pipe py) t;
          if py_xfade_state py = XF_ENABLED \<and> IsDecoderAtNextSong py t \<and> position \<le> py_cross_fade_chunks py
          then do {
            q \<leftarrow> dc_pipe (th_dc t);
            (other, t) \<leftarrow> pipe_Shift q t;
            let chunks = (if \<not> py_cross_fading py then position else py_cross_fade_chunks py);
            let t = on_player (\<lambda>py. py\<lparr>py_cross_fade_chunks := chunks, py_cross_fading := True\<rparr>) t;
            case other of
              Some oth \<Rightarrow> do {
                (c, t) \<leftarrow> pipe_Shift (py_pipe py) t;
                chunk \<leftarrow> c;
                ensure (ck_other chunk = None);
                let t = on_player (\<lambda>py. py\<lparr>py_cross_fade_tag := MergeReplace (py_cross_fade_tag py) (ck_tag oth)\<rparr>) t;
                let oth = ck_set_tag None oth;
                let ratio = (if cf_mixramp_delay (pc_cross_fade t) \<le> 0 then real position / real chunks else - 1);
                Some (Some (Some (ck_set_mix ratio (if ck_IsEmpty oth then None else Some oth) chunk)), t) }
            | None \<Rightarrow> do {
                let t = lock t;
                if dc_IsIdle (th_dc t)
                then Some (Some None, on_player (py_xfade_state_update (\<lambda>_. XF_DISABLED)) t)
                else Some (None, lock t) } }
          else Some (Some None, t) }"

definition wake_decoder :: "thread \<Rightarrow> thread option" where
  "wake_decoder t =
     do { let t = lock t;
          hungry \<leftarrow> (if dc_IsIdle (th_dc t) then Some False
            else do { q \<leftarrow> dc_pipe (th_dc t); n \<leftarrow> pipe_GetSize q t;
                      Some (n \<le> (th_buffered_before_play t + th_buffer_size t * 3) div 4) });
          Some (on_player (py_decoder_woken_update (\<lambda>_. hungry)) t) }"

definition PlayNextChunk :: "thread \<Rightarrow> (bool \<times> thread) option" where
  "PlayNextChunk t =
     do { let (i, t) = yield t;
          if \<not> in_ok i then Some (True, t)
          else do {
            (r, t) \<leftarrow> cross_fade_chunk t;
            case r of None \<Rightarrow> Some (True, t)
            | Some c \<Rightarrow> do {
                py \<leftarrow> th_player t;
                (c, t) \<leftarrow> (case c of None \<Rightarrow> pipe_Shift (py_pipe py) t | Some chunk \<Rightarrow> Some (Some chunk, t));
                chunk \<leftarrow> c;
                let postponed = (py_xfade_state py \<noteq> XF_ENABLED \<and> py_cross_fade_tag py \<noteq> None);
                let chunk = (if postponed then ck_set_tag (MergeReplace (ck_tag chunk) (py_cross_fade_tag py)) chunk else chunk);
                let t = (if postponed then on_player (py_cross_fade_tag_update (\<lambda>_. None)) t else t);
                (err, t) \<leftarrow> play_chunk chunk (py_play_audio_format py) t;
                case err of
                  Some e \<Rightarrow> do {
                    let t = (pc_SetError PE_OUTPUT e (lock t))\<lparr>pc_state := PS_PAUSE\<rparr>;
                    Some (False, add_idle IDLE_PLAYER (on_player (py_paused_update (\<lambda>_. True)) t)) }
                | None \<Rightarrow> do { t \<leftarrow> wake_decoder t; Some (True, t) } } } }"

definition SongBorder :: "thread \<Rightarrow> (bool \<times> thread) option" where
  "SongBorder t =
     do { let t = on_player (py_xfade_state_update (\<lambda>_. XF_UNKNOWN)) t;
          q \<leftarrow> dc_pipe (th_dc t);
          t \<leftarrow> ReplacePipe q t;
          let t = output_call OC_song_border t;
          (ok, t) \<leftarrow> WaitForDecoder t;
          if \<not> ok then Some (False, t)
          else do {
            let t = lock t;
            Some (True, if pc_border_pause t
              then add_idle IDLE_PLAYER (on_player (py_paused_update (\<lambda>_. True)) (t\<lparr>pc_state := PS_PAUSE\<rparr>))
              else t) } }"

section \<open>The loop\<close>

definition new_player :: "nat \<Rightarrow> AudioFormat \<Rightarrow> player" where
  "new_player p garbage = \<lparr>py_pipe = p, py_buffering = True, py_decoder_starting = False, py_decoder_woken = False,
     py_paused = False, py_queued = True, py_output_open = False, py_song = None, py_xfade_state = XF_UNKNOWN,
     py_cross_fading = False, py_cross_fade_chunks = 0, py_cross_fade_tag = None,
     py_play_audio_format = garbage, py_elapsed_time = 0\<rparr>"

definition Run_start :: "thread \<Rightarrow> thread option" where
  "Run_start t =
     do { let (p, t) = pipe_new t;
          let t = t\<lparr>th_player := Some (new_player p (th_stack_format t))\<rparr>;
          t \<leftarrow> StartDecoder p t;
          (ok, t) \<leftarrow> WaitForDecoder t;
          if \<not> ok then do {
            py \<leftarrow> th_player t;
            ensure (py_song py = None);
            t \<leftarrow> StopDecoder t;
            t \<leftarrow> pc_CommandFinished (lock t);
            t \<leftarrow> pipe_delete p t;
            Some (emit GE_PLAYLIST (t\<lparr>th_player := None\<rparr>)) }
          else do {
            let t = (lock t)\<lparr>pc_state := PS_PLAY\<rparr>;
            let t = (if pc_command t = PC_SEEK then on_player (py_elapsed_time_update (\<lambda>_. pc_seek_where t)) t else t);
            pc_CommandFinished t } }"

definition start_next :: "thread \<Rightarrow> thread option" where
  "start_next t =
     do { py \<leftarrow> th_player t;
          let t = lock t;
          if dc_IsIdle (th_dc t) \<and> py_queued py \<and> dc_pipe (th_dc t) = Some (py_pipe py)
          then do { let (q, t) = pipe_new t; StartDecoder q t }
          else Some t }"

definition check_cross_fade :: "thread \<Rightarrow> thread option" where
  "check_cross_fade t =
     do { py \<leftarrow> th_player t;
          if \<not> pc_border_pause t \<and> IsDecoderAtNextSong py t \<and> py_xfade_state py = XF_UNKNOWN
          then do {
            let t = lock t;
            let d = th_dc t;
            if dc_IsStarting d then Some t
            else do {
              chunks \<leftarrow> Calculate (pc_cross_fade t) (dc_total_time d) (dc_replay_gain_db d) (dc_replay_gain_prev_db d)
                (GetStart (dc_mix_ramp d)) (GetEnd (dc_previous_mix_ramp d)) (dc_out_audio_format d)
                (py_play_audio_format py) (th_buffer_size t - th_buffered_before_play t);
              Some (on_player (\<lambda>py. if chunks > 0
                then py\<lparr>py_cross_fade_chunks := chunks, py_xfade_state := XF_ENABLED, py_cross_fading := False\<rparr>
                else py\<lparr>py_cross_fade_chunks := chunks, py_xfade_state := XF_DISABLED\<rparr>) t) } }
          else Some t }"

definition Run_output :: "thread \<Rightarrow> (bool \<times> thread) option" where
  "Run_output t =
     do { py \<leftarrow> th_player t;
          n \<leftarrow> pipe_GetSize (py_pipe py) t;
          if py_paused py then Some (True, lock t)
          else if n > 0 then do { (ok, t) \<leftarrow> PlayNextChunk t; Some (True, lock t) }
          else do {
            let (i, t) = yield t;
            if in_count i > 0 then Some (True, lock (lock t))
            else if IsDecoderAtNextSong py t
            then do { (ok, t) \<leftarrow> SongBorder t; Some (if ok then (True, lock t) else (False, t)) }
            else do {
              let t = lock t;
              if dc_IsIdle (th_dc t)
              then do { n \<leftarrow> pipe_GetSize (py_pipe py) t;
                        Some (if n = 0 then (False, output_call OC_drain t) else (True, lock t)) }
              else if py_output_open py
              then do { (ok, t) \<leftarrow> SendSilence t; Some (if ok then (True, lock t) else (False, t)) }
              else Some (True, lock t) } } }"

text \<open>One pass of the loop after \<open>ProcessCommand\<close>; the result is False when the loop is left.\<close>

definition Run_body :: "thread \<Rightarrow> (bool \<times> thread) option" where
  "Run_body t =
     do { let t = lock t;
          py \<leftarrow> th_player t;
          n \<leftarrow> pipe_GetSize (py_pipe py) t;
          let (filling, t) =
            (if py_buffering py \<and> n < th_buffered_before_play t
             then let t = lock t in (\<not> dc_IsIdle (th_dc t), t) else (False, t));
          if filling
          then do {
            (ok, t) \<leftarrow>
              (if \<not> py_paused py \<and> py_output_open py
               then let (i, t) = yield t in if in_count i < 4 then SendSilence t else Some (True, t)
               else Some (True, t));
            Some (if ok then (True, lock (lock t)) else (False, t)) }
          else do {
            let t = on_player (py_buffering_update (\<lambda>_. False)) t;
            if py_decoder_starting py
            then do { (ok, t) \<leftarrow> CheckDecoderStartup t; Some (if ok then (True, lock t) else (False, t)) }
            else do { t \<leftarrow> start_next t; t \<leftarrow> check_cross_fade t; Run_output t } } }"

definition Run_finish :: "thread \<Rightarrow> thread option" where
  "Run_finish t =
     do { t \<leftarrow> StopDecoder t;
          t \<leftarrow> ClearAndDeletePipe t;
          py \<leftarrow> th_player t;
          let t = pc_ClearTaggedSong (lock t);
          t \<leftarrow> (if py_queued py then do { s \<leftarrow> pc_next_song t; Some (t\<lparr>pc_next_song := None\<rparr>) } else Some t);
          Some (emit GE_PLAYLIST (t\<lparr>pc_state := PS_STOP, th_player := None\<rparr>)) }"

text \<open>One pass of the loop of \<open>player_task\<close>, up to the end of the command.\<close>

definition player_task_command :: "thread \<Rightarrow> thread option" where
  "player_task_command t =
     (case pc_command t of
        PC_SEEK \<Rightarrow> do { ensure (pc_next_song t \<noteq> None); Run_start t }
      | PC_QUEUE \<Rightarrow> do { ensure (pc_next_song t \<noteq> None); Run_start t }
      | PC_STOP \<Rightarrow> pc_CommandFinished ((output_call OC_cancel t)\<lparr>pc_next_song := None\<rparr>)
      | PC_PAUSE \<Rightarrow> pc_CommandFinished (t\<lparr>pc_next_song := None\<rparr>)
      | PC_CLOSE_AUDIO \<Rightarrow> pc_CommandFinished (lock (output_call OC_release t))
      | PC_UPDATE_AUDIO \<Rightarrow> pc_CommandFinished (lock (output_call OC_enable_disable t))
      | PC_EXIT \<Rightarrow> pc_CommandFinished (lock (output_call OC_close t))
      | PC_CANCEL \<Rightarrow> pc_CommandFinished (t\<lparr>pc_next_song := None\<rparr>)
      | PC_REFRESH \<Rightarrow> pc_CommandFinished t
      | PC_NONE \<Rightarrow> Some t)"

section \<open>The thread as the main thread sees it\<close>

text \<open>The head of the loop with a command pending, up to the point where it is finished.\<close>

definition serve :: "thread \<Rightarrow> thread option" where
  "serve t =
     (if th_player t = None then player_task_command t
      else do {
        t \<leftarrow> ProcessCommand t;
        if pc_command t = PC_STOP \<or> pc_command t = PC_EXIT \<or> pc_command t = PC_CLOSE_AUDIO
        then do { t \<leftarrow> Run_finish (output_call OC_cancel t); player_task_command t }
        else Some t })"

text \<open>A number of passes with no command; a thread that waits stays where it is.\<close>

fun passes :: "nat \<Rightarrow> thread \<Rightarrow> thread option" where
  "passes 0 t = Some t"
| "passes (Suc n) t =
     (if th_player t = None then Some t
      else do { (ok, t) \<leftarrow> Run_body t;
                if ok then passes n t else Run_finish t })"

definition answer_lock :: "thread \<Rightarrow> thread" where
  "answer_lock t =
     (case th_schedule t of
        [] \<Rightarrow> t
      | n # ns \<Rightarrow> (case passes n (t\<lparr>th_schedule := ns\<rparr>) of
          None \<Rightarrow> t\<lparr>th_failed := True\<rparr>
        | Some t' \<Rightarrow> t'))"

definition answer_command :: "thread \<Rightarrow> thread option" where
  "answer_command t = do { t \<leftarrow> serve t; ensure (pc_command t = PC_NONE); Some t }"

definition thread_env :: "unit thread_ext player_env" where
  "thread_env = \<lparr>thread_runs = answer_lock, thread_answers = answer_command\<rparr>"

end
