(* ===== verification/Player_Progress.thy ===== *)
theory Player_Progress
  imports Player_Thread
begin

text \<open>
  What can change while the player thread waits: only the decoder thread runs, it only ever
  appends to its own pipe, and it never starts by itself.  The invariant of the
  player thread, and that it is kept by waiting.
\<close>

section \<open>Invariants\<close>

definition pipes_ok :: "thread \<Rightarrow> bool" where
  "pipes_ok t \<longleftrightarrow> (\<forall>p cs. th_pipes t p = Some cs \<longrightarrow> p < th_next_pipe t \<and> (\<forall>c\<in>set cs. fresh_chunk c))"

definition dc_ok :: "decoder_control \<Rightarrow> bool" where
  "dc_ok d \<longleftrightarrow> (\<not> dc_IsIdle d \<longrightarrow> dc_pipe d \<noteq> None) \<and>
     (dc_pipe d \<noteq> None \<longrightarrow> dc_song d \<noteq> None \<and>
        (dc_state d = DS_STOP \<or> dc_state d = DS_DECODE \<longrightarrow> IsValid (dc_out_audio_format d)))"

text \<open>The outputs are open after the given calls, the latest first; nothing was played on closed ones.\<close>

fun opened :: "output_call list \<Rightarrow> bool" where
  "opened [] = False"
| "opened (OC_open ok # cs) = ok"
| "opened (OC_release # cs) = False"
| "opened (OC_close # cs) = False"
| "opened (_ # cs) = opened cs"

fun calls_ok :: "output_call list \<Rightarrow> bool" where
  "calls_ok [] = True"
| "calls_ok (OC_play c # cs) = (opened cs \<and> calls_ok cs)"
| "calls_ok (_ # cs) = calls_ok cs"

definition core0 :: "thread \<Rightarrow> player \<Rightarrow> bool" where
  "core0 t py \<longleftrightarrow> th_player t = Some py \<and> pipes_ok t \<and> dc_ok (th_dc t) \<and>
     dom (th_pipes t) = insert (py_pipe py) (set_option (dc_pipe (th_dc t))) \<and>
     (py_queued py \<longrightarrow> pc_next_song t \<noteq> None) \<and>
     (pc_command t = PC_QUEUE \<or> pc_command t = PC_SEEK \<or> py_queued py \<or> pc_next_song t = None) \<and>
     (IsDecoderAtNextSong py t \<longrightarrow> py_queued py) \<and>
     (py_decoder_starting py \<longrightarrow> dc_pipe (th_dc t) = Some (py_pipe py)) \<and>
     (\<not> py_decoder_starting py \<and> py_song py \<noteq> None \<longrightarrow> IsDefined (py_play_audio_format py)) \<and>
     (IsDefined (py_play_audio_format py) \<longrightarrow> IsValid (py_play_audio_format py)) \<and>
     (py_output_open py \<longrightarrow> IsDefined (py_play_audio_format py) \<and> opened (th_calls t)) \<and>
     calls_ok (th_calls t) \<and> (IsDefined (th_stack_format t) \<longrightarrow> IsValid (th_stack_format t))"

text \<open>The outputs are open whenever chunks are played.\<close>

definition core :: "thread \<Rightarrow> player \<Rightarrow> bool" where
  "core t py \<longleftrightarrow> core0 t py \<and>
     (\<not> py_paused py \<and> \<not> py_decoder_starting py \<and> py_song py \<noteq> None \<longrightarrow> py_output_open py)"

definition playing :: "thread \<Rightarrow> player \<Rightarrow> bool" where
  "playing t py \<longleftrightarrow> core t py \<and> py_song py \<noteq> None \<and> pc_state t = (if py_paused py then PS_PAUSE else PS_PLAY)"

definition stopped :: "thread \<Rightarrow> bool" where
  "stopped t \<longleftrightarrow> th_player t = None \<and> th_pipes t = Map.empty \<and> dc_pipe (th_dc t) = None \<and> dc_IsIdle (th_dc t) \<and>
     pc_state t = PS_STOP \<and> calls_ok (th_calls t) \<and> (IsDefined (th_stack_format t) \<longrightarrow> IsValid (th_stack_format t))"

section \<open>Progress of the decoder\<close>

definition progress :: "thread \<Rightarrow> thread \<Rightarrow> bool" where
  "progress t t' \<longleftrightarrow>
     (\<exists>d ps tape. t' = t\<lparr>th_dc := d, th_pipes := ps, th_tape := tape\<rparr>) \<and>
     dc_song (th_dc t') = dc_song (th_dc t) \<and> dc_pipe (th_dc t') = dc_pipe (th_dc t) \<and>
     (dc_IsIdle (th_dc t) \<longrightarrow> dc_state (th_dc t') = dc_state (th_dc t) \<and> th_pipes t' = th_pipes t) \<and>
     (dc_state (th_dc t') = DS_START \<longrightarrow> dc_state (th_dc t) = DS_START) \<and>
     (dc_state (th_dc t') = DS_ERROR \<longrightarrow> dc_state (th_dc t) = DS_START \<or> dc_state (th_dc t) = DS_ERROR) \<and>
     (dc_ok (th_dc t) \<longrightarrow> dc_ok (th_dc t')) \<and> (pipes_ok t \<longrightarrow> pipes_ok t') \<and>
     (\<forall>p cs. th_pipes t p = Some cs \<longrightarrow> (\<exists>ds. th_pipes t' p = Some (cs @ ds))) \<and>
     (\<forall>p. dc_pipe (th_dc t) \<noteq> Some p \<or> th_pipes t p = None \<longrightarrow> th_pipes t' p = th_pipes t p)"

lemma progressD:
  assumes "progress t t'"
  shows "\<exists>d ps tape. t' = t\<lparr>th_dc := d, th_pipes := ps, th_tape := tape\<rparr>"
    "dc_song (th_dc t') = dc_song (th_dc t)" "dc_pipe (th_dc t') = dc_pipe (th_dc t)"
    "dc_IsIdle (th_dc t) \<Longrightarrow> dc_state (th_dc t') = dc_state (th_dc t)"
    "dc_IsIdle (th_dc t) \<Longrightarrow> th_pipes t' = th_pipes t"
    "dc_state (th_dc t') = DS_START \<Longrightarrow> dc_state (th_dc t) = DS_START"
    "dc_state (th_dc t') = DS_ERROR \<Longrightarrow> dc_state (th_dc t) = DS_START \<or> dc_state (th_dc t) = DS_ERROR"
    "dc_ok (th_dc t) \<Longrightarrow> dc_ok (th_dc t')" "pipes_ok t \<Longrightarrow> pipes_ok t'"
    "th_pipes t p = Some cs \<Longrightarrow> \<exists>ds. th_pipes t' p = Some (cs @ ds)"
    "dc_pipe (th_dc t) \<noteq> Some p \<or> th_pipes t p = None \<Longrightarrow> th_pipes t' p = th_pipes t p"
  using assms unfolding progress_def by blast+

lemma progress_refl: "progress t t"
  unfolding progress_def by (auto intro!: exI[of _ "th_dc t"] exI[of _ "th_pipes t"] exI[of _ "th_tape t"])

lemma progress_trans:
  assumes 1: "progress t u" and 2: "progress u v"
  shows "progress t v"
proof -
  have eq: "\<exists>d ps tape. v = t\<lparr>th_dc := d, th_pipes := ps, th_tape := tape\<rparr>"
  proof -
    obtain d ps tape where u: "u = t\<lparr>th_dc := d, th_pipes := ps, th_tape := tape\<rparr>"
      using 1 unfolding progress_def by blast
    obtain d2 ps2 tape2 where v: "v = u\<lparr>th_dc := d2, th_pipes := ps2, th_tape := tape2\<rparr>"
      using 2 unfolding progress_def by blast
    have "v = t\<lparr>th_dc := d2, th_pipes := ps2, th_tape := tape2\<rparr>" by (simp add: u v)
    then show ?thesis by blast
  qed
  note d1 = progressD[OF 1] and d2 = progressD[OF 2]
  have idle: "dc_IsIdle (th_dc t) \<Longrightarrow> dc_IsIdle (th_dc u)"
    using d1(4) by (simp add: dc_IsIdle_def)
  have ext: "\<exists>ds. th_pipes v p = Some (cs @ ds)" if cs: "th_pipes t p = Some cs" for p cs
  proof -
    obtain ds where "th_pipes u p = Some (cs @ ds)" using d1(10)[OF cs] by blast
    from d2(10)[OF this] show ?thesis by auto
  qed
  have f: "dc_song (th_dc v) = dc_song (th_dc t)" "dc_pipe (th_dc v) = dc_pipe (th_dc t)"
    using d1(2,3) d2(2,3) by simp_all
  have i: "dc_IsIdle (th_dc t) \<longrightarrow> dc_state (th_dc v) = dc_state (th_dc t) \<and> th_pipes v = th_pipes t"
    using d1(4,5) d2(4,5) idle by simp
  have st: "dc_state (th_dc v) = DS_START \<longrightarrow> dc_state (th_dc t) = DS_START"
    "dc_state (th_dc v) = DS_ERROR \<longrightarrow> dc_state (th_dc t) = DS_START \<or> dc_state (th_dc t) = DS_ERROR"
    using d1(6,7) d2(6,7) by blast+
  have oks: "dc_ok (th_dc t) \<longrightarrow> dc_ok (th_dc v)" "pipes_ok t \<longrightarrow> pipes_ok v" using d1(8,9) d2(8,9) by blast+
  have o: "dc_pipe (th_dc t) \<noteq> Some p \<or> th_pipes t p = None \<longrightarrow> th_pipes v p = th_pipes t p" for p
    using d1(3) d1(11)[of p] d2(11)[of p] by auto
  show ?thesis unfolding progress_def using eq f i st oks ext o by blast
qed

lemma decoder_initialized_fields [simp]:
  "dc_song (decoder_initialized a b c e d) = dc_song d" "dc_pipe (decoder_initialized a b c e d) = dc_pipe d"
  "dc_state (decoder_initialized a b c e d) = DS_DECODE" "dc_out_audio_format (decoder_initialized a b c e d) = b"
  by (simp_all add: decoder_initialized_def)

lemma decoder_song_finished_fields [simp]:
  "dc_song (decoder_song_finished r e d) = dc_song d" "dc_pipe (decoder_song_finished r e d) = dc_pipe d"
  "dc_state (decoder_song_finished r e d) = (if r then DS_STOP else DS_ERROR)"
  "dc_out_audio_format (decoder_song_finished r e d) = dc_out_audio_format d"
  by (simp_all add: decoder_song_finished_def)

lemma set_dc_progress:
  assumes "dc_song d = dc_song (th_dc t)" "dc_pipe d = dc_pipe (th_dc t)"
    "dc_IsIdle (th_dc t) \<Longrightarrow> dc_state d = dc_state (th_dc t)"
    "dc_state d = DS_START \<Longrightarrow> dc_state (th_dc t) = DS_START"
    "dc_state d = DS_ERROR \<Longrightarrow> dc_state (th_dc t) = DS_START \<or> dc_state (th_dc t) = DS_ERROR"
    "dc_ok (th_dc t) \<Longrightarrow> dc_ok d"
  shows "progress t (set_dc d t)"
  unfolding progress_def using assms
  by (auto intro!: exI[of _ d] exI[of _ "th_pipes t"] exI[of _ "th_tape t"] simp: pipes_ok_def)

lemma push_progress:
  assumes "dc_pipe (th_dc t) = Some p" "fresh_chunk c" "\<not> dc_IsIdle (th_dc t)" "pipe_Push p c t = Some t'"
  shows "progress t t'"
proof -
  obtain cs where cs: "th_pipes t p = Some cs" and t': "t' = t\<lparr>th_pipes := (th_pipes t)(p \<mapsto> cs @ [c])\<rparr>"
    using assms(4) by (auto simp: pipe_Push_def bind_eq_Some_conv)
  have ok: "pipes_ok t \<longrightarrow> pipes_ok t'" using cs assms(2) by (auto simp: pipes_ok_def t')
  show ?thesis
    unfolding progress_def using assms(1,3) cs ok
    by (auto simp: t' intro!: exI[of _ "th_dc t"] exI[of _ "(th_pipes t)(p \<mapsto> cs @ [c])"] exI[of _ "th_tape t"])
qed

lemma decoder_step_progress: "progress t (decoder_step e t)"
proof (cases e)
  case (DE_initialized af out seekable total_time)
  then show ?thesis
    using progress_refl by (auto intro!: set_dc_progress simp: dc_ok_def dc_IsIdle_def)
next
  case (DE_chunk c)
  then show ?thesis
    using push_progress[of t _ c] progress_refl[of t]
    by (cases "dc_pipe (th_dc t)") (auto simp: dc_IsIdle_def split: option.splits)
next
  case (DE_finished err)
  then show ?thesis
    using progress_refl by (cases "dc_state (th_dc t)") (auto intro!: set_dc_progress simp: dc_ok_def dc_IsIdle_def)
qed (use progress_refl in \<open>auto intro!: set_dc_progress simp: dc_ok_def dc_IsIdle_def\<close>)

lemma fold_decoder_step_progress: "progress t (fold decoder_step es t)"
  by (induction es arbitrary: t) (auto intro: progress_refl progress_trans decoder_step_progress)

lemma tape_progress: "progress t (t\<lparr>th_tape := tape\<rparr>)"
  unfolding progress_def by (auto intro!: exI[of _ "th_dc t"] exI[of _ "th_pipes t"] exI[of _ tape] simp: pipes_ok_def)

definition inp :: "thread \<Rightarrow> input" where
  "inp t = fst (yield t)"

lemma yield_eq [simp]: "yield t = (inp t, lock t)"
  by (simp add: inp_def lock_def)

lemma lock_progress: "progress t (lock t)"
  unfolding lock_def yield_def
  by (cases "th_tape t") (auto intro: progress_trans tape_progress fold_decoder_step_progress simp del: fold.simps)

lemmas lockD = progressD[OF lock_progress]

lemma lock_fields [simp]:
  "pc_command (lock t) = pc_command t" "pc_state (lock t) = pc_state t" "pc_next_song (lock t) = pc_next_song t"
  "pc_border_pause (lock t) = pc_border_pause t" "pc_error_type (lock t) = pc_error_type t"
  "th_player (lock t) = th_player t" "th_next_pipe (lock t) = th_next_pipe t" "th_calls (lock t) = th_calls t"
  "th_stack_format (lock t) = th_stack_format t" "th_failed (lock t) = th_failed t"
  "dc_song (th_dc (lock t)) = dc_song (th_dc t)" "dc_pipe (th_dc (lock t)) = dc_pipe (th_dc t)"
  "pc_seek_where (lock t) = pc_seek_where t" "th_schedule (lock t) = th_schedule t"
proof -
  obtain d ps tape where eq: "lock t = t\<lparr>th_dc := d, th_pipes := ps, th_tape := tape\<rparr>"
    using lock_progress[of t] unfolding progress_def by blast
  show "pc_command (lock t) = pc_command t" "pc_state (lock t) = pc_state t" "pc_next_song (lock t) = pc_next_song t"
    "pc_border_pause (lock t) = pc_border_pause t" "pc_error_type (lock t) = pc_error_type t"
    "th_player (lock t) = th_player t" "th_next_pipe (lock t) = th_next_pipe t" "th_calls (lock t) = th_calls t"
    "th_stack_format (lock t) = th_stack_format t" "th_failed (lock t) = th_failed t"
    "pc_seek_where (lock t) = pc_seek_where t" "th_schedule (lock t) = th_schedule t"
    by (simp_all add: eq)
  show "dc_song (th_dc (lock t)) = dc_song (th_dc t)" "dc_pipe (th_dc (lock t)) = dc_pipe (th_dc t)"
    using lock_progress[of t] unfolding progress_def by blast+
qed

lemma output_call_eq [simp]:
  "output_call c t = (lock t)\<lparr>th_calls := c # th_calls t\<rparr>"
  by (simp add: output_call_def Let_def)

lemma lock_dom: "dom (th_pipes (lock t)) = dom (th_pipes t)"
proof -
  have "(th_pipes (lock t) p = None) = (th_pipes t p = None)" for p
    using lockD(10)[of t p] lockD(11)[of t p] by (cases "th_pipes t p") auto
  then show ?thesis by (auto simp: dom_def)
qed

lemma lock_ok: "dc_ok (th_dc t) \<Longrightarrow> dc_ok (th_dc (lock t))" "pipes_ok t \<Longrightarrow> pipes_ok (lock t)"
  using lockD(8,9) by blast+

lemma lock_pipe: "th_pipes t p = Some cs \<Longrightarrow> \<exists>ds. th_pipes (lock t) p = Some (cs @ ds)"
  by (rule lockD(10))

lemma lock_other_pipe: "dc_pipe (th_dc t) \<noteq> Some p \<Longrightarrow> th_pipes (lock t) p = th_pipes t p"
  using lockD(11) by blast

lemma lock_idle: "dc_IsIdle (th_dc t) \<Longrightarrow> dc_state (th_dc (lock t)) = dc_state (th_dc t) \<and> th_pipes (lock t) = th_pipes t"
  using lockD(4,5) by blast

lemma lock_IsIdle: "dc_IsIdle (th_dc t) \<Longrightarrow> dc_IsIdle (th_dc (lock t))"
  using lock_idle[of t] by (simp add: dc_IsIdle_def)

lemma lock_not_starting: "dc_state (th_dc t) \<noteq> DS_START \<Longrightarrow> dc_state (th_dc (lock t)) \<noteq> DS_START"
  using lockD(6) by blast

lemma lock_not_error: "dc_state (th_dc t) \<noteq> DS_START \<Longrightarrow> dc_state (th_dc t) \<noteq> DS_ERROR \<Longrightarrow> dc_state (th_dc (lock t)) \<noteq> DS_ERROR"
  using lockD(7) by blast

lemma pipe_Push_tape: "pipe_Push p c t = Some t' \<Longrightarrow> th_tape t' = th_tape t"
  by (cases "th_pipes t p") (auto simp: pipe_Push_def ensure_def split: if_splits)

lemma tape_decoder_step [simp]: "th_tape (decoder_step e t) = th_tape t"
proof (cases e)
  case (DE_chunk c)
  then show ?thesis
    using pipe_Push_tape[of _ c t] by (cases "dc_pipe (th_dc t)") (simp_all split: option.split)
qed simp_all

lemma tape_fold [simp]: "th_tape (fold decoder_step es t) = th_tape t"
  by (induction es arbitrary: t) auto

lemma lock_tape: "th_tape (lock t) = tl (th_tape t)"
  by (cases "th_tape t") (simp_all add: lock_def yield_def del: yield_eq fold.simps)

text \<open>At the end of the tape the decoder is up or has failed, and outputs are ready.\<close>

lemma lock_end: "th_tape t = [] \<Longrightarrow> dc_state (th_dc (lock t)) \<noteq> DS_START" "th_tape t = [] \<Longrightarrow> inp t = last_input"
  by (simp_all add: lock_def yield_def inp_def last_input_def dc_IsIdle_def del: yield_eq)

lemma core0_lock: "core0 t py \<Longrightarrow> core0 (lock t) py"
  using lock_ok[of t] by (auto simp: core0_def lock_dom IsDecoderAtNextSong_def IsDecoderAtCurrentSong_def)

lemma core_lock: "core t py \<Longrightarrow> core (lock t) py"
  using core0_lock by (auto simp: core_def)

lemma playing_lock: "playing t py \<Longrightarrow> playing (lock t) py"
  by (simp add: playing_def core_lock)

lemma stopped_lock: "stopped t \<Longrightarrow> stopped (lock t)"
  using lock_idle[of t] by (auto simp: stopped_def lock_IsIdle)

end
