(* ===== verification/Player_Decoder.thy ===== *)
theory Player_Decoder
  imports Player_Progress
begin

text \<open>
  The methods of the player by which it starts, stops, awaits and seeks the decoder: no
  assertion of theirs fails, they keep the invariant, and no pipe is leaked or used after it
  has been freed.
\<close>

section \<open>What an operation leaves alone\<close>

definition same_ctl :: "thread \<Rightarrow> thread \<Rightarrow> bool" where
  "same_ctl t t' \<longleftrightarrow> pc_command t' = pc_command t \<and> pc_state t' = pc_state t \<and> pc_next_song t' = pc_next_song t \<and>
     pc_border_pause t' = pc_border_pause t \<and> pc_error_type t' = pc_error_type t \<and> pc_seek_where t' = pc_seek_where t \<and>
     th_player t' = th_player t \<and> th_calls t' = th_calls t \<and> th_stack_format t' = th_stack_format t \<and>
     th_failed t' = th_failed t"

lemma same_ctl_refl [simp]: "same_ctl t t" by (simp add: same_ctl_def)

lemma same_ctl_trans: "same_ctl t u \<Longrightarrow> same_ctl u v \<Longrightarrow> same_ctl t v" by (simp add: same_ctl_def)

lemma same_ctl_lock [simp]: "same_ctl t (lock t)" by (simp add: same_ctl_def)

definition fr :: "thread \<Rightarrow> thread \<Rightarrow> bool" where
  "fr t t' \<longleftrightarrow> pc_command t' = pc_command t \<and> pc_border_pause t' = pc_border_pause t \<and> th_failed t' = th_failed t \<and>
     (pc_next_song t' = pc_next_song t \<or> pc_next_song t' = None)"

lemma fr_refl [simp]: "fr t t" by (simp add: fr_def)

lemma fr_trans: "fr t u \<Longrightarrow> fr u v \<Longrightarrow> fr t v" by (auto simp: fr_def)

lemma fr_lock [simp]: "fr t (lock t)" by (simp add: fr_def)

lemma same_ctl_fr: "same_ctl t t' \<Longrightarrow> fr t t'" by (simp add: fr_def same_ctl_def)

section \<open>Pipes\<close>

lemma pipe_Clear_loop_ok:
  assumes "th_pipes t p = Some cs" "\<forall>c\<in>set cs. fresh_chunk c"
  shows "pipe_Clear_loop (Suc (length cs)) p t = Some (t\<lparr>th_pipes := (th_pipes t)(p \<mapsto> [])\<rparr>)"
  using assms
proof (induction cs arbitrary: t)
  case Nil
  then have "pipe_Clear_loop (Suc (length [])) p t = Some t" by (simp add: pipe_Shift_def)
  moreover have "t = t\<lparr>th_pipes := (th_pipes t)(p \<mapsto> [])\<rparr>" using Nil by (simp add: fun_upd_idem)
  ultimately show ?case by (rule trans[OF _ arg_cong[of _ _ Some]])
next
  case (Cons c cs)
  let ?t = "t\<lparr>th_pipes := (th_pipes t)(p \<mapsto> cs)\<rparr>"
  have sh: "pipe_Shift p t = Some (Some c, ?t)"
    using Cons.prems by (simp add: pipe_Shift_def fresh_chunk_def ensure_def)
  have "pipe_Clear_loop (Suc (length (c # cs))) p t = pipe_Clear_loop (Suc (length cs)) p ?t"
    unfolding list.size(4) add_0_right add_Suc_right
    by (subst pipe_Clear_loop.simps(2)) (simp add: sh del: pipe_Clear_loop.simps)
  also have "pipe_Clear_loop (Suc (length cs)) p ?t = Some (?t\<lparr>th_pipes := (th_pipes ?t)(p \<mapsto> [])\<rparr>)"
    by (rule Cons.IH) (use Cons.prems in simp_all)
  also have "?t\<lparr>th_pipes := (th_pipes ?t)(p \<mapsto> [])\<rparr> = t\<lparr>th_pipes := (th_pipes t)(p \<mapsto> [])\<rparr>"
    by (simp add: fun_upd_upd del: fun_upd_apply)
  finally show ?case .
qed

lemma pipe_Clear_ok:
  assumes "pipes_ok t" "th_pipes t p \<noteq> None"
  shows "pipe_Clear p t = Some (t\<lparr>th_pipes := (th_pipes t)(p \<mapsto> [])\<rparr>)"
proof -
  obtain cs where cs: "th_pipes t p = Some cs" using assms(2) by blast
  then show ?thesis
    using pipe_Clear_loop_ok[OF cs] assms(1) by (simp add: pipe_Clear_def pipe_GetSize_def pipes_ok_def)
qed

lemma pipes_ok_upd:
  "pipes_ok t \<Longrightarrow> th_pipes t p \<noteq> None \<Longrightarrow> \<forall>c\<in>set cs. fresh_chunk c \<Longrightarrow> pipes_ok (t\<lparr>th_pipes := (th_pipes t)(p \<mapsto> cs)\<rparr>)"
  "pipes_ok t \<Longrightarrow> pipes_ok (t\<lparr>th_pipes := (th_pipes t)(p := None)\<rparr>)"
  by (auto simp: pipes_ok_def)

section \<open>Commands to the decoder\<close>

lemma dc_Stop_ok:
  shows "same_ctl t (dc_Stop t)" "dc_IsIdle (th_dc (dc_Stop t))"
    "dc_pipe (th_dc (dc_Stop t)) = dc_pipe (th_dc t)" "dom (th_pipes (dc_Stop t)) = dom (th_pipes t)"
    "pipes_ok t \<Longrightarrow> pipes_ok (dc_Stop t)"
    "th_next_pipe (dc_Stop t) = th_next_pipe t"
proof -
  have p: "pipes_ok (set_dc d u) = pipes_ok u" for d u by (simp add: pipes_ok_def)
  show "same_ctl t (dc_Stop t)" "dc_pipe (th_dc (dc_Stop t)) = dc_pipe (th_dc t)"
    "dom (th_pipes (dc_Stop t)) = dom (th_pipes t)" "pipes_ok t \<Longrightarrow> pipes_ok (dc_Stop t)"
    "th_next_pipe (dc_Stop t) = th_next_pipe t" "dc_IsIdle (th_dc (dc_Stop t))"
    using lock_dom[of t] lock_ok(2)[of t]
    by (auto simp: dc_Stop_def Let_def same_ctl_def p dc_IsIdle_def simp del: dom_def)
qed

lemma StopDecoder_ok:
  assumes py: "th_player t = Some py" and ok: "pipes_ok t"
    and dom: "dom (th_pipes t) = insert (py_pipe py) (set_option (dc_pipe (th_dc t)))"
  shows "\<exists>t'. StopDecoder t = Some t' \<and> same_ctl t t' \<and> dc_pipe (th_dc t') = None \<and> dc_IsIdle (th_dc t') \<and>
    dom (th_pipes t') = {py_pipe py} \<and> pipes_ok t' \<and>
    (dc_pipe (th_dc t) = Some (py_pipe py) \<longrightarrow> th_pipes t' (py_pipe py) = Some [])"
proof (cases "dc_pipe (th_dc t)")
  case None
  then show ?thesis using dc_Stop_ok[of t] py ok dom by (simp add: StopDecoder_def)
next
  case (Some q)
  let ?t = "dc_Stop t"
  note s = dc_Stop_ok[of t]
  have q: "dc_pipe (th_dc ?t) = Some q" "pipes_ok ?t" "th_pipes ?t q \<noteq> None"
    using Some s ok dom by auto
  let ?c = "?t\<lparr>th_pipes := (th_pipes ?t)(q \<mapsto> [])\<rparr>"
  have c: "pipe_Clear q ?t = Some ?c" by (rule pipe_Clear_ok[OF q(2,3)])
  have okc: "pipes_ok ?c" by (rule pipes_ok_upd(1)[OF q(2,3)]) simp
  have domc: "dom (th_pipes ?c) = insert (py_pipe py) {q}" using s(4) dom Some by auto
  show ?thesis
  proof (cases "q = py_pipe py")
    case True
    let ?r = "set_dc ((th_dc ?c)\<lparr>dc_pipe := None\<rparr>) ?c"
    have "StopDecoder t = Some ?r" using py q c True by (simp add: StopDecoder_def Let_def)
    moreover have "same_ctl t ?r" "dc_IsIdle (th_dc ?r)" using s(1,2) by (simp_all add: same_ctl_def dc_IsIdle_def)
    moreover have "pipes_ok ?r" using okc by (simp add: pipes_ok_def)
    ultimately show ?thesis using domc True by (intro exI[of _ ?r]) (simp del: dom_def)
  next
    case False
    let ?d = "?c\<lparr>th_pipes := (th_pipes ?c)(q := None)\<rparr>"
    let ?r = "set_dc ((th_dc ?d)\<lparr>dc_pipe := None\<rparr>) ?d"
    have "pipe_delete q ?c = Some ?d" by (simp add: pipe_delete_def)
    then have "StopDecoder t = Some ?r" using py q c False by (simp add: StopDecoder_def Let_def)
    moreover have "same_ctl t ?r" "dc_IsIdle (th_dc ?r)" using s(1,2) by (simp_all add: same_ctl_def dc_IsIdle_def)
    moreover have "pipes_ok ?r" using pipes_ok_upd(2)[OF okc, of q] by (simp add: pipes_ok_def)
    moreover have "dom (th_pipes ?d) = {py_pipe py}" using domc False by auto
    ultimately show ?thesis using Some False by (intro exI[of _ ?r]) (simp del: dom_def)
  qed
qed

lemma dc_Start_ok:
  assumes "th_pipes t p = Some []" "pipes_ok t" "dc_IsIdle (th_dc t)"
  shows "\<exists>t'. dc_Start s a b p t = Some t' \<and> same_ctl t t' \<and> dc_pipe (th_dc t') = Some p \<and> dc_song (th_dc t') = Some s \<and>
    dc_ok (th_dc t') \<and> th_pipes t' = th_pipes t \<and> pipes_ok t' \<and> dc_state (th_dc t') \<noteq> DS_STOP \<and> dc_state (th_dc t') \<noteq> DS_DECODE"
proof -
  let ?t = "set_dc ((th_dc t)\<lparr>dc_song := Some s, dc_start_ms := a, dc_end_ms := b, dc_pipe := Some p\<rparr>) t"
  let ?d = "CycleMixRamp (dc_ClearError (th_dc (lock ?t)))"
  let ?e = "decoder_run (inp ?t) (?d\<lparr>dc_replay_gain_prev_db := dc_replay_gain_db ?d, dc_replay_gain_db := 0\<rparr>)"
  have eq: "dc_Start s a b p t = Some (set_dc ?e (lock ?t))"
    using assms(1) by (simp add: dc_Start_def Let_def)
  have idle: "dc_IsIdle (th_dc ?t)" using assms(3) by (simp add: dc_IsIdle_def)
  have e: "dc_pipe ?e = Some p" "dc_song ?e = Some s" "dc_state ?e = DS_START \<or> dc_state ?e = DS_ERROR"
    by (simp_all add: decoder_run_def CycleMixRamp_def dc_ClearError_def Let_def)
  have "dc_ok ?e" using e by (auto simp: dc_ok_def)
  moreover have "th_pipes (lock ?t) = th_pipes t" using lock_idle[OF idle] by simp
  moreover have "pipes_ok (set_dc ?e (lock ?t))" using assms(2) lock_ok(2)[of ?t] by (simp add: pipes_ok_def)
  moreover have "same_ctl t (set_dc ?e (lock ?t))" by (simp add: same_ctl_def)
  ultimately show ?thesis using eq e by (intro exI[of _ "set_dc ?e (lock ?t)"]) auto
qed

lemma dc_Seek_ok:
  assumes st: "dc_state (th_dc t) \<noteq> DS_START" and whr: "whr \<ge> 0" and ok: "pipes_ok t" "dc_ok (th_dc t)"
    and p: "dc_pipe (th_dc t) = Some p" "th_pipes t p \<noteq> None"
  shows "\<exists>r t'. dc_Seek whr t = Some (r, t') \<and> same_ctl t t' \<and> dc_pipe (th_dc t') = Some p \<and>
    dom (th_pipes t') = dom (th_pipes t) \<and> pipes_ok t' \<and> dc_ok (th_dc t')"
proof (cases "dc_state (th_dc t) = DS_STOP \<or> dc_state (th_dc t) = DS_ERROR \<or> \<not> dc_seekable (th_dc t)")
  case True
  then show ?thesis using assms by (auto simp: dc_Seek_def)
next
  case False
  then have dec: "dc_state (th_dc t) = DS_DECODE" using st by (cases "dc_state (th_dc t)") auto
  let ?t = "set_dc (dc_ClearError ((th_dc t)\<lparr>dc_seek_where := whr, dc_seek_error := False\<rparr>)) t"
  let ?l = "lock ?t"
  have eqd: "dc_ClearError ((th_dc t)\<lparr>dc_seek_where := whr, dc_seek_error := False\<rparr>) =
      (th_dc t)\<lparr>dc_seek_where := whr, dc_seek_error := False\<rparr>"
    using dec by (simp add: dc_ClearError_def)
  have t: "dc_ok (th_dc ?t)" "pipes_ok ?t" "dc_pipe (th_dc ?t) = Some p" "th_pipes ?t = th_pipes t"
    "dc_song (th_dc ?t) = dc_song (th_dc t)" "dc_state (th_dc ?t) = DS_DECODE"
    using ok p dec by (simp_all add: eqd dc_ok_def pipes_ok_def dc_IsIdle_def)
  have l: "dc_ok (th_dc ?l)" "pipes_ok ?l" "dc_pipe (th_dc ?l) = Some p" "dom (th_pipes ?l) = dom (th_pipes t)"
    "th_pipes ?l p \<noteq> None" "dc_state (th_dc ?l) \<noteq> DS_START"
    using lock_ok[of ?t] t lock_dom[of ?t] p lock_not_starting[of ?t] by auto
  have sl: "same_ctl t ?l" using same_ctl_trans[OF _ same_ctl_lock[of ?t]] by (simp add: same_ctl_def)
  let ?c = "?l\<lparr>th_pipes := (th_pipes ?l)(p \<mapsto> [])\<rparr>"
  have c: "pipe_Clear p ?l = Some ?c" by (rule pipe_Clear_ok[OF l(2,5)])
  have cok: "pipes_ok ?c" by (rule pipes_ok_upd(1)[OF l(2,5)]) simp
  have cdom: "dom (th_pipes ?c) = dom (th_pipes t)" using l(4,5) by auto
  note unf = dc_Seek_def Let_def yield_eq prod.case
  show ?thesis
  proof (cases "dc_IsIdle (th_dc ?l)")
    case True
    let ?r = "set_dc (decoder_run (inp ?t) (th_dc ?c)) ?c"
    have "dc_Seek whr t = Some (\<not> dc_seek_error (th_dc ?r), ?r)"
      using False st whr True c l(3) by (simp add: unf)
    moreover have "dc_ok (th_dc ?r)" "dc_pipe (th_dc ?r) = Some p"
      using l(1,3) by (auto simp: decoder_run_def dc_ClearError_def Let_def dc_ok_def dc_IsIdle_def)
    moreover have "pipes_ok ?r" "same_ctl t ?r" using cok sl by (simp_all add: pipes_ok_def same_ctl_def)
    ultimately show ?thesis using cdom by (intro exI[of _ "\<not> dc_seek_error (th_dc ?r)"] exI[of _ ?r]) (simp del: dom_def)
  next
    case nidle: False
    show ?thesis
    proof (cases "in_ok (inp ?t)")
      case True
      have "dc_Seek whr t = Some (\<not> dc_seek_error (th_dc ?c), ?c)"
        using False st whr nidle True c l(3) by (simp add: unf)
      moreover have "same_ctl t ?c" using sl by (simp add: same_ctl_def)
      ultimately show ?thesis using cdom cok l(1,3)
        by (intro exI[of _ "\<not> dc_seek_error (th_dc ?c)"] exI[of _ ?c]) (simp del: dom_def)
    next
      case no: False
      let ?r = "set_dc ((th_dc ?l)\<lparr>dc_seek_error := True\<rparr>) ?l"
      have "dc_Seek whr t = Some (False, ?r)" using False st whr nidle no l(3) by (simp add: unf)
      moreover have "dc_ok (th_dc ?r)" "pipes_ok ?r" "same_ctl t ?r"
        using l(1,2) sl by (simp_all add: dc_ok_def pipes_ok_def same_ctl_def dc_IsIdle_def)
      ultimately show ?thesis using l(3,4) by (intro exI[of _ False] exI[of _ ?r]) (simp del: dom_def)
    qed
  qed
qed

end
