(* ===== verification/Player_Startup.thy ===== *)
theory Player_Startup
  imports Player_Decoder
begin

text \<open>
  Waiting for the decoder and opening the outputs: no assertion fails and the invariant
  is kept; the loop in which a seek waits for the decoder ends.
\<close>

lemma coreD:
  assumes "core t py"
  shows "th_player t = Some py" "pipes_ok t" "dc_ok (th_dc t)"
    "dom (th_pipes t) = insert (py_pipe py) (set_option (dc_pipe (th_dc t)))"
    "py_queued py \<Longrightarrow> pc_next_song t \<noteq> None"
    "pc_command t = PC_QUEUE \<or> pc_command t = PC_SEEK \<or> py_queued py \<or> pc_next_song t = None"
    "IsDecoderAtNextSong py t \<Longrightarrow> py_queued py"
    "py_decoder_starting py \<Longrightarrow> dc_pipe (th_dc t) = Some (py_pipe py)"
    "IsDefined (py_play_audio_format py) \<Longrightarrow> IsValid (py_play_audio_format py)"
    "py_output_open py \<Longrightarrow> IsDefined (py_play_audio_format py) \<and> opened (th_calls t)"
    "calls_ok (th_calls t)"
  using assms by (simp_all add: core_def core0_def)

lemma core_pipe: "core t py \<Longrightarrow> \<exists>cs. th_pipes t (py_pipe py) = Some cs"
  using coreD(4)[of t py] by (metis domD insertI1)

lemma core_dc_pipe: "core t py \<Longrightarrow> dc_pipe (th_dc t) = Some q \<Longrightarrow> \<exists>cs. th_pipes t q = Some cs"
  using coreD(4)[of t py] by (metis domD insertI2 option.set_intros)

lemma same_ctl_core:
  assumes "core t py" "same_ctl t t'" "pipes_ok t'" "dc_ok (th_dc t')" "dom (th_pipes t') = dom (th_pipes t)"
    "dc_pipe (th_dc t') = dc_pipe (th_dc t)"
  shows "core t' py"
  using assms by (simp add: core_def core0_def same_ctl_def IsDecoderAtNextSong_def IsDecoderAtCurrentSong_def)

lemma WaitForDecoder_ok:
  assumes c: "core t py" and q: "py_queued py \<or> pc_command t = PC_SEEK" and n: "pc_next_song t \<noteq> None"
    and d: "dc_pipe (th_dc t) = Some (py_pipe py)"
  shows "\<exists>ok t' py'. WaitForDecoder t = Some (ok, t') \<and> core t' py' \<and> fr t t' \<and> pc_next_song t' = None \<and>
    pc_state t' = pc_state t \<and> dc_pipe (th_dc t') = Some (py_pipe py) \<and>
    py_pipe py' = py_pipe py \<and> py_paused py' = py_paused py \<and> \<not> py_queued py' \<and>
    (ok \<longrightarrow> py_song py' \<noteq> None \<and> py_decoder_starting py') \<and> (\<not> ok \<longrightarrow> py_song py' = py_song py) \<and>
    (py_song py \<noteq> None \<longrightarrow> py_song py' \<noteq> None)"
proof -
  obtain s where s: "pc_next_song t = Some s" using n by blast
  let ?u = "t\<lparr>th_player := Some (py\<lparr>py_queued := False\<rparr>)\<rparr>"
  let ?t = "lock ?u"
  have u: "pipes_ok ?u" "dc_ok (th_dc ?u)" using coreD(2,3)[OF c] by (simp_all add: pipes_ok_def)
  have l: "pipes_ok ?t" "dc_ok (th_dc ?t)" "dom (th_pipes ?t) = {py_pipe py}"
    "dc_pipe (th_dc ?t) = Some (py_pipe py)" "th_player ?t = Some (py\<lparr>py_queued := False\<rparr>)"
    using lock_ok[of ?u] u lock_dom[of ?u] coreD(4)[OF c] d coreD(1)[OF c] by auto
  show ?thesis
  proof (cases "dc_GetError (th_dc ?t)")
    case (Some err)
    let ?r = "(pc_SetError PE_DECODER err ?t)\<lparr>pc_next_song := None\<rparr>"
    have eq: "WaitForDecoder t = Some (False, ?r)"
      using coreD(1)[OF c] q s by (simp add: WaitForDecoder_def Some Let_def)
    have p: "pipes_ok ?r" using l(1) by (simp add: pipes_ok_def pc_SetError_def)
    have "core ?r (py\<lparr>py_queued := False\<rparr>)"
      using c l p d by (simp add: core_def core0_def pc_SetError_def IsDecoderAtNextSong_def IsDecoderAtCurrentSong_def)
    then show ?thesis using eq l
      by (intro exI[of _ False] exI[of _ ?r] exI[of _ "py\<lparr>py_queued := False\<rparr>"]) (simp add: fr_def pc_SetError_def)
  next
    case None
    let ?py = "py\<lparr>py_queued := False, py_song := Some s, py_elapsed_time := 0, py_decoder_starting := True\<rparr>"
    let ?v = "on_player (\<lambda>py. py\<lparr>py_song := Some s, py_elapsed_time := 0, py_decoder_starting := True\<rparr>) (pc_ClearTaggedSong ?t)"
    let ?r = "emit GE_PLAYLIST (?v\<lparr>pc_total_time := GetDuration s, pc_bit_rate := 0,
       pc_audio_format := AudioFormat_Clear (pc_audio_format ?v), pc_next_song := None\<rparr>)"
    have eq: "WaitForDecoder t = Some (True, ?r)"
      using coreD(1)[OF c] q s by (simp add: WaitForDecoder_def None Let_def)
    have p: "pipes_ok ?r" using l(1) by (simp add: pipes_ok_def pc_ClearTaggedSong_def emit_def)
    have "core ?r ?py"
      using c l p d by (simp add: core_def core0_def pc_ClearTaggedSong_def emit_def IsDecoderAtNextSong_def IsDecoderAtCurrentSong_def)
    then show ?thesis using eq l
      by (intro exI[of _ True] exI[of _ ?r] exI[of _ ?py]) (simp add: fr_def pc_ClearTaggedSong_def emit_def)
  qed
qed

lemma OpenOutput_ok:
  assumes c: "core0 t py" and f: "IsDefined (py_play_audio_format py)" and st: "pc_state t \<noteq> PS_STOP"
  shows "\<exists>ok t'. OpenOutput t = Some (ok, t') \<and> core t' (py\<lparr>py_output_open := ok, py_paused := \<not> ok\<rparr>) \<and> fr t t' \<and>
    pc_next_song t' = pc_next_song t \<and> pc_state t' = (if \<not> ok then PS_PAUSE else PS_PLAY) \<and>
    dc_pipe (th_dc t') = dc_pipe (th_dc t) \<and> length (th_tape t') \<le> length (th_tape t) \<and>
    (dc_state (th_dc t) \<noteq> DS_START \<longrightarrow> dc_state (th_dc t') \<noteq> DS_START)"
proof -
  have st: "pc_state t = PS_PLAY \<or> pc_state t = PS_PAUSE" using st by (cases "pc_state t") auto
  let ?ok = "in_ok (inp t)"
  let ?py = "py\<lparr>py_output_open := ?ok, py_paused := \<not> ?ok\<rparr>"
  let ?u = "on_player (\<lambda>py. py\<lparr>py_output_open := ?ok, py_paused := \<not> ?ok\<rparr>) ((lock t)\<lparr>th_calls := OC_open ?ok # th_calls t\<rparr>)"
  have c1: "core0 (lock t) py" by (rule core0_lock[OF c])
  have tp0: "th_player t = Some py" using c by (simp add: core0_def)
  have "core ?u ?py"
    using c1 f by (simp add: core_def core0_def pipes_ok_def IsDecoderAtNextSong_def IsDecoderAtCurrentSong_def)
  then have c2: "core (lock ?u) ?py" by (rule core_lock)
  have tp: "length (th_tape (lock ?u)) \<le> length (th_tape t)" by (simp add: lock_tape)
  have ns: "dc_state (th_dc t) \<noteq> DS_START \<Longrightarrow> dc_state (th_dc (lock ?u)) \<noteq> DS_START"
    using lock_not_starting[of t] lock_not_starting[of ?u] by simp
  show ?thesis
  proof (cases ?ok)
    case True
    let ?r = "add_idle IDLE_PLAYER ((lock ?u)\<lparr>pc_state := PS_PLAY\<rparr>)"
    have "OpenOutput t = Some (True, ?r)"
      using tp0 f st True by (simp add: OpenOutput_def Let_def)
    moreover have "core ?r ?py"
      using c2 by (simp add: core_def core0_def pipes_ok_def add_idle_def IsDecoderAtNextSong_def IsDecoderAtCurrentSong_def)
    ultimately show ?thesis using True tp ns
      by (intro exI[of _ True] exI[of _ ?r]) (simp add: fr_def add_idle_def)
  next
    case False
    let ?r = "add_idle IDLE_PLAYER ((pc_SetError PE_OUTPUT (in_error (inp t)) (lock ?u))\<lparr>pc_state := PS_PAUSE\<rparr>)"
    have "OpenOutput t = Some (False, ?r)"
      using tp0 f st False by (simp add: OpenOutput_def Let_def)
    moreover have "core ?r ?py"
      using c2 by (simp add: core_def core0_def pipes_ok_def add_idle_def pc_SetError_def IsDecoderAtNextSong_def IsDecoderAtCurrentSong_def)
    ultimately show ?thesis using False tp ns
      by (intro exI[of _ False] exI[of _ ?r]) (simp add: fr_def add_idle_def pc_SetError_def)
  qed
qed

lemma core0_update:
  assumes "core0 t py" "th_dc t' = th_dc t" "th_pipes t' = th_pipes t" "th_next_pipe t' = th_next_pipe t"
    "pc_command t' = pc_command t" "pc_next_song t' = pc_next_song t" "th_calls t' = th_calls t"
    "th_stack_format t' = th_stack_format t" "th_player t' = Some py"
  shows "core0 t' py"
  using assms by (simp add: core0_def pipes_ok_def IsDecoderAtNextSong_def IsDecoderAtCurrentSong_def)

lemma core_update:
  assumes "core t py" "th_dc t' = th_dc t" "th_pipes t' = th_pipes t" "th_next_pipe t' = th_next_pipe t"
    "pc_command t' = pc_command t" "pc_next_song t' = pc_next_song t" "th_calls t' = th_calls t"
    "th_stack_format t' = th_stack_format t" "th_player t' = Some py"
  shows "core t' py"
  using assms core0_update[of t py t'] by (simp add: core_def)

lemma CheckDecoderStartup_ok:
  assumes p: "playing t py" and ds: "py_decoder_starting py"
  shows "\<exists>ok t' py'. CheckDecoderStartup t = Some (ok, t') \<and> playing t' py' \<and> fr t t' \<and>
    pc_next_song t' = pc_next_song t \<and> dc_pipe (th_dc t') = dc_pipe (th_dc t) \<and>
    py_pipe py' = py_pipe py \<and> py_queued py' = py_queued py \<and>
    (ok \<and> py_decoder_starting py' \<longrightarrow> th_tape t \<noteq> [] \<and> length (th_tape t') < length (th_tape t)) \<and>
    (\<not> py_decoder_starting py' \<longrightarrow> dc_state (th_dc t') \<noteq> DS_START)"
proof -
  have c: "core t py" and sg: "py_song py \<noteq> None" and st: "pc_state t = (if py_paused py then PS_PAUSE else PS_PLAY)"
    using p by (simp_all add: playing_def)
  let ?l = "lock t"
  have cl: "core ?l py" by (rule core_lock[OF c])
  have pl: "playing ?l py" by (rule playing_lock[OF p])
  have d: "dc_pipe (th_dc t) = Some (py_pipe py)" by (rule coreD(8)[OF c ds])
  show ?thesis
  proof (cases "dc_GetError (th_dc ?l)")
    case (Some err)
    let ?r = "pc_SetError PE_DECODER err ?l"
    have "CheckDecoderStartup t = Some (False, ?r)"
      using coreD(1)[OF c] ds Some by (simp add: CheckDecoderStartup_def Let_def)
    moreover have "core ?r py"
      by (rule core_update[OF cl]) (simp_all add: pc_SetError_def coreD(1)[OF c])
    ultimately show ?thesis using sg st ds
      by (intro exI[of _ False] exI[of _ ?r] exI[of _ py]) (simp add: playing_def fr_def pc_SetError_def)
  next
    case None
    show ?thesis
    proof (cases "dc_IsStarting (th_dc ?l)")
      case True
      let ?r = "lock ?l"
      have "CheckDecoderStartup t = Some (True, ?r)"
        using coreD(1)[OF c] ds None True by (simp add: CheckDecoderStartup_def Let_def)
      moreover have "th_tape t \<noteq> []" using lock_end(1)[of t] True by (auto simp: dc_IsStarting_def)
      moreover have "length (th_tape ?r) < length (th_tape t)" using calculation(2) by (cases "th_tape t") (auto simp: lock_tape)
      ultimately show ?thesis using playing_lock[OF pl] ds
        by (intro exI[of _ True] exI[of _ ?r] exI[of _ py]) (simp add: fr_def)
    next
      case started: False
      let ?w = "py_output_open py \<and> \<not> in_ok (inp ?l)"
      let ?m = "if py_output_open py then lock ?l else ?l"
      have cm: "core ?m py" using core_lock[OF cl] cl by simp
      have nostart: "dc_state (th_dc ?m) \<noteq> DS_START"
        using started lock_not_starting[of ?l] by (simp add: dc_IsStarting_def)
      have noerr: "dc_state (th_dc ?m) \<noteq> DS_ERROR"
        using started None lock_not_error[of ?l] by (auto simp: dc_IsStarting_def dc_GetError_def split: if_splits)
      have mf: "th_player ?m = Some py" "pc_state ?m = pc_state t" "pc_next_song ?m = pc_next_song t"
        "fr t ?m" "dc_pipe (th_dc ?m) = Some (py_pipe py)"
        using coreD(1)[OF c] d by (auto simp: fr_def)
      show ?thesis
      proof (cases ?w)
        case True
        have eq: "CheckDecoderStartup t = Some (True, ?m)"
          using coreD(1)[OF c] ds None started True by (simp add: CheckDecoderStartup_def Let_def)
        have tp: "th_tape t \<noteq> []"
        proof
          assume "th_tape t = []"
          then have "th_tape ?l = []" by (simp add: lock_tape)
          then show False using lock_end(2)[of ?l] True by (simp add: last_input_def)
        qed
        then have "length (th_tape ?m) < length (th_tape t)" by (cases "th_tape t") (auto simp: lock_tape)
        then show ?thesis using eq cm sg st mf tp ds d
          by (intro exI[of _ True] exI[of _ ?m] exI[of _ py]) (simp add: playing_def)
      next
        case go: False
        let ?n = "lock ?m"
        have cn: "core ?n py" by (rule core_lock[OF cm])
        have n: "dc_state (th_dc ?n) \<noteq> DS_START" "dc_state (th_dc ?n) \<noteq> DS_ERROR"
          using lock_not_starting[OF nostart] lock_not_error[OF nostart noerr] by simp_all
        have nd: "dc_pipe (th_dc ?n) = Some (py_pipe py)" using mf(5) by simp
        obtain s where s: "dc_song (th_dc ?n) = Some s"
          using coreD(3)[OF cn] nd by (auto simp: dc_ok_def)
        have v: "IsValid (dc_out_audio_format (th_dc ?n))"
          using coreD(3)[OF cn] nd n by (cases "dc_state (th_dc ?n)") (auto simp: dc_ok_def)
        then have def: "IsDefined (dc_out_audio_format (th_dc ?n))"
          by (auto simp: IsValid_def IsDefined_def audio_valid_sample_rate_def)
        let ?py = "py\<lparr>py_play_audio_format := dc_out_audio_format (th_dc ?n), py_decoder_starting := False\<rparr>"
        let ?a = "add_idle IDLE_PLAYER (?n\<lparr>pc_total_time := real_song_duration s (dc_total_time (th_dc ?n)),
            pc_audio_format := dc_in_audio_format (th_dc ?n)\<rparr>)"
        let ?v = "?a\<lparr>th_player := Some ?py\<rparr>"
        have op: "py_output_open py \<Longrightarrow> opened (th_calls t)" using coreD(10)[OF c] by blast
        have eq: "CheckDecoderStartup t =
            (if \<not> py_paused py then map_option (\<lambda>(ok, t). (True, t)) (OpenOutput ?v) else Some (True, ?v))"
        proof -
          have fold: "on_player (\<lambda>py. py\<lparr>py_play_audio_format := dc_out_audio_format (th_dc ?a),
              py_decoder_starting := False\<rparr>) ?a = ?v" using mf(1) by (simp add: add_idle_def)
          show ?thesis
            using coreD(1)[OF c] ds None started go s mf(1)
            by (cases "py_output_open py"; cases "OpenOutput ?v")
              (simp_all add: CheckDecoderStartup_def Let_def add_idle_def split: prod.splits)
        qed
        have cv: "core0 ?v ?py"
          using cn v def nd mf(1) sg
          by (auto simp: core_def core0_def add_idle_def pipes_ok_def IsDecoderAtNextSong_def IsDecoderAtCurrentSong_def)
        show ?thesis
        proof (cases "py_paused py")
          case True
          then have "core ?v ?py" using cv by (simp add: core_def)
          then show ?thesis using eq True sg st n(1) nd d mf(3,4)
            by (intro exI[of _ True] exI[of _ ?v] exI[of _ ?py]) (simp add: playing_def add_idle_def fr_def)
        next
          case False
          have stv: "pc_state ?v \<noteq> PS_STOP" using st by (simp add: add_idle_def)
          have "IsDefined (py_play_audio_format ?py)" using def by simp
          from OpenOutput_ok[OF cv this stv] obtain ok t2 where o: "OpenOutput ?v = Some (ok, t2)"
            "core t2 (?py\<lparr>py_output_open := ok, py_paused := \<not> ok\<rparr>)" "fr ?v t2" "pc_next_song t2 = pc_next_song ?v"
            "pc_state t2 = (if \<not> ok then PS_PAUSE else PS_PLAY)" "dc_pipe (th_dc t2) = dc_pipe (th_dc ?v)"
            "dc_state (th_dc ?v) \<noteq> DS_START \<longrightarrow> dc_state (th_dc t2) \<noteq> DS_START"
            by blast
          have "fr ?m ?v" by (simp add: fr_def add_idle_def)
          from fr_trans[OF fr_trans[OF mf(4) this] o(3)] have "fr t t2" .
          then show ?thesis using eq False o sg n(1) nd d
            by (intro exI[of _ True] exI[of _ t2] exI[of _ "?py\<lparr>py_output_open := ok, py_paused := \<not> ok\<rparr>"])
              (simp add: playing_def add_idle_def)
        qed
      qed
    qed
  qed
qed

lemma wait_startup_ok:
  assumes "playing t py" "startup_fuel t \<le> n"
  shows "\<exists>ok t' py'. wait_startup n t = Some (ok, t') \<and> playing t' py' \<and> fr t t' \<and>
    pc_next_song t' = pc_next_song t \<and> dc_pipe (th_dc t') = dc_pipe (th_dc t) \<and>
    py_pipe py' = py_pipe py \<and> py_queued py' = py_queued py \<and>
    (ok \<longrightarrow> \<not> py_decoder_starting py') \<and> (ok \<and> py_decoder_starting py \<longrightarrow> dc_state (th_dc t') \<noteq> DS_START) \<and>
    (\<not> py_decoder_starting py \<longrightarrow> t' = t)"
  using assms
proof (induction n arbitrary: t py)
  case 0
  then show ?case by (simp add: startup_fuel_def)
next
  case (Suc n)
  have tp: "th_player t = Some py" using Suc.prems(1) by (simp add: playing_def core_def core0_def)
  show ?case
  proof (cases "py_decoder_starting py")
    case False
    then show ?thesis using Suc.prems(1) tp by (intro exI[of _ True] exI[of _ t] exI[of _ py]) simp
  next
    case True
    obtain ok u pu where u: "CheckDecoderStartup t = Some (ok, u)" "playing u pu" "fr t u"
      "pc_next_song u = pc_next_song t" "dc_pipe (th_dc u) = dc_pipe (th_dc t)"
      "py_pipe pu = py_pipe py" "py_queued pu = py_queued py"
      "ok \<and> py_decoder_starting pu \<longrightarrow> th_tape t \<noteq> [] \<and> length (th_tape u) < length (th_tape t)"
      "\<not> py_decoder_starting pu \<longrightarrow> dc_state (th_dc u) \<noteq> DS_START"
      using CheckDecoderStartup_ok[OF Suc.prems(1) True] by blast
    have eq: "wait_startup (Suc n) t = (if \<not> ok then Some (False, u) else wait_startup n u)"
      using tp True u(1) by simp
    show ?thesis
    proof (cases ok)
      case False
      then show ?thesis using eq u True by (intro exI[of _ False] exI[of _ u] exI[of _ pu]) simp
    next
      case ok: True
      show ?thesis
      proof (cases "py_decoder_starting pu")
        case False
        have up: "th_player u = Some pu" using u(2) by (simp add: playing_def core_def core0_def)
        have "n \<noteq> 0" using Suc.prems(2) by (auto simp: startup_fuel_def)
        then obtain m where "n = Suc m" by (cases n) auto
        then have "wait_startup (Suc n) t = Some (True, u)" using eq ok up False by simp
        then show ?thesis using u True False by (intro exI[of _ True] exI[of _ u] exI[of _ pu]) simp
      next
        case st: True
        have "startup_fuel u \<le> n" using u(8) ok st Suc.prems(2) by (auto simp: startup_fuel_def)
        from Suc.IH[OF u(2) this] obtain ok2 v pv where v: "wait_startup n u = Some (ok2, v)" "playing v pv" "fr u v"
          "pc_next_song v = pc_next_song u" "dc_pipe (th_dc v) = dc_pipe (th_dc u)"
          "py_pipe pv = py_pipe pu" "py_queued pv = py_queued pu" "ok2 \<longrightarrow> \<not> py_decoder_starting pv"
          "ok2 \<and> py_decoder_starting pu \<longrightarrow> dc_state (th_dc v) \<noteq> DS_START"
          by blast
        show ?thesis using eq ok u v st True fr_trans[OF u(3) v(3)]
          by (intro exI[of _ ok2] exI[of _ v] exI[of _ pv]) simp
      qed
    qed
  qed
qed

end
