(* ===== verification/Player_Commands.thy ===== *)
theory Player_Commands
  imports Player_Startup
begin

text \<open>
  Commands of the main thread while the player thread plays: no assertion fails, with the one
  exception of a seek to a song the decoder is just starting to decode ahead.
\<close>

section \<open>Finishing a command\<close>

lemma pc_CommandFinished_ok:
  assumes "playing t py" "pc_command t \<noteq> PC_NONE" "py_queued py \<or> pc_next_song t = None"
  shows "\<exists>t'. pc_CommandFinished t = Some t' \<and> playing t' py \<and> pc_command t' = PC_NONE \<and>
    pc_next_song t' = pc_next_song t \<and> pc_border_pause t' = pc_border_pause t \<and> th_failed t' = th_failed t"
  using assms
  by (auto simp: pc_CommandFinished_def playing_def core_def core0_def pipes_ok_def IsDecoderAtNextSong_def
      IsDecoderAtCurrentSong_def)

section \<open>Seeking\<close>

lemma restart_ok:
  assumes p: "playing t py" and q: "py_queued py \<or> pc_command t = PC_SEEK" and n: "pc_next_song t = Some s"
  shows "\<exists>ok t' py'. do { t \<leftarrow> StopDecoder t; t \<leftarrow> pipe_Clear (py_pipe py) t; t \<leftarrow> StartDecoder (py_pipe py) t; WaitForDecoder t }
      = Some (ok, t') \<and> playing t' py' \<and> fr t t' \<and> pc_next_song t' = None \<and> \<not> py_queued py' \<and>
    dc_pipe (th_dc t') = Some (py_pipe py') \<and> (ok \<longrightarrow> py_decoder_starting py')"
proof -
  have c: "core t py" using p by (simp add: playing_def)
  obtain t1 where t1: "StopDecoder t = Some t1" "same_ctl t t1" "dc_pipe (th_dc t1) = None" "dc_IsIdle (th_dc t1)"
    "dom (th_pipes t1) = {py_pipe py}" "pipes_ok t1"
    using StopDecoder_ok[OF coreD(1,2,4)[OF c]] by blast
  have p1: "th_pipes t1 (py_pipe py) \<noteq> None" using t1(5) by (metis domIff insertI1)
  let ?t2 = "t1\<lparr>th_pipes := (th_pipes t1)(py_pipe py \<mapsto> [])\<rparr>"
  have t2: "pipe_Clear (py_pipe py) t1 = Some ?t2" "pipes_ok ?t2" "dc_IsIdle (th_dc ?t2)" "th_pipes ?t2 (py_pipe py) = Some []"
    using pipe_Clear_ok[OF t1(6) p1] pipes_ok_upd(1)[OF t1(6) p1, of "[]"] t1(4) by simp_all
  have s2: "same_ctl t ?t2" using t1(2) by (simp add: same_ctl_def)
  have ctl: "th_player ?t2 = Some py" "pc_command ?t2 = pc_command t" "pc_next_song ?t2 = Some s"
    using s2 coreD(1)[OF c] n by (simp_all add: same_ctl_def)
  let ?ms = "song_start_ms s + (if pc_command ?t2 = PC_SEEK then word_of_int (trunc (pc_seek_where ?t2 * 1000)) else 0)"
  obtain t3 where t3: "dc_Start (DupDetached s) ?ms (song_end_ms s) (py_pipe py) ?t2 = Some t3" "same_ctl ?t2 t3"
    "dc_pipe (th_dc t3) = Some (py_pipe py)" "dc_ok (th_dc t3)" "th_pipes t3 = th_pipes ?t2" "pipes_ok t3"
    using dc_Start_ok[OF t2(4,2,3)] by blast
  have sd: "StartDecoder (py_pipe py) ?t2 = Some t3"
    unfolding StartDecoder_def using ctl q t3(1) by (simp add: Let_def)
  have s3: "same_ctl t t3" by (rule same_ctl_trans[OF s2 t3(2)])
  have dom3: "dom (th_pipes t3) = {py_pipe py}" using t3(5) t1(5) by auto
  have c3: "core t3 py"
    using c s3 t3(3,4,6) dom3 by (simp add: core_def core0_def same_ctl_def IsDecoderAtNextSong_def IsDecoderAtCurrentSong_def)
  have pre: "py_queued py \<or> pc_command t3 = PC_SEEK" "pc_next_song t3 \<noteq> None"
    using q n s3 by (simp_all add: same_ctl_def)
  obtain ok t4 p4 where t4: "WaitForDecoder t3 = Some (ok, t4)" "core t4 p4" "fr t3 t4" "pc_next_song t4 = None"
    "pc_state t4 = pc_state t3" "dc_pipe (th_dc t4) = Some (py_pipe py)" "py_pipe p4 = py_pipe py"
    "py_paused p4 = py_paused py" "\<not> py_queued p4" "ok \<longrightarrow> py_song p4 \<noteq> None \<and> py_decoder_starting p4"
    "py_song py \<noteq> None \<longrightarrow> py_song p4 \<noteq> None"
    using WaitForDecoder_ok[OF c3 pre t3(3)] by blast
  have "playing t4 p4" using t4 p s3 by (simp add: playing_def same_ctl_def)
  then show ?thesis using t1(1) t2(1) sd t4 fr_trans[OF same_ctl_fr[OF s3] t4(3)]
    by (intro exI[of _ ok] exI[of _ t4] exI[of _ p4]) simp
qed

lemma exchange_ok:
  assumes p: "playing t py" and n: "pc_next_song t = Some s" and d: "dc_pipe (th_dc t) \<noteq> None" and cmd: "pc_command t = PC_SEEK"
  shows "\<exists>t' py'. do { t \<leftarrow> (if \<not> IsDecoderAtCurrentSong py t
                         then do { q \<leftarrow> dc_pipe (th_dc t); ClearAndReplacePipe q t } else Some t);
                    Some (True, on_player (py_queued_update (\<lambda>_. False)) (t\<lparr>pc_next_song := None\<rparr>)) } = Some (True, t') \<and>
     playing t' py' \<and> fr t t' \<and> pc_next_song t' = None \<and> \<not> py_queued py' \<and>
     dc_pipe (th_dc t') = Some (py_pipe py') \<and> dc_state (th_dc t') = dc_state (th_dc t) \<and>
     py_decoder_starting py' = py_decoder_starting py"
proof -
  have c: "core t py" using p by (simp add: playing_def)
  obtain q where q: "dc_pipe (th_dc t) = Some q" using d by blast
  show ?thesis
  proof (cases "IsDecoderAtCurrentSong py t")
    case True
    let ?t = "on_player (py_queued_update (\<lambda>_. False)) (t\<lparr>pc_next_song := None\<rparr>)"
    have "core ?t (py\<lparr>py_queued := False\<rparr>)"
      using c True by (simp add: core_def core0_def pipes_ok_def IsDecoderAtNextSong_def IsDecoderAtCurrentSong_def)
    then show ?thesis using True p
      by (intro exI[of _ ?t] exI[of _ "py\<lparr>py_queued := False\<rparr>"]) (simp add: playing_def fr_def IsDecoderAtCurrentSong_def)
  next
    case False
    then have ne: "q \<noteq> py_pipe py" using q by (simp add: IsDecoderAtCurrentSong_def)
    have pp: "th_pipes t (py_pipe py) \<noteq> None" using core_pipe[OF c] by simp
    let ?u = "t\<lparr>th_pipes := (th_pipes t)(py_pipe py \<mapsto> [])\<rparr>"
    let ?v = "?u\<lparr>th_pipes := (th_pipes ?u)(py_pipe py := None)\<rparr>"
    have u: "pipe_Clear (py_pipe py) t = Some ?u" "pipes_ok ?u"
      using pipe_Clear_ok[OF coreD(2)[OF c] pp] pipes_ok_upd(1)[OF coreD(2)[OF c] pp, of "[]"] by simp_all
    have vo: "pipes_ok ?v" using pipes_ok_upd(2)[OF u(2)] .
    have dom: "dom (th_pipes ?v) = {q}" using coreD(4)[OF c] q ne by auto
    let ?py = "py\<lparr>py_pipe := q, py_queued := False\<rparr>"
    let ?t = "?v\<lparr>th_player := Some ?py, pc_next_song := None\<rparr>"
    have crp: "ClearAndReplacePipe q t = Some (?v\<lparr>th_player := Some (py\<lparr>py_pipe := q\<rparr>)\<rparr>)"
      using coreD(1)[OF c] u(1) by (simp add: ClearAndReplacePipe_def ClearAndDeletePipe_def pipe_delete_def)
    have st: "\<not> py_decoder_starting py" using coreD(8)[OF c] q ne by auto
    have "pipes_ok ?t" using vo by (simp add: pipes_ok_def)
    then have "core ?t ?py"
      using c dom q st cmd by (simp add: core_def core0_def IsDecoderAtNextSong_def IsDecoderAtCurrentSong_def)
    then show ?thesis using False p q crp
      by (intro exI[of _ ?t] exI[of _ ?py]) (simp add: playing_def fr_def)
  qed
qed

definition seek_conflict :: "song \<Rightarrow> thread \<Rightarrow> player \<Rightarrow> bool" where
  "seek_conflict s t py \<longleftrightarrow> dc_state (th_dc t) = DS_START \<and> \<not> py_decoder_starting py \<and>
     (\<exists>d. dc_song (th_dc t) = Some d \<and> SongEquals d s)"

lemma seek_prepare_ok:
  assumes p: "playing t py" and cmd: "pc_command t = PC_SEEK" and n: "pc_next_song t = Some s"
  shows "\<exists>ok t' py'. seek_prepare s t = Some (ok, t') \<and> playing t' py' \<and> fr t t' \<and> pc_next_song t' = None \<and>
     \<not> py_queued py' \<and> dc_pipe (th_dc t') = Some (py_pipe py') \<and>
     (ok \<and> \<not> py_decoder_starting py' \<and> dc_state (th_dc t') = DS_START \<longrightarrow> seek_conflict s t py)"
proof -
  let ?l = "lock t"
  have pl: "playing ?l py" by (rule playing_lock[OF p])
  then have cl: "core ?l py" by (simp add: playing_def)
  have l: "pc_command ?l = PC_SEEK" "pc_next_song ?l = Some s" "fr t ?l" using cmd n by simp_all
  have dok: "dc_ok (th_dc ?l)" by (rule coreD(3)[OF cl])
  show ?thesis
  proof (cases "dc_IsIdle (th_dc ?l)")
    case True
    then have same: "dc_IsCurrentSong (th_dc ?l) s = Some False"
      by (auto simp: dc_IsCurrentSong_def dc_IsIdle_def)
    have "seek_prepare s t = do { t \<leftarrow> StopDecoder ?l; t \<leftarrow> pipe_Clear (py_pipe py) t; t \<leftarrow> StartDecoder (py_pipe py) t; WaitForDecoder t }"
      using coreD(1)[OF cl] by (simp add: seek_prepare_def Let_def same)
    moreover obtain ok t' py' where r: "do { t \<leftarrow> StopDecoder ?l; t \<leftarrow> pipe_Clear (py_pipe py) t; t \<leftarrow> StartDecoder (py_pipe py) t; WaitForDecoder t }
      = Some (ok, t')" "playing t' py'" "fr ?l t'" "pc_next_song t' = None" "\<not> py_queued py'"
      "dc_pipe (th_dc t') = Some (py_pipe py')" "ok \<longrightarrow> py_decoder_starting py'"
      using restart_ok[OF pl _ l(2)] l(1) by blast
    moreover have "ok \<and> \<not> py_decoder_starting py' \<and> dc_state (th_dc t') = DS_START \<longrightarrow> seek_conflict s t py"
      using r(7) by blast
    ultimately show ?thesis using fr_trans[OF l(3) r(3)] by (intro exI[of _ ok] exI[of _ t'] exI[of _ py']) simp
  next
    case False
    then have d: "dc_pipe (th_dc ?l) \<noteq> None" using dok by (auto simp: dc_ok_def)
    then obtain ds where ds: "dc_song (th_dc ?l) = Some ds" using dok by (auto simp: dc_ok_def)
    have same: "dc_IsCurrentSong (th_dc ?l) s = Some (SongEquals ds s)"
      using False ds by (cases "dc_state (th_dc ?l)") (auto simp: dc_IsCurrentSong_def dc_IsIdle_def)
    show ?thesis
    proof (cases "SongEquals ds s")
      case neq: False
      have "seek_prepare s t = do { t \<leftarrow> StopDecoder ?l; t \<leftarrow> pipe_Clear (py_pipe py) t; t \<leftarrow> StartDecoder (py_pipe py) t; WaitForDecoder t }"
        using coreD(1)[OF cl] neq by (simp add: seek_prepare_def Let_def same)
      moreover obtain ok t' py' where r: "do { t \<leftarrow> StopDecoder ?l; t \<leftarrow> pipe_Clear (py_pipe py) t; t \<leftarrow> StartDecoder (py_pipe py) t; WaitForDecoder t }
        = Some (ok, t')" "playing t' py'" "fr ?l t'" "pc_next_song t' = None" "\<not> py_queued py'"
        "dc_pipe (th_dc t') = Some (py_pipe py')" "ok \<longrightarrow> py_decoder_starting py'"
        using restart_ok[OF pl _ l(2)] l(1) by blast
      moreover have "ok \<and> \<not> py_decoder_starting py' \<and> dc_state (th_dc t') = DS_START \<longrightarrow> seek_conflict s t py"
      using r(7) by blast
    ultimately show ?thesis using fr_trans[OF l(3) r(3)] by (intro exI[of _ ok] exI[of _ t'] exI[of _ py']) simp
    next
      case eq: True
      obtain t' py' where r: "do { t \<leftarrow> (if \<not> IsDecoderAtCurrentSong py ?l
                         then do { q \<leftarrow> dc_pipe (th_dc ?l); ClearAndReplacePipe q ?l } else Some ?l);
                    Some (True, on_player (py_queued_update (\<lambda>_. False)) (t\<lparr>pc_next_song := None\<rparr>)) } = Some (True, t')"
        "playing t' py'" "fr ?l t'" "pc_next_song t' = None" "\<not> py_queued py'"
        "dc_pipe (th_dc t') = Some (py_pipe py')" "dc_state (th_dc t') = dc_state (th_dc ?l)"
        "py_decoder_starting py' = py_decoder_starting py"
        using exchange_ok[OF pl l(2) d l(1)] by blast
      have "seek_prepare s t = Some (True, t')"
        using coreD(1)[OF cl] eq r(1) by (simp add: seek_prepare_def Let_def same)
      moreover have "\<not> py_decoder_starting py' \<and> dc_state (th_dc t') = DS_START \<longrightarrow> seek_conflict s t py"
        using r(7,8) eq ds lock_not_starting[of t] by (auto simp: seek_conflict_def)
      ultimately show ?thesis using r fr_trans[OF l(3) r(3)]
        by (intro exI[of _ True] exI[of _ t'] exI[of _ py']) simp
    qed
  qed
qed

lemma seek_send_ok:
  assumes p: "playing t py" and cmd: "pc_command t = PC_SEEK" and n: "pc_next_song t = None"
    and d: "dc_pipe (th_dc t) = Some (py_pipe py)" and st: "dc_state (th_dc t) \<noteq> DS_START"
  shows "\<exists>ok t' py'. seek_send ms t = Some (ok, t') \<and> playing t' py' \<and> pc_command t' = PC_NONE \<and>
    pc_next_song t' = None \<and> pc_border_pause t' = pc_border_pause t \<and> th_failed t' = th_failed t"
proof -
  have c: "core t py" using p by (simp add: playing_def)
  define whr where "whr = (let w = pc_seek_where t; w = (if w > pc_total_time t then pc_total_time t - 1 / 10 else w)
    in if w < 0 then 0 else w)"
  have w0: "whr + real (unat ms) / 1000 \<ge> 0" by (simp add: whr_def Let_def del: of_nat_unat)
  have "th_pipes t (py_pipe py) \<noteq> None" using core_pipe[OF c] by auto
  from dc_Seek_ok[OF st w0 coreD(2,3)[OF c] d this] obtain r u where u: "dc_Seek (whr + real (unat ms) / 1000) t = Some (r, u)"
    "same_ctl t u" "dc_pipe (th_dc u) = Some (py_pipe py)" "dom (th_pipes u) = dom (th_pipes t)" "pipes_ok u" "dc_ok (th_dc u)"
    by blast
  have cu: "core u py" by (rule same_ctl_core[OF c u(2,5,6,4)]) (simp add: u(3) d)
  have pu: "playing u py" using cu p u(2) by (simp add: playing_def same_ctl_def)
  have ctl: "pc_command u = PC_SEEK" "pc_next_song u = None" "pc_border_pause u = pc_border_pause t" "th_failed u = th_failed t"
    using u(2) cmd n by (simp_all add: same_ctl_def)
  have unf: "seek_send ms t = (if \<not> r then do { t \<leftarrow> pc_CommandFinished (lock u); Some (False, t) }
      else do { t \<leftarrow> pc_CommandFinished (lock (on_player (py_elapsed_time_update (\<lambda>_. whr)) u));
            let t = on_player (\<lambda>py. py\<lparr>py_xfade_state := XF_UNKNOWN, py_buffering := True\<rparr>) t;
            Some (True, output_call OC_cancel t) })"
    unfolding seek_send_def Let_def whr_def[unfolded Let_def, symmetric] u(1) by simp
  show ?thesis
  proof (cases r)
    case False
    obtain v where "pc_CommandFinished (lock u) = Some v" "playing v py" "pc_command v = PC_NONE"
      "pc_next_song v = pc_next_song (lock u)" "pc_border_pause v = pc_border_pause (lock u)" "th_failed v = th_failed (lock u)"
      using pc_CommandFinished_ok[OF playing_lock[OF pu]] ctl by auto
    then show ?thesis using unf False ctl by (intro exI[of _ False] exI[of _ v] exI[of _ py]) simp
  next
    case True
    let ?p = "py\<lparr>py_elapsed_time := whr\<rparr>"
    let ?e = "on_player (py_elapsed_time_update (\<lambda>_. whr)) u"
    have "core ?e ?p"
      using cu by (simp add: core_def core0_def pipes_ok_def IsDecoderAtNextSong_def IsDecoderAtCurrentSong_def)
    then have "playing ?e ?p" using pu by (simp add: playing_def)
    then have pe: "playing (lock ?e) ?p" by (rule playing_lock)
    have pre: "pc_command (lock ?e) \<noteq> PC_NONE" "py_queued ?p \<or> pc_next_song (lock ?e) = None" using ctl by simp_all
    obtain v where v: "pc_CommandFinished (lock ?e) = Some v" "playing v ?p" "pc_command v = PC_NONE"
      "pc_next_song v = pc_next_song (lock ?e)" "pc_border_pause v = pc_border_pause (lock ?e)" "th_failed v = th_failed (lock ?e)"
      using pc_CommandFinished_ok[OF pe pre] by blast
    let ?q = "?p\<lparr>py_xfade_state := XF_UNKNOWN, py_buffering := True\<rparr>"
    let ?x = "on_player (\<lambda>py. py\<lparr>py_xfade_state := XF_UNKNOWN, py_buffering := True\<rparr>) v"
    have "core ?x ?q"
      using v(2) by (simp add: playing_def core_def core0_def pipes_ok_def IsDecoderAtNextSong_def IsDecoderAtCurrentSong_def)
    then have "core (lock ?x) ?q" by (rule core_lock)
    then have "core (output_call OC_cancel ?x) ?q"
      by (simp add: core_def core0_def pipes_ok_def IsDecoderAtNextSong_def IsDecoderAtCurrentSong_def)
    then have "playing (output_call OC_cancel ?x) ?q" using v(2) by (simp add: playing_def)
    then show ?thesis using unf True v ctl
      by (intro exI[of _ True] exI[of _ "output_call OC_cancel ?x"] exI[of _ ?q]) (simp add: Let_def)
  qed
qed

lemma SeekDecoder_ok:
  assumes p: "playing t py" and cmd: "pc_command t = PC_SEEK" and n: "pc_next_song t = Some s"
  shows "(\<exists>ok t' py'. SeekDecoder t = Some (ok, t') \<and> playing t' py' \<and> pc_command t' = PC_NONE \<and>
      pc_next_song t' = None \<and> pc_border_pause t' = pc_border_pause t \<and> th_failed t' = th_failed t) \<or>
    SeekDecoder t = None \<and> seek_conflict s t py"
proof -
  obtain ok u pu where u: "seek_prepare s t = Some (ok, u)" "playing u pu" "fr t u" "pc_next_song u = None"
    "\<not> py_queued pu" "dc_pipe (th_dc u) = Some (py_pipe pu)"
    "ok \<and> \<not> py_decoder_starting pu \<and> dc_state (th_dc u) = DS_START \<longrightarrow> seek_conflict s t py"
    using seek_prepare_ok[OF p cmd n] by blast
  have uc: "pc_command u = PC_SEEK" "pc_border_pause u = pc_border_pause t" "th_failed u = th_failed t"
    using u(3) cmd by (simp_all add: fr_def)
  have fail: "\<exists>t' py'. do { t \<leftarrow> pc_CommandFinished (lock v); Some (False, t) } = Some (False, t') \<and> playing t' py' \<and>
      pc_command t' = PC_NONE \<and> pc_next_song t' = None \<and> pc_border_pause t' = pc_border_pause t \<and> th_failed t' = th_failed t"
    if v: "playing v pv" "fr u v" "pc_next_song v = None" for v pv
  proof -
    have "pc_command (lock v) \<noteq> PC_NONE" "py_queued pv \<or> pc_next_song (lock v) = None" using v uc by (simp_all add: fr_def)
    from pc_CommandFinished_ok[OF playing_lock[OF v(1)] this] v uc show ?thesis by (auto simp: fr_def)
  qed
  show ?thesis
  proof (cases ok)
    case False
    then show ?thesis using u(1) n fail[OF u(2) fr_refl u(4)] by (auto simp: SeekDecoder_def)
  next
    case True
    obtain ok2 v pv where v: "wait_startup (startup_fuel u) u = Some (ok2, v)" "playing v pv" "fr u v"
      "pc_next_song v = pc_next_song u" "dc_pipe (th_dc v) = dc_pipe (th_dc u)" "py_pipe pv = py_pipe pu"
      "ok2 \<longrightarrow> \<not> py_decoder_starting pv" "ok2 \<and> py_decoder_starting pu \<longrightarrow> dc_state (th_dc v) \<noteq> DS_START"
      "\<not> py_decoder_starting pu \<longrightarrow> v = u"
      using wait_startup_ok[OF u(2) order_refl] by blast
    have vn: "pc_next_song v = None" using v(4) u(4) by simp
    show ?thesis
    proof (cases ok2)
      case False
      then show ?thesis using u(1) n True v(1) fail[OF v(2,3) vn] by (auto simp: SeekDecoder_def)
    next
      case ok2: True
      have eq: "SeekDecoder t = seek_send (song_start_ms s) v" using u(1) n True v(1) ok2 by (simp add: SeekDecoder_def)
      show ?thesis
      proof (cases "dc_state (th_dc v) = DS_START")
        case True
        then have "\<not> py_decoder_starting pu" "v = u" using v(8,9) ok2 by auto
        then have "seek_conflict s t py" using u(7) \<open>ok\<close> True by simp
        moreover have "seek_send (song_start_ms s) v = None"
          using True by (simp add: seek_send_def dc_Seek_def ensure_def Let_def)
        ultimately show ?thesis using eq by simp
      next
        case False
        have vc: "pc_command v = PC_SEEK" "pc_border_pause v = pc_border_pause t" "th_failed v = th_failed t"
          using v(3) uc by (simp_all add: fr_def)
        have dv: "dc_pipe (th_dc v) = Some (py_pipe pv)" using v(5,6) u(6) by simp
        from seek_send_ok[OF v(2) vc(1) vn dv False, of "song_start_ms s"] vc eq show ?thesis by auto
      qed
    qed
  qed
qed

end
