(* ===== verification/Player_Serve.thy ===== *)
theory Player_Serve
  imports Player_Commands
begin

text \<open>
  Every command of the main thread that reaches the loop of \<open>Run\<close>: no assertion fails, the
  command is finished or makes the loop end, and the invariant is kept.
\<close>

section \<open>Keeping the invariant\<close>

lemmas inv_defs = playing_def core_def core0_def pipes_ok_def IsDecoderAtNextSong_def IsDecoderAtCurrentSong_def

lemma playingD:
  assumes "playing t py"
  shows "core t py" "core0 t py" "py_song py \<noteq> None" "pc_state t = (if py_paused py then PS_PAUSE else PS_PLAY)"
    "pc_state t \<noteq> PS_STOP" "th_player t = Some py"
  using assms by (auto simp: playing_def core_def core0_def)

lemma playing_same_player:
  assumes "playing t py" "th_dc t' = th_dc t" "th_pipes t' = th_pipes t" "th_next_pipe t' = th_next_pipe t"
    "pc_command t' = pc_command t" "pc_next_song t' = pc_next_song t" "th_calls t' = th_calls t"
    "th_stack_format t' = th_stack_format t" "th_player t' = th_player t" "pc_state t' = pc_state t"
  shows "playing t' py"
  using assms by (simp add: inv_defs)

text \<open>A call of an output function that neither opens, closes nor plays.\<close>

lemma opened_call: "c \<in> {OC_pause, OC_cancel, OC_drain, OC_song_border, OC_enable_disable} \<Longrightarrow> opened (c # cs) = opened cs"
  "c \<in> {OC_pause, OC_cancel, OC_drain, OC_song_border, OC_enable_disable} \<Longrightarrow> calls_ok (c # cs) = calls_ok cs"
  by auto

lemma core_output_call:
  assumes "core t py" "c \<in> {OC_pause, OC_cancel, OC_drain, OC_song_border, OC_enable_disable}"
  shows "core (output_call c t) py"
  using core_lock[OF assms(1)] opened_call[OF assms(2)]
  by (simp add: inv_defs del: opened.simps calls_ok.simps)

lemma playing_output_call:
  assumes "playing t py" "c \<in> {OC_pause, OC_cancel, OC_drain, OC_song_border, OC_enable_disable}"
  shows "playing (output_call c t) py"
  using core_output_call[OF _ assms(2)] assms(1) by (simp add: playing_def)

section \<open>Commands\<close>

text \<open>What every command that is finished in the loop establishes.\<close>

definition done_in :: "thread \<Rightarrow> thread \<Rightarrow> bool" where
  "done_in t t' \<longleftrightarrow> (\<exists>py. playing t' py) \<and> pc_command t' = PC_NONE \<and> pc_border_pause t' = pc_border_pause t \<and>
     th_failed t' = th_failed t \<and> (pc_next_song t' = pc_next_song t \<or> pc_next_song t' = None)"

lemma finish_ok:
  assumes "playing u pu" "fr t u" "pc_command t \<noteq> PC_NONE" "py_queued pu \<or> pc_next_song u = None"
  shows "\<exists>t'. pc_CommandFinished u = Some t' \<and> done_in t t' \<and> pc_next_song t' = pc_next_song u"
proof -
  have "pc_command u \<noteq> PC_NONE" using assms(2,3) by (simp add: fr_def)
  from pc_CommandFinished_ok[OF assms(1) this assms(4)] show ?thesis
    using assms(2) by (auto simp: done_in_def fr_def)
qed

lemma process_update_audio:
  assumes p: "playing t py" and c: "pc_command t = PC_UPDATE_AUDIO"
  shows "\<exists>t'. ProcessCommand t = Some t' \<and> done_in t t'"
proof -
  let ?u = "lock (output_call OC_enable_disable t)"
  have "playing ?u py" by (rule playing_lock[OF playing_output_call[OF p]]) simp
  moreover have "fr t ?u" by (simp add: fr_def)
  moreover have "py_queued py \<or> pc_next_song ?u = None" using coreD(6)[OF playingD(1)[OF p]] c by auto
  ultimately obtain t' where "pc_CommandFinished ?u = Some t'" "done_in t t'"
    using finish_ok[of ?u py t] c by auto
  then show ?thesis using playingD(6)[OF p] c by (simp add: ProcessCommand_def)
qed

lemma process_queue:
  assumes p: "playing t py" and c: "pc_command t = PC_QUEUE" and n: "pc_next_song t = Some s" and q: "\<not> py_queued py"
  shows "\<exists>t'. ProcessCommand t = Some t' \<and> done_in t t' \<and> pc_next_song t' = Some s"
proof -
  have nx: "\<not> IsDecoderAtNextSong py t" using coreD(7)[OF playingD(1)[OF p]] q by blast
  let ?u = "on_player (py_queued_update (\<lambda>_. True)) t"
  let ?p = "py\<lparr>py_queued := True\<rparr>"
  have "playing ?u ?p" using p n by (simp add: inv_defs)
  from finish_ok[OF this, of t] obtain t' where "pc_CommandFinished ?u = Some t'" "done_in t t'" "pc_next_song t' = pc_next_song ?u"
    using c by (auto simp: fr_def)
  then show ?thesis using playingD(6)[OF p] c n q nx by (simp add: ProcessCommand_def)
qed

lemma process_pause:
  assumes p: "playing t py" and c: "pc_command t = PC_PAUSE"
  shows "\<exists>t'. ProcessCommand t = Some t' \<and> done_in t t'"
proof -
  note c1 = playingD(1)[OF p]
  have qn: "py_queued py \<or> pc_next_song t = None" using coreD(6)[OF c1] c by auto
  have tp: "th_player t = Some py" by (rule playingD(6)[OF p])
  have fin: ?thesis if "ProcessCommand t = pc_CommandFinished u" "playing u pu" "fr t u" "py_queued pu = py_queued py" for u pu
    using finish_ok[OF that(2,3)] c qn that by (auto simp: fr_def)
  show ?thesis
  proof (cases "py_paused py")
    case False
    let ?v = "on_player (py_paused_update (\<lambda>_. True)) t"
    let ?u = "(lock (output_call OC_pause ?v))\<lparr>pc_state := PS_PAUSE\<rparr>"
    have "core ?v (py\<lparr>py_paused := True\<rparr>)" using c1 by (simp add: inv_defs)
    then have "core (lock (output_call OC_pause ?v)) (py\<lparr>py_paused := True\<rparr>)"
      using core_lock[OF core_output_call[of ?v _ OC_pause]] by simp
    then have "playing ?u (py\<lparr>py_paused := True\<rparr>)" using p by (simp add: inv_defs)
    moreover have "ProcessCommand t = pc_CommandFinished ?u" using tp c False by (simp add: ProcessCommand_def)
    ultimately show ?thesis using fin[of ?u] by (simp add: fr_def)
  next
    case True
    let ?v = "on_player (py_paused_update (\<lambda>_. False)) t"
    have c0: "core0 ?v (py\<lparr>py_paused := False\<rparr>)" using c1 by (simp add: inv_defs)
    show ?thesis
    proof (cases "IsDefined (py_play_audio_format py)")
      case False
      let ?u = "(lock ?v)\<lparr>pc_state := PS_PLAY\<rparr>"
      have "core ?v (py\<lparr>py_paused := False\<rparr>)" using c0 False p by (auto simp: inv_defs)
      from core_lock[OF this] have "playing ?u (py\<lparr>py_paused := False\<rparr>)" using p by (simp add: inv_defs)
      moreover have "ProcessCommand t = pc_CommandFinished ?u" using tp c True False by (simp add: ProcessCommand_def)
      ultimately show ?thesis using fin[of ?u] by (simp add: fr_def)
    next
      case def: True
      obtain ok u where u: "OpenOutput ?v = Some (ok, u)"
        "core u ((py\<lparr>py_paused := False\<rparr>)\<lparr>py_output_open := ok, py_paused := \<not> ok\<rparr>)" "fr ?v u"
        "pc_state u = (if \<not> ok then PS_PAUSE else PS_PLAY)"
        using OpenOutput_ok[OF c0] def playingD(5)[OF p] by auto
      have "playing (lock u) (py\<lparr>py_output_open := ok, py_paused := \<not> ok\<rparr>)"
        by (rule playing_lock) (use u p in \<open>simp add: playing_def\<close>)
      moreover have "ProcessCommand t = pc_CommandFinished (lock u)"
        using tp c True def u(1) by (simp add: ProcessCommand_def)
      moreover have "fr t (lock u)" using u(3) by (simp add: fr_def)
      ultimately show ?thesis using fin[of "lock u"] by simp
    qed
  qed
qed

lemma process_cancel:
  assumes p: "playing t py" and c: "pc_command t = PC_CANCEL" and n: "pc_next_song t \<noteq> None"
  shows "\<exists>t'. ProcessCommand t = Some t' \<and> done_in t t' \<and> pc_next_song t' = None"
proof -
  note c1 = playingD(1)[OF p]
  have tp: "th_player t = Some py" by (rule playingD(6)[OF p])
  let ?f = "\<lambda>t. on_player (py_queued_update (\<lambda>_. False)) (t\<lparr>pc_next_song := None\<rparr>)"
  have fin: ?thesis if eq: "ProcessCommand t = pc_CommandFinished (?f u)" and u: "playing u py" "fr t u" "\<not> IsDecoderAtNextSong py u" for u
  proof -
    have "playing (?f u) (py\<lparr>py_queued := False\<rparr>)" using u by (simp add: inv_defs)
    from finish_ok[OF this, of t] obtain t' where "pc_CommandFinished (?f u) = Some t'" "done_in t t'"
      "pc_next_song t' = pc_next_song (?f u)" using c u(2) by (auto simp: fr_def)
    then show ?thesis using eq by simp
  qed
  show ?thesis
  proof (cases "IsDecoderAtNextSong py t")
    case False
    then have "ProcessCommand t = pc_CommandFinished (?f t)" using tp c n by (auto simp: ProcessCommand_def)
    then show ?thesis using fin[of t] p False by simp
  next
    case True
    obtain u where u: "StopDecoder t = Some u" "same_ctl t u" "dc_pipe (th_dc u) = None" "dc_IsIdle (th_dc u)"
      "dom (th_pipes u) = {py_pipe py}" "pipes_ok u"
      using StopDecoder_ok[OF coreD(1,2,4)[OF c1]] by blast
    have ns: "\<not> py_decoder_starting py"
      using coreD(8)[OF c1] True by (auto simp: IsDecoderAtNextSong_def IsDecoderAtCurrentSong_def)
    have "dc_ok (th_dc u)" using u(3,4) by (simp add: dc_ok_def)
    then have "playing u py"
      using p u ns by (simp add: playing_def core_def core0_def same_ctl_def IsDecoderAtNextSong_def IsDecoderAtCurrentSong_def)
    then have pl: "playing (lock u) py" by (rule playing_lock)
    have "ProcessCommand t = pc_CommandFinished (?f (lock u))"
      using tp c n True u(1) by (auto simp: ProcessCommand_def)
    moreover have "fr t (lock u)" using same_ctl_fr[OF u(2)] by (simp add: fr_def)
    moreover have "\<not> IsDecoderAtNextSong py (lock u)" using u(3) by (simp add: IsDecoderAtNextSong_def)
    ultimately show ?thesis using fin[of "lock u"] pl by simp
  qed
qed

lemma process_refresh:
  assumes p: "playing t py" and c: "pc_command t = PC_REFRESH"
  shows "\<exists>t'. ProcessCommand t = Some t' \<and> done_in t t'"
proof -
  let ?v = "if py_output_open py \<and> \<not> py_paused py then lock (lock t) else t"
  let ?u = "(lock ?v)\<lparr>pc_elapsed_time := (if in_time (inp ?v) < 0 then py_elapsed_time py else in_time (inp ?v))\<rparr>"
  have v: "playing ?v py" "fr t ?v" using p playing_lock[of "lock t"] playing_lock[OF p] by (auto simp: fr_def)
  have "playing (lock ?v) py" by (rule playing_lock[OF v(1)])
  then have "playing ?u py" by (rule playing_same_player) simp_all
  moreover have "fr t ?u" using v(2) by (simp add: fr_def)
  moreover have "py_queued py \<or> pc_next_song ?u = None" using coreD(6)[OF playingD(1)[OF p]] c by auto
  ultimately obtain t' where "pc_CommandFinished ?u = Some t'" "done_in t t'"
    using finish_ok[of ?u py t] c by auto
  moreover have "ProcessCommand t = pc_CommandFinished ?u"
    using playingD(6)[OF p] c by (simp add: ProcessCommand_def Let_def)
  ultimately show ?thesis by simp
qed

lemma process_seek:
  assumes p: "playing t py" and c: "pc_command t = PC_SEEK" and n: "pc_next_song t = Some s"
  shows "(\<exists>t'. ProcessCommand t = Some t' \<and> done_in t t' \<and> pc_next_song t' = None) \<or>
    ProcessCommand t = None \<and> seek_conflict s t py"
proof -
  have eq: "ProcessCommand t = do { (ok, t) \<leftarrow> SeekDecoder t; Some (lock t) }"
    using playingD(6)[OF p] c by (simp add: ProcessCommand_def)
  from SeekDecoder_ok[OF p c n] show ?thesis
  proof
    assume "\<exists>ok t' py'. SeekDecoder t = Some (ok, t') \<and> playing t' py' \<and> pc_command t' = PC_NONE \<and>
      pc_next_song t' = None \<and> pc_border_pause t' = pc_border_pause t \<and> th_failed t' = th_failed t"
    then obtain ok t' py' where r: "SeekDecoder t = Some (ok, t')" "playing t' py'" "pc_command t' = PC_NONE"
      "pc_next_song t' = None" "pc_border_pause t' = pc_border_pause t" "th_failed t' = th_failed t" by blast
    have "done_in t (lock t')" using r playing_lock[OF r(2)] by (auto simp: done_in_def)
    then show ?thesis using eq r by simp
  qed (simp add: eq)
qed

end
