(* ===== verification/Player_Passes.thy ===== *)
theory Player_Passes
  imports Player_Serve
begin

text \<open>
  One pass of the loop of \<open>Run\<close>: playing and cross-fading chunks, the border between two
  songs, silence, and decoding ahead.  No assertion fails and the invariant is kept.
\<close>

section \<open>Chunks\<close>

lemma pipe_Shift_ok:
  assumes "pipes_ok t" "th_pipes t p = Some cs"
  shows "pipe_Shift p t = Some (case cs of [] \<Rightarrow> (None, t) | c # cs \<Rightarrow> (Some c, t\<lparr>th_pipes := (th_pipes t)(p \<mapsto> cs)\<rparr>))"
    "pipes_ok (t\<lparr>th_pipes := (th_pipes t)(p \<mapsto> tl cs)\<rparr>)"
    "\<forall>c\<in>set cs. ck_other c = None"
proof -
  have f: "\<forall>c\<in>set cs. fresh_chunk c" using assms by (auto simp: pipes_ok_def)
  then show "pipe_Shift p t = Some (case cs of [] \<Rightarrow> (None, t) | c # cs \<Rightarrow> (Some c, t\<lparr>th_pipes := (th_pipes t)(p \<mapsto> cs)\<rparr>))"
    using assms(2) by (cases cs) (simp_all add: pipe_Shift_def fresh_chunk_def)
  show "\<forall>c\<in>set cs. ck_other c = None" using f by (auto simp: fresh_chunk_def)
  show "pipes_ok (t\<lparr>th_pipes := (th_pipes t)(p \<mapsto> tl cs)\<rparr>)"
    by (rule pipes_ok_upd(1)[OF assms(1)]) (use assms(2) f in \<open>auto dest: list.set_sel(2)\<close>, cases cs, auto)
qed

lemma shift_playing:
  assumes p: "playing t py" and cs: "th_pipes t q = Some cs"
  shows "playing (t\<lparr>th_pipes := (th_pipes t)(q \<mapsto> tl cs)\<rparr>) py"
proof -
  have "dom ((th_pipes t)(q \<mapsto> tl cs)) = dom (th_pipes t)" using cs by auto
  then show ?thesis
    using p pipe_Shift_ok(2)[OF coreD(2)[OF playingD(1)[OF p]] cs]
    by (simp add: playing_def core_def core0_def IsDecoderAtNextSong_def IsDecoderAtCurrentSong_def)
qed

text \<open>What holds while chunks are played: the outputs are open.\<close>

definition live :: "thread \<Rightarrow> player \<Rightarrow> bool" where
  "live t py \<longleftrightarrow> playing t py \<and> \<not> py_paused py \<and> \<not> py_decoder_starting py"

lemma live_open: "live t py \<Longrightarrow> py_output_open py \<and> opened (th_calls t)"
  by (auto simp: live_def inv_defs)

lemma live_lock: "live t py \<Longrightarrow> live (lock t) py"
  by (simp add: live_def playing_lock)

lemma live_same:
  assumes "live t py" "th_dc t' = th_dc t" "th_pipes t' = th_pipes t" "th_next_pipe t' = th_next_pipe t"
    "pc_command t' = pc_command t" "pc_next_song t' = pc_next_song t" "th_calls t' = th_calls t"
    "th_stack_format t' = th_stack_format t" "th_player t' = th_player t" "pc_state t' = pc_state t"
  shows "live t' py"
  using assms playing_same_player[of t py t'] by (simp add: live_def)

lemma live_player:
  assumes "live t py" "py_pipe py' = py_pipe py" "py_queued py' = py_queued py" "py_decoder_starting py' = py_decoder_starting py"
    "py_play_audio_format py' = py_play_audio_format py" "py_output_open py' = py_output_open py"
    "py_paused py' = py_paused py" "py_song py' \<noteq> None"
  shows "live (t\<lparr>th_player := Some py'\<rparr>) py'"
  using assms by (simp add: live_def inv_defs)

lemma play_playing: "playing t py \<Longrightarrow> py_output_open py \<Longrightarrow> playing (t\<lparr>th_calls := OC_play c # th_calls t\<rparr>) py"
  by (simp add: inv_defs)

lemma update_song_tag_ok:
  assumes l: "live t py"
  shows "\<exists>t' py'. update_song_tag tg t = Some t' \<and> live t' py' \<and> fr t t'"
proof -
  have tp: "th_player t = Some py" and "py_song py \<noteq> None" using l playingD by (auto simp: live_def)
  then obtain s where s: "py_song py = Some s" by blast
  show ?thesis
  proof (cases "IsFile s")
    case True
    then show ?thesis using tp s l by (intro exI[of _ t] exI[of _ py]) (simp add: update_song_tag_def)
  next
    case False
    let ?s = "s\<lparr>song_tag := Some tg\<rparr>"
    let ?u = "t\<lparr>th_player := Some (py\<lparr>py_song := Some ?s\<rparr>)\<rparr>"
    have lu: "live (lock ?u) (py\<lparr>py_song := Some ?s\<rparr>)" by (rule live_lock[OF live_player[OF l]]) simp_all
    let ?r = "add_idle IDLE_PLAYER (emit GE_TAG (pc_SetTaggedSong ?s (lock ?u)))"
    have "live ?r (py\<lparr>py_song := Some ?s\<rparr>)"
      by (rule live_same[OF lu]) (simp_all add: add_idle_def emit_def pc_SetTaggedSong_def)
    moreover have "update_song_tag tg t = Some ?r" using tp s False by (simp add: update_song_tag_def Let_def)
    ultimately show ?thesis
      by (intro exI[of _ ?r] exI[of _ "py\<lparr>py_song := Some ?s\<rparr>"]) (simp add: fr_def add_idle_def emit_def pc_SetTaggedSong_def)
  qed
qed

lemma play_chunk_ok:
  assumes l: "live t py"
  shows "\<exists>err t' py'. play_chunk chunk f t = Some (err, t') \<and> live t' py' \<and> fr t t'"
proof -
  obtain u pu where u: "(case ck_tag chunk of None \<Rightarrow> Some t | Some tg \<Rightarrow> update_song_tag tg t) = Some u" "live u pu" "fr t u"
    using update_song_tag_ok[OF l, of "the (ck_tag chunk)"] l by (cases "ck_tag chunk") auto
  show ?thesis
  proof (cases "ck_IsEmpty chunk")
    case True
    then show ?thesis using u by (intro exI[of _ None] exI[of _ u] exI[of _ pu]) (simp add: play_chunk_def)
  next
    case False
    let ?v = "(lock u)\<lparr>pc_bit_rate := ck_bit_rate chunk\<rparr>"
    let ?w = "(lock ?v)\<lparr>th_calls := OC_play chunk # th_calls (lock ?v)\<rparr>"
    have "live ?v pu" by (rule live_same[OF live_lock[OF u(2)]]) simp_all
    then have "live (lock ?v) pu" by (rule live_lock)
    then have w: "live ?w pu"
      using play_playing[of "lock ?v" pu chunk] live_open[of "lock ?v" pu] by (simp add: live_def)
    let ?x = "?w\<lparr>pc_total_play_time := pc_total_play_time ?w + real (ck_length chunk) / real (unat (GetTimeToSize f))\<rparr>"
    have x: "live ?x pu" by (rule live_same[OF w]) simp_all
    have "play_chunk chunk f t = Some (if \<not> in_ok (inp ?v) then (Some (in_error (inp ?v)), ?w) else (None, ?x))"
      using u(1) False by (simp add: play_chunk_def Let_def)
    moreover have "fr t ?w" "fr t ?x" using u(3) by (simp_all add: fr_def)
    ultimately show ?thesis using w x by (cases "in_ok (inp ?v)") auto
  qed
qed

lemma wake_decoder_ok:
  assumes p: "live t py"
  shows "\<exists>t' py'. wake_decoder t = Some t' \<and> live t' py' \<and> fr t t'"
proof -
  have l: "live (lock t) py" by (rule live_lock[OF p])
  then have c: "core (lock t) py" by (simp add: live_def playing_def)
  let ?h = "if dc_IsIdle (th_dc (lock t)) then Some False
      else do { q \<leftarrow> dc_pipe (th_dc (lock t)); n \<leftarrow> pipe_GetSize q (lock t);
                Some (n \<le> (th_buffered_before_play (lock t) + th_buffer_size (lock t) * 3) div 4) }"
  have "\<exists>h. ?h = Some h"
  proof (cases "dc_IsIdle (th_dc (lock t))")
    case False
    then obtain q where "dc_pipe (th_dc (lock t)) = Some q" using coreD(3)[OF c] by (auto simp: dc_ok_def)
    with core_dc_pipe[OF c this] False show ?thesis by (auto simp: pipe_GetSize_def)
  qed auto
  then obtain h where h: "?h = Some h" by blast
  let ?r = "(lock t)\<lparr>th_player := Some (py\<lparr>py_decoder_woken := h\<rparr>)\<rparr>"
  have "live ?r (py\<lparr>py_decoder_woken := h\<rparr>)"
    by (rule live_player[OF l]) (use l playingD in \<open>auto simp: live_def\<close>)
  moreover have "wake_decoder t = Some ?r"
    unfolding wake_decoder_def Let_def h using coreD(1)[OF c] by simp
  ultimately show ?thesis by (intro exI[of _ ?r] exI[of _ "py\<lparr>py_decoder_woken := h\<rparr>"]) (simp add: fr_def)
qed

section \<open>Cross-fading\<close>

lemma cross_fade_chunk_ok:
  assumes l: "live t py" and ne: "th_pipes t (py_pipe py) = Some (c # cs)"
  shows "\<exists>r t' py'. cross_fade_chunk t = Some (r, t') \<and> live t' py' \<and> fr t t' \<and> py_pipe py' = py_pipe py \<and>
    (r = Some None \<longrightarrow> (\<exists>c cs. th_pipes t' (py_pipe py) = Some (c # cs)))"
proof -
  have p: "playing t py" using l by (simp add: live_def)
  note c1 = playingD(1)[OF p]
  have tp: "th_player t = Some py" and sg: "py_song py \<noteq> None" using playingD[OF p] by blast+
  have sz: "pipe_GetSize (py_pipe py) t = Some (Suc (length cs))" using ne by (simp add: pipe_GetSize_def)
  show ?thesis
  proof (cases "py_xfade_state py = XF_ENABLED \<and> IsDecoderAtNextSong py t \<and> Suc (length cs) \<le> py_cross_fade_chunks py")
    case False
    then have "cross_fade_chunk t = Some (Some None, t)" using tp sz by (auto simp: cross_fade_chunk_def)
    then show ?thesis using l ne by (intro exI[of _ "Some None"] exI[of _ t] exI[of _ py]) simp
  next
    case True
    obtain q where q: "dc_pipe (th_dc t) = Some q" "q \<noteq> py_pipe py"
      using True by (auto simp: IsDecoderAtNextSong_def IsDecoderAtCurrentSong_def)
    obtain qs where qs: "th_pipes t q = Some qs" using core_dc_pipe[OF c1 q(1)] by blast
    let ?chunks = "if \<not> py_cross_fading py then Suc (length cs) else py_cross_fade_chunks py"
    let ?py = "py\<lparr>py_cross_fade_chunks := ?chunks, py_cross_fading := True\<rparr>"
    let ?s = "t\<lparr>th_pipes := (th_pipes t)(q \<mapsto> tl qs)\<rparr>"
    let ?u = "?s\<lparr>th_player := Some ?py\<rparr>"
    have sh: "pipe_Shift q t = Some (case qs of [] \<Rightarrow> None | x # _ \<Rightarrow> Some x, ?s)"
      using pipe_Shift_ok(1)[OF coreD(2)[OF c1] qs] qs by (cases qs) (simp_all add: fun_upd_idem)
    have lu: "live ?u ?py"
      by (rule live_player[where py = py]) (use l shift_playing[OF p qs] sg in \<open>simp_all add: live_def\<close>)
    have pu: "th_pipes ?u (py_pipe py) = Some (c # cs)" using ne q(2) by simp
    show ?thesis
    proof (cases qs)
      case Nil
      let ?v = "lock ?u"
      have lv: "live ?v ?py" by (rule live_lock[OF lu])
      have dq: "dc_pipe (th_dc ?u) \<noteq> Some (py_pipe py)" using q by simp
      have pv: "th_pipes ?v (py_pipe py) = Some (c # cs)" using lock_other_pipe[OF dq] pu by simp
      show ?thesis
      proof (cases "dc_IsIdle (th_dc ?v)")
        case idle: True
        let ?r = "?v\<lparr>th_player := Some (?py\<lparr>py_xfade_state := XF_DISABLED\<rparr>)\<rparr>"
        have "live ?r (?py\<lparr>py_xfade_state := XF_DISABLED\<rparr>)" by (rule live_player[OF lv]) (use sg in simp_all)
        moreover have "cross_fade_chunk t = Some (Some None, ?r)"
          using tp sz True q sh Nil idle by (simp add: cross_fade_chunk_def Let_def cong: if_cong)
        ultimately show ?thesis using pv
          by (intro exI[of _ "Some None"] exI[of _ ?r] exI[of _ "?py\<lparr>py_xfade_state := XF_DISABLED\<rparr>"]) (simp add: fr_def)
      next
        case False
        have "cross_fade_chunk t = Some (None, lock ?v)"
          using tp sz True q sh Nil False by (simp add: cross_fade_chunk_def Let_def cong: if_cong)
        then show ?thesis using live_lock[OF lv]
          by (intro exI[of _ None] exI[of _ "lock ?v"] exI[of _ ?py]) (simp add: fr_def)
      qed
    next
      case (Cons oth qs')
      let ?v = "?u\<lparr>th_pipes := (th_pipes ?u)(py_pipe py \<mapsto> cs)\<rparr>"
      have okU: "pipes_ok ?u" and plU: "playing ?u ?py" using lu coreD(2) by (auto simp: live_def playing_def)
      have sh2: "pipe_Shift (py_pipe py) ?u = Some (Some c, ?v)" using pipe_Shift_ok(1)[OF okU pu] by simp
      have oc: "ck_other c = None" using pipe_Shift_ok(3)[OF okU pu] by simp
      have lv: "live ?v ?py" using shift_playing[OF plU pu] l by (simp add: live_def)
      let ?tag = "MergeReplace (py_cross_fade_tag ?py) (ck_tag oth)"
      let ?r = "?v\<lparr>th_player := Some (?py\<lparr>py_cross_fade_tag := ?tag\<rparr>)\<rparr>"
      have "live ?r (?py\<lparr>py_cross_fade_tag := ?tag\<rparr>)" by (rule live_player[OF lv]) (use sg in simp_all)
      moreover have "\<exists>ch. cross_fade_chunk t = Some (Some (Some ch), ?r)"
        using tp sz True q sh Cons sh2 oc by (simp add: cross_fade_chunk_def Let_def cong: if_cong)
      ultimately show ?thesis by (auto simp: fr_def intro!: exI[of _ "?py\<lparr>py_cross_fade_tag := ?tag\<rparr>"])
    qed
  qed
qed

lemma PlayNextChunk_ok:
  assumes l: "live t py" and ne: "th_pipes t (py_pipe py) = Some (c # cs)"
  shows "\<exists>ok t' py'. PlayNextChunk t = Some (ok, t') \<and> playing t' py' \<and> fr t t'"
proof -
  let ?l = "lock t"
  have ll: "live ?l py" by (rule live_lock[OF l])
  show ?thesis
  proof (cases "in_ok (inp t)")
    case False
    then show ?thesis using ll by (intro exI[of _ True] exI[of _ ?l] exI[of _ py]) (simp add: PlayNextChunk_def live_def)
  next
    case ok: True
    have "\<exists>c cs. th_pipes ?l (py_pipe py) = Some (c # cs)" using lock_pipe[OF ne] by auto
    then obtain r u pu where u: "cross_fade_chunk ?l = Some (r, u)" "live u pu" "fr ?l u" "py_pipe pu = py_pipe py"
      "r = Some None \<longrightarrow> (\<exists>c cs. th_pipes u (py_pipe py) = Some (c # cs))"
      using cross_fade_chunk_ok[OF ll] by blast
    have fru: "fr t u" using u(3) by (simp add: fr_def)
    show ?thesis
    proof (cases r)
      case None
      then show ?thesis using u ok fru
        by (intro exI[of _ True] exI[of _ u] exI[of _ pu]) (simp add: PlayNextChunk_def live_def)
    next
      case (Some m)
      have pu: "playing u pu" using u(2) by (simp add: live_def)
      note cu = playingD(1)[OF pu]
      have "\<exists>ch v. (case m of None \<Rightarrow> pipe_Shift (py_pipe pu) u | Some chunk \<Rightarrow> Some (Some chunk, u)) = Some (Some ch, v) \<and>
        live v pu \<and> fr t v"
      proof (cases m)
        case None
        then obtain ch rest where ch: "th_pipes u (py_pipe pu) = Some (ch # rest)" using u(4,5) Some by auto
        from shift_playing[OF pu ch] pipe_Shift_ok(1)[OF coreD(2)[OF cu] ch] None u(2) fru
        show ?thesis by (auto simp: live_def fr_def)
      qed (use u fru in auto)
      then obtain ch v where v: "(case m of None \<Rightarrow> pipe_Shift (py_pipe pu) u | Some chunk \<Rightarrow> Some (Some chunk, u)) = Some (Some ch, v)"
        "live v pu" "fr t v" by blast
      have vp: "th_player v = Some pu" "py_song pu \<noteq> None" using v(2) playingD by (auto simp: live_def)
      let ?post = "py_xfade_state pu \<noteq> XF_ENABLED \<and> py_cross_fade_tag pu \<noteq> None"
      let ?ch = "if ?post then ck_set_tag (MergeReplace (ck_tag ch) (py_cross_fade_tag pu)) ch else ch"
      let ?w = "if ?post then on_player (py_cross_fade_tag_update (\<lambda>_. None)) v else v"
      have "\<exists>pw. live ?w pw" and frw: "fr t ?w"
        using live_player[OF v(2), of "pu\<lparr>py_cross_fade_tag := None\<rparr>"] vp v(2,3) by (auto simp: fr_def)
      then obtain pw where pw: "live ?w pw" by blast
      obtain err x px where x: "play_chunk ?ch (py_play_audio_format pu) ?w = Some (err, x)" "live x px" "fr ?w x"
        using play_chunk_ok[OF pw] by blast
      have frx: "fr t x" by (rule fr_trans[OF frw x(3)])
      have up: "th_player u = Some pu" by (rule playingD(6)[OF pu])
      have eq: "PlayNextChunk t = (case err of
            Some e \<Rightarrow> do {
              let t = (pc_SetError PE_OUTPUT e (lock x))\<lparr>pc_state := PS_PAUSE\<rparr>;
              Some (False, add_idle IDLE_PLAYER (on_player (py_paused_update (\<lambda>_. True)) t)) }
          | None \<Rightarrow> do { t \<leftarrow> wake_decoder x; Some (True, t) })"
        unfolding PlayNextChunk_def yield_eq Let_def prod.case u(1) using ok Some up v(1) x(1)
        by (simp split del: if_split)
      show ?thesis
      proof (cases err)
        case (Some e)
        let ?r = "add_idle IDLE_PLAYER (on_player (py_paused_update (\<lambda>_. True)) ((pc_SetError PE_OUTPUT e (lock x))\<lparr>pc_state := PS_PAUSE\<rparr>))"
        have "playing (lock x) px" using live_lock[OF x(2)] by (simp add: live_def)
        then have "playing ?r (px\<lparr>py_paused := True\<rparr>)"
          by (simp add: inv_defs add_idle_def pc_SetError_def)
        then show ?thesis using eq Some frx
          by (intro exI[of _ False] exI[of _ ?r] exI[of _ "px\<lparr>py_paused := True\<rparr>"])
            (simp add: Let_def fr_def add_idle_def pc_SetError_def)
      next
        case None
        obtain y qy where "wake_decoder x = Some y" "live y qy" "fr x y" using wake_decoder_ok[OF x(2)] by blast
        then show ?thesis using eq None fr_trans[OF frx]
          by (intro exI[of _ True] exI[of _ y] exI[of _ qy]) (simp add: live_def)
      qed
    qed
  qed
qed

end
