(* ===== verification/Player_Loop.thy ===== *)
theory Player_Loop
  imports Player_Passes
begin

text \<open>
  One whole pass of the loop of \<open>Run\<close>, its beginning and its end.
\<close>

lemma SendSilence_ok:
  assumes p: "playing t py" and o: "py_output_open py"
  shows "\<exists>ok t'. SendSilence t = Some (ok, t') \<and> playing t' py \<and> fr t t'"
proof -
  note c = playingD(1)[OF p]
  have f: "IsDefined (py_play_audio_format py)" "opened (th_calls t)" using coreD(10)[OF c o] by simp_all
  have v: "IsValid (py_play_audio_format py)" by (rule coreD(9)[OF c f(1)])
  have fs: "unat (GetFrameSize (py_play_audio_format py)) \<noteq> 0"
    using GetFrameSize_valid(2)[OF v] by (auto simp: unat_eq_zero)
  let ?chunk = "music_chunk (CHUNK_SIZE div unat (GetFrameSize (py_play_audio_format py)) *
    unat (GetFrameSize (py_play_audio_format py))) 0 (- 1) None 0 None"
  let ?r = "(lock (lock t))\<lparr>th_calls := OC_play ?chunk # th_calls (lock (lock t))\<rparr>"
  have ll: "playing (lock (lock t)) py" using playing_lock[OF playing_lock[OF p]] .
  have "playing ?r py" by (rule play_playing[OF ll o])
  then show ?thesis
    using playing_lock[OF p] playingD(6)[OF p] o f(1) fs
    by (cases "in_ok (inp t)") (auto simp: SendSilence_def Let_def fr_def)
qed

lemma SongBorder_ok:
  assumes p: "playing t py" and nx: "IsDecoderAtNextSong py t" and e: "th_pipes t (py_pipe py) = Some []"
  shows "\<exists>ok t' py'. SongBorder t = Some (ok, t') \<and> playing t' py' \<and> fr t t' \<and> pc_next_song t' = None \<and> \<not> py_queued py' \<and>
    Some (py_pipe py') = dc_pipe (th_dc t) \<and> (ok \<and> pc_border_pause t \<longrightarrow> pc_state t' = PS_PAUSE \<and> py_paused py')"
proof -
  note c = playingD(1)[OF p]
  obtain q where q: "dc_pipe (th_dc t) = Some q" "q \<noteq> py_pipe py"
    using nx by (auto simp: IsDecoderAtNextSong_def IsDecoderAtCurrentSong_def)
  have qd: "py_queued py" by (rule coreD(7)[OF c nx])
  have ns: "\<not> py_decoder_starting py" using coreD(8)[OF c] q by auto
  let ?u = "t\<lparr>th_player := Some (py\<lparr>py_xfade_state := XF_UNKNOWN\<rparr>)\<rparr>"
  let ?py = "py\<lparr>py_xfade_state := XF_UNKNOWN, py_pipe := q\<rparr>"
  let ?v = "?u\<lparr>th_pipes := (th_pipes t)(py_pipe py := None), th_player := Some ?py\<rparr>"
  have rp: "ReplacePipe q ?u = Some ?v" using e by (simp add: ReplacePipe_def pipe_delete_def)
  have dom: "dom ((th_pipes t)(py_pipe py := None)) = {q}" using coreD(4)[OF c] q by auto
  have "pipes_ok ?v" using coreD(2)[OF c] by (auto simp: pipes_ok_def)
  then have "core ?v ?py"
    using c dom q ns qd by (simp add: core_def core0_def IsDecoderAtNextSong_def IsDecoderAtCurrentSong_def)
  then have cw: "core (output_call OC_song_border ?v) ?py" by (rule core_output_call) simp
  let ?w = "output_call OC_song_border ?v"
  have "pc_next_song ?w \<noteq> None" "dc_pipe (th_dc ?w) = Some (py_pipe ?py)"
    using coreD(5)[OF c qd] q by simp_all
  then obtain ok x px where x: "WaitForDecoder ?w = Some (ok, x)" "core x px" "fr ?w x" "pc_next_song x = None"
    "pc_state x = pc_state ?w" "py_paused px = py_paused py" "py_song ?py \<noteq> None \<longrightarrow> py_song px \<noteq> None" "\<not> py_queued px"
    "py_pipe px = q"
    using WaitForDecoder_ok[OF cw] qd by auto
  have px: "playing x px" using x playingD(3,4)[OF p] by (simp add: playing_def)
  have frx: "fr t x" using x(3) by (simp add: fr_def)
  have eq: "SongBorder t = (if \<not> ok then Some (False, x) else
      let t = lock x in Some (True, if pc_border_pause t
              then add_idle IDLE_PLAYER (on_player (py_paused_update (\<lambda>_. True)) (t\<lparr>pc_state := PS_PAUSE\<rparr>))
              else t))"
    unfolding SongBorder_def using playingD(6)[OF p] q(1) rp x(1) by (simp del: output_call_eq)
  let ?y = "add_idle IDLE_PLAYER (on_player (py_paused_update (\<lambda>_. True)) ((lock x)\<lparr>pc_state := PS_PAUSE\<rparr>))"
  have lx: "playing (lock x) px" by (rule playing_lock[OF px])
  then have y: "playing ?y (px\<lparr>py_paused := True\<rparr>)" by (simp add: inv_defs add_idle_def)
  have "fr t (lock x)" "fr t ?y" using frx by (simp_all add: fr_def add_idle_def)
  note frs = this
  have bp: "pc_border_pause x = pc_border_pause t" using x(3) by (simp add: fr_def)
  have xs: "pc_next_song ?y = None" "pc_state ?y = PS_PAUSE" "pc_next_song (lock x) = None"
    using x(4) by (simp_all add: add_idle_def)
  have qp: "Some (py_pipe px) = dc_pipe (th_dc t)" using x(9) q(1) by simp
  show ?thesis
  proof (cases ok)
    case False
    then show ?thesis using eq px frx x(4,8) qp by (intro exI[of _ False] exI[of _ x] exI[of _ px]) simp
  next
    case ok: True
    show ?thesis
    proof (cases "pc_border_pause t")
      case True
      then show ?thesis using eq ok bp y frs(2) xs(1,2) x(8) qp
        by (intro exI[of _ True] exI[of _ ?y] exI[of _ "px\<lparr>py_paused := True\<rparr>"]) (simp add: Let_def)
    next
      case False
      then show ?thesis using eq ok bp lx frs(1) xs(3) x(8) qp
        by (intro exI[of _ True] exI[of _ "lock x"] exI[of _ px]) (simp add: Let_def)
    qed
  qed
qed

lemma start_next_ok:
  assumes p: "playing t py" and ns: "\<not> py_decoder_starting py" and cmd: "pc_command t = PC_NONE"
  shows "\<exists>t'. start_next t = Some t' \<and> playing t' py \<and> fr t t'"
proof -
  let ?l = "lock t"
  have pl: "playing ?l py" by (rule playing_lock[OF p])
  note c = playingD(1)[OF pl] and tp = playingD(6)[OF p]
  show ?thesis
  proof (cases "dc_IsIdle (th_dc ?l) \<and> py_queued py \<and> dc_pipe (th_dc ?l) = Some (py_pipe py)")
    case False
    then show ?thesis using pl tp by (intro exI[of _ ?l]) (auto simp: start_next_def Let_def)
  next
    case True
    obtain s where s: "pc_next_song ?l = Some s" using coreD(5)[OF c] True by blast
    let ?q = "th_next_pipe ?l"
    let ?u = "?l\<lparr>th_pipes := (th_pipes ?l)(?q \<mapsto> []), th_next_pipe := Suc ?q\<rparr>"
    have fresh: "py_pipe py \<noteq> ?q"
      using core_pipe[OF c] coreD(2)[OF c] unfolding pipes_ok_def by (metis less_irrefl)
    have u: "th_pipes ?u ?q = Some []" "pipes_ok ?u" "dc_IsIdle (th_dc ?u)"
      using coreD(2)[OF c] True by (auto simp: pipes_ok_def less_Suc_eq)
    let ?ms = "song_start_ms s + (if pc_command ?u = PC_SEEK then word_of_int (trunc (pc_seek_where ?u * 1000)) else 0)"
    obtain v where v: "dc_Start (DupDetached s) ?ms (song_end_ms s) ?q ?u = Some v" "same_ctl ?u v"
      "dc_pipe (th_dc v) = Some ?q" "dc_ok (th_dc v)" "th_pipes v = th_pipes ?u" "pipes_ok v"
      using dc_Start_ok[OF u] by blast
    have "start_next t = Some v"
      using tp True s v(1) cmd by (simp add: start_next_def pipe_new_def StartDecoder_def Let_def)
    moreover have dom: "dom (th_pipes v) = {py_pipe py, ?q}" using v(5) coreD(4)[OF c] True by auto
    have "core v py"
      using c v(2,3,4,6) dom ns fresh True
      by (simp add: core_def core0_def same_ctl_def IsDecoderAtNextSong_def IsDecoderAtCurrentSong_def)
    then have "playing v py" using p v(2) by (simp add: playing_def same_ctl_def)
    moreover have "fr t v" using same_ctl_fr[OF v(2)] by (simp add: fr_def)
    ultimately show ?thesis by blast
  qed
qed

lemma check_cross_fade_ok:
  assumes p: "playing t py" and ns: "\<not> py_decoder_starting py"
  shows "\<exists>t' py'. check_cross_fade t = Some t' \<and> playing t' py' \<and> fr t t' \<and> \<not> py_decoder_starting py'"
proof -
  note tp = playingD(6)[OF p]
  have pl: "playing (lock t) py" by (rule playing_lock[OF p])
  show ?thesis
  proof (cases "\<not> pc_border_pause t \<and> IsDecoderAtNextSong py t \<and> py_xfade_state py = XF_UNKNOWN")
    case False
    then have "check_cross_fade t = Some t" using tp by (auto simp: check_cross_fade_def)
    then show ?thesis using p ns by auto
  next
    case True
    show ?thesis
    proof (cases "dc_IsStarting (th_dc (lock t))")
      case st: True
      then have "check_cross_fade t = Some (lock t)" using True tp by (simp add: check_cross_fade_def Let_def)
      then show ?thesis using pl ns by auto
    next
      case False
      let ?d = "th_dc (lock t)"
      have "IsDefined (py_play_audio_format py)" using p ns by (auto simp: inv_defs)
      then have "dc_out_audio_format ?d = py_play_audio_format py \<Longrightarrow> IsValid (dc_out_audio_format ?d)"
        using coreD(9)[OF playingD(1)[OF p]] by simp
      from Calculate_total[OF this] obtain n where n: "Calculate (pc_cross_fade (lock t)) (dc_total_time ?d) (dc_replay_gain_db ?d)
        (dc_replay_gain_prev_db ?d) (GetStart (dc_mix_ramp ?d)) (GetEnd (dc_previous_mix_ramp ?d)) (dc_out_audio_format ?d)
        (py_play_audio_format py) (th_buffer_size (lock t) - th_buffered_before_play (lock t)) = Some n" by blast
      let ?p = "if n > 0 then py\<lparr>py_cross_fade_chunks := n, py_xfade_state := XF_ENABLED, py_cross_fading := False\<rparr>
                else py\<lparr>py_cross_fade_chunks := n, py_xfade_state := XF_DISABLED\<rparr>"
      let ?r = "(lock t)\<lparr>th_player := Some ?p\<rparr>"
      have "check_cross_fade t = Some ?r"
        using True False tp n by (simp add: check_cross_fade_def Let_def)
      moreover have "playing ?r ?p" using pl by (simp add: inv_defs)
      ultimately show ?thesis using ns
        by (intro exI[of _ ?r] exI[of _ ?p]) (simp add: fr_def)
    qed
  qed
qed

lemma Run_output_ok:
  assumes p: "playing t py" and ns: "\<not> py_decoder_starting py"
  shows "\<exists>ok t' py'. Run_output t = Some (ok, t') \<and> playing t' py' \<and> fr t t'"
proof -
  note c = playingD(1)[OF p] and tp = playingD(6)[OF p]
  obtain cs where cs: "th_pipes t (py_pipe py) = Some cs" using core_pipe[OF c] by blast
  have sz: "pipe_GetSize (py_pipe py) t = Some (length cs)" using cs by (simp add: pipe_GetSize_def)
  have pl: "playing (lock t) py" by (rule playing_lock[OF p])
  show ?thesis
  proof (cases "py_paused py")
    case True
    then show ?thesis using tp sz pl
      by (intro exI[of _ True] exI[of _ "lock t"] exI[of _ py]) (simp add: Run_output_def)
  next
    case np: False
    then have l: "live t py" using p ns by (simp add: live_def)
    show ?thesis
    proof (cases cs)
      case (Cons ch rest)
      obtain ok u pu where u: "PlayNextChunk t = Some (ok, u)" "playing u pu" "fr t u"
        using PlayNextChunk_ok[OF l] cs Cons by blast
      then have "Run_output t = Some (True, lock u)" using tp sz np Cons by (simp add: Run_output_def)
      then show ?thesis using playing_lock[OF u(2)] u(3)
        by (intro exI[of _ True] exI[of _ "lock u"] exI[of _ pu]) (simp add: fr_def)
    next
      case Nil
      have run: "Run_output t =
          (if in_count (inp t) > 0 then Some (True, lock (lock (lock t)))
            else if IsDecoderAtNextSong py (lock t)
            then do { (ok, t) \<leftarrow> SongBorder (lock t); Some (if ok then (True, lock t) else (False, t)) }
            else let t = lock (lock t) in
              if dc_IsIdle (th_dc t)
              then do { n \<leftarrow> pipe_GetSize (py_pipe py) t;
                        Some (if n = 0 then (False, output_call OC_drain t) else (True, lock t)) }
              else if py_output_open py
              then do { (ok, t) \<leftarrow> SendSilence t; Some (if ok then (True, lock t) else (False, t)) }
              else Some (True, lock t))"
        using tp sz np Nil by (simp add: Run_output_def Let_def)
      have ll: "playing (lock (lock t)) py" "fr t (lock (lock t))" using playing_lock[OF pl] by (simp_all add: fr_def)
      have lll: "playing (lock (lock (lock t))) py" "fr t (lock (lock (lock t)))" using playing_lock[OF ll(1)] by (simp_all add: fr_def)
      consider "in_count (inp t) > 0" | "in_count (inp t) = 0" "IsDecoderAtNextSong py (lock t)"
        | "in_count (inp t) = 0" "\<not> IsDecoderAtNextSong py (lock t)" by blast
      then show ?thesis
      proof cases
        case 1
        then show ?thesis using run lll by auto
      next
        case 2
        have "dc_pipe (th_dc t) \<noteq> Some (py_pipe py)" using 2(2) by (auto simp: IsDecoderAtNextSong_def IsDecoderAtCurrentSong_def)
        then have "th_pipes (lock t) (py_pipe py) = Some []" using lock_other_pipe cs Nil by simp
        then obtain ok u pu where u: "SongBorder (lock t) = Some (ok, u)" "playing u pu" "fr (lock t) u"
          using SongBorder_ok[OF pl 2(2)] by blast
        have "fr t u" "fr t (lock u)" using u(3) by (simp_all add: fr_def)
        then show ?thesis using run 2 u playing_lock[OF u(2)]
          by (cases ok) auto
      next
        case 3
        let ?t = "lock (lock t)"
        show ?thesis
        proof (cases "dc_IsIdle (th_dc ?t)")
          case True
          obtain n where n: "pipe_GetSize (py_pipe py) ?t = Some n"
            using core_pipe[OF playingD(1)[OF ll(1)]] by (auto simp: pipe_GetSize_def)
          have "playing (output_call OC_drain ?t) py" by (rule playing_output_call[OF ll(1)]) simp
          moreover have "fr t (output_call OC_drain ?t)" by (simp add: fr_def)
          moreover have "Run_output t = Some (if n = 0 then (False, output_call OC_drain ?t) else (True, lock ?t))"
            using run 3 True n by (simp add: Let_def del: output_call_eq)
          ultimately show ?thesis using lll by (cases "n = 0") (auto simp del: output_call_eq)
        next
          case False
          show ?thesis
          proof (cases "py_output_open py")
            case True
            obtain ok u where u: "SendSilence ?t = Some (ok, u)" "playing u py" "fr ?t u"
              using SendSilence_ok[OF ll(1) True] by blast
            have "fr t u" "fr t (lock u)" using u(3) by (simp_all add: fr_def)
            moreover have "Run_output t = Some (if ok then (True, lock u) else (False, u))"
              using run 3 False True u(1) by (simp add: Let_def)
            ultimately show ?thesis using u(2) playing_lock[OF u(2)] by (cases ok) auto
          next
            case no: False
            then have "Run_output t = Some (True, lock ?t)" using run 3 False by (simp add: Let_def)
            then show ?thesis using lll by auto
          qed
        qed
      qed
    qed
  qed
qed

lemma Run_body_ok:
  assumes p: "playing t py" and cmd: "pc_command t = PC_NONE"
  shows "\<exists>ok t' py'. Run_body t = Some (ok, t') \<and> playing t' py' \<and> fr t t'"
proof -
  have pl: "playing (lock t) py" by (rule playing_lock[OF p])
  obtain cs where cs: "th_pipes (lock t) (py_pipe py) = Some cs" using core_pipe[OF playingD(1)[OF pl]] by blast
  have sz: "pipe_GetSize (py_pipe py) (lock t) = Some (length cs)" using cs by (simp add: pipe_GetSize_def)
  let ?b = "py_buffering py \<and> length cs < th_buffered_before_play (lock t)"
  let ?t = "if ?b then lock (lock t) else lock t"
  let ?filling = "?b \<and> \<not> dc_IsIdle (th_dc ?t)"
  have pt: "playing ?t py" "fr t ?t" using pl playing_lock[OF pl] by (auto simp: fr_def)
  have tp: "th_player t = Some py" by (rule playingD(6)[OF p])
  have run0: "Run_body t = (if ?filling
          then do {
            (ok, t) \<leftarrow>
              (if \<not> py_paused py \<and> py_output_open py
               then if in_count (inp ?t) < 4 then SendSilence (lock ?t) else Some (True, lock ?t)
               else Some (True, ?t));
            Some (if ok then (True, lock (lock t)) else (False, t)) }
          else do {
            let t = on_player (py_buffering_update (\<lambda>_. False)) ?t;
            if py_decoder_starting py
            then do { (ok, t) \<leftarrow> CheckDecoderStartup t; Some (if ok then (True, lock t) else (False, t)) }
            else do { t \<leftarrow> start_next t; t \<leftarrow> check_cross_fade t; Run_output t } })"
    using tp sz by (cases "py_buffering py"; cases "length cs < th_buffered_before_play (lock t)")
      (simp_all add: Run_body_def Let_def cong: if_cong split del: if_split)
  obtain filling u0 where pt: "playing u0 py" "fr t u0" and run: "Run_body t = (if filling
          then do {
            (ok, t) \<leftarrow>
              (if \<not> py_paused py \<and> py_output_open py
               then if in_count (inp u0) < 4 then SendSilence (lock u0) else Some (True, lock u0)
               else Some (True, u0));
            Some (if ok then (True, lock (lock t)) else (False, t)) }
          else do {
            let t = on_player (py_buffering_update (\<lambda>_. False)) u0;
            if py_decoder_starting py
            then do { (ok, t) \<leftarrow> CheckDecoderStartup t; Some (if ok then (True, lock t) else (False, t)) }
            else do { t \<leftarrow> start_next t; t \<leftarrow> check_cross_fade t; Run_output t } })"
    using that[OF pt run0] by blast
  show ?thesis
  proof (cases filling)
    case True
    have "\<exists>ok u. (if \<not> py_paused py \<and> py_output_open py
               then if in_count (inp u0) < 4 then SendSilence (lock u0) else Some (True, lock u0)
               else Some (True, u0)) = Some (ok, u) \<and> playing u py \<and> fr t u"
      using SendSilence_ok[OF playing_lock[OF pt(1)]] pt playing_lock[OF pt(1)] by (auto simp: fr_def)
    then obtain ok u where u: "(if \<not> py_paused py \<and> py_output_open py
               then if in_count (inp u0) < 4 then SendSilence (lock u0) else Some (True, lock u0)
               else Some (True, u0)) = Some (ok, u)" "playing u py" "fr t u" by blast
    have "fr t (lock (lock u))" using u(3) by (simp add: fr_def)
    moreover have "Run_body t = Some (if ok then (True, lock (lock u)) else (False, u))"
      unfolding run using True u(1) by (simp split del: if_split)
    ultimately show ?thesis using u playing_lock[OF playing_lock[OF u(2)]] by (cases ok) auto
  next
    case False
    let ?u = "on_player (py_buffering_update (\<lambda>_. False)) u0"
    let ?p = "py\<lparr>py_buffering := False\<rparr>"
    have pu: "playing ?u ?p" using pt(1) by (simp add: inv_defs)
    have fu: "fr t ?u" "pc_command ?u = PC_NONE" using pt(2) cmd by (simp_all add: fr_def)
    show ?thesis
    proof (cases "py_decoder_starting py")
      case True
      then obtain ok v pv where v: "CheckDecoderStartup ?u = Some (ok, v)" "playing v pv" "fr ?u v"
        using CheckDecoderStartup_ok[OF pu] by auto
      have "fr t v" "fr t (lock v)" using fr_trans[OF fu(1) v(3)] by (simp_all add: fr_def)
      moreover have "Run_body t = Some (if ok then (True, lock v) else (False, v))"
        unfolding run Let_def using False True v(1) by (simp split del: if_split)
      ultimately show ?thesis using v(2) playing_lock[OF v(2)] by (cases ok) auto
    next
      case ns: False
      then obtain v where v: "start_next ?u = Some v" "playing v ?p" "fr ?u v"
        using start_next_ok[OF pu _ fu(2)] by auto
      obtain w pw where w: "check_cross_fade v = Some w" "playing w pw" "fr v w" "\<not> py_decoder_starting pw"
        using check_cross_fade_ok[OF v(2)] ns by auto
      obtain ok x px where x: "Run_output w = Some (ok, x)" "playing x px" "fr w x"
        using Run_output_ok[OF w(2,4)] by blast
      have "Run_body t = Some (ok, x)"
        unfolding run Let_def using False ns v(1) w(1) x(1) by (simp split del: if_split)
      then show ?thesis using x(2) fr_trans[OF fr_trans[OF fr_trans[OF fu(1) v(3)] w(3)] x(3)] by blast
    qed
  qed
qed

end
