(* ===== verification/Playlist_Model.thy ===== *)
theory Playlist_Model
  imports Queue_Version Player_Control
begin

text \<open>
  The playlist (src/src/Playlist.hxx, Playlist.cxx, PlaylistControl.cxx, PlaylistEdit.cxx,
  PlaylistUpdate.cxx): the play queue together with what is being played and what is queued
  in the player.  An operation maps the main thread's world (the playlist, the player control
  structure, the idle flags) to its result and the world it leaves; it is None where an
  assertion of the code fails or an array is read outside its used part.  A \<open>const Song *\<close>
  that points into the queue is the id of its entry.  \<open>unsigned\<close> arithmetic that can wrap is
  written out with \<open>u32\<close>; \<open>current\<close> and \<open>queued\<close> are \<open>int\<close> as in the code.
\<close>

section \<open>Data\<close>

datatype PlaylistResult =
  PR_SUCCESS | PR_ERRNO | PR_DENIED | PR_NO_SUCH_SONG | PR_NO_SUCH_LIST | PR_LIST_EXISTS |
  PR_BAD_NAME | PR_BAD_RANGE | PR_NOT_PLAYING | PR_TOO_LARGE | PR_DISABLED

record playlist =
  pl_queue :: queue
  pl_playing :: bool
  pl_stop_on_error :: bool
  pl_bulk_edit :: bool
  pl_bulk_modified :: bool
  pl_error_count :: "32 word"
  pl_current :: int
  pl_queued :: int

record 'e world =
  w_list :: playlist
  w_pc :: "'e player_control_scheme"
  w_idle :: idle_state

type_synonym song_ptr = "nat option"

definition u32 :: "int \<Rightarrow> nat" where
  "u32 i = nat (i mod 2 ^ 32)"

definition new_playlist :: "nat \<Rightarrow> nat list \<Rightarrow> playlist" where
  "new_playlist max_length rs = \<lparr>pl_queue = new_Queue max_length rs, pl_playing = False,
     pl_stop_on_error = False, pl_bulk_edit = False, pl_bulk_modified = False, pl_error_count = 0,
     pl_current = -1, pl_queued = -1\<rparr>"

text \<open>Access to the parts of the world.\<close>

abbreviation w_queue :: "'e world \<Rightarrow> queue" where
  "w_queue w \<equiv> pl_queue (w_list w)"

definition set_queue :: "queue \<Rightarrow> 'e world \<Rightarrow> 'e world" where
  "set_queue q w = w\<lparr>w_list := (w_list w)\<lparr>pl_queue := q\<rparr>\<rparr>"

definition set_current :: "int \<Rightarrow> 'e world \<Rightarrow> 'e world" where
  "set_current c w = w\<lparr>w_list := (w_list w)\<lparr>pl_current := c\<rparr>\<rparr>"

definition set_queued :: "int \<Rightarrow> 'e world \<Rightarrow> 'e world" where
  "set_queued c w = w\<lparr>w_list := (w_list w)\<lparr>pl_queued := c\<rparr>\<rparr>"

definition set_playing :: "bool \<Rightarrow> 'e world \<Rightarrow> 'e world" where
  "set_playing b w = w\<lparr>w_list := (w_list w)\<lparr>pl_playing := b\<rparr>\<rparr>"

definition set_errors :: "bool \<Rightarrow> 32 word \<Rightarrow> 'e world \<Rightarrow> 'e world" where
  "set_errors stop n w = w\<lparr>w_list := (w_list w)\<lparr>pl_stop_on_error := stop, pl_error_count := n\<rparr>\<rparr>"

definition notify :: "32 word \<Rightarrow> 'e world \<Rightarrow> 'e world" where
  "notify flags w = w\<lparr>w_idle := idle_add flags (w_idle w)\<rparr>"

definition on_pc ::
    "('e player_control_scheme \<Rightarrow> 'e player_control_scheme option) \<Rightarrow> 'e world \<Rightarrow> 'e world option" where
  "on_pc f w = do { pc \<leftarrow> f (w_pc w); Some (w\<lparr>w_pc := pc\<rparr>) }"

definition on_pci ::
    "('e player_control_scheme \<times> idle_state \<Rightarrow> ('e player_control_scheme \<times> idle_state) option) \<Rightarrow>
     'e world \<Rightarrow> 'e world option" where
  "on_pci f w = do { (pc, idle) \<leftarrow> f (w_pc w, w_idle w); Some (w\<lparr>w_pc := pc, w_idle := idle\<rparr>) }"

text \<open>The assertions of \<open>Queue::OrderToPosition\<close>, \<open>Queue::Get\<close> and their like.\<close>

definition check_order :: "queue \<Rightarrow> int \<Rightarrow> unit option" where
  "check_order q ord = ensure (0 \<le> ord \<and> ord < int (q_length q))"

definition check_position :: "queue \<Rightarrow> int \<Rightarrow> unit option" where
  "check_position q pos = ensure (0 \<le> pos \<and> pos < int (q_length q))"

definition order_song :: "queue \<Rightarrow> int \<Rightarrow> nat" where
  "order_song q ord = item_id (GetOrderItem q (nat ord))"

section \<open>Queueing the next song\<close>

definition GetQueuedSong :: "'e world \<Rightarrow> song_ptr option" where
  "GetQueuedSong w =
     (if pl_playing (w_list w) \<and> pl_queued (w_list w) \<ge> 0
      then do { check_order (w_queue w) (pl_queued (w_list w));
                Some (Some (order_song (w_queue w) (pl_queued (w_list w)))) }
      else Some None)"

definition playlist_queue_song_order :: "'e player_env \<Rightarrow> int \<Rightarrow> 'e world \<Rightarrow> 'e world option" where
  "playlist_queue_song_order env ord w =
     do { check_order (w_queue w) ord;
          let w = set_queued ord w;
          on_pc (pc_EnqueueSong env (DupDetached (GetOrder (w_queue w) (nat ord)))) w }"

text \<open>The shuffling part of \<open>UpdateQueuedSong\<close>.\<close>

definition reshuffle :: "'e world \<Rightarrow> 'e world option" where
  "reshuffle w =
     do { check_order (w_queue w) (pl_current (w_list w));
          let current_position = OrderToPosition (w_queue w) (nat (pl_current (w_list w)));
          let q = ShuffleOrder (w_queue w);
          Some (set_current (int (PositionToOrder q current_position)) (set_queue q w)) }"

definition next_order_of :: "'e world \<Rightarrow> int option" where
  "next_order_of w =
     (if pl_current (w_list w) \<ge> 0
      then do { check_order (w_queue w) (pl_current (w_list w));
                Some (GetNextOrder (w_queue w) (nat (pl_current (w_list w)))) }
      else Some 0)"

definition UpdateQueuedSong :: "'e player_env \<Rightarrow> song_ptr \<Rightarrow> 'e world \<Rightarrow> 'e world option" where
  "UpdateQueuedSong env prev w =
     (if \<not> pl_playing (w_list w) then Some w
      else if prev = None \<and> pl_bulk_edit (w_list w) then Some w
      else do {
        ensure (\<not> IsEmpty (w_queue w));
        ensure ((pl_queued (w_list w) < 0) = (prev = None));
        next_order \<leftarrow> next_order_of w;
        w \<leftarrow> (if next_order = 0 \<and> q_random (w_queue w) \<and> \<not> q_single (w_queue w)
             then reshuffle w else Some w);
        next_song \<leftarrow> (if next_order \<ge> 0
                     then do { check_order (w_queue w) next_order;
                               Some (Some (order_song (w_queue w) next_order)) }
                     else Some None);
        w \<leftarrow> (if prev \<noteq> None \<and> next_song \<noteq> prev
             then do { w \<leftarrow> on_pc (pc_Cancel env) w; Some (set_queued (-1) w) }
             else Some w);
        if next_order \<ge> 0
        then if next_song \<noteq> prev then playlist_queue_song_order env next_order w
             else Some (set_queued next_order w)
        else Some w })"

definition OnModified :: "'e world \<Rightarrow> 'e world" where
  "OnModified w =
     (if pl_bulk_edit (w_list w) then w\<lparr>w_list := (w_list w)\<lparr>pl_bulk_modified := True\<rparr>\<rparr>
      else notify IDLE_PLAYLIST (set_queue (IncrementVersion (w_queue w)) w))"

section \<open>Playing and stopping\<close>

definition PlayOrder :: "'e player_env \<Rightarrow> int \<Rightarrow> 'e world \<Rightarrow> 'e world option" where
  "PlayOrder env ord w =
     do { let w = set_queued (-1) (set_playing True w);
          check_order (w_queue w) ord;
          w \<leftarrow> on_pc (pc_Play env (DupDetached (GetOrder (w_queue w) (nat ord)))) w;
          Some (set_current ord w) }"

definition playlist_Stop :: "'e player_env \<Rightarrow> 'e world \<Rightarrow> 'e world option" where
  "playlist_Stop env w =
     (if \<not> pl_playing (w_list w) then Some w
      else do {
        ensure (pl_current (w_list w) \<ge> 0);
        w \<leftarrow> on_pci (pc_Stop env) w;
        let w = set_playing False (set_queued (-1) w);
        if q_random (w_queue w) then reshuffle w else Some w })"

definition GetCurrentPosition :: "'e world \<Rightarrow> int option" where
  "GetCurrentPosition w =
     (if pl_current (w_list w) \<ge> 0
      then do { check_order (w_queue w) (pl_current (w_list w));
                Some (int (OrderToPosition (w_queue w) (nat (pl_current (w_list w))))) }
      else Some (-1))"

definition GetNextPosition :: "'e world \<Rightarrow> int option" where
  "GetNextPosition w =
     (let c = pl_current (w_list w); q = w_queue w
      in if c < 0 then Some (-1)
         else if q_single q \<and> q_repeat q
         then do { check_order q c; Some (int (OrderToPosition q (nat c))) }
         else if IsValidOrder q (nat (c + 1)) then Some (int (OrderToPosition q (nat (c + 1))))
         else if q_repeat q then do { check_order q 0; Some (int (OrderToPosition q 0)) }
         else Some (-1))"

section \<open>Deleting\<close>

definition DeleteInternal ::
    "'e player_env \<Rightarrow> nat \<Rightarrow> song_ptr \<times> 'e world \<Rightarrow> (song_ptr \<times> 'e world) option" where
  "DeleteInternal env song = (\<lambda>(queued_p, w).
     do {
       ensure (song < q_length (w_queue w));
       let songOrder = int (PositionToOrder (w_queue w) song);
       (queued_p, w) \<leftarrow>
         (if pl_playing (w_list w) \<and> pl_current (w_list w) = songOrder
          then do {
            let paused = (pc_state (w_pc w) = PS_PAUSE);
            let c = GetNextOrder (w_queue w) (nat (pl_current (w_list w)));
            let c = (if c = songOrder then -1 else c);
            let w = set_current c w;
            w \<leftarrow> (if c \<ge> 0 \<and> \<not> paused then PlayOrder env c w
                 else do { w \<leftarrow> on_pci (pc_Stop env) w; Some (set_playing False w) });
            Some (None, w) }
          else if pl_current (w_list w) = songOrder then Some (queued_p, set_current (-1) w)
          else Some (queued_p, w));
       let w = set_queue (Play_Queue.DeletePosition (w_queue w) song) w;
       Some (queued_p, if pl_current (w_list w) > songOrder
                       then set_current (pl_current (w_list w) - 1) w else w) })"

definition playlist_DeletePosition ::
    "'e player_env \<Rightarrow> nat \<Rightarrow> 'e world \<Rightarrow> (PlaylistResult \<times> 'e world) option" where
  "playlist_DeletePosition env song w =
     (if song \<ge> q_length (w_queue w) then Some (PR_BAD_RANGE, w)
      else do {
        queued_song \<leftarrow> GetQueuedSong w;
        (queued_song, w) \<leftarrow> DeleteInternal env song (queued_song, w);
        w \<leftarrow> UpdateQueuedSong env queued_song w;
        Some (PR_SUCCESS, OnModified w) })"

definition DeleteOrder :: "'e player_env \<Rightarrow> int \<Rightarrow> 'e world \<Rightarrow> (PlaylistResult \<times> 'e world) option" where
  "DeleteOrder env ord w =
     do { check_order (w_queue w) ord;
          playlist_DeletePosition env (OrderToPosition (w_queue w) (nat ord)) w }"

fun delete_down :: "'e player_env \<Rightarrow> nat \<Rightarrow> nat \<Rightarrow> song_ptr \<times> 'e world \<Rightarrow> (song_ptr \<times> 'e world) option" where
  "delete_down env start 0 s = Some s"
| "delete_down env start (Suc n) s =
     do { s \<leftarrow> DeleteInternal env (start + n) s; delete_down env start n s }"

definition DeleteRange ::
    "'e player_env \<Rightarrow> nat \<Rightarrow> nat \<Rightarrow> 'e world \<Rightarrow> (PlaylistResult \<times> 'e world) option" where
  "DeleteRange env start fin w =
     (let n = q_length (w_queue w) in
      if start \<ge> n then Some (PR_BAD_RANGE, w)
      else let fin = (if fin > n then n else fin) in
      if start \<ge> fin then Some (PR_SUCCESS, w)
      else do {
        queued_song \<leftarrow> GetQueuedSong w;
        (queued_song, w) \<leftarrow> delete_down env start (fin - start) (queued_song, w);
        w \<leftarrow> UpdateQueuedSong env queued_song w;
        Some (PR_SUCCESS, OnModified w) })"

definition DeleteId :: "'e player_env \<Rightarrow> nat \<Rightarrow> 'e world \<Rightarrow> (PlaylistResult \<times> 'e world) option" where
  "DeleteId env i w =
     (let song = IdToPosition (w_queue w) i
      in if song < 0 then Some (PR_NO_SUCH_SONG, w) else playlist_DeletePosition env (nat song) w)"

fun delete_equal :: "'e player_env \<Rightarrow> song \<Rightarrow> nat \<Rightarrow> 'e world \<Rightarrow> 'e world option" where
  "delete_equal env s 0 w = Some w"
| "delete_equal env s (Suc i) w =
     do { check_position (w_queue w) (int i);
          w \<leftarrow> (if SongEquals s (Get (w_queue w) i)
               then do { (_, w) \<leftarrow> playlist_DeletePosition env i w; Some w } else Some w);
          delete_equal env s i w }"

definition DeleteSong :: "'e player_env \<Rightarrow> song \<Rightarrow> 'e world \<Rightarrow> 'e world option" where
  "DeleteSong env s w = delete_equal env s (q_length (w_queue w)) w"

end
