(* ===== verification/Playlist_Ops.thy ===== *)
theory Playlist_Ops
  imports Playlist_Model
begin

text \<open>
  The remaining operations of the playlist: playback control (src/src/PlaylistControl.cxx,
  Playlist.cxx) and editing (src/src/PlaylistEdit.cxx, PlaylistUpdate.cxx).  The database and
  the loading of local files are arguments: a database is a function from URIs to songs.
\<close>

section \<open>Playback\<close>

definition PlayPosition :: "'e player_env \<Rightarrow> int \<Rightarrow> 'e world \<Rightarrow> (PlaylistResult \<times> 'e world) option" where
  "PlayPosition env song w =
     (let w = w\<lparr>w_pc := pc_ClearError env (w_pc w)\<rparr> in
      if song = -1 \<and> IsEmpty (w_queue w) then Some (PR_SUCCESS, w)
      else if song = -1 \<and> pl_playing (w_list w)
      then do { w \<leftarrow> on_pci (pc_SetPause env False) w; Some (PR_SUCCESS, w) }
      else if song \<noteq> -1 \<and> \<not> IsValidPosition (w_queue w) (u32 song) then Some (PR_BAD_RANGE, w)
      else do {
        let i = (if song = -1 then (if pl_current (w_list w) \<ge> 0 then pl_current (w_list w) else 0) else song);
        (i, w) \<leftarrow>
          (if q_random (w_queue w)
           then do {
             let i = (if song \<ge> 0 then int (PositionToOrder (w_queue w) (nat song)) else i);
             let w = (if \<not> pl_playing (w_list w) then set_current 0 w else w);
             check_order (w_queue w) i;
             check_order (w_queue w) (pl_current (w_list w));
             let w = set_queue (SwapOrders (w_queue w) (nat i) (nat (pl_current (w_list w)))) w;
             Some (pl_current (w_list w), w) }
           else Some (i, w));
        w \<leftarrow> PlayOrder env i (set_errors False 0 w);
        Some (PR_SUCCESS, w) })"

definition PlayId :: "'e player_env \<Rightarrow> int \<Rightarrow> 'e world \<Rightarrow> (PlaylistResult \<times> 'e world) option" where
  "PlayId env i w =
     (if i = -1 then PlayPosition env i w
      else let song = IdToPosition (w_queue w) (u32 i)
           in if song < 0 then Some (PR_NO_SUCH_SONG, w) else PlayPosition env song w)"

definition PlayNext :: "'e player_env \<Rightarrow> 'e world \<Rightarrow> 'e world option" where
  "PlayNext env w =
     (if \<not> pl_playing (w_list w) then Some w
      else do {
        ensure (\<not> IsEmpty (w_queue w));
        check_order (w_queue w) (pl_current (w_list w));
        let old_current = pl_current (w_list w);
        let w = set_errors False (pl_error_count (w_list w)) w;
        let next_order = GetNextOrder (w_queue w) (nat (pl_current (w_list w)));
        w \<leftarrow> (if next_order < 0
             then do { w \<leftarrow> playlist_Stop env w; Some (set_current (-1) w) }
             else do {
               w \<leftarrow> (if next_order = 0 \<and> q_random (w_queue w)
                    then do { ensure (q_repeat (w_queue w));
                              Some (set_queue (ShuffleOrder (w_queue w)) w) }
                    else Some w);
               PlayOrder env next_order w });
        if q_consume (w_queue w)
        then do { (_, w) \<leftarrow> DeleteOrder env old_current w; Some w } else Some w })"

definition PlayPrevious :: "'e player_env \<Rightarrow> 'e world \<Rightarrow> 'e world option" where
  "PlayPrevious env w =
     (if \<not> pl_playing (w_list w) then Some w
      else do {
        ensure (\<not> IsEmpty (w_queue w));
        PlayOrder env
          (if pl_current (w_list w) > 0 then pl_current (w_list w) - 1
           else if q_repeat (w_queue w) then int (q_length (w_queue w)) - 1
           else pl_current (w_list w)) w })"

definition SeekSongOrder :: "'e player_env \<Rightarrow> nat \<Rightarrow> real \<Rightarrow> 'e world \<Rightarrow> (PlaylistResult \<times> 'e world) option" where
  "SeekSongOrder env i seek_time w =
     do {
       check_order (w_queue w) (int i);
       queued_song \<leftarrow> GetQueuedSong w;
       let w = w\<lparr>w_pc := pc_ClearError env (w_pc w)\<rparr>;
       let w = set_errors True 0 w;
       let (queued_song, w) =
         (if \<not> pl_playing (w_list w) \<or> u32 (pl_current (w_list w)) \<noteq> i
          then (None, set_current (int i) (set_playing True w)) else (queued_song, w));
       (done, pc, idle) \<leftarrow> pc_Seek env (DupDetached (GetOrder (w_queue w) i)) seek_time (w_pc w, w_idle w);
       let w = w\<lparr>w_pc := pc, w_idle := idle\<rparr>;
       if \<not> done
       then do { w \<leftarrow> UpdateQueuedSong env queued_song w; Some (PR_NOT_PLAYING, w) }
       else do { w \<leftarrow> UpdateQueuedSong env None (set_queued (-1) w); Some (PR_SUCCESS, w) } }"

definition SeekSongPosition :: "'e player_env \<Rightarrow> nat \<Rightarrow> real \<Rightarrow> 'e world \<Rightarrow> (PlaylistResult \<times> 'e world) option" where
  "SeekSongPosition env song seek_time w =
     (if \<not> IsValidPosition (w_queue w) song then Some (PR_BAD_RANGE, w)
      else SeekSongOrder env (if q_random (w_queue w) then PositionToOrder (w_queue w) song else song) seek_time w)"

definition SeekSongId :: "'e player_env \<Rightarrow> nat \<Rightarrow> real \<Rightarrow> 'e world \<Rightarrow> (PlaylistResult \<times> 'e world) option" where
  "SeekSongId env i seek_time w =
     (let song = IdToPosition (w_queue w) i
      in if song < 0 then Some (PR_NO_SUCH_SONG, w) else SeekSongPosition env (nat song) seek_time w)"

definition SeekCurrent :: "'e player_env \<Rightarrow> real \<Rightarrow> bool \<Rightarrow> 'e world \<Rightarrow> (PlaylistResult \<times> 'e world) option" where
  "SeekCurrent env seek_time relative w =
     (let seek = (\<lambda>t w. SeekSongOrder env (u32 (pl_current (w_list w))) (if t < 0 then 0 else t) w) in
      if \<not> pl_playing (w_list w) then Some (PR_NOT_PLAYING, w)
      else if relative
      then do {
        (status, pc) \<leftarrow> pc_GetStatus env (w_pc w);
        let w = w\<lparr>w_pc := pc\<rparr>;
        if st_state status \<noteq> PS_PLAY \<and> st_state status \<noteq> PS_PAUSE then Some (PR_NOT_PLAYING, w)
        else seek (seek_time + of_int (trunc (st_elapsed_time status))) w }
      else seek seek_time w)"

section \<open>Events of the player\<close>

definition playlist_song_started :: "'e player_env \<Rightarrow> 'e world \<Rightarrow> 'e world option" where
  "playlist_song_started env w =
     do {
       ensure (pc_next_song (w_pc w) = None);
       ensure (pl_queued (w_list w) \<ge> -1);
       let current = pl_current (w_list w);
       let w = set_queued (-1) (set_current (pl_queued (w_list w)) w);
       w \<leftarrow> (if q_consume (w_queue w)
            then do { (_, w) \<leftarrow> DeleteOrder env current w; Some w } else Some w);
       Some (notify IDLE_PLAYER w) }"

definition playlist_resume_playback :: "'e player_env \<Rightarrow> 'e world \<Rightarrow> 'e world option" where
  "playlist_resume_playback env w =
     do {
       ensure (pl_playing (w_list w));
       ensure (pc_state (w_pc w) = PS_STOP);
       let error = pc_error_type (w_pc w);
       let n = (if error = PE_NONE then 0 else pl_error_count (w_list w) + 1);
       let w = set_errors (pl_stop_on_error (w_list w)) n w;
       if pl_stop_on_error (w_list w) \<and> error \<noteq> PE_NONE \<or> error = PE_OUTPUT \<or>
          unat (pl_error_count (w_list w)) \<ge> q_length (w_queue w)
       then playlist_Stop env w
       else PlayNext env w }"

definition SyncWithPlayer :: "'e player_env \<Rightarrow> 'e world \<Rightarrow> 'e world option" where
  "SyncWithPlayer env w =
     (if \<not> pl_playing (w_list w) then Some w
      else let w = w\<lparr>w_pc := Lock env (w_pc w)\<rparr> in
        if pc_state (w_pc w) = PS_STOP then playlist_resume_playback env w
        else do {
          w \<leftarrow> (if pc_next_song (w_pc w) = None \<and> pl_queued (w_list w) \<noteq> -1
               then playlist_song_started env w else Some w);
          let w = w\<lparr>w_pc := Lock env (w_pc w)\<rparr>;
          if pc_next_song (w_pc w) = None \<and> pl_queued (w_list w) < 0
          then UpdateQueuedSong env None w else Some w })"

definition TagModified :: "song \<Rightarrow> 'e world \<Rightarrow> 'e world option" where
  "TagModified s w =
     (case song_tag s of
        None \<Rightarrow> Some w
      | Some t \<Rightarrow>
          if \<not> pl_playing (w_list w) then Some w
          else do {
            check_order (w_queue w) (pl_current (w_list w));
            let c = nat (pl_current (w_list w));
            let p = OrderToPosition (w_queue w) c;
            let q = w_queue w;
            let q = (if SongEquals s (GetOrder q c)
                     then q\<lparr>q_items := (q_items q)[p := (q_items q ! p)\<lparr>item_song :=
                            ReplaceTag (GetOrder q c) t\<rparr>]\<rparr> else q);
            Some (notify IDLE_PLAYLIST (set_queue (IncrementVersion (ModifyAtOrder q c)) w)) })"

section \<open>Modes\<close>

definition SetRepeat :: "'e player_env \<Rightarrow> bool \<Rightarrow> 'e world \<Rightarrow> 'e world option" where
  "SetRepeat env status w =
     (if status = q_repeat (w_queue w) then Some w
      else do {
        let w = set_queue ((w_queue w)\<lparr>q_repeat := status\<rparr>) w;
        let w = w\<lparr>w_pc := pc_SetBorderPause env (q_single (w_queue w) \<and> \<not> q_repeat (w_queue w)) (w_pc w)\<rparr>;
        queued_song \<leftarrow> GetQueuedSong w;
        w \<leftarrow> UpdateQueuedSong env queued_song w;
        Some (notify IDLE_OPTIONS w) })"

definition SetSingle :: "'e player_env \<Rightarrow> bool \<Rightarrow> 'e world \<Rightarrow> 'e world option" where
  "SetSingle env status w =
     (if status = q_single (w_queue w) then Some w
      else do {
        let w = set_queue ((w_queue w)\<lparr>q_single := status\<rparr>) w;
        let w = w\<lparr>w_pc := pc_SetBorderPause env (q_single (w_queue w) \<and> \<not> q_repeat (w_queue w)) (w_pc w)\<rparr>;
        queued_song \<leftarrow> GetQueuedSong w;
        w \<leftarrow> UpdateQueuedSong env queued_song w;
        Some (notify IDLE_OPTIONS w) })"

definition SetConsume :: "bool \<Rightarrow> 'e world \<Rightarrow> 'e world" where
  "SetConsume status w =
     (if status = q_consume (w_queue w) then w
      else notify IDLE_OPTIONS (set_queue ((w_queue w)\<lparr>q_consume := status\<rparr>) w))"

definition playlist_order :: "'e world \<Rightarrow> 'e world option" where
  "playlist_order w =
     do {
       w \<leftarrow> (if pl_current (w_list w) \<ge> 0
            then do { check_order (w_queue w) (pl_current (w_list w));
                      Some (set_current (int (OrderToPosition (w_queue w) (nat (pl_current (w_list w))))) w) }
            else Some w);
       Some (set_queue (RestoreOrder (w_queue w)) w) }"

definition SetRandom :: "'e player_env \<Rightarrow> bool \<Rightarrow> 'e world \<Rightarrow> 'e world option" where
  "SetRandom env status w =
     (if status = q_random (w_queue w) then Some w
      else do {
        queued_song \<leftarrow> GetQueuedSong w;
        let w = set_queue ((w_queue w)\<lparr>q_random := status\<rparr>) w;
        w \<leftarrow>
          (if q_random (w_queue w)
           then do {
             current_position \<leftarrow> (if pl_playing (w_list w) then GetCurrentPosition w else Some (-1));
             let w = set_queue (ShuffleOrder (w_queue w)) w;
             Some (if current_position \<ge> 0
                   then set_current 0 (set_queue (SwapOrders (w_queue w) 0
                          (PositionToOrder (w_queue w) (nat current_position))) w)
                   else set_current (-1) w) }
           else playlist_order w);
        w \<leftarrow> UpdateQueuedSong env queued_song w;
        Some (notify IDLE_OPTIONS w) })"

section \<open>Editing\<close>

definition playlist_Clear :: "'e player_env \<Rightarrow> 'e world \<Rightarrow> 'e world option" where
  "playlist_Clear env w =
     do { w \<leftarrow> playlist_Stop env w;
          Some (OnModified (set_current (-1) (set_queue (Play_Queue.Clear (w_queue w)) w))) }"

definition BeginBulk :: "'e world \<Rightarrow> 'e world option" where
  "BeginBulk w =
     do { ensure (\<not> pl_bulk_edit (w_list w));
          Some (w\<lparr>w_list := (w_list w)\<lparr>pl_bulk_edit := True, pl_bulk_modified := False\<rparr>\<rparr>) }"

definition CommitBulk :: "'e player_env \<Rightarrow> 'e world \<Rightarrow> 'e world option" where
  "CommitBulk env w =
     do { ensure (pl_bulk_edit (w_list w));
          let w = w\<lparr>w_list := (w_list w)\<lparr>pl_bulk_edit := False\<rparr>\<rparr>;
          if \<not> pl_bulk_modified (w_list w) then Some w
          else do {
            w \<leftarrow> (if pl_queued (w_list w) < 0 then UpdateQueuedSong env None w else Some w);
            Some (OnModified w) } }"

definition AppendSong :: "'e player_env \<Rightarrow> song \<Rightarrow> 'e world \<Rightarrow> (PlaylistResult \<times> nat option \<times> 'e world) option" where
  "AppendSong env s w =
     (if IsFull (w_queue w) then Some (PR_TOO_LARGE, None, w)
      else do {
        queued_song \<leftarrow> GetQueuedSong w;
        (i, q) \<leftarrow> Append (w_queue w) s 0;
        let w = set_queue q w;
        let start = nat (if pl_queued (w_list w) \<ge> 0 then pl_queued (w_list w) + 1
                         else pl_current (w_list w) + 1);
        let w = (if q_random q \<and> start < q_length q
                 then set_queue (ShuffleOrderLast q start (q_length q)) w else w);
        w \<leftarrow> UpdateQueuedSong env queued_song w;
        Some (PR_SUCCESS, Some i, OnModified w) })"

definition AppendFile ::
    "'e player_env \<Rightarrow> (string \<Rightarrow> song option) \<Rightarrow> string \<Rightarrow> 'e world \<Rightarrow> (PlaylistResult \<times> nat option \<times> 'e world) option" where
  "AppendFile env load_file path_utf8 w =
     (case load_file path_utf8 of
        None \<Rightarrow> Some (PR_NO_SUCH_SONG, None, w)
      | Some s \<Rightarrow> AppendSong env s w)"

text \<open>\<open>uri_has_scheme\<close> (src/src/util/UriUtil.cxx): \<open>strstr(uri, "://") != nullptr\<close>.\<close>

fun uri_has_scheme :: "string \<Rightarrow> bool" where
  "uri_has_scheme [] = False"
| "uri_has_scheme (c # cs) = (take 3 (c # cs) = ''://'' \<or> uri_has_scheme cs)"

definition AppendURI ::
    "'e player_env \<Rightarrow> (string \<Rightarrow> song option) option \<Rightarrow> string \<Rightarrow> 'e world \<Rightarrow> (PlaylistResult \<times> nat option \<times> 'e world) option" where
  "AppendURI env database uri w =
     (if uri_has_scheme uri then AppendSong env (NewRemote uri) w
      else case database of
        None \<Rightarrow> Some (PR_NO_SUCH_SONG, None, w)
      | Some db \<Rightarrow> (case db uri of
            None \<Rightarrow> Some (PR_NO_SUCH_SONG, None, w)
          | Some s \<Rightarrow> AppendSong env s w))"

definition playlist_SwapPositions ::
    "'e player_env \<Rightarrow> nat \<Rightarrow> nat \<Rightarrow> 'e world \<Rightarrow> (PlaylistResult \<times> 'e world) option" where
  "playlist_SwapPositions env song1 song2 w =
     (if \<not> IsValidPosition (w_queue w) song1 \<or> \<not> IsValidPosition (w_queue w) song2
      then Some (PR_BAD_RANGE, w)
      else do {
        queued_song \<leftarrow> GetQueuedSong w;
        let w = set_queue (SwapPositions (w_queue w) song1 song2) w;
        let q = w_queue w;
        let w = (if q_random q
                 then set_queue (SwapOrders q (PositionToOrder q song1) (PositionToOrder q song2)) w
                 else if pl_current (w_list w) = int song1 then set_current (int song2) w
                 else if pl_current (w_list w) = int song2 then set_current (int song1) w
                 else w);
        w \<leftarrow> UpdateQueuedSong env queued_song w;
        Some (PR_SUCCESS, OnModified w) })"

definition SwapIds :: "'e player_env \<Rightarrow> nat \<Rightarrow> nat \<Rightarrow> 'e world \<Rightarrow> (PlaylistResult \<times> 'e world) option" where
  "SwapIds env id1 id2 w =
     (let song1 = IdToPosition (w_queue w) id1; song2 = IdToPosition (w_queue w) id2
      in if song1 < 0 \<or> song2 < 0 then Some (PR_NO_SUCH_SONG, w)
         else playlist_SwapPositions env (nat song1) (nat song2) w)"

definition playlist_SetPriorityRange ::
    "'e player_env \<Rightarrow> nat \<Rightarrow> nat \<Rightarrow> 8 word \<Rightarrow> 'e world \<Rightarrow> (PlaylistResult \<times> 'e world) option" where
  "playlist_SetPriorityRange env start fin priority w =
     (let n = q_length (w_queue w) in
      if start \<ge> n then Some (PR_BAD_RANGE, w)
      else let fin = (if fin > n then n else fin) in
      if start \<ge> fin then Some (PR_SUCCESS, w)
      else do {
        current_position \<leftarrow> GetCurrentPosition w;
        queued_song \<leftarrow> GetQueuedSong w;
        let w = set_queue (snd (SetPriorityRange (w_queue w) start fin priority (pl_current (w_list w)))) w;
        let w = (if current_position \<ge> 0
                 then set_current (int (PositionToOrder (w_queue w) (nat current_position))) w else w);
        w \<leftarrow> UpdateQueuedSong env queued_song w;
        Some (PR_SUCCESS, OnModified w) })"

definition SetPriorityId ::
    "'e player_env \<Rightarrow> nat \<Rightarrow> 8 word \<Rightarrow> 'e world \<Rightarrow> (PlaylistResult \<times> 'e world) option" where
  "SetPriorityId env song_id priority w =
     (let pos = IdToPosition (w_queue w) song_id
      in if pos < 0 then Some (PR_NO_SUCH_SONG, w)
         else playlist_SetPriorityRange env (nat pos) (nat pos + 1) priority w)"

text \<open>
  \<open>Queue::MoveRange\<close> with the conditions under which it stays within the used part of its
  arrays: the size of its local array is not negative, and the block ends inside the queue.
\<close>

definition checked_MoveRange :: "queue \<Rightarrow> nat \<Rightarrow> nat \<Rightarrow> int \<Rightarrow> queue option" where
  "checked_MoveRange q start fin to =
     do { ensure (start \<le> fin \<and> fin \<le> q_length q \<and> 0 \<le> to \<and> to + int fin - int start \<le> int (q_length q));
          Some (MoveRange q start fin (nat to)) }"

definition moved_current :: "nat \<Rightarrow> nat \<Rightarrow> int \<Rightarrow> int \<Rightarrow> int" where
  "moved_current start fin to current =
     (if int start \<le> current \<and> current < int fin then current + (to - int start)
      else if current \<ge> int fin \<and> current \<le> to then current - (int fin - int start)
      else if current \<ge> to \<and> current < int start then current + (int fin - int start)
      else current)"

text \<open>The part of \<open>MoveRange\<close> behind its checks.\<close>

definition MoveRange_apply ::
    "'e player_env \<Rightarrow> song_ptr \<Rightarrow> nat \<Rightarrow> nat \<Rightarrow> int \<Rightarrow> 'e world \<Rightarrow> (PlaylistResult \<times> 'e world) option" where
  "MoveRange_apply env queued_song start fin to w =
     do {
       q \<leftarrow> checked_MoveRange (w_queue w) start fin to;
       let w = set_queue q w;
       let w = (if \<not> q_random q
                then set_current (moved_current start fin to (pl_current (w_list w))) w else w);
       w \<leftarrow> UpdateQueuedSong env queued_song w;
       Some (PR_SUCCESS, OnModified w) }"

definition playlist_MoveRange ::
    "'e player_env \<Rightarrow> nat \<Rightarrow> nat \<Rightarrow> int \<Rightarrow> 'e world \<Rightarrow> (PlaylistResult \<times> 'e world) option" where
  "playlist_MoveRange env start fin to w =
     (let n = q_length (w_queue w) in
      if \<not> IsValidPosition (w_queue w) start \<or> \<not> IsValidPosition (w_queue w) (u32 (int fin - 1))
      then Some (PR_BAD_RANGE, w)
      else if to \<ge> 0 \<and> u32 (to + int fin - int start - 1) \<ge> n \<or> to < 0 \<and> u32 \<bar>to\<bar> > n
      then Some (PR_BAD_RANGE, w)
      else if int start = to then Some (PR_SUCCESS, w)
      else do {
        queued_song \<leftarrow> GetQueuedSong w;
        currentSong \<leftarrow> GetCurrentPosition w;
        if to < 0 \<and> currentSong < 0 then Some (PR_BAD_RANGE, w)
        else if to < 0 \<and> int start \<le> currentSong \<and> currentSong < int fin then Some (PR_SUCCESS, w)
        else MoveRange_apply env queued_song start fin
               (if to < 0
                then let to = (currentSong + \<bar>to\<bar>) mod int n in if int start < to then to - 1 else to
                else to) w })"

definition MoveId :: "'e player_env \<Rightarrow> nat \<Rightarrow> int \<Rightarrow> 'e world \<Rightarrow> (PlaylistResult \<times> 'e world) option" where
  "MoveId env id1 to w =
     (let song = IdToPosition (w_queue w) id1
      in if song < 0 then Some (PR_NO_SUCH_SONG, w)
         else playlist_MoveRange env (nat song) (nat song + 1) to w)"

definition Shuffle :: "'e player_env \<Rightarrow> nat \<Rightarrow> nat \<Rightarrow> 'e world \<Rightarrow> 'e world option" where
  "Shuffle env start fin w =
     (let n = q_length (w_queue w); fin = (if fin > n then n else fin) in
      if u32 (int start + 1) \<ge> fin then Some w
      else do {
        queued_song \<leftarrow> GetQueuedSong w;
        (start, w) \<leftarrow>
          (if pl_playing (w_list w) \<and> pl_current (w_list w) \<ge> 0
           then do {
             check_order (w_queue w) (pl_current (w_list w));
             let cp = OrderToPosition (w_queue w) (nat (pl_current (w_list w)));
             Some (if cp \<ge> start \<and> cp < fin
                   then let w = set_queue (SwapPositions (w_queue w) start cp) w;
                            c = (if q_random (w_queue w) then PositionToOrder (w_queue w) start else start)
                        in (start + 1, set_current (int c) w)
                   else (start, w)) }
           else Some (start, set_current (-1) w));
        ensure (start \<le> fin \<and> fin \<le> q_length (w_queue w));
        let w = set_queue (ShuffleRange (w_queue w) start fin) w;
        w \<leftarrow> UpdateQueuedSong env queued_song w;
        Some (OnModified w) })"

section \<open>Updates of the database\<close>

definition UpdatePlaylistSong :: "(string \<Rightarrow> song option) \<Rightarrow> song \<Rightarrow> song option" where
  "UpdatePlaylistSong db s =
     (if \<not> IsInDatabase s \<or> \<not> IsDetached s then None
      else case db (song_uri s) of
        None \<Rightarrow> None
      | Some original \<Rightarrow>
          if song_mtime original = song_mtime s then None
          else let s = s\<lparr>song_mtime := song_mtime original\<rparr>
               in Some (case song_tag original of None \<Rightarrow> s | Some t \<Rightarrow> ReplaceTag s t))"

definition DatabaseModified :: "(string \<Rightarrow> song option) option \<Rightarrow> 'e world \<Rightarrow> 'e world" where
  "DatabaseModified database w =
     (case database of
        None \<Rightarrow> w
      | Some db \<Rightarrow>
          let (q, modified) =
            for_up 0 (q_length (w_queue w))
              (\<lambda>i (q, modified). case UpdatePlaylistSong db (Get q i) of
                   None \<Rightarrow> (q, modified)
                 | Some s \<Rightarrow> (ModifyAtPosition (q\<lparr>q_items := (q_items q)[i :=
                                (q_items q ! i)\<lparr>item_song := s\<rparr>]\<rparr>) i, True))
              (w_queue w, False);
              w = set_queue q w
          in if modified then notify IDLE_PLAYLIST (set_queue (IncrementVersion (w_queue w)) w) else w)"

end
