(* ===== verification/Playlist_Inv.thy ===== *)
theory Playlist_Inv
  imports Playlist_Ops
begin

text \<open>
  The invariant of the playlist and the lemma on which all its operations rest: whatever an
  operation has done to the queue, \<open>UpdateQueuedSong\<close> brings the player's next song, the
  playlist's \<open>queued\<close> and the queue back together (\<open>UpdateQueuedSong_ok\<close>).  All lemmas that
  involve the player are proved from the contract of its thread, in \<open>player_thread\<close>.
\<close>

section \<open>Songs of a queue\<close>

definition entries :: "queue \<Rightarrow> (nat \<times> song) set" where
  "entries q = (\<lambda>k. (fst (snd k), fst k)) ` set (keys q)"

definition detached :: "queue \<Rightarrow> bool" where
  "detached q \<longleftrightarrow> (\<forall>e \<in> entries q. DupDetached (snd e) = snd e)"

text \<open>The same song, whose tag may have been updated.\<close>

definition alike :: "song \<Rightarrow> song \<Rightarrow> bool" where
  "alike a b \<longleftrightarrow> a\<lparr>song_tag := None, song_mtime := 0\<rparr> = b\<lparr>song_tag := None, song_mtime := 0\<rparr>"

lemma alike_refl [simp]: "alike s s"
  by (simp add: alike_def)

lemma nth_entries: "queue_inv q \<Longrightarrow> p < q_length q \<Longrightarrow> (item_id (q_items q ! p), item_song (q_items q ! p)) \<in> entries q"
  by (force simp: entries_def set_conv_nth nth_keys item_key_def)

lemma entriesE:
  assumes "e \<in> entries q" "queue_inv q"
  obtains p where "p < q_length q" "fst e = item_id (q_items q ! p)" "snd e = item_song (q_items q ! p)"
  using assms by (auto simp: entries_def set_conv_nth nth_keys item_key_def)

lemma entries_unique:
  assumes "queue_inv q" "(i, s) \<in> entries q" "(i, t) \<in> entries q"
  shows "s = t"
proof -
  have "ids_match {..<q_length q} q" using assms(1) by (simp add: queue_inv_def)
  from ids_match_inj[OF this] show ?thesis
    using entriesE[OF assms(2,1)] entriesE[OF assms(3,1)] by (metis fst_conv lessThan_iff snd_conv)
qed

lemma entries_mset: "mset (keys q') = mset (keys q) \<Longrightarrow> entries q' = entries q"
  using mset_eq_setD[of "keys q'" "keys q"] by (simp add: entries_def)

lemma entries_keys: "keys q' = keys q \<Longrightarrow> entries q' = entries q"
  by (simp add: entries_def)

lemma detached_entries: "entries q' \<subseteq> entries q \<Longrightarrow> detached q \<Longrightarrow> detached q'"
  by (auto simp: detached_def)

section \<open>The invariant\<close>

text \<open>Does the song that waits in the player belong to the pointer?\<close>

definition matches :: "queue \<Rightarrow> song_ptr \<Rightarrow> song option \<Rightarrow> bool" where
  "matches q p next \<longleftrightarrow> (case next of None \<Rightarrow> True
     | Some s \<Rightarrow> p \<noteq> None \<and> (\<forall>e \<in> entries q. Some (fst e) = p \<longrightarrow> alike (snd e) s))"

text \<open>
  The state in which \<open>UpdateQueuedSong\<close> may be called: \<open>prev\<close> is the song that was queued before
  the queue was edited.
\<close>

definition pl_base :: "'e world \<Rightarrow> bool" where
  "pl_base w \<longleftrightarrow> (let q = w_queue w; pl = w_list w in
     queue_inv q \<and> q_max_length q < 2 ^ 31 \<and> detached q \<and> -1 \<le> pl_current pl \<and> pl_current pl < int (q_length q) \<and>
     (pl_playing pl \<longrightarrow> 0 \<le> pl_current pl))"

definition pl_ready :: "song_ptr \<Rightarrow> 'e world \<Rightarrow> bool" where
  "pl_ready prev w \<longleftrightarrow> (let pl = w_list w in
     pl_base w \<and> -1 \<le> pl_queued pl \<and>
     (\<not> pl_playing pl \<longrightarrow> pc_state (w_pc w) = PS_STOP) \<and>
     (pl_playing pl \<longrightarrow> (pl_queued pl < 0 \<longleftrightarrow> prev = None) \<and>
        matches (w_queue w) prev (pc_next_song (w_pc w))))"

definition queued_ptr :: "'e world \<Rightarrow> song_ptr" where
  "queued_ptr w = (if pl_playing (w_list w) \<and> pl_queued (w_list w) \<ge> 0
                   then Some (order_song (w_queue w) (pl_queued (w_list w))) else None)"

definition playlist_inv :: "'e world \<Rightarrow> bool" where
  "playlist_inv w \<longleftrightarrow> pl_ready (queued_ptr w) w \<and>
     (pl_playing (w_list w) \<longrightarrow> pl_queued (w_list w) < int (q_length (w_queue w)))"

text \<open>The song \<open>current\<close> stands for.\<close>

definition current_song :: "'e world \<Rightarrow> nat option" where
  "current_song w = (if pl_current (w_list w) \<ge> 0
                     then Some (order_song (w_queue w) (pl_current (w_list w))) else None)"

text \<open>What \<open>UpdateQueuedSong\<close> leaves as it is: everything but the order of the songs to come.\<close>

definition same_list :: "'e world \<Rightarrow> 'e world \<Rightarrow> bool" where
  "same_list w w' \<longleftrightarrow> q_items (w_queue w') = q_items (w_queue w) \<and> q_length (w_queue w') = q_length (w_queue w) \<and>
     q_max_length (w_queue w') = q_max_length (w_queue w) \<and> q_version (w_queue w') = q_version (w_queue w) \<and>
     q_random (w_queue w') = q_random (w_queue w) \<and> q_repeat (w_queue w') = q_repeat (w_queue w) \<and>
     q_single (w_queue w') = q_single (w_queue w) \<and> q_consume (w_queue w') = q_consume (w_queue w) \<and>
     mset (play_ids (w_queue w')) = mset (play_ids (w_queue w)) \<and>
     (\<not> q_random (w_queue w) \<longrightarrow> w_queue w' = w_queue w) \<and>
     current_song w' = current_song w \<and> pl_playing (w_list w') = pl_playing (w_list w) \<and>
     pl_bulk_edit (w_list w') = pl_bulk_edit (w_list w) \<and> pl_bulk_modified (w_list w') = pl_bulk_modified (w_list w) \<and>
     pl_stop_on_error (w_list w') = pl_stop_on_error (w_list w) \<and>
     pl_error_count (w_list w') = pl_error_count (w_list w) \<and> w_idle w' = w_idle w \<and>
     pc_border_pause (w_pc w') = pc_border_pause (w_pc w)"

lemma same_list_refl [simp]: "same_list w w"
  by (simp add: same_list_def)

lemma same_list_trans: "same_list w w1 \<Longrightarrow> same_list w1 w2 \<Longrightarrow> same_list w w2"
  by (simp add: same_list_def)

lemma same_list_keys: "same_list w w' \<Longrightarrow> keys (w_queue w') = keys (w_queue w)"
  by (simp add: same_list_def keys_def)

lemma world_sets [simp]:
  "w_list (set_queue q w) = (w_list w)\<lparr>pl_queue := q\<rparr>" "w_pc (set_queue q w) = w_pc w" "w_idle (set_queue q w) = w_idle w"
  "w_list (set_current c w) = (w_list w)\<lparr>pl_current := c\<rparr>" "w_pc (set_current c w) = w_pc w" "w_idle (set_current c w) = w_idle w"
  "w_list (set_queued c w) = (w_list w)\<lparr>pl_queued := c\<rparr>" "w_pc (set_queued c w) = w_pc w" "w_idle (set_queued c w) = w_idle w"
  "w_list (set_playing b w) = (w_list w)\<lparr>pl_playing := b\<rparr>" "w_pc (set_playing b w) = w_pc w" "w_idle (set_playing b w) = w_idle w"
  "w_list (set_errors b n w) = (w_list w)\<lparr>pl_stop_on_error := b, pl_error_count := n\<rparr>"
  "w_pc (set_errors b n w) = w_pc w" "w_idle (set_errors b n w) = w_idle w"
  "w_list (notify f w) = w_list w" "w_pc (notify f w) = w_pc w" "w_idle (notify f w) = idle_add f (w_idle w)"
  by (simp_all add: set_queue_def set_current_def set_queued_def set_playing_def set_errors_def notify_def)

lemmas world_defs = current_song_def queued_ptr_def order_song_def GetOrderItem_def OrderToPosition_def

lemma ensure_bind [simp]: "ensure b \<bind> f = (if b then f () else None)"
  by (simp add: ensure_def)

lemma check_bind [simp]:
  "check_order q c \<bind> f = (if 0 \<le> c \<and> c < int (q_length q) then f () else None)"
  "check_position q c \<bind> f = (if 0 \<le> c \<and> c < int (q_length q) then f () else None)"
  by (simp_all add: check_order_def check_position_def)

lemma GetQueuedSong_ok:
  assumes "playlist_inv w"
  shows "GetQueuedSong w = Some (queued_ptr w)" "pl_ready (queued_ptr w) w"
  using assms by (auto simp: playlist_inv_def GetQueuedSong_def queued_ptr_def)

lemma GetNextOrder_range:
  "ord < q_length q \<Longrightarrow> -1 \<le> GetNextOrder q ord \<and> GetNextOrder q ord < int (q_length q)"
  by (auto simp: GetNextOrder_def)

lemma reshuffle_ok:
  assumes inv: "queue_inv (w_queue w)" and rnd: "q_random (w_queue w)"
    and c: "0 \<le> pl_current (w_list w)" "pl_current (w_list w) < int (q_length (w_queue w))"
  obtains c' where
    "reshuffle w = Some (set_current c' (set_queue (ShuffleOrder (w_queue w)) w))"
    "0 \<le> c'" "c' < int (q_length (w_queue w))"
    "same_list w (set_current c' (set_queue (ShuffleOrder (w_queue w)) w))"
proof -
  let ?q = "w_queue w" and ?c = "nat (pl_current (w_list w))"
  let ?q' = "ShuffleOrder ?q" and ?p = "q_order ?q ! ?c"
  note sh = ShuffleOrder_correct[OF inv rnd] and f = reordered_fields[OF ShuffleOrder_correct(3)[OF inv rnd]]
  have p: "?p < q_length ?q" using order_bound[OF inv] c by simp
  then have o: "PositionToOrder ?q' ?p < q_length ?q'" "q_order ?q' ! PositionToOrder ?q' ?p = ?p"
    using order_of_position[OF sh(1), of ?p] f by simp_all
  show thesis
  proof (rule that)
    show "reshuffle w = Some (set_current (int (PositionToOrder ?q' ?p)) (set_queue ?q' w))"
      using c by (simp add: reshuffle_def OrderToPosition_def Let_def)
    show "same_list w (set_current (int (PositionToOrder ?q' ?p)) (set_queue ?q' w))"
      using c o sh f rnd by (auto simp: same_list_def world_defs)
  qed (use o f in auto)
qed

lemma on_pc_Some: "f (w_pc w) = Some pc \<Longrightarrow> on_pc f w = Some (w\<lparr>w_pc := pc\<rparr>)"
  by (simp add: on_pc_def)

lemma on_pci_Some: "f (w_pc w, w_idle w) = Some (pc, idle) \<Longrightarrow> on_pci f w = Some (w\<lparr>w_pc := pc, w_idle := idle\<rparr>)"
  by (simp add: on_pci_def)

lemma order_entry:
  assumes "queue_inv q" "0 \<le> c" "c < int (q_length q)"
  shows "(order_song q c, GetOrder q (nat c)) \<in> entries q"
proof -
  have "nat c < q_length q" using assms by linarith
  from nth_entries[OF assms(1) order_bound[OF assms(1) this]] show ?thesis
    by (simp add: order_song_def GetOrderItem_def GetOrder_def Get_def OrderToPosition_def)
qed

lemma matches_order:
  assumes "queue_inv q" "detached q" "0 \<le> c" "c < int (q_length q)"
  shows "matches q (Some (order_song q c)) (Some (DupDetached (GetOrder q (nat c))))"
proof -
  note e = order_entry[OF assms(1,3,4)]
  have "DupDetached (GetOrder q (nat c)) = GetOrder q (nat c)" using assms(2) e by (auto simp: detached_def)
  then show ?thesis using entries_unique[OF assms(1) e] by (auto simp: matches_def)
qed

lemma matches_None [simp]: "matches q p None"
  by (simp add: matches_def)

lemma matches_None_ptr: "matches q None next \<longleftrightarrow> next = None"
  by (simp add: matches_def split: option.splits)

section \<open>Keeping the player up to date\<close>

context player_thread
begin

lemma queue_song_order_ok:
  assumes pc: "ok (w_pc w)" "pc_next_song (w_pc w) = None" and base: "pl_base w" "pl_playing (w_list w)"
    and ord: "0 \<le> ord" "ord < int (q_length (w_queue w))"
  shows "\<exists>w'. playlist_queue_song_order env ord w = Some w' \<and> ok (w_pc w') \<and> playlist_inv w' \<and> same_list w w'"
proof -
  let ?s = "DupDetached (GetOrder (w_queue w) (nat ord))"
  obtain pc' where p: "pc_EnqueueSong env ?s (w_pc w) = Some pc'" "ok pc'"
    "pc_next_song pc' = None \<or> pc_next_song pc' = Some ?s" "pc_border_pause pc' = pc_border_pause (w_pc w)"
    using EnqueueSong_ok[OF pc, of ?s] by blast
  let ?w = "(set_queued ord w)\<lparr>w_pc := pc'\<rparr>"
  have "on_pc (pc_EnqueueSong env ?s) (set_queued ord w) = Some ?w"
    by (rule on_pc_Some) (simp add: p)
  then have "playlist_queue_song_order env ord w = Some ?w"
    using ord by (simp add: playlist_queue_song_order_def)
  moreover have "playlist_inv ?w"
    using base ord p matches_order[of "w_queue w" ord]
    by (auto simp: playlist_inv_def pl_ready_def pl_base_def queued_ptr_def Let_def)
  moreover have "same_list w ?w"
    using p by (simp add: same_list_def current_song_def)
  ultimately show ?thesis using p by auto
qed

lemma UpdateQueuedSong_ok:
  assumes pc: "ok (w_pc w)" and ready: "pl_ready prev w"
  shows "\<exists>w'. UpdateQueuedSong env prev w = Some w' \<and> ok (w_pc w') \<and> playlist_inv w' \<and> same_list w w'"
proof (cases "pl_playing (w_list w)")
  case False
  then show ?thesis
    using pc ready by (auto simp: UpdateQueuedSong_def playlist_inv_def pl_ready_def Let_def)
next
  case playing: True
  show ?thesis
  proof (cases "prev = None \<and> pl_bulk_edit (w_list w)")
    case True
    then show ?thesis
      using pc ready playing by (auto simp: UpdateQueuedSong_def playlist_inv_def pl_ready_def queued_ptr_def Let_def)
  next
    case work: False
    let ?q = "w_queue w" and ?c = "pl_current (w_list w)"
    have base: "pl_base w" and inv: "queue_inv ?q" and c: "0 \<le> ?c" "?c < int (q_length ?q)"
      and qd: "pl_queued (w_list w) < 0 \<longleftrightarrow> prev = None" "-1 \<le> pl_queued (w_list w)"
      and m: "matches ?q prev (pc_next_song (w_pc w))"
      using ready playing by (auto simp: pl_ready_def pl_base_def Let_def)
    define n where "n = GetNextOrder ?q (nat ?c)"
    have n: "-1 \<le> n" "n < int (q_length ?q)" using GetNextOrder_range[of "nat ?c" ?q] c by (simp_all add: n_def)
    have no: "next_order_of w = Some n" using c by (simp add: next_order_of_def n_def)
    obtain w1 where w1: "(if n = 0 \<and> q_random ?q \<and> \<not> q_single ?q then reshuffle w else Some w) = Some w1"
      "same_list w w1" "pl_base w1" "w_pc w1 = w_pc w" "pl_queued (w_list w1) = pl_queued (w_list w)"
      "entries (w_queue w1) = entries ?q"
    proof (cases "n = 0 \<and> q_random ?q \<and> \<not> q_single ?q")
      case True
      obtain c' where r: "reshuffle w = Some (set_current c' (set_queue (ShuffleOrder ?q) w))"
        "0 \<le> c'" "c' < int (q_length ?q)" "same_list w (set_current c' (set_queue (ShuffleOrder ?q) w))"
        using reshuffle_ok[OF inv _ c] True by blast
      let ?w1 = "set_current c' (set_queue (ShuffleOrder ?q) w)"
      have e: "entries (ShuffleOrder ?q) = entries ?q"
        using same_list_keys[OF r(4)] by (intro entries_keys) simp
      have "q_random ?q" using True by simp
      note sh = ShuffleOrder_correct[OF inv this]
      have "pl_base ?w1"
        using base sh(1) r(2,3) reordered_fields(2,5)[OF sh(3)] e by (simp add: pl_base_def detached_def Let_def)
      then show thesis using that[of ?w1] True r e by simp
    next
      case False
      then show thesis using base by (intro that[of w]) auto
    qed
    have pl1: "pl_playing (w_list w1)" and len1: "q_length (w_queue w1) = q_length ?q"
      using w1(2) playing by (simp_all add: same_list_def)
    define ns where "ns = (if n \<ge> 0 then Some (order_song (w_queue w1) n) else None)"
    have nse: "(if n \<ge> 0 then do { check_order (w_queue w1) n; Some (Some (order_song (w_queue w1) n)) } else Some None) = Some ns"
      using n len1 by (simp add: ns_def)
    let ?cancel = "if prev \<noteq> None \<and> ns \<noteq> prev
        then do { w \<leftarrow> on_pc (pc_Cancel env) w1; Some (set_queued (-1) w) } else Some w1"
    obtain w2 where w2: "?cancel = Some w2" "ok (w_pc w2)" "same_list w1 w2" "pl_base w2"
        "ns \<noteq> prev \<longrightarrow> pc_next_song (w_pc w2) = None \<and> pl_queued (w_list w2) = -1"
        "ns = prev \<longrightarrow> w2 = w1" "w_queue w2 = w_queue w1"
    proof (cases "prev \<noteq> None \<and> ns \<noteq> prev")
      case True
      obtain pc' where p: "pc_Cancel env (w_pc w1) = Some pc'" "ok pc'" "quiet (w_pc w1) pc'" "pc_next_song pc' = None"
        using Cancel_ok[of "w_pc w1"] pc w1(4) by auto
      let ?w2 = "set_queued (-1) (w1\<lparr>w_pc := pc'\<rparr>)"
      have "?cancel = Some ?w2" using True on_pc_Some[of "pc_Cancel env" w1 pc'] p(1) by simp
      moreover have "same_list w1 ?w2" using p by (simp add: same_list_def current_song_def quiet_def)
      moreover have "pl_base ?w2" using w1(3) by (simp add: pl_base_def Let_def)
      ultimately show thesis using p True by (intro that[of ?w2]) simp_all
    next
      case False
      have "ns \<noteq> prev \<longrightarrow> pc_next_song (w_pc w1) = None \<and> pl_queued (w_list w1) = -1"
        using False m qd w1(4,5) by (auto simp: matches_None_ptr)
      then show thesis using False pc w1(3,4) by (intro that[of w1]) auto
    qed
    have s2: "same_list w w2" using same_list_trans[OF w1(2) w2(3)] .
    have pl2: "pl_playing (w_list w2)" using w2(3) pl1 by (simp add: same_list_def)
    have eq: "UpdateQueuedSong env prev w =
        (if n \<ge> 0 then if ns \<noteq> prev then playlist_queue_song_order env n w2 else Some (set_queued n w2) else Some w2)"
    proof -
      have e: "ensure (\<not> IsEmpty ?q) = Some ()" "ensure ((pl_queued (w_list w) < 0) = (prev = None)) = Some ()"
        using c qd by (auto simp: IsEmpty_def)
      have p: "(\<not> pl_playing (w_list w)) = False" using playing by simp
      show ?thesis
        unfolding UpdateQueuedSong_def p if_False if_not_P[OF work] e no Option.bind.simps w1(1) nse w2(1) ..
    qed
    have inv1: "queue_inv (w_queue w1)" "detached (w_queue w1)" using w1(3) by (simp_all add: pl_base_def Let_def)
    show ?thesis
    proof (cases "n \<ge> 0")
      case n0: True
      show ?thesis
      proof (cases "ns = prev")
        case True
        have w21: "w2 = w1" using True w2(6) by simp
        have "playlist_inv (set_queued n w1)"
          using True n n0 pl1 w1 m len1 pc
          by (auto simp: playlist_inv_def pl_ready_def pl_base_def queued_ptr_def ns_def matches_def Let_def split: option.splits)
        moreover have "same_list w (set_queued n w1)"
          by (rule same_list_trans[OF w1(2)]) (simp add: same_list_def current_song_def)
        ultimately show ?thesis using eq n0 True w21 pc w1(4) by simp
      next
        case False
        then have "pc_next_song (w_pc w2) = None" using w2(5) by simp
        from queue_song_order_ok[OF w2(2) this w2(4) pl2 n0] n len1 w2(7)
        show ?thesis using eq n0 False same_list_trans[OF s2] by auto
      qed
    next
      case False
      have ns: "ns = None" using False by (simp add: ns_def)
      have "pl_queued (w_list w2) = -1 \<and> pc_next_song (w_pc w2) = None"
        using ns w2(5,6) w1(4,5) m qd by (cases "prev = None") (auto simp: matches_None_ptr)
      then have "playlist_inv w2"
        using pl2 w2(4) by (simp add: playlist_inv_def pl_ready_def queued_ptr_def pl_base_def Let_def)
      then show ?thesis using eq False w2(2) s2 by simp
    qed
  qed
qed

end

end
