(* ===== verification/Playlist_Edit.thy ===== *)
theory Playlist_Edit
  imports Playlist_Inv
begin

text \<open>
  Every editing operation of the playlist (src/src/PlaylistEdit.cxx): no assertion of the code
  fails, the invariant is kept, the songs are edited as requested and \<open>current\<close> goes on
  standing for the same song.
\<close>

section \<open>Songs and the current song\<close>

definition same_songs :: "'e world \<Rightarrow> 'e world \<Rightarrow> bool" where
  "same_songs w w' \<longleftrightarrow> keys (w_queue w') = keys (w_queue w) \<and> q_length (w_queue w') = q_length (w_queue w) \<and>
     q_random (w_queue w') = q_random (w_queue w) \<and> mset (play_ids (w_queue w')) = mset (play_ids (w_queue w)) \<and>
     (\<not> q_random (w_queue w) \<longrightarrow> play_ids (w_queue w') = play_ids (w_queue w)) \<and>
     current_song w' = current_song w \<and> pl_playing (w_list w') = pl_playing (w_list w) \<and>
     pl_bulk_edit (w_list w') = pl_bulk_edit (w_list w)"

lemma same_songs_refl [simp]: "same_songs w w"
  by (simp add: same_songs_def)

lemma same_songs_trans: "same_songs w w1 \<Longrightarrow> same_songs w1 w2 \<Longrightarrow> same_songs w w2"
  by (simp add: same_songs_def)

lemma same_list_songs: "same_list w w' \<Longrightarrow> same_songs w w'"
  using same_list_keys[of w w'] by (simp add: same_list_def same_songs_def)

lemma same_songs_entries: "same_songs w w' \<Longrightarrow> entries (w_queue w') = entries (w_queue w)"
  by (simp add: same_songs_def entries_def)

lemma order_song_play_ids:
  "0 \<le> c \<Longrightarrow> c < int (q_length q) \<Longrightarrow> length (q_order q) \<ge> q_length q \<Longrightarrow> order_song q c = play_ids q ! nat c"
proof -
  assume "0 \<le> c" "c < int (q_length q)" "q_length q \<le> length (q_order q)"
  moreover from this have "nat c < q_length q" by linarith
  ultimately show ?thesis
    by (simp add: order_song_def GetOrderItem_def OrderToPosition_def play_ids_def orders_def)
qed

lemma current_song_play_ids:
  assumes "pl_base w"
  shows "current_song w = (if pl_current (w_list w) \<ge> 0
    then Some (play_ids (w_queue w) ! nat (pl_current (w_list w))) else None)"
  using assms by (simp add: current_song_def pl_base_def queue_inv_def order_song_play_ids Let_def)

lemma OnModified_eq:
  "OnModified w = (if pl_bulk_edit (w_list w) then w\<lparr>w_list := (w_list w)\<lparr>pl_bulk_modified := True\<rparr>\<rparr>
     else notify IDLE_PLAYLIST (set_queue (IncrementVersion (w_queue w)) w))"
  by (simp add: OnModified_def)

lemma order_song_IncrementVersion:
  assumes inv: "queue_inv q" and c: "0 \<le> c" "c < int (q_length q)"
  shows "order_song (IncrementVersion q) c = order_song q c"
proof -
  note i = IncrementVersion_correct[OF inv]
  have "order_song (IncrementVersion q) c = play_ids (IncrementVersion q) ! nat c"
    using i(1,5) c by (intro order_song_play_ids) (auto simp: queue_inv_def)
  also have "\<dots> = order_song q c"
    using i(3) c inv by (subst order_song_play_ids) (auto simp: queue_inv_def)
  finally show ?thesis .
qed

lemma OnModified_ok:
  assumes inv: "playlist_inv w"
  shows "playlist_inv (OnModified w)" "same_songs w (OnModified w)" "w_pc (OnModified w) = w_pc w"
    "q_repeat (w_queue (OnModified w)) = q_repeat (w_queue w)"
proof -
  let ?q = "w_queue w"
  have q: "queue_inv ?q" using inv by (simp add: playlist_inv_def pl_ready_def pl_base_def Let_def)
  note i = IncrementVersion_correct[OF q]
  have cs: "current_song (OnModified w) = current_song w" "queued_ptr (OnModified w) = queued_ptr w"
    using inv order_song_IncrementVersion[OF q]
    by (auto simp: OnModified_def current_song_def queued_ptr_def playlist_inv_def pl_ready_def pl_base_def Let_def)
  have e: "entries (IncrementVersion ?q) = entries ?q" using i(2) by (rule entries_keys)
  have m: "matches (IncrementVersion ?q) p n = matches ?q p n" for p n
    unfolding matches_def e by (rule refl)
  show "playlist_inv (OnModified w)"
    using inv i e unfolding playlist_inv_def cs(2)
    by (auto simp: pl_ready_def pl_base_def OnModified_def detached_def m Let_def)
  show "same_songs w (OnModified w)"
    unfolding same_songs_def cs(1) using i by (simp add: OnModified_def)
  show "w_pc (OnModified w) = w_pc w" by (simp add: OnModified_def)
  show "q_repeat (w_queue (OnModified w)) = q_repeat ?q"
    using IncrementVersion_eq[OF q] by (simp add: OnModified_def)
qed

lemma ready_edit:
  assumes ready: "pl_ready p w" and inv: "queue_inv q'" and m: "q_max_length q' = q_max_length (w_queue w)"
    and e: "\<forall>e \<in> entries q'. e \<in> entries (w_queue w) \<or> Some (fst e) \<noteq> p \<and> DupDetached (snd e) = snd e"
    and c: "-1 \<le> c" "c < int (q_length q')" "pl_playing (w_list w) \<Longrightarrow> 0 \<le> c"
  shows "pl_ready p (set_current c (set_queue q' w))"
  using assms unfolding pl_ready_def pl_base_def detached_def matches_def world_sets Let_def
  by (auto split: option.splits)

lemma pl_readyD:
  assumes "pl_ready p w"
  shows "queue_inv (w_queue w)" "detached (w_queue w)" "-1 \<le> pl_current (w_list w)"
    "pl_current (w_list w) < int (q_length (w_queue w))" "pl_base w"
    "pl_playing (w_list w) \<Longrightarrow> 0 \<le> pl_current (w_list w)" "q_max_length (w_queue w) < 2 ^ 31"
  using assms by (simp_all add: pl_ready_def pl_base_def Let_def)

lemma playlist_invD:
  assumes "playlist_inv w"
  shows "queue_inv (w_queue w)" "detached (w_queue w)" "-1 \<le> pl_current (w_list w)"
    "pl_current (w_list w) < int (q_length (w_queue w))" "pl_base w"
    "pl_playing (w_list w) \<Longrightarrow> 0 \<le> pl_current (w_list w)"
    "\<not> pl_playing (w_list w) \<Longrightarrow> pc_state (w_pc w) = PS_STOP" "pl_ready (queued_ptr w) w"
    "q_max_length (w_queue w) < 2 ^ 31"
  using assms by (simp_all add: playlist_inv_def pl_ready_def pl_base_def Let_def)

lemma set_current_id [simp]: "set_current (pl_current (w_list w)) w = w"
  "set_current c (set_current d w) = set_current c w"
  "set_queue q (set_queue q' w) = set_queue q w"
  "set_queue (w_queue w) w = w"
  by (simp_all add: set_current_def set_queue_def)

context player_thread
begin

text \<open>The end of every editing operation.\<close>

lemma finish_edit:
  assumes pc: "ok (w_pc w)" and ready: "pl_ready p w"
  obtains w1 where "UpdateQueuedSong env p w = Some w1" "ok (w_pc (OnModified w1))" "playlist_inv (OnModified w1)"
    "same_songs w (OnModified w1)"
proof -
  obtain w1 where "UpdateQueuedSong env p w = Some w1" "ok (w_pc w1)" "playlist_inv w1" "same_list w w1"
    using UpdateQueuedSong_ok[OF assms] by blast
  then show thesis
    using OnModified_ok[of w1] same_songs_trans[OF same_list_songs] by (intro that[of w1]) auto
qed

lemma PlayOrder_ok:
  assumes pc: "ok (w_pc w)" and q: "queue_inv (w_queue w)" "detached (w_queue w)" "q_max_length (w_queue w) < 2 ^ 31"
    and ord: "0 \<le> ord" "ord < int (q_length (w_queue w))"
  obtains w' where "PlayOrder env ord w = Some w'" "ok (w_pc w')" "playlist_inv w'" "w_queue w' = w_queue w"
    "pl_current (w_list w') = ord" "pl_queued (w_list w') = -1" "pl_playing (w_list w')"
    "pl_bulk_edit (w_list w') = pl_bulk_edit (w_list w)" "pc_next_song (w_pc w') = None"
proof -
  let ?s = "DupDetached (GetOrder (w_queue w) (nat ord))"
  obtain pc' where p: "pc_Play env ?s (w_pc w) = Some pc'" "ok pc'" "pc_next_song pc' = None"
    using Play_ok[OF pc, of ?s] by blast
  let ?w = "set_current ord ((set_queued (-1) (set_playing True w))\<lparr>w_pc := pc'\<rparr>)"
  have "on_pc (pc_Play env ?s) (set_queued (-1) (set_playing True w)) =
      Some ((set_queued (-1) (set_playing True w))\<lparr>w_pc := pc'\<rparr>)"
    by (rule on_pc_Some) (simp add: p)
  then have "PlayOrder env ord w = Some ?w" using ord by (simp add: PlayOrder_def Let_def)
  moreover have "playlist_inv ?w"
    using q ord p by (simp add: playlist_inv_def pl_ready_def pl_base_def queued_ptr_def Let_def)
  ultimately show thesis using p by (intro that[of ?w]) simp_all
qed

lemma Stop_playing_ok:
  assumes pc: "ok (w_pc w)"
  obtains pc' idle where "on_pci (pc_Stop env) w = Some (w\<lparr>w_pc := pc', w_idle := idle\<rparr>)" "ok pc'"
    "pc_state pc' = PS_STOP" "pc_next_song pc' = None"
  using Stop_ok[OF pc, of "w_idle w"] on_pci_Some[of "pc_Stop env" w] by blast

lemma playlist_Stop_ok:
  assumes pc: "ok (w_pc w)" and inv: "playlist_inv w"
  obtains w' where "playlist_Stop env w = Some w'" "ok (w_pc w')" "playlist_inv w'" "\<not> pl_playing (w_list w')"
    "keys (w_queue w') = keys (w_queue w)" "q_length (w_queue w') = q_length (w_queue w)"
    "current_song w' = current_song w" "pl_bulk_edit (w_list w') = pl_bulk_edit (w_list w)"
    "q_random (w_queue w') = q_random (w_queue w)" "pc_state (w_pc w') = PS_STOP"
    "q_consume (w_queue w') = q_consume (w_queue w)" "\<not> q_random (w_queue w) \<longrightarrow> w_queue w' = w_queue w"
proof (cases "pl_playing (w_list w)")
  case False
  then show thesis using assms playlist_invD(7)[OF inv] by (intro that[of w]) (simp_all add: playlist_Stop_def)
next
  case True
  note d = playlist_invD[OF inv]
  obtain pc' idle where p: "on_pci (pc_Stop env) w = Some (w\<lparr>w_pc := pc', w_idle := idle\<rparr>)" "ok pc'"
    "pc_state pc' = PS_STOP" "pc_next_song pc' = None"
    using Stop_playing_ok[OF pc] by blast
  let ?w = "set_playing False (set_queued (-1) (w\<lparr>w_pc := pc', w_idle := idle\<rparr>))"
  have eq: "playlist_Stop env w = (if q_random (w_queue w) then reshuffle ?w else Some ?w)"
    using True d p by (simp add: playlist_Stop_def Let_def)
  have cs: "current_song ?w = current_song w" by (simp add: current_song_def)
  have inv': "playlist_inv ?w"
    using d p by (simp add: playlist_inv_def pl_ready_def pl_base_def Let_def)
  show thesis
  proof (cases "q_random (w_queue w)")
    case False
    then show thesis using eq cs p inv' by (intro that[of ?w]) simp_all
  next
    case rnd: True
    obtain c' where r: "reshuffle ?w = Some (set_current c' (set_queue (ShuffleOrder (w_queue ?w)) ?w))"
      "0 \<le> c'" "c' < int (q_length (w_queue ?w))" "same_list ?w (set_current c' (set_queue (ShuffleOrder (w_queue ?w)) ?w))"
      using reshuffle_ok[of ?w] d True rnd by auto
    let ?w' = "set_current c' (set_queue (ShuffleOrder (w_queue ?w)) ?w)"
    note sh = ShuffleOrder_correct[OF d(1) rnd]
    note ss = same_list_songs[OF r(4)]
    have "pl_ready (queued_ptr ?w) ?w'"
      using ready_edit[of "queued_ptr ?w" ?w "ShuffleOrder (w_queue ?w)" c'] inv' sh(1) r(2,3) same_songs_entries[OF ss]
        reordered_fields(2,5)[OF sh(3)]
      by (simp add: playlist_inv_def)
    then have "playlist_inv ?w'" by (simp add: playlist_inv_def queued_ptr_def)
    then show thesis
      using eq rnd r(1) p ss cs by (intro that[of ?w']) (simp_all add: same_songs_def reordered_fields(9)[OF sh(3)])
  qed
qed

lemma UpdateQueuedSong_inv:
  assumes "ok (w_pc w)" "playlist_inv w"
  shows "\<exists>w'. UpdateQueuedSong env (queued_ptr w) w = Some w' \<and> ok (w_pc w') \<and> playlist_inv w' \<and> same_list w w'"
  using UpdateQueuedSong_ok[OF assms(1)] playlist_invD(8)[OF assms(2)] by blast

end

end
