(* ===== verification/Playlist_Delete.thy ===== *)
theory Playlist_Delete
  imports Playlist_Edit
begin

text \<open>
  Deleting songs from the playlist and emptying it (\<open>DeleteInternal\<close> and the operations built
  on it in src/src/PlaylistEdit.cxx): the remaining songs keep their order, and unless the
  current song itself is deleted, \<open>current\<close> goes on standing for it.
\<close>

lemma entries_remove_nth:
  "keys q' = remove_nth k (keys q) \<Longrightarrow> entries q' \<subseteq> entries q"
  by (auto simp: entries_def remove_nth_def dest: in_set_takeD in_set_dropD)

definition drop_song :: "nat \<Rightarrow> 'e world \<Rightarrow> 'e world" where
  "drop_song song w =
     (let w' = set_queue (Play_Queue.DeletePosition (w_queue w) song) w
      in if pl_current (w_list w) > int (PositionToOrder (w_queue w) song)
         then set_current (pl_current (w_list w) - 1) w' else w')"

lemma drop_song_ok:
  assumes ready: "pl_ready p w" and song: "song < q_length (w_queue w)"
    and ne: "pl_current (w_list w) \<noteq> int (PositionToOrder (w_queue w) song)"
  shows "pl_ready p (drop_song song w)" "keys (w_queue (drop_song song w)) = remove_nth song (keys (w_queue w))"
    "q_length (w_queue (drop_song song w)) = q_length (w_queue w) - 1"
    "current_song (drop_song song w) = current_song w" "w_pc (drop_song song w) = w_pc w"
    "pl_playing (w_list (drop_song song w)) = pl_playing (w_list w)"
    "pl_bulk_edit (w_list (drop_song song w)) = pl_bulk_edit (w_list w)"
    "q_random (w_queue (drop_song song w)) = q_random (w_queue w)"
    "play_ids (w_queue (drop_song song w)) =
      remove_nth (PositionToOrder (w_queue w) song) (play_ids (w_queue w))"
    "\<not> pl_playing (w_list w) \<Longrightarrow> pc_state (w_pc w) = PS_STOP"
proof -
  let ?q = "w_queue w" and ?c = "pl_current (w_list w)"
  let ?o = "PositionToOrder ?q song" and ?q' = "Play_Queue.DeletePosition ?q song"
  let ?c' = "if ?c > int ?o then ?c - 1 else ?c"
  have eq: "drop_song song w = set_current ?c' (set_queue ?q' w)"
  proof (cases "?c > int ?o")
    case False
    then show ?thesis by (simp add: drop_song_def set_current_def set_queue_def)
  qed (simp add: drop_song_def)
  note d = pl_readyD[OF ready]
  note del = DeletePosition_correct[OF d(1) song]
  have o: "?o < q_length ?q" using order_of_position[OF d(1) song] by simp
  have c': "-1 \<le> ?c'" "?c' < int (q_length ?q')" "pl_playing (w_list w) \<Longrightarrow> 0 \<le> ?c'"
    using d(3,4,6) ne o del(5) by auto
  have sub: "\<forall>e \<in> entries ?q'. e \<in> entries ?q \<or> Some (fst e) \<noteq> p \<and> DupDetached (snd e) = snd e"
    using entries_remove_nth[OF del(2)] by blast
  show ready': "pl_ready p (drop_song song w)"
    unfolding eq by (rule ready_edit[OF ready del(1,8) sub c'])
  show "keys (w_queue (drop_song song w)) = remove_nth song (keys ?q)"
    "q_length (w_queue (drop_song song w)) = q_length ?q - 1" "w_pc (drop_song song w) = w_pc w"
    "pl_playing (w_list (drop_song song w)) = pl_playing (w_list w)"
    "pl_bulk_edit (w_list (drop_song song w)) = pl_bulk_edit (w_list w)"
    "q_random (w_queue (drop_song song w)) = q_random ?q"
    "play_ids (w_queue (drop_song song w)) = remove_nth ?o (play_ids ?q)"
    unfolding eq using del by simp_all
  show "\<not> pl_playing (w_list w) \<Longrightarrow> pc_state (w_pc w) = PS_STOP"
    using ready by (simp add: pl_ready_def Let_def)
  have len: "length (play_ids ?q) = q_length ?q" using d(1) by (simp add: play_ids_def)
  have "play_ids ?q' ! nat ?c' = play_ids ?q ! nat ?c" if "?c \<ge> 0"
  proof (cases "?c > int ?o")
    case True
    then have "nat (?c - 1) < q_length ?q - 1" "\<not> nat (?c - 1) < ?o" "Suc (nat (?c - 1)) = nat ?c"
      using d(4) by linarith+
    then show ?thesis using True o len by (simp add: del(4) nth_remove_nth)
  next
    case False
    then have "nat ?c < ?o" using ne that by linarith
    then show ?thesis using False o len by (simp add: del(4) nth_remove_nth)
  qed
  moreover have "?c' \<ge> 0 \<longleftrightarrow> ?c \<ge> 0" using ne by auto
  ultimately show "current_song (drop_song song w) = current_song w"
    using current_song_play_ids[OF pl_readyD(5)[OF ready']] current_song_play_ids[OF d(5)] by (simp add: eq)
qed

context player_thread
begin

lemma DeleteInternal_ok:
  assumes pc: "ok (w_pc w)" and ready: "pl_ready p w" and song: "song < q_length (w_queue w)"
  obtains p' w' where "DeleteInternal env song (p, w) = Some (p', w')" "ok (w_pc w')" "pl_ready p' w'"
    "keys (w_queue w') = remove_nth song (keys (w_queue w))" "q_length (w_queue w') = q_length (w_queue w) - 1"
    "pl_bulk_edit (w_list w') = pl_bulk_edit (w_list w)" "q_random (w_queue w') = q_random (w_queue w)"
    "current_song w \<noteq> Some (PositionToId (w_queue w) song) \<longrightarrow>
       current_song w' = current_song w \<and> pl_playing (w_list w') = pl_playing (w_list w)"
proof -
  let ?q = "w_queue w" and ?c = "pl_current (w_list w)"
  let ?o = "PositionToOrder ?q song"
  note d = pl_readyD[OF ready]
  have o: "?o < q_length ?q" "q_order ?q ! ?o = song" using order_of_position[OF d(1) song] by simp_all
  have cur: "current_song w = Some (PositionToId ?q song)" if "?c = int ?o"
    using that o by (simp add: current_song_def order_song_def GetOrderItem_def OrderToPosition_def PositionToId_def)
  let ?step = "if pl_playing (w_list w) \<and> ?c = int ?o
      then do {
        let paused = (pc_state (w_pc w) = PS_PAUSE);
        let c = GetNextOrder ?q (nat ?c);
        let c = (if c = int ?o then -1 else c);
        let w = set_current c w;
        w \<leftarrow> (if c \<ge> 0 \<and> \<not> paused then PlayOrder env c w
             else do { w \<leftarrow> on_pci (pc_Stop env) w; Some (set_playing False w) });
        Some (None, w) }
      else if ?c = int ?o then Some (p, set_current (-1) w) else Some (p, w)"
  have main: "\<exists>p1 w1. ?step = Some (p1, w1) \<and> ok (w_pc w1) \<and> pl_ready p1 w1 \<and> w_queue w1 = ?q \<and>
      pl_current (w_list w1) \<noteq> int ?o \<and> pl_bulk_edit (w_list w1) = pl_bulk_edit (w_list w) \<and>
      (?c \<noteq> int ?o \<longrightarrow> w1 = w)"
  proof (cases "?c = int ?o")
    case False
    then show ?thesis using pc ready by simp
  next
    case co: True
    show ?thesis
    proof (cases "pl_playing (w_list w)")
      case False
      then have "pl_ready p (set_current (-1) w)"
        using ready by (simp add: pl_ready_def pl_base_def Let_def)
      then show ?thesis using False co pc by simp
    next
      case playing: True
      define c where "c = (if GetNextOrder ?q (nat ?c) = int ?o then -1 else GetNextOrder ?q (nat ?c))"
      have c: "-1 \<le> c" "c < int (q_length ?q)" "c \<noteq> int ?o"
        using GetNextOrder_range[of "nat ?c" ?q] co o by (auto simp: c_def)
      let ?w = "set_current c w"
      have step: "?step = do { w \<leftarrow> (if c \<ge> 0 \<and> pc_state (w_pc w) \<noteq> PS_PAUSE then PlayOrder env c ?w
             else do { w \<leftarrow> on_pci (pc_Stop env) ?w; Some (set_playing False w) }); Some (None, w) }"
        using playing co by (simp add: c_def Let_def)
      show ?thesis
      proof (cases "c \<ge> 0 \<and> pc_state (w_pc w) \<noteq> PS_PAUSE")
        case True
        obtain w1 where w1: "PlayOrder env c ?w = Some w1" "ok (w_pc w1)" "playlist_inv w1" "w_queue w1 = w_queue ?w"
          "pl_current (w_list w1) = c" "pl_queued (w_list w1) = -1"
          "pl_bulk_edit (w_list w1) = pl_bulk_edit (w_list ?w)"
          using PlayOrder_ok[of ?w c] pc d c True by auto
        have "pl_ready None w1" using playlist_invD(8)[OF w1(3)] w1(6) by (simp add: queued_ptr_def)
        then show ?thesis using step True w1 c co by simp
      next
        case False
        obtain pc' idle where p: "on_pci (pc_Stop env) ?w = Some (?w\<lparr>w_pc := pc', w_idle := idle\<rparr>)" "ok pc'"
          "pc_state pc' = PS_STOP"
        proof -
          have "ok (w_pc ?w)" using pc by simp
          from Stop_playing_ok[OF this] show thesis using that by blast
        qed
        let ?w1 = "set_playing False (?w\<lparr>w_pc := pc', w_idle := idle\<rparr>)"
        have "pl_ready None ?w1" using ready p c by (simp add: pl_ready_def pl_base_def Let_def)
        then show ?thesis using step False p c co by simp
      qed
    qed
  qed
  then obtain p1 w1 where w1: "?step = Some (p1, w1)" "ok (w_pc w1)" "pl_ready p1 w1" "w_queue w1 = ?q"
    "pl_current (w_list w1) \<noteq> int ?o" "pl_bulk_edit (w_list w1) = pl_bulk_edit (w_list w)"
    "?c \<noteq> int ?o \<longrightarrow> w1 = w"
    by blast
  have e: "ensure (song < q_length ?q) = Some ()" using song by simp
  have eq: "DeleteInternal env song (p, w) = Some (p1, drop_song song w1)"
    unfolding DeleteInternal_def prod.case Let_def e Option.bind.simps w1(1)[unfolded Let_def]
    by (simp add: drop_song_def w1(4) Let_def)
  have s1: "song < q_length (w_queue w1)" using song w1(4) by simp
  note dr = drop_song_ok[OF w1(3) s1 w1(5)[folded w1(4)]]
  have "current_song (drop_song song w1) = current_song w \<and> pl_playing (w_list (drop_song song w1)) = pl_playing (w_list w)"
    if "current_song w \<noteq> Some (PositionToId ?q song)"
    using that cur w1(7) dr(4,6) by auto
  then show thesis using eq dr w1 by (intro that[of p1 "drop_song song w1"]) simp_all
qed

lemma playlist_DeletePosition_ok:
  assumes pc: "ok (w_pc w)" and inv: "playlist_inv w" and song: "song < q_length (w_queue w)"
  obtains w' where "playlist_DeletePosition env song w = Some (PR_SUCCESS, w')" "ok (w_pc w')" "playlist_inv w'"
    "keys (w_queue w') = remove_nth song (keys (w_queue w))" "q_length (w_queue w') = q_length (w_queue w) - 1"
    "pl_bulk_edit (w_list w') = pl_bulk_edit (w_list w)"
    "current_song w \<noteq> Some (PositionToId (w_queue w) song) \<longrightarrow>
       current_song w' = current_song w \<and> pl_playing (w_list w') = pl_playing (w_list w)"
proof -
  obtain p1 w1 where w1: "DeleteInternal env song (queued_ptr w, w) = Some (p1, w1)" "ok (w_pc w1)" "pl_ready p1 w1"
    "keys (w_queue w1) = remove_nth song (keys (w_queue w))" "q_length (w_queue w1) = q_length (w_queue w) - 1"
    "pl_bulk_edit (w_list w1) = pl_bulk_edit (w_list w)"
    "current_song w \<noteq> Some (PositionToId (w_queue w) song) \<longrightarrow>
       current_song w1 = current_song w \<and> pl_playing (w_list w1) = pl_playing (w_list w)"
    using DeleteInternal_ok[OF pc playlist_invD(8)[OF inv] song] by metis
  obtain w2 where w2: "UpdateQueuedSong env p1 w1 = Some w2" "ok (w_pc (OnModified w2))" "playlist_inv (OnModified w2)"
    "same_songs w1 (OnModified w2)"
    using finish_edit[OF w1(2,3)] by blast
  show thesis
    using song GetQueuedSong_ok(1)[OF inv] w1 w2
    by (intro that[of "OnModified w2"]) (simp_all add: playlist_DeletePosition_def same_songs_def)
qed

lemma playlist_DeletePosition_total:
  assumes "ok (w_pc w)" "playlist_inv w"
  obtains r w' where "playlist_DeletePosition env song w = Some (r, w')" "ok (w_pc w')" "playlist_inv w'"
    "pl_bulk_edit (w_list w') = pl_bulk_edit (w_list w)"
proof (cases "song < q_length (w_queue w)")
  case True
  show thesis by (rule playlist_DeletePosition_ok[OF assms True]) (use that in blast)
next
  case False
  then show thesis using assms by (intro that[of PR_BAD_RANGE w]) (simp_all add: playlist_DeletePosition_def)
qed

lemma DeleteOrder_ok:
  assumes pc: "ok (w_pc w)" and inv: "playlist_inv w" and ord: "0 \<le> ord" "ord < int (q_length (w_queue w))"
  obtains w' where "DeleteOrder env ord w = Some (PR_SUCCESS, w')" "ok (w_pc w')" "playlist_inv w'"
    "keys (w_queue w') = remove_nth (q_order (w_queue w) ! nat ord) (keys (w_queue w))"
    "q_length (w_queue w') = q_length (w_queue w) - 1"
    "pl_bulk_edit (w_list w') = pl_bulk_edit (w_list w)"
    "current_song w \<noteq> Some (order_song (w_queue w) ord) \<longrightarrow>
       current_song w' = current_song w \<and> pl_playing (w_list w') = pl_playing (w_list w)"
proof -
  let ?p = "q_order (w_queue w) ! nat ord"
  have p: "?p < q_length (w_queue w)" using order_bound[OF playlist_invD(1)[OF inv]] ord by simp
  have id: "PositionToId (w_queue w) ?p = order_song (w_queue w) ord"
    by (simp add: PositionToId_def order_song_def GetOrderItem_def OrderToPosition_def)
  show thesis
    by (rule playlist_DeletePosition_ok[OF pc inv p])
      (use ord that id in \<open>simp add: DeleteOrder_def OrderToPosition_def\<close>)
qed

lemma delete_down_ok:
  assumes "ok (w_pc w)" "pl_ready p w" "start + n \<le> q_length (w_queue w)"
  shows "\<exists>p' w'. delete_down env start n (p, w) = Some (p', w') \<and> ok (w_pc w') \<and> pl_ready p' w' \<and>
    keys (w_queue w') = take start (keys (w_queue w)) @ drop (start + n) (keys (w_queue w)) \<and>
    pl_bulk_edit (w_list w') = pl_bulk_edit (w_list w)"
  using assms
proof (induction n arbitrary: p w)
  case 0
  then show ?case by simp
next
  case (Suc n)
  have s: "start + n < q_length (w_queue w)" using Suc.prems(3) by simp
  obtain p1 w1 where w1: "DeleteInternal env (start + n) (p, w) = Some (p1, w1)" "ok (w_pc w1)" "pl_ready p1 w1"
    "keys (w_queue w1) = remove_nth (start + n) (keys (w_queue w))" "q_length (w_queue w1) = q_length (w_queue w) - 1"
    "pl_bulk_edit (w_list w1) = pl_bulk_edit (w_list w)"
    using DeleteInternal_ok[OF Suc.prems(1,2) s] by metis
  have "start + n \<le> q_length (w_queue w1)" using w1(5) s by simp
  from Suc.IH[OF w1(2,3) this] obtain p' w' where w': "delete_down env start n (p1, w1) = Some (p', w')"
    "ok (w_pc w')" "pl_ready p' w'"
    "keys (w_queue w') = take start (keys (w_queue w1)) @ drop (start + n) (keys (w_queue w1))"
    "pl_bulk_edit (w_list w') = pl_bulk_edit (w_list w1)" by blast
  have "keys (w_queue w') = take start (keys (w_queue w)) @ drop (start + Suc n) (keys (w_queue w))"
    using w'(4) w1(4) s pl_readyD(1)[OF Suc.prems(2)] by (simp add: remove_nth_def)
  then show ?case using w1 w' by simp
qed

lemma DeleteRange_ok:
  assumes pc: "ok (w_pc w)" and inv: "playlist_inv w" and r: "start < fin" "fin \<le> q_length (w_queue w)"
  obtains w' where "DeleteRange env start fin w = Some (PR_SUCCESS, w')" "ok (w_pc w')" "playlist_inv w'"
    "keys (w_queue w') = take start (keys (w_queue w)) @ drop fin (keys (w_queue w))"
proof -
  have "start + (fin - start) \<le> q_length (w_queue w)" using r by simp
  from delete_down_ok[OF pc playlist_invD(8)[OF inv] this]
  obtain p1 w1 where w1: "delete_down env start (fin - start) (queued_ptr w, w) = Some (p1, w1)" "ok (w_pc w1)"
    "pl_ready p1 w1" "keys (w_queue w1) = take start (keys (w_queue w)) @ drop (start + (fin - start)) (keys (w_queue w))"
    by blast
  obtain w2 where w2: "UpdateQueuedSong env p1 w1 = Some w2" "ok (w_pc (OnModified w2))" "playlist_inv (OnModified w2)"
    "same_songs w1 (OnModified w2)"
    using finish_edit[OF w1(2,3)] by blast
  show thesis
    using r GetQueuedSong_ok(1)[OF inv] w1 w2
    by (intro that[of "OnModified w2"]) (simp_all add: DeleteRange_def same_songs_def Let_def)
qed

lemma DeleteRange_total:
  assumes pc: "ok (w_pc w)" and inv: "playlist_inv w"
  shows "\<exists>r w'. DeleteRange env start fin w = Some (r, w') \<and> ok (w_pc w') \<and> playlist_inv w'"
proof (cases "start < q_length (w_queue w) \<and> start < fin")
  case True
  define fin' where "fin' = (if fin > q_length (w_queue w) then q_length (w_queue w) else fin)"
  have r: "start < fin'" "fin' \<le> q_length (w_queue w)" using True by (auto simp: fin'_def)
  have "DeleteRange env start fin w = DeleteRange env start fin' w"
    by (simp add: DeleteRange_def fin'_def Let_def)
  moreover have "\<exists>w'. DeleteRange env start fin' w = Some (PR_SUCCESS, w') \<and> ok (w_pc w') \<and> playlist_inv w'"
    by (rule DeleteRange_ok[OF pc inv r]) auto
  ultimately show ?thesis by auto
next
  case False
  then have "DeleteRange env start fin w = Some (if start \<ge> q_length (w_queue w) then PR_BAD_RANGE else PR_SUCCESS, w)"
    by (cases "start < q_length (w_queue w)") (simp_all add: DeleteRange_def Let_def)
  then show ?thesis using assms by simp
qed

lemma delete_equal_ok:
  assumes "ok (w_pc w)" "playlist_inv w" "i \<le> q_length (w_queue w)"
  shows "\<exists>w'. delete_equal env s i w = Some w' \<and> ok (w_pc w') \<and> playlist_inv w' \<and>
    keys (w_queue w') = filter (\<lambda>k. \<not> SongEquals s (fst k)) (take i (keys (w_queue w))) @ drop i (keys (w_queue w))"
  using assms
proof (induction i arbitrary: w)
  case 0
  then show ?case by simp
next
  case (Suc i)
  let ?k = "keys (w_queue w)"
  note inv = playlist_invD(1)[OF Suc.prems(2)]
  have i: "i < q_length (w_queue w)" "i < length ?k" using Suc.prems(3) inv by simp_all
  have song: "Get (w_queue w) i = fst (?k ! i)" using i inv by (simp add: nth_keys item_key_def Get_def)
  show ?case
  proof (cases "SongEquals s (fst (?k ! i))")
    case True
    obtain w1 where w1: "playlist_DeletePosition env i w = Some (PR_SUCCESS, w1)" "ok (w_pc w1)" "playlist_inv w1"
      "keys (w_queue w1) = remove_nth i ?k" "q_length (w_queue w1) = q_length (w_queue w) - 1"
      using playlist_DeletePosition_ok[OF Suc.prems(1,2) i(1)] by metis
    have "i \<le> q_length (w_queue w1)" using w1(5) i by simp
    from Suc.IH[OF w1(2,3) this] show ?thesis
      using True i w1 song by (auto simp: remove_nth_def take_Suc_conv_app_nth)
  next
    case False
    have "filter (\<lambda>k. \<not> SongEquals s (fst k)) (take i ?k) @ drop i ?k =
        filter (\<lambda>k. \<not> SongEquals s (fst k)) (take (Suc i) ?k) @ drop (Suc i) ?k"
      using False i by (simp add: take_Suc_conv_app_nth Cons_nth_drop_Suc)
    then show ?thesis using Suc.IH[OF Suc.prems(1,2)] False i song by simp
  qed
qed

lemma DeleteSong_ok:
  assumes "ok (w_pc w)" "playlist_inv w"
  shows "\<exists>w'. DeleteSong env s w = Some w' \<and> ok (w_pc w') \<and> playlist_inv w' \<and>
    keys (w_queue w') = filter (\<lambda>k. \<not> SongEquals s (fst k)) (keys (w_queue w))"
  using delete_equal_ok[OF assms order_refl, of s] playlist_invD(1)[OF assms(2)] by (simp add: DeleteSong_def)

lemma playlist_Clear_ok:
  assumes "ok (w_pc w)" "playlist_inv w"
  shows "\<exists>w'. playlist_Clear env w = Some w' \<and> ok (w_pc w') \<and> playlist_inv w' \<and> keys (w_queue w') = [] \<and>
    current_song w' = None \<and> \<not> pl_playing (w_list w') \<and> pc_state (w_pc w') = PS_STOP"
proof -
  obtain w1 where w1: "playlist_Stop env w = Some w1" "ok (w_pc w1)" "playlist_inv w1" "\<not> pl_playing (w_list w1)"
    "pc_state (w_pc w1) = PS_STOP"
    using playlist_Stop_ok[OF assms] by metis
  let ?w = "set_current (-1) (set_queue (Play_Queue.Clear (w_queue w1)) w1)"
  note cl = Clear_correct[OF playlist_invD(1)[OF w1(3)]]
  have "playlist_inv ?w"
    using w1 cl by (simp add: playlist_inv_def pl_ready_def pl_base_def detached_def entries_def Let_def)
  from OnModified_ok[OF this] show ?thesis
    using w1 cl by (simp add: playlist_Clear_def same_songs_def current_song_def)
qed

end

end
