(* ===== verification/Playlist_Moves.thy ===== *)
theory Playlist_Moves
  imports Playlist_Delete
begin

text \<open>
  Adding, moving, swapping and shuffling songs and changing priorities in the playlist
  (src/src/PlaylistEdit.cxx).  Two of these operations can lose the current song; the lemmas
  state exactly when they do not.
\<close>

lemma order_song_keys:
  assumes "queue_inv q" "0 \<le> c" "c < int (q_length q)"
  shows "order_song q c = fst (snd (keys q ! (q_order q ! nat c)))"
proof -
  have "nat c < q_length q" using assms by linarith
  then show ?thesis using assms order_bound[OF assms(1), of "nat c"]
    by (simp add: order_song_def GetOrderItem_def OrderToPosition_def nth_keys item_key_def)
qed

lemma play_ids_keys:
  "queue_inv q \<Longrightarrow> k < q_length q \<Longrightarrow> play_ids q ! k = fst (snd (keys q ! (q_order q ! k)))"
  using order_bound[of q k] by (simp add: play_ids_def nth_orders nth_keys item_key_def)

lemma identity_order:
  "queue_inv q \<Longrightarrow> \<not> q_random q \<Longrightarrow> k < q_length q \<Longrightarrow> q_order q ! k = k"
  using nth_orders[of k q] by (simp add: queue_inv_def)

lemma matches_pc: "matches q p n \<Longrightarrow> n' = n \<or> n' = None \<Longrightarrow> matches q p n'"
  by auto

text \<open>How \<open>MoveRange\<close> corrects \<open>current\<close>: right for all but some of the songs behind the block.\<close>

lemma moved_current_correct:
  assumes "start + l \<le> n" "to + l \<le> n" "0 \<le> c" "c < int n"
    and "\<not> (int (start + l) \<le> c \<and> int to < c \<and> c < int (to + l))"
  shows "moved_current start (start + l) (int to) c = int (MoveRange_order start (start + l) to (nat c))"
proof -
  obtain k where k: "c = int k" using assms(3) nonneg_int_cases by blast
  show ?thesis using assms unfolding k moved_current_def MoveRange_order_def nat_int by auto
qed

lemma moved_current_range:
  assumes "start + l \<le> n" "to + l \<le> n" "0 \<le> c" "c < int n"
  shows "0 \<le> moved_current start (start + l) (int to) c \<and> moved_current start (start + l) (int to) c < int n"
  using assms by (auto simp: moved_current_def)

lemma moved_current_none: "moved_current start fin to (-1) = -1" if "0 \<le> to"
  using that by (simp add: moved_current_def)

context player_thread
begin

text \<open>Every edit that keeps the songs known to the player.\<close>

lemma edited:
  assumes pc: "ok (w_pc w)" and inv: "playlist_inv w" and q': "queue_inv q'"
    and m: "q_max_length q' = q_max_length (w_queue w)"
    and e: "\<forall>e \<in> entries q'. e \<in> entries (w_queue w) \<or> Some (fst e) \<noteq> queued_ptr w \<and> DupDetached (snd e) = snd e"
    and c: "-1 \<le> c" "c < int (q_length q')" "pl_playing (w_list w) \<Longrightarrow> 0 \<le> c"
  obtains w1 where "UpdateQueuedSong env (queued_ptr w) (set_current c (set_queue q' w)) = Some w1"
    "ok (w_pc (OnModified w1))" "playlist_inv (OnModified w1)" "keys (w_queue (OnModified w1)) = keys q'"
    "current_song (OnModified w1) = (if c \<ge> 0 then Some (order_song q' c) else None)"
    "pl_playing (w_list (OnModified w1)) = pl_playing (w_list w)"
    "q_random q' = q_random (w_queue (OnModified w1))"
    "\<not> q_random q' \<Longrightarrow> play_ids (w_queue (OnModified w1)) = play_ids q'"
proof -
  let ?w = "set_current c (set_queue q' w)"
  have "pl_ready (queued_ptr w) ?w" by (rule ready_edit[OF playlist_invD(8)[OF inv] q' m e c])
  moreover have "ok (w_pc ?w)" using pc by simp
  ultimately obtain w1 where "UpdateQueuedSong env (queued_ptr w) ?w = Some w1" "ok (w_pc (OnModified w1))"
    "playlist_inv (OnModified w1)" "same_songs ?w (OnModified w1)"
    using finish_edit by metis
  then show thesis by (intro that[of w1]) (simp_all add: same_songs_def current_song_def)
qed

lemma AppendSong_full:
  "IsFull (w_queue w) \<Longrightarrow> AppendSong env s w = Some (PR_TOO_LARGE, None, w)"
  by (simp add: AppendSong_def)

lemma AppendSong_ok:
  assumes pc: "ok (w_pc w)" and inv: "playlist_inv w" and full: "\<not> IsFull (w_queue w)"
  obtains i w' where "AppendSong env s w = Some (PR_SUCCESS, Some i, w')" "ok (w_pc w')" "playlist_inv w'"
    "keys (w_queue w') = keys (w_queue w) @ [(DupDetached s, i, 0)]" "i \<notin> fst ` entries (w_queue w)"
    "pl_playing (w_list w') = pl_playing (w_list w)"
    "q_random (w_queue w) \<longrightarrow> pl_queued (w_list w) < 0 \<or> pl_current (w_list w) \<le> pl_queued (w_list w) \<Longrightarrow>
       current_song w' = current_song w"
proof -
  let ?q = "w_queue w" and ?c = "pl_current (w_list w)"
  note d = playlist_invD[OF inv]
  obtain i q1 where a: "Append ?q s 0 = Some (i, q1)" "queue_inv q1" "keys q1 = keys ?q @ [(DupDetached s, i, 0)]"
    "orders q1 = orders ?q @ [q_length ?q]" "i \<notin> set (play_ids ?q)" "q_length q1 = Suc (q_length ?q)"
    "q_random q1 = q_random ?q" "play_ids q1 = play_ids ?q @ [i]" "q_max_length q1 = q_max_length ?q"
    using Append_correct[OF d(1) full, of s 0] by metis
  have idset: "set (play_ids ?q) = fst ` entries ?q"
  proof -
    have "set (orders ?q) = {..<q_length ?q}" using d(1) by (simp add: queue_inv_def is_perm_def)
    then have "set (play_ids ?q) = (\<lambda>p. item_id (q_items ?q ! p)) ` {..<q_length ?q}" by (simp add: play_ids_def)
    also have "\<dots> = fst ` entries ?q"
      using nth_entries[OF d(1)] by (force elim: entriesE[OF _ d(1)] simp: image_iff)
    finally show ?thesis .
  qed
  have fresh: "i \<notin> fst ` entries ?q" using a(5) idset by simp
  define start where "start = nat (if pl_queued (w_list w) \<ge> 0 then pl_queued (w_list w) + 1 else ?c + 1)"
  define q2 where "q2 = (if q_random q1 \<and> start < q_length q1 then ShuffleOrderLast q1 start (q_length q1) else q1)"
  have q2: "queue_inv q2" "keys q2 = keys q1" "q_length q2 = q_length q1" "q_random q2 = q_random q1"
      "take start (play_ids q2) = take start (play_ids q1)" "\<not> q_random q1 \<longrightarrow> q2 = q1"
      "q_max_length q2 = q_max_length q1"
  proof -
    have "queue_inv q2 \<and> keys q2 = keys q1 \<and> q_length q2 = q_length q1 \<and> q_random q2 = q_random q1 \<and>
      take start (play_ids q2) = take start (play_ids q1) \<and> (\<not> q_random q1 \<longrightarrow> q2 = q1) \<and>
      q_max_length q2 = q_max_length q1"
    proof (cases "q_random q1 \<and> start < q_length q1")
      case True
      have "q_length q1 \<le> length (q_order q1)" using a(2) by (simp add: queue_inv_def)
      then have r: "reordered start (q_length q1) q1 q2"
        using True ShuffleOrderLast_reordered[of start "q_length q1" q1] by (simp add: q2_def)
      show ?thesis
        using True reordered_correct[OF a(2) _ r] reordered_fields[OF r] by (simp add: same_outside_def)
    qed (use a in \<open>auto simp: q2_def\<close>)
    then show "queue_inv q2" "keys q2 = keys q1" "q_length q2 = q_length q1" "q_random q2 = q_random q1"
      "take start (play_ids q2) = take start (play_ids q1)" "\<not> q_random q1 \<longrightarrow> q2 = q1"
      "q_max_length q2 = q_max_length q1" by blast+
  qed
  have e2: "entries q2 = insert (i, DupDetached s) (entries ?q)" by (simp add: entries_def q2(2) a(3))
  have np: "queued_ptr w \<noteq> Some i"
  proof (cases "pl_playing (w_list w) \<and> pl_queued (w_list w) \<ge> 0")
    case True
    then have "(order_song ?q (pl_queued (w_list w)), GetOrder ?q (nat (pl_queued (w_list w)))) \<in> entries ?q"
      using inv by (intro order_entry d(1)) (simp_all add: playlist_inv_def)
    then show ?thesis using True fresh by (force simp: queued_ptr_def)
  qed (auto simp: queued_ptr_def)
  have c: "-1 \<le> ?c" "?c < int (q_length q2)" "pl_playing (w_list w) \<Longrightarrow> 0 \<le> ?c"
    using d(3,4,6) a(6) q2(3) by simp_all
  have "\<forall>e \<in> entries q2. e \<in> entries ?q \<or> Some (fst e) \<noteq> queued_ptr w \<and> DupDetached (snd e) = snd e"
    using np by (auto simp: e2)
  moreover have "q_max_length q2 = q_max_length ?q" using q2(7) a(9) by simp
  ultimately obtain w1 where w1: "UpdateQueuedSong env (queued_ptr w) (set_current ?c (set_queue q2 w)) = Some w1"
    "ok (w_pc (OnModified w1))" "playlist_inv (OnModified w1)" "keys (w_queue (OnModified w1)) = keys q2"
    "current_song (OnModified w1) = (if ?c \<ge> 0 then Some (order_song q2 ?c) else None)"
    "pl_playing (w_list (OnModified w1)) = pl_playing (w_list w)"
    using edited[OF pc inv q2(1) _ _ c] by metis
  have w2: "set_current ?c (set_queue q2 w) = set_queue q2 w" by (simp add: set_current_def set_queue_def)
  have u: "UpdateQueuedSong env (queued_ptr w) (set_queue q2 w) = Some w1" using w1(1) unfolding w2 .
  have st: "nat (if pl_queued (w_list (set_queue q1 w)) \<ge> 0 then pl_queued (w_list (set_queue q1 w)) + 1
                 else pl_current (w_list (set_queue q1 w)) + 1) = start"
    by (simp add: start_def)
  have sq: "(if q_random q1 \<and> start < q_length q1
             then set_queue (ShuffleOrderLast q1 start (q_length q1)) (set_queue q1 w) else set_queue q1 w) = set_queue q2 w"
    by (simp add: q2_def)
  have eq: "AppendSong env s w = Some (PR_SUCCESS, Some i, OnModified w1)"
    unfolding AppendSong_def if_not_P[OF full] GetQueuedSong_ok(1)[OF inv] a(1) Option.bind.simps prod.case Let_def st sq u
    by (rule refl)
  have "order_song q2 ?c = order_song ?q ?c"
    if pre: "q_random ?q \<longrightarrow> pl_queued (w_list w) < 0 \<or> ?c \<le> pl_queued (w_list w)" and c0: "?c \<ge> 0"
  proof -
    have b: "nat ?c < q_length ?q" "?c < int (q_length q2)" "?c < int (q_length ?q)" using c0 d(4) a(6) q2(3) by auto
    have l: "q_length q2 \<le> length (q_order q2)" "q_length ?q \<le> length (q_order ?q)"
      using q2(1) d(1) by (simp_all add: queue_inv_def)
    have lp: "length (play_ids ?q) = q_length ?q" using d(1) by (simp add: play_ids_def)
    have "play_ids q2 ! nat ?c = play_ids q1 ! nat ?c"
    proof (cases "q_random ?q")
      case True
      then have "nat ?c < start" using pre c0 by (auto simp: start_def)
      then show ?thesis using q2(5) by (metis nth_take)
    qed (use q2(6) a(7) in simp)
    also have "\<dots> = play_ids ?q ! nat ?c" using b(1) lp by (simp add: a(8) nth_append)
    finally show ?thesis using c0 b l by (simp add: order_song_play_ids)
  qed
  then show thesis
    using that[OF eq w1(2,3)] w1 q2(2) a(3) fresh by (simp add: current_song_def)
qed

lemma playlist_SwapPositions_ok:
  assumes pc: "ok (w_pc w)" and inv: "playlist_inv w" and r: "a < q_length (w_queue w)" "b < q_length (w_queue w)"
  obtains w' where "playlist_SwapPositions env a b w = Some (PR_SUCCESS, w')" "ok (w_pc w')" "playlist_inv w'"
    "keys (w_queue w') = array_swap (keys (w_queue w)) a b" "current_song w' = current_song w"
    "pl_playing (w_list w') = pl_playing (w_list w)"
proof -
  let ?q = "w_queue w" and ?c = "pl_current (w_list w)"
  let ?q1 = "SwapPositions ?q a b"
  note d = playlist_invD[OF inv]
  note s1 = SwapPositions_correct[OF d(1) r]
  define q2 where "q2 = (if q_random ?q1 then SwapOrders ?q1 (PositionToOrder ?q1 a) (PositionToOrder ?q1 b) else ?q1)"
  define c where "c = (if q_random ?q1 then ?c else if ?c = int a then int b else if ?c = int b then int a else ?c)"
  have lk: "length (keys ?q) = q_length ?q" using d(1) by simp
  have o: "PositionToOrder ?q1 a < q_length ?q" "q_order ?q1 ! PositionToOrder ?q1 a = a"
    "PositionToOrder ?q1 b < q_length ?q" "q_order ?q1 ! PositionToOrder ?q1 b = b"
    using order_of_position[OF s1(1)] r s1(4) by simp_all
  have q2: "queue_inv q2" "keys q2 = array_swap (keys ?q) a b" "q_length q2 = q_length ?q" "q_random q2 = q_random ?q"
    "q_max_length q2 = q_max_length ?q"
    using SwapOrders_correct[OF s1(1), of "PositionToOrder ?q1 a" "PositionToOrder ?q1 b"] s1 o
    by (simp_all add: q2_def) (simp_all add: SwapOrders_def)
  have cr: "-1 \<le> c" "c < int (q_length q2)" "pl_playing (w_list w) \<Longrightarrow> 0 \<le> c"
    using d(3,4,6) r q2(3) by (auto simp: c_def)
  have "mset (keys q2) = mset (keys ?q)" using mset_array_swap[of a "keys ?q" b] r lk q2(2) by simp
  then have e: "\<forall>e \<in> entries q2. e \<in> entries ?q \<or> Some (fst e) \<noteq> queued_ptr w \<and> DupDetached (snd e) = snd e"
    using entries_mset by blast
  obtain w1 where w1: "UpdateQueuedSong env (queued_ptr w) (set_current c (set_queue q2 w)) = Some w1"
    "ok (w_pc (OnModified w1))" "playlist_inv (OnModified w1)" "keys (w_queue (OnModified w1)) = keys q2"
    "current_song (OnModified w1) = (if c \<ge> 0 then Some (order_song q2 c) else None)"
    "pl_playing (w_list (OnModified w1)) = pl_playing (w_list w)"
    using edited[OF pc inv q2(1,5) e cr] by metis
  have same: "order_song q2 c = order_song ?q ?c" if c0: "?c \<ge> 0"
  proof -
    have k: "nat ?c < q_length ?q" "0 \<le> c" using c0 d(4) cr by (auto simp: c_def)
    have "fst (snd (array_swap (keys ?q) a b ! (q_order q2 ! nat c))) = fst (snd (keys ?q ! (q_order ?q ! nat ?c)))"
    proof (cases "q_random ?q")
      case True
      have oo: "orders ?q1 = orders ?q" by (rule s1(3))
      have "q_order ?q1 ! nat ?c = q_order ?q ! nat ?c"
        using oo k s1(4) nth_orders[of "nat ?c" ?q1] nth_orders[of "nat ?c" ?q] by simp
      then have "q_order q2 ! nat ?c = (if nat ?c = PositionToOrder ?q1 a then b else if nat ?c = PositionToOrder ?q1 b then a
          else q_order ?q ! nat ?c)"
        using True o k s1 by (simp add: q2_def SwapOrders_def nth_array_swap queue_inv_def)
      moreover have "nat ?c = PositionToOrder ?q1 x \<longleftrightarrow> q_order ?q ! nat ?c = x" if "x < q_length ?q" for x
        using order_of_position[OF s1(1), of x] PositionToOrder_order[OF s1(1), of "nat ?c"] that k s1(4)
          \<open>q_order ?q1 ! nat ?c = q_order ?q ! nat ?c\<close> by auto
      ultimately show ?thesis
        using True r k lk order_bound[OF d(1) k(1)] by (auto simp: c_def s1(5) nth_array_swap)
    next
      case False
      have "q_order q2 ! nat c = nat c" using identity_order[OF q2(1)] q2(3,4) False cr k by simp
      moreover have "nat c = (if nat ?c = a then b else if nat ?c = b then a else nat ?c)"
        using False c0 by (auto simp: c_def s1(5))
      ultimately show ?thesis
        using r k lk identity_order[OF d(1) False k(1)] by (auto simp: nth_array_swap)
    qed
    then show ?thesis using order_song_keys[OF q2(1) k(2) cr(2)] order_song_keys[OF d(1) c0 d(4)] q2(2) by simp
  qed
  let ?w1 = "set_queue ?q1 w"
  have g: "(\<not> IsValidPosition ?q a \<or> \<not> IsValidPosition ?q b) = False" using r by (simp add: IsValidPosition_def)
  have sq: "(if q_random (w_queue ?w1)
      then set_queue (SwapOrders (w_queue ?w1) (PositionToOrder (w_queue ?w1) a) (PositionToOrder (w_queue ?w1) b)) ?w1
      else if pl_current (w_list ?w1) = int a then set_current (int b) ?w1
      else if pl_current (w_list ?w1) = int b then set_current (int a) ?w1 else ?w1) = set_current c (set_queue q2 w)"
    by (simp add: c_def q2_def set_current_def set_queue_def)
  have eq: "playlist_SwapPositions env a b w = Some (PR_SUCCESS, OnModified w1)"
    unfolding playlist_SwapPositions_def g if_False GetQueuedSong_ok(1)[OF inv] Option.bind.simps Let_def sq w1(1)
    by (rule refl)
  have "c \<ge> 0 \<longleftrightarrow> ?c \<ge> 0" by (auto simp: c_def)
  then show thesis using that[OF eq w1(2,3)] w1 q2 same by (simp add: current_song_def)
qed

end

end
