(* ===== verification/Playlist_Reorder.thy ===== *)
theory Playlist_Reorder
  imports Playlist_Moves
begin

text \<open>
  Changing priorities, moving blocks of songs and shuffling a range of the playlist
  (\<open>SetPriorityRange\<close>, \<open>MoveRange\<close>, \<open>Shuffle\<close> in src/src/PlaylistEdit.cxx).
\<close>

lemma order_song_position:
  assumes inv: "queue_inv q" and p: "p < q_length q"
  shows "order_song q (int (PositionToOrder q p)) = item_id (q_items q ! p)"
  using order_of_position[OF assms] by (simp add: order_song_def GetOrderItem_def OrderToPosition_def)

lemma same_outside_nth:
  assumes "same_outside s f xs ys" "k < s \<or> f \<le> k" "k < length xs"
  shows "ys ! k = xs ! k"
proof (cases "k < s")
  case True
  then show ?thesis using assms(1) nth_take[OF True, of ys] nth_take[OF True, of xs] by (simp add: same_outside_def)
next
  case False
  then obtain j where j: "k = f + j" using assms(2) le_Suc_ex by blast
  have "f \<le> length ys" using assms(1,3) by (simp add: j same_outside_def)
  then have "ys ! k = drop f ys ! j" by (simp add: j)
  also have "\<dots> = drop f xs ! j" using assms(1) by (simp only: same_outside_def)
  also have "\<dots> = xs ! k" using assms(3) by (simp add: j)
  finally show ?thesis .
qed

lemma playlist_inv_length: "playlist_inv w \<Longrightarrow> q_length (w_queue w) < 2 ^ 31"
  using playlist_invD(1,9)[of w] by (simp add: queue_inv_def)

lemma u32_id: "0 \<le> i \<Longrightarrow> i < 2 ^ 32 \<Longrightarrow> u32 i = nat i"
  by (simp add: u32_def)

lemma u32_minus1: "u32 (-1) = 2 ^ 32 - 1"
  by (simp add: u32_def)

context player_thread
begin

lemma playlist_SetPriorityRange_ok:
  assumes pc: "ok (w_pc w)" and inv: "playlist_inv w" and r: "start < fin" "fin \<le> q_length (w_queue w)"
  obtains w' where "playlist_SetPriorityRange env start fin pr w = Some (PR_SUCCESS, w')" "ok (w_pc w')" "playlist_inv w'"
    "\<forall>p < q_length (w_queue w). keys (w_queue w') ! p = (let (s, i, old) = keys (w_queue w) ! p
       in (s, i, if start \<le> p \<and> p < fin then pr else snd (snd (keys (w_queue w') ! p))))"
    "current_song w' = current_song w" "pl_playing (w_list w') = pl_playing (w_list w)"
    "length (keys (w_queue w')) = length (keys (w_queue w))"
proof -
  let ?q = "w_queue w" and ?c = "pl_current (w_list w)"
  note d = playlist_invD[OF inv]
  obtain m q2 where sp: "SetPriorityRange ?q start fin pr ?c = (m, q2)" by fastforce
  note s = SetPriorityRange_correct[OF d(1) r(2) d(3,4) sp]
  define cp where "cp = (if ?c \<ge> 0 then int (q_order ?q ! nat ?c) else -1)"
  have cp: "-1 \<le> cp" "cp < int (q_length ?q)" "cp \<ge> 0 \<longleftrightarrow> ?c \<ge> 0"
    using order_bound[OF d(1), of "nat ?c"] d(4) by (auto simp: cp_def)
  have g: "GetCurrentPosition w = Some cp"
    using d(4) by (simp add: GetCurrentPosition_def cp_def OrderToPosition_def)
  define c where "c = (if cp \<ge> 0 then int (PositionToOrder q2 (nat cp)) else ?c)"
  have c: "-1 \<le> c" "c < int (q_length q2)" "pl_playing (w_list w) \<Longrightarrow> 0 \<le> c" "c \<ge> 0 \<longleftrightarrow> ?c \<ge> 0"
    using order_of_position[OF s(1), of "nat cp"] cp s(3) d(3,4,6) by (auto simp: c_def)
  have lk: "length (keys q2) = q_length ?q" "length (keys ?q) = q_length ?q" using s(1,3) d(1) by simp_all
  have ids: "fst (keys q2 ! p) = fst (keys ?q ! p)" "fst (snd (keys q2 ! p)) = fst (snd (keys ?q ! p))"
    if "p < q_length ?q" for p
    using arg_cong[OF s(7), of "\<lambda>xs. xs ! p"] arg_cong[OF s(9), of "\<lambda>xs. xs ! p"] that lk by simp_all
  have "entries q2 = entries ?q"
  proof -
    have z: "(\<lambda>k. (fst (snd k), fst k)) ` set ks = set (zip (map (\<lambda>k. fst (snd k)) ks) (map fst ks))"
      for ks :: "(song \<times> nat \<times> 8 word) list" by (induction ks) auto
    have e: "entries q = set (zip (map (\<lambda>k. fst (snd k)) (keys q)) (map fst (keys q)))" for q
      unfolding entries_def by (rule z)
    show ?thesis unfolding e s(7,9) by (rule refl)
  qed
  then have e: "\<forall>e \<in> entries q2. e \<in> entries ?q \<or> Some (fst e) \<noteq> queued_ptr w \<and> DupDetached (snd e) = snd e"
    by blast
  obtain w1 where w1: "UpdateQueuedSong env (queued_ptr w) (set_current c (set_queue q2 w)) = Some w1"
    "ok (w_pc (OnModified w1))" "playlist_inv (OnModified w1)" "keys (w_queue (OnModified w1)) = keys q2"
    "current_song (OnModified w1) = (if c \<ge> 0 then Some (order_song q2 c) else None)"
    "pl_playing (w_list (OnModified w1)) = pl_playing (w_list w)"
    using edited[OF pc inv s(1,10) e c(1-3)] by metis
  have fin': "(if q_length ?q < fin then q_length ?q else fin) = fin" using r by simp
  have n: "(q_length ?q \<le> start) = False" "(fin \<le> start) = False" using r by simp_all
  let ?w = "set_queue q2 w"
  have sq: "(if 0 \<le> cp then set_current (int (PositionToOrder (w_queue ?w) (nat cp))) ?w else ?w) = set_current c (set_queue q2 w)"
    by (simp add: c_def set_current_def set_queue_def)
  have eq: "playlist_SetPriorityRange env start fin pr w = Some (PR_SUCCESS, OnModified w1)"
    unfolding playlist_SetPriorityRange_def Let_def fin' n if_False g GetQueuedSong_ok(1)[OF inv] Option.bind.simps sp snd_conv
      sq w1(1) by (rule refl)
  have "order_song q2 c = order_song ?q ?c" if c0: "?c \<ge> 0"
  proof -
    have k: "nat ?c < q_length ?q" using c0 d(4) by simp
    then have p: "q_order ?q ! nat ?c < q_length ?q" by (rule order_bound[OF d(1)])
    have "order_song q2 c = item_id (q_items q2 ! (q_order ?q ! nat ?c))"
      using order_song_position[OF s(1), of "q_order ?q ! nat ?c"] p s(3) c0 by (simp add: c_def cp_def)
    also have "\<dots> = item_id (q_items ?q ! (q_order ?q ! nat ?c))"
      using ids(2)[OF p] p d(1) s(1,3) by (simp add: nth_keys item_key_def)
    finally show ?thesis by (simp add: order_song_def GetOrderItem_def OrderToPosition_def)
  qed
  then have "current_song (OnModified w1) = current_song w" using w1(5) c(4) by (simp add: current_song_def)
  moreover have "\<forall>p < q_length ?q. keys (w_queue (OnModified w1)) ! p = (let (s, i, old) = keys ?q ! p
       in (s, i, if start \<le> p \<and> p < fin then pr else snd (snd (keys (w_queue (OnModified w1)) ! p))))"
    using ids s(8) unfolding w1(4) by (auto simp: split_beta prod_eq_iff Let_def)
  moreover have "length (keys (w_queue (OnModified w1))) = length (keys ?q)"
    using w1(4) s(1,3) d(1) by simp
  ultimately show thesis using that[OF eq w1(2,3)] w1(6) by blast
qed

lemma MoveRange_apply_ok:
  assumes pc: "ok (w_pc w)" and inv: "playlist_inv w" and r: "start + l \<le> q_length (w_queue w)" "to + l \<le> q_length (w_queue w)"
  defines "q2 \<equiv> MoveRange (w_queue w) start (start + l) to"
  defines "c \<equiv> if \<not> q_random (w_queue w) then moved_current start (start + l) (int to) (pl_current (w_list w))
    else pl_current (w_list w)"
  obtains w1 where "UpdateQueuedSong env (queued_ptr w) (set_current c (set_queue q2 w)) = Some w1"
    "ok (w_pc (OnModified w1))" "playlist_inv (OnModified w1)"
    "keys (w_queue (OnModified w1)) = move_block start (start + l) to (keys (w_queue w))"
    "pl_playing (w_list (OnModified w1)) = pl_playing (w_list w)"
    "q_random (w_queue w) \<or> \<not> (int (start + l) \<le> pl_current (w_list w) \<and> int to < pl_current (w_list w) \<and>
       pl_current (w_list w) < int (to + l)) \<Longrightarrow> current_song (OnModified w1) = current_song w"
    "\<not> q_random (w_queue w) \<Longrightarrow> 0 \<le> pl_current (w_list w) \<Longrightarrow> current_song (OnModified w1) =
       Some (fst (snd (keys (w_queue (OnModified w1)) ! nat (moved_current start (start + l) (int to) (pl_current (w_list w))))))"
proof -
  let ?q = "w_queue w" and ?c = "pl_current (w_list w)"
  note d = playlist_invD[OF inv]
  note m = MoveRange_correct[OF d(1) r, folded q2_def] and f = MoveRange_frame[OF d(1), of start l to, folded q2_def]
  have lk: "length (keys ?q) = q_length ?q" using d(1) by simp
  have b: "bij_betw (MoveRange_order start (start + l) to) {..<q_length ?q} {..<q_length ?q}"
    by (rule MoveRange_order_bij[OF r])
  have nk: "keys q2 ! MoveRange_order start (start + l) to p = keys ?q ! p" if "p < q_length ?q" for p
    using nth_move_block[of start l "keys ?q" to p] r that lk m(2) by simp
  have lk2: "length (keys q2) = q_length ?q" using m(1) f(1) by simp
  have "set (keys q2) \<subseteq> set (keys ?q)"
  proof
    fix k assume "k \<in> set (keys q2)"
    then obtain j where j: "j < q_length ?q" "k = keys q2 ! j" using lk2 by (auto simp: in_set_conv_nth)
    then obtain p where "p < q_length ?q" "j = MoveRange_order start (start + l) to p"
      using b by (metis bij_betw_imp_surj_on imageE lessThan_iff)
    then show "k \<in> set (keys ?q)" using nk j lk by simp
  qed
  then have e: "\<forall>e \<in> entries q2. e \<in> entries ?q \<or> Some (fst e) \<noteq> queued_ptr w \<and> DupDetached (snd e) = snd e"
    by (auto simp: entries_def)
  have mr: "?c \<ge> 0 \<Longrightarrow> 0 \<le> moved_current start (start + l) (int to) ?c \<and>
      moved_current start (start + l) (int to) ?c < int (q_length ?q)"
    using moved_current_range[OF r] d(4) by blast
  have neg: "?c = -1 \<or> ?c \<ge> 0" using d(3) by linarith
  have c: "-1 \<le> c" "c < int (q_length q2)" "pl_playing (w_list w) \<Longrightarrow> 0 \<le> c" "c \<ge> 0 \<longleftrightarrow> ?c \<ge> 0"
    using mr neg moved_current_none[of "int to" start "start + l"] d(3,4,6) f(1) by (auto simp: c_def)
  obtain w1 where w1: "UpdateQueuedSong env (queued_ptr w) (set_current c (set_queue q2 w)) = Some w1"
    "ok (w_pc (OnModified w1))" "playlist_inv (OnModified w1)" "keys (w_queue (OnModified w1)) = keys q2"
    "current_song (OnModified w1) = (if c \<ge> 0 then Some (order_song q2 c) else None)"
    "pl_playing (w_list (OnModified w1)) = pl_playing (w_list w)"
    using edited[OF pc inv m(1) f(3) e c(1-3)] by metis
  have "order_song q2 c = order_song ?q ?c"
    if pre: "q_random ?q \<or> \<not> (int (start + l) \<le> ?c \<and> int to < ?c \<and> ?c < int (to + l))" and c0: "?c \<ge> 0"
  proof -
    have k: "nat ?c < q_length ?q" using c0 d(4) by simp
    show ?thesis
    proof (cases "q_random ?q")
      case True
      have "q_length q2 \<le> length (q_order q2)" "q_length ?q \<le> length (q_order ?q)"
        using m(1) d(1) by (simp_all add: queue_inv_def)
      then show ?thesis using True c0 d(4) m(3) f(1) by (simp add: c_def order_song_play_ids)
    next
      case False
      have cm: "c = int (MoveRange_order start (start + l) to (nat ?c))"
        using moved_current_correct[OF r c0 d(4)] pre False by (simp add: c_def)
      then have kc: "nat c < q_length ?q" using c(2) f(1) by linarith
      have "order_song q2 c = fst (snd (keys q2 ! nat c))"
        using order_song_keys[OF m(1) _ c(2)] cm identity_order[OF m(1), of "nat c"] kc f(1,2) False by simp
      also have "\<dots> = fst (snd (keys ?q ! nat ?c))" using nk[OF k] cm by simp
      also have "\<dots> = order_song ?q ?c"
        using order_song_keys[OF d(1) c0 d(4)] identity_order[OF d(1) False k] by simp
      finally show ?thesis .
    qed
  qed
  note kept = this
  have "order_song q2 c = fst (snd (keys q2 ! nat c))" if "\<not> q_random ?q" "0 \<le> ?c"
  proof -
    have "0 \<le> c" "nat c < q_length q2" using c(2,4) that by auto
    then show ?thesis using order_song_keys[OF m(1) _ c(2)] identity_order[OF m(1), of "nat c"] f(2) that by simp
  qed
  then have cur: "current_song (OnModified w1) = Some (fst (snd (keys (w_queue (OnModified w1)) !
      nat (moved_current start (start + l) (int to) ?c))))" if "\<not> q_random ?q" "0 \<le> ?c"
    using that w1(4,5) c(4) by (simp add: c_def)
  show thesis
  proof (rule that[OF w1(1-3) _ w1(6)])
    show "keys (w_queue (OnModified w1)) = move_block start (start + l) to (keys (w_queue w))" using w1(4) m(2) by simp
    show "current_song (OnModified w1) = current_song w"
      if "q_random (w_queue w) \<or> \<not> (int (start + l) \<le> ?c \<and> int to < ?c \<and> ?c < int (to + l))"
      using kept[OF that] w1(5) c(4) by (simp add: current_song_def)
    show "current_song (OnModified w1) = Some (fst (snd (keys (w_queue (OnModified w1)) !
        nat (moved_current start (start + l) (int to) ?c))))" if "\<not> q_random ?q" "0 \<le> ?c"
      by (rule cur[OF that])
  qed
qed

lemma MoveRange_tail_ok:
  assumes pc: "ok (w_pc w)" and inv: "playlist_inv w" and r: "start \<le> fin" "fin \<le> q_length (w_queue w)"
    and to: "0 \<le> to" "to + int fin - int start \<le> int (q_length (w_queue w))"
  obtains w' where "MoveRange_apply env (queued_ptr w) start fin to w = Some (PR_SUCCESS, w')"
    "ok (w_pc w')" "playlist_inv w'"
    "keys (w_queue w') = move_block start fin (nat to) (keys (w_queue w))"
    "pl_playing (w_list w') = pl_playing (w_list w)"
    "q_random (w_queue w) \<or> \<not> (int fin \<le> pl_current (w_list w) \<and> to < pl_current (w_list w) \<and>
       pl_current (w_list w) < to + int fin - int start) \<Longrightarrow> current_song w' = current_song w"
    "\<not> q_random (w_queue w) \<Longrightarrow> 0 \<le> pl_current (w_list w) \<Longrightarrow> current_song w' =
       Some (fst (snd (keys (w_queue w') ! nat (moved_current start fin to (pl_current (w_list w))))))"
proof -
  obtain l where l: "fin = start + l" using r(1) le_Suc_ex by blast
  obtain t where t: "to = int t" using to(1) nonneg_int_cases by blast
  have b: "start + l \<le> q_length (w_queue w)" "t + l \<le> q_length (w_queue w)" using r to by (simp_all add: l t)
  let ?q2 = "MoveRange (w_queue w) start (start + l) t"
  let ?c = "if \<not> q_random (w_queue w) then moved_current start (start + l) (int t) (pl_current (w_list w))
    else pl_current (w_list w)"
  obtain w1 where w1: "UpdateQueuedSong env (queued_ptr w) (set_current ?c (set_queue ?q2 w)) = Some w1"
    "ok (w_pc (OnModified w1))" "playlist_inv (OnModified w1)"
    "keys (w_queue (OnModified w1)) = move_block start (start + l) t (keys (w_queue w))"
    "pl_playing (w_list (OnModified w1)) = pl_playing (w_list w)"
    "q_random (w_queue w) \<or> \<not> (int (start + l) \<le> pl_current (w_list w) \<and> int t < pl_current (w_list w) \<and>
       pl_current (w_list w) < int (t + l)) \<Longrightarrow> current_song (OnModified w1) = current_song w"
    "\<not> q_random (w_queue w) \<Longrightarrow> 0 \<le> pl_current (w_list w) \<Longrightarrow> current_song (OnModified w1) =
       Some (fst (snd (keys (w_queue (OnModified w1)) ! nat (moved_current start (start + l) (int t) (pl_current (w_list w))))))"
    using MoveRange_apply_ok[OF pc inv b] by metis
  have ch: "checked_MoveRange (w_queue w) start fin to = Some ?q2"
    using r to by (simp add: checked_MoveRange_def l t)
  have rnd: "q_random ?q2 = q_random (w_queue w)" using MoveRange_frame(2)[OF playlist_invD(1)[OF inv]] .
  have sq: "(if \<not> q_random ?q2 then set_current (moved_current start fin to (pl_current (w_list (set_queue ?q2 w)))) (set_queue ?q2 w)
      else set_queue ?q2 w) = set_current ?c (set_queue ?q2 w)"
    by (simp add: rnd l t set_current_def set_queue_def)
  have "MoveRange_apply env (queued_ptr w) start fin to w = Some (PR_SUCCESS, OnModified w1)"
    unfolding MoveRange_apply_def ch Option.bind.simps Let_def sq w1(1) by (rule refl)
  moreover have "current_song (OnModified w1) = current_song w"
    if "q_random (w_queue w) \<or> \<not> (int fin \<le> pl_current (w_list w) \<and> to < pl_current (w_list w) \<and>
       pl_current (w_list w) < to + int fin - int start)"
    using that by (intro w1(6)) (auto simp: l t)
  ultimately show thesis using w1(2-5,7) by (intro that[of "OnModified w1"]) (simp_all add: l t)
qed

lemma GetCurrentPosition_ok:
  assumes "playlist_inv w"
  obtains cs where "GetCurrentPosition w = Some cs" "-1 \<le> cs" "cs < int (q_length (w_queue w))"
    "cs \<ge> 0 \<longleftrightarrow> pl_current (w_list w) \<ge> 0"
proof (cases "pl_current (w_list w) \<ge> 0")
  case True
  then show thesis
    using playlist_invD(4)[OF assms] order_bound[OF playlist_invD(1)[OF assms], of "nat (pl_current (w_list w))"]
    by (intro that[of "int (q_order (w_queue w) ! nat (pl_current (w_list w)))"])
      (simp_all add: GetCurrentPosition_def OrderToPosition_def)
next
  case False
  then show thesis by (intro that[of "-1"]) (simp_all add: GetCurrentPosition_def)
qed

lemma playlist_MoveRange_ok:
  assumes pc: "ok (w_pc w)" and inv: "playlist_inv w" and r: "start < fin" "fin \<le> q_length (w_queue w)"
    and to: "0 \<le> to" "to + int fin - int start \<le> int (q_length (w_queue w))" "int start \<noteq> to"
  obtains w' where "playlist_MoveRange env start fin to w = Some (PR_SUCCESS, w')" "ok (w_pc w')" "playlist_inv w'"
    "keys (w_queue w') = move_block start fin (nat to) (keys (w_queue w))"
    "pl_playing (w_list w') = pl_playing (w_list w)"
    "q_random (w_queue w) \<or> \<not> (int fin \<le> pl_current (w_list w) \<and> to < pl_current (w_list w) \<and>
       pl_current (w_list w) < to + int fin - int start) \<Longrightarrow> current_song w' = current_song w"
    "\<not> q_random (w_queue w) \<Longrightarrow> 0 \<le> pl_current (w_list w) \<Longrightarrow> current_song w' =
       Some (fst (snd (keys (w_queue w') ! nat (moved_current start fin to (pl_current (w_list w))))))"
proof -
  note len = playlist_inv_length[OF inv]
  have u: "u32 (int fin - 1) = fin - 1" "u32 (to + int fin - int start - 1) = nat (to + int fin - int start - 1)"
    using r to len by (simp_all add: u32_def nat_diff_distrib)
  have g: "(\<not> IsValidPosition (w_queue w) start \<or> \<not> IsValidPosition (w_queue w) (u32 (int fin - 1))) = False"
    "(0 \<le> to \<and> q_length (w_queue w) \<le> u32 (to + int fin - int start - 1) \<or> to < 0 \<and> q_length (w_queue w) < u32 \<bar>to\<bar>) = False"
    "(int start = to) = False" "(to < 0) = False"
    using r to unfolding u IsValidPosition_def by auto
  obtain cs where cs: "GetCurrentPosition w = Some cs" using GetCurrentPosition_ok[OF inv] by metis
  have "playlist_MoveRange env start fin to w = MoveRange_apply env (queued_ptr w) start fin to w"
    unfolding playlist_MoveRange_def Let_def g(1-3) GetQueuedSong_ok(1)[OF inv] cs Option.bind.simps
    using to(1) by simp
  moreover have rle: "start \<le> fin" using r by simp
  ultimately show thesis using MoveRange_tail_ok[OF pc inv rle r(2) to(1,2)] that by metis
qed

lemma playlist_MoveRange_total:
  assumes pc: "ok (w_pc w)" and inv: "playlist_inv w"
    and arg: "start \<le> fin" "fin < 2 ^ 32" "to < 2 ^ 31" and block: "0 \<le> to \<or> fin \<le> Suc start"
  shows "\<exists>r w'. playlist_MoveRange env start fin to w = Some (r, w') \<and> ok (w_pc w') \<and> playlist_inv w'"
proof (cases "\<not> IsValidPosition (w_queue w) start \<or> \<not> IsValidPosition (w_queue w) (u32 (int fin - 1)) \<or>
    0 \<le> to \<and> q_length (w_queue w) \<le> u32 (to + int fin - int start - 1) \<or> to < 0 \<and> q_length (w_queue w) < u32 \<bar>to\<bar>")
  case True
  then have "playlist_MoveRange env start fin to w = Some (PR_BAD_RANGE, w)"
    by (auto simp: playlist_MoveRange_def Let_def)
  then show ?thesis using pc inv by simp
next
  case False
  note len = playlist_inv_length[OF inv]
  let ?n = "int (q_length (w_queue w))"
  have fin0: "fin \<noteq> 0"
  proof
    assume "fin = 0"
    then have "u32 (int fin - 1) = 2 ^ 32 - 1" using u32_minus1 by simp
    then show False using False len by (simp add: IsValidPosition_def)
  qed
  then have s: "start < q_length (w_queue w)" "fin \<le> q_length (w_queue w)"
    using False arg u32_id[of "int fin - 1"] by (auto simp: IsValidPosition_def nat_diff_distrib)
  have to: "to + int fin - int start \<le> ?n" if "0 \<le> to"
  proof (cases "to + int fin - int start = 0")
    case ne: False
    then have "u32 (to + int fin - int start - 1) = nat (to + int fin - int start - 1)"
      using that arg s len by (intro u32_id) auto
    then show ?thesis using False that arg by auto
  qed simp
  obtain cs where cs: "GetCurrentPosition w = Some cs" "-1 \<le> cs" "cs < ?n" using GetCurrentPosition_ok[OF inv] by metis
  let ?to = "if to < 0 then let to = (cs + \<bar>to\<bar>) mod ?n in if int start < to then to - 1 else to else to"
  have eq: "playlist_MoveRange env start fin to w = (if int start = to then Some (PR_SUCCESS, w)
      else if to < 0 \<and> cs < 0 then Some (PR_BAD_RANGE, w)
      else if to < 0 \<and> int start \<le> cs \<and> cs < int fin then Some (PR_SUCCESS, w)
      else MoveRange_apply env (queued_ptr w) start fin ?to w)"
    using False unfolding playlist_MoveRange_def Let_def GetQueuedSong_ok(1)[OF inv] cs(1) Option.bind.simps by auto
  have m: "0 \<le> (cs + \<bar>to\<bar>) mod ?n" "(cs + \<bar>to\<bar>) mod ?n < ?n" using s by simp_all
  have "0 \<le> ?to \<and> ?to + int fin - int start \<le> ?n"
    using m to block arg(1) by (auto simp: Let_def)
  then have t: "0 \<le> ?to" "?to + int fin - int start \<le> ?n" by blast+
  obtain w' where "MoveRange_apply env (queued_ptr w) start fin ?to w = Some (PR_SUCCESS, w')" "ok (w_pc w')" "playlist_inv w'"
    using MoveRange_tail_ok[OF pc inv arg(1) s(2) t] by metis
  then show ?thesis unfolding eq using pc inv by auto
qed

lemma Shuffle_ok:
  assumes pc: "ok (w_pc w)" and inv: "playlist_inv w" and r: "start + 1 < fin" "fin \<le> q_length (w_queue w)"
  obtains w' where "Shuffle env start fin w = Some w'" "ok (w_pc w')" "playlist_inv w'"
    "same_outside start fin (keys (w_queue w)) (keys (w_queue w'))"
    "pl_playing (w_list w') = pl_playing (w_list w)"
    "current_song w' = (if pl_playing (w_list w) then current_song w else None)"
proof -
  let ?q = "w_queue w" and ?c = "pl_current (w_list w)"
  let ?cp = "q_order ?q ! nat ?c"
  note d = playlist_invD[OF inv] and len = playlist_inv_length[OF inv]
  have lk: "length (keys ?q) = q_length ?q" using d(1) by simp
  define hit where "hit \<longleftrightarrow> pl_playing (w_list w) \<and> start \<le> ?cp \<and> ?cp < fin"
  define q1 where "q1 = (if hit then SwapPositions ?q start ?cp else ?q)"
  define s1 where "s1 = (if hit then start + 1 else start)"
  define c where "c = (if \<not> pl_playing (w_list w) then -1 else if hit then int (if q_random ?q then PositionToOrder q1 start else start) else ?c)"
  define q2 where "q2 = ShuffleRange q1 s1 fin"
  have k: "nat ?c < q_length ?q" "?cp < q_length ?q" if "pl_playing (w_list w)"
    using d(4) d(6)[OF that] order_bound[OF d(1)] by auto
  have st: "start < q_length ?q" using r by simp
  have q1: "queue_inv q1" "q_length q1 = q_length ?q" "q_random q1 = q_random ?q"
    "orders q1 = orders ?q" "q_max_length q1 = q_max_length ?q" "keys q1 = (if hit then array_swap (keys ?q) start ?cp else keys ?q)"
    using d(1) SwapPositions_correct[OF d(1) st] k by (auto simp: q1_def hit_def)
  have f1: "fin \<le> q_length q1" using r q1(2) by simp
  note sh = ShuffleRange_correct[OF q1(1) f1, of s1, folded q2_def]
  have m2: "q_max_length q2 = q_max_length ?q" using sh(7) q1(5) by simp
  have o2: "q_order q2 ! j = q_order q1 ! j" if "j < q_length ?q" for j
    using that sh(3,4) q1(2) nth_orders[of j q2] nth_orders[of j q1] by simp
  have so: "same_outside start fin (keys ?q) (keys q2)"
  proof -
    have "same_outside start fin (keys ?q) (keys q1)"
      using q1(6) r k lk by (auto simp: hit_def intro!: same_outside_swap)
    moreover have "same_outside start fin (keys q1) (keys q2)"
      using sh(2) by (rule same_outside_mono) (simp_all add: s1_def)
    ultimately show ?thesis by (rule same_outside_trans)
  qed
  have c: "-1 \<le> c" "c < int (q_length q2)" "pl_playing (w_list w) \<Longrightarrow> 0 \<le> c" "c \<ge> 0 \<longleftrightarrow> pl_playing (w_list w)"
    using d(4,6) sh(4) q1(2) st order_of_position[OF q1(1), of start] by (auto simp: c_def)
  have e: "\<forall>e \<in> entries q2. e \<in> entries ?q \<or> Some (fst e) \<noteq> queued_ptr w \<and> DupDetached (snd e) = snd e"
    using entries_mset[of q2 ?q] so unfolding same_outside_def by blast
  obtain w1 where w1: "UpdateQueuedSong env (queued_ptr w) (set_current c (set_queue q2 w)) = Some w1"
    "ok (w_pc (OnModified w1))" "playlist_inv (OnModified w1)" "keys (w_queue (OnModified w1)) = keys q2"
    "current_song (OnModified w1) = (if c \<ge> 0 then Some (order_song q2 c) else None)"
    "pl_playing (w_list (OnModified w1)) = pl_playing (w_list w)"
    using edited[OF pc inv sh(1) m2 e c(1-3)] by metis
  have song: "order_song q2 c = order_song ?q ?c" if pl: "pl_playing (w_list w)"
  proof -
    have c0: "0 \<le> ?c" using d(6)[OF pl] .
    have old: "order_song ?q ?c = fst (snd (keys ?q ! ?cp))" using order_song_keys[OF d(1) c0 d(4)] .
    have cq: "nat c < q_length ?q" using c(2) c(3)[OF pl] sh(4) q1(2) by linarith
    have new: "order_song q2 c = fst (snd (keys q2 ! (q_order q1 ! nat c)))"
      using order_song_keys[OF sh(1) c(3)[OF pl] c(2)] o2[OF cq] by simp
    have nth: "keys q2 ! j = keys q1 ! j" if "j < s1 \<or> fin \<le> j" "j < q_length ?q" for j
      using same_outside_nth[OF sh(2)] that q1(1,2) by simp
    show ?thesis
    proof (cases hit)
      case True
      have "q_order q1 ! nat c = start"
        using True pl order_of_position[OF q1(1), of start] st q1(2,3) identity_order[OF q1(1), of start]
        by (auto simp: c_def)
      then show ?thesis using new old nth[of start] True st k(2)[OF pl] lk q1(6)
        by (simp add: s1_def nth_array_swap)
    next
      case False
      then have "q_order q1 ! nat c = ?cp" "\<not> (s1 \<le> ?cp \<and> ?cp < fin)"
        using pl by (auto simp: c_def q1_def hit_def s1_def)
      then show ?thesis using new old nth[of ?cp] False k(2)[OF pl] q1(6) by auto
    qed
  qed
  have clamp: "(if q_length ?q < fin then q_length ?q else fin) = fin" using r by simp
  have g: "(fin \<le> u32 (int start + 1)) = False" using r len by (simp add: u32_def nat_add_distrib)
  have chk: "check_order ?q ?c = Some ()" if "pl_playing (w_list w)"
    using d(4) d(6)[OF that] by (simp add: check_order_def)
  have mid: "(if pl_playing (w_list w) \<and> 0 \<le> ?c
       then check_order ?q ?c \<bind> (\<lambda>_. Some (if start \<le> OrderToPosition ?q (nat ?c) \<and> OrderToPosition ?q (nat ?c) < fin
                then (start + 1, set_current (int (if q_random (w_queue (set_queue (SwapPositions ?q start (OrderToPosition ?q (nat ?c))) w))
                      then PositionToOrder (w_queue (set_queue (SwapPositions ?q start (OrderToPosition ?q (nat ?c))) w)) start else start))
                      (set_queue (SwapPositions ?q start (OrderToPosition ?q (nat ?c))) w))
                else (start, w)))
       else Some (start, set_current (-1) w)) = Some (s1, set_current c (set_queue q1 w))"
    using d(6) chk SwapPositions_correct(5)[OF d(1) st] k
    by (auto simp: c_def hit_def q1_def s1_def OrderToPosition_def set_current_def set_queue_def)
  have e3: "ensure (s1 \<le> fin \<and> fin \<le> q_length (w_queue (set_current c (set_queue q1 w)))) = Some ()"
    using r q1(2) by (simp add: s1_def)
  have sq: "set_queue (ShuffleRange (w_queue (set_current c (set_queue q1 w))) s1 fin) (set_current c (set_queue q1 w)) =
      set_current c (set_queue q2 w)"
    by (simp add: q2_def set_current_def set_queue_def)
  have eq: "Shuffle env start fin w = Some (OnModified w1)"
    unfolding Shuffle_def Let_def clamp g if_False GetQueuedSong_ok(1)[OF inv] Option.bind.simps mid prod.case e3 sq w1(1)
    by (rule refl)
  show thesis
    using that[OF eq w1(2,3)] w1(4-6) so song c(4) d(6) by (simp add: current_song_def)
qed

lemma Shuffle_total:
  assumes pc: "ok (w_pc w)" and inv: "playlist_inv w" and st: "start + 1 < 2 ^ 32"
  shows "\<exists>w'. Shuffle env start fin w = Some w' \<and> ok (w_pc w') \<and> playlist_inv w'"
proof -
  define fin' where "fin' = (if fin > q_length (w_queue w) then q_length (w_queue w) else fin)"
  have u: "u32 (int start + 1) = start + 1" using st by (simp add: u32_def nat_add_distrib)
  show ?thesis
  proof (cases "start + 1 < fin'")
    case True
    have r: "fin' \<le> q_length (w_queue w)" by (simp add: fin'_def)
    have "Shuffle env start fin w = Shuffle env start fin' w"
      by (simp add: Shuffle_def fin'_def Let_def)
    moreover have "\<exists>w'. Shuffle env start fin' w = Some w' \<and> ok (w_pc w') \<and> playlist_inv w'"
      by (rule Shuffle_ok[OF pc inv True r]) auto
    ultimately show ?thesis by simp
  next
    case False
    then have "Shuffle env start fin w = Some w"
      unfolding Shuffle_def Let_def fin'_def[symmetric] u by simp
    then show ?thesis using assms by simp
  qed
qed

end

end
