(* ===== verification/Playlist_Playback.thy ===== *)
theory Playlist_Playback
  imports Playlist_Reorder
begin

text \<open>
  Playback control (src/src/PlaylistControl.cxx), the reactions to the player's events and the
  modes (src/src/Playlist.cxx): every operation returns, keeps the invariant, and does not
  touch the list of songs but for the song that consume mode removes.
\<close>

lemma order_song_inj:
  assumes inv: "queue_inv q" and a: "0 \<le> a" "a < int (q_length q)" and b: "0 \<le> b" "b < int (q_length q)"
    and eq: "order_song q a = order_song q b"
  shows "a = b"
proof -
  have k: "nat a < q_length q" "nat b < q_length q" using a b by simp_all
  have "ids_match {..<q_length q} q" using inv by (simp add: queue_inv_def)
  from ids_match_inj[OF this] have "q_order q ! nat a = q_order q ! nat b"
    using eq order_bound[OF inv] k by (simp add: order_song_def GetOrderItem_def OrderToPosition_def)
  then have "nat a = nat b" using PositionToOrder_order[OF inv] k by metis
  then show ?thesis using a b by simp
qed

lemma inv_pc:
  assumes "playlist_inv w" "pc_next_song pc' = pc_next_song (w_pc w) \<or> pc_next_song pc' = None"
    "pc_state (w_pc w) = PS_STOP \<longrightarrow> pc_state pc' = PS_STOP"
  shows "playlist_inv (w\<lparr>w_pc := pc'\<rparr>)" "playlist_inv (w\<lparr>w_pc := pc', w_idle := idle\<rparr>)"
  using assms by (auto simp: playlist_inv_def pl_ready_def pl_base_def queued_ptr_def Let_def)

lemma inv_errors [simp]: "playlist_inv (set_errors b n w) = playlist_inv w"
  by (simp add: playlist_inv_def pl_ready_def pl_base_def queued_ptr_def Let_def)

lemma inv_notify [simp]: "playlist_inv (notify f w) = playlist_inv w"
  by (simp add: playlist_inv_def pl_ready_def pl_base_def queued_ptr_def Let_def)

lemma IdToPosition_spec:
  assumes inv: "queue_inv q" and found: "\<not> IdToPosition q i < 0"
  shows "nat (IdToPosition q i) < q_length q" "PositionToId q (nat (IdToPosition q i)) = i"
proof -
  have "id_lookup (q_ids q) i = Some (nat (IdToPosition q i))"
    using found by (simp add: id_lookup_def IdToPosition_def)
  then have "nat (IdToPosition q i) \<in> {..<q_length q} \<and> item_id (q_items q ! nat (IdToPosition q i)) = i"
    using inv unfolding queue_inv_def ids_match_def by blast
  then show "nat (IdToPosition q i) < q_length q" "PositionToId q (nat (IdToPosition q i)) = i"
    by (simp_all add: PositionToId_def)
qed

lemma valid_u32: "playlist_inv w \<Longrightarrow> IsValidPosition (w_queue w) (u32 i) \<Longrightarrow> - (2 ^ 31) \<le> i \<Longrightarrow> i < 2 ^ 31 \<Longrightarrow>
  0 \<le> i \<and> u32 i = nat i \<and> nat i < q_length (w_queue w)"
proof -
  assume a: "playlist_inv w" "IsValidPosition (w_queue w) (u32 i)" "- (2 ^ 31) \<le> i" "i < 2 ^ 31"
  note len = playlist_inv_length[OF a(1)]
  show ?thesis
  proof (cases "0 \<le> i")
    case True
    then show ?thesis using a u32_id[of i] by (simp add: IsValidPosition_def)
  next
    case False
    then have "(i + 2 ^ 32) mod 2 ^ 32 = i + 2 ^ 32" using a(3) by (intro mod_pos_pos_trivial) simp_all
    then have "i mod 2 ^ 32 = i + 2 ^ 32" by simp
    then have "u32 i = nat (i + 2 ^ 32)" by (simp add: u32_def)
    then show ?thesis using a len by (simp add: IsValidPosition_def)
  qed
qed

context player_thread
begin

lemma inv_ClearError:
  assumes pc: "ok (w_pc w)" and inv: "playlist_inv w"
  shows "playlist_inv (w\<lparr>w_pc := pc_ClearError env (w_pc w)\<rparr>)" "ok (pc_ClearError env (w_pc w))"
  using ClearError_ok[OF pc] by (auto intro!: inv_pc[OF inv] simp: quiet_def)

lemma inv_Lock:
  assumes pc: "ok (w_pc w)" and inv: "playlist_inv w"
  shows "playlist_inv (w\<lparr>w_pc := Lock env (w_pc w)\<rparr>)"
  using Lock_ok(2)[OF pc] by (intro inv_pc[OF inv]) (auto simp: quiet_def)

lemma PlayPosition_ok:
  assumes pc: "ok (w_pc w)" and inv: "playlist_inv w" and song: "- (2 ^ 31) \<le> song" "song < 2 ^ 31"
  obtains r w' where "PlayPosition env song w = Some (r, w')" "ok (w_pc w')" "playlist_inv w'"
    "keys (w_queue w') = keys (w_queue w)"
    "song \<noteq> -1 \<Longrightarrow> \<not> (0 \<le> song \<and> song < int (q_length (w_queue w))) \<Longrightarrow> r = PR_BAD_RANGE"
    "0 \<le> song \<Longrightarrow> song < int (q_length (w_queue w)) \<Longrightarrow> r = PR_SUCCESS \<and> pl_playing (w_list w') \<and>
       current_song w' = Some (PositionToId (w_queue w) (nat song))"
    "song = -1 \<Longrightarrow> r = PR_SUCCESS \<and> pl_playing (w_list w') = (pl_playing (w_list w) \<or> q_length (w_queue w) \<noteq> 0)"
proof -
  let ?q = "w_queue w" and ?c = "pl_current (w_list w)"
  let ?w = "w\<lparr>w_pc := pc_ClearError env (w_pc w)\<rparr>"
  note d = playlist_invD[OF inv] and ce = inv_ClearError[OF pc inv]
  have okw: "ok (w_pc ?w)" using ce(2) by simp
  have len0: "pl_playing (w_list w) \<Longrightarrow> q_length ?q \<noteq> 0" using d(4,6) by auto
  consider (empty) "song = -1" "IsEmpty ?q" | (unpause) "song = -1" "\<not> IsEmpty ?q" "pl_playing (w_list w)"
    | (bad) "song \<noteq> -1" "\<not> IsValidPosition ?q (u32 song)"
    | (play) "song = -1 \<and> \<not> IsEmpty ?q \<and> \<not> pl_playing (w_list w) \<or> song \<noteq> -1 \<and> IsValidPosition ?q (u32 song)"
    by blast
  then show thesis
  proof cases
    case empty
    then have "\<not> pl_playing (w_list w)" using len0 by (auto simp: IsEmpty_def)
    then show thesis using empty ce by (intro that[of PR_SUCCESS ?w]) (simp_all add: PlayPosition_def IsEmpty_def)
  next
    case unpause
    obtain pc' idle where p: "pc_SetPause env False (pc_ClearError env (w_pc w), w_idle w) = Some (pc', idle)" "ok pc'"
      "quiet (pc_ClearError env (w_pc w)) pc'"
      using SetPause_ok[OF ce(2), of False "w_idle w"] by blast
    let ?w' = "?w\<lparr>w_pc := pc', w_idle := idle\<rparr>"
    have "on_pci (pc_SetPause env False) ?w = Some ?w'"
      using p(1) by (intro on_pci_Some) simp
    then have "PlayPosition env song w = Some (PR_SUCCESS, ?w')" using unpause by (simp add: PlayPosition_def)
    moreover have "playlist_inv ?w'" using p(3) by (intro inv_pc(2)[OF ce(1)]) (auto simp: quiet_def)
    ultimately show thesis using p unpause by (intro that[of PR_SUCCESS ?w']) (simp_all add: IsEmpty_def)
  next
    case bad
    then have "\<not> (0 \<le> song \<and> song < int (q_length ?q))"
      using u32_id[of song] song by (auto simp: IsValidPosition_def)
    then show thesis using bad ce by (intro that[of PR_BAD_RANGE ?w]) (simp_all add: PlayPosition_def)
  next
    case play
    have sv: "0 \<le> song \<and> nat song < q_length ?q" if "song \<noteq> -1"
      using valid_u32[OF inv _ song] play that by auto
    define i where "i = (if song = -1 then (if ?c \<ge> 0 then ?c else 0) else song)"
    define i' where "i' = (if song \<ge> 0 then int (PositionToOrder ?q (nat song)) else i)"
    define c where "c = (if \<not> pl_playing (w_list w) then 0 else ?c)"
    have n0: "0 < q_length ?q" using play sv by (auto simp: IsEmpty_def)
    have ib: "0 \<le> i" "i < int (q_length ?q)" using sv d(4) n0 by (auto simp: i_def)
    have ib': "0 \<le> i'" "i' < int (q_length ?q)"
      using ib order_of_position[OF d(1), of "nat song"] sv by (auto simp: i'_def)
    have cb: "0 \<le> c" "c < int (q_length ?q)" using d(4,6) n0 by (auto simp: c_def)
    define w1 where "w1 = (if q_random ?q then set_queue (SwapOrders ?q (nat i') (nat c))
        (if \<not> pl_playing (w_list w) then set_current 0 ?w else ?w) else ?w)"
    define o1 where "o1 = (if q_random ?q then c else i)"
    have step: "(if q_random (w_queue ?w)
        then do {
          let i = (if song \<ge> 0 then int (PositionToOrder (w_queue ?w) (nat song)) else i);
          let w = (if \<not> pl_playing (w_list ?w) then set_current 0 ?w else ?w);
          check_order (w_queue w) i;
          check_order (w_queue w) (pl_current (w_list w));
          let w = set_queue (SwapOrders (w_queue w) (nat i) (nat (pl_current (w_list w)))) w;
          Some (pl_current (w_list w), w) }
        else Some (i, ?w)) = Some (o1, w1)"
      using ib' cb by (auto simp: o1_def w1_def i'_def c_def Let_def)
    note so = SwapOrders_correct[OF d(1) _, of "nat i'" "nat c"]
    have q1: "queue_inv (w_queue w1)" "keys (w_queue w1) = keys ?q" "q_max_length (w_queue w1) = q_max_length ?q"
      "q_length (w_queue w1) = q_length ?q"
      using so ib' cb d(1) by (auto simp: w1_def) (simp_all add: SwapOrders_def)
    have det: "detached (w_queue w1)" using d(2) entries_keys[OF q1(2)] by (simp add: detached_def)
    have ow: "ok (w_pc (set_errors False 0 w1))" using okw by (simp add: w1_def)
    have ob: "0 \<le> o1" "o1 < int (q_length (w_queue (set_errors False 0 w1)))" using ib cb q1(4) by (auto simp: o1_def)
    obtain w' where w': "PlayOrder env o1 (set_errors False 0 w1) = Some w'" "ok (w_pc w')" "playlist_inv w'"
      "w_queue w' = w_queue w1" "pl_current (w_list w') = o1" "pl_playing (w_list w')"
      using PlayOrder_ok[OF ow _ _ _ ob] q1 det d(9) by auto
    have g: "(song = -1 \<and> IsEmpty (w_queue ?w)) = False" "(song = -1 \<and> pl_playing (w_list ?w)) = False"
      "(song \<noteq> -1 \<and> \<not> IsValidPosition (w_queue ?w) (u32 song)) = False"
      using play by (auto simp: IsEmpty_def)
    have ie: "(if song = -1 then if 0 \<le> pl_current (w_list ?w) then pl_current (w_list ?w) else 0 else song) = i"
      by (simp add: i_def)
    have eq: "PlayPosition env song w = Some (PR_SUCCESS, w')"
      unfolding PlayPosition_def Let_def g if_False ie step[unfolded Let_def] Option.bind.simps prod.case w'(1) by (rule refl)
    have cur: "current_song w' = Some (PositionToId ?q (nat song))" if s: "song \<noteq> -1"
    proof -
      have "order_song (w_queue w1) o1 = item_id (q_items ?q ! nat song)"
      proof (cases "q_random ?q")
        case True
        have l: "nat i' < length (q_order ?q)" "nat c < length (q_order ?q)"
          using ib' cb d(1) by (auto simp: queue_inv_def)
        have "q_order (SwapOrders ?q (nat i') (nat c)) ! nat c = q_order ?q ! nat i'"
          using l by (simp add: SwapOrders_def nth_array_swap)
        also have "\<dots> = nat song"
          using order_of_position[OF d(1), of "nat song"] sv[OF s] by (simp add: i'_def)
        finally show ?thesis
          using True by (simp add: o1_def w1_def order_song_def GetOrderItem_def OrderToPosition_def)
            (simp add: SwapOrders_def)
      next
        case False
        then show ?thesis
          using s sv[OF s] identity_order[OF d(1) False, of "nat song"]
          by (simp add: o1_def w1_def i_def order_song_def GetOrderItem_def OrderToPosition_def)
      qed
      then show ?thesis using w'(4,5) ob(1) by (simp add: current_song_def PositionToId_def)
    qed
    have "song \<noteq> -1 \<Longrightarrow> 0 \<le> song \<and> song < int (q_length ?q)" using sv by auto
    then show thesis
      using that[OF eq w'(2,3)] w'(4,6) q1(2) cur n0 by (auto simp: IsEmpty_def)
  qed
qed

lemma PlayId_ok:
  assumes pc: "ok (w_pc w)" and inv: "playlist_inv w"
  shows "\<exists>r w'. PlayId env i w = Some (r, w') \<and> ok (w_pc w') \<and> playlist_inv w' \<and> keys (w_queue w') = keys (w_queue w)"
proof -
  let ?p = "IdToPosition (w_queue w) (u32 i)"
  have r: "- (2 ^ 31) \<le> ?p \<and> ?p < 2 ^ 31" if "\<not> ?p < 0"
    using IdToPosition_spec(1)[OF playlist_invD(1)[OF inv] that] playlist_inv_length[OF inv] that by simp
  have all: "\<exists>r w'. PlayPosition env p w = Some (r, w') \<and> ok (w_pc w') \<and> playlist_inv w' \<and> keys (w_queue w') = keys (w_queue w)"
    if "- (2 ^ 31) \<le> p" "p < 2 ^ 31" for p
    by (rule PlayPosition_ok[OF pc inv that]) blast
  consider "i = -1" | "i \<noteq> -1" "?p < 0" | "i \<noteq> -1" "\<not> ?p < 0" by blast
  then show ?thesis
  proof cases
    case 1
    then show ?thesis using all[of "-1"] by (simp add: PlayId_def)
  next
    case 2
    then show ?thesis using pc inv by (simp add: PlayId_def)
  next
    case 3
    then show ?thesis using all[of ?p] r by (simp add: PlayId_def)
  qed
qed

lemma PlayNext_ok:
  assumes pc: "ok (w_pc w)" and inv: "playlist_inv w"
  defines "n \<equiv> GetNextOrder (w_queue w) (nat (pl_current (w_list w)))"
  obtains w' where "PlayNext env w = Some w'" "ok (w_pc w')" "playlist_inv w'"
    "\<not> pl_playing (w_list w) \<Longrightarrow> w' = w"
    "\<not> q_consume (w_queue w) \<Longrightarrow> keys (w_queue w') = keys (w_queue w)"
    "pl_playing (w_list w) \<Longrightarrow> \<not> q_consume (w_queue w) \<Longrightarrow> n < 0 \<Longrightarrow> \<not> pl_playing (w_list w') \<and> current_song w' = None"
    "pl_playing (w_list w) \<Longrightarrow> n \<ge> 0 \<Longrightarrow> \<not> (n = 0 \<and> q_random (w_queue w)) \<Longrightarrow> n \<noteq> pl_current (w_list w) \<or> \<not> q_consume (w_queue w) \<Longrightarrow>
       pl_playing (w_list w') \<and> current_song w' = Some (order_song (w_queue w) n)"
    "pl_playing (w_list w) \<Longrightarrow> q_consume (w_queue w) \<Longrightarrow> \<not> q_random (w_queue w) \<Longrightarrow>
       keys (w_queue w') = remove_nth (nat (pl_current (w_list w))) (keys (w_queue w))"
proof (cases "pl_playing (w_list w)")
  case False
  then show thesis using pc inv by (intro that[of w]) (simp_all add: PlayNext_def)
next
  case playing: True
  let ?q = "w_queue w" and ?c = "pl_current (w_list w)"
  note d = playlist_invD[OF inv]
  have c0: "0 \<le> ?c" using d(6)[OF playing] .
  have cl: "nat ?c < q_length ?q" using c0 d(4) by simp
  have n: "-1 \<le> n" "n < int (q_length ?q)" using GetNextOrder_range[OF cl] by (simp_all add: n_def)
  let ?w = "set_errors False (pl_error_count (w_list w)) w"
  let ?mid = "if n < 0 then do { w \<leftarrow> playlist_Stop env ?w; Some (set_current (-1) w) }
      else do {
        w \<leftarrow> (if n = 0 \<and> q_random (w_queue ?w)
             then do { ensure (q_repeat (w_queue ?w)); Some (set_queue (ShuffleOrder (w_queue ?w)) ?w) }
             else Some ?w);
        PlayOrder env n w }"
  have mid: "\<exists>w1. ?mid = Some w1 \<and> ok (w_pc w1) \<and> playlist_inv w1 \<and> keys (w_queue w1) = keys ?q \<and>
      q_length (w_queue w1) = q_length ?q \<and> q_consume (w_queue w1) = q_consume ?q \<and>
      (n < 0 \<longrightarrow> \<not> pl_playing (w_list w1) \<and> current_song w1 = None) \<and>
      (n \<ge> 0 \<longrightarrow> pl_playing (w_list w1) \<and> pl_current (w_list w1) = n) \<and>
      (\<not> (n = 0 \<and> q_random ?q) \<and> n \<ge> 0 \<longrightarrow> w_queue w1 = ?q) \<and> (\<not> q_random ?q \<longrightarrow> w_queue w1 = ?q)"
  proof (cases "n < 0")
    case True
    have ow: "ok (w_pc ?w)" "playlist_inv ?w" using pc inv by simp_all
    obtain w1 where w1: "playlist_Stop env ?w = Some w1" "ok (w_pc w1)" "playlist_inv w1" "\<not> pl_playing (w_list w1)"
      "keys (w_queue w1) = keys (w_queue ?w)" "q_length (w_queue w1) = q_length (w_queue ?w)"
      "q_consume (w_queue w1) = q_consume (w_queue ?w)" "\<not> q_random (w_queue ?w) \<longrightarrow> w_queue w1 = w_queue ?w"
      using playlist_Stop_ok[OF ow] by metis
    have "playlist_inv (set_current (-1) w1)"
      using w1(3,4) by (simp add: playlist_inv_def pl_ready_def pl_base_def Let_def)
    then show ?thesis using True w1 by (auto simp: current_song_def)
  next
    case False
    define q1 where "q1 = (if n = 0 \<and> q_random ?q then ShuffleOrder ?q else ?q)"
    have rep: "n = 0 \<longrightarrow> q_repeat ?q" unfolding n_def GetNextOrder_def using c0 by auto
    note sh = ShuffleOrder_correct[OF d(1)]
    have q1: "queue_inv q1" "keys q1 = keys ?q" "q_length q1 = q_length ?q" "q_consume q1 = q_consume ?q"
      "q_max_length q1 = q_max_length ?q"
      using d(1) sh(1) reordered_fields[OF sh(3)] by (auto simp: q1_def)
    have det: "detached q1" using d(2) entries_keys[OF q1(2)] by (simp add: detached_def)
    let ?w1 = "set_queue q1 ?w"
    have wq: "(if n = 0 \<and> q_random (w_queue ?w)
        then do { ensure (q_repeat (w_queue ?w)); Some (set_queue (ShuffleOrder (w_queue ?w)) ?w) } else Some ?w) = Some ?w1"
      using rep by (auto simp: q1_def set_queue_def set_errors_def)
    have ow: "ok (w_pc ?w1)" "queue_inv (w_queue ?w1)" "detached (w_queue ?w1)" "q_max_length (w_queue ?w1) < 2 ^ 31"
      using pc q1 det d(9) by simp_all
    have nb: "0 \<le> n" "n < int (q_length (w_queue ?w1))" using False n q1(3) by simp_all
    obtain w2 where w2: "PlayOrder env n ?w1 = Some w2" "ok (w_pc w2)" "playlist_inv w2" "w_queue w2 = w_queue ?w1"
      "pl_current (w_list w2) = n" "pl_playing (w_list w2)"
      using PlayOrder_ok[OF ow nb] by metis
    have "?mid = Some w2" using False unfolding wq by (simp add: w2(1))
    then show ?thesis using w2 q1 False by (auto simp: q1_def)
  qed
  then obtain w1 where w1: "?mid = Some w1" "ok (w_pc w1)" "playlist_inv w1" "keys (w_queue w1) = keys ?q"
    "q_length (w_queue w1) = q_length ?q" "q_consume (w_queue w1) = q_consume ?q"
    "n < 0 \<longrightarrow> \<not> pl_playing (w_list w1) \<and> current_song w1 = None"
    "n \<ge> 0 \<longrightarrow> pl_playing (w_list w1) \<and> pl_current (w_list w1) = n"
    "\<not> (n = 0 \<and> q_random ?q) \<and> n \<ge> 0 \<longrightarrow> w_queue w1 = ?q" "\<not> q_random ?q \<longrightarrow> w_queue w1 = ?q" by blast
  have cs: "n \<ge> 0 \<Longrightarrow> \<not> (n = 0 \<and> q_random ?q) \<Longrightarrow> current_song w1 = Some (order_song ?q n)"
    using w1(8,9) by (auto simp: current_song_def)
  have e: "ensure (\<not> IsEmpty ?q) = Some ()" "check_order ?q ?c = Some ()"
    using cl c0 d(4) by (auto simp: IsEmpty_def check_order_def)
  have np: "(\<not> pl_playing (w_list w)) = False" using playing by simp
  have sel: "w_queue ?w = ?q" "pl_current (w_list ?w) = ?c" by simp_all
  have eq: "PlayNext env w = (if q_consume (w_queue w1) then do { (_, w) \<leftarrow> DeleteOrder env ?c w1; Some w } else Some w1)"
    unfolding PlayNext_def np if_False e Option.bind.simps Let_def sel n_def[symmetric] w1(1)[unfolded sel] by (rule refl)
  show thesis
  proof (cases "q_consume ?q")
    case False
    then show thesis using that[of w1] eq w1 cs playing by auto
  next
    case True
    have cl1: "?c < int (q_length (w_queue w1))" using d(4) w1(5) by simp
    obtain w2 where w2: "DeleteOrder env ?c w1 = Some (PR_SUCCESS, w2)" "ok (w_pc w2)" "playlist_inv w2"
      "keys (w_queue w2) = remove_nth (q_order (w_queue w1) ! nat ?c) (keys (w_queue w1))"
      "current_song w1 \<noteq> Some (order_song (w_queue w1) ?c) \<longrightarrow>
         current_song w2 = current_song w1 \<and> pl_playing (w_list w2) = pl_playing (w_list w1)"
      using DeleteOrder_ok[OF w1(2,3) c0 cl1] by metis
    have k: "keys (w_queue w2) = remove_nth (nat ?c) (keys ?q)" if "\<not> q_random ?q"
      using w2(4) w1(10) that identity_order[OF d(1) that cl] w1(4) by simp
    have "order_song ?q n \<noteq> order_song ?q ?c" if ne: "n \<ge> 0" "n \<noteq> ?c"
      using order_song_inj[OF d(1) ne(1) n(2) c0 d(4)] ne(2) by blast
    then have cur2: "pl_playing (w_list w2) \<and> current_song w2 = Some (order_song ?q n)"
      if "n \<ge> 0" "\<not> (n = 0 \<and> q_random ?q)" "n \<noteq> ?c"
      using that w2(5) w1(8,9) cs by auto
    have "PlayNext env w = Some w2" using eq w1(6) True w2(1) by simp
    then show thesis
      by (rule that) (use w2(2,3) k cur2 True playing in auto)
  qed
qed

lemma PlayPrevious_ok:
  assumes pc: "ok (w_pc w)" and inv: "playlist_inv w"
  shows "\<exists>w'. PlayPrevious env w = Some w' \<and> ok (w_pc w') \<and> playlist_inv w' \<and> w_queue w' = w_queue w"
proof (cases "pl_playing (w_list w)")
  case False
  then show ?thesis using assms by (simp add: PlayPrevious_def)
next
  case True
  note d = playlist_invD[OF inv]
  let ?o = "if pl_current (w_list w) > 0 then pl_current (w_list w) - 1
           else if q_repeat (w_queue w) then int (q_length (w_queue w)) - 1
           else pl_current (w_list w)"
  have b: "0 \<le> ?o" "?o < int (q_length (w_queue w))" using d(4) d(6)[OF True] by auto
  have "\<not> IsEmpty (w_queue w)" using d(4) d(6)[OF True] by (simp add: IsEmpty_def)
  then have "PlayPrevious env w = PlayOrder env ?o w" using True by (simp add: PlayPrevious_def)
  moreover obtain w' where "PlayOrder env ?o w = Some w'" "ok (w_pc w')" "playlist_inv w'" "w_queue w' = w_queue w"
    using PlayOrder_ok[OF pc d(1,2,9) b] by metis
  ultimately show ?thesis by metis
qed

end

end
