(* ===== verification/Playlist_Events.thy ===== *)
theory Playlist_Events
  imports Playlist_Playback
begin

text \<open>
  Seeking, the reactions to the player's events, the modes, bulk edits and updates of tags
  (src/src/PlaylistControl.cxx, Playlist.cxx, PlaylistEdit.cxx, PlaylistUpdate.cxx).
\<close>

lemma alike_trans: "alike a b \<Longrightarrow> alike b c \<Longrightarrow> alike a c"
  by (simp add: alike_def)

lemma alike_sym: "alike a b \<Longrightarrow> alike b a"
  by (simp add: alike_def)

lemma alike_ReplaceTag: "alike s (ReplaceTag s t)"
  by (simp add: alike_def ReplaceTag_def)

lemma alike_mtime: "alike s (s\<lparr>song_mtime := m\<rparr>)"
  by (simp add: alike_def)

lemma detached_tag: "DupDetached s = s \<Longrightarrow> DupDetached (ReplaceTag s t) = ReplaceTag s t"
proof -
  assume "DupDetached s = s"
  moreover have "DupDetached (ReplaceTag s t) = ReplaceTag (DupDetached s) t"
    by (simp add: DupDetached_def ReplaceTag_def song_ctor_defs IsInDatabase_def GetURI_def split: option.splits)
  ultimately show ?thesis by simp
qed

lemma detached_mtime: "DupDetached s = s \<Longrightarrow> DupDetached (s\<lparr>song_mtime := m\<rparr>) = s\<lparr>song_mtime := m\<rparr>"
proof -
  assume "DupDetached s = s"
  moreover have "DupDetached (s\<lparr>song_mtime := m\<rparr>) = (DupDetached s)\<lparr>song_mtime := m\<rparr>"
    by (simp add: DupDetached_def song_ctor_defs IsInDatabase_def GetURI_def split: option.splits)
  ultimately show ?thesis by simp
qed

text \<open>Changes of the queue that move no song.\<close>

lemma inv_queue_frame:
  assumes inv: "playlist_inv w" and q': "queue_inv q'" "q_length q' = q_length (w_queue w)"
    "q_max_length q' = q_max_length (w_queue w)" "detached q'"
    and ord: "\<And>c. 0 \<le> c \<Longrightarrow> c < int (q_length q') \<Longrightarrow> order_song q' c = order_song (w_queue w) c"
    and e: "\<And>x. x \<in> entries q' \<Longrightarrow> \<exists>y \<in> entries (w_queue w). fst y = fst x \<and> alike (snd y) (snd x)"
  shows "playlist_inv (set_queue q' w)" "current_song (set_queue q' w) = current_song w"
    "queued_ptr (set_queue q' w) = queued_ptr w"
proof -
  note d = playlist_invD[OF inv]
  show qp: "queued_ptr (set_queue q' w) = queued_ptr w"
    using inv ord q'(2) by (auto simp: queued_ptr_def playlist_inv_def)
  show "current_song (set_queue q' w) = current_song w"
    using d(4) ord q'(2) by (auto simp: current_song_def)
  have m: "matches q' p n" if m0: "matches (w_queue w) p n" for p n
  proof (cases n)
    case (Some s)
    have "alike (snd x) s" if x: "x \<in> entries q'" "Some (fst x) = p" for x
    proof -
      obtain y where "y \<in> entries (w_queue w)" "fst y = fst x" "alike (snd y) (snd x)" using e[OF x(1)] by blast
      moreover from this have "alike (snd y) s" using x(2) m0 Some by (simp add: matches_def)
      ultimately show ?thesis using alike_trans[OF alike_sym] by blast
    qed
    then show ?thesis using m0 Some by (simp add: matches_def)
  qed simp
  show "playlist_inv (set_queue q' w)"
    using inv q' m unfolding playlist_inv_def qp by (auto simp: pl_ready_def pl_base_def Let_def)
qed

lemma current_song_notify [simp]: "current_song (notify f w) = current_song w"
  by (simp add: current_song_def)

definition put_song :: "nat \<Rightarrow> song \<Rightarrow> queue \<Rightarrow> queue" where
  "put_song p s q = q\<lparr>q_items := (q_items q)[p := (q_items q ! p)\<lparr>item_song := s\<rparr>]\<rparr>"

lemma put_song_correct:
  assumes inv: "queue_inv q" and p: "p < q_length q"
  shows "queue_inv (put_song p s q)" "keys (put_song p s q) = (keys q)[p := (s, snd (keys q ! p))]"
    "order_song (put_song p s q) c = order_song q c" "q_length (put_song p s q) = q_length q"
    "q_max_length (put_song p s q) = q_max_length q"
proof -
  have id: "item_id (q_items (put_song p s q) ! k) = item_id (q_items q ! k)" for k
    using inv p by (simp add: put_song_def nth_list_update queue_inv_def)
  have f: "q_ids (put_song p s q) = q_ids q" "q_length (put_song p s q) = q_length q"
    "q_max_length (put_song p s q) = q_max_length q" "q_order (put_song p s q) = q_order q"
    "q_random (put_song p s q) = q_random q" "length (q_items (put_song p s q)) = length (q_items q)"
    by (simp_all add: put_song_def)
  show "queue_inv (put_song p s q)" using inv by (simp add: queue_inv_def ids_match_def id f orders_def)
  show "keys (put_song p s q) = (keys q)[p := (s, snd (keys q ! p))]"
    using p inv by (simp add: keys_def put_song_def take_update_swap map_update item_key_def queue_inv_def)
  show "order_song (put_song p s q) c = order_song q c"
    by (simp add: order_song_def GetOrderItem_def OrderToPosition_def id f)
  show "q_length (put_song p s q) = q_length q" "q_max_length (put_song p s q) = q_max_length q"
    by (simp_all add: f)
qed

lemma put_song_inv:
  assumes inv: "playlist_inv w" and p: "p < q_length (w_queue w)"
    and s: "alike (Get (w_queue w) p) s" "DupDetached s = s"
  shows "playlist_inv (set_queue (put_song p s (w_queue w)) w)"
    "current_song (set_queue (put_song p s (w_queue w)) w) = current_song w"
    "queued_ptr (set_queue (put_song p s (w_queue w)) w) = queued_ptr w"
proof -
  let ?q = "w_queue w" and ?q' = "put_song p s (w_queue w)"
  note d = playlist_invD[OF inv] and c = put_song_correct[OF playlist_invD(1)[OF inv] p, of s]
  have old: "(fst (snd (keys ?q ! p)), Get ?q p) \<in> entries ?q"
    using nth_entries[OF d(1) p] p d(1) by (simp add: nth_keys item_key_def Get_def)
  have sub: "entries ?q' \<subseteq> insert (fst (snd (keys ?q ! p)), s) (entries ?q)"
    unfolding entries_def c(2) using set_update_subset_insert by fastforce
  have e: "\<exists>y \<in> entries ?q. fst y = fst x \<and> alike (snd y) (snd x)" if "x \<in> entries ?q'" for x
  proof (cases "x \<in> entries ?q")
    case False
    then have "x = (fst (snd (keys ?q ! p)), s)" using that sub by blast
    then show ?thesis using old s(1) by (intro bexI[OF _ old]) simp
  qed auto
  have det: "detached ?q'" using d(2) sub s(2) by (auto simp: detached_def)
  note fr = inv_queue_frame[OF inv c(1,4,5) det c(3) e]
  show "playlist_inv (set_queue ?q' w)" "current_song (set_queue ?q' w) = current_song w"
    "queued_ptr (set_queue ?q' w) = queued_ptr w"
    using fr by blast+
qed

lemma same_keys_inv:
  assumes inv: "playlist_inv w" and q': "queue_inv q'" "q_length q' = q_length (w_queue w)"
    "q_max_length q' = q_max_length (w_queue w)" "keys q' = keys (w_queue w)"
    and ord: "\<And>c. 0 \<le> c \<Longrightarrow> c < int (q_length q') \<Longrightarrow> order_song q' c = order_song (w_queue w) c"
  shows "playlist_inv (set_queue q' w)" "current_song (set_queue q' w) = current_song w"
    "queued_ptr (set_queue q' w) = queued_ptr w"
proof -
  have e: "entries q' = entries (w_queue w)" by (rule entries_keys[OF q'(4)])
  have det: "detached q'" using playlist_invD(2)[OF inv] e by (simp add: detached_def)
  have ex: "\<exists>y \<in> entries (w_queue w). fst y = fst x \<and> alike (snd y) (snd x)" if "x \<in> entries q'" for x
    using that e by auto
  note fr = inv_queue_frame[OF inv q'(1-3) det ord ex]
  show "playlist_inv (set_queue q' w)" "current_song (set_queue q' w) = current_song w"
    "queued_ptr (set_queue q' w) = queued_ptr w"
    using fr by blast+
qed

lemma IncrementVersion_inv:
  assumes inv: "playlist_inv w"
  shows "playlist_inv (set_queue (IncrementVersion (w_queue w)) w)"
    "current_song (set_queue (IncrementVersion (w_queue w)) w) = current_song w"
proof -
  note i = IncrementVersion_correct[OF playlist_invD(1)[OF inv]]
  have o: "order_song (IncrementVersion (w_queue w)) c = order_song (w_queue w) c"
    if "0 \<le> c" "c < int (q_length (IncrementVersion (w_queue w)))" for c
    using order_song_IncrementVersion[OF playlist_invD(1)[OF inv] that(1)] that(2) i(5) by simp
  show "playlist_inv (set_queue (IncrementVersion (w_queue w)) w)"
    "current_song (set_queue (IncrementVersion (w_queue w)) w) = current_song w"
    using same_keys_inv[OF inv i(1,5,7,2) o] by blast+
qed

lemma ModifyAtPosition_inv:
  assumes inv: "playlist_inv w" and p: "p < q_length (w_queue w)"
  shows "playlist_inv (set_queue (ModifyAtPosition (w_queue w) p) w)"
    "current_song (set_queue (ModifyAtPosition (w_queue w) p) w) = current_song w"
    "keys (ModifyAtPosition (w_queue w) p) = keys (w_queue w)"
proof -
  let ?q = "w_queue w" and ?q' = "ModifyAtPosition (w_queue w) p"
  note d = playlist_invD[OF inv]
  have id: "item_id (q_items ?q' ! k) = item_id (q_items ?q ! k)" for k
    using d(1) p by (simp add: ModifyAtPosition_def nth_list_update queue_inv_def)
  have f: "q_ids ?q' = q_ids ?q" "q_length ?q' = q_length ?q" "q_max_length ?q' = q_max_length ?q"
    "q_order ?q' = q_order ?q" "q_random ?q' = q_random ?q" "length (q_items ?q') = length (q_items ?q)"
    by (simp_all add: ModifyAtPosition_def)
  have inv': "queue_inv ?q'" using d(1) by (simp add: queue_inv_def ids_match_def id f orders_def)
  have "keys ?q' = (keys ?q)[p := keys ?q ! p]"
    using p d(1) by (simp add: keys_def ModifyAtPosition_def take_update_swap map_update queue_inv_def)
  then show k: "keys ?q' = keys ?q" by simp
  have o: "order_song ?q' c = order_song ?q c" for c
    by (simp add: order_song_def GetOrderItem_def OrderToPosition_def id f)
  show "playlist_inv (set_queue ?q' w)" "current_song (set_queue ?q' w) = current_song w"
    using same_keys_inv[OF inv inv' f(2,3) k o] by blast+
qed

lemma TagModified_ok:
  assumes inv: "playlist_inv w"
  shows "\<exists>w'. TagModified s w = Some w' \<and> w_pc w' = w_pc w \<and> playlist_inv w' \<and> current_song w' = current_song w \<and>
    map snd (keys (w_queue w')) = map snd (keys (w_queue w))"
proof (cases "song_tag s")
  case None
  then show ?thesis using inv by (simp add: TagModified_def)
next
  case (Some t)
  show ?thesis
  proof (cases "pl_playing (w_list w)")
    case False
    then show ?thesis using inv Some by (simp add: TagModified_def)
  next
    case True
    let ?q = "w_queue w" and ?c = "nat (pl_current (w_list w))"
    let ?p = "q_order ?q ! ?c"
    note d = playlist_invD[OF inv]
    have c: "0 \<le> pl_current (w_list w)" "?c < q_length ?q" using d(4) d(6)[OF True] by simp_all
    have p: "?p < q_length ?q" by (rule order_bound[OF d(1) c(2)])
    define q1 where "q1 = (if SongEquals s (GetOrder ?q ?c) then put_song ?p (ReplaceTag (GetOrder ?q ?c) t) ?q else ?q)"
    have go: "GetOrder ?q ?c = Get ?q ?p" by (simp add: GetOrder_def OrderToPosition_def)
    have "DupDetached (Get ?q ?p) = Get ?q ?p"
      using d(2) nth_entries[OF d(1) p] by (force simp: detached_def Get_def)
    then have rt: "alike (Get ?q ?p) (ReplaceTag (Get ?q ?p) t)" "DupDetached (ReplaceTag (Get ?q ?p) t) = ReplaceTag (Get ?q ?p) t"
      by (simp_all add: alike_ReplaceTag detached_tag)
    have q1: "playlist_inv (set_queue q1 w)" "current_song (set_queue q1 w) = current_song w" "q_length q1 = q_length ?q"
      "q_order q1 = q_order ?q" "map snd (keys q1) = map snd (keys ?q)"
      using inv put_song_inv[OF inv p rt] put_song_correct[OF d(1) p] p d(1)
      by (auto simp: q1_def go map_update) (simp_all add: put_song_def list_update_same_conv)
    have p1: "?p < q_length (w_queue (set_queue q1 w))" using p q1(3) by simp
    let ?w = "set_queue (ModifyAtPosition q1 ?p) w"
    have w: "playlist_inv ?w" "current_song ?w = current_song w" "keys (ModifyAtPosition q1 ?p) = keys q1"
      using ModifyAtPosition_inv[OF q1(1) p1] q1(2) by simp_all
    have "TagModified s w = Some (notify IDLE_PLAYLIST (set_queue (IncrementVersion (ModifyAtPosition q1 ?p)) w))"
      using Some True c d(4) q1(4)
      by (simp add: TagModified_def Let_def q1_def put_song_def go OrderToPosition_def ModifyAtOrder_def)
    moreover have "keys (IncrementVersion (ModifyAtPosition q1 ?p)) = keys q1"
      using IncrementVersion_correct(2)[OF playlist_invD(1)[OF w(1)]] w(3) by simp
    ultimately show ?thesis
      using IncrementVersion_inv[OF w(1)] w q1(5) by simp
  qed
qed

section \<open>Operations that ask the player\<close>

lemma u32_current: "playlist_inv w \<Longrightarrow> 0 \<le> pl_current (w_list w) \<Longrightarrow> u32 (pl_current (w_list w)) = nat (pl_current (w_list w))"
  using playlist_invD(4)[of w] playlist_inv_length[of w] u32_id[of "pl_current (w_list w)"] by simp

context player_thread
begin

text \<open>The playlist when the player is asked to seek.\<close>

lemma SeekSongOrder_unfold:
  assumes inv: "playlist_inv w" and i: "i < q_length (w_queue w)"
  obtains p1 w1 where "SeekSongOrder env i t w = do {
       (done, pc, idle) \<leftarrow> pc_Seek env (DupDetached (GetOrder (w_queue w) i)) t (w_pc w1, w_idle w1);
       let w = w1\<lparr>w_pc := pc, w_idle := idle\<rparr>;
       if \<not> done
       then do { w \<leftarrow> UpdateQueuedSong env p1 w; Some (PR_NOT_PLAYING, w) }
       else do { w \<leftarrow> UpdateQueuedSong env None (set_queued (-1) w); Some (PR_SUCCESS, w) } }"
    "w_queue w1 = w_queue w" "pl_playing (w_list w1)" "pl_current (w_list w1) = int i" "w_pc w1 = pc_ClearError env (w_pc w)"
proof -
  let ?w = "w\<lparr>w_pc := pc_ClearError env (w_pc w)\<rparr>"
  let ?other = "\<not> pl_playing (w_list w) \<or> u32 (pl_current (w_list w)) \<noteq> i"
  define p1 where "p1 = (if ?other then None else queued_ptr w)"
  define w1 where "w1 = (if ?other then set_current (int i) (set_playing True (set_errors True 0 ?w)) else set_errors True 0 ?w)"
  have st: "(if ?other then (None, set_current (int i) (set_playing True (set_errors True 0 ?w)))
      else (queued_ptr w, set_errors True 0 ?w)) = (p1, w1)"
    by (simp add: p1_def w1_def)
  have w1: "w_queue w1 = w_queue w" "pl_playing (w_list w1)" "pl_current (w_list w1) = int i" "w_pc w1 = pc_ClearError env (w_pc w)"
    using playlist_invD(6)[OF inv] u32_current[OF inv] by (auto simp: w1_def)
  have c: "check_order (w_queue w) (int i) = Some ()" using i by (simp add: check_order_def)
  have sel: "pl_playing (w_list (set_errors True 0 ?w)) = pl_playing (w_list w)"
    "pl_current (w_list (set_errors True 0 ?w)) = pl_current (w_list w)" by simp_all
  show thesis
    by (rule that[OF _ w1])
      (unfold SeekSongOrder_def c GetQueuedSong_ok(1)[OF inv] Option.bind.simps Let_def sel st prod.case w1(1), rule refl)
qed

lemma SeekSongOrder_ok:
  assumes pc: "ok (w_pc w)" and inv: "playlist_inv w" and i: "i < q_length (w_queue w)"
    and run: "SeekSongOrder env i t w = Some (r, w')"
  shows "r = PR_SUCCESS" "ok (w_pc w')" "playlist_inv w'" "keys (w_queue w') = keys (w_queue w)"
    "pl_playing (w_list w')" "current_song w' = Some (order_song (w_queue w) (int i))"
proof -
  let ?q = "w_queue w"
  note d = playlist_invD[OF inv] and ce = inv_ClearError[OF pc inv]
  obtain p1 w1 where eq1: "SeekSongOrder env i t w = do {
       (done, pc, idle) \<leftarrow> pc_Seek env (DupDetached (GetOrder (w_queue w) i)) t (w_pc w1, w_idle w1);
       let w = w1\<lparr>w_pc := pc, w_idle := idle\<rparr>;
       if \<not> done
       then do { w \<leftarrow> UpdateQueuedSong env p1 w; Some (PR_NOT_PLAYING, w) }
       else do { w \<leftarrow> UpdateQueuedSong env None (set_queued (-1) w); Some (PR_SUCCESS, w) } }"
    and w1: "w_queue w1 = w_queue w" "pl_playing (w_list w1)" "pl_current (w_list w1) = int i" "w_pc w1 = pc_ClearError env (w_pc w)"
    by (rule SeekSongOrder_unfold[OF inv i])
  note unfolded = run[unfolded eq1]
  obtain b pc' idle' where p0: "pc_Seek env (DupDetached (GetOrder ?q i)) t (w_pc w1, w_idle w1) = Some (b, pc', idle')"
    using unfolded by (cases "pc_Seek env (DupDetached (GetOrder ?q i)) t (w_pc w1, w_idle w1)") auto
  have p: "b" "idle' = idle_add IDLE_PLAYER (w_idle w1)" "ok pc'" "pc_next_song pc' = None"
    using Seek_ok[OF _ p0] ce(2) w1(4) by auto
  let ?w2 = "set_queued (-1) (w1\<lparr>w_pc := pc', w_idle := idle_add IDLE_PLAYER (w_idle w1)\<rparr>)"
  have ready: "pl_ready None ?w2"
    using d w1 p(4) i by (simp add: pl_ready_def pl_base_def Let_def)
  obtain v where v: "UpdateQueuedSong env None ?w2 = Some v" "ok (w_pc v)" "playlist_inv v" "same_list ?w2 v"
    using UpdateQueuedSong_ok[OF _ ready] p(3) by auto
  have eq: "r = PR_SUCCESS \<and> w' = v"
    using unfolded p(1,2) v(1) by (simp add: p0)
  have "keys (w_queue v) = keys ?q" using same_list_keys[OF v(4)] w1(1) by simp
  moreover have "pl_playing (w_list v)" "current_song v = Some (order_song ?q (int i))"
    using v(4) w1 by (simp_all add: same_list_def current_song_def)
  ultimately show "r = PR_SUCCESS" "ok (w_pc w')" "playlist_inv w'" "keys (w_queue w') = keys ?q"
    "pl_playing (w_list w')" "current_song w' = Some (order_song ?q (int i))"
    using eq v(2,3) by simp_all
qed

text \<open>A seek fails only when the player thread does not answer.\<close>

lemma SeekSongOrder_answered:
  assumes pc: "ok (w_pc w)" and inv: "playlist_inv w" and i: "i < q_length (w_queue w)"
    and ans: "thread_answers env ((Lock env (pc_ClearError env (w_pc w)))\<lparr>pc_next_song := Some (DupDetached (GetOrder (w_queue w) i)),
      pc_seek_where := t, pc_command := PC_SEEK\<rparr>) = Some pc'"
  shows "\<exists>r w'. SeekSongOrder env i t w = Some (r, w')"
proof -
  note d = playlist_invD[OF inv] and ce = inv_ClearError[OF pc inv]
  obtain p1 w1 where eq1: "SeekSongOrder env i t w = do {
       (done, pc, idle) \<leftarrow> pc_Seek env (DupDetached (GetOrder (w_queue w) i)) t (w_pc w1, w_idle w1);
       let w = w1\<lparr>w_pc := pc, w_idle := idle\<rparr>;
       if \<not> done
       then do { w \<leftarrow> UpdateQueuedSong env p1 w; Some (PR_NOT_PLAYING, w) }
       else do { w \<leftarrow> UpdateQueuedSong env None (set_queued (-1) w); Some (PR_SUCCESS, w) } }"
    and w1: "w_queue w1 = w_queue w" "pl_playing (w_list w1)" "pl_current (w_list w1) = int i" "w_pc w1 = pc_ClearError env (w_pc w)"
    by (rule SeekSongOrder_unfold[OF inv i])
  note lk = Lock_ok(1)[OF ce(2)]
  have s: "ok pc'" "pc_next_song pc' = None" using seek[OF lk ans] by simp_all
  have ps: "pc_Seek env (DupDetached (GetOrder (w_queue w) i)) t (w_pc w1, w_idle w1) = Some (True, pc', idle_add IDLE_PLAYER (w_idle w1))"
    using ans s(2) ok_idle[OF lk] by (simp add: pc_Seek_def SynchronousCommand_def w1(4) Let_def)
  let ?w2 = "set_queued (-1) (w1\<lparr>w_pc := pc', w_idle := idle_add IDLE_PLAYER (w_idle w1)\<rparr>)"
  have ready: "pl_ready None ?w2"
    using d w1 s(2) i by (simp add: pl_ready_def pl_base_def Let_def)
  obtain v where "UpdateQueuedSong env None ?w2 = Some v"
    using UpdateQueuedSong_ok[OF _ ready] s(1) by auto
  then show ?thesis by (simp add: eq1 ps)
qed

lemma SeekSongPosition_ok:
  assumes pc: "ok (w_pc w)" and inv: "playlist_inv w" and run: "SeekSongPosition env p t w = Some (r, w')"
  shows "ok (w_pc w')" "playlist_inv w'" "keys (w_queue w') = keys (w_queue w)"
    "p < q_length (w_queue w) \<Longrightarrow> r = PR_SUCCESS \<and> pl_playing (w_list w') \<and>
       current_song w' = Some (PositionToId (w_queue w) p)"
proof -
  have "ok (w_pc w') \<and> playlist_inv w' \<and> keys (w_queue w') = keys (w_queue w) \<and>
    (p < q_length (w_queue w) \<longrightarrow> r = PR_SUCCESS \<and> pl_playing (w_list w') \<and>
       current_song w' = Some (PositionToId (w_queue w) p))"
  proof (cases "p < q_length (w_queue w)")
    case False
    then show ?thesis using assms by (simp add: SeekSongPosition_def IsValidPosition_def)
  next
    case True
    note q = playlist_invD(1)[OF inv]
    let ?o = "if q_random (w_queue w) then PositionToOrder (w_queue w) p else p"
    have o: "?o < q_length (w_queue w)" "q_order (w_queue w) ! ?o = p"
      using True order_of_position[OF q True] identity_order[OF q _ True] by auto
    have "SeekSongOrder env ?o t w = Some (r, w')"
      using run True by (simp add: SeekSongPosition_def IsValidPosition_def)
    note so = SeekSongOrder_ok[OF pc inv o(1) this]
    have "order_song (w_queue w) (int ?o) = PositionToId (w_queue w) p"
      using o(2) by (simp add: order_song_def GetOrderItem_def OrderToPosition_def PositionToId_def)
    then show ?thesis using so by metis
  qed
  then show "ok (w_pc w')" "playlist_inv w'" "keys (w_queue w') = keys (w_queue w)"
    "p < q_length (w_queue w) \<Longrightarrow> r = PR_SUCCESS \<and> pl_playing (w_list w') \<and>
       current_song w' = Some (PositionToId (w_queue w) p)" by blast+
qed

lemma SeekSongId_ok:
  assumes pc: "ok (w_pc w)" and inv: "playlist_inv w" and run: "SeekSongId env i t w = Some (r, w')"
  shows "ok (w_pc w') \<and> playlist_inv w' \<and> keys (w_queue w') = keys (w_queue w)"
  using SeekSongPosition_ok[OF pc inv, of "nat (IdToPosition (w_queue w) i)" t r w'] assms
  by (cases "IdToPosition (w_queue w) i < 0") (auto simp: SeekSongId_def Let_def)

lemma SeekCurrent_ok:
  assumes pc: "ok (w_pc w)" and inv: "playlist_inv w" and run: "SeekCurrent env t rel w = Some (r, w')"
  shows "ok (w_pc w') \<and> playlist_inv w' \<and> keys (w_queue w') = keys (w_queue w)"
proof (cases "pl_playing (w_list w)")
  case False
  then show ?thesis using assms by (simp add: SeekCurrent_def)
next
  case True
  have seek: "ok (w_pc w') \<and> playlist_inv w' \<and> keys (w_queue w') = keys (w_queue v)"
    if v: "ok (w_pc v)" "playlist_inv v" "pl_playing (w_list v)"
      "SeekSongOrder env (u32 (pl_current (w_list v))) x v = Some (r, w')" for v x
  proof -
    have "u32 (pl_current (w_list v)) < q_length (w_queue v)"
      using u32_current[OF v(2)] playlist_invD(4,6)[OF v(2)] v(3) by simp
    from SeekSongOrder_ok(2,3,4)[OF v(1,2) this v(4)] show ?thesis by blast
  qed
  show ?thesis
  proof (cases rel)
    case False
    then show ?thesis using seek[OF pc inv True] True run by (simp add: SeekCurrent_def Let_def)
  next
    case rel: True
    obtain st pc' where p: "pc_GetStatus env (w_pc w) = Some (st, pc')" "ok pc'" "quiet (w_pc w) pc'"
      using GetStatus_ok[OF pc] by blast
    let ?w = "w\<lparr>w_pc := pc'\<rparr>"
    have i: "playlist_inv ?w" using p(3) by (intro inv_pc(1)[OF inv]) (auto simp: quiet_def)
    have "ok (w_pc ?w)" "pl_playing (w_list ?w)" using p True by simp_all
    from seek[OF this(1) i this(2)] show ?thesis using rel True p i run
      by (auto simp: SeekCurrent_def Let_def split: if_splits)
  qed
qed

lemma song_started_ok:
  assumes pc: "ok (w_pc w)" "pc_next_song (w_pc w) = None" and inv: "playlist_inv w"
    and pl: "pl_playing (w_list w)" "pl_queued (w_list w) \<noteq> -1"
  obtains w' where "playlist_song_started env w = Some w'" "ok (w_pc w')" "playlist_inv w'"
    "\<not> q_consume (w_queue w) \<Longrightarrow> keys (w_queue w') = keys (w_queue w) \<and> pl_queued (w_list w') = -1"
    "pl_queued (w_list w) \<noteq> pl_current (w_list w) \<Longrightarrow>
       current_song w' = queued_ptr w \<and> pl_playing (w_list w')"
    "q_consume (w_queue w) \<Longrightarrow> keys (w_queue w') =
       remove_nth (q_order (w_queue w) ! nat (pl_current (w_list w))) (keys (w_queue w))"
proof -
  let ?q = "w_queue w" and ?c = "pl_current (w_list w)" and ?n = "pl_queued (w_list w)"
  note d = playlist_invD[OF inv]
  have n: "0 \<le> ?n" "?n < int (q_length ?q)" "?n \<ge> -1"
    using inv pl by (auto simp: playlist_inv_def pl_ready_def Let_def)
  let ?w = "set_queued (-1) (set_current ?n w)"
  have i1: "playlist_inv ?w"
    using inv n pl pc(2) by (simp add: playlist_inv_def pl_ready_def pl_base_def queued_ptr_def Let_def)
  have cs: "current_song ?w = queued_ptr w" using n pl by (simp add: current_song_def queued_ptr_def)
  have ow: "ok (w_pc ?w)" using pc by simp
  have c: "0 \<le> ?c" "?c < int (q_length (w_queue ?w))" using d(4) d(6)[OF pl(1)] by simp_all
  obtain w2 where w2: "DeleteOrder env ?c ?w = Some (PR_SUCCESS, w2)" "ok (w_pc w2)" "playlist_inv w2"
    "keys (w_queue w2) = remove_nth (q_order (w_queue ?w) ! nat ?c) (keys (w_queue ?w))"
    "current_song ?w \<noteq> Some (order_song (w_queue ?w) ?c) \<longrightarrow>
         current_song w2 = current_song ?w \<and> pl_playing (w_list w2) = pl_playing (w_list ?w)"
    using DeleteOrder_ok[OF ow i1 c] by metis
  define w3 where "w3 = (if q_consume ?q then w2 else ?w)"
  have eq: "playlist_song_started env w = Some (notify IDLE_PLAYER w3)"
    using pc(2) n w2(1) by (simp add: playlist_song_started_def Let_def w3_def)
  have "current_song ?w \<noteq> Some (order_song ?q ?c)" if "?n \<noteq> ?c"
  proof -
    have "order_song ?q ?n \<noteq> order_song ?q ?c" using order_song_inj[OF d(1) n(1,2) c(1)] c(2) that by auto
    then show ?thesis using n by (simp add: current_song_def)
  qed
  then have "current_song w3 = queued_ptr w \<and> pl_playing (w_list w3)" if "?n \<noteq> ?c"
    using that w2(5) cs pl by (simp add: w3_def)
  then show thesis
    using that[OF eq] w2 i1 ow by (auto simp: w3_def)
qed

lemma resume_playback_ok:
  assumes pc: "ok (w_pc w)" and inv: "playlist_inv w" and pl: "pl_playing (w_list w)" "pc_state (w_pc w) = PS_STOP"
  shows "\<exists>w'. playlist_resume_playback env w = Some w' \<and> ok (w_pc w') \<and> playlist_inv w'"
proof -
  let ?w = "set_errors (pl_stop_on_error (w_list w))
      (if pc_error_type (w_pc w) = PE_NONE then 0 else pl_error_count (w_list w) + 1) w"
  have o: "ok (w_pc ?w)" "playlist_inv ?w" using pc inv by simp_all
  have "\<exists>w'. playlist_Stop env ?w = Some w' \<and> ok (w_pc w') \<and> playlist_inv w'"
    by (rule playlist_Stop_ok[OF o]) blast
  moreover have "\<exists>w'. PlayNext env ?w = Some w' \<and> ok (w_pc w') \<and> playlist_inv w'"
    by (rule PlayNext_ok[OF o]) blast
  ultimately show ?thesis using pl by (simp add: playlist_resume_playback_def Let_def)
qed

lemma SyncWithPlayer_ok:
  assumes pc: "ok (w_pc w)" and inv: "playlist_inv w"
  shows "\<exists>w'. SyncWithPlayer env w = Some w' \<and> ok (w_pc w') \<and> playlist_inv w'"
proof (cases "pl_playing (w_list w)")
  case False
  then show ?thesis using assms by (simp add: SyncWithPlayer_def)
next
  case True
  let ?w = "w\<lparr>w_pc := Lock env (w_pc w)\<rparr>"
  have o: "ok (w_pc ?w)" "playlist_inv ?w" "pl_playing (w_list ?w)"
    using Lock_ok[OF pc] inv_Lock[OF pc inv] True by simp_all
  show ?thesis
  proof (cases "pc_state (w_pc ?w) = PS_STOP")
    case stop: True
    then show ?thesis using resume_playback_ok[OF o stop] True by (simp add: SyncWithPlayer_def)
  next
    case False
    let ?started = "if pc_next_song (w_pc ?w) = None \<and> pl_queued (w_list ?w) \<noteq> -1
        then playlist_song_started env ?w else Some ?w"
    have "\<exists>w1. ?started = Some w1 \<and> ok (w_pc w1) \<and> playlist_inv w1"
    proof (cases "pc_next_song (w_pc ?w) = None \<and> pl_queued (w_list ?w) \<noteq> -1")
      case s: True
      have "\<exists>w1. playlist_song_started env ?w = Some w1 \<and> ok (w_pc w1) \<and> playlist_inv w1"
        by (rule song_started_ok[OF o(1) _ o(2,3)]) (use s in blast)+
      then show ?thesis using s by simp
    next
      case n: False
      then have "?started = Some ?w" by (rule if_not_P)
      then show ?thesis using o by blast
    qed
    then obtain w1 where w1: "?started = Some w1" "ok (w_pc w1)" "playlist_inv w1" by blast
    let ?w1 = "w1\<lparr>w_pc := Lock env (w_pc w1)\<rparr>"
    have o1: "ok (w_pc ?w1)" "playlist_inv ?w1" using Lock_ok[OF w1(2)] inv_Lock[OF w1(2,3)] by simp_all
    have eq: "SyncWithPlayer env w = (if pc_next_song (w_pc ?w1) = None \<and> pl_queued (w_list ?w1) < 0
          then UpdateQueuedSong env None ?w1 else Some ?w1)"
      using True False w1(1) by (simp add: SyncWithPlayer_def Let_def)
    show ?thesis
    proof (cases "pc_next_song (w_pc ?w1) = None \<and> pl_queued (w_list ?w1) < 0")
      case u: True
      then have "queued_ptr ?w1 = None" by (simp add: queued_ptr_def)
      then show ?thesis using eq u UpdateQueuedSong_inv[OF o1] by auto
    next
      case n: False
      show ?thesis using eq[unfolded if_not_P[OF n]] o1 by blast
    qed
  qed
qed

end

end
