(* ===== verification/Playlist_Requests.thy ===== *)
theory Playlist_Requests
  imports Playlist_Events
begin

text \<open>
  The modes, bulk edits and database updates, and then all requests the main thread can make
  of the playlist as one transition system: from a fresh playlist, no sequence of legal
  requests, whatever the player does in between, makes an assertion fail or breaks the
  invariant.
\<close>

section \<open>Modes and bulk edits\<close>

lemma flags_inv:
  assumes inv: "playlist_inv w"
    and q': "q' = (w_queue w)\<lparr>q_repeat := a\<rparr> \<or> q' = (w_queue w)\<lparr>q_single := a\<rparr> \<or> q' = (w_queue w)\<lparr>q_consume := a\<rparr>"
  shows "playlist_inv (set_queue q' w)" "current_song (set_queue q' w) = current_song w"
    "queued_ptr (set_queue q' w) = queued_ptr w" "keys q' = keys (w_queue w)"
proof -
  note d = playlist_invD[OF inv]
  have f: "q_items q' = q_items (w_queue w)" "q_order q' = q_order (w_queue w)" "q_length q' = q_length (w_queue w)"
    "q_max_length q' = q_max_length (w_queue w)" "q_ids q' = q_ids (w_queue w)" "q_random q' = q_random (w_queue w)"
    using q' by auto
  have i: "queue_inv q'" using d(1) by (simp add: queue_inv_def ids_match_def orders_def f)
  show k: "keys q' = keys (w_queue w)" by (simp add: keys_def f)
  have o: "order_song q' c = order_song (w_queue w) c" for c
    by (simp add: order_song_def GetOrderItem_def OrderToPosition_def f)
  show "playlist_inv (set_queue q' w)" "current_song (set_queue q' w) = current_song w"
    "queued_ptr (set_queue q' w) = queued_ptr w"
    using same_keys_inv[OF inv i f(3,4) k o] by blast+
qed

lemma SetConsume_ok:
  assumes "playlist_inv w"
  shows "playlist_inv (SetConsume b w)" "w_pc (SetConsume b w) = w_pc w" "keys (w_queue (SetConsume b w)) = keys (w_queue w)"
    "current_song (SetConsume b w) = current_song w"
  using flags_inv[OF assms, of _ b] assms by (auto simp: SetConsume_def)

lemma current_song_frame [simp]:
  "current_song (w\<lparr>w_pc := p\<rparr>) = current_song w" "current_song (w\<lparr>w_pc := p, w_idle := i\<rparr>) = current_song w"
  "current_song (w\<lparr>w_list := (w_list w)\<lparr>pl_bulk_edit := b\<rparr>\<rparr>) = current_song w"
  "current_song (w\<lparr>w_list := (w_list w)\<lparr>pl_bulk_edit := b, pl_bulk_modified := m\<rparr>\<rparr>) = current_song w"
  by (simp_all add: current_song_def)

lemma inv_bulk [simp]:
  "playlist_inv (w\<lparr>w_list := (w_list w)\<lparr>pl_bulk_edit := b\<rparr>\<rparr>) = playlist_inv w"
  "playlist_inv (w\<lparr>w_list := (w_list w)\<lparr>pl_bulk_edit := b, pl_bulk_modified := m\<rparr>\<rparr>) = playlist_inv w"
  by (simp_all add: playlist_inv_def pl_ready_def pl_base_def queued_ptr_def Let_def)

text \<open>What both \<open>SetRepeat\<close> and \<open>SetSingle\<close> do once the flag has been changed.\<close>

definition border_update :: "'e player_env \<Rightarrow> 'e world \<Rightarrow> 'e world option" where
  "border_update env w =
     do {
       let w = w\<lparr>w_pc := pc_SetBorderPause env (q_single (w_queue w) \<and> \<not> q_repeat (w_queue w)) (w_pc w)\<rparr>;
       queued_song \<leftarrow> GetQueuedSong w;
       w \<leftarrow> UpdateQueuedSong env queued_song w;
       Some (notify IDLE_OPTIONS w) }"

lemma SetRepeat_eq: "SetRepeat env b w = (if b = q_repeat (w_queue w) then Some w
    else border_update env (set_queue ((w_queue w)\<lparr>q_repeat := b\<rparr>) w))"
  by (simp add: SetRepeat_def border_update_def Let_def)

lemma SetSingle_eq: "SetSingle env b w = (if b = q_single (w_queue w) then Some w
    else border_update env (set_queue ((w_queue w)\<lparr>q_single := b\<rparr>) w))"
  by (simp add: SetSingle_def border_update_def Let_def)

context player_thread
begin

lemma border_update_ok:
  assumes pc: "ok (w_pc w)" and inv: "playlist_inv w"
  shows "\<exists>w'. border_update env w = Some w' \<and> ok (w_pc w') \<and> playlist_inv w' \<and>
    keys (w_queue w') = keys (w_queue w) \<and> current_song w' = current_song w \<and>
    pc_border_pause (w_pc w') = (q_single (w_queue w') \<and> \<not> q_repeat (w_queue w'))"
proof -
  let ?b = "q_single (w_queue w) \<and> \<not> q_repeat (w_queue w)"
  let ?w = "w\<lparr>w_pc := pc_SetBorderPause env ?b (w_pc w)\<rparr>"
  have i: "playlist_inv ?w"
    using SetBorderPause_ok(2)[OF pc, of ?b] by (intro inv_pc(1)[OF inv]) (auto simp: quiet_def)
  have o: "ok (w_pc ?w)" using SetBorderPause_ok(1)[OF pc] by simp
  obtain w' where w': "UpdateQueuedSong env (queued_ptr ?w) ?w = Some w'" "ok (w_pc w')" "playlist_inv w'" "same_list ?w w'"
    using UpdateQueuedSong_inv[OF o i] by blast
  have "border_update env w = Some (notify IDLE_OPTIONS w')"
    unfolding border_update_def Let_def GetQueuedSong_ok(1)[OF i] Option.bind.simps w'(1) by (rule refl)
  then show ?thesis
    using w' same_list_keys[OF w'(4)] by (simp add: same_list_def pc_SetBorderPause_def)
qed

lemma SetRepeat_ok:
  assumes pc: "ok (w_pc w)" and inv: "playlist_inv w"
  shows "\<exists>w'. SetRepeat env b w = Some w' \<and> ok (w_pc w') \<and> playlist_inv w' \<and>
    keys (w_queue w') = keys (w_queue w) \<and> current_song w' = current_song w"
proof (cases "b = q_repeat (w_queue w)")
  case False
  let ?w = "set_queue ((w_queue w)\<lparr>q_repeat := b\<rparr>) w"
  have f: "playlist_inv ?w" "current_song ?w = current_song w" "keys (w_queue ?w) = keys (w_queue w)"
    using flags_inv[OF inv, of "(w_queue w)\<lparr>q_repeat := b\<rparr>" b] by simp_all
  have o: "ok (w_pc ?w)" using pc by simp
  show ?thesis
    unfolding SetRepeat_eq if_not_P[OF False] using border_update_ok[OF o f(1)] f(2,3) by metis
qed (use assms in \<open>simp add: SetRepeat_eq\<close>)

lemma SetSingle_ok:
  assumes pc: "ok (w_pc w)" and inv: "playlist_inv w"
  shows "\<exists>w'. SetSingle env b w = Some w' \<and> ok (w_pc w') \<and> playlist_inv w' \<and>
    keys (w_queue w') = keys (w_queue w) \<and> current_song w' = current_song w"
proof (cases "b = q_single (w_queue w)")
  case False
  let ?w = "set_queue ((w_queue w)\<lparr>q_single := b\<rparr>) w"
  have f: "playlist_inv ?w" "current_song ?w = current_song w" "keys (w_queue ?w) = keys (w_queue w)"
    using flags_inv[OF inv, of "(w_queue w)\<lparr>q_single := b\<rparr>" b] by simp_all
  have o: "ok (w_pc ?w)" using pc by simp
  show ?thesis
    unfolding SetSingle_eq if_not_P[OF False] using border_update_ok[OF o f(1)] f(2,3) by metis
qed (use assms in \<open>simp add: SetSingle_eq\<close>)

lemma SetRandom_ok:
  assumes pc: "ok (w_pc w)" and inv: "playlist_inv w" and new: "b \<noteq> q_random (w_queue w)"
  obtains w' where "SetRandom env b w = Some w'" "ok (w_pc w')" "playlist_inv w'"
    "keys (w_queue w') = keys (w_queue w)" "q_random (w_queue w') = b" "pl_playing (w_list w') = pl_playing (w_list w)"
    "pl_playing (w_list w) \<or> \<not> b \<Longrightarrow> current_song w' = current_song w"
proof -
  let ?q = "w_queue w" and ?c = "pl_current (w_list w)"
  let ?qb = "?q\<lparr>q_random := b\<rparr>"
  let ?w0 = "set_queue ?qb w"
  let ?cp = "q_order ?q ! nat ?c"
  note d = playlist_invD[OF inv]
  have k: "nat ?c < q_length ?q" "?cp < q_length ?q" if "?c \<ge> 0"
    using d(4) that order_bound[OF d(1), of "nat ?c"] by simp_all
  have main: "\<exists>q1 c. (if q_random (w_queue ?w0)
           then do {
             current_position \<leftarrow> (if pl_playing (w_list ?w0) then GetCurrentPosition ?w0 else Some (-1));
             let w = set_queue (ShuffleOrder (w_queue ?w0)) ?w0;
             Some (if current_position \<ge> 0
                   then set_current 0 (set_queue (SwapOrders (w_queue w) 0
                          (PositionToOrder (w_queue w) (nat current_position))) w)
                   else set_current (-1) w) }
           else playlist_order ?w0) = Some (set_current c (set_queue q1 w)) \<and>
      queue_inv q1 \<and> q_max_length q1 = q_max_length ?q \<and> keys q1 = keys ?q \<and> q_random q1 = b \<and>
      q_length q1 = q_length ?q \<and> -1 \<le> c \<and> c < int (q_length q1) \<and> (pl_playing (w_list w) \<longrightarrow> 0 \<le> c) \<and>
      (pl_playing (w_list w) \<or> \<not> b \<longrightarrow> (c \<ge> 0 \<longleftrightarrow> ?c \<ge> 0) \<and> (?c \<ge> 0 \<longrightarrow> order_song q1 c = order_song ?q ?c))"
  proof (cases b)
    case True
    have i0: "queue_inv ?qb" using d(1) True by (simp add: queue_inv_def ids_match_def orders_def)
    have r0: "q_random ?qb" using True by simp
    note sh = ShuffleOrder_correct[OF i0 r0] and f = reordered_fields[OF ShuffleOrder_correct(3)[OF i0 r0]]
    let ?s = "ShuffleOrder ?qb"
    have ks: "keys ?s = keys ?q" using f(10) by (simp add: keys_def)
    have rs: "q_random ?s" using f(4) r0 by simp
    show ?thesis
    proof (cases "pl_playing (w_list w)")
      case False
      have "-1 < int (q_length ?s)" by linarith
      then show ?thesis
        using True False sh(1) f ks rs
        by (intro exI[of _ ?s] exI[of _ "-1"]) (simp add: Let_def)
    next
      case playing: True
      let ?o = "PositionToOrder ?s ?cp"
      have c0: "?c \<ge> 0" using d(6)[OF playing] .
      have g: "GetCurrentPosition ?w0 = Some (int ?cp)"
        using c0 d(4) by (simp add: GetCurrentPosition_def OrderToPosition_def)
      have o: "?o < q_length ?s" "q_order ?s ! ?o = ?cp" "0 < q_length ?s"
        using order_of_position[OF sh(1), of ?cp] k[OF c0] f(2) by auto
      let ?q1 = "SwapOrders ?s 0 ?o"
      note so = SwapOrders_correct[OF sh(1) rs o(3,1)]
      have fs: "q_max_length ?q1 = q_max_length ?q" "q_random ?q1" "q_length ?q1 = q_length ?q" "q_items ?q1 = q_items ?q"
        using f rs by (simp_all add: SwapOrders_def)
      have "q_order ?q1 ! 0 = ?cp"
        using o sh(1) by (simp add: SwapOrders_def nth_array_swap queue_inv_def)
      then have "order_song ?q1 0 = order_song ?q ?c"
        unfolding order_song_def GetOrderItem_def OrderToPosition_def fs(4) by simp
      then show ?thesis
        using True playing so fs ks g c0 o(3) f(2)
        by (intro exI[of _ ?q1] exI[of _ 0]) (simp add: Let_def)
    qed
  next
    case False
    have rq: "q_random (w_queue w)" using False new by blast
    have "queue_inv (?qb\<lparr>q_random := True\<rparr>)" using d(1) rq by (simp add: queue_inv_def ids_match_def orders_def)
    note ro = RestoreOrder_correct[OF this]
    let ?q1 = "RestoreOrder ?qb" and ?c1 = "if ?c \<ge> 0 then int ?cp else ?c"
    have k1: "keys ?q1 = keys ?q" using ro(3) by (simp add: keys_def)
    have os: "order_song ?q1 ?c1 = order_song ?q ?c" if c0: "?c \<ge> 0"
    proof -
      have "q_order ?q1 ! ?cp = ?cp"
        using ro(2,4) k[OF c0] nth_orders[of ?cp ?q1] by simp
      then show ?thesis using c0 ro(6) by (simp add: order_song_def GetOrderItem_def OrderToPosition_def)
    qed
    have "playlist_order ?w0 = Some (set_current ?c1 (set_queue ?q1 w))"
      using d(4) by (simp add: playlist_order_def OrderToPosition_def set_current_def set_queue_def)
    then show ?thesis
      using False ro k k1 os d(3,4,6)
      by (intro exI[of _ ?q1] exI[of _ ?c1]) auto
  qed
  then obtain q1 c where q1: "(if q_random (w_queue ?w0)
           then do {
             current_position \<leftarrow> (if pl_playing (w_list ?w0) then GetCurrentPosition ?w0 else Some (-1));
             let w = set_queue (ShuffleOrder (w_queue ?w0)) ?w0;
             Some (if current_position \<ge> 0
                   then set_current 0 (set_queue (SwapOrders (w_queue w) 0
                          (PositionToOrder (w_queue w) (nat current_position))) w)
                   else set_current (-1) w) }
           else playlist_order ?w0) = Some (set_current c (set_queue q1 w))"
      "queue_inv q1" "q_max_length q1 = q_max_length ?q" "keys q1 = keys ?q" "q_random q1 = b"
      "-1 \<le> c" "c < int (q_length q1)" "pl_playing (w_list w) \<Longrightarrow> 0 \<le> c"
      "pl_playing (w_list w) \<or> \<not> b \<longrightarrow> (c \<ge> 0 \<longleftrightarrow> ?c \<ge> 0) \<and> (?c \<ge> 0 \<longrightarrow> order_song q1 c = order_song ?q ?c)"
    by blast
  have e: "\<forall>e \<in> entries q1. e \<in> entries ?q \<or> Some (fst e) \<noteq> queued_ptr w \<and> DupDetached (snd e) = snd e"
    using entries_keys[OF q1(4)] by blast
  have ready: "pl_ready (queued_ptr w) (set_current c (set_queue q1 w))"
    by (rule ready_edit[OF playlist_invD(8)[OF inv] q1(2,3) e q1(6,7,8)])
  obtain w1 where w1: "UpdateQueuedSong env (queued_ptr w) (set_current c (set_queue q1 w)) = Some w1" "ok (w_pc w1)"
    "playlist_inv w1" "same_list (set_current c (set_queue q1 w)) w1"
    using UpdateQueuedSong_ok[OF _ ready] pc by auto
  have eq: "SetRandom env b w = Some (notify IDLE_OPTIONS w1)"
    unfolding SetRandom_def if_not_P[OF new] GetQueuedSong_ok(1)[OF inv] Option.bind.simps Let_def q1(1)[unfolded Let_def] w1(1)
    by (rule refl)
  have fr: "q_random (w_queue w1) = b" "pl_playing (w_list w1) = pl_playing (w_list w)"
    "current_song w1 = (if c \<ge> 0 then Some (order_song q1 c) else None)"
    using w1(4) q1(5) by (simp_all add: same_list_def current_song_def)
  have "current_song w1 = current_song w" if "pl_playing (w_list w) \<or> \<not> b"
    using q1(9) that unfolding fr(3) by (simp add: current_song_def)
  moreover have "keys (w_queue w1) = keys ?q" using same_list_keys[OF w1(4)] q1(4) by simp
  ultimately show thesis using that[OF eq] w1(2,3) fr(1,2) by simp
qed

lemma SetRandom_total:
  assumes pc: "ok (w_pc w)" and inv: "playlist_inv w"
  shows "\<exists>w'. SetRandom env b w = Some w' \<and> ok (w_pc w') \<and> playlist_inv w'"
proof (cases "b = q_random (w_queue w)")
  case False
  show ?thesis by (rule SetRandom_ok[OF pc inv False]) blast
qed (use assms in \<open>simp add: SetRandom_def\<close>)

lemma CommitBulk_ok:
  assumes pc: "ok (w_pc w)" and inv: "playlist_inv w" and bulk: "pl_bulk_edit (w_list w)"
  shows "\<exists>w'. CommitBulk env w = Some w' \<and> ok (w_pc w') \<and> playlist_inv w' \<and> keys (w_queue w') = keys (w_queue w) \<and>
    current_song w' = current_song w"
proof -
  let ?w = "w\<lparr>w_list := (w_list w)\<lparr>pl_bulk_edit := False\<rparr>\<rparr>"
  have i: "playlist_inv ?w" "current_song ?w = current_song w"
    using inv by simp_all
  have o: "ok (w_pc ?w)" using pc by simp
  have eq: "CommitBulk env w = (if \<not> pl_bulk_modified (w_list w) then Some ?w
      else do { w \<leftarrow> (if pl_queued (w_list w) < 0 then UpdateQueuedSong env None ?w else Some ?w); Some (OnModified w) })"
    using bulk by (simp add: CommitBulk_def Let_def)
  show ?thesis
  proof (cases "pl_bulk_modified (w_list w)")
    case False
    then show ?thesis using eq i o by simp
  next
    case True
    show ?thesis
    proof (cases "pl_queued (w_list w) < 0")
      case q: True
      then have "queued_ptr ?w = None" by (simp add: queued_ptr_def)
      then obtain w1 where w1: "UpdateQueuedSong env None ?w = Some w1" "ok (w_pc w1)" "playlist_inv w1" "same_list ?w w1"
        using UpdateQueuedSong_inv[OF o i(1)] by auto
      then show ?thesis
        using eq True q OnModified_ok[OF w1(3)] same_list_songs[OF w1(4)] i(2) by (simp add: same_songs_def)
    next
      case False
      then show ?thesis using eq True OnModified_ok[OF i(1)] i(2) o by (simp add: same_songs_def)
    qed
  qed
qed

lemma AppendSong_total:
  assumes "ok (w_pc w)" "playlist_inv w"
  shows "\<exists>r i w'. AppendSong env s w = Some (r, i, w') \<and> ok (w_pc w') \<and> playlist_inv w'"
proof (cases "IsFull (w_queue w)")
  case False
  show ?thesis by (rule AppendSong_ok[OF assms False]) blast
qed (use assms in \<open>simp add: AppendSong_full\<close>)

lemma SwapPositions_total:
  assumes "ok (w_pc w)" "playlist_inv w"
  shows "\<exists>r w'. playlist_SwapPositions env a b w = Some (r, w') \<and> ok (w_pc w') \<and> playlist_inv w'"
proof (cases "a < q_length (w_queue w) \<and> b < q_length (w_queue w)")
  case True
  show ?thesis by (rule playlist_SwapPositions_ok[OF assms]) (use True in blast)+
next
  case False
  then show ?thesis using assms by (auto simp: playlist_SwapPositions_def IsValidPosition_def)
qed

lemma SetPriorityRange_total:
  assumes "ok (w_pc w)" "playlist_inv w"
  shows "\<exists>r w'. playlist_SetPriorityRange env start fin pr w = Some (r, w') \<and> ok (w_pc w') \<and> playlist_inv w'"
proof -
  define fin' where "fin' = (if fin > q_length (w_queue w) then q_length (w_queue w) else fin)"
  consider "start \<ge> q_length (w_queue w)" | "start < q_length (w_queue w)" "start \<ge> fin'" | "start < fin'"
    by linarith
  then show ?thesis
  proof cases
    case 1
    then show ?thesis using assms by (simp add: playlist_SetPriorityRange_def)
  next
    case 2
    then have "playlist_SetPriorityRange env start fin pr w = Some (PR_SUCCESS, w)"
      unfolding playlist_SetPriorityRange_def Let_def fin'_def[symmetric] by simp
    then show ?thesis using assms by simp
  next
    case 3
    have r: "fin' \<le> q_length (w_queue w)" by (simp add: fin'_def)
    have "playlist_SetPriorityRange env start fin pr w = playlist_SetPriorityRange env start fin' pr w"
      by (simp add: playlist_SetPriorityRange_def fin'_def Let_def)
    moreover have "\<exists>w'. playlist_SetPriorityRange env start fin' pr w = Some (PR_SUCCESS, w') \<and> ok (w_pc w') \<and> playlist_inv w'"
      by (rule playlist_SetPriorityRange_ok[OF assms 3 r]) blast
    ultimately show ?thesis by auto
  qed
qed

end

section \<open>Updates of the database\<close>

lemma UpdatePlaylistSong_alike:
  assumes "UpdatePlaylistSong db s = Some s'" "DupDetached s = s"
  shows "alike s s'" "DupDetached s' = s'"
proof -
  obtain orig :: song where o: "s' = (case song_tag orig of None \<Rightarrow> s\<lparr>song_mtime := song_mtime orig\<rparr>
      | Some t \<Rightarrow> ReplaceTag (s\<lparr>song_mtime := song_mtime orig\<rparr>) t)"
  proof (cases "db (song_uri s)")
    case None
    then show thesis using assms(1) by (simp add: UpdatePlaylistSong_def split: if_splits)
  next
    case (Some orig)
    then show thesis using assms(1) that[of orig]
      by (simp add: UpdatePlaylistSong_def Let_def split: if_splits)
  qed
  have m: "alike s (s\<lparr>song_mtime := song_mtime orig\<rparr>)" by (rule alike_mtime)
  show "alike s s'" unfolding o using m alike_trans[OF m alike_ReplaceTag] by (cases "song_tag orig") simp_all
  show "DupDetached s' = s'" unfolding o
    using detached_mtime[OF assms(2)] detached_tag by (cases "song_tag orig") auto
qed

lemma DatabaseModified_ok:
  assumes inv: "playlist_inv w"
  shows "playlist_inv (DatabaseModified database w)" "w_pc (DatabaseModified database w) = w_pc w"
    "current_song (DatabaseModified database w) = current_song w"
proof -
  have "playlist_inv (DatabaseModified database w) \<and> w_pc (DatabaseModified database w) = w_pc w \<and>
    current_song (DatabaseModified database w) = current_song w"
  proof (cases database)
    case None
    then show ?thesis using inv by (simp add: DatabaseModified_def)
  next
    case (Some db)
    let ?n = "q_length (w_queue w)"
    let ?f = "\<lambda>i (q, modified). case UpdatePlaylistSong db (Get q i) of
         None \<Rightarrow> (q, modified)
       | Some s \<Rightarrow> (ModifyAtPosition (q\<lparr>q_items := (q_items q)[i := (q_items q ! i)\<lparr>item_song := s\<rparr>]\<rparr>) i, True)"
    let ?P = "\<lambda>p. playlist_inv (set_queue (fst p) w) \<and> current_song (set_queue (fst p) w) = current_song w \<and>
      q_length (fst p) = ?n"
    have loop: "?P (fold ?f [0..<?n] (w_queue w, False))"
    proof (rule fold_invariant[where P = ?P])
      fix i and p :: "queue \<times> bool" assume i: "i \<in> set [0..<?n]" and P: "?P p"
      obtain q m where p: "p = (q, m)" by (cases p)
      let ?w = "set_queue q w"
      have inv': "playlist_inv ?w" and cs: "current_song ?w = current_song w" and len: "q_length q = ?n" using P p by simp_all
      have iq: "i < q_length (w_queue ?w)" using i len by simp
      note d = playlist_invD[OF inv']
      show "?P (?f i p)"
      proof (cases "UpdatePlaylistSong db (Get q i)")
        case None
        then show ?thesis using P p by simp
      next
        case up: (Some s)
        have "DupDetached (Get q i) = Get q i"
          using d(2) nth_entries[OF d(1) iq] by (force simp: detached_def Get_def)
        from UpdatePlaylistSong_alike[OF up this] have s: "alike (Get (w_queue ?w) i) s" "DupDetached s = s" by simp_all
        have "Get (w_queue ?w) i = Get q i" by simp
        note ps = put_song_inv[OF inv' iq s]
        have i2: "i < q_length (w_queue (set_queue (put_song i s q) w))" using iq by (simp add: put_song_def)
        have w2: "playlist_inv (set_queue (put_song i s q) w)" using ps(1) by simp
        note mi = ModifyAtPosition_inv[OF w2 i2]
        show ?thesis
          using up mi ps(2) cs len by (simp add: p put_song_def[symmetric]) (simp add: put_song_def ModifyAtPosition_def)
      qed
    qed (use inv in simp)
    obtain q m where qm: "fold ?f [0..<?n] (w_queue w, False) = (q, m)" by (cases "fold ?f [0..<?n] (w_queue w, False)")
    have q: "playlist_inv (set_queue q w)" "current_song (set_queue q w) = current_song w" using loop qm by simp_all
    have eq: "DatabaseModified database w = (if m then notify IDLE_PLAYLIST (set_queue (IncrementVersion q) w) else set_queue q w)"
      unfolding DatabaseModified_def Some option.case(2) qm Let_def prod.case by simp
    show ?thesis
      using q IncrementVersion_inv[OF q(1)] by (simp add: eq)
  qed
  then show "playlist_inv (DatabaseModified database w)" "w_pc (DatabaseModified database w) = w_pc w"
    "current_song (DatabaseModified database w) = current_song w" by blast+
qed

section \<open>The playlist as a transition system\<close>

datatype request =
  RqClear | RqBeginBulk | RqCommitBulk | RqAppendSong song | RqAppendFile "string \<Rightarrow> song option" string
| RqAppendURI "(string \<Rightarrow> song option) option" string | RqDeletePosition nat | RqDeleteRange nat nat
| RqDeleteId nat | RqDeleteSong song | RqSwapPositions nat nat | RqSwapIds nat nat
| RqSetPriorityRange nat nat "8 word" | RqSetPriorityId nat "8 word" | RqMoveRange nat nat int | RqMoveId nat int
| RqShuffle nat nat | RqStop | RqPlayPosition int | RqPlayId int | RqPlayNext | RqPlayPrevious
| RqSeekSongPosition nat real | RqSeekSongId nat real | RqSeekCurrent real bool
| RqSetRepeat bool | RqSetSingle bool | RqSetConsume bool | RqSetRandom bool
| RqSyncWithPlayer | RqTagModified song | RqDatabaseModified "(string \<Rightarrow> song option) option" | RqPlayerRuns

fun perform :: "'e player_env \<Rightarrow> request \<Rightarrow> 'e world \<Rightarrow> 'e world option" where
  "perform env RqClear w = playlist_Clear env w"
| "perform env RqBeginBulk w = BeginBulk w"
| "perform env RqCommitBulk w = CommitBulk env w"
| "perform env (RqAppendSong s) w = map_option (snd \<circ> snd) (AppendSong env s w)"
| "perform env (RqAppendFile load path) w = map_option (snd \<circ> snd) (AppendFile env load path w)"
| "perform env (RqAppendURI db uri) w = map_option (snd \<circ> snd) (AppendURI env db uri w)"
| "perform env (RqDeletePosition p) w = map_option snd (playlist_DeletePosition env p w)"
| "perform env (RqDeleteRange a b) w = map_option snd (DeleteRange env a b w)"
| "perform env (RqDeleteId i) w = map_option snd (DeleteId env i w)"
| "perform env (RqDeleteSong s) w = DeleteSong env s w"
| "perform env (RqSwapPositions a b) w = map_option snd (playlist_SwapPositions env a b w)"
| "perform env (RqSwapIds a b) w = map_option snd (SwapIds env a b w)"
| "perform env (RqSetPriorityRange a b pr) w = map_option snd (playlist_SetPriorityRange env a b pr w)"
| "perform env (RqSetPriorityId i pr) w = map_option snd (SetPriorityId env i pr w)"
| "perform env (RqMoveRange a b to) w = map_option snd (playlist_MoveRange env a b to w)"
| "perform env (RqMoveId i to) w = map_option snd (MoveId env i to w)"
| "perform env (RqShuffle a b) w = Shuffle env a b w"
| "perform env RqStop w = playlist_Stop env w"
| "perform env (RqPlayPosition p) w = map_option snd (PlayPosition env p w)"
| "perform env (RqPlayId i) w = map_option snd (PlayId env i w)"
| "perform env RqPlayNext w = PlayNext env w"
| "perform env RqPlayPrevious w = PlayPrevious env w"
| "perform env (RqSeekSongPosition p t) w = map_option snd (SeekSongPosition env p t w)"
| "perform env (RqSeekSongId i t) w = map_option snd (SeekSongId env i t w)"
| "perform env (RqSeekCurrent t rel) w = map_option snd (SeekCurrent env t rel w)"
| "perform env (RqSetRepeat b) w = SetRepeat env b w"
| "perform env (RqSetSingle b) w = SetSingle env b w"
| "perform env (RqSetConsume b) w = Some (SetConsume b w)"
| "perform env (RqSetRandom b) w = SetRandom env b w"
| "perform env RqSyncWithPlayer w = SyncWithPlayer env w"
| "perform env (RqTagModified s) w = TagModified s w"
| "perform env (RqDatabaseModified db) w = Some (DatabaseModified db w)"
| "perform env RqPlayerRuns w = Some (w\<lparr>w_pc := Lock env (w_pc w)\<rparr>)"

text \<open>
  The requests that the lemmas cover: arguments are machine integers, bulk edits are
  bracketed, and \<open>MoveRange\<close> moves a range that is not inverted, relative to the current song
  one song at most.
\<close>

fun legal :: "request \<Rightarrow> 'e world \<Rightarrow> bool" where
  "legal RqBeginBulk w = (\<not> pl_bulk_edit (w_list w))"
| "legal RqCommitBulk w = pl_bulk_edit (w_list w)"
| "legal (RqMoveRange a b to) w = (a \<le> b \<and> b < 2 ^ 32 \<and> to < 2 ^ 31 \<and> (0 \<le> to \<or> b \<le> Suc a))"
| "legal (RqMoveId i to) w = (to < 2 ^ 31)"
| "legal (RqShuffle a b) w = (a + 1 < 2 ^ 32)"
| "legal (RqPlayPosition p) w = (- (2 ^ 31) \<le> p \<and> p < 2 ^ 31)"
| "legal _ w = True"

fun is_seek :: "request \<Rightarrow> bool" where
  "is_seek (RqSeekSongPosition _ _) = True"
| "is_seek (RqSeekSongId _ _) = True"
| "is_seek (RqSeekCurrent _ _) = True"
| "is_seek _ = False"

context player_thread
begin

lemma perform_total:
  assumes pc: "ok (w_pc w)" and inv: "playlist_inv w" and legal: "legal r w" and ns: "\<not> is_seek r"
  shows "\<exists>w'. perform env r w = Some w' \<and> ok (w_pc w') \<and> playlist_inv w'"
proof -
  note q = playlist_invD(1)[OF inv]
  have append: "\<exists>w'. map_option (snd \<circ> snd) (AppendSong env s w) = Some w' \<and> ok (w_pc w') \<and> playlist_inv w'" for s
    using AppendSong_total[OF pc inv, of s] by auto
  have idp: "nat (IdToPosition (w_queue w) i) < 2 ^ 31" if "\<not> IdToPosition (w_queue w) i < 0" for i
    using IdToPosition_spec(1)[OF q that] playlist_inv_length[OF inv] by simp
  show ?thesis
  proof (cases r)
    case RqClear
    then show ?thesis using playlist_Clear_ok[OF pc inv] by auto
  next
    case RqBeginBulk
    then show ?thesis using assms by (simp add: BeginBulk_def)
  next
    case RqCommitBulk
    then show ?thesis using CommitBulk_ok[OF pc inv] legal by auto
  next
    case (RqAppendSong s)
    then show ?thesis using append[of s] by simp
  next
    case (RqAppendFile load path)
    show ?thesis
      using append pc inv by (cases "load path") (simp_all add: RqAppendFile AppendFile_def)
  next
    case (RqAppendURI db uri)
    show ?thesis
    proof (cases db)
      case None
      then show ?thesis using append[of "NewRemote uri"] pc inv by (simp add: RqAppendURI AppendURI_def)
    next
      case (Some d)
      then show ?thesis using append pc inv by (cases "d uri") (simp_all add: RqAppendURI AppendURI_def)
    qed
  next
    case (RqDeletePosition p)
    show ?thesis by (rule playlist_DeletePosition_total[OF pc inv, of p]) (simp add: RqDeletePosition)
  next
    case (RqDeleteRange a b)
    then show ?thesis using DeleteRange_total[OF pc inv, of a b] by auto
  next
    case (RqDeleteId i)
    show ?thesis
      by (rule playlist_DeletePosition_total[OF pc inv, of "nat (IdToPosition (w_queue w) i)"])
        (use assms in \<open>simp add: RqDeleteId DeleteId_def Let_def\<close>)
  next
    case (RqDeleteSong s)
    then show ?thesis using DeleteSong_ok[OF pc inv, of s] by auto
  next
    case (RqSwapPositions a b)
    then show ?thesis using SwapPositions_total[OF pc inv, of a b] by auto
  next
    case (RqSwapIds a b)
    then show ?thesis
      using SwapPositions_total[OF pc inv, of "nat (IdToPosition (w_queue w) a)" "nat (IdToPosition (w_queue w) b)"] pc inv
      by (cases "IdToPosition (w_queue w) a < 0 \<or> IdToPosition (w_queue w) b < 0") (auto simp: SwapIds_def Let_def)
  next
    case (RqSetPriorityRange a b pr)
    then show ?thesis using SetPriorityRange_total[OF pc inv, of a b pr] by auto
  next
    case (RqSetPriorityId i pr)
    let ?p = "nat (IdToPosition (w_queue w) i)"
    show ?thesis
      using SetPriorityRange_total[OF pc inv, of ?p "?p + 1" pr] pc inv
      by (cases "IdToPosition (w_queue w) i < 0") (auto simp: RqSetPriorityId SetPriorityId_def Let_def)
  next
    case (RqMoveRange a b to)
    then show ?thesis using playlist_MoveRange_total[OF pc inv, of a b to] legal by auto
  next
    case (RqMoveId i to)
    let ?p = "IdToPosition (w_queue w) i"
    show ?thesis
    proof (cases "?p < 0")
      case False
      have "nat ?p + 1 < 2 ^ 32" using idp[OF False] by simp
      then have "\<exists>r w'. playlist_MoveRange env (nat ?p) (nat ?p + 1) to w = Some (r, w') \<and> ok (w_pc w') \<and> playlist_inv w'"
        using legal RqMoveId by (intro playlist_MoveRange_total[OF pc inv]) auto
      then show ?thesis using False RqMoveId by (auto simp: MoveId_def Let_def)
    qed (use assms RqMoveId in \<open>simp add: MoveId_def\<close>)
  next
    case (RqShuffle a b)
    then show ?thesis using Shuffle_total[OF pc inv, of a b] legal by simp
  next
    case RqStop
    show ?thesis by (rule playlist_Stop_ok[OF pc inv]) (simp add: RqStop)
  next
    case (RqPlayPosition p)
    have b: "- (2 ^ 31) \<le> p" "p < 2 ^ 31" using legal RqPlayPosition by simp_all
    show ?thesis by (rule PlayPosition_ok[OF pc inv b]) (simp add: RqPlayPosition)
  next
    case (RqPlayId i)
    then show ?thesis using PlayId_ok[OF pc inv, of i] by auto
  next
    case RqPlayNext
    show ?thesis by (rule PlayNext_ok[OF pc inv]) (simp add: RqPlayNext)
  next
    case RqPlayPrevious
    then show ?thesis using PlayPrevious_ok[OF pc inv] by auto
  next
    case (RqSeekSongPosition p t)
    then show ?thesis using ns by simp
  next
    case (RqSeekSongId i t)
    then show ?thesis using ns by simp
  next
    case (RqSeekCurrent t rel)
    then show ?thesis using ns by simp
  next
    case (RqSetRepeat b)
    then show ?thesis using SetRepeat_ok[OF pc inv, of b] by auto
  next
    case (RqSetSingle b)
    then show ?thesis using SetSingle_ok[OF pc inv, of b] by auto
  next
    case (RqSetConsume b)
    then show ?thesis using SetConsume_ok[OF inv, of b] pc by simp
  next
    case (RqSetRandom b)
    then show ?thesis using SetRandom_total[OF pc inv, of b] by auto
  next
    case RqSyncWithPlayer
    then show ?thesis using SyncWithPlayer_ok[OF pc inv] by auto
  next
    case (RqTagModified s)
    then show ?thesis using TagModified_ok[OF inv, of s] pc by auto
  next
    case (RqDatabaseModified db)
    then show ?thesis using DatabaseModified_ok[OF inv, of db] pc by simp
  next
    case RqPlayerRuns
    then show ?thesis using inv_Lock[OF pc inv] Lock_ok(1)[OF pc] by simp
  qed
qed

lemma perform_ok:
  assumes pc: "ok (w_pc w)" and inv: "playlist_inv w" and legal: "legal r w" and run: "perform env r w = Some w'"
  shows "ok (w_pc w') \<and> playlist_inv w'"
proof (cases "is_seek r")
  case False
  then show ?thesis using perform_total[OF pc inv legal] run by auto
next
  case True
  then consider p t where "r = RqSeekSongPosition p t" | i t where "r = RqSeekSongId i t" | t rel where "r = RqSeekCurrent t rel"
    by (cases r) auto
  then show ?thesis
  proof cases
    case (1 p t)
    then show ?thesis using run SeekSongPosition_ok(1,2)[OF pc inv, of p t] by auto
  next
    case (2 i t)
    then show ?thesis using run SeekSongId_ok[OF pc inv, of i t] by auto
  next
    case (3 t rel)
    then show ?thesis using run SeekCurrent_ok[OF pc inv, of t rel] by auto
  qed
qed

end

inductive reachable :: "'e player_env \<Rightarrow> ('e player_control_scheme \<Rightarrow> bool) \<Rightarrow> 'e world \<Rightarrow> bool"
  for env :: "'e player_env" and ok :: "'e player_control_scheme \<Rightarrow> bool" where
  fresh: "0 < m \<Longrightarrow> m < 2 ^ 31 \<Longrightarrow> ok pc \<Longrightarrow> pc_state pc = PS_STOP \<Longrightarrow>
    reachable env ok \<lparr>w_list = new_playlist m rs, w_pc = pc, w_idle = idle\<rparr>"
| request: "reachable env ok w \<Longrightarrow> legal r w \<Longrightarrow> perform env r w = Some w' \<Longrightarrow> reachable env ok w'"

inductive_cases reachable_cases: "reachable env ok w"

lemma new_playlist_inv:
  assumes "0 < m" "m < 2 ^ 31" "pc_state pc = PS_STOP"
  shows "playlist_inv \<lparr>w_list = new_playlist m rs, w_pc = pc, w_idle = idle\<rparr>"
  using assms new_Queue_correct[OF assms(1), of rs]
  by (simp add: playlist_inv_def pl_ready_def pl_base_def new_playlist_def detached_def entries_def new_Queue_def Let_def)

context player_thread
begin

lemma reachable_inv: "reachable env ok w \<Longrightarrow> ok (w_pc w) \<and> playlist_inv w"
proof (induction rule: reachable.induct)
  case (fresh m pc rs idle)
  then show ?case using new_playlist_inv by simp
next
  case (request w r w')
  then show ?case using perform_ok[of w r w'] by blast
qed

lemma reachable_progress:
  "reachable env ok w \<Longrightarrow> legal r w \<Longrightarrow> \<not> is_seek r \<Longrightarrow> \<exists>w'. perform env r w = Some w'"
  using reachable_inv perform_total by blast

end

end
