(* ===== verification/Player_Contract.thy ===== *)
theory Player_Contract
  imports Player_Loop Playlist_Requests
begin

text \<open>
  The beginning and the end of \<open>Run\<close>, the loop of \<open>player_task\<close>, and the contract of the player
  thread (locale \<open>player_thread\<close>), which the model of the thread fulfils: every command of the
  main thread except SEEK is answered, in every state of the thread and for every behaviour
  of the decoder and of the outputs.
\<close>

section \<open>The invariant of the thread\<close>

definition thread_ok :: "thread \<Rightarrow> bool" where
  "thread_ok t \<longleftrightarrow> pc_command t = PC_NONE \<and> \<not> th_failed t \<and>
     (case th_player t of None \<Rightarrow> stopped t \<and> pc_next_song t = None | Some py \<Rightarrow> playing t py)"

lemma thread_ok_cases:
  assumes "thread_ok t"
  obtains "th_player t = None" "stopped t" "pc_next_song t = None" "pc_state t = PS_STOP"
  | py where "th_player t = Some py" "playing t py" "pc_state t \<noteq> PS_STOP"
  using assms playingD(5) by (cases "th_player t") (auto simp: thread_ok_def stopped_def)

lemma thread_ok_playing: "playing t py \<Longrightarrow> pc_command t = PC_NONE \<Longrightarrow> \<not> th_failed t \<Longrightarrow> thread_ok t"
  using playingD(6)[of t py] by (simp add: thread_ok_def)

lemma thread_ok_stopped: "stopped t \<Longrightarrow> pc_next_song t = None \<Longrightarrow> pc_command t = PC_NONE \<Longrightarrow> \<not> th_failed t \<Longrightarrow> thread_ok t"
  by (simp add: thread_ok_def stopped_def)

lemma thread_ok_done: "done_in t t' \<Longrightarrow> \<not> th_failed t \<Longrightarrow> thread_ok t'"
  using thread_ok_playing by (auto simp: done_in_def)

lemma thread_ok_same:
  assumes "thread_ok t" "th_dc t' = th_dc t" "th_pipes t' = th_pipes t" "th_next_pipe t' = th_next_pipe t"
    "pc_command t' = pc_command t" "pc_next_song t' = pc_next_song t" "th_calls t' = th_calls t"
    "th_stack_format t' = th_stack_format t" "th_player t' = th_player t" "pc_state t' = pc_state t"
    "th_failed t' = th_failed t"
  shows "thread_ok t'"
  using assms playing_same_player[OF _ assms(2-10)]
  by (cases "th_player t") (simp_all add: thread_ok_def stopped_def)

section \<open>The beginning and the end of \<open>Run\<close>\<close>

lemma Run_finish_ok:
  assumes p: "playing t py" and cmd: "pc_command t \<noteq> PC_QUEUE" "pc_command t \<noteq> PC_SEEK"
  shows "\<exists>t'. Run_finish t = Some t' \<and> stopped t' \<and> fr t t' \<and> pc_next_song t' = None"
proof -
  note c = playingD(1)[OF p]
  obtain u where u: "StopDecoder t = Some u" "same_ctl t u" "dc_pipe (th_dc u) = None" "dc_IsIdle (th_dc u)"
    "dom (th_pipes u) = {py_pipe py}" "pipes_ok u"
    using StopDecoder_ok[OF coreD(1,2,4)[OF c]] by blast
  have up: "th_player u = Some py" using u(2) playingD(6)[OF p] by (simp add: same_ctl_def)
  have pp: "th_pipes u (py_pipe py) \<noteq> None" using u(5) by (metis domIff insertI1)
  let ?w = "u\<lparr>th_pipes := (th_pipes u)(py_pipe py \<mapsto> [], py_pipe py := None)\<rparr>"
  have w: "ClearAndDeletePipe u = Some ?w"
    using up pipe_Clear_ok[OF u(6) pp] by (simp add: ClearAndDeletePipe_def pipe_delete_def)
  have e: "th_pipes ?w = Map.empty" using u(5) by (auto simp: fun_eq_iff dom_def)
  have lw: "th_pipes (lock ?w) = Map.empty" "dc_IsIdle (th_dc (lock ?w))"
    using lock_idle[of ?w] lock_IsIdle[of ?w] u(4) e by simp_all
  let ?x = "(pc_ClearTaggedSong (lock ?w))\<lparr>pc_next_song := None\<rparr>"
  let ?r = "emit GE_PLAYLIST (?x\<lparr>pc_state := PS_STOP, th_player := None\<rparr>)"
  have n: "pc_next_song u = pc_next_song t" "pc_command u = pc_command t" using u(2) by (simp_all add: same_ctl_def)
  have q: "py_queued py \<or> pc_next_song t = None" using coreD(6)[OF c] cmd by auto
  have nn: "pc_next_song t = None \<Longrightarrow> pc_ClearTaggedSong (lock ?w) = ?x"
    by (rule player_control.equality) (simp_all add: pc_ClearTaggedSong_def n(1))
  have "Run_finish t = Some ?r"
  proof (cases "py_queued py")
    case True
    then obtain s where "pc_next_song t = Some s" using coreD(5)[OF c] by blast
    then show ?thesis using u(1) w up True n(1) by (simp add: Run_finish_def Let_def pc_ClearTaggedSong_def)
  next
    case False
    then have "pc_ClearTaggedSong (lock ?w) = ?x" using q nn by simp
    then show ?thesis using u(1) w up False unfolding Run_finish_def Let_def by simp
  qed
  moreover have "stopped ?r"
    using lw u(3) c u(2) by (simp add: stopped_def emit_def pc_ClearTaggedSong_def core_def core0_def same_ctl_def)
  moreover have "fr t ?r" using u(2) by (simp add: fr_def same_ctl_def emit_def pc_ClearTaggedSong_def)
  ultimately show ?thesis by (intro exI[of _ ?r]) (simp add: emit_def)
qed

lemma Run_start_ok:
  assumes st: "stopped t" and n: "pc_next_song t = Some s" and cmd: "pc_command t = PC_QUEUE \<or> pc_command t = PC_SEEK"
    and f: "\<not> th_failed t"
  shows "\<exists>t'. Run_start t = Some t' \<and> thread_ok t' \<and> pc_next_song t' = None \<and> pc_border_pause t' = pc_border_pause t"
proof -
  let ?p = "th_next_pipe t"
  let ?py = "new_player ?p (th_stack_format t)"
  let ?u = "t\<lparr>th_pipes := (th_pipes t)(?p \<mapsto> []), th_next_pipe := Suc ?p, th_player := Some ?py\<rparr>"
  have e: "th_pipes t = Map.empty" and dn: "dc_pipe (th_dc t) = None" "dc_IsIdle (th_dc t)" and ps: "pc_state t = PS_STOP"
    using st by (simp_all add: stopped_def)
  have u: "th_pipes ?u ?p = Some []" "pipes_ok ?u" "dc_IsIdle (th_dc ?u)"
    using dn e by (simp_all add: pipes_ok_def)
  have qd: "py_queued ?py" "py_song ?py = None" "py_pipe ?py = ?p" "\<not> py_paused ?py" by (simp_all add: new_player_def)
  let ?ms = "song_start_ms s + (if pc_command ?u = PC_SEEK then word_of_int (trunc (pc_seek_where ?u * 1000)) else 0)"
  obtain v where v: "dc_Start (DupDetached s) ?ms (song_end_ms s) ?p ?u = Some v" "same_ctl ?u v"
    "dc_pipe (th_dc v) = Some ?p" "dc_ok (th_dc v)" "th_pipes v = th_pipes ?u" "pipes_ok v"
    using dc_Start_ok[OF u] by blast
  have sd: "StartDecoder ?p ?u = Some v"
    using n v(1) qd by (simp add: StartDecoder_def Let_def)
  have dom: "dom (th_pipes v) = {?p}" using v(5) e by simp
  have cv: "core v ?py"
    using v(2,3,4,6) dom n st
    by (simp add: core_def core0_def same_ctl_def new_player_def stopped_def IsDecoderAtNextSong_def IsDecoderAtCurrentSong_def)
  have ctl: "pc_next_song v = Some s" "pc_command v = pc_command t" "pc_state v = PS_STOP" "pc_border_pause v = pc_border_pause t"
    "th_failed v = th_failed t"
    using v(2) n ps by (simp_all add: same_ctl_def)
  obtain ok w pw where w: "WaitForDecoder v = Some (ok, w)" "core w pw" "fr v w" "pc_next_song w = None"
    "pc_state w = PS_STOP" "dc_pipe (th_dc w) = Some ?p" "py_pipe pw = ?p" "\<not> py_paused pw" "\<not> py_queued pw"
    "ok \<longrightarrow> py_song pw \<noteq> None" "\<not> ok \<longrightarrow> py_song pw = None"
  proof -
    have "py_queued ?py \<or> pc_command v = PC_SEEK" "pc_next_song v \<noteq> None" "dc_pipe (th_dc v) = Some (py_pipe ?py)"
      using qd ctl v(3) by simp_all
    from WaitForDecoder_ok[OF cv this] show ?thesis using that qd ctl(3) by metis
  qed
  have wc: "pc_command w \<noteq> PC_NONE" "pc_border_pause w = pc_border_pause t" "\<not> th_failed w"
    using w(3) ctl cmd f by (auto simp: fr_def)
  have wp: "th_player w = Some pw" by (rule coreD(1)[OF w(2)])
  show ?thesis
  proof (cases ok)
    case False
    obtain x where x: "StopDecoder w = Some x" "same_ctl w x" "dc_pipe (th_dc x) = None" "dc_IsIdle (th_dc x)"
      "dom (th_pipes x) = {?p}" "pipes_ok x" "th_pipes x ?p = Some []"
      using StopDecoder_ok[OF coreD(1,2,4)[OF w(2)]] w(6,7) by auto
    have lx: "th_pipes (lock x) = th_pipes x" "dc_IsIdle (th_dc (lock x))"
      using lock_idle[OF x(4)] lock_IsIdle[OF x(4)] by simp_all
    let ?y = "(lock x)\<lparr>pc_command := PC_NONE\<rparr>"
    let ?z = "?y\<lparr>th_pipes := (th_pipes ?y)(?p := None)\<rparr>"
    let ?r = "emit GE_PLAYLIST (?z\<lparr>th_player := None\<rparr>)"
    have xc: "pc_command x \<noteq> PC_NONE" using x(2) wc by (simp add: same_ctl_def)
    have "th_pipes ?z = Map.empty" using x(5) lx(1) by (auto simp: fun_eq_iff dom_def)
    then have sr: "stopped ?r"
      using lx x(2,3) w(2,5) by (simp add: stopped_def emit_def same_ctl_def core_def core0_def)
    have "Run_start t = Some ?r"
      using sd w(1) wp w(11) False x(1,7) xc lx(1)
      by (simp add: Run_start_def pipe_new_def pc_CommandFinished_def pipe_delete_def Let_def)
    moreover have "thread_ok ?r" by (rule thread_ok_stopped[OF sr]) (use x(2) w(4) wc in \<open>simp_all add: emit_def same_ctl_def\<close>)
    ultimately show ?thesis using x(2) w(4) wc by (intro exI[of _ ?r]) (simp add: emit_def same_ctl_def)
  next
    case True
    let ?x = "(lock w)\<lparr>pc_state := PS_PLAY\<rparr>"
    have "core (lock w) pw" by (rule core_lock[OF w(2)])
    then have px: "playing ?x pw" using True w(8,10) by (simp add: inv_defs)
    let ?sk = "pc_command ?x = PC_SEEK"
    let ?y = "if ?sk then on_player (py_elapsed_time_update (\<lambda>_. pc_seek_where ?x)) ?x else ?x"
    have "\<exists>py. playing ?y py \<and> \<not> py_queued py"
      using px w(9) playingD(6)[OF px]
      by (cases ?sk) (auto intro!: exI[of _ "pw\<lparr>py_elapsed_time := pc_seek_where ?x\<rparr>"] exI[of _ pw] simp: inv_defs)
    then obtain py where py: "playing ?y py" by blast
    have yc: "pc_command ?y \<noteq> PC_NONE" "pc_next_song ?y = None" "pc_border_pause ?y = pc_border_pause t" "\<not> th_failed ?y"
      using wc w(4) by simp_all
    obtain r where r: "pc_CommandFinished ?y = Some r" "playing r py" "pc_command r = PC_NONE"
      "pc_next_song r = None" "pc_border_pause r = pc_border_pause t" "th_failed r = th_failed ?y"
      using pc_CommandFinished_ok[OF py yc(1)] yc by auto
    have "Run_start t = Some r"
      using sd w(1) True r(1) by (simp add: Run_start_def pipe_new_def Let_def split del: if_split)
    moreover have "thread_ok r" by (rule thread_ok_playing[OF r(2,3)]) (use r(6) yc(4) in simp)
    ultimately show ?thesis using r by blast
  qed
qed

section \<open>The loop of \<open>player_task\<close>\<close>

lemma player_task_command_ok:
  assumes "stopped t" "pc_next_song t = None" "pc_command t \<in> plain_commands \<union> {PC_EXIT}"
  shows "\<exists>t'. player_task_command t = Some t' \<and> stopped t' \<and> pc_next_song t' = None \<and> pc_command t' = PC_NONE \<and>
    pc_border_pause t' = pc_border_pause t \<and> pc_error_type t' = pc_error_type t \<and> th_failed t' = th_failed t"
proof -
  have call: "stopped (output_call c t)" "stopped (lock (output_call c t))"
    if "c \<in> {OC_cancel, OC_release, OC_enable_disable, OC_close}" for c
  proof -
    show "stopped (output_call c t)" using stopped_lock[OF assms(1)] that by (auto simp: stopped_def)
    then show "stopped (lock (output_call c t))" by (rule stopped_lock)
  qed
  note s = call[of OC_cancel] call[of OC_release] call[of OC_enable_disable] call[of OC_close]
  show ?thesis
    using assms s
    by (auto simp: player_task_command_def plain_commands_def pc_CommandFinished_def stopped_def)
qed

lemma passes_ok:
  assumes "thread_ok t"
  shows "\<exists>t'. passes n t = Some t' \<and> thread_ok t' \<and> quiet t t'"
  using assms
proof (induction n arbitrary: t)
  case 0
  then show ?case by simp
next
  case (Suc n)
  from Suc.prems show ?case
  proof (cases rule: thread_ok_cases)
    case 1
    then show ?thesis using Suc.prems by simp
  next
    case (2 py)
    have cmd: "pc_command t = PC_NONE" "\<not> th_failed t" using Suc.prems by (simp_all add: thread_ok_def)
    obtain ok u pu where u: "Run_body t = Some (ok, u)" "playing u pu" "fr t u"
      using Run_body_ok[OF 2(2) cmd(1)] by blast
    have qu: "quiet t u" using u(3) 2(3) by (auto simp: quiet_def fr_def)
    have uc: "pc_command u = PC_NONE" "\<not> th_failed u" using u(3) cmd by (simp_all add: fr_def)
    show ?thesis
    proof (cases ok)
      case True
      have "thread_ok u" by (rule thread_ok_playing[OF u(2) uc])
      from Suc.IH[OF this] obtain v where "passes n u = Some v" "thread_ok v" "quiet u v" by blast
      then show ?thesis using 2 u(1) True quiet_trans[OF qu] by (auto simp: plain_commands_def)
    next
      case False
      obtain v where v: "Run_finish u = Some v" "stopped v" "fr u v" "pc_next_song v = None"
        using Run_finish_ok[OF u(2)] uc by auto
      have "thread_ok v" by (rule thread_ok_stopped) (use v uc in \<open>auto simp: fr_def\<close>)
      moreover have "quiet t v" using fr_trans[OF u(3) v(3)] 2(3) by (auto simp: quiet_def fr_def)
      ultimately show ?thesis using 2 u(1) False v(1) by simp
    qed
  qed
qed

lemma answer_lock_ok:
  assumes "thread_ok t"
  shows "thread_ok (answer_lock t) \<and> quiet t (answer_lock t)"
proof (cases "th_schedule t")
  case Nil
  then show ?thesis using assms by (simp add: answer_lock_def)
next
  case (Cons n ns)
  have "thread_ok (t\<lparr>th_schedule := ns\<rparr>)" by (rule thread_ok_same[OF assms]) simp_all
  from passes_ok[OF this, of n] show ?thesis using Cons by (auto simp: answer_lock_def quiet_def)
qed

text \<open>The commands that end the loop of \<open>Run\<close>, and CANCEL of a song that is not queued any more.\<close>

lemma serve_end:
  assumes p: "playing t py" and cmd: "pc_command u = PC_STOP \<or> pc_command u = PC_CLOSE_AUDIO \<or> pc_command u = PC_EXIT"
    and u: "ProcessCommand t = Some u" "playing u pu"
  shows "\<exists>t'. serve t = Some t' \<and> stopped t' \<and> pc_next_song t' = None \<and> pc_command t' = PC_NONE \<and>
    pc_border_pause t' = pc_border_pause u \<and> th_failed t' = th_failed u"
proof -
  have pv: "playing (output_call OC_cancel u) pu" by (rule playing_output_call[OF u(2)]) simp
  obtain v where v: "Run_finish (output_call OC_cancel u) = Some v" "stopped v" "fr (output_call OC_cancel u) v" "pc_next_song v = None"
    using Run_finish_ok[OF pv] cmd by auto
  have vc: "pc_command v = pc_command u" "pc_border_pause v = pc_border_pause u" "th_failed v = th_failed u"
    using v(3) by (simp_all add: fr_def)
  have "pc_command v \<in> plain_commands \<union> {PC_EXIT}" using vc(1) cmd by (auto simp: plain_commands_def)
  from player_task_command_ok[OF v(2,4) this] obtain w where w: "player_task_command v = Some w" "stopped w"
    "pc_next_song w = None" "pc_command w = PC_NONE" "pc_border_pause w = pc_border_pause v" "th_failed w = th_failed v" by blast
  have "serve t = Some w"
    unfolding serve_def using playingD(6)[OF p] u(1) cmd v(1) w(1) by (auto simp del: output_call_eq)
  then show ?thesis using w vc by simp
qed

lemma serve_done:
  assumes "playing t py" "ProcessCommand t = Some u" "done_in t u"
  shows "serve t = Some u"
  using assms playingD(6)[of t py] by (simp add: serve_def done_in_def)

lemma answer_plain:
  assumes ok: "thread_ok t" and c: "c \<in> plain_commands"
  shows "\<exists>t'. answer_command (t\<lparr>pc_command := c\<rparr>) = Some t' \<and> thread_ok t' \<and> quiet t t' \<and>
    (c = PC_STOP \<or> c = PC_CLOSE_AUDIO \<longrightarrow> pc_state t' = PS_STOP) \<and> (c = PC_CANCEL \<longrightarrow> pc_next_song t' = None)"
proof -
  let ?t = "t\<lparr>pc_command := c\<rparr>"
  have nf: "\<not> th_failed t" "pc_command t = PC_NONE" using ok by (simp_all add: thread_ok_def)
  from ok show ?thesis
  proof (cases rule: thread_ok_cases)
    case 1
    have "stopped ?t" using 1(2) by (simp add: stopped_def)
    then obtain u where u: "player_task_command ?t = Some u" "stopped u" "pc_next_song u = None" "pc_command u = PC_NONE"
      "pc_border_pause u = pc_border_pause t" "pc_error_type u = pc_error_type t" "th_failed u = th_failed t"
      using player_task_command_ok[of ?t] 1(3) c by auto
    have us: "pc_state u = PS_STOP" using u(2) by (simp add: stopped_def)
    have "thread_ok u" by (rule thread_ok_stopped) (use u nf in auto)
    moreover have "answer_command ?t = Some u" using 1(1) u(1,4) by (simp add: answer_command_def serve_def)
    ultimately show ?thesis using u us by (auto simp: quiet_def)
  next
    case (2 py)
    have qn: "py_queued py \<or> pc_next_song t = None" using coreD(6)[OF playingD(1)[OF 2(2)]] nf(2) by auto
    have p: "playing ?t py" using 2(2) qn by (auto simp: inv_defs)
    have fin: ?thesis if ex: "\<exists>u. ProcessCommand ?t = Some u \<and> done_in ?t u \<and> (c = PC_CANCEL \<longrightarrow> pc_next_song u = None)"
      and nc: "c \<noteq> PC_STOP" "c \<noteq> PC_CLOSE_AUDIO"
    proof -
      obtain u where u: "ProcessCommand ?t = Some u" "done_in ?t u" "c = PC_CANCEL \<longrightarrow> pc_next_song u = None"
        using ex by blast
      have "thread_ok u" using thread_ok_done[OF u(2)] nf by simp
      moreover have "answer_command ?t = Some u"
        using serve_done[OF p u(1,2)] u(2) by (simp add: answer_command_def done_in_def)
      moreover have "quiet t u" using u(2) 2(3) by (simp add: quiet_def done_in_def)
      ultimately show ?thesis using u nc by auto
    qed
    have ends: ?thesis if e: "ProcessCommand ?t = Some u" "playing u py" "pc_command u = PC_STOP \<or> pc_command u = PC_CLOSE_AUDIO"
      "pc_border_pause u = pc_border_pause t" "th_failed u = th_failed t" for u
    proof -
      obtain w where w: "serve ?t = Some w" "stopped w" "pc_next_song w = None" "pc_command w = PC_NONE"
        "pc_border_pause w = pc_border_pause u" "th_failed w = th_failed u"
        using serve_end[OF p _ e(1,2)] e(3) by blast
      have "thread_ok w" by (rule thread_ok_stopped) (use w nf e in auto)
      moreover have "answer_command ?t = Some w" using w(1,4) by (simp add: answer_command_def)
      moreover have "pc_state w = PS_STOP" using w(2) by (simp add: stopped_def)
      moreover have "quiet t w" using 2(3) w e by (simp add: quiet_def)
      ultimately show ?thesis using w(3) by auto
    qed
    have tp: "th_player ?t = Some py" using 2(1) by simp
    consider "c = PC_STOP \<or> c = PC_CLOSE_AUDIO" | "c = PC_PAUSE" | "c = PC_UPDATE_AUDIO" | "c = PC_REFRESH"
      | "c = PC_CANCEL" "pc_next_song t = None" | "c = PC_CANCEL" "pc_next_song t \<noteq> None"
      using c by (auto simp: plain_commands_def)
    then show ?thesis
    proof cases
      case 1
      then have "ProcessCommand ?t = Some ?t" using tp by (auto simp: ProcessCommand_def)
      from ends[OF this p] 1 show ?thesis by simp
    next
      case 2
      then show ?thesis using process_pause[OF p] fin by simp
    next
      case 3
      then show ?thesis using process_update_audio[OF p] fin by simp
    next
      case 4
      then show ?thesis using process_refresh[OF p] fin by simp
    next
      case 5
      let ?u = "?t\<lparr>pc_command := PC_STOP\<rparr>"
      have "ProcessCommand ?t = Some ?u" using tp 5 by (simp add: ProcessCommand_def)
      moreover have "playing ?u py" using p 5(2) by (auto simp: inv_defs)
      ultimately show ?thesis using ends[of ?u] by simp
    next
      case 6
      then show ?thesis using process_cancel[OF p] fin by auto
    qed
  qed
qed

lemma answer_queue:
  assumes ok: "thread_ok t" and n: "pc_next_song t = None"
  shows "\<exists>t'. answer_command (t\<lparr>pc_next_song := Some s, pc_command := PC_QUEUE\<rparr>) = Some t' \<and> thread_ok t' \<and>
    (pc_next_song t' = None \<or> pc_next_song t' = Some s \<and> pc_state t \<noteq> PS_STOP) \<and> pc_border_pause t' = pc_border_pause t"
proof -
  let ?t = "t\<lparr>pc_next_song := Some s, pc_command := PC_QUEUE\<rparr>"
  have nf: "\<not> th_failed t" using ok by (simp add: thread_ok_def)
  from ok show ?thesis
  proof (cases rule: thread_ok_cases)
    case 1
    have st: "stopped ?t" using 1(2) by (simp add: stopped_def)
    obtain u where u: "Run_start ?t = Some u" "thread_ok u" "pc_next_song u = None" "pc_border_pause u = pc_border_pause t"
      using Run_start_ok[OF st, of s] nf by auto
    then show ?thesis using 1(1)
      by (intro exI[of _ u]) (simp add: answer_command_def serve_def player_task_command_def thread_ok_def)
  next
    case (2 py)
    have q: "\<not> py_queued py" using coreD(5)[OF playingD(1)[OF 2(2)]] n by auto
    have p: "playing ?t py" using 2(2) q by (auto simp: inv_defs)
    obtain u where u: "ProcessCommand ?t = Some u" "done_in ?t u" "pc_next_song u = Some s"
      using process_queue[OF p, of s] q by auto
    have "thread_ok u" using thread_ok_done[OF u(2)] nf by simp
    then show ?thesis using serve_done[OF p u(1,2)] u 2(3)
      by (intro exI[of _ u]) (simp add: answer_command_def done_in_def)
  qed
qed

text \<open>SEEK is answered too, unless the decoder is just starting to decode the song ahead.\<close>

lemma answer_seek:
  fixes s :: song and whr :: real
  assumes ok: "thread_ok t"
  defines "u \<equiv> t\<lparr>pc_next_song := Some s, pc_seek_where := whr, pc_command := PC_SEEK\<rparr>"
  shows "(\<exists>t'. answer_command u = Some t' \<and> thread_ok t' \<and> pc_next_song t' = None \<and> pc_border_pause t' = pc_border_pause t) \<or>
    answer_command u = None \<and> (\<exists>py. th_player t = Some py \<and> seek_conflict s t py)"
proof -
  have nf: "\<not> th_failed t" using ok by (simp add: thread_ok_def)
  from ok show ?thesis
  proof (cases rule: thread_ok_cases)
    case 1
    have st: "stopped u" using 1(2) by (simp add: stopped_def u_def)
    obtain v where "Run_start u = Some v" "thread_ok v" "pc_next_song v = None" "pc_border_pause v = pc_border_pause u"
      using Run_start_ok[OF st, of s] nf by (auto simp: u_def)
    then show ?thesis using 1(1)
      by (intro disjI1 exI[of _ v]) (simp add: answer_command_def serve_def player_task_command_def thread_ok_def u_def)
  next
    case (2 py)
    have "playing u py" using 2(2) by (auto simp: inv_defs u_def)
    note p = this
    have "pc_command u = PC_SEEK" "pc_next_song u = Some s" by (simp_all add: u_def)
    from process_seek[OF p this] show ?thesis
    proof
      assume "\<exists>t'. ProcessCommand u = Some t' \<and> done_in u t' \<and> pc_next_song t' = None"
      then obtain v where v: "ProcessCommand u = Some v" "done_in u v" "pc_next_song v = None" by blast
      have "thread_ok v" using thread_ok_done[OF v(2)] nf by (simp add: u_def)
      then show ?thesis using serve_done[OF p v(1,2)] v
        by (intro disjI1 exI[of _ v]) (simp add: answer_command_def done_in_def u_def)
    next
      assume "ProcessCommand u = None \<and> seek_conflict s u py"
      then show ?thesis using 2(1) by (simp add: answer_command_def serve_def u_def seek_conflict_def)
    qed
  qed
qed

section \<open>The contract\<close>

interpretation pt: player_thread thread_env thread_ok
proof
  fix t :: thread
  assume ok: "thread_ok t"
  show "pc_command t = PC_NONE" using ok by (simp add: thread_ok_def)
  show "pc_state t = PS_STOP \<Longrightarrow> pc_next_song t = None" using ok by (cases rule: thread_ok_cases) auto
  show "thread_ok (t\<lparr>pc_border_pause := b\<rparr>)" for b by (rule thread_ok_same[OF ok]) simp_all
  show "thread_ok (t\<lparr>pc_error_type := PE_NONE, pc_error := []\<rparr>)" by (rule thread_ok_same[OF ok]) simp_all
  show "thread_ok (t\<lparr>pc_tagged_song := None\<rparr>)" by (rule thread_ok_same[OF ok]) simp_all
  show "thread_ok (thread_runs thread_env t) \<and> quiet t (thread_runs thread_env t)"
    using answer_lock_ok[OF ok] by (simp add: thread_env_def)
  show "\<exists>t'. thread_answers thread_env (t\<lparr>pc_command := c\<rparr>) = Some t' \<and> thread_ok t' \<and> quiet t t' \<and>
        (c = PC_STOP \<or> c = PC_CLOSE_AUDIO \<longrightarrow> pc_state t' = PS_STOP) \<and> (c = PC_CANCEL \<longrightarrow> pc_next_song t' = None)"
    if "c \<in> plain_commands" for c
    using answer_plain[OF ok that] by (simp add: thread_env_def)
  show "\<exists>t'. thread_answers thread_env (t\<lparr>pc_next_song := Some s, pc_command := PC_QUEUE\<rparr>) = Some t' \<and> thread_ok t' \<and>
        (pc_next_song t' = None \<or> pc_next_song t' = Some s \<and> pc_state t \<noteq> PS_STOP) \<and> pc_border_pause t' = pc_border_pause t"
    if "pc_next_song t = None" for s
    using answer_queue[OF ok that] by (simp add: thread_env_def)
  show "thread_ok t' \<and> pc_next_song t' = None \<and> pc_border_pause t' = pc_border_pause t"
    if "thread_answers thread_env (t\<lparr>pc_next_song := Some s, pc_seek_where := whr, pc_command := PC_SEEK\<rparr>) = Some t'" for s whr t'
    using answer_seek[OF ok, where s = s and whr = whr] that by (auto simp: thread_env_def)
qed

end
