(* ===== verification/Player_System.thy ===== *)
theory Player_System
  imports Player_Contract
begin

text \<open>
  The whole: the playlist of the main thread working on the player control structure that
  the modelled player thread serves, from the state their constructors leave.
\<close>

section \<open>The initial state\<close>

text \<open>
  What the constructors of \<open>PlayerControl\<close>, \<open>DecoderControl\<close> and \<open>CrossFadeSettings\<close> leave unset
  keeps the value it has in \<open>t\<close>; \<open>DecoderControl::pipe\<close> is unset too, but never read before
  \<open>StartDecoder\<close> has set it.
\<close>

definition new_thread :: "nat \<Rightarrow> nat \<Rightarrow> thread \<Rightarrow> thread" where
  "new_thread buffer_chunks buffered_before_play t =
     t\<lparr>pc_command := PC_NONE, pc_state := PS_STOP, pc_error_type := PE_NONE, pc_error := [],
       pc_tagged_song := None, pc_next_song := None, pc_cross_fade := \<lparr>cf_duration = 0, cf_mixramp_db = 0, cf_mixramp_delay = - 1\<rparr>,
       pc_total_play_time := 0, pc_border_pause := False,
       th_dc := (th_dc t)\<lparr>dc_state := DS_STOP, dc_song := None, dc_pipe := None, dc_replay_gain_db := 0, dc_replay_gain_prev_db := 0\<rparr>,
       th_player := None, th_pipes := Map.empty, th_buffered_before_play := buffered_before_play, th_buffer_size := buffer_chunks,
       th_calls := [], th_events := [], th_failed := False\<rparr>"

text \<open>
  A new thread, whatever the decoder, the outputs and the scheduler are going to do.  The
  condition is on the memory where \<open>Player::play_audio_format\<close> will be, which \<open>Run\<close> reads
  without having set it when the player is paused before the decoder is up.
\<close>

definition started :: "thread \<Rightarrow> bool" where
  "started t \<longleftrightarrow> (\<exists>chunks buffered g. t = new_thread chunks buffered g \<and>
     (IsDefined (th_stack_format g) \<longrightarrow> IsValid (th_stack_format g)))"

lemma started_ok: "started t \<Longrightarrow> thread_ok t"
  by (auto simp: started_def new_thread_def thread_ok_def stopped_def dc_IsIdle_def)

section \<open>Reachable states\<close>

abbreviation system :: "unit thread_ext world \<Rightarrow> bool" where
  "system w \<equiv> reachable thread_env started w"

lemma reachable_mono:
  assumes "reachable env p w" "\<And>t. p t \<Longrightarrow> q t"
  shows "reachable env q w"
  using assms(1)
proof induction
  case (fresh m pc rs idle)
  from fresh(1,2) assms(2)[OF fresh(3)] fresh(4) show ?case by (rule reachable.fresh)
next
  case (request w r w')
  from request.IH request.hyps(2,3) show ?case by (rule reachable.request)
qed

lemma system_inv: "system w \<Longrightarrow> thread_ok (w_pc w) \<and> playlist_inv w"
  using pt.reachable_inv[of w] reachable_mono[of thread_env started w thread_ok] started_ok by blast

lemmas system_ok = system_inv[THEN conjunct1] and system_list = system_inv[THEN conjunct2]

text \<open>A sequence of requests.\<close>

fun perform_all :: "request list \<Rightarrow> unit thread_ext world \<Rightarrow> unit thread_ext world option" where
  "perform_all [] w = Some w"
| "perform_all (r # rs) w = do { w \<leftarrow> perform thread_env r w; perform_all rs w }"

lemma system_all:
  assumes "system w" "list_all (\<lambda>r. (\<forall>w. legal r (w :: unit thread_ext world)) \<and> \<not> is_seek r) rs"
  shows "\<exists>w'. perform_all rs w = Some w' \<and> system w'"
  using assms
proof (induction rs arbitrary: w)
  case (Cons r rs)
  then have l: "legal r w" "\<not> is_seek r" by auto
  from pt.perform_total[OF system_ok[OF Cons.prems(1)] system_list[OF Cons.prems(1)] l]
  obtain u where u: "perform thread_env r w = Some u" by blast
  have "system u" by (rule reachable.request[OF Cons.prems(1) l(1) u])
  then show ?case using Cons u by auto
qed simp

lemma legal_append: "legal (RqAppendSong s) = (\<lambda>_. True)"
  by (rule ext) simp

section \<open>A small system\<close>

definition silent_dc :: decoder_control where
  "silent_dc = \<lparr>dc_state = DS_STOP, dc_error = [], dc_seek_error = False, dc_seekable = False, dc_seek_where = 0,
     dc_in_audio_format = AudioFormat_Undefined, dc_out_audio_format = AudioFormat_Undefined, dc_song = None,
     dc_start_ms = 0, dc_end_ms = 0, dc_total_time = 0, dc_pipe = None, dc_replay_gain_db = 0, dc_replay_gain_prev_db = 0,
     dc_mix_ramp = MixRamp_Clear, dc_previous_mix_ramp = MixRamp_Clear\<rparr>"

definition demo_thread :: thread where
  "demo_thread = new_thread 4096 400
     \<lparr>pc_command = PC_NONE, pc_state = PS_STOP, pc_error_type = PE_NONE, pc_error = [], pc_tagged_song = None,
      pc_bit_rate = 0, pc_audio_format = AudioFormat_Undefined, pc_total_time = 0, pc_elapsed_time = 0,
      pc_next_song = None, pc_seek_where = 0, pc_cross_fade = \<lparr>cf_duration = 0, cf_mixramp_db = 0, cf_mixramp_delay = - 1\<rparr>,
      pc_total_play_time = 0, pc_border_pause = False, th_dc = silent_dc, th_player = None, th_pipes = Map.empty,
      th_next_pipe = 0, th_buffered_before_play = 0, th_buffer_size = 0, th_stack_format = AudioFormat_Undefined,
      th_calls = [], th_events = [], th_idle = \<lparr>idle_flags = 0, idle_emitted = False\<rparr>, th_tape = [], th_schedule = [],
      th_failed = False\<rparr>"

lemma demo_thread_started: "started demo_thread"
  unfolding started_def demo_thread_def
  by (intro exI conjI, rule refl) (simp add: AudioFormat_Undefined_def IsDefined_def)

definition demo_fresh :: "unit thread_ext world" where
  "demo_fresh = \<lparr>w_list = new_playlist 4 [], w_pc = demo_thread, w_idle = \<lparr>idle_flags = 0, idle_emitted = False\<rparr>\<rparr>"

lemma demo_fresh_system: "system demo_fresh"
  unfolding demo_fresh_def by (rule reachable.fresh) (simp_all add: demo_thread_started, simp add: demo_thread_def new_thread_def)

text \<open>An idle playlist of \<open>n\<close> songs with room for four, in the order of the queue.\<close>

definition idle_list :: "nat \<Rightarrow> unit thread_ext world \<Rightarrow> bool" where
  "idle_list n w \<longleftrightarrow> system w \<and> \<not> pl_playing (w_list w) \<and> pl_current (w_list w) = -1 \<and> pl_queued (w_list w) = -1 \<and>
     \<not> pl_bulk_edit (w_list w) \<and> q_length (w_queue w) = n \<and> q_max_length (w_queue w) = 4 \<and>
     \<not> q_random (w_queue w) \<and> \<not> q_single (w_queue w) \<and> \<not> q_repeat (w_queue w) \<and> \<not> q_consume (w_queue w) \<and>
     w_pc w = demo_thread"

lemma idle_list_append:
  assumes w: "idle_list n w" and n: "n < 4"
  shows "\<exists>w'. perform thread_env (RqAppendSong s) w = Some w' \<and> idle_list (Suc n) w'"
proof -
  have sys: "system w" using w by (simp add: idle_list_def)
  have inv: "queue_inv (w_queue w)" by (rule playlist_invD(1)[OF system_list[OF sys]])
  have nf: "\<not> IsFull (w_queue w)" using w n by (simp add: idle_list_def IsFull_def)
  obtain i q where q: "Append (w_queue w) s 0 = Some (i, q)" and qi: "queue_inv q"
    by (rule Append_correct[OF inv nf, of s 0]) blast
  have qf: "q_random q = q_random (w_queue w)" "q_single q = q_single (w_queue w)" "q_repeat q = q_repeat (w_queue w)"
    "q_consume q = q_consume (w_queue w)" "q_length q = Suc n" "q_max_length q = 4"
    using q w by (auto simp: Append_def idle_list_def Let_def split: option.splits)
  let ?w' = "OnModified (set_queue q w)"
  have r: "perform thread_env (RqAppendSong s) w = Some ?w'"
    using w nf q qf by (simp add: idle_list_def AppendSong_def GetQueuedSong_def UpdateQueuedSong_def)
  have "system ?w'" by (rule reachable.request[OF sys _ r]) simp
  then have "idle_list (Suc n) ?w'"
    using w qf by (simp add: idle_list_def OnModified_eq IncrementVersion_eq[OF qi])
  then show ?thesis using r by blast
qed

lemma idle_list_appends:
  assumes "idle_list n w" "n + length ss \<le> 4"
  shows "\<exists>w'. perform_all (map RqAppendSong ss) w = Some w' \<and> idle_list (n + length ss) w'"
  using assms
proof (induction ss arbitrary: n w)
  case (Cons s ss)
  then obtain u where u: "perform thread_env (RqAppendSong s) w = Some u" "idle_list (Suc n) u"
    using idle_list_append[of n w s] by auto
  from Cons.IH[OF this(2)] Cons.prems(2) u(1) show ?case by (auto simp del: perform.simps)
qed simp

text \<open>\<open>n\<close> songs in the queue; the same with one of them playing.\<close>

definition demo_songs :: "song list" where
  "demo_songs = map NewRemote [''a'', ''b'', ''c'', ''d'']"

definition demo_list :: "nat \<Rightarrow> unit thread_ext world" where
  "demo_list n = the (perform_all (map RqAppendSong (take n demo_songs)) demo_fresh)"

definition demo_playing :: "nat \<Rightarrow> nat \<Rightarrow> unit thread_ext world" where
  "demo_playing n p = the (perform thread_env (RqPlayPosition (int p)) (demo_list n))"

lemma demo_list_idle: "n \<le> 4 \<Longrightarrow> idle_list n (demo_list n)"
proof -
  assume n: "n \<le> 4"
  have "idle_list 0 demo_fresh"
    using demo_fresh_system by (simp add: idle_list_def demo_fresh_def new_playlist_def new_Queue_def)
  moreover have "length (take n demo_songs) = n" using n by (simp add: demo_songs_def)
  ultimately show ?thesis
    using idle_list_appends[of 0 demo_fresh "take n demo_songs"] n by (auto simp: demo_list_def simp del: perform_all.simps)
qed

lemma demo_list_system: "n \<le> 4 \<Longrightarrow> system (demo_list n)"
  using demo_list_idle by (simp add: idle_list_def)

lemma demo_playing_run:
  assumes n: "n \<le> 4" and p: "p < n"
  shows "perform thread_env (RqPlayPosition (int p)) (demo_list n) = Some (demo_playing n p)" "system (demo_playing n p)"
    "pl_playing (w_list (demo_playing n p))" "current_song (demo_playing n p) = Some (PositionToId (w_queue (demo_list n)) p)"
    "w_queue (demo_playing n p) = w_queue (demo_list n)" "pl_current (w_list (demo_playing n p)) = int p"
    "pc_next_song (w_pc (demo_playing n p)) = None"
proof -
  note sys = demo_list_system[OF n]
  have len: "q_length (w_queue (demo_list n)) = n" using demo_list_idle[OF n] by (simp add: idle_list_def)
  have p31: "int p < 2 ^ 31" using assms by simp
  show r: "perform thread_env (RqPlayPosition (int p)) (demo_list n) = Some (demo_playing n p)"
    using pt.perform_total[OF system_ok[OF sys] system_list[OF sys], of "RqPlayPosition (int p)"] p31
    by (auto simp: demo_playing_def)
  show "system (demo_playing n p)" by (rule reachable.request[OF sys _ r]) (use p31 in simp)
  obtain x w' where w': "PlayPosition thread_env (int p) (demo_list n) = Some (x, w')" "pl_playing (w_list w')"
    "current_song w' = Some (PositionToId (w_queue (demo_list n)) p)"
    by (rule pt.PlayPosition_ok[OF system_ok[OF sys] system_list[OF sys], of "int p"]) (use p p31 len in auto)
  then have "demo_playing n p = w'" using r by simp
  then show "pl_playing (w_list (demo_playing n p))" "current_song (demo_playing n p) = Some (PositionToId (w_queue (demo_list n)) p)"
    using w' by simp_all
  have nr: "\<not> q_random (w_queue (demo_list n))" "IsValidPosition (w_queue (demo_list n)) (u32 (int p))"
    using demo_list_idle[OF n] p p31 by (simp_all add: idle_list_def IsValidPosition_def u32_def)
  let ?w = "\<lambda>pc. set_current (int p) (set_queued (- 1) (set_playing True
      (set_errors False 0 ((demo_list n)\<lparr>w_pc := pc_ClearError thread_env (w_pc (demo_list n))\<rparr>)))\<lparr>w_pc := pc\<rparr>)"
  have "\<exists>pc. ?w pc = demo_playing n p \<and> pc_next_song pc = None"
    using r nr by (auto simp: PlayPosition_def PlayOrder_def on_pc_def pc_Play_def Let_def split: if_splits bind_splits)
  then obtain pc where eq: "demo_playing n p = ?w pc" "pc_next_song pc = None" by metis
  show "w_queue (demo_playing n p) = w_queue (demo_list n)" "pl_current (w_list (demo_playing n p)) = int p"
    "pc_next_song (w_pc (demo_playing n p)) = None"
    using eq(2) unfolding eq(1) by simp_all
qed

lemma demo_queue:
  assumes "n \<le> 4"
  shows "q_length (w_queue (demo_list n)) = n" "\<not> q_random (w_queue (demo_list n))" "\<not> q_consume (w_queue (demo_list n))"
    "\<not> q_single (w_queue (demo_list n))" "\<not> q_repeat (w_queue (demo_list n))" "\<not> pl_playing (w_list (demo_list n))"
    "q_max_length (w_queue (demo_list n)) = 4" "\<not> pl_bulk_edit (w_list (demo_list n))" "queue_inv (w_queue (demo_list n))"
    "pl_queued (w_list (demo_list n)) = -1" "w_pc (demo_list n) = demo_thread"
  using demo_list_idle[OF assms] playlist_invD(1)[OF system_list[OF demo_list_system[OF assms]]] by (simp_all add: idle_list_def)

end
