(* ===== verification/Playlist_Properties.thy ===== *)
theory Playlist_Properties
  imports Player_System
begin

text \<open>
  The properties of the playlist, in every state of the whole system: the queue is edited
  as the client asks, what is playing stays what it is, and no assertion fails.
\<close>

section \<open>The system as a whole\<close>



text \<open>
  C2: the invariant: \<open>current\<close> and \<open>queued\<close> are orders of songs in the queue, a playlist that
  is not playing has a stopped player with nothing queued, and the song that waits in the
  player is the entry that \<open>queued\<close> stands for, up to a tag that has been updated since.
\<close>

theorem player_follows_playlist:
  assumes "system w"
  shows "-1 \<le> pl_current (w_list w) \<and> pl_current (w_list w) < int (q_length (w_queue w)) \<and>
    (pl_playing (w_list w) \<longrightarrow> 0 \<le> pl_current (w_list w) \<and> pl_queued (w_list w) < int (q_length (w_queue w))) \<and>
    (\<not> pl_playing (w_list w) \<longrightarrow> pc_state (w_pc w) = PS_STOP \<and> pc_next_song (w_pc w) = None) \<and>
    (\<forall>s. pc_next_song (w_pc w) = Some s \<longrightarrow> 0 \<le> pl_queued (w_list w) \<and>
       alike (item_song (GetOrderItem (w_queue w) (nat (pl_queued (w_list w))))) s)"
proof -
  note ok = system_ok[OF assms] and inv = system_list[OF assms]
  note d = playlist_invD[OF inv]
  have stop: "pc_next_song (w_pc w) = None" if "\<not> pl_playing (w_list w)"
    using pt.ok_stopped[OF ok d(7)[OF that]] .
  have q: "pl_queued (w_list w) < int (q_length (w_queue w))" if "pl_playing (w_list w)"
    using inv that by (simp add: playlist_inv_def)
  have al: "0 \<le> pl_queued (w_list w) \<and> alike (item_song (GetOrderItem (w_queue w) (nat (pl_queued (w_list w))))) s"
    if s: "pc_next_song (w_pc w) = Some s" for s
  proof -
    have pl: "pl_playing (w_list w)" using stop s by auto
    then have m: "matches (w_queue w) (queued_ptr w) (Some s)" using d(8) s by (simp add: pl_ready_def Let_def)
    then have q0: "0 \<le> pl_queued (w_list w)" by (auto simp: matches_def queued_ptr_def split: if_splits)
    let ?p = "q_order (w_queue w) ! nat (pl_queued (w_list w))"
    have "?p < q_length (w_queue w)" using order_bound[OF d(1)] q[OF pl] q0 by simp
    from nth_entries[OF d(1) this] m pl q0 show ?thesis
      by (force simp: matches_def queued_ptr_def order_song_def GetOrderItem_def OrderToPosition_def)
  qed
  show ?thesis using d(3,4,6,7) stop q al by blast
qed

theorem player_follows_playlist_witness:
  "-1 \<le> pl_current (w_list (demo_playing 3 1)) \<and> pl_current (w_list (demo_playing 3 1)) < int (q_length (w_queue (demo_playing 3 1))) \<and>
   pl_queued (w_list (demo_playing 3 1)) < int (q_length (w_queue (demo_playing 3 1)))"
  using player_follows_playlist[of "demo_playing 3 1"] demo_playing_run(2,3)[of 3 1] by simp

section \<open>Editing\<close>

text \<open>
  A song is appended as a detached copy at the end, under an id that was not in use, and
  nothing else changes; a full queue is left as it is.
\<close>

theorem AppendSong_appends:
  assumes "system w"
  shows "if IsFull (w_queue w) then AppendSong thread_env s w = Some (PR_TOO_LARGE, None, w)
    else \<exists>i w'. AppendSong thread_env s w = Some (PR_SUCCESS, Some i, w') \<and>
      keys (w_queue w') = keys (w_queue w) @ [(DupDetached s, i, 0)] \<and> i \<notin> fst ` entries (w_queue w) \<and>
      pl_playing (w_list w') = pl_playing (w_list w)"
proof (cases "IsFull (w_queue w)")
  case False
  show ?thesis by (rule pt.AppendSong_ok[OF system_ok[OF assms] system_list[OF assms] False, of s]) (use False in auto)
qed (simp add: pt.AppendSong_full)

theorem AppendSong_appends_witness:
  "\<exists>i w'. AppendSong thread_env (NewRemote ''x'') (demo_playing 3 0) = Some (PR_SUCCESS, Some i, w') \<and>
      keys (w_queue w') = keys (w_queue (demo_playing 3 0)) @ [(DupDetached (NewRemote ''x''), i, 0)] \<and>
      i \<notin> fst ` entries (w_queue (demo_playing 3 0)) \<and> pl_playing (w_list w') = pl_playing (w_list (demo_playing 3 0))"
  using AppendSong_appends[of "demo_playing 3 0" "NewRemote ''x''"] demo_playing_run(2,5)[of 3 0] demo_queue(1,7)[of 3]
  by (simp add: IsFull_def)

text \<open>
  Deleting a position removes exactly that entry, and if it is not the current song,
  the current song stays the current song and goes on playing; another position is refused.
\<close>

theorem DeletePosition_keeps_current:
  assumes "system w"
  shows "if song < q_length (w_queue w)
    then \<exists>w'. playlist_DeletePosition thread_env song w = Some (PR_SUCCESS, w') \<and>
      keys (w_queue w') = remove_nth song (keys (w_queue w)) \<and>
      (current_song w = Some (PositionToId (w_queue w) song) \<or>
       current_song w' = current_song w \<and> pl_playing (w_list w') = pl_playing (w_list w))
    else playlist_DeletePosition thread_env song w = Some (PR_BAD_RANGE, w)"
proof (cases "song < q_length (w_queue w)")
  case True
  show ?thesis
    by (rule pt.playlist_DeletePosition_ok[OF system_ok[OF assms] system_list[OF assms] True]) (use True in auto)
qed (simp add: playlist_DeletePosition_def)

theorem DeletePosition_keeps_current_witness:
  "\<exists>w'. playlist_DeletePosition thread_env 2 (demo_playing 3 0) = Some (PR_SUCCESS, w') \<and>
      keys (w_queue w') = remove_nth 2 (keys (w_queue (demo_playing 3 0)))"
  using DeletePosition_keeps_current[of "demo_playing 3 0" 2] demo_playing_run(2,5)[of 3 0] demo_queue(1)[of 3] by auto

text \<open>Deleting a range cuts it out of the list of entries.\<close>

theorem DeleteRange_cuts:
  assumes "system w" "start < fin" "fin \<le> q_length (w_queue w)"
  shows "\<exists>w'. DeleteRange thread_env start fin w = Some (PR_SUCCESS, w') \<and>
    keys (w_queue w') = take start (keys (w_queue w)) @ drop fin (keys (w_queue w))"
  by (rule pt.DeleteRange_ok[OF system_ok[OF assms(1)] system_list[OF assms(1)] assms(2,3)]) blast

theorem DeleteRange_cuts_witness:
  "\<exists>w'. DeleteRange thread_env 0 2 (demo_playing 3 1) = Some (PR_SUCCESS, w') \<and>
    keys (w_queue w') = take 0 (keys (w_queue (demo_playing 3 1))) @ drop 2 (keys (w_queue (demo_playing 3 1)))"
  by (rule DeleteRange_cuts) (simp_all add: demo_playing_run demo_queue)

text \<open>
  A file that has disappeared is removed from the playlist: deleting a song filters out
  all its occurrences, whatever is playing, although the loop deletes while it counts down.
\<close>

theorem DeleteSong_filters:
  assumes "system w"
  shows "\<exists>w'. DeleteSong thread_env s w = Some w' \<and>
    keys (w_queue w') = filter (\<lambda>k. \<not> SongEquals s (fst k)) (keys (w_queue w))"
  using pt.DeleteSong_ok[OF system_ok[OF assms] system_list[OF assms], of s] by blast

theorem DeleteSong_filters_witness:
  "\<exists>w'. DeleteSong thread_env (NewRemote ''b'') (demo_playing 3 1) = Some w' \<and>
    keys (w_queue w') = filter (\<lambda>k. \<not> SongEquals (NewRemote ''b'') (fst k)) (keys (w_queue (demo_playing 3 1)))"
  by (rule DeleteSong_filters) (simp add: demo_playing_run)

text \<open>Swapping two positions swaps the entries and does not change which song is current.\<close>

theorem SwapPositions_keeps_current:
  assumes "system w" "a < q_length (w_queue w)" "b < q_length (w_queue w)"
  shows "\<exists>w'. playlist_SwapPositions thread_env a b w = Some (PR_SUCCESS, w') \<and>
    keys (w_queue w') = array_swap (keys (w_queue w)) a b \<and> current_song w' = current_song w \<and>
    pl_playing (w_list w') = pl_playing (w_list w)"
  by (rule pt.playlist_SwapPositions_ok[OF system_ok[OF assms(1)] system_list[OF assms(1)] assms(2,3)]) blast

theorem SwapPositions_keeps_current_witness:
  "\<exists>w'. playlist_SwapPositions thread_env 0 2 (demo_playing 3 0) = Some (PR_SUCCESS, w') \<and>
    keys (w_queue w') = array_swap (keys (w_queue (demo_playing 3 0))) 0 2 \<and> current_song w' = current_song (demo_playing 3 0) \<and>
    pl_playing (w_list w') = pl_playing (w_list (demo_playing 3 0))"
  by (rule SwapPositions_keeps_current) (simp_all add: demo_playing_run demo_queue)

text \<open>
  C35: moving a range cuts and inserts it, and the current song stays the current song,
  unless it lies behind the range and not more than the length of the range behind the target.
\<close>

theorem MoveRange_keeps_current:
  assumes "system w" "start < fin" "fin \<le> q_length (w_queue w)"
    and "0 \<le> to" "to + int fin - int start \<le> int (q_length (w_queue w))" "int start \<noteq> to"
  shows "\<exists>w'. playlist_MoveRange thread_env start fin to w = Some (PR_SUCCESS, w') \<and>
    keys (w_queue w') = move_block start fin (nat to) (keys (w_queue w)) \<and>
    pl_playing (w_list w') = pl_playing (w_list w) \<and>
    (current_song w' = current_song w \<or>
     \<not> q_random (w_queue w) \<and> int fin \<le> pl_current (w_list w) \<and> to < pl_current (w_list w) \<and>
     pl_current (w_list w) < to + int fin - int start)"
  by (rule pt.playlist_MoveRange_ok[OF system_ok[OF assms(1)] system_list[OF assms(1)] assms(2-6)]) blast

theorem MoveRange_keeps_current_witness:
  "\<exists>w'. playlist_MoveRange thread_env 0 2 1 (demo_playing 3 0) = Some (PR_SUCCESS, w') \<and>
    keys (w_queue w') = move_block 0 2 1 (keys (w_queue (demo_playing 3 0))) \<and>
    pl_playing (w_list w') = pl_playing (w_list (demo_playing 3 0)) \<and> current_song w' = current_song (demo_playing 3 0)"
  using MoveRange_keeps_current[of "demo_playing 3 0" 0 2 1] demo_playing_run(2,5,6)[of 3 0] demo_queue(1)[of 3] by auto

text \<open>
  C36: in the remaining case the comparison \<open>current <= to\<close> of \<open>MoveRange\<close> is wrong for a range of
  more than one song: the playlist takes another song for the current one than the one that
  is playing.
\<close>

theorem MoveRange_loses_current:
  assumes "system w" "start < fin" "fin \<le> q_length (w_queue w)"
    and "0 \<le> to" "to + int fin - int start \<le> int (q_length (w_queue w))" "\<not> q_random (w_queue w)"
    and "int fin \<le> pl_current (w_list w)" "to < pl_current (w_list w)" "pl_current (w_list w) < to + int fin - int start"
  shows "\<exists>w'. playlist_MoveRange thread_env start fin to w = Some (PR_SUCCESS, w') \<and> current_song w' \<noteq> current_song w"
proof -
  note inv = system_list[OF assms(1)]
  let ?q = "w_queue w" and ?c = "pl_current (w_list w)"
  define c where "c = nat ?c"
  note d = playlist_invD[OF inv]
  have c0: "0 \<le> ?c" "c < q_length ?q" using assms(2,7) d(4) by (auto simp: c_def)
  have st: "int start \<noteq> to" using assms(2,7,9) by linarith
  obtain w' where w': "playlist_MoveRange thread_env start fin to w = Some (PR_SUCCESS, w')"
    "keys (w_queue w') = move_block start fin (nat to) (keys ?q)"
    "current_song w' = Some (fst (snd (keys (w_queue w') ! nat (moved_current start fin to ?c))))"
    by (rule pt.playlist_MoveRange_ok[OF system_ok[OF assms(1)] inv assms(2-5) st]) (use assms c0 in blast)
  obtain l where l: "fin = start + l" "0 < l" using assms(2) less_imp_add_positive by blast
  obtain t where t: "to = int t" using assms(4) nonneg_int_cases by blast
  have fits: "start + l \<le> length (keys ?q)" "t + l \<le> length (keys ?q)" using assms(3,5) l t d(1) by simp_all
  have "moved_current start fin to ?c = ?c" using assms(7-9) by (auto simp: moved_current_def l t)
  then have cur': "current_song w' = Some (fst (snd (keys (w_queue w') ! c)))" using w'(3) by (simp add: c_def)
  have cur: "current_song w = Some (fst (snd (keys ?q ! c)))"
    using c0 order_song_keys[OF d(1) c0(1) d(4)] identity_order[OF d(1) assms(6), of c] by (simp add: current_song_def c_def)
  define p where "p = c + start - t"
  have cb: "t < c" "c < t + l" "start + l \<le> c" using assms(7-9) by (simp_all add: c_def l t)
  have p: "p < length (keys ?q)" "MoveRange_order start (start + l) t p = c" "p \<noteq> c" "p < q_length ?q"
    using cb c0(2) d(1) l by (auto simp: p_def MoveRange_order_def)
  have "keys (w_queue w') ! c = keys ?q ! p"
    using nth_move_block[OF fits p(1)] p(2) w'(2) by (simp add: l t)
  moreover have "fst (snd (keys ?q ! p)) \<noteq> fst (snd (keys ?q ! c))"
    using ids_match_inj[of "{..<q_length ?q}" ?q p c] p(3,4) c0(2) d(1)
    by (auto simp: queue_inv_def nth_keys item_key_def)
  ultimately show ?thesis using w'(1) cur cur' by auto
qed

theorem MoveRange_loses_current_witness:
  "\<exists>w'. playlist_MoveRange thread_env 0 2 2 (demo_playing 4 3) = Some (PR_SUCCESS, w') \<and>
    current_song w' \<noteq> current_song (demo_playing 4 3)"
  by (rule MoveRange_loses_current) (simp_all add: demo_playing_run demo_queue)

end
