(* ===== verification/Playback_Properties.thy ===== *)
theory Playback_Properties
  imports Playlist_Properties
begin

text \<open>
  The properties of playback: what is played after a command, which operations leave it
  alone, and how the playlist follows the player.
\<close>

section \<open>Modes and order\<close>

text \<open>
  Shuffling a range permutes the entries of the range and leaves the others in place; the
  song that is playing stays current, and a playlist that is not playing forgets it.
\<close>

theorem Shuffle_keeps_current:
  assumes "system w" "start + 1 < fin" "fin \<le> q_length (w_queue w)"
  shows "\<exists>w'. Shuffle thread_env start fin w = Some w' \<and>
    same_outside start fin (keys (w_queue w)) (keys (w_queue w')) \<and> pl_playing (w_list w') = pl_playing (w_list w) \<and>
    current_song w' = (if pl_playing (w_list w) then current_song w else None)"
  by (rule pt.Shuffle_ok[OF system_ok[OF assms(1)] system_list[OF assms(1)] assms(2,3)]) blast

theorem Shuffle_keeps_current_witness:
  "\<exists>w'. Shuffle thread_env 0 3 (demo_playing 4 1) = Some w' \<and>
    same_outside 0 3 (keys (w_queue (demo_playing 4 1))) (keys (w_queue w')) \<and>
    pl_playing (w_list w') = pl_playing (w_list (demo_playing 4 1)) \<and> current_song w' = current_song (demo_playing 4 1)"
  using Shuffle_keeps_current[of "demo_playing 4 1" 0 3] demo_playing_run(2,3,5)[of 4 1] demo_queue(1)[of 4] by auto

text \<open>
  Switching random mode on or off changes no entry, and the current song stays the
  current song; only an idle playlist forgets it when random mode is switched on.
\<close>

theorem SetRandom_keeps_current:
  assumes "system w"
  shows "\<exists>w'. SetRandom thread_env b w = Some w' \<and> q_random (w_queue w') = b \<and> keys (w_queue w') = keys (w_queue w) \<and>
    pl_playing (w_list w') = pl_playing (w_list w) \<and>
    (current_song w' = current_song w \<or> b \<and> \<not> pl_playing (w_list w))"
proof (cases "b = q_random (w_queue w)")
  case False
  show ?thesis by (rule pt.SetRandom_ok[OF system_ok[OF assms] system_list[OF assms] False]) blast
qed (simp add: SetRandom_def)

theorem SetRandom_keeps_current_witness:
  "\<exists>w'. SetRandom thread_env True (demo_playing 3 1) = Some w' \<and> q_random (w_queue w') \<and>
    keys (w_queue w') = keys (w_queue (demo_playing 3 1)) \<and> current_song w' = current_song (demo_playing 3 1)"
  using SetRandom_keeps_current[of "demo_playing 3 1" True] demo_playing_run(2,3)[of 3 1] by auto

text \<open>
  Setting the priority of a range gives the entries of the range that priority, unless
  they are older than the current song, and does not change which song is current.
\<close>

theorem playlist_SetPriority_keeps_current:
  assumes "system w" "start < fin" "fin \<le> q_length (w_queue w)"
  shows "\<exists>w'. playlist_SetPriorityRange thread_env start fin pr w = Some (PR_SUCCESS, w') \<and>
    length (keys (w_queue w')) = length (keys (w_queue w)) \<and>
    (\<forall>p < q_length (w_queue w). keys (w_queue w') ! p = (let (s, i, old) = keys (w_queue w) ! p
       in (s, i, if start \<le> p \<and> p < fin then pr else snd (snd (keys (w_queue w') ! p))))) \<and>
    current_song w' = current_song w \<and> pl_playing (w_list w') = pl_playing (w_list w)"
  by (rule pt.playlist_SetPriorityRange_ok[OF system_ok[OF assms(1)] system_list[OF assms(1)] assms(2,3), of pr]) blast

theorem playlist_SetPriority_keeps_current_witness:
  "\<exists>w'. playlist_SetPriorityRange thread_env 0 2 7 (demo_playing 3 0) = Some (PR_SUCCESS, w') \<and>
    current_song w' = current_song (demo_playing 3 0) \<and> pl_playing (w_list w') = pl_playing (w_list (demo_playing 3 0))"
  using playlist_SetPriority_keeps_current[of "demo_playing 3 0" 0 2 7] demo_playing_run(2,5)[of 3 0] demo_queue(1)[of 3]
  by auto

section \<open>Playing\<close>

text \<open>
  Playing a position plays the song at that position, in every mode; a position outside
  the queue is refused; the queue itself is not changed.
\<close>

theorem PlayPosition_plays:
  assumes "system w" "- (2 ^ 31) \<le> song" "song < 2 ^ 31" "song \<noteq> -1"
  shows "\<exists>r w'. PlayPosition thread_env song w = Some (r, w') \<and> keys (w_queue w') = keys (w_queue w) \<and>
    (if 0 \<le> song \<and> song < int (q_length (w_queue w))
     then r = PR_SUCCESS \<and> pl_playing (w_list w') \<and> current_song w' = Some (PositionToId (w_queue w) (nat song))
     else r = PR_BAD_RANGE)"
  by (rule pt.PlayPosition_ok[OF system_ok[OF assms(1)] system_list[OF assms(1)] assms(2,3)]) (use assms(4) in auto)

theorem PlayPosition_plays_witness:
  "\<exists>r w'. PlayPosition thread_env 2 (demo_playing 3 0) = Some (r, w') \<and> r = PR_SUCCESS \<and> pl_playing (w_list w') \<and>
    current_song w' = Some (PositionToId (w_queue (demo_playing 3 0)) 2)"
  using PlayPosition_plays[of "demo_playing 3 0" 2] demo_playing_run(2,5)[of 3 0] demo_queue(1)[of 3] by auto

text \<open>
  The next command, when nothing is consumed and no reshuffle is due, plays the next song of
  the order, or stops at the end of the list; it does nothing when nothing is playing.
\<close>

theorem PlayNext_plays_next:
  assumes "system w" "\<not> q_consume (w_queue w)" "\<not> q_random (w_queue w)"
  defines "n \<equiv> GetNextOrder (w_queue w) (nat (pl_current (w_list w)))"
  shows "\<exists>w'. PlayNext thread_env w = Some w' \<and> keys (w_queue w') = keys (w_queue w) \<and>
    (if \<not> pl_playing (w_list w) then w' = w
     else if n < 0 then \<not> pl_playing (w_list w') \<and> current_song w' = None
     else pl_playing (w_list w') \<and> current_song w' = Some (order_song (w_queue w) n))"
  by (rule pt.PlayNext_ok[OF system_ok[OF assms(1)] system_list[OF assms(1)]]) (use assms(2,3) in \<open>auto simp: n_def\<close>)

theorem PlayNext_plays_next_witness:
  "\<exists>w'. PlayNext thread_env (demo_playing 3 0) = Some w' \<and> pl_playing (w_list w') \<and>
    current_song w' = Some (order_song (w_queue (demo_playing 3 0)) 1)"
  using PlayNext_plays_next[of "demo_playing 3 0"] demo_playing_run(2,3,5,6)[of 3 0] demo_queue(1-5)[of 3]
  by (auto simp: GetNextOrder_def)



text \<open>Clearing the playlist empties the queue and stops the player.\<close>

theorem Clear_stops:
  assumes "system w"
  shows "\<exists>w'. playlist_Clear thread_env w = Some w' \<and> keys (w_queue w') = [] \<and> current_song w' = None \<and>
    \<not> pl_playing (w_list w') \<and> pc_state (w_pc w') = PS_STOP"
  using pt.playlist_Clear_ok[OF system_ok[OF assms] system_list[OF assms]] by blast

theorem Clear_stops_witness:
  "\<exists>w'. playlist_Clear thread_env (demo_playing 3 2) = Some w' \<and> keys (w_queue w') = [] \<and> current_song w' = None \<and>
    \<not> pl_playing (w_list w') \<and> pc_state (w_pc w') = PS_STOP"
  by (rule Clear_stops) (simp add: demo_playing_run)

section \<open>Following the player\<close>

text \<open>
  When the player has gone on to the song that was queued, the playlist makes it the
  current song, and in consume mode removes the one that has been played.
\<close>

theorem song_started_follows:
  assumes "thread_ok (w_pc w)" "playlist_inv w" "pc_next_song (w_pc w) = None"
    and "pl_playing (w_list w)" "pl_queued (w_list w) \<noteq> -1" "pl_queued (w_list w) \<noteq> pl_current (w_list w)"
  shows "\<exists>w'. playlist_song_started thread_env w = Some w' \<and> current_song w' = queued_ptr w \<and> pl_playing (w_list w') \<and>
    playlist_inv w' \<and>
    keys (w_queue w') = (if q_consume (w_queue w)
      then remove_nth (q_order (w_queue w) ! nat (pl_current (w_list w))) (keys (w_queue w)) else keys (w_queue w))"
  by (rule pt.song_started_ok[OF assms(1,3,2,4,5)]) (use assms(6) in auto)

definition demo_gapless :: "bool \<Rightarrow> unit thread_ext world" where
  "demo_gapless consume = (let w = set_queued 1 (demo_playing 3 0) in set_queue ((w_queue w)\<lparr>q_consume := consume\<rparr>) w)"

lemma demo_gapless_ok:
  "thread_ok (w_pc (demo_gapless b))" "playlist_inv (demo_gapless b)" "pc_next_song (w_pc (demo_gapless b)) = None"
  "pl_playing (w_list (demo_gapless b))" "pl_queued (w_list (demo_gapless b)) = 1" "pl_current (w_list (demo_gapless b)) = 0"
  "q_consume (w_queue (demo_gapless b)) = b" "q_length (w_queue (demo_gapless b)) = 3"
proof -
  let ?w = "demo_playing 3 0"
  have s: "system ?w" and f: "pl_playing (w_list ?w)" "w_queue ?w = w_queue (demo_list 3)" "pl_current (w_list ?w) = 0"
    using demo_playing_run[of 3 0] by simp_all
  have len: "q_length (w_queue ?w) = 3" using demo_queue(1)[of 3] f(2) by simp
  have nx: "pc_next_song (w_pc ?w) = None" using demo_playing_run(7)[of 3 0] by simp
  have pb: "playlist_inv (set_queued 1 ?w)"
    using system_list[OF s] f len nx by (auto simp: playlist_inv_def pl_ready_def pl_base_def Let_def queued_ptr_def matches_def)
  show "playlist_inv (demo_gapless b)"
    using flags_inv(1)[OF pb, of "(w_queue ?w)\<lparr>q_consume := b\<rparr>" b] by (simp add: demo_gapless_def)
  show "thread_ok (w_pc (demo_gapless b))" "pc_next_song (w_pc (demo_gapless b)) = None"
    "pl_playing (w_list (demo_gapless b))" "pl_queued (w_list (demo_gapless b)) = 1" "pl_current (w_list (demo_gapless b)) = 0"
    "q_consume (w_queue (demo_gapless b)) = b" "q_length (w_queue (demo_gapless b)) = 3"
    using system_ok[OF s] nx f len by (simp_all add: demo_gapless_def)
qed

theorem song_started_follows_witness:
  "\<exists>w'. playlist_song_started thread_env (demo_gapless True) = Some w' \<and> current_song w' = queued_ptr (demo_gapless True) \<and>
    pl_playing (w_list w') \<and> playlist_inv w' \<and>
    keys (w_queue w') = remove_nth (q_order (w_queue (demo_gapless True)) ! 0) (keys (w_queue (demo_gapless True)))"
  using song_started_follows[of "demo_gapless True"] demo_gapless_ok[of True] by simp

text \<open>
  A tag that is updated or a database that has changed replaces the metadata of songs in
  the queue and nothing else: the ids, the priorities and the current song stay.
\<close>

theorem TagModified_keeps_ids:
  assumes "system w"
  shows "\<exists>w'. TagModified s w = Some w' \<and> map snd (keys (w_queue w')) = map snd (keys (w_queue w)) \<and>
    current_song w' = current_song w \<and> w_pc w' = w_pc w"
  using TagModified_ok[OF system_list[OF assms], of s] by blast

theorem TagModified_keeps_ids_witness:
  "\<exists>w'. TagModified (NewRemote ''a'') (demo_playing 3 0) = Some w' \<and>
    map snd (keys (w_queue w')) = map snd (keys (w_queue (demo_playing 3 0))) \<and>
    current_song w' = current_song (demo_playing 3 0) \<and> w_pc w' = w_pc (demo_playing 3 0)"
  by (rule TagModified_keeps_ids) (simp add: demo_playing_run)

end
