(* ===== verification/Player_Properties.thy ===== *)
theory Player_Properties
  imports Playback_Properties
begin

text \<open>
  The properties of the player thread: it answers, it does not leak pipes, it plays on opened
  outputs only, its waiting ends, and the one assertion of it that can fail.
\<close>

section \<open>The thread answers\<close>



text \<open>
  A song is queued whenever none is: a stopped player starts it or reports an error, a
  playing one keeps it for the end of the current song.
\<close>

theorem queue_answered:
  assumes "system w" "pc_next_song (w_pc w) = None"
  shows "\<exists>t. answer_command ((w_pc w)\<lparr>pc_next_song := Some s, pc_command := PC_QUEUE\<rparr>) = Some t \<and> thread_ok t \<and>
    (if pc_state (w_pc w) = PS_STOP then pc_next_song t = None else pc_next_song t = None \<or> pc_next_song t = Some s)"
  using answer_queue[OF system_ok[OF assms(1)] assms(2), of s] by auto

theorem queue_answered_witness:
  "\<exists>t. answer_command ((w_pc (demo_list 3))\<lparr>pc_next_song := Some (NewRemote ''x''), pc_command := PC_QUEUE\<rparr>) = Some t \<and>
    thread_ok t \<and> pc_next_song t = None"
proof -
  have s: "pc_state (w_pc (demo_list 3)) = PS_STOP" "pc_next_song (w_pc (demo_list 3)) = None"
    using demo_queue(11)[of 3] by (simp_all add: demo_thread_def new_thread_def)
  show ?thesis using queue_answered[OF demo_list_system[of 3] s(2), of "NewRemote ''x''"] s(1) by simp
qed

section \<open>Resources\<close>



section \<open>A thread that plays\<close>

definition cd_format :: AudioFormat where
  "cd_format = \<lparr>af_sample_rate = 44100, af_format = SF_S16, af_channels = 2\<rparr>"

text \<open>The decoder has been started for the song that is to be played, or for the one behind it.\<close>

definition demo_starting :: "input list \<Rightarrow> thread" where
  "demo_starting tape = demo_thread\<lparr>pc_state := PS_PLAY, th_tape := tape, th_pipes := [0 \<mapsto> []], th_next_pipe := 1,
     th_dc := silent_dc\<lparr>dc_state := DS_START, dc_song := Some (NewRemote ''a''), dc_pipe := Some 0\<rparr>,
     th_player := Some ((new_player 0 AudioFormat_Undefined)\<lparr>py_queued := False, py_decoder_starting := True,
       py_song := Some (NewRemote ''a'')\<rparr>)\<rparr>"

definition demo_ahead :: "input list \<Rightarrow> thread" where
  "demo_ahead tape = demo_thread\<lparr>pc_state := PS_PLAY, pc_command := PC_SEEK, pc_next_song := Some (NewRemote ''b''),
     th_tape := tape, th_pipes := [0 \<mapsto> [], 1 \<mapsto> []], th_next_pipe := 2, th_calls := [OC_open True],
     th_dc := silent_dc\<lparr>dc_state := DS_START, dc_song := Some (NewRemote ''b''), dc_pipe := Some 1\<rparr>,
     th_player := Some ((new_player 0 cd_format)\<lparr>py_output_open := True, py_song := Some (NewRemote ''a'')\<rparr>)\<rparr>"

definition busy :: input where
  "busy = \<lparr>in_events = [], in_ok = True, in_count = 0, in_time = 0, in_error = []\<rparr>"

definition started_input :: input where
  "started_input = \<lparr>in_events = [DE_initialized cd_format cd_format True 180], in_ok = True, in_count = 0, in_time = 0, in_error = []\<rparr>"

lemma cd_valid: "IsValid cd_format" "IsDefined cd_format"
  by (simp_all add: cd_format_def audio_format_defs audio_valid_sample_rate_def 
      audio_valid_channel_count_def MAX_CHANNELS_def)

lemma demo_starting_playing:
  "\<exists>py. playing (demo_starting tape) py \<and> py_decoder_starting py"
  by (rule exI[of _ "(new_player 0 AudioFormat_Undefined)\<lparr>py_queued := False, py_decoder_starting := True,
       py_song := Some (NewRemote ''a'')\<rparr>"])
    (auto simp: demo_starting_def inv_defs new_player_def demo_thread_def new_thread_def silent_dc_def dc_ok_def
      IsDefined_def AudioFormat_Undefined_def)

lemma demo_ahead_playing:
  "playing (demo_ahead tape) ((new_player 0 cd_format)\<lparr>py_output_open := True, py_song := Some (NewRemote ''a'')\<rparr>)"
  using cd_valid
  by (auto simp: demo_ahead_def inv_defs new_player_def demo_thread_def new_thread_def silent_dc_def dc_ok_def
      IsDefined_def AudioFormat_Undefined_def)

section \<open>Waiting and seeking\<close>

text \<open>
  The loop in which a seek waits for the decoder to start ends, for every behaviour of the
  decoder and the outputs, and it says truly whether the decoder is up.
\<close>

theorem startup_loop_ends:
  assumes "playing t py" "py_decoder_starting py" "length (th_tape t) + 2 \<le> n"
  shows "\<exists>ok t' py'. wait_startup n t = Some (ok, t') \<and> playing t' py' \<and>
    (ok \<longrightarrow> \<not> py_decoder_starting py' \<and> dc_state (th_dc t') \<noteq> DS_START \<and> IsDefined (py_play_audio_format py')) \<and>
    pc_next_song t' = pc_next_song t"
proof -
  have "startup_fuel t \<le> n" using assms(3) by (simp add: startup_fuel_def)
  from wait_startup_ok[OF assms(1) this] obtain ok t' py' where r: "wait_startup n t = Some (ok, t')" "playing t' py'"
    "pc_next_song t' = pc_next_song t" "ok \<longrightarrow> \<not> py_decoder_starting py'" "ok \<longrightarrow> dc_state (th_dc t') \<noteq> DS_START"
    using assms(2) by blast
  moreover have "IsDefined (py_play_audio_format py')" if ok using r(2,4) that by (auto simp: inv_defs)
  ultimately show ?thesis by blast
qed

theorem startup_loop_ends_witness:
  "\<exists>ok t'. wait_startup 5 (demo_starting [busy, busy, started_input]) = Some (ok, t')"
proof -
  obtain py where "playing (demo_starting [busy, busy, started_input]) py" "py_decoder_starting py"
    using demo_starting_playing by blast
  from startup_loop_ends[OF this, of 5] show ?thesis by (auto simp: demo_starting_def)
qed

text \<open>
  C34: a seek to the next song, while the decoder is still about to start decoding it ahead,
  makes an assertion of \<open>DecoderControl::Seek\<close> fail: the player's flag \<open>decoder_starting\<close> is about
  the current song only, so nothing waits for the decoder.
\<close>

theorem seek_conflict_asserts:
  assumes "playing t py" "pc_command t = PC_SEEK" "pc_next_song t = Some s" "seek_conflict s (lock t) py"
  shows "ProcessCommand t = None"
proof -
  let ?l = "lock t"
  have pl: "playing ?l py" by (rule playing_lock[OF assms(1)])
  have l: "pc_command ?l = PC_SEEK" "pc_next_song ?l = Some s" using assms(2,3) by simp_all
  have st: "dc_state (th_dc ?l) = DS_START" "\<not> py_decoder_starting py" using assms(4) by (simp_all add: seek_conflict_def)
  obtain d where d: "dc_song (th_dc ?l) = Some d" "SongEquals d s" using assms(4) by (auto simp: seek_conflict_def)
  have same: "dc_IsCurrentSong (th_dc ?l) s = Some True" using st(1) d by (simp add: dc_IsCurrentSong_def)
  have pipe: "dc_pipe (th_dc ?l) \<noteq> None"
    using coreD(3)[OF playingD(1)[OF pl]] st(1) by (auto simp: dc_ok_def dc_IsIdle_def)
  obtain u pu where u: "do { t \<leftarrow> (if \<not> IsDecoderAtCurrentSong py ?l
                     then do { q \<leftarrow> dc_pipe (th_dc ?l); ClearAndReplacePipe q ?l } else Some ?l);
                Some (True, on_player (py_queued_update (\<lambda>_. False)) (t\<lparr>pc_next_song := None\<rparr>)) } = Some (True, u)"
    "playing u pu" "dc_state (th_dc u) = DS_START" "\<not> py_decoder_starting pu"
    using exchange_ok[OF pl l(2) pipe l(1)] st by auto
  have "seek_prepare s t = Some (True, u)"
    using playingD(6)[OF assms(1)] u(1) by (simp add: seek_prepare_def Let_def same)
  moreover have "wait_startup (startup_fuel u) u = Some (True, u)"
    using playingD(6)[OF u(2)] u(4) by (simp add: startup_fuel_def)
  moreover have "seek_send ms u = None" for ms
    using u(3) by (simp add: seek_send_def dc_Seek_def Let_def)
  ultimately show ?thesis
    using playingD(6)[OF assms(1)] assms(2,3) by (simp add: ProcessCommand_def SeekDecoder_def)
qed

theorem seek_conflict_asserts_witness:
  "ProcessCommand (demo_ahead [busy, busy]) = None"
proof (rule seek_conflict_asserts[OF demo_ahead_playing])
  show "pc_command (demo_ahead [busy, busy]) = PC_SEEK" "pc_next_song (demo_ahead [busy, busy]) = Some (NewRemote ''b'')"
    by (simp_all add: demo_ahead_def)
  have lk: "lock (demo_ahead [busy, busy]) = (demo_ahead [busy, busy])\<lparr>th_tape := [busy]\<rparr>"
    by (simp add: lock_def yield_def demo_ahead_def busy_def del: yield_eq)
  show "seek_conflict (NewRemote ''b'') (lock (demo_ahead [busy, busy]))
      ((new_player 0 cd_format)\<lparr>py_output_open := True, py_song := Some (NewRemote ''a'')\<rparr>)"
    unfolding lk by (simp add: seek_conflict_def demo_ahead_def new_player_def SongEquals_def directory_is_same_def song_ctor_defs)
qed

section \<open>Playing\<close>

text \<open>
  At the border between two songs the old pipe is freed and the decoder's pipe becomes the
  player's; when the client wants a pause there (single mode), the player pauses.
\<close>

theorem border_pause_pauses:
  assumes "playing t py" "IsDecoderAtNextSong py t" "th_pipes t (py_pipe py) = Some []"
  shows "\<exists>ok t' py'. SongBorder t = Some (ok, t') \<and> playing t' py' \<and> pc_next_song t' = None \<and> \<not> py_queued py' \<and>
    Some (py_pipe py') = dc_pipe (th_dc t) \<and> (ok \<and> pc_border_pause t \<longrightarrow> pc_state t' = PS_PAUSE \<and> py_paused py')"
  using SongBorder_ok[OF assms] by blast

definition demo_border :: thread where
  "demo_border = demo_thread\<lparr>pc_state := PS_PLAY, pc_next_song := Some (NewRemote ''b''), pc_border_pause := True,
     th_pipes := [0 \<mapsto> [], 1 \<mapsto> []], th_next_pipe := 2, th_calls := [OC_open True],
     th_dc := silent_dc\<lparr>dc_state := DS_DECODE, dc_out_audio_format := cd_format, dc_song := Some (NewRemote ''b''), dc_pipe := Some 1\<rparr>,
     th_player := Some ((new_player 0 cd_format)\<lparr>py_output_open := True, py_song := Some (NewRemote ''a'')\<rparr>)\<rparr>"

theorem border_pause_pauses_witness:
  "\<exists>ok t' py'. SongBorder demo_border = Some (ok, t') \<and> playing t' py' \<and> pc_next_song t' = None \<and> \<not> py_queued py' \<and>
    py_pipe py' = 1"
proof -
  let ?py = "(new_player 0 cd_format)\<lparr>py_output_open := True, py_song := Some (NewRemote ''a'')\<rparr>"
  have "playing demo_border ?py"
    using cd_valid
    by (auto simp: demo_border_def inv_defs new_player_def demo_thread_def new_thread_def silent_dc_def dc_ok_def
        IsDefined_def AudioFormat_Undefined_def)
  moreover have "IsDecoderAtNextSong ?py demo_border" "th_pipes demo_border (py_pipe ?py) = Some []"
    by (simp_all add: demo_border_def new_player_def IsDecoderAtNextSong_def IsDecoderAtCurrentSong_def)
  moreover have "dc_pipe (th_dc demo_border) = Some 1" by (simp add: demo_border_def)
  ultimately show ?thesis using border_pause_pauses[of demo_border ?py] by auto
qed

text \<open>
  Songs are cross-faded only when the formats are the same, and never over more chunks than
  the buffer has behind the part that is filled before playing.
\<close>

theorem cross_fade_bounded:
  assumes "af = old_format \<Longrightarrow> IsValid af"
  shows "\<exists>n. Calculate s total_time rg rgp ms mp af old_format max_chunks = Some n \<and> n \<le> max_chunks \<and>
    (af \<noteq> old_format \<longrightarrow> n = 0)"
  using Calculate_total[of af old_format s total_time rg rgp ms mp max_chunks] assms by blast

theorem cross_fade_bounded_witness:
  "\<exists>n. Calculate \<lparr>cf_duration = 5, cf_mixramp_db = 0, cf_mixramp_delay = - 1\<rparr> 100 0 0 None None cd_format cd_format 100 = Some n \<and> n \<le> 100"
  using cross_fade_bounded[of cd_format cd_format "\<lparr>cf_duration = 5, cf_mixramp_db = 0, cf_mixramp_delay = - 1\<rparr>" 100 0 0 None None 100]
    cd_valid(1) by blast

end
