(* ===== verification/Output_Model.thy ===== *)
theory Output_Model
  imports Decoder_Control
begin

text \<open>
  The audio outputs: one thread per output (src/src/OutputThread.cxx), the functions by which the
  player controls one output (src/src/OutputControl.cxx) and those that act on all of them
  (src/src/OutputAll.cxx).  All outputs read the same pipe of chunks; the player appends to it and
  takes a chunk out when no output needs it any more.

  An output thread is a state machine: a step is what the thread does between two places at which
  it gives its mutex away.  Wherever the player locks an output or waits for it, a turn is taken
  from a tape: any output threads may make any number of steps, with any answers of their
  devices.  When the tape is used up, each thread that the player waits for makes steps.  A
  failing assertion, or an access to a chunk or a pipe that has been freed, is None.

  Not modelled: the mixers, the tags sent to a device, the filters and the data they compute.
\<close>

section \<open>Data\<close>

datatype audio_output_command =
  AO_COMMAND_NONE | AO_COMMAND_ENABLE | AO_COMMAND_DISABLE | AO_COMMAND_OPEN | AO_COMMAND_REOPEN |
  AO_COMMAND_CLOSE | AO_COMMAND_PAUSE | AO_COMMAND_DRAIN | AO_COMMAND_CANCEL | AO_COMMAND_KILL

text \<open>
  Where a thread is: at the head of its loop, behind the \<open>switch\<close>, playing a chunk, in the loop
  of \<open>ao_pause\<close>, waiting (has it been signalled?), or at its end.
\<close>

datatype ao_place = AT_TOP | AT_PLAY | AT_CHUNK nat | AT_PAUSED | AT_WAIT bool | AT_END

text \<open>\<open>ao_given\<close> records the chunks given to the device since it was opened, resumed or flushed.\<close>

record audio_output =
  ao_has_enable :: bool
  ao_has_disable :: bool
  ao_has_mixer :: bool
  ao_always_on :: bool
  ao_enabled :: bool
  ao_really_enabled :: bool
  ao_open :: bool
  ao_paused :: bool
  ao_allow_play :: bool
  ao_in_playback_loop :: bool
  ao_woken_for_play :: bool
  ao_fail_timer :: bool
  ao_config_audio_format :: AudioFormat
  ao_in_audio_format :: AudioFormat
  ao_out_audio_format :: AudioFormat
  ao_thread :: bool
  ao_command :: audio_output_command
  ao_pipe :: "nat option"
  ao_chunk :: "nat option"
  ao_chunk_finished :: bool
  ao_at :: ao_place
  ao_given :: "nat list"

text \<open>A chunk in the pipe of the outputs, with its address and its format.\<close>

record pipe_chunk =
  pk_addr :: nat
  pk_chunk :: music_chunk
  pk_format :: AudioFormat

type_synonym output_pipe = "(nat \<times> pipe_chunk list) option"

text \<open>
  What a device answers in one step: whether it could be enabled and opened, the format behind the
  filters (any invalid one stands for their failure) and the format it is opened with, whether the
  chunk was filtered, whether it plays or pauses without failing, and whether it has taken the
  whole chunk.
\<close>

record device =
  dv_enable :: bool
  dv_filter :: AudioFormat
  dv_open :: bool
  dv_format :: AudioFormat
  dv_filtered :: bool
  dv_running :: bool
  dv_taken :: bool

record turn =
  tn_steps :: "(nat \<times> device) list"
  tn_elapsed :: nat

record output_all =
  oa_input_audio_format :: AudioFormat
  oa_outputs :: "audio_output list"
  oa_music_buffer :: bool
  oa_mp :: output_pipe
  oa_next_mp :: nat
  oa_elapsed_time :: real
  oa_removed :: "nat list"
  oa_returned :: "music_chunk list"
  oa_tape :: "turn list"
  oa_steady :: bool

text \<open>The callers check what the code asserts here: that the format is valid.\<close>

definition pk_CheckFormat :: "AudioFormat \<Rightarrow> pipe_chunk \<Rightarrow> bool" where
  "pk_CheckFormat af c \<longleftrightarrow> ck_length (pk_chunk c) = 0 \<or> pk_format c = af"

text \<open>\<open>chunk->next\<close>; None outside when the chunk is not in the pipe any more.\<close>

fun next_chunk :: "pipe_chunk list \<Rightarrow> nat \<Rightarrow> nat option option" where
  "next_chunk [] c = None"
| "next_chunk (x # xs) c =
     (if pk_addr x = c then Some (case xs of [] \<Rightarrow> None | y # _ \<Rightarrow> Some (pk_addr y)) else next_chunk xs c)"

definition pipe_Contains :: "pipe_chunk list \<Rightarrow> nat \<Rightarrow> bool" where
  "pipe_Contains cs c \<longleftrightarrow> c \<in> pk_addr ` set cs"

text \<open>
  What OutputInit.cxx makes of a plugin and a configuration.  The formats and the fields about the
  chunk are left unset there, and are not read before they are set.
\<close>

definition ao_base_init :: "bool \<Rightarrow> bool \<Rightarrow> bool \<Rightarrow> bool \<Rightarrow> bool \<Rightarrow> AudioFormat \<Rightarrow> AudioFormat \<Rightarrow> audio_output" where
  "ao_base_init has_enable has_disable has_mixer always_on enabled config_format unset =
     \<lparr>ao_has_enable = has_enable, ao_has_disable = has_disable, ao_has_mixer = has_mixer, ao_always_on = always_on,
      ao_enabled = enabled, ao_really_enabled = False, ao_open = False, ao_paused = False, ao_allow_play = True,
      ao_in_playback_loop = False, ao_woken_for_play = False, ao_fail_timer = False,
      ao_config_audio_format = config_format, ao_in_audio_format = unset, ao_out_audio_format = unset,
      ao_thread = False, ao_command = AO_COMMAND_NONE, ao_pipe = None, ao_chunk = None, ao_chunk_finished = False,
      ao_at = AT_TOP, ao_given = []\<rparr>"

text \<open>The state of OutputAll.cxx when the program starts.\<close>

definition audio_output_all_init :: "audio_output list \<Rightarrow> turn list \<Rightarrow> bool \<Rightarrow> output_all" where
  "audio_output_all_init outputs tape steady =
     \<lparr>oa_input_audio_format = AudioFormat_Undefined, oa_outputs = outputs, oa_music_buffer = False, oa_mp = None,
      oa_next_mp = 0, oa_elapsed_time = - 1, oa_removed = [], oa_returned = [], oa_tape = tape, oa_steady = steady\<rparr>"

section \<open>The output thread\<close>

definition signal :: "audio_output \<Rightarrow> audio_output" where
  "signal a = (case ao_at a of AT_WAIT _ \<Rightarrow> a\<lparr>ao_at := AT_WAIT True\<rparr> | _ \<Rightarrow> a)"

definition ao_command_finished :: "audio_output \<Rightarrow> audio_output option" where
  "ao_command_finished a =
     do { ensure (ao_command a \<noteq> AO_COMMAND_NONE); Some (a\<lparr>ao_command := AO_COMMAND_NONE\<rparr>) }"

definition do_enable :: "device \<Rightarrow> audio_output \<Rightarrow> bool \<times> audio_output" where
  "do_enable d a =
     (if ao_really_enabled a then (True, a)
      else if \<not> dv_enable d then (False, a)
      else (True, a\<lparr>ao_really_enabled := True\<rparr>))"

definition do_close :: "audio_output \<Rightarrow> audio_output option" where
  "do_close a =
     do { ensure (ao_open a); Some (a\<lparr>ao_pipe := None, ao_chunk := None, ao_open := False, ao_given := []\<rparr>) }"

definition do_disable :: "audio_output \<Rightarrow> audio_output option" where
  "do_disable a =
     do { a \<leftarrow> (if ao_open a then do_close a else Some a);
          Some (if ao_really_enabled a then a\<lparr>ao_really_enabled := False\<rparr> else a) }"

text \<open>The filters either fail or return a valid format, which the code asserts.\<close>

definition do_open :: "device \<Rightarrow> audio_output \<Rightarrow> audio_output option" where
  "do_open d a =
     do {
       ensure (\<not> ao_open a);
       ensure (ao_pipe a \<noteq> None);
       ensure (ao_chunk a = None);
       ensure (IsValid (ao_in_audio_format a));
       let a = a\<lparr>ao_fail_timer := False\<rparr>;
       let (ok, a) = do_enable d a;
       if \<not> ok then Some a
       else if \<not> IsValid (dv_filter d) then Some (a\<lparr>ao_fail_timer := True\<rparr>)
       else do {
         let a = a\<lparr>ao_out_audio_format := ApplyMask (dv_filter d) (ao_config_audio_format a)\<rparr>;
         if \<not> dv_open d then Some (a\<lparr>ao_fail_timer := True\<rparr>)
         else Some (a\<lparr>ao_out_audio_format := dv_format d, ao_open := True, ao_given := []\<rparr>) } }"

definition do_reopen_filter :: "device \<Rightarrow> audio_output \<Rightarrow> audio_output" where
  "do_reopen_filter d a =
     (if \<not> IsValid (dv_filter d)
      then a\<lparr>ao_pipe := None, ao_chunk := None, ao_open := False, ao_fail_timer := True, ao_given := []\<rparr>
      else a)"

definition do_reopen :: "device \<Rightarrow> audio_output \<Rightarrow> audio_output option" where
  "do_reopen d a =
     do {
       a \<leftarrow> (if \<not> IsFullyDefined (ao_config_audio_format a)
            then do {
              a \<leftarrow> (if ao_open a then do { let mp = ao_pipe a; a \<leftarrow> do_close a; Some (a\<lparr>ao_pipe := mp\<rparr>) } else Some a);
              Some (a\<lparr>ao_out_audio_format := ApplyMask (ao_in_audio_format a) (ao_config_audio_format a)\<rparr>) }
            else Some a);
       if ao_open a then Some (do_reopen_filter d a) else do_open d a }"

definition ao_next_chunk :: "output_pipe \<Rightarrow> audio_output \<Rightarrow> nat option option" where
  "ao_next_chunk mp a =
     do { p \<leftarrow> ao_pipe a;
          (q, cs) \<leftarrow> mp;
          ensure (p = q);
          case ao_chunk a of
            Some c \<Rightarrow> next_chunk cs c
          | None \<Rightarrow> Some (case cs of [] \<Rightarrow> None | x # _ \<Rightarrow> Some (pk_addr x)) }"

text \<open>The loop of \<open>ao_play\<close> goes on with a chunk, or ends and signals the player.\<close>

definition play_next :: "nat option \<Rightarrow> audio_output \<Rightarrow> audio_output option" where
  "play_next n a =
     (case n of
        Some c \<Rightarrow>
          if ao_command a = AO_COMMAND_NONE
          then do { ensure (\<not> ao_chunk_finished a);
                    Some (a\<lparr>ao_chunk := Some c, ao_at := AT_CHUNK c, ao_given := ao_given a @ [c]\<rparr>) }
          else Some (a\<lparr>ao_in_playback_loop := False, ao_chunk_finished := True, ao_at := AT_TOP\<rparr>)
      | None \<Rightarrow> Some (a\<lparr>ao_in_playback_loop := False, ao_chunk_finished := True, ao_at := AT_TOP\<rparr>))"

text \<open>What follows the \<open>switch\<close>: playing, or waiting.\<close>

definition ao_rest :: "output_pipe \<Rightarrow> audio_output \<Rightarrow> audio_output option" where
  "ao_rest mp a =
     do {
       n \<leftarrow> (if ao_open a \<and> ao_allow_play a then ao_next_chunk mp a else Some None);
       case n of
         Some c \<Rightarrow> do {
           ensure (\<not> ao_in_playback_loop a);
           play_next (Some c) (a\<lparr>ao_chunk_finished := False, ao_in_playback_loop := True\<rparr>) }
       | None \<Rightarrow>
           Some (if ao_command a = AO_COMMAND_NONE
                 then a\<lparr>ao_woken_for_play := False, ao_at := AT_WAIT False\<rparr>
                 else a\<lparr>ao_at := AT_TOP\<rparr>) }"

text \<open>The rest of \<open>ao_play_chunk\<close> for the chunk \<open>c\<close>, and what \<open>ao_play\<close> does behind it.\<close>

definition ao_play_chunk :: "device \<Rightarrow> output_pipe \<Rightarrow> nat \<Rightarrow> audio_output \<Rightarrow> audio_output option" where
  "ao_play_chunk d mp c a =
     do {
       (q, cs) \<leftarrow> mp;
       k \<leftarrow> List.find (\<lambda>k. pk_addr k = c) cs;
       ensure (\<not> ck_IsEmpty (pk_chunk k));
       ensure (IsValid (ao_in_audio_format a));
       ensure (pk_CheckFormat (ao_in_audio_format a) k);
       let frame_size = unat (GetFrameSize (ao_in_audio_format a));
       ensure (frame_size \<noteq> 0 \<and> ck_length (pk_chunk k) mod frame_size = 0);
       if \<not> dv_filtered d \<or> \<not> dv_running d
       then do {
         a \<leftarrow> do_close a;
         ensure (dv_filtered d \<longrightarrow> \<not> ao_fail_timer a);
         play_next None (a\<lparr>ao_fail_timer := True\<rparr>) }
       else if \<not> dv_taken d \<and> ao_command a = AO_COMMAND_NONE then Some a
       else do {
         ensure (ao_chunk a = Some c);
         n \<leftarrow> next_chunk cs c;
         ensure (ao_in_playback_loop a);
         play_next n a } }"

definition do_pause :: "device \<Rightarrow> audio_output \<Rightarrow> audio_output option" where
  "do_pause d a =
     (if \<not> dv_running d then do { a \<leftarrow> do_close a; Some (a\<lparr>ao_paused := False, ao_at := AT_TOP\<rparr>) }
      else if ao_command a = AO_COMMAND_NONE then Some a
      else Some (a\<lparr>ao_paused := False, ao_at := AT_TOP\<rparr>))"

text \<open>The \<open>switch\<close> of \<open>audio_output_task\<close>.\<close>

definition ao_dispatch :: "device \<Rightarrow> output_pipe \<Rightarrow> audio_output \<Rightarrow> audio_output option" where
  "ao_dispatch d mp a =
     (case ao_command a of
        AO_COMMAND_NONE \<Rightarrow> ao_rest mp a
      | AO_COMMAND_ENABLE \<Rightarrow>
          do { a \<leftarrow> ao_command_finished (snd (do_enable d a)); Some (a\<lparr>ao_at := AT_PLAY\<rparr>) }
      | AO_COMMAND_DISABLE \<Rightarrow>
          do { a \<leftarrow> do_disable a; a \<leftarrow> ao_command_finished a; Some (a\<lparr>ao_at := AT_PLAY\<rparr>) }
      | AO_COMMAND_OPEN \<Rightarrow>
          do { a \<leftarrow> do_open d a; a \<leftarrow> ao_command_finished a; Some (a\<lparr>ao_at := AT_PLAY\<rparr>) }
      | AO_COMMAND_REOPEN \<Rightarrow>
          do { a \<leftarrow> do_reopen d a; a \<leftarrow> ao_command_finished a; Some (a\<lparr>ao_at := AT_PLAY\<rparr>) }
      | AO_COMMAND_CLOSE \<Rightarrow>
          do { ensure (ao_open a); ensure (ao_pipe a \<noteq> None);
               a \<leftarrow> do_close a; a \<leftarrow> ao_command_finished a; Some (a\<lparr>ao_at := AT_PLAY\<rparr>) }
      | AO_COMMAND_PAUSE \<Rightarrow>
          if \<not> ao_open a then do { a \<leftarrow> ao_command_finished a; Some (a\<lparr>ao_at := AT_PLAY\<rparr>) }
          else do { a \<leftarrow> ao_command_finished (a\<lparr>ao_paused := True\<rparr>); Some (a\<lparr>ao_at := AT_PAUSED\<rparr>) }
      | AO_COMMAND_DRAIN \<Rightarrow>
          do { ensure (ao_open a \<longrightarrow> ao_chunk a = None);
               n \<leftarrow> (if ao_open a then ao_next_chunk mp a else Some None);
               ensure (n = None);
               a \<leftarrow> ao_command_finished a; Some (a\<lparr>ao_at := AT_TOP\<rparr>) }
      | AO_COMMAND_CANCEL \<Rightarrow>
          do { a \<leftarrow> ao_command_finished (a\<lparr>ao_chunk := None, ao_given := []\<rparr>); Some (a\<lparr>ao_at := AT_TOP\<rparr>) }
      | AO_COMMAND_KILL \<Rightarrow>
          do { a \<leftarrow> ao_command_finished (a\<lparr>ao_chunk := None, ao_given := []\<rparr>); Some (a\<lparr>ao_at := AT_END\<rparr>) })"

definition ao_step :: "device \<Rightarrow> output_pipe \<Rightarrow> audio_output \<Rightarrow> audio_output option" where
  "ao_step d mp a =
     (if \<not> ao_thread a then Some a
      else case ao_at a of
        AT_TOP \<Rightarrow> ao_dispatch d mp a
      | AT_PLAY \<Rightarrow> ao_rest mp a
      | AT_CHUNK c \<Rightarrow> ao_play_chunk d mp c a
      | AT_PAUSED \<Rightarrow> do_pause d a
      | AT_WAIT signalled \<Rightarrow> Some (if signalled then a\<lparr>ao_at := AT_TOP\<rparr> else a)
      | AT_END \<Rightarrow> Some a)"

section \<open>Taking turns\<close>

definition get_ao :: "nat \<Rightarrow> output_all \<Rightarrow> audio_output" where
  "get_ao i st = oa_outputs st ! i"

definition put_ao :: "nat \<Rightarrow> audio_output \<Rightarrow> output_all \<Rightarrow> output_all" where
  "put_ao i a st = st\<lparr>oa_outputs := (oa_outputs st)[i := a]\<rparr>"

text \<open>
  In a steady environment no device fails while a command is waiting for its thread.
\<close>

definition answer :: "bool \<Rightarrow> audio_output \<Rightarrow> device \<Rightarrow> device" where
  "answer steady a d = (if steady \<and> ao_command a \<noteq> AO_COMMAND_NONE then d\<lparr>dv_filtered := True, dv_running := True\<rparr> else d)"

text \<open>Threads whose mutex is held by the player cannot run.\<close>

fun run_steps :: "nat list \<Rightarrow> (nat \<times> device) list \<Rightarrow> output_all \<Rightarrow> output_all option" where
  "run_steps held [] st = Some st"
| "run_steps held ((i, d) # steps) st =
     (if i < length (oa_outputs st) \<and> i \<notin> set held
      then do { a \<leftarrow> ao_step (answer (oa_steady st) (get_ao i st) d) (oa_mp st) (get_ao i st);
                run_steps held steps (put_ao i a st) }
      else run_steps held steps st)"

definition last_turn :: turn where
  "last_turn = \<lparr>tn_steps = [], tn_elapsed = 0\<rparr>"

definition take_turn :: "nat list \<Rightarrow> output_all \<Rightarrow> (turn \<times> output_all) option" where
  "take_turn held st =
     (case oa_tape st of
        [] \<Rightarrow> Some (last_turn, st)
      | t # ts \<Rightarrow> map_option (Pair t) (run_steps held (tn_steps t) (st\<lparr>oa_tape := ts\<rparr>)))"

text \<open>The player locks an output, or gives the others a chance to run.\<close>

definition oa_lock :: "output_all \<Rightarrow> output_all option" where
  "oa_lock st = map_option snd (take_turn [] st)"

text \<open>The player sleeps; behind the end of the tape every thread makes a step.\<close>

definition good_device :: device where
  "good_device = \<lparr>dv_enable = True, dv_filter = AudioFormat_Undefined, dv_open = True, dv_format = AudioFormat_Undefined,
     dv_filtered = True, dv_running = True, dv_taken = True\<rparr>"

definition oa_sleep :: "output_all \<Rightarrow> output_all option" where
  "oa_sleep st =
     (if oa_tape st = [] then run_steps [] (map (\<lambda>i. (i, good_device)) [0..<length (oa_outputs st)]) st
      else oa_lock st)"

definition wait_fuel :: "output_all \<Rightarrow> nat" where
  "wait_fuel st = length (oa_tape st) + 4"

text \<open>A loop over all outputs.\<close>

fun each_output :: "(nat \<Rightarrow> output_all \<Rightarrow> output_all option) \<Rightarrow> nat list \<Rightarrow> output_all \<Rightarrow> output_all option" where
  "each_output f [] st = Some st"
| "each_output f (i # is) st = do { st \<leftarrow> f i st; each_output f is st }"

definition all_outputs :: "output_all \<Rightarrow> nat list" where
  "all_outputs st = [0..<length (oa_outputs st)]"

section \<open>One output\<close>

fun ao_command_wait :: "nat \<Rightarrow> nat \<Rightarrow> output_all \<Rightarrow> output_all option" where
  "ao_command_wait 0 i st = None"
| "ao_command_wait (Suc fuel) i st =
     (if ao_command (get_ao i st) = AO_COMMAND_NONE then Some st
      else do { st \<leftarrow> oa_sleep st; ao_command_wait fuel i st })"

definition ao_command_async :: "nat \<Rightarrow> audio_output_command \<Rightarrow> output_all \<Rightarrow> output_all option" where
  "ao_command_async i cmd st =
     do { ensure (ao_command (get_ao i st) = AO_COMMAND_NONE);
          Some (put_ao i (signal ((get_ao i st)\<lparr>ao_command := cmd\<rparr>)) st) }"

definition send_command :: "nat \<Rightarrow> audio_output_command \<Rightarrow> output_all \<Rightarrow> output_all option" where
  "send_command i cmd st =
     do { st \<leftarrow> ao_command_async i cmd st; ao_command_wait (wait_fuel st) i st }"

definition ao_lock_command :: "nat \<Rightarrow> audio_output_command \<Rightarrow> output_all \<Rightarrow> output_all option" where
  "ao_lock_command i cmd st = do { st \<leftarrow> oa_lock st; send_command i cmd st }"

definition audio_output_thread_start :: "nat \<Rightarrow> output_all \<Rightarrow> output_all option" where
  "audio_output_thread_start i st =
     do { ensure (ao_command (get_ao i st) = AO_COMMAND_NONE);
          Some (put_ao i ((get_ao i st)\<lparr>ao_thread := True, ao_at := AT_TOP\<rparr>) st) }"

definition audio_output_enable :: "nat \<Rightarrow> output_all \<Rightarrow> output_all option" where
  "audio_output_enable i st =
     (if \<not> ao_thread (get_ao i st) \<and> \<not> ao_has_enable (get_ao i st)
      then Some (put_ao i ((get_ao i st)\<lparr>ao_really_enabled := True\<rparr>) st)
      else do {
        st \<leftarrow> (if \<not> ao_thread (get_ao i st) then audio_output_thread_start i st else Some st);
        ao_lock_command i AO_COMMAND_ENABLE st })"

definition audio_output_disable :: "nat \<Rightarrow> output_all \<Rightarrow> output_all option" where
  "audio_output_disable i st =
     (if \<not> ao_thread (get_ao i st)
      then if \<not> ao_has_disable (get_ao i st)
           then Some (put_ao i ((get_ao i st)\<lparr>ao_really_enabled := False\<rparr>) st)
           else do { ensure (\<not> ao_really_enabled (get_ao i st)); Some st }
      else ao_lock_command i AO_COMMAND_DISABLE st)"

definition audio_output_open :: "nat \<Rightarrow> AudioFormat \<Rightarrow> nat \<Rightarrow> output_all \<Rightarrow> (bool \<times> output_all) option" where
  "audio_output_open i audio_format mp st =
     do {
       ensure (ao_allow_play (get_ao i st));
       ensure (IsValid audio_format);
       let st = put_ao i ((get_ao i st)\<lparr>ao_fail_timer := False\<rparr>) st;
       if ao_open (get_ao i st) \<and> audio_format = ao_in_audio_format (get_ao i st)
       then do {
         ensure (ao_pipe (get_ao i st) = Some mp \<or> ao_always_on (get_ao i st) \<and> ao_paused (get_ao i st));
         if ao_paused (get_ao i st)
         then do {
           st \<leftarrow> send_command i AO_COMMAND_CANCEL
                  (put_ao i ((get_ao i st)\<lparr>ao_chunk := None, ao_pipe := Some mp, ao_given := []\<rparr>) st);
           Some (True, st) }
         else Some (True, st) }
       else do {
         let st = put_ao i ((get_ao i st)\<lparr>ao_in_audio_format := audio_format, ao_chunk := None,
                               ao_pipe := Some mp, ao_given := []\<rparr>) st;
         st \<leftarrow> (if \<not> ao_thread (get_ao i st) then audio_output_thread_start i st else Some st);
         st \<leftarrow> send_command i (if ao_open (get_ao i st) then AO_COMMAND_REOPEN else AO_COMMAND_OPEN) st;
         Some (ao_open (get_ao i st), st) } }"

definition audio_output_close_locked :: "nat \<Rightarrow> output_all \<Rightarrow> output_all option" where
  "audio_output_close_locked i st =
     do {
       ensure (ao_allow_play (get_ao i st));
       ensure (\<not> ao_open (get_ao i st) \<or> \<not> ao_fail_timer (get_ao i st));
       if ao_open (get_ao i st) then send_command i AO_COMMAND_CLOSE st
       else Some (put_ao i ((get_ao i st)\<lparr>ao_fail_timer := False\<rparr>) st) }"

definition REOPEN_AFTER :: nat where
  "REOPEN_AFTER = 10"

definition audio_output_update :: "nat \<Rightarrow> AudioFormat \<Rightarrow> nat \<Rightarrow> output_all \<Rightarrow> (bool \<times> output_all) option" where
  "audio_output_update i audio_format mp st =
     do {
       (t, st) \<leftarrow> take_turn [] st;
       if ao_enabled (get_ao i st) \<and> ao_really_enabled (get_ao i st)
       then if \<not> ao_fail_timer (get_ao i st) \<or> tn_elapsed t > REOPEN_AFTER
            then audio_output_open i audio_format mp st
            else Some (False, st)
       else do { st \<leftarrow> (if ao_open (get_ao i st) then audio_output_close_locked i st else Some st); Some (False, st) } }"

definition audio_output_play :: "nat \<Rightarrow> output_all \<Rightarrow> output_all option" where
  "audio_output_play i st =
     do {
       st \<leftarrow> oa_lock st;
       ensure (ao_allow_play (get_ao i st));
       let a = get_ao i st;
       Some (if ao_open a \<and> \<not> ao_in_playback_loop a \<and> \<not> ao_woken_for_play a
             then put_ao i (signal (a\<lparr>ao_woken_for_play := True\<rparr>)) st else st) }"

definition audio_output_pause :: "nat \<Rightarrow> output_all \<Rightarrow> output_all option" where
  "audio_output_pause i st =
     do {
       st \<leftarrow> oa_lock st;
       ensure (ao_allow_play (get_ao i st));
       if ao_open (get_ao i st) then ao_command_async i AO_COMMAND_PAUSE st else Some st }"

definition audio_output_drain_async :: "nat \<Rightarrow> output_all \<Rightarrow> output_all option" where
  "audio_output_drain_async i st =
     do {
       st \<leftarrow> oa_lock st;
       ensure (ao_allow_play (get_ao i st));
       if ao_open (get_ao i st) then ao_command_async i AO_COMMAND_DRAIN st else Some st }"

definition audio_output_cancel :: "nat \<Rightarrow> output_all \<Rightarrow> output_all option" where
  "audio_output_cancel i st =
     do {
       st \<leftarrow> oa_lock st;
       if ao_open (get_ao i st)
       then ao_command_async i AO_COMMAND_CANCEL (put_ao i ((get_ao i st)\<lparr>ao_allow_play := False\<rparr>) st)
       else Some st }"

definition audio_output_allow_play :: "nat \<Rightarrow> output_all \<Rightarrow> output_all option" where
  "audio_output_allow_play i st =
     do {
       st \<leftarrow> oa_lock st;
       let a = (get_ao i st)\<lparr>ao_allow_play := True\<rparr>;
       Some (put_ao i (if ao_open a then signal a else a) st) }"

definition audio_output_close :: "nat \<Rightarrow> output_all \<Rightarrow> output_all option" where
  "audio_output_close i st =
     do {
       ensure (\<not> ao_open (get_ao i st) \<or> \<not> ao_fail_timer (get_ao i st));
       st \<leftarrow> oa_lock st;
       audio_output_close_locked i st }"

definition audio_output_release :: "nat \<Rightarrow> output_all \<Rightarrow> output_all option" where
  "audio_output_release i st =
     (if ao_always_on (get_ao i st) then audio_output_pause i st else audio_output_close i st)"

definition audio_output_finish :: "nat \<Rightarrow> output_all \<Rightarrow> output_all option" where
  "audio_output_finish i st =
     do {
       st \<leftarrow> audio_output_close i st;
       ensure (\<not> ao_fail_timer (get_ao i st));
       if ao_thread (get_ao i st)
       then do { ensure (ao_allow_play (get_ao i st)); ao_lock_command i AO_COMMAND_KILL st }
       else Some st }"

section \<open>All outputs\<close>

definition audio_output_all_enable_disable :: "output_all \<Rightarrow> output_all option" where
  "audio_output_all_enable_disable st =
     each_output (\<lambda>i st. do {
       st \<leftarrow> oa_lock st;
       let a = get_ao i st;
       if ao_enabled a \<noteq> ao_really_enabled a
       then if ao_enabled a then audio_output_enable i st else audio_output_disable i st
       else Some st }) (all_outputs st) st"

fun outputs_finished :: "nat list \<Rightarrow> output_all \<Rightarrow> (bool \<times> output_all) option" where
  "outputs_finished [] st = Some (True, st)"
| "outputs_finished (i # is) st =
     do { st \<leftarrow> oa_lock st;
          if ao_open (get_ao i st) \<and> ao_command (get_ao i st) \<noteq> AO_COMMAND_NONE then Some (False, st)
          else outputs_finished is st }"

definition audio_output_all_finished :: "output_all \<Rightarrow> (bool \<times> output_all) option" where
  "audio_output_all_finished st = outputs_finished (all_outputs st) st"

fun audio_output_wait_all :: "nat \<Rightarrow> output_all \<Rightarrow> output_all option" where
  "audio_output_wait_all 0 st = None"
| "audio_output_wait_all (Suc fuel) st =
     do { (finished, st) \<leftarrow> audio_output_all_finished st;
          if finished then Some st else do { st \<leftarrow> oa_sleep st; audio_output_wait_all fuel st } }"

definition audio_output_allow_play_all :: "output_all \<Rightarrow> output_all option" where
  "audio_output_allow_play_all st = each_output audio_output_allow_play (all_outputs st) st"

definition audio_output_reset_reopen :: "nat \<Rightarrow> output_all \<Rightarrow> output_all option" where
  "audio_output_reset_reopen i st =
     do { st \<leftarrow> oa_lock st;
          Some (if \<not> ao_open (get_ao i st) \<and> ao_fail_timer (get_ao i st)
                then put_ao i ((get_ao i st)\<lparr>ao_fail_timer := False\<rparr>) st else st) }"

definition audio_output_all_reset_reopen :: "output_all \<Rightarrow> output_all option" where
  "audio_output_all_reset_reopen st = each_output audio_output_reset_reopen (all_outputs st) st"

fun update_outputs :: "nat list \<Rightarrow> nat \<Rightarrow> bool \<Rightarrow> output_all \<Rightarrow> (bool \<times> output_all) option" where
  "update_outputs [] mp ret st = Some (ret, st)"
| "update_outputs (i # is) mp ret st =
     do { (ok, st) \<leftarrow> audio_output_update i (oa_input_audio_format st) mp st;
          update_outputs is mp (ok \<or> ret) st }"

text \<open>\<open>*g_mp\<close> is dereferenced when there is an input format; None stands for a null pointer.\<close>

definition audio_output_all_update :: "output_all \<Rightarrow> (bool \<times> output_all) option" where
  "audio_output_all_update st =
     (if \<not> IsDefined (oa_input_audio_format st) then Some (False, st)
      else do { (mp, cs) \<leftarrow> oa_mp st; update_outputs (all_outputs st) mp False st })"

definition buffer_Return :: "pipe_chunk \<Rightarrow> output_all \<Rightarrow> output_all option" where
  "buffer_Return c st =
     do { ensure (case ck_other (pk_chunk c) of None \<Rightarrow> True | Some oth \<Rightarrow> ck_other oth = None);
          Some (st\<lparr>oa_returned := oa_returned st @ [pk_chunk c]\<rparr>) }"

fun return_all :: "pipe_chunk list \<Rightarrow> output_all \<Rightarrow> output_all option" where
  "return_all [] st = Some st"
| "return_all (c # cs) st = do { st \<leftarrow> buffer_Return c st; return_all cs st }"

definition mp_Clear :: "output_all \<Rightarrow> output_all option" where
  "mp_Clear st =
     do { (mp, cs) \<leftarrow> oa_mp st;
          return_all cs (st\<lparr>oa_mp := Some (mp, []), oa_removed := []\<rparr>) }"

text \<open>The first result is false when no output could be opened.\<close>

definition audio_output_all_play :: "pipe_chunk \<Rightarrow> output_all \<Rightarrow> (bool \<times> output_all) option" where
  "audio_output_all_play chunk st =
     do {
       ensure (oa_music_buffer st);
       ensure (oa_mp st \<noteq> None);
       ensure (IsValid (oa_input_audio_format st));
       ensure (pk_CheckFormat (oa_input_audio_format st) chunk);
       (ret, st) \<leftarrow> audio_output_all_update st;
       if \<not> ret then Some (False, st)
       else do {
         ensure (\<not> ck_IsEmpty (pk_chunk chunk));
         ensure (ck_length (pk_chunk chunk) = 0 \<or> IsValid (pk_format chunk));
         (mp, cs) \<leftarrow> oa_mp st;
         st \<leftarrow> each_output audio_output_play (all_outputs st) (st\<lparr>oa_mp := Some (mp, cs @ [chunk])\<rparr>);
         Some (True, st) } }"

text \<open>What \<open>audio_output_all_close\<close> and \<open>audio_output_all_release\<close> do at their end.\<close>

definition drop_pipe :: "output_all \<Rightarrow> output_all option" where
  "drop_pipe st =
     do {
       st \<leftarrow> (if oa_mp st \<noteq> None
             then do { ensure (oa_music_buffer st); st \<leftarrow> mp_Clear st; Some (st\<lparr>oa_mp := None\<rparr>) } else Some st);
       Some (st\<lparr>oa_music_buffer := False, oa_input_audio_format := AudioFormat_Clear (oa_input_audio_format st),
                oa_elapsed_time := - 1\<rparr>) }"

definition audio_output_all_close :: "output_all \<Rightarrow> output_all option" where
  "audio_output_all_close st = do { st \<leftarrow> each_output audio_output_close (all_outputs st) st; drop_pipe st }"

definition audio_output_all_release :: "output_all \<Rightarrow> output_all option" where
  "audio_output_all_release st = do { st \<leftarrow> each_output audio_output_release (all_outputs st) st; drop_pipe st }"

definition pipe_CheckFormat :: "AudioFormat \<Rightarrow> pipe_chunk list \<Rightarrow> bool" where
  "pipe_CheckFormat af cs \<longleftrightarrow> (\<forall>c \<in> set cs. pk_CheckFormat af c)"

definition audio_output_all_open :: "AudioFormat \<Rightarrow> output_all \<Rightarrow> (bool \<times> output_all) option" where
  "audio_output_all_open audio_format st =
     do {
       ensure ((oa_mp st = None) = (\<not> oa_music_buffer st));
       let st = st\<lparr>oa_music_buffer := True\<rparr>;
       st \<leftarrow> (case oa_mp st of
          None \<Rightarrow> Some (st\<lparr>oa_mp := Some (oa_next_mp st, []), oa_next_mp := Suc (oa_next_mp st), oa_removed := []\<rparr>)
        | Some (mp, cs) \<Rightarrow> do {
            ensure (pipe_CheckFormat audio_format cs);
            ensure (cs = [] \<or> audio_format = oa_input_audio_format st);
            Some st });
       let st = st\<lparr>oa_input_audio_format := audio_format\<rparr>;
       st \<leftarrow> audio_output_all_reset_reopen st;
       st \<leftarrow> audio_output_all_enable_disable st;
       (_, st) \<leftarrow> audio_output_all_update st;
       let ret = list_ex ao_open (oa_outputs st);
       st \<leftarrow> (if \<not> ret then audio_output_all_close st else Some st);
       Some (ret, st) }"

definition chunk_is_consumed_in :: "pipe_chunk list \<Rightarrow> nat \<Rightarrow> audio_output \<Rightarrow> bool option" where
  "chunk_is_consumed_in cs c a =
     (if \<not> ao_open a then Some True
      else case ao_chunk a of
        None \<Rightarrow> Some False
      | Some k \<Rightarrow> do {
          ensure (c = k \<or> pipe_Contains cs k);
          n \<leftarrow> next_chunk cs c;
          if c \<noteq> k then do { ensure (n \<noteq> None); Some True }
          else Some (ao_chunk_finished a \<and> n = None) })"

fun consumed_by :: "nat list \<Rightarrow> nat \<Rightarrow> output_all \<Rightarrow> (bool \<times> output_all) option" where
  "consumed_by [] c st = Some (True, st)"
| "consumed_by (i # is) c st =
     do { st \<leftarrow> oa_lock st;
          (mp, cs) \<leftarrow> oa_mp st;
          ok \<leftarrow> chunk_is_consumed_in cs c (get_ao i st);
          if \<not> ok then Some (False, st) else consumed_by is c st }"

definition chunk_is_consumed :: "nat \<Rightarrow> output_all \<Rightarrow> (bool \<times> output_all) option" where
  "chunk_is_consumed c st = consumed_by (all_outputs st) c st"

text \<open>The outputs that are open stay locked; the result lists them.\<close>

fun clear_tail :: "nat list \<Rightarrow> nat \<Rightarrow> nat list \<Rightarrow> output_all \<Rightarrow> (nat list \<times> output_all) option" where
  "clear_tail [] c held st = Some (held, st)"
| "clear_tail (i # is) c held st =
     do { (_, st) \<leftarrow> take_turn held st;
          let a = get_ao i st;
          if \<not> ao_open a then clear_tail is c held st
          else do {
            ensure (ao_chunk a = Some c);
            ensure (ao_chunk_finished a);
            clear_tail is c (i # held) (put_ao i (a\<lparr>ao_chunk := None\<rparr>) st) } }"

definition clear_tail_chunk :: "nat \<Rightarrow> output_all \<Rightarrow> output_all option" where
  "clear_tail_chunk c st =
     do { (mp, cs) \<leftarrow> oa_mp st;
          ensure (next_chunk cs c = Some None);
          (locked, st) \<leftarrow> clear_tail (all_outputs st) c [] st;
          Some st }"

definition mp_Shift :: "output_all \<Rightarrow> (pipe_chunk \<times> output_all) option" where
  "mp_Shift st =
     do { (mp, cs) \<leftarrow> oa_mp st;
          case cs of [] \<Rightarrow> None
          | c # cs \<Rightarrow> do { ensure (\<not> ck_IsEmpty (pk_chunk c));
                           Some (c, st\<lparr>oa_mp := Some (mp, cs), oa_removed := oa_removed st @ [pk_addr c]\<rparr>) } }"

text \<open>The loop of \<open>audio_output_all_check\<close>; a pass takes one chunk out.\<close>

fun check_loop :: "nat \<Rightarrow> output_all \<Rightarrow> (nat \<times> output_all) option" where
  "check_loop 0 st = None"
| "check_loop (Suc fuel) st =
     do {
       (mp, cs) \<leftarrow> oa_mp st;
       case cs of
         [] \<Rightarrow> Some (0, st)
       | c # _ \<Rightarrow> do {
           (consumed, st) \<leftarrow> chunk_is_consumed (pk_addr c) st;
           if \<not> consumed then Some (length cs, st)
           else do {
             let st = (if ck_length (pk_chunk c) > 0 \<and> ck_times (pk_chunk c) \<ge> 0
                       then st\<lparr>oa_elapsed_time := ck_times (pk_chunk c)\<rparr> else st);
             st \<leftarrow> (if length cs = 1 then clear_tail_chunk (pk_addr c) st else Some st);
             (shifted, st) \<leftarrow> mp_Shift st;
             ensure (pk_addr shifted = pk_addr c);
             st \<leftarrow> buffer_Return shifted st;
             check_loop fuel st } } }"

definition audio_output_all_check :: "output_all \<Rightarrow> (nat \<times> output_all) option" where
  "audio_output_all_check st =
     do { ensure (oa_music_buffer st);
          (mp, cs) \<leftarrow> oa_mp st;
          check_loop (Suc (length cs)) st }"

definition audio_output_all_wait :: "nat \<Rightarrow> output_all \<Rightarrow> (bool \<times> output_all) option" where
  "audio_output_all_wait threshold st =
     do { (n, st) \<leftarrow> audio_output_all_check st;
          if n < threshold then Some (True, st)
          else do { st \<leftarrow> oa_sleep st; (n, st) \<leftarrow> audio_output_all_check st; Some (n < threshold, st) } }"

definition wait_all :: "output_all \<Rightarrow> output_all option" where
  "wait_all st = audio_output_wait_all (wait_fuel st) st"

definition audio_output_all_pause :: "output_all \<Rightarrow> output_all option" where
  "audio_output_all_pause st =
     do { (_, st) \<leftarrow> audio_output_all_update st;
          st \<leftarrow> each_output audio_output_pause (all_outputs st) st;
          wait_all st }"

definition audio_output_all_drain :: "output_all \<Rightarrow> output_all option" where
  "audio_output_all_drain st =
     do { st \<leftarrow> each_output audio_output_drain_async (all_outputs st) st; wait_all st }"

definition audio_output_all_cancel :: "output_all \<Rightarrow> output_all option" where
  "audio_output_all_cancel st =
     do { st \<leftarrow> each_output audio_output_cancel (all_outputs st) st;
          st \<leftarrow> wait_all st;
          st \<leftarrow> (if oa_mp st \<noteq> None then mp_Clear st else Some st);
          st \<leftarrow> audio_output_allow_play_all st;
          Some (st\<lparr>oa_elapsed_time := - 1\<rparr>) }"

definition audio_output_all_song_border :: "output_all \<Rightarrow> output_all" where
  "audio_output_all_song_border st = st\<lparr>oa_elapsed_time := 0\<rparr>"

section \<open>Switching outputs on and off\<close>

text \<open>
  The commands of the user (src/src/OutputCommand.cxx).  \<open>UpdateAudio\<close> makes the player thread call
  \<open>audio_output_all_enable_disable\<close> and waits for it.  A mixer that is closed tells the clients.
\<close>

record output_commands =
  oc_all :: output_all
  oc_idle :: idle_state
  oc_version :: "32 word"

definition IDLE_OUTPUT :: "32 word" where "IDLE_OUTPUT = 0x20"

definition set_enabled :: "nat \<Rightarrow> bool \<Rightarrow> output_commands \<Rightarrow> output_commands option" where
  "set_enabled idx b oc =
     do {
       let a = get_ao idx (oc_all oc);
       let idle = idle_add IDLE_OUTPUT (oc_idle oc);
       let idle = (if \<not> b \<and> ao_has_mixer a then idle_add IDLE_MIXER idle else idle);
       st \<leftarrow> audio_output_all_enable_disable (put_ao idx (a\<lparr>ao_enabled := b\<rparr>) (oc_all oc));
       Some (oc\<lparr>oc_all := st, oc_idle := idle, oc_version := oc_version oc + 1\<rparr>) }"

definition audio_output_enable_index :: "nat \<Rightarrow> output_commands \<Rightarrow> (bool \<times> output_commands) option" where
  "audio_output_enable_index idx oc =
     (if idx \<ge> length (oa_outputs (oc_all oc)) then Some (False, oc)
      else if ao_enabled (get_ao idx (oc_all oc)) then Some (True, oc)
      else map_option (Pair True) (set_enabled idx True oc))"

definition audio_output_disable_index :: "nat \<Rightarrow> output_commands \<Rightarrow> (bool \<times> output_commands) option" where
  "audio_output_disable_index idx oc =
     (if idx \<ge> length (oa_outputs (oc_all oc)) then Some (False, oc)
      else if \<not> ao_enabled (get_ao idx (oc_all oc)) then Some (True, oc)
      else map_option (Pair True) (set_enabled idx False oc))"

definition audio_output_toggle_index :: "nat \<Rightarrow> output_commands \<Rightarrow> (bool \<times> output_commands) option" where
  "audio_output_toggle_index idx oc =
     (if idx \<ge> length (oa_outputs (oc_all oc)) then Some (False, oc)
      else map_option (Pair True) (set_enabled idx (\<not> ao_enabled (get_ao idx (oc_all oc))) oc))"

end
