(* ===== verification/Output_Steps.thy ===== *)
theory Output_Steps
  imports Output_Model "HOL-Library.Sublist"
begin

text \<open>
  The invariant of one output and its thread, and that every step of the thread keeps it:
  no assertion of the thread fails in a steady environment, it never touches a chunk or a pipe
  that has been freed, it plays the chunks in order, and each step brings it nearer to the end
  of a command that waits for it.
\<close>

section \<open>The pipe\<close>

definition pipe_of :: "output_pipe \<Rightarrow> pipe_chunk list" where
  "pipe_of mp = (case mp of None \<Rightarrow> [] | Some (p, cs) \<Rightarrow> cs)"

lemma pipe_of_simps [simp]: "pipe_of None = []" "pipe_of (Some (p, cs)) = cs"
  by (simp_all add: pipe_of_def)

text \<open>What the player puts into the pipe.\<close>

definition good_chunk :: "AudioFormat \<Rightarrow> pipe_chunk \<Rightarrow> bool" where
  "good_chunk af k \<longleftrightarrow> \<not> ck_IsEmpty (pk_chunk k) \<and> pk_CheckFormat af k \<and>
     ck_length (pk_chunk k) mod unat (GetFrameSize af) = 0 \<and> (case ck_other (pk_chunk k) of None \<Rightarrow> True | Some oth \<Rightarrow> ck_other oth = None)"

definition pipe_ok :: "AudioFormat \<Rightarrow> output_pipe \<Rightarrow> bool" where
  "pipe_ok af mp \<longleftrightarrow> distinct (map pk_addr (pipe_of mp)) \<and> (\<forall>k \<in> set (pipe_of mp). good_chunk af k) \<and>
     (mp \<noteq> None \<longrightarrow> IsValid af)"

lemma next_chunk_nth:
  "distinct (map pk_addr cs) \<Longrightarrow> k < length cs \<Longrightarrow>
    next_chunk cs (pk_addr (cs ! k)) = Some (if Suc k < length cs then Some (pk_addr (cs ! Suc k)) else None)"
proof (induction cs arbitrary: k)
  case (Cons x xs)
  show ?case
  proof (cases k)
    case 0
    then show ?thesis by (cases xs) auto
  next
    case (Suc j)
    then have j: "j < length xs" using Cons.prems by simp
    then have "pk_addr x \<noteq> pk_addr (xs ! j)" using Cons.prems(1) by (auto simp: image_iff)
    then show ?thesis using Cons.IH[OF _ j] Cons.prems(1) Suc by simp
  qed
qed simp

lemma find_addr:
  "k \<in> pk_addr ` set cs \<Longrightarrow> \<exists>x. List.find (\<lambda>x. pk_addr x = k) cs = Some x \<and> x \<in> set cs"
  by (induction cs) auto

lemma frame_size_nonzero: "IsValid af \<Longrightarrow> unat (GetFrameSize af) \<noteq> 0"
  using GetFrameSize_valid(2)[of af] by (auto simp: unat_eq_zero)

section \<open>The invariant\<close>

text \<open>
  What holds of an output for which a command waits.  The command that ends a thread is not one of
  those the player sends while it works.
\<close>

definition cmd_ok :: "AudioFormat \<Rightarrow> output_pipe \<Rightarrow> audio_output \<Rightarrow> bool" where
  "cmd_ok af mp a \<longleftrightarrow> (ao_command a \<noteq> AO_COMMAND_NONE \<longrightarrow> ao_thread a \<and> ao_at a \<noteq> AT_WAIT False) \<and>
     (case ao_command a of
        AO_COMMAND_OPEN \<Rightarrow> \<not> ao_open a \<and> mp \<noteq> None \<and> ao_pipe a = map_option fst mp \<and> ao_in_audio_format a = af
      | AO_COMMAND_REOPEN \<Rightarrow> ao_open a \<and> ao_chunk a = None \<and> ao_given a = [] \<and> ao_in_audio_format a = af
      | AO_COMMAND_CLOSE \<Rightarrow> ao_open a
      | AO_COMMAND_PAUSE \<Rightarrow> ao_open a
      | AO_COMMAND_DRAIN \<Rightarrow> ao_open a \<and> pipe_of mp = []
      | AO_COMMAND_CANCEL \<Rightarrow> ao_open a
      | AO_COMMAND_KILL \<Rightarrow> False
      | _ \<Rightarrow> True)"

text \<open>The device was given the chunks one after the other, up to the current one.\<close>

definition given_ok :: "nat list \<Rightarrow> pipe_chunk list \<Rightarrow> audio_output \<Rightarrow> bool" where
  "given_ok removed cs a \<longleftrightarrow>
     (case ao_chunk a of
        None \<Rightarrow> suffix (ao_given a) removed
      | Some c \<Rightarrow> \<exists>k < length cs. pk_addr (cs ! k) = c \<and> k < length (ao_given a) \<and>
          suffix (ao_given a) (removed @ map pk_addr (take (Suc k) cs)))"

fun place_ok :: "ao_place \<Rightarrow> audio_output \<Rightarrow> bool" where
  "place_ok (AT_CHUNK c) a = (ao_open a \<and> ao_chunk a = Some c \<and> \<not> ao_chunk_finished a \<and> ao_in_playback_loop a \<and> \<not> ao_paused a)"
| "place_ok AT_PAUSED a = (ao_open a \<and> ao_paused a \<and> \<not> ao_in_playback_loop a \<and> (ao_chunk a \<noteq> None \<longrightarrow> ao_chunk_finished a))"
| "place_ok (AT_WAIT s) a = ((ao_woken_for_play a \<longrightarrow> s) \<and> \<not> ao_paused a \<and> \<not> ao_in_playback_loop a \<and>
     (ao_chunk a \<noteq> None \<longrightarrow> ao_chunk_finished a))"
| "place_ok AT_END a = False"
| "place_ok _ a = (\<not> ao_paused a \<and> \<not> ao_in_playback_loop a \<and> (ao_chunk a \<noteq> None \<longrightarrow> ao_chunk_finished a))"

text \<open>The device, and whether the thread may play.\<close>

definition open_ok :: "AudioFormat \<Rightarrow> output_pipe \<Rightarrow> audio_output \<Rightarrow> bool" where
  "open_ok af mp a \<longleftrightarrow>
     (if ao_open a
      then ao_thread a \<and> ao_really_enabled a \<and> \<not> ao_fail_timer a \<and> mp \<noteq> None \<and> ao_pipe a = map_option fst mp \<and>
        (ao_in_audio_format a = af \<or> pipe_of mp = [])
      else ao_chunk a = None \<and> ao_given a = []) \<and>
     (ao_allow_play a \<or> ao_command a = AO_COMMAND_CANCEL \<or> ao_chunk a = None \<and> ao_given a = [])"

definition enable_ok :: "audio_output \<Rightarrow> bool" where
  "enable_ok a \<longleftrightarrow> \<not> ao_always_on a \<and> (ao_has_disable a \<longrightarrow> ao_has_enable a) \<and>
     (\<not> ao_thread a \<and> ao_has_enable a \<longrightarrow> \<not> ao_really_enabled a)"

definition ao_inv :: "nat list \<Rightarrow> AudioFormat \<Rightarrow> output_pipe \<Rightarrow> audio_output \<Rightarrow> bool" where
  "ao_inv removed af mp a \<longleftrightarrow> open_ok af mp a \<and> enable_ok a \<and> place_ok (ao_at a) a \<and> cmd_ok af mp a \<and>
     given_ok removed (pipe_of mp) a"

text \<open>What a step of the thread does not change; a command can only end.\<close>

definition ao_frame :: "audio_output \<Rightarrow> audio_output \<Rightarrow> bool" where
  "ao_frame a a' \<longleftrightarrow> ao_always_on a' = ao_always_on a \<and> ao_enabled a' = ao_enabled a \<and> ao_allow_play a' = ao_allow_play a \<and>
     ao_in_audio_format a' = ao_in_audio_format a \<and> ao_thread a' = ao_thread a \<and> ao_has_enable a' = ao_has_enable a \<and>
     ao_has_disable a' = ao_has_disable a \<and>
     (ao_command a' = ao_command a \<or> ao_command a' = AO_COMMAND_NONE)"

lemma ao_frame_refl [simp]: "ao_frame a a" by (simp add: ao_frame_def)

lemma ao_frame_trans: "ao_frame a b \<Longrightarrow> ao_frame b c \<Longrightarrow> ao_frame a c" by (auto simp: ao_frame_def)

text \<open>How far the thread is from the end of a command.\<close>

fun rank_at :: "ao_place \<Rightarrow> nat" where
  "rank_at AT_TOP = 1"
| "rank_at _ = 2"

definition rank :: "audio_output \<Rightarrow> nat" where
  "rank a = (if ao_command a = AO_COMMAND_NONE then 0 else rank_at (ao_at a))"

lemma rank_le: "rank a \<le> 2"
  by (cases "ao_at a") (simp_all add: rank_def)

lemma rank_0: "rank a = 0 \<longleftrightarrow> ao_command a = AO_COMMAND_NONE"
  by (cases "ao_at a") (simp_all add: rank_def)

text \<open>The thread sleeps only when there is nothing to play and nothing to do.\<close>

definition awake :: "pipe_chunk list \<Rightarrow> audio_output \<Rightarrow> bool" where
  "awake cs a \<longleftrightarrow> (ao_at a = AT_WAIT False \<and> ao_open a \<and> ao_allow_play a \<longrightarrow>
     (case ao_chunk a of None \<Rightarrow> cs = [] | Some c \<Rightarrow> next_chunk cs c = Some None))"

section \<open>Playing\<close>

lemma next_given:
  assumes p: "distinct (map pk_addr cs)" and g: "given_ok removed cs a" and c: "ao_chunk a = Some c"
  shows "\<exists>n. next_chunk cs c = Some n \<and>
    (\<forall>d. n = Some d \<longrightarrow> given_ok removed cs (a\<lparr>ao_chunk := Some d, ao_given := ao_given a @ [d]\<rparr>))"
proof -
  obtain k where k: "k < length cs" "pk_addr (cs ! k) = c" "k < length (ao_given a)"
    "suffix (ao_given a) (removed @ map pk_addr (take (Suc k) cs))"
    using g c by (auto simp: given_ok_def)
  have n: "next_chunk cs c = Some (if Suc k < length cs then Some (pk_addr (cs ! Suc k)) else None)"
    using next_chunk_nth[OF p k(1)] k(2) by simp
  have "given_ok removed cs (a\<lparr>ao_chunk := Some d, ao_given := ao_given a @ [d]\<rparr>)"
    if "Suc k < length cs" "d = pk_addr (cs ! Suc k)" for d
  proof -
    have "take (Suc (Suc k)) cs = take (Suc k) cs @ [cs ! Suc k]" by (rule take_Suc_conv_app_nth[OF that(1)])
    then have "removed @ map pk_addr (take (Suc (Suc k)) cs) = (removed @ map pk_addr (take (Suc k) cs)) @ [d]"
      using that(2) by simp
    then have "suffix (ao_given a @ [d]) (removed @ map pk_addr (take (Suc (Suc k)) cs))"
      using k(4) by (auto simp: suffix_def)
    then show ?thesis using that k(3) by (auto simp: given_ok_def intro!: exI[of _ "Suc k"])
  qed
  then show ?thesis using n by auto
qed

lemma first_given:
  assumes "given_ok removed cs a" "ao_chunk a = None" "cs = x # xs"
  shows "given_ok removed cs (a\<lparr>ao_chunk := Some (pk_addr x), ao_given := ao_given a @ [pk_addr x]\<rparr>)"
  using assms by (auto simp: given_ok_def suffix_def)

lemma ao_next_chunk_ok:
  assumes i: "ao_inv removed af mp a" and p: "pipe_ok af mp" and o: "ao_open a"
  shows "\<exists>n. ao_next_chunk mp a = Some n \<and>
    (\<forall>d. n = Some d \<longrightarrow> given_ok removed (pipe_of mp) (a\<lparr>ao_chunk := Some d, ao_given := ao_given a @ [d]\<rparr>)) \<and>
    (n = None \<longrightarrow> (case ao_chunk a of None \<Rightarrow> pipe_of mp = [] | Some c \<Rightarrow> next_chunk (pipe_of mp) c = Some None))"
proof -
  obtain q cs where mp: "mp = Some (q, cs)" "ao_pipe a = Some q" using i o by (auto simp: ao_inv_def open_ok_def)
  have d: "distinct (map pk_addr cs)" and g: "given_ok removed cs a" using i p mp by (auto simp: ao_inv_def pipe_ok_def)
  show ?thesis
  proof (cases "ao_chunk a")
    case None
    then show ?thesis using mp g first_given[OF g None] by (cases cs) (auto simp: ao_next_chunk_def)
  next
    case (Some c)
    then show ?thesis using mp next_given[OF d g Some] by (auto simp: ao_next_chunk_def)
  qed
qed

section \<open>Steps of the thread\<close>

text \<open>The output has passed the first chunk of the pipe.\<close>

definition passed :: "pipe_chunk list \<Rightarrow> audio_output \<Rightarrow> bool" where
  "passed cs a \<longleftrightarrow> \<not> ao_open a \<or>
     (case ao_chunk a of None \<Rightarrow> False | Some k \<Rightarrow> k \<noteq> pk_addr (hd cs) \<or> ao_chunk_finished a \<and> tl cs = [])"

text \<open>What the player relies on while a thread runs.\<close>

definition evolves :: "nat list \<Rightarrow> AudioFormat \<Rightarrow> output_pipe \<Rightarrow> audio_output \<Rightarrow> audio_output \<Rightarrow> bool" where
  "evolves removed af mp a a' \<longleftrightarrow> ao_inv removed af mp a' \<and> ao_frame a a' \<and> rank a' \<le> rank a \<and>
     (awake (pipe_of mp) a \<longrightarrow> awake (pipe_of mp) a') \<and>
     (ao_command a = AO_COMMAND_NONE \<longrightarrow> (passed (pipe_of mp) a \<longrightarrow> passed (pipe_of mp) a') \<and> (ao_open a' \<longrightarrow> ao_open a)) \<and>
     (ao_command a = AO_COMMAND_CLOSE \<or> ao_command a = AO_COMMAND_DISABLE \<longrightarrow> ao_command a' = AO_COMMAND_NONE \<longrightarrow> \<not> ao_open a') \<and>
     (ao_command a = AO_COMMAND_PAUSE \<or> ao_command a = AO_COMMAND_NONE \<and> (ao_paused a \<or> \<not> ao_open a) \<longrightarrow>
       ao_command a' = AO_COMMAND_NONE \<longrightarrow> ao_paused a' \<or> \<not> ao_open a') \<and>
     (ao_command a = AO_COMMAND_NONE \<longrightarrow> ao_open a' \<longrightarrow> prefix (ao_given a) (ao_given a'))"

lemma evolves_refl: "ao_inv removed af mp a \<Longrightarrow> evolves removed af mp a a"
  by (auto simp: evolves_def)

lemma evolves_trans:
  assumes "evolves removed af mp a b" "evolves removed af mp b c"
  shows "evolves removed af mp a c"
proof -
  have "ao_command a = AO_COMMAND_NONE \<Longrightarrow> ao_command b = AO_COMMAND_NONE"
    "ao_command b = ao_command a \<or> ao_command b = AO_COMMAND_NONE" using assms(1) by (auto simp: evolves_def ao_frame_def)
  moreover have "ao_frame a c" "ao_inv removed af mp c" "rank c \<le> rank a" "awake (pipe_of mp) a \<longrightarrow> awake (pipe_of mp) c"
    using assms ao_frame_trans[of a b c] by (simp_all add: evolves_def)
  moreover have "ao_command a = AO_COMMAND_NONE \<longrightarrow> ao_open c \<longrightarrow> prefix (ao_given a) (ao_given c)"
  proof (intro impI)
    assume n: "ao_command a = AO_COMMAND_NONE" and o: "ao_open c"
    then have nb: "ao_command b = AO_COMMAND_NONE" using calculation(1) by blast
    then have "ao_open b" using assms(2) o by (simp add: evolves_def)
    then have "prefix (ao_given a) (ao_given b)" using assms(1) n by (simp add: evolves_def)
    moreover have "prefix (ao_given b) (ao_given c)" using assms(2) nb o by (simp add: evolves_def)
    ultimately show "prefix (ao_given a) (ao_given c)" by (rule prefix_order.trans)
  qed
  ultimately show ?thesis using assms unfolding evolves_def by metis
qed

lemma next_not_first: "distinct (map pk_addr cs) \<Longrightarrow> next_chunk cs c = Some (Some d) \<Longrightarrow> d \<noteq> pk_addr (hd cs)"
proof (induction cs)
  case (Cons x xs)
  have sub: "next_chunk ys c = Some (Some d) \<Longrightarrow> d \<in> pk_addr ` set ys" for ys
    by (induction ys) (auto split: if_splits list.splits)
  show ?case
  proof (cases "pk_addr x = c")
    case True
    then show ?thesis using Cons.prems by (cases xs) auto
  next
    case False
    then have "d \<in> pk_addr ` set xs" using Cons.prems sub[of xs] by simp
    moreover have "pk_addr x \<notin> pk_addr ` set xs" using Cons.prems(1) by simp
    ultimately show ?thesis by (metis list.sel(1))
  qed
qed simp

lemma given_ok_cong:
  "given_ok r cs a \<Longrightarrow> ao_chunk b = ao_chunk a \<Longrightarrow> ao_given b = ao_given a \<Longrightarrow> given_ok r cs b"
  by (simp add: given_ok_def cong: option.case_cong)

lemma cmd_ok_none: "ao_command a = AO_COMMAND_NONE \<Longrightarrow> cmd_ok af mp a"
  by (simp add: cmd_ok_def)

lemma cmd_ok_cong:
  "cmd_ok af mp a \<Longrightarrow> ao_command b = ao_command a \<Longrightarrow> ao_thread b = ao_thread a \<Longrightarrow> ao_open b = ao_open a \<Longrightarrow>
    ao_pipe b = ao_pipe a \<Longrightarrow> ao_in_audio_format b = ao_in_audio_format a \<Longrightarrow> ao_chunk b = ao_chunk a \<Longrightarrow>
    ao_given b = ao_given a \<Longrightarrow> ao_at b \<noteq> AT_WAIT False \<Longrightarrow> cmd_ok af mp b"
  by (simp add: cmd_ok_def split: audio_output_command.splits)

text \<open>A device that is closed, and a thread that only goes to another place.\<close>

lemma closed_inv:
  assumes "ao_inv removed af mp a" "\<not> ao_open b" "ao_chunk b = None" "ao_given b = []"
    "ao_command b = AO_COMMAND_NONE" "place_ok (ao_at b) b" "ao_always_on b = ao_always_on a"
    "ao_has_disable b = ao_has_disable a" "ao_has_enable b = ao_has_enable a" "ao_thread b"
  shows "ao_inv removed af mp b"
  using assms by (auto simp: ao_inv_def open_ok_def enable_ok_def cmd_ok_none given_ok_def)

lemma moved_inv:
  assumes "ao_inv removed af mp a" "ao_open b = ao_open a" "ao_chunk b = ao_chunk a" "ao_given b = ao_given a"
    "ao_command b = ao_command a" "place_ok (ao_at b) b" "ao_always_on b = ao_always_on a" "ao_fail_timer b = ao_fail_timer a"
    "ao_has_disable b = ao_has_disable a" "ao_has_enable b = ao_has_enable a" "ao_thread b = ao_thread a"
    "ao_pipe b = ao_pipe a" "ao_in_audio_format b = ao_in_audio_format a" "ao_allow_play b = ao_allow_play a"
    "ao_really_enabled b = ao_really_enabled a" "ao_at b = AT_WAIT False \<longrightarrow> ao_command a = AO_COMMAND_NONE"
  shows "ao_inv removed af mp b"
proof -
  have "cmd_ok af mp b"
  proof (cases "ao_command a = AO_COMMAND_NONE")
    case False
    then have "ao_at b \<noteq> AT_WAIT False" using assms(16) by blast
    then show ?thesis using assms(1-15) cmd_ok_cong[of af mp a b] by (simp add: ao_inv_def)
  qed (use assms(5) cmd_ok_none in simp)
  moreover have "given_ok removed (pipe_of mp) b"
    using assms(1,3,4) given_ok_cong[of removed "pipe_of mp" a b] by (simp add: ao_inv_def)
  moreover have "open_ok af mp b" using assms(1-15) by (simp add: ao_inv_def open_ok_def)
  moreover have "enable_ok b" using assms(1-15) by (simp add: ao_inv_def enable_ok_def)
  ultimately show ?thesis using assms(6) by (simp add: ao_inv_def)
qed

text \<open>Behind the \<open>switch\<close>.\<close>

lemma ao_rest_ok:
  assumes i: "ao_inv removed af mp a" and p: "pipe_ok af mp" and t: "ao_thread a"
    and at: "ao_at a = AT_PLAY \<or> ao_at a = AT_TOP \<and> ao_command a = AO_COMMAND_NONE"
  shows "\<exists>a'. ao_rest mp a = Some a' \<and> evolves removed af mp a a' \<and>
    (ao_command a \<noteq> AO_COMMAND_NONE \<longrightarrow> ao_at a' = AT_TOP)"
proof -
  have pl: "\<not> ao_paused a" "\<not> ao_in_playback_loop a" "ao_chunk a \<noteq> None \<Longrightarrow> ao_chunk_finished a"
    using i at by (auto simp: ao_inv_def)
  consider (idle) "\<not> (ao_open a \<and> ao_allow_play a)"
    | (none) "ao_open a" "ao_allow_play a" "ao_next_chunk mp a = Some None"
    | (some) c where "ao_open a" "ao_allow_play a" "ao_next_chunk mp a = Some (Some c)"
    using ao_next_chunk_ok[OF i p] by (metis not_None_eq)
  then show ?thesis
  proof cases
    case idle
    define b where "b = (if ao_command a = AO_COMMAND_NONE then a\<lparr>ao_woken_for_play := False, ao_at := AT_WAIT False\<rparr> else a\<lparr>ao_at := AT_TOP\<rparr>)"
    have "ao_rest mp a = Some b" using idle by (auto simp: ao_rest_def b_def)
    moreover have "ao_inv removed af mp b" by (rule moved_inv[OF i]) (use pl in \<open>auto simp: b_def\<close>)
    moreover have "awake (pipe_of mp) b" using idle by (auto simp: awake_def b_def)
    ultimately show ?thesis
      using at by (auto simp: evolves_def b_def ao_frame_def rank_def passed_def cong: option.case_cong)
  next
    case none
    define b where "b = (if ao_command a = AO_COMMAND_NONE then a\<lparr>ao_woken_for_play := False, ao_at := AT_WAIT False\<rparr> else a\<lparr>ao_at := AT_TOP\<rparr>)"
    have "ao_rest mp a = Some b" using none by (auto simp: ao_rest_def b_def)
    moreover have "ao_inv removed af mp b" by (rule moved_inv[OF i]) (use pl in \<open>auto simp: b_def\<close>)
    moreover have "awake (pipe_of mp) b"
      using ao_next_chunk_ok[OF i p none(1)] none(3) by (auto simp: awake_def b_def cong: option.case_cong)
    ultimately show ?thesis
      using at by (auto simp: evolves_def b_def ao_frame_def rank_def passed_def cong: option.case_cong)
  next
    case (some c)
    have g: "given_ok removed (pipe_of mp) (a\<lparr>ao_chunk := Some c, ao_given := ao_given a @ [c]\<rparr>)"
      using ao_next_chunk_ok[OF i p some(1)] some(3) by auto
    show ?thesis
    proof (cases "ao_command a = AO_COMMAND_NONE")
      case True
      define b where "b = a\<lparr>ao_chunk_finished := False, ao_in_playback_loop := True, ao_chunk := Some c, ao_at := AT_CHUNK c,
        ao_given := ao_given a @ [c]\<rparr>"
      have "ao_rest mp a = Some b" using some True pl by (simp add: ao_rest_def play_next_def b_def)
      moreover have "ao_inv removed af mp b"
        using i g some True pl by (auto simp: ao_inv_def open_ok_def enable_ok_def b_def cmd_ok_none given_ok_def)
      moreover have "passed (pipe_of mp) b" if "passed (pipe_of mp) a"
      proof -
        have "ao_chunk a \<noteq> None" using that some(1) by (cases "ao_chunk a") (auto simp: passed_def)
        then obtain k where "ao_chunk a = Some k" "next_chunk (pipe_of mp) k = Some (Some c)"
          using some(3) by (auto simp: ao_next_chunk_def bind_eq_Some_conv)
        then have "c \<noteq> pk_addr (hd (pipe_of mp))" using p next_not_first by (auto simp: pipe_ok_def)
        then show ?thesis by (simp add: passed_def b_def)
      qed
      ultimately show ?thesis
        using True some(1) by (auto simp: evolves_def b_def ao_frame_def rank_def awake_def)
    next
      case False
      define b where "b = a\<lparr>ao_chunk_finished := True, ao_in_playback_loop := False, ao_at := AT_TOP\<rparr>"
      have "ao_rest mp a = Some b" using some False pl by (simp add: ao_rest_def play_next_def b_def)
      moreover have "ao_inv removed af mp b" by (rule moved_inv[OF i]) (use pl in \<open>auto simp: b_def\<close>)
      ultimately show ?thesis
        using False at by (auto simp: evolves_def b_def ao_frame_def rank_def awake_def)
    qed
  qed
qed

lemma evolves_command:
  "ao_command a \<noteq> AO_COMMAND_NONE \<Longrightarrow> ao_inv removed af mp b \<Longrightarrow> ao_frame a b \<Longrightarrow> ao_command b = AO_COMMAND_NONE \<Longrightarrow>
    ao_at b \<noteq> AT_WAIT False \<Longrightarrow> (ao_command a = AO_COMMAND_CLOSE \<or> ao_command a = AO_COMMAND_DISABLE \<Longrightarrow> \<not> ao_open b) \<Longrightarrow>
    (ao_command a = AO_COMMAND_PAUSE \<Longrightarrow> ao_paused b \<or> \<not> ao_open b) \<Longrightarrow> evolves removed af mp a b"
  by (auto simp: evolves_def rank_def awake_def)

text \<open>A chunk is played, or the device fails.\<close>

lemma ao_play_chunk_ok:
  assumes i: "ao_inv removed af mp a" and p: "pipe_ok af mp" and at: "ao_at a = AT_CHUNK c"
    and steady: "ao_command a \<noteq> AO_COMMAND_NONE \<Longrightarrow> dv_filtered d \<and> dv_running d"
  shows "\<exists>a'. ao_play_chunk d mp c a = Some a' \<and> evolves removed af mp a a' \<and>
    (ao_command a \<noteq> AO_COMMAND_NONE \<longrightarrow> ao_at a' = AT_TOP)"
proof -
  have o: "ao_open a" "ao_chunk a = Some c" "\<not> ao_chunk_finished a" "ao_in_playback_loop a" "\<not> ao_paused a"
    using i at by (auto simp: ao_inv_def)
  then have t: "ao_thread a" "\<not> ao_fail_timer a" "mp \<noteq> None" "ao_in_audio_format a = af \<or> pipe_of mp = []"
    using i by (auto simp: ao_inv_def open_ok_def)
  then obtain q cs where mp: "mp = Some (q, cs)" by auto
  have g: "given_ok removed cs a" using i mp by (simp add: ao_inv_def)
  have dist: "distinct (map pk_addr cs)" using p mp by (simp add: pipe_ok_def)
  have "c \<in> pk_addr ` set cs" using g o(2) by (auto simp: given_ok_def)
  then obtain k where k: "List.find (\<lambda>x. pk_addr x = c) cs = Some k" "k \<in> set cs" using find_addr by blast
  then have af: "ao_in_audio_format a = af" using t(4) mp by auto
  have kg: "good_chunk af k" and v: "IsValid af" using p k(2) mp by (auto simp: pipe_ok_def)
  have chk: "IsValid af" "\<not> ck_IsEmpty (pk_chunk k)" "pk_CheckFormat af k" "ck_length (pk_chunk k) mod unat (GetFrameSize af) = 0"
    "unat (GetFrameSize af) \<noteq> 0"
    using kg v frame_size_nonzero by (auto simp: good_chunk_def)
  obtain n where n: "next_chunk cs c = Some n"
    "\<forall>e. n = Some e \<longrightarrow> given_ok removed cs (a\<lparr>ao_chunk := Some e, ao_given := ao_given a @ [e]\<rparr>)"
    using next_given[OF dist g o(2)] by blast
  consider (fail) "\<not> dv_filtered d \<or> \<not> dv_running d" | (stay) "dv_filtered d" "dv_running d" "\<not> dv_taken d" "ao_command a = AO_COMMAND_NONE"
    | (go) "dv_filtered d" "dv_running d" "dv_taken d \<or> ao_command a \<noteq> AO_COMMAND_NONE" by blast
  then show ?thesis
  proof cases
    case fail
    then have c: "ao_command a = AO_COMMAND_NONE" using steady by blast
    define b where "b = a\<lparr>ao_pipe := None, ao_chunk := None, ao_open := False, ao_given := [], ao_fail_timer := True,
      ao_in_playback_loop := False, ao_chunk_finished := True, ao_at := AT_TOP\<rparr>"
    have "ao_play_chunk d mp c a = Some b"
      using fail o t mp k chk af by (simp add: ao_play_chunk_def do_close_def play_next_def b_def)
    moreover have "ao_inv removed af mp b" by (rule closed_inv[OF i]) (use c o t in \<open>simp_all add: b_def\<close>)
    ultimately show ?thesis using c o by (simp add: evolves_def b_def ao_frame_def rank_def awake_def passed_def)
  next
    case stay
    then have "ao_play_chunk d mp c a = Some a" using o mp k chk af by (simp add: ao_play_chunk_def)
    then show ?thesis using evolves_refl[OF i] stay(4) by simp
  next
    case go
    have r: "ao_play_chunk d mp c a = play_next n a" using go o mp k chk af n(1) by (auto simp: ao_play_chunk_def)
    show ?thesis
    proof (cases "n = None \<or> ao_command a \<noteq> AO_COMMAND_NONE")
      case True
      define b where "b = a\<lparr>ao_in_playback_loop := False, ao_chunk_finished := True, ao_at := AT_TOP\<rparr>"
      have "ao_play_chunk d mp c a = Some b" using r True by (auto simp: play_next_def b_def split: option.splits)
      moreover have "ao_inv removed af mp b" by (rule moved_inv[OF i]) (use o in \<open>simp_all add: b_def\<close>)
      ultimately show ?thesis using at o by (auto simp: evolves_def b_def ao_frame_def rank_def awake_def passed_def)
    next
      case False
      then obtain e where e: "n = Some e" by auto
      define b where "b = a\<lparr>ao_chunk := Some e, ao_at := AT_CHUNK e, ao_given := ao_given a @ [e]\<rparr>"
      have "ao_play_chunk d mp c a = Some b" using r False e o by (simp add: play_next_def b_def)
      moreover have "ao_inv removed af mp b"
        using i n(2) e o t mp False by (auto simp: ao_inv_def open_ok_def enable_ok_def cmd_ok_none given_ok_def b_def)
      moreover have "e \<noteq> pk_addr (hd cs)" using next_not_first[OF dist] n(1) e by blast
      ultimately show ?thesis using False mp o by (simp add: evolves_def b_def ao_frame_def rank_def awake_def passed_def)
    qed
  qed
qed

lemma do_pause_ok:
  assumes i: "ao_inv removed af mp a" and at: "ao_at a = AT_PAUSED"
    and steady: "ao_command a \<noteq> AO_COMMAND_NONE \<Longrightarrow> dv_filtered d \<and> dv_running d"
  shows "\<exists>a'. do_pause d a = Some a' \<and> evolves removed af mp a a' \<and> (ao_command a \<noteq> AO_COMMAND_NONE \<longrightarrow> ao_at a' = AT_TOP)"
proof -
  have o: "ao_open a" "\<not> ao_in_playback_loop a" "ao_chunk a \<noteq> None \<longrightarrow> ao_chunk_finished a" "ao_thread a"
    using i at by (auto simp: ao_inv_def open_ok_def)
  consider (fail) "\<not> dv_running d" | (stay) "dv_running d" "ao_command a = AO_COMMAND_NONE"
    | (go) "dv_running d" "ao_command a \<noteq> AO_COMMAND_NONE" by blast
  then show ?thesis
  proof cases
    case fail
    then have c: "ao_command a = AO_COMMAND_NONE" using steady by blast
    define b where "b = a\<lparr>ao_pipe := None, ao_chunk := None, ao_open := False, ao_given := [], ao_paused := False, ao_at := AT_TOP\<rparr>"
    have "do_pause d a = Some b" using fail o by (simp add: do_pause_def do_close_def b_def)
    moreover have "ao_inv removed af mp b" by (rule closed_inv[OF i]) (use c o in \<open>simp_all add: b_def\<close>)
    ultimately show ?thesis using c o by (simp add: evolves_def b_def ao_frame_def rank_def awake_def passed_def)
  next
    case stay
    then show ?thesis using evolves_refl[OF i] by (simp add: do_pause_def)
  next
    case go
    define b where "b = a\<lparr>ao_paused := False, ao_at := AT_TOP\<rparr>"
    have "do_pause d a = Some b" using go by (simp add: do_pause_def b_def)
    moreover have "ao_inv removed af mp b" by (rule moved_inv[OF i]) (use o in \<open>simp_all add: b_def\<close>)
    ultimately show ?thesis using at go by (simp add: evolves_def b_def ao_frame_def rank_def awake_def)
  qed
qed

section \<open>Commands\<close>

text \<open>A device that has been given nothing yet.\<close>

lemma fresh_inv:
  assumes "ao_inv removed af mp a" "ao_chunk b = None" "ao_given b = []" "ao_command b = AO_COMMAND_NONE" "ao_thread b"
    "place_ok (ao_at b) b" "ao_always_on b = ao_always_on a" "ao_has_disable b = ao_has_disable a"
    "ao_has_enable b = ao_has_enable a"
    "ao_open b \<Longrightarrow> ao_really_enabled b \<and> \<not> ao_fail_timer b \<and> mp \<noteq> None \<and> ao_pipe b = map_option fst mp \<and> (ao_in_audio_format b = af \<or> pipe_of mp = [])"
  shows "ao_inv removed af mp b"
  using assms by (auto simp: ao_inv_def open_ok_def enable_ok_def cmd_ok_none given_ok_def)

text \<open>What \<open>do_open\<close> leaves alone.\<close>

definition same_but_open :: "audio_output \<Rightarrow> audio_output \<Rightarrow> bool" where
  "same_but_open a b \<longleftrightarrow> ao_command b = ao_command a \<and> ao_at b = ao_at a \<and> ao_thread b = ao_thread a \<and>
     ao_always_on b = ao_always_on a \<and> ao_has_disable b = ao_has_disable a \<and> ao_has_enable b = ao_has_enable a \<and>
     ao_enabled b = ao_enabled a \<and> ao_in_audio_format b = ao_in_audio_format a \<and>
     ao_allow_play b = ao_allow_play a \<and> ao_paused b = ao_paused a \<and> ao_in_playback_loop b = ao_in_playback_loop a"

lemma do_open_ok:
  assumes "\<not> ao_open a" "ao_pipe a \<noteq> None" "ao_chunk a = None" "ao_given a = []" "IsValid (ao_in_audio_format a)"
  shows "\<exists>b. do_open d a = Some b \<and> same_but_open a b \<and> ao_given b = [] \<and> ao_chunk b = None \<and> (ao_open b \<longrightarrow> ao_really_enabled b \<and> \<not> ao_fail_timer b \<and> ao_pipe b = ao_pipe a)"
  using assms by (auto simp: do_open_def do_enable_def same_but_open_def Let_def)

lemma do_reopen_ok:
  assumes "ao_open a" "ao_really_enabled a" "\<not> ao_fail_timer a" "ao_pipe a \<noteq> None" "ao_chunk a = None" "IsValid (ao_in_audio_format a)"
    "IsFullyDefined (ao_config_audio_format a) \<longrightarrow> ao_given a = []"
  shows "\<exists>b. do_reopen d a = Some b \<and> same_but_open a b \<and> ao_given b = [] \<and> ao_chunk b = None \<and> (ao_open b \<longrightarrow> ao_really_enabled b \<and> \<not> ao_fail_timer b \<and> ao_pipe b = ao_pipe a)"
proof (cases "IsFullyDefined (ao_config_audio_format a)")
  case True
  then show ?thesis using assms by (simp add: do_reopen_def do_reopen_filter_def same_but_open_def)
next
  case False
  define e where "e = a\<lparr>ao_chunk := None, ao_open := False, ao_given := [],
    ao_out_audio_format := ApplyMask (ao_in_audio_format a) (ao_config_audio_format a)\<rparr>"
  have "do_reopen d a = do_open d e" using False assms by (simp add: do_reopen_def do_close_def e_def)
  moreover obtain b where "do_open d e = Some b" "same_but_open e b" "ao_given b = []" "ao_chunk b = None"
    "ao_open b \<longrightarrow> ao_really_enabled b \<and> \<not> ao_fail_timer b \<and> ao_pipe b = ao_pipe e"
    using do_open_ok[of e d] assms by (auto simp: e_def)
  ultimately show ?thesis using assms by (auto simp: e_def same_but_open_def)
qed

text \<open>A command is carried out in one step.\<close>

lemma dispatch_fresh:
  assumes i: "ao_inv removed af mp a" and c: "ao_command a \<noteq> AO_COMMAND_NONE" and at: "ao_at a = AT_TOP"
    and s: "same_but_open a b" "ao_given b = []" "ao_chunk b = None"
    and o: "ao_open b \<Longrightarrow> ao_really_enabled b \<and> \<not> ao_fail_timer b \<and> mp \<noteq> None \<and> ao_pipe b = map_option fst mp \<and> (ao_in_audio_format b = af \<or> pipe_of mp = [])"
    and e: "ao_command a = AO_COMMAND_CLOSE \<or> ao_command a = AO_COMMAND_DISABLE \<Longrightarrow> \<not> ao_open b"
    and q: "ao_command a \<noteq> AO_COMMAND_PAUSE"
  shows "evolves removed af mp a (b\<lparr>ao_command := AO_COMMAND_NONE, ao_at := AT_PLAY\<rparr>)"
proof (rule evolves_command[OF c])
  have "ao_thread a" "place_ok AT_TOP a" using i c at by (auto simp: ao_inv_def cmd_ok_def)
  then show "ao_inv removed af mp (b\<lparr>ao_command := AO_COMMAND_NONE, ao_at := AT_PLAY\<rparr>)"
    by (intro fresh_inv[OF i]) (use s o in \<open>simp_all add: same_but_open_def\<close>)
qed (use s e q in \<open>auto simp: same_but_open_def ao_frame_def\<close>)

text \<open>A command that leaves the device as it is.\<close>

lemma dispatch_plain:
  assumes i: "ao_inv removed af mp a" and c: "ao_command a \<noteq> AO_COMMAND_NONE" and at: "ao_at a = AT_TOP"
    and p: "p = AT_TOP \<or> p = AT_PLAY" and x: "ao_command a \<noteq> AO_COMMAND_CANCEL" "ao_command a \<noteq> AO_COMMAND_CLOSE" "ao_command a \<noteq> AO_COMMAND_DISABLE" "ao_command a = AO_COMMAND_PAUSE \<longrightarrow> \<not> ao_open a"
  shows "evolves removed af mp a (a\<lparr>ao_command := AO_COMMAND_NONE, ao_at := p\<rparr>)"
proof (rule evolves_command[OF c])
  have "ao_thread a" "place_ok AT_TOP a" using i c at by (auto simp: ao_inv_def cmd_ok_def)
  then show "ao_inv removed af mp (a\<lparr>ao_command := AO_COMMAND_NONE, ao_at := p\<rparr>)"
    using i p x by (auto simp: ao_inv_def open_ok_def enable_ok_def cmd_ok_none given_ok_def cong: option.case_cong)
qed (use p x in \<open>auto simp: ao_frame_def\<close>)

lemma ao_dispatch_ok:
  assumes i: "ao_inv removed af mp a" and p: "pipe_ok af mp" and c: "ao_command a \<noteq> AO_COMMAND_NONE" and at: "ao_at a = AT_TOP"
  shows "\<exists>a'. ao_dispatch d mp a = Some a' \<and> evolves removed af mp a a' \<and> ao_command a' = AO_COMMAND_NONE"
proof -
  have cm: "cmd_ok af mp a" and op: "open_ok af mp a" and pl: "place_ok AT_TOP a" using i at by (auto simp: ao_inv_def)
  have v: "mp \<noteq> None \<Longrightarrow> IsValid af" using p by (simp add: pipe_ok_def)
  note plain = dispatch_plain[OF i c at] and fresh = dispatch_fresh[OF i c at]
  show ?thesis
  proof (cases "ao_command a")
    case AO_COMMAND_ENABLE
    define b where "b = (snd (do_enable d a))\<lparr>ao_command := AO_COMMAND_NONE, ao_at := AT_PLAY\<rparr>"
    have "ao_thread a" using cm c by (simp add: cmd_ok_def)
    then have "ao_inv removed af mp b"
      using i pl AO_COMMAND_ENABLE
      by (auto simp: b_def do_enable_def ao_inv_def open_ok_def enable_ok_def cmd_ok_none given_ok_def cong: option.case_cong)
    then have "evolves removed af mp a b"
      by (rule evolves_command[OF c]) (use AO_COMMAND_ENABLE in \<open>auto simp: b_def do_enable_def ao_frame_def\<close>)
    moreover have "ao_dispatch d mp a = Some b"
      using AO_COMMAND_ENABLE by (auto simp: ao_dispatch_def ao_command_finished_def b_def do_enable_def)
    ultimately show ?thesis by (auto simp: b_def)
  next
    case AO_COMMAND_DISABLE
    define b where "b = (if ao_open a then a\<lparr>ao_pipe := None, ao_chunk := None, ao_open := False, ao_given := [],
      ao_really_enabled := False\<rparr> else a\<lparr>ao_really_enabled := False\<rparr>)"
    have "ao_dispatch d mp a = Some (b\<lparr>ao_command := AO_COMMAND_NONE, ao_at := AT_PLAY\<rparr>)"
      using AO_COMMAND_DISABLE by (auto simp: ao_dispatch_def ao_command_finished_def b_def do_disable_def do_close_def)
    moreover have "evolves removed af mp a (b\<lparr>ao_command := AO_COMMAND_NONE, ao_at := AT_PLAY\<rparr>)"
      by (rule fresh) (use op AO_COMMAND_DISABLE in \<open>auto simp: b_def same_but_open_def open_ok_def split: if_splits\<close>)
    ultimately show ?thesis by simp
  next
    case c: AO_COMMAND_OPEN
    note AO_COMMAND_OPEN = c
    then have o: "\<not> ao_open a" "mp \<noteq> None" "ao_pipe a = map_option fst mp" "ao_in_audio_format a = af" "ao_chunk a = None"
      "ao_given a = []" using cm op by (simp_all add: cmd_ok_def open_ok_def)
    then obtain b where b: "do_open d a = Some b" "same_but_open a b" "ao_given b = []" "ao_chunk b = None"
      "ao_open b \<longrightarrow> ao_really_enabled b \<and> \<not> ao_fail_timer b \<and> ao_pipe b = ao_pipe a"
      using do_open_ok[of a d] v by auto
    then have "ao_dispatch d mp a = Some (b\<lparr>ao_command := AO_COMMAND_NONE, ao_at := AT_PLAY\<rparr>)"
      using AO_COMMAND_OPEN by (simp add: ao_dispatch_def ao_command_finished_def same_but_open_def)
    moreover have "evolves removed af mp a (b\<lparr>ao_command := AO_COMMAND_NONE, ao_at := AT_PLAY\<rparr>)"
      by (rule fresh) (use b o c in \<open>auto simp: same_but_open_def\<close>)
    ultimately show ?thesis by simp
  next
    case c: AO_COMMAND_REOPEN
    note AO_COMMAND_REOPEN = c
    then have o: "ao_open a" "mp \<noteq> None" "ao_pipe a = map_option fst mp" "ao_in_audio_format a = af" "ao_chunk a = None"
      "ao_given a = []" "\<not> ao_fail_timer a" "ao_really_enabled a" using cm op by (simp_all add: cmd_ok_def open_ok_def)
    then obtain b where b: "do_reopen d a = Some b" "same_but_open a b" "ao_given b = []" "ao_chunk b = None"
      "ao_open b \<longrightarrow> ao_really_enabled b \<and> \<not> ao_fail_timer b \<and> ao_pipe b = ao_pipe a"
      using do_reopen_ok[of a d] v by auto
    then have "ao_dispatch d mp a = Some (b\<lparr>ao_command := AO_COMMAND_NONE, ao_at := AT_PLAY\<rparr>)"
      using AO_COMMAND_REOPEN by (simp add: ao_dispatch_def ao_command_finished_def same_but_open_def)
    moreover have "evolves removed af mp a (b\<lparr>ao_command := AO_COMMAND_NONE, ao_at := AT_PLAY\<rparr>)"
      by (rule fresh) (use b o c in \<open>auto simp: same_but_open_def\<close>)
    ultimately show ?thesis by simp
  next
    case AO_COMMAND_CLOSE
    then have o: "ao_open a" "ao_pipe a \<noteq> None" using cm op by (auto simp: cmd_ok_def open_ok_def)
    define b where "b = a\<lparr>ao_pipe := None, ao_chunk := None, ao_open := False, ao_given := []\<rparr>"
    have "ao_dispatch d mp a = Some (b\<lparr>ao_command := AO_COMMAND_NONE, ao_at := AT_PLAY\<rparr>)"
      using AO_COMMAND_CLOSE o by (simp add: ao_dispatch_def ao_command_finished_def b_def do_close_def)
    moreover have "evolves removed af mp a (b\<lparr>ao_command := AO_COMMAND_NONE, ao_at := AT_PLAY\<rparr>)"
      by (rule fresh) (use AO_COMMAND_CLOSE in \<open>auto simp: b_def same_but_open_def\<close>)
    ultimately show ?thesis by simp
  next
    case AO_COMMAND_PAUSE
    then have o: "ao_open a" using cm by (simp add: cmd_ok_def)
    define b where "b = a\<lparr>ao_paused := True, ao_command := AO_COMMAND_NONE, ao_at := AT_PAUSED\<rparr>"
    have "ao_dispatch d mp a = Some b" using AO_COMMAND_PAUSE o by (simp add: ao_dispatch_def ao_command_finished_def b_def)
    moreover have "evolves removed af mp a b"
      by (rule evolves_command[OF c]) (use i o pl AO_COMMAND_PAUSE in \<open>auto simp: b_def ao_frame_def ao_inv_def open_ok_def enable_ok_def cmd_ok_none
          given_ok_def cong: option.case_cong\<close>)
    ultimately show ?thesis by (simp add: b_def)
  next
    case AO_COMMAND_DRAIN
    then have o: "ao_open a" "pipe_of mp = []" using cm by (simp_all add: cmd_ok_def)
    then have "ao_chunk a = None" using i by (auto simp: ao_inv_def given_ok_def split: option.splits)
    moreover obtain q where "mp = Some (q, [])" "ao_pipe a = Some q" using op o by (auto simp: open_ok_def)
    ultimately have "ao_dispatch d mp a = Some (a\<lparr>ao_command := AO_COMMAND_NONE, ao_at := AT_TOP\<rparr>)"
      using AO_COMMAND_DRAIN o by (simp add: ao_dispatch_def ao_command_finished_def ao_next_chunk_def)
    then show ?thesis using plain[of AT_TOP] AO_COMMAND_DRAIN by simp
  next
    case AO_COMMAND_CANCEL
    define b where "b = a\<lparr>ao_chunk := None, ao_given := [], ao_command := AO_COMMAND_NONE, ao_at := AT_TOP\<rparr>"
    have "ao_dispatch d mp a = Some b" using AO_COMMAND_CANCEL by (simp add: ao_dispatch_def ao_command_finished_def b_def)
    moreover have "evolves removed af mp a b"
    proof (rule evolves_command[OF c])
      show "ao_inv removed af mp b"
        by (rule fresh_inv[OF i]) (use pl op cm c in \<open>auto simp: b_def open_ok_def cmd_ok_def split: if_splits\<close>)
    qed (use AO_COMMAND_CANCEL in \<open>simp_all add: b_def ao_frame_def\<close>)
    ultimately show ?thesis by (simp add: b_def)
  qed (use c cm in \<open>auto simp: cmd_ok_def\<close>)
qed

section \<open>Any step\<close>

text \<open>
  A step of the thread in a steady environment never fails, keeps the invariant and what the
  player relies on, and brings the thread nearer to the end of a command.
\<close>

lemma ao_step_ok:
  assumes i: "ao_inv removed af mp a" and p: "pipe_ok af mp"
  shows "\<exists>a'. ao_step (answer True a d) mp a = Some a' \<and> evolves removed af mp a a' \<and> (rank a \<noteq> 0 \<longrightarrow> rank a' < rank a)"
proof (cases "ao_thread a")
  case False
  then have "rank a = 0" using i by (auto simp: ao_inv_def cmd_ok_def rank_def)
  then show ?thesis using False evolves_refl[OF i] by (simp add: ao_step_def)
next
  case True
  let ?d = "answer True a d"
  have st: "ao_command a \<noteq> AO_COMMAND_NONE \<Longrightarrow> dv_filtered ?d \<and> dv_running ?d" by (simp add: answer_def)
  have low: "rank a' < rank a" if "ao_at a' = AT_TOP" "rank a \<noteq> 0" "ao_at a \<noteq> AT_TOP" for a'
    using that by (cases "ao_at a") (auto simp: rank_def split: if_splits)
  show ?thesis
  proof (cases "ao_at a")
    case AT_TOP
    show ?thesis
    proof (cases "ao_command a = AO_COMMAND_NONE")
      case True
      then show ?thesis using ao_rest_ok[OF i p \<open>ao_thread a\<close>] AT_TOP \<open>ao_thread a\<close>
        by (auto simp: ao_step_def ao_dispatch_def rank_0)
    next
      case False
      then show ?thesis using ao_dispatch_ok[OF i p False AT_TOP, of ?d] AT_TOP \<open>ao_thread a\<close>
        by (auto simp: ao_step_def rank_def)
    qed
  next
    case AT_PLAY
    then show ?thesis using ao_rest_ok[OF i p True] True low by (auto simp: ao_step_def rank_0)
  next
    case (AT_CHUNK c)
    then show ?thesis using ao_play_chunk_ok[OF i p AT_CHUNK st] True low by (auto simp: ao_step_def rank_0)
  next
    case AT_PAUSED
    then show ?thesis using do_pause_ok[OF i AT_PAUSED st] True low by (auto simp: ao_step_def rank_0)
  next
    case (AT_WAIT s)
    show ?thesis
    proof (cases s)
      case True
      have "ao_inv removed af mp (a\<lparr>ao_at := AT_TOP\<rparr>)"
        by (rule moved_inv[OF i]) (use i AT_WAIT in \<open>auto simp: ao_inv_def\<close>)
      then have "evolves removed af mp a (a\<lparr>ao_at := AT_TOP\<rparr>)"
        using AT_WAIT by (auto simp: evolves_def ao_frame_def rank_def awake_def passed_def cong: option.case_cong)
      then show ?thesis using True AT_WAIT \<open>ao_thread a\<close> by (auto simp: ao_step_def rank_def)
    next
      case False
      then have "rank a = 0" using i AT_WAIT by (auto simp: ao_inv_def cmd_ok_def rank_def)
      then show ?thesis using False AT_WAIT evolves_refl[OF i] \<open>ao_thread a\<close> by (simp add: ao_step_def)
    qed
  next
    case AT_END
    then show ?thesis using i by (simp add: ao_inv_def)
  qed
qed

end
