(* ===== verification/Output_Turns.thy ===== *)
theory Output_Turns
  imports Output_Steps
begin

text \<open>
  The outputs as the player sees them: whenever it locks an output or sleeps, the threads run, and
  everything it relies on is kept; a wait for a command ends.
\<close>

section \<open>The state the player sees\<close>

definition oa_ok :: "output_all \<Rightarrow> bool" where
  "oa_ok st \<longleftrightarrow> oa_steady st \<and> pipe_ok (oa_input_audio_format st) (oa_mp st) \<and> (oa_mp st \<noteq> None \<longleftrightarrow> oa_music_buffer st) \<and>
     (oa_mp st = None \<longrightarrow> \<not> IsDefined (oa_input_audio_format st)) \<and>
     (\<forall>i < length (oa_outputs st). ao_inv (oa_removed st) (oa_input_audio_format st) (oa_mp st) (get_ao i st))"

text \<open>The threads change the outputs only.\<close>

definition oa_same :: "output_all \<Rightarrow> output_all \<Rightarrow> bool" where
  "oa_same st st' \<longleftrightarrow> oa_input_audio_format st' = oa_input_audio_format st \<and> oa_music_buffer st' = oa_music_buffer st \<and>
     oa_mp st' = oa_mp st \<and> oa_next_mp st' = oa_next_mp st \<and> oa_elapsed_time st' = oa_elapsed_time st \<and>
     oa_removed st' = oa_removed st \<and> oa_returned st' = oa_returned st \<and> oa_steady st' = oa_steady st \<and>
     length (oa_outputs st') = length (oa_outputs st)"

lemma oa_same_refl [simp]: "oa_same st st" by (simp add: oa_same_def)

lemma oa_same_sym: "oa_same st st' \<Longrightarrow> oa_same st' st" by (simp add: oa_same_def)

lemma oa_same_trans: "oa_same a b \<Longrightarrow> oa_same b c \<Longrightarrow> oa_same a c" by (simp add: oa_same_def)

lemma oa_same_put [simp]: "oa_same st (put_ao i a st)" by (simp add: oa_same_def put_ao_def)

lemma put_ao_simps [simp]:
  "oa_input_audio_format (put_ao i a st) = oa_input_audio_format st" "oa_music_buffer (put_ao i a st) = oa_music_buffer st"
  "oa_mp (put_ao i a st) = oa_mp st" "oa_removed (put_ao i a st) = oa_removed st" "oa_steady (put_ao i a st) = oa_steady st"
  "oa_tape (put_ao i a st) = oa_tape st" "length (oa_outputs (put_ao i a st)) = length (oa_outputs st)"
  "oa_returned (put_ao i a st) = oa_returned st" "oa_elapsed_time (put_ao i a st) = oa_elapsed_time st"
  by (simp_all add: put_ao_def)

lemma get_put: "i < length (oa_outputs st) \<Longrightarrow> get_ao i (put_ao i a st) = a"
  and get_put_other: "i \<noteq> j \<Longrightarrow> get_ao j (put_ao i a st) = get_ao j st"
  by (simp_all add: get_ao_def put_ao_def)

lemma get_put_if: "k < length (oa_outputs st) \<Longrightarrow> get_ao k (put_ao i a st) = (if k = i then a else get_ao k st)"
  by (simp add: get_put get_put_other)

lemma put_put [simp]: "put_ao i b (put_ao i a st) = put_ao i b st"
  by (simp add: put_ao_def)

abbreviation evolves_in :: "output_all \<Rightarrow> audio_output \<Rightarrow> audio_output \<Rightarrow> bool" where
  "evolves_in st \<equiv> evolves (oa_removed st) (oa_input_audio_format st) (oa_mp st)"

abbreviation inv_in :: "output_all \<Rightarrow> audio_output \<Rightarrow> bool" where
  "inv_in st \<equiv> ao_inv (oa_removed st) (oa_input_audio_format st) (oa_mp st)"

lemma evolves_same: "oa_same st st' \<Longrightarrow> evolves_in st' = evolves_in st"
  by (simp add: oa_same_def)

lemma inv_same: "oa_same st st' \<Longrightarrow> inv_in st' = inv_in st"
  by (simp add: oa_same_def)

lemma oa_ok_inv: "oa_ok st \<Longrightarrow> i < length (oa_outputs st) \<Longrightarrow> inv_in st (get_ao i st)"
  by (simp add: oa_ok_def)

lemma oa_ok_pipe: "oa_ok st \<Longrightarrow> pipe_ok (oa_input_audio_format st) (oa_mp st)"
  by (simp add: oa_ok_def)

lemma oa_ok_same:
  "oa_ok st \<Longrightarrow> oa_same st st' \<Longrightarrow> (\<And>i. i < length (oa_outputs st) \<Longrightarrow> inv_in st (get_ao i st')) \<Longrightarrow> oa_ok st'"
  by (simp add: oa_ok_def oa_same_def)

lemma oa_ok_put: "oa_ok st \<Longrightarrow> inv_in st a \<Longrightarrow> oa_ok (put_ao i a st)"
  by (rule oa_ok_same) (auto simp: get_put_if oa_ok_inv)

section \<open>Turns\<close>

text \<open>The threads have run.\<close>

definition turned :: "output_all \<Rightarrow> output_all \<Rightarrow> bool" where
  "turned st st' \<longleftrightarrow> oa_ok st' \<and> oa_same st st' \<and> (\<forall>i < length (oa_outputs st). evolves_in st (get_ao i st) (get_ao i st'))"

text \<open>The threads have run, and the player has done something with one output.\<close>

definition touched :: "nat \<Rightarrow> output_all \<Rightarrow> output_all \<Rightarrow> bool" where
  "touched i st st' \<longleftrightarrow> oa_ok st' \<and> oa_same st st' \<and>
     (\<forall>j < length (oa_outputs st). j \<noteq> i \<longrightarrow> evolves_in st (get_ao j st) (get_ao j st'))"

lemma turned_refl: "oa_ok st \<Longrightarrow> turned st st"
  by (simp add: turned_def evolves_refl oa_ok_inv)

lemma turned_trans: "turned a b \<Longrightarrow> turned b c \<Longrightarrow> turned a c"
  using evolves_same[of a b] by (auto simp: turned_def intro: oa_same_trans evolves_trans) (auto simp: oa_same_def intro: evolves_trans)

lemma turned_touched: "turned a b \<Longrightarrow> touched i a b"
  by (simp add: turned_def touched_def)

lemma touched_trans: "touched i a b \<Longrightarrow> touched i b c \<Longrightarrow> touched i a c"
  using evolves_same[of a b] by (auto simp: touched_def intro: oa_same_trans evolves_trans) (auto simp: oa_same_def intro: evolves_trans)

lemma touched_put: "oa_ok st \<Longrightarrow> inv_in st a \<Longrightarrow> touched i st (put_ao i a st)"
  by (auto simp: touched_def oa_ok_put get_put_other evolves_refl oa_ok_inv)

lemma turned_get: "turned st st' \<Longrightarrow> i < length (oa_outputs st) \<Longrightarrow> evolves_in st (get_ao i st) (get_ao i st')"
  by (simp add: turned_def)

lemma run_steps_ok:
  "oa_ok st \<Longrightarrow> \<exists>st'. run_steps held steps st = Some st' \<and> turned st st' \<and> oa_tape st' = oa_tape st \<and>
    (\<forall>i \<in> set held. get_ao i st' = get_ao i st) \<and>
    (\<forall>i < length (oa_outputs st). i \<in> fst ` set steps \<and> i \<notin> set held \<and> rank (get_ao i st) \<noteq> 0 \<longrightarrow>
       rank (get_ao i st') < rank (get_ao i st))"
proof (induction steps arbitrary: st)
  case Nil
  then show ?case by (simp add: turned_refl)
next
  case (Cons x steps)
  obtain j d where x: "x = (j, d)" by fastforce
  show ?case
  proof (cases "j < length (oa_outputs st) \<and> j \<notin> set held")
    case False
    obtain st' where "run_steps held steps st = Some st'" "turned st st'" "oa_tape st' = oa_tape st"
      "\<forall>i \<in> set held. get_ao i st' = get_ao i st"
      "\<forall>i < length (oa_outputs st). i \<in> fst ` set steps \<and> i \<notin> set held \<and> rank (get_ao i st) \<noteq> 0 \<longrightarrow>
       rank (get_ao i st') < rank (get_ao i st)" using Cons.IH[OF Cons.prems] by blast
    then show ?thesis using False x by (auto simp del: split_paired_Ex)
  next
    case True
    obtain a where a: "ao_step (answer True (get_ao j st) d) (oa_mp st) (get_ao j st) = Some a"
      "evolves_in st (get_ao j st) a" "rank (get_ao j st) \<noteq> 0 \<longrightarrow> rank a < rank (get_ao j st)"
      using ao_step_ok[OF oa_ok_inv[OF Cons.prems] oa_ok_pipe[OF Cons.prems], of j d] True by blast
    let ?u = "put_ao j a st"
    have u: "turned st ?u"
      using a(2) oa_ok_put[OF Cons.prems, of a j] evolves_refl[OF oa_ok_inv[OF Cons.prems]]
      by (simp add: turned_def get_put_if evolves_def)
    then have "oa_ok ?u" by (simp add: turned_def)
    then obtain st' where s: "run_steps held steps ?u = Some st'" "turned ?u st'" "oa_tape st' = oa_tape ?u"
      "\<forall>i \<in> set held. get_ao i st' = get_ao i ?u"
      "\<forall>i < length (oa_outputs ?u). i \<in> fst ` set steps \<and> i \<notin> set held \<and> rank (get_ao i ?u) \<noteq> 0 \<longrightarrow>
       rank (get_ao i st') < rank (get_ao i ?u)" using Cons.IH[of ?u] by blast
    have ru: "rank (get_ao i ?u) \<le> rank (get_ao i st)" "rank (get_ao i st') \<le> rank (get_ao i ?u)" if "i < length (oa_outputs st)" for i
      using turned_get[OF u that] turned_get[OF s(2), of i] that by (simp_all add: evolves_def)
    have "oa_steady st" using Cons.prems by (simp add: oa_ok_def)
    then have "run_steps held (x # steps) st = Some st'" using True x a(1) s(1) by simp
    moreover have "turned st st'" using u s(2) by (rule turned_trans)
    moreover have "\<forall>i \<in> set held. get_ao i st' = get_ao i st" using s(4) True get_put_other by metis
    moreover have "rank (get_ao i st') < rank (get_ao i st)"
      if i: "i < length (oa_outputs st)" "i \<in> fst ` set (x # steps)" "i \<notin> set held" "rank (get_ao i st) \<noteq> 0" for i
    proof (cases "i = j")
      case True
      then have "rank (get_ao i ?u) < rank (get_ao i st)" using a(3) i by (simp add: get_put)
      then show ?thesis using ru(2)[OF i(1)] by linarith
    next
      case False
      then have "rank (get_ao i ?u) = rank (get_ao i st)" "i \<in> fst ` set steps" using i x by (auto simp: get_put_other)
      then show ?thesis using s(5) i put_ao_simps(7)[of j a st] by metis
    qed
    ultimately show ?thesis using s(3) by auto
  qed
qed

lemma tape_ok: "oa_ok (st\<lparr>oa_tape := t\<rparr>) = oa_ok st" "turned (st\<lparr>oa_tape := t\<rparr>) = turned st" "get_ao i (st\<lparr>oa_tape := t\<rparr>) = get_ao i st"
  by (auto simp: oa_ok_def turned_def oa_same_def get_ao_def fun_eq_iff)

lemma take_turn_ok:
  assumes "oa_ok st"
  shows "\<exists>t st'. take_turn held st = Some (t, st') \<and> turned st st' \<and> oa_tape st' = tl (oa_tape st) \<and>
    (\<forall>i \<in> set held. get_ao i st' = get_ao i st)"
proof (cases "oa_tape st")
  case Nil
  then show ?thesis using assms by (simp add: take_turn_def turned_refl)
next
  case (Cons t ts)
  then show ?thesis using run_steps_ok[of "st\<lparr>oa_tape := ts\<rparr>" held "tn_steps t"] assms
    by (auto simp: take_turn_def tape_ok)
qed

lemma oa_lock_ok:
  assumes "oa_ok st"
  shows "\<exists>st'. oa_lock st = Some st' \<and> turned st st' \<and> oa_tape st' = tl (oa_tape st)"
  using take_turn_ok[OF assms, of "[]"] by (auto simp: oa_lock_def)

text \<open>Sleeping uses up a turn, or brings every thread nearer to the end of its command.\<close>

lemma oa_sleep_ok:
  assumes "oa_ok st"
  shows "\<exists>st'. oa_sleep st = Some st' \<and> turned st st' \<and> oa_tape st' = tl (oa_tape st) \<and>
    (oa_tape st = [] \<longrightarrow> (\<forall>i < length (oa_outputs st). rank (get_ao i st) \<noteq> 0 \<longrightarrow> rank (get_ao i st') < rank (get_ao i st)))"
proof (cases "oa_tape st = []")
  case False
  then show ?thesis using oa_lock_ok[OF assms] by (simp add: oa_sleep_def)
next
  case True
  have "fst ` set (map (\<lambda>i. (i, good_device)) [0..<length (oa_outputs st)]) = {0..<length (oa_outputs st)}"
    by (force simp: image_iff)
  then show ?thesis
    using run_steps_ok[OF assms, of "[]" "map (\<lambda>i. (i, good_device)) [0..<length (oa_outputs st)]"] True
    by (auto simp: oa_sleep_def)
qed

section \<open>Waiting for a command\<close>

lemma ao_command_wait_ok:
  "oa_ok st \<Longrightarrow> i < length (oa_outputs st) \<Longrightarrow> length (oa_tape st) + rank (get_ao i st) < fuel \<Longrightarrow>
    \<exists>st'. ao_command_wait fuel i st = Some st' \<and> turned st st' \<and> ao_command (get_ao i st') = AO_COMMAND_NONE"
proof (induction fuel arbitrary: st)
  case (Suc fuel)
  show ?case
  proof (cases "ao_command (get_ao i st) = AO_COMMAND_NONE")
    case True
    then show ?thesis using Suc.prems by (simp add: turned_refl)
  next
    case False
    then have r: "rank (get_ao i st) \<noteq> 0" by (simp add: rank_0)
    obtain u where u: "oa_sleep st = Some u" "turned st u" "oa_tape u = tl (oa_tape st)"
      "oa_tape st = [] \<longrightarrow> rank (get_ao i u) < rank (get_ao i st)"
      using oa_sleep_ok[OF Suc.prems(1)] Suc.prems(2) r by blast
    have "rank (get_ao i u) \<le> rank (get_ao i st)" using turned_get[OF u(2) Suc.prems(2)] by (simp add: evolves_def)
    then have "length (oa_tape u) + rank (get_ao i u) < fuel"
      using Suc.prems(3) u(3,4) by (cases "oa_tape st") auto
    moreover have "oa_ok u" "i < length (oa_outputs u)" using u(2) Suc.prems(2) by (auto simp: turned_def oa_same_def)
    ultimately obtain v where "ao_command_wait fuel i u = Some v" "turned u v" "ao_command (get_ao i v) = AO_COMMAND_NONE"
      using Suc.IH by blast
    then show ?thesis using False u(1,2) turned_trans[OF u(2)] by auto
  qed
qed simp

text \<open>The command is written down, the thread is woken, and in the end the command is finished.\<close>

lemma send_command_ok:
  assumes ok: "oa_ok st" and i: "i < length (oa_outputs st)" and c: "ao_command (get_ao i st) = AO_COMMAND_NONE"
    and a: "inv_in st (signal ((get_ao i st)\<lparr>ao_command := cmd\<rparr>))"
  shows "\<exists>st'. send_command i cmd st = Some st' \<and> turned (put_ao i (signal ((get_ao i st)\<lparr>ao_command := cmd\<rparr>)) st) st' \<and>
    touched i st st' \<and> ao_command (get_ao i st') = AO_COMMAND_NONE"
proof -
  let ?u = "put_ao i (signal ((get_ao i st)\<lparr>ao_command := cmd\<rparr>)) st"
  have u: "oa_ok ?u" using oa_ok_put[OF ok a] .
  have "ao_command_async i cmd st = Some ?u" using c by (simp add: ao_command_async_def)
  moreover have "length (oa_tape ?u) + rank (get_ao i ?u) < wait_fuel ?u"
    using rank_le[of "get_ao i ?u"] by (simp add: wait_fuel_def)
  ultimately obtain st' where "send_command i cmd st = Some st'" "turned ?u st'" "ao_command (get_ao i st') = AO_COMMAND_NONE"
    using ao_command_wait_ok[OF u, of i] i by (auto simp: send_command_def)
  moreover have "touched i st st'"
    using touched_trans[OF touched_put[OF ok a] turned_touched[OF \<open>turned ?u st'\<close>]] .
  ultimately show ?thesis by blast
qed

end
