(* ===== verification/Output_Ops.thy ===== *)
theory Output_Ops
  imports Output_Turns
begin

text \<open>
  What the functions of OutputControl.cxx do to one output, and a rule for the loops of
  OutputAll.cxx over all outputs.
\<close>

section \<open>Loops over all outputs\<close>

text \<open>
  An operation on one output turns \<open>pre\<close> into \<open>post\<close>; both are kept while the threads run, so a
  loop can rely on what it has done, and on what it has yet to do.
\<close>

locale output_loop =
  fixes operation :: "nat \<Rightarrow> output_all \<Rightarrow> output_all option"
    and pre :: "output_all \<Rightarrow> audio_output \<Rightarrow> bool"
    and post :: "output_all \<Rightarrow> audio_output \<Rightarrow> bool"
  assumes operation_ok: "oa_ok st \<Longrightarrow> i < length (oa_outputs st) \<Longrightarrow> pre st (get_ao i st) \<Longrightarrow>
      \<exists>st'. operation i st = Some st' \<and> touched i st st' \<and> post st (get_ao i st')"
    and pre_kept: "pre st a \<Longrightarrow> evolves_in st a a' \<Longrightarrow> pre st a'"
    and post_kept: "post st a \<Longrightarrow> evolves_in st a a' \<Longrightarrow> post st a'"
    and pre_same: "oa_same st st' \<Longrightarrow> pre st' = pre st"
    and post_same: "oa_same st st' \<Longrightarrow> post st' = post st"
begin

lemma loop_part:
  "oa_ok st \<Longrightarrow> distinct is \<Longrightarrow> set is \<subseteq> {..<length (oa_outputs st)} \<Longrightarrow> \<forall>i \<in> set is. pre st (get_ao i st) \<Longrightarrow>
    \<exists>st'. each_output operation is st = Some st' \<and> oa_ok st' \<and> oa_same st st' \<and> (\<forall>i \<in> set is. post st (get_ao i st')) \<and>
      (\<forall>j < length (oa_outputs st). j \<notin> set is \<longrightarrow> evolves_in st (get_ao j st) (get_ao j st'))"
proof (induction "is" arbitrary: st)
  case Nil
  then show ?case by (simp add: evolves_refl oa_ok_inv)
next
  case (Cons i js)
  have i: "i < length (oa_outputs st)" "pre st (get_ao i st)" "i \<notin> set js" using Cons.prems by auto
  obtain u where u: "operation i st = Some u" "touched i st u" "post st (get_ao i u)"
    using operation_ok[OF Cons.prems(1) i(1,2)] by blast
  have ok: "oa_ok u" and s: "oa_same st u" and ev: "\<And>j. j < length (oa_outputs st) \<Longrightarrow> j \<noteq> i \<Longrightarrow> evolves_in st (get_ao j st) (get_ao j u)"
    using u(2) by (auto simp: touched_def)
  have len: "length (oa_outputs u) = length (oa_outputs st)" using s by (simp add: oa_same_def)
  have "\<forall>j \<in> set js. pre u (get_ao j u)"
  proof
    fix j assume j: "j \<in> set js"
    then have "j < length (oa_outputs st)" "j \<noteq> i" using Cons.prems(3) i(3) by auto
    then have "pre st (get_ao j u)" using pre_kept[OF _ ev] Cons.prems(4) j by simp
    then show "pre u (get_ao j u)" using pre_same[OF s] by simp
  qed
  then obtain v where v: "each_output operation js u = Some v" "oa_ok v" "oa_same u v" "\<forall>j \<in> set js. post u (get_ao j v)"
    "\<forall>j < length (oa_outputs u). j \<notin> set js \<longrightarrow> evolves_in u (get_ao j u) (get_ao j v)"
    using Cons.IH[OF ok] Cons.prems(2,3) len by auto
  have ev2: "evolves_in st (get_ao j u) (get_ao j v)" if "j < length (oa_outputs st)" "j \<notin> set js" for j
    using v(5) that len evolves_same[OF s] by simp
  have "post st (get_ao i v)" using post_kept[OF u(3) ev2[OF i(1) i(3)]] .
  moreover have "\<forall>j \<in> set js. post st (get_ao j v)" using v(4) post_same[OF s] by simp
  moreover have "\<forall>j < length (oa_outputs st). j \<notin> set (i # js) \<longrightarrow> evolves_in st (get_ao j st) (get_ao j v)"
    using ev ev2 by (auto intro: evolves_trans)
  ultimately show ?case using u(1) v(1,2) oa_same_trans[OF s v(3)] by auto
qed

lemma loop_ok:
  assumes "oa_ok st" "\<And>i. i < length (oa_outputs st) \<Longrightarrow> pre st (get_ao i st)"
  shows "\<exists>st'. each_output operation (all_outputs st) st = Some st' \<and> oa_ok st' \<and> oa_same st st' \<and>
    (\<forall>i < length (oa_outputs st'). post st' (get_ao i st'))"
proof -
  obtain st' where st': "each_output operation (all_outputs st) st = Some st'" "oa_ok st'" "oa_same st st'"
    "\<forall>i \<in> set (all_outputs st). post st (get_ao i st')"
    using loop_part[OF assms(1), of "all_outputs st"] assms(2) by (auto simp: all_outputs_def atLeast0LessThan)
  have "length (oa_outputs st') = length (oa_outputs st)" using st'(3) by (simp add: oa_same_def)
  then have "\<forall>i < length (oa_outputs st'). post st' (get_ao i st')"
    using st'(4) post_same[OF st'(3)] by (auto simp: all_outputs_def)
  then show ?thesis using st' by blast
qed

end

section \<open>Conditions that are kept while the threads run\<close>

text \<open>No command waits, and the thread may play.\<close>

definition idle :: "audio_output \<Rightarrow> bool" where
  "idle a \<longleftrightarrow> ao_command a = AO_COMMAND_NONE \<and> ao_allow_play a"

definition ready :: "output_all \<Rightarrow> audio_output \<Rightarrow> bool" where
  "ready st a \<longleftrightarrow> idle a \<and> awake (pipe_of (oa_mp st)) a"

lemma idle_kept: "idle a \<Longrightarrow> evolves r af mp a a' \<Longrightarrow> idle a'"
  by (auto simp: idle_def evolves_def ao_frame_def)

lemma ready_kept: "ready st a \<Longrightarrow> evolves_in st a a' \<Longrightarrow> ready st a'"
  by (auto simp: ready_def idle_kept) (auto simp: evolves_def)

lemma closed_kept: "idle a \<Longrightarrow> \<not> ao_open a \<Longrightarrow> evolves r af mp a a' \<Longrightarrow> \<not> ao_open a'"
  by (auto simp: idle_def evolves_def)

lemma ready_same: "oa_same st st' \<Longrightarrow> ready st' = ready st"
  by (simp add: ready_def oa_same_def fun_eq_iff)

section \<open>Sending a command\<close>

lemma signal_simps [simp]:
  "ao_command (signal a) = ao_command a" "ao_open (signal a) = ao_open a" "ao_chunk (signal a) = ao_chunk a"
  "ao_given (signal a) = ao_given a" "ao_thread (signal a) = ao_thread a" "ao_fail_timer (signal a) = ao_fail_timer a"
  "ao_pipe (signal a) = ao_pipe a" "ao_in_audio_format (signal a) = ao_in_audio_format a" "ao_allow_play (signal a) = ao_allow_play a"
  "ao_always_on (signal a) = ao_always_on a" "ao_has_enable (signal a) = ao_has_enable a" "ao_has_disable (signal a) = ao_has_disable a"
  "ao_really_enabled (signal a) = ao_really_enabled a" "ao_enabled (signal a) = ao_enabled a" "ao_paused (signal a) = ao_paused a"
  "ao_chunk_finished (signal a) = ao_chunk_finished a" "ao_in_playback_loop (signal a) = ao_in_playback_loop a"
  by (simp_all add: signal_def split: ao_place.splits)

lemma signal_awake: "ao_at (signal a) \<noteq> AT_WAIT False" "awake cs (signal a)"
  by (simp_all add: signal_def awake_def split: ao_place.splits)

lemma signal_place: "place_ok (ao_at a) a \<Longrightarrow> place_ok (ao_at (signal a)) (signal a)"
  by (cases "ao_at a") (auto simp: signal_def)

lemma signal_inv: "ao_inv r af mp a \<Longrightarrow> ao_inv r af mp (signal a)"
  by (rule moved_inv) (auto simp: signal_awake signal_place[unfolded ao_inv_def] ao_inv_def intro: signal_place)

text \<open>What the player may write into an output before it sends a command.\<close>

lemma commanded_inv:
  assumes "ao_inv r af mp a" "ao_command a = AO_COMMAND_NONE" "ao_thread a"
    "cmd_ok af mp (signal (a\<lparr>ao_command := cmd\<rparr>))"
  shows "ao_inv r af mp (signal (a\<lparr>ao_command := cmd\<rparr>))"
proof -
  have "place_ok (ao_at a) (a\<lparr>ao_command := cmd\<rparr>)"
    using assms(1) by (cases "ao_at a") (auto simp: ao_inv_def)
  then have "place_ok (ao_at (signal (a\<lparr>ao_command := cmd\<rparr>))) (signal (a\<lparr>ao_command := cmd\<rparr>))"
    using signal_place[of "a\<lparr>ao_command := cmd\<rparr>"] by simp
  then show ?thesis
    using assms by (auto simp: ao_inv_def open_ok_def enable_ok_def given_ok_def cong: option.case_cong)
qed

lemma cmd_ok_plain:
  "ao_thread a \<Longrightarrow> cmd = AO_COMMAND_ENABLE \<or> cmd = AO_COMMAND_DISABLE \<or>
    ao_open a \<and> (cmd = AO_COMMAND_CLOSE \<or> cmd = AO_COMMAND_PAUSE \<or> cmd = AO_COMMAND_CANCEL \<or> cmd = AO_COMMAND_DRAIN \<and> pipe_of mp = []) \<Longrightarrow>
    cmd_ok af mp (signal (a\<lparr>ao_command := cmd\<rparr>))"
  by (auto simp: cmd_ok_def signal_awake)

lemma open_thread: "ao_inv r af mp a \<Longrightarrow> ao_open a \<Longrightarrow> ao_thread a \<and> ao_really_enabled a \<and> \<not> ao_fail_timer a"
  by (auto simp: ao_inv_def open_ok_def)

text \<open>A command that is waited for leaves an idle output that is not asleep by mistake.\<close>

lemma send_plain:
  assumes ok: "oa_ok st" and i: "i < length (oa_outputs st)" and c: "idle (get_ao i st)"
    and t: "ao_thread (get_ao i st)" and k: "cmd_ok (oa_input_audio_format st) (oa_mp st) (signal ((get_ao i st)\<lparr>ao_command := cmd\<rparr>))"
  shows "\<exists>st'. send_command i cmd st = Some st' \<and> touched i st st' \<and> ready st (get_ao i st') \<and>
    evolves_in st (signal ((get_ao i st)\<lparr>ao_command := cmd\<rparr>)) (get_ao i st')"
proof -
  let ?b = "signal ((get_ao i st)\<lparr>ao_command := cmd\<rparr>)"
  have n: "ao_command (get_ao i st) = AO_COMMAND_NONE" using c by (simp add: idle_def)
  have b: "inv_in st ?b" using commanded_inv[OF oa_ok_inv[OF ok i] n t k] .
  obtain st' where s: "send_command i cmd st = Some st'" "turned (put_ao i ?b st) st'" "touched i st st'"
    "ao_command (get_ao i st') = AO_COMMAND_NONE" using send_command_ok[OF ok i n b] by blast
  have ev: "evolves_in st ?b (get_ao i st')" using turned_get[OF s(2), of i] i by (simp add: get_put)
  then have "ao_allow_play (get_ao i st')" using c by (simp add: evolves_def ao_frame_def idle_def)
  moreover have "awake (pipe_of (oa_mp st)) (get_ao i st')" using ev signal_awake by (simp add: evolves_def)
  ultimately show ?thesis using s(1,3,4) ev by (auto simp: ready_def idle_def)
qed

section \<open>The operations on one output\<close>

lemma lock_then:
  assumes ok: "oa_ok st" and i: "i < length (oa_outputs st)"
    and k: "\<And>u. oa_ok u \<Longrightarrow> oa_same st u \<Longrightarrow> turned st u \<Longrightarrow> evolves_in st (get_ao i st) (get_ao i u) \<Longrightarrow>
      \<exists>st'. f u = Some st' \<and> touched i u st' \<and> Q (get_ao i st')"
  shows "\<exists>st'. do { st \<leftarrow> oa_lock st; f st } = Some st' \<and> touched i st st' \<and> Q (get_ao i st')"
proof -
  obtain u where u: "oa_lock st = Some u" "turned st u" using oa_lock_ok[OF ok] by blast
  then obtain st' where "f u = Some st'" "touched i u st'" "Q (get_ao i st')"
    using k[of u] turned_get[OF u(2) i] by (auto simp: turned_def)
  then show ?thesis using u touched_trans[OF turned_touched[OF u(2)]] by auto
qed

lemma thread_start_inv:
  "ao_inv r af mp a \<Longrightarrow> \<not> ao_thread a \<Longrightarrow> ao_has_enable a \<and> \<not> ao_really_enabled a \<or> \<not> ao_has_enable a \<Longrightarrow>
    ao_inv r af mp (a\<lparr>ao_thread := True, ao_at := AT_TOP\<rparr>) \<and> \<not> ao_open a \<and> ao_command a = AO_COMMAND_NONE"
  by (cases "ao_at a") (auto simp: ao_inv_def open_ok_def enable_ok_def cmd_ok_none given_ok_def cmd_ok_def split: audio_output_command.splits)

lemma thread_start_step:
  assumes ok: "oa_ok st" and i: "i < length (oa_outputs st)" and r: "ready st (get_ao i st)"
  shows "\<exists>u. (if \<not> ao_thread (get_ao i st) then audio_output_thread_start i st else Some st) = Some u \<and> touched i st u \<and>
    ready st (get_ao i u) \<and> ao_thread (get_ao i u) \<and> ao_enabled (get_ao i u) = ao_enabled (get_ao i st) \<and>
    ao_open (get_ao i u) = ao_open (get_ao i st) \<and> ao_pipe (get_ao i u) = ao_pipe (get_ao i st) \<and>
    ao_in_audio_format (get_ao i u) = ao_in_audio_format (get_ao i st) \<and> ao_chunk (get_ao i u) = ao_chunk (get_ao i st) \<and>
    ao_given (get_ao i u) = ao_given (get_ao i st)"
proof (cases "ao_thread (get_ao i st)")
  case True
  then show ?thesis using r turned_touched[OF turned_refl[OF ok]] by simp
next
  case False
  have inv: "inv_in st (get_ao i st)" using oa_ok_inv[OF ok i] .
  have e: "ao_has_enable (get_ao i st) \<and> \<not> ao_really_enabled (get_ao i st) \<or> \<not> ao_has_enable (get_ao i st)"
    using inv False by (auto simp: ao_inv_def enable_ok_def)
  let ?b = "(get_ao i st)\<lparr>ao_thread := True, ao_at := AT_TOP\<rparr>"
  note b = thread_start_inv[OF inv False e]
  have "ready st ?b" using r b by (simp add: ready_def idle_def awake_def)
  then show ?thesis using False b touched_put[OF ok, of ?b i] i r
    by (simp add: audio_output_thread_start_def get_put)
qed

lemma lock_command_plain:
  assumes ok: "oa_ok st" and i: "i < length (oa_outputs st)" and r: "ready st (get_ao i st)" and t: "ao_thread (get_ao i st)"
    and c: "cmd = AO_COMMAND_ENABLE \<or> cmd = AO_COMMAND_DISABLE"
  shows "\<exists>st'. ao_lock_command i cmd st = Some st' \<and> touched i st st' \<and>
    (ready st (get_ao i st') \<and> (cmd = AO_COMMAND_DISABLE \<longrightarrow> \<not> ao_open (get_ao i st')) \<and>
     ao_enabled (get_ao i st') = ao_enabled (get_ao i st))"
  unfolding ao_lock_command_def
proof (rule lock_then[OF ok i])
  fix v assume v: "oa_ok v" "oa_same st v" "turned st v" "evolves_in st (get_ao i st) (get_ao i v)"
  have idle: "idle (get_ao i v)" using r idle_kept[OF _ v(4)] by (simp add: ready_def)
  have tv: "ao_thread (get_ao i v)" using t v(4) by (simp add: evolves_def ao_frame_def)
  have "i < length (oa_outputs v)" using i v(2) by (simp add: oa_same_def)
  then obtain w where w: "send_command i cmd v = Some w" "touched i v w" "ready v (get_ao i w)"
    "evolves_in v (signal ((get_ao i v)\<lparr>ao_command := cmd\<rparr>)) (get_ao i w)"
    using send_plain[OF v(1) _ idle tv cmd_ok_plain[OF tv]] c by blast
  have "ao_command (get_ao i w) = AO_COMMAND_NONE" using w(3) by (simp add: ready_def idle_def)
  then have "cmd = AO_COMMAND_DISABLE \<longrightarrow> \<not> ao_open (get_ao i w)" using w(4) by (simp add: evolves_def)
  moreover have "ao_enabled (get_ao i w) = ao_enabled (get_ao i st)" using w(4) v(4) by (simp add: evolves_def ao_frame_def)
  ultimately show "\<exists>st'. send_command i cmd v = Some st' \<and> touched i v st' \<and>
      (ready st (get_ao i st') \<and> (cmd = AO_COMMAND_DISABLE \<longrightarrow> \<not> ao_open (get_ao i st')) \<and>
       ao_enabled (get_ao i st') = ao_enabled (get_ao i st))"
    using w(1-3) ready_same[OF v(2)] by auto
qed

lemma really_enabled_inv:
  assumes "ao_inv r af mp a" "\<not> ao_thread a" "ao_has_enable a \<longrightarrow> \<not> b"
  shows "ao_inv r af mp (a\<lparr>ao_really_enabled := b\<rparr>)"
proof -
  have "place_ok p (a\<lparr>ao_really_enabled := b\<rparr>) = place_ok p a" for p by (cases p) simp_all
  moreover have "cmd_ok af mp (a\<lparr>ao_really_enabled := b\<rparr>) = cmd_ok af mp a" by (simp add: cmd_ok_def cong: audio_output_command.case_cong)
  moreover have "open_ok af mp (a\<lparr>ao_really_enabled := b\<rparr>)" using assms(1,2) by (auto simp: ao_inv_def open_ok_def)
  moreover have "given_ok r cs (a\<lparr>ao_really_enabled := b\<rparr>) = given_ok r cs a" for cs by (simp add: given_ok_def cong: option.case_cong)
  ultimately show ?thesis using assms by (auto simp: ao_inv_def enable_ok_def)
qed

lemma audio_output_enable_ok:
  assumes ok: "oa_ok st" and i: "i < length (oa_outputs st)" and r: "ready st (get_ao i st)"
  shows "\<exists>st'. audio_output_enable i st = Some st' \<and> touched i st st' \<and> ready st (get_ao i st') \<and>
    ao_enabled (get_ao i st') = ao_enabled (get_ao i st)"
proof (cases "\<not> ao_thread (get_ao i st) \<and> \<not> ao_has_enable (get_ao i st)")
  case True
  let ?b = "(get_ao i st)\<lparr>ao_really_enabled := True\<rparr>"
  have "inv_in st ?b" by (rule really_enabled_inv[OF oa_ok_inv[OF ok i]]) (use True in simp_all)
  moreover have "ready st ?b" using r by (simp add: ready_def idle_def awake_def)
  ultimately show ?thesis using True i touched_put[OF ok] by (simp add: audio_output_enable_def get_put)
next
  case False
  obtain u where u: "(if \<not> ao_thread (get_ao i st) then audio_output_thread_start i st else Some st) = Some u"
    "touched i st u" "ready st (get_ao i u)" "ao_thread (get_ao i u)" "ao_enabled (get_ao i u) = ao_enabled (get_ao i st)"
    using thread_start_step[OF ok i r] by blast
  have uok: "oa_ok u" and s: "oa_same st u" and iu: "i < length (oa_outputs u)" using u(2) i by (auto simp: touched_def oa_same_def)
  obtain st' where st': "ao_lock_command i AO_COMMAND_ENABLE u = Some st'" "touched i u st'" "ready u (get_ao i st')"
    "ao_enabled (get_ao i st') = ao_enabled (get_ao i u)"
    using lock_command_plain[OF uok iu, of AO_COMMAND_ENABLE] u(3,4) ready_same[OF s] by auto
  have "touched i st st'" using touched_trans[OF u(2) st'(2)] .
  then show ?thesis using u(1,5) False st'(1,3,4) ready_same[OF s] by (auto simp: audio_output_enable_def)
qed

lemma audio_output_disable_ok:
  assumes ok: "oa_ok st" and i: "i < length (oa_outputs st)" and r: "ready st (get_ao i st)"
  shows "\<exists>st'. audio_output_disable i st = Some st' \<and> touched i st st' \<and> ready st (get_ao i st') \<and> \<not> ao_open (get_ao i st')"
proof (cases "ao_thread (get_ao i st)")
  case False
  let ?b = "(get_ao i st)\<lparr>ao_really_enabled := False\<rparr>"
  have "inv_in st ?b" by (rule really_enabled_inv[OF oa_ok_inv[OF ok i]]) (use False in simp_all)
  moreover have "ready st ?b" using r by (simp add: ready_def idle_def awake_def)
  moreover have "ao_has_disable (get_ao i st) \<Longrightarrow> \<not> ao_really_enabled (get_ao i st)"
    using oa_ok_inv[OF ok i] False by (auto simp: ao_inv_def enable_ok_def)
  moreover have "\<not> ao_open (get_ao i st)" using open_thread[OF oa_ok_inv[OF ok i]] False by blast
  ultimately show ?thesis
    using False i r touched_put[OF ok] turned_touched[OF turned_refl[OF ok]] by (simp add: audio_output_disable_def get_put)
next
  case True
  then show ?thesis using lock_command_plain[OF ok i _ True, of AO_COMMAND_DISABLE] r by (auto simp: audio_output_disable_def)
qed

text \<open>Opened with the format of the player, or closed.\<close>

definition settled :: "output_all \<Rightarrow> audio_output \<Rightarrow> bool" where
  "settled st a \<longleftrightarrow> ready st a \<and> (ao_open a \<longrightarrow> ao_in_audio_format a = oa_input_audio_format st \<and> ao_enabled a)"

lemma settled_kept: "settled st a \<Longrightarrow> evolves_in st a a' \<Longrightarrow> settled st a'"
  using ready_kept[of st a a'] by (auto simp: settled_def ready_def idle_def evolves_def ao_frame_def)

lemma settled_same: "oa_same st st' \<Longrightarrow> settled st' = settled st"
  using ready_same[of st st'] by (auto simp: settled_def oa_same_def fun_eq_iff)

lemma no_chunk_place:
  "ao_inv r af mp a \<Longrightarrow> \<not> ao_open a \<or> pipe_of mp = [] \<or> ao_paused a \<Longrightarrow> place_ok (ao_at a) (a\<lparr>ao_chunk := None\<rparr>)"
  by (cases "ao_at a") (auto simp: ao_inv_def given_ok_def)

text \<open>The player has put the pipe of the outputs into an output that does not play.\<close>

lemma repiped_inv:
  assumes i: "ao_inv r af mp a" and c: "ao_command a = AO_COMMAND_NONE" and m: "mp = Some (p, cs)"
    and s: "\<not> ao_open a \<or> pipe_of mp = [] \<or> ao_paused a"
    and b: "b = a\<lparr>ao_fail_timer := False, ao_in_audio_format := af, ao_chunk := None, ao_pipe := Some p, ao_given := []\<rparr>"
  shows "ao_inv r af mp b"
proof (cases "ao_open a")
  case True
  then have "ao_thread a" "ao_really_enabled a" using i by (auto simp: ao_inv_def open_ok_def)
  moreover have "place_ok (ao_at b) b" using no_chunk_place[OF i s] b by (cases "ao_at a") auto
  ultimately show ?thesis by (intro fresh_inv[OF i]) (use c m b in auto)
next
  case False
  moreover have "place_ok (ao_at b) b" using no_chunk_place[OF i s] b by (cases "ao_at a") auto
  ultimately show ?thesis using i c b by (auto simp: ao_inv_def open_ok_def enable_ok_def cmd_ok_none given_ok_def)
qed

lemma fail_timer_inv:
  assumes i: "ao_inv r af mp a" and c: "ao_command a = AO_COMMAND_NONE"
  shows "ao_inv r af mp (a\<lparr>ao_fail_timer := False\<rparr>)"
proof -
  have "place_ok p (a\<lparr>ao_fail_timer := False\<rparr>) = place_ok p a" for p by (cases p) simp_all
  moreover have "given_ok r cs (a\<lparr>ao_fail_timer := False\<rparr>) = given_ok r cs a" for cs
    by (simp add: given_ok_def cong: option.case_cong)
  ultimately show ?thesis using i c by (auto simp: ao_inv_def open_ok_def enable_ok_def cmd_ok_none)
qed

lemma audio_output_open_ok:
  assumes ok: "oa_ok st" and i: "i < length (oa_outputs st)" and r: "ready st (get_ao i st)"
    and m: "oa_mp st = Some (p, cs)" and en: "ao_enabled (get_ao i st)"
  shows "\<exists>ret st'. audio_output_open i (oa_input_audio_format st) p st = Some (ret, st') \<and> touched i st st' \<and> settled st (get_ao i st')"
proof -
  let ?a = "get_ao i st" and ?af = "oa_input_audio_format st"
  let ?a1 = "?a\<lparr>ao_fail_timer := False\<rparr>"
  let ?s1 = "put_ao i ?a1 st"
  have inv: "inv_in st ?a" and v: "IsValid ?af" using oa_ok_inv[OF ok i] oa_ok_pipe[OF ok] m by (auto simp: pipe_ok_def)
  have c: "ao_command ?a = AO_COMMAND_NONE" "ao_allow_play ?a" using r by (auto simp: ready_def idle_def)
  have inv1: "inv_in st ?a1" by (rule fail_timer_inv[OF inv c(1)])
  have ok1: "oa_ok ?s1" using oa_ok_put[OF ok inv1] .
  have t1: "touched i st ?s1" using touched_put[OF ok inv1] .
  have g1: "get_ao i ?s1 = ?a1" using i by (simp add: get_put)
  note unfolded = audio_output_open_def Let_def g1
  show ?thesis
  proof (cases "ao_open ?a \<and> ?af = ao_in_audio_format ?a")
    case True
    then have p: "ao_pipe ?a = Some p" "ao_thread ?a" using inv m by (auto simp: ao_inv_def open_ok_def)
    show ?thesis
    proof (cases "ao_paused ?a")
      case False
      have "audio_output_open i ?af p st = Some (True, ?s1)" using True False p c v i by (simp add: unfolded)
      moreover have "settled st ?a1" using r True en by (simp add: settled_def ready_def idle_def awake_def)
      ultimately show ?thesis using t1 g1 by auto
    next
      case paused: True
      let ?b = "?a1\<lparr>ao_chunk := None, ao_pipe := Some p, ao_given := []\<rparr>"
      have b: "?b = ?a\<lparr>ao_fail_timer := False, ao_in_audio_format := ?af, ao_chunk := None, ao_pipe := Some p, ao_given := []\<rparr>"
        using True by simp
      have binv: "inv_in st ?b" by (rule repiped_inv[OF inv c(1) m _ b]) (use paused in simp)
      let ?s2 = "put_ao i ?b st"
      have s2: "oa_ok ?s2" "i < length (oa_outputs ?s2)" "get_ao i ?s2 = ?b" using oa_ok_put[OF ok binv] i by (simp_all add: get_put)
      have "idle (get_ao i ?s2)" "ao_thread (get_ao i ?s2)" "ao_open (get_ao i ?s2)"
        using s2(3) c p True by (simp_all add: idle_def)
      then obtain st' where st': "send_command i AO_COMMAND_CANCEL ?s2 = Some st'" "touched i ?s2 st'" "ready ?s2 (get_ao i st')"
        "evolves_in ?s2 (signal (?b\<lparr>ao_command := AO_COMMAND_CANCEL\<rparr>)) (get_ao i st')"
        using send_plain[OF s2(1,2) _ _ cmd_ok_plain] s2(3) by metis
      have "audio_output_open i ?af p st = Some (True, st')"
        using True paused p c v i st'(1) by (simp add: unfolded)
      moreover have "settled st (get_ao i st')"
        using st'(3,4) True en by (simp add: settled_def ready_def evolves_def ao_frame_def)
      ultimately show ?thesis using touched_trans[OF touched_put[OF ok binv] st'(2)] by auto
    qed
  next
    case False
    let ?b = "?a1\<lparr>ao_in_audio_format := ?af, ao_chunk := None, ao_pipe := Some p, ao_given := []\<rparr>"
    have s: "\<not> ao_open ?a \<or> pipe_of (oa_mp st) = [] \<or> ao_paused ?a" using inv False by (auto simp: ao_inv_def open_ok_def)
    have e: "ao_open ?a \<Longrightarrow> pipe_of (oa_mp st) = []" using inv False by (auto simp: ao_inv_def open_ok_def)
    have binv: "inv_in st ?b" by (rule repiped_inv[OF inv c(1) m s]) simp
    let ?s2 = "put_ao i ?b st"
    have s2: "oa_ok ?s2" "i < length (oa_outputs ?s2)" "get_ao i ?s2 = ?b" "oa_same st ?s2"
      using oa_ok_put[OF ok binv] i by (simp_all add: get_put)
    have "ready ?s2 (get_ao i ?s2)" using s2(3) c e by (auto simp: ready_def idle_def awake_def)
    then obtain u where u: "(if \<not> ao_thread (get_ao i ?s2) then audio_output_thread_start i ?s2 else Some ?s2) = Some u"
      "touched i ?s2 u" "ready ?s2 (get_ao i u)" "ao_thread (get_ao i u)" "ao_enabled (get_ao i u)" "ao_open (get_ao i u) = ao_open ?a"
      "ao_pipe (get_ao i u) = Some p" "ao_in_audio_format (get_ao i u) = ?af" "ao_chunk (get_ao i u) = None" "ao_given (get_ao i u) = []"
      using thread_start_step[OF s2(1,2)] s2(3) en by auto
    let ?cmd = "if ao_open (get_ao i u) then AO_COMMAND_REOPEN else AO_COMMAND_OPEN"
    have uok: "oa_ok u" "i < length (oa_outputs u)" "oa_same st u"
      using u(2) i oa_same_trans[OF s2(4), of u] by (auto simp: touched_def oa_same_def)
    have um: "oa_mp u = Some (p, cs)" "oa_input_audio_format u = ?af" using uok(3) m by (simp_all add: oa_same_def)
    have "cmd_ok ?af (oa_mp u) (signal ((get_ao i u)\<lparr>ao_command := ?cmd\<rparr>))"
      using u um by (simp add: cmd_ok_def signal_awake)
    moreover have "idle (get_ao i u)" using u(3) by (simp add: ready_def)
    ultimately obtain st' where st': "send_command i ?cmd u = Some st'" "touched i u st'" "ready u (get_ao i st')"
      "evolves_in u (signal ((get_ao i u)\<lparr>ao_command := ?cmd\<rparr>)) (get_ao i st')"
      using send_plain[OF uok(1,2)] u(4) um by metis
    have "audio_output_open i ?af p st = Some (ao_open (get_ao i st'), st')"
      using False c v u(1) st'(1) s2(3) by (cases "ao_open ?a") (simp_all add: unfolded)
    moreover have "settled st (get_ao i st')"
      using st'(3,4) u(5,8) ready_same[OF uok(3)] by (simp add: settled_def evolves_def ao_frame_def)
    moreover have "touched i st st'"
      by (rule touched_trans[OF touched_put[OF ok binv] touched_trans[OF u(2) st'(2)]])
    ultimately show ?thesis by blast
  qed
qed

lemma audio_output_close_locked_ok:
  assumes ok: "oa_ok st" and i: "i < length (oa_outputs st)" and r: "idle (get_ao i st)"
  shows "\<exists>st'. audio_output_close_locked i st = Some st' \<and> touched i st st' \<and> ready st (get_ao i st') \<and> \<not> ao_open (get_ao i st')"
proof (cases "ao_open (get_ao i st)")
  case True
  have inv: "inv_in st (get_ao i st)" using oa_ok_inv[OF ok i] .
  have t: "ao_thread (get_ao i st)" "\<not> ao_fail_timer (get_ao i st)" using open_thread[OF inv True] by auto
  obtain st' where st': "send_command i AO_COMMAND_CLOSE st = Some st'" "touched i st st'" "ready st (get_ao i st')"
    "evolves_in st (signal ((get_ao i st)\<lparr>ao_command := AO_COMMAND_CLOSE\<rparr>)) (get_ao i st')"
    using send_plain[OF ok i r t(1) cmd_ok_plain] t True by blast
  have "audio_output_close_locked i st = Some st'" using True t r st'(1) by (simp add: audio_output_close_locked_def idle_def)
  moreover have "\<not> ao_open (get_ao i st')" using st'(3,4) by (simp add: evolves_def ready_def idle_def)
  ultimately show ?thesis using st' by blast
next
  case False
  let ?b = "(get_ao i st)\<lparr>ao_fail_timer := False\<rparr>"
  have "inv_in st ?b" by (rule fail_timer_inv[OF oa_ok_inv[OF ok i]]) (use r in \<open>simp add: idle_def\<close>)
  moreover have "ready st ?b" using r False by (simp add: ready_def idle_def awake_def)
  ultimately show ?thesis
    using False r i touched_put[OF ok] by (simp add: audio_output_close_locked_def idle_def get_put)
qed

lemma touched_get: "oa_ok st \<Longrightarrow> i < length (oa_outputs st) \<Longrightarrow> touched i st u \<Longrightarrow> oa_ok u \<and> oa_same st u \<and> i < length (oa_outputs u)"
  by (simp add: touched_def oa_same_def)

lemma audio_output_close_ok:
  assumes ok: "oa_ok st" and i: "i < length (oa_outputs st)" and r: "idle (get_ao i st)"
  shows "\<exists>st'. audio_output_close i st = Some st' \<and> touched i st st' \<and> ready st (get_ao i st') \<and> \<not> ao_open (get_ao i st')"
proof -
  have "\<not> ao_open (get_ao i st) \<or> \<not> ao_fail_timer (get_ao i st)" using open_thread[OF oa_ok_inv[OF ok i]] by blast
  then have "audio_output_close i st = do { st \<leftarrow> oa_lock st; audio_output_close_locked i st }" by (simp add: audio_output_close_def)
  moreover have "\<exists>st'. do { st \<leftarrow> oa_lock st; audio_output_close_locked i st } = Some st' \<and> touched i st st' \<and>
    (ready st (get_ao i st') \<and> \<not> ao_open (get_ao i st'))"
  proof (rule lock_then[OF ok i])
    fix u assume u: "oa_ok u" "oa_same st u" "evolves_in st (get_ao i st) (get_ao i u)"
    have "i < length (oa_outputs u)" using i u(2) by (simp add: oa_same_def)
    from audio_output_close_locked_ok[OF u(1) this idle_kept[OF r u(3)]] ready_same[OF u(2)]
    show "\<exists>st'. audio_output_close_locked i u = Some st' \<and> touched i u st' \<and> (ready st (get_ao i st') \<and> \<not> ao_open (get_ao i st'))"
      by simp
  qed
  ultimately show ?thesis by simp
qed

lemma audio_output_update_ok:
  assumes ok: "oa_ok st" and i: "i < length (oa_outputs st)" and r: "ready st (get_ao i st)" and m: "oa_mp st = Some (p, cs)"
  shows "\<exists>ret st'. audio_output_update i (oa_input_audio_format st) p st = Some (ret, st') \<and> touched i st st' \<and> settled st (get_ao i st')"
proof -
  obtain t u where u: "take_turn [] st = Some (t, u)" "turned st u" using take_turn_ok[OF ok] by blast
  have uok: "oa_ok u" "oa_same st u" "i < length (oa_outputs u)" using touched_get[OF ok i turned_touched[OF u(2)]] by auto
  have um: "oa_mp u = Some (p, cs)" "oa_input_audio_format u = oa_input_audio_format st" using uok(2) m by (simp_all add: oa_same_def)
  have ru: "ready u (get_ao i u)" using ready_kept[OF r turned_get[OF u(2) i]] ready_same[OF uok(2)] by simp
  have tu: "\<And>v. touched i u v \<Longrightarrow> touched i st v" using touched_trans[OF turned_touched[OF u(2)]] .
  consider (go) "ao_enabled (get_ao i u)" "ao_really_enabled (get_ao i u)" "\<not> ao_fail_timer (get_ao i u) \<or> tn_elapsed t > REOPEN_AFTER"
    | (late) "ao_enabled (get_ao i u)" "ao_really_enabled (get_ao i u)" "ao_fail_timer (get_ao i u)" "\<not> tn_elapsed t > REOPEN_AFTER"
    | (off) "\<not> (ao_enabled (get_ao i u) \<and> ao_really_enabled (get_ao i u))" by blast
  then show ?thesis
  proof cases
    case go
    then obtain ret v where v: "audio_output_open i (oa_input_audio_format u) p u = Some (ret, v)" "touched i u v" "settled u (get_ao i v)"
      using audio_output_open_ok[OF uok(1,3) ru um(1)] by blast
    have "audio_output_update i (oa_input_audio_format st) p st = Some (ret, v)"
      using u(1) go v(1) um(2) by (simp add: audio_output_update_def)
    then show ?thesis using tu[OF v(2)] v(3) settled_same[OF uok(2)] by simp
  next
    case late
    have "\<not> ao_open (get_ao i u)" using open_thread[OF oa_ok_inv[OF uok(1,3)]] late by blast
    then have "settled st (get_ao i u)" using ru ready_same[OF uok(2)] by (simp add: settled_def)
    then show ?thesis using u late turned_touched by (auto simp: audio_output_update_def)
  next
    case off
    show ?thesis
    proof (cases "ao_open (get_ao i u)")
      case True
      have "idle (get_ao i u)" using ru by (simp add: ready_def)
      then obtain v where v: "audio_output_close_locked i u = Some v" "touched i u v" "ready u (get_ao i v)" "\<not> ao_open (get_ao i v)"
        using audio_output_close_locked_ok[OF uok(1,3)] by blast
      have "audio_output_update i (oa_input_audio_format st) p st = Some (False, v)"
        using u(1) off v(1) True by (auto simp: audio_output_update_def)
      then show ?thesis using tu[OF v(2)] v(3,4) ready_same[OF uok(2)] by (auto simp: settled_def)
    next
      case False
      then have "settled st (get_ao i u)" using ru ready_same[OF uok(2)] by (simp add: settled_def)
      then show ?thesis using u off False turned_touched by (auto simp: audio_output_update_def)
    qed
  qed
qed

text \<open>Waking a thread for a chunk: from then on it is awake, however much it had slept.\<close>

lemma woken_inv: "ao_inv r af mp a \<Longrightarrow> ao_inv r af mp (signal (a\<lparr>ao_woken_for_play := True\<rparr>))"
proof (rule moved_inv)
  assume i: "ao_inv r af mp a"
  then show "place_ok (ao_at (signal (a\<lparr>ao_woken_for_play := True\<rparr>))) (signal (a\<lparr>ao_woken_for_play := True\<rparr>))"
    by (cases "ao_at a") (auto simp: ao_inv_def signal_def)
qed (auto simp: signal_awake)

lemma audio_output_play_ok:
  assumes ok: "oa_ok st" and i: "i < length (oa_outputs st)" and r: "idle (get_ao i st)"
  shows "\<exists>st'. audio_output_play i st = Some st' \<and> touched i st st' \<and> ready st (get_ao i st')"
  unfolding audio_output_play_def
proof (rule lock_then[OF ok i])
  fix u assume u: "oa_ok u" "oa_same st u" "evolves_in st (get_ao i st) (get_ao i u)"
  let ?a = "get_ao i u"
  have iu: "i < length (oa_outputs u)" using i u(2) by (simp add: oa_same_def)
  have id: "idle ?a" using idle_kept[OF r u(3)] .
  let ?b = "signal (?a\<lparr>ao_woken_for_play := True\<rparr>)"
  have inv: "inv_in u ?a" using oa_ok_inv[OF u(1) iu] .
  have binv: "inv_in u ?b" by (rule woken_inv[OF inv])
  have b: "ready st ?b" using id by (simp add: ready_def idle_def signal_awake)
  have a: "ready st ?a" if "\<not> (ao_open ?a \<and> \<not> ao_in_playback_loop ?a \<and> \<not> ao_woken_for_play ?a)"
    using that inv id by (cases "ao_at ?a") (auto simp: ready_def awake_def ao_inv_def)
  show "\<exists>st'. (do {
       ensure (ao_allow_play (get_ao i u));
       let a = get_ao i u;
       Some (if ao_open a \<and> \<not> ao_in_playback_loop a \<and> \<not> ao_woken_for_play a
             then put_ao i (signal (a\<lparr>ao_woken_for_play := True\<rparr>)) u else u) }) = Some st' \<and> touched i u st' \<and> ready st (get_ao i st')"
    using a b id touched_put[OF u(1) binv] turned_touched[OF turned_refl[OF u(1)]] iu
    by (auto simp: idle_def get_put Let_def)
qed

end
