(* ===== verification/Output_Waits.thy ===== *)
theory Output_Waits
  imports Output_Ops
begin

text \<open>
  The commands that are sent to all outputs at once, the wait for all of them, and the loops of
  OutputAll.cxx as instances of the rule for loops.
\<close>

section \<open>Commands that are not waited for at once\<close>

text \<open>What is true of an output from such a command on until it is finished.\<close>

definition pausing :: "audio_output \<Rightarrow> bool" where
  "pausing a \<longleftrightarrow> ao_allow_play a \<and>
     (ao_command a = AO_COMMAND_PAUSE \<or> ao_command a = AO_COMMAND_NONE \<and> (ao_paused a \<or> \<not> ao_open a))"

definition draining :: "audio_output \<Rightarrow> bool" where
  "draining a \<longleftrightarrow> ao_allow_play a \<and> (ao_command a = AO_COMMAND_DRAIN \<or> ao_command a = AO_COMMAND_NONE)"

definition cancelling :: "audio_output \<Rightarrow> bool" where
  "cancelling a \<longleftrightarrow> (ao_command a = AO_COMMAND_CANCEL \<or> ao_command a = AO_COMMAND_NONE) \<and>
     (\<not> ao_allow_play a \<or> \<not> ao_open a \<and> ao_command a = AO_COMMAND_NONE)"

lemma pausing_kept: "pausing a \<Longrightarrow> evolves r af mp a a' \<Longrightarrow> pausing a'"
  unfolding pausing_def evolves_def ao_frame_def by metis

lemma draining_kept: "draining a \<Longrightarrow> evolves r af mp a a' \<Longrightarrow> draining a'"
  unfolding draining_def evolves_def ao_frame_def by metis

lemma cancelling_kept: "cancelling a \<Longrightarrow> evolves r af mp a a' \<Longrightarrow> cancelling a'"
  unfolding cancelling_def evolves_def ao_frame_def by metis

lemma awake_kept: "awake (pipe_of mp) a \<Longrightarrow> evolves r af mp a a' \<Longrightarrow> awake (pipe_of mp) a'"
  by (simp add: evolves_def)

definition awake_in :: "(audio_output \<Rightarrow> bool) \<Rightarrow> output_all \<Rightarrow> audio_output \<Rightarrow> bool" where
  "awake_in P st a \<longleftrightarrow> P a \<and> awake (pipe_of (oa_mp st)) a"

lemma awake_in_kept:
  "(\<And>r af mp a a'. P a \<Longrightarrow> evolves r af mp a a' \<Longrightarrow> P a') \<Longrightarrow> awake_in P st a \<Longrightarrow> evolves_in st a a' \<Longrightarrow> awake_in P st a'"
  unfolding awake_in_def using awake_kept by blast

lemma awake_in_same: "oa_same st st' \<Longrightarrow> awake_in P st' = awake_in P st"
  by (simp add: awake_in_def oa_same_def fun_eq_iff)

lemma ready_awake_in: "ready = awake_in idle"
  by (simp add: fun_eq_iff ready_def awake_in_def)

lemma allow_inv:
  assumes "ao_inv r af mp a" "p \<or> ao_command a = AO_COMMAND_CANCEL"
  shows "ao_inv r af mp (a\<lparr>ao_allow_play := p\<rparr>)"
proof -
  have "place_ok q (a\<lparr>ao_allow_play := p\<rparr>) = place_ok q a" for q by (cases q) simp_all
  moreover have "cmd_ok af mp (a\<lparr>ao_allow_play := p\<rparr>) = cmd_ok af mp a" by (simp add: cmd_ok_def cong: audio_output_command.case_cong)
  moreover have "given_ok r cs (a\<lparr>ao_allow_play := p\<rparr>) = given_ok r cs a" for cs by (simp add: given_ok_def cong: option.case_cong)
  ultimately show ?thesis using assms by (auto simp: ao_inv_def enable_ok_def open_ok_def)
qed

text \<open>The command is written to an open output, which may lose its right to play at the same time.\<close>

lemma async_ok:
  assumes ok: "oa_ok st" and i: "i < length (oa_outputs st)" and c: "ao_command (get_ao i st) = AO_COMMAND_NONE"
    and t: "ao_open (get_ao i st)" and k: "cmd = AO_COMMAND_PAUSE \<or> cmd = AO_COMMAND_CANCEL \<or> cmd = AO_COMMAND_DRAIN \<and> pipe_of (oa_mp st) = []"
    and p: "p = ao_allow_play (get_ao i st) \<or> cmd = AO_COMMAND_CANCEL"
  shows "\<exists>st'. ao_command_async i cmd (put_ao i ((get_ao i st)\<lparr>ao_allow_play := p\<rparr>) st) = Some st' \<and> touched i st st' \<and>
    ao_command (get_ao i st') = cmd \<and> ao_allow_play (get_ao i st') = p \<and> awake cs (get_ao i st')"
proof -
  let ?a = "get_ao i st" and ?c = "signal ((get_ao i st)\<lparr>ao_allow_play := p, ao_command := cmd\<rparr>)"
  have inv: "inv_in st ?a" using oa_ok_inv[OF ok i] .
  have th: "ao_thread ?a" using open_thread[OF inv t] by blast
  have x: "inv_in st (signal (?a\<lparr>ao_command := cmd\<rparr>))"
    by (rule commanded_inv[OF inv c th cmd_ok_plain[OF th]]) (use k t in auto)
  have "?c = (signal (?a\<lparr>ao_command := cmd\<rparr>))\<lparr>ao_allow_play := p\<rparr>"
    by (simp add: signal_def split: ao_place.splits)
  moreover have "inv_in st ((signal (?a\<lparr>ao_command := cmd\<rparr>))\<lparr>ao_allow_play := p\<rparr>)"
  proof (cases "cmd = AO_COMMAND_CANCEL")
    case True
    then show ?thesis by (intro allow_inv[OF x]) simp
  next
    case False
    then have "(signal (?a\<lparr>ao_command := cmd\<rparr>))\<lparr>ao_allow_play := p\<rparr> = signal (?a\<lparr>ao_command := cmd\<rparr>)"
      using p by (simp add: signal_def split: ao_place.splits)
    then show ?thesis using x by simp
  qed
  ultimately have "touched i st (put_ao i ?c st)" using touched_put[OF ok] by simp
  then show ?thesis using i c signal_awake by (simp add: ao_command_async_def get_put)
qed

lemma put_get: "i < length (oa_outputs st) \<Longrightarrow> put_ao i ((get_ao i st)\<lparr>ao_allow_play := ao_allow_play (get_ao i st)\<rparr>) st = st"
  by (simp add: put_ao_def get_ao_def)

lemma audio_output_pause_ok:
  assumes ok: "oa_ok st" and i: "i < length (oa_outputs st)" and r: "awake_in idle st (get_ao i st)"
  shows "\<exists>st'. audio_output_pause i st = Some st' \<and> touched i st st' \<and> awake_in pausing st (get_ao i st')"
  unfolding audio_output_pause_def
proof (rule lock_then[OF ok i])
  fix u assume u: "oa_ok u" "oa_same st u" "evolves_in st (get_ao i st) (get_ao i u)"
  have iu: "i < length (oa_outputs u)" using i u(2) by (simp add: oa_same_def)
  have id: "awake_in idle st (get_ao i u)" using awake_in_kept[OF idle_kept r u(3)] .
  show "\<exists>st'. (do { ensure (ao_allow_play (get_ao i u));
      if ao_open (get_ao i u) then ao_command_async i AO_COMMAND_PAUSE u else Some u }) = Some st' \<and> touched i u st' \<and>
      awake_in pausing st (get_ao i st')"
  proof (cases "ao_open (get_ao i u)")
    case True
    have "ao_command (get_ao i u) = AO_COMMAND_NONE" "ao_allow_play (get_ao i u)" using id by (auto simp: awake_in_def idle_def)
    with async_ok[OF u(1) iu this(1) True, of AO_COMMAND_PAUSE "ao_allow_play (get_ao i u)" "pipe_of (oa_mp st)"]
    show ?thesis using True put_get[OF iu] by (auto simp: awake_in_def pausing_def)
  next
    case False
    then show ?thesis using id turned_touched[OF turned_refl[OF u(1)]] by (auto simp: awake_in_def idle_def pausing_def)
  qed
qed

lemma audio_output_drain_async_ok:
  assumes ok: "oa_ok st" and i: "i < length (oa_outputs st)" and r: "awake_in idle st (get_ao i st)" and e: "pipe_of (oa_mp st) = []"
  shows "\<exists>st'. audio_output_drain_async i st = Some st' \<and> touched i st st' \<and> awake_in draining st (get_ao i st')"
  unfolding audio_output_drain_async_def
proof (rule lock_then[OF ok i])
  fix u assume u: "oa_ok u" "oa_same st u" "evolves_in st (get_ao i st) (get_ao i u)"
  have iu: "i < length (oa_outputs u)" and eu: "pipe_of (oa_mp u) = []" using i u(2) e by (simp_all add: oa_same_def)
  have id: "awake_in idle st (get_ao i u)" using awake_in_kept[OF idle_kept r u(3)] .
  show "\<exists>st'. (do { ensure (ao_allow_play (get_ao i u));
      if ao_open (get_ao i u) then ao_command_async i AO_COMMAND_DRAIN u else Some u }) = Some st' \<and> touched i u st' \<and>
      awake_in draining st (get_ao i st')"
  proof (cases "ao_open (get_ao i u)")
    case True
    have "ao_command (get_ao i u) = AO_COMMAND_NONE" "ao_allow_play (get_ao i u)" using id by (auto simp: awake_in_def idle_def)
    with async_ok[OF u(1) iu this(1) True, of AO_COMMAND_DRAIN "ao_allow_play (get_ao i u)" "pipe_of (oa_mp st)"]
    show ?thesis using True put_get[OF iu] eu by (auto simp: awake_in_def draining_def)
  next
    case False
    then show ?thesis using id turned_touched[OF turned_refl[OF u(1)]] by (auto simp: awake_in_def idle_def draining_def)
  qed
qed

lemma audio_output_cancel_ok:
  assumes ok: "oa_ok st" and i: "i < length (oa_outputs st)" and r: "idle (get_ao i st)"
  shows "\<exists>st'. audio_output_cancel i st = Some st' \<and> touched i st st' \<and> cancelling (get_ao i st')"
  unfolding audio_output_cancel_def
proof (rule lock_then[OF ok i])
  fix u assume u: "oa_ok u" "oa_same st u" "evolves_in st (get_ao i st) (get_ao i u)"
  have iu: "i < length (oa_outputs u)" using i u(2) by (simp add: oa_same_def)
  have id: "idle (get_ao i u)" using idle_kept[OF r u(3)] .
  show "\<exists>st'. (if ao_open (get_ao i u)
       then ao_command_async i AO_COMMAND_CANCEL (put_ao i ((get_ao i u)\<lparr>ao_allow_play := False\<rparr>) u)
       else Some u) = Some st' \<and> touched i u st' \<and> cancelling (get_ao i st')"
  proof (cases "ao_open (get_ao i u)")
    case True
    have "ao_command (get_ao i u) = AO_COMMAND_NONE" using id by (simp add: idle_def)
    with async_ok[OF u(1) iu this True, of AO_COMMAND_CANCEL False]
    show ?thesis using True by (auto simp: cancelling_def)
  next
    case False
    then show ?thesis using id turned_touched[OF turned_refl[OF u(1)]] by (auto simp: idle_def cancelling_def)
  qed
qed

text \<open>After the cancellation: no command waits, and nothing is played or all is closed.\<close>

definition cancelled :: "output_all \<Rightarrow> audio_output \<Rightarrow> bool" where
  "cancelled st a \<longleftrightarrow> ao_command a = AO_COMMAND_NONE \<and> pipe_of (oa_mp st) = []"

lemma cancelled_kept: "cancelled st a \<Longrightarrow> evolves_in st a a' \<Longrightarrow> cancelled st a'"
  unfolding cancelled_def evolves_def ao_frame_def by metis

lemma cancelled_same: "oa_same st st' \<Longrightarrow> cancelled st' = cancelled st"
  by (simp add: cancelled_def oa_same_def fun_eq_iff)

lemma audio_output_allow_play_ok:
  assumes ok: "oa_ok st" and i: "i < length (oa_outputs st)" and r: "cancelled st (get_ao i st)"
  shows "\<exists>st'. audio_output_allow_play i st = Some st' \<and> touched i st st' \<and> ready st (get_ao i st')"
  unfolding audio_output_allow_play_def
proof (rule lock_then[OF ok i])
  fix u assume u: "oa_ok u" "oa_same st u" "evolves_in st (get_ao i st) (get_ao i u)"
  have iu: "i < length (oa_outputs u)" using i u(2) by (simp add: oa_same_def)
  let ?a = "(get_ao i u)\<lparr>ao_allow_play := True\<rparr>"
  have c: "cancelled st (get_ao i u)" using cancelled_kept[OF r u(3)] .
  have inv: "inv_in u ?a" using allow_inv[OF oa_ok_inv[OF u(1) iu]] by simp
  have "inv_in u (if ao_open ?a then signal ?a else ?a)" using inv signal_inv[OF inv] by simp
  moreover have "ready st (if ao_open ?a then signal ?a else ?a)"
    using c by (auto simp: ready_def idle_def cancelled_def signal_awake awake_def)
  ultimately show "\<exists>st'. (let a = (get_ao i u)\<lparr>ao_allow_play := True\<rparr> in
       Some (put_ao i (if ao_open a then signal a else a) u)) = Some st' \<and> touched i u st' \<and> ready st (get_ao i st')"
    using touched_put[OF u(1)] iu by (simp add: Let_def get_put)
qed

lemma audio_output_reset_reopen_ok:
  assumes ok: "oa_ok st" and i: "i < length (oa_outputs st)" and r: "ready st (get_ao i st)"
  shows "\<exists>st'. audio_output_reset_reopen i st = Some st' \<and> touched i st st' \<and> ready st (get_ao i st')"
  unfolding audio_output_reset_reopen_def
proof (rule lock_then[OF ok i])
  fix u assume u: "oa_ok u" "oa_same st u" "evolves_in st (get_ao i st) (get_ao i u)"
  have iu: "i < length (oa_outputs u)" using i u(2) by (simp add: oa_same_def)
  have c: "ready st (get_ao i u)" using ready_kept[OF r u(3)] .
  let ?a = "(get_ao i u)\<lparr>ao_fail_timer := False\<rparr>"
  have "inv_in u ?a" using fail_timer_inv[OF oa_ok_inv[OF u(1) iu]] c by (simp add: ready_def idle_def)
  moreover have "ready st ?a" using c by (simp add: ready_def idle_def awake_def)
  ultimately show "\<exists>st'. Some (if \<not> ao_open (get_ao i u) \<and> ao_fail_timer (get_ao i u)
        then put_ao i ((get_ao i u)\<lparr>ao_fail_timer := False\<rparr>) u else u) = Some st' \<and> touched i u st' \<and> ready st (get_ao i st')"
    using touched_put[OF u(1)] iu c turned_touched[OF turned_refl[OF u(1)]] by (simp add: get_put)
qed

section \<open>The loops\<close>

definition closed :: "output_all \<Rightarrow> audio_output \<Rightarrow> bool" where
  "closed st a \<longleftrightarrow> idle a \<and> \<not> ao_open a"

definition ready_for :: "nat \<Rightarrow> output_all \<Rightarrow> audio_output \<Rightarrow> bool" where
  "ready_for p st a \<longleftrightarrow> ready st a \<and> map_option fst (oa_mp st) = Some p"

definition update_one :: "nat \<Rightarrow> nat \<Rightarrow> output_all \<Rightarrow> output_all option" where
  "update_one p i st = map_option snd (audio_output_update i (oa_input_audio_format st) p st)"

definition empty_ready :: "output_all \<Rightarrow> audio_output \<Rightarrow> bool" where
  "empty_ready st a \<longleftrightarrow> awake_in idle st a \<and> pipe_of (oa_mp st) = []"

definition enable_disable_one :: "nat \<Rightarrow> output_all \<Rightarrow> output_all option" where
  "enable_disable_one i st = do {
       st \<leftarrow> oa_lock st;
       let a = get_ao i st;
       if ao_enabled a \<noteq> ao_really_enabled a
       then if ao_enabled a then audio_output_enable i st else audio_output_disable i st
       else Some st }"

text \<open>No output that is switched off is open.\<close>

definition switched :: "output_all \<Rightarrow> audio_output \<Rightarrow> bool" where
  "switched st a \<longleftrightarrow> ready st a \<and> (ao_open a \<longrightarrow> ao_enabled a)"

lemma switched_kept: "switched st a \<Longrightarrow> evolves_in st a a' \<Longrightarrow> switched st a'"
  using ready_kept[of st a a'] by (auto simp: switched_def ready_def idle_def evolves_def ao_frame_def)

lemma switched_same: "oa_same st st' \<Longrightarrow> switched st' = switched st"
  using ready_same[of st st'] by (auto simp: switched_def fun_eq_iff)

lemma enable_disable_one_ok:
  assumes ok: "oa_ok st" and i: "i < length (oa_outputs st)" and r: "ready st (get_ao i st)"
  shows "\<exists>st'. enable_disable_one i st = Some st' \<and> touched i st st' \<and> switched st (get_ao i st')"
  unfolding enable_disable_one_def
proof (rule lock_then[OF ok i])
  fix u assume u: "oa_ok u" "oa_same st u" "evolves_in st (get_ao i st) (get_ao i u)"
  have iu: "i < length (oa_outputs u)" using i u(2) by (simp add: oa_same_def)
  have c: "ready u (get_ao i u)" using ready_kept[OF r u(3)] ready_same[OF u(2)] by simp
  show "\<exists>st'. (let a = get_ao i u in if ao_enabled a \<noteq> ao_really_enabled a
       then if ao_enabled a then audio_output_enable i u else audio_output_disable i u else Some u) = Some st' \<and>
       touched i u st' \<and> switched st (get_ao i st')"
    using audio_output_enable_ok[OF u(1) iu c] audio_output_disable_ok[OF u(1) iu c] c ready_same[OF u(2)]
      turned_touched[OF turned_refl[OF u(1)]] open_thread[OF oa_ok_inv[OF u(1) iu]]
    by (auto simp: Let_def switched_def)
qed

lemma audio_output_release_ok:
  "oa_ok st \<Longrightarrow> i < length (oa_outputs st) \<Longrightarrow> audio_output_release i st = audio_output_close i st"
  using oa_ok_inv[of st i] by (auto simp: audio_output_release_def ao_inv_def enable_ok_def)

lemma same_pipe: "oa_same st st' \<Longrightarrow> oa_mp st' = oa_mp st"
  by (simp add: oa_same_def)

interpretation closes: output_loop audio_output_close "\<lambda>_. idle" closed
  by unfold_locales (use audio_output_close_ok in \<open>fastforce simp: closed_def ready_def\<close>,
    auto simp: closed_def idle_kept closed_kept dest: idle_kept)

interpretation releases: output_loop audio_output_release "\<lambda>_. idle" closed
  by unfold_locales (use audio_output_close_ok in \<open>fastforce simp: closed_def ready_def audio_output_release_ok\<close>,
    auto simp: closed_def idle_kept closed_kept dest: idle_kept)

interpretation resets: output_loop audio_output_reset_reopen ready ready
  by unfold_locales (auto intro: audio_output_reset_reopen_ok ready_kept simp: ready_same)

interpretation enables: output_loop enable_disable_one ready switched
  by unfold_locales (auto intro: enable_disable_one_ok ready_kept switched_kept simp: ready_same switched_same)

interpretation updates: output_loop "update_one p" "ready_for p" settled for p
proof unfold_locales
  fix st i assume "oa_ok st" "i < length (oa_outputs st)" "ready_for p st (get_ao i st)"
  then show "\<exists>st'. update_one p i st = Some st' \<and> touched i st st' \<and> settled st (get_ao i st')"
    using audio_output_update_ok[of st i p] by (fastforce simp: update_one_def ready_for_def)
qed (auto simp: ready_for_def ready_same settled_same same_pipe intro: ready_kept settled_kept)

interpretation plays: output_loop audio_output_play "\<lambda>_. idle" ready
  by unfold_locales (auto intro: audio_output_play_ok ready_kept idle_kept simp: ready_same)

interpretation pauses: output_loop audio_output_pause "awake_in idle" "awake_in pausing"
  by unfold_locales (auto intro: audio_output_pause_ok awake_in_kept idle_kept pausing_kept simp: awake_in_same)

interpretation drains: output_loop audio_output_drain_async empty_ready "awake_in draining"
  by unfold_locales (auto intro: audio_output_drain_async_ok awake_in_kept idle_kept draining_kept
    simp: empty_ready_def awake_in_same same_pipe)

interpretation cancels: output_loop audio_output_cancel "\<lambda>_. idle" "\<lambda>_. cancelling"
  by unfold_locales (auto intro: audio_output_cancel_ok idle_kept cancelling_kept)

interpretation allows: output_loop audio_output_allow_play cancelled ready
  by unfold_locales (auto intro: audio_output_allow_play_ok cancelled_kept ready_kept simp: ready_same cancelled_same)

section \<open>Waiting for all outputs\<close>

text \<open>The commands that are sent to all outputs at once leave closed outputs alone.\<close>

definition awaited :: "audio_output \<Rightarrow> bool" where
  "awaited a \<longleftrightarrow> ao_command a \<in> {AO_COMMAND_NONE, AO_COMMAND_PAUSE, AO_COMMAND_DRAIN, AO_COMMAND_CANCEL}"

lemma awaited_kept:
  assumes "awaited a" "evolves r af mp a a'"
  shows "awaited a'"
proof -
  have "ao_command a' = ao_command a \<or> ao_command a' = AO_COMMAND_NONE" using assms(2) by (simp add: evolves_def ao_frame_def)
  then show ?thesis using assms(1) by (auto simp: awaited_def)
qed

lemma awaited_open:
  assumes "ao_inv r af mp a" "awaited a" "\<not> (ao_open a \<and> ao_command a \<noteq> AO_COMMAND_NONE)"
  shows "ao_command a = AO_COMMAND_NONE"
proof -
  have "cmd_ok af mp a" using assms(1) by (simp add: ao_inv_def)
  then show ?thesis using assms(2,3) by (auto simp: awaited_def cmd_ok_def)
qed

lemma evolves_done: "ao_command a = AO_COMMAND_NONE \<Longrightarrow> evolves r af mp a a' \<Longrightarrow> ao_command a' = AO_COMMAND_NONE"
  by (simp add: evolves_def ao_frame_def)

lemma outputs_finished_ok:
  "oa_ok st \<Longrightarrow> set is \<subseteq> {..<length (oa_outputs st)} \<Longrightarrow> \<forall>i < length (oa_outputs st). awaited (get_ao i st) \<Longrightarrow>
    \<exists>b st'. outputs_finished is st = Some (b, st') \<and> turned st st' \<and> length (oa_tape st') \<le> length (oa_tape st) \<and>
      (if b then \<forall>i \<in> set is. ao_command (get_ao i st') = AO_COMMAND_NONE
       else \<exists>i < length (oa_outputs st). rank (get_ao i st') \<noteq> 0)"
proof (induction "is" arbitrary: st)
  case Nil
  then show ?case by (auto simp: turned_refl intro!: exI[of _ True])
next
  case (Cons i js)
  obtain u where u: "oa_lock st = Some u" "turned st u" "oa_tape u = tl (oa_tape st)" using oa_lock_ok[OF Cons.prems(1)] by blast
  have i: "i < length (oa_outputs st)" using Cons.prems(2) by simp
  have uok: "oa_ok u" "oa_same st u" "length (oa_outputs u) = length (oa_outputs st)" using u(2) by (auto simp: turned_def oa_same_def)
  have aw: "\<forall>j < length (oa_outputs u). awaited (get_ao j u)"
    using Cons.prems(3) turned_get[OF u(2)] awaited_kept uok(3) by metis
  show ?case
  proof (cases "ao_open (get_ao i u) \<and> ao_command (get_ao i u) \<noteq> AO_COMMAND_NONE")
    case True
    then have "outputs_finished (i # js) st = Some (False, u)" using u(1) by simp
    moreover have "rank (get_ao i u) \<noteq> 0" using True by (simp add: rank_0)
    ultimately show ?thesis using u(2,3) i by auto
  next
    case False
    have n: "ao_command (get_ao i u) = AO_COMMAND_NONE"
    proof (rule awaited_open)
      show "inv_in u (get_ao i u)" by (rule oa_ok_inv[OF uok(1)]) (use i uok(3) in simp)
      show "awaited (get_ao i u)" using aw i uok(3) by simp
    qed (use False in simp)
    have "set js \<subseteq> {..<length (oa_outputs u)}" using Cons.prems(2) uok(3) by simp
    from Cons.IH[OF uok(1) this aw] obtain b v where v: "outputs_finished js u = Some (b, v)" "turned u v"
      "length (oa_tape v) \<le> length (oa_tape u)"
      "if b then \<forall>i \<in> set js. ao_command (get_ao i v) = AO_COMMAND_NONE else \<exists>i < length (oa_outputs u). rank (get_ao i v) \<noteq> 0"
      by blast
    have nv: "ao_command (get_ao i v) = AO_COMMAND_NONE"
      using evolves_done[OF n] turned_get[OF v(2), of i] i uok(3) by simp
    show ?thesis
    proof (intro exI conjI)
      show "outputs_finished (i # js) st = Some (b, v)" using u(1) v(1) n by simp
      show "turned st v" by (rule turned_trans[OF u(2) v(2)])
      show "length (oa_tape v) \<le> length (oa_tape st)" using v(3) u(3) by simp
      show "if b then \<forall>i \<in> set (i # js). ao_command (get_ao i v) = AO_COMMAND_NONE
        else \<exists>i < length (oa_outputs st). rank (get_ao i v) \<noteq> 0" using v(4) uok(3) nv by (cases b) simp_all
    qed
  qed
qed

text \<open>The wait for all outputs ends.\<close>

lemma audio_output_wait_all_ok:
  "oa_ok st \<Longrightarrow> \<forall>i < length (oa_outputs st). awaited (get_ao i st) \<and> rank (get_ao i st) \<le> k \<Longrightarrow> length (oa_tape st) + k < fuel \<Longrightarrow>
    \<exists>st'. audio_output_wait_all fuel st = Some st' \<and> turned st st' \<and>
      (\<forall>i < length (oa_outputs st). ao_command (get_ao i st') = AO_COMMAND_NONE)"
proof (induction fuel arbitrary: st k)
  case (Suc fuel)
  obtain b u where u: "outputs_finished (all_outputs st) st = Some (b, u)" "turned st u" "length (oa_tape u) \<le> length (oa_tape st)"
    "if b then \<forall>i \<in> set (all_outputs st). ao_command (get_ao i u) = AO_COMMAND_NONE
     else \<exists>i < length (oa_outputs st). rank (get_ao i u) \<noteq> 0"
    using outputs_finished_ok[of st "all_outputs st"] Suc.prems by (auto simp: all_outputs_def atLeast0LessThan)
  show ?case
  proof (cases b)
    case True
    then show ?thesis using u by (auto simp: audio_output_all_finished_def all_outputs_def)
  next
    case False
    have uok: "oa_ok u" "length (oa_outputs u) = length (oa_outputs st)" using u(2) by (auto simp: turned_def oa_same_def)
    obtain v where v: "oa_sleep u = Some v" "turned u v" "oa_tape v = tl (oa_tape u)"
      "oa_tape u = [] \<longrightarrow> (\<forall>i < length (oa_outputs u). rank (get_ao i u) \<noteq> 0 \<longrightarrow> rank (get_ao i v) < rank (get_ao i u))"
      using oa_sleep_ok[OF uok(1)] by blast
    have vok: "oa_ok v" "length (oa_outputs v) = length (oa_outputs st)" and t: "turned st v"
      using v(2) uok(2) turned_trans[OF u(2) v(2)] by (auto simp: turned_def oa_same_def)
    have ru: "rank (get_ao i u) \<le> k" if "i < length (oa_outputs st)" for i
      by (rule le_trans[of _ "rank (get_ao i st)"]) (use turned_get[OF u(2) that] Suc.prems(2) that in \<open>simp_all add: evolves_def\<close>)
    have rv: "rank (get_ao i v) \<le> rank (get_ao i u)" if "i < length (oa_outputs st)" for i
      using turned_get[OF v(2), of i] that uok(2) by (simp add: evolves_def)
    have aw: "awaited (get_ao i v)" if "i < length (oa_outputs st)" for i
      using awaited_kept[OF _ turned_get[OF t that]] Suc.prems(2) that by simp
    define l where "l = (if oa_tape u = [] then k - 1 else k)"
    obtain j where "j < length (oa_outputs st)" "rank (get_ao j u) \<noteq> 0" using u(4) False by auto
    then have "k \<noteq> 0" using ru[of j] by simp
    have "rank (get_ao i v) \<le> l" if i: "i < length (oa_outputs st)" for i
    proof (cases "oa_tape u = [] \<and> rank (get_ao i u) \<noteq> 0")
      case True
      then have "rank (get_ao i v) < rank (get_ao i u)" using v(4) i uok(2) by simp
      then show ?thesis using ru[OF i] True by (simp add: l_def)
    next
      case False
      then show ?thesis using ru[OF i] rv[OF i] by (auto simp: l_def)
    qed
    moreover have "length (oa_tape v) + l < fuel" using Suc.prems(3) u(3) v(3) \<open>k \<noteq> 0\<close> by (cases "oa_tape u") (auto simp: l_def)
    ultimately obtain w where "audio_output_wait_all fuel v = Some w" "turned v w"
      "\<forall>i < length (oa_outputs v). ao_command (get_ao i w) = AO_COMMAND_NONE"
      using Suc.IH[OF vok(1), of l] aw vok(2) by auto
    then show ?thesis using u(1) v(1) False turned_trans[OF t] vok(2) by (auto simp: audio_output_all_finished_def)
  qed
qed simp

lemma wait_all_ok:
  assumes "oa_ok st" "\<forall>i < length (oa_outputs st). awaited (get_ao i st)"
  shows "\<exists>st'. wait_all st = Some st' \<and> turned st st' \<and> (\<forall>i < length (oa_outputs st). ao_command (get_ao i st') = AO_COMMAND_NONE)"
  using audio_output_wait_all_ok[OF assms(1), of 2] assms(2) rank_le by (simp add: wait_all_def wait_fuel_def)

end
