(* ===== verification/Output_Calls.thy ===== *)
theory Output_Calls
  imports Output_Waits
begin

text \<open>
  The functions of OutputAll.cxx, between which no command waits: none of them makes an assertion
  fail, all of them return, and every chunk that was played is in the pipe or has been returned to
  the buffer, in order.
\<close>

section \<open>Between two calls\<close>

definition oa_quiet :: "output_all \<Rightarrow> bool" where
  "oa_quiet st \<longleftrightarrow> oa_ok st \<and> (\<forall>i < length (oa_outputs st). ready st (get_ao i st))"

text \<open>All chunks that were ever played.\<close>

definition oa_held :: "output_all \<Rightarrow> music_chunk list" where
  "oa_held st = oa_returned st @ map pk_chunk (pipe_of (oa_mp st))"

lemma quiet_ok: "oa_quiet st \<Longrightarrow> oa_ok st" by (simp add: oa_quiet_def)

lemma quiet_ready: "oa_quiet st \<Longrightarrow> i < length (oa_outputs st) \<Longrightarrow> ready st (get_ao i st)" by (simp add: oa_quiet_def)

lemma quiet_idle: "oa_quiet st \<Longrightarrow> i < length (oa_outputs st) \<Longrightarrow> idle (get_ao i st)" by (simp add: oa_quiet_def ready_def)

lemma quietI: "oa_ok st \<Longrightarrow> (\<And>i. i < length (oa_outputs st) \<Longrightarrow> ready st (get_ao i st)) \<Longrightarrow> oa_quiet st"
  by (simp add: oa_quiet_def)

lemma quiet_turned: "oa_quiet st \<Longrightarrow> turned st st' \<Longrightarrow> oa_quiet st'"
proof (rule quietI)
  assume q: "oa_quiet st" and t: "turned st st'"
  show "oa_ok st'" using t by (simp add: turned_def)
  fix i assume "i < length (oa_outputs st')"
  then have i: "i < length (oa_outputs st)" using t by (simp add: turned_def oa_same_def)
  have "ready st (get_ao i st')" using ready_kept[OF quiet_ready[OF q i] turned_get[OF t i]] .
  then show "ready st' (get_ao i st')" using t ready_same by (auto simp: turned_def)
qed

lemma held_same: "oa_same st st' \<Longrightarrow> oa_held st' = oa_held st"
  by (simp add: oa_same_def oa_held_def)

section \<open>Opening the devices\<close>

lemma IsValid_defined: "IsValid af \<Longrightarrow> IsDefined af"
  by (auto simp: audio_format_defs audio_valid_sample_rate_def)

lemma Clear_undefined: "\<not> IsDefined (AudioFormat_Clear af)"
  by (simp add: IsDefined_def AudioFormat_Clear_def)

lemma audio_output_all_reset_reopen_ok:
  assumes "oa_quiet st"
  shows "\<exists>st'. audio_output_all_reset_reopen st = Some st' \<and> oa_quiet st' \<and> oa_same st st'"
  using resets.loop_ok[OF quiet_ok[OF assms] quiet_ready[OF assms]]
  by (fastforce simp: audio_output_all_reset_reopen_def oa_quiet_def)

lemma audio_output_all_enable_disable_ok:
  assumes "oa_quiet st"
  shows "\<exists>st'. audio_output_all_enable_disable st = Some st' \<and> oa_quiet st' \<and> oa_same st st' \<and>
    (\<forall>a \<in> set (oa_outputs st'). ao_open a \<longrightarrow> ao_enabled a)"
proof -
  have "audio_output_all_enable_disable st = each_output enable_disable_one (all_outputs st) st"
    by (simp add: audio_output_all_enable_disable_def enable_disable_one_def[abs_def])
  then show ?thesis using enables.loop_ok[OF quiet_ok[OF assms] quiet_ready[OF assms]]
    by (fastforce simp: oa_quiet_def switched_def in_set_conv_nth get_ao_def)
qed

lemma update_outputs_loop:
  "each_output (update_one p) is st = Some st' \<Longrightarrow> \<exists>r. update_outputs is p ret st = Some (r, st')"
proof (induction "is" arbitrary: st ret)
  case (Cons i js)
  then obtain u where u: "update_one p i st = Some u" "each_output (update_one p) js u = Some st'"
    by (auto simp: bind_eq_Some_conv)
  then obtain ok where "audio_output_update i (oa_input_audio_format st) p st = Some (ok, u)"
    by (auto simp: update_one_def)
  then show ?case using Cons.IH[OF u(2), of "ok \<or> ret"] by simp
qed simp

text \<open>All enabled outputs are opened with the format of the player, or they have failed.\<close>

lemma audio_output_all_update_ok:
  assumes q: "oa_quiet st" and m: "oa_mp st = Some (p, cs)"
  shows "\<exists>ret st'. audio_output_all_update st = Some (ret, st') \<and> oa_quiet st' \<and> oa_same st st' \<and>
    (\<forall>i < length (oa_outputs st'). settled st' (get_ao i st'))"
proof -
  have v: "IsValid (oa_input_audio_format st)" using oa_ok_pipe[OF quiet_ok[OF q]] m by (simp add: pipe_ok_def)
  then have d: "IsDefined (oa_input_audio_format st)" by (rule IsValid_defined)
  have "ready_for p st (get_ao i st)" if "i < length (oa_outputs st)" for i
    using quiet_ready[OF q that] m by (simp add: ready_for_def)
  then obtain st' where st': "each_output (update_one p) (all_outputs st) st = Some st'" "oa_ok st'" "oa_same st st'"
    "\<forall>i < length (oa_outputs st'). settled st' (get_ao i st')" using updates.loop_ok[OF quiet_ok[OF q]] by blast
  obtain ret where "update_outputs (all_outputs st) p False st = Some (ret, st')" using update_outputs_loop[OF st'(1)] by blast
  then have "audio_output_all_update st = Some (ret, st')" using d m by (simp add: audio_output_all_update_def)
  moreover have "oa_quiet st'" using st'(2,4) by (auto simp: settled_def intro: quietI)
  ultimately show ?thesis using st' by blast
qed

section \<open>Closing the devices\<close>

lemma return_all_ok:
  "\<forall>c \<in> set cs. case ck_other (pk_chunk c) of None \<Rightarrow> True | Some oth \<Rightarrow> ck_other oth = None \<Longrightarrow>
    return_all cs st = Some (st\<lparr>oa_returned := oa_returned st @ map pk_chunk cs\<rparr>)"
  by (induction cs arbitrary: st) (auto simp: buffer_Return_def)

lemma mp_Clear_ok:
  assumes ok: "oa_ok st" and m: "oa_mp st = Some (p, cs)"
  shows "mp_Clear st = Some (st\<lparr>oa_mp := Some (p, []), oa_removed := [], oa_returned := oa_held st\<rparr>)"
proof -
  have "\<forall>c \<in> set cs. good_chunk (oa_input_audio_format st) c" using oa_ok_pipe[OF ok] m by (simp add: pipe_ok_def)
  then show ?thesis using m return_all_ok[of cs "st\<lparr>oa_mp := Some (p, []), oa_removed := []\<rparr>"]
    by (auto simp: mp_Clear_def good_chunk_def oa_held_def)
qed

lemma closed_any:
  "ao_inv r af mp a \<Longrightarrow> idle a \<Longrightarrow> \<not> ao_open a \<Longrightarrow> ao_inv r' af' mp' a"
  by (auto simp: ao_inv_def open_ok_def cmd_ok_none idle_def given_ok_def)

lemma drop_pipe_ok:
  assumes ok: "oa_ok st" and c: "\<forall>i < length (oa_outputs st). closed st (get_ao i st)"
  shows "\<exists>st'. drop_pipe st = Some st' \<and> oa_quiet st' \<and> oa_mp st' = None \<and> oa_returned st' = oa_held st \<and>
    oa_outputs st' = oa_outputs st \<and> (\<forall>a \<in> set (oa_outputs st'). \<not> ao_open a) \<and> oa_elapsed_time st' = - 1"
proof -
  define st' where "st' = st\<lparr>oa_mp := None, oa_removed := (if oa_mp st = None then oa_removed st else []), oa_returned := oa_held st,
    oa_music_buffer := False, oa_input_audio_format := AudioFormat_Clear (oa_input_audio_format st), oa_elapsed_time := - 1\<rparr>"
  have d: "drop_pipe st = Some st'"
  proof (cases "oa_mp st")
    case None
    then show ?thesis by (simp add: drop_pipe_def st'_def oa_held_def)
  next
    case (Some x)
    obtain p cs where "x = (p, cs)" by fastforce
    moreover have "oa_music_buffer st" using ok Some by (auto simp: oa_ok_def)
    ultimately show ?thesis using Some mp_Clear_ok[OF ok, of p cs] by (simp add: drop_pipe_def st'_def)
  qed
  have g: "get_ao i st' = get_ao i st" for i by (simp add: get_ao_def st'_def)
  have "oa_ok st'"
    using ok c closed_any[OF oa_ok_inv[OF ok]] g
    by (auto simp: oa_ok_def closed_def pipe_ok_def st'_def Clear_undefined)
  moreover have "ready st' (get_ao i st')" if "i < length (oa_outputs st')" for i
    using c that g by (auto simp: closed_def ready_def awake_def st'_def)
  ultimately have "oa_quiet st'" by (rule quietI)
  moreover have "\<forall>a \<in> set (oa_outputs st'). \<not> ao_open a"
    using c by (auto simp: in_set_conv_nth st'_def closed_def get_ao_def)
  ultimately show ?thesis using d by (auto simp: st'_def)
qed

lemma all_outputs_len: "set (all_outputs st) = {..<length (oa_outputs st)}"
  by (auto simp: all_outputs_def)

text \<open>Closing returns all chunks; \<open>audio_output_all_release\<close> does the same as no output is always on.\<close>

lemma audio_output_all_close_ok:
  assumes q: "oa_quiet st"
  shows "\<exists>st'. audio_output_all_close st = Some st' \<and> oa_quiet st' \<and> oa_mp st' = None \<and> oa_returned st' = oa_held st \<and>
    length (oa_outputs st') = length (oa_outputs st) \<and> (\<forall>a \<in> set (oa_outputs st'). \<not> ao_open a) \<and> oa_elapsed_time st' = - 1"
proof -
  obtain u where u: "each_output audio_output_close (all_outputs st) st = Some u" "oa_ok u" "oa_same st u"
    "\<forall>i < length (oa_outputs u). closed u (get_ao i u)"
    using closes.loop_ok[OF quiet_ok[OF q] quiet_idle[OF q]] by blast
  then show ?thesis using drop_pipe_ok[OF u(2,4)] held_same[OF u(3)]
    by (auto simp: audio_output_all_close_def oa_same_def)
qed

lemma audio_output_all_release_ok:
  assumes q: "oa_quiet st"
  shows "\<exists>st'. audio_output_all_release st = Some st' \<and> oa_quiet st' \<and> oa_mp st' = None \<and> oa_returned st' = oa_held st \<and>
    length (oa_outputs st') = length (oa_outputs st) \<and> (\<forall>a \<in> set (oa_outputs st'). \<not> ao_open a) \<and> oa_elapsed_time st' = - 1"
proof -
  obtain u where u: "each_output audio_output_release (all_outputs st) st = Some u" "oa_ok u" "oa_same st u"
    "\<forall>i < length (oa_outputs u). closed u (get_ao i u)"
    using releases.loop_ok[OF quiet_ok[OF q] quiet_idle[OF q]] by blast
  then show ?thesis using drop_pipe_ok[OF u(2,4)] held_same[OF u(3)]
    by (auto simp: audio_output_all_release_def oa_same_def)
qed

section \<open>Opening and playing\<close>

lemma list_ex_open: "list_ex ao_open (oa_outputs st) \<longleftrightarrow> (\<exists>i < length (oa_outputs st). ao_open (get_ao i st))"
  by (metis get_ao_def in_set_conv_nth list_ex_iff)

text \<open>The state before and after the pipe is made.\<close>

lemma quiet_format:
  assumes q: "oa_quiet st" and e: "pipe_of (oa_mp st) = [] \<or> af = oa_input_audio_format st" and v: "IsValid af"
    and m: "oa_mp st \<noteq> None"
  shows "oa_quiet (st\<lparr>oa_music_buffer := True, oa_input_audio_format := af\<rparr>)"
proof (rule quietI)
  let ?u = "st\<lparr>oa_music_buffer := True, oa_input_audio_format := af\<rparr>"
  have ok: "oa_ok st" by (rule quiet_ok[OF q])
  have "inv_in ?u (get_ao i ?u)" if i: "i < length (oa_outputs st)" for i
  proof -
    have "inv_in st (get_ao i st)" "ao_command (get_ao i st) = AO_COMMAND_NONE"
      using oa_ok_inv[OF ok i] quiet_idle[OF q i] by (auto simp: idle_def)
    then show ?thesis using e by (auto simp: ao_inv_def open_ok_def cmd_ok_none get_ao_def)
  qed
  moreover have "pipe_ok af (oa_mp st)" using oa_ok_pipe[OF ok] e v by (auto simp: pipe_ok_def)
  ultimately show "oa_ok ?u" using ok m by (auto simp: oa_ok_def)
  show "ready ?u (get_ao i ?u)" if "i < length (oa_outputs ?u)" for i
    using quiet_ready[OF q, of i] that by (simp add: ready_def get_ao_def)
qed

lemma quiet_new_pipe:
  assumes q: "oa_quiet st" and v: "IsValid af" and m: "oa_mp st = None"
  shows "oa_quiet (st\<lparr>oa_music_buffer := True, oa_mp := Some (p, []), oa_next_mp := n, oa_removed := [], oa_input_audio_format := af\<rparr>)"
proof (rule quietI)
  let ?u = "st\<lparr>oa_music_buffer := True, oa_mp := Some (p, []), oa_next_mp := n, oa_removed := [], oa_input_audio_format := af\<rparr>"
  have ok: "oa_ok st" by (rule quiet_ok[OF q])
  have c: "\<not> ao_open (get_ao i st)" if "i < length (oa_outputs st)" for i
    using oa_ok_inv[OF ok that] m by (auto simp: ao_inv_def open_ok_def)
  have g: "get_ao i ?u = get_ao i st" for i by (simp add: get_ao_def)
  have "inv_in ?u (get_ao i ?u)" if i: "i < length (oa_outputs st)" for i
    using closed_any[OF oa_ok_inv[OF ok i] quiet_idle[OF q i] c[OF i]] g by simp
  then show "oa_ok ?u" using ok v by (simp add: oa_ok_def pipe_ok_def)
  show "ready ?u (get_ao i ?u)" if "i < length (oa_outputs ?u)" for i
    using quiet_ready[OF q, of i] that c g by (simp add: ready_def awake_def)
qed

text \<open>The outputs are opened, or everything is closed again.\<close>

lemma audio_output_all_open_ok:
  assumes q: "oa_quiet st" and v: "IsValid af" and e: "pipe_of (oa_mp st) = [] \<or> af = oa_input_audio_format st"
  shows "\<exists>ret st'. audio_output_all_open af st = Some (ret, st') \<and> oa_quiet st' \<and> length (oa_outputs st') = length (oa_outputs st) \<and>
    (if ret then oa_mp st' \<noteq> None \<and> pipe_of (oa_mp st') = pipe_of (oa_mp st) \<and> oa_input_audio_format st' = af \<and>
       oa_returned st' = oa_returned st \<and> (\<exists>a \<in> set (oa_outputs st'). ao_open a) \<and>
       (\<forall>a \<in> set (oa_outputs st'). ao_open a \<longrightarrow> ao_enabled a \<and> ao_in_audio_format a = af)
     else oa_mp st' = None \<and> oa_returned st' = oa_held st \<and> (\<forall>a \<in> set (oa_outputs st'). \<not> ao_open a))"
proof -
  have ok: "oa_ok st" by (rule quiet_ok[OF q])
  define u where "u = (case oa_mp st of
     None \<Rightarrow> st\<lparr>oa_music_buffer := True, oa_mp := Some (oa_next_mp st, []), oa_next_mp := Suc (oa_next_mp st), oa_removed := [], oa_input_audio_format := af\<rparr>
   | Some _ \<Rightarrow> st\<lparr>oa_music_buffer := True, oa_input_audio_format := af\<rparr>)"
  have u: "oa_quiet u" "oa_mp u \<noteq> None" "pipe_of (oa_mp u) = pipe_of (oa_mp st)" "oa_input_audio_format u = af" "oa_returned u = oa_returned st"
    "length (oa_outputs u) = length (oa_outputs st)"
    using quiet_format[OF q e v] quiet_new_pipe[OF q v] by (auto simp: u_def split: option.splits)
  obtain s1 where s1: "audio_output_all_reset_reopen u = Some s1" "oa_quiet s1" "oa_same u s1"
    using audio_output_all_reset_reopen_ok[OF u(1)] by blast
  obtain s2 where s2: "audio_output_all_enable_disable s1 = Some s2" "oa_quiet s2" "oa_same s1 s2"
    using audio_output_all_enable_disable_ok[OF s1(2)] by blast
  have us2: "oa_same u s2" by (rule oa_same_trans[OF s1(3) s2(3)])
  then obtain p cs where m: "oa_mp s2 = Some (p, cs)" using u(2) by (auto simp: oa_same_def)
  obtain r s3 where s3: "audio_output_all_update s2 = Some (r, s3)" "oa_quiet s3" "oa_same s2 s3"
    "\<forall>i < length (oa_outputs s3). settled s3 (get_ao i s3)" using audio_output_all_update_ok[OF s2(2) m] by blast
  have us3: "oa_same u s3" by (rule oa_same_trans[OF us2 s3(3)])
  then have s3u: "oa_mp s3 = oa_mp u" "oa_input_audio_format s3 = af" "oa_returned s3 = oa_returned u" "length (oa_outputs s3) = length (oa_outputs st)"
    using u(4,6) by (simp_all add: oa_same_def)
  have h: "oa_held s3 = oa_held st" using s3u u(3,5) by (simp add: oa_held_def)
  have chk: "\<And>x cs. oa_mp st = Some (x, cs) \<Longrightarrow> pipe_CheckFormat af cs \<and> (cs = [] \<or> af = oa_input_audio_format st)"
    using oa_ok_pipe[OF ok] e by (auto simp: pipe_ok_def pipe_CheckFormat_def good_chunk_def)
  have "(oa_mp st = None) = (\<not> oa_music_buffer st)" using ok by (cases "oa_mp st") (simp_all add: oa_ok_def)
  then have eq: "audio_output_all_open af st = do {
       (_, st) \<leftarrow> Some (r, s3);
       let ret = list_ex ao_open (oa_outputs st);
       st \<leftarrow> (if \<not> ret then audio_output_all_close st else Some st);
       Some (ret, st) }"
    using chk s1(1) s2(1) s3(1) by (cases "oa_mp st") (auto simp: audio_output_all_open_def u_def Let_def)
  show ?thesis
  proof (cases "list_ex ao_open (oa_outputs s3)")
    case True
    have "ao_open a \<longrightarrow> ao_enabled a \<and> ao_in_audio_format a = af" if "a \<in> set (oa_outputs s3)" for a
      using that s3(4) s3u(2) by (auto simp: in_set_conv_nth settled_def get_ao_def)
    moreover have "\<exists>a \<in> set (oa_outputs s3). ao_open a" using True by (simp add: list_ex_iff)
    ultimately show ?thesis using eq True s3(2) s3u u(2,3,5) by (auto simp: Let_def)
  next
    case False
    obtain v where "audio_output_all_close s3 = Some v" "oa_quiet v" "oa_mp v = None" "oa_returned v = oa_held s3"
      "length (oa_outputs v) = length (oa_outputs s3)" "\<forall>a \<in> set (oa_outputs v). \<not> ao_open a"
      using audio_output_all_close_ok[OF s3(2)] by blast
    then show ?thesis using eq False h s3u(4) by (auto simp: Let_def)
  qed
qed

text \<open>A chunk is put into the pipe and every thread that sleeps is woken.\<close>

lemma pushed_inv:
  assumes "ao_inv r af (Some (p, cs)) a" "ao_command a = AO_COMMAND_NONE" "ao_open a \<Longrightarrow> ao_in_audio_format a = af"
  shows "ao_inv r af (Some (p, cs @ [k])) a"
proof -
  have "given_ok r (cs @ [k]) a"
    using assms(1) by (auto simp: ao_inv_def given_ok_def nth_append split: option.splits)
  then show ?thesis using assms by (auto simp: ao_inv_def open_ok_def cmd_ok_none)
qed

lemma audio_output_all_play_ok:
  assumes q: "oa_quiet st" and m: "oa_mp st = Some (p, cs)" and g: "good_chunk (oa_input_audio_format st) k"
    and f: "pk_addr k \<notin> pk_addr ` set cs"
  shows "\<exists>ret st'. audio_output_all_play k st = Some (ret, st') \<and> oa_quiet st' \<and> length (oa_outputs st') = length (oa_outputs st) \<and>
    oa_input_audio_format st' = oa_input_audio_format st \<and> oa_returned st' = oa_returned st \<and>
    oa_mp st' = Some (p, if ret then cs @ [k] else cs)"
proof -
  let ?af = "oa_input_audio_format st"
  have v: "IsValid ?af" using oa_ok_pipe[OF quiet_ok[OF q]] m by (simp add: pipe_ok_def)
  have c: "IsValid ?af" "pk_CheckFormat ?af k" "\<not> ck_IsEmpty (pk_chunk k)" "ck_length (pk_chunk k) = 0 \<or> IsValid (pk_format k)" "oa_music_buffer st"
    using g v q m by (auto simp: good_chunk_def pk_CheckFormat_def oa_quiet_def oa_ok_def)
  obtain ret u where u: "audio_output_all_update st = Some (ret, u)" "oa_quiet u" "oa_same st u"
    "\<forall>i < length (oa_outputs u). settled u (get_ao i u)" using audio_output_all_update_ok[OF q m] by blast
  have um: "oa_mp u = Some (p, cs)" "oa_input_audio_format u = ?af" "oa_returned u = oa_returned st" "length (oa_outputs u) = length (oa_outputs st)"
    using u(3) m by (simp_all add: oa_same_def)
  show ?thesis
  proof (cases ret)
    case False
    then show ?thesis using u(1,2) um c m by (auto simp: audio_output_all_play_def intro!: exI[of _ False])
  next
    case True
    let ?v = "u\<lparr>oa_mp := Some (p, cs @ [k])\<rparr>"
    have uok: "oa_ok u" by (rule quiet_ok[OF u(2)])
    have gv: "get_ao i ?v = get_ao i u" for i by (simp add: get_ao_def)
    have "inv_in ?v (get_ao i ?v)" if i: "i < length (oa_outputs u)" for i
      using pushed_inv[of "oa_removed u" ?af p cs "get_ao i u" k] oa_ok_inv[OF uok i] quiet_idle[OF u(2) i] u(4) i um gv
      by (auto simp: idle_def settled_def)
    moreover have "pipe_ok ?af (Some (p, cs @ [k]))" using oa_ok_pipe[OF uok] um g f by (auto simp: pipe_ok_def)
    ultimately have "oa_ok ?v" using uok um by (simp add: oa_ok_def)
    moreover have "idle (get_ao i ?v)" if "i < length (oa_outputs ?v)" for i using quiet_idle[OF u(2), of i] that gv by simp
    ultimately obtain w where w: "each_output audio_output_play (all_outputs ?v) ?v = Some w" "oa_ok w" "oa_same ?v w"
      "\<forall>i < length (oa_outputs w). ready w (get_ao i w)" using plays.loop_ok[of ?v] by blast
    have "oa_quiet w" using w(2,4) by (auto intro: quietI)
    moreover have "audio_output_all_play k st = Some (True, w)"
      using True u(1) um c m w(1) by (simp add: audio_output_all_play_def all_outputs_def)
    ultimately show ?thesis using True um w(3) by (auto simp: oa_same_def)
  qed
qed

section \<open>Pausing, draining, cancelling\<close>

text \<open>The last part of those calls: all outputs are waited for.\<close>

lemma loop_wait:
  assumes l: "each_output f (all_outputs st) st = Some u" "oa_ok u" "oa_same st u" "\<forall>i < length (oa_outputs u). P u (get_ao i u)"
    and aw: "\<forall>a. P u a \<longrightarrow> awaited a" and k: "\<forall>a a'. P u a \<longrightarrow> evolves_in u a a' \<longrightarrow> P u a'"
  shows "\<exists>st'. do { st \<leftarrow> each_output f (all_outputs st) st; wait_all st } = Some st' \<and> oa_ok st' \<and> oa_same st st' \<and>
    (\<forall>i < length (oa_outputs st'). P u (get_ao i st') \<and> ao_command (get_ao i st') = AO_COMMAND_NONE)"
proof -
  obtain v where v: "wait_all u = Some v" "turned u v" "\<forall>i < length (oa_outputs u). ao_command (get_ao i v) = AO_COMMAND_NONE"
    using wait_all_ok[OF l(2)] l(4) aw by blast
  have vok: "oa_ok v" "oa_same u v" "length (oa_outputs v) = length (oa_outputs u)" using v(2) by (auto simp: turned_def oa_same_def)
  have "\<forall>i < length (oa_outputs v). P u (get_ao i v)" using l(4) k turned_get[OF v(2)] vok(3) by auto
  then show ?thesis using l(1) v(1,3) vok oa_same_trans[OF l(3) vok(2)] by auto
qed

lemma awaited_commands:
  "awake_in pausing u a \<Longrightarrow> awaited a" "awake_in draining u a \<Longrightarrow> awaited a" "cancelling a \<Longrightarrow> awaited a"
  by (auto simp: awake_in_def pausing_def draining_def cancelling_def awaited_def)

lemma audio_output_all_pause_ok:
  assumes q: "oa_quiet st" and m: "oa_mp st \<noteq> None"
  shows "\<exists>st'. audio_output_all_pause st = Some st' \<and> oa_quiet st' \<and> oa_same st st' \<and>
    (\<forall>i < length (oa_outputs st'). ao_paused (get_ao i st') \<or> \<not> ao_open (get_ao i st'))"
proof -
  obtain p cs where m: "oa_mp st = Some (p, cs)" using m by auto
  obtain r s1 where s1: "audio_output_all_update st = Some (r, s1)" "oa_quiet s1" "oa_same st s1"
    using audio_output_all_update_ok[OF q m] by blast
  obtain u where u: "each_output audio_output_pause (all_outputs s1) s1 = Some u" "oa_ok u" "oa_same s1 u"
    "\<forall>i < length (oa_outputs u). awake_in pausing u (get_ao i u)"
    using pauses.loop_ok[OF quiet_ok[OF s1(2)]] quiet_ready[OF s1(2)] by (auto simp: ready_awake_in)
  obtain v where v: "do { st \<leftarrow> each_output audio_output_pause (all_outputs s1) s1; wait_all st } = Some v" "oa_ok v" "oa_same s1 v"
    "\<forall>i < length (oa_outputs v). awake_in pausing u (get_ao i v) \<and> ao_command (get_ao i v) = AO_COMMAND_NONE"
    using loop_wait[of audio_output_pause s1 u "awake_in pausing", OF u] awaited_commands(1) pauses.post_kept[of u] by blast
  have "oa_quiet v"
    using v(2,4) oa_same_trans[OF oa_same_sym[OF u(3)] v(3)]
    by (auto intro!: quietI simp: ready_def awake_in_def idle_def pausing_def oa_same_def)
  then show ?thesis using s1(1) v oa_same_trans[OF s1(3) v(3)] by (auto simp: audio_output_all_pause_def awake_in_def pausing_def)
qed

lemma audio_output_all_drain_ok:
  assumes q: "oa_quiet st" and e: "pipe_of (oa_mp st) = []"
  shows "\<exists>st'. audio_output_all_drain st = Some st' \<and> oa_quiet st' \<and> oa_same st st'"
proof -
  have "empty_ready st (get_ao i st)" if "i < length (oa_outputs st)" for i
    using quiet_ready[OF q that] e by (simp add: empty_ready_def ready_awake_in)
  then obtain u where u: "each_output audio_output_drain_async (all_outputs st) st = Some u" "oa_ok u" "oa_same st u"
    "\<forall>i < length (oa_outputs u). awake_in draining u (get_ao i u)"
    using drains.loop_ok[OF quiet_ok[OF q]] by auto
  obtain v where v: "do { st \<leftarrow> each_output audio_output_drain_async (all_outputs st) st; wait_all st } = Some v" "oa_ok v" "oa_same st v"
    "\<forall>i < length (oa_outputs v). awake_in draining u (get_ao i v) \<and> ao_command (get_ao i v) = AO_COMMAND_NONE"
    using loop_wait[of audio_output_drain_async st u "awake_in draining", OF u] awaited_commands(2) drains.post_kept[of u] by blast
  have "oa_quiet v"
    using v(2,4) oa_same_trans[OF oa_same_sym[OF u(3)] v(3)]
    by (auto intro!: quietI simp: ready_def awake_in_def idle_def draining_def oa_same_def)
  then show ?thesis using v by (auto simp: audio_output_all_drain_def)
qed

text \<open>After a cancellation nothing is in the pipe, and every output starts anew.\<close>

lemma audio_output_all_cancel_ok:
  assumes q: "oa_quiet st"
  shows "\<exists>st'. audio_output_all_cancel st = Some st' \<and> oa_quiet st' \<and> length (oa_outputs st') = length (oa_outputs st) \<and>
    oa_input_audio_format st' = oa_input_audio_format st \<and> oa_mp st' = map_option (\<lambda>(p, cs). (p, [])) (oa_mp st) \<and>
    oa_returned st' = oa_held st \<and> oa_elapsed_time st' = - 1"
proof -
  obtain u where u: "each_output audio_output_cancel (all_outputs st) st = Some u" "oa_ok u" "oa_same st u"
    "\<forall>i < length (oa_outputs u). cancelling (get_ao i u)"
    using cancels.loop_ok[OF quiet_ok[OF q] quiet_idle[OF q]] by auto
  obtain v where v: "do { st \<leftarrow> each_output audio_output_cancel (all_outputs st) st; wait_all st } = Some v" "oa_ok v" "oa_same st v"
    "\<forall>i < length (oa_outputs v). cancelling (get_ao i v) \<and> ao_command (get_ao i v) = AO_COMMAND_NONE"
    using loop_wait[of audio_output_cancel st u "\<lambda>_. cancelling", OF u] awaited_commands(3) cancels.post_kept by blast
  have fresh: "ao_chunk (get_ao i v) = None \<and> ao_given (get_ao i v) = []" if i: "i < length (oa_outputs v)" for i
    using oa_ok_inv[OF v(2) i] v(4) i by (auto simp: ao_inv_def open_ok_def cancelling_def split: if_splits)
  define w where "w = (case oa_mp v of None \<Rightarrow> v | Some (p, cs) \<Rightarrow> v\<lparr>oa_mp := Some (p, []), oa_removed := [], oa_returned := oa_held v\<rparr>)"
  have gw: "get_ao i w = get_ao i v" for i by (auto simp: w_def get_ao_def split: option.splits)
  have cl: "(if oa_mp v \<noteq> None then mp_Clear v else Some v) = Some w"
    using mp_Clear_ok[OF v(2)] by (auto simp: w_def split: option.splits)
  have lw: "length (oa_outputs w) = length (oa_outputs st)" "oa_input_audio_format w = oa_input_audio_format st"
    "oa_mp w = map_option (\<lambda>(p, cs). (p, [])) (oa_mp st)" "oa_returned w = oa_held st"
    using v(3) held_same[OF v(3)] by (auto simp: w_def oa_same_def oa_held_def split: option.splits)
  have iw: "inv_in w (get_ao i w)" if i: "i < length (oa_outputs w)" for i
  proof (cases "oa_mp v")
    case None
    then have "w = v" by (simp add: w_def)
    then show ?thesis using oa_ok_inv[OF v(2)] i by simp
  next
    case (Some x)
    obtain p cs where x: "x = (p, cs)" by fastforce
    have iv: "i < length (oa_outputs v)" using i lw(1) v(3) by (simp add: oa_same_def)
    have "ao_inv (oa_removed v) (oa_input_audio_format v) (oa_mp v) (get_ao i v)" by (rule oa_ok_inv[OF v(2) iv])
    then show ?thesis using fresh[OF iv] v(4) iv Some x gw
      by (simp add: w_def ao_inv_def open_ok_def cmd_ok_none given_ok_def split: if_splits)
  qed
  have wok: "oa_ok w" using v(2) iw by (auto simp: oa_ok_def w_def pipe_ok_def split: option.splits)
  have "cancelled w (get_ao i w)" if "i < length (oa_outputs w)" for i
  proof -
    have "pipe_of (oa_mp w) = []" using lw(3) by (cases "oa_mp st") auto
    moreover have "i < length (oa_outputs v)" using that lw(1) v(3) by (simp add: oa_same_def)
    ultimately show ?thesis using v(4) gw by (simp add: cancelled_def)
  qed
  then obtain z where z: "each_output audio_output_allow_play (all_outputs w) w = Some z" "oa_ok z" "oa_same w z"
    "\<forall>i < length (oa_outputs z). ready z (get_ao i z)" using allows.loop_ok[OF wok] by blast
  let ?z = "z\<lparr>oa_elapsed_time := - 1\<rparr>"
  have "oa_quiet ?z"
    using z(2,4) by (auto simp: oa_quiet_def oa_ok_def ready_def get_ao_def)
  moreover have "audio_output_all_cancel st = Some ?z"
  proof -
    have "audio_output_all_cancel st = do {
        st \<leftarrow> do { st \<leftarrow> each_output audio_output_cancel (all_outputs st) st; wait_all st };
        st \<leftarrow> (if oa_mp st \<noteq> None then mp_Clear st else Some st);
        st \<leftarrow> audio_output_allow_play_all st;
        Some (st\<lparr>oa_elapsed_time := - 1\<rparr>) }" by (simp add: audio_output_all_cancel_def)
    then show ?thesis using v(1) cl z(1) by (simp add: audio_output_allow_play_all_def)
  qed
  ultimately show ?thesis using lw z(3) by (simp add: oa_same_def)
qed

section \<open>What needs no output\<close>

lemma song_border_ok: "oa_quiet st \<Longrightarrow> oa_quiet (audio_output_all_song_border st)"
  by (simp add: oa_quiet_def oa_ok_def ready_def get_ao_def audio_output_all_song_border_def)

lemma enabled_inv:
  assumes "ao_inv r af mp a"
  shows "ao_inv r af mp (a\<lparr>ao_enabled := b\<rparr>)"
  by (rule moved_inv[OF assms]) (use assms in \<open>cases "ao_at a"; auto simp: ao_inv_def cmd_ok_def\<close>)+

lemma enabled_quiet:
  assumes q: "oa_quiet st" and i: "i < length (oa_outputs st)"
  shows "oa_quiet (put_ao i ((get_ao i st)\<lparr>ao_enabled := b\<rparr>) st)"
proof -
  let ?a = "(get_ao i st)\<lparr>ao_enabled := b\<rparr>"
  have "oa_ok (put_ao i ?a st)" by (rule oa_ok_put[OF quiet_ok[OF q] enabled_inv[OF oa_ok_inv[OF quiet_ok[OF q] i]]])
  moreover have "ready st ?a" using quiet_ready[OF q i] by (simp add: ready_def idle_def awake_def)
  ultimately show ?thesis
    using quiet_ready[OF q] ready_same[OF oa_same_put] by (auto intro!: quietI simp: get_put_if)
qed

end
