(* ===== verification/Output_Check.thy ===== *)
theory Output_Check
  imports Output_Calls
begin

text \<open>
  Taking chunks out of the pipe: a chunk leaves it only when every open output has passed it, and
  no thread is left with a reference to it.
\<close>

section \<open>Has every output consumed the chunk?\<close>

lemma passed_kept: "idle a \<Longrightarrow> passed (pipe_of mp) a \<Longrightarrow> evolves r af mp a a' \<Longrightarrow> passed (pipe_of mp) a'"
  by (simp add: evolves_def idle_def)

lemma chunk_is_consumed_in_ok:
  assumes g: "given_ok r (x # xs) a" and o: "\<not> ao_open a \<Longrightarrow> ao_chunk a = None"
  shows "\<exists>b. chunk_is_consumed_in (x # xs) (pk_addr x) a = Some b \<and> (b \<longrightarrow> passed (x # xs) a)"
proof (cases "ao_open a")
  case False
  then show ?thesis by (auto simp: chunk_is_consumed_in_def passed_def intro!: exI[of _ True])
next
  case True
  show ?thesis
  proof (cases "ao_chunk a")
    case None
    then show ?thesis using True by (auto simp: chunk_is_consumed_in_def intro!: exI[of _ False])
  next
    case (Some k)
    then obtain j where j: "j < length (x # xs)" "pk_addr ((x # xs) ! j) = k" using g by (auto simp: given_ok_def)
    then have c: "pipe_Contains (x # xs) k" unfolding pipe_Contains_def using nth_mem by blast
    then have "pk_addr x \<noteq> k \<Longrightarrow> xs \<noteq> []" by (auto simp: pipe_Contains_def)
    then show ?thesis using True Some c by (cases xs) (auto simp: chunk_is_consumed_in_def passed_def)
  qed
qed

lemma consumed_by_ok:
  "oa_quiet st \<Longrightarrow> oa_mp st = Some (p, x # xs) \<Longrightarrow> set is \<subseteq> {..<length (oa_outputs st)} \<Longrightarrow>
    \<exists>b st'. consumed_by is (pk_addr x) st = Some (b, st') \<and> turned st st' \<and> (b \<longrightarrow> (\<forall>i \<in> set is. passed (x # xs) (get_ao i st')))"
proof (induction "is" arbitrary: st)
  case Nil
  then show ?case using turned_refl quiet_ok by (auto intro!: exI[of _ True])
next
  case (Cons i js)
  obtain u where u: "oa_lock st = Some u" "turned st u" using oa_lock_ok[OF quiet_ok[OF Cons.prems(1)]] by blast
  have uq: "oa_quiet u" "oa_mp u = Some (p, x # xs)" "length (oa_outputs u) = length (oa_outputs st)"
    using quiet_turned[OF Cons.prems(1) u(2)] u(2) Cons.prems(2) by (simp_all add: turned_def oa_same_def)
  have i: "i < length (oa_outputs u)" using Cons.prems(3) uq(3) by simp
  have inv: "inv_in u (get_ao i u)" by (rule oa_ok_inv[OF quiet_ok[OF uq(1)] i])
  have "given_ok (oa_removed u) (x # xs) (get_ao i u)" "\<not> ao_open (get_ao i u) \<Longrightarrow> ao_chunk (get_ao i u) = None"
    using inv uq(2) by (simp_all add: ao_inv_def open_ok_def)
  then obtain b where b: "chunk_is_consumed_in (x # xs) (pk_addr x) (get_ao i u) = Some b" "b \<longrightarrow> passed (x # xs) (get_ao i u)"
    using chunk_is_consumed_in_ok by blast
  show ?case
  proof (cases b)
    case False
    then have "consumed_by (i # js) (pk_addr x) st = Some (False, u)" using u(1) uq(2) b(1) by simp
    then show ?thesis using u(2) by blast
  next
    case True
    have "set js \<subseteq> {..<length (oa_outputs u)}" using Cons.prems(3) uq(3) by simp
    from Cons.IH[OF uq(1,2) this] obtain d v where v: "consumed_by js (pk_addr x) u = Some (d, v)" "turned u v"
      "d \<longrightarrow> (\<forall>i \<in> set js. passed (x # xs) (get_ao i v))" by blast
    have "passed (x # xs) (get_ao i v)"
      using passed_kept[of "get_ao i u" "oa_mp u"] quiet_idle[OF uq(1) i] turned_get[OF v(2) i] b(2) True uq(2) by auto
    moreover have "consumed_by (i # js) (pk_addr x) st = Some (d, v)" using u(1) uq(2) b(1) True v(1) by simp
    ultimately show ?thesis using v(3) turned_trans[OF u(2) v(2)] by auto
  qed
qed

section \<open>The last chunk of the pipe\<close>

text \<open>The outputs that the player holds have lost their reference to the chunk.\<close>

definition wipe :: "nat set \<Rightarrow> output_all \<Rightarrow> output_all" where
  "wipe H st = st\<lparr>oa_outputs := map (\<lambda>i. if i \<in> H then (get_ao i st)\<lparr>ao_chunk := None\<rparr> else get_ao i st) [0..<length (oa_outputs st)]\<rparr>"

lemma get_wipe: "i < length (oa_outputs st) \<Longrightarrow> get_ao i (wipe H st) = (if i \<in> H then (get_ao i st)\<lparr>ao_chunk := None\<rparr> else get_ao i st)"
  by (simp add: wipe_def get_ao_def)

lemma wipe_simps [simp]:
  "oa_mp (wipe H st) = oa_mp st" "oa_tape (wipe H st) = oa_tape st" "oa_steady (wipe H st) = oa_steady st"
  "length (oa_outputs (wipe H st)) = length (oa_outputs st)" "oa_removed (wipe H st) = oa_removed st"
  "oa_input_audio_format (wipe H st) = oa_input_audio_format st" "oa_music_buffer (wipe H st) = oa_music_buffer st"
  "oa_returned (wipe H st) = oa_returned st" "oa_elapsed_time (wipe H st) = oa_elapsed_time st"
  by (simp_all add: wipe_def)

lemma put_wipe:
  assumes "j \<notin> H"
  shows "put_ao j a (wipe H st) = wipe H (put_ao j a st)"
proof -
  have "oa_outputs (put_ao j a (wipe H st)) = oa_outputs (wipe H (put_ao j a st))"
  proof (cases "j < length (oa_outputs st)")
    case True
    then show ?thesis by (intro nth_equalityI) (use assms in \<open>auto simp: put_ao_def wipe_def get_ao_def nth_list_update\<close>)
  qed (simp add: put_ao_def wipe_def list_update_beyond get_ao_def)
  then show ?thesis by (simp add: put_ao_def wipe_def)
qed

lemma wipe_insert:
  "i < length (oa_outputs st) \<Longrightarrow> i \<notin> H \<Longrightarrow> put_ao i ((get_ao i st)\<lparr>ao_chunk := None\<rparr>) (wipe H st) = wipe (insert i H) st"
proof -
  assume a: "i < length (oa_outputs st)" "i \<notin> H"
  have "oa_outputs (put_ao i ((get_ao i st)\<lparr>ao_chunk := None\<rparr>) (wipe H st)) = oa_outputs (wipe (insert i H) st)"
    by (rule nth_equalityI) (use a in \<open>auto simp: put_ao_def wipe_def get_ao_def nth_list_update\<close>)
  then show ?thesis by (simp add: put_ao_def wipe_def)
qed

lemma wipe_none: "wipe {} st = st"
  by (simp add: wipe_def get_ao_def map_nth)

text \<open>The threads that run do not look at the outputs that are held.\<close>

lemma run_steps_wipe: "run_steps held steps (wipe (set held) st) = map_option (wipe (set held)) (run_steps held steps st)"
proof (induction steps arbitrary: st)
  case (Cons x steps)
  obtain j d where x: "x = (j, d)" by fastforce
  show ?case
  proof (cases "j < length (oa_outputs st) \<and> j \<notin> set held")
    case True
    then show ?thesis using Cons.IH x
      by (cases "ao_step (answer (oa_steady st) (get_ao j st) d) (oa_mp st) (get_ao j st)") (simp_all add: get_wipe put_wipe)
  qed (use Cons.IH x in auto)
qed simp

lemma tape_wipe: "(wipe H st)\<lparr>oa_tape := t\<rparr> = wipe H (st\<lparr>oa_tape := t\<rparr>)"
  by (simp add: wipe_def get_ao_def)

lemma take_turn_wipe:
  "take_turn held (wipe (set held) st) = map_option (map_prod id (wipe (set held))) (take_turn held st)"
  by (cases "oa_tape st") (auto simp: take_turn_def tape_wipe run_steps_wipe option.map_comp o_def cong: map_option_cong)

lemma clear_tail_ok:
  "oa_quiet st \<Longrightarrow> oa_mp st = Some (p, [x]) \<Longrightarrow> distinct is \<Longrightarrow> set is \<inter> set held = {} \<Longrightarrow>
    set is \<union> set held \<subseteq> {..<length (oa_outputs st)} \<Longrightarrow> \<forall>i \<in> set is. passed [x] (get_ao i st) \<Longrightarrow>
    \<exists>held' st'. clear_tail is (pk_addr x) held (wipe (set held) st) = Some (held', wipe (set held') st') \<and> turned st st' \<and>
      set held \<subseteq> set held' \<and> set held' \<subseteq> {..<length (oa_outputs st)} \<and> (\<forall>i \<in> set is. i \<in> set held' \<or> \<not> ao_open (get_ao i st'))"
proof (induction "is" arbitrary: st held)
  case Nil
  then show ?case by (auto intro!: exI[of _ held] exI[of _ st] turned_refl quiet_ok)
next
  case (Cons i js)
  obtain t u where u: "take_turn held st = Some (t, u)" "turned st u" using take_turn_ok[OF quiet_ok[OF Cons.prems(1)]] by blast
  have uq: "oa_quiet u" "oa_mp u = Some (p, [x])" "length (oa_outputs u) = length (oa_outputs st)"
    using quiet_turned[OF Cons.prems(1) u(2)] u(2) Cons.prems(2) by (simp_all add: turned_def oa_same_def)
  have i: "i < length (oa_outputs u)" "i \<notin> set held" using Cons.prems(4,5) uq(3) by auto
  have ps: "passed [x] (get_ao j u)" if "j \<in> set (i # js)" for j
  proof -
    have j: "j < length (oa_outputs st)" using that Cons.prems(5) by auto
    show ?thesis
      using passed_kept[of "get_ao j st" "oa_mp st"] quiet_idle[OF Cons.prems(1) j] turned_get[OF u(2) j] Cons.prems(2,6) that by auto
  qed
  have tw: "take_turn held (wipe (set held) st) = Some (t, wipe (set held) u)" using u(1) by (simp add: take_turn_wipe)
  have gi: "get_ao i (wipe (set held) u) = get_ao i u" using i by (simp add: get_wipe)
  show ?case
  proof (cases "ao_open (get_ao i u)")
    case False
    have "set js \<union> set held \<subseteq> {..<length (oa_outputs u)}" "set js \<inter> set held = {}" using Cons.prems(4,5) uq(3) by auto
    from Cons.IH[OF uq(1,2) _ this(2,1)] Cons.prems(3) ps obtain h v where v:
      "clear_tail js (pk_addr x) held (wipe (set held) u) = Some (h, wipe (set h) v)" "turned u v" "set held \<subseteq> set h"
      "set h \<subseteq> {..<length (oa_outputs u)}" "\<forall>i \<in> set js. i \<in> set h \<or> \<not> ao_open (get_ao i v)" by auto
    have "\<not> ao_open (get_ao i v)" using closed_kept[OF quiet_idle[OF uq(1) i(1)] False turned_get[OF v(2) i(1)]] .
    moreover have "clear_tail (i # js) (pk_addr x) held (wipe (set held) st) = Some (h, wipe (set h) v)"
      using tw gi False v(1) by simp
    ultimately show ?thesis using turned_trans[OF u(2) v(2)] v(3,4,5) uq(3) by auto
  next
    case True
    have inv: "inv_in u (get_ao i u)" by (rule oa_ok_inv[OF quiet_ok[OF uq(1)] i(1)])
    have c: "ao_chunk (get_ao i u) = Some (pk_addr x)" "ao_chunk_finished (get_ao i u)"
      using ps[of i] True inv uq(2) by (auto simp: passed_def ao_inv_def given_ok_def split: option.splits)
    have "set js \<union> set (i # held) \<subseteq> {..<length (oa_outputs u)}" "set js \<inter> set (i # held) = {}"
      using Cons.prems(3,4,5) uq(3) by auto
    from Cons.IH[OF uq(1,2) _ this(2,1)] Cons.prems(3) ps obtain h v where v:
      "clear_tail js (pk_addr x) (i # held) (wipe (set (i # held)) u) = Some (h, wipe (set h) v)" "turned u v" "set (i # held) \<subseteq> set h"
      "set h \<subseteq> {..<length (oa_outputs u)}" "\<forall>i \<in> set js. i \<in> set h \<or> \<not> ao_open (get_ao i v)" by auto
    have "clear_tail (i # js) (pk_addr x) held (wipe (set held) st) = Some (h, wipe (set h) v)"
      using tw gi True c v(1) wipe_insert[OF i] by simp
    then show ?thesis using turned_trans[OF u(2) v(2)] v(3,4,5) uq(3) by auto
  qed
qed

section \<open>Taking the first chunk out\<close>

lemma shifted_inv:
  assumes i: "ao_inv r af (Some (p, x # xs)) a" and id: "idle a" and ps: "passed (x # xs) a" and ne: "xs \<noteq> []"
  shows "ao_inv (r @ [pk_addr x]) af (Some (p, xs)) a"
proof -
  have "given_ok (r @ [pk_addr x]) xs a"
  proof (cases "ao_open a")
    case False
    then show ?thesis using i by (simp add: ao_inv_def open_ok_def given_ok_def)
  next
    case True
    then obtain k where k: "ao_chunk a = Some k" "k \<noteq> pk_addr x" using ps ne by (auto simp: passed_def split: option.splits)
    then obtain j where j: "j < length (x # xs)" "pk_addr ((x # xs) ! j) = k" "j < length (ao_given a)"
      "suffix (ao_given a) (r @ map pk_addr (take (Suc j) (x # xs)))" using i by (auto simp: ao_inv_def given_ok_def)
    then obtain l where l: "j = Suc l" using k by (cases j) auto
    then show ?thesis using j k(1) by (auto simp: given_ok_def intro!: exI[of _ l])
  qed
  then show ?thesis using i id by (auto simp: ao_inv_def open_ok_def cmd_ok_none idle_def)
qed

lemma shifted_awake:
  "awake (x # xs) a \<Longrightarrow> passed (x # xs) a \<Longrightarrow> xs \<noteq> [] \<Longrightarrow> awake xs a"
  by (auto simp: awake_def passed_def split: option.splits)

text \<open>The last chunk: its outputs have been cleared.\<close>

lemma emptied_inv:
  assumes i: "ao_inv r af (Some (p, [x])) a" and id: "idle a" and ps: "passed [x] a"
    and b: "b = a\<lparr>ao_chunk := None\<rparr> \<or> b = a \<and> \<not> ao_open a"
  shows "ao_inv (r @ [pk_addr x]) af (Some (p, [])) b \<and> idle b \<and> awake [] b"
proof -
  have g: "given_ok (r @ [pk_addr x]) [] b"
  proof (cases "ao_open a")
    case False
    then show ?thesis using i b by (auto simp: ao_inv_def open_ok_def given_ok_def)
  next
    case True
    then show ?thesis using i b ps by (auto simp: ao_inv_def given_ok_def passed_def split: option.splits)
  qed
  have "ao_chunk_finished a" if o: "ao_open a"
    using i ps o by (auto simp: ao_inv_def given_ok_def passed_def split: option.splits)
  then have "place_ok (ao_at b) b" using i b by (cases "ao_at a") (auto simp: ao_inv_def)
  moreover have "ao_chunk b = None" using i b by (auto simp: ao_inv_def open_ok_def)
  ultimately show ?thesis using i id b g by (auto simp: ao_inv_def open_ok_def enable_ok_def cmd_ok_none idle_def awake_def)
qed

text \<open>The elapsed time is that of the last chunk that had one.\<close>

definition elapsed_after :: "real \<Rightarrow> pipe_chunk list \<Rightarrow> real" where
  "elapsed_after t cs = foldl (\<lambda>t c. if ck_length (pk_chunk c) > 0 \<and> ck_times (pk_chunk c) \<ge> 0 then ck_times (pk_chunk c) else t) t cs"

text \<open>What is open was open before, and its device has been given more.\<close>

definition grown :: "output_all \<Rightarrow> output_all \<Rightarrow> bool" where
  "grown st st' \<longleftrightarrow> length (oa_outputs st') = length (oa_outputs st) \<and> (\<forall>i < length (oa_outputs st). ao_open (get_ao i st') \<longrightarrow>
     ao_open (get_ao i st) \<and> prefix (ao_given (get_ao i st)) (ao_given (get_ao i st')))"

lemma grown_refl: "grown st st"
  by (simp add: grown_def)

lemma grown_trans: "grown a b \<Longrightarrow> grown b c \<Longrightarrow> grown a c"
  unfolding grown_def by (metis prefix_order.trans)

lemma turned_grown:
  assumes q: "oa_quiet st" and t: "turned st st'"
  shows "grown st st'"
proof -
  have "ao_open (get_ao i st) \<and> prefix (ao_given (get_ao i st)) (ao_given (get_ao i st'))"
    if i: "i < length (oa_outputs st)" and o: "ao_open (get_ao i st')" for i
    using turned_get[OF t i] quiet_idle[OF q i] o by (simp add: evolves_def idle_def)
  then show ?thesis using t by (simp add: grown_def turned_def oa_same_def)
qed

text \<open>An output that has passed the first chunk has been given it.\<close>

lemma passed_given:
  assumes i: "ao_inv r af (Some (p, x # xs)) a" and o: "ao_open a" and ps: "passed (x # xs) a"
  shows "pk_addr x \<in> set (ao_given a)"
proof -
  obtain c where "ao_chunk a = Some c" using o ps by (auto simp: passed_def split: option.splits)
  then obtain j where j: "j < length (x # xs)" "j < length (ao_given a)"
    "suffix (ao_given a) (r @ map pk_addr (take (Suc j) (x # xs)))" using i by (auto simp: ao_inv_def given_ok_def)
  let ?t = "map pk_addr (take (Suc j) (x # xs))"
  have "length ?t \<le> length (ao_given a)" using j(1,2) by simp
  moreover have "suffix ?t (r @ ?t)" by (simp add: suffix_def)
  ultimately have "suffix ?t (ao_given a)" using j(3) suffix_length_suffix by blast
  then have "set ?t \<subseteq> set (ao_given a)" by (rule set_mono_suffix)
  then show ?thesis by simp
qed

text \<open>
  The player has taken \<open>n\<close> chunks out of the pipe, and every device that is open has been given
  them.
\<close>

definition taken :: "nat \<Rightarrow> output_all \<Rightarrow> output_all \<Rightarrow> bool" where
  "taken n st st' \<longleftrightarrow> oa_quiet st' \<and> length (oa_outputs st') = length (oa_outputs st) \<and>
     oa_input_audio_format st' = oa_input_audio_format st \<and>
     oa_mp st' = map_option (\<lambda>(p, cs). (p, drop n cs)) (oa_mp st) \<and> n \<le> length (pipe_of (oa_mp st)) \<and>
     oa_removed st' = oa_removed st @ map pk_addr (take n (pipe_of (oa_mp st))) \<and>
     oa_returned st' = oa_returned st @ map pk_chunk (take n (pipe_of (oa_mp st))) \<and>
     oa_elapsed_time st' = elapsed_after (oa_elapsed_time st) (take n (pipe_of (oa_mp st))) \<and>
     grown st st' \<and> (\<forall>i < length (oa_outputs st). ao_open (get_ao i st') \<longrightarrow>
       pk_addr ` set (take n (pipe_of (oa_mp st))) \<subseteq> set (ao_given (get_ao i st')))"

lemma taken_0: "oa_quiet st \<Longrightarrow> turned st st' \<Longrightarrow> taken 0 st st'"
  using quiet_turned[of st st'] turned_grown[of st st']
  by (cases "oa_mp st") (auto simp: taken_def turned_def oa_same_def elapsed_after_def)

lemma taken_turned: "oa_quiet st \<Longrightarrow> turned st u \<Longrightarrow> taken n u v \<Longrightarrow> taken n st v"
  using grown_trans[OF turned_grown[of st u], of v] by (simp add: taken_def turned_def oa_same_def)

lemma grown_given:
  "grown u v \<Longrightarrow> i < length (oa_outputs u) \<Longrightarrow> ao_open (get_ao i v) \<Longrightarrow> (ao_open (get_ao i u) \<Longrightarrow> xs \<subseteq> set (ao_given (get_ao i u))) \<Longrightarrow>
    xs \<subseteq> set (ao_given (get_ao i v))"
  by (auto simp: grown_def dest!: set_mono_prefix)

lemma taken_Suc:
  assumes t: "taken 1 st u" "taken n u v" and m: "oa_mp st = Some (p, x # xs)"
  shows "taken (Suc n) st v"
proof -
  have g: "grown st v" using t grown_trans by (auto simp: taken_def)
  have "pk_addr x \<in> set (ao_given (get_ao i v))" if "i < length (oa_outputs st)" "ao_open (get_ao i v)" for i
    using grown_given[of u v i "{pk_addr x}"] t m that by (simp add: taken_def)
  then show ?thesis using t m g by (simp add: taken_def elapsed_after_def)
qed

lemma taken_held: "taken n st st' \<Longrightarrow> oa_held st' = oa_held st"
  by (cases "oa_mp st") (auto simp: taken_def oa_held_def map_append[symmetric] simp del: map_append)

text \<open>One chunk is taken out, whether it is the last one or not.\<close>

definition take_first :: "pipe_chunk \<Rightarrow> nat \<Rightarrow> output_all \<Rightarrow> output_all option" where
  "take_first c n st = do {
     let st = (if ck_length (pk_chunk c) > 0 \<and> ck_times (pk_chunk c) \<ge> 0
               then st\<lparr>oa_elapsed_time := ck_times (pk_chunk c)\<rparr> else st);
     st \<leftarrow> (if n = 1 then clear_tail_chunk (pk_addr c) st else Some st);
     (shifted, st) \<leftarrow> mp_Shift st;
     ensure (pk_addr shifted = pk_addr c);
     buffer_Return shifted st }"

lemma oa_quiet_elapsed: "oa_quiet (st\<lparr>oa_elapsed_time := t\<rparr>) = oa_quiet st"
  by (simp add: oa_quiet_def oa_ok_def ready_def get_ao_def)

lemma take_first_ok:
  assumes q: "oa_quiet st" and m: "oa_mp st = Some (p, x # xs)" and ps: "\<forall>i < length (oa_outputs st). passed (x # xs) (get_ao i st)"
  shows "\<exists>st'. take_first x (length (x # xs)) st = Some st' \<and> taken 1 st st'"
proof -
  define t where "t = elapsed_after (oa_elapsed_time st) [x]"
  define u where "u = st\<lparr>oa_elapsed_time := t\<rparr>"
  have ueq: "(if ck_length (pk_chunk x) > 0 \<and> ck_times (pk_chunk x) \<ge> 0 then st\<lparr>oa_elapsed_time := ck_times (pk_chunk x)\<rparr> else st) = u"
    by (simp add: u_def t_def elapsed_after_def)
  have uq: "oa_quiet u" using q by (simp add: u_def oa_quiet_elapsed)
  have um: "oa_mp u = Some (p, x # xs)" and gu: "\<And>i. get_ao i u = get_ao i st" "length (oa_outputs u) = length (oa_outputs st)"
    using m by (simp_all add: u_def get_ao_def)
  have good: "good_chunk (oa_input_audio_format u) x" and dist: "pk_addr x \<notin> pk_addr ` set xs"
    "distinct (map pk_addr xs)" "\<forall>k \<in> set xs. good_chunk (oa_input_audio_format u) k" "IsValid (oa_input_audio_format u)"
    using oa_ok_pipe[OF quiet_ok[OF uq]] um by (simp_all add: pipe_ok_def)
  have ret: "buffer_Return x s = Some (s\<lparr>oa_returned := oa_returned s @ [pk_chunk x]\<rparr>)" for s
    using good by (simp add: buffer_Return_def good_chunk_def)
  define fin where "fin s = s\<lparr>oa_mp := Some (p, xs), oa_removed := oa_removed s @ [pk_addr x], oa_returned := oa_returned s @ [pk_chunk x]\<rparr>" for s :: output_all
  have sh: "do { (shifted, st) \<leftarrow> mp_Shift s; ensure (pk_addr shifted = pk_addr x); buffer_Return shifted st } = Some (fin s)"
    if "oa_mp s = Some (p, x # xs)" for s
    using that good by (simp add: mp_Shift_def ret fin_def good_chunk_def)
  have quiet_fin: "oa_quiet (fin s)"
    if s: "oa_steady s" "oa_music_buffer s" "oa_input_audio_format s = oa_input_audio_format u"
      "\<And>i. i < length (oa_outputs s) \<Longrightarrow> ao_inv (oa_removed s @ [pk_addr x]) (oa_input_audio_format u) (Some (p, xs)) (get_ao i s) \<and>
         idle (get_ao i s) \<and> awake xs (get_ao i s)" for s
  proof (rule quietI)
    show "oa_ok (fin s)" using s dist by (auto simp: oa_ok_def fin_def pipe_ok_def get_ao_def)
    show "ready (fin s) (get_ao i (fin s))" if "i < length (oa_outputs (fin s))" for i
      using s(4)[of i] that by (simp add: ready_def fin_def get_ao_def)
  qed
  have base: "oa_steady u" "oa_music_buffer u" using quiet_ok[OF uq] um by (auto simp: oa_ok_def)
  show ?thesis
  proof (cases "xs = []")
    case False
    have "oa_quiet (fin u)"
    proof (rule quiet_fin[OF base])
      fix i assume i: "i < length (oa_outputs u)"
      have "ao_inv (oa_removed u) (oa_input_audio_format u) (Some (p, x # xs)) (get_ao i u)" "idle (get_ao i u)"
        "awake (x # xs) (get_ao i u)" "passed (x # xs) (get_ao i u)"
        using oa_ok_inv[OF quiet_ok[OF uq] i] quiet_ready[OF uq i] um ps i gu by (simp_all add: ready_def)
      then show "ao_inv (oa_removed u @ [pk_addr x]) (oa_input_audio_format u) (Some (p, xs)) (get_ao i u) \<and>
         idle (get_ao i u) \<and> awake xs (get_ao i u)" using shifted_inv shifted_awake False by blast
    qed simp
    moreover have "take_first x (length (x # xs)) st = Some (fin u)" using False sh[OF um] ueq by (simp add: take_first_def)
    moreover have "grown st (fin u)" by (simp add: grown_def fin_def u_def get_ao_def)
    moreover have "pk_addr x \<in> set (ao_given (get_ao i (fin u)))" if i: "i < length (oa_outputs st)" "ao_open (get_ao i (fin u))" for i
    proof -
      have e: "get_ao i (fin u) = get_ao i st" by (simp add: fin_def u_def get_ao_def)
      have "inv_in st (get_ao i st)" by (rule oa_ok_inv[OF quiet_ok[OF q] i(1)])
      then show ?thesis using passed_given ps i m e by metis
    qed
    ultimately show ?thesis using m by (simp add: taken_def fin_def u_def t_def)
  next
    case True
    have m1: "oa_mp u = Some (p, [x])" using um True by simp
    have "\<forall>i \<in> set (all_outputs u). passed [x] (get_ao i u)" using ps gu True by (simp add: all_outputs_len)
    then obtain h v where hv: "clear_tail (all_outputs u) (pk_addr x) [] u = Some (h, wipe (set h) v)" "turned u v"
      "\<forall>i < length (oa_outputs u). i \<in> set h \<or> \<not> ao_open (get_ao i v)"
      using clear_tail_ok[OF uq m1, of "all_outputs u" "[]"] by (auto simp: all_outputs_len wipe_none) (auto simp: all_outputs_def)
    have vq: "oa_quiet v" "oa_same u v" using quiet_turned[OF uq hv(2)] hv(2) by (auto simp: turned_def)
    have vm: "oa_mp (wipe (set h) v) = Some (p, x # xs)" "length (oa_outputs v) = length (oa_outputs u)"
      "oa_removed v = oa_removed u" "oa_input_audio_format v = oa_input_audio_format u" "oa_mp v = Some (p, [x])"
      using vq(2) um True by (simp_all add: oa_same_def)
    have "clear_tail_chunk (pk_addr x) u = Some (wipe (set h) v)" using hv(1) m1 by (simp add: clear_tail_chunk_def)
    then have "take_first x (length (x # xs)) st = Some (fin (wipe (set h) v))"
      using True sh[OF vm(1)] ueq by (simp add: take_first_def)
    moreover have "oa_quiet (fin (wipe (set h) v))"
    proof (rule quiet_fin)
      fix i assume "i < length (oa_outputs (wipe (set h) v))"
      then have i: "i < length (oa_outputs u)" "i < length (oa_outputs v)" using vm(2) by simp_all
      have "passed [x] (get_ao i v)"
        using passed_kept[of "get_ao i u" "oa_mp u"] quiet_idle[OF uq i(1)] turned_get[OF hv(2) i(1)] ps i gu True um by auto
      moreover have "ao_inv (oa_removed u) (oa_input_audio_format u) (Some (p, [x])) (get_ao i v)"
        using oa_ok_inv[OF quiet_ok[OF vq(1)] i(2)] vm by simp
      moreover have "get_ao i (wipe (set h) v) = (get_ao i v)\<lparr>ao_chunk := None\<rparr> \<or> get_ao i (wipe (set h) v) = get_ao i v \<and> \<not> ao_open (get_ao i v)"
        using get_wipe[OF i(2)] hv(3) i(1) by auto
      ultimately show "ao_inv (oa_removed (wipe (set h) v) @ [pk_addr x]) (oa_input_audio_format u) (Some (p, xs)) (get_ao i (wipe (set h) v)) \<and>
         idle (get_ao i (wipe (set h) v)) \<and> awake xs (get_ao i (wipe (set h) v))"
        using emptied_inv[OF _ quiet_idle[OF vq(1) i(2)]] True vm(3) by simp
    qed (use base vq(2) in \<open>simp_all add: oa_same_def\<close>)
    moreover have gv: "ao_given (get_ao i (fin (wipe (set h) v))) = ao_given (get_ao i v)"
      "ao_open (get_ao i (fin (wipe (set h) v))) = ao_open (get_ao i v)" if "i < length (oa_outputs v)" for i
      using get_wipe[OF that, of "set h"] by (auto simp: fin_def get_ao_def)
    moreover have "grown st (fin (wipe (set h) v))"
      using turned_grown[OF uq hv(2)] gv vm(2) gu by (simp add: grown_def) (simp add: fin_def)
    moreover have "pk_addr x \<in> set (ao_given (get_ao i (fin (wipe (set h) v))))"
      if i: "i < length (oa_outputs st)" "ao_open (get_ao i (fin (wipe (set h) v)))" for i
    proof -
      have iv: "i < length (oa_outputs v)" using i(1) vm(2) gu by simp
      have "ao_inv (oa_removed u) (oa_input_audio_format u) (Some (p, x # xs)) (get_ao i u)"
        using oa_ok_inv[OF quiet_ok[OF uq], of i] um i(1) gu by simp
      then have "ao_open (get_ao i u) \<Longrightarrow> pk_addr x \<in> set (ao_given (get_ao i u))" using passed_given ps i(1) gu by metis
      then show ?thesis using grown_given[OF turned_grown[OF uq hv(2)], of i "{pk_addr x}"] gv[OF iv] i gu by simp
    qed
    ultimately show ?thesis using m True vq(2) by (simp add: taken_def fin_def oa_same_def u_def t_def)
  qed
qed

section \<open>The check\<close>

lemma check_loop_ok:
  "oa_quiet st \<Longrightarrow> oa_mp st = Some (p, cs) \<Longrightarrow> length cs < fuel \<Longrightarrow>
    \<exists>n st'. check_loop fuel st = Some (length cs - n, st') \<and> taken n st st'"
proof (induction fuel arbitrary: st cs)
  case (Suc fuel)
  show ?case
  proof (cases cs)
    case Nil
    then show ?thesis using Suc.prems taken_0[OF _ turned_refl[OF quiet_ok], of st] by (auto intro!: exI[of _ 0])
  next
    case (Cons x xs)
    obtain b u where u: "consumed_by (all_outputs st) (pk_addr x) st = Some (b, u)" "turned st u"
      "b \<longrightarrow> (\<forall>i \<in> set (all_outputs st). passed (x # xs) (get_ao i u))"
      using consumed_by_ok[OF Suc.prems(1), of p x xs "all_outputs st"] Suc.prems(2) Cons by (auto simp: all_outputs_len)
    have uq: "oa_quiet u" "oa_same st u" "oa_mp u = Some (p, x # xs)" "length (oa_outputs u) = length (oa_outputs st)"
      using quiet_turned[OF Suc.prems(1) u(2)] u(2) Suc.prems(2) Cons by (simp_all add: turned_def oa_same_def)
    show ?thesis
    proof (cases b)
      case False
      then have "check_loop (Suc fuel) st = Some (length cs, u)" using u(1) Suc.prems(2) Cons by (simp add: chunk_is_consumed_def)
      then show ?thesis using taken_0[OF Suc.prems(1) u(2)] by (auto intro!: exI[of _ 0])
    next
      case True
      have "\<forall>i < length (oa_outputs u). passed (x # xs) (get_ao i u)" using u(3) True uq(4) by (simp add: all_outputs_len)
      then obtain v where v: "take_first x (length (x # xs)) u = Some v" "taken 1 u v" using take_first_ok[OF uq(1,3)] by blast
      have vm: "oa_mp v = Some (p, xs)" "oa_quiet v" using v(2) uq(3) by (simp_all add: taken_def)
      have "length xs < fuel" using Suc.prems(3) Cons by simp
      from Suc.IH[OF vm(2,1) this] obtain n w where w: "check_loop fuel v = Some (length xs - n, w)" "taken n v w" by blast
      have "check_loop (Suc fuel) st = do { st \<leftarrow> take_first x (length (x # xs)) u; check_loop fuel st }"
        using u(1) True Suc.prems(2) Cons by (simp add: chunk_is_consumed_def take_first_def Let_def split_def)
      then have "check_loop (Suc fuel) st = Some (length cs - Suc n, w)" using v(1) w(1) Cons by simp
      moreover have "taken (Suc n) st w" by (rule taken_turned[OF Suc.prems(1) u(2) taken_Suc[OF v(2) w(2) uq(3)]])
      ultimately show ?thesis by blast
    qed
  qed
qed simp

text \<open>A check returns the number of chunks that are still to be played.\<close>

lemma audio_output_all_check_ok:
  assumes q: "oa_quiet st" and m: "oa_mp st \<noteq> None"
  shows "\<exists>n st'. audio_output_all_check st = Some (length (pipe_of (oa_mp st')), st') \<and> taken n st st'"
proof -
  obtain p cs where c: "oa_mp st = Some (p, cs)" using m by auto
  obtain n st' where s: "check_loop (Suc (length cs)) st = Some (length cs - n, st')" "taken n st st'"
    using check_loop_ok[OF q c] by blast
  have "oa_music_buffer st" using quiet_ok[OF q] c by (auto simp: oa_ok_def)
  moreover have "length (pipe_of (oa_mp st')) = length cs - n" using s(2) c by (simp add: taken_def)
  ultimately show ?thesis using s c by (auto simp: audio_output_all_check_def)
qed

lemma taken_trans:
  assumes a: "taken n st u" "taken k u v"
  shows "taken (n + k) st v"
proof -
  have t: "take (n + k) b = take n b @ take k (drop n b)" "drop k (drop n b) = drop (n + k) b" for b :: "pipe_chunk list"
    by (rule take_add) (simp add: add.commute)
  have g: "grown st v" using a grown_trans by (auto simp: taken_def)
  have first: "pk_addr ` set (take n (pipe_of (oa_mp st))) \<subseteq> set (ao_given (get_ao i v))"
    if "i < length (oa_outputs st)" "ao_open (get_ao i v)" for i
    using grown_given[of u v i] a that by (simp add: taken_def)
  show ?thesis
  proof (cases "oa_mp st")
    case None
    then show ?thesis using a g by (simp add: taken_def elapsed_after_def)
  next
    case (Some x)
    obtain p cs where c: "oa_mp st = Some (p, cs)" using Some by (cases x) auto
    then have "k \<le> length cs - n" "n \<le> length cs" using a by (simp_all add: taken_def)
    then show ?thesis using a c g first by (simp add: taken_def elapsed_after_def t image_Un del: drop_drop)
  qed
qed

lemma audio_output_all_wait_ok:
  assumes q: "oa_quiet st" and m: "oa_mp st \<noteq> None"
  shows "\<exists>n st'. audio_output_all_wait t st = Some (length (pipe_of (oa_mp st')) < t, st') \<and> taken n st st'"
proof -
  obtain n u where u: "audio_output_all_check st = Some (length (pipe_of (oa_mp u)), u)" "taken n st u"
    using audio_output_all_check_ok[OF q m] by blast
  show ?thesis
  proof (cases "length (pipe_of (oa_mp u)) < t")
    case True
    then show ?thesis using u by (auto simp: audio_output_all_wait_def)
  next
    case False
    have uq: "oa_quiet u" using u(2) by (simp add: taken_def)
    obtain v where v: "oa_sleep u = Some v" "turned u v" using oa_sleep_ok[OF quiet_ok[OF uq]] by blast
    have vq: "oa_quiet v" "oa_same u v" using quiet_turned[OF uq v(2)] v(2) by (auto simp: turned_def)
    have "oa_mp u \<noteq> None" using u(2) m by (simp add: taken_def)
    then have "oa_mp v \<noteq> None" using vq(2) by (simp add: oa_same_def)
    then obtain k w where w: "audio_output_all_check v = Some (length (pipe_of (oa_mp w)), w)" "taken k v w"
      using audio_output_all_check_ok[OF vq(1)] by blast
    have "taken (n + k) st w" by (rule taken_trans[OF u(2) taken_turned[OF uq v(2) w(2)]])
    then show ?thesis using u(1) False v(1) w(1) by (auto simp: audio_output_all_wait_def)
  qed
qed

end
