(* ===== verification/Output_System.thy ===== *)
theory Output_System
  imports Output_Check
begin

text \<open>
  The outputs under any sequence of calls the player may make, and what one thread does when its
  device is willing.
\<close>

section \<open>The calls of the player\<close>

datatype output_call =
  CALL_OPEN AudioFormat | CALL_PLAY pipe_chunk | CALL_CHECK | CALL_WAIT nat | CALL_PAUSE | CALL_DRAIN | CALL_CANCEL |
  CALL_CLOSE | CALL_RELEASE | CALL_SONG_BORDER | CALL_ENABLE_DISABLE | CALL_SWITCH nat bool

fun oa_call :: "output_call \<Rightarrow> output_all \<Rightarrow> output_all option" where
  "oa_call (CALL_OPEN af) st = map_option snd (audio_output_all_open af st)"
| "oa_call (CALL_PLAY k) st = map_option snd (audio_output_all_play k st)"
| "oa_call CALL_CHECK st = map_option snd (audio_output_all_check st)"
| "oa_call (CALL_WAIT t) st = map_option snd (audio_output_all_wait t st)"
| "oa_call CALL_PAUSE st = audio_output_all_pause st"
| "oa_call CALL_DRAIN st = audio_output_all_drain st"
| "oa_call CALL_CANCEL st = audio_output_all_cancel st"
| "oa_call CALL_CLOSE st = audio_output_all_close st"
| "oa_call CALL_RELEASE st = audio_output_all_release st"
| "oa_call CALL_SONG_BORDER st = Some (audio_output_all_song_border st)"
| "oa_call CALL_ENABLE_DISABLE st = audio_output_all_enable_disable st"
| "oa_call (CALL_SWITCH i b) st =
     Some (if i < length (oa_outputs st) then put_ao i ((get_ao i st)\<lparr>ao_enabled := b\<rparr>) st else st)"

text \<open>
  What the player sees to: the format is valid, and it is a new one only while the pipe is empty;
  a chunk fits the format and is not in the pipe yet; the outputs are checked, paused and played on
  only while they have a pipe, and drained when it is empty.
\<close>

fun oa_legal :: "output_call \<Rightarrow> output_all \<Rightarrow> bool" where
  "oa_legal (CALL_OPEN af) st \<longleftrightarrow> IsValid af \<and> (pipe_of (oa_mp st) = [] \<or> af = oa_input_audio_format st)"
| "oa_legal (CALL_PLAY k) st \<longleftrightarrow> oa_mp st \<noteq> None \<and> good_chunk (oa_input_audio_format st) k \<and>
     pk_addr k \<notin> pk_addr ` set (pipe_of (oa_mp st))"
| "oa_legal CALL_CHECK st \<longleftrightarrow> oa_mp st \<noteq> None"
| "oa_legal (CALL_WAIT t) st \<longleftrightarrow> oa_mp st \<noteq> None"
| "oa_legal CALL_PAUSE st \<longleftrightarrow> oa_mp st \<noteq> None"
| "oa_legal CALL_DRAIN st \<longleftrightarrow> pipe_of (oa_mp st) = []"
| "oa_legal _ st \<longleftrightarrow> True"

inductive oa_runs :: "output_all \<Rightarrow> output_all \<Rightarrow> bool" for st where
  start: "oa_runs st st"
| call: "oa_runs st u \<Longrightarrow> oa_legal c u \<Longrightarrow> oa_call c u = Some v \<Longrightarrow> oa_runs st v"

inductive_cases oa_runs_cases: "oa_runs st u"

text \<open>
  The outputs of a configuration: none is always on, and a plugin that can disable its device can
  also enable it.
\<close>

definition new_outputs :: "audio_output list \<Rightarrow> bool" where
  "new_outputs outputs \<longleftrightarrow> (\<forall>a \<in> set outputs. \<exists>has_enable has_disable has_mixer enabled config unset.
     (has_disable \<longrightarrow> has_enable) \<and> a = ao_base_init has_enable has_disable has_mixer False enabled config unset)"

abbreviation outputs_of :: "audio_output list \<Rightarrow> turn list \<Rightarrow> output_all \<Rightarrow> bool" where
  "outputs_of outputs tape \<equiv> oa_runs (audio_output_all_init outputs tape True)"

lemma base_init_inv: "(has_disable \<longrightarrow> has_enable) \<Longrightarrow>
    ao_inv [] af None (ao_base_init has_enable has_disable has_mixer False enabled config unset) \<and>
    ready st (ao_base_init has_enable has_disable has_mixer False enabled config unset)"
  by (simp add: ao_base_init_def ao_inv_def open_ok_def enable_ok_def cmd_ok_def given_ok_def ready_def idle_def awake_def)

lemma init_quiet:
  assumes "new_outputs outputs"
  shows "oa_quiet (audio_output_all_init outputs tape True)"
proof -
  let ?st = "audio_output_all_init outputs tape True"
  have each: "ao_inv [] AudioFormat_Undefined None (get_ao i ?st) \<and> ready ?st (get_ao i ?st)" if "i < length outputs" for i
  proof -
    have "outputs ! i \<in> set outputs" using that by simp
    moreover have "get_ao i ?st = outputs ! i" by (simp add: get_ao_def audio_output_all_init_def)
    ultimately show ?thesis using assms base_init_inv by (fastforce simp: new_outputs_def)
  qed
  have "\<not> IsDefined AudioFormat_Undefined" by (simp add: IsDefined_def AudioFormat_Undefined_def)
  then show ?thesis using each by (auto simp: oa_quiet_def oa_ok_def audio_output_all_init_def pipe_ok_def get_ao_def)
qed

section \<open>Progress and preservation\<close>

text \<open>Every chunk that was played is held; only playing adds one.\<close>

definition holds :: "output_call \<Rightarrow> output_all \<Rightarrow> output_all \<Rightarrow> bool" where
  "holds c st st' \<longleftrightarrow> oa_held st' = oa_held st \<or> (\<exists>k. c = CALL_PLAY k \<and> oa_held st' = oa_held st @ [pk_chunk k])"

lemma held_none: "oa_mp st' = None \<Longrightarrow> oa_returned st' = oa_held st \<Longrightarrow> oa_held st' = oa_held st"
  by (simp add: oa_held_def)

lemma oa_call_ok:
  assumes q: "oa_quiet st" and l: "oa_legal c st"
  shows "\<exists>st'. oa_call c st = Some st' \<and> oa_quiet st' \<and> holds c st st' \<and> length (oa_outputs st') = length (oa_outputs st)"
proof (cases c)
  case (CALL_OPEN af)
  then have "IsValid af" "pipe_of (oa_mp st) = [] \<or> af = oa_input_audio_format st" using l by simp_all
  from audio_output_all_open_ok[OF q this] obtain ret st' where o: "audio_output_all_open af st = Some (ret, st')" "oa_quiet st'"
    "length (oa_outputs st') = length (oa_outputs st)" "ret \<Longrightarrow> pipe_of (oa_mp st') = pipe_of (oa_mp st) \<and> oa_returned st' = oa_returned st"
    "\<not> ret \<Longrightarrow> oa_mp st' = None \<and> oa_returned st' = oa_held st" by (metis (full_types))
  then show ?thesis using CALL_OPEN held_none by (cases ret) (auto simp: holds_def oa_held_def)
next
  case (CALL_PLAY k)
  then obtain p cs where m: "oa_mp st = Some (p, cs)" "good_chunk (oa_input_audio_format st) k" "pk_addr k \<notin> pk_addr ` set cs"
    using l by auto
  from audio_output_all_play_ok[OF q m] obtain ret st' where "audio_output_all_play k st = Some (ret, st')" "oa_quiet st'"
    "length (oa_outputs st') = length (oa_outputs st)" "oa_returned st' = oa_returned st" "oa_mp st' = Some (p, if ret then cs @ [k] else cs)"
    by blast
  then show ?thesis using CALL_PLAY m(1) by (cases ret) (auto simp: holds_def oa_held_def)
next
  case CALL_CHECK
  then obtain n st' where "audio_output_all_check st = Some (length (pipe_of (oa_mp st')), st')" "taken n st st'"
    using audio_output_all_check_ok[OF q] l by auto
  then show ?thesis using CALL_CHECK taken_held[of n st st'] by (simp add: taken_def holds_def)
next
  case (CALL_WAIT t)
  then obtain n st' where "audio_output_all_wait t st = Some (length (pipe_of (oa_mp st')) < t, st')" "taken n st st'"
    using audio_output_all_wait_ok[OF q, of t] l by auto
  then show ?thesis using CALL_WAIT taken_held[of n st st'] by (simp add: taken_def holds_def)
next
  case CALL_PAUSE
  then obtain st' where "audio_output_all_pause st = Some st'" "oa_quiet st'" "oa_same st st'" using audio_output_all_pause_ok[OF q] l by auto
  then show ?thesis using CALL_PAUSE held_same[of st st'] by (simp add: holds_def oa_same_def)
next
  case CALL_DRAIN
  then obtain st' where "audio_output_all_drain st = Some st'" "oa_quiet st'" "oa_same st st'" using audio_output_all_drain_ok[OF q] l by auto
  then show ?thesis using CALL_DRAIN held_same[of st st'] by (simp add: holds_def oa_same_def)
next
  case CALL_CANCEL
  obtain st' where "audio_output_all_cancel st = Some st'" "oa_quiet st'" "length (oa_outputs st') = length (oa_outputs st)"
    "oa_mp st' = map_option (\<lambda>(p, cs). (p, [])) (oa_mp st)" "oa_returned st' = oa_held st"
    using audio_output_all_cancel_ok[OF q] by blast
  moreover then have "oa_held st' = oa_held st" by (cases "oa_mp st") (auto simp: oa_held_def)
  ultimately show ?thesis using CALL_CANCEL by (simp add: holds_def)
next
  case CALL_CLOSE
  obtain st' where "audio_output_all_close st = Some st'" "oa_quiet st'" "oa_mp st' = None" "oa_returned st' = oa_held st"
    "length (oa_outputs st') = length (oa_outputs st)" using audio_output_all_close_ok[OF q] by blast
  then show ?thesis using CALL_CLOSE held_none[of st' st] by (simp add: holds_def)
next
  case CALL_RELEASE
  obtain st' where "audio_output_all_release st = Some st'" "oa_quiet st'" "oa_mp st' = None" "oa_returned st' = oa_held st"
    "length (oa_outputs st') = length (oa_outputs st)" using audio_output_all_release_ok[OF q] by blast
  then show ?thesis using CALL_RELEASE held_none[of st' st] by (simp add: holds_def)
next
  case CALL_SONG_BORDER
  then show ?thesis using song_border_ok[OF q] by (simp add: holds_def oa_held_def audio_output_all_song_border_def)
next
  case CALL_ENABLE_DISABLE
  then obtain st' where "audio_output_all_enable_disable st = Some st'" "oa_quiet st'" "oa_same st st'" using audio_output_all_enable_disable_ok[OF q] by auto
  then show ?thesis using CALL_ENABLE_DISABLE held_same[of st st'] by (simp add: holds_def oa_same_def)
next
  case (CALL_SWITCH i b)
  then show ?thesis using enabled_quiet[OF q, of i b] q by (simp add: holds_def oa_held_def put_ao_def)
qed

lemma oa_runs_quiet: "oa_runs st u \<Longrightarrow> oa_quiet st \<Longrightarrow> oa_quiet u"
proof (induction rule: oa_runs.induct)
  case (call u c v)
  then show ?case using oa_call_ok[of u c] by auto
qed

lemma outputs_quiet: "new_outputs outputs \<Longrightarrow> outputs_of outputs tape st \<Longrightarrow> oa_quiet st"
  using oa_runs_quiet init_quiet by blast

lemma oa_runs_trans: "oa_runs st u \<Longrightarrow> oa_legal c u \<Longrightarrow> oa_call c u = Some v \<Longrightarrow> oa_runs v w \<Longrightarrow> oa_runs st w"
  by (rotate_tac 3, induction rule: oa_runs.induct) (auto intro: oa_runs.intros)

section \<open>A thread with a willing device\<close>

text \<open>How many chunks the thread has not begun.\<close>

definition chunks_left :: "pipe_chunk list \<Rightarrow> nat option \<Rightarrow> nat" where
  "chunks_left cs c = (case c of None \<Rightarrow> length cs | Some c \<Rightarrow> length (dropWhile (\<lambda>k. pk_addr k \<noteq> c) cs) - 1)"

lemma next_left:
  "distinct (map pk_addr cs) \<Longrightarrow> next_chunk cs c = Some (Some d) \<Longrightarrow> Suc (chunks_left cs (Some d)) = chunks_left cs (Some c)"
proof (induction cs)
  case (Cons x xs)
  have sub: "next_chunk ys c = Some (Some d) \<Longrightarrow> d \<in> pk_addr ` set ys" for ys
    by (induction ys) (auto split: if_splits list.splits)
  show ?case
  proof (cases "pk_addr x = c")
    case True
    then obtain y ys where "xs = y # ys" "d = pk_addr y" using Cons.prems(2) by (cases xs) auto
    then show ?thesis using True Cons.prems(1) by (auto simp: chunks_left_def)
  next
    case False
    then have "next_chunk xs c = Some (Some d)" using Cons.prems(2) by simp
    moreover then have "pk_addr x \<noteq> d" using Cons.prems(1) sub[of xs] by auto
    ultimately show ?thesis using False Cons by (simp add: chunks_left_def)
  qed
qed simp

lemma first_left: "Suc (chunks_left (x # xs) (Some (pk_addr x))) = chunks_left (x # xs) None"
  by (simp add: chunks_left_def)

lemma next_last: "distinct (map pk_addr cs) \<Longrightarrow> next_chunk cs c = Some None \<Longrightarrow> cs \<noteq> [] \<and> c = pk_addr (last cs)"
  by (induction cs) (auto split: if_splits list.splits)

fun play_out :: "nat \<Rightarrow> output_pipe \<Rightarrow> audio_output \<Rightarrow> audio_output option" where
  "play_out 0 mp a = Some a"
| "play_out (Suc n) mp a = do { a \<leftarrow> ao_step good_device mp a; play_out n mp a }"

fun to_do :: "pipe_chunk list \<Rightarrow> audio_output \<Rightarrow> ao_place \<Rightarrow> nat" where
  "to_do cs a (AT_WAIT False) = 0"
| "to_do cs a (AT_WAIT True) = 2 * chunks_left cs (ao_chunk a) + 3"
| "to_do cs a (AT_CHUNK c) = 2 * chunks_left cs (ao_chunk a) + 3"
| "to_do cs a _ = 2 * chunks_left cs (ao_chunk a) + 2"

text \<open>A thread that may play and is not paused.\<close>

definition at_work :: "nat list \<Rightarrow> AudioFormat \<Rightarrow> output_pipe \<Rightarrow> audio_output \<Rightarrow> bool" where
  "at_work r af mp a \<longleftrightarrow> ao_inv r af mp a \<and> idle a \<and> awake (pipe_of mp) a \<and> ao_open a \<and> \<not> ao_paused a"

lemma next_some: "distinct (map pk_addr cs) \<Longrightarrow> given_ok r cs a \<Longrightarrow> ao_chunk a = Some c \<Longrightarrow> \<exists>n. next_chunk cs c = Some n"
  using next_given by blast

lemma good_answer: "answer True a good_device = good_device"
  by (simp add: answer_def good_device_def)

lemma work_rest:
  assumes w: "at_work r af mp a" and p: "pipe_ok af mp" and at: "ao_at a = AT_TOP \<or> ao_at a = AT_PLAY"
  shows "\<exists>a'. ao_rest mp a = Some a' \<and> to_do (pipe_of mp) a' (ao_at a') < to_do (pipe_of mp) a (ao_at a) \<and>
    ao_open a' \<and> \<not> ao_paused a'"
proof -
  have i: "ao_inv r af mp a" "ao_open a" "ao_command a = AO_COMMAND_NONE" "ao_allow_play a" "\<not> ao_paused a"
    using w by (auto simp: at_work_def idle_def)
  have dist: "distinct (map pk_addr (pipe_of mp))" using p by (simp add: pipe_ok_def)
  obtain n where n: "ao_next_chunk mp a = Some n" using ao_next_chunk_ok[OF i(1) p i(2)] by blast
  show ?thesis
  proof (cases n)
    case None
    then show ?thesis using n i at by (auto simp: ao_rest_def)
  next
    case (Some d)
    have left: "Suc (chunks_left (pipe_of mp) (Some d)) = chunks_left (pipe_of mp) (ao_chunk a)"
    proof (cases "ao_chunk a")
      case None
      obtain q cs where q: "mp = Some (q, cs)" using n by (auto simp: ao_next_chunk_def bind_eq_Some_conv)
      then obtain x xs where "mp = Some (q, x # xs)" "d = pk_addr x"
        using n Some None by (cases cs) (auto simp: ao_next_chunk_def bind_eq_Some_conv)
      then show ?thesis using None first_left[of x xs] by simp
    next
      case c: (Some c)
      then have "next_chunk (pipe_of mp) c = Some (Some d)" using n Some by (auto simp: ao_next_chunk_def bind_eq_Some_conv)
      then show ?thesis using next_left[OF dist] c by simp
    qed
    have "\<not> ao_in_playback_loop a" using i(1) at by (auto simp: ao_inv_def)
    then have "ao_rest mp a = Some (a\<lparr>ao_chunk_finished := False, ao_in_playback_loop := True, ao_chunk := Some d,
      ao_at := AT_CHUNK d, ao_given := ao_given a @ [d]\<rparr>)" using n Some i by (simp add: ao_rest_def play_next_def)
    then show ?thesis using left i at by auto
  qed
qed

lemma work_chunk:
  assumes w: "at_work r af mp a" and p: "pipe_ok af mp" and at: "ao_at a = AT_CHUNK c"
  shows "\<forall>a'. ao_play_chunk good_device mp c a = Some a' \<longrightarrow> to_do (pipe_of mp) a' (ao_at a') < to_do (pipe_of mp) a (ao_at a) \<and>
    ao_open a' \<and> \<not> ao_paused a'"
proof (intro allI impI)
  fix a' assume s: "ao_play_chunk good_device mp c a = Some a'"
  have i: "ao_open a" "ao_chunk a = Some c" "ao_command a = AO_COMMAND_NONE" "\<not> ao_paused a"
    using w at by (auto simp: at_work_def idle_def ao_inv_def)
  have dist: "distinct (map pk_addr (pipe_of mp))" using p by (simp add: pipe_ok_def)
  obtain n where n: "next_chunk (pipe_of mp) c = Some n" "play_next n a = Some a'"
    using s i(3) by (auto simp: ao_play_chunk_def good_device_def bind_eq_Some_conv Let_def split: if_splits)
  show "to_do (pipe_of mp) a' (ao_at a') < to_do (pipe_of mp) a (ao_at a) \<and> ao_open a' \<and> \<not> ao_paused a'"
  proof (cases n)
    case None
    then show ?thesis using n(2) i at by (auto simp: play_next_def)
  next
    case (Some d)
    then have "Suc (chunks_left (pipe_of mp) (Some d)) = chunks_left (pipe_of mp) (Some c)" using next_left[OF dist] n(1) by simp
    then show ?thesis using n(2) i at Some by (auto simp: play_next_def bind_eq_Some_conv)
  qed
qed

text \<open>A step of a thread at work, until it sleeps.\<close>

lemma work_step:
  assumes w: "at_work r af mp a" and p: "pipe_ok af mp" and at: "ao_at a \<noteq> AT_WAIT False"
  shows "\<exists>a'. ao_step good_device mp a = Some a' \<and> at_work r af mp a' \<and> evolves r af mp a a' \<and>
    to_do (pipe_of mp) a' (ao_at a') < to_do (pipe_of mp) a (ao_at a)"
proof -
  have i: "ao_inv r af mp a" "idle a" "ao_open a" "\<not> ao_paused a" "ao_thread a"
    using w open_thread[of r af mp a] by (auto simp: at_work_def)
  obtain a' where s: "ao_step good_device mp a = Some a'" "evolves r af mp a a'"
    using ao_step_ok[OF i(1) p, of good_device] good_answer by auto
  have c: "ao_command a = AO_COMMAND_NONE" using i(2) by (simp add: idle_def)
  have "to_do (pipe_of mp) a' (ao_at a') < to_do (pipe_of mp) a (ao_at a) \<and> ao_open a' \<and> \<not> ao_paused a'"
  proof (cases "ao_at a")
    case AT_TOP
    then show ?thesis using work_rest[OF w p] s(1) i(5) c by (auto simp: ao_step_def ao_dispatch_def)
  next
    case AT_PLAY
    then show ?thesis using work_rest[OF w p] s(1) i(5) by (auto simp: ao_step_def)
  next
    case (AT_CHUNK x)
    then show ?thesis using work_chunk[OF w p AT_CHUNK] s(1) i(5) by (simp add: ao_step_def)
  next
    case AT_PAUSED
    then show ?thesis using i(1,4) by (simp add: ao_inv_def)
  next
    case (AT_WAIT b)
    then have "b" using at by (cases b) auto
    then show ?thesis using AT_WAIT s(1) i by (auto simp: ao_step_def)
  next
    case AT_END
    then show ?thesis using i(1) by (simp add: ao_inv_def)
  qed
  moreover have "ao_inv r af mp a'" "awake (pipe_of mp) a'" using s(2) w by (auto simp: evolves_def at_work_def)
  ultimately show ?thesis using s idle_kept[OF i(2) s(2)] by (auto simp: at_work_def)
qed

lemma asleep_stays: "ao_thread a \<Longrightarrow> ao_at a = AT_WAIT False \<Longrightarrow> play_out n mp a = Some a"
  by (induction n) (simp_all add: ao_step_def)

lemma work_done:
  "at_work r af mp a \<Longrightarrow> pipe_ok af mp \<Longrightarrow> to_do (pipe_of mp) a (ao_at a) \<le> n \<Longrightarrow>
    \<exists>a'. play_out n mp a = Some a' \<and> at_work r af mp a' \<and> evolves r af mp a a' \<and> ao_at a' = AT_WAIT False"
proof (induction n arbitrary: a)
  case 0
  have "ao_at a = AT_WAIT False"
    using "0.prems"(3) by (cases "(pipe_of mp, a, ao_at a)" rule: to_do.cases) auto
  then show ?case using 0 evolves_refl by (auto simp: at_work_def)
next
  case (Suc n)
  show ?case
  proof (cases "ao_at a = AT_WAIT False")
    case True
    then show ?thesis using asleep_stays[of a "Suc n" mp] Suc.prems open_thread[of r af mp a] evolves_refl by (auto simp: at_work_def)
  next
    case False
    from work_step[OF Suc.prems(1,2) this] obtain b where b: "ao_step good_device mp a = Some b" "at_work r af mp b" "evolves r af mp a b"
      "to_do (pipe_of mp) b (ao_at b) < to_do (pipe_of mp) a (ao_at a)" by blast
    obtain c where "play_out n mp b = Some c" "at_work r af mp c" "evolves r af mp b c" "ao_at c = AT_WAIT False"
      using Suc.IH[OF b(2) Suc.prems(2)] b(4) Suc.prems(3) by auto
    then show ?thesis using b(1) evolves_trans[OF b(3)] by auto
  qed
qed

lemma to_do_bound: "to_do cs a p \<le> 2 * length cs + 3"
proof -
  have "chunks_left cs c \<le> length cs" for c
    by (cases c) (auto simp: chunks_left_def intro: le_trans[OF _ length_dropWhile_le] diff_le_self le_trans)
  then show ?thesis by (cases "(cs, a, p)" rule: to_do.cases) (auto simp: mult_le_mono2 intro!: add_mono le_SucI)
qed

text \<open>When the thread sleeps, its device has been given every chunk of the pipe.\<close>

lemma all_given:
  assumes w: "at_work r af mp a" and p: "pipe_ok af mp" and at: "ao_at a = AT_WAIT False"
  shows "(if pipe_of mp = [] then ao_chunk a = None else ao_chunk a = Some (pk_addr (last (pipe_of mp))) \<and> ao_chunk_finished a) \<and>
    suffix (ao_given a) (r @ map pk_addr (pipe_of mp)) \<and> length (pipe_of mp) \<le> length (ao_given a)"
proof -
  let ?cs = "pipe_of mp"
  have i: "given_ok r ?cs a" "ao_chunk a \<noteq> None \<longrightarrow> ao_chunk_finished a" using w at by (auto simp: at_work_def ao_inv_def)
  have aw: "case ao_chunk a of None \<Rightarrow> ?cs = [] | Some c \<Rightarrow> next_chunk ?cs c = Some None"
    using w at by (simp add: at_work_def awake_def idle_def)
  have dist: "distinct (map pk_addr ?cs)" using p by (simp add: pipe_ok_def)
  show ?thesis
  proof (cases "ao_chunk a")
    case None
    then show ?thesis using aw i(1) by (simp add: given_ok_def)
  next
    case (Some c)
    then have l: "?cs \<noteq> []" "c = pk_addr (last ?cs)" using next_last[OF dist] aw by auto
    obtain k where k: "k < length ?cs" "pk_addr (?cs ! k) = c" "k < length (ao_given a)"
      "suffix (ao_given a) (r @ map pk_addr (take (Suc k) ?cs))" using i(1) Some by (auto simp: given_ok_def)
    have "k = length ?cs - 1"
      using dist k(1,2) l nth_eq_iff_index_eq[OF dist, of k "length ?cs - 1"] by (simp add: last_conv_nth)
    then have "Suc k = length ?cs" using l(1) by (cases ?cs) auto
    then show ?thesis using l Some i(2) k(3,4) by simp
  qed
qed

end
