(* ===== verification/Output_Properties.thy ===== *)
theory Output_Properties
  imports Output_System
begin

text \<open>
  What the output layer guarantees, and what it does not, with concrete instances.
\<close>

section \<open>A small instance\<close>

definition demo_format :: AudioFormat where
  "demo_format = \<lparr>af_sample_rate = 44100, af_format = SF_S16, af_channels = 2\<rparr>"

definition demo_device :: device where
  "demo_device = \<lparr>dv_enable = True, dv_filter = demo_format, dv_open = True, dv_format = demo_format,
     dv_filtered = True, dv_running = True, dv_taken = True\<rparr>"

definition demo_turn :: "nat \<Rightarrow> turn" where
  "demo_turn n = \<lparr>tn_steps = replicate n (0, demo_device), tn_elapsed = 0\<rparr>"

definition demo_outputs :: "audio_output list" where
  "demo_outputs = [ao_base_init False False False False True AudioFormat_Undefined AudioFormat_Undefined]"

definition demo_tape :: "turn list" where
  "demo_tape = [demo_turn 0, demo_turn 0, demo_turn 0, demo_turn 1]"

definition demo_chunk :: "nat \<Rightarrow> pipe_chunk" where
  "demo_chunk n = \<lparr>pk_addr = n, pk_chunk = music_chunk 4 0 1 None 0 None, pk_format = demo_format\<rparr>"

definition demo_init :: output_all where
  "demo_init = audio_output_all_init demo_outputs demo_tape True"

definition demo_opened :: output_all where
  "demo_opened = the (oa_call (CALL_OPEN demo_format) demo_init)"

definition demo_played :: output_all where
  "demo_played = the (oa_call (CALL_PLAY (demo_chunk 7)) demo_opened)"

lemma demo_new: "new_outputs demo_outputs"
  unfolding new_outputs_def demo_outputs_def by simp blast

lemma demo_calls:
  "oa_legal (CALL_OPEN demo_format) demo_init \<and> oa_call (CALL_OPEN demo_format) demo_init \<noteq> None"
  "oa_legal (CALL_PLAY (demo_chunk 7)) demo_opened \<and> oa_call (CALL_PLAY (demo_chunk 7)) demo_opened \<noteq> None"
  by code_simp+

lemma demo_runs: "outputs_of demo_outputs demo_tape demo_opened" "outputs_of demo_outputs demo_tape demo_played"
proof -
  have i: "outputs_of demo_outputs demo_tape demo_init" unfolding demo_init_def by (rule oa_runs.start)
  show o: "outputs_of demo_outputs demo_tape demo_opened"
    by (rule oa_runs.call[OF i, of "CALL_OPEN demo_format"]) (use demo_calls(1) in \<open>auto simp: demo_opened_def\<close>)
  show "outputs_of demo_outputs demo_tape demo_played"
    by (rule oa_runs.call[OF o, of "CALL_PLAY (demo_chunk 7)"]) (use demo_calls(2) in \<open>auto simp: demo_played_def\<close>)
qed

section \<open>Safety\<close>



text \<open>
  C6: no chunk is lost, returned twice or reordered.  The chunks that have been returned to the
  buffer, followed by those in the pipe, stay the same in every call; only playing a chunk adds
  one, at the end.
\<close>
theorem chunks_returned_once:
  assumes "new_outputs outputs" "outputs_of outputs tape st" "oa_legal c st" "oa_call c st = Some st'"
  shows "oa_returned st' @ map pk_chunk (pipe_of (oa_mp st')) = oa_returned st @ map pk_chunk (pipe_of (oa_mp st)) \<or>
    (\<exists>k. c = CALL_PLAY k \<and>
       oa_returned st' @ map pk_chunk (pipe_of (oa_mp st')) = oa_returned st @ map pk_chunk (pipe_of (oa_mp st)) @ [pk_chunk k])"
  using oa_call_ok[OF outputs_quiet[OF assms(1,2)] assms(3)] assms(4) by (auto simp: holds_def oa_held_def)

theorem chunks_returned_once_witness:
  "\<exists>st'. oa_call CALL_CLOSE demo_played = Some st' \<and>
     oa_returned st' @ map pk_chunk (pipe_of (oa_mp st')) = [pk_chunk (demo_chunk 7)]"
proof -
  have c: "oa_call CALL_CLOSE demo_played \<noteq> None" "oa_legal CALL_CLOSE demo_played"
    "oa_returned demo_played @ map pk_chunk (pipe_of (oa_mp demo_played)) = [pk_chunk (demo_chunk 7)]" by code_simp+
  then obtain st' where "oa_call CALL_CLOSE demo_played = Some st'" by auto
  then show ?thesis using chunks_returned_once[OF demo_new demo_runs(2) c(2)] c(3) by auto
qed

text \<open>
  C7: every device that is open was given the chunks in order and without a gap, and none twice,
  since it was opened, resumed or flushed: first the last ones of those that have left the pipe,
  then the first ones of the pipe, up to the chunk its thread is at.
\<close>
theorem outputs_play_in_order:
  assumes "new_outputs outputs" "outputs_of outputs tape st" "a \<in> set (oa_outputs st)" "ao_open a"
  shows "case ao_chunk a of
      None \<Rightarrow> suffix (ao_given a) (oa_removed st)
    | Some c \<Rightarrow> \<exists>k < length (pipe_of (oa_mp st)). pk_addr (pipe_of (oa_mp st) ! k) = c \<and> k < length (ao_given a) \<and>
        suffix (ao_given a) (oa_removed st @ map pk_addr (take (Suc k) (pipe_of (oa_mp st))))"
proof -
  obtain i where "i < length (oa_outputs st)" "a = get_ao i st" using assms(3) by (auto simp: in_set_conv_nth get_ao_def)
  then have "inv_in st a" using oa_ok_inv quiet_ok outputs_quiet[OF assms(1,2)] by blast
  then show ?thesis by (simp add: ao_inv_def given_ok_def)
qed

theorem outputs_play_in_order_witness:
  "suffix (ao_given (get_ao 0 demo_opened)) (oa_removed demo_opened)"
proof -
  have "get_ao 0 demo_opened \<in> set (oa_outputs demo_opened)" "ao_open (get_ao 0 demo_opened)" "ao_chunk (get_ao 0 demo_opened) = None"
    by code_simp+
  then show ?thesis using outputs_play_in_order[OF demo_new demo_runs(1)] by fastforce
qed

section \<open>Liveness\<close>

text \<open>
  C8: no wake-up is lost.  A thread whose output is open and not paused, and whose device is
  willing, gives the device every chunk of the pipe and then sleeps, within two steps for each
  chunk and three more, wherever the calls of the player have left it.
\<close>
theorem threads_play_all:
  assumes "new_outputs outputs" "outputs_of outputs tape st" "i < length (oa_outputs st)"
    "ao_open (get_ao i st)" "\<not> ao_paused (get_ao i st)"
  shows "\<exists>a. play_out (2 * length (pipe_of (oa_mp st)) + 3) (oa_mp st) (get_ao i st) = Some a \<and> ao_at a = AT_WAIT False \<and>
    length (pipe_of (oa_mp st)) \<le> length (ao_given a) \<and>
    suffix (ao_given a) (oa_removed st @ map pk_addr (pipe_of (oa_mp st)))"
proof -
  have q: "oa_quiet st" by (rule outputs_quiet[OF assms(1,2)])
  let ?af = "oa_input_audio_format st"
  have "at_work (oa_removed st) ?af (oa_mp st) (get_ao i st)"
    using oa_ok_inv[OF quiet_ok[OF q] assms(3)] quiet_ready[OF q assms(3)] assms(4,5) by (simp add: at_work_def ready_def)
  then obtain a where "play_out (2 * length (pipe_of (oa_mp st)) + 3) (oa_mp st) (get_ao i st) = Some a"
    "at_work (oa_removed st) ?af (oa_mp st) a" "ao_at a = AT_WAIT False"
    using work_done[OF _ oa_ok_pipe[OF quiet_ok[OF q]] to_do_bound] by blast
  then show ?thesis using all_given[OF _ oa_ok_pipe[OF quiet_ok[OF q]]] by blast
qed

theorem threads_play_all_witness:
  "\<exists>a. play_out 5 (oa_mp demo_played) (get_ao 0 demo_played) = Some a \<and> ao_at a = AT_WAIT False \<and> 1 \<le> length (ao_given a)"
proof -
  have "0 < length (oa_outputs demo_played)" "ao_open (get_ao 0 demo_played)" "\<not> ao_paused (get_ao 0 demo_played)"
    "length (pipe_of (oa_mp demo_played)) = 1" by code_simp+
  then show ?thesis using threads_play_all[OF demo_new demo_runs(2), of 0] by auto
qed

section \<open>Functional behaviour\<close>



text \<open>
  Pausing leaves every output paused or closed, and the pipe and the elapsed time as they
  are.
\<close>
theorem audio_output_all_pause_pauses:
  assumes "new_outputs outputs" "outputs_of outputs tape st" "oa_mp st \<noteq> None"
  shows "\<exists>st'. audio_output_all_pause st = Some st' \<and> oa_mp st' = oa_mp st \<and> oa_elapsed_time st' = oa_elapsed_time st \<and>
    (\<forall>a \<in> set (oa_outputs st'). ao_paused a \<or> \<not> ao_open a)"
proof -
  obtain st' where s: "audio_output_all_pause st = Some st'" "oa_same st st'"
    "\<forall>i < length (oa_outputs st'). ao_paused (get_ao i st') \<or> \<not> ao_open (get_ao i st')"
    using audio_output_all_pause_ok[OF outputs_quiet[OF assms(1,2)] assms(3)] by blast
  have "\<forall>a \<in> set (oa_outputs st'). ao_paused a \<or> \<not> ao_open a"
    using s(3) unfolding get_ao_def by (metis in_set_conv_nth)
  then show ?thesis using s(1,2) by (auto simp: oa_same_def)
qed

theorem audio_output_all_pause_pauses_witness:
  "\<exists>st'. audio_output_all_pause demo_played = Some st' \<and> list_all (\<lambda>a. ao_paused a \<or> \<not> ao_open a) (oa_outputs st')"
proof -
  have "oa_mp demo_played \<noteq> None" by code_simp
  then show ?thesis using audio_output_all_pause_pauses[OF demo_new demo_runs(2)] by (auto simp: list_all_iff)
qed

text \<open>
  Cancelling empties the pipe, returns all its chunks to the buffer and forgets the elapsed
  time; no thread keeps a reference to a chunk.
\<close>
theorem audio_output_all_cancel_flushes:
  assumes "new_outputs outputs" "outputs_of outputs tape st" "oa_mp st = Some (p, cs)"
  shows "\<exists>st'. audio_output_all_cancel st = Some st' \<and> oa_mp st' = Some (p, []) \<and>
    oa_returned st' = oa_returned st @ map pk_chunk cs \<and> oa_elapsed_time st' = - 1 \<and>
    (\<forall>a \<in> set (oa_outputs st'). ao_chunk a = None \<and> ao_command a = AO_COMMAND_NONE \<and> ao_allow_play a)"
proof -
  obtain st' where s: "audio_output_all_cancel st = Some st'" "oa_quiet st'"
    "oa_mp st' = map_option (\<lambda>(p, cs). (p, [])) (oa_mp st)" "oa_returned st' = oa_held st" "oa_elapsed_time st' = - 1"
    using audio_output_all_cancel_ok[OF outputs_quiet[OF assms(1,2)]] by blast
  have "ao_chunk a = None \<and> ao_command a = AO_COMMAND_NONE \<and> ao_allow_play a" if "a \<in> set (oa_outputs st')" for a
  proof -
    obtain i where i: "i < length (oa_outputs st')" "a = get_ao i st'"
    proof -
      obtain i where "i < length (oa_outputs st')" "oa_outputs st' ! i = a" using \<open>a \<in> set (oa_outputs st')\<close> by (auto simp: in_set_conv_nth)
      then show thesis by (intro that[of i]) (simp_all add: get_ao_def)
    qed
    have "given_ok (oa_removed st') [] a" using oa_ok_inv[OF quiet_ok[OF s(2)] i(1)] i(2) s(3) assms(3) by (simp add: ao_inv_def)
    then show ?thesis using quiet_idle[OF s(2) i(1)] i(2) by (auto simp: given_ok_def idle_def split: option.splits)
  qed
  then show ?thesis using s assms(3) by (auto simp: oa_held_def)
qed

theorem audio_output_all_cancel_flushes_witness:
  "\<exists>st'. audio_output_all_cancel demo_played = Some st' \<and> oa_mp st' = Some (0, []) \<and> oa_returned st' = [pk_chunk (demo_chunk 7)]"
proof -
  have "oa_mp demo_played = Some (0, [demo_chunk 7])" "oa_returned demo_played = []" by code_simp+
  then show ?thesis using audio_output_all_cancel_flushes[OF demo_new demo_runs(2)] by fastforce
qed

section \<open>What goes wrong\<close>

text \<open>
  C10: a device that fails while the player waits for its thread to close it makes an assertion
  fail.  The thread of a paused output closes the device itself when the device fails, and finds
  the command CLOSE afterwards; there it asserts that the device is open.
\<close>
theorem close_conflict_asserts:
  assumes i: "i < length (oa_outputs st)" and s: "\<not> oa_steady st"
    and a: "ao_open (get_ao i st)" "ao_allow_play (get_ao i st)" "ao_thread (get_ao i st)" "\<not> ao_fail_timer (get_ao i st)"
    and p: "ao_command (get_ao i st) = AO_COMMAND_NONE" "ao_at (get_ao i st) = AT_PAUSED"
    and t: "oa_tape st = \<lparr>tn_steps = [(i, d), (i, e)], tn_elapsed = 0\<rparr> # ts" "\<not> dv_running d"
  shows "audio_output_close_locked i st = None"
proof -
  let ?b = "signal ((get_ao i st)\<lparr>ao_command := AO_COMMAND_CLOSE\<rparr>)"
  let ?u = "put_ao i ?b st"
  have b: "ao_step d mp ?b = Some (?b\<lparr>ao_pipe := None, ao_chunk := None, ao_open := False, ao_given := [], ao_paused := False, ao_at := AT_TOP\<rparr>)" for mp
    using a p t(2) by (simp add: ao_step_def do_pause_def do_close_def signal_def)
  have c: "ao_step e mp (?b\<lparr>ao_pipe := None, ao_chunk := None, ao_open := False, ao_given := [], ao_paused := False, ao_at := AT_TOP\<rparr>) = None" for mp
    using a by (simp add: ao_step_def ao_dispatch_def ensure_def)
  have n: "answer False x y = y" for x y by (simp add: answer_def)
  have "oa_sleep ?u = None"
    using t(1) i s b c by (simp add: oa_sleep_def oa_lock_def take_turn_def get_put n put_ao_def get_ao_def)
  moreover have "ao_command (get_ao i ?u) \<noteq> AO_COMMAND_NONE" using i by (simp add: get_put)
  moreover obtain fuel where "wait_fuel ?u = Suc fuel" by (cases "wait_fuel ?u") (simp_all add: wait_fuel_def)
  ultimately have "ao_command_wait (wait_fuel ?u) i ?u = None" by simp
  then show ?thesis using a p by (simp add: audio_output_close_locked_def send_command_def ao_command_async_def)
qed

definition demo_failing :: output_all where
  "demo_failing = (the (oa_call CALL_PAUSE demo_opened))\<lparr>oa_steady := False,
     oa_tape := [\<lparr>tn_steps = [(0, demo_device\<lparr>dv_running := False\<rparr>), (0, demo_device)], tn_elapsed = 0\<rparr>]\<rparr>"

theorem close_conflict_asserts_witness: "audio_output_close_locked 0 demo_failing = None"
proof -
  have "0 < length (oa_outputs demo_failing)" "\<not> oa_steady demo_failing" "ao_open (get_ao 0 demo_failing)"
    "ao_allow_play (get_ao 0 demo_failing)" "ao_thread (get_ao 0 demo_failing)" "\<not> ao_fail_timer (get_ao 0 demo_failing)"
    "ao_command (get_ao 0 demo_failing) = AO_COMMAND_NONE" "ao_at (get_ao 0 demo_failing) = AT_PAUSED"
    by code_simp+
  then show ?thesis by (rule close_conflict_asserts[where d = "demo_device\<lparr>dv_running := False\<rparr>" and e = demo_device and ts = "[]"]) (simp_all add: demo_failing_def demo_device_def)
qed

text \<open>
  C11: an output that is always on makes an assertion fail when playback starts again at once.
  Releasing the outputs sends the command PAUSE without waiting for it; when the next song starts
  before the thread has carried it out, the output is neither paused nor connected to the new
  pipe.
\<close>
theorem always_on_reopen_asserts:
  assumes st: "oa_outputs st = [a]" "oa_mp st = Some (p, [])" "oa_next_mp st \<noteq> p" "oa_music_buffer st" "oa_tape st = []"
    and a: "ao_always_on a" "ao_open a" "\<not> ao_paused a" "ao_allow_play a" "ao_command a = AO_COMMAND_NONE" "ao_pipe a = Some p"
      "ao_enabled a" "ao_really_enabled a" "\<not> ao_fail_timer a" "ao_in_audio_format a = af"
    and v: "IsValid af"
  shows "do { st \<leftarrow> audio_output_all_release st; audio_output_all_open af st } = None"
proof -
  have lock: "oa_lock u = Some u" if "oa_tape u = []" for u using that by (simp add: oa_lock_def take_turn_def)
  let ?b = "signal (a\<lparr>ao_command := AO_COMMAND_PAUSE\<rparr>)"
  define u where "u = st\<lparr>oa_outputs := [?b], oa_mp := None, oa_removed := [], oa_music_buffer := False,
    oa_input_audio_format := AudioFormat_Clear (oa_input_audio_format st), oa_elapsed_time := - 1\<rparr>"
  have "audio_output_all_release st = Some u"
    using st a lock by (simp add: audio_output_all_release_def all_outputs_def get_ao_def audio_output_release_def audio_output_pause_def
        ao_command_async_def put_ao_def drop_pipe_def mp_Clear_def u_def)
  moreover have "audio_output_all_open af u = None"
  proof -
    define w where "w = u\<lparr>oa_music_buffer := True, oa_mp := Some (oa_next_mp st, []), oa_next_mp := Suc (oa_next_mp st), oa_removed := [],
      oa_input_audio_format := af\<rparr>"
    have ts: "oa_tape w = []" "oa_outputs w = [?b]" "oa_mp w = Some (oa_next_mp st, [])" "oa_input_audio_format w = af"
      using st by (simp_all add: w_def u_def)
    have r: "audio_output_all_reset_reopen w = Some w"
      using ts a lock by (simp add: audio_output_all_reset_reopen_def all_outputs_def audio_output_reset_reopen_def get_ao_def)
    have e: "audio_output_all_enable_disable w = Some w"
      using ts a lock by (simp add: audio_output_all_enable_disable_def all_outputs_def get_ao_def)
    have "audio_output_all_update w = None"
      using ts a v st(3) by (simp add: audio_output_all_update_def all_outputs_def audio_output_update_def take_turn_def get_ao_def
          audio_output_open_def put_ao_def IsValid_defined last_turn_def ensure_def)
    then show ?thesis using r e st by (simp add: audio_output_all_open_def u_def w_def)
  qed
  ultimately show ?thesis by simp
qed

definition demo_always_on :: output_all where
  "demo_always_on = demo_opened\<lparr>oa_outputs := [(get_ao 0 demo_opened)\<lparr>ao_always_on := True\<rparr>], oa_tape := []\<rparr>"

theorem always_on_reopen_asserts_witness:
  "do { st \<leftarrow> audio_output_all_release demo_always_on; audio_output_all_open demo_format st } = None"
proof (rule always_on_reopen_asserts[where p = 0])
  let ?a = "(get_ao 0 demo_opened)\<lparr>ao_always_on := True\<rparr>"
  show "oa_outputs demo_always_on = [?a]" "oa_tape demo_always_on = []" "ao_always_on ?a" by (simp_all add: demo_always_on_def)
  show "oa_mp demo_always_on = Some (0, [])" "oa_next_mp demo_always_on \<noteq> 0" "oa_music_buffer demo_always_on" "ao_open ?a" "\<not> ao_paused ?a"
    "ao_allow_play ?a" "ao_command ?a = AO_COMMAND_NONE" "ao_pipe ?a = Some 0" "ao_enabled ?a" "ao_really_enabled ?a"
    "\<not> ao_fail_timer ?a" "ao_in_audio_format ?a = demo_format" "IsValid demo_format" by code_simp+
qed

end
