(* ===== verification/PCM_Bytes.thy ===== *)
theory PCM_Bytes
  imports Audio_Format "HOL-Library.Signed_Division"
begin

unbundle bit_operations_syntax

text \<open>
  PCM data in memory.  A buffer is the list of its bytes; the arrays of machine integers that
  the code sees after a cast of the pointer are \<open>loads\<close> (signed) and \<open>loadu\<close> (unsigned), and
  \<open>store\<close> is what an array of integers leaves in memory.  The argument \<open>be\<close> is what
  \<open>IsBigEndian()\<close> answers (system/ByteOrder.hxx).  Byte swapping (util/ByteReverse.cxx) and the
  packing of 24 bit samples (pcm/PcmPack.cxx) follow.
\<close>

type_synonym byte = "8 word"

named_theorems pcm_sizes \<open>lengths of buffers\<close>

section \<open>Casts to the integer types\<close>

abbreviation s8 :: "int \<Rightarrow> int" where "s8 \<equiv> signed_take_bit 7"
abbreviation s16 :: "int \<Rightarrow> int" where "s16 \<equiv> signed_take_bit 15"
abbreviation s32 :: "int \<Rightarrow> int" where "s32 \<equiv> signed_take_bit 31"
abbreviation s64 :: "int \<Rightarrow> int" where "s64 \<equiv> signed_take_bit 63"
abbreviation u32 :: "int \<Rightarrow> int" where "u32 \<equiv> take_bit 32"

text \<open>\<open>fits n x\<close>: \<open>x\<close> is a value of a signed integer of \<open>n\<close> bits.\<close>

definition fits :: "nat \<Rightarrow> int \<Rightarrow> bool" where
  "fits n x \<longleftrightarrow> - (2 ^ (n - 1)) \<le> x \<and> x < 2 ^ (n - 1)"

lemma fits_cast: "0 < n \<Longrightarrow> fits n x \<longleftrightarrow> signed_take_bit (n - 1) x = x"
  by (simp add: fits_def signed_take_bit_int_eq_self_iff)

lemma cast_fits [simp]: "fits (Suc n) (signed_take_bit n x)"
  by (simp add: fits_def)

lemma cast_id: "fits (Suc n) x \<Longrightarrow> signed_take_bit n x = x"
  by (simp add: fits_cast)

lemma fits_mono: "fits m x \<Longrightarrow> m \<le> n \<Longrightarrow> fits n x"
proof -
  assume "fits m x" "m \<le> n"
  moreover have "(2::int) ^ (m - 1) \<le> 2 ^ (n - 1)"
    using \<open>m \<le> n\<close> by (intro power_increasing) auto
  ultimately show ?thesis unfolding fits_def by linarith
qed

section \<open>Arrays in memory\<close>

text \<open>The bytes of an integer of \<open>n\<close> bytes, the least significant first, and back.\<close>

fun le_bytes :: "nat \<Rightarrow> int \<Rightarrow> byte list" where
  "le_bytes 0 x = []"
| "le_bytes (Suc n) x = word_of_int x # le_bytes n (drop_bit 8 x)"

fun of_le :: "byte list \<Rightarrow> int" where
  "of_le [] = 0"
| "of_le (b # bs) = concat_bit 8 (uint b) (of_le bs)"

definition int_bytes :: "bool \<Rightarrow> nat \<Rightarrow> int \<Rightarrow> byte list" where
  "int_bytes be n x = (if be then rev (le_bytes n x) else le_bytes n x)"

definition bytes_int :: "bool \<Rightarrow> byte list \<Rightarrow> int" where
  "bytes_int be bs = of_le (if be then rev bs else bs)"

text \<open>The elements of an array with elements of \<open>n\<close> bytes.\<close>

function chunks :: "nat \<Rightarrow> 'a list \<Rightarrow> 'a list list" where
  "chunks n xs = (if n = 0 \<or> length xs < n then [] else take n xs # chunks n (drop n xs))"
  by auto
termination by (relation "measure (\<lambda>(n, xs). length xs)") auto

declare chunks.simps [simp del]

definition loadu :: "bool \<Rightarrow> nat \<Rightarrow> byte list \<Rightarrow> int list" where
  "loadu be n bs = map (bytes_int be) (chunks n bs)"

definition loads :: "bool \<Rightarrow> nat \<Rightarrow> byte list \<Rightarrow> int list" where
  "loads be n bs = map (\<lambda>b. signed_take_bit (8 * n - 1) (bytes_int be b)) (chunks n bs)"

definition store :: "bool \<Rightarrow> nat \<Rightarrow> int list \<Rightarrow> byte list" where
  "store be n xs = concat (map (int_bytes be n) xs)"

lemma length_le_bytes [simp]: "length (le_bytes n x) = n"
  by (induction n arbitrary: x) auto

lemma length_int_bytes [simp, pcm_sizes]: "length (int_bytes be n x) = n"
  by (simp add: int_bytes_def)

lemma le_bytes_cong: "take_bit (8 * n) x = take_bit (8 * n) y \<Longrightarrow> le_bytes n x = le_bytes n y"
proof (induction n arbitrary: x y)
  case (Suc n)
  have "take_bit 8 x = take_bit 8 y"
    using arg_cong[OF Suc.prems, of "take_bit 8"] by simp
  then have "word_of_int x = (word_of_int y :: byte)"
    by (simp add: word_of_int_eq_iff)
  moreover have "take_bit (8 * n) (drop_bit 8 x) = take_bit (8 * n) (drop_bit 8 y)"
    using arg_cong[OF Suc.prems, of "drop_bit 8"] by (simp add: drop_bit_take_bit)
  note Suc.IH[OF this]
  ultimately show ?case by simp
qed simp

lemma of_le_bytes: "of_le (le_bytes n x) = take_bit (8 * n) x"
proof (induction n arbitrary: x)
  case (Suc n)
  show ?case
    by (simp add: Suc)
      (rule bit_eqI, auto simp: bit_simps unsigned_of_int)
qed simp

lemma le_bytes_of: "le_bytes (length bs) (of_le bs) = bs"
proof (induction bs)
  case (Cons b bs)
  have "word_of_int (concat_bit 8 (uint b) (of_le bs)) = b"
    by (rule bit_word_eqI) (auto simp: bit_simps)
  moreover have "drop_bit 8 (concat_bit 8 (uint b) (of_le bs)) = of_le bs"
    by (rule bit_eqI) (auto simp: bit_simps)
  ultimately show ?case using Cons by simp
qed simp

lemma of_le_bound: "0 \<le> of_le bs \<and> of_le bs < 2 ^ (8 * length bs)"
proof -
  have "of_le bs = of_le (le_bytes (length bs) (of_le bs))" by (simp add: le_bytes_of)
  also have "\<dots> = take_bit (8 * length bs) (of_le bs)" by (rule of_le_bytes)
  finally show ?thesis by (metis take_bit_nonnegative take_bit_int_less_exp)
qed

lemma bytes_int_bytes: "bytes_int be (int_bytes be n x) = take_bit (8 * n) x"
  by (simp add: bytes_int_def int_bytes_def of_le_bytes)

lemma int_bytes_int: "length bs = n \<Longrightarrow> int_bytes be n (bytes_int be bs) = bs"
  using le_bytes_of[of bs] le_bytes_of[of "rev bs"] by (auto simp: bytes_int_def int_bytes_def)

lemma int_bytes_cong: "take_bit (8 * n) x = take_bit (8 * n) y \<Longrightarrow> int_bytes be n x = int_bytes be n y"
  by (simp add: int_bytes_def le_bytes_cong[of n x y])

text \<open>Cutting a buffer into elements.\<close>

lemma chunks_short [simp]: "length xs < n \<Longrightarrow> chunks n xs = []"
  by (simp add: chunks.simps)

lemma chunks_append [simp]: "length xs = n \<Longrightarrow> 0 < n \<Longrightarrow> chunks n (xs @ ys) = xs # chunks n ys"
  by (subst chunks.simps) simp

lemma chunks_Nil [simp]: "chunks n [] = []"
  by (subst chunks.simps) auto

lemma chunks_concat:
  "0 < n \<Longrightarrow> (\<And>x. x \<in> set xs \<Longrightarrow> length x = n) \<Longrightarrow> chunks n (concat xs) = xs"
  by (induction xs) (auto simp: chunks_append)

lemma chunks_induct [consumes 2, case_names Nil step]:
  assumes "0 < n" "n dvd length bs" "P []"
    and "\<And>c bs. length c = n \<Longrightarrow> n dvd length bs \<Longrightarrow> P bs \<Longrightarrow> P (c @ bs)"
  shows "P bs"
  using assms(2)
proof (induction "length bs" arbitrary: bs rule: less_induct)
  case less
  show ?case
  proof (cases "bs = []")
    case False
    with less.prems \<open>0 < n\<close> have "n \<le> length bs" by (auto dest: dvd_imp_le)
    then have "n dvd length (drop n bs)" using less.prems by (simp add: dvd_diff_nat)
    moreover have "length (drop n bs) < length bs"
      using \<open>0 < n\<close> \<open>n \<le> length bs\<close> by simp
    ultimately have "P (take n bs @ drop n bs)"
      using \<open>n \<le> length bs\<close> less.hyps by (intro assms(4)) auto
    then show ?thesis by simp
  qed (use assms(3) in simp)
qed

lemma concat_chunks:
  assumes "0 < n" "n dvd length bs"
  shows "concat (chunks n bs) = bs"
  using assms by (induction bs rule: chunks_induct) (simp_all add: chunks_append assms(1))

lemma chunk_length: "c \<in> set (chunks n bs) \<Longrightarrow> length c = n"
  by (induction n bs rule: chunks.induct) (subst (asm) (2) chunks.simps, auto split: if_splits)

lemma length_chunks [pcm_sizes]: "0 < n \<Longrightarrow> length (chunks n bs) = length bs div n"
proof (induction n bs rule: chunks.induct)
  case (1 n xs)
  then show ?case by (subst chunks.simps) (auto simp: le_div_geq)
qed

lemma length_concat_map: "(\<And>x. length (f x) = n) \<Longrightarrow> length (concat (map f xs)) = n * length xs"
  by (induction xs) auto

lemma length_store [simp, pcm_sizes]: "length (store be n xs) = n * length xs"
  by (simp add: store_def length_concat_map)

lemma length_loads [simp, pcm_sizes]: "0 < n \<Longrightarrow> length (loads be n bs) = length bs div n"
  by (simp add: loads_def length_chunks)

lemma length_loadu [simp, pcm_sizes]: "0 < n \<Longrightarrow> length (loadu be n bs) = length bs div n"
  by (simp add: loadu_def length_chunks)

text \<open>
  An interface for everything that lays elements out in runs of a fixed number of bytes: the
  integers of every width, and the packed samples below.
\<close>

locale element_codec =
  fixes enc :: "'e \<Rightarrow> byte list" and dec :: "byte list \<Rightarrow> 'e" and width :: nat and ok :: "'e \<Rightarrow> bool"
  assumes width_pos: "0 < width"
    and length_enc: "length (enc x) = width"
    and dec_enc: "ok x \<Longrightarrow> dec (enc x) = x"
begin

lemma decode_encode:
  assumes "\<And>x. x \<in> set xs \<Longrightarrow> ok x"
  shows "map dec (chunks width (concat (map enc xs))) = xs"
proof -
  have "chunks width (concat (map enc xs)) = map enc xs"
    using width_pos length_enc by (intro chunks_concat) auto
  moreover have "map (dec \<circ> enc) xs = xs"
    using assms dec_enc by (intro map_idI) auto
  ultimately show ?thesis by simp
qed

lemma encoded_size: "length (concat (map enc xs)) = width * length xs"
  using length_enc by (rule length_concat_map)

end

interpretation integers: element_codec "int_bytes be (Suc n)"
  "\<lambda>b. signed_take_bit (8 * Suc n - 1) (bytes_int be b)" "Suc n" "fits (8 * Suc n)" for be n
  by unfold_locales (simp_all add: bytes_int_bytes signed_take_bit_take_bit fits_cast)

lemma load_store:
  assumes "0 < n" "\<And>x. x \<in> set xs \<Longrightarrow> fits (8 * n) x"
  shows "loads be n (store be n xs) = xs"
proof -
  obtain m where "n = Suc m" using assms(1) by (cases n) auto
  with integers.decode_encode[of xs m be] assms(2) show ?thesis
    by (simp only: loads_def store_def)
qed

lemma store_loads:
  assumes "0 < n" "n dvd length bs"
  shows "store be n (loads be n bs) = bs"
proof -
  have "int_bytes be n (signed_take_bit (8 * n - 1) (bytes_int be c)) = c" if "length c = n" for c
  proof -
    have "int_bytes be n (signed_take_bit (8 * n - 1) (bytes_int be c)) = int_bytes be n (bytes_int be c)"
      using \<open>0 < n\<close> by (intro int_bytes_cong) (simp add: take_bit_signed_take_bit)
    then show ?thesis using that by (simp add: int_bytes_int)
  qed
  then have "map (int_bytes be n) (loads be n bs) = chunks n bs"
    unfolding loads_def map_map comp_def by (intro map_idI) (simp add: chunk_length)
  then show ?thesis using assms by (simp add: store_def concat_chunks)
qed

lemma loads_fit: "x \<in> set (loads be n bs) \<Longrightarrow> 0 < n \<Longrightarrow> fits (8 * n) x"
  by (auto simp: loads_def fits_cast)

section \<open>Byte order\<close>

definition ByteSwap16 :: "16 word \<Rightarrow> 16 word" where
  "ByteSwap16 v = (drop_bit 8 v OR push_bit 8 v)"

definition ByteSwap32 :: "32 word \<Rightarrow> 32 word" where
  "ByteSwap32 v = (drop_bit 24 v OR (drop_bit 8 v AND 0x0000ff00) OR
     (push_bit 8 v AND 0x00ff0000) OR push_bit 24 v)"

definition ByteSwap64 :: "64 word \<Rightarrow> 64 word" where
  "ByteSwap64 v = (ucast (ByteSwap32 (ucast (drop_bit 32 v))) OR
     push_bit 32 (ucast (ByteSwap32 (ucast v))))"

definition reverse_bytes_16 :: "bool \<Rightarrow> byte list \<Rightarrow> byte list" where
  "reverse_bytes_16 be src = store be 2 (map (\<lambda>x. uint (ByteSwap16 (word_of_int x))) (loadu be 2 src))"

definition reverse_bytes_32 :: "bool \<Rightarrow> byte list \<Rightarrow> byte list" where
  "reverse_bytes_32 be src = store be 4 (map (\<lambda>x. uint (ByteSwap32 (word_of_int x))) (loadu be 4 src))"

definition reverse_bytes_64 :: "bool \<Rightarrow> byte list \<Rightarrow> byte list" where
  "reverse_bytes_64 be src = store be 8 (map (\<lambda>x. uint (ByteSwap64 (word_of_int x))) (loadu be 8 src))"

text \<open>\<open>src += n; while (n-- > 0) *dest++ = *--src;\<close>\<close>

primrec reverse_bytes_linear :: "byte list \<Rightarrow> nat \<Rightarrow> byte list" where
  "reverse_bytes_linear src 0 = []"
| "reverse_bytes_linear src (Suc n) = src ! n # reverse_bytes_linear src n"

function reverse_bytes_generic :: "byte list \<Rightarrow> nat \<Rightarrow> byte list" where
  "reverse_bytes_generic src frame_size =
     (if src = [] \<or> frame_size = 0 then []
      else reverse_bytes_linear src frame_size @ reverse_bytes_generic (drop frame_size src) frame_size)"
  by auto
termination by (relation "measure (\<lambda>(src, n). length src)") auto

declare reverse_bytes_generic.simps [simp del]

definition reverse_bytes :: "bool \<Rightarrow> byte list \<Rightarrow> nat \<Rightarrow> byte list" where
  "reverse_bytes be src frame_size =
     (if frame_size = 2 then reverse_bytes_16 be src
      else if frame_size = 4 then reverse_bytes_32 be src
      else if frame_size = 8 then reverse_bytes_64 be src
      else reverse_bytes_generic src frame_size)"

lemma nth_reverse_linear: "n \<le> length src \<Longrightarrow> reverse_bytes_linear src n = rev (take n src)"
  by (induction n) (simp_all add: take_Suc_conv_app_nth)

lemma reverse_generic_chunks:
  assumes "0 < n" "n dvd length src"
  shows "reverse_bytes_generic src n = concat (map rev (chunks n src))"
  using assms
proof (induction src rule: chunks_induct)
  case Nil
  then show ?case by (simp add: reverse_bytes_generic.simps)
next
  case (step c bs)
  then show ?case
    using assms(1) by (subst reverse_bytes_generic.simps) (auto simp: nth_reverse_linear)
qed

text \<open>What the three special cases share: a swap of one word reverses its bytes.\<close>

locale byte_swap =
  fixes swap :: "'w::len word \<Rightarrow> 'w word" and n :: nat
  assumes word_size: "LENGTH('w) = 8 * n"
    and swap_bytes: "le_bytes n (uint (swap v)) = rev (le_bytes n (uint v))"
begin

lemma size_pos: "0 < n"
  using word_size len_gt_0[where 'a = 'w] by (metis mult_0_right gr0I nat_less_le)

lemma swap_element:
  assumes "length c = n"
  shows "int_bytes be n (uint (swap (word_of_int (bytes_int be c)))) = rev c"
proof -
  have "uint (word_of_int (bytes_int be c) :: 'w word) = bytes_int be c"
    using of_le_bound[of c] of_le_bound[of "rev c"] assms word_size
    by (simp add: uint_word_of_int bytes_int_def)
  then have *: "le_bytes n (uint (swap (word_of_int (bytes_int be c)))) = rev (le_bytes n (bytes_int be c))"
    by (simp add: swap_bytes)
  have "int_bytes be n (bytes_int be c) = c"
    using assms by (rule int_bytes_int)
  then show ?thesis
    using arg_cong[OF *, of rev] * by (auto simp: int_bytes_def split: if_splits)
qed

lemma swap_array:
  "store be n (map (\<lambda>x. uint (swap (word_of_int x))) (loadu be n src)) = concat (map rev (chunks n src))"
proof -
  have "map (int_bytes be n) (map (\<lambda>x. uint (swap (word_of_int x))) (loadu be n src)) =
      map rev (chunks n src)"
    by (simp add: loadu_def chunk_length swap_element)
  then show ?thesis by (simp add: store_def)
qed

end

lemma bit_le_bytes: "i < n \<Longrightarrow> bit (le_bytes n x ! i) k \<longleftrightarrow> k < 8 \<and> bit x (8 * i + k)"
proof (induction n arbitrary: x i)
  case (Suc n)
  then show ?case by (cases i) (auto simp: bit_simps algebra_simps)
qed simp

lemma le_bytes_revI:
  assumes "\<And>i k. i < n \<Longrightarrow> k < 8 \<Longrightarrow> bit x (8 * i + k) \<longleftrightarrow> bit y (8 * (n - 1 - i) + k)"
  shows "le_bytes n x = rev (le_bytes n y)"
  by (rule nth_equalityI) (auto intro!: bit_word_eqI simp: rev_nth bit_le_bytes assms)

lemma ByteSwap16_bit:
  "bit (ByteSwap16 v) j \<longleftrightarrow> bit v (j + 8) \<or> 8 \<le> j \<and> j < 16 \<and> bit v (j - 8)"
  unfolding ByteSwap16_def bit_or_iff bit_drop_bit_eq bit_push_bit_iff comp_def
  by (simp add: add.commute eval_nat_numeral)

lemma ByteSwap16_bytes: "le_bytes 2 (uint (ByteSwap16 v)) = rev (le_bytes 2 (uint v))"
proof (rule le_bytes_revI)
  fix i k :: nat
  assume "i < 2" "k < 8"
  then show "bit (uint (ByteSwap16 v)) (8 * i + k) \<longleftrightarrow> bit (uint v) (8 * (2 - 1 - i) + k)"
    by (auto simp: bit_uint_iff ByteSwap16_bit less_2_cases_iff add.commute
        dest: bit_imp_le_length)
qed

lemma mask_ff: "(0x0000ff00 :: 32 word) = push_bit 8 (mask 8)" "(0x00ff0000 :: 32 word) = push_bit 16 (mask 8)"
  by (simp_all add: mask_numeral)

lemma ByteSwap32_bit:
  "bit (ByteSwap32 v) j \<longleftrightarrow> bit v (j + 24) \<or> 8 \<le> j \<and> j < 16 \<and> bit v (j + 8) \<or>
     16 \<le> j \<and> j < 24 \<and> bit v (j - 8) \<or> 24 \<le> j \<and> j < 32 \<and> bit v (j - 24)"
  unfolding ByteSwap32_def mask_ff bit_or_iff bit_and_iff bit_drop_bit_eq bit_push_bit_iff
    bit_mask_iff comp_def
  by (auto simp: add.commute)

lemma ByteSwap32_bytes: "le_bytes 4 (uint (ByteSwap32 v)) = rev (le_bytes 4 (uint v))"
proof (rule le_bytes_revI)
  fix i k :: nat
  assume "i < 4" "k < 8"
  moreover have "i = 0 \<or> i = 1 \<or> i = 2 \<or> i = 3" using \<open>i < 4\<close> by linarith
  ultimately show "bit (uint (ByteSwap32 v)) (8 * i + k) \<longleftrightarrow> bit (uint v) (8 * (4 - 1 - i) + k)"
    by (auto simp: bit_uint_iff ByteSwap32_bit add.commute dest: bit_imp_le_length)
qed

lemma ByteSwap64_bit:
  "bit (ByteSwap64 v) j \<longleftrightarrow> j < 32 \<and> bit (ByteSwap32 (ucast (drop_bit 32 v))) j \<or>
     32 \<le> j \<and> j < 64 \<and> bit (ByteSwap32 (ucast v)) (j - 32)"
  unfolding ByteSwap64_def bit_or_iff bit_push_bit_iff bit_unsigned_iff comp_def
  by (auto dest: bit_imp_le_length)

lemma ByteSwap64_bytes: "le_bytes 8 (uint (ByteSwap64 v)) = rev (le_bytes 8 (uint v))"
proof (rule le_bytes_revI)
  fix i k :: nat
  assume "i < 8" "k < 8"
  moreover have "i = 0 \<or> i = 1 \<or> i = 2 \<or> i = 3 \<or> i = 4 \<or> i = 5 \<or> i = 6 \<or> i = 7"
    using \<open>i < 8\<close> by linarith
  ultimately show "bit (uint (ByteSwap64 v)) (8 * i + k) \<longleftrightarrow> bit (uint v) (8 * (8 - 1 - i) + k)"
    by (elim disjE)
      (simp_all add: bit_uint_iff ByteSwap64_bit ByteSwap32_bit bit_unsigned_iff bit_drop_bit_eq
        add.commute)
qed

interpretation swap16: byte_swap ByteSwap16 2
  by unfold_locales (simp_all add: ByteSwap16_bytes)

interpretation swap32: byte_swap ByteSwap32 4
  by unfold_locales (simp_all add: ByteSwap32_bytes)

interpretation swap64: byte_swap ByteSwap64 8
  by unfold_locales (simp_all add: ByteSwap64_bytes)

lemma reverse_bytes_chunks:
  assumes "0 < n" "n dvd length src"
  shows "reverse_bytes be src n = concat (map rev (chunks n src))"
  using assms
  by (simp add: reverse_bytes_def reverse_bytes_16_def reverse_bytes_32_def reverse_bytes_64_def
      swap16.swap_array swap32.swap_array swap64.swap_array reverse_generic_chunks)

text \<open>Reversing an array of integers lays it out for a host of the other byte order.\<close>

lemma rev_int_bytes: "rev (int_bytes be n x) = int_bytes (\<not> be) n x"
  by (simp add: int_bytes_def)

lemma reverse_store:
  assumes "0 < n"
  shows "reverse_bytes be (store be n xs) n = store (\<not> be) n xs"
proof -
  have "chunks n (store be n xs) = map (int_bytes be n) xs"
    unfolding store_def using assms by (intro chunks_concat) auto
  then have "reverse_bytes be (store be n xs) n = concat (map rev (map (int_bytes be n) xs))"
    using reverse_bytes_chunks[OF assms, of "store be n xs" be] by simp
  then show ?thesis by (simp add: store_def rev_int_bytes comp_def)
qed

section \<open>Packed 24 bit samples\<close>

definition pack_sample :: "bool \<Rightarrow> int \<Rightarrow> byte list" where
  "pack_sample be x = take 3 (if be then drop 1 (int_bytes be 4 x) else int_bytes be 4 x)"

definition pcm_pack_24 :: "bool \<Rightarrow> int list \<Rightarrow> byte list" where
  "pcm_pack_24 be src = concat (map (pack_sample be) src)"

definition sign_byte :: "byte \<Rightarrow> byte" where
  "sign_byte b = (if b AND 0x80 \<noteq> 0 then 0xff else 0x00)"

definition unpack_sample :: "bool \<Rightarrow> byte list \<Rightarrow> int" where
  "unpack_sample be src =
     (let ext = (if be then [sign_byte (src ! 0)] else []);
          dest = ext @ [src ! 0, src ! 1, src ! 2] @ (if \<not> be then [sign_byte (src ! 2)] else [])
      in s32 (bytes_int be dest))"

definition pcm_unpack_24 :: "bool \<Rightarrow> byte list \<Rightarrow> int list" where
  "pcm_unpack_24 be src = map (unpack_sample be) (chunks 3 src)"

lemma le_bytes_4: "le_bytes 4 x = [word_of_int x, word_of_int (drop_bit 8 x),
    word_of_int (drop_bit 16 x), word_of_int (drop_bit 24 x)]"
  by (simp add: eval_nat_numeral)

lemma pack_sample_bytes: "pack_sample be x = (if be then rev else id) (le_bytes 3 x)"
  by (simp add: pack_sample_def int_bytes_def eval_nat_numeral)

lemma length_pack_sample [simp]: "length (pack_sample be x) = 3"
  by (simp add: pack_sample_bytes)

lemma sign_byte_bit: "bit (sign_byte b) k \<longleftrightarrow> k < 8 \<and> bit b 7"
proof -
  have "b AND 0x80 \<noteq> 0 \<longleftrightarrow> bit b 7"
    using and_exp_eq_0_iff_not_bit[of b 7] by simp
  moreover have ff: "(0xff :: byte) = mask 8" by (simp add: mask_numeral)
  have "bit (0xff :: byte) k \<longleftrightarrow> k < 8" unfolding ff bit_mask_iff by auto
  ultimately show ?thesis by (simp add: sign_byte_def)
qed

lemma bit_of_le: "bit (of_le bs) j \<longleftrightarrow> j < 8 * length bs \<and> bit (bs ! (j div 8)) (j mod 8)"
proof (induction bs arbitrary: j)
  case (Cons b bs)
  show ?case
  proof (cases "j < 8")
    case True
    then show ?thesis by (simp add: bit_concat_bit_iff bit_uint_iff)
  next
    case False
    then have "(b # bs) ! (j div 8) = bs ! ((j - 8) div 8)" "(j - 8) mod 8 = j mod 8"
      by (simp_all add: le_div_geq le_mod_geq)
    with False show ?thesis
      by (auto simp: bit_concat_bit_iff bit_uint_iff Cons dest: bit_imp_le_length)
  qed
qed simp

lemma unpack_pack: "unpack_sample be (pack_sample be x) = signed_take_bit 23 x"
proof -
  let ?d = "[word_of_int x, word_of_int (drop_bit 8 x), word_of_int (drop_bit 16 x) :: byte]"
  let ?e = "?d @ [sign_byte (word_of_int (drop_bit 16 x))]"
  have "unpack_sample be (pack_sample be x) = s32 (of_le ?e)"
    by (simp add: unpack_sample_def pack_sample_bytes bytes_int_def eval_nat_numeral)
  also have "\<dots> = signed_take_bit 23 x"
  proof (rule bit_eqI)
    fix j
    have "?e ! i = le_bytes 3 x ! i" if "i < 3" for i
      using that by (auto simp: eval_nat_numeral less_Suc_eq)
    then have "bit (of_le ?e) j \<longleftrightarrow> bit x j" if "j < 24" for j
    proof -
      have "bit (le_bytes 3 x ! (j div 8)) (j mod 8) \<longleftrightarrow> bit x j"
        using that bit_le_bytes[of "j div 8" 3 x "j mod 8"] by simp
      then show ?thesis
        using that \<open>\<And>i. i < 3 \<Longrightarrow> ?e ! i = le_bytes 3 x ! i\<close>[of "j div 8"]
        by (simp add: bit_of_le del: of_le.simps)
    qed
    moreover have "bit (of_le ?e) j \<longleftrightarrow> bit x 23" if "24 \<le> j" "j < 32" for j
    proof -
      have "j div 8 = 3" using that by simp
      then show ?thesis using that by (simp add: bit_of_le sign_byte_bit bit_simps del: of_le.simps)
    qed
    ultimately have below: "j < 24 \<Longrightarrow> bit (of_le ?e) j \<longleftrightarrow> bit x j"
      and above: "24 \<le> j \<Longrightarrow> j < 32 \<Longrightarrow> bit (of_le ?e) j \<longleftrightarrow> bit x 23" for j
      by blast+
    have low: "bit (of_le ?e) j \<longleftrightarrow> bit x (min 23 j)" if "j < 32" for j
    proof (cases "j < 24")
      case True
      then have "min 23 j = j" by simp
      with True below[of j] show ?thesis by (simp only:)
    next
      case False
      then have "min 23 j = 23" "24 \<le> j" by simp_all
      with that above[of j] show ?thesis by (simp only:)
    qed
    show "bit (s32 (of_le ?e)) j \<longleftrightarrow> bit (signed_take_bit 23 x) j"
      using low[of "min 31 j"]
      by (simp add: bit_signed_take_bit_iff min_less_iff_disj min.left_commute[of 31]
          flip: min.assoc del: of_le.simps)
  qed
  finally show ?thesis .
qed

interpretation packed: element_codec "pack_sample be" "unpack_sample be" 3 "fits 24" for be
  by unfold_locales (simp_all add: unpack_pack cast_id)

lemma length_pack_24 [simp, pcm_sizes]: "length (pcm_pack_24 be xs) = 3 * length xs"
  unfolding pcm_pack_24_def by (rule packed.encoded_size)

lemma unpack_pack_24: "(\<And>x. x \<in> set xs \<Longrightarrow> fits 24 x) \<Longrightarrow> pcm_unpack_24 be (pcm_pack_24 be xs) = xs"
  unfolding pcm_unpack_24_def pcm_pack_24_def by (rule packed.decode_encode)

end
