(* ===== verification/PCM_Export.thy ===== *)
theory PCM_Export
  imports PCM_Bytes
begin

text \<open>
  The export filter (pcm/PcmExport.cxx) that gives samples the layout a device asked for, with
  the two encodings of DSD bits in PCM frames (pcm/PcmDsdUsb.cxx, pcm/PcmDsdNative.cxx).  A
  \<open>PcmBuffer\<close> is not cleared, so both encoders take the bytes that lie in their buffer.
\<close>

section \<open>DSD over USB\<close>

definition pcm_two_dsd_to_usb_marker1 :: "byte \<Rightarrow> byte \<Rightarrow> 32 word" where
  "pcm_two_dsd_to_usb_marker1 a b = 0xff050000 OR push_bit 8 (ucast a) OR ucast b"

definition pcm_two_dsd_to_usb_marker2 :: "byte \<Rightarrow> byte \<Rightarrow> 32 word" where
  "pcm_two_dsd_to_usb_marker2 a b = 0xfffa0000 OR push_bit 8 (ucast a) OR ucast b"

text \<open>One of the two inner loops: a sample for each channel, from its bytes in two source frames.\<close>

definition dsd_usb_frame :: "(byte \<Rightarrow> byte \<Rightarrow> 32 word) \<Rightarrow> nat \<Rightarrow> byte list \<Rightarrow> 32 word list" where
  "dsd_usb_frame marker channels src = map (\<lambda>c. marker (src ! c) (src ! (c + channels))) [0..<channels]"

primrec dsd_usb_loop :: "nat \<Rightarrow> nat \<Rightarrow> byte list \<Rightarrow> 32 word list" where
  "dsd_usb_loop channels 0 src = []"
| "dsd_usb_loop channels (Suc i) src =
     dsd_usb_frame pcm_two_dsd_to_usb_marker1 channels src @
     dsd_usb_frame pcm_two_dsd_to_usb_marker2 channels (drop (2 * channels) src) @
     dsd_usb_loop channels i (drop (4 * channels) src)"

text \<open>Writing \<open>out\<close> at the start of a buffer of \<open>n\<close> bytes whose content is \<open>old\<close>.\<close>

definition in_buffer :: "nat \<Rightarrow> byte list \<Rightarrow> byte list \<Rightarrow> byte list" where
  "in_buffer n old out = take n (out @ drop (length out) old)"

definition pcm_dsd_to_usb :: "bool \<Rightarrow> byte list \<Rightarrow> nat \<Rightarrow> byte list \<Rightarrow> byte list" where
  "pcm_dsd_to_usb be old channels src =
     (let num_src_samples = length src mod 2 ^ 32;
          num_src_frames = num_src_samples div channels;
          num_frames = num_src_frames div 2;
          num_samples = num_frames * channels;
          dest_size = num_samples * 4 mod 2 ^ 32
      in in_buffer dest_size old
           (store be 4 (map uint (dsd_usb_loop channels (num_frames div 2) src))))"

section \<open>Native DSD\<close>

definition pcm_two_dsd_native :: "byte \<Rightarrow> byte \<Rightarrow> byte \<Rightarrow> byte \<Rightarrow> 32 word" where
  "pcm_two_dsd_native a b c d =
     (push_bit 24 (ucast a) OR push_bit 16 (ucast b) OR push_bit 8 (ucast c) OR ucast d)"

definition dsd_native_words :: "32 word \<Rightarrow> byte list \<Rightarrow> 32 word list" where
  "dsd_native_words ty src =
     (if ty = 2
      then [pcm_two_dsd_native (src ! 6) (src ! 4) (src ! 2) (src ! 0),
            pcm_two_dsd_native (src ! 7) (src ! 5) (src ! 3) (src ! 1)]
      else [pcm_two_dsd_native (src ! 0) (src ! 2) (src ! 4) (src ! 6),
            pcm_two_dsd_native (src ! 1) (src ! 3) (src ! 5) (src ! 7)])"

primrec dsd_native_loop :: "32 word \<Rightarrow> nat \<Rightarrow> byte list \<Rightarrow> 32 word list" where
  "dsd_native_loop ty 0 src = []"
| "dsd_native_loop ty (Suc i) src = dsd_native_words ty src @ dsd_native_loop ty i (drop 8 src)"

text \<open>What the loop writes, and what the caller is given of it: \<open>dest_size = src_size\<close> bytes.\<close>

definition dsd_native_written :: "bool \<Rightarrow> nat \<Rightarrow> byte list \<Rightarrow> 32 word \<Rightarrow> byte list" where
  "dsd_native_written be channels src ty =
     (let num_src_samples = length src mod 2 ^ 32;
          num_src_frames = num_src_samples div channels;
          num_frames = num_src_frames div 2
      in store be 4 (map uint (dsd_native_loop ty (num_frames div 2) src)))"

definition pcm_dsd_native :: "bool \<Rightarrow> byte list \<Rightarrow> nat \<Rightarrow> byte list \<Rightarrow> 32 word \<Rightarrow> byte list" where
  "pcm_dsd_native be old channels src ty =
     in_buffer (length src) old (dsd_native_written be channels src ty)"

section \<open>The filter\<close>

record pcm_export =
  pe_channels :: "8 word"
  pe_dsd_usb :: bool
  pe_dsd_native :: bool
  pe_dsd_native_type :: "32 word"
  pe_shift8 :: bool
  pe_pack24 :: bool
  pe_reverse_endian :: "8 word"

definition native_u32 :: "pcm_export \<Rightarrow> bool" where
  "native_u32 e \<longleftrightarrow> pe_dsd_native e \<and> (pe_dsd_native_type e = 2 \<or> pe_dsd_native_type e = 3)"

definition PcmExport_Open ::
    "SampleFormat \<Rightarrow> 32 word \<Rightarrow> bool \<Rightarrow> bool \<Rightarrow> bool \<Rightarrow> bool \<Rightarrow> bool \<Rightarrow> 32 word \<Rightarrow> pcm_export" where
  "PcmExport_Open sample_format channels usb shift pack reverse native ty =
     (let dsd_usb = (usb \<and> sample_format = SF_DSD);
          sample_format = (if dsd_usb then SF_S24_P32 else sample_format);
          sample_format = (if native \<and> (ty = 2 \<or> ty = 3) then SF_S32 else sample_format);
          pack24 = (pack \<and> sample_format = SF_S24_P32);
          sample_size = (if pack24 then 3 else sample_format_size sample_format)
      in \<lparr>pe_channels = ucast channels, pe_dsd_usb = dsd_usb, pe_dsd_native = native,
          pe_dsd_native_type = ty, pe_shift8 = (shift \<and> sample_format = SF_S24_P32),
          pe_pack24 = pack24,
          pe_reverse_endian = (if reverse \<and> sample_size > 1 then ucast sample_size else 0)\<rparr>)"

definition PcmExport_GetFrameSize :: "pcm_export \<Rightarrow> AudioFormat \<Rightarrow> nat" where
  "PcmExport_GetFrameSize e a =
     (if pe_pack24 e then unat (af_channels a) * 3
      else if pe_dsd_usb e then unat (pe_channels e) * 4
      else if native_u32 e then unat (pe_channels e) * 4
      else unat (GetFrameSize a))"

text \<open>
  When both encodings are on, the second one works in the buffer of the first; the outputs
  never switch both on (output/AlsaOutputPlugin.cxx:193), and neither do the properties.
\<close>

definition Export :: "bool \<Rightarrow> byte list \<Rightarrow> pcm_export \<Rightarrow> byte list \<Rightarrow> byte list" where
  "Export be old e data =
     (let data = (if pe_dsd_usb e then pcm_dsd_to_usb be old (unat (pe_channels e)) data else data);
          data = (if native_u32 e
                  then pcm_dsd_native be old (unat (pe_channels e)) data (pe_dsd_native_type e)
                  else data);
          data = (if pe_pack24 e then pcm_pack_24 be (loads be 4 data)
                  else if pe_shift8 e then store be 4 (map (\<lambda>x. u32 (push_bit 8 x)) (loadu be 4 data))
                  else data)
      in if pe_reverse_endian e > 0 then reverse_bytes be data (unat (pe_reverse_endian e)) else data)"

definition CalcSourceSize :: "pcm_export \<Rightarrow> nat \<Rightarrow> nat" where
  "CalcSourceSize e dest_size =
     (let n = (if pe_pack24 e then (dest_size div 3) * 4 else dest_size)
      in if pe_dsd_usb e then n div 2 else n)"

section \<open>Sizes\<close>

lemma length_in_buffer [pcm_sizes]: "n \<le> length old \<Longrightarrow> length (in_buffer n old out) = n"
  by (simp add: in_buffer_def)

lemma in_buffer_exact: "length out = n \<Longrightarrow> in_buffer n old out = out"
  by (simp add: in_buffer_def)

lemma in_buffer_tail:
  "length out \<le> n \<Longrightarrow> drop (length out) (in_buffer n old out) = take (n - length out) (drop (length out) old)"
  by (simp add: in_buffer_def)

lemma length_usb_frame [simp]: "length (dsd_usb_frame m ch src) = ch"
  by (simp add: dsd_usb_frame_def)

lemma length_usb_loop [simp, pcm_sizes]: "length (dsd_usb_loop ch i src) = 2 * ch * i"
  by (induction i arbitrary: src) (simp_all add: algebra_simps)

lemma length_native_loop [simp, pcm_sizes]: "length (dsd_native_loop ty i src) = 2 * i"
  by (induction i arbitrary: src) (simp_all add: dsd_native_words_def)

text \<open>A buffer smaller than a gigabyte keeps all sizes of \<open>pcm_dsd_to_usb\<close> within 32 bits.\<close>

lemma usb_sizes:
  assumes "length src < 2 ^ 30" "0 < ch"
  shows "length src mod 2 ^ 32 = length src"
    and "(length src div ch div 2) * ch * 4 mod 2 ^ 32 = (length src div ch div 2) * ch * 4"
proof -
  have "(length src div ch div 2) * ch \<le> length src"
    by (meson div_le_dividend le_trans mult_le_mono1 div_times_less_eq_dividend)
  then have "(length src div ch div 2) * ch < 2 ^ 30"
    using assms(1) by (rule le_less_trans)
  then have "(length src div ch div 2) * ch * 4 < 2 ^ 32" by (simp add: mult.commute)
  then show "(length src div ch div 2) * ch * 4 mod 2 ^ 32 = (length src div ch div 2) * ch * 4"
    by (rule mod_less)
  show "length src mod 2 ^ 32 = length src" using assms by simp
qed

lemma length_dsd_to_usb [pcm_sizes]:
  assumes "length src < 2 ^ 30" "0 < ch" "(length src div ch div 2) * ch * 4 \<le> length old"
  shows "length (pcm_dsd_to_usb be old ch src) = (length src div ch div 2) * ch * 4"
  using usb_sizes[OF assms(1,2)] assms(3)
  by (simp add: pcm_dsd_to_usb_def Let_def length_in_buffer)

lemma length_dsd_native [pcm_sizes]:
  "length src \<le> length old \<Longrightarrow> length (pcm_dsd_native be old ch src ty) = length src"
  by (simp add: pcm_dsd_native_def length_in_buffer)

section \<open>What a DSD-over-USB stream carries\<close>

lemma usb_markers:
  "(0xff050000 :: 32 word) = push_bit 16 (ucast (0xff05 :: 16 word))"
  "(0xfffa0000 :: 32 word) = push_bit 16 (ucast (0xfffa :: 16 word))"
  by simp_all

lemma bit_usb_word:
  fixes m :: "16 word" and x y :: byte
  shows "bit (push_bit 16 (ucast m) OR push_bit 8 (ucast x) OR ucast y :: 32 word) j \<longleftrightarrow>
    16 \<le> j \<and> bit m (j - 16) \<or> 8 \<le> j \<and> bit x (j - 8) \<or> bit y j"
  unfolding bit_or_iff bit_push_bit_iff bit_unsigned_iff comp_def
  by (auto dest: bit_imp_le_length)

text \<open>The marker is the upper half of a sample; the bytes of the source are the lower half.\<close>

lemma usb_word_parts:
  fixes m :: "16 word" and x y :: byte
  defines "w \<equiv> push_bit 16 (ucast m) OR push_bit 8 (ucast x) OR ucast y :: 32 word"
  shows "drop_bit 16 w = ucast m" "ucast (drop_bit 8 w) = x" "ucast w = y"
proof -
  have bw: "bit w j \<longleftrightarrow> 16 \<le> j \<and> bit m (j - 16) \<or> 8 \<le> j \<and> bit x (j - 8) \<or> bit y j" for j
    unfolding w_def by (rule bit_usb_word)
  have beyond: "\<not> bit x (j + 8)" "\<not> bit y (j + 8)" "\<not> bit y (j + 16)" for j
    by (auto dest: bit_imp_le_length)
  show "drop_bit 16 w = ucast m"
  proof (rule bit_word_eqI)
    fix n
    assume "n < LENGTH(32)"
    then show "bit (drop_bit 16 w) n \<longleftrightarrow> bit (ucast m :: 32 word) n"
      using beyond(1)[of "n + 0"] beyond(3)[of n] bit_imp_le_length[of x "n + 8"]
      by (simp add: bit_drop_bit_eq bw bit_unsigned_iff add.commute)
  qed
  show "ucast (drop_bit 8 w) = x"
  proof (rule bit_word_eqI)
    fix n
    assume "n < LENGTH(8)"
    then show "bit (ucast (drop_bit 8 w) :: byte) n \<longleftrightarrow> bit x n"
      using beyond(2)[of n] by (simp add: bit_drop_bit_eq bw bit_unsigned_iff add.commute)
  qed
  show "ucast w = y"
  proof (rule bit_word_eqI)
    fix n
    assume "n < LENGTH(8)"
    then show "bit (ucast w :: byte) n \<longleftrightarrow> bit y n"
      by (simp add: bw bit_unsigned_iff)
  qed
qed

lemma usb_marker1_parts:
  "drop_bit 16 (pcm_two_dsd_to_usb_marker1 a b) = 0xff05"
  "ucast (drop_bit 8 (pcm_two_dsd_to_usb_marker1 a b)) = a"
  "ucast (pcm_two_dsd_to_usb_marker1 a b) = b"
  using usb_word_parts[of "0xff05" a b]
  by (simp_all add: pcm_two_dsd_to_usb_marker1_def usb_markers del: push_bit_numeral)

lemma usb_marker2_parts:
  "drop_bit 16 (pcm_two_dsd_to_usb_marker2 a b) = 0xfffa"
  "ucast (drop_bit 8 (pcm_two_dsd_to_usb_marker2 a b)) = a"
  "ucast (pcm_two_dsd_to_usb_marker2 a b) = b"
  using usb_word_parts[of "0xfffa" a b]
  by (simp_all add: pcm_two_dsd_to_usb_marker2_def usb_markers del: push_bit_numeral)

lemma nth_usb_frame: "c < ch \<Longrightarrow> dsd_usb_frame m ch src ! c = m (src ! c) (src ! (c + ch))"
  by (simp add: dsd_usb_frame_def)

text \<open>The sample of channel \<open>c\<close> in the output frame \<open>f\<close>.\<close>

lemma nth_usb_loop:
  assumes "4 * ch * i \<le> length src" "f < 2 * i" "c < ch"
  shows "dsd_usb_loop ch i src ! (f * ch + c) =
    (if even f then pcm_two_dsd_to_usb_marker1 else pcm_two_dsd_to_usb_marker2)
      (src ! (2 * f * ch + c)) (src ! ((2 * f + 1) * ch + c))"
  using assms
proof (induction i arbitrary: src f)
  case (Suc i)
  let ?A = "dsd_usb_frame pcm_two_dsd_to_usb_marker1 ch src"
  let ?B = "dsd_usb_frame pcm_two_dsd_to_usb_marker2 ch (drop (2 * ch) src)"
  let ?C = "dsd_usb_loop ch i (drop (4 * ch) src)"
  have "f = 0 \<or> f = 1 \<or> f = (f - 2) + 2 \<and> f - 2 < 2 * i"
    using Suc.prems(2) by auto
  then consider "f = 0" | "f = 1" | g where "f = g + 2" "g < 2 * i" by blast
  then show ?case
  proof cases
    case 1
    then show ?thesis using Suc.prems by (simp add: nth_append nth_usb_frame add.commute)
  next
    case 2
    then show ?thesis
      using Suc.prems by (simp add: nth_append nth_usb_frame algebra_simps numeral_eq_Suc)
  next
    case (3 g)
    have skip: "(?A @ ?B @ ?C) ! (f * ch + c) = ?C ! (g * ch + c)"
      using \<open>f = g + 2\<close> by (simp add: nth_append algebra_simps)
    have "4 * ch * i \<le> length (drop (4 * ch) src)"
      using Suc.prems(1) by simp
    from Suc.IH[OF this \<open>g < 2 * i\<close> Suc.prems(3)] skip Suc.prems(1) show ?thesis
      using \<open>f = g + 2\<close> by (simp add: algebra_simps)
  qed
qed simp

text \<open>The words of the output, read back from memory.\<close>

abbreviation words32 :: "bool \<Rightarrow> byte list \<Rightarrow> 32 word list" where
  "words32 be bs \<equiv> map word_of_int (loadu be 4 bs)"

lemma words32_store [simp]: "words32 be (store be 4 (map uint ws)) = (ws :: 32 word list)"
proof -
  have "chunks 4 (store be 4 (map uint ws)) = map (int_bytes be 4) (map uint ws)"
    unfolding store_def by (rule chunks_concat) auto
  moreover have "word_of_int (u32 (uint w)) = w" for w :: "32 word"
    using uint_lt2p[of w] by (simp add: take_bit_int_eq_self)
  ultimately show ?thesis
    by (simp add: loadu_def comp_def bytes_int_bytes)
qed

text \<open>The whole encoding for a number of frames that is a multiple of four.\<close>

lemma dsd_to_usb_exact:
  assumes "length src < 2 ^ 30" "0 < ch" "length src = 4 * ch * i"
  shows "pcm_dsd_to_usb be old ch src = store be 4 (map uint (dsd_usb_loop ch i src))"
proof -
  have "length src div ch div 2 = 2 * i"
    using assms(2,3) by (simp add: mult.assoc mult.left_commute[of 4])
  then show ?thesis
    using usb_sizes[OF assms(1,2)] by (simp add: pcm_dsd_to_usb_def Let_def in_buffer_exact)
qed

text \<open>With two more frames, the last frame of the output is what was in the buffer.\<close>

lemma dsd_to_usb_odd:
  assumes "length src < 2 ^ 30" "0 < ch" "length src = 4 * ch * i + 2 * ch"
  shows "pcm_dsd_to_usb be old ch src =
    in_buffer (4 * (2 * i * ch) + 4 * ch) old (store be 4 (map uint (dsd_usb_loop ch i src)))"
proof -
  have "length src = ch * (2 * (2 * i + 1))"
    using assms(3) by (simp add: algebra_simps)
  then have "length src div ch div 2 = 2 * i + 1"
    using assms(2) by (simp del: mult_Suc_right)
  then show ?thesis
    using usb_sizes[OF assms(1,2)]
    by (simp add: pcm_dsd_to_usb_def Let_def algebra_simps)
qed

section \<open>What the native encodings carry\<close>

text \<open>The bytes of the two channels of eight bytes of stereo data, each in the order of time.\<close>

definition split_stereo :: "byte list \<Rightarrow> byte list \<times> byte list" where
  "split_stereo src = ([src ! 0, src ! 2, src ! 4, src ! 6], [src ! 1, src ! 3, src ! 5, src ! 7])"

lemma native_word_bytes:
  "le_bytes 4 (uint (pcm_two_dsd_native a b c d)) = [d, c, b, a]"
proof -
  have beyond: "\<not> bit (x :: byte) (j + 8)" "\<not> bit x (j + 16)" "\<not> bit x (j + 24)" for x j
    by (auto dest: bit_imp_le_length)
  have bw: "bit (pcm_two_dsd_native a b c d) j \<longleftrightarrow> 24 \<le> j \<and> j < 32 \<and> bit a (j - 24) \<or>
      16 \<le> j \<and> j < 32 \<and> bit b (j - 16) \<or> 8 \<le> j \<and> j < 32 \<and> bit c (j - 8) \<or> j < 32 \<and> bit d j" for j
    unfolding pcm_two_dsd_native_def bit_or_iff bit_push_bit_iff bit_unsigned_iff comp_def
    by (auto dest: bit_imp_le_length)
  have "le_bytes 4 (uint (pcm_two_dsd_native a b c d)) ! i = [d, c, b, a] ! i" if "i < 4" for i
  proof (rule bit_word_eqI)
    fix k
    assume "k < LENGTH(8)"
    moreover have "i = 0 \<or> i = 1 \<or> i = 2 \<or> i = 3" using that by linarith
    ultimately show "bit (le_bytes 4 (uint (pcm_two_dsd_native a b c d)) ! i) k \<longleftrightarrow> bit ([d, c, b, a] ! i) k"
      using beyond(1)[of _ k] beyond(2)[of _ k] beyond(3)[of _ k]
      unfolding bit_le_bytes[OF that]
      by (elim disjE) (simp_all add: bit_uint_iff bw add.commute)
  qed
  then show ?thesis by (intro nth_equalityI) auto
qed

lemma native_block:
  assumes "length c = 8"
  shows "store be 4 (map uint (dsd_native_words ty c)) =
    (let (l, r) = split_stereo c
     in if (ty = 2) = be then rev l @ rev r else l @ r)"
  by (simp add: store_def dsd_native_words_def int_bytes_def native_word_bytes split_stereo_def)

lemma native_loop_blocks:
  assumes "8 dvd length src"
  shows "store be 4 (map uint (dsd_native_loop ty (length src div 8) src)) =
    concat (map (\<lambda>c. store be 4 (map uint (dsd_native_words ty c))) (chunks 8 src))"
proof -
  have local: "dsd_native_words ty (c @ bs) = dsd_native_words ty c" if "length c = 8" for c bs
    using that by (simp add: dsd_native_words_def nth_append)
  have "0 < (8 :: nat)" by simp
  from this assms show ?thesis
  proof (induction src rule: chunks_induct)
    case (step c bs)
    then show ?case by (simp add: store_def local)
  qed (simp_all add: store_def)
qed

section \<open>Exported samples\<close>

lemma rev_pack_sample: "rev (pack_sample be x) = pack_sample (\<not> be) x"
  by (simp add: pack_sample_bytes)

lemma reverse_pack:
  "reverse_bytes be (pcm_pack_24 be xs) 3 = pcm_pack_24 (\<not> be) xs"
proof -
  have "chunks 3 (pcm_pack_24 be xs) = map (pack_sample be) xs"
    unfolding pcm_pack_24_def by (rule chunks_concat) auto
  then have "reverse_bytes be (pcm_pack_24 be xs) 3 = concat (map rev (map (pack_sample be) xs))"
    using reverse_bytes_chunks[of 3 "pcm_pack_24 be xs" be] by simp
  then show ?thesis by (simp add: pcm_pack_24_def rev_pack_sample comp_def)
qed

lemma store_cong:
  "(\<And>x. x \<in> set xs \<Longrightarrow> take_bit (8 * n) (f x) = take_bit (8 * n) (g x)) \<Longrightarrow>
   store be n (map f xs) = store be n (map g xs)"
  by (auto simp: store_def intro!: arg_cong[where f = concat] int_bytes_cong)

lemma loadu_store: "0 < n \<Longrightarrow> loadu be n (store be n xs) = map (take_bit (8 * n)) xs"
proof -
  assume "0 < n"
  then have "chunks n (store be n xs) = map (int_bytes be n) xs"
    unfolding store_def by (intro chunks_concat) auto
  then show ?thesis by (simp add: loadu_def bytes_int_bytes)
qed

lemma shift8_store:
  "store be 4 (map (\<lambda>x. u32 (push_bit 8 x)) (loadu be 4 (store be 4 xs))) = store be 4 (map (push_bit 8) xs)"
proof -
  have "take_bit 32 (push_bit 8 (u32 x)) = take_bit 32 (push_bit 8 x)" for x
    by (simp add: take_bit_push_bit)
  then show ?thesis
    by (simp add: loadu_store comp_def) (rule store_cong, simp)
qed

text \<open>The sample size of a format, which \<open>Open\<close> stores as the unit that is reversed.\<close>

lemma store_1: "store be (Suc 0) xs = store (\<not> be) (Suc 0) xs"
proof -
  have "int_bytes be (Suc 0) x = int_bytes (\<not> be) (Suc 0) x" for x
    by (simp add: int_bytes_def)
  then have "int_bytes be (Suc 0) = int_bytes (\<not> be) (Suc 0)" by (rule ext)
  then show ?thesis by (simp only: store_def)
qed

lemma export_layout_pcm:
  assumes fmt: "fmt \<noteq> SF_DSD" "fmt \<noteq> SF_UNDEFINED"
    and fit: "fmt = SF_S24_P32 \<Longrightarrow> \<forall>x \<in> set xs. fits 32 x"
    and n_def: "n = unat (sample_format_size fmt)"
    and e_def: "e = PcmExport_Open fmt ch usb shift pack reverse False ty"
    and dev_def: "dev = (if reverse then \<not> be else be)"
  shows "Export be old e (store be n xs) =
    (if pack \<and> fmt = SF_S24_P32 then pcm_pack_24 dev xs
     else if shift \<and> fmt = SF_S24_P32 then store dev 4 (map (push_bit 8) xs)
     else store dev n xs)"
proof -
  have 4: "n = 4" if "fmt = SF_S24_P32" using that by (simp add: n_def)
  have rs: "loads be 4 (store be 4 xs) = xs" if "fmt = SF_S24_P32"
    using fit that by (intro load_store) auto
  show ?thesis
  proof (cases "fmt = SF_S24_P32")
    case True
    then show ?thesis
      using rs 4
      by (auto simp: Export_def e_def PcmExport_Open_def native_u32_def dev_def reverse_pack
          reverse_store shift8_store)
  next
    case False
    then have "n = 1 \<or> n = 2 \<or> n = 4"
      using fmt by (cases fmt) (simp_all add: n_def)
    then show ?thesis
      using False fmt
      by (cases fmt) (auto simp: Export_def e_def PcmExport_Open_def native_u32_def dev_def
          reverse_store n_def store_1[of be])
  qed
qed

section \<open>Sizes of the export\<close>

text \<open>What the encoding of DSD makes of the size, then the packing; reversing keeps it.\<close>

lemma length_reverse_bytes:
  assumes "0 < n" "n dvd length bs"
  shows "length (reverse_bytes be bs n) = length bs"
proof -
  have "length (concat (map rev (chunks n bs))) = length (concat (chunks n bs))"
    by (simp add: length_concat comp_def)
  then show ?thesis
    using reverse_bytes_chunks[OF assms, of be] concat_chunks[OF assms] by simp
qed

definition encoded_size :: "pcm_export \<Rightarrow> nat \<Rightarrow> nat" where
  "encoded_size e n = (if pe_dsd_usb e then 2 * n else n)"

definition packed_size :: "pcm_export \<Rightarrow> nat \<Rightarrow> nat" where
  "packed_size e n = (if pe_pack24 e then 3 * (n div 4) else n)"

lemma export_length:
  assumes ch: "unat (pe_channels e) = ch" "0 < ch"
    and one: "\<not> (pe_dsd_usb e \<and> native_u32 e)"
    and usb: "pe_dsd_usb e \<Longrightarrow> 4 * ch dvd length data"
    and small: "length data < 2 ^ 30" "2 * length data \<le> length old"
    and shift: "pe_shift8 e \<Longrightarrow> 4 dvd encoded_size e (length data)"
    and unit: "pe_reverse_endian e > 0 \<Longrightarrow>
      unat (pe_reverse_endian e) dvd packed_size e (encoded_size e (length data))"
  shows "length (Export be old e data) = packed_size e (encoded_size e (length data))"
proof -
  let ?d1 = "if pe_dsd_usb e then pcm_dsd_to_usb be old (unat (pe_channels e)) data else data"
  let ?d2 = "if native_u32 e then pcm_dsd_native be old (unat (pe_channels e)) ?d1 (pe_dsd_native_type e)
    else ?d1"
  let ?d3 = "if pe_pack24 e then pcm_pack_24 be (loads be 4 ?d2)
    else if pe_shift8 e then store be 4 (map (\<lambda>x. u32 (push_bit 8 x)) (loadu be 4 ?d2)) else ?d2"
  have d1: "length ?d1 = encoded_size e (length data)"
  proof (cases "pe_dsd_usb e")
    case True
    then obtain i where i: "length data = 4 * ch * i" using usb by (auto elim: dvdE)
    then have "length data div ch div 2 * ch * 4 = 2 * length data"
      using ch(2) by (simp add: mult.assoc mult.left_commute[of 4])
    then show ?thesis
      using length_dsd_to_usb[OF small(1) ch(2), of old be] small(2)
      by (simp only: True ch(1) encoded_size_def if_True)
  qed (simp add: encoded_size_def)
  have d2: "length ?d2 = length ?d1"
    using one small length_dsd_native[of data old be "unat (pe_channels e)" "pe_dsd_native_type e"] by auto
  have pack_len: "length (if pe_pack24 e then pcm_pack_24 be (loads be 4 d)
      else if pe_shift8 e then store be 4 (map (\<lambda>x. u32 (push_bit 8 x)) (loadu be 4 d)) else d) =
      packed_size e (encoded_size e (length data))"
    if "length d = encoded_size e (length data)" for d
    using that shift by (auto simp: packed_size_def)
  have d3: "length ?d3 = packed_size e (encoded_size e (length data))"
    using pack_len d1 d2 by (simp only:)
  have "Export be old e data =
      (if pe_reverse_endian e > 0 then reverse_bytes be ?d3 (unat (pe_reverse_endian e)) else ?d3)"
    by (simp only: Export_def Let_def)
  then show ?thesis
    using length_reverse_bytes[of "unat (pe_reverse_endian e)" ?d3 be] d3 unit
    by (simp only: d3 unat_gt_0 word_greater_zero_iff split: if_split) auto
qed

end
