(* ===== verification/PCM_Volume.thy ===== *)
theory PCM_Volume
  imports PCM_Bytes
begin

text \<open>
  Software volume and mixing (pcm/PcmUtils.hxx, pcm/PcmPrng.hxx, pcm/PcmVolume.hxx,
  pcm/PcmVolume.cxx, pcm/PcmMix.cxx).  Samples are integers; every C++ conversion and every
  arithmetic operation that could leave its type is followed by the cast to that type.  The
  arithmetic of \<open>float\<close> and \<open>double\<close> is the record \<open>fpu\<close>, a parameter that works on bit
  patterns; no property relies on it.  The versions in i386 assembly are left out.
\<close>

type_synonym float32 = "32 word"
type_synonym float64 = "64 word"

record fpu =
  f_mul :: "float32 \<Rightarrow> float32 \<Rightarrow> float32"
  f_add :: "float32 \<Rightarrow> float32 \<Rightarrow> float32"
  f_div :: "float32 \<Rightarrow> float32 \<Rightarrow> float32"
  f_less :: "float32 \<Rightarrow> float32 \<Rightarrow> bool"
  f_of_int :: "int \<Rightarrow> float32"
  int_of_f :: "float32 \<Rightarrow> int"
  d_of_f :: "float32 \<Rightarrow> float64"
  f_of_d :: "float64 \<Rightarrow> float32"
  d_add :: "float64 \<Rightarrow> float64 \<Rightarrow> float64"
  d_div :: "float64 \<Rightarrow> float64 \<Rightarrow> float64"
  d_of_int :: "int \<Rightarrow> float64"
  int_of_d :: "float64 \<Rightarrow> int"
  f_sin_half_pi :: "float32 \<Rightarrow> float32"

section \<open>Clamping\<close>

text \<open>
  \<open>PcmClamp<T, U, bits>\<close>: the callers convert the argument to \<open>U\<close>; the conversion of the result
  to \<open>T\<close> keeps it, because of the two static assertions.
\<close>

definition PcmClamp :: "nat \<Rightarrow> int \<Rightarrow> int" where
  "PcmClamp bits x =
     (let MIN_VALUE = - (2 ^ (bits - 1)); MAX_VALUE = 2 ^ (bits - 1) - 1
      in if x < MIN_VALUE then MIN_VALUE else if x > MAX_VALUE then MAX_VALUE else x)"

lemma clamp_fits [simp]: "fits bits (PcmClamp bits x)"
  by (auto simp: PcmClamp_def fits_def Let_def)

lemma clamp_id: "fits bits x \<Longrightarrow> PcmClamp bits x = x"
  by (auto simp: PcmClamp_def fits_def Let_def)

text \<open>A clamped value is at least as close to every value of the range.\<close>

lemma clamp_closer: "fits bits y \<Longrightarrow> \<bar>PcmClamp bits x - y\<bar> \<le> \<bar>x - y\<bar>"
  by (auto simp: PcmClamp_def fits_def Let_def)

section \<open>The random number generator\<close>

definition pcm_prng :: "64 word \<Rightarrow> 64 word" where
  "pcm_prng state = ((state * 0x0019660d + 0x3c6ef35f) AND 0xffffffff)"

text \<open>The static \<open>state\<close> is an argument and comes back with the number.\<close>

definition pcm_volume_dither :: "64 word \<Rightarrow> int \<times> 64 word" where
  "pcm_volume_dither state =
     (let state = pcm_prng state; r = ucast state :: 32 word
      in (sint ((r AND 511) - (drop_bit 9 r AND 511)), state))"

lemma dither_range: "\<bar>fst (pcm_volume_dither st)\<bar> \<le> 511"
proof -
  let ?r = "ucast (pcm_prng st) :: 32 word"
  have low: "uint (x AND 511) \<le> 511" for x :: "32 word"
  proof -
    have "x AND 511 \<le> 511" by (rule word_and_le1)
    then show ?thesis by (simp add: word_le_def)
  qed
  let ?x = "uint (?r AND 511)" and ?y = "uint (drop_bit 9 ?r AND 511)"
  have "(?r AND 511) - (drop_bit 9 ?r AND 511) = word_of_int (?x - ?y)"
    by simp
  then have "sint ((?r AND 511) - (drop_bit 9 ?r AND 511)) = s32 (?x - ?y)"
    by (simp only: sint_sbintrunc') simp
  moreover have b: "- 511 \<le> ?x - ?y" "?x - ?y \<le> 511"
    using low[of ?r] low[of "drop_bit 9 ?r"] uint_ge_0[of "?r AND 511"] uint_ge_0[of "drop_bit 9 ?r AND 511"]
    by linarith+
  then have "s32 (?x - ?y) = ?x - ?y"
    by (intro signed_take_bit_int_eq_self) simp_all
  ultimately show ?thesis
    using b by (simp add: pcm_volume_dither_def Let_def abs_le_iff)
qed

section \<open>Volume\<close>

definition PCM_VOLUME_1 :: int where
  "PCM_VOLUME_1 = 1024"

definition pcm_volume_to_float :: "fpu \<Rightarrow> int \<Rightarrow> float32" where
  "pcm_volume_to_float fp volume = f_div fp (f_of_int fp volume) (f_of_int fp PCM_VOLUME_1)"

text \<open>
  One sample: \<open>(sample * volume + pcm_volume_dither() + PCM_VOLUME_1 / 2) / PCM_VOLUME_1\<close>, in
  the type that \<open>cast\<close> converts to.
\<close>

definition volume_sample :: "(int \<Rightarrow> int) \<Rightarrow> int \<Rightarrow> int \<Rightarrow> int \<Rightarrow> int" where
  "volume_sample cast volume sample dither =
     cast (cast (cast (cast (sample * volume) + dither) + PCM_VOLUME_1 div 2) sdiv PCM_VOLUME_1)"

text \<open>The loop over a buffer, which draws a dithering number for each sample.\<close>

fun dither_loop :: "('a \<Rightarrow> int \<Rightarrow> int) \<Rightarrow> 'a list \<Rightarrow> 64 word \<Rightarrow> int list \<times> 64 word" where
  "dither_loop f [] st = ([], st)"
| "dither_loop f (x # xs) st =
     (let (d, st) = pcm_volume_dither st; (ys, st) = dither_loop f xs st in (f x d # ys, st))"

definition pcm_volume_change_8 :: "int \<Rightarrow> int list \<Rightarrow> 64 word \<Rightarrow> int list \<times> 64 word" where
  "pcm_volume_change_8 volume = dither_loop (\<lambda>x d. PcmClamp 8 (s16 (volume_sample s32 volume x d)))"

definition pcm_volume_change_16 :: "int \<Rightarrow> int list \<Rightarrow> 64 word \<Rightarrow> int list \<times> 64 word" where
  "pcm_volume_change_16 volume = dither_loop (\<lambda>x d. PcmClamp 16 (volume_sample s32 volume x d))"

definition pcm_volume_change_24 :: "int \<Rightarrow> int list \<Rightarrow> 64 word \<Rightarrow> int list \<times> 64 word" where
  "pcm_volume_change_24 volume = dither_loop (\<lambda>x d. PcmClamp 24 (s32 (volume_sample s64 volume x d)))"

definition pcm_volume_change_32 :: "int \<Rightarrow> int list \<Rightarrow> 64 word \<Rightarrow> int list \<times> 64 word" where
  "pcm_volume_change_32 volume = dither_loop (\<lambda>x d. PcmClamp 32 (volume_sample s64 volume x d))"

definition pcm_volume_change_float :: "fpu \<Rightarrow> float32 \<Rightarrow> float32 list \<Rightarrow> float32 list" where
  "pcm_volume_change_float fp volume = map (\<lambda>sample. f_mul fp sample volume)"

text \<open>A loop over the samples of a buffer in memory.\<close>

definition in_memory ::
    "bool \<Rightarrow> nat \<Rightarrow> byte list \<Rightarrow> (int list \<Rightarrow> 64 word \<Rightarrow> int list \<times> 64 word) \<Rightarrow> 64 word \<Rightarrow> byte list \<times> 64 word" where
  "in_memory be n buffer f st = (let (ys, st) = f (loads be n buffer) st in (store be n ys, st))"

definition floats_of :: "bool \<Rightarrow> byte list \<Rightarrow> float32 list" where
  "floats_of be buffer = map word_of_int (loadu be 4 buffer)"

definition of_floats :: "bool \<Rightarrow> float32 list \<Rightarrow> byte list" where
  "of_floats be fs = store be 4 (map uint fs)"

text \<open>The result is the success flag, the buffer and the state of the generator.\<close>

definition pcm_volume ::
    "fpu \<Rightarrow> bool \<Rightarrow> byte list \<Rightarrow> SampleFormat \<Rightarrow> int \<Rightarrow> 64 word \<Rightarrow> bool \<times> byte list \<times> 64 word" where
  "pcm_volume fp be buffer fmt volume st =
     (if volume = PCM_VOLUME_1 then (True, buffer, st)
      else if volume \<le> 0 then (True, replicate (length buffer) 0, st)
      else case fmt of
        SF_S8 \<Rightarrow> (True, in_memory be 1 buffer (pcm_volume_change_8 volume) st)
      | SF_S16 \<Rightarrow> (True, in_memory be 2 buffer (pcm_volume_change_16 volume) st)
      | SF_S24_P32 \<Rightarrow> (True, in_memory be 4 buffer (pcm_volume_change_24 volume) st)
      | SF_S32 \<Rightarrow> (True, in_memory be 4 buffer (pcm_volume_change_32 volume) st)
      | SF_FLOAT \<Rightarrow> (True, of_floats be (pcm_volume_change_float fp (pcm_volume_to_float fp volume)
            (floats_of be buffer)), st)
      | _ \<Rightarrow> (False, buffer, st))"

section \<open>Mixing\<close>

definition PcmAddVolume :: "(int \<Rightarrow> int) \<Rightarrow> nat \<Rightarrow> int \<Rightarrow> int \<Rightarrow> int \<times> int \<Rightarrow> int \<Rightarrow> int" where
  "PcmAddVolume cast bits volume1 volume2 ab dither =
     (let (a, b) = ab;
          c = cast (cast (cast (cast (cast (a * volume1) + cast (b * volume2)) + dither) +
                PCM_VOLUME_1 div 2) sdiv PCM_VOLUME_1)
      in PcmClamp bits c)"

definition PcmAddVolumeVoid ::
    "(int \<Rightarrow> int) \<Rightarrow> nat \<Rightarrow> nat \<Rightarrow> bool \<Rightarrow> byte list \<Rightarrow> byte list \<Rightarrow> int \<Rightarrow> int \<Rightarrow> 64 word \<Rightarrow> byte list \<times> 64 word" where
  "PcmAddVolumeVoid cast bits n be a b volume1 volume2 st =
     in_memory be n a (\<lambda>as. dither_loop (PcmAddVolume cast bits volume1 volume2) (zip as (loads be n b))) st"

definition pcm_add_vol_float :: "fpu \<Rightarrow> float32 list \<Rightarrow> float32 list \<Rightarrow> float32 \<Rightarrow> float32 \<Rightarrow> float32 list" where
  "pcm_add_vol_float fp buffer1 buffer2 volume1 volume2 =
     map2 (\<lambda>sample1 sample2. f_add fp (f_mul fp sample1 volume1) (f_mul fp sample2 volume2)) buffer1 buffer2"

definition pcm_add_vol ::
    "fpu \<Rightarrow> bool \<Rightarrow> byte list \<Rightarrow> byte list \<Rightarrow> int \<Rightarrow> int \<Rightarrow> SampleFormat \<Rightarrow> 64 word \<Rightarrow> bool \<times> byte list \<times> 64 word" where
  "pcm_add_vol fp be buffer1 buffer2 vol1 vol2 fmt st =
     (case fmt of
        SF_S8 \<Rightarrow> (True, PcmAddVolumeVoid s32 8 1 be buffer1 buffer2 vol1 vol2 st)
      | SF_S16 \<Rightarrow> (True, PcmAddVolumeVoid s32 16 2 be buffer1 buffer2 vol1 vol2 st)
      | SF_S24_P32 \<Rightarrow> (True, PcmAddVolumeVoid s64 24 4 be buffer1 buffer2 vol1 vol2 st)
      | SF_S32 \<Rightarrow> (True, PcmAddVolumeVoid s64 32 4 be buffer1 buffer2 vol1 vol2 st)
      | SF_FLOAT \<Rightarrow> (True, of_floats be (pcm_add_vol_float fp (floats_of be buffer1) (floats_of be buffer2)
            (pcm_volume_to_float fp vol1) (pcm_volume_to_float fp vol2)), st)
      | _ \<Rightarrow> (False, buffer1, st))"

definition PcmAdd :: "(int \<Rightarrow> int) \<Rightarrow> nat \<Rightarrow> int \<Rightarrow> int \<Rightarrow> int" where
  "PcmAdd cast bits a b = PcmClamp bits (cast (a + b))"

definition PcmAddVoid :: "(int \<Rightarrow> int) \<Rightarrow> nat \<Rightarrow> nat \<Rightarrow> bool \<Rightarrow> byte list \<Rightarrow> byte list \<Rightarrow> byte list" where
  "PcmAddVoid cast bits n be a b = store be n (map2 (PcmAdd cast bits) (loads be n a) (loads be n b))"

definition pcm_add_float :: "fpu \<Rightarrow> float32 list \<Rightarrow> float32 list \<Rightarrow> float32 list" where
  "pcm_add_float fp buffer1 buffer2 = map2 (f_add fp) buffer1 buffer2"

definition pcm_add :: "fpu \<Rightarrow> bool \<Rightarrow> byte list \<Rightarrow> byte list \<Rightarrow> SampleFormat \<Rightarrow> bool \<times> byte list" where
  "pcm_add fp be buffer1 buffer2 fmt =
     (case fmt of
        SF_S8 \<Rightarrow> (True, PcmAddVoid s32 8 1 be buffer1 buffer2)
      | SF_S16 \<Rightarrow> (True, PcmAddVoid s32 16 2 be buffer1 buffer2)
      | SF_S24_P32 \<Rightarrow> (True, PcmAddVoid s64 24 4 be buffer1 buffer2)
      | SF_S32 \<Rightarrow> (True, PcmAddVoid s64 32 4 be buffer1 buffer2)
      | SF_FLOAT \<Rightarrow> (True, of_floats be (pcm_add_float fp (floats_of be buffer1) (floats_of be buffer2)))
      | _ \<Rightarrow> (False, buffer1))"

text \<open>\<open>0.5\<close> as a \<open>double\<close>.\<close>

definition half :: float64 where
  "half = 0x3FE0000000000000"

definition fade_volume :: "fpu \<Rightarrow> float32 \<Rightarrow> int" where
  "fade_volume fp portion1 =
     (let s = f_sin_half_pi fp portion1; s = f_mul fp s s;
          vol1 = int_of_d fp (d_add fp (d_of_f fp (f_mul fp s (f_of_int fp PCM_VOLUME_1))) half)
      in if vol1 > PCM_VOLUME_1 then PCM_VOLUME_1 else if vol1 < 0 then 0 else vol1)"

definition pcm_mix ::
    "fpu \<Rightarrow> bool \<Rightarrow> byte list \<Rightarrow> byte list \<Rightarrow> SampleFormat \<Rightarrow> float32 \<Rightarrow> 64 word \<Rightarrow> bool \<times> byte list \<times> 64 word" where
  "pcm_mix fp be buffer1 buffer2 fmt portion1 st =
     (if f_less fp portion1 (f_of_int fp 0)
      then (let (ok, buf) = pcm_add fp be buffer1 buffer2 fmt in (ok, buf, st))
      else (let vol1 = fade_volume fp portion1
            in pcm_add_vol fp be buffer1 buffer2 vol1 (PCM_VOLUME_1 - vol1) fmt st))"

section \<open>What the arithmetic computes\<close>

lemma sdiv_pos: "0 < k \<Longrightarrow> n sdiv k = (if n < 0 then - ((- n) div k) else n div (k::int))"
  by (auto simp: signed_divide_int_def sgn_if)

text \<open>The sum before the division, and how far the truncated quotient is from it.\<close>

lemma sdiv_1024:
  fixes n :: int
  shows "\<bar>1024 * (n sdiv 1024) - n\<bar> \<le> 1023"
proof -
  have "\<bar>1024 * (k div 1024) - k\<bar> \<le> 1023" for k :: int
    using pos_mod_bound[of 1024 k] pos_mod_sign[of 1024 k] minus_mod_eq_mult_div[of k 1024] by linarith
  from this[of n] this[of "- n"] show ?thesis by (auto simp: sdiv_pos)
qed

lemma scaled_error:
  fixes t d :: int
  assumes "\<bar>d\<bar> \<le> 511"
  shows "\<bar>1024 * ((t + d + 512) sdiv 1024) - t\<bar> < 2048"
  using sdiv_1024[of "t + d + 512"] assms by linarith

lemma abs_fits: "\<bar>x :: int\<bar> < 2 ^ n \<Longrightarrow> signed_take_bit n x = x"
  by (intro signed_take_bit_int_eq_self) auto

text \<open>What a loop does to every sample, whatever numbers the generator gives.\<close>

lemma dither_loop_all:
  assumes "\<And>x d. x \<in> set xs \<Longrightarrow> \<bar>d\<bar> \<le> 511 \<Longrightarrow> P x (f x d)"
  shows "list_all2 P xs (fst (dither_loop f xs st))"
  using assms
proof (induction xs arbitrary: st)
  case (Cons x xs)
  then show ?case
    using dither_range[of st] by (auto split: prod.splits) (metis fst_conv)
qed simp

text \<open>
  \<open>close_to bits t y\<close>: \<open>y\<close> is a sample of \<open>bits\<close> bits that is less than two steps away from the
  exact value \<open>t / 1024\<close>.
\<close>

definition close_to :: "nat \<Rightarrow> int \<Rightarrow> int \<Rightarrow> bool" where
  "close_to bits t y \<longleftrightarrow> fits bits y \<and> \<bar>1024 * y - t\<bar> < 2048"

lemma clamped_close:
  assumes "\<bar>d\<bar> \<le> 511" "- (2 ^ (bits - 1)) * 1024 \<le> t" "t \<le> (2 ^ (bits - 1) - 1) * 1024"
  shows "close_to bits t (PcmClamp bits ((t + d + 512) sdiv 1024))"
proof -
  let ?y = "(t + d + 512) sdiv 1024"
  have "\<bar>1024 * ?y - t\<bar> < 2048" using assms(1) by (rule scaled_error)
  then have "\<bar>1024 * PcmClamp bits ?y - t\<bar> < 2048"
    using assms(2,3) by (auto simp: PcmClamp_def Let_def abs_if split: if_splits)
  then show ?thesis by (simp add: close_to_def)
qed

text \<open>A sample times a volume of at most 100 percent.\<close>

lemma scaled_range:
  assumes "fits (Suc n) x" "0 \<le> volume" "volume \<le> (1024 :: int)"
  shows "- (2 ^ n) * 1024 \<le> x * volume \<and> x * volume \<le> (2 ^ n - 1) * 1024"
proof (cases "0 \<le> x")
  case True
  then have "x * volume \<le> (2 ^ n - 1) * 1024"
    using assms by (intro mult_mono) (auto simp: fits_def)
  moreover have "0 \<le> x * volume" using True assms by simp
  ultimately show ?thesis by (auto intro: order_trans[of _ 0])
next
  case False
  then have "(- x) * volume \<le> 2 ^ n * 1024" "x * volume \<le> 0"
    using assms by (auto simp: fits_def mult_le_0_iff intro!: mult_mono simp del: mult_minus_left)
  then show ?thesis by (auto intro: order_trans[of _ 0])
qed

lemma scaled_abs:
  assumes "fits (Suc n) x" "0 \<le> volume" "volume \<le> (1024 :: int)"
  shows "\<bar>x * volume\<bar> \<le> 2 ^ n * 1024"
  using scaled_range[OF assms] by (simp add: abs_le_iff algebra_simps)

text \<open>
  A sum \<open>t\<close> of at most \<open>n + 10\<close> bits is scaled without leaving a type with eleven bits more than
  \<open>n\<close>, and the quotient has at most two bits more.
\<close>

definition scale_steps :: "(int \<Rightarrow> int) \<Rightarrow> int \<Rightarrow> int \<Rightarrow> int" where
  "scale_steps cast t d = cast (cast (cast (cast t + d) + PCM_VOLUME_1 div 2) sdiv PCM_VOLUME_1)"

lemma scale_steps_exact:
  assumes t: "\<bar>t\<bar> \<le> 2 ^ n * 1024" and d: "\<bar>d\<bar> \<le> 511" and w: "n + 11 \<le> w"
  shows "scale_steps (signed_take_bit w) t d = (t + d + 512) sdiv 1024"
proof -
  have "(2 :: int) ^ (n + 11) \<le> 2 ^ w" using w by (intro power_increasing) auto
  then have big: "2 ^ n * 1024 + 2 ^ n * 1024 \<le> (2 :: int) ^ w" "1 \<le> (2 :: int) ^ n"
    by (simp_all add: power_add)
  then have "\<bar>t\<bar> < 2 ^ w" "\<bar>t + d\<bar> < 2 ^ w" "\<bar>t + d + 512\<bar> < 2 ^ w"
    using t d by linarith+
  moreover have "\<bar>(t + d + 512) sdiv 1024\<bar> < 2 ^ w"
    using scaled_error[OF d, of t] t big by linarith
  ultimately show ?thesis
    by (simp add: scale_steps_def PCM_VOLUME_1_def abs_fits)
qed

lemma scale_steps_narrow:
  fixes t d :: int
  assumes t: "\<bar>t\<bar> \<le> 2 ^ n * 1024" and d: "\<bar>d\<bar> \<le> 511" and u: "n + 2 \<le> u"
  shows "signed_take_bit u ((t + d + 512) sdiv 1024) = (t + d + 512) sdiv 1024"
proof (rule abs_fits)
  have "(2 :: int) ^ (n + 2) \<le> 2 ^ u" using u by (intro power_increasing) auto
  then have "4 * 2 ^ n \<le> (2 :: int) ^ u" "1 \<le> (2 :: int) ^ n" by (simp_all add: power_add)
  then show "\<bar>(t + d + 512) sdiv 1024\<bar> < 2 ^ u"
    using scaled_error[OF d, of t] t by linarith
qed

lemma volume_sample_steps: "volume_sample cast volume x d = scale_steps cast (x * volume) d"
  by (simp add: volume_sample_def scale_steps_def)

text \<open>One sample in each of the four formats.\<close>

lemma volume_close:
  assumes v: "0 \<le> volume" "volume \<le> (1024 :: int)" and d: "\<bar>d\<bar> \<le> 511"
  shows "fits 8 x \<Longrightarrow> close_to 8 (x * volume) (PcmClamp 8 (s16 (volume_sample s32 volume x d)))"
    and "fits 16 x \<Longrightarrow> close_to 16 (x * volume) (PcmClamp 16 (volume_sample s32 volume x d))"
    and "fits 24 x \<Longrightarrow> close_to 24 (x * volume) (PcmClamp 24 (s32 (volume_sample s64 volume x d)))"
    and "fits 32 x \<Longrightarrow> close_to 32 (x * volume) (PcmClamp 32 (volume_sample s64 volume x d))"
  using scaled_range[of 7 x volume] scaled_range[of 15 x volume] scaled_range[of 23 x volume]
    scaled_range[of 31 x volume] scaled_abs[of 7 x volume] scaled_abs[of 15 x volume]
    scaled_abs[of 23 x volume] scaled_abs[of 31 x volume]
  by (simp_all add: volume_sample_steps v
      scale_steps_narrow[OF _ d, of _ 7] scale_steps_narrow[OF _ d, of _ 23]
      scale_steps_exact[OF _ d, of _ 7] scale_steps_exact[OF _ d, of _ 15]
      scale_steps_exact[OF _ d, of _ 23] scale_steps_exact[OF _ d, of _ 31]
      clamped_close[OF d])

text \<open>Two samples whose volumes add up to 100 percent.\<close>

lemma mixed_range:
  fixes a b v1 v2 :: int
  assumes "fits (Suc n) a" "fits (Suc n) b" "0 \<le> v1" "0 \<le> v2" "v1 + v2 = 1024"
  shows "- (2 ^ n) * 1024 \<le> a * v1 + b * v2 \<and> a * v1 + b * v2 \<le> (2 ^ n - 1) * 1024"
proof -
  have "- (2 ^ n) * v1 \<le> a * v1" "- (2 ^ n) * v2 \<le> b * v2"
    "a * v1 \<le> (2 ^ n - 1) * v1" "b * v2 \<le> (2 ^ n - 1) * v2"
    using assms by (auto simp: fits_def intro!: mult_right_mono simp del: mult_minus_left)
  then have "- (2 ^ n) * (v1 + v2) \<le> a * v1 + b * v2" "a * v1 + b * v2 \<le> (2 ^ n - 1) * (v1 + v2)"
    by (simp_all add: algebra_simps)
  then show ?thesis using assms(5) by simp
qed

lemma PcmAddVolume_close:
  fixes v1 v2 :: int
  assumes v: "0 \<le> v1" "0 \<le> v2" "v1 + v2 = 1024" and d: "\<bar>d\<bar> \<le> 511"
    and ab: "fits (Suc n) a" "fits (Suc n) b" and w: "n + 11 \<le> w"
  shows "close_to (Suc n) (a * v1 + b * v2) (PcmAddVolume (signed_take_bit w) (Suc n) v1 v2 (a, b) d)"
proof -
  let ?t = "a * v1 + b * v2"
  have t: "- (2 ^ n) * 1024 \<le> ?t \<and> ?t \<le> (2 ^ n - 1) * 1024"
    using ab v by (rule mixed_range)
  have "(2 :: int) ^ (n + 11) \<le> 2 ^ w" using w by (intro power_increasing) auto
  then have "2 ^ n * 1024 < (2 :: int) ^ w"
    by (simp add: power_add) (use zero_less_power[of "2 :: int" n] in linarith)
  then have "signed_take_bit w (a * v1) = a * v1" "signed_take_bit w (b * v2) = b * v2"
    using le_less_trans[OF scaled_abs[OF ab(1) v(1)]] le_less_trans[OF scaled_abs[OF ab(2) v(2)]] v
    by (simp_all add: abs_fits)
  then have "PcmAddVolume (signed_take_bit w) (Suc n) v1 v2 (a, b) d =
      PcmClamp (Suc n) (scale_steps (signed_take_bit w) ?t d)"
    by (simp add: PcmAddVolume_def scale_steps_def)
  also have "scale_steps (signed_take_bit w) ?t d = (?t + d + 512) sdiv 1024"
    using t d w by (intro scale_steps_exact) (auto simp: abs_le_iff algebra_simps)
  finally show ?thesis
    using clamped_close[OF d, of "Suc n" ?t] t by simp
qed

text \<open>The sum without volumes saturates.\<close>

lemma PcmAdd_exact:
  assumes "fits (Suc n) a" "fits (Suc n) b" "n < w"
  shows "PcmAdd (signed_take_bit w) (Suc n) a b = PcmClamp (Suc n) (a + b)"
proof -
  have "2 * 2 ^ n \<le> (2 :: int) ^ w"
    using power_increasing[of "Suc n" w "2 :: int"] assms(3) by simp
  then have "signed_take_bit w (a + b) = a + b"
    using assms(1,2) by (intro signed_take_bit_int_eq_self) (auto simp: fits_def)
  then show ?thesis by (simp add: PcmAdd_def)
qed

section \<open>Whole buffers\<close>

fun sample_bits :: "SampleFormat \<Rightarrow> nat" where
  "sample_bits SF_S8 = 8"
| "sample_bits SF_S16 = 16"
| "sample_bits SF_S24_P32 = 24"
| "sample_bits SF_S32 = 32"
| "sample_bits _ = 0"

lemma in_memory_all:
  assumes "0 < n" "bits \<le> 8 * n"
    and "\<And>xs. xs = loads be n buf \<Longrightarrow> list_all2 (\<lambda>x y. close_to bits (g x) y) (h xs) (fst (f xs st))"
  shows "list_all2 (\<lambda>x y. close_to bits (g x) y) (h (loads be n buf))
      (loads be n (fst (in_memory be n buf f st)))"
proof -
  let ?ys = "fst (f (loads be n buf) st)"
  have all: "list_all2 (\<lambda>x y. close_to bits (g x) y) (h (loads be n buf)) ?ys"
    using assms(3) by simp
  then have "fits bits y" if "y \<in> set ?ys" for y
    using that by (auto simp: list_all2_conv_all_nth in_set_conv_nth close_to_def)
  then have "loads be n (store be n ?ys) = ?ys"
    using assms(1,2) by (intro load_store) (auto intro: fits_mono)
  then show ?thesis
    using all by (cases "f (loads be n buf) st") (simp add: in_memory_def)
qed

lemma length_dither_loop [simp, pcm_sizes]: "length (fst (dither_loop f xs st)) = length xs"
  by (induction xs arbitrary: st) (auto split: prod.splits, metis fst_conv)

lemma length_in_memory [pcm_sizes]:
  assumes "0 < n" "n dvd length buf" "\<And>xs. length (fst (f xs st)) = length xs"
  shows "length (fst (in_memory be n buf f st)) = length buf"
  using assms(1,2) assms(3)[of "loads be n buf"]
  by (cases "f (loads be n buf) st") (simp add: in_memory_def)

lemma loads_zero:
  assumes n: "0 < n" "n dvd k" and x: "x \<in> set (loads be n (replicate k 0))"
  shows "x = 0"
proof -
  have of0: "of_le (replicate m 0) = 0" for m
    by (induction m) (simp_all add: concat_bit_def)
  obtain c where c: "c \<in> set (chunks n (replicate k 0))"
    and x: "x = signed_take_bit (8 * n - 1) (bytes_int be c)"
    using x by (auto simp: loads_def)
  have "set c \<subseteq> set (concat (chunks n (replicate k (0 :: byte))))" using c by auto
  then have "set c \<subseteq> {0}"
    using n by (auto simp: concat_chunks)
  then have "c = replicate (length c) 0"
    by (intro replicate_length_same[symmetric]) auto
  then have "bytes_int be c = 0"
    using of0[of "length c"] by (metis bytes_int_def rev_replicate)
  then show "x = 0" using x by simp
qed

text \<open>The sample formats of integers.\<close>

lemma int_formats:
  assumes "fmt \<in> {SF_S8, SF_S16, SF_S24_P32, SF_S32}"
  shows "0 < unat (sample_format_size fmt)" "sample_bits fmt \<le> 8 * unat (sample_format_size fmt)"
  using assms by auto

lemma pcm_volume_close:
  fixes volume :: int
  assumes fmt: "fmt \<in> {SF_S8, SF_S16, SF_S24_P32, SF_S32}"
    and n: "n = unat (sample_format_size fmt)" "n dvd length buf"
    and fit: "\<And>x. x \<in> set (loads be n buf) \<Longrightarrow> fits (sample_bits fmt) x"
    and v: "0 \<le> volume" "volume \<le> 1024"
  shows "list_all2 (\<lambda>x y. close_to (sample_bits fmt) (x * volume) y) (loads be n buf)
      (loads be n (fst (snd (pcm_volume fp be buf fmt volume st))))"
proof -
  consider "volume = 1024" | "volume = 0" | "0 < volume" "volume < 1024" using v by linarith
  then show ?thesis
  proof cases
    case 1
    then show ?thesis
      using fit by (auto simp: pcm_volume_def PCM_VOLUME_1_def list_all2_same close_to_def)
  next
    case 2
    have "fits (sample_bits fmt) 0" using fmt by (auto simp: fits_def)
    moreover have "loads be n (replicate (length buf) 0) = replicate (length (loads be n buf)) 0"
      using loads_zero[OF _ n(2)] int_formats(1)[OF fmt] n(1)
      by (intro replicate_eqI) auto
    ultimately show ?thesis
      using 2 by (simp add: pcm_volume_def PCM_VOLUME_1_def close_to_def list_all2_conv_all_nth)
  next
    case 3
    note close = volume_close[OF v]
    show ?thesis
      using fmt 3 n(1) fit
      by (auto simp: pcm_volume_def PCM_VOLUME_1_def pcm_volume_change_8_def pcm_volume_change_16_def
          pcm_volume_change_24_def pcm_volume_change_32_def
          intro!: in_memory_all[where h = "\<lambda>xs. xs"] dither_loop_all close)
  qed
qed

lemma fade_range: "0 \<le> fade_volume fp p \<and> fade_volume fp p \<le> 1024"
  by (simp add: fade_volume_def PCM_VOLUME_1_def Let_def)

lemma pcm_add_vol_close:
  fixes v1 v2 :: int
  assumes fmt: "fmt \<in> {SF_S8, SF_S16, SF_S24_P32, SF_S32}"
    and n: "n = unat (sample_format_size fmt)"
    and fit: "\<And>x. x \<in> set (loads be n buf1) \<union> set (loads be n buf2) \<Longrightarrow> fits (sample_bits fmt) x"
    and v: "0 \<le> v1" "0 \<le> v2" "v1 + v2 = 1024"
  shows "list_all2 (\<lambda>ab y. close_to (sample_bits fmt) (fst ab * v1 + snd ab * v2) y)
      (zip (loads be n buf1) (loads be n buf2))
      (loads be n (fst (snd (pcm_add_vol fp be buf1 buf2 v1 v2 fmt st))))"
proof -
  have step: "list_all2 (\<lambda>ab y. close_to (Suc b) (fst ab * v1 + snd ab * v2) y)
      (zip (loads be n buf1) (loads be n buf2))
      (loads be n (fst (PcmAddVolumeVoid (signed_take_bit w) (Suc b) n be buf1 buf2 v1 v2 st)))"
    if "Suc b = sample_bits fmt" "b + 11 \<le> w" for b w
  proof -
    have "list_all2 (\<lambda>ab y. close_to (Suc b) (fst ab * v1 + snd ab * v2) y)
        (zip (loads be n buf1) (loads be n buf2))
        (fst (dither_loop (PcmAddVolume (signed_take_bit w) (Suc b) v1 v2)
          (zip (loads be n buf1) (loads be n buf2)) st))"
    proof (rule dither_loop_all)
      fix ab and d :: int
      assume ab: "ab \<in> set (zip (loads be n buf1) (loads be n buf2))" and d: "\<bar>d\<bar> \<le> 511"
      obtain x y where xy: "ab = (x, y)" by (cases ab)
      then have "fits (Suc b) x" "fits (Suc b) y"
        using ab fit that(1) by (auto dest: set_zip_leftD set_zip_rightD)
      from PcmAddVolume_close[OF v d this that(2)] show
        "close_to (Suc b) (fst ab * v1 + snd ab * v2) (PcmAddVolume (signed_take_bit w) (Suc b) v1 v2 ab d)"
        by (simp add: xy)
    qed
    then show ?thesis
      unfolding PcmAddVolumeVoid_def
      using in_memory_all[where h = "\<lambda>xs. zip xs (loads be n buf2)" and bits = "Suc b" and n = n]
        int_formats[OF fmt] n that(1) by simp
  qed
  show ?thesis
    using fmt step[of 7 31] step[of 15 31] step[of 23 63] step[of 31 63]
    by (auto simp: pcm_add_vol_def n)
qed

lemma pcm_add_saturates:
  assumes fmt: "fmt \<in> {SF_S8, SF_S16, SF_S24_P32, SF_S32}"
    and n: "n = unat (sample_format_size fmt)"
    and fit: "\<And>x. x \<in> set (loads be n buf1) \<union> set (loads be n buf2) \<Longrightarrow> fits (sample_bits fmt) x"
  shows "fst (pcm_add fp be buf1 buf2 fmt)"
    and "loads be n (snd (pcm_add fp be buf1 buf2 fmt)) =
      map2 (\<lambda>a b. PcmClamp (sample_bits fmt) (a + b)) (loads be n buf1) (loads be n buf2)"
proof -
  show "fst (pcm_add fp be buf1 buf2 fmt)" using fmt by (auto simp: pcm_add_def)
  have step: "loads be n (PcmAddVoid (signed_take_bit w) (Suc b) n be buf1 buf2) =
      map2 (\<lambda>a b. PcmClamp (sample_bits fmt) (a + b)) (loads be n buf1) (loads be n buf2)"
    if "Suc b = sample_bits fmt" "b < w" for b w
  proof -
    have "map2 (PcmAdd (signed_take_bit w) (Suc b)) (loads be n buf1) (loads be n buf2) =
        map2 (\<lambda>a b. PcmClamp (sample_bits fmt) (a + b)) (loads be n buf1) (loads be n buf2)"
    proof (rule map_cong[OF refl], clarify)
      fix x y
      assume "(x, y) \<in> set (zip (loads be n buf1) (loads be n buf2))"
      then have "fits (Suc b) x" "fits (Suc b) y"
        using fit that(1) by (auto dest: set_zip_leftD set_zip_rightD)
      then show "PcmAdd (signed_take_bit w) (Suc b) x y = PcmClamp (sample_bits fmt) (x + y)"
        using PcmAdd_exact that by metis
    qed
    moreover have "loads be n (store be n (map2 (\<lambda>a b. PcmClamp (sample_bits fmt) (a + b)) xs ys)) =
        map2 (\<lambda>a b. PcmClamp (sample_bits fmt) (a + b)) xs ys" for xs ys
      using int_formats[OF fmt] n
      by (intro load_store) (auto intro: fits_mono[OF clamp_fits])
    ultimately show ?thesis by (simp only: PcmAddVoid_def)
  qed
  show "loads be n (snd (pcm_add fp be buf1 buf2 fmt)) =
      map2 (\<lambda>a b. PcmClamp (sample_bits fmt) (a + b)) (loads be n buf1) (loads be n buf2)"
    using fmt step[of 7 31] step[of 15 31] step[of 23 63] step[of 31 63]
    by (auto simp: pcm_add_def n)
qed

end
