(* ===== verification/PCM_Format.thy ===== *)
theory PCM_Format
  imports PCM_Volume
begin

text \<open>
  Conversion between sample formats (pcm/PcmFormat.cxx) and the dithering that shortens samples
  to 16 bits (pcm/PcmDither.hxx, pcm/PcmDither.cxx).  \<open>int_fast32_t\<close> is the 64 bit integer it is
  on 64 bit hosts.
\<close>

section \<open>Dithering\<close>

record pcm_dither =
  pd_error0 :: int
  pd_error1 :: int
  pd_error2 :: int
  pd_random :: int

definition new_PcmDither :: pcm_dither where
  "new_PcmDither = \<lparr>pd_error0 = 0, pd_error1 = 0, pd_error2 = 0, pd_random = 0\<rparr>"

definition Dither24To16 :: "int \<Rightarrow> pcm_dither \<Rightarrow> int \<times> pcm_dither" where
  "Dither24To16 sample pd =
     (let msk = 2 ^ 8 - 1; ONE = 2 ^ 23; MIN_VALUE = - ONE; MAX_VALUE = ONE - 1;
          sample = s64 (sample + s32 (s32 (pd_error0 pd - pd_error1 pd) + pd_error2 pd));
          error2 = pd_error1 pd;
          error1 = pd_error0 pd sdiv 2;
          out = s64 (sample + 2 ^ 7);
          rnd = uint (pcm_prng (word_of_int (pd_random pd)));
          out = s64 (out + ((rnd AND msk) - (pd_random pd AND msk)));
          (out, sample) =
            (if out > MAX_VALUE then (MAX_VALUE, if sample > MAX_VALUE then MAX_VALUE else sample)
             else if out < MIN_VALUE then (MIN_VALUE, if sample < MIN_VALUE then MIN_VALUE else sample)
             else (out, sample));
          out = out AND NOT msk
      in (s16 (drop_bit 8 out),
          \<lparr>pd_error0 = s32 (sample - out), pd_error1 = error1, pd_error2 = error2,
           pd_random = s32 rnd\<rparr>))"

fun Dither24To16_loop :: "int list \<Rightarrow> pcm_dither \<Rightarrow> int list \<times> pcm_dither" where
  "Dither24To16_loop [] pd = ([], pd)"
| "Dither24To16_loop (x # xs) pd =
     (let (y, pd) = Dither24To16 x pd; (ys, pd) = Dither24To16_loop xs pd in (y # ys, pd))"

definition Dither32To16 :: "int \<Rightarrow> pcm_dither \<Rightarrow> int \<times> pcm_dither" where
  "Dither32To16 sample pd = Dither24To16 (drop_bit 8 sample) pd"

fun Dither32To16_loop :: "int list \<Rightarrow> pcm_dither \<Rightarrow> int list \<times> pcm_dither" where
  "Dither32To16_loop [] pd = ([], pd)"
| "Dither32To16_loop (x # xs) pd =
     (let (y, pd) = Dither32To16 x pd; (ys, pd) = Dither32To16_loop xs pd in (y # ys, pd))"

section \<open>Sample formats\<close>

text \<open>The loops over arrays.\<close>

definition pcm_convert_8_to_16 :: "int list \<Rightarrow> int list" where
  "pcm_convert_8_to_16 = map (\<lambda>x. s16 (push_bit 8 x))"

definition pcm_convert_8_to_24 :: "int list \<Rightarrow> int list" where
  "pcm_convert_8_to_24 = map (\<lambda>x. s32 (push_bit 16 x))"

definition pcm_convert_16_to_24 :: "int list \<Rightarrow> int list" where
  "pcm_convert_16_to_24 = map (\<lambda>x. s32 (push_bit 8 x))"

definition pcm_convert_32_to_24 :: "int list \<Rightarrow> int list" where
  "pcm_convert_32_to_24 = map (drop_bit 8)"

definition pcm_convert_8_to_32 :: "int list \<Rightarrow> int list" where
  "pcm_convert_8_to_32 = map (\<lambda>x. s32 (push_bit 24 x))"

definition pcm_convert_16_to_32 :: "int list \<Rightarrow> int list" where
  "pcm_convert_16_to_32 = map (\<lambda>x. s32 (push_bit 16 x))"

definition pcm_convert_24_to_32 :: "int list \<Rightarrow> int list" where
  "pcm_convert_24_to_32 = map (\<lambda>x. s32 (push_bit 8 x))"

text \<open>\<open>int sample(*src++ * factor)\<close>, clamped to the bits of the format.\<close>

definition ConvertFromFloat :: "fpu \<Rightarrow> nat \<Rightarrow> float32 list \<Rightarrow> int list" where
  "ConvertFromFloat fp bits =
     (let factor = f_of_int fp (2 ^ (bits - 1))
      in map (\<lambda>s. PcmClamp bits (int_of_f fp (f_mul fp s factor))))"

text \<open>\<open>factor = 0.5 / (1 << (BITS - 2))\<close>\<close>

definition ConvertToFloat :: "fpu \<Rightarrow> nat \<Rightarrow> int list \<Rightarrow> float32 list" where
  "ConvertToFloat fp bits =
     (let factor = f_of_d fp (d_div fp half (d_of_int fp (2 ^ (bits - 2))))
      in map (\<lambda>x. f_mul fp (f_of_int fp x) factor))"

text \<open>The functions that allocate the destination, from the source in memory.\<close>

definition pcm_convert_to_16 ::
    "fpu \<Rightarrow> bool \<Rightarrow> SampleFormat \<Rightarrow> byte list \<Rightarrow> pcm_dither \<Rightarrow> byte list option \<times> pcm_dither" where
  "pcm_convert_to_16 fp be src_format src pd =
     (case src_format of
        SF_S8 \<Rightarrow> (Some (store be 2 (pcm_convert_8_to_16 (loads be 1 src))), pd)
      | SF_S16 \<Rightarrow> (Some src, pd)
      | SF_S24_P32 \<Rightarrow> (let (ys, pd) = Dither24To16_loop (loads be 4 src) pd in (Some (store be 2 ys), pd))
      | SF_S32 \<Rightarrow> (let (ys, pd) = Dither32To16_loop (loads be 4 src) pd in (Some (store be 2 ys), pd))
      | SF_FLOAT \<Rightarrow> (Some (store be 2 (ConvertFromFloat fp 16 (floats_of be src))), pd)
      | _ \<Rightarrow> (None, pd))"

definition pcm_convert_to_24 :: "fpu \<Rightarrow> bool \<Rightarrow> SampleFormat \<Rightarrow> byte list \<Rightarrow> byte list option" where
  "pcm_convert_to_24 fp be src_format src =
     (case src_format of
        SF_S8 \<Rightarrow> Some (store be 4 (pcm_convert_8_to_24 (loads be 1 src)))
      | SF_S16 \<Rightarrow> Some (store be 4 (pcm_convert_16_to_24 (loads be 2 src)))
      | SF_S24_P32 \<Rightarrow> Some src
      | SF_S32 \<Rightarrow> Some (store be 4 (pcm_convert_32_to_24 (loads be 4 src)))
      | SF_FLOAT \<Rightarrow> Some (store be 4 (ConvertFromFloat fp 24 (floats_of be src)))
      | _ \<Rightarrow> None)"

text \<open>A float is converted to 24 bits first, which are then shifted in place.\<close>

definition pcm_convert_to_32 :: "fpu \<Rightarrow> bool \<Rightarrow> SampleFormat \<Rightarrow> byte list \<Rightarrow> byte list option" where
  "pcm_convert_to_32 fp be src_format src =
     (case src_format of
        SF_S8 \<Rightarrow> Some (store be 4 (pcm_convert_8_to_32 (loads be 1 src)))
      | SF_S16 \<Rightarrow> Some (store be 4 (pcm_convert_16_to_32 (loads be 2 src)))
      | SF_S24_P32 \<Rightarrow> Some (store be 4 (pcm_convert_24_to_32 (loads be 4 src)))
      | SF_S32 \<Rightarrow> Some src
      | SF_FLOAT \<Rightarrow> Some (store be 4 (pcm_convert_24_to_32 (ConvertFromFloat fp 24 (floats_of be src))))
      | _ \<Rightarrow> None)"

definition pcm_convert_to_float :: "fpu \<Rightarrow> bool \<Rightarrow> SampleFormat \<Rightarrow> byte list \<Rightarrow> byte list option" where
  "pcm_convert_to_float fp be src_format src =
     (case src_format of
        SF_S8 \<Rightarrow> Some (of_floats be (ConvertToFloat fp 8 (loads be 1 src)))
      | SF_S16 \<Rightarrow> Some (of_floats be (ConvertToFloat fp 16 (loads be 2 src)))
      | SF_S24_P32 \<Rightarrow> Some (of_floats be (ConvertToFloat fp 24 (loads be 4 src)))
      | SF_S32 \<Rightarrow> Some (of_floats be (ConvertToFloat fp 32 (loads be 4 src)))
      | SF_FLOAT \<Rightarrow> Some src
      | _ \<Rightarrow> None)"

section \<open>The error of the dithering stays bounded\<close>

definition dither_ok :: "pcm_dither \<Rightarrow> bool" where
  "dither_ok pd \<longleftrightarrow> \<bar>pd_error0 pd\<bar> \<le> 383 \<and> \<bar>pd_error1 pd\<bar> \<le> 191 \<and> \<bar>pd_error2 pd\<bar> \<le> 191"

lemma new_dither_ok: "dither_ok new_PcmDither"
  by (simp add: dither_ok_def new_PcmDither_def)

lemma and_255: "(x :: int) AND 255 = x mod 256"
  using take_bit_eq_mask[of 8 x] take_bit_eq_mod[of 8 x] by (simp add: mask_numeral)

lemma and_not_255: "(x :: int) AND NOT 255 = x - x mod 256"
proof -
  have m: "(255 :: int) = mask 8" by (simp add: mask_numeral)
  have "x AND NOT 255 = push_bit 8 (drop_bit 8 x)"
    unfolding m by (rule bit_eqI) (auto simp: bit_simps)
  then show ?thesis
    using bits_ident[of 8 x] by (simp add: take_bit_eq_mod)
qed

text \<open>The heart of the step, without the casts.\<close>

lemma dither_core:
  fixes s x r out t :: int
  assumes x: "- 8388608 \<le> x" "x < 8388608" and r: "\<bar>r\<bar> \<le> 255" and e: "\<bar>s - x\<bar> \<le> 765"
    and clip: "(if s + 128 + r > 8388607 then (8388607, if s > 8388607 then 8388607 else s)
       else if s + 128 + r < - 8388608 then (- 8388608, if s < - 8388608 then - 8388608 else s)
       else (s + 128 + r, s)) = (out, t)"
  defines "q \<equiv> out - out mod 256"
  shows "\<bar>t - q\<bar> \<le> 383" "- 8388608 \<le> q" "q < 8388608" "\<bar>q - x\<bar> \<le> 1148" "q mod 256 = 0"
proof -
  have m: "0 \<le> out mod 256" "out mod 256 < 256" by simp_all
  have top: "(8388607 :: int) mod 256 = 255" "(- 8388608 :: int) mod 256 = 0" by simp_all
  have o: "- 8388608 \<le> out" "out \<le> 8388607"
    using clip by (auto split: if_splits)
  have q: "q = 256 * (out div 256)" by (simp add: q_def minus_mod_eq_mult_div)
  then show "q mod 256 = 0" by simp
  have "q \<ge> - 8388608 - 255" using o m by (simp add: q_def)
  moreover have "- 8388608 - 255 \<le> 256 * k \<Longrightarrow> - 8388608 \<le> 256 * k" for k :: int by presburger
  ultimately show "- 8388608 \<le> q" unfolding q by blast
  show "q < 8388608" using o m by (simp add: q_def)
  show tq: "\<bar>t - q\<bar> \<le> 383"
    using clip m top r by (auto simp: q_def abs_le_iff split: if_splits)
  have "\<bar>t - x\<bar> \<le> 765"
    using clip x e by (auto split: if_splits)
  with tq show "\<bar>q - x\<bar> \<le> 1148" by linarith
qed

lemma sdiv_2_bound: "\<bar>e\<bar> \<le> 383 \<Longrightarrow> \<bar>e sdiv (2 :: int)\<bar> \<le> 191"
proof -
  assume "\<bar>e\<bar> \<le> 383"
  moreover have "k div 2 \<le> 191" "0 \<le> k div 2" if "0 \<le> k" "k \<le> 383" for k :: int
    using that by presburger+
  ultimately show ?thesis by (auto simp: sdiv_pos)
qed

lemma s64_small: "\<bar>x\<bar> \<le> 9000000 \<Longrightarrow> s64 x = x"
  by (rule abs_fits) simp

lemma s32_small: "\<bar>x\<bar> \<le> 765 \<Longrightarrow> s32 x = x"
  by (rule abs_fits) simp

lemma dither_numbers:
  "(2 :: int) ^ 8 - 1 = 255" "(2 :: int) ^ 7 = 128" "(2 :: int) ^ 23 - 1 = 8388607"
  "- ((2 :: int) ^ 23) = - 8388608"
  by simp_all

text \<open>
  One sample: the errors stay within bounds, no arithmetic wraps, and the sample of 16 bits is
  at most five steps away from the sample of 24 bits.
\<close>

lemma Dither24To16_ok:
  assumes pd: "dither_ok pd" and x: "fits 24 x"
  shows "dither_ok (snd (Dither24To16 x pd))"
    and "\<bar>256 * fst (Dither24To16 x pd) - x\<bar> \<le> 1148"
    and "fits 16 (fst (Dither24To16 x pd))"
proof -
  let ?e = "pd_error0 pd - pd_error1 pd + pd_error2 pd"
  let ?rnd = "uint (pcm_prng (word_of_int (pd_random pd)))"
  define r where "r = ?rnd mod 256 - pd_random pd mod 256"
  let ?s = "x + ?e"
  have x': "- 8388608 \<le> x" "x < 8388608" using x by (simp_all add: fits_def)
  have e: "\<bar>?e\<bar> \<le> 765" "\<bar>pd_error0 pd - pd_error1 pd\<bar> \<le> 765" using pd by (auto simp: dither_ok_def)
  have r: "\<bar>r\<bar> \<le> 255"
  proof -
    have m: "0 \<le> k mod 256" "k mod 256 \<le> 255" for k :: int by simp_all
    have "\<bar>i - j\<bar> \<le> 255" if "0 \<le> i" "i \<le> 255" "0 \<le> j" "j \<le> 255" for i j :: int
      using that by linarith
    from this[OF m m] show ?thesis unfolding r_def .
  qed
  obtain out t where clip: "(if ?s + 128 + r > 8388607 then (8388607, if ?s > 8388607 then 8388607 else ?s)
       else if ?s + 128 + r < - 8388608 then (- 8388608, if ?s < - 8388608 then - 8388608 else ?s)
       else (?s + 128 + r, ?s)) = (out, t)"
    by (metis surj_pair)
  define q where "q = out - out mod 256"
  have core: "\<bar>t - q\<bar> \<le> 383" "- 8388608 \<le> q" "q < 8388608" "\<bar>q - x\<bar> \<le> 1148" "q mod 256 = 0"
    unfolding q_def using dither_core[OF x' r _ clip] e by simp_all
  have casts: "s32 (pd_error0 pd - pd_error1 pd) = pd_error0 pd - pd_error1 pd" "s32 ?e = ?e"
    "s64 (x + ?e) = ?s" "s64 (?s + 128) = ?s + 128" "s64 (?s + 128 + r) = ?s + 128 + r"
    "s32 (t - q) = t - q"
    using e r x' core(1) by (intro s32_small s64_small; linarith)+
  obtain k where k: "q = 256 * k"
    using core(5) by (metis mod_0_imp_dvd dvdE)
  then have "- 32768 \<le> k" "k < 32768" using core(2,3) by linarith+
  then have "s16 k = k" by (intro signed_take_bit_int_eq_self) simp_all
  then have "s16 (drop_bit 8 q) = q div 256"
    by (simp add: drop_bit_eq_div k)
  then have result: "Dither24To16 x pd = (q div 256,
      \<lparr>pd_error0 = t - q, pd_error1 = pd_error0 pd sdiv 2, pd_error2 = pd_error1 pd, pd_random = s32 ?rnd\<rparr>)"
    by (simp only: Dither24To16_def Let_def dither_numbers and_255 and_not_255 r_def[symmetric] casts
        clip prod.case q_def[symmetric])
  have "256 * (q div 256) = q" using core(5) by (simp add: minus_mod_eq_mult_div[symmetric])
  then show "\<bar>256 * fst (Dither24To16 x pd) - x\<bar> \<le> 1148" using core result by simp
  show "dither_ok (snd (Dither24To16 x pd))"
    using core pd result sdiv_2_bound[of "pd_error0 pd"] by (simp add: dither_ok_def)
  show "fits 16 (fst (Dither24To16 x pd))"
    using result \<open>s16 (drop_bit 8 q) = q div 256\<close> cast_fits[of 15 "drop_bit 8 q"] by simp
qed

text \<open>The two loops; a sample of 32 bits loses its low byte first.\<close>

definition dithered :: "int \<Rightarrow> int \<Rightarrow> bool" where
  "dithered x y \<longleftrightarrow> fits 16 y \<and> \<bar>256 * y - x\<bar> \<le> 1148"

lemma Dither24To16_loop_ok:
  assumes "dither_ok pd" "\<And>x. x \<in> set xs \<Longrightarrow> fits 24 x"
  shows "dither_ok (snd (Dither24To16_loop xs pd)) \<and> list_all2 dithered xs (fst (Dither24To16_loop xs pd))"
  using assms
proof (induction xs arbitrary: pd)
  case (Cons x xs)
  obtain y pd' where y: "Dither24To16 x pd = (y, pd')" by (cases "Dither24To16 x pd")
  have "dither_ok pd'" "dithered x y"
    using Dither24To16_ok[of pd x] Cons.prems y by (simp_all add: dithered_def)
  moreover from Cons.IH[OF this(1)] Cons.prems
  have "dither_ok (snd (Dither24To16_loop xs pd')) \<and> list_all2 dithered xs (fst (Dither24To16_loop xs pd'))"
    by simp
  ultimately show ?case by (cases "Dither24To16_loop xs pd'") (simp add: y)
qed simp

lemma Dither32To16_loop: "Dither32To16_loop xs pd = Dither24To16_loop (map (drop_bit 8) xs) pd"
  by (induction xs arbitrary: pd) (simp_all add: Dither32To16_def)

lemma length_Dither24To16_loop [simp, pcm_sizes]: "length (fst (Dither24To16_loop xs pd)) = length xs"
  by (induction xs arbitrary: pd) (auto split: prod.splits, metis fst_conv)

lemma drop_8_fits: "fits 32 x \<Longrightarrow> fits 24 (drop_bit 8 x)"
  unfolding fits_def drop_bit_eq_div by (simp; presburger)

section \<open>Shifts are exact\<close>

lemma push_fits:
  assumes "fits (Suc b) x" "b + k \<le> w"
  shows "signed_take_bit w (push_bit k x) = x * 2 ^ k" "fits (Suc (b + k)) (x * 2 ^ k)"
proof -
  have r: "- (2 ^ b) * 2 ^ k \<le> x * 2 ^ k" "x * 2 ^ k < 2 ^ b * 2 ^ k"
    using assms(1) by (auto simp: fits_def intro!: mult_right_mono mult_strict_right_mono simp del: mult_minus_left)
  then show "fits (Suc (b + k)) (x * 2 ^ k)" by (simp add: fits_def power_add)
  then have "fits (Suc w) (x * 2 ^ k)" by (rule fits_mono) (use assms(2) in simp)
  then show "signed_take_bit w (push_bit k x) = x * 2 ^ k"
    by (simp add: push_bit_eq_mult cast_id)
qed

lemma map_shift:
  assumes "\<And>x. x \<in> set xs \<Longrightarrow> fits (Suc b) x" "b + k \<le> w"
  shows "map (\<lambda>x. signed_take_bit w (push_bit k x)) xs = map (\<lambda>x. x * 2 ^ k) xs"
  using assms by (auto intro: push_fits(1))

text \<open>Storing shifted samples and reading them back.\<close>

lemma shifted_store:
  assumes "\<And>x. x \<in> set xs \<Longrightarrow> fits (Suc b) x" "b + k < 8 * n" "0 < n" "8 * n = Suc w"
  shows "loads be n (store be n (map (\<lambda>x. signed_take_bit w (push_bit k x)) xs)) = map (\<lambda>x. x * 2 ^ k) xs"
proof -
  have "map (\<lambda>x. signed_take_bit w (push_bit k x)) xs = map (\<lambda>x. x * 2 ^ k) xs"
    using assms by (intro map_shift) auto
  moreover have "loads be n (store be n (map (\<lambda>x. x * 2 ^ k) xs)) = map (\<lambda>x. x * 2 ^ k) xs"
    using assms by (intro load_store) (auto intro: fits_mono[OF push_fits(2)[of b _ k w]])
  ultimately show ?thesis by (simp only:)
qed

text \<open>
  The formats of integers: what a conversion to 24 or 32 bits makes of the samples, and the
  frames of the result.
\<close>

definition rescale :: "nat \<Rightarrow> nat \<Rightarrow> int \<Rightarrow> int" where
  "rescale from to x = (if from \<le> to then x * 2 ^ (to - from) else x div 2 ^ (from - to))"

lemma rescale_same [simp]: "rescale b b = (\<lambda>x. x)"
  by (rule ext) (simp add: rescale_def)

lemma convert_to_24_samples:
  assumes fmt: "fmt \<in> {SF_S8, SF_S16, SF_S24_P32, SF_S32}"
    and n: "n = unat (sample_format_size fmt)"
    and fit: "\<And>x. x \<in> set (loads be n src) \<Longrightarrow> fits (sample_bits fmt) x"
  shows "\<exists>dest. pcm_convert_to_24 fp be fmt src = Some dest \<and>
    loads be 4 dest = map (rescale (sample_bits fmt) 24) (loads be n src)"
proof -
  consider "fmt = SF_S8" | "fmt = SF_S16" | "fmt = SF_S24_P32" | "fmt = SF_S32" using fmt by auto
  then show ?thesis
  proof cases
    case 1
    then show ?thesis
      using shifted_store[of "loads be 1 src" 7 16 4 31 be] fit n
      by (simp add: pcm_convert_to_24_def pcm_convert_8_to_24_def rescale_def)
  next
    case 2
    then show ?thesis
      using shifted_store[of "loads be 2 src" 15 8 4 31 be] fit n
      by (simp add: pcm_convert_to_24_def pcm_convert_16_to_24_def rescale_def)
  next
    case 3
    then show ?thesis
      using n by (simp add: pcm_convert_to_24_def rescale_def)
  next
    case 4
    have "loads be 4 (store be 4 (map (drop_bit 8) (loads be 4 src))) = map (drop_bit 8) (loads be 4 src)"
      using fit n 4 by (intro load_store) (auto intro: fits_mono[OF drop_8_fits])
    then show ?thesis
      using 4 n by (simp add: pcm_convert_to_24_def pcm_convert_32_to_24_def rescale_def drop_bit_eq_div)
  qed
qed

lemma convert_to_32_samples:
  assumes fmt: "fmt \<in> {SF_S8, SF_S16, SF_S24_P32, SF_S32}"
    and n: "n = unat (sample_format_size fmt)"
    and fit: "\<And>x. x \<in> set (loads be n src) \<Longrightarrow> fits (sample_bits fmt) x"
  shows "\<exists>dest. pcm_convert_to_32 fp be fmt src = Some dest \<and>
    loads be 4 dest = map (rescale (sample_bits fmt) 32) (loads be n src)"
  using fmt shifted_store[of "loads be 1 src" 7 24 4 31 be] shifted_store[of "loads be 2 src" 15 16 4 31 be]
    shifted_store[of "loads be 4 src" 23 8 4 31 be] fit n
  by (auto simp: pcm_convert_to_32_def pcm_convert_8_to_32_def pcm_convert_16_to_32_def
      pcm_convert_24_to_32_def rescale_def)

text \<open>A conversion succeeds for the formats of PCM and for no other; it keeps the number of samples.\<close>

definition is_pcm :: "SampleFormat \<Rightarrow> bool" where
  "is_pcm fmt \<longleftrightarrow> fmt \<in> {SF_S8, SF_S16, SF_S24_P32, SF_S32, SF_FLOAT}"

lemma length_floats [simp, pcm_sizes]:
  "length (floats_of be src) = length src div 4" "length (of_floats be fs) = 4 * length fs"
  by (simp_all add: floats_of_def of_floats_def)

lemma length_loops [simp, pcm_sizes]:
  "length (ConvertFromFloat fp b fs) = length fs" "length (ConvertToFloat fp b xs) = length xs"
  "length (pcm_convert_8_to_16 xs) = length xs" "length (pcm_convert_8_to_24 xs) = length xs"
  "length (pcm_convert_16_to_24 xs) = length xs" "length (pcm_convert_32_to_24 xs) = length xs"
  "length (pcm_convert_8_to_32 xs) = length xs" "length (pcm_convert_16_to_32 xs) = length xs"
  "length (pcm_convert_24_to_32 xs) = length xs"
  by (simp_all add: ConvertFromFloat_def ConvertToFloat_def Let_def pcm_convert_8_to_16_def
      pcm_convert_8_to_24_def pcm_convert_16_to_24_def pcm_convert_32_to_24_def
      pcm_convert_8_to_32_def pcm_convert_16_to_32_def pcm_convert_24_to_32_def)

lemma convert_to_16_total:
  assumes "unat (sample_format_size fmt) dvd length src"
  shows "is_pcm fmt \<Longrightarrow> \<exists>dest pd'. pcm_convert_to_16 fp be fmt src pd = (Some dest, pd') \<and>
      length dest = 2 * (length src div unat (sample_format_size fmt))"
    and "\<not> is_pcm fmt \<Longrightarrow> pcm_convert_to_16 fp be fmt src pd = (None, pd)"
  using assms
  by (cases fmt; auto simp: is_pcm_def pcm_convert_to_16_def Dither32To16_loop split: prod.split;
      metis fst_conv length_Dither24To16_loop length_loads length_map zero_less_numeral)+

lemma convert_total:
  assumes "unat (sample_format_size fmt) dvd length src"
  shows "is_pcm fmt \<Longrightarrow> \<exists>dest. pcm_convert_to_24 fp be fmt src = Some dest \<and>
      length dest = 4 * (length src div unat (sample_format_size fmt))"
    and "\<not> is_pcm fmt \<Longrightarrow> pcm_convert_to_24 fp be fmt src = None"
    and "is_pcm fmt \<Longrightarrow> \<exists>dest. pcm_convert_to_32 fp be fmt src = Some dest \<and>
      length dest = 4 * (length src div unat (sample_format_size fmt))"
    and "\<not> is_pcm fmt \<Longrightarrow> pcm_convert_to_32 fp be fmt src = None"
    and "is_pcm fmt \<Longrightarrow> \<exists>dest. pcm_convert_to_float fp be fmt src = Some dest \<and>
      length dest = 4 * (length src div unat (sample_format_size fmt))"
    and "\<not> is_pcm fmt \<Longrightarrow> pcm_convert_to_float fp be fmt src = None"
  using assms
  by (cases fmt; auto simp: is_pcm_def pcm_convert_to_24_def pcm_convert_to_32_def
      pcm_convert_to_float_def)+

end
