(* ===== verification/PCM_Channels.thy ===== *)
theory PCM_Channels
  imports PCM_Format
begin

text \<open>
  Conversion of the number of channels (pcm/PcmChannels.cxx) and the resampler that is used
  without libsamplerate (pcm/PcmResampleFallback.cxx).  Both work on arrays of samples; the
  functions on bytes convert from and to memory.
\<close>

section \<open>Channels\<close>

fun MonoToStereo :: "'a list \<Rightarrow> 'a list" where
  "MonoToStereo [] = []"
| "MonoToStereo (v # vs) = v # v # MonoToStereo vs"

text \<open>The two loops of each sample type, over the function that averages a frame.\<close>

fun frames_2_to_1 :: "('a \<Rightarrow> 'a \<Rightarrow> 'a) \<Rightarrow> 'a list \<Rightarrow> 'a list" where
  "frames_2_to_1 average (a # b # src) = average a b # frames_2_to_1 average src"
| "frames_2_to_1 average src = []"

definition frames_n_to_2 :: "('a list \<Rightarrow> 'a) \<Rightarrow> nat \<Rightarrow> 'a list \<Rightarrow> 'a list" where
  "frames_n_to_2 average src_channels src =
     concat (map (\<lambda>frame. let v = average frame in [v, v]) (chunks src_channels src))"

text \<open>\<open>sum\<close> and \<open>value\<close> are the types of the sum and of the result.\<close>

definition average_2 :: "(int \<Rightarrow> int) \<Rightarrow> (int \<Rightarrow> int) \<Rightarrow> int \<Rightarrow> int \<Rightarrow> int" where
  "average_2 sum_cast value_cast a b = value_cast (sum_cast (a + b) sdiv 2)"

definition average_n :: "(int \<Rightarrow> int) \<Rightarrow> (int \<Rightarrow> int) \<Rightarrow> int list \<Rightarrow> int" where
  "average_n sum_cast value_cast frame =
     value_cast (foldl (\<lambda>sum x. sum_cast (sum + x)) 0 frame sdiv int (length frame))"

definition average_2_float :: "fpu \<Rightarrow> float32 \<Rightarrow> float32 \<Rightarrow> float32" where
  "average_2_float fp a b = f_of_d fp (d_div fp (d_add fp (d_of_f fp a) (d_of_f fp b)) (d_of_int fp 2))"

definition average_n_float :: "fpu \<Rightarrow> float32 list \<Rightarrow> float32" where
  "average_n_float fp frame =
     f_of_d fp (d_div fp (foldl (\<lambda>sum x. d_add fp sum (d_of_f fp x)) (d_of_int fp 0) frame)
       (d_of_int fp (int (length frame))))"

text \<open>The choice that the four functions share.\<close>

definition convert_channels ::
    "('a \<Rightarrow> 'a \<Rightarrow> 'a) \<Rightarrow> ('a list \<Rightarrow> 'a) \<Rightarrow> nat \<Rightarrow> nat \<Rightarrow> 'a list \<Rightarrow> 'a list option" where
  "convert_channels avg2 avgn dest_channels src_channels src =
     (if src_channels = 1 \<and> dest_channels = 2 then Some (MonoToStereo src)
      else if src_channels = 2 \<and> dest_channels = 1 then Some (frames_2_to_1 avg2 src)
      else if dest_channels = 2 then Some (frames_n_to_2 avgn src_channels src)
      else None)"

definition pcm_convert_channels_16 :: "bool \<Rightarrow> nat \<Rightarrow> nat \<Rightarrow> byte list \<Rightarrow> byte list option" where
  "pcm_convert_channels_16 be dest_channels src_channels src =
     map_option (store be 2)
       (convert_channels (average_2 s32 s16) (average_n s32 s16) dest_channels src_channels (loads be 2 src))"

definition pcm_convert_channels_24 :: "bool \<Rightarrow> nat \<Rightarrow> nat \<Rightarrow> byte list \<Rightarrow> byte list option" where
  "pcm_convert_channels_24 be dest_channels src_channels src =
     map_option (store be 4)
       (convert_channels (average_2 s32 s32) (average_n s32 s32) dest_channels src_channels (loads be 4 src))"

definition pcm_convert_channels_32 :: "bool \<Rightarrow> nat \<Rightarrow> nat \<Rightarrow> byte list \<Rightarrow> byte list option" where
  "pcm_convert_channels_32 be dest_channels src_channels src =
     map_option (store be 4)
       (convert_channels (average_2 s64 s32) (average_n s64 s32) dest_channels src_channels (loads be 4 src))"

definition pcm_convert_channels_float :: "fpu \<Rightarrow> bool \<Rightarrow> nat \<Rightarrow> nat \<Rightarrow> byte list \<Rightarrow> byte list option" where
  "pcm_convert_channels_float fp be dest_channels src_channels src =
     map_option (of_floats be)
       (convert_channels (average_2_float fp) (average_n_float fp) dest_channels src_channels
         (floats_of be src))"

section \<open>The fallback resampler\<close>

text \<open>\<open>unsigned\<close> arithmetic: \<open>src_pos = dest_pos * src_rate / dest_rate\<close>.\<close>

definition resample_pos :: "nat \<Rightarrow> nat \<Rightarrow> nat \<Rightarrow> nat" where
  "resample_pos src_rate dest_rate dest_pos = (dest_pos * src_rate mod 2 ^ 32) div dest_rate"

text \<open>The loops for one and for two channels; \<open>x AND NOT 1\<close> clears the lowest bit.\<close>

function resample_1 :: "nat \<Rightarrow> nat \<Rightarrow> 'a list \<Rightarrow> nat \<Rightarrow> nat \<Rightarrow> 'a list" where
  "resample_1 src_rate dest_rate src dest_samples dest_pos =
     (if dest_pos < dest_samples
      then src ! resample_pos src_rate dest_rate dest_pos #
        resample_1 src_rate dest_rate src dest_samples (dest_pos + 1)
      else [])"
  by auto
termination by (relation "measure (\<lambda>(_, _, _, n, p). n - p)") auto

function resample_2 :: "nat \<Rightarrow> nat \<Rightarrow> 'a list \<Rightarrow> nat \<Rightarrow> nat \<Rightarrow> 'a list" where
  "resample_2 src_rate dest_rate src dest_samples dest_pos =
     (if dest_pos < dest_samples
      then (let src_pos = resample_pos src_rate dest_rate dest_pos; src_pos = src_pos - src_pos mod 2
            in src ! src_pos # src ! (src_pos + 1) #
              resample_2 src_rate dest_rate src dest_samples (dest_pos + 2))
      else [])"
  by auto
termination by (relation "measure (\<lambda>(_, _, _, n, p). n - p)") auto

declare resample_1.simps [simp del] resample_2.simps [simp del]

text \<open>\<open>old\<close> is what lies in the buffer, which is not written for more than two channels.\<close>

definition resample_samples :: "nat \<Rightarrow> nat \<Rightarrow> nat \<Rightarrow> nat \<Rightarrow> nat" where
  "resample_samples channels src_rate dest_rate src_frames =
     (let dest_frames = (src_frames * dest_rate + src_rate - 1) mod 2 ^ 32 div src_rate
      in dest_frames * channels mod 2 ^ 32)"

definition resample_fallback :: "'a list \<Rightarrow> nat \<Rightarrow> nat \<Rightarrow> 'a list \<Rightarrow> nat \<Rightarrow> 'a list" where
  "resample_fallback old channels src_rate src dest_rate =
     (let src_frames = (length src div channels) mod 2 ^ 32;
          dest_samples = resample_samples channels src_rate dest_rate src_frames
      in if channels = 1 then resample_1 src_rate dest_rate src dest_samples 0
         else if channels = 2 then resample_2 src_rate dest_rate src dest_samples 0
         else take dest_samples old)"

definition pcm_resample_fallback_16 ::
    "bool \<Rightarrow> byte list \<Rightarrow> nat \<Rightarrow> nat \<Rightarrow> byte list \<Rightarrow> nat \<Rightarrow> byte list" where
  "pcm_resample_fallback_16 be old channels src_rate src dest_rate =
     store be 2 (resample_fallback (loads be 2 old) channels src_rate (loads be 2 src) dest_rate)"

definition pcm_resample_fallback_32 ::
    "bool \<Rightarrow> byte list \<Rightarrow> nat \<Rightarrow> nat \<Rightarrow> byte list \<Rightarrow> nat \<Rightarrow> byte list" where
  "pcm_resample_fallback_32 be old channels src_rate src dest_rate =
     store be 4 (resample_fallback (loads be 4 old) channels src_rate (loads be 4 src) dest_rate)"

section \<open>Frames of the result\<close>

lemma length_MonoToStereo [simp, pcm_sizes]: "length (MonoToStereo xs) = 2 * length xs"
  by (induction xs) auto

lemma length_2_to_1 [simp, pcm_sizes]: "length (frames_2_to_1 avg xs) = length xs div 2"
  by (induction avg xs rule: frames_2_to_1.induct) auto

lemma length_n_to_2 [simp, pcm_sizes]: "0 < n \<Longrightarrow> length (frames_n_to_2 avg n xs) = 2 * (length xs div n)"
proof -
  assume "0 < n"
  moreover have "length (concat (map (\<lambda>frame. let v = avg frame in [v, v]) cs)) = 2 * length cs" for cs
    by (induction cs) (simp_all add: Let_def)
  ultimately show ?thesis by (simp add: frames_n_to_2_def length_chunks)
qed

text \<open>What is supported: one channel from two, and two channels from any number.\<close>

definition channels_supported :: "nat \<Rightarrow> nat \<Rightarrow> bool" where
  "channels_supported dest src \<longleftrightarrow> dest = 2 \<or> dest = 1 \<and> src = 2"

lemma convert_channels_total:
  assumes "0 < src_channels"
  shows "channels_supported dest src_channels \<Longrightarrow>
      \<exists>ys. convert_channels a2 an dest src_channels xs = Some ys \<and>
        length ys = dest * (length xs div src_channels)"
    and "\<not> channels_supported dest src_channels \<Longrightarrow> convert_channels a2 an dest src_channels xs = None"
  using assms by (auto simp: convert_channels_def channels_supported_def)

section \<open>Averages\<close>

text \<open>The truncated average of a frame lies between its least and its greatest sample.\<close>

lemma div_between:
  fixes t :: int
  assumes "0 < k" "lo * k \<le> t" "t \<le> hi * k"
  shows "lo \<le> t div k \<and> t div k \<le> hi"
  using zdiv_mono1[OF assms(2,1)] zdiv_mono1[OF assms(3,1)] assms(1) by simp

lemma sdiv_between:
  fixes t :: int
  assumes "0 < k" "lo * k \<le> t" "t \<le> hi * k"
  shows "lo \<le> t sdiv k \<and> t sdiv k \<le> hi"
  using div_between[OF assms] div_between[of k "- hi" "- t" "- lo"] assms by (auto simp: sdiv_pos)

lemma sum_list_between:
  fixes frame :: "int list"
  assumes "\<And>x. x \<in> set frame \<Longrightarrow> lo \<le> x \<and> x \<le> hi"
  shows "lo * int (length frame) \<le> sum_list frame \<and> sum_list frame \<le> hi * int (length frame)"
  using assms
proof (induction frame)
  case (Cons x frame)
  then have "lo \<le> x \<and> x \<le> hi"
    "lo * int (length frame) \<le> sum_list frame \<and> sum_list frame \<le> hi * int (length frame)"
    by simp_all
  then show ?case by (simp add: algebra_simps)
qed simp

lemma fits_abs: "fits (Suc n) x \<Longrightarrow> \<bar>x\<bar> \<le> 2 ^ n"
  by (auto simp: fits_def)

lemma foldl_sum_exact:
  fixes frame :: "int list"
  assumes "\<And>x. x \<in> set frame \<Longrightarrow> \<bar>x\<bar> \<le> m" "\<bar>acc\<bar> + m * int (length frame) < 2 ^ w"
  shows "foldl (\<lambda>s x. signed_take_bit w (s + x)) acc frame = acc + sum_list frame"
  using assms
proof (induction frame arbitrary: acc)
  case (Cons x frame)
  have x: "\<bar>x\<bar> \<le> m" using Cons.prems(1) by simp
  have "0 \<le> m * int (length frame)" using x by (intro mult_nonneg_nonneg) auto
  moreover have "\<bar>acc\<bar> + m + m * int (length frame) < 2 ^ w"
    using Cons.prems(2) by (simp add: algebra_simps)
  ultimately have "\<bar>acc + x\<bar> < 2 ^ w" "\<bar>acc + x\<bar> + m * int (length frame) < 2 ^ w"
    using x by linarith+
  then show ?case
    using Cons.IH[of "acc + x"] Cons.prems(1) by (simp add: abs_fits)
qed simp

text \<open>
  A frame of up to 8 channels in the three formats of integers: no sum leaves its type, and the
  average lies between the least and the greatest sample, whatever bounds are given.
\<close>

lemma average_n_exact:
  fixes frame :: "int list"
  assumes fit: "\<And>x. x \<in> set frame \<Longrightarrow> fits (Suc b) x" and len: "length frame \<noteq> 0" "length frame \<le> 8"
    and w: "b + 4 \<le> w" "b \<le> v"
  shows "average_n (signed_take_bit w) (signed_take_bit v) frame = sum_list frame sdiv int (length frame)"
proof -
  have "(2 :: int) ^ b * int (length frame) \<le> 2 ^ b * 8" using len by (intro mult_left_mono) auto
  also have "\<dots> < (2 :: int) ^ (b + 4)" by (simp add: power_add)
  also have "\<dots> \<le> 2 ^ w" using w by (intro power_increasing) auto
  finally have sum: "foldl (\<lambda>s x. signed_take_bit w (s + x)) 0 frame = sum_list frame"
    using foldl_sum_exact[of frame "2 ^ b" 0 w] fits_abs[OF fit] by simp
  have "- (2 ^ b) \<le> x \<and> x \<le> 2 ^ b - 1" if "x \<in> set frame" for x
    using fit[OF that] by (auto simp: fits_def)
  then have "- (2 ^ b) * int (length frame) \<le> sum_list frame \<and>
      sum_list frame \<le> (2 ^ b - 1) * int (length frame)"
    by (rule sum_list_between)
  then have "- (2 ^ b) \<le> sum_list frame sdiv int (length frame) \<and>
      sum_list frame sdiv int (length frame) \<le> 2 ^ b - 1"
    using len by (intro sdiv_between) auto
  then have "fits (Suc b) (sum_list frame sdiv int (length frame))"
    by (auto simp: fits_def)
  then have "fits (Suc v) (sum_list frame sdiv int (length frame))"
    by (rule fits_mono) (use w in simp)
  then show ?thesis by (simp add: average_n_def sum cast_id)
qed

lemma average_2_exact:
  assumes "fits (Suc b) x" "fits (Suc b) y" "b + 1 \<le> w" "b \<le> v"
  shows "average_2 (signed_take_bit w) (signed_take_bit v) x y = (x + y) sdiv 2"
proof -
  have x: "- (2 ^ b) \<le> x" "x \<le> 2 ^ b - 1" and y: "- (2 ^ b) \<le> y" "y \<le> 2 ^ b - 1"
    using assms(1,2) by (simp_all add: fits_def)
  have "(2 :: int) ^ Suc b \<le> 2 ^ w" using assms(3) by (intro power_increasing) auto
  then have "2 * 2 ^ b \<le> (2 :: int) ^ w" by simp
  then have "signed_take_bit w (x + y) = x + y"
    using x y by (intro signed_take_bit_int_eq_self) linarith+
  moreover have "- (2 ^ b) \<le> (x + y) sdiv 2 \<and> (x + y) sdiv 2 \<le> 2 ^ b - 1"
    using x y by (intro sdiv_between) (simp_all add: algebra_simps)
  then have "fits (Suc b) ((x + y) sdiv 2)" by (auto simp: fits_def)
  then have "fits (Suc v) ((x + y) sdiv 2)" by (rule fits_mono) (use assms(4) in simp)
  ultimately show ?thesis by (simp add: average_2_def cast_id)
qed

section \<open>What the resampler picks\<close>

lemma resample_1_upt:
  "resample_1 sr dr src n p = map (\<lambda>i. src ! resample_pos sr dr i) [p..<n]"
  by (induction sr dr src n p rule: resample_1.induct)
    (subst resample_1.simps, auto simp: upt_conv_Cons)

lemma resample_2_upt:
  "resample_2 sr dr src (2 * n) (2 * p) =
    concat (map (\<lambda>k. let q = resample_pos sr dr (2 * k) in [src ! (q - q mod 2), src ! (q - q mod 2 + 1)]) [p..<n])"
proof (induction "n - p" arbitrary: p)
  case 0
  then show ?case by (subst resample_2.simps) simp
next
  case (Suc d)
  then have "resample_2 sr dr src (2 * n) (2 * p + 2) =
      concat (map (\<lambda>k. let q = resample_pos sr dr (2 * k) in [src ! (q - q mod 2), src ! (q - q mod 2 + 1)]) [Suc p..<n])"
    using Suc(1)[of "Suc p"] by simp
  then show ?case
    using Suc(2) by (subst resample_2.simps) (simp add: upt_conv_Cons Let_def)
qed

text \<open>
  Within 32 bits, the frame \<open>k\<close> of the result is the frame \<open>k * src_rate div dest_rate\<close> of the
  source, which exists.
\<close>

lemma resample_pos_exact:
  assumes "p * sr < 2 ^ 32"
  shows "resample_pos sr dr p = p * sr div dr"
  using assms by (simp add: resample_pos_def)

lemma resample_frame_exists:
  fixes frames :: nat
  assumes "0 < sr" "0 < dr" "k < (frames * dr + sr - 1) div sr"
  shows "k * sr div dr < frames"
proof -
  have "(k + 1) * sr \<le> frames * dr + sr - 1"
    using assms(1,3) by (metis Suc_eq_plus1 Suc_leI less_eq_div_iff_mult_less_eq)
  then have "k * sr < frames * dr" using assms(1) by simp
  then show ?thesis using assms(2) by (simp add: div_less_iff_less_mult)
qed

lemma resample_samples_exact:
  fixes ch frames dr sr :: nat
  assumes "0 < sr" "ch * (frames * dr + sr) < 2 ^ 32" "0 < ch"
  shows "resample_samples ch sr dr frames = ch * ((frames * dr + sr - 1) div sr)"
proof -
  have 1: "1 * (frames * dr + sr) \<le> ch * (frames * dr + sr)"
    using assms(3) by (intro mult_le_mono1) simp
  then have "frames * dr + sr < 2 ^ 32" using assms(2) by (simp only: mult_1 le_less_trans)
  then have "frames * dr + sr - 1 < 2 ^ 32" by (rule less_imp_diff_less)
  moreover have "ch * ((frames * dr + sr - 1) div sr) \<le> ch * (frames * dr + sr)"
    by (intro mult_le_mono2) (meson diff_le_self div_le_dividend le_trans)
  then have "ch * ((frames * dr + sr - 1) div sr) < 2 ^ 32" using assms(2) by (rule le_less_trans)
  ultimately show ?thesis by (simp add: resample_samples_def Let_def mult.commute[of ch])
qed

lemma dest_pos_bound:
  fixes ch k frames dr sr :: nat
  assumes "0 < sr" "ch * (frames * dr + sr) < 2 ^ 32" "k < (frames * dr + sr - 1) div sr"
  shows "ch * k * sr < 2 ^ 32"
proof -
  have "k \<le> (frames * dr + sr - 1) div sr" using assms(3) by (rule less_imp_le)
  then have "k * sr \<le> frames * dr + sr - 1"
    using assms(1) by (simp add: less_eq_div_iff_mult_less_eq)
  then have "k * sr \<le> frames * dr + sr" by simp
  then have "ch * (k * sr) \<le> ch * (frames * dr + sr)" by (rule mult_le_mono2)
  then have "ch * (k * sr) < 2 ^ 32" using assms(2) by (rule le_less_trans)
  then show ?thesis by (simp only: mult.assoc)
qed

lemma resample_fallback_frames:
  fixes src :: "'a list"
  assumes ch: "ch \<in> {1, 2}" and len: "length src = ch * frames"
    and rates: "0 < sr" "0 < dr" and small: "2 * (frames * dr + sr) < 2 ^ 32"
  shows "chunks ch (resample_fallback old ch sr src dr) =
    map (\<lambda>k. map (\<lambda>c. src ! (ch * (k * sr div dr) + c)) [0..<ch]) [0..<(frames * dr + sr - 1) div sr]"
proof -
  let ?n = "(frames * dr + sr - 1) div sr"
  have "frames \<le> frames * dr" using rates(2) by simp
  also have "\<dots> \<le> 2 * (frames * dr + sr)" by simp
  finally have "frames \<le> 2 * (frames * dr + sr)" .
  then have f: "frames < 2 ^ 32" using small by (rule le_less_trans)
  have "length src div ch = frames" using ch len by auto
  then have fr: "length src div ch mod 2 ^ 32 = frames" using f by simp
  from ch consider "ch = 1" | "ch = 2" by auto
  then show ?thesis
  proof cases
    case 1
    have "resample_samples 1 sr dr frames = ?n"
      using resample_samples_exact[of sr 1 frames dr] rates small by simp
    then have "resample_fallback old ch sr src dr = map (\<lambda>k. src ! resample_pos sr dr k) [0..<?n]"
      using fr 1 by (simp add: resample_fallback_def Let_def resample_1_upt)
    also have "\<dots> = map (\<lambda>k. src ! (k * sr div dr)) [0..<?n]"
      using dest_pos_bound[of sr 1 frames dr] rates small by (auto simp: resample_pos_exact)
    finally have "resample_fallback old ch sr src dr = concat (map (\<lambda>k. [src ! (k * sr div dr)]) [0..<?n])"
      by simp
    moreover have "chunks 1 (concat (map (\<lambda>k. [src ! (k * sr div dr)]) [0..<?n])) =
        map (\<lambda>k. [src ! (k * sr div dr)]) [0..<?n]"
      by (rule chunks_concat) auto
    ultimately show ?thesis using 1 by (simp only:) simp
  next
    case 2
    have "resample_samples 2 sr dr frames = 2 * ?n"
      using resample_samples_exact[of sr 2 frames dr] rates small by simp
    then have "resample_fallback old ch sr src dr = concat (map (\<lambda>k. let q = resample_pos sr dr (2 * k)
        in [src ! (q - q mod 2), src ! (q - q mod 2 + 1)]) [0..<?n])"
      using fr 2 resample_2_upt[of sr dr src ?n 0] by (simp add: resample_fallback_def Let_def)
    also have "\<dots> = concat (map (\<lambda>k. [src ! (2 * (k * sr div dr)), src ! (2 * (k * sr div dr) + 1)]) [0..<?n])"
    proof -
      have "resample_pos sr dr (2 * k) - resample_pos sr dr (2 * k) mod 2 = 2 * (k * sr div dr)"
        if "k < ?n" for k
      proof -
        have "resample_pos sr dr (2 * k) = 2 * k * sr div dr"
          using dest_pos_bound[of sr 2 frames dr k] rates small that by (simp add: resample_pos_exact)
        moreover have "2 * k * sr div dr div 2 = k * sr div dr"
          by (metis div_mult2_eq div_mult_mult1 mult.assoc mult.commute zero_neq_numeral)
        ultimately show ?thesis by (metis minus_mod_eq_mult_div)
      qed
      then show ?thesis by (intro arg_cong[where f = concat] map_cong) (auto simp: Let_def)
    qed
    finally have r: "resample_fallback old ch sr src dr =
        concat (map (\<lambda>k. [src ! (2 * (k * sr div dr)), src ! (2 * (k * sr div dr) + 1)]) [0..<?n])" .
    have "chunks 2 (concat (map (\<lambda>k. [src ! (2 * (k * sr div dr)), src ! (2 * (k * sr div dr) + 1)]) [0..<?n])) =
        map (\<lambda>k. [src ! (2 * (k * sr div dr)), src ! (2 * (k * sr div dr) + 1)]) [0..<?n]"
      by (rule chunks_concat) auto
    then show ?thesis using 2 r by (simp add: upt_rec[of 0] upt_rec[of "Suc 0"])
  qed
qed

end
