(* ===== verification/PCM_Dsd.thy ===== *)
theory PCM_Dsd
  imports PCM_Volume
begin

text \<open>
  DSD to PCM (pcm/dsd2pcm/dsd2pcm.c, pcm/PcmDsd.hxx, pcm/PcmDsd.cxx, util/bit_reverse.c): the
  decimating filter of one channel, whose state is a ring buffer of 16 bytes, and its use for
  the channels of a frame.  The tables that \<open>precalc()\<close> computes from the constants of the
  filter are the parameter \<open>ctables\<close>.
\<close>

section \<open>The table of reversed bytes\<close>

definition R2 :: "byte \<Rightarrow> byte list" where
  "R2 n = [n, n + 2 * 64, n + 1 * 64, n + 3 * 64]"

definition R4 :: "byte \<Rightarrow> byte list" where
  "R4 n = R2 n @ R2 (n + 2 * 16) @ R2 (n + 1 * 16) @ R2 (n + 3 * 16)"

definition R6 :: "byte \<Rightarrow> byte list" where
  "R6 n = R4 n @ R4 (n + 2 * 4) @ R4 (n + 1 * 4) @ R4 (n + 3 * 4)"

definition bit_reverse_table :: "byte list" where
  "bit_reverse_table = R6 0 @ R6 2 @ R6 1 @ R6 3"

definition bit_reverse :: "byte \<Rightarrow> byte" where
  "bit_reverse x = bit_reverse_table ! unat x"

section \<open>The filter of a channel\<close>

definition FIFOSIZE :: nat where "FIFOSIZE = 16"
definition CTABLES :: nat where "CTABLES = 6"

record dsd2pcm_ctx =
  ctx_fifo :: "byte list"
  ctx_fifopos :: nat

definition dsd2pcm_reset :: dsd2pcm_ctx where
  "dsd2pcm_reset = \<lparr>ctx_fifo = replicate FIFOSIZE 0x69, ctx_fifopos = 0\<rparr>"

text \<open>One byte: the differences are computed modulo \<open>FIFOSIZE\<close>, which is added first.\<close>

definition dsd2pcm_step ::
    "fpu \<Rightarrow> (nat \<Rightarrow> byte \<Rightarrow> float32) \<Rightarrow> bool \<Rightarrow> byte \<Rightarrow> dsd2pcm_ctx \<Rightarrow> float32 \<times> dsd2pcm_ctx" where
  "dsd2pcm_step fp ctables lsbf bite ctx =
     (let ffp = ctx_fifopos ctx;
          bite1 = (if lsbf then bit_reverse bite else bite);
          fifo = (ctx_fifo ctx)[ffp := bite1];
          p = (ffp + FIFOSIZE - CTABLES) mod FIFOSIZE;
          fifo = fifo[p := bit_reverse (fifo ! p)];
          acc = fold (\<lambda>i acc.
              let bite1 = fifo ! ((ffp + FIFOSIZE - i) mod FIFOSIZE);
                  bite2 = fifo ! ((ffp + FIFOSIZE - (CTABLES * 2 - 1) + i) mod FIFOSIZE)
              in d_add fp acc (d_of_f fp (f_add fp (ctables i bite1) (ctables i bite2))))
            [0..<CTABLES] (d_of_int fp 0)
      in (f_of_d fp acc, \<lparr>ctx_fifo = fifo, ctx_fifopos = (ffp + 1) mod FIFOSIZE\<rparr>))"

fun dsd2pcm_translate ::
    "fpu \<Rightarrow> (nat \<Rightarrow> byte \<Rightarrow> float32) \<Rightarrow> bool \<Rightarrow> byte list \<Rightarrow> dsd2pcm_ctx \<Rightarrow> float32 list \<times> dsd2pcm_ctx" where
  "dsd2pcm_translate fp ctables lsbf [] ctx = ([], ctx)"
| "dsd2pcm_translate fp ctables lsbf (bite # src) ctx =
     (let (y, ctx) = dsd2pcm_step fp ctables lsbf bite ctx;
          (ys, ctx) = dsd2pcm_translate fp ctables lsbf src ctx
      in (y # ys, ctx))"

section \<open>All channels\<close>

text \<open>\<open>PcmDsd::dsd2pcm\<close>, an array of 32 contexts.\<close>

type_synonym pcm_dsd = "dsd2pcm_ctx option list"

definition new_PcmDsd :: pcm_dsd where
  "new_PcmDsd = replicate 32 None"

definition PcmDsd_Reset :: "pcm_dsd \<Rightarrow> pcm_dsd" where
  "PcmDsd_Reset = map (map_option (\<lambda>_. dsd2pcm_reset))"

text \<open>The bytes of channel \<open>c\<close>, which the pointers \<open>src + c\<close> with stride \<open>channels\<close> walk over.\<close>

definition channel_bytes :: "nat \<Rightarrow> nat \<Rightarrow> 'a list \<Rightarrow> 'a list" where
  "channel_bytes channels c src = map (\<lambda>k. src ! (c + k * channels)) [0..<length src div channels]"

text \<open>
  The loop over the channels; \<open>alloc c\<close> tells whether \<open>malloc\<close> succeeds for channel \<open>c\<close>.  The
  result is what each channel has written.
\<close>

primrec ToFloat_loop ::
    "fpu \<Rightarrow> (nat \<Rightarrow> byte \<Rightarrow> float32) \<Rightarrow> (nat \<Rightarrow> bool) \<Rightarrow> nat \<Rightarrow> bool \<Rightarrow> byte list \<Rightarrow> nat list \<Rightarrow> pcm_dsd \<Rightarrow>
     float32 list list option \<times> pcm_dsd" where
  "ToFloat_loop fp ctables alloc channels lsbfirst src [] d = (Some [], d)"
| "ToFloat_loop fp ctables alloc channels lsbfirst src (c # cs) d =
     (if d ! c = None \<and> \<not> alloc c then (None, d)
      else (let ctx = (case d ! c of None \<Rightarrow> dsd2pcm_reset | Some ctx \<Rightarrow> ctx);
                (ys, ctx) = dsd2pcm_translate fp ctables lsbfirst (channel_bytes channels c src) ctx;
                (r, d) = ToFloat_loop fp ctables alloc channels lsbfirst src cs (d[c := Some ctx])
            in (map_option ((#) ys) r, d)))"

text \<open>\<open>dest + c\<close> with stride \<open>channels\<close>: the frames of the result.\<close>

definition interleave :: "nat \<Rightarrow> 'a list list \<Rightarrow> 'a list" where
  "interleave frames chans = concat (map (\<lambda>k. map (\<lambda>ch. ch ! k) chans) [0..<frames])"

definition PcmDsd_ToFloat ::
    "fpu \<Rightarrow> (nat \<Rightarrow> byte \<Rightarrow> float32) \<Rightarrow> (nat \<Rightarrow> bool) \<Rightarrow> nat \<Rightarrow> bool \<Rightarrow> byte list \<Rightarrow> pcm_dsd \<Rightarrow>
     float32 list option \<times> pcm_dsd" where
  "PcmDsd_ToFloat fp ctables alloc channels lsbfirst src d =
     (let (r, d) = ToFloat_loop fp ctables alloc channels lsbfirst src [0..<channels] d
      in (map_option (interleave (length src div channels)) r, d))"

section \<open>The filter without the ring buffer\<close>

text \<open>
  The reference: a finite impulse response over the last 12 bytes, the older half of them bit
  reversed.  Before the stream lies the silence pattern, which is already \<open>reversed\<close> where the
  reversal has never seen it.
\<close>

definition past :: "byte list \<Rightarrow> int \<Rightarrow> byte" where
  "past xs j = (if j < 0 then 0x69 else xs ! nat j)"

definition reversed_past :: "byte list \<Rightarrow> int \<Rightarrow> byte" where
  "reversed_past xs j = (if j < - 6 then 0x69 else bit_reverse (past xs j))"

definition fir :: "fpu \<Rightarrow> (nat \<Rightarrow> byte \<Rightarrow> float32) \<Rightarrow> byte list \<Rightarrow> nat \<Rightarrow> float32" where
  "fir fp ctables xs n =
     f_of_d fp (fold (\<lambda>i acc. d_add fp acc (d_of_f fp (f_add fp
         (ctables i (past xs (int n - int i))) (ctables i (reversed_past xs (int n - 11 + int i))))))
       [0..<6] (d_of_int fp 0))"

text \<open>The invariant of the ring buffer after \<open>n\<close> bytes of the stream \<open>xs\<close>.\<close>

definition slot :: "int \<Rightarrow> nat" where
  "slot j = nat (j mod 16)"

definition fifo_ok :: "byte list \<Rightarrow> nat \<Rightarrow> dsd2pcm_ctx \<Rightarrow> bool" where
  "fifo_ok xs n ctx \<longleftrightarrow> length (ctx_fifo ctx) = 16 \<and> ctx_fifopos ctx = n mod 16 \<and>
     (\<forall>j \<in> {int n - 16..<int n}.
        ctx_fifo ctx ! slot j = (if j \<le> int n - 7 then reversed_past xs j else past xs j))"

lemma slot_less [simp]: "slot j < 16"
  by (simp add: slot_def)

lemma slot_eq: "\<bar>i - j\<bar> < 16 \<Longrightarrow> slot i = slot j \<longleftrightarrow> i = j"
proof
  assume d: "\<bar>i - j\<bar> < 16" and "slot i = slot j"
  then have "i mod 16 = j mod 16" by (simp add: slot_def)
  then have "16 dvd i - j" by (simp add: mod_eq_dvd_iff)
  then obtain k where "i - j = 16 * k" by (auto elim: dvdE)
  moreover from this d have "k = 0" by linarith
  ultimately show "i = j" by simp
qed simp

lemma slot_nat: "(n mod 16 + 16 - k) mod 16 = slot (int n - int k)" if "k \<le> 16"
proof -
  have "(a mod 16 + 16 - b) mod 16 = (a - b) mod 16" for a b :: int
  proof -
    have "a mod 16 + 16 - b = (a mod 16 - b) + 16" by simp
    then show ?thesis by (simp only: mod_add_self2 mod_diff_left_eq)
  qed
  then have "int ((n mod 16 + 16 - k) mod 16) = (int n - int k) mod 16"
    using that by (simp add: of_nat_diff zmod_int)
  then show ?thesis by (simp add: slot_def)
qed

lemma reset_ok: "fifo_ok xs 0 dsd2pcm_reset"
  by (auto simp: fifo_ok_def dsd2pcm_reset_def FIFOSIZE_def past_def reversed_past_def)

text \<open>The two writes of a step, seen from the slots.\<close>

lemma fifo_step:
  assumes inv: "fifo_ok xs n ctx" and n: "n < length xs"
  defines "f \<equiv> (ctx_fifo ctx)[n mod 16 := xs ! n]"
    and "p \<equiv> (n mod 16 + 16 - 6) mod 16"
  assumes j: "int n - 15 \<le> j" "j \<le> int n"
  shows "f[p := bit_reverse (f ! p)] ! slot j = (if j \<le> int n - 6 then reversed_past xs j else past xs j)"
proof -
  have len: "length (ctx_fifo ctx) = 16"
    and old: "int n - 16 \<le> i \<Longrightarrow> i < int n \<Longrightarrow>
      ctx_fifo ctx ! slot i = (if i \<le> int n - 7 then reversed_past xs i else past xs i)" for i
    using inv by (auto simp: fifo_ok_def)
  have sn: "n mod 16 = slot (int n)" and sp: "p = slot (int n - 6)"
    using slot_nat[of 0 n] slot_nat[of 6 n] by (simp_all add: p_def)
  have new: "f ! slot i = (if i = int n then xs ! n else ctx_fifo ctx ! slot i)"
    if "int n - 15 \<le> i" "i \<le> int n" for i
    using that slot_eq[of i "int n"] len by (auto simp: f_def sn nth_list_update)
  have "f[p := bit_reverse (f ! p)] ! slot j = (if j = int n - 6 then bit_reverse (f ! slot (int n - 6)) else f ! slot j)"
  proof -
    have "\<bar>j - (int n - 6)\<bar> < 16" using j by linarith
    then show ?thesis
      using slot_eq[of j "int n - 6"] len by (auto simp: sp f_def nth_list_update)
  qed
  moreover have "f ! slot (int n - 6) = past xs (int n - 6)"
    using new[of "int n - 6"] old[of "int n - 6"] by simp
  moreover have "f ! slot j = (if j \<le> int n - 7 then reversed_past xs j else past xs j)"
    using new[OF j] old[of j] j n by (auto simp: past_def)
  ultimately show ?thesis
    by (auto simp: reversed_past_def)
qed

lemma dsd2pcm_step_fir:
  assumes inv: "fifo_ok xs n ctx" and n: "n < length xs" and b: "(if lsbf then bit_reverse b else b) = xs ! n"
  shows "fst (dsd2pcm_step fp ctables lsbf b ctx) = fir fp ctables xs n"
    and "fifo_ok xs (Suc n) (snd (dsd2pcm_step fp ctables lsbf b ctx))"
proof -
  define f where "f = (ctx_fifo ctx)[n mod 16 := xs ! n]"
  define p where "p = (n mod 16 + 16 - 6) mod 16"
  define g where "g = f[p := bit_reverse (f ! p)]"
  have pos: "ctx_fifopos ctx = n mod 16" and len: "length g = 16"
    using inv by (simp_all add: fifo_ok_def g_def f_def)
  have read: "g ! slot j = (if j \<le> int n - 6 then reversed_past xs j else past xs j)"
    if "int n - 15 \<le> j" "j \<le> int n" for j
    unfolding g_def f_def p_def using fifo_step[OF inv n that] .
  have step: "dsd2pcm_step fp ctables lsbf b ctx = (f_of_d fp (fold (\<lambda>i acc.
        d_add fp acc (d_of_f fp (f_add fp (ctables i (g ! ((n mod 16 + 16 - i) mod 16)))
          (ctables i (g ! ((n mod 16 + 16 - 11 + i) mod 16)))))) [0..<6] (d_of_int fp 0)),
      \<lparr>ctx_fifo = g, ctx_fifopos = (n mod 16 + 1) mod 16\<rparr>)"
    by (simp only: dsd2pcm_step_def Let_def pos b g_def f_def p_def FIFOSIZE_def CTABLES_def) simp
  have "g ! ((n mod 16 + 16 - i) mod 16) = past xs (int n - int i)" if "i < 6" for i
    using read[of "int n - int i"] slot_nat[of i n] that by simp
  moreover have "g ! ((n mod 16 + 16 - 11 + i) mod 16) = reversed_past xs (int n - 11 + int i)" if "i < 6" for i
  proof -
    have "n mod 16 + 16 - 11 + i = n mod 16 + 16 - (11 - i)" using that by simp
    then show ?thesis
      using read[of "int n - 11 + int i"] slot_nat[of "11 - i" n] that by (simp add: of_nat_diff algebra_simps)
  qed
  ultimately have "fold (\<lambda>i acc. d_add fp acc (d_of_f fp (f_add fp
        (ctables i (g ! ((n mod 16 + 16 - i) mod 16)))
        (ctables i (g ! ((n mod 16 + 16 - 11 + i) mod 16)))))) [0..<6] (d_of_int fp 0) =
      fold (\<lambda>i acc. d_add fp acc (d_of_f fp (f_add fp
         (ctables i (past xs (int n - int i))) (ctables i (reversed_past xs (int n - 11 + int i))))))
       [0..<6] (d_of_int fp 0)"
    by (intro fold_cong) auto
  then show "fst (dsd2pcm_step fp ctables lsbf b ctx) = fir fp ctables xs n"
    unfolding step fir_def by simp
  show "fifo_ok xs (Suc n) (snd (dsd2pcm_step fp ctables lsbf b ctx))"
    unfolding step fifo_ok_def using len read by (auto simp: mod_Suc_eq)
qed

text \<open>A whole call, which starts where the previous one has stopped.\<close>

lemma translate_fir:
  assumes "fifo_ok xs n ctx" "n + length src \<le> length xs"
    and "map (\<lambda>b. if lsbf then bit_reverse b else b) src = take (length src) (drop n xs)"
  shows "fst (dsd2pcm_translate fp ctables lsbf src ctx) = map (fir fp ctables xs) [n..<n + length src]"
    and "fifo_ok xs (n + length src) (snd (dsd2pcm_translate fp ctables lsbf src ctx))"
proof -
  have "fst (dsd2pcm_translate fp ctables lsbf src ctx) = map (fir fp ctables xs) [n..<n + length src] \<and>
      fifo_ok xs (n + length src) (snd (dsd2pcm_translate fp ctables lsbf src ctx))"
    using assms
  proof (induction src arbitrary: n ctx)
    case (Cons b src)
    have n: "n < length xs" using Cons.prems(2) by simp
    then have d: "drop n xs = xs ! n # drop (Suc n) xs" by (simp add: Cons_nth_drop_Suc)
    with Cons.prems(3) have b: "(if lsbf then bit_reverse b else b) = xs ! n"
      and rest: "map (\<lambda>b. if lsbf then bit_reverse b else b) src = take (length src) (drop (Suc n) xs)"
      by simp_all
    obtain y ctx' where step: "dsd2pcm_step fp ctables lsbf b ctx = (y, ctx')" by (cases "dsd2pcm_step fp ctables lsbf b ctx")
    have y: "y = fir fp ctables xs n" "fifo_ok xs (Suc n) ctx'"
      using dsd2pcm_step_fir[OF Cons.prems(1) n b, of fp ctables] step by simp_all
    have "fst (dsd2pcm_translate fp ctables lsbf src ctx') = map (fir fp ctables xs) [Suc n..<Suc n + length src] \<and>
        fifo_ok xs (Suc n + length src) (snd (dsd2pcm_translate fp ctables lsbf src ctx'))"
      using Cons.prems(2) rest by (intro Cons.IH[OF y(2)]) simp_all
    then show ?case
      by (cases "dsd2pcm_translate fp ctables lsbf src ctx'") (simp add: step y upt_conv_Cons del: upt_Suc)
  qed simp
  then show "fst (dsd2pcm_translate fp ctables lsbf src ctx) = map (fir fp ctables xs) [n..<n + length src]"
    "fifo_ok xs (n + length src) (snd (dsd2pcm_translate fp ctables lsbf src ctx))" by simp_all
qed

section \<open>All channels together\<close>

definition channel_ctx :: "pcm_dsd \<Rightarrow> nat \<Rightarrow> dsd2pcm_ctx" where
  "channel_ctx d c = (case d ! c of None \<Rightarrow> dsd2pcm_reset | Some ctx \<Rightarrow> ctx)"

text \<open>Every channel is translated from its own context, independently of the others.\<close>

lemma ToFloat_loop_channels:
  assumes "\<And>c. c \<in> set cs \<Longrightarrow> alloc c" "distinct cs" "\<And>c. c \<in> set cs \<Longrightarrow> c < length d"
    and tr_def: "tr = (\<lambda>c. dsd2pcm_translate fp ct lsb (channel_bytes n c src) (channel_ctx d c))"
  shows "fst (ToFloat_loop fp ct alloc n lsb src cs d) = Some (map (\<lambda>c. fst (tr c)) cs) \<and>
    length (snd (ToFloat_loop fp ct alloc n lsb src cs d)) = length d \<and>
    (\<forall>c < length d. channel_ctx (snd (ToFloat_loop fp ct alloc n lsb src cs d)) c =
      (if c \<in> set cs then snd (tr c) else channel_ctx d c))"
  using assms(1-3) unfolding tr_def
proof (induction cs arbitrary: d)
  case (Cons c cs)
  obtain ys ctx where t: "dsd2pcm_translate fp ct lsb (channel_bytes n c src) (channel_ctx d c) = (ys, ctx)"
    by (cases "dsd2pcm_translate fp ct lsb (channel_bytes n c src) (channel_ctx d c)")
  let ?d = "d[c := Some ctx]"
  have same: "channel_ctx ?d b = (if b = c then ctx else channel_ctx d b)" if "b < length d" for b
    using that Cons.prems(3)[of c] by (simp add: channel_ctx_def nth_list_update)
  have IH: "fst (ToFloat_loop fp ct alloc n lsb src cs ?d) =
      Some (map (\<lambda>c. fst (dsd2pcm_translate fp ct lsb (channel_bytes n c src) (channel_ctx ?d c))) cs) \<and>
    length (snd (ToFloat_loop fp ct alloc n lsb src cs ?d)) = length ?d \<and>
    (\<forall>b < length ?d. channel_ctx (snd (ToFloat_loop fp ct alloc n lsb src cs ?d)) b =
      (if b \<in> set cs then snd (dsd2pcm_translate fp ct lsb (channel_bytes n b src) (channel_ctx ?d b))
       else channel_ctx ?d b))"
    using Cons.prems by (intro Cons.IH) simp_all
  have m: "map (\<lambda>c. fst (dsd2pcm_translate fp ct lsb (channel_bytes n c src) (channel_ctx ?d c))) cs =
      map (\<lambda>c. fst (dsd2pcm_translate fp ct lsb (channel_bytes n c src) (channel_ctx d c))) cs"
    using Cons.prems(2,3) same by (intro map_cong) auto
  obtain r e where r: "ToFloat_loop fp ct alloc n lsb src cs ?d = (r, e)"
    by (cases "ToFloat_loop fp ct alloc n lsb src cs ?d")
  have "ToFloat_loop fp ct alloc n lsb src (c # cs) d = (map_option ((#) ys) r, e)"
    using Cons.prems(1)[of c] t r by (simp add: channel_ctx_def Let_def)
  then show ?case
    using IH m r t same Cons.prems(2) by auto
qed simp

lemma length_translate [simp]: "length (fst (dsd2pcm_translate fp ct lsb src ctx)) = length src"
  by (induction src arbitrary: ctx) (auto split: prod.splits, metis fst_conv)

lemma length_channel_bytes [simp]: "length (channel_bytes n c src) = length src div n"
  by (simp add: channel_bytes_def)

lemma length_interleave [simp]: "length (interleave frames chans) = frames * length chans"
  by (simp add: interleave_def length_concat comp_def sum_list_triv)

lemma ToFloat_total:
  assumes "channels \<le> length d" "\<And>c. alloc c"
  shows "\<exists>fs d'. PcmDsd_ToFloat fp ct alloc channels lsb src d = (Some fs, d') \<and>
    length fs = length src div channels * channels \<and> length d' = length d"
proof -
  obtain r e where r: "ToFloat_loop fp ct alloc channels lsb src [0..<channels] d = (r, e)"
    by (cases "ToFloat_loop fp ct alloc channels lsb src [0..<channels] d")
  from ToFloat_loop_channels[where cs = "[0..<channels]" and alloc = alloc and d = d and fp = fp and
      ct = ct and lsb = lsb and n = channels and src = src, OF _ _ _ refl] assms r
  show ?thesis by (auto simp: PcmDsd_ToFloat_def)
qed

end
