(* ===== verification/PCM_Convert.thy ===== *)
theory PCM_Convert
  imports PCM_Channels PCM_Dsd
begin

text \<open>
  The conversion between audio formats (pcm/PcmConvert.hxx, pcm/PcmConvert.cxx,
  pcm/PcmResample.cxx).  What the code calls outside and what lies in its buffers is the record
  \<open>pcm_env\<close>: the floating point unit, the byte order, the tables of the DSD filter, \<open>malloc\<close>,
  libsamplerate where it is compiled in and enabled, and the old content of the resampler's
  buffer.
\<close>

record pcm_env =
  env_fpu :: fpu
  env_be :: bool
  env_ctables :: "nat \<Rightarrow> byte \<Rightarrow> float32"
  env_alloc :: "nat \<Rightarrow> bool"
  env_lsr :: "(SampleFormat \<Rightarrow> nat \<Rightarrow> nat \<Rightarrow> byte list \<Rightarrow> nat \<Rightarrow> byte list option) option"
  env_old :: "byte list"

record pcm_convert =
  pv_dsd :: pcm_dsd
  pv_dither :: pcm_dither

definition new_PcmConvert :: pcm_convert where
  "new_PcmConvert = \<lparr>pv_dsd = new_PcmDsd, pv_dither = new_PcmDither\<rparr>"

definition PcmConvert_Reset :: "pcm_convert \<Rightarrow> pcm_convert" where
  "PcmConvert_Reset st = st\<lparr>pv_dsd := PcmDsd_Reset (pv_dsd st)\<rparr>"

text \<open>The errors, with the arguments of their messages.\<close>

datatype pcm_error =
  NoConversionTo SampleFormat string
| NoChannelConversion "8 word" "8 word"
| ResampleFailed
| DsdFailed
| NoConversionToFormat SampleFormat

section \<open>Resampling\<close>

definition Resample16 :: "pcm_env \<Rightarrow> nat \<Rightarrow> nat \<Rightarrow> byte list \<Rightarrow> nat \<Rightarrow> byte list option" where
  "Resample16 env channels src_rate src dest_rate =
     (case env_lsr env of
        Some lsr \<Rightarrow> lsr SF_S16 channels src_rate src dest_rate
      | None \<Rightarrow> Some (pcm_resample_fallback_16 (env_be env) (env_old env) channels src_rate src dest_rate))"

definition Resample32 :: "pcm_env \<Rightarrow> nat \<Rightarrow> nat \<Rightarrow> byte list \<Rightarrow> nat \<Rightarrow> byte list option" where
  "Resample32 env channels src_rate src dest_rate =
     (case env_lsr env of
        Some lsr \<Rightarrow> lsr SF_S32 channels src_rate src dest_rate
      | None \<Rightarrow> Some (pcm_resample_fallback_32 (env_be env) (env_old env) channels src_rate src dest_rate))"

definition Resample24 :: "pcm_env \<Rightarrow> nat \<Rightarrow> nat \<Rightarrow> byte list \<Rightarrow> nat \<Rightarrow> byte list option" where
  "Resample24 env channels src_rate src dest_rate =
     (case env_lsr env of
        Some lsr \<Rightarrow> lsr SF_S24_P32 channels src_rate src dest_rate
      | None \<Rightarrow> Some (pcm_resample_fallback_32 (env_be env) (env_old env) channels src_rate src dest_rate))"

definition ResampleFloat :: "pcm_env \<Rightarrow> nat \<Rightarrow> nat \<Rightarrow> byte list \<Rightarrow> nat \<Rightarrow> byte list option" where
  "ResampleFloat env channels src_rate src dest_rate =
     (case env_lsr env of
        Some lsr \<Rightarrow> lsr SF_FLOAT channels src_rate src dest_rate
      | None \<Rightarrow> Some (pcm_resample_fallback_32 (env_be env) (env_old env) channels src_rate src dest_rate))"

section \<open>The four targets\<close>

text \<open>What they share after the conversion of the format: the channels, then the rate.\<close>

definition channels_and_rate ::
    "(nat \<Rightarrow> nat \<Rightarrow> byte list \<Rightarrow> byte list option) \<Rightarrow>
     (nat \<Rightarrow> nat \<Rightarrow> byte list \<Rightarrow> nat \<Rightarrow> byte list option) \<Rightarrow>
     AudioFormat \<Rightarrow> AudioFormat \<Rightarrow> byte list \<Rightarrow> pcm_error + byte list" where
  "channels_and_rate chan resample src_format dest_format buf =
     (case (if af_channels src_format \<noteq> af_channels dest_format
            then chan (unat (af_channels dest_format)) (unat (af_channels src_format)) buf
            else Some buf) of
        None \<Rightarrow> Inl (NoChannelConversion (af_channels src_format) (af_channels dest_format))
      | Some buf \<Rightarrow>
          if af_sample_rate src_format \<noteq> af_sample_rate dest_format
          then (case resample (unat (af_channels dest_format)) (unat (af_sample_rate src_format)) buf
                    (unat (af_sample_rate dest_format)) of
                  None \<Rightarrow> Inl ResampleFailed | Some buf \<Rightarrow> Inr buf)
          else Inr buf)"

definition Convert16 ::
    "pcm_env \<Rightarrow> AudioFormat \<Rightarrow> byte list \<Rightarrow> AudioFormat \<Rightarrow> pcm_dither \<Rightarrow> (pcm_error + byte list) \<times> pcm_dither" where
  "Convert16 env src_format src dest_format pd =
     (case pcm_convert_to_16 (env_fpu env) (env_be env) (af_format src_format) src pd of
        (None, pd) \<Rightarrow> (Inl (NoConversionTo (af_format src_format) ''16 bit''), pd)
      | (Some buf, pd) \<Rightarrow>
          (channels_and_rate (pcm_convert_channels_16 (env_be env)) (Resample16 env)
             src_format dest_format buf, pd))"

definition Convert24 :: "pcm_env \<Rightarrow> AudioFormat \<Rightarrow> byte list \<Rightarrow> AudioFormat \<Rightarrow> pcm_error + byte list" where
  "Convert24 env src_format src dest_format =
     (case pcm_convert_to_24 (env_fpu env) (env_be env) (af_format src_format) src of
        None \<Rightarrow> Inl (NoConversionTo (af_format src_format) ''24 bit'')
      | Some buf \<Rightarrow>
          channels_and_rate (pcm_convert_channels_24 (env_be env)) (Resample24 env) src_format dest_format buf)"

definition Convert32 :: "pcm_env \<Rightarrow> AudioFormat \<Rightarrow> byte list \<Rightarrow> AudioFormat \<Rightarrow> pcm_error + byte list" where
  "Convert32 env src_format src dest_format =
     (case pcm_convert_to_32 (env_fpu env) (env_be env) (af_format src_format) src of
        None \<Rightarrow> Inl (NoConversionTo (af_format src_format) ''32 bit'')
      | Some buf \<Rightarrow>
          channels_and_rate (pcm_convert_channels_32 (env_be env)) (Resample32 env) src_format dest_format buf)"

definition ConvertFloat :: "pcm_env \<Rightarrow> AudioFormat \<Rightarrow> byte list \<Rightarrow> AudioFormat \<Rightarrow> pcm_error + byte list" where
  "ConvertFloat env src_format src dest_format =
     (case pcm_convert_to_float (env_fpu env) (env_be env) (af_format src_format) src of
        None \<Rightarrow> Inl (NoConversionTo (af_format src_format) ''float'')
      | Some buf \<Rightarrow>
          channels_and_rate (pcm_convert_channels_float (env_fpu env) (env_be env)) (ResampleFloat env)
            src_format dest_format buf)"

section \<open>Convert\<close>

text \<open>The switch over the destination.\<close>

definition convert_to ::
    "pcm_env \<Rightarrow> AudioFormat \<Rightarrow> byte list \<Rightarrow> AudioFormat \<Rightarrow> pcm_convert \<Rightarrow> (pcm_error + byte list) \<times> pcm_convert" where
  "convert_to env src_format src dest_format st =
     (case af_format dest_format of
        SF_S16 \<Rightarrow> (let (r, pd) = Convert16 env src_format src dest_format (pv_dither st)
                   in (r, st\<lparr>pv_dither := pd\<rparr>))
      | SF_S24_P32 \<Rightarrow> (Convert24 env src_format src dest_format, st)
      | SF_S32 \<Rightarrow> (Convert32 env src_format src dest_format, st)
      | SF_FLOAT \<Rightarrow> (ConvertFloat env src_format src dest_format, st)
      | _ \<Rightarrow> (Inl (NoConversionToFormat (af_format dest_format)), st))"

definition PcmConvert_Convert ::
    "pcm_env \<Rightarrow> AudioFormat \<Rightarrow> byte list \<Rightarrow> AudioFormat \<Rightarrow> pcm_convert \<Rightarrow> (pcm_error + byte list) \<times> pcm_convert" where
  "PcmConvert_Convert env src_format src dest_format st =
     (if af_format src_format = SF_DSD
      then (case PcmDsd_ToFloat (env_fpu env) (env_ctables env) (env_alloc env)
                 (unat (af_channels src_format)) False src (pv_dsd st) of
              (None, d) \<Rightarrow> (Inl DsdFailed, st\<lparr>pv_dsd := d\<rparr>)
            | (Some f, d) \<Rightarrow>
                convert_to env (src_format\<lparr>af_format := SF_FLOAT\<rparr>) (of_floats (env_be env) f) dest_format
                  (st\<lparr>pv_dsd := d\<rparr>))
      else convert_to env src_format src dest_format st)"

section \<open>Which conversions there are\<close>

definition pcm_of :: "SampleFormat \<Rightarrow> SampleFormat" where
  "pcm_of fmt = (if fmt = SF_DSD then SF_FLOAT else fmt)"

fun target_name :: "SampleFormat \<Rightarrow> string" where
  "target_name SF_S16 = ''16 bit''"
| "target_name SF_S24_P32 = ''24 bit''"
| "target_name SF_S32 = ''32 bit''"
| "target_name _ = ''float''"

text \<open>The error of a conversion that does not exist, in the order of the checks.\<close>

definition missing_conversion :: "AudioFormat \<Rightarrow> AudioFormat \<Rightarrow> pcm_error option" where
  "missing_conversion s d =
     (if af_format d \<notin> {SF_S16, SF_S24_P32, SF_S32, SF_FLOAT} then Some (NoConversionToFormat (af_format d))
      else if \<not> is_pcm (pcm_of (af_format s)) then Some (NoConversionTo (pcm_of (af_format s)) (target_name (af_format d)))
      else if af_channels s \<noteq> af_channels d \<and>
        \<not> channels_supported (unat (af_channels d)) (unat (af_channels s))
      then Some (NoChannelConversion (af_channels s) (af_channels d))
      else None)"

text \<open>The frames that come out of \<open>frames\<close> frames.\<close>

definition resampled_frames :: "AudioFormat \<Rightarrow> AudioFormat \<Rightarrow> nat \<Rightarrow> nat" where
  "resampled_frames s d frames =
     (if af_sample_rate s = af_sample_rate d then frames
      else (frames * unat (af_sample_rate d) + unat (af_sample_rate s) - 1) div unat (af_sample_rate s))"

section \<open>Sizes along the way\<close>

text \<open>
  What the four sample types have in common, as an interface: \<open>w\<close> is the size of a sample,
  \<open>room\<close> the size of the resampler's buffer.
\<close>

definition in_range :: "nat \<Rightarrow> nat \<Rightarrow> nat \<Rightarrow> nat \<Rightarrow> bool" where
  "in_range ch sr dr frames \<longleftrightarrow> 0 < ch \<and> ch \<le> 8 \<and> 0 < sr \<and> 0 < dr \<and> 8 * (frames * dr + sr) < 2 ^ 32"

locale sample_path =
  fixes w :: nat
    and chan :: "nat \<Rightarrow> nat \<Rightarrow> byte list \<Rightarrow> byte list option"
    and resample :: "nat \<Rightarrow> nat \<Rightarrow> byte list \<Rightarrow> nat \<Rightarrow> byte list option"
    and room :: nat
  assumes chan_some: "\<lbrakk>0 < s; channels_supported d s; length buf = w * (s * frames)\<rbrakk> \<Longrightarrow>
      \<exists>b. chan d s buf = Some b \<and> length b = w * (d * frames)"
    and chan_none: "\<lbrakk>0 < s; \<not> channels_supported d s\<rbrakk> \<Longrightarrow> chan d s buf = None"
    and resample_some: "\<lbrakk>in_range ch sr dr frames; length buf = w * (ch * frames);
        w * (ch * ((frames * dr + sr - 1) div sr)) \<le> room\<rbrakk> \<Longrightarrow>
      \<exists>b. resample ch sr buf dr = Some b \<and> length b = w * (ch * ((frames * dr + sr - 1) div sr))"
begin

lemma path_size:
  assumes buf: "length buf = w * (unat (af_channels s) * frames)"
    and s: "0 < unat (af_channels s)"
    and d: "in_range (unat (af_channels d)) (unat (af_sample_rate s)) (unat (af_sample_rate d)) frames"
    and room: "w * (unat (af_channels d) * resampled_frames s d frames) \<le> room"
    and ch: "af_channels s = af_channels d \<or> channels_supported (unat (af_channels d)) (unat (af_channels s))"
  shows "\<exists>out. channels_and_rate chan resample s d buf = Inr out \<and>
    length out = w * (unat (af_channels d) * resampled_frames s d frames)"
proof -
  obtain b where b: "(if af_channels s \<noteq> af_channels d
      then chan (unat (af_channels d)) (unat (af_channels s)) buf else Some buf) = Some b"
    and len: "length b = w * (unat (af_channels d) * frames)"
    using ch chan_some[OF s _ buf, of "unat (af_channels d)"] buf by (cases "af_channels s = af_channels d") auto
  show ?thesis
  proof (cases "af_sample_rate s = af_sample_rate d")
    case True
    then show ?thesis using b len by (simp add: channels_and_rate_def resampled_frames_def)
  next
    case False
    then obtain out where "resample (unat (af_channels d)) (unat (af_sample_rate s)) b (unat (af_sample_rate d)) = Some out"
      and "length out = w * (unat (af_channels d) * resampled_frames s d frames)"
      using resample_some[OF d len] room by (auto simp: resampled_frames_def)
    then show ?thesis using b False by (simp add: channels_and_rate_def)
  qed
qed

lemma path_error:
  assumes "0 < unat (af_channels s)" "af_channels s \<noteq> af_channels d"
    "\<not> channels_supported (unat (af_channels d)) (unat (af_channels s))"
  shows "channels_and_rate chan resample s d buf = Inl (NoChannelConversion (af_channels s) (af_channels d))"
  using assms chan_none by (simp add: channels_and_rate_def)

lemma path_result:
  assumes "length buf = w * (unat (af_channels s) * frames)" "0 < unat (af_channels s)"
    and "in_range (unat (af_channels d)) (unat (af_sample_rate s)) (unat (af_sample_rate d)) frames"
    and "w * (unat (af_channels d) * resampled_frames s d frames) \<le> room"
  shows "if af_channels s \<noteq> af_channels d \<and> \<not> channels_supported (unat (af_channels d)) (unat (af_channels s))
    then channels_and_rate chan resample s d buf = Inl (NoChannelConversion (af_channels s) (af_channels d))
    else \<exists>out. channels_and_rate chan resample s d buf = Inr out \<and>
      length out = w * (unat (af_channels d) * resampled_frames s d frames)"
  using path_size[OF assms] path_error[OF assms(2)] by auto

end

lemma length_resample_fallback:
  assumes r: "in_range ch sr dr frames" and len: "length src = ch * frames"
    and room: "ch * ((frames * dr + sr - 1) div sr) \<le> length old"
  shows "length (resample_fallback old ch sr src dr) = ch * ((frames * dr + sr - 1) div sr)"
proof -
  have ch: "0 < ch" "ch \<le> 8" "0 < sr" "0 < dr" and small: "8 * (frames * dr + sr) < 2 ^ 32"
    using r by (simp_all add: in_range_def)
  have "ch * (frames * dr + sr) \<le> 8 * (frames * dr + sr)" using ch by (intro mult_le_mono1)
  then have small': "ch * (frames * dr + sr) < 2 ^ 32" using small by (rule le_less_trans)
  note n = resample_samples_exact[OF ch(3) small' ch(1)]
  have "frames \<le> frames * dr" using ch by simp
  also have "\<dots> \<le> 8 * (frames * dr + sr)" by simp
  finally have "frames < 2 ^ 32" using small by (rule le_less_trans)
  then have f: "length src div ch mod 2 ^ 32 = frames" using len ch by simp
  show ?thesis
    using f n room resample_2_upt[of sr dr src "(frames * dr + sr - 1) div sr" 0]
    by (auto simp: resample_fallback_def Let_def resample_1_upt length_concat comp_def sum_list_triv)
qed

lemma length_resample_16:
  assumes "in_range ch sr dr frames" "length buf = 2 * (ch * frames)"
    "2 * (ch * ((frames * dr + sr - 1) div sr)) \<le> length old"
  shows "length (pcm_resample_fallback_16 be old ch sr buf dr) = 2 * (ch * ((frames * dr + sr - 1) div sr))"
  using length_resample_fallback[OF assms(1), of "loads be 2 buf" "loads be 2 old"] assms(2,3)
  by (simp add: pcm_resample_fallback_16_def)

lemma length_resample_32:
  assumes "in_range ch sr dr frames" "length buf = 4 * (ch * frames)"
    "4 * (ch * ((frames * dr + sr - 1) div sr)) \<le> length old"
  shows "length (pcm_resample_fallback_32 be old ch sr buf dr) = 4 * (ch * ((frames * dr + sr - 1) div sr))"
  using length_resample_fallback[OF assms(1), of "loads be 4 buf" "loads be 4 old"] assms(2,3)
  by (simp add: pcm_resample_fallback_32_def)

text \<open>The four types, when libsamplerate is not used.\<close>

definition without_lsr :: "pcm_env \<Rightarrow> pcm_env" where
  "without_lsr env = env\<lparr>env_lsr := None\<rparr>"

lemma channels_size:
  assumes "0 < s" "channels_supported d s" "length xs = s * frames"
  shows "\<exists>ys. convert_channels a2 an d s xs = Some ys \<and> length ys = d * frames"
  using convert_channels_total(1)[OF assms(1,2), of a2 an xs] assms(1,3) by simp

interpretation path16: sample_path 2 "pcm_convert_channels_16 (env_be env)" "Resample16 (without_lsr env)"
  "length (env_old env)" for env
proof
  fix s d frames :: nat and buf :: "byte list"
  assume "0 < s" "channels_supported d s" "length buf = 2 * (s * frames)"
  then show "\<exists>b. pcm_convert_channels_16 (env_be env) d s buf = Some b \<and> length b = 2 * (d * frames)"
    using channels_size[of s d "loads (env_be env) 2 buf" frames "average_2 s32 s16" "average_n s32 s16"]
    by (auto simp: pcm_convert_channels_16_def)
qed (auto simp: pcm_convert_channels_16_def convert_channels_total Resample16_def without_lsr_def
    length_resample_16)

interpretation path24: sample_path 4 "pcm_convert_channels_24 (env_be env)" "Resample24 (without_lsr env)"
  "length (env_old env)" for env
proof
  fix s d frames :: nat and buf :: "byte list"
  assume "0 < s" "channels_supported d s" "length buf = 4 * (s * frames)"
  then show "\<exists>b. pcm_convert_channels_24 (env_be env) d s buf = Some b \<and> length b = 4 * (d * frames)"
    using channels_size[of s d "loads (env_be env) 4 buf" frames "average_2 s32 s32" "average_n s32 s32"]
    by (auto simp: pcm_convert_channels_24_def)
qed (auto simp: pcm_convert_channels_24_def convert_channels_total Resample24_def without_lsr_def
    length_resample_32)

interpretation path32: sample_path 4 "pcm_convert_channels_32 (env_be env)" "Resample32 (without_lsr env)"
  "length (env_old env)" for env
proof
  fix s d frames :: nat and buf :: "byte list"
  assume "0 < s" "channels_supported d s" "length buf = 4 * (s * frames)"
  then show "\<exists>b. pcm_convert_channels_32 (env_be env) d s buf = Some b \<and> length b = 4 * (d * frames)"
    using channels_size[of s d "loads (env_be env) 4 buf" frames "average_2 s64 s32" "average_n s64 s32"]
    by (auto simp: pcm_convert_channels_32_def)
qed (auto simp: pcm_convert_channels_32_def convert_channels_total Resample32_def without_lsr_def
    length_resample_32)

interpretation path_float: sample_path 4 "pcm_convert_channels_float (env_fpu env) (env_be env)"
  "ResampleFloat (without_lsr env)" "length (env_old env)" for env
proof
  fix s d frames :: nat and buf :: "byte list"
  assume "0 < s" "channels_supported d s" "length buf = 4 * (s * frames)"
  then show "\<exists>b. pcm_convert_channels_float (env_fpu env) (env_be env) d s buf = Some b \<and>
      length b = 4 * (d * frames)"
    using channels_size[of s d "floats_of (env_be env) buf" frames
        "average_2_float (env_fpu env)" "average_n_float (env_fpu env)"]
    by (auto simp: pcm_convert_channels_float_def)
qed (auto simp: pcm_convert_channels_float_def convert_channels_total ResampleFloat_def without_lsr_def
    length_resample_32)

section \<open>A conversion exists or is refused\<close>

definition pcm_result :: "AudioFormat \<Rightarrow> AudioFormat \<Rightarrow> nat \<Rightarrow> pcm_error + byte list \<Rightarrow> bool" where
  "pcm_result s d frames r \<longleftrightarrow>
     (case missing_conversion s d of
        Some e \<Rightarrow> r = Inl e
      | None \<Rightarrow> (\<exists>out. r = Inr out \<and>
          length out = unat (sample_format_size (af_format d)) * (unat (af_channels d) * resampled_frames s d frames)))"

lemma env_without_lsr [simp]:
  "env_be (without_lsr env) = env_be env" "env_fpu (without_lsr env) = env_fpu env"
  "env_old (without_lsr env) = env_old env"
  by (simp_all add: without_lsr_def)

lemma convert_to_result:
  assumes len: "length src = unat (sample_format_size (af_format s)) * (unat (af_channels s) * frames)"
    and s: "0 < unat (af_channels s)" "af_format s \<noteq> SF_DSD"
    and d: "in_range (unat (af_channels d)) (unat (af_sample_rate s)) (unat (af_sample_rate d)) frames"
    and room: "4 * (unat (af_channels d) * resampled_frames s d frames) \<le> length (env_old env)"
  shows "pcm_result s d frames (fst (convert_to (without_lsr env) s src d st))"
proof -
  let ?n = "unat (sample_format_size (af_format s))"
  let ?be = "env_be env" and ?fp = "env_fpu env"
  have dvd: "?n dvd length src" using len by simp
  have q: "is_pcm (af_format s) \<Longrightarrow> length src div ?n = unat (af_channels s) * frames"
    using len by (auto simp: is_pcm_def)
  have pcm: "pcm_of (af_format s) = af_format s" using s by (simp add: pcm_of_def)
  have room2: "2 * (unat (af_channels d) * resampled_frames s d frames) \<le> length (env_old env)"
    using room by linarith
  show ?thesis
  proof (cases "is_pcm (af_format s)")
    case False
    then show ?thesis
      using pcm convert_to_16_total(2)[OF dvd False] convert_total(2,4,6)[OF dvd] 
      by (cases "af_format d")
        (simp_all add: convert_to_def pcm_result_def missing_conversion_def Convert16_def Convert24_def
          Convert32_def ConvertFloat_def)
  next
    case True
    obtain b16 pd where b16: "pcm_convert_to_16 ?fp ?be (af_format s) src (pv_dither st) = (Some b16, pd)"
      "length b16 = 2 * (unat (af_channels s) * frames)"
      using convert_to_16_total(1)[OF dvd True] q[OF True] by metis
    obtain b24 where b24: "pcm_convert_to_24 ?fp ?be (af_format s) src = Some b24"
      "length b24 = 4 * (unat (af_channels s) * frames)"
      using convert_total(1)[OF dvd True] q[OF True] by metis
    obtain b32 where b32: "pcm_convert_to_32 ?fp ?be (af_format s) src = Some b32"
      "length b32 = 4 * (unat (af_channels s) * frames)"
      using convert_total(3)[OF dvd True] q[OF True] by metis
    obtain bf where bf: "pcm_convert_to_float ?fp ?be (af_format s) src = Some bf"
      "length bf = 4 * (unat (af_channels s) * frames)"
      using convert_total(5)[OF dvd True] q[OF True] by metis
    note paths = path16.path_result[OF b16(2) s(1) d room2] path24.path_result[OF b24(2) s(1) d room]
      path32.path_result[OF b32(2) s(1) d room] path_float.path_result[OF bf(2) s(1) d room]
    show ?thesis
      using True pcm b16(1) b24(1) b32(1) bf(1) paths
      by (cases "af_format d")
        (auto simp: convert_to_def pcm_result_def missing_conversion_def Convert16_def Convert24_def
          Convert32_def ConvertFloat_def split: if_splits)
  qed
qed

text \<open>DSD is converted to floats first; a byte of a channel is one sample.\<close>

lemma Convert_result:
  assumes len: "length src = unat (sample_format_size (af_format s)) * (unat (af_channels s) * frames)"
    and s: "0 < unat (af_channels s)" "unat (af_channels s) \<le> length (pv_dsd st)" "\<And>c. env_alloc env c"
    and d: "in_range (unat (af_channels d)) (unat (af_sample_rate s)) (unat (af_sample_rate d)) frames"
    and room: "4 * (unat (af_channels d) * resampled_frames s d frames) \<le> length (env_old env)"
  shows "pcm_result s d frames (fst (PcmConvert_Convert (without_lsr env) s src d st))"
proof (cases "af_format s = SF_DSD")
  case False
  then show ?thesis
    using convert_to_result[OF len s(1) False d room] by (simp add: PcmConvert_Convert_def)
next
  case True
  let ?s = "s\<lparr>af_format := SF_FLOAT\<rparr>"
  have same: "resampled_frames ?s d frames = resampled_frames s d frames"
    by (simp add: resampled_frames_def)
  obtain fs d' where f: "PcmDsd_ToFloat (env_fpu env) (env_ctables env) (env_alloc env)
      (unat (af_channels s)) False src (pv_dsd st) = (Some fs, d')"
    and "length fs = length src div unat (af_channels s) * unat (af_channels s)"
    using ToFloat_total[OF s(2), where alloc = "env_alloc env" and fp = "env_fpu env" and
        ct = "env_ctables env" and lsb = False and src = src] s(3) by blast
  then have "length fs = unat (af_channels s) * frames"
    using len s(1) True by (simp add: mult.commute)
  then have "pcm_result ?s d frames
      (fst (convert_to (without_lsr env) ?s (of_floats (env_be env) fs) d (st\<lparr>pv_dsd := d'\<rparr>)))"
    using s(1) d room same by (intro convert_to_result) simp_all
  moreover have "missing_conversion ?s d = missing_conversion s d"
    using True by (simp add: missing_conversion_def pcm_of_def)
  ultimately show ?thesis
    using True f
    by (cases "missing_conversion s d") (simp_all add: PcmConvert_Convert_def pcm_result_def same without_lsr_def)
qed

end
