(* ===== verification/PCM_Properties.thy ===== *)
theory PCM_Properties
  imports PCM_Export PCM_Convert
begin

text \<open>
  The properties of the PCM library: the layout and the sizes of exported data, what the two
  encodings of DSD carry, the accuracy of volume, mixing and dithering, the filter of DSD, the
  averages of channels, the frames that the resampler picks, and which conversions exist.
\<close>

section \<open>Export\<close>

text \<open>
  Exported samples are the samples in the layout of the device: in its byte order, packed to
  three bytes or shifted to the upper bits when that is switched on for 24 bit samples, and
  otherwise unchanged.
\<close>

theorem export_layout:
  assumes "fmt \<noteq> SF_DSD" "fmt \<noteq> SF_UNDEFINED"
    and "n = unat (sample_format_size fmt)" "\<forall>x \<in> set xs. fits (8 * n) x"
    and "e = PcmExport_Open fmt ch usb shift pack reverse False ty"
    and "dev = (if reverse then \<not> be else be)"
  shows "Export be old e (store be n xs) =
    (if pack \<and> fmt = SF_S24_P32 then pcm_pack_24 dev xs
     else if shift \<and> fmt = SF_S24_P32 then store dev 4 (map (push_bit 8) xs)
     else store dev n xs)"
  using assms by (intro export_layout_pcm) auto

theorem export_layout_witness:
  "Export False [] (PcmExport_Open SF_S24_P32 2 False False True True False 0) (store False 4 [-2, 0x123456]) =
    [0xff, 0xff, 0xfe, 0x12, 0x34, 0x56]"
proof -
  have "pcm_pack_24 True [-2, 0x123456] = [0xff, 0xff, 0xfe, 0x12, 0x34, 0x56]"
    by code_simp
  moreover have "Export False [] (PcmExport_Open SF_S24_P32 2 False False True True False 0)
      (store False 4 [-2, 0x123456]) =
    (if True \<and> SF_S24_P32 = SF_S24_P32 then pcm_pack_24 True [-2, 0x123456]
     else if False \<and> SF_S24_P32 = SF_S24_P32 then store True 4 (map (push_bit 8) [-2, 0x123456])
     else store True 4 [-2, 0x123456])"
    by (rule export_layout[OF _ _ _ _ refl]) (simp_all add: fits_def)
  ultimately show ?thesis by (simp only: if_True simp_thms)
qed

lemma export_unit:
  assumes "IsValid a" "length data = frames * unat (GetFrameSize a)"
  shows "length data = frames * (unat (sample_format_size (af_format a)) * unat (af_channels a))"
    "0 < unat (af_channels a)" "unat (af_channels a) \<le> 8"
proof -
  have "int (unat (GetFrameSize a)) = int (unat (sample_format_size (af_format a)) * unat (af_channels a))"
    using GetFrameSize_valid(1)[OF assms(1)] by (simp add: GetSampleSize_def)
  then have "unat (GetFrameSize a) = unat (sample_format_size (af_format a)) * unat (af_channels a)"
    by (simp only: of_nat_eq_iff)
  with assms(2) show "length data = frames * (unat (sample_format_size (af_format a)) * unat (af_channels a))"
    by simp
  have "1 \<le> uint (af_channels a) \<and> uint (af_channels a) \<le> 8"
    using assms(1) channels_range[of "ucast (af_channels a)"] by (simp add: IsValid_def uint_channels)
  moreover have "int (unat (af_channels a)) = uint (af_channels a)" by simp
  ultimately show "0 < unat (af_channels a)" "unat (af_channels a) \<le> 8" by linarith+
qed



section \<open>DSD over USB and native DSD\<close>

text \<open>
  The sample of a channel in an output frame of DSD over USB carries the marker 0x05 or 0xfa,
  alternating from frame to frame, and the bytes of the channel from two consecutive source
  frames, the earlier one in the upper position.
\<close>

theorem dsd_usb_carries:
  assumes "0 < ch" "length src = 4 * ch * i" "length src < 2 ^ 30" "f < 2 * i" "c < ch"
    and "w = words32 be (pcm_dsd_to_usb be old ch src) ! (f * ch + c)"
  shows "drop_bit 16 w = (if even f then 0xff05 else 0xfffa) \<and>
    ucast (drop_bit 8 w) = src ! (2 * f * ch + c) \<and> ucast w = src ! ((2 * f + 1) * ch + c)"
proof -
  have "w = dsd_usb_loop ch i src ! (f * ch + c)"
    using dsd_to_usb_exact[OF assms(3,1,2), of be old] assms(6) by simp
  also have "\<dots> = (if even f then pcm_two_dsd_to_usb_marker1 else pcm_two_dsd_to_usb_marker2)
      (src ! (2 * f * ch + c)) (src ! ((2 * f + 1) * ch + c))"
    using assms by (intro nth_usb_loop) simp_all
  finally show ?thesis by (simp add: usb_marker1_parts usb_marker2_parts)
qed

theorem dsd_usb_carries_witness:
  "let w = words32 True (pcm_dsd_to_usb True [] 2 [1, 2, 3, 4, 5, 6, 7, 8]) ! 3
   in drop_bit 16 w = 0xfffa \<and> ucast (drop_bit 8 w) = (6 :: byte) \<and> ucast w = (8 :: byte)"
  using dsd_usb_carries[of 2 "[1, 2, 3, 4, 5, 6, 7, 8]" 1 1 1 _ True "[]", OF _ _ _ _ _ refl]
  by (simp add: Let_def)

text \<open>
  C27: A number of source frames that is even but no multiple of four makes an odd number of
  output frames.  The size that is returned counts the last of them, but the loop runs for pairs
  of frames and never writes it: the output ends with what was in the buffer before.
\<close>

theorem dsd_usb_stale_frame:
  assumes "0 < ch" "length src = 4 * ch * i + 2 * ch" "length src < 2 ^ 30" "2 * length src \<le> length old"
  shows "length (pcm_dsd_to_usb be old ch src) = 2 * length src \<and>
    drop (8 * i * ch) (pcm_dsd_to_usb be old ch src) = take (4 * ch) (drop (8 * i * ch) old)"
proof -
  have out: "pcm_dsd_to_usb be old ch src =
      in_buffer (8 * i * ch + 4 * ch) old (store be 4 (map uint (dsd_usb_loop ch i src)))"
    using dsd_to_usb_odd[OF assms(3,1,2), of be old] by (simp add: algebra_simps)
  have written: "length (store be 4 (map uint (dsd_usb_loop ch i src))) = 8 * i * ch" by simp
  have "8 * i * ch + 4 * ch \<le> length old" using assms(2,4) by (simp add: algebra_simps)
  then show ?thesis
    using in_buffer_tail[of "store be 4 (map uint (dsd_usb_loop ch i src))" "8 * i * ch + 4 * ch" old] assms(2)
    by (simp add: out written length_in_buffer algebra_simps)
qed

theorem dsd_usb_stale_frame_witness:
  "drop 8 (pcm_dsd_to_usb False [9, 9, 9, 9, 9, 9, 9, 9, 42, 43, 44, 45] 1 [1, 2, 3, 4, 5, 6]) = [42, 43, 44, 45]"
  using dsd_usb_stale_frame[of 1 "[1, 2, 3, 4, 5, 6]" 1 "[9, 9, 9, 9, 9, 9, 9, 9, 42, 43, 44, 45]" False]
  by simp



text \<open>
  C29: The loop of the native encoding is written for two channels.  It writes 8 bytes for every
  four source frames, whatever the number of channels is, into a buffer of the size of the
  source: with one channel it writes twice as much as the buffer holds, with more than two it
  leaves the rest of the buffer as it was.
\<close>

theorem native_writes_stereo:
  assumes "0 < ch" "4 * ch dvd length src" "length src < 2 ^ 32"
  shows "ch * length (dsd_native_written be ch src ty) = 2 * length src"
proof -
  obtain k where k: "length src = 4 * ch * k" using assms(2) by (auto elim: dvdE)
  then have "length src div ch div 2 div 2 = k"
    using assms(1) by (simp add: mult.assoc mult.left_commute[of 4])
  then show ?thesis using assms(3) k by (simp add: dsd_native_written_def Let_def)
qed

theorem native_writes_stereo_witness:
  "length (dsd_native_written False 1 [1, 2, 3, 4] 3) = 8"
proof -
  have "4 * 1 dvd length [1, 2, 3, 4 :: byte]" by code_simp
  from native_writes_stereo[OF _ this, of False 3] show ?thesis by simp
qed

section \<open>Volume and mixing\<close>

text \<open>A unit that computes nothing, for the inputs of the examples.\<close>

definition no_fpu :: "bool \<Rightarrow> fpu" where
  "no_fpu negative = \<lparr>f_mul = (\<lambda>x y. 0), f_add = (\<lambda>x y. 0), f_div = (\<lambda>x y. 0), f_less = (\<lambda>x y. negative),
     f_of_int = (\<lambda>x. 0), int_of_f = (\<lambda>x. 0), d_of_f = (\<lambda>x. 0), f_of_d = (\<lambda>x. 0), d_add = (\<lambda>x y. 0),
     d_div = (\<lambda>x y. 0), d_of_int = (\<lambda>x. 0), int_of_d = (\<lambda>x. 512), f_sin_half_pi = (\<lambda>x. 0)\<rparr>"

text \<open>
  C30: Scaling a buffer of integer samples by a volume of at most 100 percent succeeds, keeps
  the size and makes every sample a value of its format that is less than two steps away from
  the exact product, whatever the dithering draws.
\<close>

theorem volume_accurate:
  assumes "fmt \<in> {SF_S8, SF_S16, SF_S24_P32, SF_S32}" "n = unat (sample_format_size fmt)"
    and "\<forall>x \<in> set (loads be n buf). fits (sample_bits fmt) x" "0 \<le> volume" "volume \<le> 1024" "n dvd length buf"
  shows "fst (pcm_volume fp be buf fmt volume st) \<and>
    length (fst (snd (pcm_volume fp be buf fmt volume st))) = length buf \<and>
    list_all2 (\<lambda>x y. close_to (sample_bits fmt) (x * volume) y) (loads be n buf)
      (loads be n (fst (snd (pcm_volume fp be buf fmt volume st))))"
proof (intro conjI)
  show "list_all2 (\<lambda>x y. close_to (sample_bits fmt) (x * volume) y) (loads be n buf)
      (loads be n (fst (snd (pcm_volume fp be buf fmt volume st))))"
    using assms by (intro pcm_volume_close) auto
  show "fst (pcm_volume fp be buf fmt volume st)"
    using assms(1) by (auto simp: pcm_volume_def)
  show "length (fst (snd (pcm_volume fp be buf fmt volume st))) = length buf"
    using assms(1,2,6)
    by (auto simp: pcm_volume_def pcm_volume_change_8_def pcm_volume_change_16_def pcm_volume_change_24_def
        pcm_volume_change_32_def length_in_memory)
qed

theorem volume_accurate_witness:
  "let y = loads False 2 (fst (snd (pcm_volume (no_fpu False) False (store False 2 [1000, -7]) SF_S16 512 0)))
   in list_all2 (\<lambda>x y. close_to 16 (x * 512) y) [1000, -7] y"
proof -
  have l: "loads False 2 (store False 2 [1000, -7]) = [1000, -7]"
    by (rule load_store) (auto simp: fits_def)
  then show ?thesis
    using volume_accurate[of SF_S16 2 False "store False 2 [1000, -7]" 512 "no_fpu False" 0]
    by (simp add: fits_def)
qed

text \<open>
  Mixing two buffers of integer samples: with a negative portion the samples are added and
  saturate at the ends of the range; otherwise they are weighted with volumes that add up to 100
  percent, and the result is less than two steps away from the exact sum.
\<close>

theorem mix_accurate:
  assumes "fmt \<in> {SF_S8, SF_S16, SF_S24_P32, SF_S32}" "n = unat (sample_format_size fmt)"
    and "\<forall>x \<in> set (loads be n buf1) \<union> set (loads be n buf2). fits (sample_bits fmt) x"
    and "out = loads be n (fst (snd (pcm_mix fp be buf1 buf2 fmt portion st)))"
  shows "if f_less fp portion (f_of_int fp 0)
    then out = map2 (\<lambda>a b. PcmClamp (sample_bits fmt) (a + b)) (loads be n buf1) (loads be n buf2)
    else list_all2 (\<lambda>ab y. close_to (sample_bits fmt)
        (fst ab * fade_volume fp portion + snd ab * (1024 - fade_volume fp portion)) y)
      (zip (loads be n buf1) (loads be n buf2)) out"
proof (cases "f_less fp portion (f_of_int fp 0)")
  case True
  have "loads be n (snd (pcm_add fp be buf1 buf2 fmt)) =
      map2 (\<lambda>a b. PcmClamp (sample_bits fmt) (a + b)) (loads be n buf1) (loads be n buf2)"
    using assms(3) by (intro pcm_add_saturates(2)[OF assms(1,2)]) auto
  then show ?thesis
    using True assms(4) by (cases "pcm_add fp be buf1 buf2 fmt") (simp add: pcm_mix_def)
next
  case False
  have "list_all2 (\<lambda>ab y. close_to (sample_bits fmt)
        (fst ab * fade_volume fp portion + snd ab * (1024 - fade_volume fp portion)) y)
      (zip (loads be n buf1) (loads be n buf2))
      (loads be n (fst (snd (pcm_add_vol fp be buf1 buf2 (fade_volume fp portion)
        (1024 - fade_volume fp portion) fmt st))))"
    using assms(3) fade_range[of fp portion] by (intro pcm_add_vol_close[OF assms(1,2)]) auto
  then show ?thesis
    using False assms(4) by (simp add: pcm_mix_def PCM_VOLUME_1_def Let_def)
qed

theorem mix_accurate_witness:
  "loads False 2 (fst (snd (pcm_mix (no_fpu True) False (store False 2 [30000, -5]) (store False 2 [30000, 3])
      SF_S16 0 0))) = [32767, -2]"
proof -
  have l: "loads False 2 (store False 2 [30000, -5]) = [30000, -5]"
    "loads False 2 (store False 2 [30000, 3]) = [30000, 3]"
    by (rule load_store; auto simp: fits_def)+
  show ?thesis
    using mix_accurate[of SF_S16 2 False "store False 2 [30000, -5]" "store False 2 [30000, 3]" _ "no_fpu True" 0 0,
        OF _ _ _ refl] l
    by (simp add: fits_def no_fpu_def PcmClamp_def)
qed

section \<open>Dithering\<close>

text \<open>
  C31: Shortening samples of 24 or 32 bits to 16 bits keeps the errors that are fed back within
  bounds, so that no computation ever wraps, and every sample of the result is at most five
  steps away from the sample it stands for.
\<close>

theorem dither_bounded:
  assumes "dither_ok pd" "fmt \<in> {SF_S24_P32, SF_S32}"
    and "\<forall>x \<in> set (loads be 4 src). fits (sample_bits fmt) x"
    and "pcm_convert_to_16 fp be fmt src pd = (result, pd')"
  shows "dither_ok pd' \<and> (\<exists>dest. result = Some dest \<and>
    list_all2 dithered (map (rescale (sample_bits fmt) 24) (loads be 4 src)) (loads be 2 dest))"
proof -
  define xs where "xs = map (rescale (sample_bits fmt) 24) (loads be 4 src)"
  have "fits 24 x" if "x \<in> set xs" for x
    using that assms(2,3) drop_8_fits by (auto simp: xs_def rescale_def drop_bit_eq_div)
  then have ok: "dither_ok (snd (Dither24To16_loop xs pd)) \<and> list_all2 dithered xs (fst (Dither24To16_loop xs pd))"
    by (intro Dither24To16_loop_ok[OF assms(1)])
  then have "loads be 2 (store be 2 (fst (Dither24To16_loop xs pd))) = fst (Dither24To16_loop xs pd)"
    by (intro load_store) (auto simp: list_all2_conv_all_nth in_set_conv_nth dithered_def)
  moreover have "pcm_convert_to_16 fp be fmt src pd =
      (Some (store be 2 (fst (Dither24To16_loop xs pd))), snd (Dither24To16_loop xs pd))"
  proof -
    have "rescale 32 24 = drop_bit 8" by (rule ext) (simp add: rescale_def drop_bit_eq_div)
    then show ?thesis
      using assms(2) by (auto simp: pcm_convert_to_16_def Dither32To16_loop xs_def case_prod_beta Let_def)
  qed
  ultimately show ?thesis
    using ok assms(4) unfolding xs_def[symmetric] by auto
qed

theorem dither_bounded_witness:
  "case pcm_convert_to_16 (no_fpu False) False SF_S32 (store False 4 [2147483647, -2147483648, 77]) new_PcmDither of
     (result, pd') \<Rightarrow> dither_ok pd' \<and> (\<exists>dest. result = Some dest \<and>
       list_all2 dithered [8388607, -8388608, 0] (loads False 2 dest))"
proof -
  obtain result pd' where r: "pcm_convert_to_16 (no_fpu False) False SF_S32 (store False 4 [2147483647, -2147483648, 77])
      new_PcmDither = (result, pd')" by (cases "pcm_convert_to_16 (no_fpu False) False SF_S32 (store False 4
        [2147483647, -2147483648, 77]) new_PcmDither")
  have l: "loads False 4 (store False 4 [2147483647, -2147483648, 77]) = [2147483647, -2147483648, 77]"
    by (rule load_store) (auto simp: fits_def)
  show ?thesis
    using dither_bounded[OF new_dither_ok _ _ r] l r by (simp add: fits_def rescale_def)
qed

section \<open>DSD to PCM\<close>

text \<open>
  C32: The decimating filter of DSD, with its ring buffer of 16 bytes that are bit reversed in
  place, computes the same as the finite impulse response over the last 12 bytes of the stream,
  however the stream is cut into calls.
\<close>

theorem dsd2pcm_is_fir:
  "let zs = map (\<lambda>b. if lsbf then bit_reverse b else b) (xs @ ys);
       (out1, ctx) = dsd2pcm_translate fp ct lsbf xs dsd2pcm_reset;
       (out2, ctx) = dsd2pcm_translate fp ct lsbf ys ctx
   in out1 @ out2 = map (fir fp ct zs) [0..<length zs]"
proof -
  define r where "r = (\<lambda>b. if lsbf then bit_reverse b else b)"
  define zs where "zs = map r (xs @ ys)"
  obtain out1 ctx where t1: "dsd2pcm_translate fp ct lsbf xs dsd2pcm_reset = (out1, ctx)"
    by (cases "dsd2pcm_translate fp ct lsbf xs dsd2pcm_reset")
  obtain out2 ctx' where t2: "dsd2pcm_translate fp ct lsbf ys ctx = (out2, ctx')"
    by (cases "dsd2pcm_translate fp ct lsbf ys ctx")
  have len: "length zs = length xs + length ys" by (simp add: zs_def)
  have parts: "map r xs = take (length xs) (drop 0 zs)" "map r ys = take (length ys) (drop (length xs) zs)"
    by (simp_all add: zs_def)
  have fst_part: "out1 = map (fir fp ct zs) [0..<length xs]" "fifo_ok zs (length xs) ctx"
    using translate_fir[OF reset_ok _ parts(1)[unfolded r_def], of fp ct] len t1 by simp_all
  have "out2 = map (fir fp ct zs) [length xs..<length xs + length ys]"
    using translate_fir(1)[OF fst_part(2) _ parts(2)[unfolded r_def], of fp ct] len t2 by simp
  with fst_part(1) have "out1 @ out2 = map (fir fp ct zs) [0..<length zs]"
    using upt_add_eq_append[of 0 "length xs" "length ys"] len by simp
  then show ?thesis by (simp add: t1 t2 Let_def zs_def r_def)
qed

section \<open>Channels\<close>

text \<open>A frame of stereo data that holds the truncated average of a frame twice.\<close>

definition average_twice :: "int list \<Rightarrow> int list" where
  "average_twice frame = (let v = sum_list frame sdiv int (length frame) in [v, v])"

lemma mono_to_stereo_average: "MonoToStereo xs = concat (map average_twice (chunks 1 xs))"
proof (induction xs)
  case (Cons x xs)
  have "chunks 1 (x # xs) = [x] # chunks 1 xs" by (subst chunks.simps) simp
  with Cons show ?case by (simp add: average_twice_def sdiv_pos)
qed simp

lemma to_stereo_average:
  assumes n: "0 < n" "n \<le> 8" and fit: "\<And>x. x \<in> set xs \<Longrightarrow> fits (Suc b) x" and w: "b + 4 \<le> w" "b \<le> v"
  shows "convert_channels avg2 (average_n (signed_take_bit w) (signed_take_bit v)) 2 n xs =
    Some (concat (map average_twice (chunks n xs)))"
proof -
  have "set (concat (chunks n xs)) \<subseteq> set xs"
  proof (induction n xs rule: chunks.induct)
    case (1 n xs)
    then show ?case
      by (subst chunks.simps) (auto dest: in_set_takeD in_set_dropD)
  qed
  then have avg: "average_n (signed_take_bit w) (signed_take_bit v) c = sum_list c sdiv int (length c)"
    if "c \<in> set (chunks n xs)" for c
    using that fit n w by (intro average_n_exact) (auto simp: chunk_length)
  then have "frames_n_to_2 (average_n (signed_take_bit w) (signed_take_bit v)) n xs =
      concat (map average_twice (chunks n xs))"
    unfolding frames_n_to_2_def by (intro arg_cong[where f = concat] map_cong) (auto simp: average_twice_def)
  then show ?thesis by (simp add: convert_channels_def mono_to_stereo_average)
qed

lemma average_twice_between:
  assumes "frame \<noteq> []" "\<And>x. x \<in> set frame \<Longrightarrow> lo \<le> x \<and> x \<le> hi" "y \<in> set (average_twice frame)"
  shows "lo \<le> y \<and> y \<le> hi"
  using sdiv_between[of "int (length frame)" lo "sum_list frame" hi] sum_list_between[OF assms(2)] assms(1,3)
  by (auto simp: average_twice_def Let_def)

lemma average_twice_fits:
  assumes "\<And>x. x \<in> set xs \<Longrightarrow> fits (Suc b) x" "0 < n" "y \<in> set (concat (map average_twice (chunks n xs)))"
  shows "fits (Suc b) y"
proof -
  have sub: "set (concat (chunks n xs)) \<subseteq> set xs"
  proof (induction n xs rule: chunks.induct)
    case (1 n xs)
    then show ?case
      by (subst chunks.simps) (auto dest: in_set_takeD in_set_dropD)
  qed
  obtain c where c: "c \<in> set (chunks n xs)" "y \<in> set (average_twice c)" using assms(3) by auto
  have "c \<noteq> []" using chunk_length[OF c(1)] assms(2) by auto
  moreover have "- (2 ^ b) \<le> x \<and> x \<le> 2 ^ b - 1" if "x \<in> set c" for x
    using that c(1) sub assms(1)[of x] by (auto simp: fits_def)
  ultimately have "- (2 ^ b) \<le> y \<and> y \<le> 2 ^ b - 1" using c(2) by (rule average_twice_between)
  then show ?thesis by (simp add: fits_def)
qed

text \<open>
  From one to eight channels to two: both channels of a frame get the average of the source
  frame, rounded towards zero, in each of the three widths, and no sum wraps.
\<close>

theorem stereo_averages:
  assumes "0 < n" "n \<le> 8"
    and "fmt \<in> {SF_S16, SF_S24_P32, SF_S32}" "w = unat (sample_format_size fmt)"
    and "\<forall>x \<in> set (loads be w src). fits (sample_bits fmt) x"
    and "result = (if fmt = SF_S16 then pcm_convert_channels_16 be 2 n src
      else if fmt = SF_S24_P32 then pcm_convert_channels_24 be 2 n src
      else pcm_convert_channels_32 be 2 n src)"
  shows "\<exists>dest. result = Some dest \<and> loads be w dest = concat (map average_twice (chunks n (loads be w src)))"
proof -
  have reload: "loads be w (store be w (concat (map average_twice (chunks n (loads be w src))))) =
      concat (map average_twice (chunks n (loads be w src)))"
  proof (rule load_store)
    fix y
    assume y: "y \<in> set (concat (map average_twice (chunks n (loads be w src))))"
    have "fits (sample_bits fmt) y"
      using average_twice_fits[OF _ assms(1) y, of "sample_bits fmt - 1"] assms(3,5) by auto
    then show "fits (8 * w) y" by (rule fits_mono) (use assms(3,4) in auto)
  qed (use assms(3,4) in auto)
  have fit: "\<And>x. x \<in> set (loads be w src) \<Longrightarrow> fits (Suc (sample_bits fmt - 1)) x"
    using assms(3,5) by auto
  show ?thesis
    using assms(3,4,6) reload to_stereo_average[OF assms(1,2) fit, where w = 31 and v = 15]
      to_stereo_average[OF assms(1,2) fit, where w = 31 and v = 31] to_stereo_average[OF assms(1,2) fit, where w = 63 and v = 31]
    by (auto simp: pcm_convert_channels_16_def pcm_convert_channels_24_def pcm_convert_channels_32_def)
qed

theorem stereo_averages_witness:
  "\<exists>dest. pcm_convert_channels_16 False 2 3 (store False 2 [1, 2, 6, -1, -1, 0]) = Some dest \<and>
    loads False 2 dest = [3, 3, 0, 0]"
proof -
  have l: "loads False 2 (store False 2 [1, 2, 6, -1, -1, 0]) = [1, 2, 6, -1, -1, 0]"
    by (rule load_store) (auto simp: fits_def)
  moreover have "concat (map average_twice (chunks 3 [1, 2, 6, -1, -1, 0])) = [3, 3, 0, 0]" by code_simp
  ultimately show ?thesis
    using stereo_averages[of 3 SF_S16 2 False "store False 2 [1, 2, 6, -1, -1, 0]", OF _ _ _ _ _ refl]
    by (simp add: fits_def)
qed

section \<open>Resampling\<close>

text \<open>
  Within 32 bits the fallback resampler of mono and stereo data makes the number of frames
  that the rates ask for, rounded up, and every frame is the last source frame at or before its
  time, which exists.
\<close>

theorem resample_picks_frames:
  fixes src :: "'a list"
  assumes "ch \<in> {1, 2}" "length src = ch * frames" "0 < sr" "0 < dr" "2 * (frames * dr + sr) < 2 ^ 32"
  shows "chunks ch (resample_fallback old ch sr src dr) =
      map (\<lambda>k. chunks ch src ! (k * sr div dr)) [0..<(frames * dr + sr - 1) div sr] \<and>
    (\<forall>k < (frames * dr + sr - 1) div sr. k * sr div dr < frames)"
proof -
  have nth: "chunks ch src ! q = map (\<lambda>c. src ! (ch * q + c)) [0..<ch]" if "q < frames" for q
  proof -
    have "chunks ch src ! q = take ch (drop (ch * q) src)"
      using that assms(2)
    proof (induction q arbitrary: src frames)
      case 0
      then show ?case using assms(1) by (subst chunks.simps) auto
    next
      case (Suc q)
      have len: "length (drop ch src) = ch * (frames - 1)"
        using Suc.prems(2) by (simp add: algebra_simps)
      have "chunks ch src = take ch src # chunks ch (drop ch src)"
        using Suc.prems assms(1) by (subst chunks.simps) auto
      then show ?case
        using Suc.IH[OF _ len] Suc.prems(1) by (simp add: algebra_simps)
    qed
    moreover have "ch * q + ch \<le> length src"
      using that assms(2) by (metis Suc_leI mult_Suc_right mult_le_mono2 add.commute)
    ultimately show ?thesis by (intro nth_equalityI) simp_all
  qed
  have ex: "k * sr div dr < frames" if "k < (frames * dr + sr - 1) div sr" for k
    using resample_frame_exists[OF assms(3,4) that] .
  then have "map (\<lambda>k. map (\<lambda>c. src ! (ch * (k * sr div dr) + c)) [0..<ch]) [0..<(frames * dr + sr - 1) div sr] =
      map (\<lambda>k. chunks ch src ! (k * sr div dr)) [0..<(frames * dr + sr - 1) div sr]"
    by (intro map_cong) (auto simp: nth)
  with resample_fallback_frames[OF assms, of old] ex show ?thesis by simp
qed

theorem resample_picks_frames_witness:
  "chunks 2 (resample_fallback [] 2 44100 [1, 2, 3, 4, 5, 6 :: int] 22050) = [[1, 2], [5, 6]]"
proof -
  have "(3 * 22050 + 44100 - 1) div 44100 = (2 :: nat)" by simp
  moreover have "chunks 2 [1, 2, 3, 4, 5, 6 :: int] = [[1, 2], [3, 4], [5, 6]]" "[0..<2] = [0, 1 :: nat]"
    by code_simp+
  ultimately show ?thesis
    using resample_picks_frames[of 2 "[1, 2, 3, 4, 5, 6 :: int]" 3 44100 22050 "[]"] by simp
qed

text \<open>
  Without libsamplerate, the resampler hands out what its buffer held before whenever there
  are more than two channels: the source does not matter.
\<close>

theorem resample_ignores_surround:
  assumes "2 < ch" "length src1 = length src2"
  shows "resample_fallback old ch sr src1 dr = resample_fallback old ch sr src2 dr"
  using assms by (simp add: resample_fallback_def Let_def)

theorem resample_ignores_surround_witness:
  "resample_fallback [9, 9, 9] 3 44100 [1, 2, 3 :: int] 44100 = resample_fallback [9, 9, 9] 3 44100 [4, 5, 6] 44100"
  by (rule resample_ignores_surround) simp_all

section \<open>Conversion\<close>

text \<open>
  C25: A conversion between valid formats gives an error exactly when it does not exist, which is
  decided by the formats alone and reported with the first thing that is missing; otherwise the
  result consists of whole frames of the destination, as many as the rates ask for.  Data are
  within the 32 bits of the resampler, which is the fallback.
\<close>

theorem conversion_total:
  assumes "length src = unat (sample_format_size (af_format s)) * (unat (af_channels s) * frames)"
    and "IsValid s" "IsValid d" "length (pv_dsd st) = 32" "\<forall>c. env_alloc env c" "env_lsr env = None"
    and "8 * (frames * unat (af_sample_rate d) + unat (af_sample_rate s)) < 2 ^ 32"
    and "4 * (unat (af_channels d) * resampled_frames s d frames) \<le> length (env_old env)"
  shows "case missing_conversion s d of
      Some err \<Rightarrow> fst (PcmConvert_Convert env s src d st) = Inl err
    | None \<Rightarrow> \<exists>out. fst (PcmConvert_Convert env s src d st) = Inr out \<and>
        length out = resampled_frames s d frames * unat (GetFrameSize d)"
proof -
  have ch: "0 < unat (af_channels a)" "unat (af_channels a) \<le> 8" "0 < unat (af_sample_rate a)"
    if "IsValid a" for a
  proof -
    show "0 < unat (af_channels a)" "unat (af_channels a) \<le> 8"
      using export_unit(2,3)[OF that, of "replicate (unat (GetFrameSize a)) 0" 1] by simp_all
    show "0 < unat (af_sample_rate a)"
      using that by (simp add: IsValid_def audio_valid_sample_rate_def word_greater_zero_iff unat_gt_0)
  qed
  have env: "without_lsr env = env" using assms(6) by (simp add: without_lsr_def)
  have size: "unat (GetFrameSize d) = unat (sample_format_size (af_format d)) * unat (af_channels d)"
    using export_unit(1)[OF assms(3), of "replicate (unat (GetFrameSize d)) 0" 1] by simp
  have "pcm_result s d frames (fst (PcmConvert_Convert (without_lsr env) s src d st))"
    using assms ch[OF assms(2)] ch[OF assms(3)] by (intro Convert_result) (simp_all add: in_range_def)
  then show ?thesis
    unfolding pcm_result_def env size by (simp add: mult_ac split: option.splits)
qed

definition demo_env :: pcm_env where
  "demo_env = \<lparr>env_fpu = no_fpu False, env_be = False, env_ctables = (\<lambda>_ _. 0), env_alloc = (\<lambda>_. True),
     env_lsr = None, env_old = replicate 64 0\<rparr>"

theorem conversion_total_witness:
  "let cd = \<lparr>af_sample_rate = 44100, af_format = SF_S16, af_channels = 2\<rparr>;
       hi = \<lparr>af_sample_rate = 88200, af_format = SF_S24_P32, af_channels = 2\<rparr>;
       six = \<lparr>af_sample_rate = 88200, af_format = SF_S24_P32, af_channels = 6\<rparr>
   in (\<exists>out. fst (PcmConvert_Convert demo_env cd [1, 2, 3, 4, 5, 6, 7, 8] hi new_PcmConvert) = Inr out \<and>
        length out = 32) \<and>
      fst (PcmConvert_Convert demo_env cd [1, 2, 3, 4] six new_PcmConvert) = Inl (NoChannelConversion 2 6)"
proof -
  let ?cd = "\<lparr>af_sample_rate = 44100, af_format = SF_S16, af_channels = 2\<rparr>"
  let ?hi = "\<lparr>af_sample_rate = 88200, af_format = SF_S24_P32, af_channels = 2\<rparr>"
  let ?six = "\<lparr>af_sample_rate = 88200, af_format = SF_S24_P32, af_channels = 6\<rparr>"
  have "IsValid ?cd" "IsValid ?hi" "IsValid ?six" by code_simp+
  moreover have "length (pv_dsd new_PcmConvert) = 32" by (simp add: new_PcmConvert_def new_PcmDsd_def)
  moreover have "missing_conversion ?cd ?hi = None"
    "missing_conversion ?cd ?six = Some (NoChannelConversion 2 6)"
    by (simp_all add: missing_conversion_def is_pcm_def pcm_of_def channels_supported_def)
  moreover have "unat (GetFrameSize ?hi) = 8" by code_simp
  ultimately show ?thesis
    using conversion_total[of "[1, 2, 3, 4, 5, 6, 7, 8]" ?cd 2 ?hi new_PcmConvert demo_env]
      conversion_total[of "[1, 2, 3, 4]" ?cd 1 ?six new_PcmConvert demo_env]
    by (simp add: demo_env_def resampled_frames_def)
qed

end
