(* ===== verification/Client_Text.thy ===== *)
theory Client_Text
  imports Player_Control
begin

text \<open>
  The text of a command line (src/src/util/CharUtil.hxx, StringUtil.cxx, Tokenizer.cxx).  The
  tokenizer cuts a line in place: it overwrites the buffer it reads, with the ends of words and
  with the characters of quoted strings moved over their escapes, and hands out pointers into it.
  A buffer is a list of characters, a pointer an index, and reading or writing behind the buffer is
  None.  \<open>next_word\<close>, \<open>next_unquoted\<close>, \<open>next_string\<close> say on strings what the methods do in place;
  the lemmas show that they do, for any contents of the buffer around the line.
\<close>

section \<open>Characters\<close>

abbreviation code :: "char \<Rightarrow> nat" where
  "code c \<equiv> of_char c"

abbreviation NUL :: char where
  "NUL \<equiv> CHR 0x00"

definition IsWhitespaceOrNull :: "char \<Rightarrow> bool" where
  "IsWhitespaceOrNull ch \<longleftrightarrow> code ch \<le> 0x20"

definition IsWhitespaceNotNull :: "char \<Rightarrow> bool" where
  "IsWhitespaceNotNull ch \<longleftrightarrow> code ch > 0 \<and> code ch \<le> 0x20"

definition IsDigitASCII :: "char \<Rightarrow> bool" where
  "IsDigitASCII ch \<longleftrightarrow> code ch \<ge> code (CHR ''0'') \<and> code ch \<le> code (CHR ''9'')"

definition IsUpperAlphaASCII :: "char \<Rightarrow> bool" where
  "IsUpperAlphaASCII ch \<longleftrightarrow> code ch \<ge> code (CHR ''A'') \<and> code ch \<le> code (CHR ''Z'')"

definition IsLowerAlphaASCII :: "char \<Rightarrow> bool" where
  "IsLowerAlphaASCII ch \<longleftrightarrow> code ch \<ge> code (CHR ''a'') \<and> code ch \<le> code (CHR ''z'')"

definition IsAlphaASCII :: "char \<Rightarrow> bool" where
  "IsAlphaASCII ch \<longleftrightarrow> IsUpperAlphaASCII ch \<or> IsLowerAlphaASCII ch"

definition IsAlphaNumericASCII :: "char \<Rightarrow> bool" where
  "IsAlphaNumericASCII ch \<longleftrightarrow> IsAlphaASCII ch \<or> IsDigitASCII ch"

definition ToUpperASCII :: "char \<Rightarrow> char" where
  "ToUpperASCII ch =
     (if code ch \<ge> code (CHR ''a'') \<and> code ch \<le> code (CHR ''z'')
      then char_of (code ch - (code (CHR ''a'') - code (CHR ''A''))) else ch)"

definition valid_word_first_char :: "char \<Rightarrow> bool" where
  "valid_word_first_char ch = IsAlphaASCII ch"

definition valid_word_char :: "char \<Rightarrow> bool" where
  "valid_word_char ch \<longleftrightarrow> IsAlphaNumericASCII ch \<or> ch = CHR ''_''"

definition valid_unquoted_char :: "char \<Rightarrow> bool" where
  "valid_unquoted_char ch \<longleftrightarrow> code ch > 0x20 \<and> ch \<noteq> CHR 0x22 \<and> ch \<noteq> CHR 0x27"

lemma code_0 [simp]: "code c = 0 \<longleftrightarrow> c = NUL"
  using of_char_eq_iff[of c NUL, where 'a = nat] by simp

lemma NUL_char [simp]: "IsWhitespaceOrNull NUL" "\<not> IsWhitespaceNotNull NUL"
  "\<not> valid_word_first_char NUL" "\<not> valid_word_char NUL" "\<not> valid_unquoted_char NUL"
  by (simp_all add: IsWhitespaceOrNull_def IsWhitespaceNotNull_def valid_word_first_char_def valid_word_char_def
    valid_unquoted_char_def IsAlphaASCII_def IsUpperAlphaASCII_def IsLowerAlphaASCII_def IsAlphaNumericASCII_def
    IsDigitASCII_def)

lemma IsWhitespace_iff: "c \<noteq> NUL \<Longrightarrow> IsWhitespaceOrNull c \<longleftrightarrow> IsWhitespaceNotNull c"
  using code_0[of c] by (simp add: IsWhitespaceOrNull_def IsWhitespaceNotNull_def del: code_0)

lemma valid_no_space: "valid_unquoted_char c \<Longrightarrow> \<not> IsWhitespaceOrNull c" "valid_word_char c \<Longrightarrow> \<not> IsWhitespaceOrNull c"
  by (auto simp: valid_unquoted_char_def valid_word_char_def IsWhitespaceOrNull_def IsAlphaNumericASCII_def
    IsAlphaASCII_def IsUpperAlphaASCII_def IsLowerAlphaASCII_def IsDigitASCII_def)

section \<open>Strings in a buffer\<close>

definition peek :: "string \<Rightarrow> nat \<Rightarrow> char option" where
  "peek buf p = (if p < length buf then Some (buf ! p) else None)"

definition poke :: "string \<Rightarrow> nat \<Rightarrow> char \<Rightarrow> string option" where
  "poke buf p c = (if p < length buf then Some (buf[p := c]) else None)"

text \<open>The C string at a pointer.\<close>

definition cstr :: "string \<Rightarrow> nat \<Rightarrow> string" where
  "cstr buf p = takeWhile (\<lambda>c. c \<noteq> NUL) (drop p buf)"

function strchug_fast :: "string \<Rightarrow> nat \<Rightarrow> nat option" where
  "strchug_fast buf p =
     do { c \<leftarrow> peek buf p; if IsWhitespaceNotNull c then strchug_fast buf (Suc p) else Some p }"
  by auto
termination
  by (relation "measure (\<lambda>(buf, p). length buf - p)") (auto simp: peek_def split: if_splits)

declare strchug_fast.simps [simp del]

lemma peek_at [simp]: "p = length pre \<Longrightarrow> peek (pre @ c # s) p = Some c"
  by (simp add: peek_def)

lemma poke_at [simp]: "p = length pre \<Longrightarrow> poke (pre @ c # s) p d = Some (pre @ d # s)"
  by (simp add: poke_def)

lemma cstr_at [simp]: "NUL \<notin> set s \<Longrightarrow> cstr (pre @ s @ NUL # post) (length pre) = s"
  by (induction s) (auto simp: cstr_def)

lemma strchug_at:
  "NUL \<notin> set s \<Longrightarrow> strchug_fast (pre @ s @ NUL # post) (length pre) =
     Some (length pre + length (takeWhile IsWhitespaceNotNull s))"
proof (induction s arbitrary: pre)
  case (Cons c s)
  from Cons.IH[of "pre @ [c]"] Cons.prems show ?case by (simp add: strchug_fast.simps[of _ "length pre"])
qed (simp add: strchug_fast.simps)

section \<open>The tokenizer\<close>

record tokenizer =
  tk_buf :: string
  tk_input :: nat

text \<open>How the error messages write a quotation mark.\<close>

definition quote_mark :: string where
  "quote_mark = [CHR 0x27, CHR 0x22, CHR 0x27]"

definition missing_quote :: string where
  "missing_quote = ''Missing closing '' @ quote_mark"

definition space_expected :: string where
  "space_expected = ''Space expected after closing '' @ quote_mark"

text \<open>A word, \<open>nullptr\<close> without an error, or \<open>nullptr\<close> with an error.\<close>

datatype token = TkWord nat | TkNull | TkError string

definition IsEnd :: "tokenizer \<Rightarrow> bool option" where
  "IsEnd t = map_option (\<lambda>c. c = NUL) (peek (tk_buf t) (tk_input t))"

text \<open>The loop of \<open>NextWord\<close> and \<open>NextUnquoted\<close>; it begins by moving to the next character.\<close>

function word_loop :: "(char \<Rightarrow> bool) \<Rightarrow> string \<Rightarrow> nat \<Rightarrow> tokenizer \<Rightarrow> (token \<times> tokenizer) option" where
  "word_loop valid msg word t =
     (let t = t\<lparr>tk_input := Suc (tk_input t)\<rparr>
      in do {
        c \<leftarrow> peek (tk_buf t) (tk_input t);
        if c = NUL then Some (TkWord word, t)
        else if IsWhitespaceOrNull c then do {
          buf \<leftarrow> poke (tk_buf t) (tk_input t) NUL;
          p \<leftarrow> strchug_fast buf (tk_input t + 1);
          Some (TkWord word, \<lparr>tk_buf = buf, tk_input = p\<rparr>) }
        else if \<not> valid c then Some (TkError msg, t)
        else word_loop valid msg word t })"
  by pat_completeness auto
termination
  by (relation "measure (\<lambda>(valid, msg, word, t). length (tk_buf t) - tk_input t)")
    (auto simp: peek_def split: if_splits)

declare word_loop.simps [simp del]

definition NextWord :: "tokenizer \<Rightarrow> (token \<times> tokenizer) option" where
  "NextWord t =
     do { c \<leftarrow> peek (tk_buf t) (tk_input t);
          if c = NUL then Some (TkNull, t)
          else if \<not> valid_word_first_char c then Some (TkError ''Letter expected'', t)
          else word_loop valid_word_char ''Invalid word character'' (tk_input t) t }"

definition NextUnquoted :: "tokenizer \<Rightarrow> (token \<times> tokenizer) option" where
  "NextUnquoted t =
     do { c \<leftarrow> peek (tk_buf t) (tk_input t);
          if c = NUL then Some (TkNull, t)
          else if \<not> valid_unquoted_char c then Some (TkError ''Invalid unquoted character'', t)
          else word_loop valid_unquoted_char ''Invalid unquoted character'' (tk_input t) t }"

text \<open>The loop of \<open>NextString\<close> with what follows it; \<open>dest\<close> is where the next character goes.\<close>

function string_loop :: "nat \<Rightarrow> nat \<Rightarrow> tokenizer \<Rightarrow> (token \<times> tokenizer) option" where
  "string_loop word dest t =
     do {
       c \<leftarrow> peek (tk_buf t) (tk_input t);
       if c = CHR 0x22 then do {
         d \<leftarrow> peek (tk_buf t) (tk_input t + 1);
         if \<not> IsWhitespaceOrNull d
         then Some (TkError space_expected, t\<lparr>tk_input := tk_input t + 1\<rparr>)
         else do {
           buf \<leftarrow> poke (tk_buf t) dest NUL;
           p \<leftarrow> strchug_fast buf (tk_input t + 1);
           Some (TkWord word, \<lparr>tk_buf = buf, tk_input = p\<rparr>) } }
       else do {
         let i = (if c = CHR 0x5C then tk_input t + 1 else tk_input t);
         d \<leftarrow> peek (tk_buf t) i;
         if d = NUL
         then Some (TkError missing_quote, t\<lparr>tk_input := i - 1\<rparr>)
         else do {
           buf \<leftarrow> poke (tk_buf t) dest d;
           string_loop word (dest + 1) \<lparr>tk_buf = buf, tk_input = i + 1\<rparr> } } }"
  by pat_completeness auto
termination
  by (relation "measure (\<lambda>(word, dest, t). length (tk_buf t) - tk_input t)")
    (auto simp: peek_def poke_def split: if_splits)

declare string_loop.simps [simp del]

definition NextString :: "tokenizer \<Rightarrow> (token \<times> tokenizer) option" where
  "NextString t =
     do { c \<leftarrow> peek (tk_buf t) (tk_input t);
          if c = NUL then Some (TkNull, t)
          else if c \<noteq> CHR 0x22 then Some (TkError (quote_mark @ '' expected''), t)
          else string_loop (tk_input t) (tk_input t) (t\<lparr>tk_input := tk_input t + 1\<rparr>) }"

definition NextParam :: "tokenizer \<Rightarrow> (token \<times> tokenizer) option" where
  "NextParam t =
     do { c \<leftarrow> peek (tk_buf t) (tk_input t);
          if c = CHR 0x22 then NextString t else NextUnquoted t }"

section \<open>What it does to strings\<close>

text \<open>
  The specifications: an error message, or the word and the rest of the line; None at the
  end of the line.
\<close>

abbreviation trim :: "string \<Rightarrow> string" where
  "trim \<equiv> dropWhile IsWhitespaceNotNull"

fun next_word_tail :: "(char \<Rightarrow> bool) \<Rightarrow> string \<Rightarrow> string \<Rightarrow> string + string \<times> string" where
  "next_word_tail valid msg [] = Inr ([], [])"
| "next_word_tail valid msg (c # s) =
     (if IsWhitespaceOrNull c then Inr ([], trim s)
      else if \<not> valid c then Inl msg
      else map_sum id (apfst ((#) c)) (next_word_tail valid msg s))"

fun next_string_tail :: "string \<Rightarrow> string + string \<times> string" where
  "next_string_tail [] = Inl missing_quote"
| "next_string_tail (c # s) =
     (if c = CHR 0x22 then
        (case s of
           [] \<Rightarrow> Inr ([], [])
         | d # _ \<Rightarrow> if \<not> IsWhitespaceOrNull d then Inl space_expected else Inr ([], trim s))
      else if c = CHR 0x5C then
        (case s of
           [] \<Rightarrow> Inl missing_quote
         | d # s \<Rightarrow> map_sum id (apfst ((#) d)) (next_string_tail s))
      else map_sum id (apfst ((#) c)) (next_string_tail s))"

definition next_word :: "string \<Rightarrow> (string + string \<times> string) option" where
  "next_word s =
     (case s of [] \<Rightarrow> None
      | c # s \<Rightarrow> Some (if \<not> valid_word_first_char c then Inl ''Letter expected''
                      else map_sum id (apfst ((#) c)) (next_word_tail valid_word_char ''Invalid word character'' s)))"

definition next_param :: "string \<Rightarrow> (string + string \<times> string) option" where
  "next_param s =
     (case s of [] \<Rightarrow> None
      | c # s \<Rightarrow> Some (if c = CHR 0x22 then next_string_tail s
                      else if \<not> valid_unquoted_char c then Inl ''Invalid unquoted character''
                      else map_sum id (apfst ((#) c)) (next_word_tail valid_unquoted_char ''Invalid unquoted character'' s)))"

text \<open>
  A result in place fits one on strings: the word stands at the pointer, closed by a NUL that
  is in front of the rest of the line or is its end; or the line has not been read to its end.
  What stands in front of the word, and behind the line, is as before.
\<close>

definition fits_cut :: "string \<Rightarrow> string \<Rightarrow> string + string \<times> string \<Rightarrow> token \<times> tokenizer \<Rightarrow> bool" where
  "fits_cut pre post spec res \<longleftrightarrow>
     (case spec of
        Inl msg \<Rightarrow> fst res = TkError msg \<and> (\<exists>mid c r. c \<noteq> NUL \<and> NUL \<notin> set r \<and>
          snd res = \<lparr>tk_buf = pre @ mid @ c # r @ NUL # post, tk_input = length (pre @ mid)\<rparr>)
      | Inr (w, r) \<Rightarrow> fst res = TkWord (length pre) \<and> NUL \<notin> set w \<and> NUL \<notin> set r \<and> (\<exists>mid.
          snd res = \<lparr>tk_buf = pre @ w @ mid @ r @ NUL # post, tk_input = length (pre @ w @ mid)\<rparr> \<and>
          (case mid of [] \<Rightarrow> r = [] | c # _ \<Rightarrow> c = NUL)))"

lemma error_cut:
  "c \<noteq> NUL \<Longrightarrow> NUL \<notin> set r \<Longrightarrow> t = \<lparr>tk_buf = pre @ mid @ c # r @ NUL # post, tk_input = length (pre @ mid)\<rparr> \<Longrightarrow>
   fits_cut pre post (Inl msg) (TkError msg, t)"
  unfolding fits_cut_def by (simp, intro exI conjI) (assumption | rule refl)+

lemma word_cut:
  "NUL \<notin> set w \<Longrightarrow> NUL \<notin> set r \<Longrightarrow> t = \<lparr>tk_buf = pre @ w @ NUL # gap @ r @ NUL # post, tk_input = length (pre @ w @ NUL # gap)\<rparr> \<Longrightarrow>
   fits_cut pre post (Inr (w, r)) (TkWord (length pre), t)"
  unfolding fits_cut_def by (auto intro!: exI[of _ "NUL # gap"])

lemma map_sum_apfst [simp]: "map_sum id (apfst ((@) [])) x = (x :: string + string \<times> string)"
  "map_sum id (apfst ((@) [c])) x = map_sum id (apfst ((#) c)) (x :: string + string \<times> string)"
  by (cases x; auto simp: apfst_def)+

lemma word_loop_cut:
  assumes "NUL \<notin> set s" "NUL \<notin> set w" "w \<noteq> []" "t = \<lparr>tk_buf = pre @ w @ s @ NUL # post, tk_input = length (pre @ w) - 1\<rparr>"
  shows "\<exists>res. word_loop valid msg (length pre) t = Some res \<and>
    fits_cut pre post (map_sum id (apfst ((@) w)) (next_word_tail valid msg s)) res"
  using assms
proof (induction s arbitrary: w t)
  case Nil
  then have "word_loop valid msg (length pre) t = Some (TkWord (length pre), \<lparr>tk_buf = pre @ w @ NUL # post, tk_input = length (pre @ w)\<rparr>)"
    by (cases w) (simp_all add: word_loop.simps Let_def peek_def nth_append)
  then show ?case using Nil by (simp add: fits_cut_def)
next
  case (Cons c s)
  let ?i = "length (pre @ w)"
  have i: "Suc (tk_input t) = ?i" using Cons.prems(3,4) by (cases w) simp_all
  have p: "peek (tk_buf t) ?i = Some c"
    using Cons.prems(4) peek_at[of ?i "pre @ w" c "s @ NUL # post"] by simp
  have c: "c \<noteq> NUL" using Cons.prems(1) by auto
  show ?case
  proof (cases "IsWhitespaceOrNull c")
    case True
    have po: "poke (tk_buf t) ?i NUL = Some (pre @ w @ NUL # s @ NUL # post)"
      using Cons.prems(4) poke_at[of ?i "pre @ w" c "s @ NUL # post" NUL] by simp
    have st: "strchug_fast (pre @ w @ NUL # s @ NUL # post) (?i + 1) = Some (?i + 1 + length (takeWhile IsWhitespaceNotNull s))"
      using strchug_at[of s "pre @ w @ [NUL]" post] Cons.prems(1) by simp
    have "word_loop valid msg (length pre) t = Some (TkWord (length pre),
       \<lparr>tk_buf = pre @ w @ NUL # s @ NUL # post, tk_input = ?i + 1 + length (takeWhile IsWhitespaceNotNull s)\<rparr>)"
      using True c i p po st by (simp add: word_loop.simps[of valid msg "length pre" t] Let_def)
    moreover have "NUL \<notin> set (trim s)" using Cons.prems(1) by (auto dest: set_dropWhileD)
    ultimately show ?thesis
      using True Cons.prems by (simp add: fits_cut_def) (intro exI[of _ "NUL # takeWhile IsWhitespaceNotNull s"], simp)
  next
    case False
    have st: "word_loop valid msg (length pre) t =
      (if valid c then word_loop valid msg (length pre) (t\<lparr>tk_input := ?i\<rparr>) else Some (TkError msg, t\<lparr>tk_input := ?i\<rparr>))"
      using False c i p by (simp add: word_loop.simps[of valid msg "length pre" t] Let_def)
    show ?thesis
    proof (cases "valid c")
      case True
      have "\<exists>res. word_loop valid msg (length pre) (t\<lparr>tk_input := ?i\<rparr>) = Some res \<and>
        fits_cut pre post (map_sum id (apfst ((@) (w @ [c]))) (next_word_tail valid msg s)) res"
        by (rule Cons.IH) (use Cons.prems in auto)
      moreover have "map_sum id (apfst ((@) (w @ [c]))) (next_word_tail valid msg s) =
        map_sum id (apfst ((@) w)) (next_word_tail valid msg (c # s))"
        using True False by (cases "next_word_tail valid msg s") (auto simp: apfst_def)
      ultimately show ?thesis unfolding st by (simp only: if_P[OF True])
    next
      case nv: False
      then show ?thesis
        using st False Cons.prems c by (simp add: fits_cut_def) (intro exI[of _ w] exI[of _ c] exI[of _ s], simp)
    qed
  qed
qed

lemma string_loop_cut:
  assumes "NUL \<notin> set s" "NUL \<notin> set w" "NUL \<notin> set (j # junk)"
    "t = \<lparr>tk_buf = pre @ w @ (j # junk) @ s @ NUL # post, tk_input = length (pre @ w @ (j # junk))\<rparr>"
  shows "\<exists>res. string_loop (length pre) (length (pre @ w)) t = Some res \<and>
    fits_cut pre post (map_sum id (apfst ((@) w)) (next_string_tail s)) res"
  using assms
proof (induction s arbitrary: w j junk t rule: next_string_tail.induct)
  case 1
  let ?x = "pre @ w @ j # junk"
  have p: "peek (tk_buf t) (tk_input t) = Some NUL"
    using 1 peek_at[of "tk_input t" ?x NUL post] by simp
  obtain y c where y: "j # junk = y @ [c]" by (cases "j # junk" rule: rev_cases) auto
  have c: "c \<noteq> NUL" using 1(3) unfolding y by auto
  have "string_loop (length pre) (length (pre @ w)) t =
    Some (TkError missing_quote, t\<lparr>tk_input := tk_input t - 1\<rparr>)"
    using p by (simp add: string_loop.simps[of _ _ t])
  moreover have "t\<lparr>tk_input := tk_input t - 1\<rparr> = \<lparr>tk_buf = pre @ (w @ y) @ c # [] @ NUL # post, tk_input = length (pre @ (w @ y))\<rparr>"
  proof -
    have "length (j # junk) = Suc (length y)" unfolding y by simp
    moreover have "pre @ w @ (j # junk) @ NUL # post = pre @ (w @ y) @ c # [] @ NUL # post" unfolding y by simp
    ultimately show ?thesis using 1(4) by simp
  qed
  ultimately show ?case using error_cut[OF c, of "[]" _ pre "w @ y"] by simp
next
  case (2 c s)
  let ?x = "pre @ w @ j # junk"
  have p: "peek (tk_buf t) (tk_input t) = Some c"
    using 2(6) peek_at[of "tk_input t" ?x c "s @ NUL # post"] by simp
  have c: "c \<noteq> NUL" "NUL \<notin> set s" using 2(3) by auto
  consider (quote) "c = CHR 0x22" | (esc) "c = CHR 0x5C" "c \<noteq> CHR 0x22" | (plain) "c \<noteq> CHR 0x5C" "c \<noteq> CHR 0x22" by blast
  then show ?case
  proof cases
    case quote
    have d: "peek (tk_buf t) (tk_input t + 1) = Some (case s of [] \<Rightarrow> NUL | d # _ \<Rightarrow> d)"
      using 2(6) peek_at[of "tk_input t + 1" "?x @ [c]" "case s of [] \<Rightarrow> NUL | d # _ \<Rightarrow> d" "case s of [] \<Rightarrow> post | _ # s \<Rightarrow> s @ NUL # post"]
      by (cases s) simp_all
    show ?thesis
    proof (cases "\<exists>d s'. s = d # s' \<and> \<not> IsWhitespaceOrNull d")
      case True
      then obtain d s' where s: "s = d # s'" "\<not> IsWhitespaceOrNull d" by blast
      have "string_loop (length pre) (length (pre @ w)) t =
        Some (TkError space_expected, t\<lparr>tk_input := tk_input t + 1\<rparr>)"
        using p d s quote by (simp add: string_loop.simps[of _ _ t])
      moreover have "t\<lparr>tk_input := tk_input t + 1\<rparr> = \<lparr>tk_buf = pre @ (w @ j # junk @ [c]) @ d # s' @ NUL # post,
          tk_input = length (pre @ (w @ j # junk @ [c]))\<rparr>"
        using 2(6) s by simp
      moreover have "d \<noteq> NUL" "NUL \<notin> set s'" using c s by auto
      ultimately show ?thesis using error_cut[of d s' _ pre "w @ j # junk @ [c]"] s quote by simp
    next
      case False
      have ws: "IsWhitespaceOrNull (case s of [] \<Rightarrow> NUL | d # _ \<Rightarrow> d)" using False by (cases s) auto
      let ?b = "pre @ w @ NUL # junk @ (c # s) @ NUL # post"
      have po: "poke (tk_buf t) (length (pre @ w)) NUL = Some ?b"
        using 2(6) poke_at[of "length (pre @ w)" "pre @ w" j "junk @ (c # s) @ NUL # post" NUL] by simp
      have st: "strchug_fast ?b (tk_input t + 1) = Some (tk_input t + 1 + length (takeWhile IsWhitespaceNotNull s))"
        using strchug_at[of s "pre @ w @ NUL # junk @ [c]" post] c(2) 2(6) by simp
      have r: "string_loop (length pre) (length (pre @ w)) t =
        Some (TkWord (length pre), \<lparr>tk_buf = ?b, tk_input = tk_input t + 1 + length (takeWhile IsWhitespaceNotNull s)\<rparr>)"
        using p d ws quote po st by (simp add: string_loop.simps[of _ _ t])
      let ?gap = "junk @ [c] @ takeWhile IsWhitespaceNotNull s"
      have spec: "next_string_tail (c # s) = Inr ([], trim s)" using quote ws by (cases s) (auto simp: IsWhitespaceNotNull_def)
      have "NUL \<notin> set (trim s)" using c(2) by (auto dest: set_dropWhileD)
      then have "fits_cut pre post (Inr (w, trim s)) (TkWord (length pre),
          \<lparr>tk_buf = ?b, tk_input = tk_input t + 1 + length (takeWhile IsWhitespaceNotNull s)\<rparr>)"
        by (rule word_cut[OF 2(4), where gap = ?gap]) (use 2(6) in simp)
      then show ?thesis using r spec by (simp del: next_string_tail.simps)
    qed
  next
    case esc
    show ?thesis
    proof (cases s)
      case Nil
      have "peek (tk_buf t) (tk_input t + 1) = Some NUL"
        using 2(6) Nil peek_at[of "tk_input t + 1" "?x @ [c]" NUL post] by simp
      then have "string_loop (length pre) (length (pre @ w)) t = Some (TkError missing_quote, t)"
        using p esc by (simp add: string_loop.simps[of _ _ t])
      moreover have "t = \<lparr>tk_buf = pre @ (w @ j # junk) @ c # [] @ NUL # post, tk_input = length (pre @ (w @ j # junk))\<rparr>"
        using 2(6) Nil by simp
      ultimately show ?thesis using error_cut[OF c(1), of "[]" _ pre "w @ j # junk"] esc Nil by simp
    next
      case (Cons d s')
      have d: "peek (tk_buf t) (tk_input t + 1) = Some d" "d \<noteq> NUL"
        using 2(6) Cons peek_at[of "tk_input t + 1" "?x @ [c]" d "s' @ NUL # post"] c by auto
      let ?b = "pre @ w @ d # junk @ (c # d # s') @ NUL # post"
      have po: "poke (tk_buf t) (length (pre @ w)) d = Some ?b"
        using 2(6) Cons poke_at[of "length (pre @ w)" "pre @ w" j "junk @ (c # s) @ NUL # post" d] by simp
      obtain j2 junk2 where j2: "junk @ [c, d] = j2 # junk2" by (cases junk) auto
      let ?t = "\<lparr>tk_buf = ?b, tk_input = tk_input t + 1 + 1\<rparr>"
      have tw: "?t = \<lparr>tk_buf = pre @ (w @ [d]) @ (j2 # junk2) @ s' @ NUL # post, tk_input = length (pre @ (w @ [d]) @ (j2 # junk2))\<rparr>"
        using 2(6) by (simp flip: j2)
      have nul: "NUL \<notin> set (j2 # junk2)" using 2(5) c d by (auto simp flip: j2)
      have "\<exists>res. string_loop (length pre) (length (pre @ (w @ [d]))) ?t = Some res \<and>
        fits_cut pre post (map_sum id (apfst ((@) (w @ [d]))) (next_string_tail s')) res"
        by (rule 2(1)[OF _ _ Cons _ _ nul tw]) (use esc c d 2(4) Cons in auto)
      moreover have "string_loop (length pre) (length (pre @ w)) t = string_loop (length pre) (length (pre @ (w @ [d]))) ?t"
        using p esc d po by (simp add: string_loop.simps[of _ _ t])
      moreover have "map_sum id (apfst ((@) (w @ [d]))) (next_string_tail s') = map_sum id (apfst ((@) w)) (next_string_tail (c # s))"
        using esc Cons by (cases "next_string_tail s'") (auto simp: apfst_def)
      ultimately show ?thesis by (simp only:)
    qed
  next
    case plain
    let ?b = "pre @ w @ c # junk @ (c # s) @ NUL # post"
    have po: "poke (tk_buf t) (length (pre @ w)) c = Some ?b"
      using 2(6) poke_at[of "length (pre @ w)" "pre @ w" j "junk @ (c # s) @ NUL # post" c] by simp
    obtain j2 junk2 where j2: "junk @ [c] = j2 # junk2" by (cases junk) auto
    let ?t = "\<lparr>tk_buf = ?b, tk_input = tk_input t + 1\<rparr>"
    have tw: "?t = \<lparr>tk_buf = pre @ (w @ [c]) @ (j2 # junk2) @ s @ NUL # post, tk_input = length (pre @ (w @ [c]) @ (j2 # junk2))\<rparr>"
      using 2(6) by (simp flip: j2)
    have nul: "NUL \<notin> set (j2 # junk2)" using 2(5) c by (auto simp flip: j2)
    have "\<exists>res. string_loop (length pre) (length (pre @ (w @ [c]))) ?t = Some res \<and>
      fits_cut pre post (map_sum id (apfst ((@) (w @ [c]))) (next_string_tail s)) res"
      by (rule 2(2)[OF _ _ _ _ nul tw]) (use plain c 2(4) in auto)
    moreover have "string_loop (length pre) (length (pre @ w)) t = string_loop (length pre) (length (pre @ (w @ [c]))) ?t"
      using p plain c po by (simp add: string_loop.simps[of _ _ t])
    moreover have "map_sum id (apfst ((@) (w @ [c]))) (next_string_tail s) = map_sum id (apfst ((@) w)) (next_string_tail (c # s))"
      using plain by (cases "next_string_tail s") (auto simp: apfst_def)
    ultimately show ?thesis by (simp only:)
  qed
qed

lemma NextWord_cut:
  assumes "NUL \<notin> set s"
  shows "case next_word s of
      None \<Rightarrow> NextWord \<lparr>tk_buf = pre @ s @ NUL # post, tk_input = length pre\<rparr> =
        Some (TkNull, \<lparr>tk_buf = pre @ s @ NUL # post, tk_input = length pre\<rparr>)
    | Some spec \<Rightarrow> \<exists>res. NextWord \<lparr>tk_buf = pre @ s @ NUL # post, tk_input = length pre\<rparr> = Some res \<and> fits_cut pre post spec res"
proof (cases s)
  case (Cons c s')
  have c: "c \<noteq> NUL" "NUL \<notin> set s'" using assms Cons by auto
  show ?thesis
  proof (cases "valid_word_first_char c")
    case True
    have "\<exists>res. word_loop valid_word_char ''Invalid word character'' (length pre) \<lparr>tk_buf = pre @ [c] @ s' @ NUL # post, tk_input = length pre\<rparr> = Some res \<and>
      fits_cut pre post (map_sum id (apfst ((@) [c])) (next_word_tail valid_word_char ''Invalid word character'' s')) res"
      by (rule word_loop_cut[OF c(2)]) (use c in auto)
    then show ?thesis using True c Cons by (simp add: NextWord_def next_word_def)
  next
    case False
    then show ?thesis using c Cons
      by (simp add: NextWord_def next_word_def fits_cut_def) (intro exI[of _ "[]"] exI[of _ c] exI[of _ s'], simp)
  qed
qed (simp add: NextWord_def next_word_def)

lemma NextParam_cut:
  assumes "NUL \<notin> set s"
  shows "case next_param s of
      None \<Rightarrow> NextParam \<lparr>tk_buf = pre @ s @ NUL # post, tk_input = length pre\<rparr> =
        Some (TkNull, \<lparr>tk_buf = pre @ s @ NUL # post, tk_input = length pre\<rparr>)
    | Some spec \<Rightarrow> \<exists>res. NextParam \<lparr>tk_buf = pre @ s @ NUL # post, tk_input = length pre\<rparr> = Some res \<and> fits_cut pre post spec res"
proof (cases s)
  case (Cons c s')
  have c: "c \<noteq> NUL" "NUL \<notin> set s'" using assms Cons by auto
  consider (quote) "c = CHR 0x22" | (plain) "c \<noteq> CHR 0x22" "valid_unquoted_char c" | (bad) "c \<noteq> CHR 0x22" "\<not> valid_unquoted_char c" by blast
  then show ?thesis
  proof cases
    case quote
    have "\<exists>res. string_loop (length pre) (length (pre @ [])) \<lparr>tk_buf = pre @ [] @ (c # []) @ s' @ NUL # post,
        tk_input = length (pre @ [] @ [c])\<rparr> = Some res \<and> fits_cut pre post (map_sum id (apfst ((@) [])) (next_string_tail s')) res"
      by (rule string_loop_cut[OF c(2)]) (use c in auto)
    then show ?thesis using quote c Cons by (simp add: NextParam_def NextString_def next_param_def)
  next
    case plain
    have "\<exists>res. word_loop valid_unquoted_char ''Invalid unquoted character'' (length pre) \<lparr>tk_buf = pre @ [c] @ s' @ NUL # post, tk_input = length pre\<rparr> = Some res \<and>
      fits_cut pre post (map_sum id (apfst ((@) [c])) (next_word_tail valid_unquoted_char ''Invalid unquoted character'' s')) res"
      by (rule word_loop_cut[OF c(2)]) (use c in auto)
    then show ?thesis using plain c Cons by (simp add: NextParam_def NextUnquoted_def next_param_def)
  next
    case bad
    then show ?thesis using c Cons
      by (simp add: NextParam_def NextUnquoted_def next_param_def fits_cut_def) (intro exI[of _ "[]"] exI[of _ c] exI[of _ s'], simp)
  qed
qed (simp add: NextParam_def NextUnquoted_def next_param_def)

end
