(* ===== verification/Client_Args.thy ===== *)
theory Client_Args
  imports Client_Text Playlist_Model
begin

text \<open>
  Numbers in the protocol: what \<open>%u\<close> and \<open>%i\<close> print, what \<open>strtol\<close> and \<open>strtoul\<close> read (base 10,
  64-bit \<open>long\<close>), and the argument parsers of src/src/protocol/ArgParser.cxx.  A parser returns its
  value, or the error that it reports to the client: a code of src/src/protocol/Ack.hxx and the text.
\<close>

section \<open>Error codes\<close>

datatype ack =
  ACK_ERROR_NOT_LIST | ACK_ERROR_ARG | ACK_ERROR_PASSWORD | ACK_ERROR_PERMISSION | ACK_ERROR_UNKNOWN |
  ACK_ERROR_NO_EXIST | ACK_ERROR_PLAYLIST_MAX | ACK_ERROR_SYSTEM | ACK_ERROR_PLAYLIST_LOAD |
  ACK_ERROR_UPDATE_ALREADY | ACK_ERROR_PLAYER_SYNC | ACK_ERROR_EXIST

fun ack_code :: "ack \<Rightarrow> nat" where
  "ack_code ACK_ERROR_NOT_LIST = 1"
| "ack_code ACK_ERROR_ARG = 2"
| "ack_code ACK_ERROR_PASSWORD = 3"
| "ack_code ACK_ERROR_PERMISSION = 4"
| "ack_code ACK_ERROR_UNKNOWN = 5"
| "ack_code ACK_ERROR_NO_EXIST = 50"
| "ack_code ACK_ERROR_PLAYLIST_MAX = 51"
| "ack_code ACK_ERROR_SYSTEM = 52"
| "ack_code ACK_ERROR_PLAYLIST_LOAD = 53"
| "ack_code ACK_ERROR_UPDATE_ALREADY = 54"
| "ack_code ACK_ERROR_PLAYER_SYNC = 55"
| "ack_code ACK_ERROR_EXIST = 56"

section \<open>Printing and reading numbers\<close>

definition digit :: "nat \<Rightarrow> char" where
  "digit n = char_of (48 + n)"

fun dec :: "nat \<Rightarrow> string" where
  "dec n = (if n < 10 then [digit n] else dec (n div 10) @ [digit (n mod 10)])"

declare dec.simps [simp del]

definition dec_int :: "int \<Rightarrow> string" where
  "dec_int i = (if i < 0 then CHR ''-'' # dec (nat (- i)) else dec (nat i))"

definition isspace :: "char \<Rightarrow> bool" where
  "isspace c \<longleftrightarrow> code c = 32 \<or> 9 \<le> code c \<and> code c \<le> 13"

definition digits_value :: "string \<Rightarrow> nat" where
  "digits_value ds = foldl (\<lambda>n c. 10 * n + (code c - 48)) 0 ds"

text \<open>The sign, the value, and what is behind the number; None if there is no digit.\<close>

definition scan_number :: "string \<Rightarrow> (bool \<times> nat \<times> string) option" where
  "scan_number s =
     (let s = dropWhile isspace s;
          neg = (s \<noteq> [] \<and> hd s = CHR ''-'');
          s = (if s \<noteq> [] \<and> (hd s = CHR ''-'' \<or> hd s = CHR ''+'') then tl s else s);
          ds = takeWhile IsDigitASCII s
      in if ds = [] then None else Some (neg, digits_value ds, dropWhile IsDigitASCII s))"

definition LONG_MAX :: int where "LONG_MAX = 2 ^ 63 - 1"
definition ULONG_MAX :: nat where "ULONG_MAX = 2 ^ 64 - 1"
definition INT_MAX :: int where "INT_MAX = 2 ^ 31 - 1"
definition UINT_MAX :: nat where "UINT_MAX = 2 ^ 32 - 1"

text \<open>The value and the end pointer; without a number the end pointer is the start.\<close>

definition strtol :: "string \<Rightarrow> int \<times> string" where
  "strtol s =
     (case scan_number s of
        None \<Rightarrow> (0, s)
      | Some (neg, n, rest) \<Rightarrow>
          (if neg then max (- LONG_MAX - 1) (- int n) else min LONG_MAX (int n), rest))"

definition strtoul :: "string \<Rightarrow> nat \<times> string" where
  "strtoul s =
     (case scan_number s of
        None \<Rightarrow> (0, s)
      | Some (neg, n, rest) \<Rightarrow>
          (if n > ULONG_MAX then ULONG_MAX else if neg then (2 ^ 64 - n) mod 2 ^ 64 else n, rest))"

section \<open>The argument parsers\<close>

type_synonym arg_error = "ack \<times> string"

definition check_uint32 :: "string \<Rightarrow> arg_error + nat" where
  "check_uint32 s =
     (let (v, test) = strtoul s
      in if test = s \<or> test \<noteq> [] then Inl (ACK_ERROR_ARG, ''Integer expected: '' @ s) else Inr (v mod 2 ^ 32))"

definition check_int :: "string \<Rightarrow> arg_error + int" where
  "check_int s =
     (let (v, test) = strtol s
      in if test = s \<or> test \<noteq> [] then Inl (ACK_ERROR_ARG, ''Integer expected: '' @ s)
         else if v < - INT_MAX - 1 \<or> v > INT_MAX then Inl (ACK_ERROR_ARG, ''Number too large: '' @ s)
         else Inr v)"

text \<open>
  The two tests \<open>unsigned(value) > std::numeric_limits<unsigned>::max()\<close> are as in the code.
\<close>

definition check_range :: "string \<Rightarrow> arg_error + nat \<times> nat" where
  "check_range s =
     (let (v, test) = strtol s
      in if test = s \<or> test \<noteq> [] \<and> hd test \<noteq> CHR '':'' then Inl (ACK_ERROR_ARG, ''Integer or range expected: '' @ s)
         else if v = -1 \<and> test = [] then Inr (0, nat INT_MAX)
         else if v < 0 then Inl (ACK_ERROR_ARG, ''Number is negative: '' @ s)
         else if u32 v > UINT_MAX then Inl (ACK_ERROR_ARG, ''Number too large: '' @ s)
         else if test \<noteq> [] then
           (let test = tl test; (v2, test2) = strtol test
            in if test2 \<noteq> [] then Inl (ACK_ERROR_ARG, ''Integer or range expected: '' @ s)
               else let v2 = (if test = test2 then INT_MAX else v2)
                    in if v2 < 0 then Inl (ACK_ERROR_ARG, ''Number is negative: '' @ s)
                       else if u32 v2 > UINT_MAX then Inl (ACK_ERROR_ARG, ''Number too large: '' @ s)
                       else Inr (u32 v, u32 v2))
         else Inr (u32 v, u32 (int (u32 v) + 1)))"

definition check_unsigned :: "string \<Rightarrow> arg_error + nat" where
  "check_unsigned s =
     (let (v, endptr) = strtoul s
      in if endptr = s \<or> endptr \<noteq> [] then Inl (ACK_ERROR_ARG, ''Integer expected: '' @ s)
         else if v > UINT_MAX then Inl (ACK_ERROR_ARG, ''Number too large: '' @ s)
         else Inr v)"

definition check_bool :: "string \<Rightarrow> arg_error + bool" where
  "check_bool s =
     (let (v, endptr) = strtol s
      in if endptr = s \<or> endptr \<noteq> [] \<or> v \<noteq> 0 \<and> v \<noteq> 1 then Inl (ACK_ERROR_ARG, ''Boolean (0/1) expected: '' @ s)
         else Inr (v \<noteq> 0))"

section \<open>Numbers that have been printed are read back\<close>

lemma code_digit [simp]: "n < 10 \<Longrightarrow> code (digit n) = 48 + n"
  by (simp add: digit_def)

lemma digit_char [simp]: "n < 10 \<Longrightarrow> IsDigitASCII (digit n)" "n < 10 \<Longrightarrow> \<not> isspace (digit n)"
  "n < 10 \<Longrightarrow> digit n \<noteq> CHR ''-''" "n < 10 \<Longrightarrow> digit n \<noteq> CHR ''+''"
  by (simp_all add: IsDigitASCII_def isspace_def) (auto dest: arg_cong[where f = "of_char :: char \<Rightarrow> nat"])

lemma dec_digits: "c \<in> set (dec n) \<Longrightarrow> \<exists>d<10. c = digit d"
proof (induction n rule: dec.induct)
  case (1 n)
  then show ?case
    by (cases "n < 10") (auto simp: dec.simps[of n] intro: exI[of _ "n mod 10"])
qed

lemma dec_ne [simp]: "dec n \<noteq> []" "[] \<noteq> dec n"
  by (simp_all add: dec.simps)

lemma dec_value [simp]: "digits_value (dec n) = n"
proof (induction n rule: dec.induct)
  case (1 n)
  then show ?case
    by (cases "n < 10") (simp_all add: dec.simps[of n] digits_value_def)
qed

lemma dec_head: obtains d s where "dec n = digit d # s" "d < 10"
  using dec_digits[of "hd (dec n)" n] by (metis dec_ne(1) list.collapse list.set_sel(1))

lemma scan_digits:
  assumes "rest = [] \<or> \<not> IsDigitASCII (hd rest)"
  shows "takeWhile IsDigitASCII (dec n @ rest) = dec n" "dropWhile IsDigitASCII (dec n @ rest) = rest"
proof -
  have all: "\<forall>c\<in>set (dec n). IsDigitASCII c" using dec_digits by fastforce
  show "takeWhile IsDigitASCII (dec n @ rest) = dec n"
    using all assms by (cases rest) (simp_all add: takeWhile_append2)
  show "dropWhile IsDigitASCII (dec n @ rest) = rest"
    using all assms by (cases rest) (simp_all add: dropWhile_append2)
qed

lemma scan_dec:
  assumes "rest = [] \<or> \<not> IsDigitASCII (hd rest)"
  shows "scan_number (dec n @ rest) = Some (False, n, rest)"
proof -
  obtain d s where d: "dec n = digit d # s" "d < 10" by (rule dec_head)
  have "dropWhile isspace (dec n @ rest) = dec n @ rest" using d by simp
  then show ?thesis
    using d(2) scan_digits[OF assms, of n] by (simp add: scan_number_def Let_def) (simp add: d(1))
qed

lemma strtol_dec [simp]: "rest = [] \<or> \<not> IsDigitASCII (hd rest) \<Longrightarrow> strtol (dec n @ rest) = (min LONG_MAX (int n), rest)"
  and strtoul_dec [simp]: "rest = [] \<or> \<not> IsDigitASCII (hd rest) \<Longrightarrow> strtoul (dec n @ rest) = (min ULONG_MAX n, rest)"
  by (simp_all add: strtol_def strtoul_def scan_dec min_def)

lemmas strtol_dec0 [simp] = strtol_dec[of "[]", simplified]
  and strtoul_dec0 [simp] = strtoul_dec[of "[]", simplified]

lemma check_unsigned_dec: "n \<le> UINT_MAX \<Longrightarrow> check_unsigned (dec n) = Inr n"
  "UINT_MAX < n \<Longrightarrow> check_unsigned (dec n) = Inl (ACK_ERROR_ARG, ''Number too large: '' @ dec n)"
  by (auto simp: check_unsigned_def min_def ULONG_MAX_def UINT_MAX_def)

lemma u32_less: "u32 i < 2 ^ 32"
  by (simp add: u32_def nat_less_iff)

lemma u32_numeral [simp]: "u32 i < 4294967296"
  using u32_less[of i] by simp

lemma u32_small [simp]: "n < 2 ^ 32 \<Longrightarrow> u32 (int n) = n"
  by (simp add: u32_def)

lemma u32_mod: "u32 (int n) = n mod 2 ^ 32"
  by (simp add: u32_def nat_mod_distrib)

lemma UINT_MAX_less [simp]: "\<not> UINT_MAX < u32 i" "\<not> UINT_MAX < n mod 4294967296"
proof -
  have "UINT_MAX < m \<longleftrightarrow> 4294967296 \<le> m" for m :: nat by (auto simp: UINT_MAX_def)
  then show "\<not> UINT_MAX < u32 i" "\<not> UINT_MAX < n mod 4294967296"
    using u32_less[of i] by (simp_all add: not_le)
qed

lemma check_unsigned_bound: "check_unsigned s = Inr n \<Longrightarrow> n < 2 ^ 32"
  by (auto simp: check_unsigned_def UINT_MAX_def split: if_splits prod.splits)

lemma check_int_bound: "check_int s = Inr i \<Longrightarrow> - (2 ^ 31) \<le> i \<and> i < 2 ^ 31"
  by (auto simp: check_int_def INT_MAX_def split: if_splits prod.splits)

lemma check_range_bound: "check_range s = Inr (a, b) \<Longrightarrow> a < 2 ^ 32 \<and> b < 2 ^ 32"
  by (auto simp: check_range_def INT_MAX_def Let_def u32_less split: if_splits prod.splits)

lemma check_uint32_bound: "check_uint32 s = Inr n \<Longrightarrow> n < 2 ^ 32"
  by (auto simp: check_uint32_def split: if_splits prod.splits)

text \<open>Ranges: a position, a range with an end, and one without.\<close>

lemma colon_digit [simp]: "\<not> IsDigitASCII (CHR '':'')"
  by (simp add: IsDigitASCII_def)

lemma strtol_long: "int n \<le> LONG_MAX \<Longrightarrow> rest = [] \<or> \<not> IsDigitASCII (hd rest) \<Longrightarrow> strtol (dec n @ rest) = (int n, rest)"
  by simp

lemma check_range_one:
  assumes "int n \<le> LONG_MAX"
  shows "check_range (dec n) = Inr (n mod 2 ^ 32, (n mod 2 ^ 32 + 1) mod 2 ^ 32)"
proof -
  have "u32 (int (n mod 2 ^ 32) + 1) = (n mod 2 ^ 32 + 1) mod 2 ^ 32"
    using u32_mod[of "n mod 2 ^ 32 + 1"] by (simp add: ac_simps)
  then show ?thesis using strtol_long[OF assms, of "[]"] by (simp add: check_range_def u32_mod del: strtol_dec0)
qed

lemma check_range_two:
  assumes "int a \<le> LONG_MAX" "int b \<le> LONG_MAX"
  shows "check_range (dec a @ '':'' @ dec b) = Inr (a mod 2 ^ 32, b mod 2 ^ 32)"
  using strtol_long[OF assms(1), of "'':'' @ dec b"] strtol_long[OF assms(2), of "[]"]
  by (simp add: check_range_def u32_mod Let_def del: strtol_dec0)

lemma check_range_open:
  assumes "int a \<le> LONG_MAX"
  shows "check_range (dec a @ '':'') = Inr (a mod 2 ^ 32, 2 ^ 31 - 1)"
proof -
  have "strtol [] = (0, [])" by (simp add: strtol_def scan_number_def)
  then show ?thesis
    using strtol_long[OF assms, of "'':''"]
    by (simp add: check_range_def u32_mod Let_def del: strtol_dec0) (simp add: INT_MAX_def u32_def)
qed

end
