(* ===== verification/Client_Buffer.thy ===== *)
theory Client_Buffer
  imports Player_Control
begin

text \<open>
  The buffers between a client and its socket: \<open>fifo_buffer\<close> (src/src/util/fifo_buffer.c), the
  \<open>PeakBuffer\<close> of two of them in which responses wait (src/src/util/PeakBuffer.cxx), and the
  \<open>FifoBuffer\<close> that receives commands (src/src/util/FifoBuffer.hxx).  The array of a buffer is
  modelled up to its end (\<open>tail\<close>); what has been consumed is still in front.  The locale \<open>byte_queue\<close>
  is what the sockets rely on: bytes come out in the order in which they went in, none is lost or
  doubled, and a buffer only refuses what it has no room for.
\<close>

section \<open>fifo_buffer\<close>

record fifo_buffer =
  fb_size :: nat
  fb_start :: nat
  fb_data :: string

definition fifo_buffer_new :: "nat \<Rightarrow> fifo_buffer" where
  "fifo_buffer_new n = \<lparr>fb_size = n, fb_start = 0, fb_data = []\<rparr>"

text \<open>The header of the structure, 24 bytes, is taken from the memory of the buffer.\<close>

definition fifo_buffer_init :: "nat \<Rightarrow> fifo_buffer" where
  "fifo_buffer_init n = \<lparr>fb_size = n - 24, fb_start = 0, fb_data = []\<rparr>"

definition fifo_buffer_is_empty :: "fifo_buffer \<Rightarrow> bool" where
  "fifo_buffer_is_empty b \<longleftrightarrow> fb_start b = length (fb_data b)"

definition fifo_buffer_read :: "fifo_buffer \<Rightarrow> string option" where
  "fifo_buffer_read b = (if fb_start b = length (fb_data b) then None else Some (drop (fb_start b) (fb_data b)))"

definition fifo_buffer_consume :: "nat \<Rightarrow> fifo_buffer \<Rightarrow> fifo_buffer option" where
  "fifo_buffer_consume n b =
     do { ensure (fb_start b + n \<le> length (fb_data b)); Some (b\<lparr>fb_start := fb_start b + n\<rparr>) }"

definition fifo_buffer_move :: "fifo_buffer \<Rightarrow> fifo_buffer" where
  "fifo_buffer_move b =
     (if fb_start b = 0 then b else b\<lparr>fb_data := drop (fb_start b) (fb_data b), fb_start := 0\<rparr>)"

text \<open>The room behind the data, None (\<open>NULL\<close>) if there is none.\<close>

definition fifo_buffer_write :: "fifo_buffer \<Rightarrow> nat option \<times> fifo_buffer" where
  "fifo_buffer_write b =
     (if length (fb_data b) = fb_size b then
        let b = fifo_buffer_move b
        in if length (fb_data b) = fb_size b then (None, b) else (Some (fb_size b - length (fb_data b)), b)
      else let b = (if fb_start b > 0 \<and> fb_start b = length (fb_data b) then b\<lparr>fb_start := 0, fb_data := []\<rparr> else b)
           in (Some (fb_size b - length (fb_data b)), b))"

definition fifo_buffer_append :: "string \<Rightarrow> fifo_buffer \<Rightarrow> fifo_buffer option" where
  "fifo_buffer_append s b =
     do { ensure (length (fb_data b) + length s \<le> fb_size b); Some (b\<lparr>fb_data := fb_data b @ s\<rparr>) }"

section \<open>PeakBuffer\<close>

text \<open>The loop of \<open>AppendTo\<close>; the first argument bounds its rounds: one more than there are bytes.\<close>

fun AppendTo_loop :: "nat \<Rightarrow> nat \<Rightarrow> string \<Rightarrow> fifo_buffer \<Rightarrow> (nat \<times> fifo_buffer) option" where
  "AppendTo_loop 0 sofar s b = None"
| "AppendTo_loop (Suc k) sofar s b =
     (case fifo_buffer_write b of
        (None, b) \<Rightarrow> Some (sofar, b)
      | (Some max_length, b) \<Rightarrow>
          do { let nbytes = min (length s) max_length;
               b \<leftarrow> fifo_buffer_append (take nbytes s) b;
               let s = drop nbytes s; let sofar = sofar + nbytes;
               if length s > 0 then AppendTo_loop k sofar s b else Some (sofar, b) })"

definition AppendTo :: "fifo_buffer \<Rightarrow> string \<Rightarrow> (nat \<times> fifo_buffer) option" where
  "AppendTo b s = do { ensure (length s > 0); AppendTo_loop (length s + 1) 0 s b }"

record peak_buffer =
  pb_normal_size :: nat
  pb_peak_size :: nat
  pb_normal :: "fifo_buffer option"
  pb_peak :: "fifo_buffer option"

definition new_PeakBuffer :: "nat \<Rightarrow> nat \<Rightarrow> peak_buffer" where
  "new_PeakBuffer n p = \<lparr>pb_normal_size = n, pb_peak_size = p, pb_normal = None, pb_peak = None\<rparr>"

definition none_or :: "(fifo_buffer \<Rightarrow> bool) \<Rightarrow> fifo_buffer option \<Rightarrow> bool" where
  "none_or P b = (case b of None \<Rightarrow> True | Some b \<Rightarrow> P b)"

definition PeakBuffer_IsEmpty :: "peak_buffer \<Rightarrow> bool" where
  "PeakBuffer_IsEmpty b \<longleftrightarrow> none_or fifo_buffer_is_empty (pb_normal b) \<and> none_or fifo_buffer_is_empty (pb_peak b)"

definition PeakBuffer_Read :: "peak_buffer \<Rightarrow> string option" where
  "PeakBuffer_Read b =
     (case Option.bind (pb_normal b) fifo_buffer_read of
        Some p \<Rightarrow> Some p
      | None \<Rightarrow> Option.bind (pb_peak b) fifo_buffer_read)"

definition PeakBuffer_Consume :: "nat \<Rightarrow> peak_buffer \<Rightarrow> peak_buffer option" where
  "PeakBuffer_Consume n b =
     (if \<not> none_or fifo_buffer_is_empty (pb_normal b)
      then do { f \<leftarrow> fifo_buffer_consume n (the (pb_normal b)); Some (b\<lparr>pb_normal := Some f\<rparr>) }
      else if \<not> none_or fifo_buffer_is_empty (pb_peak b)
      then do { f \<leftarrow> fifo_buffer_consume n (the (pb_peak b));
                Some (b\<lparr>pb_peak := if fifo_buffer_is_empty f then None else Some f\<rparr>) }
      else Some b)"

text \<open>The first argument is whether \<open>HugeAllocate\<close> gets memory.\<close>

definition PeakBuffer_Append :: "bool \<Rightarrow> string \<Rightarrow> peak_buffer \<Rightarrow> (bool \<times> peak_buffer) option" where
  "PeakBuffer_Append memory s b =
     (if length s = 0 then Some (True, b)
      else if \<not> none_or fifo_buffer_is_empty (pb_peak b)
      then do { (nbytes, f) \<leftarrow> AppendTo (the (pb_peak b)) s;
                Some (nbytes = length s, b\<lparr>pb_peak := Some f\<rparr>) }
      else do {
        let b = (if pb_normal b = None then b\<lparr>pb_normal := Some (fifo_buffer_new (pb_normal_size b))\<rparr> else b);
        (nbytes, f) \<leftarrow> AppendTo (the (pb_normal b)) s;
        let b = b\<lparr>pb_normal := Some f\<rparr>; let s = drop nbytes s;
        if nbytes > 0 \<and> length s = 0 then Some (True, b)
        else do {
          let b = (if pb_peak b = None \<and> pb_peak_size b > 0 \<and> memory
                   then b\<lparr>pb_peak := Some (fifo_buffer_init (pb_peak_size b))\<rparr> else b);
          if pb_peak b = None then Some (False, b)
          else do { (nbytes, f) \<leftarrow> AppendTo (the (pb_peak b)) s;
                    Some (nbytes = length s, b\<lparr>pb_peak := Some f\<rparr>) } } })"

section \<open>FifoBuffer\<close>

text \<open>The input buffer; its size is a template argument.\<close>

record input_buffer =
  ib_head :: nat
  ib_data :: string

definition new_FifoBuffer :: input_buffer where
  "new_FifoBuffer = \<lparr>ib_head = 0, ib_data = []\<rparr>"

definition FifoBuffer_Shift :: "nat \<Rightarrow> input_buffer \<Rightarrow> input_buffer option" where
  "FifoBuffer_Shift n b =
     (if ib_head b = 0 then Some b
      else do { ensure (ib_head b \<le> n \<and> length (ib_data b) \<le> n \<and> ib_head b \<le> length (ib_data b));
                Some \<lparr>ib_head = 0, ib_data = drop (ib_head b) (ib_data b)\<rparr> })"

definition FifoBuffer_IsFull :: "nat \<Rightarrow> input_buffer \<Rightarrow> bool" where
  "FifoBuffer_IsFull n b \<longleftrightarrow> ib_head b = 0 \<and> length (ib_data b) = n"

definition FifoBuffer_Write :: "nat \<Rightarrow> input_buffer \<Rightarrow> (nat \<times> input_buffer) option" where
  "FifoBuffer_Write n b = do { b \<leftarrow> FifoBuffer_Shift n b; Some (n - length (ib_data b), b) }"

definition FifoBuffer_Append :: "nat \<Rightarrow> string \<Rightarrow> input_buffer \<Rightarrow> input_buffer option" where
  "FifoBuffer_Append n s b =
     do { ensure (length (ib_data b) \<le> n \<and> length s \<le> n \<and> length (ib_data b) + length s \<le> n);
          Some (b\<lparr>ib_data := ib_data b @ s\<rparr>) }"

definition FifoBuffer_Read :: "input_buffer \<Rightarrow> string" where
  "FifoBuffer_Read b = drop (ib_head b) (ib_data b)"

definition FifoBuffer_Consume :: "nat \<Rightarrow> nat \<Rightarrow> input_buffer \<Rightarrow> input_buffer option" where
  "FifoBuffer_Consume n k b =
     do { ensure (length (ib_data b) \<le> n \<and> ib_head b \<le> length (ib_data b) \<and> k \<le> length (ib_data b) \<and>
                  ib_head b + k \<le> length (ib_data b));
          Some (b\<lparr>ib_head := ib_head b + k\<rparr>) }"

section \<open>What the sockets rely on\<close>

text \<open>
  \<open>put\<close> says whether all bytes have been taken; \<open>room\<close> bounds what can be put for certain, and a
  queue that has refused bytes is thrown away.  \<open>get\<close> is what can be sent next.
\<close>

locale byte_queue =
  fixes inv :: "'b \<Rightarrow> bool" and content :: "'b \<Rightarrow> string" and put :: "string \<Rightarrow> 'b \<Rightarrow> (bool \<times> 'b) option"
    and get :: "'b \<Rightarrow> string option" and consume :: "nat \<Rightarrow> 'b \<Rightarrow> 'b option" and room :: "'b \<Rightarrow> nat"
  assumes put: "inv b \<Longrightarrow> \<exists>ok b'. put s b = Some (ok, b') \<and> inv b' \<and>
      (ok \<longrightarrow> content b' = content b @ s) \<and> (length s \<le> room b \<longrightarrow> ok)"
    and get: "inv b \<Longrightarrow> case get b of None \<Rightarrow> content b = [] | Some p \<Rightarrow> p \<noteq> [] \<and> (\<exists>r. content b = p @ r)"
    and consume: "inv b \<Longrightarrow> get b = Some p \<Longrightarrow> n \<le> length p \<Longrightarrow>
      \<exists>b'. consume n b = Some b' \<and> inv b' \<and> content b' = drop n (content b)"
begin

text \<open>
  A run of the queue: puts, and rounds in which the socket takes some of the bytes that are offered.
\<close>

fun run :: "(string + nat) list \<Rightarrow> 'b \<Rightarrow> string \<Rightarrow> ('b \<times> string) option" where
  "run [] b sent = Some (b, sent)"
| "run (Inl s # es) b sent = (case put s b of Some (True, b) \<Rightarrow> run es b sent | _ \<Rightarrow> None)"
| "run (Inr n # es) b sent =
     (case get b of None \<Rightarrow> run es b sent
      | Some p \<Rightarrow> (case consume (min n (length p)) b of Some b \<Rightarrow> run es b (sent @ take (min n (length p)) p) | None \<Rightarrow> None))"

lemma run_fifo:
  "inv b \<Longrightarrow> run es b sent = Some (b', sent') \<Longrightarrow>
   inv b' \<and> sent' @ content b' = sent @ content b @ concat (map (\<lambda>e. case e of Inl s \<Rightarrow> s | Inr _ \<Rightarrow> []) es)"
proof (induction es b sent rule: run.induct)
  case (2 s es b sent)
  then show ?case using put[OF 2(2), of s] by (auto split: option.splits bool.splits)
next
  case (3 n es b sent)
  show ?case
  proof (cases "get b")
    case None
    then show ?thesis using 3 by simp
  next
    case (Some p)
    let ?n = "min n (length p)"
    obtain r where r: "content b = p @ r" using get[OF 3(3)] Some by auto
    obtain u where u: "consume ?n b = Some u" "inv u" "content u = drop ?n (content b)"
      using consume[OF 3(3) Some, of ?n] by auto
    have c: "content b = take ?n p @ content u" unfolding u(3) r by simp
    have "run es u (sent @ take ?n p) = Some (b', sent')" using 3(4) Some u(1) by simp
    from 3(2)[OF Some u(1,2) this] show ?thesis by (simp add: c)
  qed
qed simp

end


section \<open>The buffers are queues\<close>

definition fifo_inv :: "fifo_buffer \<Rightarrow> bool" where
  "fifo_inv b \<longleftrightarrow> fb_start b \<le> length (fb_data b) \<and> length (fb_data b) \<le> fb_size b"

definition fifo_content :: "fifo_buffer \<Rightarrow> string" where
  "fifo_content b = drop (fb_start b) (fb_data b)"

definition fifo_room :: "fifo_buffer \<Rightarrow> nat" where
  "fifo_room b = fb_size b - length (fifo_content b)"

lemma fifo_write:
  assumes "fifo_inv b"
  obtains b' where "fifo_buffer_write b = (None, b')" "fifo_inv b'" "fifo_content b' = fifo_content b" "fb_size b' = fb_size b"
    "fifo_room b = 0"
  | b' m where "fifo_buffer_write b = (Some m, b')" "fifo_inv b'" "fifo_content b' = fifo_content b" "fb_size b' = fb_size b"
    "0 < m" "m = fb_size b - length (fb_data b')"
proof (cases "length (fb_data b) = fb_size b")
  case full: True
  show ?thesis
  proof (cases "fb_start b = 0")
    case True
    show ?thesis by (rule that(1)[of b]) (use full True assms in \<open>simp_all add: fifo_buffer_write_def fifo_buffer_move_def fifo_room_def fifo_content_def\<close>)
  next
    case False
    let ?b = "b\<lparr>fb_data := drop (fb_start b) (fb_data b), fb_start := 0\<rparr>"
    have lt: "length (fb_data ?b) < fb_size b" using full False assms by (simp add: fifo_inv_def)
    show ?thesis
      by (rule that(2)[of "fb_size b - length (fb_data ?b)" ?b])
        (use lt full False in \<open>simp_all add: fifo_buffer_write_def fifo_buffer_move_def fifo_inv_def fifo_content_def Let_def\<close>)
  qed
next
  case False
  let ?b = "if fb_start b > 0 \<and> fb_start b = length (fb_data b) then b\<lparr>fb_start := 0, fb_data := []\<rparr> else b"
  have lt: "length (fb_data ?b) < fb_size b" using False assms by (simp add: fifo_inv_def)
  show ?thesis
    by (rule that(2)[of "fb_size b - length (fb_data ?b)" ?b])
      (use lt False assms in \<open>simp_all add: fifo_buffer_write_def fifo_inv_def fifo_content_def Let_def\<close>)
qed

lemma AppendTo_loop_ok:
  assumes "fifo_inv b" "length s < k"
  shows "\<exists>b'. AppendTo_loop k sofar s b = Some (sofar + min (length s) (fifo_room b), b') \<and> fifo_inv b' \<and>
    fb_size b' = fb_size b \<and> fifo_content b' = fifo_content b @ take (fifo_room b) s"
  using assms
proof (induction k sofar s b rule: AppendTo_loop.induct)
  case (2 k sofar s b)
  from 2(2) show ?case
  proof (cases rule: fifo_write)
    case (1 b')
    then show ?thesis by simp
  next
    case (2 b' m)
    let ?n = "min (length s) m"
    let ?b = "b'\<lparr>fb_data := fb_data b' @ take ?n s\<rparr>"
    have "length (fb_data b') + ?n \<le> fb_size b'" using 2(4,5,6) by (auto simp: min_def)
    then have a: "fifo_buffer_append (take ?n s) b' = Some ?b" by (simp add: fifo_buffer_append_def min.commute)
    have b: "fifo_inv ?b" "fifo_content ?b = fifo_content b @ take ?n s" "fb_size ?b = fb_size b"
      using 2 by (auto simp: fifo_inv_def fifo_content_def)
    have "length (fifo_content b') \<le> length (fb_data b')" by (simp add: fifo_content_def)
    then have room: "m \<le> fifo_room b" using 2(3,4,6) by (simp add: fifo_room_def)
    show ?thesis
    proof (cases "length s \<le> m")
      case True
      then show ?thesis using 2(1) a b room by (simp add: min_def)
    next
      case False
      have r: "fifo_room ?b = fifo_room b - ?n" using b(2,3) False by (simp add: fifo_room_def)
      have "\<exists>b''. AppendTo_loop k (sofar + ?n) (drop ?n s) ?b = Some (sofar + ?n + min (length (drop ?n s)) (fifo_room ?b), b'') \<and>
        fifo_inv b'' \<and> fb_size b'' = fb_size ?b \<and> fifo_content b'' = fifo_content ?b @ take (fifo_room ?b) (drop ?n s)"
        by (rule "2.IH"[OF 2(1)[symmetric] _ refl]) (use a b(1) \<open>length s < Suc k\<close> 2(5) False in auto)
      moreover have "?n = m" "sofar + ?n + min (length (drop ?n s)) (fifo_room ?b) = sofar + min (length s) (fifo_room b)"
        using r room False by (auto simp: min_def)
      moreover have "fifo_content ?b @ take (fifo_room ?b) (drop ?n s) = fifo_content b @ take (fifo_room b) s"
        using b(2) r room take_add[of ?n "fifo_room b - ?n" s] by simp
      moreover have "AppendTo_loop (Suc k) sofar s b = AppendTo_loop k (sofar + ?n) (drop ?n s) ?b"
        using 2(1) a False by simp
      ultimately show ?thesis using b(3) by (simp only:)
    qed
  qed
qed simp

lemma AppendTo_ok:
  assumes "fifo_inv b" "s \<noteq> []"
  obtains b' where "AppendTo b s = Some (min (length s) (fifo_room b), b')" "fifo_inv b'" "fb_size b' = fb_size b"
    "fifo_content b' = fifo_content b @ take (fifo_room b) s"
  using AppendTo_loop_ok[OF assms(1), of s "length s + 1" 0] assms(2) that by (auto simp: AppendTo_def)

lemma fifo_is_empty: "fifo_inv b \<Longrightarrow> fifo_buffer_is_empty b \<longleftrightarrow> fifo_content b = []"
  by (auto simp: fifo_buffer_is_empty_def fifo_content_def fifo_inv_def)

lemma fifo_read: "fifo_inv b \<Longrightarrow> fifo_buffer_read b = (if fifo_content b = [] then None else Some (fifo_content b))"
  by (auto simp: fifo_buffer_read_def fifo_content_def fifo_inv_def)

lemma fifo_consume:
  "fifo_inv b \<Longrightarrow> n \<le> length (fifo_content b) \<Longrightarrow>
   \<exists>b'. fifo_buffer_consume n b = Some b' \<and> fifo_inv b' \<and> fifo_content b' = drop n (fifo_content b) \<and> fb_size b' = fb_size b"
  by (auto simp: fifo_buffer_consume_def fifo_content_def fifo_inv_def ensure_def add.commute)

definition fifo_put :: "string \<Rightarrow> fifo_buffer \<Rightarrow> (bool \<times> fifo_buffer) option" where
  "fifo_put s b = (if s = [] then Some (True, b) else map_option (apfst (\<lambda>n. n = length s)) (AppendTo b s))"

interpretation fifo: byte_queue fifo_inv fifo_content fifo_put fifo_buffer_read fifo_buffer_consume fifo_room
proof
  fix b :: fifo_buffer and s p :: string and n
  assume b: "fifo_inv b"
  show "\<exists>ok b'. fifo_put s b = Some (ok, b') \<and> fifo_inv b' \<and> (ok \<longrightarrow> fifo_content b' = fifo_content b @ s) \<and>
      (length s \<le> fifo_room b \<longrightarrow> ok)"
  proof (cases "s = []")
    case False
    show ?thesis
      by (rule AppendTo_ok[OF b False]) (use False in \<open>auto simp: fifo_put_def min_def split: if_splits\<close>)
  qed (use b in \<open>auto simp: fifo_put_def intro: exI[of _ True]\<close>)
  show "case fifo_buffer_read b of None \<Rightarrow> fifo_content b = [] | Some p \<Rightarrow> p \<noteq> [] \<and> (\<exists>r. fifo_content b = p @ r)"
    using fifo_read[OF b] by simp
  show "\<exists>b'. fifo_buffer_consume n b = Some b' \<and> fifo_inv b' \<and> fifo_content b' = drop n (fifo_content b)"
    if "fifo_buffer_read b = Some p" "n \<le> length p"
    using fifo_consume[OF b, of n] fifo_read[OF b] that by (auto split: if_splits)
qed

definition opt_content :: "fifo_buffer option \<Rightarrow> string" where
  "opt_content b = (case b of None \<Rightarrow> [] | Some b \<Rightarrow> fifo_content b)"

definition peak_inv :: "peak_buffer \<Rightarrow> bool" where
  "peak_inv b \<longleftrightarrow> none_or fifo_inv (pb_normal b) \<and> none_or fifo_inv (pb_peak b) \<and>
     none_or (\<lambda>f. fb_size f = pb_normal_size b) (pb_normal b)"

definition peak_content :: "peak_buffer \<Rightarrow> string" where
  "peak_content b = opt_content (pb_normal b) @ opt_content (pb_peak b)"

text \<open>While the peak buffer is in use the room of the normal one does not count.\<close>

definition peak_room :: "peak_buffer \<Rightarrow> nat" where
  "peak_room b = (if opt_content (pb_peak b) = [] then pb_normal_size b - length (opt_content (pb_normal b))
                  else fifo_room (the (pb_peak b)))"

lemma peak_empty: "none_or fifo_inv f \<Longrightarrow> none_or fifo_buffer_is_empty f \<longleftrightarrow> opt_content f = []"
  by (cases f) (simp_all add: none_or_def opt_content_def fifo_is_empty)

lemma peak_append_full:
  assumes "none_or fifo_inv f" "opt_content f \<noteq> []" "s \<noteq> []"
  obtains f' where "AppendTo (the f) s = Some (min (length s) (fifo_room (the f)), f')" "fifo_inv f'"
    "fifo_content f' = opt_content f @ take (fifo_room (the f)) s"
  using assms AppendTo_ok[of "the f" s] by (cases f) (auto simp: none_or_def opt_content_def)

lemma PeakBuffer_Append_ok:
  assumes b: "peak_inv b"
  shows "\<exists>ok b'. PeakBuffer_Append m s b = Some (ok, b') \<and> peak_inv b' \<and> (ok \<longrightarrow> peak_content b' = peak_content b @ s) \<and>
    (length s \<le> peak_room b \<longrightarrow> ok)"
proof (cases "s = []")
  case s: False
  note bd = b[unfolded peak_inv_def]
  show ?thesis
  proof (cases "opt_content (pb_peak b) = []")
    case False
    obtain f where f: "AppendTo (the (pb_peak b)) s = Some (min (length s) (fifo_room (the (pb_peak b))), f)" "fifo_inv f"
      "fifo_content f = opt_content (pb_peak b) @ take (fifo_room (the (pb_peak b))) s"
      using peak_append_full[of "pb_peak b" s] False s bd by blast
    let ?b = "b\<lparr>pb_peak := Some f\<rparr>"
    have e: "\<not> none_or fifo_buffer_is_empty (pb_peak b)" using peak_empty bd False by blast
    have "PeakBuffer_Append m s b = Some (length s \<le> fifo_room (the (pb_peak b)), ?b)"
      using e f(1) s by (auto simp: PeakBuffer_Append_def min_def)
    moreover have "peak_inv ?b" using bd f(2) by (simp add: peak_inv_def none_or_def)
    moreover have "peak_content ?b = opt_content (pb_normal b) @ fifo_content f" by (simp add: peak_content_def opt_content_def)
    ultimately show ?thesis using f(3) False by (simp add: peak_content_def peak_room_def)
  next
    case True
    have e: "none_or fifo_buffer_is_empty (pb_peak b)" using peak_empty bd True by blast
    let ?b = "if pb_normal b = None then b\<lparr>pb_normal := Some (fifo_buffer_new (pb_normal_size b))\<rparr> else b"
    let ?f = "the (pb_normal ?b)"
    have n: "fifo_inv ?f" "fifo_content ?f = opt_content (pb_normal b)" "fb_size ?f = pb_normal_size b" "pb_normal ?b = Some ?f"
      using bd by (auto simp: fifo_buffer_new_def fifo_inv_def fifo_content_def opt_content_def none_or_def)
    obtain g where g: "AppendTo ?f s = Some (min (length s) (fifo_room ?f), g)" "fifo_inv g" "fb_size g = pb_normal_size b"
      "fifo_content g = opt_content (pb_normal b) @ take (fifo_room ?f) s"
      using AppendTo_ok[OF n(1) s] n(2,3) by metis
    let ?n = "min (length s) (fifo_room ?f)"
    let ?c = "?b\<lparr>pb_normal := Some g\<rparr>"
    have pk: "pb_peak ?c = pb_peak b" "pb_peak_size ?c = pb_peak_size b" "pb_normal_size ?c = pb_normal_size b" by simp_all
    have room: "peak_room b = fifo_room ?f" using True n(2,3) by (simp add: peak_room_def fifo_room_def)
    show ?thesis
    proof (cases "length s \<le> fifo_room ?f")
      case fits: True
      then have "PeakBuffer_Append m s b = Some (True, ?c)"
        using s e g(1) n(4) by (simp add: PeakBuffer_Append_def Let_def min_def)
      moreover have "peak_inv ?c" using bd g(2,3) by (simp add: peak_inv_def none_or_def)
      moreover have "peak_content ?c = peak_content b @ s" using True g(4) fits pk by (simp add: peak_content_def opt_content_def)
      ultimately show ?thesis by blast
    next
      case False
      let ?s = "drop ?n s"
      let ?d = "if pb_peak ?c = None \<and> pb_peak_size ?c > 0 \<and> m then ?c\<lparr>pb_peak := Some (fifo_buffer_init (pb_peak_size ?c))\<rparr> else ?c"
      have st: "PeakBuffer_Append m s b = (if pb_peak ?d = None then Some (False, ?d)
        else do { (nbytes, f) \<leftarrow> AppendTo (the (pb_peak ?d)) ?s; Some (nbytes = length ?s, ?d\<lparr>pb_peak := Some f\<rparr>) })"
        using s e g(1) n(4) False by (simp add: PeakBuffer_Append_def Let_def min_def)
      have dn: "pb_normal ?d = Some g" "pb_normal_size ?d = pb_normal_size b" by simp_all
      have dp: "none_or fifo_inv (pb_peak ?d)" "opt_content (pb_peak ?d) = []"
        using bd True by (auto simp: none_or_def opt_content_def fifo_buffer_init_def fifo_inv_def fifo_content_def)
      have nr: "\<not> length s \<le> peak_room b" using False room by simp
      have ne: "?s \<noteq> []" using False by simp
      show ?thesis
      proof (cases "pb_peak ?d")
        case None
        have "peak_inv ?d" using dn dp(1) g(2,3) by (simp add: peak_inv_def none_or_def)
        then show ?thesis using st None nr by (simp only: simp_thms if_True) blast
      next
        case (Some h)
        have h: "fifo_inv h" "fifo_content h = []" using dp Some by (simp_all add: none_or_def opt_content_def)
        obtain h' where h': "AppendTo h ?s = Some (min (length ?s) (fifo_room h), h')" "fifo_inv h'"
          "fifo_content h' = take (fifo_room h) ?s"
          using AppendTo_ok[OF h(1) ne] h(2) by auto
        let ?e = "?d\<lparr>pb_peak := Some h'\<rparr>"
        have r: "PeakBuffer_Append m s b = Some (min (length ?s) (fifo_room h) = length ?s, ?e)"
          unfolding st using Some h'(1) by (simp only: option.sel) simp
        have i: "peak_inv ?e" using dn g(2,3) h'(2) by (simp add: peak_inv_def none_or_def)
        have "peak_content ?e = peak_content b @ s" if "length ?s \<le> fifo_room h"
        proof -
          have "peak_content ?e = fifo_content g @ fifo_content h'" using dn by (simp add: peak_content_def opt_content_def)
          also have "\<dots> = peak_content b @ take (fifo_room ?f) s @ ?s"
            using g(4) h'(3) True that by (simp add: peak_content_def)
          finally show ?thesis using False by (simp add: min_def)
        qed
        then show ?thesis using r i nr by (auto simp: min_def)
      qed
    qed
  qed
qed (use b in \<open>auto simp: PeakBuffer_Append_def intro: exI[of _ True]\<close>)

interpretation peak: byte_queue peak_inv peak_content "PeakBuffer_Append m" PeakBuffer_Read PeakBuffer_Consume peak_room
  for m
proof
  fix b :: peak_buffer and s p :: string and n
  assume b: "peak_inv b"
  note bd = b[unfolded peak_inv_def]
  show "\<exists>ok b'. PeakBuffer_Append m s b = Some (ok, b') \<and> peak_inv b' \<and> (ok \<longrightarrow> peak_content b' = peak_content b @ s) \<and>
      (length s \<le> peak_room b \<longrightarrow> ok)" by (rule PeakBuffer_Append_ok[OF b])
  have rd: "Option.bind f fifo_buffer_read = (if opt_content f = [] then None else Some (opt_content f))" if "none_or fifo_inv f" for f
    using that by (cases f) (simp_all add: none_or_def opt_content_def fifo_read)
  have r: "PeakBuffer_Read b = (if opt_content (pb_normal b) \<noteq> [] then Some (opt_content (pb_normal b))
      else if opt_content (pb_peak b) \<noteq> [] then Some (opt_content (pb_peak b)) else None)"
    using bd by (simp add: PeakBuffer_Read_def rd)
  show "case PeakBuffer_Read b of None \<Rightarrow> peak_content b = [] | Some p \<Rightarrow> p \<noteq> [] \<and> (\<exists>r. peak_content b = p @ r)"
    by (simp add: r peak_content_def)
  assume p: "PeakBuffer_Read b = Some p" "n \<le> length p"
  show "\<exists>b'. PeakBuffer_Consume n b = Some b' \<and> peak_inv b' \<and> peak_content b' = drop n (peak_content b)"
  proof (cases "opt_content (pb_normal b) = []")
    case False
    then obtain f where f: "pb_normal b = Some f" "fifo_inv f" "p = fifo_content f"
      using p(1) r bd by (cases "pb_normal b") (auto simp: none_or_def opt_content_def)
    have e: "\<not> none_or fifo_buffer_is_empty (pb_normal b)" using peak_empty bd False by blast
    from fifo_consume[OF f(2), of n] p(2) f(3) obtain f' where f': "fifo_buffer_consume n f = Some f'" "fifo_inv f'"
      "fifo_content f' = drop n (fifo_content f)" "fb_size f' = fb_size f" by auto
    show ?thesis using e f f' p(2) bd
      by (simp add: PeakBuffer_Consume_def peak_inv_def none_or_def peak_content_def opt_content_def)
  next
    case True
    then obtain f where f: "pb_peak b = Some f" "fifo_inv f" "p = fifo_content f" "fifo_content f \<noteq> []"
      using p(1) r bd by (cases "pb_peak b") (auto simp: none_or_def opt_content_def split: if_splits)
    have e: "none_or fifo_buffer_is_empty (pb_normal b)" "\<not> none_or fifo_buffer_is_empty (pb_peak b)"
      using peak_empty bd True f by (auto simp: opt_content_def none_or_def fifo_is_empty)
    from fifo_consume[OF f(2), of n] p(2) f(3) obtain f' where f': "fifo_buffer_consume n f = Some f'" "fifo_inv f'"
      "fifo_content f' = drop n (fifo_content f)" by auto
    have "peak_content (b\<lparr>pb_peak := if fifo_buffer_is_empty f' then None else Some f'\<rparr>) = drop n (peak_content b)"
      using True f f' fifo_is_empty[OF f'(2)] by (auto simp: peak_content_def opt_content_def)
    moreover have "peak_inv (b\<lparr>pb_peak := if fifo_buffer_is_empty f' then None else Some f'\<rparr>)"
      using bd f'(2) by (simp add: peak_inv_def none_or_def)
    ultimately show ?thesis using e f f'(1) by (simp add: PeakBuffer_Consume_def)
  qed
qed

end
