(* ===== verification/Client_Model.thy ===== *)
theory Client_Model
  imports Client_Args Client_Buffer "HOL-Library.List_Lexorder" "HOL-Library.Char_ord"
begin

text \<open>
  The clients of the daemon (src/src/Client.hxx, ClientNew.cxx, ClientWrite.cxx, ClientExpire.cxx,
  ClientIdle.cxx, ClientSubscribe.cxx, ClientList.cxx, protocol/Result.cxx, Permission.cxx,
  command/CommandListBuilder.cxx), around the world of the playlist.  A client is known by its
  number; a pointer to a client that has been deleted is a number without an entry.  A failing
  assertion is None, and so is the end of the process by \<open>FormatFatalError\<close>.
\<close>

section \<open>State\<close>

datatype list_mode = ModeDisabled | ModeEnabled | ModeOK

record command_list =
  cmd_mode :: list_mode
  cmd_lines :: "string list"
  cmd_size :: nat

type_synonym message = "string \<times> string"

text \<open>\<open>cl_timer\<close> is whether the \<open>TimeoutMonitor\<close> is scheduled, \<open>cl_expired\<close> whether the socket is closed.\<close>

record client =
  cl_permission :: "32 word"
  cl_uid :: int
  cl_cmd_list :: command_list
  cl_idle_waiting :: bool
  cl_idle_flags :: "32 word"
  cl_idle_subscriptions :: "32 word"
  cl_subscriptions :: "string list"
  cl_num_subscriptions :: nat
  cl_messages :: "message list"
  cl_input :: input_buffer
  cl_output :: peak_buffer
  cl_timer :: bool
  cl_expired :: bool

record client_list =
  cls_max_size :: nat
  cls_size :: nat
  cls_list :: "nat list"

record audio_output_info =
  oi_name :: string
  oi_enabled :: bool
  oi_mixer :: bool

record 'e server =
  in_world :: "'e world"
  in_clients :: "nat \<Rightarrow> client option"
  in_client_list :: client_list
  in_next_client_num :: nat
  in_current_command :: "string option"
  in_command_list_num :: nat
  in_outputs :: "audio_output_info list"
  in_output_state_version :: "32 word"
  in_passwords :: "(string \<times> 32 word) list"
  in_permission_default :: "32 word"

datatype CommandResult = CR_OK | CR_IDLE | CR_ERROR | CR_FINISH | CR_CLOSE | CR_KILL

text \<open>What the code takes from its configuration, its libraries and the parts that are not modelled.\<close>

record 'e server_env =
  sv_player :: "'e player_env"
  sv_max_command_list_size :: nat
  sv_max_output_buffer_size :: nat
  sv_huge_memory :: bool
  sv_load_file :: "string \<Rightarrow> song option"
  sv_database :: "(string \<Rightarrow> song option) option"
  sv_visit :: "string \<Rightarrow> song list \<times> (ack \<times> string) option"
  sv_prefixes :: "string list"
  sv_valid_path :: "string \<Rightarrow> bool"
  sv_euid :: int
  sv_stat :: "string \<Rightarrow> string + int \<times> nat"
  sv_volume :: int
  sv_volume_change :: "nat \<Rightarrow> bool"
  sv_updating :: nat
  sv_update_enqueue :: "string \<Rightarrow> bool \<Rightarrow> nat"
  sv_music_directory :: "string option"
  sv_ignore_tag :: "nat \<Rightarrow> bool"
  sv_sticker_enabled :: bool
  sv_strerror :: string
  sv_relative_path :: "string \<Rightarrow> string"
  sv_time_print :: "int \<Rightarrow> string"
  sv_other :: "string \<Rightarrow> nat \<Rightarrow> string list \<Rightarrow> 'e server \<Rightarrow> (CommandResult \<times> 'e server) option"

definition get_client :: "nat \<Rightarrow> 'e server \<Rightarrow> client" where
  "get_client c i = the (in_clients i c)"

definition set_client :: "nat \<Rightarrow> client \<Rightarrow> 'e server \<Rightarrow> 'e server" where
  "set_client c cl i = i\<lparr>in_clients := (in_clients i)(c \<mapsto> cl)\<rparr>"

text \<open>An operation on one client.\<close>

definition on_client :: "nat \<Rightarrow> (client \<Rightarrow> client option) \<Rightarrow> 'e server \<Rightarrow> 'e server option" where
  "on_client c f i = do { cl \<leftarrow> in_clients i c; cl \<leftarrow> f cl; Some (set_client c cl i) }"

section \<open>Sockets and writing\<close>

definition SetExpired :: "client \<Rightarrow> client" where
  "SetExpired cl = (if cl_expired cl then cl else cl\<lparr>cl_expired := True, cl_timer := True\<rparr>)"

definition ScheduleSeconds :: "client \<Rightarrow> client" where
  "ScheduleSeconds cl = cl\<lparr>cl_timer := True\<rparr>"

definition Socket_Write :: "bool \<Rightarrow> string \<Rightarrow> client \<Rightarrow> client option" where
  "Socket_Write memory s cl =
     do { ensure (\<not> cl_expired cl);
          if length s = 0 then Some cl
          else do { (ok, b) \<leftarrow> PeakBuffer_Append memory s (cl_output cl);
                    let cl = cl\<lparr>cl_output := b\<rparr>;
                    Some (if ok then cl else SetExpired cl) } }"

text \<open>What the socket does with bytes: it takes some of them, or none for now, or it fails.\<close>

datatype socket_answer = SocketTakes nat | SocketAgain | SocketFails

text \<open>\<open>Flush\<close> offers the socket the bytes that stand together at the front of the buffer.\<close>

definition Socket_Flush :: "socket_answer \<Rightarrow> client \<Rightarrow> (bool \<times> string \<times> client) option" where
  "Socket_Flush taken cl =
     do { ensure (\<not> cl_expired cl);
          case PeakBuffer_Read (cl_output cl) of
            None \<Rightarrow> Some (True, [], cl)
          | Some p \<Rightarrow>
              (case taken of
                 SocketAgain \<Rightarrow> Some (True, [], cl)
               | SocketFails \<Rightarrow> Some (False, [], SetExpired cl)
               | SocketTakes n \<Rightarrow>
                   do { let n = min n (length p);
                        b \<leftarrow> PeakBuffer_Consume n (cl_output cl);
                        Some (True, take n p, cl\<lparr>cl_output := b\<rparr>) }) }"

definition client_write :: "'e server_env \<Rightarrow> string \<Rightarrow> client \<Rightarrow> client option" where
  "client_write env s cl =
     (if cl_expired cl \<or> length s = 0 then Some cl else Socket_Write (sv_huge_memory env) s cl)"

definition client_puts :: "'e server_env \<Rightarrow> string \<Rightarrow> client \<Rightarrow> client option" where
  "client_puts env s cl = client_write env s cl"

text \<open>Each element is the text of one call.\<close>

fun client_puts_all :: "'e server_env \<Rightarrow> string list \<Rightarrow> client \<Rightarrow> client option" where
  "client_puts_all env [] cl = Some cl"
| "client_puts_all env (s # ss) cl = do { cl \<leftarrow> client_puts env s cl; client_puts_all env ss cl }"

abbreviation nl :: string where
  "nl \<equiv> [CHR 0x0A]"

definition command_success :: "'e server_env \<Rightarrow> client \<Rightarrow> client option" where
  "command_success env cl = client_puts env (''OK'' @ nl) cl"

definition command_error ::
    "'e server_env \<Rightarrow> nat \<Rightarrow> ack \<Rightarrow> string \<Rightarrow> 'e server \<Rightarrow> 'e server option" where
  "command_error env c e msg i =
     do { cmd \<leftarrow> in_current_command i;
          i \<leftarrow> on_client c (client_puts_all env
                 [''ACK ['' @ dec (ack_code e) @ ''@'' @ dec (in_command_list_num i) @ ''] {'' @ cmd @ ''} '',
                  msg, nl]) i;
          Some (i\<lparr>in_current_command := None\<rparr>) }"

section \<open>Command lists\<close>

definition new_CommandListBuilder :: command_list where
  "new_CommandListBuilder = \<lparr>cmd_mode = ModeDisabled, cmd_lines = [], cmd_size = 0\<rparr>"

definition IsActive :: "command_list \<Rightarrow> bool" where
  "IsActive l \<longleftrightarrow> cmd_mode l \<noteq> ModeDisabled"

definition IsOKMode :: "command_list \<Rightarrow> bool option" where
  "IsOKMode l = do { ensure (IsActive l); Some (cmd_mode l = ModeOK) }"

definition CommandList_Reset :: "command_list \<Rightarrow> command_list" where
  "CommandList_Reset l = \<lparr>cmd_mode = ModeDisabled, cmd_lines = [], cmd_size = 0\<rparr>"

definition CommandList_Begin :: "bool \<Rightarrow> command_list \<Rightarrow> command_list option" where
  "CommandList_Begin ok l =
     do { ensure (cmd_lines l = []); ensure (cmd_mode l = ModeDisabled);
          Some (l\<lparr>cmd_mode := if ok then ModeOK else ModeEnabled\<rparr>) }"

definition CommandList_Add :: "nat \<Rightarrow> string \<Rightarrow> command_list \<Rightarrow> bool \<times> command_list" where
  "CommandList_Add max_size cmd l =
     (let l = l\<lparr>cmd_size := cmd_size l + (length cmd + 1)\<rparr>
      in if cmd_size l > max_size then (False, l) else (True, l\<lparr>cmd_lines := cmd_lines l @ [cmd]\<rparr>))"

text \<open>The list is moved out; what \<open>std::move\<close> leaves is empty.\<close>

definition CommandList_Commit :: "command_list \<Rightarrow> (string list \<times> command_list) option" where
  "CommandList_Commit l = do { ensure (IsActive l); Some (cmd_lines l, l\<lparr>cmd_lines := []\<rparr>) }"

section \<open>Idle\<close>

definition IDLE_OUTPUTS :: "32 word" where "IDLE_OUTPUTS = 0x20"
definition IDLE_SUBSCRIPTION :: "32 word" where "IDLE_SUBSCRIPTION = 0x200"
definition IDLE_MESSAGE :: "32 word" where "IDLE_MESSAGE = 0x400"

definition idle_names :: "string list" where
  "idle_names = [''database'', ''stored_playlist'', ''playlist'', ''player'', ''mixer'', ''output'', ''options'',
     ''sticker'', ''update'', ''subscription'', ''message'']"

definition IdleNotify :: "'e server_env \<Rightarrow> client \<Rightarrow> client option" where
  "IdleNotify env cl =
     do { ensure (cl_idle_waiting cl); ensure (cl_idle_flags cl \<noteq> 0);
          let flags = cl_idle_flags cl;
          let cl = cl\<lparr>cl_idle_flags := 0, cl_idle_waiting := False\<rparr>;
          cl \<leftarrow> client_puts_all env
            (map (\<lambda>j. ''changed: '' @ idle_names ! j @ nl)
               (filter (\<lambda>j. and (and flags (push_bit j 1)) (cl_idle_subscriptions cl) \<noteq> 0) [0..<length idle_names])) cl;
          cl \<leftarrow> client_puts env (''OK'' @ nl) cl;
          Some (ScheduleSeconds cl) }"

definition IdleAdd :: "'e server_env \<Rightarrow> 32 word \<Rightarrow> client \<Rightarrow> client option" where
  "IdleAdd env flags cl =
     (if cl_expired cl then Some cl
      else let cl = cl\<lparr>cl_idle_flags := or (cl_idle_flags cl) flags\<rparr>
           in if cl_idle_waiting cl \<and> and (cl_idle_flags cl) (cl_idle_subscriptions cl) \<noteq> 0
              then IdleNotify env cl else Some cl)"

definition IdleWait :: "'e server_env \<Rightarrow> 32 word \<Rightarrow> client \<Rightarrow> client option" where
  "IdleWait env flags cl =
     do { ensure (\<not> cl_idle_waiting cl);
          let cl = cl\<lparr>cl_idle_waiting := True, cl_idle_subscriptions := flags\<rparr>;
          if and (cl_idle_flags cl) (cl_idle_subscriptions cl) \<noteq> 0 then IdleNotify env cl
          else Some (cl\<lparr>cl_timer := False\<rparr>) }"

text \<open>\<open>idle_add\<close> of the main thread, here on the flags that the world shares with the player thread.\<close>

definition emit_idle :: "32 word \<Rightarrow> 'e server \<Rightarrow> 'e server" where
  "emit_idle flags i = i\<lparr>in_world := (in_world i)\<lparr>w_idle := idle_add flags (w_idle (in_world i))\<rparr>\<rparr>"

section \<open>Channels\<close>

definition CLIENT_MAX_SUBSCRIPTIONS :: nat where "CLIENT_MAX_SUBSCRIPTIONS = 16"
definition CLIENT_MAX_MESSAGES :: nat where "CLIENT_MAX_MESSAGES = 64"

definition valid_channel_char :: "char \<Rightarrow> bool" where
  "valid_channel_char ch \<longleftrightarrow> IsAlphaNumericASCII ch \<or> ch = CHR ''_'' \<or> ch = CHR ''-'' \<or> ch = CHR ''.'' \<or> ch = CHR '':''"

text \<open>The loop tests a character before it looks for the end: of an empty string, the NUL.\<close>

fun client_message_valid_channel_name :: "string \<Rightarrow> bool" where
  "client_message_valid_channel_name [] = valid_channel_char NUL"
| "client_message_valid_channel_name [c] = valid_channel_char c"
| "client_message_valid_channel_name (c # d # s) =
     (valid_channel_char c \<and> client_message_valid_channel_name (d # s))"

datatype SubscribeResult = SubOK | SubINVALID | SubALREADY | SubFULL

definition IsSubscribed :: "string \<Rightarrow> client \<Rightarrow> bool" where
  "IsSubscribed channel cl \<longleftrightarrow> channel \<in> set (cl_subscriptions cl)"

definition Subscribe :: "nat \<Rightarrow> string \<Rightarrow> 'e server \<Rightarrow> SubscribeResult \<times> 'e server" where
  "Subscribe c channel i =
     (let cl = get_client c i
      in if \<not> client_message_valid_channel_name channel then (SubINVALID, i)
         else if cl_num_subscriptions cl \<ge> CLIENT_MAX_SUBSCRIPTIONS then (SubFULL, i)
         else if channel \<in> set (cl_subscriptions cl) then (SubALREADY, i)
         else (SubOK, emit_idle IDLE_SUBSCRIPTION (set_client c
                 (cl\<lparr>cl_subscriptions := channel # cl_subscriptions cl,
                     cl_num_subscriptions := cl_num_subscriptions cl + 1\<rparr>) i)))"

definition Unsubscribe :: "nat \<Rightarrow> string \<Rightarrow> 'e server \<Rightarrow> (bool \<times> 'e server) option" where
  "Unsubscribe c channel i =
     (let cl = get_client c i
      in if channel \<notin> set (cl_subscriptions cl) then Some (False, i)
         else do {
           ensure (cl_num_subscriptions cl > 0);
           let cl = cl\<lparr>cl_subscriptions := remove1 channel (cl_subscriptions cl),
                       cl_num_subscriptions := cl_num_subscriptions cl - 1\<rparr>;
           ensure ((cl_num_subscriptions cl = 0) = (cl_subscriptions cl = []));
           Some (True, emit_idle IDLE_SUBSCRIPTION (set_client c cl i)) })"

definition UnsubscribeAll :: "client \<Rightarrow> client" where
  "UnsubscribeAll cl = cl\<lparr>cl_subscriptions := [], cl_num_subscriptions := 0\<rparr>"

definition PushMessage :: "'e server_env \<Rightarrow> message \<Rightarrow> client \<Rightarrow> (bool \<times> client) option" where
  "PushMessage env msg cl =
     (if length (cl_messages cl) \<ge> CLIENT_MAX_MESSAGES \<or> \<not> IsSubscribed (fst msg) cl then Some (False, cl)
      else do {
        cl \<leftarrow> (if cl_messages cl = [] then IdleAdd env IDLE_MESSAGE cl else Some cl);
        Some (True, cl\<lparr>cl_messages := cl_messages cl @ [msg]\<rparr>) })"

section \<open>The list of clients\<close>

definition ClientList_IsFull :: "client_list \<Rightarrow> bool" where
  "ClientList_IsFull l \<longleftrightarrow> cls_size l \<ge> cls_max_size l"

definition ClientList_Add :: "nat \<Rightarrow> client_list \<Rightarrow> client_list" where
  "ClientList_Add c l = l\<lparr>cls_list := c # cls_list l, cls_size := cls_size l + 1\<rparr>"

definition ClientList_Remove :: "nat \<Rightarrow> client_list \<Rightarrow> client_list option" where
  "ClientList_Remove c l =
     do { ensure (cls_size l > 0); ensure (cls_list l \<noteq> []); ensure (c \<in> set (cls_list l));
          Some (l\<lparr>cls_list := remove1 c (cls_list l), cls_size := cls_size l - 1\<rparr>) }"

text \<open>An operation on every client in the list, in its order.\<close>

fun for_clients :: "(client \<Rightarrow> client option) \<Rightarrow> nat list \<Rightarrow> 'e server \<Rightarrow> 'e server option" where
  "for_clients f [] i = Some i"
| "for_clients f (c # cs) i = do { i \<leftarrow> on_client c f i; for_clients f cs i }"

definition ClientList_IdleAdd :: "'e server_env \<Rightarrow> 32 word \<Rightarrow> 'e server \<Rightarrow> 'e server option" where
  "ClientList_IdleAdd env flags i =
     do { ensure (flags \<noteq> 0); for_clients (IdleAdd env flags) (cls_list (in_client_list i)) i }"

definition Client_Close :: "nat \<Rightarrow> 'e server \<Rightarrow> 'e server option" where
  "Client_Close c i =
     do { l \<leftarrow> ClientList_Remove c (in_client_list i);
          Some (i\<lparr>in_client_list := l, in_clients := (in_clients i)(c := None)\<rparr>) }"

text \<open>\<open>CloseAll\<close>, with the length of the list as fuel: every round takes out a client.\<close>

fun CloseAll_loop :: "nat \<Rightarrow> 'e server \<Rightarrow> 'e server option" where
  "CloseAll_loop k i =
     (case cls_list (in_client_list i) of
        [] \<Rightarrow> do { ensure (cls_size (in_client_list i) = 0); Some i }
      | c # _ \<Rightarrow> (case k of 0 \<Rightarrow> None | Suc k \<Rightarrow> do { i \<leftarrow> Client_Close c i; CloseAll_loop k i }))"

declare CloseAll_loop.simps [simp del]

definition CloseAll :: "'e server \<Rightarrow> 'e server option" where
  "CloseAll i = CloseAll_loop (length (cls_list (in_client_list i))) i"

definition new_Client :: "'e server_env \<Rightarrow> int \<Rightarrow> 'e server \<Rightarrow> client" where
  "new_Client env uid i =
     \<lparr>cl_permission = in_permission_default i, cl_uid = uid, cl_cmd_list = new_CommandListBuilder,
      cl_idle_waiting = False, cl_idle_flags = 0, cl_idle_subscriptions = 0, cl_subscriptions = [],
      cl_num_subscriptions = 0, cl_messages = [], cl_input = new_FifoBuffer,
      cl_output = new_PeakBuffer 16384 (sv_max_output_buffer_size env), cl_timer = True, cl_expired = False\<rparr>"

definition client_new :: "'e server_env \<Rightarrow> int \<Rightarrow> 'e server \<Rightarrow> 'e server" where
  "client_new env uid i =
     (if ClientList_IsFull (in_client_list i) then i
      else let c = in_next_client_num i
           in i\<lparr>in_clients := (in_clients i)(c \<mapsto> new_Client env uid i), in_next_client_num := c + 1,
                in_client_list := ClientList_Add c (in_client_list i)\<rparr>)"

definition OnTimeout :: "nat \<Rightarrow> 'e server \<Rightarrow> 'e server option" where
  "OnTimeout c i =
     do { let cl = get_client c i; ensure (cl_expired cl \<or> \<not> cl_idle_waiting cl); Client_Close c i }"

text \<open>The handler of the event that \<open>idle_add\<close> emits (src/src/Main.cxx).\<close>

definition idle_event_emitted :: "'e server_env \<Rightarrow> 'e server \<Rightarrow> 'e server option" where
  "idle_event_emitted env i =
     (let (flags, idle) = idle_get (w_idle (in_world i));
          i = i\<lparr>in_world := (in_world i)\<lparr>w_idle := idle\<rparr>\<rparr>
      in if flags \<noteq> 0 then ClientList_IdleAdd env flags i else Some i)"

section \<open>Permissions\<close>

definition PERMISSION_NONE :: "32 word" where "PERMISSION_NONE = 0"
definition PERMISSION_READ :: "32 word" where "PERMISSION_READ = 1"
definition PERMISSION_ADD :: "32 word" where "PERMISSION_ADD = 2"
definition PERMISSION_CONTROL :: "32 word" where "PERMISSION_CONTROL = 4"
definition PERMISSION_ADMIN :: "32 word" where "PERMISSION_ADMIN = 8"

definition permission_names :: "(string \<times> 32 word) list" where
  "permission_names = [(''read'', PERMISSION_READ), (''add'', PERMISSION_ADD), (''control'', PERMISSION_CONTROL),
     (''admin'', PERMISSION_ADMIN)]"

definition ParsePermission :: "string \<Rightarrow> 32 word option" where
  "ParsePermission p = map_of permission_names p"

function parsePermissions_from :: "32 word \<Rightarrow> string \<Rightarrow> 32 word option" where
  "parsePermissions_from permission s =
     (let name = takeWhile (\<lambda>c. c \<noteq> CHR '','') s; rest = dropWhile (\<lambda>c. c \<noteq> CHR '','') s
      in do {
        permission \<leftarrow> (if name \<noteq> [] then map_option (or permission) (ParsePermission name) else Some permission);
        if rest = [] then Some permission else parsePermissions_from permission (tl rest) })"
  by auto
termination
proof (relation "measure (\<lambda>(p, s). length s)")
  fix permission :: "32 word" and s x xa and xb :: "32 word"
  assume x: "xa = dropWhile (\<lambda>c. c \<noteq> CHR '','') s" "xa \<noteq> []"
  have "length xa \<le> length s" unfolding x(1) by (rule length_dropWhile_le)
  then show "((xb, tl xa), (permission, s)) \<in> measure (\<lambda>(p, s). length s)"
    using x(2) by (cases xa) auto
qed simp

declare parsePermissions_from.simps [simp del]

definition parsePermissions :: "string \<Rightarrow> 32 word option" where
  "parsePermissions s = parsePermissions_from 0 s"

text \<open>\<open>std::map::insert\<close> keeps an entry that is there already.\<close>

fun init_passwords :: "string list \<Rightarrow> (string \<times> 32 word) list \<Rightarrow> (string \<times> 32 word) list option" where
  "init_passwords [] passwords = Some passwords"
| "init_passwords (value # values) passwords =
     do { ensure (CHR ''@'' \<in> set value);
          let password = takeWhile (\<lambda>c. c \<noteq> CHR ''@'') value;
          permission \<leftarrow> parsePermissions (tl (dropWhile (\<lambda>c. c \<noteq> CHR ''@'') value));
          init_passwords values
            (if map_of passwords password = None then (password, permission) # passwords else passwords) }"

definition initPermissions :: "string list \<Rightarrow> string option \<Rightarrow> 'e server \<Rightarrow> 'e server option" where
  "initPermissions passwords default_permissions i =
     do { p \<leftarrow> init_passwords passwords (in_passwords i);
          let d = (if passwords = [] then or (or (or PERMISSION_READ PERMISSION_ADD) PERMISSION_CONTROL) PERMISSION_ADMIN else 0);
          d \<leftarrow> (case default_permissions of None \<Rightarrow> Some d | Some s \<Rightarrow> parsePermissions s);
          Some (i\<lparr>in_passwords := p, in_permission_default := d\<rparr>) }"

definition getPermissionFromPassword :: "string \<Rightarrow> 'e server \<Rightarrow> 32 word option" where
  "getPermissionFromPassword password i = map_of (in_passwords i) password"

end
