(* ===== verification/Uri_Util.thy ===== *)
theory Uri_Util
  imports Player_Control
begin

text \<open>
  URIs (src/src/util/UriUtil.cxx): suffixes, the check that a URI is a safe path below the music
  directory, passwords in URIs.  A URI is the list of its characters without the final NUL; a read
  behind the NUL is None.
\<close>

definition slash :: char where "slash = CHR ''/''"
definition dot :: char where "dot = CHR ''.''"

text \<open>\<open>strrchr(uri, '.')\<close> splits the URI; \<open>before\<close> is in front of the last dot.\<close>

definition uri_get_suffix :: "string \<Rightarrow> string option" where
  "uri_get_suffix uri =
     (if dot \<notin> set uri then None
      else let suffix = rev (takeWhile (\<lambda>c. c \<noteq> dot) (rev uri));
               before = take (length uri - length suffix - 1) uri
           in if before = [] \<or> last before = slash \<or> last before = CHR 0x5C then None
              else if slash \<in> set suffix \<or> CHR 0x5C \<in> set suffix then None
              else Some suffix)"

text \<open>The variant that cuts a query off; the buffer has eight bytes.\<close>

definition uri_get_suffix_buffer :: "string \<Rightarrow> string option" where
  "uri_get_suffix_buffer uri =
     map_option (\<lambda>suffix.
       let q = takeWhile (\<lambda>c. c \<noteq> CHR ''?'') suffix
       in if CHR ''?'' \<in> set suffix \<and> length q < 8 then q else suffix) (uri_get_suffix uri)"

definition verify_uri_segment :: "string \<Rightarrow> string option option" where
  "verify_uri_segment p =
     (let dots = length (takeWhile (\<lambda>c. c = dot) p); p = dropWhile (\<lambda>c. c = dot) p
      in if dots \<le> 2 \<and> (p = [] \<or> hd p = slash) then Some None
         else if p = [] then None
         else Some (Some (dropWhile (\<lambda>c. c \<noteq> slash) (tl p))))"

lemma verify_uri_segment_shorter:
  "verify_uri_segment p = Some (Some r) \<Longrightarrow> length r < length p"
proof -
  assume v: "verify_uri_segment p = Some (Some r)"
  let ?p = "dropWhile (\<lambda>c. c = dot) p"
  have ne: "?p \<noteq> []" and r: "r = dropWhile (\<lambda>c. c \<noteq> slash) (tl ?p)"
    using v by (auto simp: verify_uri_segment_def Let_def split: if_splits)
  have "length r \<le> length (tl ?p)" unfolding r by (rule length_dropWhile_le)
  also have "\<dots> < length ?p" using ne by simp
  also have "\<dots> \<le> length p" by (rule length_dropWhile_le)
  finally show ?thesis .
qed

function uri_safe_local :: "string \<Rightarrow> bool option" where
  "uri_safe_local uri =
     (case verify_uri_segment uri of
        None \<Rightarrow> None
      | Some None \<Rightarrow> Some False
      | Some (Some uri) \<Rightarrow>
          if uri = [] then Some True
          else if hd uri \<noteq> slash then None
          else uri_safe_local (tl uri))"
  by auto
termination
  by (relation "measure length") (auto dest: verify_uri_segment_shorter)

declare uri_safe_local.simps [simp del]

text \<open>The URI without user name and password; empty if there are none.\<close>

definition uri_remove_auth :: "string \<Rightarrow> string" where
  "uri_remove_auth uri =
     (let n = (if take 7 uri = ''http://'' then 7 else if take 8 uri = ''https://'' then 8 else 0)
      in if n = 0 then []
         else let auth = takeWhile (\<lambda>c. c \<noteq> slash) (drop n uri)
              in if CHR ''@'' \<notin> set auth then []
                 else take n uri @ drop (n + length (takeWhile (\<lambda>c. c \<noteq> CHR ''@'') auth) + 1) uri)"

text \<open>The character behind the end of \<open>child\<close> is its NUL.\<close>

definition uri_is_child :: "string \<Rightarrow> string \<Rightarrow> bool" where
  "uri_is_child parent child \<longleftrightarrow>
     take (length parent) child = parent \<and> length parent < length child \<and> child ! length parent = slash"

definition uri_is_child_or_same :: "string \<Rightarrow> string \<Rightarrow> bool" where
  "uri_is_child_or_same parent child \<longleftrightarrow> parent = child \<or> uri_is_child parent child"

section \<open>Safe paths\<close>

fun segments :: "string \<Rightarrow> string list" where
  "segments [] = [[]]"
| "segments (c # s) = (if c = slash then [] # segments s else (c # hd (segments s)) # tl (segments s))"

lemma segments_ne [simp]: "segments s \<noteq> []"
  by (cases s) auto

definition bad_segment :: "string \<Rightarrow> bool" where
  "bad_segment g \<longleftrightarrow> g = [] \<or> g = ''.'' \<or> g = ''..''"

lemma segments_split:
  "segments s = takeWhile (\<lambda>c. c \<noteq> slash) s #
     (case dropWhile (\<lambda>c. c \<noteq> slash) s of [] \<Rightarrow> [] | _ # r \<Rightarrow> segments r)"
  by (induction s) auto

lemma slash_dot [simp]: "slash \<noteq> dot" "dot \<noteq> slash"
  by (simp_all add: slash_def dot_def)

lemma while_dots:
  "c \<noteq> dot \<Longrightarrow> takeWhile (\<lambda>c. c = dot) (replicate n dot @ c # r) = replicate n dot"
  "c \<noteq> dot \<Longrightarrow> dropWhile (\<lambda>c. c = dot) (replicate n dot @ c # r) = c # r"
  by (induction n) auto

text \<open>The first segment, when it does not begin with three dots.\<close>

lemma verify_first:
  assumes "take 3 (takeWhile (\<lambda>c. c \<noteq> slash) s) \<noteq> ''...''"
  shows "verify_uri_segment s =
    (if bad_segment (takeWhile (\<lambda>c. c \<noteq> slash) s) then Some None else Some (Some (dropWhile (\<lambda>c. c \<noteq> slash) s)))"
proof -
  have rest: "?thesis" if "s = replicate n dot @ c # r" "c \<noteq> dot" "n \<le> 2" for n c r
  proof -
    have tw: "takeWhile (\<lambda>c. c = dot) s = replicate n dot" "dropWhile (\<lambda>c. c = dot) s = c # r"
      unfolding that(1) by (rule while_dots[OF that(2)])+
    have b: "bad_segment (takeWhile (\<lambda>c. c \<noteq> slash) s) \<longleftrightarrow> c = slash"
      using that(2,3) unfolding that(1)
      by (cases "c = slash"; cases n rule: nat.exhaust; auto simp: bad_segment_def dot_def slash_dot[unfolded dot_def] numeral_2_eq_2 le_Suc_eq takeWhile_append2)
    have d: "dropWhile (\<lambda>c. c \<noteq> slash) s = dropWhile (\<lambda>c. c \<noteq> slash) (c # r)"
      unfolding that(1) by (induction n) simp_all
    show ?thesis using tw b d that(3) by (simp add: verify_uri_segment_def Let_def)
  qed
  have all: "?thesis" if "s = replicate n dot" "n \<le> 2" for n
    using that by (auto simp: verify_uri_segment_def bad_segment_def Let_def dot_def le_Suc_eq numeral_2_eq_2)
  let ?n = "length (takeWhile (\<lambda>c. c = dot) s)"
  have t: "takeWhile (\<lambda>c. c = dot) s = replicate ?n dot"
    by (rule replicate_eqI) (auto dest: set_takeWhileD)
  have s: "s = replicate ?n dot @ dropWhile (\<lambda>c. c = dot) s" by (metis t takeWhile_dropWhile_id)
  have n: "?n \<le> 2"
  proof (rule ccontr)
    assume "\<not> ?n \<le> 2"
    then obtain m where m: "?n = Suc (Suc (Suc m))" by (metis Suc_le_D not_less_eq_eq numeral_2_eq_2)
    obtain r where r: "s = dot # dot # dot # r" using s unfolding m by simp
    show False using assms unfolding r by (simp add: dot_def slash_def numeral_3_eq_3)
  qed
  show ?thesis
  proof (cases "dropWhile (\<lambda>c. c = dot) s")
    case Nil
    have "s = replicate ?n dot" using s[unfolded Nil append_Nil2] .
    then show ?thesis by (rule all[OF _ n])
  next
    case (Cons c r)
    have "c \<noteq> dot" using hd_dropWhile[of "\<lambda>c. c = dot" s] Cons by auto
    then show ?thesis by (rule rest[OF s[unfolded Cons] _ n])
  qed
qed

lemma uri_safe_local_spec:
  assumes "list_all (\<lambda>g. take 3 g \<noteq> ''...'') (segments s)"
  shows "uri_safe_local s = Some (list_all (\<lambda>g. \<not> bad_segment g) (segments s))"
  using assms
proof (induction s rule: length_induct)
  case (1 s)
  let ?f = "takeWhile (\<lambda>c. c \<noteq> slash) s" and ?r = "dropWhile (\<lambda>c. c \<noteq> slash) s"
  have f: "take 3 ?f \<noteq> ''...''" using 1(2) by (simp add: segments_split[of s])
  show ?case
  proof (cases ?r)
    case Nil
    then show ?thesis using verify_first[OF f] by (simp add: uri_safe_local.simps[of s] segments_split[of s] del: dropWhile_eq_Nil_conv)
  next
    case (Cons c r)
    have c: "c = slash" using hd_dropWhile[of "\<lambda>c. c \<noteq> slash" s] Cons by auto
    have "length ?r \<le> length s" by (rule length_dropWhile_le)
    then have "length r < length s" using Cons by simp
    moreover have "list_all (\<lambda>g. take 3 g \<noteq> ''...'') (segments r)" using 1(2) Cons by (simp add: segments_split[of s])
    ultimately have "uri_safe_local r = Some (list_all (\<lambda>g. \<not> bad_segment g) (segments r))" using 1(1) by blast
    then show ?thesis using verify_first[OF f] Cons c by (simp add: uri_safe_local.simps[of s] segments_split[of s])
  qed
qed

text \<open>A segment of three dots hides the next one, and at the end of the URI it is read past.\<close>

lemma dots_hide:
  assumes "slash \<notin> set g"
  shows "uri_safe_local (''.../'' @ g) = Some True" "uri_safe_local ''...'' = None"
proof -
  have "dropWhile (\<lambda>c. c \<noteq> slash) g = []" using assms by (auto simp: dropWhile_eq_Nil_conv)
  then have "verify_uri_segment (''.../'' @ g) = Some (Some [])"
    by (simp add: verify_uri_segment_def Let_def slash_def dot_def del: dropWhile_eq_Nil_conv)
  then show "uri_safe_local (''.../'' @ g) = Some True"
    by (subst uri_safe_local.simps) simp
  show "uri_safe_local ''...'' = None"
    by (simp add: uri_safe_local.simps[of "''...''"] verify_uri_segment_def dot_def)
qed

end
