(* ===== verification/Client_Print.thy ===== *)
theory Client_Print
  imports Client_Model Uri_Util Playlist_Ops
begin

text \<open>
  What the daemon prints about songs, the queue and the outputs (src/src/SongPrint.cxx, TagPrint.cxx,
  QueuePrint.cxx, PlaylistPrint.cxx, OutputPrint.cxx, and the printing in AudioFormat.cxx).  A function
  returns the texts of its calls of \<open>client_printf\<close> in order; None is a failed assertion.  The part of a
  path below the music directory and the line for a time stamp are parameters.
\<close>

section \<open>Numbers\<close>

text \<open>\<open>%03u\<close>, and \<open>%.nf\<close> of a number that is exact: rounded to the nearest, ties to even.\<close>

definition dec3 :: "nat \<Rightarrow> string" where
  "dec3 n = replicate (3 - length (dec n)) (CHR ''0'') @ dec n"

definition round_even :: "real \<Rightarrow> nat" where
  "round_even x =
     (let k = nat \<lfloor>x\<rfloor>; f = x - real k
      in if f > 1 / 2 \<or> f = 1 / 2 \<and> odd k then k + 1 else k)"

definition fixed :: "nat \<Rightarrow> real \<Rightarrow> string" where
  "fixed n r =
     (let k = round_even (\<bar>r\<bar> * 10 ^ n); frac = dec (k mod 10 ^ n)
      in (if r < 0 then ''-'' else []) @ dec (k div 10 ^ n) @ ''.'' @ replicate (n - length frac) (CHR ''0'') @ frac)"

section \<open>Songs\<close>

definition tag_item_names :: "string list" where
  "tag_item_names = [''Artist'', ''ArtistSort'', ''Album'', ''AlbumArtist'', ''AlbumArtistSort'', ''Title'', ''Track'',
     ''Name'', ''Genre'', ''Date'', ''Composer'', ''Performer'', ''Comment'', ''Disc'', ''MUSICBRAINZ_ARTISTID'',
     ''MUSICBRAINZ_ALBUMID'', ''MUSICBRAINZ_ALBUMARTISTID'', ''MUSICBRAINZ_TRACKID'']"

definition TAG_NUM_OF_ITEM_TYPES :: nat where
  "TAG_NUM_OF_ITEM_TYPES = 18"

definition tag_print_types :: "'e server_env \<Rightarrow> string list" where
  "tag_print_types env =
     map (\<lambda>j. ''tagtype: '' @ tag_item_names ! j @ nl)
       (filter (\<lambda>j. \<not> sv_ignore_tag env j) [0..<TAG_NUM_OF_ITEM_TYPES])"

definition tag_print :: "tag \<Rightarrow> string list" where
  "tag_print t =
     (if tag_time t \<ge> 0 then [''Time: '' @ dec_int (tag_time t) @ nl] else []) @
     map (\<lambda>(type, value). tag_item_names ! type @ '': '' @ value @ nl) (tag_items t)"

definition song_print_uri :: "'e server_env \<Rightarrow> song \<Rightarrow> string" where
  "song_print_uri env s =
     (case song_parent s of
        Some d \<Rightarrow>
          if \<not> directory_IsRoot d then ''file: '' @ directory_path d @ ''/'' @ song_uri s @ nl
          else let a = uri_remove_auth (song_uri s)
               in ''file: '' @ sv_relative_path env (if a \<noteq> [] then a else song_uri s) @ nl
      | None \<Rightarrow>
          let a = uri_remove_auth (song_uri s)
          in ''file: '' @ sv_relative_path env (if a \<noteq> [] then a else song_uri s) @ nl)"

definition song_print_range :: "song \<Rightarrow> string list" where
  "song_print_range s =
     (let a = unat (song_start_ms s); b = unat (song_end_ms s)
      in if b > 0 then [''Range: '' @ dec (a div 1000) @ ''.'' @ dec3 (a mod 1000) @ ''-'' @
                         dec (b div 1000) @ ''.'' @ dec3 (b mod 1000) @ nl]
         else if a > 0 then [''Range: '' @ dec (a div 1000) @ ''.'' @ dec3 (a mod 1000) @ ''-'' @ nl]
         else [])"

definition song_print_info :: "'e server_env \<Rightarrow> song \<Rightarrow> string list" where
  "song_print_info env s =
     [song_print_uri env s] @ song_print_range s @
     (if song_mtime s > 0 then [sv_time_print env (song_mtime s)] else []) @
     (case song_tag s of None \<Rightarrow> [] | Some t \<Rightarrow> tag_print t)"

section \<open>The queue\<close>

definition queue_print_song_info :: "'e server_env \<Rightarrow> queue \<Rightarrow> nat \<Rightarrow> string list" where
  "queue_print_song_info env q position =
     song_print_info env (Get q position) @
     [''Pos: '' @ dec position @ nl @ ''Id: '' @ dec (PositionToId q position) @ nl] @
     (if GetPriorityAtPosition q position \<noteq> 0
      then [''Prio: '' @ dec (unat (GetPriorityAtPosition q position)) @ nl] else [])"

definition queue_print_info :: "'e server_env \<Rightarrow> queue \<Rightarrow> nat \<Rightarrow> nat \<Rightarrow> string list option" where
  "queue_print_info env q start fin =
     do { ensure (start \<le> fin); ensure (fin \<le> q_length q);
          Some (concat (map (queue_print_song_info env q) [start..<fin])) }"

definition queue_print_uris :: "'e server_env \<Rightarrow> queue \<Rightarrow> nat \<Rightarrow> nat \<Rightarrow> string list option" where
  "queue_print_uris env q start fin =
     do { ensure (start \<le> fin); ensure (fin \<le> q_length q);
          Some (concat (map (\<lambda>j. [dec j @ '':'', song_print_uri env (Get q j)]) [start..<fin])) }"

definition queue_print_changes_info :: "'e server_env \<Rightarrow> queue \<Rightarrow> 32 word \<Rightarrow> string list" where
  "queue_print_changes_info env q v =
     concat (map (\<lambda>j. if IsNewerAtPosition q j v then queue_print_song_info env q j else []) [0..<q_length q])"

definition queue_print_changes_position :: "queue \<Rightarrow> 32 word \<Rightarrow> string list" where
  "queue_print_changes_position q v =
     concat (map (\<lambda>j. if IsNewerAtPosition q j v
                      then [''cpos: '' @ dec j @ nl @ ''Id: '' @ dec (PositionToId q j) @ nl] else []) [0..<q_length q])"

definition playlist_print_uris :: "'e server_env \<Rightarrow> 'e world \<Rightarrow> string list option" where
  "playlist_print_uris env w = queue_print_uris env (w_queue w) 0 (q_length (w_queue w))"

text \<open>Some None is the result \<open>false\<close>.\<close>

definition playlist_print_info :: "'e server_env \<Rightarrow> 'e world \<Rightarrow> nat \<Rightarrow> nat \<Rightarrow> string list option option" where
  "playlist_print_info env w start fin =
     (let n = q_length (w_queue w); fin = (if fin > n then n else fin)
      in if start > fin then Some None else map_option Some (queue_print_info env (w_queue w) start fin))"

definition playlist_print_id :: "'e server_env \<Rightarrow> 'e world \<Rightarrow> nat \<Rightarrow> string list option option" where
  "playlist_print_id env w song_id =
     (let position = IdToPosition (w_queue w) song_id
      in if position < 0 then Some None
         else playlist_print_info env w (nat position) (nat position + 1))"

definition playlist_print_current :: "'e server_env \<Rightarrow> 'e world \<Rightarrow> string list option" where
  "playlist_print_current env w =
     do { position \<leftarrow> GetCurrentPosition w;
          if position < 0 then Some []
          else queue_print_info env (w_queue w) (nat position) (nat position + 1) }"

section \<open>Formats and outputs\<close>

definition audio_format_to_string :: "AudioFormat \<Rightarrow> string" where
  "audio_format_to_string a =
     dec (unat (af_sample_rate a)) @ '':'' @ sample_format_to_string (af_format a) @ '':'' @ dec (unat (af_channels a))"

definition printAudioDevices :: "audio_output_info list \<Rightarrow> string list" where
  "printAudioDevices outs =
     map (\<lambda>(j, o1). ''outputid: '' @ dec j @ nl @ ''outputname: '' @ oi_name o1 @ nl @ ''outputenabled: '' @
            (if oi_enabled o1 then ''1'' else ''0'') @ nl) (enumerate 0 outs)"

definition print_supported_uri_schemes :: "'e server_env \<Rightarrow> string list" where
  "print_supported_uri_schemes env = map (\<lambda>p. ''handler: '' @ p @ nl) (sv_prefixes env)"

definition uri_supported_scheme :: "'e server_env \<Rightarrow> string \<Rightarrow> bool" where
  "uri_supported_scheme env uri \<longleftrightarrow> list_ex (\<lambda>p. take (length p) uri = p) (sv_prefixes env)"

section \<open>Status\<close>

definition bit_dec :: "bool \<Rightarrow> string" where
  "bit_dec b = (if b then ''1'' else ''0'')"

fun state_name :: "PlayerState \<Rightarrow> string" where
  "state_name PS_STOP = ''stop''"
| "state_name PS_PAUSE = ''pause''"
| "state_name PS_PLAY = ''play''"

text \<open>The texts of \<open>handle_status\<close>, for the status, the cross-fade settings and the error of the player.\<close>

definition status_texts ::
    "'e server_env \<Rightarrow> player_status \<Rightarrow> cross_fade_settings \<Rightarrow> string option \<Rightarrow> 'e world \<Rightarrow> string list option" where
  "status_texts env st cf err w =
     do {
       let q = w_queue w;
       current \<leftarrow> GetCurrentPosition w;
       next_song \<leftarrow> GetNextPosition w;
       Some (
         [''volume: '' @ dec_int (sv_volume env) @ nl @
          ''repeat: '' @ bit_dec (q_repeat q) @ nl @
          ''random: '' @ bit_dec (q_random q) @ nl @
          ''single: '' @ bit_dec (q_single q) @ nl @
          ''consume: '' @ bit_dec (q_consume q) @ nl @
          ''playlist: '' @ dec (unat (q_version q)) @ nl @
          ''playlistlength: '' @ dec (q_length q) @ nl @
          ''mixrampdb: '' @ fixed 6 (cf_mixramp_db cf) @ nl @
          ''state: '' @ state_name (st_state st) @ nl] @
         (if cf_duration cf > 0 then [''xfade: '' @ dec_int (trunc (cf_duration cf + 1 / 2)) @ nl] else []) @
         (if cf_mixramp_delay cf > 0 then [''mixrampdelay: '' @ fixed 6 (cf_mixramp_delay cf) @ nl] else []) @
         (if current \<ge> 0
          then [''song: '' @ dec_int current @ nl @ ''songid: '' @ dec (PositionToId q (nat current)) @ nl] else []) @
         (if st_state st \<noteq> PS_STOP
          then [''time: '' @ dec_int (trunc (st_elapsed_time st + 1 / 2)) @ '':'' @
                  dec_int (trunc (st_total_time st + 1 / 2)) @ nl @
                ''elapsed: '' @ fixed 3 (st_elapsed_time st) @ nl @
                ''bitrate: '' @ dec (unat (st_bit_rate st)) @ nl] @
               (if IsDefined (st_audio_format st)
                then [''audio: '' @ audio_format_to_string (st_audio_format st) @ nl] else [])
          else []) @
         (if sv_updating env \<noteq> 0 then [''updating_db: '' @ dec (sv_updating env) @ nl] else []) @
         (case err of None \<Rightarrow> [] | Some e \<Rightarrow> [''error: '' @ e @ nl]) @
         (if next_song \<ge> 0
          then [''nextsong: '' @ dec_int next_song @ nl @ ''nextsongid: '' @ dec (PositionToId q (nat next_song)) @ nl]
          else [])) }"

end
