(* ===== verification/Client_Handlers.thy ===== *)
theory Client_Handlers
  imports Client_Print
begin

text \<open>
  The command handlers of src/src/command (QueueCommands.cxx, PlayerCommands.cxx, OutputCommands.cxx,
  OtherCommands.cxx, MessageCommands.cxx, CommandError.cxx), with ClientFile.cxx, DatabaseQueue.cxx and
  OutputCommand.cxx.  A handler gets the number of its client and the words of the line, of which the
  first is the command, and returns the result and the state it leaves.  None is a failed assertion, in
  the handler or in what it calls, or the use of an argument that is not there (a null pointer).
\<close>

type_synonym 'e handler =
  "'e server_env \<Rightarrow> nat \<Rightarrow> string list \<Rightarrow> 'e server \<Rightarrow> (CommandResult \<times> 'e server) option"

section \<open>Arguments, answers and errors\<close>

definition arg :: "string list \<Rightarrow> nat \<Rightarrow> string option" where
  "arg argv n = (if n < length argv then Some (argv ! n) else None)"

definition tell :: "'e server_env \<Rightarrow> nat \<Rightarrow> string list \<Rightarrow> 'e server \<Rightarrow> 'e server option" where
  "tell env c texts i = on_client c (client_puts_all env texts) i"

definition reply :: "'e server_env \<Rightarrow> nat \<Rightarrow> string list \<Rightarrow> 'e server \<Rightarrow> (CommandResult \<times> 'e server) option" where
  "reply env c texts i = map_option (Pair CR_OK) (tell env c texts i)"

definition refuse ::
    "'e server_env \<Rightarrow> nat \<Rightarrow> ack \<Rightarrow> string \<Rightarrow> 'e server \<Rightarrow> (CommandResult \<times> 'e server) option" where
  "refuse env c e msg i = map_option (Pair CR_ERROR) (command_error env c e msg i)"

text \<open>\<open>if (!check_...(client, &value, s)) return CommandResult::ERROR;\<close>\<close>

definition parsed ::
    "'e server_env \<Rightarrow> nat \<Rightarrow> 'e server \<Rightarrow> arg_error + 'a \<Rightarrow> ('a \<Rightarrow> (CommandResult \<times> 'e server) option)
     \<Rightarrow> (CommandResult \<times> 'e server) option" where
  "parsed env c i r k = (case r of Inl (e, msg) \<Rightarrow> refuse env c e msg i | Inr v \<Rightarrow> k v)"

definition print_playlist_result ::
    "'e server_env \<Rightarrow> nat \<Rightarrow> PlaylistResult \<Rightarrow> 'e server \<Rightarrow> (CommandResult \<times> 'e server) option" where
  "print_playlist_result env c r i =
     (case r of
        PR_SUCCESS \<Rightarrow> Some (CR_OK, i)
      | PR_ERRNO \<Rightarrow> refuse env c ACK_ERROR_SYSTEM (sv_strerror env) i
      | PR_DENIED \<Rightarrow> refuse env c ACK_ERROR_PERMISSION ''Access denied'' i
      | PR_NO_SUCH_SONG \<Rightarrow> refuse env c ACK_ERROR_NO_EXIST ''No such song'' i
      | PR_NO_SUCH_LIST \<Rightarrow> refuse env c ACK_ERROR_NO_EXIST ''No such playlist'' i
      | PR_LIST_EXISTS \<Rightarrow> refuse env c ACK_ERROR_EXIST ''Playlist already exists'' i
      | PR_BAD_NAME \<Rightarrow> refuse env c ACK_ERROR_ARG
          (''playlist name is invalid: playlist names may not contain slashes,'' @ '' newlines or carriage returns'') i
      | PR_BAD_RANGE \<Rightarrow> refuse env c ACK_ERROR_ARG ''Bad song index'' i
      | PR_NOT_PLAYING \<Rightarrow> refuse env c ACK_ERROR_PLAYER_SYNC ''Not playing'' i
      | PR_TOO_LARGE \<Rightarrow> refuse env c ACK_ERROR_PLAYLIST_MAX ''playlist is at the max size'' i
      | PR_DISABLED \<Rightarrow> refuse env c ACK_ERROR_UNKNOWN ''stored playlist support is disabled'' i)"

text \<open>Operations on the playlist with and without a result.\<close>

definition on_world :: "('e world \<Rightarrow> 'e world option) \<Rightarrow> 'e server \<Rightarrow> 'e server option" where
  "on_world f i = do { w \<leftarrow> f (in_world i); Some (i\<lparr>in_world := w\<rparr>) }"

definition on_list ::
    "('e world \<Rightarrow> (PlaylistResult \<times> 'e world) option) \<Rightarrow> 'e server \<Rightarrow> (PlaylistResult \<times> 'e server) option" where
  "on_list f i = do { (r, w) \<leftarrow> f (in_world i); Some (r, i\<lparr>in_world := w\<rparr>) }"

definition edit ::
    "'e server_env \<Rightarrow> nat \<Rightarrow> ('e world \<Rightarrow> (PlaylistResult \<times> 'e world) option) \<Rightarrow> 'e server
     \<Rightarrow> (CommandResult \<times> 'e server) option" where
  "edit env c f i = do { (r, i) \<leftarrow> on_list f i; print_playlist_result env c r i }"

definition done_ok :: "'e server option \<Rightarrow> (CommandResult \<times> 'e server) option" where
  "done_ok i = map_option (Pair CR_OK) i"

text \<open>\<open>int\<close> from \<open>unsigned\<close>.\<close>

definition to_int :: "nat \<Rightarrow> int" where
  "to_int n = (if n < 2 ^ 31 then int n else int n - 2 ^ 32)"

section \<open>Songs from outside\<close>

text \<open>None is \<open>true\<close>; the read permissions are the bits 0444.\<close>

definition client_allow_file :: "'e server_env \<Rightarrow> int \<Rightarrow> string \<Rightarrow> (ack \<times> string) option" where
  "client_allow_file env uid path =
     (if uid \<ge> 0 \<and> uid = sv_euid env then None
      else if uid < 0 then Some (ACK_ERROR_PERMISSION, ''Access denied'')
      else case sv_stat env path of
             Inl err \<Rightarrow> Some (ACK_ERROR_SYSTEM, err)
           | Inr (st_uid, st_mode) \<Rightarrow>
               if st_uid \<noteq> uid \<and> and st_mode 292 \<noteq> 292 then Some (ACK_ERROR_PERMISSION, ''Access denied'') else None)"

text \<open>The songs that the database visits are appended until one cannot be.\<close>

fun AddToQueue :: "'e player_env \<Rightarrow> song list \<Rightarrow> 'e world \<Rightarrow> (PlaylistResult \<times> 'e world) option" where
  "AddToQueue env [] w = Some (PR_SUCCESS, w)"
| "AddToQueue env (s # ss) w =
     do { (r, x, w) \<leftarrow> AppendSong env s w;
          if r = PR_SUCCESS then AddToQueue env ss w else Some (r, w) }"

definition AddFromDatabase ::
    "'e server_env \<Rightarrow> nat \<Rightarrow> string \<Rightarrow> 'e server \<Rightarrow> (CommandResult \<times> 'e server) option" where
  "AddFromDatabase env c uri i =
     (let (songs, err) = sv_visit env uri
      in do {
        (r, i) \<leftarrow> on_list (AddToQueue (sv_player env) songs) i;
        if r \<noteq> PR_SUCCESS then print_playlist_result env c r i
        else case err of None \<Rightarrow> Some (CR_OK, i) | Some (e, msg) \<Rightarrow> refuse env c e msg i })"

definition local_prefix :: string where
  "local_prefix = ''file:///''"

text \<open>The path behind \<open>file://\<close>, if the client may have it.\<close>

definition local_file ::
    "'e server_env \<Rightarrow> nat \<Rightarrow> string \<Rightarrow> 'e server \<Rightarrow> (string \<Rightarrow> (CommandResult \<times> 'e server) option)
     \<Rightarrow> (CommandResult \<times> 'e server) option" where
  "local_file env c uri i k =
     (let path = drop 7 uri
      in if \<not> sv_valid_path env path then refuse env c ACK_ERROR_NO_EXIST ''unsupported file name'' i
         else case client_allow_file env (cl_uid (get_client c i)) path of
                Some (e, msg) \<Rightarrow> refuse env c e msg i
              | None \<Rightarrow> k path)"

definition appended ::
    "('e world \<Rightarrow> (PlaylistResult \<times> nat option \<times> 'e world) option) \<Rightarrow> 'e server
     \<Rightarrow> (PlaylistResult \<times> nat option \<times> 'e server) option" where
  "appended f i = do { (r, added, w) \<leftarrow> f (in_world i); Some (r, added, i\<lparr>in_world := w\<rparr>) }"

definition handle_add :: "'e handler" where
  "handle_add env c argv i =
     do {
       uri \<leftarrow> arg argv 1;
       if take 8 uri = local_prefix then
         local_file env c uri i (\<lambda>path. do {
           (r, x, i) \<leftarrow> appended (AppendFile (sv_player env) (sv_load_file env) path) i;
           print_playlist_result env c r i })
       else if uri_has_scheme uri then
         if \<not> uri_supported_scheme env uri then refuse env c ACK_ERROR_NO_EXIST ''unsupported URI scheme'' i
         else do {
           (r, x, i) \<leftarrow> appended (AppendURI (sv_player env) (sv_database env) uri) i;
           print_playlist_result env c r i }
       else do {
         i \<leftarrow> on_world BeginBulk i;
         (result, i) \<leftarrow> AddFromDatabase env c uri i;
         i \<leftarrow> on_world (CommitBulk (sv_player env)) i;
         Some (result, i) } }"

text \<open>The part of \<open>handle_addid\<close> behind the append.\<close>

definition addid_move ::
    "'e server_env \<Rightarrow> nat \<Rightarrow> string list \<Rightarrow> PlaylistResult \<times> nat option \<times> 'e server
     \<Rightarrow> (CommandResult \<times> 'e server) option" where
  "addid_move env c argv = (\<lambda>(r, added, i).
     if r \<noteq> PR_SUCCESS then print_playlist_result env c r i
     else do {
       added_id \<leftarrow> added;
       if length argv = 3 then do {
         a \<leftarrow> arg argv 2;
         parsed env c i (check_unsigned a) (\<lambda>to. do {
           (r, i) \<leftarrow> on_list (MoveId (sv_player env) added_id (to_int to)) i;
           if r \<noteq> PR_SUCCESS then do {
             (ret, i) \<leftarrow> print_playlist_result env c r i;
             (r2, i) \<leftarrow> on_list (DeleteId (sv_player env) added_id) i;
             Some (ret, i) }
           else reply env c [''Id: '' @ dec added_id @ nl] i }) }
       else reply env c [''Id: '' @ dec added_id @ nl] i })"

definition handle_addid :: "'e handler" where
  "handle_addid env c argv i =
     do {
       uri \<leftarrow> arg argv 1;
       if take 8 uri = local_prefix then
         local_file env c uri i (\<lambda>path. do {
           res \<leftarrow> appended (AppendFile (sv_player env) (sv_load_file env) path) i;
           addid_move env c argv res })
       else if uri_has_scheme uri \<and> \<not> uri_supported_scheme env uri
       then refuse env c ACK_ERROR_NO_EXIST ''unsupported URI scheme'' i
       else do {
         res \<leftarrow> appended (AppendURI (sv_player env) (sv_database env) uri) i;
         addid_move env c argv res } }"

section \<open>The queue\<close>

definition handle_delete :: "'e handler" where
  "handle_delete env c argv i =
     do { a \<leftarrow> arg argv 1;
          parsed env c i (check_range a) (\<lambda>(start, fin). edit env c (DeleteRange (sv_player env) start fin) i) }"

definition handle_deleteid :: "'e handler" where
  "handle_deleteid env c argv i =
     do { a \<leftarrow> arg argv 1;
          parsed env c i (check_unsigned a) (\<lambda>song_id. edit env c (DeleteId (sv_player env) song_id) i) }"

definition handle_playlist :: "'e handler" where
  "handle_playlist env c argv i =
     do { texts \<leftarrow> playlist_print_uris env (in_world i); reply env c texts i }"

definition handle_shuffle :: "'e handler" where
  "handle_shuffle env c argv i =
     (if length argv = 2
      then do { a \<leftarrow> arg argv 1;
                parsed env c i (check_range a) (\<lambda>(start, fin). done_ok (on_world (Shuffle (sv_player env) start fin) i)) }
      else done_ok (on_world (Shuffle (sv_player env) 0 (q_length (w_queue (in_world i)))) i))"

definition handle_clear :: "'e handler" where
  "handle_clear env c argv i = done_ok (on_world (playlist_Clear (sv_player env)) i)"

definition handle_plchanges :: "'e handler" where
  "handle_plchanges env c argv i =
     do { a \<leftarrow> arg argv 1;
          parsed env c i (check_uint32 a) (\<lambda>v.
            reply env c (queue_print_changes_info env (w_queue (in_world i)) (of_nat v)) i) }"

definition handle_plchangesposid :: "'e handler" where
  "handle_plchangesposid env c argv i =
     do { a \<leftarrow> arg argv 1;
          parsed env c i (check_uint32 a) (\<lambda>v.
            reply env c (queue_print_changes_position (w_queue (in_world i)) (of_nat v)) i) }"

definition info_or ::
    "'e server_env \<Rightarrow> nat \<Rightarrow> PlaylistResult \<Rightarrow> string list option \<Rightarrow> 'e server
     \<Rightarrow> (CommandResult \<times> 'e server) option" where
  "info_or env c e texts i =
     (case texts of None \<Rightarrow> print_playlist_result env c e i | Some texts \<Rightarrow> reply env c texts i)"

definition handle_playlistinfo :: "'e handler" where
  "handle_playlistinfo env c argv i =
     (if length argv = 2
      then do { a \<leftarrow> arg argv 1;
                parsed env c i (check_range a) (\<lambda>(start, fin). do {
                  texts \<leftarrow> playlist_print_info env (in_world i) start fin;
                  info_or env c PR_BAD_RANGE texts i }) }
      else do { texts \<leftarrow> playlist_print_info env (in_world i) 0 UINT_MAX; info_or env c PR_BAD_RANGE texts i })"

definition handle_playlistid :: "'e handler" where
  "handle_playlistid env c argv i =
     (if length argv \<ge> 2
      then do { a \<leftarrow> arg argv 1;
                parsed env c i (check_unsigned a) (\<lambda>song_id. do {
                  texts \<leftarrow> playlist_print_id env (in_world i) song_id;
                  info_or env c PR_NO_SUCH_SONG texts i }) }
      else do { texts \<leftarrow> playlist_print_info env (in_world i) 0 UINT_MAX;
                reply env c (case texts of None \<Rightarrow> [] | Some texts \<Rightarrow> texts) i })"

text \<open>The loops over the arguments of \<open>prio\<close> and \<open>prioid\<close>.\<close>

fun prio_ranges :: "'e server_env \<Rightarrow> nat \<Rightarrow> 8 word \<Rightarrow> string list \<Rightarrow> 'e server \<Rightarrow> (CommandResult \<times> 'e server) option" where
  "prio_ranges env c priority [] i = Some (CR_OK, i)"
| "prio_ranges env c priority (a # as) i =
     parsed env c i (check_range a) (\<lambda>(start, fin). do {
       (r, i) \<leftarrow> on_list (playlist_SetPriorityRange (sv_player env) start fin priority) i;
       if r \<noteq> PR_SUCCESS then print_playlist_result env c r i else prio_ranges env c priority as i })"

fun prio_ids :: "'e server_env \<Rightarrow> nat \<Rightarrow> 8 word \<Rightarrow> string list \<Rightarrow> 'e server \<Rightarrow> (CommandResult \<times> 'e server) option" where
  "prio_ids env c priority [] i = Some (CR_OK, i)"
| "prio_ids env c priority (a # as) i =
     parsed env c i (check_unsigned a) (\<lambda>song_id. do {
       (r, i) \<leftarrow> on_list (SetPriorityId (sv_player env) song_id priority) i;
       if r \<noteq> PR_SUCCESS then print_playlist_result env c r i else prio_ids env c priority as i })"

definition handle_prio :: "'e handler" where
  "handle_prio env c argv i =
     do { a \<leftarrow> arg argv 1;
          parsed env c i (check_unsigned a) (\<lambda>priority.
            if priority > 255 then refuse env c ACK_ERROR_ARG (''Priority out of range: '' @ a) i
            else prio_ranges env c (of_nat priority) (drop 2 argv) i) }"

definition handle_prioid :: "'e handler" where
  "handle_prioid env c argv i =
     do { a \<leftarrow> arg argv 1;
          parsed env c i (check_unsigned a) (\<lambda>priority.
            if priority > 255 then refuse env c ACK_ERROR_ARG (''Priority out of range: '' @ a) i
            else prio_ids env c (of_nat priority) (drop 2 argv) i) }"

definition handle_move :: "'e handler" where
  "handle_move env c argv i =
     do { a \<leftarrow> arg argv 1;
          parsed env c i (check_range a) (\<lambda>(start, fin). do {
            b \<leftarrow> arg argv 2;
            parsed env c i (check_int b) (\<lambda>to. edit env c (playlist_MoveRange (sv_player env) start fin to) i) }) }"

definition handle_moveid :: "'e handler" where
  "handle_moveid env c argv i =
     do { a \<leftarrow> arg argv 1;
          parsed env c i (check_unsigned a) (\<lambda>song_id. do {
            b \<leftarrow> arg argv 2;
            parsed env c i (check_int b) (\<lambda>to. edit env c (MoveId (sv_player env) song_id to) i) }) }"

definition handle_swap :: "'e handler" where
  "handle_swap env c argv i =
     do { a \<leftarrow> arg argv 1;
          parsed env c i (check_unsigned a) (\<lambda>song1. do {
            b \<leftarrow> arg argv 2;
            parsed env c i (check_unsigned b) (\<lambda>song2. edit env c (playlist_SwapPositions (sv_player env) song1 song2) i) }) }"

definition handle_swapid :: "'e handler" where
  "handle_swapid env c argv i =
     do { a \<leftarrow> arg argv 1;
          parsed env c i (check_unsigned a) (\<lambda>id1. do {
            b \<leftarrow> arg argv 2;
            parsed env c i (check_unsigned b) (\<lambda>id2. edit env c (SwapIds (sv_player env) id1 id2) i) }) }"

section \<open>The player\<close>

definition handle_play :: "'e handler" where
  "handle_play env c argv i =
     (if length argv = 2
      then do { a \<leftarrow> arg argv 1; parsed env c i (check_int a) (\<lambda>song. edit env c (PlayPosition (sv_player env) song) i) }
      else edit env c (PlayPosition (sv_player env) (-1)) i)"

definition handle_playid :: "'e handler" where
  "handle_playid env c argv i =
     (if length argv = 2
      then do { a \<leftarrow> arg argv 1; parsed env c i (check_int a) (\<lambda>song_id. edit env c (PlayId (sv_player env) song_id) i) }
      else edit env c (PlayId (sv_player env) (-1)) i)"

definition handle_stop :: "'e handler" where
  "handle_stop env c argv i = done_ok (on_world (playlist_Stop (sv_player env)) i)"

definition handle_currentsong :: "'e handler" where
  "handle_currentsong env c argv i =
     do { texts \<leftarrow> playlist_print_current env (in_world i); reply env c texts i }"

definition handle_pause :: "'e handler" where
  "handle_pause env c argv i =
     (if length argv = 2
      then do { a \<leftarrow> arg argv 1;
                parsed env c i (check_bool a) (\<lambda>b. done_ok (on_world (on_pci (pc_SetPause (sv_player env) b)) i)) }
      else done_ok (on_world (on_pci (pc_Pause (sv_player env))) i))"

definition handle_status :: "'e handler" where
  "handle_status env c argv i =
     do {
       (st, pc) \<leftarrow> pc_GetStatus (sv_player env) (w_pc (in_world i));
       let i = i\<lparr>in_world := (in_world i)\<lparr>w_pc := pc\<rparr>\<rparr>;
       let pc = Lock (sv_player env) pc;
       let i = i\<lparr>in_world := (in_world i)\<lparr>w_pc := pc\<rparr>\<rparr>;
       texts \<leftarrow> status_texts env st (pc_cross_fade pc) (pc_GetError pc) (in_world i);
       reply env c texts i }"

definition set_single :: "bool \<Rightarrow> 'e world \<Rightarrow> 'e world" where
  "set_single b w = set_queue ((w_queue w)\<lparr>q_single := b\<rparr>) w"

definition handle_next :: "'e handler" where
  "handle_next env c argv i =
     (let single = q_single (w_queue (in_world i))
      in done_ok (on_world (\<lambda>w. map_option (set_single single) (PlayNext (sv_player env) (set_single False w))) i))"

definition handle_previous :: "'e handler" where
  "handle_previous env c argv i = done_ok (on_world (PlayPrevious (sv_player env)) i)"

text \<open>The four modes; \<open>random\<close> then tells the outputs their replay gain mode, which is not modelled.\<close>

definition set_mode ::
    "(bool \<Rightarrow> 'e world \<Rightarrow> 'e world option) \<Rightarrow> 'e handler" where
  "set_mode f env c argv i =
     do { a \<leftarrow> arg argv 1; parsed env c i (check_bool a) (\<lambda>b. done_ok (on_world (f b) i)) }"

definition handle_repeat :: "'e handler" where
  "handle_repeat env = set_mode (SetRepeat (sv_player env)) env"

definition handle_single :: "'e handler" where
  "handle_single env = set_mode (SetSingle (sv_player env)) env"

definition handle_consume :: "'e handler" where
  "handle_consume env = set_mode (\<lambda>b w. Some (SetConsume b w)) env"

definition handle_random :: "'e handler" where
  "handle_random env = set_mode (SetRandom (sv_player env)) env"

definition handle_clearerror :: "'e handler" where
  "handle_clearerror env c argv i =
     done_ok (on_world (on_pc (\<lambda>pc. Some (pc_ClearError (sv_player env) pc))) i)"

definition handle_seek :: "'e handler" where
  "handle_seek env c argv i =
     do { a \<leftarrow> arg argv 1;
          parsed env c i (check_unsigned a) (\<lambda>song. do {
            b \<leftarrow> arg argv 2;
            parsed env c i (check_unsigned b) (\<lambda>t. edit env c (SeekSongPosition (sv_player env) song (real t)) i) }) }"

definition handle_seekid :: "'e handler" where
  "handle_seekid env c argv i =
     do { a \<leftarrow> arg argv 1;
          parsed env c i (check_unsigned a) (\<lambda>song_id. do {
            b \<leftarrow> arg argv 2;
            parsed env c i (check_unsigned b) (\<lambda>t. edit env c (SeekSongId (sv_player env) song_id (real t)) i) }) }"

definition handle_seekcur :: "'e handler" where
  "handle_seekcur env c argv i =
     do { p \<leftarrow> arg argv 1;
          let relative = (p \<noteq> [] \<and> (hd p = CHR ''+'' \<or> hd p = CHR ''-''));
          parsed env c i (check_int p) (\<lambda>t. edit env c (SeekCurrent (sv_player env) (real_of_int t) relative) i) }"

definition handle_crossfade :: "'e handler" where
  "handle_crossfade env c argv i =
     do { a \<leftarrow> arg argv 1;
          parsed env c i (check_unsigned a) (\<lambda>t. done_ok (on_world (on_pci (\<lambda>p. Some (pc_SetCrossFade (real t) p))) i)) }"

section \<open>The outputs\<close>

definition UpdateAudio :: "'e server_env \<Rightarrow> 'e server \<Rightarrow> 'e server option" where
  "UpdateAudio env i = on_world (on_pc (pc_UpdateAudio (sv_player env))) i"

definition enable_info :: "nat \<Rightarrow> bool \<Rightarrow> 'e server \<Rightarrow> 'e server" where
  "enable_info idx b i = i\<lparr>in_outputs := (in_outputs i)[idx := (in_outputs i ! idx)\<lparr>oi_enabled := b\<rparr>]\<rparr>"

definition bump_output_version :: "'e server \<Rightarrow> 'e server" where
  "bump_output_version i = i\<lparr>in_output_state_version := in_output_state_version i + 1\<rparr>"

text \<open>Closing the mixer is a call of its plugin.\<close>

definition enable_output_index :: "'e server_env \<Rightarrow> nat \<Rightarrow> 'e server \<Rightarrow> (bool \<times> 'e server) option" where
  "enable_output_index env idx i =
     (if idx \<ge> length (in_outputs i) then Some (False, i)
      else if oi_enabled (in_outputs i ! idx) then Some (True, i)
      else do { let i = emit_idle IDLE_OUTPUTS (enable_info idx True i);
                i \<leftarrow> UpdateAudio env i;
                Some (True, bump_output_version i) })"

definition disable_output_index :: "'e server_env \<Rightarrow> nat \<Rightarrow> 'e server \<Rightarrow> (bool \<times> 'e server) option" where
  "disable_output_index env idx i =
     (if idx \<ge> length (in_outputs i) then Some (False, i)
      else if \<not> oi_enabled (in_outputs i ! idx) then Some (True, i)
      else do { let mixer = oi_mixer (in_outputs i ! idx);
                let i = emit_idle IDLE_OUTPUTS (enable_info idx False i);
                let i = (if mixer then emit_idle IDLE_MIXER i else i);
                i \<leftarrow> UpdateAudio env i;
                Some (True, bump_output_version i) })"

definition toggle_output_index :: "'e server_env \<Rightarrow> nat \<Rightarrow> 'e server \<Rightarrow> (bool \<times> 'e server) option" where
  "toggle_output_index env idx i =
     (if idx \<ge> length (in_outputs i) then Some (False, i)
      else do { let ao = in_outputs i ! idx;
                let i = emit_idle IDLE_OUTPUTS (enable_info idx (\<not> oi_enabled ao) i);
                let i = (if oi_enabled ao \<and> oi_mixer ao then emit_idle IDLE_MIXER i else i);
                i \<leftarrow> UpdateAudio env i;
                Some (True, bump_output_version i) })"

definition output_command ::
    "('e server_env \<Rightarrow> nat \<Rightarrow> 'e server \<Rightarrow> (bool \<times> 'e server) option) \<Rightarrow> 'e handler" where
  "output_command f env c argv i =
     do { a \<leftarrow> arg argv 1;
          parsed env c i (check_unsigned a) (\<lambda>device. do {
            (ok, i) \<leftarrow> f env device i;
            if \<not> ok then refuse env c ACK_ERROR_NO_EXIST ''No such audio output'' i else Some (CR_OK, i) }) }"

definition handle_enableoutput :: "'e handler" where
  "handle_enableoutput = output_command enable_output_index"

definition handle_disableoutput :: "'e handler" where
  "handle_disableoutput = output_command disable_output_index"

definition handle_toggleoutput :: "'e handler" where
  "handle_toggleoutput = output_command toggle_output_index"

definition handle_devices :: "'e handler" where
  "handle_devices env c argv i = reply env c (printAudioDevices (in_outputs i)) i"

section \<open>Other commands\<close>

definition handle_urlhandlers :: "'e handler" where
  "handle_urlhandlers env c argv i =
     reply env c ((if cl_uid (get_client c i) \<ge> 0 then [''handler: file://'' @ nl] else []) @
       print_supported_uri_schemes env) i"

definition handle_tagtypes :: "'e handler" where
  "handle_tagtypes env c argv i = reply env c (tag_print_types env) i"

definition handle_kill :: "'e handler" where
  "handle_kill env c argv i = Some (CR_KILL, i)"

definition handle_close :: "'e handler" where
  "handle_close env c argv i = Some (CR_FINISH, i)"

definition update_or_refuse :: "'e server_env \<Rightarrow> nat \<Rightarrow> string \<Rightarrow> bool \<Rightarrow> 'e server \<Rightarrow> (CommandResult \<times> 'e server) option" where
  "update_or_refuse env c path discard i =
     (let ret = sv_update_enqueue env path discard
      in if ret > 0 then reply env c [''updating_db: '' @ dec ret @ nl] i
         else refuse env c ACK_ERROR_UPDATE_ALREADY ''already updating'' i)"

definition handle_update :: "'e handler" where
  "handle_update env c argv i =
     do { ensure (length argv \<le> 2);
          if length argv = 2 then do {
            path \<leftarrow> arg argv 1;
            if path = [] \<or> path = ''/'' then update_or_refuse env c [] False i
            else do { safe \<leftarrow> uri_safe_local path;
                      if \<not> safe then refuse env c ACK_ERROR_ARG ''Malformed path'' i
                      else update_or_refuse env c path False i } }
          else update_or_refuse env c [] False i }"

definition handle_rescan :: "'e handler" where
  "handle_rescan env c argv i =
     do { ensure (length argv \<le> 2);
          if length argv = 2 then do {
            path \<leftarrow> arg argv 1;
            safe \<leftarrow> uri_safe_local path;
            if \<not> safe then refuse env c ACK_ERROR_ARG ''Malformed path'' i
            else update_or_refuse env c path True i }
          else update_or_refuse env c [] True i }"

definition handle_setvol :: "'e handler" where
  "handle_setvol env c argv i =
     do { a \<leftarrow> arg argv 1;
          parsed env c i (check_unsigned a) (\<lambda>level.
            if level > 100 then refuse env c ACK_ERROR_ARG ''Invalid volume value'' i
            else if \<not> sv_volume_change env level then refuse env c ACK_ERROR_SYSTEM ''problems setting volume'' i
            else Some (CR_OK, i)) }"

definition handle_volume :: "'e handler" where
  "handle_volume env c argv i =
     do { a \<leftarrow> arg argv 1;
          parsed env c i (check_int a) (\<lambda>relative.
            if relative < -100 \<or> relative > 100 then refuse env c ACK_ERROR_ARG ''Invalid volume value'' i
            else let old_volume = sv_volume env
                 in if old_volume < 0 then refuse env c ACK_ERROR_SYSTEM ''No mixer'' i
                    else let new_volume = old_volume + relative;
                             new_volume = (if new_volume < 0 then 0 else if new_volume > 100 then 100 else new_volume)
                         in if new_volume \<noteq> old_volume \<and> \<not> sv_volume_change env (nat new_volume)
                            then refuse env c ACK_ERROR_SYSTEM ''problems setting volume'' i
                            else Some (CR_OK, i)) }"

definition handle_ping :: "'e handler" where
  "handle_ping env c argv i = Some (CR_OK, i)"

definition handle_password :: "'e handler" where
  "handle_password env c argv i =
     do { a \<leftarrow> arg argv 1;
          case getPermissionFromPassword a i of
            None \<Rightarrow> refuse env c ACK_ERROR_PASSWORD ''incorrect password'' i
          | Some permission \<Rightarrow>
              Some (CR_OK, set_client c ((get_client c i)\<lparr>cl_permission := permission\<rparr>) i) }"

definition handle_config :: "'e handler" where
  "handle_config env c argv i =
     (if cl_uid (get_client c i) < 0
      then refuse env c ACK_ERROR_PERMISSION ''Command only permitted to local clients'' i
      else reply env c (case sv_music_directory env of None \<Rightarrow> [] | Some p \<Rightarrow> [''music_directory: '' @ p @ nl]) i)"

text \<open>\<open>strcasecmp\<close> on ASCII letters.\<close>

definition StringEqualsCaseASCII :: "string \<Rightarrow> string \<Rightarrow> bool" where
  "StringEqualsCaseASCII a b \<longleftrightarrow> map ToUpperASCII a = map ToUpperASCII b"

definition idle_mask :: "string list \<Rightarrow> 32 word" where
  "idle_mask args =
     fold (\<lambda>a flags. fold (\<lambda>j flags. if StringEqualsCaseASCII a (idle_names ! j) then or flags (push_bit j 1) else flags)
                      [0..<length idle_names] flags) args 0"

definition handle_idle :: "'e handler" where
  "handle_idle env c argv i =
     (let flags = idle_mask (drop 1 argv); flags = (if flags = 0 then - 1 else flags)
      in map_option (Pair CR_IDLE) (on_client c (IdleWait env flags) i))"

section \<open>Messages\<close>

definition handle_subscribe :: "'e handler" where
  "handle_subscribe env c argv i =
     do { ensure (length argv = 2);
          a \<leftarrow> arg argv 1;
          case Subscribe c a i of
            (SubOK, i) \<Rightarrow> Some (CR_OK, i)
          | (SubINVALID, i) \<Rightarrow> refuse env c ACK_ERROR_ARG ''invalid channel name'' i
          | (SubALREADY, i) \<Rightarrow> refuse env c ACK_ERROR_EXIST ''already subscribed to this channel'' i
          | (SubFULL, i) \<Rightarrow> refuse env c ACK_ERROR_EXIST ''subscription list is full'' i }"

definition handle_unsubscribe :: "'e handler" where
  "handle_unsubscribe env c argv i =
     do { ensure (length argv = 2);
          a \<leftarrow> arg argv 1;
          (ok, i) \<leftarrow> Unsubscribe c a i;
          if ok then Some (CR_OK, i)
          else refuse env c ACK_ERROR_NO_EXIST ''not subscribed to this channel'' i }"

text \<open>\<open>std::set\<close>: sorted, each channel once.\<close>

definition handle_channels :: "'e handler" where
  "handle_channels env c argv i =
     do { ensure (length argv = 1);
          let channels = concat (map (\<lambda>k. cl_subscriptions (get_client k i)) (cls_list (in_client_list i)));
          reply env c (map (\<lambda>ch. ''channel: '' @ ch @ nl) (sort (remdups channels))) i }"

definition handle_read_messages :: "'e handler" where
  "handle_read_messages env c argv i =
     do { ensure (length argv = 1);
          let messages = cl_messages (get_client c i);
          i \<leftarrow> tell env c (map (\<lambda>(ch, m). ''channel: '' @ ch @ nl @ ''message: '' @ m @ nl) messages) i;
          Some (CR_OK, set_client c ((get_client c i)\<lparr>cl_messages := []\<rparr>) i) }"

text \<open>The message goes to every client in the list that takes it.\<close>

fun push_all :: "'e server_env \<Rightarrow> message \<Rightarrow> nat list \<Rightarrow> bool \<times> 'e server \<Rightarrow> (bool \<times> 'e server) option" where
  "push_all env msg [] s = Some s"
| "push_all env msg (k # ks) s =
     do { (ok, cl) \<leftarrow> PushMessage env msg (get_client k (snd s));
          push_all env msg ks (fst s \<or> ok, set_client k cl (snd s)) }"

definition handle_send_message :: "'e handler" where
  "handle_send_message env c argv i =
     do { ensure (length argv = 3);
          channel \<leftarrow> arg argv 1;
          if \<not> client_message_valid_channel_name channel then refuse env c ACK_ERROR_ARG ''invalid channel name'' i
          else do {
            txt1 \<leftarrow> arg argv 2;
            (sent, i) \<leftarrow> push_all env (channel, txt1) (cls_list (in_client_list i)) (False, i);
            if sent then Some (CR_OK, i)
            else refuse env c ACK_ERROR_NO_EXIST ''nobody is subscribed to this channel'' i } }"

end
