(* ===== verification/Client_Commands.thy ===== *)
theory Client_Commands
  imports Client_Handlers
begin

text \<open>
  From bytes to commands: the registry of commands, its search, the checks in front of a handler and
  the execution of a line (src/src/command/AllCommands.cxx), lists of commands (src/src/ClientProcess.cxx),
  and the reading of lines from the socket (src/src/ClientRead.cxx, event/BufferedSocket.cxx,
  event/FullyBufferedSocket.cxx).  The build is one with a sticker database.  Handlers that are not
  modelled are \<open>sv_other\<close>.
\<close>

section \<open>The registry\<close>

record 'e command =
  cd_cmd :: string
  cd_permission :: "32 word"
  cd_min :: int
  cd_max :: int
  cd_handler :: "'e handler"

definition COMMAND_ARGV_MAX :: nat where
  "COMMAND_ARGV_MAX = 2 + TAG_NUM_OF_ITEM_TYPES * 2"

definition other_command :: "string \<Rightarrow> 'e handler" where
  "other_command name env c argv i = sv_other env name c argv i"

text \<open>
  The handlers of \<open>commands\<close> and \<open>notcommands\<close> need the registry that they are part of: of each
  entry its name and its permission.
\<close>

definition command_permissions :: "(string \<times> 32 word) list" where
  "command_permissions = [
    (''add'', PERMISSION_ADD),
    (''addid'', PERMISSION_ADD),
    (''channels'', PERMISSION_READ),
    (''clear'', PERMISSION_CONTROL),
    (''clearerror'', PERMISSION_CONTROL),
    (''close'', PERMISSION_NONE),
    (''commands'', PERMISSION_NONE),
    (''config'', PERMISSION_ADMIN),
    (''consume'', PERMISSION_CONTROL),
    (''count'', PERMISSION_READ),
    (''crossfade'', PERMISSION_CONTROL),
    (''currentsong'', PERMISSION_READ),
    (''decoders'', PERMISSION_READ),
    (''delete'', PERMISSION_CONTROL),
    (''deleteid'', PERMISSION_CONTROL),
    (''disableoutput'', PERMISSION_ADMIN),
    (''enableoutput'', PERMISSION_ADMIN),
    (''find'', PERMISSION_READ),
    (''findadd'', PERMISSION_ADD),
    (''idle'', PERMISSION_READ),
    (''kill'', PERMISSION_ADMIN),
    (''list'', PERMISSION_READ),
    (''listall'', PERMISSION_READ),
    (''listallinfo'', PERMISSION_READ),
    (''listplaylist'', PERMISSION_READ),
    (''listplaylistinfo'', PERMISSION_READ),
    (''listplaylists'', PERMISSION_READ),
    (''load'', PERMISSION_ADD),
    (''lsinfo'', PERMISSION_READ),
    (''mixrampdb'', PERMISSION_CONTROL),
    (''mixrampdelay'', PERMISSION_CONTROL),
    (''move'', PERMISSION_CONTROL),
    (''moveid'', PERMISSION_CONTROL),
    (''next'', PERMISSION_CONTROL),
    (''notcommands'', PERMISSION_NONE),
    (''outputs'', PERMISSION_READ),
    (''password'', PERMISSION_NONE),
    (''pause'', PERMISSION_CONTROL),
    (''ping'', PERMISSION_NONE),
    (''play'', PERMISSION_CONTROL),
    (''playid'', PERMISSION_CONTROL),
    (''playlist'', PERMISSION_READ),
    (''playlistadd'', PERMISSION_CONTROL),
    (''playlistclear'', PERMISSION_CONTROL),
    (''playlistdelete'', PERMISSION_CONTROL),
    (''playlistfind'', PERMISSION_READ),
    (''playlistid'', PERMISSION_READ),
    (''playlistinfo'', PERMISSION_READ),
    (''playlistmove'', PERMISSION_CONTROL),
    (''playlistsearch'', PERMISSION_READ),
    (''plchanges'', PERMISSION_READ),
    (''plchangesposid'', PERMISSION_READ),
    (''previous'', PERMISSION_CONTROL),
    (''prio'', PERMISSION_CONTROL),
    (''prioid'', PERMISSION_CONTROL),
    (''random'', PERMISSION_CONTROL),
    (''readcomments'', PERMISSION_READ),
    (''readmessages'', PERMISSION_READ),
    (''rename'', PERMISSION_CONTROL),
    (''repeat'', PERMISSION_CONTROL),
    (''replay_gain_mode'', PERMISSION_CONTROL),
    (''replay_gain_status'', PERMISSION_READ),
    (''rescan'', PERMISSION_CONTROL),
    (''rm'', PERMISSION_CONTROL),
    (''save'', PERMISSION_CONTROL),
    (''search'', PERMISSION_READ),
    (''searchadd'', PERMISSION_ADD),
    (''searchaddpl'', PERMISSION_CONTROL),
    (''seek'', PERMISSION_CONTROL),
    (''seekcur'', PERMISSION_CONTROL),
    (''seekid'', PERMISSION_CONTROL),
    (''sendmessage'', PERMISSION_CONTROL),
    (''setvol'', PERMISSION_CONTROL),
    (''shuffle'', PERMISSION_CONTROL),
    (''single'', PERMISSION_CONTROL),
    (''stats'', PERMISSION_READ),
    (''status'', PERMISSION_READ),
    (''sticker'', PERMISSION_ADMIN),
    (''stop'', PERMISSION_CONTROL),
    (''subscribe'', PERMISSION_READ),
    (''swap'', PERMISSION_CONTROL),
    (''swapid'', PERMISSION_CONTROL),
    (''tagtypes'', PERMISSION_READ),
    (''toggleoutput'', PERMISSION_ADMIN),
    (''unsubscribe'', PERMISSION_READ),
    (''update'', PERMISSION_CONTROL),
    (''urlhandlers'', PERMISSION_READ),
    (''volume'', PERMISSION_CONTROL)]"

definition command_available :: "'e server_env \<Rightarrow> string \<Rightarrow> bool" where
  "command_available env cmd = (if cmd = ''sticker'' then sv_sticker_enabled env else True)"

definition permitted :: "32 word \<Rightarrow> 32 word \<Rightarrow> bool" where
  "permitted cmd_permission permission \<longleftrightarrow> cmd_permission = and permission cmd_permission"

definition handle_commands :: "'e handler" where
  "handle_commands env c argv i =
     (let permission = cl_permission (get_client c i)
      in reply env c (map (\<lambda>(cmd, p). ''command: '' @ cmd @ nl)
           (filter (\<lambda>(cmd, p). permitted p permission \<and> command_available env cmd) command_permissions)) i)"

definition handle_not_commands :: "'e handler" where
  "handle_not_commands env c argv i =
     (let permission = cl_permission (get_client c i)
      in reply env c (map (\<lambda>(cmd, p). ''command: '' @ cmd @ nl)
           (filter (\<lambda>(cmd, p). \<not> permitted p permission) command_permissions)) i)"

definition commands :: "'e command list" where
  "commands = [
    \<lparr>cd_cmd = ''add'', cd_permission = PERMISSION_ADD, cd_min = 1, cd_max = 1, cd_handler = handle_add\<rparr>,
    \<lparr>cd_cmd = ''addid'', cd_permission = PERMISSION_ADD, cd_min = 1, cd_max = 2, cd_handler = handle_addid\<rparr>,
    \<lparr>cd_cmd = ''channels'', cd_permission = PERMISSION_READ, cd_min = 0, cd_max = 0, cd_handler = handle_channels\<rparr>,
    \<lparr>cd_cmd = ''clear'', cd_permission = PERMISSION_CONTROL, cd_min = 0, cd_max = 0, cd_handler = handle_clear\<rparr>,
    \<lparr>cd_cmd = ''clearerror'', cd_permission = PERMISSION_CONTROL, cd_min = 0, cd_max = 0, cd_handler = handle_clearerror\<rparr>,
    \<lparr>cd_cmd = ''close'', cd_permission = PERMISSION_NONE, cd_min = -1, cd_max = -1, cd_handler = handle_close\<rparr>,
    \<lparr>cd_cmd = ''commands'', cd_permission = PERMISSION_NONE, cd_min = 0, cd_max = 0, cd_handler = handle_commands\<rparr>,
    \<lparr>cd_cmd = ''config'', cd_permission = PERMISSION_ADMIN, cd_min = 0, cd_max = 0, cd_handler = handle_config\<rparr>,
    \<lparr>cd_cmd = ''consume'', cd_permission = PERMISSION_CONTROL, cd_min = 1, cd_max = 1, cd_handler = handle_consume\<rparr>,
    \<lparr>cd_cmd = ''count'', cd_permission = PERMISSION_READ, cd_min = 2, cd_max = -1, cd_handler = other_command ''count''\<rparr>,
    \<lparr>cd_cmd = ''crossfade'', cd_permission = PERMISSION_CONTROL, cd_min = 1, cd_max = 1, cd_handler = handle_crossfade\<rparr>,
    \<lparr>cd_cmd = ''currentsong'', cd_permission = PERMISSION_READ, cd_min = 0, cd_max = 0, cd_handler = handle_currentsong\<rparr>,
    \<lparr>cd_cmd = ''decoders'', cd_permission = PERMISSION_READ, cd_min = 0, cd_max = 0, cd_handler = other_command ''decoders''\<rparr>,
    \<lparr>cd_cmd = ''delete'', cd_permission = PERMISSION_CONTROL, cd_min = 1, cd_max = 1, cd_handler = handle_delete\<rparr>,
    \<lparr>cd_cmd = ''deleteid'', cd_permission = PERMISSION_CONTROL, cd_min = 1, cd_max = 1, cd_handler = handle_deleteid\<rparr>,
    \<lparr>cd_cmd = ''disableoutput'', cd_permission = PERMISSION_ADMIN, cd_min = 1, cd_max = 1, cd_handler = handle_disableoutput\<rparr>,
    \<lparr>cd_cmd = ''enableoutput'', cd_permission = PERMISSION_ADMIN, cd_min = 1, cd_max = 1, cd_handler = handle_enableoutput\<rparr>,
    \<lparr>cd_cmd = ''find'', cd_permission = PERMISSION_READ, cd_min = 2, cd_max = -1, cd_handler = other_command ''find''\<rparr>,
    \<lparr>cd_cmd = ''findadd'', cd_permission = PERMISSION_ADD, cd_min = 2, cd_max = -1, cd_handler = other_command ''findadd''\<rparr>,
    \<lparr>cd_cmd = ''idle'', cd_permission = PERMISSION_READ, cd_min = 0, cd_max = -1, cd_handler = handle_idle\<rparr>,
    \<lparr>cd_cmd = ''kill'', cd_permission = PERMISSION_ADMIN, cd_min = -1, cd_max = -1, cd_handler = handle_kill\<rparr>,
    \<lparr>cd_cmd = ''list'', cd_permission = PERMISSION_READ, cd_min = 1, cd_max = -1, cd_handler = other_command ''list''\<rparr>,
    \<lparr>cd_cmd = ''listall'', cd_permission = PERMISSION_READ, cd_min = 0, cd_max = 1, cd_handler = other_command ''listall''\<rparr>,
    \<lparr>cd_cmd = ''listallinfo'', cd_permission = PERMISSION_READ, cd_min = 0, cd_max = 1, cd_handler = other_command ''listallinfo''\<rparr>,
    \<lparr>cd_cmd = ''listplaylist'', cd_permission = PERMISSION_READ, cd_min = 1, cd_max = 1, cd_handler = other_command ''listplaylist''\<rparr>,
    \<lparr>cd_cmd = ''listplaylistinfo'', cd_permission = PERMISSION_READ, cd_min = 1, cd_max = 1, cd_handler = other_command ''listplaylistinfo''\<rparr>,
    \<lparr>cd_cmd = ''listplaylists'', cd_permission = PERMISSION_READ, cd_min = 0, cd_max = 0, cd_handler = other_command ''listplaylists''\<rparr>,
    \<lparr>cd_cmd = ''load'', cd_permission = PERMISSION_ADD, cd_min = 1, cd_max = 2, cd_handler = other_command ''load''\<rparr>,
    \<lparr>cd_cmd = ''lsinfo'', cd_permission = PERMISSION_READ, cd_min = 0, cd_max = 1, cd_handler = other_command ''lsinfo''\<rparr>,
    \<lparr>cd_cmd = ''mixrampdb'', cd_permission = PERMISSION_CONTROL, cd_min = 1, cd_max = 1, cd_handler = other_command ''mixrampdb''\<rparr>,
    \<lparr>cd_cmd = ''mixrampdelay'', cd_permission = PERMISSION_CONTROL, cd_min = 1, cd_max = 1, cd_handler = other_command ''mixrampdelay''\<rparr>,
    \<lparr>cd_cmd = ''move'', cd_permission = PERMISSION_CONTROL, cd_min = 2, cd_max = 2, cd_handler = handle_move\<rparr>,
    \<lparr>cd_cmd = ''moveid'', cd_permission = PERMISSION_CONTROL, cd_min = 2, cd_max = 2, cd_handler = handle_moveid\<rparr>,
    \<lparr>cd_cmd = ''next'', cd_permission = PERMISSION_CONTROL, cd_min = 0, cd_max = 0, cd_handler = handle_next\<rparr>,
    \<lparr>cd_cmd = ''notcommands'', cd_permission = PERMISSION_NONE, cd_min = 0, cd_max = 0, cd_handler = handle_not_commands\<rparr>,
    \<lparr>cd_cmd = ''outputs'', cd_permission = PERMISSION_READ, cd_min = 0, cd_max = 0, cd_handler = handle_devices\<rparr>,
    \<lparr>cd_cmd = ''password'', cd_permission = PERMISSION_NONE, cd_min = 1, cd_max = 1, cd_handler = handle_password\<rparr>,
    \<lparr>cd_cmd = ''pause'', cd_permission = PERMISSION_CONTROL, cd_min = 0, cd_max = 1, cd_handler = handle_pause\<rparr>,
    \<lparr>cd_cmd = ''ping'', cd_permission = PERMISSION_NONE, cd_min = 0, cd_max = 0, cd_handler = handle_ping\<rparr>,
    \<lparr>cd_cmd = ''play'', cd_permission = PERMISSION_CONTROL, cd_min = 0, cd_max = 1, cd_handler = handle_play\<rparr>,
    \<lparr>cd_cmd = ''playid'', cd_permission = PERMISSION_CONTROL, cd_min = 0, cd_max = 1, cd_handler = handle_playid\<rparr>,
    \<lparr>cd_cmd = ''playlist'', cd_permission = PERMISSION_READ, cd_min = 0, cd_max = 0, cd_handler = handle_playlist\<rparr>,
    \<lparr>cd_cmd = ''playlistadd'', cd_permission = PERMISSION_CONTROL, cd_min = 2, cd_max = 2, cd_handler = other_command ''playlistadd''\<rparr>,
    \<lparr>cd_cmd = ''playlistclear'', cd_permission = PERMISSION_CONTROL, cd_min = 1, cd_max = 1, cd_handler = other_command ''playlistclear''\<rparr>,
    \<lparr>cd_cmd = ''playlistdelete'', cd_permission = PERMISSION_CONTROL, cd_min = 2, cd_max = 2, cd_handler = other_command ''playlistdelete''\<rparr>,
    \<lparr>cd_cmd = ''playlistfind'', cd_permission = PERMISSION_READ, cd_min = 2, cd_max = -1, cd_handler = other_command ''playlistfind''\<rparr>,
    \<lparr>cd_cmd = ''playlistid'', cd_permission = PERMISSION_READ, cd_min = 0, cd_max = 1, cd_handler = handle_playlistid\<rparr>,
    \<lparr>cd_cmd = ''playlistinfo'', cd_permission = PERMISSION_READ, cd_min = 0, cd_max = 1, cd_handler = handle_playlistinfo\<rparr>,
    \<lparr>cd_cmd = ''playlistmove'', cd_permission = PERMISSION_CONTROL, cd_min = 3, cd_max = 3, cd_handler = other_command ''playlistmove''\<rparr>,
    \<lparr>cd_cmd = ''playlistsearch'', cd_permission = PERMISSION_READ, cd_min = 2, cd_max = -1, cd_handler = other_command ''playlistsearch''\<rparr>,
    \<lparr>cd_cmd = ''plchanges'', cd_permission = PERMISSION_READ, cd_min = 1, cd_max = 1, cd_handler = handle_plchanges\<rparr>,
    \<lparr>cd_cmd = ''plchangesposid'', cd_permission = PERMISSION_READ, cd_min = 1, cd_max = 1, cd_handler = handle_plchangesposid\<rparr>,
    \<lparr>cd_cmd = ''previous'', cd_permission = PERMISSION_CONTROL, cd_min = 0, cd_max = 0, cd_handler = handle_previous\<rparr>,
    \<lparr>cd_cmd = ''prio'', cd_permission = PERMISSION_CONTROL, cd_min = 2, cd_max = -1, cd_handler = handle_prio\<rparr>,
    \<lparr>cd_cmd = ''prioid'', cd_permission = PERMISSION_CONTROL, cd_min = 2, cd_max = -1, cd_handler = handle_prioid\<rparr>,
    \<lparr>cd_cmd = ''random'', cd_permission = PERMISSION_CONTROL, cd_min = 1, cd_max = 1, cd_handler = handle_random\<rparr>,
    \<lparr>cd_cmd = ''readcomments'', cd_permission = PERMISSION_READ, cd_min = 1, cd_max = 1, cd_handler = other_command ''readcomments''\<rparr>,
    \<lparr>cd_cmd = ''readmessages'', cd_permission = PERMISSION_READ, cd_min = 0, cd_max = 0, cd_handler = handle_read_messages\<rparr>,
    \<lparr>cd_cmd = ''rename'', cd_permission = PERMISSION_CONTROL, cd_min = 2, cd_max = 2, cd_handler = other_command ''rename''\<rparr>,
    \<lparr>cd_cmd = ''repeat'', cd_permission = PERMISSION_CONTROL, cd_min = 1, cd_max = 1, cd_handler = handle_repeat\<rparr>,
    \<lparr>cd_cmd = ''replay_gain_mode'', cd_permission = PERMISSION_CONTROL, cd_min = 1, cd_max = 1, cd_handler = other_command ''replay_gain_mode''\<rparr>,
    \<lparr>cd_cmd = ''replay_gain_status'', cd_permission = PERMISSION_READ, cd_min = 0, cd_max = 0, cd_handler = other_command ''replay_gain_status''\<rparr>,
    \<lparr>cd_cmd = ''rescan'', cd_permission = PERMISSION_CONTROL, cd_min = 0, cd_max = 1, cd_handler = handle_rescan\<rparr>,
    \<lparr>cd_cmd = ''rm'', cd_permission = PERMISSION_CONTROL, cd_min = 1, cd_max = 1, cd_handler = other_command ''rm''\<rparr>,
    \<lparr>cd_cmd = ''save'', cd_permission = PERMISSION_CONTROL, cd_min = 1, cd_max = 1, cd_handler = other_command ''save''\<rparr>,
    \<lparr>cd_cmd = ''search'', cd_permission = PERMISSION_READ, cd_min = 2, cd_max = -1, cd_handler = other_command ''search''\<rparr>,
    \<lparr>cd_cmd = ''searchadd'', cd_permission = PERMISSION_ADD, cd_min = 2, cd_max = -1, cd_handler = other_command ''searchadd''\<rparr>,
    \<lparr>cd_cmd = ''searchaddpl'', cd_permission = PERMISSION_CONTROL, cd_min = 3, cd_max = -1, cd_handler = other_command ''searchaddpl''\<rparr>,
    \<lparr>cd_cmd = ''seek'', cd_permission = PERMISSION_CONTROL, cd_min = 2, cd_max = 2, cd_handler = handle_seek\<rparr>,
    \<lparr>cd_cmd = ''seekcur'', cd_permission = PERMISSION_CONTROL, cd_min = 1, cd_max = 1, cd_handler = handle_seekcur\<rparr>,
    \<lparr>cd_cmd = ''seekid'', cd_permission = PERMISSION_CONTROL, cd_min = 2, cd_max = 2, cd_handler = handle_seekid\<rparr>,
    \<lparr>cd_cmd = ''sendmessage'', cd_permission = PERMISSION_CONTROL, cd_min = 2, cd_max = 2, cd_handler = handle_send_message\<rparr>,
    \<lparr>cd_cmd = ''setvol'', cd_permission = PERMISSION_CONTROL, cd_min = 1, cd_max = 1, cd_handler = handle_setvol\<rparr>,
    \<lparr>cd_cmd = ''shuffle'', cd_permission = PERMISSION_CONTROL, cd_min = 0, cd_max = 1, cd_handler = handle_shuffle\<rparr>,
    \<lparr>cd_cmd = ''single'', cd_permission = PERMISSION_CONTROL, cd_min = 1, cd_max = 1, cd_handler = handle_single\<rparr>,
    \<lparr>cd_cmd = ''stats'', cd_permission = PERMISSION_READ, cd_min = 0, cd_max = 0, cd_handler = other_command ''stats''\<rparr>,
    \<lparr>cd_cmd = ''status'', cd_permission = PERMISSION_READ, cd_min = 0, cd_max = 0, cd_handler = handle_status\<rparr>,
    \<lparr>cd_cmd = ''sticker'', cd_permission = PERMISSION_ADMIN, cd_min = 3, cd_max = -1, cd_handler = other_command ''sticker''\<rparr>,
    \<lparr>cd_cmd = ''stop'', cd_permission = PERMISSION_CONTROL, cd_min = 0, cd_max = 0, cd_handler = handle_stop\<rparr>,
    \<lparr>cd_cmd = ''subscribe'', cd_permission = PERMISSION_READ, cd_min = 1, cd_max = 1, cd_handler = handle_subscribe\<rparr>,
    \<lparr>cd_cmd = ''swap'', cd_permission = PERMISSION_CONTROL, cd_min = 2, cd_max = 2, cd_handler = handle_swap\<rparr>,
    \<lparr>cd_cmd = ''swapid'', cd_permission = PERMISSION_CONTROL, cd_min = 2, cd_max = 2, cd_handler = handle_swapid\<rparr>,
    \<lparr>cd_cmd = ''tagtypes'', cd_permission = PERMISSION_READ, cd_min = 0, cd_max = 0, cd_handler = handle_tagtypes\<rparr>,
    \<lparr>cd_cmd = ''toggleoutput'', cd_permission = PERMISSION_ADMIN, cd_min = 1, cd_max = 1, cd_handler = handle_toggleoutput\<rparr>,
    \<lparr>cd_cmd = ''unsubscribe'', cd_permission = PERMISSION_READ, cd_min = 1, cd_max = 1, cd_handler = handle_unsubscribe\<rparr>,
    \<lparr>cd_cmd = ''update'', cd_permission = PERMISSION_CONTROL, cd_min = 0, cd_max = 1, cd_handler = handle_update\<rparr>,
    \<lparr>cd_cmd = ''urlhandlers'', cd_permission = PERMISSION_READ, cd_min = 0, cd_max = 0, cd_handler = handle_urlhandlers\<rparr>,
    \<lparr>cd_cmd = ''volume'', cd_permission = PERMISSION_CONTROL, cd_min = 1, cd_max = 1, cd_handler = handle_volume\<rparr>]"

section \<open>Finding and checking a command\<close>

definition strcmp :: "string \<Rightarrow> string \<Rightarrow> int" where
  "strcmp a b = (if a = b then 0 else if a < b then -1 else 1)"

text \<open>The search; the registry is not empty, so the condition also holds in the first round.\<close>

function lookup_loop :: "'e command list \<Rightarrow> string \<Rightarrow> nat \<Rightarrow> nat \<Rightarrow> 'e command option" where
  "lookup_loop cs name a b =
     (if \<not> a < b then None
      else let j = (a + b) div 2; cmp = strcmp name (cd_cmd (cs ! j))
           in if cmp = 0 then Some (cs ! j)
              else if cmp < 0 then lookup_loop cs name a j
              else lookup_loop cs name (j + 1) b)"
  by auto
termination
  by (relation "measure (\<lambda>(cs, name, a, b). b - a)") auto

declare lookup_loop.simps [simp del]

definition command_lookup :: "string \<Rightarrow> 'e command option" where
  "command_lookup name = lookup_loop commands name 0 (length (commands :: 'e command list))"

definition command_check_request ::
    "'e server_env \<Rightarrow> nat \<Rightarrow> 'e command \<Rightarrow> 32 word \<Rightarrow> string list \<Rightarrow> 'e server \<Rightarrow> (bool \<times> 'e server) option" where
  "command_check_request env c cmd permission argv i =
     (let lo = cd_min cmd + 1; hi = cd_max cmd + 1; argc = int (length argv);
          no = (\<lambda>e msg. map_option (Pair False) (command_error env c e msg i))
      in if \<not> permitted (cd_permission cmd) permission
         then no ACK_ERROR_PERMISSION (''you don'' @ [CHR 0x27] @ ''t have permission for '' @ [CHR 0x22] @ cd_cmd cmd @ [CHR 0x22])
         else if lo = 0 then Some (True, i)
         else if lo = hi \<and> hi \<noteq> argc
         then do { a \<leftarrow> arg argv 0; no ACK_ERROR_ARG (''wrong number of arguments for '' @ [CHR 0x22] @ a @ [CHR 0x22]) }
         else if argc < lo
         then do { a \<leftarrow> arg argv 0; no ACK_ERROR_ARG (''too few arguments for '' @ [CHR 0x22] @ a @ [CHR 0x22]) }
         else if argc > hi \<and> hi \<noteq> 0
         then do { a \<leftarrow> arg argv 0; no ACK_ERROR_ARG (''too many arguments for '' @ [CHR 0x22] @ a @ [CHR 0x22]) }
         else Some (True, i))"

definition command_checked_lookup ::
    "'e server_env \<Rightarrow> nat \<Rightarrow> 32 word \<Rightarrow> string list \<Rightarrow> 'e server \<Rightarrow> ('e command option \<times> 'e server) option" where
  "command_checked_lookup env c permission argv i =
     (let i = i\<lparr>in_current_command := Some []\<rparr>
      in case argv of
           [] \<Rightarrow> Some (None, i)
         | name # _ \<Rightarrow>
             (case command_lookup name of
                None \<Rightarrow> map_option (Pair None) (command_error env c ACK_ERROR_UNKNOWN
                          (''unknown command '' @ [CHR 0x22] @ name @ [CHR 0x22]) i)
              | Some cmd \<Rightarrow> do {
                  let i = i\<lparr>in_current_command := Some (cd_cmd cmd)\<rparr>;
                  (ok, i) \<leftarrow> command_check_request env c cmd permission argv i;
                  Some (if ok then Some cmd else None, i) }))"

section \<open>A line\<close>

fun next_args :: "nat \<Rightarrow> tokenizer \<Rightarrow> (nat list \<times> string option \<times> tokenizer) option" where
  "next_args 0 t = Some ([], None, t)"
| "next_args (Suc k) t =
     do { (tok, t) \<leftarrow> NextParam t;
          case tok of
            TkWord p \<Rightarrow> do { (ps, err, t) \<leftarrow> next_args k t; Some (p # ps, err, t) }
          | TkNull \<Rightarrow> Some ([], None, t)
          | TkError msg \<Rightarrow> Some ([], Some msg, t) }"

text \<open>The error exits of \<open>command_process\<close>, with \<open>current_command\<close> set for the report.\<close>

definition give_up ::
    "'e server_env \<Rightarrow> nat \<Rightarrow> string \<Rightarrow> ack \<Rightarrow> string \<Rightarrow> 'e server \<Rightarrow> (CommandResult \<times> 'e server) option" where
  "give_up env c current e msg i =
     do { i \<leftarrow> command_error env c e msg (i\<lparr>in_current_command := Some current\<rparr>);
          Some (CR_ERROR, i\<lparr>in_current_command := None\<rparr>) }"

definition run_command ::
    "'e server_env \<Rightarrow> nat \<Rightarrow> string list \<Rightarrow> 'e server \<Rightarrow> (CommandResult \<times> 'e server) option" where
  "run_command env c argv i =
     do { (cmd, i) \<leftarrow> command_checked_lookup env c (cl_permission (get_client c i)) argv i;
          (ret, i) \<leftarrow> (case cmd of Some cmd \<Rightarrow> cd_handler cmd env c argv i | None \<Rightarrow> Some (CR_ERROR, i));
          Some (ret, i\<lparr>in_current_command := None, in_command_list_num := 0\<rparr>) }"

definition command_process ::
    "'e server_env \<Rightarrow> nat \<Rightarrow> nat \<Rightarrow> string \<Rightarrow> 'e server \<Rightarrow> (CommandResult \<times> 'e server) option" where
  "command_process env c num line i =
     do {
       let i = i\<lparr>in_command_list_num := num\<rparr>;
       (tok, t) \<leftarrow> NextWord \<lparr>tk_buf = line @ [NUL], tk_input = 0\<rparr>;
       case tok of
         TkWord p \<Rightarrow> do {
           (ps, err, t) \<leftarrow> next_args (COMMAND_ARGV_MAX - 1) t;
           let argv = map (cstr (tk_buf t)) (p # ps);
           if length argv \<ge> COMMAND_ARGV_MAX
           then give_up env c (hd argv) ACK_ERROR_ARG ''Too many arguments'' i
           else do {
             end_of_line \<leftarrow> IsEnd t;
             if \<not> end_of_line then do { msg \<leftarrow> err; give_up env c (hd argv) ACK_ERROR_ARG msg i }
             else run_command env c argv (i\<lparr>in_current_command := Some (hd argv)\<rparr>) } }
       | _ \<Rightarrow> do {
           end_of_line \<leftarrow> IsEnd t;
           if end_of_line then give_up env c [] ACK_ERROR_UNKNOWN ''No command given'' i
           else do { msg \<leftarrow> (case tok of TkError msg \<Rightarrow> Some msg | _ \<Rightarrow> None);
                     give_up env c [] ACK_ERROR_UNKNOWN msg i } } }"

section \<open>Lists of commands\<close>

fun client_process_command_list ::
    "'e server_env \<Rightarrow> nat \<Rightarrow> bool \<Rightarrow> nat \<Rightarrow> string list \<Rightarrow> 'e server \<Rightarrow> (CommandResult \<times> 'e server) option" where
  "client_process_command_list env c list_ok num [] i = Some (CR_OK, i)"
| "client_process_command_list env c list_ok num (cmd # cmds) i =
     do {
       (ret, i) \<leftarrow> command_process env c num cmd i;
       if ret \<noteq> CR_OK \<or> cl_expired (get_client c i) then Some (ret, i)
       else do {
         i \<leftarrow> (if list_ok then tell env c [''list_OK'' @ nl] i else Some i);
         client_process_command_list env c list_ok (num + 1) cmds i } }"

definition set_cmd_list :: "nat \<Rightarrow> command_list \<Rightarrow> 'e server \<Rightarrow> 'e server" where
  "set_cmd_list c l i = set_client c ((get_client c i)\<lparr>cl_cmd_list := l\<rparr>) i"

text \<open>What follows a command or a list: the client is to be closed, or it gets its \<open>OK\<close>.\<close>

definition finish_line ::
    "'e server_env \<Rightarrow> nat \<Rightarrow> (CommandResult \<times> 'e server) \<Rightarrow> (CommandResult \<times> bool \<times> 'e server) option" where
  "finish_line env c = (\<lambda>(ret, i).
     if ret = CR_CLOSE \<or> cl_expired (get_client c i) then Some (CR_CLOSE, False, i)
     else if ret = CR_OK then do { i \<leftarrow> on_client c (command_success env) i; Some (ret, True, i) }
     else Some (ret, True, i))"

definition client_process_line ::
    "'e server_env \<Rightarrow> nat \<Rightarrow> string \<Rightarrow> 'e server \<Rightarrow> (CommandResult \<times> 'e server) option" where
  "client_process_line env c line i =
     (let cl = get_client c i; l = cl_cmd_list cl
      in if line = ''noidle'' then
           (if cl_idle_waiting cl
            then map_option (Pair CR_OK) (on_client c (command_success env) (set_client c (cl\<lparr>cl_idle_waiting := False\<rparr>) i))
            else Some (CR_OK, i))
         else if cl_idle_waiting cl then Some (CR_CLOSE, i)
         else if IsActive l then
           (if line = ''command_list_end'' then do {
              (cmds, l) \<leftarrow> CommandList_Commit l;
              let i = set_cmd_list c l i;
              list_ok \<leftarrow> IsOKMode l;
              res \<leftarrow> client_process_command_list env c list_ok 0 cmds i;
              (ret, go_on, i) \<leftarrow> finish_line env c res;
              Some (ret, if go_on then set_cmd_list c (CommandList_Reset (cl_cmd_list (get_client c i))) i else i) }
            else let (ok, l) = CommandList_Add (sv_max_command_list_size env) line l; i = set_cmd_list c l i
                 in Some (if ok then CR_OK else CR_CLOSE, i))
         else if line = ''command_list_begin'' then do { l \<leftarrow> CommandList_Begin False l; Some (CR_OK, set_cmd_list c l i) }
         else if line = ''command_list_ok_begin'' then do { l \<leftarrow> CommandList_Begin True l; Some (CR_OK, set_cmd_list c l i) }
         else do {
           res \<leftarrow> command_process env c 0 line i;
           (ret, go_on, i) \<leftarrow> finish_line env c res;
           Some (ret, i) })"

section \<open>The socket\<close>

definition INPUT_SIZE :: nat where
  "INPUT_SIZE = 8192"

datatype InputResult = INPUT_MORE | INPUT_AGAIN | INPUT_CLOSED

definition newline_char :: char where "newline_char = CHR 0x0A"

text \<open>
  The line up to the first NUL, without white space at its end.  The line is terminated in the
  buffer, in the part that has been consumed.
\<close>

definition trim_end :: "string \<Rightarrow> string" where
  "trim_end line = rev (dropWhile IsWhitespaceOrNull (rev line))"

definition c_string :: "string \<Rightarrow> string" where
  "c_string s = takeWhile (\<lambda>c. c \<noteq> NUL) s"

text \<open>\<open>CR_KILL\<close> also ends the main loop; the third component says so.\<close>

definition OnSocketInput ::
    "'e server_env \<Rightarrow> socket_answer \<Rightarrow> nat \<Rightarrow> 'e server \<Rightarrow> (InputResult \<times> bool \<times> 'e server) option" where
  "OnSocketInput env flush c i =
     (let cl = get_client c i; data = FifoBuffer_Read (cl_input cl)
      in if newline_char \<notin> set data then Some (INPUT_MORE, False, i)
         else do {
           let line = takeWhile (\<lambda>ch. ch \<noteq> newline_char) data;
           let cl = ScheduleSeconds cl;
           input \<leftarrow> FifoBuffer_Consume INPUT_SIZE (length line + 1) (cl_input cl);
           let i = set_client c (cl\<lparr>cl_input := input\<rparr>) i;
           (result, i) \<leftarrow> client_process_line env c (c_string (trim_end line)) i;
           case result of
             CR_KILL \<Rightarrow> do { i \<leftarrow> Client_Close c i; Some (INPUT_CLOSED, True, i) }
           | CR_FINISH \<Rightarrow> do {
               (ok, sent, cl) \<leftarrow> Socket_Flush flush (get_client c i);
               let i = set_client c cl i;
               i \<leftarrow> (if ok then Client_Close c i else Some i);
               Some (INPUT_CLOSED, False, i) }
           | CR_CLOSE \<Rightarrow> do { i \<leftarrow> Client_Close c i; Some (INPUT_CLOSED, False, i) }
           | _ \<Rightarrow>
               if cl_expired (get_client c i) then do { i \<leftarrow> Client_Close c i; Some (INPUT_CLOSED, False, i) }
               else Some (INPUT_AGAIN, False, i) })"

text \<open>
  \<open>ResumeInput\<close>: false when the socket has been closed.  Every round but the last consumes a line,
  so one round more than there are bytes is enough fuel.
\<close>

fun ResumeInput_loop ::
    "nat \<Rightarrow> 'e server_env \<Rightarrow> socket_answer \<Rightarrow> nat \<Rightarrow> 'e server \<Rightarrow> (bool \<times> bool \<times> 'e server) option" where
  "ResumeInput_loop 0 env flush c i = None"
| "ResumeInput_loop (Suc k) env flush c i =
     (if FifoBuffer_Read (cl_input (get_client c i)) = [] then Some (True, False, i)
      else do {
        (result, kill, i) \<leftarrow> OnSocketInput env flush c i;
        case result of
          INPUT_MORE \<Rightarrow>
            if FifoBuffer_IsFull INPUT_SIZE (cl_input (get_client c i))
            then Some (False, False, set_client c (SetExpired (get_client c i)) i)
            else Some (True, False, i)
        | INPUT_AGAIN \<Rightarrow> ResumeInput_loop k env flush c i
        | INPUT_CLOSED \<Rightarrow> Some (False, kill, i) })"

definition ResumeInput ::
    "'e server_env \<Rightarrow> socket_answer \<Rightarrow> nat \<Rightarrow> 'e server \<Rightarrow> (bool \<times> bool \<times> 'e server) option" where
  "ResumeInput env flush c i =
     do { ensure (\<not> cl_expired (get_client c i));
          ResumeInput_loop (length (FifoBuffer_Read (cl_input (get_client c i))) + 1) env flush c i }"

text \<open>What reading from the socket gives: bytes, nothing yet, the end of the stream, or an error.\<close>

datatype socket_read = ReadBytes string | ReadAgain | ReadEnd | ReadFails

text \<open>The socket gives at most as many bytes as there is room for.\<close>

definition ReadToBuffer :: "socket_read \<Rightarrow> client \<Rightarrow> (bool \<times> client) option" where
  "ReadToBuffer got cl =
     do { ensure (\<not> cl_expired cl);
          (room, b) \<leftarrow> FifoBuffer_Write INPUT_SIZE (cl_input cl);
          ensure (room \<noteq> 0);
          let cl = cl\<lparr>cl_input := b\<rparr>;
          case got of
            ReadBytes s \<Rightarrow> do { b \<leftarrow> FifoBuffer_Append INPUT_SIZE (take room s) b; Some (True, cl\<lparr>cl_input := b\<rparr>) }
          | ReadAgain \<Rightarrow> Some (True, cl)
          | _ \<Rightarrow> Some (False, SetExpired cl) }"

text \<open>The socket can be read.\<close>

definition OnSocketReady ::
    "'e server_env \<Rightarrow> socket_read \<Rightarrow> socket_answer \<Rightarrow> nat \<Rightarrow> 'e server \<Rightarrow> (bool \<times> bool \<times> 'e server) option" where
  "OnSocketReady env got flush c i =
     do { let cl = get_client c i;
          ensure (\<not> cl_expired cl);
          ensure (\<not> FifoBuffer_IsFull INPUT_SIZE (cl_input cl));
          (ok, cl) \<leftarrow> ReadToBuffer got cl;
          let i = set_client c cl i;
          if \<not> ok then Some (False, False, i) else ResumeInput env flush c i }"

text \<open>
  The socket can be written to (the first part of \<open>FullyBufferedSocket::OnSocketReady\<close>, the rest of
  which is \<open>OnSocketReady\<close>), the loop is idle after something has been written, or the socket has been closed by the
  client.  What is registered in the event loop is not modelled.
\<close>

definition OnSocketWritable :: "socket_answer \<Rightarrow> nat \<Rightarrow> 'e server \<Rightarrow> (bool \<times> 'e server) option" where
  "OnSocketWritable flush c i =
     do { ensure (\<not> PeakBuffer_IsEmpty (cl_output (get_client c i)));
          (ok, sent, cl) \<leftarrow> Socket_Flush flush (get_client c i);
          Some (ok, set_client c cl i) }"

definition OnIdle :: "socket_answer \<Rightarrow> nat \<Rightarrow> 'e server \<Rightarrow> 'e server option" where
  "OnIdle flush c i = do { (ok, sent, cl) \<leftarrow> Socket_Flush flush (get_client c i); Some (set_client c cl i) }"

definition OnSocketClosed :: "nat \<Rightarrow> 'e server \<Rightarrow> 'e server" where
  "OnSocketClosed c i = set_client c (SetExpired (get_client c i)) i"

end
