(* ===== verification/Client_Lines.thy ===== *)
theory Client_Lines
  imports Client_Commands
begin

text \<open>
  A line as the commands see it: cutting the line up in place gives the words that the specification
  of the tokenizer gives, all of them still in the buffer when the handler gets them; every error is
  noticed; what has been quoted is read back.
\<close>

section \<open>The words of a line\<close>

fun split_args :: "nat \<Rightarrow> string \<Rightarrow> string list \<times> string option" where
  "split_args 0 s = ([], None)"
| "split_args (Suc k) s =
     (case next_param s of
        None \<Rightarrow> ([], None)
      | Some (Inl msg) \<Rightarrow> ([], Some msg)
      | Some (Inr (w, r)) \<Rightarrow> apfst ((#) w) (split_args k r))"

text \<open>The error of a line, with the command it is reported for, or its words.\<close>

definition parse_line :: "string \<Rightarrow> (string \<times> ack \<times> string) + string list" where
  "parse_line line =
     (case next_word line of
        None \<Rightarrow> Inl ([], ACK_ERROR_UNKNOWN, ''No command given'')
      | Some (Inl msg) \<Rightarrow> Inl ([], ACK_ERROR_UNKNOWN, msg)
      | Some (Inr (w, r)) \<Rightarrow>
          let (args, err) = split_args (COMMAND_ARGV_MAX - 1) r
          in if length args + 1 \<ge> COMMAND_ARGV_MAX then Inl (w, ACK_ERROR_ARG, ''Too many arguments'')
             else case err of None \<Rightarrow> Inr (w # args) | Some msg \<Rightarrow> Inl (w, ACK_ERROR_ARG, msg))"

lemma cstr_keep: "NUL \<notin> set w \<Longrightarrow> cstr (pre @ w @ NUL # gap @ rest) (length pre) = w"
  using cstr_at[of w pre "gap @ rest"] by simp

lemma next_args_split:
  assumes "NUL \<notin> set s"
  shows "\<exists>ps t'. next_args k \<lparr>tk_buf = pre @ s @ NUL # post, tk_input = length pre\<rparr> = Some (ps, snd (split_args k s), t') \<and>
    map (cstr (tk_buf t')) ps = fst (split_args k s) \<and> (\<exists>rest. tk_buf t' = pre @ rest) \<and>
    (s = [] \<longrightarrow> tk_buf t' = pre @ s @ NUL # post) \<and>
    (snd (split_args k s) \<noteq> None \<longrightarrow> IsEnd t' = Some False) \<and>
    (snd (split_args k s) = None \<and> length (fst (split_args k s)) < k \<longrightarrow> IsEnd t' = Some True)"
  using assms
proof (induction k s arbitrary: pre rule: split_args.induct)
  case (2 k s)
  let ?t = "\<lparr>tk_buf = pre @ s @ NUL # post, tk_input = length pre\<rparr>"
  note np = NextParam_cut[OF 2(2), of pre post]
  show ?case
  proof (cases "next_param s")
    case None
    then have "s = []" by (cases s) (auto simp: next_param_def)
    then show ?thesis using np None by (simp add: IsEnd_def)
  next
    case (Some spec)
    then obtain tok u where u: "NextParam ?t = Some (tok, u)" "fits_cut pre post spec (tok, u)"
      using np by auto
    have ne: "s \<noteq> []" using Some by (auto simp: next_param_def)
    show ?thesis
    proof (cases spec)
      case (Inl msg)
      then show ?thesis using u Some ne by (auto simp: fits_cut_def IsEnd_def peek_def nth_append)
    next
      case (Inr wr)
      obtain w r where wr: "wr = (w, r)" by force
      from u(2) Inr wr obtain mid where m: "tok = TkWord (length pre)" "NUL \<notin> set w" "NUL \<notin> set r"
        "u = \<lparr>tk_buf = (pre @ w @ mid) @ r @ NUL # post, tk_input = length (pre @ w @ mid)\<rparr>"
        "case mid of [] \<Rightarrow> r = [] | c # _ \<Rightarrow> c = NUL"
        by (auto simp: fits_cut_def)
      from 2(1)[OF Some Inr wr[symmetric] m(3), of "pre @ w @ mid"]
      obtain ps t' rest where t': "next_args k u = Some (ps, snd (split_args k r), t')"
        "map (cstr (tk_buf t')) ps = fst (split_args k r)" "tk_buf t' = (pre @ w @ mid) @ rest"
        "r = [] \<longrightarrow> tk_buf t' = (pre @ w @ mid) @ r @ NUL # post"
        "snd (split_args k r) \<noteq> None \<longrightarrow> IsEnd t' = Some False"
        "snd (split_args k r) = None \<and> length (fst (split_args k r)) < k \<longrightarrow> IsEnd t' = Some True"
        unfolding m(4) by blast
      have "cstr (tk_buf t') (length pre) = w"
      proof (cases mid)
        case Nil
        then show ?thesis using t'(4) m(2,5) by simp
      next
        case (Cons c gap)
        then show ?thesis using t'(3) cstr_keep[OF m(2), of pre gap rest] m(5) by simp
      qed
      then show ?thesis using u(1) m(1) t' Some Inr wr ne by (cases "split_args k r") auto
    qed
  qed
qed simp

lemma command_process_parse:
  assumes "NUL \<notin> set line"
  shows "command_process env c num line i =
    (case parse_line line of
       Inl (cur, e, msg) \<Rightarrow> give_up env c cur e msg (i\<lparr>in_command_list_num := num\<rparr>)
     | Inr argv \<Rightarrow> run_command env c argv (i\<lparr>in_command_list_num := num, in_current_command := Some (hd argv)\<rparr>))"
proof -
  let ?t = "\<lparr>tk_buf = line @ [NUL], tk_input = 0\<rparr>"
  note nw = NextWord_cut[OF assms, of "[]" "[]"]
  show ?thesis
  proof (cases "next_word line")
    case None
    then have "line = []" by (cases line) (auto simp: next_word_def)
    then show ?thesis using nw None by (simp add: command_process_def parse_line_def IsEnd_def peek_def)
  next
    case (Some spec)
    then obtain tok u where u: "NextWord ?t = Some (tok, u)" "fits_cut [] [] spec (tok, u)"
      using nw by auto
    show ?thesis
    proof (cases spec)
      case (Inl msg)
      then have "tok = TkError msg" "IsEnd u = Some False"
        using u(2) by (auto simp: fits_cut_def IsEnd_def peek_def nth_append)
      then show ?thesis using u(1) Some Inl by (simp add: command_process_def parse_line_def)
    next
      case (Inr wr)
      obtain w r where wr: "wr = (w, r)" by force
      from u(2) Inr wr obtain mid where m: "tok = TkWord 0" "NUL \<notin> set w" "NUL \<notin> set r"
        "u = \<lparr>tk_buf = (w @ mid) @ r @ NUL # [], tk_input = length (w @ mid)\<rparr>"
        "case mid of [] \<Rightarrow> r = [] | c # _ \<Rightarrow> c = NUL"
        by (auto simp: fits_cut_def)
      let ?k = "COMMAND_ARGV_MAX - 1"
      obtain args err where a: "split_args ?k r = (args, err)" by force
      from next_args_split[OF m(3), of ?k "w @ mid" "[]"]
      obtain ps t' rest where t': "next_args ?k u = Some (ps, err, t')"
        "map (cstr (tk_buf t')) ps = args" "tk_buf t' = (w @ mid) @ rest" "r = [] \<longrightarrow> tk_buf t' = (w @ mid) @ r @ [NUL]"
        "err \<noteq> None \<longrightarrow> IsEnd t' = Some False" "err = None \<and> length args < ?k \<longrightarrow> IsEnd t' = Some True"
        unfolding m(4) a fst_conv snd_conv by blast
      have w: "cstr (tk_buf t') 0 = w"
      proof (cases mid)
        case Nil
        then show ?thesis using t'(4) m(2,5) cstr_at[of w "[]" "[]"] by simp
      next
        case (Cons c gap)
        then show ?thesis using t'(3) cstr_keep[OF m(2), of "[]" gap rest] m(5) by simp
      qed
      have len: "length ps = length args" using t'(2) by (metis length_map)
      have st: "command_process env c num line i =
        (if length args + 1 \<ge> COMMAND_ARGV_MAX then give_up env c w ACK_ERROR_ARG ''Too many arguments'' (i\<lparr>in_command_list_num := num\<rparr>)
         else do { e \<leftarrow> IsEnd t';
           if \<not> e then do { msg \<leftarrow> err; give_up env c w ACK_ERROR_ARG msg (i\<lparr>in_command_list_num := num\<rparr>) }
           else run_command env c (w # args) (i\<lparr>in_command_list_num := num, in_current_command := Some w\<rparr>) })"
        unfolding command_process_def by (simp add: u(1) m(1) t'(1) w t'(2) len Let_def del: One_nat_def) (cases "IsEnd t'"; simp add: w t'(2))
      show ?thesis
      proof (cases "length args + 1 \<ge> COMMAND_ARGV_MAX")
        case True
        then show ?thesis using st Some Inr wr a by (simp add: parse_line_def)
      next
        case False
        then have "length args < ?k" by simp
        then show ?thesis using st False Some Inr wr a t'(5,6) by (cases err) (simp_all add: parse_line_def)
      qed
    qed
  qed
qed

section \<open>Quoting\<close>

fun quote_chars :: "string \<Rightarrow> string" where
  "quote_chars [] = []"
| "quote_chars (c # s) = (if c = CHR 0x22 \<or> c = CHR 0x5C then [CHR 0x5C, c] else [c]) @ quote_chars s"

lemma NUL_quote_chars: "NUL \<notin> set s \<Longrightarrow> NUL \<notin> set (quote_chars s)"
  by (induction s) auto

text \<open>An argument in quotation marks, and a line of a command with arguments.\<close>

definition quote :: "string \<Rightarrow> string" where
  "quote s = [CHR 0x22] @ quote_chars s @ [CHR 0x22]"

definition command_line :: "string \<Rightarrow> string list \<Rightarrow> string" where
  "command_line cmd args = cmd @ concat (map (\<lambda>a. '' '' @ quote a) args)"

definition command_word :: "string \<Rightarrow> bool" where
  "command_word w \<longleftrightarrow> w \<noteq> [] \<and> valid_word_first_char (hd w) \<and> list_all valid_word_char (tl w)"

lemma NUL_quote: "NUL \<notin> set s \<Longrightarrow> NUL \<notin> set (quote s)"
  by (simp add: quote_def NUL_quote_chars)

lemma next_string_quoted:
  "next_string_tail (quote_chars s @ CHR 0x22 # rest) =
     (case rest of [] \<Rightarrow> Inr (s, [])
      | d # _ \<Rightarrow> if \<not> IsWhitespaceOrNull d then Inl space_expected else Inr (s, trim rest))"
  by (induction s) (auto simp: apfst_def split: list.splits)

lemma space_char [simp]: "IsWhitespaceOrNull (CHR '' '')" "IsWhitespaceNotNull (CHR '' '')"
  "\<not> IsWhitespaceNotNull (CHR 0x22)"
  by (simp_all add: IsWhitespaceOrNull_def IsWhitespaceNotNull_def)

lemma split_quoted:
  "length args \<le> k \<Longrightarrow> split_args k (case args of [] \<Rightarrow> [] | a # as \<Rightarrow> quote a @ concat (map (\<lambda>a. '' '' @ quote a) as)) = (args, None)"
proof (induction args arbitrary: k)
  case Nil
  then show ?case by (cases k) (simp_all add: next_param_def)
next
  case (Cons a as)
  then obtain j where k: "k = Suc j" "length as \<le> j" by (cases k) auto
  let ?r = "concat (map (\<lambda>a. '' '' @ quote a) as)"
  have "next_param (quote a @ ?r) = Some (Inr (a, case as of [] \<Rightarrow> [] | a # as \<Rightarrow> quote a @ concat (map (\<lambda>a. '' '' @ quote a) as)))"
    by (cases as) (simp_all add: next_param_def quote_def next_string_quoted)
  then show ?case using Cons.IH[OF k(2)] k(1) by simp
qed

lemma next_word_tail_word:
  assumes "list_all valid_word_char w" "rest = [] \<or> IsWhitespaceOrNull (hd rest)"
  shows "next_word_tail valid_word_char msg (w @ rest) = Inr (w, case rest of [] \<Rightarrow> [] | _ # r \<Rightarrow> trim r)"
  using assms(1)
proof (induction w)
  case Nil
  then show ?case using assms(2) by (cases rest) simp_all
next
  case (Cons c w)
  then show ?case using valid_no_space(2)[of c] by simp
qed

lemma parse_command_line:
  assumes "command_word cmd" "length args < COMMAND_ARGV_MAX - 1"
  shows "parse_line (command_line cmd args) = Inr (cmd # args)"
proof -
  obtain c w where c: "cmd = c # w" "valid_word_first_char c" "list_all valid_word_char w"
    using assms(1) by (cases cmd) (auto simp: command_word_def)
  let ?r = "concat (map (\<lambda>a. '' '' @ quote a) args)"
  have "?r = [] \<or> IsWhitespaceOrNull (hd ?r)" by (cases args) simp_all
  from next_word_tail_word[OF c(3) this]
  have "next_word (command_line cmd args) = Some (Inr (cmd, case args of [] \<Rightarrow> [] | a # as \<Rightarrow> quote a @ concat (map (\<lambda>a. '' '' @ quote a) as)))"
    using c(1,2) by (cases args) (simp_all add: next_word_def command_line_def quote_def)
  moreover have "split_args (COMMAND_ARGV_MAX - 1) (case args of [] \<Rightarrow> [] | a # as \<Rightarrow> quote a @ concat (map (\<lambda>a. '' '' @ quote a) as)) = (args, None)"
    by (rule split_quoted) (use assms(2) in simp)
  ultimately show ?thesis using assms(2) by (simp add: parse_line_def)
qed

lemma parse_line_argv:
  "parse_line line = Inr argv \<Longrightarrow> argv \<noteq> [] \<and> length argv < COMMAND_ARGV_MAX"
  by (auto simp: parse_line_def split: option.splits sum.splits if_splits prod.splits)

end
