(* ===== verification/Client_Lookup.thy ===== *)
theory Client_Lookup
  imports Client_Lines
begin

text \<open>
  The search in the registry of commands: the registry is sorted, as the assertion of \<open>command_init\<close>
  demands, and so the binary search finds what a linear one does.  A command that is executed is in
  the registry, permitted, and has as many arguments as its entry allows.
\<close>

section \<open>The registry\<close>

lemma commands_permissions: "map (\<lambda>cmd. (cd_cmd cmd, cd_permission cmd)) commands = command_permissions"
  by (simp add: commands_def command_permissions_def)

lemma commands_names: "map cd_cmd commands = map fst command_permissions"
  by (simp add: commands_def command_permissions_def)

fun ascending :: "string list \<Rightarrow> bool" where
  "ascending (a # b # xs) \<longleftrightarrow> a < b \<and> ascending (b # xs)"
| "ascending _ = True"

lemma ascending_sorted: "ascending xs \<Longrightarrow> sorted_wrt (<) xs"
proof (induction xs rule: ascending.induct)
  case (1 a b xs)
  then show ?case by (auto intro: less_trans)
qed auto

lemma permissions_ascending: "ascending (map fst command_permissions)"
  by code_simp

lemma commands_sorted: "sorted_wrt (<) (map cd_cmd commands)"
  unfolding commands_names by (rule ascending_sorted[OF permissions_ascending])

lemma commands_distinct: "distinct (map cd_cmd commands)"
  using commands_sorted unfolding strict_sorted_iff by (rule conjunct2)

section \<open>Binary and linear search\<close>

lemma strcmp_zero [simp]: "strcmp a b = 0 \<longleftrightarrow> a = b"
  and strcmp_less [simp]: "strcmp a b < 0 \<longleftrightarrow> a < b"
  by (auto simp: strcmp_def)

lemma find_skip: "\<forall>x\<in>set xs. \<not> P x \<Longrightarrow> find P (xs @ ys) = find P ys"
  and find_stop: "\<forall>y\<in>set ys. \<not> P y \<Longrightarrow> find P (xs @ ys) = find P xs"
  by (induction xs) (auto simp: find_None_iff)

lemma split_window:
  assumes "a \<le> j" "j < b" "b \<le> length cs"
  shows "drop a (take b cs) = drop a (take j cs) @ cs ! j # drop (Suc j) (take b cs)"
proof -
  have "take b cs = take j cs @ cs ! j # drop (Suc j) (take b cs)"
    using id_take_nth_drop[of j "take b cs"] assms by (simp add: min_def)
  then have "drop a (take b cs) = drop a (take j cs @ cs ! j # drop (Suc j) (take b cs))" by (rule arg_cong)
  then show ?thesis using assms by simp
qed

lemma window_order:
  assumes "sorted_wrt (<) (map cd_cmd cs)" "j < length cs"
  shows "x \<in> set (drop a (take j cs)) \<Longrightarrow> cd_cmd x < cd_cmd (cs ! j)"
    and "x \<in> set (drop (Suc j) (take b cs)) \<Longrightarrow> cd_cmd (cs ! j) < cd_cmd x"
proof -
  assume "x \<in> set (drop a (take j cs))"
  then obtain k where "k < length (drop a (take j cs))" "x = drop a (take j cs) ! k" by (auto simp: in_set_conv_nth)
  then have "a + k < j" "x = cs ! (a + k)" using assms(2) by auto
  then show "cd_cmd x < cd_cmd (cs ! j)" using assms by (auto simp: sorted_wrt_iff_nth_less)
next
  assume "x \<in> set (drop (Suc j) (take b cs))"
  then obtain k where "k < length (drop (Suc j) (take b cs))" "x = drop (Suc j) (take b cs) ! k" by (auto simp: in_set_conv_nth)
  moreover from this have "Suc j + k < b" "Suc j + k < length cs" "Suc j \<le> length (take b cs)" by auto
  ultimately have "Suc j + k < length cs" "x = cs ! (Suc j + k)" by auto
  then show "cd_cmd (cs ! j) < cd_cmd x" using assms by (auto simp: sorted_wrt_iff_nth_less)
qed

lemma lookup_loop_find:
  assumes "sorted_wrt (<) (map cd_cmd cs)" "b \<le> length cs"
  shows "lookup_loop cs name a b = find (\<lambda>cmd. cd_cmd cmd = name) (drop a (take b cs))"
  using assms
proof (induction cs name a b rule: lookup_loop.induct)
  case (1 cs name a b)
  show ?case
  proof (cases "a < b")
    case False
    then show ?thesis by (subst lookup_loop.simps) simp
  next
    case True
    define j where "j = (a + b) div 2"
    have j: "a \<le> j" "j < b" "j < length cs" using True "1.prems"(2) by (auto simp: j_def)
    note win = split_window[OF j(1,2) "1.prems"(2)] and order = window_order[OF "1.prems"(1) j(3)]
    have step: "lookup_loop cs name a b =
      (if name = cd_cmd (cs ! j) then Some (cs ! j)
       else if name < cd_cmd (cs ! j) then lookup_loop cs name a j else lookup_loop cs name (j + 1) b)"
      using True by (subst lookup_loop.simps) (simp add: Let_def j_def)
    consider "name = cd_cmd (cs ! j)" | "name < cd_cmd (cs ! j)" | "cd_cmd (cs ! j) < name" by fastforce
    then show ?thesis
    proof cases
      case 1
      then show ?thesis unfolding step win using order(1) by (subst find_skip) fastforce+
    next
      case 2
      then have "lookup_loop cs name a j = find (\<lambda>cmd. cd_cmd cmd = name) (drop a (take j cs))"
        using "1.IH"(1)[OF _ j_def refl] True "1.prems" j by auto
      then show ?thesis unfolding step win using 2 order(2) by (subst find_stop) fastforce+
    next
      case 3
      then have "lookup_loop cs name (j + 1) b = find (\<lambda>cmd. cd_cmd cmd = name) (drop (j + 1) (take b cs))"
        using "1.IH"(2)[OF _ j_def refl] True "1.prems" j by auto
      then show ?thesis unfolding step win using 3 order(1) by (subst find_skip) fastforce+
    qed
  qed
qed

lemma command_lookup_find: "command_lookup name = find (\<lambda>cmd. cd_cmd cmd = name) commands"
  unfolding command_lookup_def by (subst lookup_loop_find[OF commands_sorted]) simp_all

lemma command_lookup_in: "command_lookup name = Some cmd \<Longrightarrow> cmd \<in> set commands \<and> cd_cmd cmd = name"
  unfolding command_lookup_find by (auto simp: find_Some_iff)

section \<open>The checks\<close>

lemma commands_bounds: "cmd \<in> set commands \<Longrightarrow> cd_min cmd \<noteq> - 1 \<Longrightarrow> cd_max cmd = - 1 \<or> cd_min cmd \<le> cd_max cmd"
  by (auto simp: commands_def)

lemma command_check_request_cases:
  assumes "command_check_request env c cmd permission argv i = Some (ok, i')"
  shows "if ok then permitted (cd_permission cmd) permission \<and> i' = i \<and>
        (cd_min cmd \<noteq> - 1 \<longrightarrow> cd_min cmd \<le> int (length argv) - 1 \<and>
           (cd_max cmd \<noteq> - 1 \<longrightarrow> int (length argv) - 1 \<le> cd_max cmd))
    else \<exists>e msg. command_error env c e msg i = Some i'"
  using assms by (auto simp: command_check_request_def Let_def split: if_splits bind_splits)

lemma command_checked_lookup_cases:
  assumes "command_checked_lookup env c permission argv i = Some (found, i')"
  shows "case found of
      Some cmd \<Rightarrow> argv \<noteq> [] \<and> cmd \<in> set commands \<and> cd_cmd cmd = hd argv \<and>
        and permission (cd_permission cmd) = cd_permission cmd \<and>
        (cd_min cmd \<noteq> - 1 \<longrightarrow> cd_min cmd \<le> int (length argv) - 1 \<and>
           (cd_max cmd \<noteq> - 1 \<longrightarrow> int (length argv) - 1 \<le> cd_max cmd)) \<and>
        i' = i\<lparr>in_current_command := Some (hd argv)\<rparr>
    | None \<Rightarrow> argv = [] \<or> (\<exists>cmd e msg. command_error env c e msg (i\<lparr>in_current_command := Some cmd\<rparr>) = Some i')"
  using assms
  by (auto simp: command_checked_lookup_def Let_def permitted_def split: list.splits option.splits bind_splits if_splits
      dest!: command_lookup_in command_check_request_cases)

end
