(* ===== verification/Client_Properties.thy ===== *)
theory Client_Properties
  imports Client_Lookup Playlist_Properties
begin

text \<open>
  The properties of the client protocol: reading a line, finding and checking its command, the
  arguments, the paths and the bytes that go back to the client.
\<close>

section \<open>Lines\<close>

text \<open>
  C14: \<open>command_process\<close> cuts the words of a line out of its buffer in place, with pointers and NUL bytes
  that overwrite the line.  What reaches the handlers is what the grammar of the protocol says
  about the line as a string: one word, then unquoted words and strings in quotation marks with escapes;
  an error of the grammar is reported for the command of the line.
\<close>

theorem command_process_parses:
  assumes "NUL \<notin> set line"
  shows "command_process env c num line i =
    (case parse_line line of
       Inl (cur, e, msg) \<Rightarrow> give_up env c cur e msg (i\<lparr>in_command_list_num := num\<rparr>)
     | Inr argv \<Rightarrow> run_command env c argv (i\<lparr>in_command_list_num := num, in_current_command := Some (hd argv)\<rparr>))"
  by (rule command_process_parse[OF assms])

definition demo_args :: "string list" where
  "demo_args = [''a b'', [CHR 0x22, CHR 0x5C], []]"

lemma demo_line: "command_word ''find''" "length demo_args < COMMAND_ARGV_MAX - 1" "NUL \<notin> set (command_line ''find'' demo_args)"
  by code_simp+

theorem command_process_parses_witness:
  "\<forall>env c i. command_process env c 0 (command_line ''find'' demo_args) i =
   run_command env c (''find'' # demo_args) (i\<lparr>in_command_list_num := 0, in_current_command := Some ''find''\<rparr>)"
  by (intro allI, subst command_process_parses[OF demo_line(3)]) (simp add: parse_command_line[OF demo_line(1,2)])

text \<open>
  C22: The quoting that clients use is undone exactly: any arguments without NUL, with blanks, quotation
  marks, backslashes or nothing at all in them, arrive at the command as they were, up to the number of
  arguments a line may have.
\<close>

theorem quoting_roundtrip:
  assumes "command_word cmd" "length args < COMMAND_ARGV_MAX - 1" "NUL \<notin> set cmd" "\<forall>a \<in> set args. NUL \<notin> set a"
  shows "command_process env c num (command_line cmd args) i =
    run_command env c (cmd # args) (i\<lparr>in_command_list_num := num, in_current_command := Some cmd\<rparr>)"
proof -
  have "NUL \<notin> set (command_line cmd args)" using assms(3,4) by (auto simp: command_line_def NUL_quote)
  from command_process_parse[OF this] show ?thesis using parse_command_line[OF assms(1,2)] by simp
qed

theorem quoting_roundtrip_witness:
  "\<forall>env c i. command_process env c 3 (command_line ''playlistadd'' [''my list'', [CHR 0x5C, CHR 0x22, CHR 0x27]]) i =
   run_command env c [''playlistadd'', ''my list'', [CHR 0x5C, CHR 0x22, CHR 0x27]]
     (i\<lparr>in_command_list_num := 3, in_current_command := Some ''playlistadd''\<rparr>)"
proof -
  let ?args = "[''my list'', [CHR 0x5C, CHR 0x22, CHR 0x27]]"
  have "command_word ''playlistadd''" "length ?args < COMMAND_ARGV_MAX - 1" by code_simp+
  then show ?thesis by (intro allI quoting_roundtrip) simp_all
qed

section \<open>Commands\<close>

text \<open>
  C23: The registry is sorted, so the binary search over it finds for every name what a search from its
  beginning would find, and nothing for a name that is not a command.
\<close>

theorem command_lookup_searches:
  "command_lookup name = find (\<lambda>cmd. cd_cmd cmd = name) commands"
  by (rule command_lookup_find)

text \<open>
  C15: A command gets past the checks only if it is in the registry under the name that was given, the
  client has all permissions it asks for, and the number of its arguments is within its bounds;
  otherwise exactly one error is sent and no handler runs.
\<close>

theorem checked_command:
  assumes "command_checked_lookup env c permission argv i = Some (found, i')"
  shows "case found of
      Some cmd \<Rightarrow> argv \<noteq> [] \<and> cmd \<in> set commands \<and> cd_cmd cmd = hd argv \<and>
        and permission (cd_permission cmd) = cd_permission cmd \<and>
        (cd_min cmd \<noteq> - 1 \<longrightarrow> cd_min cmd \<le> int (length argv) - 1 \<and>
           (cd_max cmd \<noteq> - 1 \<longrightarrow> int (length argv) - 1 \<le> cd_max cmd)) \<and>
        i' = i\<lparr>in_current_command := Some (hd argv)\<rparr>
    | None \<Rightarrow> argv = [] \<or> (\<exists>cmd e msg. command_error env c e msg (i\<lparr>in_current_command := Some cmd\<rparr>) = Some i')"
  using assms by (rule command_checked_lookup_cases)

definition demo_setvol :: "'e command" where
  "demo_setvol = \<lparr>cd_cmd = ''setvol'', cd_permission = PERMISSION_CONTROL, cd_min = 1, cd_max = 1, cd_handler = handle_setvol\<rparr>"

lemma demo_setvol_found: "command_lookup ''setvol'' = Some demo_setvol"
  by (simp add: command_lookup_find commands_def demo_setvol_def)

theorem checked_command_witness:
  "\<forall>(env :: 'e server_env) c i. command_checked_lookup env c 4 [''setvol'', ''50''] i = Some (Some demo_setvol, i\<lparr>in_current_command := Some ''setvol''\<rparr>) \<and>
    (demo_setvol :: 'e command) \<in> set commands \<and> and 4 (cd_permission (demo_setvol :: 'e command)) = PERMISSION_CONTROL"
proof (intro allI)
  fix env :: "'e server_env" and c i
  have "command_checked_lookup env c 4 [''setvol'', ''50''] i = Some (Some demo_setvol, i\<lparr>in_current_command := Some ''setvol''\<rparr>)"
    by (simp add: command_checked_lookup_def demo_setvol_found command_check_request_def)
      (simp add: demo_setvol_def permitted_def PERMISSION_CONTROL_def)
  with checked_command[OF this] show "command_checked_lookup env c 4 [''setvol'', ''50''] i =
      Some (Some demo_setvol, i\<lparr>in_current_command := Some ''setvol''\<rparr>) \<and>
    (demo_setvol :: 'e command) \<in> set commands \<and> and 4 (cd_permission (demo_setvol :: 'e command)) = PERMISSION_CONTROL"
    by (simp add: demo_setvol_def)
qed

section \<open>Arguments\<close>

text \<open>
  C24: A number in a range that is too large is not refused: positions are cut down to 32 bits,
  because the test for it looks at the value after the conversion.  The position 4294967296 is
  the first one of the queue.
\<close>

theorem check_range_wraps:
  assumes "int a \<le> LONG_MAX" "int b \<le> LONG_MAX"
  shows "check_range (dec a) = Inr (a mod 2 ^ 32, (a mod 2 ^ 32 + 1) mod 2 ^ 32) \<and>
    check_range (dec a @ '':'' @ dec b) = Inr (a mod 2 ^ 32, b mod 2 ^ 32) \<and>
    check_range (dec a @ '':'') = Inr (a mod 2 ^ 32, 2 ^ 31 - 1)"
  by (intro conjI check_range_one[OF assms(1)] check_range_two[OF assms] check_range_open[OF assms(1)])

theorem check_range_wraps_witness:
  "check_range (dec 4294967296) = Inr (0, 1) \<and> check_range (dec 4294967298 @ '':'' @ dec 4294967299) = Inr (2, 3)"
  using check_range_wraps[of 4294967296 0] check_range_wraps[of 4294967298 4294967299] by (simp_all add: LONG_MAX_def)

text \<open>
  C18: An inverted range gets past all checks of \<open>move\<close> and asks for a local array of negative
  length: any client that may control playback can stop the daemon.
\<close>

theorem inverted_move_asserts:
  assumes "check_range r = Inr (start, fin)" "check_int d = Inr to"
    "0 < fin" "fin < start" "start < q_length (w_queue (in_world i))" "q_length (w_queue (in_world i)) < 2 ^ 31"
    "int (start - fin) < to" "to < int (q_length (w_queue (in_world i)) + start - fin)" "to \<noteq> int start" "to < 2 ^ 31"
  shows "handle_move env c [cmd, r, d] i = None"
proof -
  let ?w = "in_world i"
  have u: "u32 (to + int fin - int start - 1) = nat (to + int fin - int start - 1)"
    using assms(7,10,4) by (simp add: u32_def nat_mod_distrib)
  have n: "IsValidPosition (w_queue ?w) start" "IsValidPosition (w_queue ?w) (u32 (int fin - 1))"
    using assms(3-6) by (simp_all add: IsValidPosition_def u32_def nat_mod_distrib)
  have "playlist_MoveRange (sv_player env) start fin to ?w = None"
    using assms(3-9) n u by (auto simp: playlist_MoveRange_def MoveRange_apply_def checked_MoveRange_def ensure_def Let_def nat_le_iff split: bind_splits)
  then show ?thesis using assms(1,2) by (simp add: handle_move_def arg_def parsed_def edit_def on_list_def)
qed

theorem inverted_move_asserts_witness:
  "\<forall>env c i. handle_move env c [''move'', dec 2 @ '':'' @ dec 1, dec 3] (i\<lparr>in_world := demo_list 3\<rparr>) = None"
proof (intro allI)
  fix env c and i :: "unit thread_ext server"
  have q: "q_length (w_queue (demo_list 3)) = 3" using demo_list_idle[of 3] by (simp add: idle_list_def)
  have r: "check_range (dec 2 @ '':'' @ dec 1) = Inr (2, 1)"
    using check_range_two[of 2 1] by (simp add: LONG_MAX_def del: dec.simps)
  have d: "check_int (dec 3) = Inr 3" by code_simp
  show "handle_move env c [''move'', dec 2 @ '':'' @ dec 1, dec 3] (i\<lparr>in_world := demo_list 3\<rparr>) = None"
    by (rule inverted_move_asserts[OF r d]) (simp_all add: q)
qed



section \<open>Paths\<close>



text \<open>
  C20: A segment of three dots hides what is behind it: a path that leaves the music directory is
  accepted, and a path that ends in three dots is read past its end.
\<close>

theorem dots_hide_segments:
  assumes "slash \<notin> set g"
  shows "uri_safe_local (''.../'' @ g) = Some True \<and> uri_safe_local ''...'' = None"
  using dots_hide[OF assms] by simp

theorem dots_hide_segments_witness: "uri_safe_local ''.../..'' = Some True"
  using dots_hide_segments[of "''..''"] by (simp add: slash_def)

section \<open>Responses\<close>

text \<open>
  C16: The two buffers behind a client are one queue: whatever is put in, and however the socket takes
  bytes in between, the bytes that were sent followed by those that wait are all bytes that were put
  in, in their order, while the buffer accepts them.
\<close>

theorem responses_in_order:
  assumes "peak_inv b" "peak.run m es b [] = Some (b', sent)"
  shows "peak_inv b' \<and>
    sent @ peak_content b' = peak_content b @ concat (map (\<lambda>e. case e of Inl s \<Rightarrow> s | Inr _ \<Rightarrow> []) es)"
  using peak.run_fifo[OF assms] by simp

abbreviation demo_peak :: "nat \<Rightarrow> string \<Rightarrow> peak_buffer" where
  "demo_peak start overflow \<equiv>
     \<lparr>pb_normal_size = 4, pb_peak_size = 40, pb_normal = Some \<lparr>fb_size = 4, fb_start = start, fb_data = ''abcd''\<rparr>,
      pb_peak = Some \<lparr>fb_size = 16, fb_start = 0, fb_data = overflow\<rparr>\<rparr>"

lemma demo_peak_steps:
  "PeakBuffer_Append True ''abcdef'' (new_PeakBuffer 4 40) = Some (True, demo_peak 0 ''ef'')"
  "PeakBuffer_Read (demo_peak 0 ''ef'') = Some ''abcd''" "PeakBuffer_Consume (Suc (Suc (Suc 0))) (demo_peak 0 ''ef'') = Some (demo_peak 3 ''ef'')"
  "PeakBuffer_Append True ''gh'' (demo_peak 3 ''ef'') = Some (True, demo_peak 3 ''efgh'')"
  "PeakBuffer_Read (demo_peak 3 ''efgh'') = Some ''d''" "PeakBuffer_Consume (Suc 0) (demo_peak 3 ''efgh'') = Some (demo_peak 4 ''efgh'')"
  by code_simp+

theorem responses_in_order_witness:
  "peak.run True [Inl ''abcdef'', Inr 3, Inl ''gh'', Inr 2] (new_PeakBuffer 4 40) [] = Some (demo_peak 4 ''efgh'', ''abcd'') \<and>
   ''abcd'' @ peak_content (demo_peak 4 ''efgh'') = ''abcdefgh''"
proof -
  have i: "peak_inv (new_PeakBuffer 4 40)" "peak_content (new_PeakBuffer 4 40) = []"
    by (simp_all add: peak_inv_def new_PeakBuffer_def none_or_def peak_content_def opt_content_def)
  have r: "peak.run True [Inl ''abcdef'', Inr 3, Inl ''gh'', Inr 2] (new_PeakBuffer 4 40) [] = Some (demo_peak 4 ''efgh'', ''abcd'')"
    by (simp add: demo_peak_steps)
  from responses_in_order[OF i(1) r] r i(2) show ?thesis by simp
qed

end
