(* ===== verification/World_Commands.thy ===== *)
theory World_Commands
  imports Player_System
begin

text \<open>
  The commands of clients to playlist and player, each from a state between two commands to such a
  state.  Bulk edits are bracketed: no operation of the playlist but \<open>BeginBulk\<close> and \<open>CommitBulk\<close> changes
  whether one is going on.
\<close>

abbreviation bulk :: "'e world \<Rightarrow> bool" where
  "bulk w \<equiv> pl_bulk_edit (w_list w)"

named_theorems bulk_keeps \<open>operations that keep the bulk flag\<close>

lemma on_pc_bulk [bulk_keeps]: "on_pc f w = Some w' \<Longrightarrow> bulk w' = bulk w"
  by (auto simp: on_pc_def split: bind_splits)

lemma on_pci_bulk [bulk_keeps]: "on_pci f w = Some w' \<Longrightarrow> bulk w' = bulk w"
  by (auto simp: on_pci_def split: bind_splits)

lemma reshuffle_bulk [bulk_keeps]: "reshuffle w = Some w' \<Longrightarrow> bulk w' = bulk w"
  by (auto simp: reshuffle_def Let_def split: if_splits)

lemma playlist_queue_song_order_bulk [bulk_keeps]: "playlist_queue_song_order env c w = Some w' \<Longrightarrow> bulk w' = bulk w"
  by (auto simp: playlist_queue_song_order_def Let_def split: if_splits dest!: bulk_keeps)

lemma UpdateQueuedSong_bulk [bulk_keeps]: "UpdateQueuedSong env p w = Some w' \<Longrightarrow> bulk w' = bulk w"
  by (auto simp: UpdateQueuedSong_def Let_def split: if_splits bind_splits dest!: bulk_keeps)

lemma OnModified_bulk [simp]: "bulk (OnModified w) = bulk w"
  by (simp add: OnModified_def)

lemma PlayOrder_bulk [bulk_keeps]: "PlayOrder env c w = Some w' \<Longrightarrow> bulk w' = bulk w"
  by (auto simp: PlayOrder_def Let_def split: if_splits bind_splits dest!: bulk_keeps)

lemma playlist_Stop_bulk [bulk_keeps]: "playlist_Stop env w = Some w' \<Longrightarrow> bulk w' = bulk w"
  by (auto simp: playlist_Stop_def Let_def split: if_splits bind_splits dest!: bulk_keeps)

lemma DeleteInternal_bulk: "DeleteInternal env s (p, w) = Some (p', w') \<Longrightarrow> bulk w' = bulk w"
  by (auto simp: DeleteInternal_def Let_def split: if_splits bind_splits dest!: bulk_keeps)

lemma playlist_DeletePosition_bulk [bulk_keeps]: "playlist_DeletePosition env s w = Some (r, w') \<Longrightarrow> bulk w' = bulk w"
  by (auto simp: playlist_DeletePosition_def split: if_splits bind_splits dest!: bulk_keeps DeleteInternal_bulk)

lemma DeleteOrder_bulk [bulk_keeps]: "DeleteOrder env s w = Some (r, w') \<Longrightarrow> bulk w' = bulk w"
  by (auto simp: DeleteOrder_def split: if_splits bind_splits dest!: bulk_keeps)

lemma delete_down_bulk: "delete_down env a n s = Some s' \<Longrightarrow> bulk (snd s') = bulk (snd s)"
proof (induction n arbitrary: s)
  case (Suc n)
  then obtain u where "DeleteInternal env (a + n) s = Some u" "delete_down env a n u = Some s'"
    by (auto split: bind_splits)
  then show ?case using Suc.IH[of u] DeleteInternal_bulk[of env "a + n" "fst s" "snd s" "fst u" "snd u"] by simp
qed simp

lemma DeleteRange_bulk [bulk_keeps]: "DeleteRange env a b w = Some (r, w') \<Longrightarrow> bulk w' = bulk w"
  by (auto simp: DeleteRange_def Let_def split: if_splits bind_splits dest!: bulk_keeps delete_down_bulk)

lemma delete_equal_bulk: "delete_equal env s n w = Some w' \<Longrightarrow> bulk w' = bulk w"
proof (induction n arbitrary: w)
  case (Suc n)
  then show ?case by (auto split: if_splits bind_splits dest!: bulk_keeps)
qed simp

lemma PlayPosition_bulk [bulk_keeps]: "PlayPosition env s w = Some (r, w') \<Longrightarrow> bulk w' = bulk w"
  by (auto simp: PlayPosition_def Let_def split: if_splits bind_splits dest!: bulk_keeps)

lemma PlayId_bulk [bulk_keeps]: "PlayId env s w = Some (r, w') \<Longrightarrow> bulk w' = bulk w"
  by (auto simp: PlayId_def Let_def split: if_splits bind_splits dest!: bulk_keeps)

lemma PlayNext_bulk [bulk_keeps]: "PlayNext env w = Some w' \<Longrightarrow> bulk w' = bulk w"
  by (auto simp: PlayNext_def Let_def split: if_splits bind_splits dest!: bulk_keeps)

lemma PlayPrevious_bulk [bulk_keeps]: "PlayPrevious env w = Some w' \<Longrightarrow> bulk w' = bulk w"
  by (auto simp: PlayPrevious_def Let_def split: if_splits bind_splits dest!: bulk_keeps)

lemma AppendSong_bulk [bulk_keeps]: "AppendSong env s w = Some (r, x, w') \<Longrightarrow> bulk w' = bulk w"
  by (auto simp: AppendSong_def Let_def split: if_splits bind_splits dest!: bulk_keeps)

lemma AppendFile_bulk [bulk_keeps]: "AppendFile env l p w = Some (r, x, w') \<Longrightarrow> bulk w' = bulk w"
  by (auto simp: AppendFile_def split: option.splits dest!: bulk_keeps)

lemma AppendURI_bulk [bulk_keeps]: "AppendURI env d p w = Some (r, x, w') \<Longrightarrow> bulk w' = bulk w"
  by (auto simp: AppendURI_def split: option.splits if_splits dest!: bulk_keeps)

lemma SwapPositions_bulk [bulk_keeps]: "playlist_SwapPositions env a b w = Some (r, w') \<Longrightarrow> bulk w' = bulk w"
  by (auto simp: playlist_SwapPositions_def Let_def split: if_splits bind_splits dest!: bulk_keeps)

lemma SetPriorityRange_bulk [bulk_keeps]: "playlist_SetPriorityRange env a b p w = Some (r, w') \<Longrightarrow> bulk w' = bulk w"
  by (auto simp: playlist_SetPriorityRange_def Let_def split: if_splits bind_splits dest!: bulk_keeps)

lemma MoveRange_bulk [bulk_keeps]: "playlist_MoveRange env a b t w = Some (r, w') \<Longrightarrow> bulk w' = bulk w"
  by (auto simp: playlist_MoveRange_def MoveRange_apply_def Let_def split: if_splits bind_splits dest!: bulk_keeps)

lemma Shuffle_bulk [bulk_keeps]: "Shuffle env a b w = Some w' \<Longrightarrow> bulk w' = bulk w"
  by (auto simp: Shuffle_def Let_def split: if_splits bind_splits dest!: bulk_keeps)

lemma Clear_bulk [bulk_keeps]: "playlist_Clear env w = Some w' \<Longrightarrow> bulk w' = bulk w"
  by (auto simp: playlist_Clear_def split: bind_splits dest!: bulk_keeps)

lemma SetRepeat_bulk [bulk_keeps]: "SetRepeat env b w = Some w' \<Longrightarrow> bulk w' = bulk w"
  and SetSingle_bulk [bulk_keeps]: "SetSingle env b w = Some w' \<Longrightarrow> bulk w' = bulk w"
  by (auto simp: SetRepeat_def SetSingle_def Let_def split: if_splits bind_splits dest!: bulk_keeps)

lemma SetConsume_bulk [simp]: "bulk (SetConsume b w) = bulk w"
  by (simp add: SetConsume_def)

lemma playlist_order_bulk [bulk_keeps]: "playlist_order w = Some w' \<Longrightarrow> bulk w' = bulk w"
  by (auto simp: playlist_order_def Let_def split: if_splits bind_splits)

lemma SetRandom_bulk [bulk_keeps]: "SetRandom env b w = Some w' \<Longrightarrow> bulk w' = bulk w"
  by (auto simp: SetRandom_def Let_def split: if_splits bind_splits dest!: bulk_keeps)

lemma song_started_bulk [bulk_keeps]: "playlist_song_started env w = Some w' \<Longrightarrow> bulk w' = bulk w"
  by (auto simp: playlist_song_started_def Let_def split: if_splits bind_splits dest!: bulk_keeps)

lemma resume_playback_bulk [bulk_keeps]: "playlist_resume_playback env w = Some w' \<Longrightarrow> bulk w' = bulk w"
  by (auto simp: playlist_resume_playback_def Let_def split: if_splits bind_splits dest!: bulk_keeps)

lemma SyncWithPlayer_bulk [bulk_keeps]: "SyncWithPlayer env w = Some w' \<Longrightarrow> bulk w' = bulk w"
  by (auto simp: SyncWithPlayer_def Let_def split: if_splits bind_splits dest!: bulk_keeps)

lemma TagModified_bulk [bulk_keeps]: "TagModified s w = Some w' \<Longrightarrow> bulk w' = bulk w"
  by (auto simp: TagModified_def Let_def split: if_splits option.splits)

lemma DatabaseModified_bulk [simp]: "bulk (DatabaseModified d w) = bulk w"
  by (auto simp: DatabaseModified_def Let_def split: option.splits prod.splits)

section \<open>Requests\<close>

fun brackets :: "request \<Rightarrow> bool" where
  "brackets RqBeginBulk = True"
| "brackets RqCommitBulk = True"
| "brackets _ = False"

lemma perform_bulk:
  assumes "perform env r w = Some w'" "\<not> brackets r" "\<not> is_seek r"
  shows "bulk w' = bulk w"
  using assms
  by (cases r)
    (auto simp: DeleteId_def SwapIds_def SetPriorityId_def MoveId_def DeleteSong_def Let_def
      dest!: bulk_keeps delete_equal_bulk split: if_splits)

text \<open>
  The state between two commands of clients: the invariants of the player and of the playlist, and whether a
  bulk edit is going on.
\<close>

definition world_in :: "bool \<Rightarrow> unit thread_ext world \<Rightarrow> bool" where
  "world_in b w \<longleftrightarrow> thread_ok (w_pc w) \<and> playlist_inv w \<and> bulk w = b"

abbreviation world_ok :: "unit thread_ext world \<Rightarrow> bool" where
  "world_ok \<equiv> world_in False"

lemma request_ok:
  assumes "world_in b w" "legal r w" "\<not> is_seek r" "\<not> brackets r"
  shows "\<exists>w'. perform thread_env r w = Some w' \<and> world_in b w'"
proof -
  from pt.perform_total[of w r] assms obtain w' where w': "perform thread_env r w = Some w'" "thread_ok (w_pc w')" "playlist_inv w'"
    by (auto simp: world_in_def)
  then show ?thesis using perform_bulk[OF w'(1) assms(4,3)] assms(1) by (auto simp: world_in_def)
qed

lemma result_ok:
  assumes "world_in b w" "legal r w" "\<not> is_seek r" "\<not> brackets r" "perform thread_env r w = map_option snd x"
  shows "\<exists>e w'. x = Some (e, w') \<and> world_in b w'"
  using request_ok[OF assms(1-4)] assms(5) by auto

section \<open>The commands\<close>

text \<open>What a handler asks of the world, as requests.\<close>

lemma edits_ok:
  assumes "world_in b w"
  shows "\<exists>r w'. DeleteRange thread_env m n w = Some (r, w') \<and> world_in b w'"
    "\<exists>r w'. DeleteId thread_env i w = Some (r, w') \<and> world_in b w'"
    "\<exists>r w'. playlist_SetPriorityRange thread_env m n pr w = Some (r, w') \<and> world_in b w'"
    "\<exists>r w'. SetPriorityId thread_env i pr w = Some (r, w') \<and> world_in b w'"
    "\<exists>r w'. playlist_SwapPositions thread_env m n w = Some (r, w') \<and> world_in b w'"
    "\<exists>r w'. SwapIds thread_env m n w = Some (r, w') \<and> world_in b w'"
    "\<exists>r w'. PlayId thread_env j w = Some (r, w') \<and> world_in b w'"
  by (rule result_ok[OF assms, of "RqDeleteRange m n"] result_ok[OF assms, of "RqDeleteId i"]
      result_ok[OF assms, of "RqSetPriorityRange m n pr"] result_ok[OF assms, of "RqSetPriorityId i pr"]
      result_ok[OF assms, of "RqSwapPositions m n"] result_ok[OF assms, of "RqSwapIds m n"] result_ok[OF assms, of "RqPlayId j"]; simp)+

lemma moves_ok:
  assumes "world_in b w"
  shows "m \<le> n \<Longrightarrow> n < 2 ^ 32 \<Longrightarrow> to < 2 ^ 31 \<Longrightarrow> 0 \<le> to \<or> n \<le> Suc m \<Longrightarrow>
      \<exists>r w'. playlist_MoveRange thread_env m n to w = Some (r, w') \<and> world_in b w'"
    "to < 2 ^ 31 \<Longrightarrow> \<exists>r w'. MoveId thread_env i to w = Some (r, w') \<and> world_in b w'"
    "- (2 ^ 31) \<le> p \<Longrightarrow> p < 2 ^ 31 \<Longrightarrow> \<exists>r w'. PlayPosition thread_env p w = Some (r, w') \<and> world_in b w'"
  by (rule result_ok[OF assms, of "RqMoveRange m n to"] result_ok[OF assms, of "RqMoveId i to"]
      result_ok[OF assms, of "RqPlayPosition p"]; simp)+

lemma steps_ok:
  assumes "world_in b w"
  shows "\<exists>w'. playlist_Clear thread_env w = Some w' \<and> world_in b w'"
    "\<exists>w'. playlist_Stop thread_env w = Some w' \<and> world_in b w'"
    "\<exists>w'. PlayNext thread_env w = Some w' \<and> world_in b w'"
    "\<exists>w'. PlayPrevious thread_env w = Some w' \<and> world_in b w'"
    "\<exists>w'. SetRepeat thread_env f w = Some w' \<and> world_in b w'"
    "\<exists>w'. SetSingle thread_env f w = Some w' \<and> world_in b w'"
    "\<exists>w'. SetRandom thread_env f w = Some w' \<and> world_in b w'"
    "world_in b (SetConsume f w)"
    "m + 1 < 2 ^ 32 \<Longrightarrow> \<exists>w'. Shuffle thread_env m n w = Some w' \<and> world_in b w'"
  using request_ok[OF assms, of RqClear] request_ok[OF assms, of RqStop] request_ok[OF assms, of RqPlayNext]
    request_ok[OF assms, of RqPlayPrevious] request_ok[OF assms, of "RqSetRepeat f"] request_ok[OF assms, of "RqSetSingle f"]
    request_ok[OF assms, of "RqSetRandom f"] request_ok[OF assms, of "RqSetConsume f"] request_ok[OF assms, of "RqShuffle m n"]
  by simp_all

lemma appends_ok:
  assumes "world_in b w"
  shows "\<exists>r x w'. AppendSong thread_env s w = Some (r, x, w') \<and> world_in b w'"
    "\<exists>r x w'. AppendFile thread_env load path w = Some (r, x, w') \<and> world_in b w'"
    "\<exists>r x w'. AppendURI thread_env db uri w = Some (r, x, w') \<and> world_in b w'"
  using request_ok[OF assms, of "RqAppendSong s"] request_ok[OF assms, of "RqAppendFile load path"]
    request_ok[OF assms, of "RqAppendURI db uri"]
  by auto

text \<open>A song that was appended has an id.\<close>

lemma appended_id:
  "AppendSong env s w = Some (PR_SUCCESS, x, w') \<Longrightarrow> x \<noteq> None"
  "AppendFile env load path w = Some (PR_SUCCESS, x, w') \<Longrightarrow> x \<noteq> None"
  "AppendURI env db uri w = Some (PR_SUCCESS, x, w') \<Longrightarrow> x \<noteq> None"
proof -
  show s: "AppendSong env s w = Some (PR_SUCCESS, x, w') \<Longrightarrow> x \<noteq> None" for s
    by (auto simp: AppendSong_def Let_def split: if_splits bind_splits)
  show "AppendFile env load path w = Some (PR_SUCCESS, x, w') \<Longrightarrow> x \<noteq> None"
    using s by (auto simp: AppendFile_def split: option.splits)
  show "AppendURI env db uri w = Some (PR_SUCCESS, x, w') \<Longrightarrow> x \<noteq> None"
    using s by (auto simp: AppendURI_def split: option.splits if_splits)
qed

lemma brackets_ok:
  "world_ok w \<Longrightarrow> \<exists>w'. BeginBulk w = Some w' \<and> world_in True w'"
  "world_in True w \<Longrightarrow> \<exists>w'. CommitBulk thread_env w = Some w' \<and> world_ok w'"
proof -
  show "world_ok w \<Longrightarrow> \<exists>w'. BeginBulk w = Some w' \<and> world_in True w'"
    using pt.perform_total[of w RqBeginBulk] by (auto simp: world_in_def BeginBulk_def)
  assume w: "world_in True w"
  then obtain w' where w': "CommitBulk thread_env w = Some w'" "thread_ok (w_pc w')" "playlist_inv w'"
    using pt.perform_total[of w RqCommitBulk] by (auto simp: world_in_def)
  have "\<not> bulk w'" using w'(1) by (auto simp: CommitBulk_def Let_def split: if_splits bind_splits dest!: bulk_keeps)
  then show "\<exists>w'. CommitBulk thread_env w = Some w' \<and> world_ok w'" using w' by (auto simp: world_in_def)
qed

section \<open>The player\<close>

lemma world_pc:
  assumes "world_in b w" "thread_ok pc" "quiet (w_pc w) pc"
  shows "world_in b (w\<lparr>w_pc := pc\<rparr>)" "world_in b (w\<lparr>w_pc := pc, w_idle := idle\<rparr>)"
proof -
  have "playlist_inv (w\<lparr>w_pc := pc\<rparr>)" "playlist_inv (w\<lparr>w_pc := pc, w_idle := idle\<rparr>)"
    using assms by (auto simp: world_in_def quiet_def intro!: inv_pc)
  then show "world_in b (w\<lparr>w_pc := pc\<rparr>)" "world_in b (w\<lparr>w_pc := pc, w_idle := idle\<rparr>)"
    using assms by (simp_all add: world_in_def)
qed

lemma world_idle: "world_in b w \<Longrightarrow> world_in b (w\<lparr>w_idle := idle\<rparr>)"
  using world_pc(2)[of b w "w_pc w"] by (simp add: world_in_def quiet_def)

lemma player_ok:
  assumes "world_in b w"
  shows "\<exists>w'. on_pci (pc_SetPause thread_env f) w = Some w' \<and> world_in b w'"
    "\<exists>w'. on_pci (pc_Pause thread_env) w = Some w' \<and> world_in b w'"
    "\<exists>w'. on_pc (\<lambda>pc. Some (pc_ClearError thread_env pc)) w = Some w' \<and> world_in b w'"
    "\<exists>w'. on_pc (pc_UpdateAudio thread_env) w = Some w' \<and> world_in b w'"
    "\<exists>w'. on_pci (\<lambda>p. Some (pc_SetCrossFade t p)) w = Some w' \<and> world_in b w'"
    "\<exists>st pc. pc_GetStatus thread_env (w_pc w) = Some (st, pc) \<and> world_in b (w\<lparr>w_pc := pc\<rparr>)"
    "world_in b (w\<lparr>w_pc := Lock thread_env (w_pc w)\<rparr>)"
proof -
  have ok: "thread_ok (w_pc w)" and inv: "playlist_inv w" and bk: "bulk w = b" using assms by (simp_all add: world_in_def)
  show "\<exists>w'. on_pci (pc_SetPause thread_env f) w = Some w' \<and> world_in b w'"
    using pt.SetPause_ok[OF ok, of f "w_idle w"] world_pc(2)[OF assms] by (auto simp: on_pci_Some)
  show "\<exists>w'. on_pci (pc_Pause thread_env) w = Some w' \<and> world_in b w'"
    using pt.PauseLocked_ok[OF pt.Lock_ok(1)[OF ok], of "w_idle w"] world_pc(2)[OF assms] quiet_trans[OF pt.Lock_ok(2)[OF ok]]
    by (fastforce simp: pc_Pause_def intro: on_pci_Some)
  show "\<exists>w'. on_pc (\<lambda>pc. Some (pc_ClearError thread_env pc)) w = Some w' \<and> world_in b w'"
    using pt.inv_ClearError[OF ok inv] bk by (auto simp: world_in_def on_pc_def)
  show "\<exists>w'. on_pc (pc_UpdateAudio thread_env) w = Some w' \<and> world_in b w'"
    by (rule pt.lock_command_ok[OF ok, of PC_UPDATE_AUDIO])
      (auto simp: plain_commands_def pc_UpdateAudio_def on_pc_Some intro: world_pc(1)[OF assms])
  show "\<exists>w'. on_pci (\<lambda>p. Some (pc_SetCrossFade t p)) w = Some w' \<and> world_in b w'"
    by (auto simp: on_pci_def pc_SetCrossFade_def Let_def quiet_def intro!: world_pc(2)[OF assms] thread_ok_same[OF ok])
  show "\<exists>st pc. pc_GetStatus thread_env (w_pc w) = Some (st, pc) \<and> world_in b (w\<lparr>w_pc := pc\<rparr>)"
    using pt.GetStatus_ok[OF ok] world_pc(1)[OF assms] by blast
  show "world_in b (w\<lparr>w_pc := Lock thread_env (w_pc w)\<rparr>)"
    using world_pc(1)[OF assms pt.Lock_ok[OF ok]] .
qed

lemma single_ok: "world_in b w \<Longrightarrow> world_in b (set_queue ((w_queue w)\<lparr>q_single := f\<rparr>) w)"
  using flags_inv(1)[of w "(w_queue w)\<lparr>q_single := f\<rparr>" f] by (simp add: world_in_def)

lemma positions_ok:
  assumes "world_in b w"
  obtains p n where "GetCurrentPosition w = Some p" "- 1 \<le> p" "p < int (q_length (w_queue w))" "GetNextPosition w = Some n"
proof -
  have inv: "playlist_inv w" using assms by (simp add: world_in_def)
  note d = playlist_invD[OF inv]
  obtain n where n: "GetNextPosition w = Some n" using d(4)
    by (cases "GetNextPosition w") (auto simp: GetNextPosition_def Let_def IsValidOrder_def split: if_splits)
  show thesis by (rule pt.GetCurrentPosition_ok[OF inv]) (rule that[OF _ _ _ n])
qed

lemma found_position:
  "world_in b w \<Longrightarrow> \<not> IdToPosition (w_queue w) i < 0 \<Longrightarrow> nat (IdToPosition (w_queue w) i) < q_length (w_queue w)"
  using IdToPosition_spec(1) playlist_invD(1) by (auto simp: world_in_def)

end
