(* ===== verification/Client_Invariant.thy ===== *)
theory Client_Invariant
  imports Client_Lookup World_Commands
begin

text \<open>
  The invariant of the clients and what one operation on a client does to it: writing, idle
  notifications and messages never fail an assertion, whatever the socket takes.
\<close>

section \<open>Lines that are excluded\<close>

text \<open>
  Seeks may meet the decoder while it is being started; the other exceptions are the ranges and paths whose
  defects are properties of their own.
\<close>

definition tame :: "string list \<Rightarrow> bool" where
  "tame argv \<longleftrightarrow>
     (case argv of
        [] \<Rightarrow> True
      | cmd # args \<Rightarrow>
          cmd \<notin> {''seek'', ''seekid'', ''seekcur''} \<and>
          (cmd = ''move'' \<longrightarrow> (case args of
              r # d # _ \<Rightarrow> (case (check_range r, check_int d) of
                 (Inr (m, n), Inr to) \<Rightarrow> m \<le> n \<and> (0 \<le> to \<or> n \<le> Suc m) | _ \<Rightarrow> True)
            | _ \<Rightarrow> True)) \<and>
          (cmd = ''shuffle'' \<longrightarrow> (case args of
              r # _ \<Rightarrow> (case check_range r of Inr (m, n) \<Rightarrow> m + 1 < 2 ^ 32 | _ \<Rightarrow> True) | _ \<Rightarrow> True)) \<and>
          (cmd = ''update'' \<or> cmd = ''rescan'' \<longrightarrow> (case args of
              p # _ \<Rightarrow> uri_safe_local p \<noteq> None \<or> cmd = ''update'' \<and> p = ''/'' | _ \<Rightarrow> True)))"

definition tame_line :: "string \<Rightarrow> bool" where
  "tame_line line \<longleftrightarrow> NUL \<notin> set line \<and> (case parse_line line of Inl _ \<Rightarrow> True | Inr argv \<Rightarrow> tame argv)"

section \<open>The invariant\<close>

definition input_inv :: "input_buffer \<Rightarrow> bool" where
  "input_inv b \<longleftrightarrow> ib_head b \<le> length (ib_data b) \<and> length (ib_data b) \<le> INPUT_SIZE"

abbreviation memory_of :: "string list \<Rightarrow> nat" where
  "memory_of ls \<equiv> sum_list (map (\<lambda>l. length l + 1) ls)"

definition list_fits :: "nat \<Rightarrow> command_list \<Rightarrow> bool" where
  "list_fits max_size l \<longleftrightarrow> (cmd_mode l = ModeDisabled \<longrightarrow> cmd_lines l = []) \<and>
     memory_of (cmd_lines l) \<le> cmd_size l \<and> memory_of (cmd_lines l) \<le> max_size \<and> list_all tame_line (cmd_lines l)"

definition client_base :: "'e server_env \<Rightarrow> client \<Rightarrow> bool" where
  "client_base env cl \<longleftrightarrow> peak_inv (cl_output cl) \<and> input_inv (cl_input cl) \<and>
     list_fits (sv_max_command_list_size env) (cl_cmd_list cl) \<and>
     cl_num_subscriptions cl = length (cl_subscriptions cl) \<and> distinct (cl_subscriptions cl) \<and>
     length (cl_subscriptions cl) \<le> CLIENT_MAX_SUBSCRIPTIONS \<and> length (cl_messages cl) \<le> CLIENT_MAX_MESSAGES"

text \<open>
  Between two events a client whose socket is closed is about to be deleted, an idle client has no
  timeout, and a client that is read from has room for input.
\<close>

definition client_rest :: "client \<Rightarrow> bool" where
  "client_rest cl \<longleftrightarrow>
     (if cl_expired cl then cl_timer cl
      else (cl_idle_waiting cl \<longrightarrow> \<not> cl_timer cl) \<and> \<not> FifoBuffer_IsFull INPUT_SIZE (cl_input cl))"

text \<open>\<open>X\<close> holds the client that is being served.\<close>

definition server_ok :: "unit thread_ext server_env \<Rightarrow> nat set \<Rightarrow> unit thread_ext server \<Rightarrow> bool" where
  "server_ok env X i \<longleftrightarrow> world_ok (in_world i) \<and>
     (let l = in_client_list i
      in distinct (cls_list l) \<and> cls_size l = length (cls_list l) \<and> cls_size l \<le> cls_max_size l \<and> dom (in_clients i) = set (cls_list l)) \<and>
     (\<forall>k cl. in_clients i k = Some cl \<longrightarrow>
        k < in_next_client_num i \<and> client_base env cl \<and> (k \<notin> X \<longrightarrow> client_rest cl))"

text \<open>What a command leaves as it is.\<close>

definition kept :: "'e server \<Rightarrow> 'e server \<Rightarrow> bool" where
  "kept i i' \<longleftrightarrow> in_client_list i' = in_client_list i \<and>
     (\<forall>k. map_option (\<lambda>cl. (cl_cmd_list cl, cl_input cl)) (in_clients i' k) =
          map_option (\<lambda>cl. (cl_cmd_list cl, cl_input cl)) (in_clients i k))"

definition attending :: "unit thread_ext server_env \<Rightarrow> nat \<Rightarrow> unit thread_ext server \<Rightarrow> bool" where
  "attending env c i \<longleftrightarrow> server_ok env {c} i \<and> (\<exists>cl. in_clients i c = Some cl \<and> \<not> cl_idle_waiting cl)"

text \<open>The outcome of a command.\<close>

definition good ::
    "unit thread_ext server_env \<Rightarrow> nat \<Rightarrow> unit thread_ext server \<Rightarrow>
     (CommandResult \<times> unit thread_ext server) option \<Rightarrow> bool" where
  "good env c i x \<longleftrightarrow> (\<exists>r i'. x = Some (r, i') \<and> server_ok env {c} i' \<and> kept i i' \<and>
     (\<exists>cl. in_clients i' c = Some cl \<and> (cl_idle_waiting cl \<longrightarrow> r = CR_IDLE \<and> (cl_expired cl \<or> \<not> cl_timer cl))))"

lemma kept_refl [simp]: "kept i i"
  by (simp add: kept_def)

lemma kept_trans: "kept i j \<Longrightarrow> kept j k \<Longrightarrow> kept i k"
  by (simp add: kept_def)

lemma kept_fields [simp]:
  "kept i (j\<lparr>in_world := w\<rparr>) = kept i j" "kept i (j\<lparr>in_current_command := x\<rparr>) = kept i j"
  "kept i (j\<lparr>in_command_list_num := n\<rparr>) = kept i j" "kept i (j\<lparr>in_outputs := os\<rparr>) = kept i j"
  "kept i (j\<lparr>in_output_state_version := v\<rparr>) = kept i j"
  "kept (i\<lparr>in_current_command := x\<rparr>) j = kept i j" "kept (i\<lparr>in_command_list_num := n\<rparr>) j = kept i j"
  by (simp_all add: kept_def)

lemma kept_set_client:
  assumes "kept i j" "in_clients j c = Some cl" "cl_cmd_list cl' = cl_cmd_list cl" "cl_input cl' = cl_input cl"
  shows "kept i (set_client c cl' j)"
proof -
  let ?f = "map_option (\<lambda>cl. (cl_cmd_list cl, cl_input cl))"
  have k: "?f (in_clients j k) = ?f (in_clients i k)" for k using assms(1) by (simp add: kept_def)
  have "?f (in_clients (set_client c cl' j) k) = ?f (in_clients j k)" for k
    using assms(2-4) by (simp add: set_client_def)
  then show ?thesis using assms(1) k by (simp add: kept_def set_client_def)
qed

lemma server_fields [simp]:
  "server_ok env X (i\<lparr>in_current_command := x\<rparr>) = server_ok env X i"
  "server_ok env X (i\<lparr>in_command_list_num := n\<rparr>) = server_ok env X i"
  "server_ok env X (i\<lparr>in_outputs := os\<rparr>) = server_ok env X i"
  "server_ok env X (i\<lparr>in_output_state_version := v\<rparr>) = server_ok env X i"
  by (simp_all add: server_ok_def)

lemma ready_fields [simp]:
  "attending env c (i\<lparr>in_current_command := x\<rparr>) = attending env c i"
  "attending env c (i\<lparr>in_command_list_num := n\<rparr>) = attending env c i"
  "attending env c (i\<lparr>in_outputs := os\<rparr>) = attending env c i"
  "attending env c (i\<lparr>in_output_state_version := v\<rparr>) = attending env c i"
  by (simp_all add: attending_def)

lemma server_world: "server_ok env X i \<Longrightarrow> world_ok w \<Longrightarrow> server_ok env X (i\<lparr>in_world := w\<rparr>)"
  by (simp add: server_ok_def)

lemma ready_world: "attending env c i \<Longrightarrow> world_ok w \<Longrightarrow> attending env c (i\<lparr>in_world := w\<rparr>)"
  by (simp add: attending_def server_world)

lemma ready_world_ok [simp]: "attending env c i \<Longrightarrow> world_ok (in_world i)"
  by (simp add: attending_def server_ok_def)

lemma server_set_client:
  assumes "server_ok env X i" "in_clients i c = Some cl0" "client_base env cl" "c \<in> X \<or> client_rest cl"
  shows "server_ok env X (set_client c cl i)"
  using assms by (auto simp: server_ok_def set_client_def Let_def)

lemma server_client:
  "server_ok env X i \<Longrightarrow> in_clients i k = Some cl \<Longrightarrow> client_base env cl \<and> (k \<notin> X \<longrightarrow> client_rest cl)"
  by (simp add: server_ok_def)

lemma set_client_fields [simp]:
  "in_world (set_client c cl i) = in_world i" "in_client_list (set_client c cl i) = in_client_list i"
  "in_current_command (set_client c cl i) = in_current_command i" "in_outputs (set_client c cl i) = in_outputs i"
  "in_clients (set_client c cl i) k = (if k = c then Some cl else in_clients i k)"
  "get_client k (set_client c cl i) = (if k = c then cl else get_client k i)"
  by (simp_all add: set_client_def get_client_def)

lemma ready_set_client:
  assumes "attending env c i" "client_base env cl" "\<not> cl_idle_waiting cl"
  shows "attending env c (set_client c cl i)"
  using assms server_set_client[of env "{c}" i c _ cl] by (auto simp: attending_def)

lemma readyE:
  assumes "attending env c i"
  obtains cl where "in_clients i c = Some cl" "get_client c i = cl" "client_base env cl" "\<not> cl_idle_waiting cl" "server_ok env {c} i"
  using assms server_client by (auto simp: attending_def get_client_def)

section \<open>Writing\<close>

text \<open>
  Only the output buffer changes, which has got the texts at its end, unless they did not fit and the
  client has been given up.
\<close>

definition output_only :: "client \<Rightarrow> client \<Rightarrow> bool" where
  "output_only cl cl' \<longleftrightarrow> cl_permission cl' = cl_permission cl \<and> cl_uid cl' = cl_uid cl \<and> cl_cmd_list cl' = cl_cmd_list cl \<and>
     cl_idle_waiting cl' = cl_idle_waiting cl \<and> cl_idle_flags cl' = cl_idle_flags cl \<and>
     cl_idle_subscriptions cl' = cl_idle_subscriptions cl \<and> cl_subscriptions cl' = cl_subscriptions cl \<and>
     cl_num_subscriptions cl' = cl_num_subscriptions cl \<and> cl_messages cl' = cl_messages cl \<and> cl_input cl' = cl_input cl"

definition wrote :: "string list \<Rightarrow> client \<Rightarrow> client \<Rightarrow> bool" where
  "wrote ts cl cl' \<longleftrightarrow> output_only cl cl' \<and> peak_inv (cl_output cl') \<and>
     (if cl_expired cl then cl_expired cl' \<and> cl_timer cl' = cl_timer cl
      else if cl_expired cl' then cl_timer cl'
      else cl_timer cl' = cl_timer cl \<and> peak_content (cl_output cl') = peak_content (cl_output cl) @ concat ts)"

lemma client_write_wrote:
  assumes "peak_inv (cl_output cl)"
  shows "\<exists>cl'. client_write env s cl = Some cl' \<and> wrote [s] cl cl'"
proof (cases "cl_expired cl \<or> s = []")
  case True
  then show ?thesis using assms by (auto simp: client_write_def wrote_def output_only_def)
next
  case False
  from peak.put[OF assms, of "sv_huge_memory env" s] obtain ok b where
    b: "PeakBuffer_Append (sv_huge_memory env) s (cl_output cl) = Some (ok, b)" "peak_inv b"
      "ok \<longrightarrow> peak_content b = peak_content (cl_output cl) @ s" by blast
  let ?cl = "cl\<lparr>cl_output := b\<rparr>" and ?w = "\<lambda>cl'. client_write env s cl = Some cl'"
  have "?w (if ok then ?cl else SetExpired ?cl)" using False b(1) by (simp add: client_write_def Socket_Write_def Let_def)
  moreover have "wrote [s] cl (if ok then ?cl else SetExpired ?cl)"
    using False b(2,3) by (simp add: wrote_def output_only_def SetExpired_def)
  ultimately show ?thesis by blast
qed

lemma wrote_trans: "wrote ts cl cl1 \<Longrightarrow> wrote us cl1 cl2 \<Longrightarrow> wrote (ts @ us) cl cl2"
  by (simp add: wrote_def output_only_def split: if_splits)

lemma client_puts_wrote: "peak_inv (cl_output cl) \<Longrightarrow> \<exists>cl'. client_puts env s cl = Some cl' \<and> wrote [s] cl cl'"
  unfolding client_puts_def by (rule client_write_wrote)

lemma wrote_peak: "wrote ts cl cl' \<Longrightarrow> peak_inv (cl_output cl')"
  by (simp add: wrote_def)

lemma client_puts_all_wrote:
  "peak_inv (cl_output cl) \<Longrightarrow> \<exists>cl'. client_puts_all env ts cl = Some cl' \<and> wrote ts cl cl'"
proof (induction ts arbitrary: cl)
  case Nil
  then show ?case by (simp add: wrote_def output_only_def)
next
  case (Cons s ts)
  from client_puts_wrote[OF Cons.prems, of env s] obtain cl1 where 1: "client_puts env s cl = Some cl1" "wrote [s] cl cl1" by blast
  from Cons.IH[OF wrote_peak[OF 1(2)]] obtain cl2 where 2: "client_puts_all env ts cl1 = Some cl2" "wrote ts cl1 cl2" by blast
  then show ?case using 1 wrote_trans[OF 1(2) 2(2)] by simp
qed

lemma wrote_base: "wrote ts cl cl' \<Longrightarrow> client_base env cl \<Longrightarrow> client_base env cl'"
  by (simp add: wrote_def output_only_def client_base_def)

lemma wrote_rest: "wrote ts cl cl' \<Longrightarrow> client_rest cl \<Longrightarrow> client_rest cl'"
  by (simp add: wrote_def output_only_def client_rest_def split: if_splits)

lemma wrote_same:
  "wrote ts cl cl' \<Longrightarrow> cl_cmd_list cl' = cl_cmd_list cl \<and> cl_input cl' = cl_input cl \<and> cl_idle_waiting cl' = cl_idle_waiting cl \<and>
     cl_messages cl' = cl_messages cl \<and> cl_subscriptions cl' = cl_subscriptions cl \<and>
     (cl_expired cl \<longrightarrow> cl_expired cl') \<and> (cl_timer cl \<longrightarrow> cl_timer cl')"
  by (simp add: wrote_def output_only_def split: if_splits)

lemma base_peak: "client_base env cl \<Longrightarrow> peak_inv (cl_output cl)"
  by (simp add: client_base_def)

text \<open>The same on the server.\<close>

lemma tell_ok:
  assumes "attending env c i"
  shows "\<exists>i'. tell env c ts i = Some i' \<and> attending env c i' \<and> kept i i' \<and> in_current_command i' = in_current_command i \<and>
    wrote ts (get_client c i) (get_client c i')"
proof -
  from assms obtain cl where cl: "in_clients i c = Some cl" "get_client c i = cl" "client_base env cl" "\<not> cl_idle_waiting cl"
    by (rule readyE)
  from client_puts_all_wrote[OF base_peak[OF cl(3)]] obtain cl' where
    w: "client_puts_all env ts cl = Some cl'" "wrote ts cl cl'" by blast
  note s = wrote_same[OF w(2)]
  have "tell env c ts i = Some (set_client c cl' i)" using w cl by (simp add: tell_def on_client_def)
  moreover have "attending env c (set_client c cl' i)"
    by (rule ready_set_client[OF assms wrote_base[OF w(2) cl(3)]]) (use s cl in simp)
  moreover have "kept i (set_client c cl' i)" by (rule kept_set_client[OF kept_refl cl(1)]) (use s in simp_all)
  ultimately show ?thesis using w cl by simp
qed

lemma command_error_ok:
  assumes "attending env c i" "in_current_command i \<noteq> None"
  shows "\<exists>i'. command_error env c e msg i = Some i' \<and> attending env c i' \<and> kept i i'"
proof -
  from assms(2) obtain cmd where cmd: "in_current_command i = Some cmd" by blast
  let ?ts = "[''ACK ['' @ dec (ack_code e) @ ''@'' @ dec (in_command_list_num i) @ ''] {'' @ cmd @ ''} '', msg, nl]"
  from tell_ok[OF assms(1), of ?ts] obtain i' where "tell env c ?ts i = Some i'" "attending env c i'" "kept i i'" by blast
  then show ?thesis using cmd by (simp add: command_error_def tell_def)
qed

section \<open>Outcomes\<close>

lemma good_trans: "good env c j x \<Longrightarrow> kept i j \<Longrightarrow> good env c i x"
  unfolding good_def using kept_trans by blast

lemma good_done: "attending env c j \<Longrightarrow> kept i j \<Longrightarrow> good env c i (Some (r, j))"
  by (auto simp: good_def attending_def)

lemma good_reply: "attending env c i \<Longrightarrow> good env c i (reply env c ts i)"
  using tell_ok[of env c i ts] by (auto simp: reply_def intro: good_done)

lemma good_refuse: "attending env c i \<Longrightarrow> in_current_command i \<noteq> None \<Longrightarrow> good env c i (refuse env c e msg i)"
  using command_error_ok[of env c i e msg] by (auto simp: refuse_def intro: good_done)

lemma good_parsed:
  "attending env c i \<Longrightarrow> in_current_command i \<noteq> None \<Longrightarrow> (\<And>v. r = Inr v \<Longrightarrow> good env c i (k v)) \<Longrightarrow> good env c i (parsed env c i r k)"
  by (auto simp: parsed_def good_refuse split: sum.splits)

lemma good_result:
  "attending env c i \<Longrightarrow> in_current_command i \<noteq> None \<Longrightarrow> good env c i (print_playlist_result env c r i)"
  by (cases r) (auto simp: print_playlist_result_def good_refuse good_done)

lemma on_list_ok:
  assumes "attending env c i" "\<exists>r w'. f (in_world i) = Some (r, w') \<and> world_ok w'"
  shows "\<exists>r i'. on_list f i = Some (r, i') \<and> attending env c i' \<and> kept i i' \<and> in_current_command i' = in_current_command i"
  using assms by (auto simp: on_list_def ready_world)

lemma on_world_ok:
  assumes "attending env c i" "\<exists>w'. f (in_world i) = Some w' \<and> world_ok w'"
  shows "\<exists>i'. on_world f i = Some i' \<and> attending env c i' \<and> kept i i' \<and> in_current_command i' = in_current_command i \<and>
    in_outputs i' = in_outputs i"
  using assms by (auto simp: on_world_def ready_world)

lemma good_edit:
  assumes "attending env c i" "in_current_command i \<noteq> None" "\<exists>r w'. f (in_world i) = Some (r, w') \<and> world_ok w'"
  shows "good env c i (edit env c f i)"
proof -
  from on_list_ok[of env c i f, OF assms(1,3)] obtain r i' where
    i': "on_list f i = Some (r, i')" "attending env c i'" "kept i i'" "in_current_command i' = in_current_command i" by blast
  have "good env c i' (print_playlist_result env c r i')" by (rule good_result[OF i'(2)]) (use assms(2) i'(4) in simp)
  then show ?thesis using good_trans i'(1,3) by (simp add: edit_def)
qed

lemma good_done_ok:
  assumes "attending env c i" "\<exists>w'. f (in_world i) = Some w' \<and> world_ok w'"
  shows "good env c i (done_ok (on_world f i))"
  using on_world_ok[of env c i f, OF assms] by (auto simp: done_ok_def intro: good_done)

section \<open>Idle\<close>

lemma IdleNotify_ok:
  assumes "client_base env cl" "cl_idle_waiting cl" "cl_idle_flags cl \<noteq> 0"
  shows "\<exists>cl'. IdleNotify env cl = Some cl' \<and> client_base env cl' \<and> \<not> cl_idle_waiting cl' \<and> cl_timer cl' \<and>
    cl_cmd_list cl' = cl_cmd_list cl \<and> cl_input cl' = cl_input cl \<and> cl_messages cl' = cl_messages cl"
proof -
  let ?cl = "cl\<lparr>cl_idle_flags := 0, cl_idle_waiting := False\<rparr>"
  let ?ts = "map (\<lambda>j. ''changed: '' @ idle_names ! j @ nl)
      (filter (\<lambda>j. and (and (cl_idle_flags cl) (push_bit j 1)) (cl_idle_subscriptions cl) \<noteq> 0) [0..<length idle_names])"
  have base: "client_base env ?cl" using assms(1) by (simp add: client_base_def)
  from client_puts_all_wrote[OF base_peak[OF base], of env ?ts] obtain cl1 where
    1: "client_puts_all env ?ts ?cl = Some cl1" "wrote ?ts ?cl cl1" by blast
  from client_puts_wrote[OF wrote_peak[OF 1(2)], of env "''OK'' @ nl"] obtain cl2 where
    2: "client_puts env (''OK'' @ nl) cl1 = Some cl2" "wrote [''OK'' @ nl] cl1 cl2" by blast
  have "IdleNotify env cl = Some (ScheduleSeconds cl2)"
    using assms(2,3) 1(1) 2(1) by (simp add: IdleNotify_def Let_def)
  moreover have "client_base env (ScheduleSeconds cl2)"
    using wrote_base[OF 2(2) wrote_base[OF 1(2) base]] by (simp add: ScheduleSeconds_def client_base_def)
  ultimately show ?thesis using wrote_same[OF 1(2)] wrote_same[OF 2(2)] by (simp add: ScheduleSeconds_def)
qed

lemma IdleAdd_ok:
  assumes "client_base env cl"
  shows "\<exists>cl'. IdleAdd env flags cl = Some cl' \<and> client_base env cl' \<and> (client_rest cl \<longrightarrow> client_rest cl') \<and>
    (cl_idle_waiting cl' \<longrightarrow> cl_idle_waiting cl) \<and> cl_cmd_list cl' = cl_cmd_list cl \<and> cl_input cl' = cl_input cl \<and>
    cl_messages cl' = cl_messages cl"
proof (cases "cl_expired cl")
  case False
  let ?cl = "cl\<lparr>cl_idle_flags := or (cl_idle_flags cl) flags\<rparr>"
  have base: "client_base env ?cl" using assms by (simp add: client_base_def)
  show ?thesis
  proof (cases "cl_idle_waiting cl \<and> and (cl_idle_flags ?cl) (cl_idle_subscriptions cl) \<noteq> 0")
    case True
    then have "cl_idle_flags ?cl \<noteq> 0" by auto
    from IdleNotify_ok[OF base _ this] True obtain cl' where
      "IdleNotify env ?cl = Some cl'" "client_base env cl'" "\<not> cl_idle_waiting cl'" "cl_timer cl'"
      "cl_cmd_list cl' = cl_cmd_list cl" "cl_input cl' = cl_input cl" "cl_messages cl' = cl_messages cl" by auto
    moreover have "IdleAdd env flags cl = IdleNotify env ?cl" using True False by (simp add: IdleAdd_def)
    ultimately show ?thesis using False by (simp add: client_rest_def)
  next
    case nt: False
    then have "IdleAdd env flags cl = Some ?cl" using False by (auto simp: IdleAdd_def Let_def)
    then show ?thesis using base by (simp add: client_rest_def)
  qed
qed (use assms in \<open>simp add: IdleAdd_def\<close>)

lemma IdleWait_ok:
  assumes "client_base env cl" "\<not> cl_idle_waiting cl"
  shows "\<exists>cl'. IdleWait env flags cl = Some cl' \<and> client_base env cl' \<and> (cl_idle_waiting cl' \<longrightarrow> \<not> cl_timer cl') \<and>
    cl_cmd_list cl' = cl_cmd_list cl \<and> cl_input cl' = cl_input cl"
proof -
  let ?cl = "cl\<lparr>cl_idle_waiting := True, cl_idle_subscriptions := flags\<rparr>"
  have base: "client_base env ?cl" using assms by (simp add: client_base_def)
  show ?thesis
  proof (cases "and (cl_idle_flags cl) flags = 0")
    case True
    then show ?thesis using assms base by (simp add: IdleWait_def Let_def client_base_def)
  next
    case False
    then have "cl_idle_flags ?cl \<noteq> 0" by auto
    from IdleNotify_ok[OF base _ this] show ?thesis using assms False by (auto simp: IdleWait_def Let_def)
  qed
qed

section \<open>Notifications\<close>

text \<open>The names of the bits of a set of idle events, and a response with them.\<close>

definition idle_list_of :: "32 word \<Rightarrow> string list" where
  "idle_list_of flags = map (\<lambda>j. idle_names ! j) (filter (bit flags) [0..<length idle_names])"

definition answered :: "32 word \<Rightarrow> client \<Rightarrow> client \<Rightarrow> bool" where
  "answered flags cl cl' \<longleftrightarrow> \<not> cl_idle_waiting cl' \<and> cl_idle_flags cl' = 0 \<and> cl_timer cl' \<and>
     (\<not> cl_expired cl' \<longrightarrow> peak_content (cl_output cl') =
        peak_content (cl_output cl) @ concat (map (\<lambda>name. ''changed: '' @ name @ nl) (idle_list_of flags)) @ ''OK'' @ nl)"

text \<open>What is not answered is kept.\<close>

definition still_waits :: "32 word \<Rightarrow> 32 word \<Rightarrow> client \<Rightarrow> client \<Rightarrow> bool" where
  "still_waits flags wanted cl cl' \<longleftrightarrow>
     cl' = cl\<lparr>cl_idle_waiting := True, cl_idle_flags := flags, cl_idle_subscriptions := wanted, cl_timer := False\<rparr>"

lemma and_push_bit_one: "and (and flags (push_bit j 1)) wanted \<noteq> 0 \<longleftrightarrow> bit (and flags wanted) j" for flags :: "'a::len word"
proof
  assume "and (and flags (push_bit j 1)) wanted \<noteq> 0"
  then obtain n where "bit (and (and flags (push_bit j 1)) wanted) n" by (metis bit_eqI bit_0_eq bot_apply bot_bool_def)
  then show "bit (and flags wanted) j" by (auto simp: bit_simps)
next
  assume b: "bit (and flags wanted) j"
  then have "j < LENGTH('a)" by (rule bit_imp_le_length)
  then have "bit (and (and flags (push_bit j 1)) wanted) j" using b by (simp add: bit_simps)
  then show "and (and flags (push_bit j 1)) wanted \<noteq> 0" by auto
qed

lemma IdleNotify_answered:
  assumes "peak_inv (cl_output cl)" "cl_idle_waiting cl" "\<not> cl_expired cl" "and (cl_idle_flags cl) (cl_idle_subscriptions cl) \<noteq> 0"
  shows "\<exists>cl'. IdleNotify env cl = Some cl' \<and> answered (and (cl_idle_flags cl) (cl_idle_subscriptions cl)) cl cl'"
proof -
  let ?cl = "cl\<lparr>cl_idle_flags := 0, cl_idle_waiting := False\<rparr>"
  let ?ts = "map (\<lambda>j. ''changed: '' @ idle_names ! j @ nl)
      (filter (bit (and (cl_idle_flags cl) (cl_idle_subscriptions cl))) [0..<length idle_names])"
  have peak: "peak_inv (cl_output ?cl)" using assms(1) by simp
  from client_puts_all_wrote[OF peak, of env ?ts] obtain cl1 where
    1: "client_puts_all env ?ts ?cl = Some cl1" "wrote ?ts ?cl cl1" by blast
  from client_puts_wrote[OF wrote_peak[OF 1(2)], of env "''OK'' @ nl"] obtain cl2 where
    2: "client_puts env (''OK'' @ nl) cl1 = Some cl2" "wrote [''OK'' @ nl] cl1 cl2" by blast
  have "cl_idle_flags cl \<noteq> 0" using assms(4) by auto
  then have n: "IdleNotify env cl = Some (ScheduleSeconds cl2)"
    unfolding IdleNotify_def and_push_bit_one using assms(2) 1(1) 2(1) by (simp add: Let_def)
  have w: "wrote (?ts @ [''OK'' @ nl]) ?cl cl2" by (rule wrote_trans[OF 1(2) 2(2)])
  have t: "map (\<lambda>name. ''changed: '' @ name @ nl) (idle_list_of (and (cl_idle_flags cl) (cl_idle_subscriptions cl))) = ?ts"
    by (simp add: idle_list_of_def)
  have "answered (and (cl_idle_flags cl) (cl_idle_subscriptions cl)) cl (ScheduleSeconds cl2)"
    unfolding answered_def t using w assms(3) by (simp add: wrote_def output_only_def ScheduleSeconds_def)
  then show ?thesis using n by blast
qed

text \<open>Events while the client does not wait, and one while it does.\<close>

primrec idle_adds :: "'e server_env \<Rightarrow> 32 word list \<Rightarrow> client \<Rightarrow> client option" where
  "idle_adds env [] cl = Some cl"
| "idle_adds env (f # fs) cl = Option.bind (IdleAdd env f cl) (idle_adds env fs)"

lemma idle_adds_collects:
  assumes "\<not> cl_idle_waiting cl" "\<not> cl_expired cl"
  shows "idle_adds env fs cl = Some (cl\<lparr>cl_idle_flags := fold (\<lambda>f a. or a f) fs (cl_idle_flags cl)\<rparr>)"
  using assms
proof (induction fs arbitrary: cl)
  case (Cons f fs)
  then have "IdleAdd env f cl = Some (cl\<lparr>cl_idle_flags := or (cl_idle_flags cl) f\<rparr>)" by (simp add: IdleAdd_def)
  then show ?case using Cons by simp
qed simp

lemma IdleWait_reports:
  assumes "peak_inv (cl_output cl)" "\<not> cl_idle_waiting cl" "\<not> cl_expired cl"
  shows "\<exists>cl'. IdleWait env wanted cl = Some cl' \<and>
    (if and (cl_idle_flags cl) wanted = 0 then still_waits (cl_idle_flags cl) wanted cl cl' else answered (and (cl_idle_flags cl) wanted) cl cl')"
proof (cases "and (cl_idle_flags cl) wanted = 0")
  case False
  let ?cl = "cl\<lparr>cl_idle_waiting := True, cl_idle_subscriptions := wanted\<rparr>"
  from IdleNotify_answered[of ?cl env] assms False show ?thesis by (simp add: IdleWait_def answered_def)
qed (use assms in \<open>simp add: IdleWait_def still_waits_def\<close>)

lemma IdleAdd_reports:
  assumes "peak_inv (cl_output cl)" "still_waits flags wanted cl0 cl" "\<not> cl_expired cl"
  shows "\<exists>cl'. IdleAdd env g cl = Some cl' \<and>
    (if and (or flags g) wanted = 0 then still_waits (or flags g) wanted cl cl' else answered (and (or flags g) wanted) cl cl')"
proof (cases "and (or flags g) wanted = 0")
  case False
  let ?cl = "cl\<lparr>cl_idle_flags := or flags g\<rparr>"
  from IdleNotify_answered[of ?cl env] assms False show ?thesis by (simp add: IdleAdd_def still_waits_def answered_def)
next
  case True
  from assms(2,3) True show ?thesis by (simp add: IdleAdd_def still_waits_def)
qed

end
