(* ===== verification/Client_Contract.thy ===== *)
theory Client_Contract
  imports Client_Invariant
begin

text \<open>
  The handlers: each of them, called with an allowed number of arguments, returns without a failed assertion
  and keeps the invariant.
\<close>

definition served :: "unit thread_ext server_env \<Rightarrow> nat \<Rightarrow> unit thread_ext server \<Rightarrow> bool" where
  "served env c i \<longleftrightarrow> attending env c i \<and> in_current_command i \<noteq> None"

text \<open>The player is the modelled one, and handlers that are not modelled do what handlers do.\<close>

definition setting :: "unit thread_ext server_env \<Rightarrow> bool" where
  "setting env \<longleftrightarrow> sv_player env = thread_env \<and>
     (\<forall>name c argv i. served env c i \<and> argv \<noteq> [] \<longrightarrow> good env c i (sv_other env name c argv i))"

lemma setting_player [simp]: "setting env \<Longrightarrow> sv_player env = thread_env"
  by (simp add: setting_def)

lemma served_ready [simp]: "served env c i \<Longrightarrow> attending env c i"
  by (simp add: served_def)

lemma served_world [simp]: "served env c i \<Longrightarrow> world_ok (in_world i)"
  using ready_world_ok by (auto simp: served_def)

lemma served_refuse: "served env c i \<Longrightarrow> good env c i (refuse env c e msg i)"
  by (simp add: served_def good_refuse)

lemma served_result: "served env c i \<Longrightarrow> good env c i (print_playlist_result env c r i)"
  by (simp add: served_def good_result)

lemma served_parsed:
  "served env c i \<Longrightarrow> (\<And>v. r = Inr v \<Longrightarrow> good env c i (k v)) \<Longrightarrow> good env c i (parsed env c i r k)"
  unfolding served_def by (rule good_parsed) auto

lemma served_edit:
  "served env c i \<Longrightarrow> \<exists>r w'. f (in_world i) = Some (r, w') \<and> world_ok w' \<Longrightarrow> good env c i (edit env c f i)"
  unfolding served_def by (rule good_edit) auto

lemma served_list:
  assumes "served env c i" "\<exists>r w'. f (in_world i) = Some (r, w') \<and> world_ok w'"
  obtains r j where "on_list f i = Some (r, j)" "served env c j" "kept i j"
  using on_list_ok[of env c i f] assms by (auto simp: served_def)

lemma served_on_world:
  assumes "served env c i" "\<exists>w'. f (in_world i) = Some w' \<and> world_ok w'"
  obtains j where "on_world f i = Some j" "served env c j" "kept i j"
  using on_world_ok[of env c i f] assms by (auto simp: served_def)

lemma served_some: "served env c i \<Longrightarrow> good env c i (Some (r, i))"
  by (rule good_done) simp_all

lemmas served_reply = good_reply[OF served_ready]
  and served_done = good_done_ok[OF served_ready]

lemmas served_rules = served_parsed served_refuse served_result served_reply served_some

lemma arg_Some [simp]: "n < length argv \<Longrightarrow> arg argv n = Some (argv ! n)"
  by (simp add: arg_def)

named_theorems handlers \<open>handlers that keep the invariant\<close>

section \<open>The queue\<close>

lemma handle_delete_ok [handlers]:
  "setting env \<Longrightarrow> served env c i \<Longrightarrow> length argv = 2 \<Longrightarrow> good env c i (handle_delete env c argv i)"
  by (auto simp: handle_delete_def intro!: served_parsed served_edit edits_ok)

lemma handle_deleteid_ok [handlers]:
  "setting env \<Longrightarrow> served env c i \<Longrightarrow> length argv = 2 \<Longrightarrow> good env c i (handle_deleteid env c argv i)"
  by (auto simp: handle_deleteid_def intro!: served_parsed served_edit edits_ok)

lemma handle_swap_ok [handlers]:
  "setting env \<Longrightarrow> served env c i \<Longrightarrow> length argv = 3 \<Longrightarrow> good env c i (handle_swap env c argv i)"
  by (auto simp: handle_swap_def intro!: served_parsed served_edit edits_ok)

lemma handle_swapid_ok [handlers]:
  "setting env \<Longrightarrow> served env c i \<Longrightarrow> length argv = 3 \<Longrightarrow> good env c i (handle_swapid env c argv i)"
  by (auto simp: handle_swapid_def intro!: served_parsed served_edit edits_ok)

lemma handle_moveid_ok [handlers]:
  "setting env \<Longrightarrow> served env c i \<Longrightarrow> length argv = 3 \<Longrightarrow> good env c i (handle_moveid env c argv i)"
  by (auto simp: handle_moveid_def dest: check_int_bound intro!: served_parsed served_edit moves_ok(2))

lemma handle_move_ok [handlers]:
  assumes "setting env" "served env c i" "length argv = 3" "hd argv = ''move''" "tame argv"
  shows "good env c i (handle_move env c argv i)"
proof -
  obtain r d where argv: "argv = [''move'', r, d]" using assms(3,4) by (auto simp: length_Suc_conv numeral_3_eq_3)
  have "\<exists>x w'. playlist_MoveRange thread_env m n to (in_world i) = Some (x, w') \<and> world_ok w'"
    if r: "check_range r = Inr (m, n)" and d: "check_int d = Inr to" for m n to
  proof (rule moves_ok(1))
    show "m \<le> n" "0 \<le> to \<or> n \<le> Suc m" using assms(5) r d by (auto simp: argv tame_def)
    show "n < 2 ^ 32" using check_range_bound[OF r] by simp
    show "to < 2 ^ 31" using check_int_bound[OF d] by simp
  qed (use assms(2) in simp)
  then show ?thesis using assms(1,2) by (auto simp: handle_move_def argv intro!: served_parsed served_edit)
qed

lemma handle_clear_ok [handlers]:
  "setting env \<Longrightarrow> served env c i \<Longrightarrow> good env c i (handle_clear env c argv i)"
  by (auto simp: handle_clear_def intro!: served_done steps_ok)

lemma handle_shuffle_ok [handlers]:
  assumes "setting env" "served env c i" "argv \<noteq> []" "length argv \<le> 2" "hd argv = ''shuffle''" "tame argv"
  shows "good env c i (handle_shuffle env c argv i)"
proof (cases "length argv = 2")
  case True
  then obtain r where argv: "argv = [''shuffle'', r]" using assms(5) by (auto simp: length_Suc_conv numeral_2_eq_2)
  have "\<exists>w'. Shuffle thread_env m n (in_world i) = Some w' \<and> world_ok w'" if "check_range r = Inr (m, n)" for m n
    by (rule steps_ok(9)) (use assms(2,6) that in \<open>auto simp: argv tame_def\<close>)
  then show ?thesis using assms(1,2) by (auto simp: handle_shuffle_def argv intro!: served_parsed served_done)
next
  case False
  then show ?thesis using assms(1,2) by (auto simp: handle_shuffle_def intro!: served_done steps_ok(9))
qed

lemma queue_print_ok [simp]: "m \<le> n \<Longrightarrow> n \<le> q_length q \<Longrightarrow> \<exists>ts. queue_print_info env q m n = Some ts"
  by (simp add: queue_print_info_def)

lemma playlist_print_ok: "\<exists>ts. playlist_print_info env w m n = Some ts"
  by (auto simp: playlist_print_info_def queue_print_info_def Let_def)

lemma info_or_ok: "served env c i \<Longrightarrow> good env c i (info_or env c e ts i)"
  by (cases ts) (simp_all add: info_or_def served_rules)

lemma handle_playlist_ok [handlers]: "served env c i \<Longrightarrow> good env c i (handle_playlist env c argv i)"
  by (simp add: handle_playlist_def playlist_print_uris_def queue_print_uris_def served_reply)

lemma handle_plchanges_ok [handlers]: "served env c i \<Longrightarrow> length argv = 2 \<Longrightarrow> good env c i (handle_plchanges env c argv i)"
  by (simp add: handle_plchanges_def served_rules)

lemma handle_plchangesposid_ok [handlers]:
  "served env c i \<Longrightarrow> length argv = 2 \<Longrightarrow> good env c i (handle_plchangesposid env c argv i)"
  by (simp add: handle_plchangesposid_def served_rules)

lemma info_good:
  "served env c i \<Longrightarrow> \<exists>ts. f = Some ts \<Longrightarrow> good env c i (do { ts \<leftarrow> f; info_or env c e ts i })"
  using info_or_ok by auto

lemma playlist_print_id_ok: "\<exists>ts. playlist_print_id env w n = Some ts"
  using playlist_print_ok[of env w] by (auto simp: playlist_print_id_def Let_def)

lemma handle_playlistinfo_ok [handlers]: "served env c i \<Longrightarrow> good env c i (handle_playlistinfo env c argv i)"
  by (auto simp: handle_playlistinfo_def intro!: served_parsed info_good playlist_print_ok)

lemma handle_playlistid_ok [handlers]:
  assumes "served env c i"
  shows "good env c i (handle_playlistid env c argv i)"
proof -
  obtain ts where "playlist_print_info env (in_world i) 0 UINT_MAX = Some ts" using playlist_print_ok by blast
  then show ?thesis using assms
    by (auto simp: handle_playlistid_def intro!: served_parsed info_good playlist_print_id_ok served_reply)
qed

lemma prio_ranges_ok: "setting env \<Longrightarrow> served env c i \<Longrightarrow> good env c i (prio_ranges env c p as i)"
proof (induction as arbitrary: i)
  case (Cons a as)
  have "good env c i (do { (r, i) \<leftarrow> on_list (playlist_SetPriorityRange (sv_player env) m n p) i;
       if r \<noteq> PR_SUCCESS then print_playlist_result env c r i else prio_ranges env c p as i })" for m n
  proof -
    obtain r j where "on_list (playlist_SetPriorityRange (sv_player env) m n p) i = Some (r, j)" "served env c j" "kept i j"
      by (rule served_list[OF Cons.prems(2)]) (use edits_ok(3)[of False "in_world i"] Cons.prems in auto)
    then show ?thesis using Cons.IH[OF Cons.prems(1), of j] served_result[of env c j r] good_trans by auto
  qed
  then show ?case using Cons.prems(2) by (auto intro!: served_parsed)
qed (simp add: served_some)

lemma prio_ids_ok: "setting env \<Longrightarrow> served env c i \<Longrightarrow> good env c i (prio_ids env c p as i)"
proof (induction as arbitrary: i)
  case (Cons a as)
  have "good env c i (do { (r, i) \<leftarrow> on_list (SetPriorityId (sv_player env) n p) i;
       if r \<noteq> PR_SUCCESS then print_playlist_result env c r i else prio_ids env c p as i })" for n
  proof -
    obtain r j where "on_list (SetPriorityId (sv_player env) n p) i = Some (r, j)" "served env c j" "kept i j"
      by (rule served_list[OF Cons.prems(2)]) (use edits_ok(4)[of False "in_world i"] Cons.prems in auto)
    then show ?thesis using Cons.IH[OF Cons.prems(1), of j] served_result[of env c j r] good_trans by auto
  qed
  then show ?case using Cons.prems(2) by (auto intro!: served_parsed)
qed (simp add: served_some)

lemma handle_prio_ok [handlers]:
  "setting env \<Longrightarrow> served env c i \<Longrightarrow> 2 \<le> length argv \<Longrightarrow> good env c i (handle_prio env c argv i)"
  by (simp add: handle_prio_def served_rules prio_ranges_ok)

lemma handle_prioid_ok [handlers]:
  "setting env \<Longrightarrow> served env c i \<Longrightarrow> 2 \<le> length argv \<Longrightarrow> good env c i (handle_prioid env c argv i)"
  by (simp add: handle_prioid_def served_rules prio_ids_ok)

section \<open>Adding songs\<close>

lemma appended_ok:
  assumes "served env c i" "\<exists>r x w'. f (in_world i) = Some (r, x, w') \<and> world_ok w'"
  obtains r x j where "appended f i = Some (r, x, j)" "served env c j" "kept i j" "\<exists>w. f (in_world i) = Some (r, x, w)"
  using assms by (auto simp: appended_def served_def ready_world)

lemma local_file_ok:
  "served env c i \<Longrightarrow> (\<And>path. good env c i (k path)) \<Longrightarrow> good env c i (local_file env c uri i k)"
  by (auto simp: local_file_def Let_def served_rules split: option.splits)

lemma good_appended:
  assumes "served env c i" "\<exists>r x w'. f (in_world i) = Some (r, x, w') \<and> world_ok w'"
  shows "good env c i (do { (r, x, i) \<leftarrow> appended f i; print_playlist_result env c r i })"
proof -
  obtain r x j where "appended f i = Some (r, x, j)" "served env c j" "kept i j" by (rule appended_ok[of env c i f, OF assms])
  then show ?thesis using served_result[of env c j r] good_trans by auto
qed

text \<open>Inside a bulk edit.\<close>

lemma AddToQueue_ok: "world_in b w \<Longrightarrow> \<exists>r w'. AddToQueue thread_env ss w = Some (r, w') \<and> world_in b w'"
proof (induction ss arbitrary: w)
  case (Cons s ss)
  then show ?case using appends_ok(1)[OF Cons.prems, of s] by auto
qed simp


lemma AddFromDatabase_bulk:
  assumes set: "setting env" and s: "served env c i"
  shows "\<exists>r j w. do { i \<leftarrow> on_world BeginBulk i; AddFromDatabase env c uri i } = Some (r, j\<lparr>in_world := w\<rparr>) \<and>
    attending env c j \<and> kept i j \<and> world_in True w"
proof -
  obtain u where u: "BeginBulk (in_world i) = Some u" "world_in True u" using brackets_ok(1)[OF served_world[OF s]] by blast
  obtain songs err where v: "sv_visit env uri = (songs, err)" by fastforce
  obtain r w where w: "AddToQueue thread_env songs u = Some (r, w)" "world_in True w" using AddToQueue_ok[OF u(2)] by blast
  let ?j = "i\<lparr>in_world := w\<rparr>"
  have frame: "\<exists>j. refuse env c e msg ?j = Some (CR_ERROR, j\<lparr>in_world := w\<rparr>) \<and> attending env c j \<and> kept i j" for e msg
  proof -
    obtain j where j: "command_error env c e msg i = Some j" "attending env c j" "kept i j"
      using command_error_ok[of env c i e msg] s by (auto simp: served_def)
    then have "command_error env c e msg ?j = Some (j\<lparr>in_world := w\<rparr>)"
      by (auto simp: command_error_def on_client_def set_client_def split: bind_splits)
    then show ?thesis using j by (auto simp: refuse_def)
  qed
  have eq: "do { i \<leftarrow> on_world BeginBulk i; AddFromDatabase env c uri i } =
    (if r \<noteq> PR_SUCCESS then print_playlist_result env c r ?j
     else case err of None \<Rightarrow> Some (CR_OK, ?j) | Some (e, msg) \<Rightarrow> refuse env c e msg ?j)"
    using set by (simp add: on_world_def u(1) AddFromDatabase_def v on_list_def w(1))
  have done_now: "\<exists>j. Some (CR_OK, ?j) = Some (CR_OK, j\<lparr>in_world := w\<rparr>) \<and> attending env c j \<and> kept i j" using s by auto
  show ?thesis unfolding eq using frame done_now w(2)
    by (cases r; cases err) (fastforce simp: print_playlist_result_def)+
qed

lemma good_leave_bulk:
  assumes "attending env c j" "kept i j" "world_in True w"
  shows "good env c i (do { j \<leftarrow> on_world (CommitBulk thread_env) (j\<lparr>in_world := w\<rparr>); Some (r, j) })"
proof -
  obtain u where u: "CommitBulk thread_env w = Some u" "world_ok u" using brackets_ok(2)[OF assms(3)] by blast
  then have "on_world (CommitBulk thread_env) (j\<lparr>in_world := w\<rparr>) = Some (j\<lparr>in_world := u\<rparr>)" by (simp add: on_world_def)
  moreover have "good env c i (Some (r, j\<lparr>in_world := u\<rparr>))"
    by (rule good_done) (use assms u in \<open>simp_all add: ready_world\<close>)
  ultimately show ?thesis by simp
qed

lemma handle_add_ok [handlers]:
  assumes set: "setting env" and s: "served env c i" and n: "length argv = 2"
  shows "good env c i (handle_add env c argv i)"
proof -
  note w = served_world[OF s]
  have app: "good env c i (do { (r, x, i) \<leftarrow> appended (AppendFile (sv_player env) (sv_load_file env) path) i;
      print_playlist_result env c r i })" for path
    by (rule good_appended[OF s]) (use appends_ok(2)[OF w] set in simp)
  have uri: "good env c i (do { (r, x, i) \<leftarrow> appended (AppendURI (sv_player env) (sv_database env) u) i;
      print_playlist_result env c r i })" for u
    by (rule good_appended[OF s]) (use appends_ok(3)[OF w] set in simp)
  have db: "good env c i (do { i \<leftarrow> on_world BeginBulk i; (result, i) \<leftarrow> AddFromDatabase env c u i;
      i \<leftarrow> on_world (CommitBulk (sv_player env)) i; Some (result, i) })" for u
  proof -
    obtain r j w where x: "do { i \<leftarrow> on_world BeginBulk i; AddFromDatabase env c u i } = Some (r, j\<lparr>in_world := w\<rparr>)"
      "attending env c j" "kept i j" "world_in True w" using AddFromDatabase_bulk[OF set s] by blast
    have "do { i \<leftarrow> on_world BeginBulk i; (result, i) \<leftarrow> AddFromDatabase env c u i;
        i \<leftarrow> on_world (CommitBulk (sv_player env)) i; Some (result, i) } =
      do { i \<leftarrow> on_world (CommitBulk thread_env) (j\<lparr>in_world := w\<rparr>); Some (r, i) }"
      using x(1) set by (cases "on_world BeginBulk i") simp_all
    then show ?thesis using good_leave_bulk[OF x(2-4)] by simp
  qed
  show ?thesis using n local_file_ok[OF s] app uri db served_refuse[OF s] by (simp add: handle_add_def)
qed

end
