(* ===== verification/Client_Control.thy ===== *)
theory Client_Control
  imports Client_Contract
begin

text \<open>
  The handlers continued: playback, options, outputs, the connection itself and channels; then any
  command of the registry, and a line.
\<close>

section \<open>addid\<close>

lemma good_append_move:
  assumes set: "setting env" and s: "served env c i" and n: "2 \<le> length argv"
    and f: "\<exists>r x w'. f (in_world i) = Some (r, x, w') \<and> world_ok w'" "\<And>x w'. f (in_world i) = Some (PR_SUCCESS, x, w') \<Longrightarrow> x \<noteq> None"
  shows "good env c i (do { res \<leftarrow> appended f i; addid_move env c argv res })"
proof -
  obtain r x j where a: "appended f i = Some (r, x, j)" "served env c j" "kept i j" "\<exists>w. f (in_world i) = Some (r, x, w)"
    by (rule appended_ok[of env c i f, OF s f(1)])
  have "good env c j (addid_move env c argv (r, x, j))"
  proof (cases "r = PR_SUCCESS")
    case True
    then obtain added where x: "x = Some added" using a(4) f(2) by auto
    have mv: "good env c j (do {
           (r, i) \<leftarrow> on_list (MoveId (sv_player env) added (to_int to)) j;
           if r \<noteq> PR_SUCCESS then do {
             (ret, i) \<leftarrow> print_playlist_result env c r i;
             (r2, i) \<leftarrow> on_list (DeleteId (sv_player env) added) i;
             Some (ret, i) }
           else reply env c [''Id: '' @ dec added @ nl] i })" if "to < 2 ^ 32" for to
    proof -
      have "to_int to < 2 ^ 31" using that by (simp add: to_int_def)
      from moves_ok(2)[OF served_world[OF a(2)] this]
      have m: "\<exists>r w'. MoveId (sv_player env) added (to_int to) (in_world j) = Some (r, w') \<and> world_ok w'" using set by simp
      obtain r k where k: "on_list (MoveId (sv_player env) added (to_int to)) j = Some (r, k)" "served env c k" "kept j k"
        by (rule served_list[of env c j "MoveId (sv_player env) added (to_int to)", OF a(2) m])
      show ?thesis
      proof (cases "r = PR_SUCCESS")
        case True
        then show ?thesis using k good_trans[OF served_reply[OF k(2)] k(3)] by simp
      next
        case False
        have "\<exists>ret l. print_playlist_result env c r k = Some (ret, l) \<and> attending env c l \<and> kept k l"
          using command_error_ok[of env c k] k(2) False
          by (cases r) (auto simp: print_playlist_result_def refuse_def served_def; metis option.map(2))+
        then obtain ret l where l: "print_playlist_result env c r k = Some (ret, l)" "attending env c l" "kept k l" by blast
        have "\<exists>r w'. DeleteId (sv_player env) added (in_world l) = Some (r, w') \<and> world_ok w'"
          using edits_ok(2)[OF ready_world_ok[OF l(2)]] set by simp
        from on_list_ok[of env c l "DeleteId (sv_player env) added", OF l(2) this] obtain r2 m where
          m: "on_list (DeleteId (sv_player env) added) l = Some (r2, m)" "attending env c m" "kept l m" by blast
        have "good env c j (Some (ret, m))" by (rule good_done[OF m(2)]) (use kept_trans k(3) l(3) m(3) in blast)
        then show ?thesis using k(1) l(1) m(1) False by simp
      qed
    qed
    show ?thesis using n x True a(2) mv served_reply[OF a(2)] check_unsigned_bound
      by (auto simp: addid_move_def intro!: served_parsed)
  next
    case False
    then show ?thesis using served_result[OF a(2)] by (simp add: addid_move_def)
  qed
  then show ?thesis using a(1) good_trans[OF _ a(3)] by simp
qed

lemma handle_addid_ok [handlers]:
  assumes set: "setting env" and s: "served env c i" and n: "2 \<le> length argv"
  shows "good env c i (handle_addid env c argv i)"
proof -
  note w = served_world[OF s]
  have app: "good env c i (do { res \<leftarrow> appended (AppendFile (sv_player env) (sv_load_file env) path) i; addid_move env c argv res })" for path
    by (rule good_append_move[OF set s n]) (use appends_ok(2)[OF w] appended_id(2) set in auto)
  have uri: "good env c i (do { res \<leftarrow> appended (AppendURI (sv_player env) (sv_database env) u) i; addid_move env c argv res })" for u
    by (rule good_append_move[OF set s n]) (use appends_ok(3)[OF w] appended_id(3) set in auto)
  show ?thesis using n local_file_ok[OF s] app uri served_refuse[OF s] by (simp add: handle_addid_def)
qed

section \<open>Playback\<close>

lemma handle_play_ok [handlers]: "setting env \<Longrightarrow> served env c i \<Longrightarrow> good env c i (handle_play env c argv i)"
  by (auto simp: handle_play_def dest: check_int_bound intro!: served_parsed served_edit moves_ok(3))

lemma handle_playid_ok [handlers]: "setting env \<Longrightarrow> served env c i \<Longrightarrow> good env c i (handle_playid env c argv i)"
  by (auto simp: handle_playid_def intro!: served_parsed served_edit edits_ok)

lemma handle_stop_ok [handlers]: "setting env \<Longrightarrow> served env c i \<Longrightarrow> good env c i (handle_stop env c argv i)"
  by (auto simp: handle_stop_def intro!: served_done steps_ok)

lemma handle_previous_ok [handlers]: "setting env \<Longrightarrow> served env c i \<Longrightarrow> good env c i (handle_previous env c argv i)"
  by (auto simp: handle_previous_def intro!: served_done steps_ok)

lemma handle_next_ok [handlers]:
  assumes "setting env" "served env c i"
  shows "good env c i (handle_next env c argv i)"
proof -
  have "\<exists>w'. map_option (set_single f) (PlayNext thread_env (set_single False (in_world i))) = Some w' \<and> world_ok w'" for f
    using steps_ok(3)[OF single_ok[OF served_world[OF assms(2)], of False]] single_ok by (fastforce simp: set_single_def)
  then show ?thesis using assms by (auto simp: handle_next_def Let_def intro!: served_done)
qed

lemma handle_pause_ok [handlers]: "setting env \<Longrightarrow> served env c i \<Longrightarrow> good env c i (handle_pause env c argv i)"
  by (auto simp: handle_pause_def intro!: served_parsed served_done player_ok)

lemma modes_ok [handlers]:
  assumes "setting env" "served env c i" "length argv = 2"
  shows "good env c i (handle_repeat env c argv i)" "good env c i (handle_single env c argv i)"
    "good env c i (handle_consume env c argv i)" "good env c i (handle_random env c argv i)"
  using assms by (auto simp: handle_repeat_def handle_single_def handle_consume_def handle_random_def set_mode_def
      intro!: served_parsed served_done steps_ok)

lemma handle_clearerror_ok [handlers]: "setting env \<Longrightarrow> served env c i \<Longrightarrow> good env c i (handle_clearerror env c argv i)"
  by (auto simp: handle_clearerror_def intro!: served_done player_ok)

lemma handle_crossfade_ok [handlers]:
  "served env c i \<Longrightarrow> length argv = 2 \<Longrightarrow> good env c i (handle_crossfade env c argv i)"
  by (auto simp: handle_crossfade_def intro!: served_parsed served_done player_ok)

lemma handle_currentsong_ok [handlers]:
  assumes "served env c i"
  shows "good env c i (handle_currentsong env c argv i)"
proof -
  obtain p n where p: "GetCurrentPosition (in_world i) = Some p" "- 1 \<le> p" "p < int (q_length (w_queue (in_world i)))"
    by (rule positions_ok[OF served_world[OF assms]])
  have "\<exists>ts. playlist_print_current env (in_world i) = Some ts"
    using p by (auto simp: playlist_print_current_def)
  then show ?thesis using served_reply[OF assms] by (auto simp: handle_currentsong_def)
qed

lemma handle_status_ok [handlers]:
  assumes set: "setting env" and s: "served env c i"
  shows "good env c i (handle_status env c argv i)"
proof -
  obtain st pc where pc: "pc_GetStatus thread_env (w_pc (in_world i)) = Some (st, pc)" "world_ok ((in_world i)\<lparr>w_pc := pc\<rparr>)"
    using player_ok(6)[OF served_world[OF s]] by blast
  let ?w = "(in_world i)\<lparr>w_pc := Lock thread_env pc\<rparr>"
  have w: "world_ok ?w" using player_ok(7)[OF pc(2)] by simp
  obtain p n where "GetCurrentPosition ?w = Some p" "GetNextPosition ?w = Some n" by (rule positions_ok[OF w])
  then obtain ts where ts: "status_texts env st (pc_cross_fade (Lock thread_env pc)) (pc_GetError (Lock thread_env pc)) ?w = Some ts"
    by (simp add: status_texts_def Let_def)
  have "good env c i (reply env c ts (i\<lparr>in_world := ?w\<rparr>))"
    by (rule good_trans[OF good_reply]) (use ready_world[OF served_ready[OF s] w] in simp_all)
  then show ?thesis using set pc(1) ts by (simp add: handle_status_def Let_def)
qed

section \<open>Outputs\<close>

lemma emit_idle_ready [simp]: "attending env c i \<Longrightarrow> attending env c (emit_idle f i)"
  by (simp add: emit_idle_def ready_world world_idle)

lemma emit_idle_kept [simp]: "kept i (emit_idle f j) = kept i j" "in_current_command (emit_idle f j) = in_current_command j"
  "in_clients (emit_idle f j) = in_clients j"
  by (simp_all add: emit_idle_def)

lemma enable_info_ready [simp]: "attending env c (enable_info n b i) = attending env c i" "kept i (enable_info n b j) = kept i j"
  "in_current_command (enable_info n b j) = in_current_command j"
  by (simp_all add: enable_info_def)

lemma UpdateAudio_ok:
  assumes "setting env" "attending env c i"
  shows "\<exists>j. UpdateAudio env i = Some j \<and> attending env c j \<and> kept i j \<and> in_current_command j = in_current_command i"
  using on_world_ok[of env c i "on_pc (pc_UpdateAudio (sv_player env))", OF assms(2)] player_ok(4)[OF ready_world_ok[OF assms(2)]] assms(1)
  by (auto simp: UpdateAudio_def)

lemma output_index_ok:
  assumes "setting env" "served env c i"
  shows "\<exists>r j. enable_output_index env n i = Some (r, j) \<and> served env c j \<and> kept i j"
    "\<exists>r j. disable_output_index env n i = Some (r, j) \<and> served env c j \<and> kept i j"
    "\<exists>r j. toggle_output_index env n i = Some (r, j) \<and> served env c j \<and> kept i j"
proof -
  have u: "\<exists>j. UpdateAudio env k = Some j \<and> served env c (bump_output_version j) \<and> kept i (bump_output_version j)"
    if "attending env c k" "kept i k" "in_current_command k = in_current_command i" for k
    using UpdateAudio_ok[OF assms(1) that(1)] that(2,3) assms(2) kept_trans by (fastforce simp: served_def bump_output_version_def)
  have r: "attending env c (emit_idle f (enable_info n b i))" for f b using assms(2) by simp
  show "\<exists>r j. enable_output_index env n i = Some (r, j) \<and> served env c j \<and> kept i j"
    using assms(2) u[of "emit_idle IDLE_OUTPUTS (enable_info n True i)"] r by (auto simp: enable_output_index_def Let_def)
  show "\<exists>r j. disable_output_index env n i = Some (r, j) \<and> served env c j \<and> kept i j"
    using assms(2) u[of "emit_idle IDLE_OUTPUTS (enable_info n False i)"]
      u[of "emit_idle IDLE_MIXER (emit_idle IDLE_OUTPUTS (enable_info n False i))"] r
    by (auto simp: disable_output_index_def Let_def)
  show "\<exists>r j. toggle_output_index env n i = Some (r, j) \<and> served env c j \<and> kept i j"
    using assms(2) u[of "emit_idle IDLE_OUTPUTS (enable_info n (\<not> oi_enabled (in_outputs i ! n)) i)"]
      u[of "emit_idle IDLE_MIXER (emit_idle IDLE_OUTPUTS (enable_info n (\<not> oi_enabled (in_outputs i ! n)) i))"] r
    by (auto simp: toggle_output_index_def Let_def)
qed

lemma output_command_ok:
  assumes "served env c i" "length argv = 2" "\<And>n. \<exists>r j. f env n i = Some (r, j) \<and> served env c j \<and> kept i j"
  shows "good env c i (output_command f env c argv i)"
proof -
  have "good env c i (do { (ok, i) \<leftarrow> f env n i;
      if \<not> ok then refuse env c ACK_ERROR_NO_EXIST ''No such audio output'' i else Some (CR_OK, i) })" for n
  proof -
    obtain ok j where j: "f env n i = Some (ok, j)" "served env c j" "kept i j" using assms(3) by blast
    then show ?thesis using good_trans[OF served_refuse[OF j(2)] j(3)] good_trans[OF served_some[OF j(2)] j(3)] by simp
  qed
  then show ?thesis using assms(1,2) by (auto simp: output_command_def intro!: served_parsed)
qed

lemma outputs_ok [handlers]:
  assumes "setting env" "served env c i" "length argv = 2"
  shows "good env c i (handle_enableoutput env c argv i)" "good env c i (handle_disableoutput env c argv i)"
    "good env c i (handle_toggleoutput env c argv i)"
  using output_index_ok[OF assms(1,2)] assms(2,3)
  by (auto simp: handle_enableoutput_def handle_disableoutput_def handle_toggleoutput_def intro!: output_command_ok)

section \<open>The connection and the rest\<close>

lemma plain_ok [handlers]:
  assumes "served env c i"
  shows "good env c i (handle_devices env c argv i)" "good env c i (handle_urlhandlers env c argv i)"
    "good env c i (handle_tagtypes env c argv i)" "good env c i (handle_kill env c argv i)" "good env c i (handle_close env c argv i)"
    "good env c i (handle_ping env c argv i)" "good env c i (handle_config env c argv i)"
    "good env c i (handle_commands env c argv i)" "good env c i (handle_not_commands env c argv i)"
  using assms served_rules by (simp_all add: handle_devices_def handle_urlhandlers_def handle_tagtypes_def handle_kill_def
      handle_close_def handle_ping_def handle_config_def handle_commands_def handle_not_commands_def Let_def)

lemma volumes_ok [handlers]:
  assumes "served env c i" "length argv = 2"
  shows "good env c i (handle_setvol env c argv i)" "good env c i (handle_volume env c argv i)"
  using assms by (simp_all add: handle_setvol_def handle_volume_def Let_def served_rules)

lemma update_or_refuse_ok: "served env c i \<Longrightarrow> good env c i (update_or_refuse env c path d i)"
  by (simp add: update_or_refuse_def Let_def served_rules)

lemma handle_update_ok [handlers]:
  assumes "served env c i" "argv \<noteq> []" "length argv \<le> 2" "hd argv = ''update''" "tame argv"
  shows "good env c i (handle_update env c argv i)"
proof (cases "length argv = 2")
  case True
  then obtain p where argv: "argv = [''update'', p]" using assms(4) by (auto simp: length_Suc_conv numeral_2_eq_2)
  then show ?thesis using assms update_or_refuse_ok served_refuse
    by (auto simp: handle_update_def tame_def split: bind_splits)
qed (use assms in \<open>simp add: handle_update_def update_or_refuse_ok\<close>)

lemma handle_rescan_ok [handlers]:
  assumes "served env c i" "argv \<noteq> []" "length argv \<le> 2" "hd argv = ''rescan''" "tame argv"
  shows "good env c i (handle_rescan env c argv i)"
proof (cases "length argv = 2")
  case True
  then obtain p where argv: "argv = [''rescan'', p]" using assms(4) by (auto simp: length_Suc_conv numeral_2_eq_2)
  then show ?thesis using assms update_or_refuse_ok served_refuse
    by (auto simp: handle_rescan_def tame_def split: bind_splits)
qed (use assms in \<open>simp add: handle_rescan_def update_or_refuse_ok\<close>)

text \<open>An operation on the client itself that leaves its list of commands and its input.\<close>

lemma good_set_client:
  assumes "served env c i" "client_base env cl" "\<not> cl_idle_waiting cl"
    "cl_cmd_list cl = cl_cmd_list (get_client c i)" "cl_input cl = cl_input (get_client c i)"
  shows "attending env c (set_client c cl i)" "kept i (set_client c cl i)"
proof -
  obtain cl0 where "in_clients i c = Some cl0" "get_client c i = cl0" by (rule readyE[OF served_ready[OF assms(1)]])
  then show "attending env c (set_client c cl i)" "kept i (set_client c cl i)"
    using ready_set_client[OF served_ready[OF assms(1)] assms(2,3)] kept_set_client[OF kept_refl] assms(4,5) by simp_all
qed

lemma served_client:
  assumes "served env c i"
  shows "client_base env (get_client c i)" "\<not> cl_idle_waiting (get_client c i)" "in_clients i c = Some (get_client c i)"
  by (rule readyE[OF served_ready[OF assms]]; simp)+

lemma handle_password_ok [handlers]:
  assumes "served env c i" "length argv = 2"
  shows "good env c i (handle_password env c argv i)"
proof -
  have "good env c i (Some (CR_OK, set_client c ((get_client c i)\<lparr>cl_permission := p\<rparr>) i))" for p
    by (rule good_done) (use good_set_client[OF assms(1)] served_client[OF assms(1)] in \<open>simp_all add: client_base_def\<close>)
  then show ?thesis using assms served_refuse by (auto simp: handle_password_def split: option.splits)
qed

lemma handle_idle_ok [handlers]:
  assumes "served env c i"
  shows "good env c i (handle_idle env c argv i)"
proof -
  have "good env c i (map_option (Pair CR_IDLE) (on_client c (IdleWait env flags) i))" for flags
  proof -
    from IdleWait_ok[OF served_client(1,2)[OF assms], of flags] obtain cl' where
      w: "IdleWait env flags (get_client c i) = Some cl'" "client_base env cl'" "cl_idle_waiting cl' \<longrightarrow> \<not> cl_timer cl'"
        "cl_cmd_list cl' = cl_cmd_list (get_client c i)" "cl_input cl' = cl_input (get_client c i)" by blast
    have "server_ok env {c} (set_client c cl' i)"
      by (rule server_set_client[OF _ served_client(3)[OF assms] w(2)]) (use served_ready[OF assms] in \<open>simp_all add: attending_def\<close>)
    moreover have "kept i (set_client c cl' i)"
      by (rule kept_set_client[OF kept_refl served_client(3)[OF assms] w(4,5)])
    ultimately show ?thesis using w served_client(3)[OF assms] by (simp add: good_def on_client_def)
  qed
  then show ?thesis by (simp add: handle_idle_def Let_def)
qed

section \<open>Channels\<close>

lemma subscribe_ok [handlers]:
  assumes "served env c i" "length argv = 2"
  shows "good env c i (handle_subscribe env c argv i)"
proof -
  note cl = served_client[OF assms(1)]
  let ?cl = "get_client c i"
  let ?new = "\<lambda>ch. ?cl\<lparr>cl_subscriptions := ch # cl_subscriptions ?cl, cl_num_subscriptions := cl_num_subscriptions ?cl + 1\<rparr>"
  have "good env c i (Some (CR_OK, emit_idle IDLE_SUBSCRIPTION (set_client c (?new ch) i)))"
    if "\<not> cl_num_subscriptions ?cl \<ge> CLIENT_MAX_SUBSCRIPTIONS" "ch \<notin> set (cl_subscriptions ?cl)" for ch
    by (rule good_done)
      (use that good_set_client[OF assms(1), of "?new ch"] cl in \<open>simp_all add: client_base_def\<close>)
  then show ?thesis using assms served_refuse by (auto simp: handle_subscribe_def Subscribe_def Let_def)
qed

lemma unsubscribe_ok [handlers]:
  assumes "served env c i" "length argv = 2"
  shows "good env c i (handle_unsubscribe env c argv i)"
proof -
  note cl = served_client[OF assms(1)]
  let ?cl = "get_client c i"
  let ?new = "\<lambda>ch. ?cl\<lparr>cl_subscriptions := remove1 ch (cl_subscriptions ?cl), cl_num_subscriptions := cl_num_subscriptions ?cl - 1\<rparr>"
  have "good env c i (Some (CR_OK, emit_idle IDLE_SUBSCRIPTION (set_client c (?new ch) i))) \<and>
      cl_num_subscriptions ?cl > 0 \<and> (cl_num_subscriptions ?cl - 1 = 0) = (remove1 ch (cl_subscriptions ?cl) = [])"
    if ch: "ch \<in> set (cl_subscriptions ?cl)" for ch
  proof -
    have l: "length (remove1 ch (cl_subscriptions ?cl)) = cl_num_subscriptions ?cl - 1" "cl_num_subscriptions ?cl > 0"
      using cl(1) ch by (auto simp: client_base_def length_remove1)
    have "client_base env (?new ch)" using cl(1) l by (auto simp: client_base_def intro: le_trans[OF diff_le_self])
    then have "good env c i (Some (CR_OK, emit_idle IDLE_SUBSCRIPTION (set_client c (?new ch) i)))"
      using good_set_client[OF assms(1), of "?new ch"] cl by (intro good_done) simp_all
    then show ?thesis using l by (metis length_0_conv)
  qed
  then show ?thesis using assms served_refuse by (auto simp: handle_unsubscribe_def Unsubscribe_def Let_def)
qed

lemma handle_channels_ok [handlers]: "served env c i \<Longrightarrow> argv \<noteq> [] \<Longrightarrow> length argv \<le> 1 \<Longrightarrow> good env c i (handle_channels env c argv i)"
  by (cases argv) (simp_all add: handle_channels_def Let_def served_reply)

lemma handle_read_messages_ok [handlers]:
  assumes "served env c i" "argv \<noteq> []" "length argv \<le> 1"
  shows "good env c i (handle_read_messages env c argv i)"
proof -
  have n: "length argv = 1" using assms(2,3) by (cases argv) simp_all
  let ?ts = "map (\<lambda>(ch, m). ''channel: '' @ ch @ nl @ ''message: '' @ m @ nl) (cl_messages (get_client c i))"
  from tell_ok[OF served_ready[OF assms(1)], of ?ts] assms(1) obtain j where
    j: "tell env c ?ts i = Some j" "served env c j" "kept i j" by (auto simp: served_def)
  let ?cl = "(get_client c j)\<lparr>cl_messages := []\<rparr>"
  have "good env c j (Some (CR_OK, set_client c ?cl j))"
    by (rule good_done) (use good_set_client[OF j(2), of ?cl] served_client[OF j(2)] in \<open>simp_all add: client_base_def\<close>)
  then show ?thesis using n j(1) good_trans[OF _ j(3)] by (simp add: handle_read_messages_def Let_def)
qed

lemma PushMessage_ok:
  assumes "client_base env cl"
  shows "\<exists>ok cl'. PushMessage env msg cl = Some (ok, cl') \<and> client_base env cl' \<and> (client_rest cl \<longrightarrow> client_rest cl') \<and>
    (cl_idle_waiting cl' \<longrightarrow> cl_idle_waiting cl) \<and> cl_cmd_list cl' = cl_cmd_list cl \<and> cl_input cl' = cl_input cl"
proof (cases "length (cl_messages cl) \<ge> CLIENT_MAX_MESSAGES \<or> \<not> IsSubscribed (fst msg) cl")
  case False
  have "\<exists>cl'. (if cl_messages cl = [] then IdleAdd env IDLE_MESSAGE cl else Some cl) = Some cl' \<and> client_base env cl' \<and>
    (client_rest cl \<longrightarrow> client_rest cl') \<and> (cl_idle_waiting cl' \<longrightarrow> cl_idle_waiting cl) \<and> cl_cmd_list cl' = cl_cmd_list cl \<and>
    cl_input cl' = cl_input cl \<and> cl_messages cl' = cl_messages cl"
    using IdleAdd_ok[OF assms, of IDLE_MESSAGE] assms by (cases "cl_messages cl = []") auto
  then obtain cl' where cl': "(if cl_messages cl = [] then IdleAdd env IDLE_MESSAGE cl else Some cl) = Some cl'"
    "client_base env cl'" "client_rest cl \<longrightarrow> client_rest cl'" "cl_idle_waiting cl' \<longrightarrow> cl_idle_waiting cl"
    "cl_cmd_list cl' = cl_cmd_list cl" "cl_input cl' = cl_input cl" "cl_messages cl' = cl_messages cl" by blast
  let ?cl = "cl'\<lparr>cl_messages := cl_messages cl' @ [msg]\<rparr>"
  have "PushMessage env msg cl = Some (True, ?cl)" using False cl'(1) by (simp add: PushMessage_def)
  moreover have "client_base env ?cl" using cl'(2,7) False by (simp add: client_base_def)
  moreover have "client_rest cl \<longrightarrow> client_rest ?cl" using cl'(3) by (simp add: client_rest_def)
  ultimately show ?thesis using cl' by (intro exI[of _ True] exI[of _ ?cl]) simp
qed (use assms in \<open>auto simp: PushMessage_def\<close>)

lemma push_all_ok:
  assumes "served env c (snd s)" "set ks \<subseteq> dom (in_clients (snd s))"
  shows "\<exists>sent j. push_all env msg ks s = Some (sent, j) \<and> served env c j \<and> kept (snd s) j"
  using assms
proof (induction ks arbitrary: s)
  case (Cons k ks)
  let ?i = "snd s"
  obtain cl where k: "in_clients ?i k = Some cl" "get_client k ?i = cl" using Cons.prems(2) by (auto simp: get_client_def)
  have sok: "server_ok env {c} ?i" using Cons.prems(1) by (simp add: served_def attending_def)
  note b = server_client[OF sok k(1)]
  from PushMessage_ok[OF b[THEN conjunct1], of msg] obtain ok cl' where p: "PushMessage env msg cl = Some (ok, cl')"
    "client_base env cl'" "client_rest cl \<longrightarrow> client_rest cl'" "cl_idle_waiting cl' \<longrightarrow> cl_idle_waiting cl"
    "cl_cmd_list cl' = cl_cmd_list cl" "cl_input cl' = cl_input cl" by blast
  let ?j = "set_client k cl' ?i"
  have "server_ok env {c} ?j" by (rule server_set_client[OF sok k(1) p(2)]) (use b p(3) in auto)
  then have sj: "served env c ?j" using Cons.prems(1) served_client[OF Cons.prems(1)] p(4) k
    by (auto simp: served_def attending_def)
  have kj: "kept ?i ?j" by (rule kept_set_client[OF kept_refl k(1) p(5,6)])
  have dj: "set ks \<subseteq> dom (in_clients ?j)" using Cons.prems(2) by auto
  obtain sent l where l: "push_all env msg ks (fst s \<or> ok, ?j) = Some (sent, l)" "served env c l" "kept ?j l"
    using Cons.IH[of "(fst s \<or> ok, ?j)", unfolded snd_conv, OF sj dj] by blast
  then show ?case using p(1) k(2) kept_trans[OF kj l(3)] by simp
qed (simp, metis kept_refl prod.collapse)

lemma handle_send_message_ok [handlers]:
  assumes "served env c i" "length argv = 3"
  shows "good env c i (handle_send_message env c argv i)"
proof -
  have d: "set (cls_list (in_client_list i)) \<subseteq> dom (in_clients i)"
    using served_ready[OF assms(1)] by (simp add: attending_def server_ok_def Let_def)
  have "good env c i (do { (sent, i) \<leftarrow> push_all env msg (cls_list (in_client_list i)) (False, i);
      if sent then Some (CR_OK, i) else refuse env c e t i })" for msg e t
  proof -
    obtain sent j where j: "push_all env msg (cls_list (in_client_list i)) (False, i) = Some (sent, j)" "served env c j" "kept i j"
      using push_all_ok[where s = "(False, i)" and msg = msg, unfolded snd_conv, OF assms(1) d] by blast
    then show ?thesis using good_trans[OF served_refuse[OF j(2)] j(3)] good_trans[OF served_some[OF j(2)] j(3)] by simp
  qed
  then show ?thesis using assms served_refuse by (simp add: handle_send_message_def)
qed

section \<open>What is excluded\<close>

lemma seeks_excluded [handlers]:
  assumes "argv \<noteq> []" "tame argv"
  shows "hd argv = ''seek'' \<Longrightarrow> good env c i (handle_seek env c argv i)"
    "hd argv = ''seekid'' \<Longrightarrow> good env c i (handle_seekid env c argv i)"
    "hd argv = ''seekcur'' \<Longrightarrow> good env c i (handle_seekcur env c argv i)"
  using assms by (auto simp: tame_def split: list.splits)

end
