(* ===== verification/Client_Safety.thy ===== *)
theory Client_Safety
  imports Client_Control
begin

text \<open>
  From a handler to a list of commands: every line whose command is not one of the exceptions is carried
  out without a failed assertion and keeps the invariant.
\<close>

section \<open>Any command\<close>

lemma other_command_ok [handlers]:
  "setting env \<Longrightarrow> served env c i \<Longrightarrow> argv \<noteq> [] \<Longrightarrow> good env c i (other_command name env c argv i)"
  unfolding setting_def other_command_def by blast

definition in_bounds :: "'e command \<Rightarrow> string list \<Rightarrow> bool" where
  "in_bounds cmd argv \<longleftrightarrow> argv \<noteq> [] \<and> (cd_min cmd \<noteq> - 1 \<longrightarrow> cd_min cmd \<le> int (length argv) - 1 \<and>
     (cd_max cmd \<noteq> - 1 \<longrightarrow> int (length argv) - 1 \<le> cd_max cmd))"

lemma handlers_ok:
  assumes "setting env" "served env c i" "tame argv"
  shows "list_all (\<lambda>cmd. in_bounds cmd argv \<and> hd argv = cd_cmd cmd \<longrightarrow> good env c i (cd_handler cmd env c argv i)) commands"
proof -
  show ?thesis
    unfolding commands_def list.pred_inject in_bounds_def command.select_convs
    by (intro conjI TrueI impI; (elim conjE)?; (insert assms)?; (force intro!: handlers)?)
qed

lemma handler_call_ok:
  assumes "setting env" "served env c i" "tame argv" "cmd \<in> set commands" "in_bounds cmd argv" "hd argv = cd_cmd cmd"
  shows "good env c i (cd_handler cmd env c argv i)"
  using handlers_ok[OF assms(1-3)] assms(4-6) by (simp add: list_all_iff)

section \<open>A line\<close>

lemma good_fields [simp]:
  "good env c (i\<lparr>in_current_command := x\<rparr>) y = good env c i y" "good env c (i\<lparr>in_command_list_num := n\<rparr>) y = good env c i y"
  by (simp_all add: good_def)

lemma good_reset:
  assumes "good env c i x"
  shows "good env c i (do { (ret, i) \<leftarrow> x; Some (ret, i\<lparr>in_current_command := None, in_command_list_num := 0\<rparr>) })"
  using assms by (auto simp: good_def)

lemma give_up_ok:
  assumes "attending env c i"
  shows "good env c i (give_up env c cur e msg i)"
proof -
  obtain j where j: "command_error env c e msg (i\<lparr>in_current_command := Some cur\<rparr>) = Some j" "attending env c j" "kept i j"
    using command_error_ok[of env c "i\<lparr>in_current_command := Some cur\<rparr>" e msg] assms by auto
  have "good env c i (Some (CR_ERROR, j\<lparr>in_current_command := None\<rparr>))" by (rule good_done) (use j in simp_all)
  then show ?thesis using j(1) by (simp add: give_up_def)
qed

lemma check_request_ok:
  assumes "served env c i" "argv \<noteq> []"
  shows "\<exists>ok j. command_check_request env c cmd p argv i = Some (ok, j) \<and> attending env c j \<and> kept i j \<and> (ok \<longrightarrow> j = i)"
proof -
  define P where "P x \<longleftrightarrow> (\<exists>ok j. x = Some (ok, j) \<and> attending env c j \<and> kept i j \<and> (ok \<longrightarrow> j = i))" for x
  have e: "P (map_option (Pair False) (command_error env c e msg i))" for e msg
    using command_error_ok[of env c i e msg] assms(1) by (auto simp: served_def P_def)
  have o: "P (Some (True, i))" using assms(1) by (auto simp: P_def)
  have a: "arg argv 0 = Some (argv ! 0)" using assms(2) by simp
  have "P (command_check_request env c cmd p argv i)"
    unfolding command_check_request_def Let_def a Option.bind.simps by (simp add: e o)
  then show ?thesis by (simp add: P_def)
qed

lemma run_command_ok:
  assumes "setting env" "attending env c i" "argv \<noteq> []" "tame argv"
  shows "good env c i (run_command env c argv i)"
proof -
  let ?p = "cl_permission (get_client c i)"
  have "good env c i (do { (cmd, i) \<leftarrow> command_checked_lookup env c ?p argv i;
      case cmd of Some cmd \<Rightarrow> cd_handler cmd env c argv i | None \<Rightarrow> Some (CR_ERROR, i) })"
  proof -
    obtain name args where argv: "argv = name # args" using assms(3) by (cases argv) auto
    show ?thesis
    proof (cases "command_lookup name :: unit thread_ext command option")
      case None
      let ?j = "i\<lparr>in_current_command := Some []\<rparr>"
      obtain j where j: "command_error env c ACK_ERROR_UNKNOWN (''unknown command '' @ [CHR 0x22] @ name @ [CHR 0x22]) ?j = Some j"
        "attending env c j" "kept i j" using command_error_ok[of env c ?j] assms(2) by fastforce
      have "good env c i (Some (CR_ERROR, j))" by (rule good_done[OF j(2,3)])
      then show ?thesis using j(1) None by (simp add: command_checked_lookup_def argv)
    next
      case (Some cmd)
      let ?j = "i\<lparr>in_current_command := Some (cd_cmd cmd)\<rparr>"
      have s: "served env c ?j" using assms(2) by (simp add: served_def)
      obtain ok j where j: "command_check_request env c cmd ?p argv ?j = Some (ok, j)" "attending env c j" "kept i j" "ok \<longrightarrow> j = ?j"
        using check_request_ok[OF s assms(3), of cmd ?p] by auto
      have eq: "command_checked_lookup env c ?p argv i = Some (if ok then Some cmd else None, j)"
        using j(1) Some by (simp add: command_checked_lookup_def argv)
      show ?thesis
      proof (cases ok)
        case True
        note chk = command_checked_lookup_cases[OF eq[unfolded if_P[OF True]]]
        have "good env c ?j (cd_handler cmd env c argv ?j)"
          by (rule handler_call_ok[OF assms(1) s assms(4)]) (use chk in \<open>auto simp: in_bounds_def\<close>)
        then show ?thesis using eq True j(4) by simp
      next
        case False
        then show ?thesis using eq good_done[OF j(2,3)] by simp
      qed
    qed
  qed
  from good_reset[OF this] show ?thesis by (simp add: run_command_def split_def)
qed

lemma command_process_ok:
  assumes "setting env" "attending env c i" "tame_line line"
  shows "good env c i (command_process env c num line i)"
proof (cases "parse_line line")
  case (Inl x)
  obtain cur e msg where "x = (cur, e, msg)" by (cases x)
  then show ?thesis
    using command_process_parse[of line env c num i] Inl assms give_up_ok[of env c "i\<lparr>in_command_list_num := num\<rparr>"]
    by (simp add: tame_line_def)
next
  case (Inr argv)
  let ?i = "i\<lparr>in_command_list_num := num, in_current_command := Some (hd argv)\<rparr>"
  have "good env c ?i (run_command env c argv ?i)"
    by (rule run_command_ok) (use assms Inr parse_line_argv[OF Inr] in \<open>auto simp: tame_line_def\<close>)
  then show ?thesis using command_process_parse[of line env c num i] Inr assms(3) by (simp add: tame_line_def)
qed

lemma good_ready:
  "good env c i (Some (r, j)) \<Longrightarrow> r \<noteq> CR_IDLE \<Longrightarrow> attending env c j"
  by (auto simp: good_def attending_def)

lemma command_list_ok:
  assumes "setting env" "attending env c i" "list_all tame_line cmds"
  shows "good env c i (client_process_command_list env c list_ok num cmds i)"
  using assms(2,3)
proof (induction cmds arbitrary: num i)
  case Nil
  then show ?case by (simp add: good_done)
next
  case (Cons cmd cmds)
  from command_process_ok[OF assms(1) Cons.prems(1), of cmd num] Cons.prems(2)
  have g: "good env c i (command_process env c num cmd i)" by simp
  then obtain r j where j: "command_process env c num cmd i = Some (r, j)" "kept i j" by (auto simp: good_def)
  show ?case
  proof (cases "r \<noteq> CR_OK \<or> cl_expired (get_client c j)")
    case True
    then show ?thesis using g j by simp
  next
    case False
    have rj: "attending env c j" by (rule good_ready[OF g[unfolded j(1)]]) (use False in simp)
    obtain k where k: "(if list_ok then tell env c [''list_OK'' @ nl] j else Some j) = Some k" "attending env c k" "kept j k"
      using tell_ok[OF rj, of "[''list_OK'' @ nl]"] rj by (cases list_ok) auto
    have "good env c k (client_process_command_list env c list_ok (num + 1) cmds k)"
      by (rule Cons.IH) (use k(2) Cons.prems(2) in simp_all)
    from good_trans[OF this kept_trans[OF j(2) k(3)]] show ?thesis using j(1) k(1) False by simp
  qed
qed

end
