(* ===== verification/Client_Events.thy ===== *)
theory Client_Events
  imports Client_Safety
begin

text \<open>
  Lines, sockets and events: what the event loop calls keeps the invariant of the clients.
\<close>

section \<open>A line of any kind\<close>

definition lined ::
    "unit thread_ext server_env \<Rightarrow> nat \<Rightarrow> client \<Rightarrow> (CommandResult \<times> unit thread_ext server) option \<Rightarrow> bool" where
  "lined env c cl x \<longleftrightarrow> (\<exists>r i' cl'. x = Some (r, i') \<and> server_ok env {c} i' \<and> in_clients i' c = Some cl' \<and>
     cl_input cl' = cl_input cl \<and> (r \<noteq> CR_CLOSE \<longrightarrow> cl_idle_waiting cl' \<longrightarrow> cl_expired cl' \<or> \<not> cl_timer cl') \<and>
     (r = CR_FINISH \<longrightarrow> \<not> cl_expired cl'))"

lemma linedI:
  "server_ok env {c} i' \<Longrightarrow> in_clients i' c = Some cl' \<Longrightarrow> cl_input cl' = cl_input cl \<Longrightarrow>
   (r \<noteq> CR_CLOSE \<Longrightarrow> cl_idle_waiting cl' \<Longrightarrow> cl_expired cl' \<or> \<not> cl_timer cl') \<Longrightarrow> (r = CR_FINISH \<Longrightarrow> \<not> cl_expired cl') \<Longrightarrow>
   lined env c cl (Some (r, i'))"
  unfolding lined_def by blast

lemma kept_client:
  "kept i j \<Longrightarrow> in_clients i c = Some cl \<Longrightarrow> in_clients j c = Some cl' \<Longrightarrow>
   cl_cmd_list cl' = cl_cmd_list cl \<and> cl_input cl' = cl_input cl"
proof -
  assume k: "kept i j" and c: "in_clients i c = Some cl" "in_clients j c = Some cl'"
  have "map_option (\<lambda>cl. (cl_cmd_list cl, cl_input cl)) (in_clients j c) =
    map_option (\<lambda>cl. (cl_cmd_list cl, cl_input cl)) (in_clients i c)" using k by (simp add: kept_def)
  then show ?thesis using c by simp
qed

lemma finish_line_ok:
  assumes "good env c i x" "in_clients i c = Some cl"
  obtains res r go j cl' where "x = Some res" "finish_line env c res = Some (r, go, j)" "server_ok env {c} j" "in_clients j c = Some cl'"
    "cl_cmd_list cl' = cl_cmd_list cl" "cl_input cl' = cl_input cl"
    "r \<noteq> CR_CLOSE \<longrightarrow> cl_idle_waiting cl' \<longrightarrow> cl_expired cl' \<or> \<not> cl_timer cl'" "r = CR_FINISH \<longrightarrow> \<not> cl_expired cl'"
proof -
  from assms(1) obtain r i' cl1 where x: "x = Some (r, i')" and g: "server_ok env {c} i'" "kept i i'" "in_clients i' c = Some cl1"
    "cl_idle_waiting cl1 \<longrightarrow> r = CR_IDLE \<and> (cl_expired cl1 \<or> \<not> cl_timer cl1)" by (auto simp: good_def)
  note k = kept_client[OF g(2) assms(2) g(3)]
  have cl1: "get_client c i' = cl1" using g(3) by (simp add: get_client_def)
  consider "r = CR_CLOSE \<or> cl_expired cl1" | "r = CR_OK" "\<not> cl_expired cl1" | "r \<noteq> CR_CLOSE" "r \<noteq> CR_OK" "\<not> cl_expired cl1" by blast
  then show thesis
  proof cases
    case 1
    then have "finish_line env c (r, i') = Some (CR_CLOSE, False, i')" using cl1 by (simp add: finish_line_def)
    then show thesis by (rule that[OF x _ g(1,3)]) (use k in simp_all)
  next
    case 2
    then have nw: "\<not> cl_idle_waiting cl1" using g(4) by auto
    have r1: "attending env c i'" using g(1,3) nw by (simp add: attending_def)
    from client_puts_wrote[OF base_peak, of env cl1 env "''OK'' @ nl"] server_client[OF g(1,3)] obtain cl2 where
      w: "client_puts env (''OK'' @ nl) cl1 = Some cl2" "wrote [''OK'' @ nl] cl1 cl2" by blast
    note s = wrote_same[OF w(2)]
    have "finish_line env c (r, i') = Some (CR_OK, True, set_client c cl2 i')"
      using 2 cl1 g(3) w(1) by (simp add: finish_line_def on_client_def command_success_def)
    moreover have "server_ok env {c} (set_client c cl2 i')"
      by (rule server_set_client[OF g(1,3)]) (use wrote_base[OF w(2)] server_client[OF g(1,3)] in simp_all)
    moreover have "in_clients (set_client c cl2 i') c = Some cl2" by simp
    ultimately show thesis by (rule that[OF x]) (use s k nw in simp_all)
  next
    case 3
    then have "finish_line env c (r, i') = Some (r, True, i')" using cl1 by (simp add: finish_line_def)
    then show thesis by (rule that[OF x _ g(1,3)]) (use k g(4) 3 in auto)
  qed
qed

lemma set_cmd_list_ok:
  assumes "server_ok env {c} i" "in_clients i c = Some cl" "list_fits (sv_max_command_list_size env) l"
  shows "server_ok env {c} (set_cmd_list c l i)" "in_clients (set_cmd_list c l i) c = Some (cl\<lparr>cl_cmd_list := l\<rparr>)"
proof -
  have g: "get_client c i = cl" using assms(2) by (simp add: get_client_def)
  show "server_ok env {c} (set_cmd_list c l i)"
    unfolding set_cmd_list_def g
    by (rule server_set_client[OF assms(1,2)]) (use server_client[OF assms(1,2)] assms(3) in \<open>simp_all add: client_base_def\<close>)
  show "in_clients (set_cmd_list c l i) c = Some (cl\<lparr>cl_cmd_list := l\<rparr>)" by (simp add: set_cmd_list_def g)
qed

lemma client_fits: "client_base env cl \<Longrightarrow> list_fits (sv_max_command_list_size env) (cl_cmd_list cl)"
  by (simp add: client_base_def)

lemma line_ok:
  assumes set: "setting env" and server: "server_ok env {c} i" and cl: "in_clients i c = Some cl" and line: "tame_line line"
  shows "lined env c cl (client_process_line env c line i)"
proof -
  let ?l = "cl_cmd_list cl"
  have g: "get_client c i = cl" using cl by (simp add: get_client_def)
  note b = server_client[OF server cl, THEN conjunct1] and fits = client_fits[OF server_client[OF server cl, THEN conjunct1]]
  consider (noidle) "line = ''noidle''" "cl_idle_waiting cl" | (nothing) "line = ''noidle''" "\<not> cl_idle_waiting cl"
    | (idle) "line \<noteq> ''noidle''" "cl_idle_waiting cl"
    | (fin) "line = ''command_list_end''" "\<not> cl_idle_waiting cl" "IsActive ?l"
    | (add) "line \<noteq> ''noidle''" "line \<noteq> ''command_list_end''" "\<not> cl_idle_waiting cl" "IsActive ?l"
    | (beg) "line \<noteq> ''noidle''" "\<not> cl_idle_waiting cl" "\<not> IsActive ?l"
        "line = ''command_list_ok_begin'' \<or> line = ''command_list_begin''"
    | (cmd) "line \<notin> {''noidle'', ''command_list_begin'', ''command_list_ok_begin''}" "\<not> cl_idle_waiting cl" "\<not> IsActive ?l"
    by force
  then show ?thesis
  proof cases
    case noidle
    let ?cl = "cl\<lparr>cl_idle_waiting := False\<rparr>"
    have base: "client_base env ?cl" using b by (simp add: client_base_def)
    from client_puts_wrote[OF base_peak[OF base], of env "''OK'' @ nl"] obtain cl' where
      w: "client_puts env (''OK'' @ nl) ?cl = Some cl'" "wrote [''OK'' @ nl] ?cl cl'" by blast
    have eq: "client_process_line env c line i = Some (CR_OK, set_client c cl' (set_client c ?cl i))"
      using noidle w(1) g by (simp add: client_process_line_def on_client_def command_success_def)
    have "server_ok env {c} (set_client c ?cl i)" by (rule server_set_client[OF server cl base]) simp
    then have "server_ok env {c} (set_client c cl' (set_client c ?cl i))"
      by (rule server_set_client[of _ _ _ _ ?cl]) (use wrote_base[OF w(2) base] in simp_all)
    then show ?thesis unfolding eq by (rule linedI[where cl' = cl']) (use wrote_same[OF w(2)] in simp_all)
  next
    case nothing
    then show ?thesis using server cl g by (auto simp: client_process_line_def intro: linedI)
  next
    case idle
    then show ?thesis using server cl g by (auto simp: client_process_line_def intro: linedI)
  next
    case fin
    let ?i = "set_cmd_list c (?l\<lparr>cmd_lines := []\<rparr>) i" and ?cl = "cl\<lparr>cl_cmd_list := ?l\<lparr>cmd_lines := []\<rparr>\<rparr>"
    have f: "list_fits (sv_max_command_list_size env) (?l\<lparr>cmd_lines := []\<rparr>)" by (simp add: list_fits_def)
    note s = set_cmd_list_ok[OF server cl f]
    have r: "attending env c ?i" using s fin(2) by (simp add: attending_def)
    have ls: "list_all tame_line (cmd_lines ?l)" using fits by (simp add: list_fits_def)
    obtain res r go j cl' where j: "client_process_command_list env c (cmd_mode ?l = ModeOK) 0 (cmd_lines ?l) ?i = Some res"
        "finish_line env c res = Some (r, go, j)" "server_ok env {c} j" "in_clients j c = Some cl'"
        "cl_cmd_list cl' = ?l\<lparr>cmd_lines := []\<rparr>" "cl_input cl' = cl_input cl"
        "r \<noteq> CR_CLOSE \<longrightarrow> cl_idle_waiting cl' \<longrightarrow> cl_expired cl' \<or> \<not> cl_timer cl'" "r = CR_FINISH \<longrightarrow> \<not> cl_expired cl'"
      by (rule finish_line_ok[OF command_list_ok[OF set r ls] s(2)]) simp
    have eq: "client_process_line env c line i = Some (r, if go then set_cmd_list c (CommandList_Reset (cl_cmd_list (get_client c j))) j else j)"
      using fin j(1,2) g by (simp add: client_process_line_def CommandList_Commit_def IsOKMode_def IsActive_def Let_def)
    have f0: "list_fits (sv_max_command_list_size env) (CommandList_Reset l)" for l by (simp add: CommandList_Reset_def list_fits_def)
    show ?thesis
    proof (cases go)
      case True
      note t = set_cmd_list_ok[OF j(3,4) f0[of "cl_cmd_list (get_client c j)"]]
      show ?thesis unfolding eq if_P[OF True] by (rule linedI[OF t]) (use j(6-8) in simp_all)
    next
      case False
      show ?thesis unfolding eq if_not_P[OF False] by (rule linedI[OF j(3,4)]) (use j(6-8) in simp_all)
    qed
  next
    case add
    let ?r = "CommandList_Add (sv_max_command_list_size env) line ?l"
    have f: "list_fits (sv_max_command_list_size env) (snd ?r)"
      using fits line add(4) by (auto simp: CommandList_Add_def list_fits_def Let_def IsActive_def)
    note s = set_cmd_list_ok[OF server cl f]
    have eq: "client_process_line env c line i = Some (if fst ?r then CR_OK else CR_CLOSE, set_cmd_list c (snd ?r) i)"
      using add g by (simp add: client_process_line_def Let_def split_def)
    show ?thesis unfolding eq by (rule linedI[OF s]) (use add in \<open>auto split: if_splits\<close>)
  next
    case beg
    have l: "cmd_mode ?l = ModeDisabled" "cmd_lines ?l = []" using beg(3) fits by (auto simp: IsActive_def list_fits_def)
    define ok where "ok = (line = ''command_list_ok_begin'')"
    let ?m = "?l\<lparr>cmd_mode := if ok then ModeOK else ModeEnabled\<rparr>"
    have f: "list_fits (sv_max_command_list_size env) ?m" using l by (simp add: list_fits_def)
    note s = set_cmd_list_ok[OF server cl f]
    have eq: "client_process_line env c line i = Some (CR_OK, set_cmd_list c ?m i)"
      using beg g l by (auto simp: client_process_line_def CommandList_Begin_def ok_def)
    show ?thesis unfolding eq by (rule linedI[OF s]) (use beg in auto)
  next
    case cmd
    have r: "attending env c i" using server cl cmd(2) by (simp add: attending_def)
    obtain res r go j cl' where j: "command_process env c 0 line i = Some res"
        "finish_line env c res = Some (r, go, j)" "server_ok env {c} j" "in_clients j c = Some cl'" "cl_input cl' = cl_input cl"
        "r \<noteq> CR_CLOSE \<longrightarrow> cl_idle_waiting cl' \<longrightarrow> cl_expired cl' \<or> \<not> cl_timer cl'" "r = CR_FINISH \<longrightarrow> \<not> cl_expired cl'"
      by (rule finish_line_ok[OF command_process_ok[OF set r line] cl])
    have eq: "client_process_line env c line i = Some (r, j)"
      using cmd j(1,2) g by (simp add: client_process_line_def)
    show ?thesis unfolding eq by (rule linedI[OF j(3,4)]) (use j(5-7) in simp_all)
  qed
qed

section \<open>Input\<close>

text \<open>The complete lines of a text, as they are handed to \<open>client_process_line\<close>.\<close>

function input_lines :: "string \<Rightarrow> string list" where
  "input_lines s =
     (if newline_char \<notin> set s then []
      else let line = takeWhile (\<lambda>ch. ch \<noteq> newline_char) s
           in c_string (trim_end line) # input_lines (drop (length line + 1) s))"
  by auto
termination
  by (relation "measure length") (auto intro!: diff_less length_pos_if_in_set)

declare input_lines.simps [simp del]

lemma takeWhile_short: "x \<in> set s \<Longrightarrow> length (takeWhile (\<lambda>c. c \<noteq> x) s) < length s"
  by (induction s) auto

lemma input_lines_prefix: "set (input_lines s) \<subseteq> set (input_lines (s @ t))"
proof (induction s rule: input_lines.induct)
  case (1 s)
  show ?case
  proof (cases "newline_char \<in> set s")
    case True
    let ?line = "takeWhile (\<lambda>ch. ch \<noteq> newline_char) s"
    have l: "takeWhile (\<lambda>ch. ch \<noteq> newline_char) (s @ t) = ?line" using True by (induction s) auto
    have d: "drop (length ?line + 1) (s @ t) = drop (length ?line + 1) s @ t" using takeWhile_short[OF True] by simp
    have "input_lines (s @ t) = c_string (trim_end ?line) # input_lines (drop (length ?line + 1) s @ t)"
      using True by (subst input_lines.simps) (simp add: l d[simplified] Let_def)
    moreover have "input_lines s = c_string (trim_end ?line) # input_lines (drop (length ?line + 1) s)"
      using True by (subst input_lines.simps) (simp add: Let_def)
    ultimately show ?thesis using 1[OF _ refl] True by auto
  next
    case False
    then show ?thesis by (simp add: input_lines.simps[of s])
  qed
qed

definition unread :: "client \<Rightarrow> string" where
  "unread cl = FifoBuffer_Read (cl_input cl)"

text \<open>Closing a client, and the end of serving one.\<close>

lemma Client_Close_ok:
  assumes "server_ok env X i" "in_clients i c = Some cl"
  shows "\<exists>j. Client_Close c i = Some j \<and> server_ok env (X - {c}) j \<and> in_clients j c = None \<and>
    length (cls_list (in_client_list j)) < length (cls_list (in_client_list i))"
proof -
  let ?l = "in_client_list i"
  have l: "distinct (cls_list ?l)" "cls_size ?l = length (cls_list ?l)" "dom (in_clients i) = set (cls_list ?l)" "cls_size ?l \<le> cls_max_size ?l"
    using assms(1) by (simp_all add: server_ok_def Let_def)
  have c: "c \<in> set (cls_list ?l)" using l(3) assms(2) by auto
  then have n: "cls_list ?l \<noteq> []" "cls_size ?l > 0" using l(2) by auto
  let ?m = "?l\<lparr>cls_list := remove1 c (cls_list ?l), cls_size := cls_size ?l - 1\<rparr>"
  let ?j = "i\<lparr>in_client_list := ?m, in_clients := (in_clients i)(c := None)\<rparr>"
  have eq: "Client_Close c i = Some ?j" using c n by (simp add: Client_Close_def ClientList_Remove_def)
  have "dom (in_clients ?j) = set (cls_list ?m)" using l(1,3) by auto
  then have "server_ok env (X - {c}) ?j"
    using assms(1) l c by (auto simp: server_ok_def Let_def length_remove1 distinct_remove1)
  then show ?thesis using eq c n by (simp add: length_remove1)
qed

lemma server_done:
  assumes "server_ok env {c} i" "in_clients i c = Some cl" "client_rest cl"
  shows "server_ok env {} i"
proof -
  have "client_rest cl'" if "in_clients i k = Some cl'" for k cl'
    using that assms by (cases "k = c") (auto simp: server_ok_def)
  then show ?thesis using assms(1) by (simp add: server_ok_def)
qed

lemma server_exempt: "server_ok env {} i \<Longrightarrow> server_ok env {c} i"
  by (simp add: server_ok_def)

text \<open>What a client is between two lines that have come in one packet; only the room for input is not sure.\<close>

definition connected :: "client \<Rightarrow> bool" where
  "connected cl \<longleftrightarrow> \<not> cl_expired cl \<and> (cl_idle_waiting cl \<longrightarrow> \<not> cl_timer cl)"

lemma Socket_Flush_ok:
  assumes "client_base env cl" "\<not> cl_expired cl"
  shows "\<exists>ok sent cl'. Socket_Flush taken cl = Some (ok, sent, cl') \<and> client_base env cl' \<and>
    cl_input cl' = cl_input cl \<and> cl_idle_waiting cl' = cl_idle_waiting cl \<and>
    (if ok then \<not> cl_expired cl' \<and> cl_timer cl' = cl_timer cl else cl_expired cl' \<and> cl_timer cl')"
proof (cases "PeakBuffer_Read (cl_output cl)")
  case None
  then show ?thesis using assms by (auto simp: Socket_Flush_def)
next
  case (Some p)
  from peak.consume[OF base_peak[OF assms(1)] Some, of "min n (length p)" for n]
  have c: "\<exists>b. PeakBuffer_Consume (min n (length p)) (cl_output cl) = Some b \<and> peak_inv b" for n by fastforce
  show ?thesis
  proof (cases taken)
    case (SocketTakes n)
    then show ?thesis using c[of n] Some assms by (auto simp: Socket_Flush_def Let_def client_base_def)
  qed (use Some assms in \<open>auto simp: Socket_Flush_def SetExpired_def client_base_def\<close>)
qed

lemma OnSocketInput_ok:
  assumes set: "setting env" and server: "server_ok env {c} i" and cl: "in_clients i c = Some cl" "connected cl"
    and tame: "list_all tame_line (input_lines (unread cl))"
  obtains (more) "OnSocketInput env flush c i = Some (INPUT_MORE, False, i)" "newline_char \<notin> set (unread cl)"
  | (again) j cl' where "OnSocketInput env flush c i = Some (INPUT_AGAIN, False, j)" "newline_char \<in> set (unread cl)"
      "server_ok env {} j" "in_clients j c = Some cl'" "connected cl'"
      "unread cl' = drop (length (takeWhile (\<lambda>ch. ch \<noteq> newline_char) (unread cl)) + 1) (unread cl)"
  | (closed) kill j where "OnSocketInput env flush c i = Some (INPUT_CLOSED, kill, j)" "server_ok env {} j"
proof (cases "newline_char \<in> set (unread cl)")
  case False
  then show thesis using more cl(1) by (simp add: OnSocketInput_def get_client_def unread_def)
next
  case True
  let ?data = "unread cl" and ?line = "takeWhile (\<lambda>ch. ch \<noteq> newline_char) (unread cl)"
  let ?s = "c_string (trim_end ?line)"
  have g: "get_client c i = cl" using cl(1) by (simp add: get_client_def)
  note base = server_client[OF server cl(1), THEN conjunct1]
  have inv: "ib_head (cl_input cl) \<le> length (ib_data (cl_input cl))" "length (ib_data (cl_input cl)) \<le> INPUT_SIZE"
    using base by (simp_all add: client_base_def input_inv_def)
  have n: "length ?line + 1 \<le> length ?data" using takeWhile_short[OF True] by simp
  let ?in = "(cl_input cl)\<lparr>ib_head := ib_head (cl_input cl) + (length ?line + 1)\<rparr>"
  let ?cl = "(ScheduleSeconds cl)\<lparr>cl_input := ?in\<rparr>" and ?i = "set_client c ((ScheduleSeconds cl)\<lparr>cl_input := ?in\<rparr>) i"
  have ln: "length ?data = length (ib_data (cl_input cl)) - ib_head (cl_input cl)" by (simp add: unread_def FifoBuffer_Read_def)
  have room: "ib_head (cl_input cl) + (length ?line + 1) \<le> length (ib_data (cl_input cl))" using inv(1) n ln by linarith
  then have ok_in: "FifoBuffer_Consume INPUT_SIZE (length ?line + 1) (cl_input cl) = Some ?in" "input_inv ?in"
    using inv by (simp_all add: FifoBuffer_Consume_def input_inv_def)
  have after: "unread ?cl = drop (length ?line + 1) ?data" "\<not> FifoBuffer_IsFull INPUT_SIZE ?in"
    by (simp_all add: unread_def FifoBuffer_Read_def FifoBuffer_IsFull_def add.commute)
  have server1: "server_ok env {c} ?i"
    by (rule server_set_client[OF server cl(1)]) (use base ok_in(2) in \<open>simp_all add: client_base_def ScheduleSeconds_def\<close>)
  have tame1: "tame_line ?s" using tame True by (subst (asm) input_lines.simps) (simp add: Let_def)
  have cl1: "in_clients ?i c = Some ?cl" by simp
  from line_ok[OF set server1 cl1 tame1] obtain r j cl' where
    j: "client_process_line env c ?s ?i = Some (r, j)" "server_ok env {c} j" "in_clients j c = Some cl'" "cl_input cl' = ?in"
      "r \<noteq> CR_CLOSE \<longrightarrow> cl_idle_waiting cl' \<longrightarrow> cl_expired cl' \<or> \<not> cl_timer cl'" "r = CR_FINISH \<longrightarrow> \<not> cl_expired cl'"
    by (auto simp: lined_def)
  have gj: "get_client c j = cl'" using j(3) by (simp add: get_client_def)
  have un: "unread cl' = drop (length ?line + 1) ?data" using after(1) j(4) by (simp add: unread_def)
  obtain k where k: "Client_Close c j = Some k" "server_ok env {} k"
    using Client_Close_ok[OF j(2,3)] by auto
  have eq: "OnSocketInput env flush c i =
      (case r of
         CR_KILL \<Rightarrow> do { i \<leftarrow> Client_Close c j; Some (INPUT_CLOSED, True, i) }
       | CR_FINISH \<Rightarrow> do {
           (ok, sent, cl) \<leftarrow> Socket_Flush flush cl';
           let i = set_client c cl j;
           i \<leftarrow> (if ok then Client_Close c i else Some i);
           Some (INPUT_CLOSED, False, i) }
       | CR_CLOSE \<Rightarrow> do { i \<leftarrow> Client_Close c j; Some (INPUT_CLOSED, False, i) }
       | _ \<Rightarrow> if cl_expired cl' then do { i \<leftarrow> Client_Close c j; Some (INPUT_CLOSED, False, i) }
              else Some (INPUT_AGAIN, False, j))"
  proof -
    have sch: "cl_input (ScheduleSeconds cl) = cl_input cl" by (simp add: ScheduleSeconds_def)
    show ?thesis using True
      unfolding OnSocketInput_def Let_def g unread_def[symmetric] sch ok_in(1) j(1) Option.bind.simps prod.case gj by simp
  qed
  consider "r = CR_KILL" | "r = CR_CLOSE" | "r = CR_FINISH" | "r \<in> {CR_OK, CR_IDLE, CR_ERROR}" by (cases r) auto
  then show thesis
  proof cases
    case 1
    then show thesis using closed[of True k] eq k by simp
  next
    case 2
    then show thesis using closed[of False k] eq k by simp
  next
    case 3
    note b = server_client[OF j(2,3), THEN conjunct1]
    from Socket_Flush_ok[OF b, of flush] j(6) 3 obtain ok sent cl2 where f: "Socket_Flush flush cl' = Some (ok, sent, cl2)"
      "client_base env cl2" "if ok then \<not> cl_expired cl2 else cl_expired cl2 \<and> cl_timer cl2" by (auto split: if_splits)
    have s2: "server_ok env {c} (set_client c cl2 j)" by (rule server_set_client[OF j(2,3) f(2)]) simp
    show thesis
    proof (cases ok)
      case True
      obtain l where "Client_Close c (set_client c cl2 j) = Some l" "server_ok env {} l"
        using Client_Close_ok[OF s2, of c cl2] by auto
      then show thesis using closed[of False l] eq 3 f(1) True by simp
    next
      case False
      have "server_ok env {} (set_client c cl2 j)"
        by (rule server_done[OF s2, of cl2]) (use f(3) False in \<open>simp_all add: client_rest_def\<close>)
      then show thesis using closed[of False "set_client c cl2 j"] eq 3 f(1) False by simp
    qed
  next
    case 4
    show thesis
    proof (cases "cl_expired cl'")
      case True
      then show thesis using closed[of False k] eq k 4 by auto
    next
      case False
      have r: "client_rest cl'" using False j(4,5) 4 after(2) by (auto simp: client_rest_def)
      have "OnSocketInput env flush c i = Some (INPUT_AGAIN, False, j)" using eq 4 False by auto
      then show thesis
        by (rule again[OF _ True server_done[OF j(2,3) r] j(3) _ un]) (use False j(5) 4 in \<open>auto simp: connected_def\<close>)
    qed
  qed
qed

end
