(* ===== verification/Client_System.thy ===== *)
theory Client_System
  imports Client_Events
begin

text \<open>
  The clients as a transition system: connections, packets, sockets that can be written to or are closed,
  timeouts, idle events, what the playlist and the player do meanwhile, and the end of the daemon.
\<close>

section \<open>A packet\<close>

lemma tame_rest:
  assumes "list_all tame_line (input_lines s)" "newline_char \<in> set s"
  shows "list_all tame_line (input_lines (drop (length (takeWhile (\<lambda>ch. ch \<noteq> newline_char) s) + 1) s))"
  using assms by (subst (asm) input_lines.simps) (simp add: Let_def)

lemma ResumeInput_loop_ok:
  assumes set: "setting env"
  shows "server_ok env {c} i \<Longrightarrow> in_clients i c = Some cl \<Longrightarrow> connected cl \<Longrightarrow>
    (unread cl = [] \<Longrightarrow> \<not> FifoBuffer_IsFull INPUT_SIZE (cl_input cl)) \<Longrightarrow>
    list_all tame_line (input_lines (unread cl)) \<Longrightarrow> length (unread cl) < n \<Longrightarrow>
    \<exists>b kill j. ResumeInput_loop n env flush c i = Some (b, kill, j) \<and> server_ok env {} j"
proof (induction n arbitrary: i cl)
  case (Suc n)
  have g: "get_client c i = cl" using Suc.prems(2) by (simp add: get_client_def)
  show ?case
  proof (cases "unread cl = []")
    case True
    have "server_ok env {} i"
      by (rule server_done[OF Suc.prems(1,2)]) (use Suc.prems(3) Suc.prems(4)[OF True] in \<open>simp add: client_rest_def connected_def\<close>)
    then show ?thesis using True g by (auto simp: unread_def)
  next
    case ne: False
    from set Suc.prems(1,2,3,5) show ?thesis
    proof (cases rule: OnSocketInput_ok[of env c i cl flush])
      case more
      show ?thesis
      proof (cases "FifoBuffer_IsFull INPUT_SIZE (cl_input cl)")
        case True
        have base: "client_base env (SetExpired cl)"
          using server_client[OF Suc.prems(1,2)] by (simp add: client_base_def SetExpired_def)
        have s: "server_ok env {c} (set_client c (SetExpired cl) i)" by (rule server_set_client[OF Suc.prems(1,2) base]) simp
        have "server_ok env {} (set_client c (SetExpired cl) i)"
          by (rule server_done[OF s, of "SetExpired cl"]) (use Suc.prems(3) in \<open>simp_all add: client_rest_def SetExpired_def connected_def\<close>)
        then show ?thesis using more(1) ne g True by (auto simp: unread_def)
      next
        case False
        have "server_ok env {} i"
          by (rule server_done[OF Suc.prems(1,2)]) (use Suc.prems(3) False in \<open>simp add: client_rest_def connected_def\<close>)
        then show ?thesis using more(1) ne g False by (auto simp: unread_def)
      qed
    next
      case (again j cl')
      have f: "\<not> FifoBuffer_IsFull INPUT_SIZE (cl_input cl')"
        using server_client[OF again(3,4)] again(5) by (simp add: client_rest_def connected_def)
      have pos: "0 < length (unread cl)" using ne by simp
      have l: "length (unread cl') < n" using again(6) Suc.prems(6) pos by (simp only: length_drop)
      have t: "list_all tame_line (input_lines (unread cl'))"
        using tame_rest[OF Suc.prems(5) again(2)] by (simp add: again(6))
      from Suc.IH[OF server_exempt[OF again(3)] again(4,5) f t l] show ?thesis using again(1) ne g by (simp add: unread_def)
    next
      case (closed kill j)
      then show ?thesis using ne g by (auto simp: unread_def)
    qed
  qed
qed simp

text \<open>All bytes of the packet that have room.\<close>

definition packet :: "socket_read \<Rightarrow> string" where
  "packet got = (case got of ReadBytes s \<Rightarrow> s | _ \<Rightarrow> [])"

lemma ReadToBuffer_ok:
  assumes "client_base env cl" "client_rest cl" "\<not> cl_expired cl"
  obtains (got) n cl' where "ReadToBuffer got cl = Some (True, cl')" "client_base env cl'" "connected cl'"
      "unread cl' = unread cl @ take n (packet got)" "unread cl' = [] \<longrightarrow> \<not> FifoBuffer_IsFull INPUT_SIZE (cl_input cl')"
  | (lost) cl' where "ReadToBuffer got cl = Some (False, cl')" "client_base env cl'" "client_rest cl'"
proof -
  let ?b = "cl_input cl"
  have inv: "ib_head ?b \<le> length (ib_data ?b)" "length (ib_data ?b) \<le> INPUT_SIZE" "\<not> FifoBuffer_IsFull INPUT_SIZE ?b"
    using assms by (simp_all add: client_base_def input_inv_def client_rest_def)
  let ?d = "drop (ib_head ?b) (ib_data ?b)"
  let ?s = "\<lparr>ib_head = 0, ib_data = ?d\<rparr>"
  let ?room = "INPUT_SIZE - length ?d"
  have shift: "FifoBuffer_Shift INPUT_SIZE ?b = Some ?s"
    using inv(1,2) by (cases ?b) (auto simp: FifoBuffer_Shift_def)
  have room: "?room \<noteq> 0" using inv by (auto simp: FifoBuffer_IsFull_def)
  have wr: "FifoBuffer_Write INPUT_SIZE ?b = Some (?room, ?s)" using shift by (simp add: FifoBuffer_Write_def)
  have size: "INPUT_SIZE > 0" by (simp add: INPUT_SIZE_def)
  let ?cl = "cl\<lparr>cl_input := ?s\<rparr>"
  have base: "client_base env ?cl" using assms(1) inv(2) by (simp add: client_base_def input_inv_def)
  have op: "connected ?cl" using assms(2,3) by (simp add: connected_def client_rest_def)
  have un: "unread ?cl = unread cl" by (simp add: unread_def FifoBuffer_Read_def)
  have nf: "unread ?cl = [] \<longrightarrow> \<not> FifoBuffer_IsFull INPUT_SIZE ?s"
    using size by (auto simp: unread_def FifoBuffer_Read_def FifoBuffer_IsFull_def)
  show thesis
  proof (cases got)
    case (ReadBytes s)
    let ?a = "?s\<lparr>ib_data := ?d @ take ?room s\<rparr>"
    have fits: "length ?d + length (take ?room s) \<le> INPUT_SIZE" using inv(2) by simp
    have app: "FifoBuffer_Append INPUT_SIZE (take ?room s) ?s = Some ?a"
      using fits by (simp add: FifoBuffer_Append_def)
    show thesis
    proof (rule that(1))
      show "ReadToBuffer got cl = Some (True, ?cl\<lparr>cl_input := ?a\<rparr>)"
        using ReadBytes assms(3) wr room app by (simp add: ReadToBuffer_def)
      show "client_base env (?cl\<lparr>cl_input := ?a\<rparr>)" using base fits by (simp add: client_base_def input_inv_def)
      show "connected (?cl\<lparr>cl_input := ?a\<rparr>)" using op by (simp add: connected_def)
      show "unread (?cl\<lparr>cl_input := ?a\<rparr>) = unread cl @ take ?room (packet got)"
        using ReadBytes by (simp add: unread_def FifoBuffer_Read_def packet_def)
      show "unread (?cl\<lparr>cl_input := ?a\<rparr>) = [] \<longrightarrow> \<not> FifoBuffer_IsFull INPUT_SIZE (cl_input (?cl\<lparr>cl_input := ?a\<rparr>))"
        using size by (auto simp: unread_def FifoBuffer_Read_def FifoBuffer_IsFull_def)
    qed
  next
    case ReadAgain
    show thesis
      by (rule that(1)[of ?cl 0]) (use ReadAgain assms(3) wr room base op un nf in \<open>simp_all add: ReadToBuffer_def\<close>)
  next
    case ReadEnd
    show thesis
      by (rule that(2)[of "SetExpired ?cl"])
        (use ReadEnd assms(3) wr room base in \<open>simp_all add: ReadToBuffer_def SetExpired_def client_base_def client_rest_def\<close>)
  next
    case ReadFails
    show thesis
      by (rule that(2)[of "SetExpired ?cl"])
        (use ReadFails assms(3) wr room base in \<open>simp_all add: ReadToBuffer_def SetExpired_def client_base_def client_rest_def\<close>)
  qed
qed

lemma OnSocketReady_ok:
  assumes set: "setting env" and server: "server_ok env {} i" and cl: "in_clients i c = Some cl" "\<not> cl_expired cl"
    and tame: "list_all tame_line (input_lines (unread cl @ packet got))"
  shows "\<exists>b kill j. OnSocketReady env got flush c i = Some (b, kill, j) \<and> server_ok env {} j"
proof -
  have g: "get_client c i = cl" using cl(1) by (simp add: get_client_def)
  note b = server_client[OF server cl(1), simplified]
  have nf: "\<not> FifoBuffer_IsFull INPUT_SIZE (cl_input cl)" using b cl(2) by (simp add: client_rest_def)
  from b have base: "client_base env cl" and rest: "client_rest cl" by simp_all
  from base rest cl(2) show ?thesis
  proof (cases rule: ReadToBuffer_ok[of env cl got])
    case (got n cl')
    let ?i = "set_client c cl' i"
    have s: "server_ok env {c} ?i" by (rule server_set_client[OF server_exempt[OF server] cl(1) got(2)]) simp
    have "input_lines (unread cl') = input_lines (unread cl @ take n (packet got))" by (simp add: got(4))
    moreover have "set (input_lines (unread cl @ take n (packet got))) \<subseteq> set (input_lines (unread cl @ packet got))"
      using input_lines_prefix[of "unread cl @ take n (packet got)" "drop n (packet got)"] by simp
    ultimately have t: "list_all tame_line (input_lines (unread cl'))" using tame by (auto simp: list_all_iff)
    have "\<exists>b kill j. ResumeInput_loop (length (unread cl') + 1) env flush c ?i = Some (b, kill, j) \<and> server_ok env {} j"
      by (rule ResumeInput_loop_ok[OF set s _ got(3)]) (use got(5) t in simp_all)
    then show ?thesis using got(1,3) g nf cl(2) by (simp add: OnSocketReady_def ResumeInput_def unread_def connected_def del: ResumeInput_loop.simps)
  next
    case (lost cl')
    have "server_ok env {} (set_client c cl' i)" by (rule server_set_client[OF server cl(1) lost(2)]) (use lost(3) in simp)
    then show ?thesis using lost(1) g nf cl(2) by (auto simp: OnSocketReady_def)
  qed
qed

section \<open>Other events\<close>

lemma client_new_ok:
  assumes "server_ok env {} i"
  shows "server_ok env {} (client_new env uid i)"
proof (cases "ClientList_IsFull (in_client_list i)")
  case False
  let ?c = "in_next_client_num i" and ?l = "in_client_list i"
  have "False" if "in_clients i ?c = Some cl" for cl using assms that by (auto simp: server_ok_def)
  then have new: "in_clients i ?c = None" by (cases "in_clients i ?c") auto
  have l: "distinct (cls_list ?l)" "cls_size ?l = length (cls_list ?l)" "dom (in_clients i) = set (cls_list ?l)"
    using assms by (simp_all add: server_ok_def Let_def)
  have "?c \<notin> set (cls_list ?l)" using new l(3) by auto
  moreover have "client_base env (new_Client env uid i)" "client_rest (new_Client env uid i)"
    by (simp_all add: client_base_def client_rest_def new_Client_def new_FifoBuffer_def input_inv_def new_CommandListBuilder_def
        list_fits_def new_PeakBuffer_def peak_inv_def none_or_def FifoBuffer_IsFull_def INPUT_SIZE_def)
  ultimately show ?thesis
    using assms False l by (auto simp: server_ok_def client_new_def ClientList_Add_def ClientList_IsFull_def Let_def intro: less_SucI)
qed (use assms in \<open>simp add: client_new_def\<close>)

lemma for_clients_ok:
  assumes "\<And>cl. client_base env cl \<Longrightarrow> client_rest cl \<Longrightarrow> \<exists>cl'. f cl = Some cl' \<and> client_base env cl' \<and> client_rest cl'"
  shows "server_ok env {} i \<Longrightarrow> set cs \<subseteq> dom (in_clients i) \<Longrightarrow> \<exists>j. for_clients f cs i = Some j \<and> server_ok env {} j"
proof (induction cs arbitrary: i)
  case (Cons c cs)
  obtain cl where cl: "in_clients i c = Some cl" using Cons.prems(2) by auto
  obtain cl' where f: "f cl = Some cl'" "client_base env cl'" "client_rest cl'"
    using assms server_client[OF Cons.prems(1) cl] by auto
  have "server_ok env {} (set_client c cl' i)" by (rule server_set_client[OF Cons.prems(1) cl f(2)]) (use f(3) in simp)
  moreover have "set cs \<subseteq> dom (in_clients (set_client c cl' i))" using Cons.prems(2) by auto
  ultimately show ?case using Cons.IH cl f(1) by (simp add: on_client_def)
qed simp

lemma idle_event_ok:
  assumes "server_ok env {} i"
  shows "\<exists>j. idle_event_emitted env i = Some j \<and> server_ok env {} j"
proof -
  obtain flags idle where g: "idle_get (w_idle (in_world i)) = (flags, idle)" by fastforce
  let ?i = "i\<lparr>in_world := (in_world i)\<lparr>w_idle := idle\<rparr>\<rparr>"
  have s: "server_ok env {} ?i" using assms by (intro server_world world_idle) (simp_all add: server_ok_def)
  have "\<exists>j. for_clients (IdleAdd env flags) (cls_list (in_client_list ?i)) ?i = Some j \<and> server_ok env {} j"
    by (rule for_clients_ok[OF _ s]) (use IdleAdd_ok in \<open>blast\<close>, use s in \<open>simp add: server_ok_def Let_def\<close>)
  then show ?thesis using g s by (simp add: idle_event_emitted_def ClientList_IdleAdd_def Let_def)
qed

lemma OnTimeout_ok:
  assumes "server_ok env {} i" "in_clients i c = Some cl" "cl_timer cl"
  shows "\<exists>j. OnTimeout c i = Some j \<and> server_ok env {} j"
proof -
  have "client_rest cl" using server_client[OF assms(1,2)] by simp
  then have "cl_expired cl \<or> \<not> cl_idle_waiting cl" using assms(3) by (auto simp: client_rest_def split: if_splits)
  then show ?thesis using Client_Close_ok[OF assms(1,2)] assms(2) by (auto simp: OnTimeout_def get_client_def)
qed

lemma flush_ok:
  assumes "server_ok env {} i" "in_clients i c = Some cl" "\<not> cl_expired cl"
  shows "\<exists>ok sent cl'. Socket_Flush flush cl = Some (ok, sent, cl') \<and> server_ok env {} (set_client c cl' i)"
proof -
  note b = server_client[OF assms(1,2), simplified]
  from Socket_Flush_ok[of env cl flush] b assms(3) obtain ok sent cl' where f: "Socket_Flush flush cl = Some (ok, sent, cl')"
    "client_base env cl'" "cl_input cl' = cl_input cl" "cl_idle_waiting cl' = cl_idle_waiting cl"
    "if ok then \<not> cl_expired cl' \<and> cl_timer cl' = cl_timer cl else cl_expired cl' \<and> cl_timer cl'" by blast
  have "client_rest cl'" using b assms(3) f(3-5) by (auto simp: client_rest_def split: if_splits)
  then show ?thesis using f(1) server_set_client[OF assms(1,2) f(2)] by blast
qed

lemma CloseAll_ok:
  "server_ok env {} i \<Longrightarrow> length (cls_list (in_client_list i)) \<le> n \<Longrightarrow>
   \<exists>j. CloseAll_loop n i = Some j \<and> server_ok env {} j \<and> cls_list (in_client_list j) = []"
proof (induction n arbitrary: i)
  case 0
  then show ?case by (simp add: CloseAll_loop.simps server_ok_def Let_def)
next
  case (Suc n)
  show ?case
  proof (cases "cls_list (in_client_list i)")
    case Nil
    then show ?thesis using Suc.prems(1) by (simp add: CloseAll_loop.simps server_ok_def Let_def)
  next
    case (Cons c cs)
    have "c \<in> dom (in_clients i)" using Suc.prems(1) Cons by (simp add: server_ok_def Let_def)
    then obtain cl where "in_clients i c = Some cl" by auto
    from Client_Close_ok[OF Suc.prems(1) this] obtain j where j: "Client_Close c i = Some j" "server_ok env {} j"
      "length (cls_list (in_client_list j)) < length (cls_list (in_client_list i))" by auto
    from Suc.IH[OF j(2)] j(3) Suc.prems(2) show ?thesis using Cons j(1) by (subst CloseAll_loop.simps) simp
  qed
qed

section \<open>Sequences of events\<close>

datatype event =
  EvConnect int | EvReadable nat socket_read socket_answer | EvWritable nat socket_answer | EvWritten nat socket_answer
| EvClosed nat | EvTimeout nat | EvIdle | EvRequest request | EvShutdown

text \<open>
  \<open>EvRequest\<close> is what the playlist does on its own when the player has moved on, the player thread between two
  events, and the update of the database.
\<close>

fun event_step :: "unit thread_ext server_env \<Rightarrow> event \<Rightarrow> unit thread_ext server \<Rightarrow> unit thread_ext server option" where
  "event_step env (EvConnect uid) i = Some (client_new env uid i)"
| "event_step env (EvReadable c got flush) i = map_option (snd \<circ> snd) (OnSocketReady env got flush c i)"
| "event_step env (EvWritable c flush) i = map_option snd (OnSocketWritable flush c i)"
| "event_step env (EvWritten c flush) i = OnIdle flush c i"
| "event_step env (EvClosed c) i = Some (OnSocketClosed c i)"
| "event_step env (EvTimeout c) i = OnTimeout c i"
| "event_step env EvIdle i = idle_event_emitted env i"
| "event_step env (EvRequest r) i = on_world (perform thread_env r) i"
| "event_step env EvShutdown i = CloseAll i"

definition has_client :: "(client \<Rightarrow> bool) \<Rightarrow> nat \<Rightarrow> 'e server \<Rightarrow> bool" where
  "has_client P c i = (case in_clients i c of None \<Rightarrow> False | Some cl \<Rightarrow> P cl)"

text \<open>
  What the event loop guarantees: sockets are watched while they are open, for writing only when there is
  something to write, and a timeout has been scheduled.  The lines that come in are not among the exceptions.
\<close>

fun event_legal :: "event \<Rightarrow> unit thread_ext server \<Rightarrow> bool" where
  "event_legal (EvReadable c got flush) i =
     has_client (\<lambda>cl. \<not> cl_expired cl \<and> list_all tame_line (input_lines (unread cl @ packet got))) c i"
| "event_legal (EvWritable c flush) i = has_client (\<lambda>cl. \<not> cl_expired cl \<and> \<not> PeakBuffer_IsEmpty (cl_output cl)) c i"
| "event_legal (EvWritten c flush) i = has_client (\<lambda>cl. \<not> cl_expired cl) c i"
| "event_legal (EvClosed c) i = has_client (\<lambda>cl. \<not> cl_expired cl) c i"
| "event_legal (EvTimeout c) i = has_client cl_timer c i"
| "event_legal (EvRequest r) i = (legal r (in_world i) \<and> \<not> is_seek r \<and> \<not> brackets r)"
| "event_legal _ i = True"

lemma has_clientE:
  assumes "has_client P c i"
  obtains cl where "in_clients i c = Some cl" "get_client c i = cl" "P cl"
  using assms by (auto simp: has_client_def get_client_def split: option.splits)

lemma event_ok:
  assumes set: "setting env" and ok: "server_ok env {} i" and l: "event_legal e i"
  shows "\<exists>j. event_step env e i = Some j \<and> server_ok env {} j"
proof (cases e)
  case (EvConnect uid)
  then show ?thesis using client_new_ok[OF ok] by simp
next
  case (EvReadable c got flush)
  then obtain cl where "in_clients i c = Some cl" "\<not> cl_expired cl" "list_all tame_line (input_lines (unread cl @ packet got))"
    using l by (auto elim!: has_clientE)
  from OnSocketReady_ok[OF set ok this, of flush] show ?thesis using EvReadable by auto
next
  case (EvWritable c flush)
  then obtain cl where cl: "in_clients i c = Some cl" "get_client c i = cl" "\<not> cl_expired cl" "\<not> PeakBuffer_IsEmpty (cl_output cl)"
    using l by (auto elim!: has_clientE)
  from flush_ok[OF ok cl(1,3), of flush] show ?thesis using EvWritable cl by (auto simp: OnSocketWritable_def)
next
  case (EvWritten c flush)
  then obtain cl where cl: "in_clients i c = Some cl" "get_client c i = cl" "\<not> cl_expired cl"
    using l by (auto elim!: has_clientE)
  from flush_ok[OF ok cl(1,3), of flush] show ?thesis using EvWritten cl by (auto simp: OnIdle_def)
next
  case (EvClosed c)
  then obtain cl where cl: "in_clients i c = Some cl" "get_client c i = cl" "\<not> cl_expired cl"
    using l by (auto elim!: has_clientE)
  have "server_ok env {} (set_client c (SetExpired cl) i)"
    by (rule server_set_client[OF ok cl(1)])
      (use server_client[OF ok cl(1)] cl(3) in \<open>simp_all add: client_base_def client_rest_def SetExpired_def\<close>)
  then show ?thesis using EvClosed cl(2) by (simp add: OnSocketClosed_def)
next
  case (EvTimeout c)
  then obtain cl where "in_clients i c = Some cl" "cl_timer cl" using l by (auto elim!: has_clientE)
  from OnTimeout_ok[OF ok this] show ?thesis using EvTimeout by simp
next
  case EvIdle
  then show ?thesis using idle_event_ok[OF ok] by simp
next
  case (EvRequest r)
  have "world_ok (in_world i)" using ok by (simp add: server_ok_def)
  from request_ok[OF this, of r] l EvRequest obtain w where "perform thread_env r (in_world i) = Some w" "world_ok w" by auto
  then show ?thesis using EvRequest server_world[OF ok] by (auto simp: on_world_def)
next
  case EvShutdown
  then show ?thesis using CloseAll_ok[OF ok order_refl] by (auto simp: CloseAll_def)
qed

text \<open>The server when its event loop starts, and the states it can get into.\<close>

definition server_start :: "unit thread_ext server \<Rightarrow> bool" where
  "server_start i \<longleftrightarrow> world_ok (in_world i) \<and> in_clients i = Map.empty \<and> cls_list (in_client_list i) = [] \<and>
     cls_size (in_client_list i) = 0"

inductive serving :: "unit thread_ext server_env \<Rightarrow> unit thread_ext server \<Rightarrow> bool" for env where
  start: "server_start i \<Longrightarrow> serving env i"
| event: "serving env i \<Longrightarrow> event_legal e i \<Longrightarrow> event_step env e i = Some j \<Longrightarrow> serving env j"

lemma serving_ok:
  assumes "setting env" "serving env i"
  shows "server_ok env {} i"
  using assms(2)
proof induction
  case (start i)
  then show ?case by (simp add: server_start_def server_ok_def)
next
  case (event i e j)
  then show ?case using event_ok[OF assms(1) event.IH event.hyps(2)] by simp
qed

end
