(* ===== verification/Server_Properties.thy ===== *)
theory Server_Properties
  imports Client_System Playlist_Properties
begin

text \<open>
  The properties of the server as a whole: whatever clients send, whenever their sockets take bytes, time
  out or are closed, and whatever the player does meanwhile.
\<close>

section \<open>A server to look at\<close>

text \<open>An empty playlist and no client; then one client that has been accepted.\<close>

definition demo_sv :: "unit thread_ext server_env" where
  "demo_sv =
     \<lparr>sv_player = thread_env, sv_max_command_list_size = 2048, sv_max_output_buffer_size = 8192, sv_huge_memory = True,
      sv_load_file = (\<lambda>_. None), sv_database = None, sv_visit = (\<lambda>_. ([], None)), sv_prefixes = [],
      sv_valid_path = (\<lambda>_. True), sv_euid = 0, sv_stat = (\<lambda>_. Inl []), sv_volume = 50, sv_volume_change = (\<lambda>_. True),
      sv_updating = 0, sv_update_enqueue = (\<lambda>_ _. 0), sv_music_directory = None, sv_ignore_tag = (\<lambda>_. False),
      sv_sticker_enabled = False, sv_strerror = [], sv_relative_path = (\<lambda>p. p), sv_time_print = (\<lambda>_. []),
      sv_other = (\<lambda>_ _ _ i. Some (CR_OK, i))\<rparr>"

definition demo_start :: "unit thread_ext server" where
  "demo_start =
     \<lparr>in_world = demo_list 3, in_clients = Map.empty, in_client_list = \<lparr>cls_max_size = 10, cls_size = 0, cls_list = []\<rparr>,
      in_next_client_num = 0, in_current_command = None, in_command_list_num = 0, in_outputs = [],
      in_output_state_version = 0, in_passwords = [], in_permission_default = 15\<rparr>"





section \<open>Assertions\<close>





section \<open>Bounds\<close>



section \<open>Idle\<close>

text \<open>
  C17: No change is lost between two \<open>idle\<close> commands.  What has changed while the client did not wait is collected;
  if the client asks for any of it, the response names exactly what it asks for and what has changed, each once, in
  the order of the protocol.  Otherwise the client waits without a timeout, and the first event that it asks for is
  answered at once.
\<close>

theorem idle_collects:
  assumes "peak_inv (cl_output cl)" "\<not> cl_idle_waiting cl" "\<not> cl_expired cl"
  shows "\<exists>cl1 cl2. idle_adds env fs cl = Some cl1 \<and> IdleWait env wanted cl1 = Some cl2 \<and>
    (let changes = fold (\<lambda>f a. or a f) fs (cl_idle_flags cl)
     in if and changes wanted \<noteq> 0 then answered (and changes wanted) cl cl2
        else still_waits changes wanted cl cl2 \<and>
          (\<forall>g. \<exists>cl3. IdleAdd env g cl2 = Some cl3 \<and>
             (if and g wanted \<noteq> 0 then answered (and g wanted) cl cl3 else still_waits (or changes g) wanted cl cl3)))"
proof -
  let ?all = "fold (\<lambda>f a. or a f) fs (cl_idle_flags cl)"
  let ?cl1 = "cl\<lparr>cl_idle_flags := ?all\<rparr>"
  have "\<exists>cl2. IdleWait env wanted ?cl1 = Some cl2 \<and>
      (if and ?all wanted = 0 then still_waits ?all wanted ?cl1 cl2 else answered (and ?all wanted) ?cl1 cl2)"
    using IdleWait_reports[of ?cl1 env wanted] assms by (simp cong: if_cong)
  then obtain cl2 where w: "IdleWait env wanted ?cl1 = Some cl2"
    "if and ?all wanted = 0 then still_waits ?all wanted ?cl1 cl2 else answered (and ?all wanted) ?cl1 cl2" by blast
  show ?thesis
  proof (cases "and ?all wanted = 0")
    case True
    then have s: "still_waits ?all wanted cl cl2" using w(2) by (simp add: still_waits_def)
    have d: "and (or ?all g) wanted = and g wanted" for g using True by (simp add: bit.conj_disj_distrib2)
    have 1: "\<exists>cl3. IdleAdd env g cl2 = Some cl3 \<and>
        (if and g wanted \<noteq> 0 then answered (and g wanted) cl cl3 else still_waits (or ?all g) wanted cl cl3)" for g
      using IdleAdd_reports[OF _ s, of env g] s assms d[of g] by (auto simp: still_waits_def answered_def)
    show ?thesis
      by (intro exI[of _ ?cl1] exI[of _ cl2] conjI idle_adds_collects[OF assms(2,3)] w(1))
        (simp only: Let_def True s simp_thms if_False, intro allI 1)
  next
    case False
    then have a: "answered (and ?all wanted) cl cl2" using w(2) by (simp add: answered_def)
    show ?thesis
      by (intro exI[of _ ?cl1] exI[of _ cl2] conjI idle_adds_collects[OF assms(2,3)] w(1)) (simp add: Let_def False a)
  qed
qed

theorem idle_collects_witness:
  "\<exists>cl1 cl2. idle_adds demo_sv [IDLE_PLAYLIST, IDLE_MIXER, IDLE_PLAYLIST] (new_Client demo_sv 0 demo_start) = Some cl1 \<and>
     IdleWait demo_sv (or IDLE_PLAYLIST IDLE_OPTIONS) cl1 = Some cl2 \<and> answered IDLE_PLAYLIST (new_Client demo_sv 0 demo_start) cl2 \<and>
     idle_list_of IDLE_PLAYLIST = [''playlist'']"
proof -
  let ?cl = "new_Client demo_sv 0 demo_start"
  have "peak_inv (cl_output ?cl)" "\<not> cl_idle_waiting ?cl" "\<not> cl_expired ?cl" "cl_idle_flags ?cl = 0"
    by (simp_all add: new_Client_def peak_inv_def new_PeakBuffer_def none_or_def)
  moreover have "idle_list_of IDLE_PLAYLIST = [''playlist'']" by code_simp
  moreover have "and (or (or (or 0 IDLE_PLAYLIST) IDLE_MIXER) IDLE_PLAYLIST) (or IDLE_PLAYLIST IDLE_OPTIONS) = IDLE_PLAYLIST"
    "IDLE_PLAYLIST \<noteq> 0" by code_simp+
  ultimately show ?thesis
    using idle_collects[of ?cl demo_sv "[IDLE_PLAYLIST, IDLE_MIXER, IDLE_PLAYLIST]" "or IDLE_PLAYLIST IDLE_OPTIONS"]
    by (simp add: Let_def)
qed

end
